(* ===== verification/Prelude.thy ===== *)
theory Prelude
  imports Complex_Main "HOL-Library.Word" "HOL-Library.AList"
    "HOL-Library.Char_ord" "HOL-Library.List_Lexorder"
begin

text \<open>
  Shared vocabulary of the development: Python's exceptions as values, the error-passing
  bind and its list version, insertion-ordered dictionaries, floats with their special
  values, and the lemmas about them that the component theories share.

  Conventions. A Python \<open>int\<close> is an \<open>int\<close>, a \<open>str\<close> is a \<open>string\<close> whose characters are the
  code points below 256, a \<open>dict\<close> is an association list updated in place (so that it keeps
  Python's insertion order), and a call that may raise returns \<open>py_error + 'a\<close>.
  A finite \<open>float\<close> is an exact \<open>real\<close>: rounding is not modelled, but the special values
  are where the code tests for them.
\<close>

section \<open>Errors as values\<close>

datatype py_error =
    ValueError | TypeError | OverflowError | KeyError | IndexError | AttributeError
  | RuntimeError | ZeroDivisionError | ImportError | AssertionError | TimeoutError
  | SubmissionError | NoValidatorFoundError | RequestError | HTTPException nat

type_synonym 'a res = "py_error + 'a"

named_theorems res_simps \<open>elimination of the error-passing combinators\<close>

fun rbind :: "'e + 'a \<Rightarrow> ('a \<Rightarrow> 'e + 'b) \<Rightarrow> 'e + 'b" where
  "rbind (Inl e) f = Inl e"
| "rbind (Inr x) f = f x"

lemma rbind_eq_Inr [res_simps]: "(rbind m f = Inr y) = (\<exists>x. m = Inr x \<and> f x = Inr y)"
  by (cases m) auto

lemma rbind_eq_Inl [res_simps]:
  "(rbind m f = Inl e) = (m = Inl e \<or> (\<exists>x. m = Inr x \<and> f x = Inl e))"
  by (cases m) auto

lemma rbind_assoc: "rbind (rbind m f) g = rbind m (\<lambda>x. rbind (f x) g)"
  by (cases m) auto

fun traverse :: "('a \<Rightarrow> 'e + 'b) \<Rightarrow> 'a list \<Rightarrow> 'e + 'b list" where
  "traverse f [] = Inr []"
| "traverse f (x # xs) = rbind (f x) (\<lambda>y. rbind (traverse f xs) (\<lambda>ys. Inr (y # ys)))"

lemma traverse_Inr_iff:
  "(traverse f xs = Inr ys) = list_all2 (\<lambda>x y. f x = Inr y) xs ys"
proof (induction xs arbitrary: ys)
  case Nil
  then show ?case by auto
next
  case (Cons x xs)
  then show ?case by (auto simp: res_simps list_all2_Cons1)
qed

lemma traverse_length: "traverse f xs = Inr ys \<Longrightarrow> length ys = length xs"
  by (auto simp: traverse_Inr_iff dest: list_all2_lengthD)

lemma traverse_total: "(\<And>x. x \<in> set xs \<Longrightarrow> f x = Inr (g x)) \<Longrightarrow> traverse f xs = Inr (map g xs)"
  by (induction xs) auto

lemma traverse_inj:
  assumes "traverse f xs = Inr zs" and "traverse f ys = Inr zs"
    and "\<And>x y z. x \<in> set xs \<Longrightarrow> y \<in> set ys \<Longrightarrow> f x = Inr z \<Longrightarrow> f y = Inr z \<Longrightarrow> x = y"
  shows "xs = ys"
proof (rule nth_equalityI)
  show len: "length xs = length ys" using assms(1,2) by (metis traverse_length)
  show "xs ! i = ys ! i" if "i < length xs" for i
    using assms that len by (auto simp: traverse_Inr_iff list_all2_conv_all_nth intro!: assms(3))
qed

section \<open>Dictionaries\<close>

text \<open>
  A Python dictionary keeps its keys in insertion order, and assigning to an existing key
  keeps its place: that is \<open>AList.update\<close>.
\<close>

type_synonym ('k, 'v) dict = "('k \<times> 'v) list"

definition dset :: "'k \<Rightarrow> 'v \<Rightarrow> ('k, 'v) dict \<Rightarrow> ('k, 'v) dict" where
  "dset k v d = AList.update k v d"

definition dget :: "('k, 'v) dict \<Rightarrow> 'k \<Rightarrow> 'v \<Rightarrow> 'v" where
  "dget d k dflt = (case map_of d k of None \<Rightarrow> dflt | Some v \<Rightarrow> v)"

definition dkeys :: "('k, 'v) dict \<Rightarrow> 'k list" where
  "dkeys d = map fst d"

definition dict_ok :: "('k, 'v) dict \<Rightarrow> bool" where
  "dict_ok d = distinct (map fst d)"

lemma dset_code [simp]:
  "dset k v [] = [(k, v)]"
  "dset k v (p # ps) = (if fst p = k then (k, v) # ps else p # dset k v ps)"
  by (simp_all add: dset_def split: prod.split)

lemma map_of_dset [simp]: "map_of (dset k v d) = (map_of d)(k \<mapsto> v)"
  by (simp add: dset_def update_conv')

lemma dict_ok_dset [simp]: "dict_ok d \<Longrightarrow> dict_ok (dset k v d)"
  by (simp add: dict_ok_def dset_def distinct_update)

lemma dict_ok_Nil [simp]: "dict_ok []"
  by (simp add: dict_ok_def)

lemma dict_ok_filter [simp]: "dict_ok d \<Longrightarrow> dict_ok (filter P d)"
  by (simp add: dict_ok_def distinct_map_filter)

lemma fst_set_dset [simp]: "fst ` set (dset k v d) = insert k (fst ` set d)"
  by (induction d) auto

lemma dget_dset: "dget (dset k v d) k' dflt = (if k' = k then v else dget d k' dflt)"
  by (simp add: dget_def)

lemma map_of_filter_ok:
  assumes "dict_ok d"
  shows "map_of (filter P d) k = (case map_of d k of None \<Rightarrow> None | Some v \<Rightarrow> if P (k, v) then Some v else None)"
  using assms
proof (induction d)
  case Nil
  then show ?case by simp
next
  case (Cons a d)
  have "k \<noteq> fst a \<or> map_of (filter P d) k = None"
    using Cons.prems by (auto simp: dict_ok_def map_of_eq_None_iff)
  then show ?case using Cons by (cases a) (auto simp: dict_ok_def split: option.splits)
qed

lemma set_dset_map_of:
  "dict_ok d \<Longrightarrow> ((k, v) \<in> set d) = (map_of d k = Some v)"
  by (auto simp: dict_ok_def)

section \<open>Floats with their special values\<close>

datatype pyfloat = Fin real | PInf | NInf | NaN

fun pf_abs :: "pyfloat \<Rightarrow> pyfloat" where
  "pf_abs (Fin x) = Fin \<bar>x\<bar>"
| "pf_abs PInf = PInf"
| "pf_abs NInf = PInf"
| "pf_abs NaN = NaN"

fun pf_sub :: "pyfloat \<Rightarrow> pyfloat \<Rightarrow> pyfloat" where
  "pf_sub (Fin x) (Fin y) = Fin (x - y)"
| "pf_sub NaN y = NaN"
| "pf_sub x NaN = NaN"
| "pf_sub PInf PInf = NaN"
| "pf_sub NInf NInf = NaN"
| "pf_sub PInf y = PInf"
| "pf_sub NInf y = NInf"
| "pf_sub x PInf = NInf"
| "pf_sub x NInf = PInf"

text \<open>Every comparison with a NaN is false.\<close>

fun pf_le :: "pyfloat \<Rightarrow> pyfloat \<Rightarrow> bool" where
  "pf_le NaN y = False"
| "pf_le x NaN = False"
| "pf_le NInf y = True"
| "pf_le x PInf = True"
| "pf_le (Fin x) (Fin y) = (x \<le> y)"
| "pf_le PInf y = False"
| "pf_le x NInf = False"

definition pf_lt :: "pyfloat \<Rightarrow> pyfloat \<Rightarrow> bool" where
  "pf_lt x y = (pf_le x y \<and> \<not> pf_le y x)"

text \<open>\<open>min(a, b)\<close> and \<open>max(a, b)\<close> keep the first argument unless the second is strictly better.\<close>

definition pf_min :: "pyfloat \<Rightarrow> pyfloat \<Rightarrow> pyfloat" where
  "pf_min a b = (if pf_lt b a then b else a)"

definition pf_max :: "pyfloat \<Rightarrow> pyfloat \<Rightarrow> pyfloat" where
  "pf_max a b = (if pf_lt a b then b else a)"

lemma pf_lt_Fin [simp]: "pf_lt (Fin x) (Fin y) = (x < y)"
  by (auto simp: pf_lt_def)

lemma pf_min_Fin [simp]: "pf_min (Fin x) (Fin y) = Fin (min x y)"
  by (auto simp: pf_min_def)

lemma pf_le_Fin_iff: "pf_le x (Fin b) = (x = NInf \<or> (\<exists>a. x = Fin a \<and> a \<le> b))"
  by (cases x) auto

section \<open>Lists\<close>

text \<open>\<open>xs[:n]\<close> and \<open>xs[n:]\<close>, with a negative bound counted from the end.\<close>

definition slice_bound :: "'a list \<Rightarrow> int \<Rightarrow> nat" where
  "slice_bound xs n = nat (if n < 0 then int (length xs) + n else n)"

definition py_slice_to :: "'a list \<Rightarrow> int \<Rightarrow> 'a list" where
  "py_slice_to xs n = take (slice_bound xs n) xs"

definition py_slice_from :: "'a list \<Rightarrow> int \<Rightarrow> 'a list" where
  "py_slice_from xs n = drop (slice_bound xs n) xs"

lemma distinct_map_take: "distinct (map f xs) \<Longrightarrow> distinct (map f (take n xs))"
  by (metis distinct_take take_map)

lemma sum_list_nonneg_le_member:
  "(\<And>y. y \<in> set xs \<Longrightarrow> (0::real) \<le> y) \<Longrightarrow> x \<in> set xs \<Longrightarrow> x \<le> sum_list xs"
  by (metis member_le_sum_list)

end
