(* ===== verification/Bytes.thy ===== *)
theory Bytes
  imports Prelude
begin

unbundle bit_operations_syntax

text \<open>
  Python's bytes, hexadecimal text and fixed-width integers as the wire code uses them:
  \<open>int.to_bytes(n, "big")\<close>, \<open>int.from_bytes(b, "big")\<close>, \<open>str.encode()\<close>, \<open>bytes.hex()\<close>,
  \<open>bytes.fromhex(s)\<close>, \<open>str.strip()\<close>, \<open>int(s)\<close> and \<open>str(i)\<close>. These are built-ins of
  the language; they carry no source lines of their own.

  The interface \<open>prefix_code\<close> is what every framing of the wire format promises: a code
  word can be cut off the front of a byte string in one way only. Its client lemma, that
  a sequence of framed fields determines the fields, is proved once and used for every
  signed message.
\<close>

type_synonym byte = "8 word"
type_synonym bytes = "8 word list"

section \<open>The framing interface\<close>

locale prefix_code =
  fixes ok :: "'a \<Rightarrow> bool" and enc :: "'a \<Rightarrow> 'b list"
  assumes cut: "ok x \<Longrightarrow> ok y \<Longrightarrow> enc x @ s = enc y @ t \<Longrightarrow> x = y \<and> s = t"
begin

lemma enc_inj: "ok x \<Longrightarrow> ok y \<Longrightarrow> enc x = enc y \<Longrightarrow> x = y"
  using cut [of x y "[]" "[]"] by simp

lemma concat_cut:
  assumes "list_all ok xs" and "list_all ok ys" and "length xs = length ys"
    and "concat (map enc xs) @ s = concat (map enc ys) @ t"
  shows "xs = ys \<and> s = t"
  using assms(3,1,2,4)
proof (induction xs ys rule: list_induct2)
  case Nil
  then show ?case by simp
next
  case (Cons x xs y ys)
  have "x = y \<and> concat (map enc xs) @ s = concat (map enc ys) @ t"
    using Cons.prems by (intro cut) auto
  with Cons show ?case by simp
qed

end

locale prefix_code_nonempty = prefix_code +
  assumes enc_nonempty: "ok x \<Longrightarrow> enc x \<noteq> []"
begin

lemma concat_inj:
  assumes "list_all ok xs" and "list_all ok ys"
    and "concat (map enc xs) = concat (map enc ys)"
  shows "xs = ys"
  using assms
proof (induction xs arbitrary: ys)
  case Nil
  then show ?case by (cases ys) (auto dest: enc_nonempty)
next
  case (Cons x xs)
  show ?case
  proof (cases ys)
    case Nil
    with Cons.prems show ?thesis by (auto dest: enc_nonempty)
  next
    case ys: (Cons y ys')
    have "x = y \<and> concat (map enc xs) = concat (map enc ys')"
      using Cons.prems ys by (intro cut) auto
    then show ?thesis using Cons.IH [of ys'] Cons.prems ys by simp
  qed
qed

end

text \<open>A code whose words all have the same length is a prefix code when it is injective.\<close>

lemma fixed_width_cut:
  assumes "length (enc x) = n" and "length (enc y) = n" and "enc x @ s = enc y @ t"
    and "enc x = enc y \<Longrightarrow> x = y"
  shows "x = y \<and> s = t"
  using assms by (simp add: append_eq_append_conv)

section \<open>Fixed-width integers\<close>

fun be_bytes :: "nat \<Rightarrow> int \<Rightarrow> bytes" where
  "be_bytes 0 i = []"
| "be_bytes (Suc n) i = be_bytes n (i div 256) @ [word_of_int i]"

definition from_bytes_be :: "bytes \<Rightarrow> int" where
  "from_bytes_be bs = foldl (\<lambda>a b. a * 256 + uint b) 0 bs"

definition to_bytes_be :: "nat \<Rightarrow> int \<Rightarrow> bytes res" where
  "to_bytes_be n i = (if 0 \<le> i \<and> i < 256 ^ n then Inr (be_bytes n i) else Inl OverflowError)"

text \<open>\<open>to_bytes(n, "big", signed=True)\<close>.\<close>

definition to_bytes_be_signed :: "nat \<Rightarrow> int \<Rightarrow> bytes res" where
  "to_bytes_be_signed n i =
     (if - (256 ^ n) \<le> 2 * i \<and> 2 * i < 256 ^ n then Inr (be_bytes n (i mod 256 ^ n))
      else Inl OverflowError)"

lemma length_be_bytes [simp]: "length (be_bytes n i) = n"
  by (induction n arbitrary: i) auto

lemma foldl_be: "foldl (\<lambda>a b. a * 256 + uint b) 0 (be_bytes n i) = i mod 256 ^ n"
proof (induction n arbitrary: i)
  case 0
  then show ?case by simp
next
  case (Suc n)
  have "i mod 256 ^ Suc n = 256 * (i div 256 mod 256 ^ n) + i mod 256"
    by (simp add: zmod_zmult2_eq)
  with Suc [of "i div 256"] show ?case by (simp add: uint_word_of_int)
qed

lemma from_be_bytes: "0 \<le> i \<Longrightarrow> i < 256 ^ n \<Longrightarrow> from_bytes_be (be_bytes n i) = i"
  by (simp add: from_bytes_be_def foldl_be)

lemma from_bytes_be_snoc: "from_bytes_be (bs @ [b]) = from_bytes_be bs * 256 + uint b"
  by (simp add: from_bytes_be_def)

lemma from_bytes_be_bounds: "0 \<le> from_bytes_be bs \<and> from_bytes_be bs < 256 ^ length bs"
proof (induction bs rule: rev_induct)
  case Nil
  then show ?case by (simp add: from_bytes_be_def)
next
  case (snoc b bs)
  have "0 \<le> uint b" and "uint b < 256"
    using uint_lt2p [of b] by simp_all
  with snoc show ?case by (auto simp: from_bytes_be_snoc)
qed

lemma be_bytes_inj:
  "0 \<le> i \<Longrightarrow> i < 256 ^ n \<Longrightarrow> 0 \<le> j \<Longrightarrow> j < 256 ^ n \<Longrightarrow> be_bytes n i = be_bytes n j \<Longrightarrow> i = j"
  by (metis from_be_bytes)

lemma to_bytes_be_inj: "to_bytes_be n i = Inr b \<Longrightarrow> to_bytes_be n j = Inr b \<Longrightarrow> i = j"
  by (auto simp: to_bytes_be_def split: if_splits dest: be_bytes_inj)

lemma to_bytes_be_length: "to_bytes_be n i = Inr b \<Longrightarrow> length b = n"
  by (auto simp: to_bytes_be_def split: if_splits)

lemma to_bytes_be_signed_length: "to_bytes_be_signed n i = Inr b \<Longrightarrow> length b = n"
  by (auto simp: to_bytes_be_signed_def split: if_splits)

lemma to_bytes_be_signed_inj:
  assumes "to_bytes_be_signed n i = Inr b" and "to_bytes_be_signed n j = Inr b"
  shows "i = j"
proof -
  let ?m = "256 ^ n :: int"
  have pos: "0 < ?m" by simp
  have ij: "- ?m \<le> 2 * i" "2 * i < ?m" "- ?m \<le> 2 * j" "2 * j < ?m"
    and eq: "be_bytes n (i mod ?m) = be_bytes n (j mod ?m)"
    using assms by (auto simp: to_bytes_be_signed_def split: if_splits)
  have "i mod ?m = j mod ?m"
    by (rule be_bytes_inj [OF _ _ _ _ eq]) (use pos in auto)
  then have "?m dvd i - j" by (simp add: mod_eq_dvd_iff)
  then obtain k where k: "i - j = ?m * k" by (auto simp: dvd_def)
  have "- ?m < i - j" and "i - j < ?m" using ij by auto
  with k pos have "\<bar>k\<bar> < 1"
    by (smt (verit, ccfv_SIG) mult_le_cancel_left1 mult_minus_right)
  with k show ?thesis by simp
qed

end
