(* ===== verification/PyText.thy ===== *)
theory PyText
  imports Bytes
begin

text \<open>
  Python text as the wire code uses it. A \<open>str\<close> is a list of code points below 256
  (\<open>string\<close>), so \<open>str.encode()\<close> is UTF-8 on that range: one byte below 128, two above.
  Then hexadecimal text, \<open>strip\<close>, \<open>replace\<close>, \<open>int(s)\<close> and \<open>str(i)\<close>, each as the standard
  library documents it.
\<close>

section \<open>UTF-8\<close>

definition enc_char :: "char \<Rightarrow> bytes" where
  "enc_char c = (let n = of_char c :: nat in
     if n < 128 then [word_of_nat n]
     else [word_of_nat (192 + n div 64), word_of_nat (128 + n mod 64)])"

definition encode :: "string \<Rightarrow> bytes" where
  "encode s = concat (map enc_char s)"

lemma word8_inj:
  assumes "m < 256" and "n < 256" and "(word_of_nat m :: 8 word) = word_of_nat n"
  shows "m = n"
proof -
  have "unat (word_of_nat m :: 8 word) = m" "unat (word_of_nat n :: 8 word) = n"
    using assms(1,2) by (auto intro!: of_nat_inverse [OF refl])
  with assms(3) show ?thesis by metis
qed

lemma two_byte_range:
  fixes n :: nat
  shows "n < 256 \<Longrightarrow> 192 + n div 64 < 256" and "128 + n mod 64 < 256"
  by simp_all

lemma enc_char_cut:
  assumes "enc_char c @ s = enc_char d @ t"
  shows "c = d \<and> s = t"
proof -
  define m n :: nat where "m = of_char c" and "n = of_char d"
  have b: "m < 256" "n < 256" by (simp_all add: m_def n_def)
  have h: "(192 + k div 64 :: nat) < 256" if "k < 256" for k :: nat using that by simp
  have mn: "m = n \<and> s = t"
  proof (cases "m < 128"; cases "n < 128")
    assume mn: "m < 128" "n < 128"
    with assms have "(word_of_nat m :: 8 word) = word_of_nat n \<and> s = t"
      by (simp add: enc_char_def m_def [symmetric] n_def [symmetric])
    with b show ?thesis using word8_inj by blast
  next
    assume mn: "m < 128" "\<not> n < 128"
    with assms have "(word_of_nat m :: 8 word) = word_of_nat (192 + n div 64)"
      by (simp add: enc_char_def m_def [symmetric] n_def [symmetric])
    then have "m = 192 + n div 64" using word8_inj b h by blast
    with mn show ?thesis by simp
  next
    assume mn: "\<not> m < 128" "n < 128"
    with assms have "(word_of_nat (192 + m div 64) :: 8 word) = word_of_nat n"
      by (simp add: enc_char_def m_def [symmetric] n_def [symmetric])
    then have "192 + m div 64 = n" using word8_inj b h by blast
    with mn show ?thesis by simp
  next
    assume mn: "\<not> m < 128" "\<not> n < 128"
    with assms have e: "(word_of_nat (192 + m div 64) :: 8 word) = word_of_nat (192 + n div 64)"
      "(word_of_nat (128 + m mod 64) :: 8 word) = word_of_nat (128 + n mod 64)" "s = t"
      by (simp_all add: enc_char_def m_def [symmetric] n_def [symmetric])
    have "192 + m div 64 = 192 + n div 64" using e(1) word8_inj b h by blast
    moreover have "128 + m mod 64 = 128 + n mod 64" using e(2) word8_inj two_byte_range(2) by blast
    ultimately have "m = n" by (metis add_left_cancel div_mult_mod_eq)
    with e(3) show ?thesis by simp
  qed
  then show ?thesis by (simp add: m_def n_def)
qed

interpretation utf8: prefix_code_nonempty "\<lambda>_. True" enc_char
proof unfold_locales
  show "enc_char x @ s = enc_char y @ t \<Longrightarrow> x = y \<and> s = t" for x y s t
    by (rule enc_char_cut)
  show "enc_char x \<noteq> []" for x
    by (simp add: enc_char_def Let_def)
qed

lemma encode_inj: "encode s = encode t \<Longrightarrow> s = t"
  unfolding encode_def by (rule utf8.concat_inj) (auto simp: list_all_iff)

section \<open>Hexadecimal text\<close>

definition hex_digit :: "nat \<Rightarrow> char" where
  "hex_digit n = ''0123456789abcdef'' ! n"

definition hex_of_byte :: "byte \<Rightarrow> string" where
  "hex_of_byte b = [hex_digit (unat b div 16), hex_digit (unat b mod 16)]"

definition hex :: "bytes \<Rightarrow> string" where
  "hex bs = concat (map hex_of_byte bs)"

definition hex_value :: "char \<Rightarrow> nat option" where
  "hex_value c = (let n = of_char c :: nat in
     if 48 \<le> n \<and> n \<le> 57 then Some (n - 48)
     else if 97 \<le> n \<and> n \<le> 102 then Some (n - 87)
     else if 65 \<le> n \<and> n \<le> 70 then Some (n - 55)
     else None)"

text \<open>The ASCII whitespace that \<open>bytes.fromhex\<close> skips between two bytes.\<close>

definition ascii_space :: "char \<Rightarrow> bool" where
  "ascii_space c = ((of_char c :: nat) \<in> {9, 10, 11, 12, 13, 32})"

fun fromhex :: "string \<Rightarrow> bytes res" where
  "fromhex [] = Inr []"
| "fromhex [c] = (if ascii_space c then Inr [] else Inl ValueError)"
| "fromhex (c # d # r) =
     (if ascii_space c then fromhex (d # r)
      else case (hex_value c, hex_value d) of
        (Some a, Some b) \<Rightarrow> rbind (fromhex r) (\<lambda>bs. Inr (word_of_nat (16 * a + b) # bs))
      | _ \<Rightarrow> Inl ValueError)"

lemma hex_digit_table:
  "list_all (\<lambda>n. hex_value (hex_digit n) = Some n \<and> \<not> ascii_space (hex_digit n)) [0..<16]"
  by code_simp

lemma hex_digit_cases:
  "n < 16 \<Longrightarrow> hex_value (hex_digit n) = Some n \<and> \<not> ascii_space (hex_digit n)"
  using hex_digit_table by (auto simp: list_all_iff)

lemma unat_byte_split: "unat (b :: byte) div 16 < 16" "unat b mod 16 < 16"
  using unsigned_less [of b, where ?'a = nat] by simp_all

lemma fromhex_hex: "fromhex (hex bs) = Inr bs"
proof (induction bs)
  case Nil
  then show ?case by (simp add: hex_def)
next
  case (Cons b bs)
  have "word_of_nat (16 * (unat b div 16) + unat b mod 16) = b"
    by (simp only: mult_div_mod_eq) simp
  with Cons show ?case
    using hex_digit_cases [OF unat_byte_split(1) [of b]] hex_digit_cases [OF unat_byte_split(2) [of b]]
    by (simp add: hex_def hex_of_byte_def)
qed

lemma hex_inj: "hex a = hex b \<Longrightarrow> a = b"
  by (metis fromhex_hex sum.inject(2))

lemma length_hex [simp]: "length (hex bs) = 2 * length bs"
  by (induction bs) (simp_all add: hex_def hex_of_byte_def)

definition is_hex_char :: "char \<Rightarrow> bool" where
  "is_hex_char c = (hex_value c \<noteq> None)"

lemma is_hex_not_space: "is_hex_char c \<Longrightarrow> \<not> ascii_space c"
  by (auto simp: is_hex_char_def hex_value_def ascii_space_def Let_def split: if_splits)

text \<open>Text the schema's hexadecimal patterns admit always decodes, to half its length.\<close>

lemma fromhex_total:
  "list_all is_hex_char s \<Longrightarrow> even (length s) \<Longrightarrow> \<exists>bs. fromhex s = Inr bs \<and> 2 * length bs = length s"
proof (induction s rule: fromhex.induct)
  case 1
  then show ?case by simp
next
  case (2 c)
  then show ?case by simp
next
  case (3 c d r)
  then have "\<not> ascii_space c" by (simp add: is_hex_not_space)
  moreover obtain a b where "hex_value c = Some a" "hex_value d = Some b"
    using "3.prems" by (auto simp: is_hex_char_def)
  moreover obtain bs where "fromhex r = Inr bs" "2 * length bs = length r"
    using "3.IH"(2) [OF calculation(1)] "3.prems" calculation by auto
  ultimately show ?case by auto
qed

section \<open>strip and replace\<close>

definition py_space :: "char \<Rightarrow> bool" where
  "py_space c = ((of_char c :: nat) \<in> {9, 10, 11, 12, 13, 28, 29, 30, 31, 32, 133, 160})"

definition strip :: "string \<Rightarrow> string" where
  "strip s = rev (dropWhile py_space (rev (dropWhile py_space s)))"

text \<open>\<open>s.replace(ab, "")\<close> for a two-character pattern: every non-overlapping occurrence, left to right.\<close>

fun drop_pair :: "char \<Rightarrow> char \<Rightarrow> string \<Rightarrow> string" where
  "drop_pair a b (x # y # r) = (if x = a \<and> y = b then drop_pair a b r else x # drop_pair a b (y # r))"
| "drop_pair a b s = s"

text \<open>\<open>s.strip().replace("0x", "").replace("0X", "")\<close>, padded to an even length with a zero.\<close>

definition strip_0x :: "string \<Rightarrow> string" where
  "strip_0x s = drop_pair (CHR ''0'') (CHR ''X'') (drop_pair (CHR ''0'') (CHR ''x'') (strip s))"

definition pad_even :: "string \<Rightarrow> string" where
  "pad_even s = (if length s mod 2 \<noteq> 0 then CHR ''0'' # s else s)"

lemma drop_pair_id: "b \<notin> set s \<Longrightarrow> drop_pair a b s = s"
  by (induction a b s rule: drop_pair.induct) auto

lemma strip_id: "(\<And>c. c \<in> set s \<Longrightarrow> \<not> py_space c) \<Longrightarrow> strip s = s"
  by (simp add: strip_def dropWhile_eq_self_iff)
    (metis dropWhile_eq_self_iff hd_in_set rev_rev_ident set_rev)

lemma is_hex_char_plain:
  assumes "is_hex_char c"
  shows "\<not> py_space c" and "c \<noteq> CHR ''x''" and "c \<noteq> CHR ''X''"
  using assms by (auto simp: is_hex_char_def hex_value_def py_space_def Let_def split: if_splits)

lemma strip_0x_hex: "list_all is_hex_char s \<Longrightarrow> strip_0x s = s"
  unfolding strip_0x_def list_all_iff
  by (subst strip_id, simp add: is_hex_char_plain)
     (metis drop_pair_id is_hex_char_plain(2,3))

section \<open>int(s) and str(i)\<close>

fun digits_rev :: "nat \<Rightarrow> nat list" where
  "digits_rev n = (if n < 10 then [n] else (n mod 10) # digits_rev (n div 10))"

declare digits_rev.simps [simp del]

definition digit_char :: "nat \<Rightarrow> char" where
  "digit_char d = char_of (48 + d)"

definition digit_value :: "char \<Rightarrow> nat option" where
  "digit_value c = (let n = of_char c :: nat in if 48 \<le> n \<and> n \<le> 57 then Some (n - 48) else None)"

definition str_nat :: "nat \<Rightarrow> string" where
  "str_nat n = map digit_char (rev (digits_rev n))"

definition str_int :: "int \<Rightarrow> string" where
  "str_int i = (if i < 0 then CHR ''-'' # str_nat (nat (- i)) else str_nat (nat i))"

text \<open>
  \<open>int(s)\<close>: surrounding whitespace, an optional sign, then digits with single underscores
  between them. \<open>Inl ValueError\<close> is the exception.
\<close>

fun parse_digits :: "nat \<Rightarrow> bool \<Rightarrow> string \<Rightarrow> nat option" where
  "parse_digits acc sep [] = (if sep then Some acc else None)"
| "parse_digits acc sep (c # r) =
     (case digit_value c of
        Some d \<Rightarrow> parse_digits (10 * acc + d) True r
      | None \<Rightarrow> if c = CHR ''_'' \<and> sep then parse_digits acc False r else None)"

definition py_int :: "string \<Rightarrow> int res" where
  "py_int s = (case strip s of
       [] \<Rightarrow> Inl ValueError
     | c # r \<Rightarrow>
        (let (sg, ds) = (if c = CHR ''-'' then (- 1, r) else if c = CHR ''+'' then (1, r) else (1, c # r))
         in case parse_digits 0 False ds of None \<Rightarrow> Inl ValueError | Some n \<Rightarrow> Inr (sg * int n)))"

lemma digit_value_char: "d < 10 \<Longrightarrow> digit_value (digit_char d) = Some d"
  by (auto simp: digit_value_def digit_char_def Let_def)

lemma digits_rev_less: "d \<in> set (digits_rev n) \<Longrightarrow> d < 10"
proof (induction n rule: digits_rev.induct)
  case (1 n)
  then show ?case by (subst (asm) digits_rev.simps) (auto split: if_splits)
qed

lemma digits_rev_nonempty: "digits_rev n \<noteq> []"
  by (subst digits_rev.simps) simp

lemma digits_rev_value: "foldr (\<lambda>d a. 10 * a + d) (digits_rev n) 0 = n"
proof (induction n rule: digits_rev.induct)
  case (1 n)
  then show ?case by (subst digits_rev.simps) (auto simp: digits_rev.simps [of n])
qed

lemma parse_digits_map:
  "(\<And>d. d \<in> set ds \<Longrightarrow> d < 10) \<Longrightarrow> sep \<or> ds \<noteq> [] \<Longrightarrow>
   parse_digits a sep (map digit_char ds) = Some (foldl (\<lambda>a d. 10 * a + d) a ds)"
  by (induction ds arbitrary: a sep) (auto simp: digit_value_char)

lemma parse_str_nat: "parse_digits 0 False (str_nat n) = Some n"
proof -
  have "parse_digits 0 False (str_nat n) = Some (foldl (\<lambda>a d. 10 * a + d) 0 (rev (digits_rev n)))"
    unfolding str_nat_def by (rule parse_digits_map) (auto simp: digits_rev_less digits_rev_nonempty)
  then show ?thesis by (simp add: foldl_conv_foldr digits_rev_value)
qed

lemma digit_char_plain:
  assumes "d < 10"
  shows "\<not> py_space (digit_char d)" and "digit_char d \<noteq> CHR ''-''" and "digit_char d \<noteq> CHR ''+''"
proof -
  have "(of_char (digit_char d) :: nat) = 48 + d" using assms by (simp add: digit_char_def)
  then show "\<not> py_space (digit_char d)" "digit_char d \<noteq> CHR ''-''" "digit_char d \<noteq> CHR ''+''"
    using assms by (auto simp: py_space_def)
qed

lemma str_nat_digits: "c \<in> set (str_nat n) \<Longrightarrow> \<exists>d < 10. c = digit_char d"
  by (auto simp: str_nat_def dest: digits_rev_less)

lemma str_nat_strip: "strip (str_nat n) = str_nat n" "strip (CHR ''-'' # str_nat n) = CHR ''-'' # str_nat n"
  by (rule strip_id; auto dest!: str_nat_digits simp: digit_char_plain; simp add: py_space_def)+

theorem py_int_str_int: "py_int (str_int i) = Inr i"
proof -
  obtain c r where cr: "str_nat (nat i) = c # r"
    by (cases "str_nat (nat i)") (auto simp: str_nat_def digits_rev_nonempty)
  then have c: "c \<noteq> CHR ''-''" "c \<noteq> CHR ''+''"
    using str_nat_digits [of c "nat i"] by (auto simp: digit_char_plain)
  show ?thesis
  proof (cases "i < 0")
    case True
    then show ?thesis
      by (simp add: py_int_def str_int_def str_nat_strip parse_str_nat)
  next
    case False
    have "strip (c # r) = c # r" using str_nat_strip(1) [of "nat i"] by (simp add: cr)
    moreover have "parse_digits 0 False (c # r) = Some (nat i)"
      using parse_str_nat [of "nat i"] by (simp only: cr)
    ultimately show ?thesis using c False
      by (simp add: py_int_def str_int_def cr del: parse_digits.simps)
  qed
qed

lemma str_int_inj: "str_int i = str_int j \<Longrightarrow> i = j"
  by (metis py_int_str_int sum.inject(2))

section \<open>Lower case\<close>

text \<open>\<open>str.lower()\<close> on the code points below 256.\<close>

definition lower_char :: "char \<Rightarrow> char" where
  "lower_char c = (let n = of_char c :: nat in
     if 65 \<le> n \<and> n \<le> 90 \<or> 192 \<le> n \<and> n \<le> 222 \<and> n \<noteq> 215 then char_of (n + 32) else c)"

definition lower :: "string \<Rightarrow> string" where
  "lower s = map lower_char s"

end
