(* ===== verification/Json.thy ===== *)
theory Json
  imports PyText
begin

text \<open>
  JSON-shaped Python values (what \<open>json.loads\<close> returns and what travels in a submission's
  \<open>commit\<close> dictionary), Python's truth value and \<open>isinstance(x, int)\<close> on them, attribute
  and key access, and \<open>json.dumps\<close> with sorted keys and compact separators.
\<close>

datatype json =
    JNull | JBool bool | JInt int | JFloat pyfloat | JStr string
  | JList "json list" | JObj "(string \<times> json) list"

section \<open>Access\<close>

text \<open>\<open>isinstance(v, int)\<close> holds of booleans too, with the values 0 and 1.\<close>

fun as_int :: "json \<Rightarrow> int option" where
  "as_int (JInt i) = Some i"
| "as_int (JBool b) = Some (if b then 1 else 0)"
| "as_int _ = None"

fun truthy :: "json \<Rightarrow> bool" where
  "truthy JNull = False"
| "truthy (JBool b) = b"
| "truthy (JInt i) = (i \<noteq> 0)"
| "truthy (JFloat f) = (f \<noteq> Fin 0)"
| "truthy (JStr s) = (s \<noteq> [])"
| "truthy (JList xs) = (xs \<noteq> [])"
| "truthy (JObj kvs) = (kvs \<noteq> [])"

text \<open>\<open>v[k]\<close>, \<open>v.get(k, dflt)\<close> and \<open>hasattr\<close>/\<open>getattr\<close> on an object's attributes.\<close>

definition jindex :: "json \<Rightarrow> string \<Rightarrow> json res" where
  "jindex v k = (case v of
       JObj kvs \<Rightarrow> (case map_of kvs k of None \<Rightarrow> Inl KeyError | Some x \<Rightarrow> Inr x)
     | _ \<Rightarrow> Inl TypeError)"

definition jget :: "json \<Rightarrow> string \<Rightarrow> json \<Rightarrow> json res" where
  "jget v k dflt = (case v of JObj kvs \<Rightarrow> Inr (dget kvs k dflt) | _ \<Rightarrow> Inl AttributeError)"

fun jattr :: "json \<Rightarrow> string \<Rightarrow> json option" where
  "jattr (JObj kvs) k = map_of kvs k"
| "jattr _ k = None"

definition jget_or :: "json \<Rightarrow> string \<Rightarrow> json \<Rightarrow> json res" where
  "jget_or v k dflt = rbind (jget v k dflt) (\<lambda>x. Inr (if truthy x then x else dflt))"

text \<open>\<open>int(v)\<close> and \<open>list(v)\<close> on such values; a float is truncated towards zero.\<close>

definition trunc :: "real \<Rightarrow> int" where
  "trunc x = (if 0 \<le> x then \<lfloor>x\<rfloor> else - \<lfloor>- x\<rfloor>)"

fun jint :: "json \<Rightarrow> int res" where
  "jint (JInt i) = Inr i"
| "jint (JBool b) = Inr (if b then 1 else 0)"
| "jint (JFloat (Fin x)) = Inr (trunc x)"
| "jint (JFloat NaN) = Inl ValueError"
| "jint (JFloat _) = Inl OverflowError"
| "jint (JStr s) = py_int s"
| "jint _ = Inl TypeError"

fun jlist :: "json \<Rightarrow> json list res" where
  "jlist (JList xs) = Inr xs"
| "jlist (JStr s) = Inr (map (\<lambda>c. JStr [c]) s)"
| "jlist (JObj kvs) = Inr (map (\<lambda>kv. JStr (fst kv)) kvs)"
| "jlist _ = Inl TypeError"

lemma trunc_bounds: "0 \<le> x \<Longrightarrow> 0 \<le> trunc x \<and> of_int (trunc x) \<le> x \<and> x < of_int (trunc x) + 1"
  by (simp add: trunc_def)

lemma trunc_of_int [simp]: "trunc (of_int i) = i"
  by (simp add: trunc_def flip: of_int_minus)

section \<open>json.dumps(value, sort_keys=True, separators=(",", ":"))\<close>

text \<open>
  The text of a finite float is \<open>float.__repr__\<close>, a parameter \<open>rep\<close>; a NaN or an infinity
  is refused when \<open>allow_nan\<close> is false and has its JavaScript name otherwise. With \<open>ensure_ascii\<close> the
  string writer escapes the quote, the backslash, the control characters and every character
  above 126.
\<close>

definition esc_char :: "char \<Rightarrow> string" where
  "esc_char c = (let n = of_char c :: nat in
     if n = 34 then [CHR 0x5C, CHR 0x22]
     else if n = 92 then [CHR 0x5C, CHR 0x5C]
     else if n = 10 then [CHR 0x5C, CHR ''n'']
     else if n = 13 then [CHR 0x5C, CHR ''r'']
     else if n = 9 then [CHR 0x5C, CHR ''t'']
     else if n = 12 then [CHR 0x5C, CHR ''f'']
     else if n = 8 then [CHR 0x5C, CHR ''b'']
     else if n < 32 \<or> 126 < n then [CHR 0x5C, CHR ''u'', CHR ''0'', CHR ''0'', hex_digit (n div 16), hex_digit (n mod 16)]
     else [c])"

definition dump_str :: "string \<Rightarrow> string" where
  "dump_str s = [CHR 0x22] @ concat (map esc_char s) @ [CHR 0x22]"

fun comma_join :: "string list \<Rightarrow> string" where
  "comma_join [] = []"
| "comma_join [s] = s"
| "comma_join (s # ss) = s @ [CHR '',''] @ comma_join ss"

fun float_text :: "bool \<Rightarrow> (real \<Rightarrow> string) \<Rightarrow> pyfloat \<Rightarrow> string option" where
  "float_text allow_nan rep (Fin x) = Some (rep x)"
| "float_text allow_nan rep PInf = (if allow_nan then Some ''Infinity'' else None)"
| "float_text allow_nan rep NInf = (if allow_nan then Some ''-Infinity'' else None)"
| "float_text allow_nan rep NaN = (if allow_nan then Some ''NaN'' else None)"

text \<open>\<open>None\<close> is the \<open>ValueError\<close> that \<open>allow_nan=False\<close> raises.\<close>

fun dumps :: "(pyfloat \<Rightarrow> string option) \<Rightarrow> json \<Rightarrow> string option" where
  "dumps fr JNull = Some ''null''"
| "dumps fr (JBool b) = Some (if b then ''true'' else ''false'')"
| "dumps fr (JInt i) = Some (str_int i)"
| "dumps fr (JFloat f) = fr f"
| "dumps fr (JStr s) = Some (dump_str s)"
| "dumps fr (JList xs) =
     (let ds = map (dumps fr) xs in
      if None \<in> set ds then None else Some ([CHR 0x5B] @ comma_join (map the ds) @ [CHR 0x5D]))"
| "dumps fr (JObj kvs) =
     (let ds = map (\<lambda>kv. (fst kv, dumps fr (snd kv))) kvs in
      if None \<in> snd ` set ds then None
      else Some ([CHR 0x7B] @ comma_join (map (\<lambda>kd. dump_str (fst kd) @ [CHR 0x3A] @ the (snd kd)) (sort_key fst ds)) @ [CHR 0x7D]))"

end
