(* ===== verification/Constants.thy ===== *)
theory Constants
  imports Json
begin

text \<open>
  \<open>reliquary/constants.py\<close>: the values every participant of the network must agree on, and
  the functions that read the few overridable ones from the process environment. The
  environment \<open>os.environ\<close> is a dictionary from names to values; \<open>load_constants\<close> is what
  importing the module does with it, the import-time assertion included.
\<close>

definition GRAIL_PROOF_VERSION :: string where "GRAIL_PROOF_VERSION = ''v7''"
definition PRIME_Q :: int where "PRIME_Q = 2147483647"
definition CHALLENGE_K :: int where "CHALLENGE_K = 32"
definition RNG_LABEL_sketch :: bytes where "RNG_LABEL_sketch = encode ''sketch''"
definition RNG_LABEL_open :: bytes where "RNG_LABEL_open = encode ''open''"
definition PROOF_TOPK :: nat where "PROOF_TOPK = 16"
definition PROOF_NUM_BUCKETS :: int where "PROOF_NUM_BUCKETS = 8"
definition PROOF_COEFF_RANGE :: int where "PROOF_COEFF_RANGE = 127"
definition PROOF_SKETCH_TOLERANCE_BASE :: int where "PROOF_SKETCH_TOLERANCE_BASE = 5000"
definition PROOF_SKETCH_TOLERANCE_GROWTH :: real where "PROOF_SKETCH_TOLERANCE_GROWTH = 5"
definition WINDOW_LENGTH :: int where "WINDOW_LENGTH = 5"
definition BLOCK_TIME_SECONDS :: int where "BLOCK_TIME_SECONDS = 12"
definition UID_BURN :: int where "UID_BURN = 0"
definition MAX_ROLLOUT_FILE_SIZE_BYTES :: int where "MAX_ROLLOUT_FILE_SIZE_BYTES = 350 * 1024 * 1024"
definition BFT_ENABLED :: bool where "BFT_ENABLED = True"
definition BFT_ANSWER_BUDGET :: int where "BFT_ANSWER_BUDGET = 512"
definition CHECKPOINT_PUBLISH_INTERVAL_WINDOWS :: int where "CHECKPOINT_PUBLISH_INTERVAL_WINDOWS = 10"
definition SIGMA_MIN :: real where "SIGMA_MIN = 33 / 100"
definition BOOTSTRAP_SIGMA_MIN :: real where "BOOTSTRAP_SIGMA_MIN = 33 / 100"
definition M_ROLLOUTS :: int where "M_ROLLOUTS = 8"
definition B_BATCH :: int where "B_BATCH = 8"
definition T_PROTO :: real where "T_PROTO = 6 / 10"
definition TOP_P_PROTO :: real where "TOP_P_PROTO = 95 / 100"
definition TOP_K_PROTO :: int where "TOP_K_PROTO = 20"
definition BATCH_PROMPT_COOLDOWN_WINDOWS :: int where "BATCH_PROMPT_COOLDOWN_WINDOWS = 1000000"
definition BOOTSTRAP_WINDOWS :: int where "BOOTSTRAP_WINDOWS = 100"
definition SUBNET_START_BLOCK :: int where "SUBNET_START_BLOCK = 0"
definition EMA_ALPHA :: real where "EMA_ALPHA = 2 / (72 + 1)"
definition LR_WARMUP_WINDOWS :: int where "LR_WARMUP_WINDOWS = 10"
definition LR_COSINE_MAX_WINDOWS :: int where "LR_COSINE_MAX_WINDOWS = 10000"
definition MIN_EOS_PROBABILITY :: real where "MIN_EOS_PROBABILITY = 1 / 100"
definition LOGPROB_IS_EPS :: real where "LOGPROB_IS_EPS = 10 / 100"
definition SAMPLING_MIN_STEPS :: int where "SAMPLING_MIN_STEPS = 30"
definition SAMPLING_LOW_P :: real where "SAMPLING_LOW_P = 10 / 100"
definition SAMPLING_HIGH_P :: real where "SAMPLING_HIGH_P = 90 / 100"
definition SAMPLING_MEDIAN_LOW_MAX :: real where "SAMPLING_MEDIAN_LOW_MAX = 30 / 100"
definition SAMPLING_LOW_Q10_MAX :: real where "SAMPLING_LOW_Q10_MAX = 25 / 1000"

section \<open>Constants read from the environment\<close>

type_synonym environ = "(string, string) dict"

definition positive_int_env :: "environ \<Rightarrow> string \<Rightarrow> int \<Rightarrow> int" where
  "positive_int_env env name dflt =
     (case map_of env name of
        None \<Rightarrow> dflt
      | Some raw \<Rightarrow>
          (case py_int raw of Inl _ \<Rightarrow> dflt | Inr v \<Rightarrow> if 0 < v then v else dflt))"

definition bft_thinking_budget :: "environ \<Rightarrow> int" where
  "bft_thinking_budget env = positive_int_env env ''RELIQUARY_BFT_THINKING_BUDGET'' 15616"

definition protocol_version :: "environ \<Rightarrow> int" where
  "protocol_version env = positive_int_env env ''RELIQUARY_PROTOCOL_VERSION'' 3"

definition forced_seed_domain :: "int \<Rightarrow> string" where
  "forced_seed_domain version = ''reliquary-forced-seed-v'' @ str_int version"

definition generation_profile_id :: "environ \<Rightarrow> string" where
  "generation_profile_id env =
     dget env ''RELIQUARY_GENERATION_PROFILE_ID'' ''qwen35-4b-auction-v3''"

definition forced_seed_enforce :: "environ \<Rightarrow> bool" where
  "forced_seed_enforce env =
     (map lower_char (strip (dget env ''FORCED_SEED_ENFORCE'' ''true''))
        \<in> {''1'', ''true'', ''yes'', ''on''})"

record proto_constants =
  c_prompt_range_size :: int
  c_max_new_tokens_cap :: int
  c_bft_thinking_budget :: int
  c_forced_seed_enforce :: bool
  c_protocol_version :: int
  c_forced_seed_domain :: string
  c_generation_profile_id :: string

text \<open>Importing the module: \<open>int(...)\<close> of the overrides, then the assertion on the answer budget.\<close>

definition load_constants :: "environ \<Rightarrow> proto_constants res" where
  "load_constants env =
     rbind (py_int (dget env ''PROMPT_RANGE_SIZE'' ''5000'')) (\<lambda>size.
     rbind (py_int (dget env ''RELIQUARY_MAX_NEW_TOKENS_PROTOCOL_CAP'' ''16384'')) (\<lambda>cap.
     (let budget = bft_thinking_budget env in
      if \<not> (budget + BFT_ANSWER_BUDGET \<le> cap) then Inl AssertionError
      else Inr \<lparr> c_prompt_range_size = size, c_max_new_tokens_cap = cap,
                 c_bft_thinking_budget = budget,
                 c_forced_seed_enforce = forced_seed_enforce env,
                 c_protocol_version = protocol_version env,
                 c_forced_seed_domain = forced_seed_domain (protocol_version env),
                 c_generation_profile_id = generation_profile_id env \<rparr>)))"

lemma positive_int_env_pos: "0 < dflt \<Longrightarrow> 0 < positive_int_env env name dflt"
  by (auto simp: positive_int_env_def split: option.splits sum.splits)

lemma positive_int_env_str:
  "map_of env name = Some (str_int v) \<Longrightarrow> 0 < v \<Longrightarrow> positive_int_env env name dflt = v"
  by (simp add: positive_int_env_def py_int_str_int)

lemma forced_seed_domain_inj: "forced_seed_domain v = forced_seed_domain w \<Longrightarrow> v = w"
  by (simp add: forced_seed_domain_def str_int_inj)

lemma load_constants_budget:
  assumes "load_constants env = Inr c"
  shows "0 < c_bft_thinking_budget c" and "c_bft_thinking_budget c + 512 \<le> c_max_new_tokens_cap c"
    and "0 < c_protocol_version c"
  using assms positive_int_env_pos [of 15616 env] positive_int_env_pos [of 3 env]
  by (auto simp: load_constants_def res_simps Let_def BFT_ANSWER_BUDGET_def bft_thinking_budget_def
      protocol_version_def split: if_splits)

end
