(* ===== verification/Cooldown.thy ===== *)
theory Cooldown
  imports Constants
begin

text \<open>
  \<open>reliquary/validator/cooldown.py\<close>: which window each prompt last entered a training batch
  in, and whether it may enter one again. The record \<open>cooldown_map\<close> is the class
  \<open>CooldownMap\<close>, its dictionary kept in insertion order; each method is a function of the
  same name.

  The interface \<open>cooldown_store\<close> is what the batch code relies on: marking a prompt
  changes the answer for that prompt only, and a prompt once released stays released. Its
  clients need nothing else about the representation.
\<close>

section \<open>State\<close>

record cooldown_map =
  cooldown_windows :: int
  last_batched :: "(int, int) dict"

definition CooldownMap_init :: "int \<Rightarrow> cooldown_map res" where
  "CooldownMap_init n =
     (if n < 0 then Inl ValueError else Inr \<lparr> cooldown_windows = n, last_batched = [] \<rparr>)"

text \<open>The assignment \<open>self._last_batched[prompt_idx] = window\<close>.\<close>

definition mark :: "cooldown_map \<Rightarrow> int \<Rightarrow> int \<Rightarrow> cooldown_map" where
  "mark m p w = m \<lparr> last_batched := dset p w (last_batched m) \<rparr>"

definition record_batched :: "cooldown_map \<Rightarrow> int \<Rightarrow> int \<Rightarrow> cooldown_map res" where
  "record_batched m p w =
     (if p < 0 then Inl ValueError else if w < 0 then Inl ValueError else Inr (mark m p w))"

definition is_in_cooldown :: "cooldown_map \<Rightarrow> int \<Rightarrow> int \<Rightarrow> bool" where
  "is_in_cooldown m p current =
     (if cooldown_windows m = 0 then False
      else case map_of (last_batched m) p of
        None \<Rightarrow> False
      | Some lastw \<Rightarrow> current - lastw < cooldown_windows m)"

definition current_cooldown_set :: "cooldown_map \<Rightarrow> int \<Rightarrow> int set" where
  "current_cooldown_set m current =
     (if cooldown_windows m = 0 then {}
      else fst ` set (filter (\<lambda>il. current - snd il < cooldown_windows m) (last_batched m)))"

definition cooldown_len :: "cooldown_map \<Rightarrow> nat" where
  "cooldown_len m = length (last_batched m)"

section \<open>Persistence\<close>

text \<open>
  The JSON document: object keys are text, so \<open>save\<close> writes \<open>str(prompt)\<close> and \<open>load\<close> reads it
  back with \<open>int(k)\<close>. A file system maps paths to documents; the temporary file is renamed
  over the path, so the document appears there at once or not at all.
\<close>

record cooldown_doc =
  doc_cooldown_windows :: int
  doc_last_batched :: "(string, int) dict"

definition cooldown_save :: "cooldown_map \<Rightarrow> string \<Rightarrow> (string, cooldown_doc) dict \<Rightarrow> (string, cooldown_doc) dict" where
  "cooldown_save m path fs =
     dset path \<lparr> doc_cooldown_windows = cooldown_windows m,
                 doc_last_batched = map (\<lambda>(p, w). (str_int p, w)) (last_batched m) \<rparr> fs"

definition cooldown_load :: "cooldown_map \<Rightarrow> string \<Rightarrow> (string, cooldown_doc) dict \<Rightarrow> cooldown_map res" where
  "cooldown_load m path fs =
     (case map_of fs path of
        None \<Rightarrow> Inr m
      | Some doc \<Rightarrow>
          rbind (traverse (\<lambda>(k, v). rbind (py_int k) (\<lambda>i. Inr (i, v))) (doc_last_batched doc))
            (\<lambda>kvs. Inr (m \<lparr> last_batched := foldl (\<lambda>d (i, v). dset i v d) [] kvs \<rparr>)))"

section \<open>Rebuilding from the archive\<close>

text \<open>An archived window: its number and the batch entries the archive lists for it.\<close>

record archive_entry =
  ae_hotkey :: string
  ae_prompt_idx :: int

record archive =
  aw_window_start :: int
  aw_batch :: "archive_entry list"

definition rebuild_entry :: "int \<Rightarrow> int \<Rightarrow> (int, int) dict \<Rightarrow> (int, int) dict" where
  "rebuild_entry w idx d = (if dget d idx (- 1) < w then dset idx w d else d)"

definition rebuild_window :: "int \<Rightarrow> (int, int) dict \<Rightarrow> archive \<Rightarrow> (int, int) dict" where
  "rebuild_window horizon d r =
     (let w = aw_window_start r in
      if w \<le> horizon then d
      else foldl (\<lambda>d e. rebuild_entry w (ae_prompt_idx e) d) d (aw_batch r))"

definition rebuild_from_history :: "cooldown_map \<Rightarrow> archive list \<Rightarrow> int \<Rightarrow> cooldown_map" where
  "rebuild_from_history m archived current =
     m \<lparr> last_batched := foldl (rebuild_window (current - cooldown_windows m)) [] archived \<rparr>"

section \<open>The interface the batch code relies on\<close>

locale cooldown_store =
  fixes put :: "'m \<Rightarrow> int \<Rightarrow> int \<Rightarrow> 'm"
    and blocked :: "'m \<Rightarrow> int \<Rightarrow> int \<Rightarrow> bool"
    and span :: "'m \<Rightarrow> int"
  assumes blocked_put:
      "blocked (put m p w) q w' = (if q = p then span m \<noteq> 0 \<and> w' - w < span m else blocked m q w')"
    and span_put: "span (put m p w) = span m"
    and released: "blocked m p w' \<Longrightarrow> w \<le> w' \<Longrightarrow> blocked m p w"
begin

lemma span_put_all: "span (foldl (\<lambda>m p. put m p w) m ps) = span m"
  by (induction ps arbitrary: m) (simp_all add: span_put)

lemma blocked_put_all:
  "blocked (foldl (\<lambda>m p. put m p w) m ps) q w' =
     (if q \<in> set ps then span m \<noteq> 0 \<and> w' - w < span m else blocked m q w')"
  by (induction ps arbitrary: m) (simp_all add: blocked_put span_put)

text \<open>
  A run of seals, each marking its prompts at its window. Within the cooldown span no
  prompt that passes the check at a later seal has been marked by an earlier one.
\<close>

fun run_seals :: "'m \<Rightarrow> (int \<times> int list) list \<Rightarrow> 'm" where
  "run_seals m [] = m"
| "run_seals m ((w, ps) # rest) = run_seals (foldl (\<lambda>m p. put m p w) m ps) rest"

fun seals_ok :: "'m \<Rightarrow> (int \<times> int list) list \<Rightarrow> bool" where
  "seals_ok m [] = True"
| "seals_ok m ((w, ps) # rest) =
     ((\<forall>p\<in>set ps. \<not> blocked m p w) \<and> seals_ok (foldl (\<lambda>m p. put m p w) m ps) rest)"

lemma run_seals_snoc: "run_seals m (xs @ [(w, ps)]) = foldl (\<lambda>m p. put m p w) (run_seals m xs) ps"
  by (induction m xs rule: run_seals.induct) auto

lemma seals_ok_snoc:
  "seals_ok m (xs @ [(w, ps)]) = (seals_ok m xs \<and> (\<forall>p\<in>set ps. \<not> blocked (run_seals m xs) p w))"
  by (induction m xs rule: run_seals.induct) auto

lemma span_run_seals: "span (run_seals m xs) = span m"
  by (induction m xs rule: run_seals.induct) (auto simp: span_put_all)

lemma seals_ok_blocked:
  assumes "seals_ok m seals" and "(w, ps) \<in> set seals" and "p \<in> set ps"
    and "sorted_wrt (<) (map fst seals)" and "\<And>x. x \<in> set seals \<Longrightarrow> w0 \<le> fst x"
    and "span m \<noteq> 0" and "\<forall>v. v < w0 + span m \<longrightarrow> blocked m p v"
  shows "span m \<le> w - w0"
  using assms
proof (induction seals arbitrary: m)
  case Nil
  then show ?case by simp
next
  case (Cons a rest)
  obtain w1 ps1 where a: "a = (w1, ps1)" by (cases a)
  show ?case
  proof (cases "(w, ps) = a")
    case True
    with Cons.prems a have "\<not> blocked m p w" by auto
    with Cons.prems(7) show ?thesis by (smt (verit, best))
  next
    case False
    then have mem: "(w, ps) \<in> set rest" using Cons.prems(2) by auto
    show ?thesis
    proof (cases "p \<in> set ps1")
      case True
      have "\<not> blocked m p w1" using Cons.prems(1) a True by auto
      then have "w0 + span m \<le> w1" using Cons.prems(7) by (meson linorder_not_less)
      moreover have "w1 < w" using Cons.prems(4) a mem by auto
      ultimately show ?thesis by simp
    next
      case no: False
      let ?m = "foldl (\<lambda>m p. put m p w1) m ps1"
      have "span ?m \<le> w - w0"
        by (rule Cons.IH [of ?m])
           (use Cons.prems a mem no in \<open>auto simp: span_put_all blocked_put_all\<close>)
      then show ?thesis by (simp add: span_put_all)
    qed
  qed
qed

text \<open>Two seals that mark the same prompt lie at least one span apart.\<close>

lemma seals_spaced:
  assumes "seals_ok m (pre @ (w1, ps1) # mid @ (w2, ps2) # post)"
    and "sorted_wrt (<) (map fst (pre @ (w1, ps1) # mid @ (w2, ps2) # post))"
    and "p \<in> set ps1" and "p \<in> set ps2" and "span m \<noteq> 0"
  shows "span m \<le> w2 - w1"
  using assms
proof (induction pre arbitrary: m)
  case Nil
  let ?m = "foldl (\<lambda>m p. put m p w1) m ps1"
  have first: "w1 \<le> fst x" if "x \<in> set (mid @ (w2, ps2) # post)" for x
    using Nil.prems(2) that by (fastforce simp: less_imp_le)
  have "span ?m \<le> w2 - w1"
    by (rule seals_ok_blocked [where seals = "mid @ (w2, ps2) # post" and ps = ps2 and p = p, OF _ _ _ _ first])
       (use Nil in \<open>auto simp: span_put_all blocked_put_all sorted_wrt_append\<close>)
  then show ?case by (simp add: span_put_all)
next
  case (Cons a pre)
  obtain w ps where a: "a = (w, ps)" by (cases a)
  have "span (foldl (\<lambda>m p. put m p w) m ps) \<le> w2 - w1"
    by (rule Cons.IH) (use Cons.prems a in \<open>auto simp: span_put_all\<close>)
  then show ?case by (simp add: span_put_all)
qed

end

section \<open>The class keeps the interface\<close>

lemma is_in_cooldown_mark:
  "is_in_cooldown (mark m p w) q w' =
     (if q = p then cooldown_windows m \<noteq> 0 \<and> w' - w < cooldown_windows m else is_in_cooldown m q w')"
  by (simp add: is_in_cooldown_def mark_def split: option.split)

interpretation cd: cooldown_store mark is_in_cooldown cooldown_windows
proof unfold_locales
  show "is_in_cooldown (mark m p w) q w' =
     (if q = p then cooldown_windows m \<noteq> 0 \<and> w' - w < cooldown_windows m else is_in_cooldown m q w')"
    for m p w q w' by (rule is_in_cooldown_mark)
  show "cooldown_windows (mark m p w) = cooldown_windows m" for m p w
    by (simp add: mark_def)
  show "is_in_cooldown m p w' \<Longrightarrow> w \<le> w' \<Longrightarrow> is_in_cooldown m p w" for m p w w'
    by (auto simp: is_in_cooldown_def split: if_splits option.splits)
qed

lemma current_cooldown_set_iff:
  "dict_ok (last_batched m) \<Longrightarrow> p \<in> current_cooldown_set m w \<longleftrightarrow> is_in_cooldown m p w"
  using set_dset_map_of [of "last_batched m" p]
  by (force simp: current_cooldown_set_def is_in_cooldown_def split: option.splits)

section \<open>Lemmas on rebuilding\<close>

text \<open>The newest window recorded for a prompt, \<open>-1\<close> for none.\<close>

definition latest :: "(int, int) dict \<Rightarrow> int \<Rightarrow> int" where
  "latest d p = dget d p (- 1)"

definition nonneg_windows :: "(int, int) dict \<Rightarrow> bool" where
  "nonneg_windows d = (\<forall>p w. map_of d p = Some w \<longrightarrow> 0 \<le> w)"

lemma nonneg_windowsD: "nonneg_windows d \<Longrightarrow> map_of d p = Some w \<Longrightarrow> - 1 < w"
  by (force simp: nonneg_windows_def)

lemma latest_dset: "latest (dset p w d) q = (if q = p then w else latest d q)"
  by (simp add: latest_def dget_dset)

lemma nonneg_windows_Nil [simp]: "nonneg_windows []"
  by (simp add: nonneg_windows_def)

lemma latest_Nil [simp]: "latest [] p = - 1"
  by (simp add: latest_def dget_def)

lemma nonneg_windows_dset: "nonneg_windows d \<Longrightarrow> 0 \<le> w \<Longrightarrow> nonneg_windows (dset p w d)"
  by (simp add: nonneg_windows_def)

lemma is_in_cooldown_latest:
  assumes "nonneg_windows (last_batched m)"
  shows "is_in_cooldown m p w =
     (cooldown_windows m \<noteq> 0 \<and> - 1 < latest (last_batched m) p \<and> w - cooldown_windows m < latest (last_batched m) p)"
  using nonneg_windowsD [OF assms]
  by (auto simp: is_in_cooldown_def latest_def dget_def split: option.splits)

lemma latest_rebuild_entry: "c < latest (rebuild_entry w i d) p \<longleftrightarrow> c < latest d p \<or> (p = i \<and> c < w)"
  by (auto simp: rebuild_entry_def latest_def dget_dset)

lemma nonneg_rebuild_entry: "nonneg_windows d \<Longrightarrow> nonneg_windows (rebuild_entry w i d)"
  using nonneg_windowsD [of d i]
  by (force simp: rebuild_entry_def dget_def intro: nonneg_windows_dset split: option.splits)

lemma latest_rebuild_entries:
  "c < latest (foldl (\<lambda>d e. rebuild_entry w (ae_prompt_idx e) d) d es) p
     \<longleftrightarrow> c < latest d p \<or> (p \<in> ae_prompt_idx ` set es \<and> c < w)"
  by (induction es arbitrary: d) (auto simp: latest_rebuild_entry)

lemma nonneg_rebuild_entries:
  "nonneg_windows d \<Longrightarrow> nonneg_windows (foldl (\<lambda>d e. rebuild_entry w (ae_prompt_idx e) d) d es)"
  by (induction es arbitrary: d) (auto simp: nonneg_rebuild_entry)

lemma latest_rebuild:
  "c < latest (foldl (rebuild_window h) d rs) p
     \<longleftrightarrow> c < latest d p \<or>
       (\<exists>r\<in>set rs. p \<in> ae_prompt_idx ` set (aw_batch r) \<and> h < aw_window_start r \<and> c < aw_window_start r)"
  by (induction rs arbitrary: d) (auto simp: rebuild_window_def Let_def latest_rebuild_entries)

lemma nonneg_rebuild: "nonneg_windows d \<Longrightarrow> nonneg_windows (foldl (rebuild_window h) d rs)"
  by (induction rs arbitrary: d) (auto simp: rebuild_window_def Let_def nonneg_rebuild_entries)

text \<open>The live map: every archived window sealed in turn.\<close>

definition seal_window :: "cooldown_map \<Rightarrow> archive \<Rightarrow> cooldown_map" where
  "seal_window m r = foldl (\<lambda>m p. mark m p (aw_window_start r)) m (map ae_prompt_idx (aw_batch r))"

definition seal_history :: "cooldown_map \<Rightarrow> archive list \<Rightarrow> cooldown_map" where
  "seal_history m rs = foldl seal_window m rs"

lemma seal_window_windows [simp]: "cooldown_windows (seal_window m r) = cooldown_windows m"
  unfolding seal_window_def by (rule cd.span_put_all)

lemma seal_history_windows [simp]: "cooldown_windows (seal_history m rs) = cooldown_windows m"
  unfolding seal_history_def by (induction rs arbitrary: m) simp_all

lemma marks_latest:
  "latest (last_batched (foldl (\<lambda>m p. mark m p w) m ps)) q = (if q \<in> set ps then w else latest (last_batched m) q)"
  by (induction ps arbitrary: m) (auto simp: mark_def latest_dset)

lemma marks_nonneg:
  "nonneg_windows (last_batched m) \<Longrightarrow> 0 \<le> w \<Longrightarrow> nonneg_windows (last_batched (foldl (\<lambda>m p. mark m p w) m ps))"
  by (induction ps arbitrary: m) (auto simp: mark_def nonneg_windows_dset)

lemma latest_seal_history:
  assumes "sorted_wrt (<) (map aw_window_start rs)"
    and "\<And>r. r \<in> set rs \<Longrightarrow> latest (last_batched m) p < aw_window_start r"
  shows "c < latest (last_batched (seal_history m rs)) p
     \<longleftrightarrow> c < latest (last_batched m) p \<or>
       (\<exists>r\<in>set rs. p \<in> ae_prompt_idx ` set (aw_batch r) \<and> c < aw_window_start r)"
  using assms
proof (induction rs arbitrary: m)
  case Nil
  then show ?case by (simp add: seal_history_def)
next
  case (Cons r rs)
  let ?m = "seal_window m r"
  have l: "latest (last_batched ?m) p =
      (if p \<in> ae_prompt_idx ` set (aw_batch r) then aw_window_start r else latest (last_batched m) p)"
    by (simp add: seal_window_def marks_latest)
  have "c < latest (last_batched (seal_history ?m rs)) p
     \<longleftrightarrow> c < latest (last_batched ?m) p \<or>
       (\<exists>r\<in>set rs. p \<in> ae_prompt_idx ` set (aw_batch r) \<and> c < aw_window_start r)"
    by (rule Cons.IH) (use Cons.prems l in auto)
  moreover have "latest (last_batched m) p < aw_window_start r" using Cons.prems(2) by simp
  ultimately show ?case by (auto simp: seal_history_def l)
qed

lemma nonneg_seal_history:
  "nonneg_windows (last_batched m) \<Longrightarrow> \<forall>r\<in>set rs. 0 \<le> aw_window_start r \<Longrightarrow>
   nonneg_windows (last_batched (seal_history m rs))"
  unfolding seal_history_def
  by (induction rs arbitrary: m) (auto simp: seal_window_def marks_nonneg)

lemma rebuild_is_in_cooldown:
  "is_in_cooldown (rebuild_from_history m rs cur) p w \<longleftrightarrow>
     cooldown_windows m \<noteq> 0 \<and>
     (\<exists>r\<in>set rs. p \<in> ae_prompt_idx ` set (aw_batch r) \<and> 0 \<le> aw_window_start r
        \<and> cur - aw_window_start r < cooldown_windows m \<and> w - aw_window_start r < cooldown_windows m)"
proof -
  let ?d = "foldl (rebuild_window (cur - cooldown_windows m)) [] rs"
  have "is_in_cooldown (rebuild_from_history m rs cur) p w \<longleftrightarrow>
      cooldown_windows m \<noteq> 0 \<and> max (- 1) (w - cooldown_windows m) < latest ?d p"
    by (subst is_in_cooldown_latest) (simp_all add: rebuild_from_history_def nonneg_rebuild)
  also have "\<dots> \<longleftrightarrow> cooldown_windows m \<noteq> 0 \<and>
     (\<exists>r\<in>set rs. p \<in> ae_prompt_idx ` set (aw_batch r) \<and> cur - cooldown_windows m < aw_window_start r
        \<and> max (- 1) (w - cooldown_windows m) < aw_window_start r)"
    by (subst latest_rebuild) simp
  finally show ?thesis by (auto simp: algebra_simps; force)
qed

text \<open>
  C14. Rebuilding the map from the archive at start-up gives the same eligibility as having
  sealed every archived window live: for windows archived in increasing order, every prompt
  and every window from the current one on, the rebuilt map and the live map agree. Dropping
  the windows at or below the horizon loses nothing.
\<close>

theorem rebuild_agrees_with_live_map:
  assumes "sorted_wrt (<) (map aw_window_start rs)" and "\<forall>r\<in>set rs. 0 \<le> aw_window_start r"
    and "current \<le> w"
  shows "is_in_cooldown (rebuild_from_history m rs current) p w
       = is_in_cooldown (seal_history (m \<lparr> last_batched := [] \<rparr>) rs) p w"
proof -
  let ?m = "m \<lparr> last_batched := [] \<rparr>"
  have "is_in_cooldown (seal_history ?m rs) p w \<longleftrightarrow>
      cooldown_windows m \<noteq> 0 \<and> max (- 1) (w - cooldown_windows m) < latest (last_batched (seal_history ?m rs)) p"
    by (subst is_in_cooldown_latest) (simp_all add: nonneg_seal_history assms(2))
  also have "\<dots> \<longleftrightarrow> cooldown_windows m \<noteq> 0 \<and>
     (\<exists>r\<in>set rs. p \<in> ae_prompt_idx ` set (aw_batch r) \<and> max (- 1) (w - cooldown_windows m) < aw_window_start r)"
    by (subst latest_seal_history) (use assms in force)+
  finally show ?thesis
    using assms(2,3) by (auto simp: rebuild_is_in_cooldown algebra_simps; force)
qed

theorem rebuild_agrees_with_live_map_witness:
  "is_in_cooldown (rebuild_from_history \<lparr> cooldown_windows = 3, last_batched = [] \<rparr>
      [\<lparr> aw_window_start = 1, aw_batch = [\<lparr> ae_hotkey = ''a'', ae_prompt_idx = 7 \<rparr>] \<rparr>,
       \<lparr> aw_window_start = 4, aw_batch = [\<lparr> ae_hotkey = ''b'', ae_prompt_idx = 9 \<rparr>] \<rparr>] 4) 9 5
   = is_in_cooldown (seal_history \<lparr> cooldown_windows = 3, last_batched = [] \<rparr>
      [\<lparr> aw_window_start = 1, aw_batch = [\<lparr> ae_hotkey = ''a'', ae_prompt_idx = 7 \<rparr>] \<rparr>,
       \<lparr> aw_window_start = 4, aw_batch = [\<lparr> ae_hotkey = ''b'', ae_prompt_idx = 9 \<rparr>] \<rparr>]) 9 5"
  using rebuild_agrees_with_live_map
    [of "[\<lparr> aw_window_start = 1, aw_batch = [\<lparr> ae_hotkey = ''a'', ae_prompt_idx = 7 \<rparr>] \<rparr>,
          \<lparr> aw_window_start = 4, aw_batch = [\<lparr> ae_hotkey = ''b'', ae_prompt_idx = 9 \<rparr>] \<rparr>]" 4 5
        "\<lparr> cooldown_windows = 3, last_batched = [] \<rparr>" 9]
  by simp

end
