(* ===== verification/BatchSelection.thy ===== *)
theory BatchSelection
  imports Cooldown "HOL-Library.Multiset" "HOL-Library.Sublist"
begin

text \<open>
  \<open>reliquary/validator/batch_selection.py\<close>: which of a window's accepted submissions
  enter the training batch. The record \<open>submission_like\<close> is the duck type
  \<open>_SubmissionLike\<close>, extended by the batcher; \<open>select_batch\<close> sorts by arrival time and
  hash, then takes the first \<open>b\<close> distinct prompts that are not in cooldown. SHA-256 is the
  parameter \<open>sha\<close>.
\<close>

record submission_like =
  hotkey :: string
  prompt_idx :: int
  merkle_root :: bytes
  arrived_at :: real

section \<open>The sort key\<close>

text \<open>Python compares the tuple \<open>(arrived_at, digest)\<close> lexicographically.\<close>

datatype order_key = OrderKey real bytes

instantiation order_key :: linorder
begin

fun less_eq_order_key :: "order_key \<Rightarrow> order_key \<Rightarrow> bool" where
  "less_eq_order_key (OrderKey a s) (OrderKey b t) = (a < b \<or> (a = b \<and> s \<le> t))"

definition less_order_key :: "order_key \<Rightarrow> order_key \<Rightarrow> bool" where
  "less_order_key x y = (x \<le> y \<and> \<not> y \<le> x)"

instance
proof
  fix x y z :: order_key
  show "(x < y) = (x \<le> y \<and> \<not> y \<le> x)" by (simp add: less_order_key_def)
  show "x \<le> x" by (cases x) simp
  show "x \<le> y \<Longrightarrow> y \<le> z \<Longrightarrow> x \<le> z" by (cases x; cases y; cases z) auto
  show "x \<le> y \<Longrightarrow> y \<le> x \<Longrightarrow> x = y" by (cases x; cases y) auto
  show "x \<le> y \<or> y \<le> x" by (cases x; cases y) auto
qed

end

definition tiebreak_preimage :: "'z submission_like_scheme \<Rightarrow> bytes res" where
  "tiebreak_preimage s =
     rbind (to_bytes_be 8 (prompt_idx s)) (\<lambda>p. Inr (encode (hotkey s) @ p @ merkle_root s))"

definition tiebreak_key :: "(bytes \<Rightarrow> bytes) \<Rightarrow> 'z submission_like_scheme \<Rightarrow> bytes res" where
  "tiebreak_key sha s = rbind (tiebreak_preimage s) (\<lambda>m. Inr (sha m))"

definition order_key_of :: "(bytes \<Rightarrow> bytes) \<Rightarrow> 'z submission_like_scheme \<Rightarrow> order_key res" where
  "order_key_of sha s = rbind (tiebreak_key sha s) (\<lambda>t. Inr (OrderKey (arrived_at s) t))"

section \<open>Selection\<close>

text \<open>The loop over the ordered submissions, with the prompts seen and the batch so far.\<close>

fun select_loop :: "int \<Rightarrow> (int \<Rightarrow> bool) \<Rightarrow> 'z submission_like_scheme list \<Rightarrow> int list
    \<Rightarrow> 'z submission_like_scheme list \<Rightarrow> 'z submission_like_scheme list" where
  "select_loop b cooling [] seen batch = batch"
| "select_loop b cooling (s # rest) seen batch =
     (if b \<le> int (length batch) then batch
      else if prompt_idx s \<in> set seen then select_loop b cooling rest seen batch
      else if cooling (prompt_idx s) then select_loop b cooling rest seen batch
      else select_loop b cooling rest (prompt_idx s # seen) (batch @ [s]))"

definition ordered :: "order_key list \<Rightarrow> 'z submission_like_scheme list \<Rightarrow> 'z submission_like_scheme list" where
  "ordered ks subs = map snd (sort_key fst (zip ks subs))"

definition select_batch :: "(bytes \<Rightarrow> bytes) \<Rightarrow> 'z submission_like_scheme list \<Rightarrow> int \<Rightarrow> int \<Rightarrow> cooldown_map
    \<Rightarrow> 'z submission_like_scheme list res" where
  "select_batch sha subs b current_window cm =
     (if b \<le> 0 then Inr []
      else rbind (traverse (order_key_of sha) subs) (\<lambda>ks.
        Inr (select_loop b (\<lambda>p. is_in_cooldown cm p current_window) (ordered ks subs) [] [])))"

section \<open>The reference: first eligible occurrence of each prompt\<close>

fun firsts :: "int list \<Rightarrow> 'z submission_like_scheme list \<Rightarrow> 'z submission_like_scheme list" where
  "firsts seen [] = []"
| "firsts seen (s # rest) =
     (if prompt_idx s \<in> set seen then firsts seen rest
      else s # firsts (prompt_idx s # seen) rest)"

definition okey :: "(bytes \<Rightarrow> bytes) \<Rightarrow> 'z submission_like_scheme \<Rightarrow> order_key" where
  "okey sha s = (case order_key_of sha s of Inr k \<Rightarrow> k | Inl _ \<Rightarrow> OrderKey 0 [])"

definition eligible_in_order :: "(bytes \<Rightarrow> bytes) \<Rightarrow> 'z submission_like_scheme list \<Rightarrow> int \<Rightarrow> cooldown_map
    \<Rightarrow> 'z submission_like_scheme list" where
  "eligible_in_order sha subs w cm =
     firsts [] (filter (\<lambda>s. \<not> is_in_cooldown cm (prompt_idx s) w) (sort_key (okey sha) subs))"

lemma select_loop_firsts:
  "select_loop b cooling rest seen batch =
     batch @ take (nat (b - int (length batch))) (firsts seen (filter (\<lambda>s. \<not> cooling (prompt_idx s)) rest))"
proof (induction b cooling rest seen batch rule: select_loop.induct)
  case (1 b cooling seen batch)
  then show ?case by simp
next
  case (2 b cooling s rest seen batch)
  show ?case
  proof (cases "b \<le> int (length batch) \<or> prompt_idx s \<in> set seen \<or> cooling (prompt_idx s)")
    case True
    with 2 show ?thesis by auto
  next
    case False
    then have "nat (b - int (length batch)) = Suc (nat (b - int (length (batch @ [s]))))" by auto
    with 2 False show ?thesis by simp
  qed
qed

lemma firsts_props:
  "distinct (map prompt_idx (firsts seen xs)) \<and> subseq (firsts seen xs) xs
     \<and> prompt_idx ` set (firsts seen xs) \<inter> set seen = {}"
proof (induction xs arbitrary: seen)
  case Nil
  then show ?case by simp
next
  case (Cons x xs)
  then show ?case
    using Cons.IH [of "prompt_idx x # seen"] by (auto intro: subseq_Cons')
qed

lemma subseq_set: "subseq xs ys \<Longrightarrow> set xs \<subseteq> set ys"
  by (induction rule: list_emb.induct) auto

lemma firsts_subset: "set (firsts seen xs) \<subseteq> set xs"
  using firsts_props [of seen xs] by (auto dest: subseq_set)

lemma firsts_cover:
  assumes "sorted (map f xs)" and "s \<in> set xs" and "prompt_idx s \<notin> set seen"
  shows "\<exists>t\<in>set (firsts seen xs). prompt_idx t = prompt_idx s \<and> f t \<le> f s"
  using assms
proof (induction xs arbitrary: seen)
  case Nil
  then show ?case by simp
next
  case (Cons x xs)
  show ?case
  proof (cases "prompt_idx x = prompt_idx s")
    case True
    with Cons.prems have "x \<in> set (firsts seen (x # xs)) \<and> f x \<le> f s" by auto
    with True show ?thesis by blast
  next
    case False
    with Cons.prems have "s \<in> set xs" "sorted (map f xs)" by auto
    with Cons.IH [of seen] Cons.IH [of "prompt_idx x # seen"] False Cons.prems
    show ?thesis by auto
  qed
qed

lemma sorted_subseq: "subseq xs ys \<Longrightarrow> sorted (map f ys) \<Longrightarrow> sorted (map f xs)"
proof (induction rule: list_emb.induct)
  case (list_emb_Cons2 x y xs ys)
  then show ?case using subseq_set [of xs ys] by auto
qed auto

lemma sort_key_pairs: "sort_key fst (map (\<lambda>x. (f x, x)) xs) = map (\<lambda>x. (f x, x)) (sort_key f xs)"
proof (induction xs)
  case Nil
  then show ?case by simp
next
  case (Cons x xs)
  have "insort_key fst (f x, x) (map (\<lambda>x. (f x, x)) ys) = map (\<lambda>x. (f x, x)) (insort_key f x ys)" for ys
    by (induction ys) auto
  with Cons show ?case by simp
qed

lemma ordered_sort_key: "ordered (map f subs) subs = sort_key f subs"
  unfolding ordered_def
  by (simp add: zip_map1 zip_same_conv_map sort_key_pairs [unfolded comp_def] comp_def split_def)

lemma traverse_okey:
  assumes "traverse (order_key_of sha) subs = Inr ks"
  shows "ks = map (okey sha) subs"
  using assms
proof (induction subs arbitrary: ks)
  case Nil
  then show ?case by simp
next
  case (Cons s subs)
  then show ?case by (auto simp: res_simps okey_def)
qed

lemma order_key_total:
  "\<forall>s\<in>set subs. 0 \<le> prompt_idx s \<and> prompt_idx s < 2 ^ 64 \<Longrightarrow>
   traverse (order_key_of sha) subs = Inr (map (okey sha) subs)"
  by (rule traverse_total)
     (simp add: okey_def order_key_of_def tiebreak_key_def tiebreak_preimage_def to_bytes_be_def)

lemma select_batch_reference:
  assumes "select_batch sha subs b w cm = Inr batch"
  shows "batch = take (nat b) (eligible_in_order sha subs w cm)"
  using assms
  by (auto simp: select_batch_def res_simps select_loop_firsts eligible_in_order_def
      ordered_sort_key dest!: traverse_okey split: if_splits)

lemma select_batch_total:
  "\<forall>s\<in>set subs. 0 \<le> prompt_idx s \<and> prompt_idx s < 2 ^ 64 \<Longrightarrow>
   select_batch sha subs b w cm = Inr (take (nat b) (eligible_in_order sha subs w cm))"
  by (simp add: select_batch_def order_key_total select_loop_firsts eligible_in_order_def ordered_sort_key)

lemma eligible_sorted: "sorted (map (okey sha) (filter P (sort_key (okey sha) subs)))"
  by (simp add: sorted_filter)

lemma eligible_in_order_props:
  fixes sha subs w cm
  defines "e \<equiv> eligible_in_order sha subs w cm"
  shows "distinct (map prompt_idx e)" and "set e \<subseteq> set subs"
    and "\<forall>s\<in>set e. \<not> is_in_cooldown cm (prompt_idx s) w" and "sorted (map (okey sha) e)"
proof -
  let ?fs = "filter (\<lambda>s. \<not> is_in_cooldown cm (prompt_idx s) w) (sort_key (okey sha) subs)"
  have e: "e = firsts [] ?fs" by (simp add: e_def eligible_in_order_def)
  show "distinct (map prompt_idx e)" using firsts_props [of "[]" ?fs] by (simp add: e)
  show "set e \<subseteq> set subs" using firsts_subset [of "[]" ?fs] by (auto simp: e)
  show "\<forall>s\<in>set e. \<not> is_in_cooldown cm (prompt_idx s) w" using firsts_subset [of "[]" ?fs] by (auto simp: e)
  show "sorted (map (okey sha) e)"
    using sorted_subseq [OF conjunct1 [OF conjunct2 [OF firsts_props [of "[]" ?fs]]] eligible_sorted] by (simp add: e)
qed

lemma subseq_take: "subseq (take n xs) xs"
  by (metis append_take_drop_id subseq_append_iff subseq_order.refl list_emb_append2 subseq_rev_drop_many list_emb_prefix)

lemma select_batch_props:
  assumes "select_batch sha subs b w cm = Inr batch"
  shows "int (length batch) \<le> max 0 b \<and> set batch \<subseteq> set subs \<and> distinct (map prompt_idx batch)
    \<and> (\<forall>s\<in>set batch. \<not> is_in_cooldown cm (prompt_idx s) w) \<and> sorted (map (okey sha) batch)"
proof -
  note e = eligible_in_order_props [of sha subs w cm]
  have b: "batch = take (nat b) (eligible_in_order sha subs w cm)"
    using assms by (rule select_batch_reference)
  have "set batch \<subseteq> set (eligible_in_order sha subs w cm)" by (simp add: b set_take_subset)
  moreover have "sorted (map (okey sha) batch)"
    unfolding b by (rule sorted_subseq [OF _ e(4)]) (simp add: subseq_take)
  moreover have "distinct (map prompt_idx batch)" using e(1) by (simp add: b distinct_map_take)
  ultimately show ?thesis using e(2,3) by (auto simp: b)
qed

text \<open>
  What \<open>select_batch\<close> returns is a batch: at most \<open>b\<close> members, all of them submitted,
  one per prompt, none in cooldown, in the order of arrival time and tie-break hash.
\<close>

theorem select_batch_sound:
  assumes "select_batch sha subs b w cm = Inr batch"
  shows "int (length batch) \<le> max 0 b \<and> set batch \<subseteq> set subs \<and> distinct (map prompt_idx batch)
    \<and> (\<forall>s\<in>set batch. \<not> is_in_cooldown cm (prompt_idx s) w) \<and> sorted (map (okey sha) batch)"
  using select_batch_props [OF assms] .

theorem select_batch_sound_witness:
  "\<exists>batch. select_batch id [\<lparr> hotkey = ''a'', prompt_idx = 3, merkle_root = [], arrived_at = 1 \<rparr>,
       \<lparr> hotkey = ''b'', prompt_idx = 3, merkle_root = [], arrived_at = 2 \<rparr>] 8 0
       \<lparr> cooldown_windows = 5, last_batched = [] \<rparr> = Inr batch
     \<and> batch \<noteq> [] \<and> distinct (map prompt_idx batch)"
proof -
  let ?s = "\<lparr> hotkey = ''a'', prompt_idx = 3, merkle_root = [], arrived_at = 1 \<rparr>"
  let ?t = "\<lparr> hotkey = ''b'', prompt_idx = 3, merkle_root = [], arrived_at = 2 \<rparr>"
  have r: "select_batch id [?s, ?t] 8 0 \<lparr> cooldown_windows = 5, last_batched = [] \<rparr> = Inr [?s]"
    by (simp add: select_batch_def order_key_of_def tiebreak_key_def tiebreak_preimage_def
        to_bytes_be_def ordered_def is_in_cooldown_def)
  from select_batch_sound [OF r] r show ?thesis by auto
qed

text \<open>
  C13. Selection leaves nothing out: an accepted submission whose prompt is not in cooldown
  is passed over only for an earlier one with the same prompt, or because the batch is full
  of submissions that all come before it.
\<close>

theorem select_batch_complete:
  assumes "select_batch sha subs b w cm = Inr batch" and "0 < b"
    and "s \<in> set subs" and "\<not> is_in_cooldown cm (prompt_idx s) w"
  shows "(\<exists>t\<in>set batch. prompt_idx t = prompt_idx s \<and> okey sha t \<le> okey sha s)
       \<or> (int (length batch) = b \<and> (\<forall>t\<in>set batch. okey sha t \<le> okey sha s))"
proof -
  let ?e = "eligible_in_order sha subs w cm"
  have b: "batch = take (nat b) ?e" using assms(1) by (rule select_batch_reference)
  obtain t where t: "t \<in> set ?e" "prompt_idx t = prompt_idx s" "okey sha t \<le> okey sha s"
    using firsts_cover [OF eligible_sorted, of s "\<lambda>s. \<not> is_in_cooldown cm (prompt_idx s) w" sha subs "[]"] assms(3,4)
    by (auto simp: eligible_in_order_def)
  show ?thesis
  proof (cases "t \<in> set batch")
    case True
    with t show ?thesis by blast
  next
    case False
    then have d: "t \<in> set (drop (nat b) ?e)"
      using t(1) b by (metis UnE append_take_drop_id set_append)
    then have len: "int (length batch) = b" using b assms(2) by (cases "nat b < length ?e") auto
    have "sorted (map (okey sha) (take (nat b) ?e @ drop (nat b) ?e))"
      using eligible_in_order_props(4) [of sha subs w cm] by simp
    then have "\<forall>u\<in>set batch. okey sha u \<le> okey sha t"
      using d b by (simp add: sorted_append del: append_take_drop_id)
    with len t(3) show ?thesis by (meson order_trans)
  qed
qed

theorem select_batch_complete_witness:
  "\<exists>batch. select_batch id [\<lparr> hotkey = ''a'', prompt_idx = 3, merkle_root = [], arrived_at = 1 \<rparr>,
       \<lparr> hotkey = ''b'', prompt_idx = 3, merkle_root = [], arrived_at = 2 \<rparr>] 1 0
       \<lparr> cooldown_windows = 5, last_batched = [] \<rparr> = Inr batch
     \<and> (\<exists>t\<in>set batch. prompt_idx t = 3)"
proof -
  let ?s = "\<lparr> hotkey = ''a'', prompt_idx = 3, merkle_root = [], arrived_at = 1 \<rparr>"
  let ?t = "\<lparr> hotkey = ''b'', prompt_idx = 3, merkle_root = [], arrived_at = 2 \<rparr>"
  let ?cm = "\<lparr> cooldown_windows = 5, last_batched = [] \<rparr>"
  have r: "select_batch id [?s, ?t] 1 0 ?cm = Inr [?s]"
    by (simp add: select_batch_def order_key_of_def tiebreak_key_def tiebreak_preimage_def
        to_bytes_be_def ordered_def is_in_cooldown_def)
  have "\<not> is_in_cooldown ?cm (prompt_idx ?t) 0" by (simp add: is_in_cooldown_def)
  from select_batch_complete [OF r _ _ this] r show ?thesis by auto
qed

text \<open>
  The batch does not depend on the order in which the submissions were stored: any two
  lists with the same submissions give the same batch, as long as no two submissions agree
  in arrival time and hash. Every validator that sees the same set selects the same batch.
\<close>

theorem select_batch_order_independent:
  assumes "mset subs = mset subs'" and "inj_on (okey sha) (set subs)"
    and "\<forall>s\<in>set subs. 0 \<le> prompt_idx s \<and> prompt_idx s < 2 ^ 64"
  shows "select_batch sha subs b w cm = select_batch sha subs' b w cm"
proof -
  have "set subs' = set subs" using assms(1) by (metis set_mset_mset)
  moreover have "sort_key (okey sha) subs = sort_key (okey sha) subs'"
    using assms(1,2) by (intro sort_key_inj_key_eq) simp_all
  ultimately show ?thesis
    using assms(3) by (simp add: select_batch_total eligible_in_order_def)
qed

theorem select_batch_order_independent_witness:
  "select_batch id [\<lparr> hotkey = ''a'', prompt_idx = 3, merkle_root = [], arrived_at = 1 \<rparr>,
       \<lparr> hotkey = ''b'', prompt_idx = 4, merkle_root = [], arrived_at = 2 \<rparr>] 8 0
       \<lparr> cooldown_windows = 5, last_batched = [] \<rparr>
   = select_batch id [\<lparr> hotkey = ''b'', prompt_idx = 4, merkle_root = [], arrived_at = 2 \<rparr>,
       \<lparr> hotkey = ''a'', prompt_idx = 3, merkle_root = [], arrived_at = 1 \<rparr>] 8 0
       \<lparr> cooldown_windows = 5, last_batched = [] \<rparr>"
  by (rule select_batch_order_independent)
     (simp_all add: okey_def order_key_of_def tiebreak_key_def tiebreak_preimage_def to_bytes_be_def)

end
