(* ===== verification/Tokens.thy ===== *)
theory Tokens
  imports Constants
begin

text \<open>
  \<open>reliquary/protocol/tokens.py\<close> and \<open>reliquary/shared/hf_compat.py\<close>: the byte encoding
  of token ids that every hash of the protocol is taken over, the bounds check on a
  submitted token list, the prompt encoder, and the helpers that read the model's
  configuration. A configuration object is a \<open>json\<close> value whose fields are the object's
  attributes; a token list is a list of \<open>json\<close> values, because that is what a submission
  carries before any check. The tokenizer is a record of the operations the code calls.
\<close>

section \<open>Model configuration\<close>

definition positive_int :: "json option \<Rightarrow> int option" where
  "positive_int v = (case Option.bind v as_int of
      Some i \<Rightarrow> if 0 < i then Some i else None | None \<Rightarrow> None)"

fun first_attr :: "json \<Rightarrow> string list \<Rightarrow> int option" where
  "first_attr cfg [] = None"
| "first_attr cfg (a # as) =
     (case positive_int (jattr cfg a) of Some i \<Rightarrow> Some i | None \<Rightarrow> first_attr cfg as)"

definition text_config_attr :: "json \<Rightarrow> string \<Rightarrow> int option" where
  "text_config_attr cfg a =
     (case jattr cfg ''text_config'' of None \<Rightarrow> None | Some t \<Rightarrow> positive_int (jattr t a))"

text \<open>The last argument is the shape of the input-embedding weight, \<open>None\<close> when there is none.\<close>

definition resolve_hidden_size :: "json \<Rightarrow> int list option \<Rightarrow> int res" where
  "resolve_hidden_size cfg emb_shape =
     (case first_attr cfg [''hidden_size'', ''d_model'', ''n_embd'', ''embed_dim'', ''hidden_dim''] of
        Some v \<Rightarrow> Inr v
      | None \<Rightarrow>
          (case text_config_attr cfg ''hidden_size'' of
             Some v \<Rightarrow> Inr v
           | None \<Rightarrow>
               (case emb_shape of Some [_, d] \<Rightarrow> Inr d | _ \<Rightarrow> Inl AttributeError)))"

definition resolve_vocab_size :: "json \<Rightarrow> int option" where
  "resolve_vocab_size cfg =
     (case first_attr cfg [''vocab_size'', ''n_vocab'', ''vocabulary_size''] of
        Some v \<Rightarrow> Some v | None \<Rightarrow> text_config_attr cfg ''vocab_size'')"

definition resolve_max_context_length :: "json \<Rightarrow> int" where
  "resolve_max_context_length cfg =
     (case first_attr cfg [''max_position_embeddings'', ''max_seq_len'', ''n_positions'',
                           ''seq_length'', ''max_sequence_length'', ''model_max_length''] of
        Some v \<Rightarrow> v | None \<Rightarrow> 16384)"

section \<open>Token encoding and bounds\<close>

text \<open>\<open>struct.pack(">I", i & 0xFFFFFFFF)\<close>: the low 32 bits, big-endian.\<close>

definition int_to_bytes :: "int \<Rightarrow> bytes" where
  "int_to_bytes i = be_bytes 4 (i mod 2 ^ 32)"

definition tokens_bytes :: "int list \<Rightarrow> bytes" where
  "tokens_bytes tokens = concat (map int_to_bytes tokens)"

definition hash_tokens :: "(bytes \<Rightarrow> bytes) \<Rightarrow> int list \<Rightarrow> bytes" where
  "hash_tokens sha tokens = sha (tokens_bytes tokens)"

definition validate_token_ids :: "json list \<Rightarrow> int \<Rightarrow> bool" where
  "validate_token_ids tokens vocab_size =
     (filter (\<lambda>t. case as_int t of None \<Rightarrow> True | Some i \<Rightarrow> i < 0 \<or> vocab_size \<le> i) tokens = [])"

definition validate_sequence_length :: "json list \<Rightarrow> json \<Rightarrow> bool" where
  "validate_sequence_length tokens cfg = (\<not> resolve_max_context_length cfg < int (length tokens))"

definition verify_tokens :: "json list \<Rightarrow> json \<Rightarrow> bool" where
  "verify_tokens tokens cfg =
     (if tokens = [] then False
      else if (case resolve_vocab_size cfg of
                 Some v \<Rightarrow> \<not> validate_token_ids tokens v | None \<Rightarrow> False) then False
      else if \<not> validate_sequence_length tokens cfg then False
      else True)"

section \<open>Prompt encoding\<close>

datatype chat_result = FlatIds "int list" | Encoding "(string \<times> int list) list"

record tokenizer =
  tk_chat_template :: "json option"
  tk_apply_chat_template :: "(string \<Rightarrow> bool \<Rightarrow> chat_result) option"
  tk_encode :: "string \<Rightarrow> int list"
  tk_decode :: "json list \<Rightarrow> string"
  tk_eos :: "json option"

fun occurs_in :: "string \<Rightarrow> string \<Rightarrow> bool" where
  "occurs_in pat [] = (pat = [])"
| "occurs_in pat (c # s) = (take (length pat) (c # s) = pat \<or> occurs_in pat s)"

text \<open>
  The chat template is used when it is a non-empty string and the tokenizer can apply it;
  thinking is enabled when the template mentions the switch. A dictionary-shaped result is
  unwrapped to its \<open>input_ids\<close>.
\<close>

definition encode_prompt :: "tokenizer \<Rightarrow> string \<Rightarrow> int list res" where
  "encode_prompt tk prompt_text =
     (case (tk_chat_template tk, tk_apply_chat_template tk) of
        (Some (JStr tmpl), Some apply_tmpl) \<Rightarrow>
          if tmpl = [] then Inr (tk_encode tk prompt_text)
          else (case apply_tmpl prompt_text (occurs_in ''enable_thinking'' tmpl) of
                  FlatIds ids \<Rightarrow> Inr ids
                | Encoding kvs \<Rightarrow>
                    (case map_of kvs ''input_ids'' of None \<Rightarrow> Inl KeyError | Some ids \<Rightarrow> Inr ids))
      | _ \<Rightarrow> Inr (tk_encode tk prompt_text))"

section \<open>Lemmas\<close>

lemma first_attr_pos: "first_attr cfg as = Some v \<Longrightarrow> 0 < v"
  by (induction as) (auto simp: positive_int_def split: option.splits if_splits)

lemma resolve_max_context_length_pos: "0 < resolve_max_context_length cfg"
  unfolding resolve_max_context_length_def
  by (simp add: first_attr_pos del: first_attr.simps split: option.split)

lemma resolve_vocab_size_pos: "resolve_vocab_size cfg = Some v \<Longrightarrow> 0 < v"
  unfolding resolve_vocab_size_def
  by (auto simp: text_config_attr_def positive_int_def simp del: first_attr.simps
      dest: first_attr_pos split: option.splits if_splits)

interpretation tok: prefix_code_nonempty "\<lambda>i. 0 \<le> i \<and> i < 2 ^ 32" int_to_bytes
proof unfold_locales
  show "x = y \<and> s = t"
    if "0 \<le> x \<and> x < 2 ^ 32" "0 \<le> y \<and> y < 2 ^ 32" "int_to_bytes x @ s = int_to_bytes y @ t" for x y s t
    by (rule fixed_width_cut [where n = 4 and enc = int_to_bytes])
       (use that in \<open>auto simp: int_to_bytes_def dest: be_bytes_inj [where n = 4]\<close>)
  show "int_to_bytes x \<noteq> []" for x by (metis int_to_bytes_def length_be_bytes list.size(3) zero_neq_numeral)
qed

lemma int_to_bytes_wraps: "int_to_bytes (i + 2 ^ 32) = int_to_bytes i"
  by (simp add: int_to_bytes_def)

lemma validate_token_ids_iff:
  "validate_token_ids ts v \<longleftrightarrow> (\<forall>t\<in>set ts. \<exists>i. as_int t = Some i \<and> 0 \<le> i \<and> i < v)"
  by (force simp: validate_token_ids_def filter_empty_conv split: option.splits)

lemma verify_tokens_iff:
  "verify_tokens ts cfg \<longleftrightarrow> ts \<noteq> [] \<and> int (length ts) \<le> resolve_max_context_length cfg
     \<and> (\<forall>v. resolve_vocab_size cfg = Some v \<longrightarrow> (\<forall>t\<in>set ts. \<exists>i. as_int t = Some i \<and> 0 \<le> i \<and> i < v))"
  by (auto simp: verify_tokens_def validate_sequence_length_def validate_token_ids_iff split: option.splits)

text \<open>
  The 32-bit mask in the token encoding loses nothing on token lists the bounds check
  accepts: for a model whose vocabulary fits in 32 bits, two accepted lists of ids with the
  same encoded bytes are equal, whatever their lengths. So the token hash identifies the
  tokens up to collisions of SHA-256 itself.
\<close>

theorem verified_tokens_bytes_inj:
  assumes "verify_tokens (map JInt ts) cfg" and "verify_tokens (map JInt us) cfg"
    and "resolve_vocab_size cfg = Some v" and "v \<le> 2 ^ 32"
    and "tokens_bytes ts = tokens_bytes us"
  shows "ts = us"
  by (rule tok.concat_inj)
     (use assms in \<open>auto simp: tokens_bytes_def verify_tokens_iff list_all_iff\<close>)

theorem verified_tokens_bytes_inj_witness:
  "verify_tokens (map JInt [5, 7]) (JObj [(''vocab_size'', JInt 100)])
   \<and> tokens_bytes [5, 7] \<noteq> tokens_bytes [5, 8]"
proof -
  let ?cfg = "JObj [(''vocab_size'', JInt 100)]"
  have v: "resolve_vocab_size ?cfg = Some 100"
    by (simp add: resolve_vocab_size_def positive_int_def)
  have ok: "verify_tokens (map JInt [5, 7]) ?cfg" "verify_tokens (map JInt [5, 8]) ?cfg"
    by (simp_all add: verify_tokens_iff v resolve_max_context_length_def positive_int_def)
  from verified_tokens_bytes_inj [OF ok v] ok show ?thesis by auto
qed

end
