(* ===== verification/Crypto.thy ===== *)
theory Crypto
  imports Tokens "HOL-Library.Multiset"
begin

text \<open>
  \<open>reliquary/protocol/crypto.py\<close> and \<open>reliquary/shared/prompt_range.py\<close>: the
  domain-separated PRF, the cached projection vector, the challenge positions derived from
  tokens and randomness, and the per-window prompt range. SHA-256, SHAKE-256 and Python's
  seeded \<open>random.Random\<close> are parameters; what the code relies on of the last is the
  predicate \<open>rng_lawful\<close> (a shuffle is a permutation, a sample is \<open>k\<close> distinct elements).
  Floating-point products are exact.
\<close>

section \<open>Length-prefixed framing\<close>

definition lp_raw :: "nat \<Rightarrow> bytes \<Rightarrow> bytes" where
  "lp_raw n b = be_bytes n (int (length b)) @ b"

text \<open>\<open>len(b).to_bytes(n, "big") + b\<close>; it raises when the length needs more than \<open>n\<close> bytes.\<close>

definition len_prefix :: "nat \<Rightarrow> bytes \<Rightarrow> bytes res" where
  "len_prefix n b = rbind (to_bytes_be n (int (length b))) (\<lambda>h. Inr (h @ b))"

definition frame :: "nat \<Rightarrow> bytes list \<Rightarrow> bytes res" where
  "frame n parts = rbind (traverse (len_prefix n) parts) (\<lambda>xs. Inr (concat xs))"

definition fits :: "nat \<Rightarrow> bytes \<Rightarrow> bool" where
  "fits n b = (int (length b) < 256 ^ n)"

lemma lp_raw_cut:
  assumes "fits n x" and "fits n y" and "lp_raw n x @ s = lp_raw n y @ t"
  shows "x = y \<and> s = t"
proof -
  have e: "be_bytes n (int (length x)) @ (x @ s) = be_bytes n (int (length y)) @ (y @ t)"
    using assms(3) by (simp add: lp_raw_def)
  then have "be_bytes n (int (length x)) = be_bytes n (int (length y))" and r: "x @ s = y @ t"
    by (simp_all add: append_eq_append_conv)
  then have "int (length x) = int (length y)"
    using assms(1,2) by (intro be_bytes_inj [where n = n]) (auto simp: fits_def)
  with r show ?thesis by (simp add: append_eq_append_conv)
qed

interpretation lp4: prefix_code_nonempty "fits 4" "lp_raw 4"
proof unfold_locales
  show "x = y \<and> s = t" if "fits 4 x" "fits 4 y" "lp_raw 4 x @ s = lp_raw 4 y @ t" for x y s t
    using lp_raw_cut that by blast
  show "lp_raw 4 x \<noteq> []" for x
    by (metis append_is_Nil_conv length_be_bytes list.size(3) lp_raw_def zero_neq_numeral)
qed

lemma len_prefix_Inr: "len_prefix n b = Inr x \<longleftrightarrow> fits n b \<and> x = lp_raw n b"
  by (auto simp: len_prefix_def to_bytes_be_def fits_def lp_raw_def)

lemma frame_Inr: "frame n parts = Inr x \<longleftrightarrow> list_all (fits n) parts \<and> x = concat (map (lp_raw n) parts)"
proof -
  have "traverse (len_prefix n) parts = Inr ys \<longleftrightarrow> list_all (fits n) parts \<and> ys = map (lp_raw n) parts" for ys
    by (induction parts arbitrary: ys) (auto simp: res_simps len_prefix_Inr)
  then show ?thesis by (auto simp: frame_def res_simps)
qed

lemma frame4_inj: "frame 4 ps = Inr x \<Longrightarrow> frame 4 qs = Inr x \<Longrightarrow> ps = qs"
  by (auto simp: frame_Inr dest: lp4.concat_inj)

section \<open>The PRF\<close>

definition prf_input :: "bytes \<Rightarrow> bytes list \<Rightarrow> bytes res" where
  "prf_input label parts = frame 4 (label # parts)"

definition prf_shake :: "(bytes \<Rightarrow> nat \<Rightarrow> bytes) \<Rightarrow> bytes \<Rightarrow> bytes list \<Rightarrow> int \<Rightarrow> bytes res" where
  "prf_shake shake label parts out_bytes =
     (if out_bytes < 0 then Inl ValueError
      else if 2 ^ 16 < out_bytes then Inl ValueError
      else if out_bytes = 0 then Inr []
      else rbind (prf_input label parts) (\<lambda>m. Inr (shake m (nat out_bytes))))"

text \<open>
  The PRF's input is unambiguous: the label and the list of parts can be read back from
  the bytes that are hashed, so inputs that differ in the label, in a part, or only in where
  one part ends and the next begins, never feed the sponge the same bytes.
\<close>

theorem prf_input_unambiguous:
  assumes "prf_input label parts = Inr m" and "prf_input label' parts' = Inr m"
  shows "label = label' \<and> parts = parts'"
  using frame4_inj [of "label # parts" m "label' # parts'"] assms by (simp add: prf_input_def)

theorem prf_input_unambiguous_witness:
  "\<exists>m m'. prf_input [1] [[2, 3]] = Inr m \<and> prf_input [1] [[2], [3]] = Inr m' \<and> m \<noteq> m'"
proof -
  have a: "prf_input [1] [[2, 3]] = Inr (concat (map (lp_raw 4) [[1], [2, 3]]))"
    by (simp add: prf_input_def frame_Inr fits_def)
  have b: "prf_input [1] [[2], [3]] = Inr (concat (map (lp_raw 4) [[1], [2], [3]]))"
    by (simp add: prf_input_def frame_Inr fits_def)
  have "concat (map (lp_raw 4) [[1], [2, 3]]) \<noteq> concat (map (lp_raw 4) [[1], [2], [3]])"
  proof
    assume "concat (map (lp_raw 4) [[1], [2, 3]]) = concat (map (lp_raw 4) [[1], [2], [3]])"
    from prf_input_unambiguous [OF a b [folded this]] show False by simp
  qed
  with a b show ?thesis by blast
qed

lemma prf_const:
  "0 < n \<Longrightarrow> n \<le> 65536 \<Longrightarrow> list_all (fits 4) (l # ps) \<Longrightarrow>
   prf_shake (\<lambda>m n. replicate n x) l ps n = Inr (replicate (nat n) x)"
  by (auto simp: prf_shake_def prf_input_def frame_Inr rbind_eq_Inr)

section \<open>The projection vector\<close>

fun words32 :: "bytes \<Rightarrow> int list" where
  "words32 (a # b # c # d # r) =
     (let v = from_bytes_be [a, b, c, d] in (if 2 ^ 31 \<le> v then v - 2 ^ 32 else v) # words32 r)"
| "words32 _ = []"

definition clean_hex :: "string \<Rightarrow> string res" where
  "clean_hex rand_hex = (let c = strip_0x rand_hex in if c = [] then Inl ValueError else Inr (pad_even c))"

type_synonym rvec_cache = "(string \<times> int, int list) dict"

text \<open>
  The function keeps a cache of at most 100 vectors; the model threads it. A cached vector is
  cloned, so a caller cannot change the cache through the result.
\<close>

definition r_vec_from_randomness :: "(bytes \<Rightarrow> nat \<Rightarrow> bytes) \<Rightarrow> rvec_cache \<Rightarrow> string \<Rightarrow> int
    \<Rightarrow> rvec_cache \<times> int list res" where
  "r_vec_from_randomness shake cache rand_hex d_model =
     (if d_model \<le> 0 then (cache, Inl ValueError)
      else if 100000 < d_model then (cache, Inl ValueError)
      else if rand_hex = [] then (cache, Inl ValueError)
      else case clean_hex rand_hex of
        Inl e \<Rightarrow> (cache, Inl e)
      | Inr c \<Rightarrow>
          (case map_of cache (c, d_model) of
             Some t \<Rightarrow> (cache, Inr t)
           | None \<Rightarrow>
               (case rbind (fromhex c) (\<lambda>rb. prf_shake shake RNG_LABEL_sketch [rb] (4 * d_model)) of
                  Inl e \<Rightarrow> (cache, Inl e)
                | Inr raw \<Rightarrow>
                    (let t = words32 raw in
                     (if length cache < 100 then dset (c, d_model) t cache else cache, Inr t)))))"

definition r_vec_uncached :: "(bytes \<Rightarrow> nat \<Rightarrow> bytes) \<Rightarrow> string \<Rightarrow> int \<Rightarrow> int list res" where
  "r_vec_uncached shake rand_hex d_model = snd (r_vec_from_randomness shake [] rand_hex d_model)"

text \<open>The cache holds only vectors the computation gives, for keys it accepts.\<close>

definition rvec_cache_ok :: "(bytes \<Rightarrow> nat \<Rightarrow> bytes) \<Rightarrow> rvec_cache \<Rightarrow> bool" where
  "rvec_cache_ok shake cache = (dict_ok cache \<and> length cache \<le> 100 \<and>
     (\<forall>c d t. map_of cache (c, d) = Some t \<longrightarrow>
        (\<exists>raw. rbind (fromhex c) (\<lambda>rb. prf_shake shake RNG_LABEL_sketch [rb] (4 * d)) = Inr raw \<and> t = words32 raw)))"

lemma clean_hex_Inl: "clean_hex s = Inl e \<Longrightarrow> e = ValueError"
  by (auto simp: clean_hex_def Let_def split: if_splits)

lemma fromhex_Inl: "fromhex c = Inl e \<Longrightarrow> e = ValueError"
  by (induction c rule: fromhex.induct) (auto simp: res_simps split: if_splits option.splits)

lemma label_sketch: "length RNG_LABEL_sketch = 6"
  by (simp add: RNG_LABEL_sketch_def encode_def enc_char_def)

lemma label_open: "length RNG_LABEL_open = 4"
  by (simp add: RNG_LABEL_open_def encode_def enc_char_def)

lemma prf_sketch_Inr:
  "(\<exists>raw. prf_shake shake RNG_LABEL_sketch [rb] n = Inr raw)
     \<longleftrightarrow> n = 0 \<or> (0 < n \<and> n \<le> 65536 \<and> int (length rb) < 2 ^ 32)"
  by (auto simp: prf_shake_def prf_input_def res_simps frame_Inr fits_def label_sketch)

lemma length_dset: "length (dset k v d) \<le> Suc (length d)"
  by (induction d) auto

text \<open>
  The cache of projection vectors is invisible: from any cache the function itself can
  have built, a call returns what it would return without a cache, and leaves a cache of at
  most 100 entries with the same property.
\<close>

theorem r_vec_cache_transparent:
  assumes "rvec_cache_ok shake cache"
  shows "snd (r_vec_from_randomness shake cache rand_hex d) = r_vec_uncached shake rand_hex d
       \<and> rvec_cache_ok shake (fst (r_vec_from_randomness shake cache rand_hex d))"
proof -
  note defs = r_vec_from_randomness_def r_vec_uncached_def
  consider "d \<le> 0 \<or> 100000 < d \<or> rand_hex = [] \<or> (\<exists>e. clean_hex rand_hex = Inl e)"
    | c where "0 < d" "d \<le> 100000" "rand_hex \<noteq> []" "clean_hex rand_hex = Inr c"
    by (cases "clean_hex rand_hex") force+
  then show ?thesis
  proof cases
    case 1
    then show ?thesis using assms by (auto simp: defs)
  next
    case (2 c)
    let ?p = "rbind (fromhex c) (\<lambda>rb. prf_shake shake RNG_LABEL_sketch [rb] (4 * d))"
    show ?thesis
    proof (cases "map_of cache (c, d)")
      case (Some t)
      then obtain raw where "?p = Inr raw" "t = words32 raw"
        using assms unfolding rvec_cache_ok_def by blast
      with 2 Some assms show ?thesis by (simp add: defs Let_def)
    next
      case None
      show ?thesis
      proof (cases ?p)
        case (Inl e)
        with 2 None assms show ?thesis by (simp add: defs)
      next
        case (Inr raw)
        have "rvec_cache_ok shake (if length cache < 100 then dset (c, d) (words32 raw) cache else cache)"
          using assms Inr length_dset [of "(c, d)" "words32 raw" cache] by (auto simp: rvec_cache_ok_def)
        with 2 None Inr show ?thesis by (simp add: defs Let_def)
      qed
    qed
  qed
qed

theorem r_vec_cache_transparent_witness:
  "\<exists>cache. cache \<noteq> [] \<and> snd (r_vec_from_randomness (\<lambda>m n. replicate n 1) cache ''ab'' 1)
     = r_vec_uncached (\<lambda>m n. replicate n 1) ''ab'' 1"
proof -
  let ?sh = "\<lambda>m n. replicate n 1 :: bytes"
  have h: "fromhex ''ab'' = Inr [171]" by (simp add: ascii_space_def hex_value_def)
  obtain raw where raw: "prf_shake ?sh RNG_LABEL_sketch [[171]] 4 = Inr raw"
    using prf_sketch_Inr [of ?sh "[171]" 4] by auto
  have "rvec_cache_ok ?sh [((''ab'', 1), words32 raw)]"
    by (simp add: rvec_cache_ok_def dict_ok_def h raw del: fromhex.simps words32.simps)
  from r_vec_cache_transparent [OF this, of "''ab''" 1] show ?thesis by blast
qed

text \<open>
  When the projection vector exists. The function advertises dimensions up to 100000,
  but it returns exactly for hexadecimal randomness and a dimension from 1 to 16384: above
  that its own request to the PRF, four bytes per coordinate, passes the PRF's limit.
\<close>

theorem r_vec_defined_iff:
  "(\<exists>t. r_vec_uncached shake rand_hex d = Inr t) \<longleftrightarrow>
     0 < d \<and> d \<le> 16384 \<and> rand_hex \<noteq> [] \<and>
     (\<exists>c rb. clean_hex rand_hex = Inr c \<and> fromhex c = Inr rb \<and> int (length rb) < 2 ^ 32)"
proof (cases "clean_hex rand_hex")
  case (Inl e)
  then show ?thesis by (auto simp: r_vec_uncached_def r_vec_from_randomness_def)
next
  case (Inr c)
  show ?thesis
  proof (cases "fromhex c")
    case (Inl e)
    with Inr show ?thesis by (auto simp: r_vec_uncached_def r_vec_from_randomness_def)
  next
    case rb: (Inr rb)
    have "(\<exists>t. r_vec_uncached shake rand_hex d = Inr t) \<longleftrightarrow>
        0 < d \<and> d \<le> 100000 \<and> rand_hex \<noteq> [] \<and> (\<exists>raw. prf_shake shake RNG_LABEL_sketch [rb] (4 * d) = Inr raw)"
      using Inr rb
      by (cases "prf_shake shake RNG_LABEL_sketch [rb] (4 * d)")
         (auto simp: r_vec_uncached_def r_vec_from_randomness_def Let_def)
    with Inr rb show ?thesis by (auto simp: prf_sketch_Inr)
  qed
qed

section \<open>Challenge positions\<close>

text \<open>\<open>random.Random(seed)\<close>: its \<open>sample(range(n), k)\<close> and its \<open>shuffle\<close>, as functions of the seed bytes.\<close>

record rng_ops =
  rng_sample :: "bytes \<Rightarrow> int \<Rightarrow> int \<Rightarrow> int list"
  rng_shuffle :: "bytes \<Rightarrow> int list \<Rightarrow> int list"

definition rng_lawful :: "rng_ops \<Rightarrow> bool" where
  "rng_lawful rng =
     ((\<forall>m n k. 0 \<le> k \<and> k \<le> n \<longrightarrow>
        int (length (rng_sample rng m n k)) = k \<and> distinct (rng_sample rng m n k)
        \<and> set (rng_sample rng m n k) \<subseteq> {0..<n})
      \<and> (\<forall>m xs. mset (rng_shuffle rng m xs) = mset xs))"

definition indices_from_root :: "(bytes \<Rightarrow> bytes) \<Rightarrow> (bytes \<Rightarrow> nat \<Rightarrow> bytes) \<Rightarrow> rng_ops
    \<Rightarrow> int list \<Rightarrow> string \<Rightarrow> int \<Rightarrow> int \<Rightarrow> int list res" where
  "indices_from_root sha shake rng tokens rand_hex seq_len k =
     (if seq_len < k then Inl ValueError
      else if k \<le> 0 then Inl ValueError
      else if tokens = [] then Inl ValueError
      else rbind (clean_hex rand_hex) (\<lambda>c.
        rbind (rbind (fromhex c) (\<lambda>rb. prf_shake shake RNG_LABEL_open [hash_tokens sha tokens, rb] 32)) (\<lambda>material.
        Inr (if 10 * k < seq_len then sort (rng_sample rng material seq_len k)
             else sort (take (nat k) (rng_shuffle rng material [0..seq_len - 1]))))))"

definition indices_from_root_in_range :: "(bytes \<Rightarrow> bytes) \<Rightarrow> (bytes \<Rightarrow> nat \<Rightarrow> bytes) \<Rightarrow> rng_ops
    \<Rightarrow> int list \<Rightarrow> string \<Rightarrow> int \<Rightarrow> int \<Rightarrow> int \<Rightarrow> int list res" where
  "indices_from_root_in_range sha shake rng tokens rand_hex start end k =
     (if start < 0 then Inl ValueError
      else if end < start then Inl ValueError
      else (let len = end - start in
        if len \<le> 0 then Inr []
        else rbind (indices_from_root sha shake rng tokens rand_hex len (min k len))
               (\<lambda>rel. Inr (map (\<lambda>i. start + i) rel))))"

text \<open>\<open>create_proof\<close>: the beacon (round 2) and the positions.\<close>

record proof_package =
  pp_round :: int
  pp_randomness :: string
  pp_indices :: "int list"

definition create_proof :: "(bytes \<Rightarrow> bytes) \<Rightarrow> (bytes \<Rightarrow> nat \<Rightarrow> bytes) \<Rightarrow> rng_ops
    \<Rightarrow> int list \<Rightarrow> string \<Rightarrow> int \<Rightarrow> int \<Rightarrow> proof_package res" where
  "create_proof sha shake rng tokens randomness_hex seq_len k =
     rbind (indices_from_root sha shake rng tokens randomness_hex seq_len k)
       (\<lambda>idxs. Inr \<lparr> pp_round = 2, pp_randomness = randomness_hex, pp_indices = idxs \<rparr>)"

lemma distinct_shuffle_take:
  assumes "mset xs = mset [0..n - 1]"
  shows "distinct (take k xs)" and "set (take k xs) \<subseteq> {0..<n}"
    and "length (take k xs) = min k (nat n)"
proof -
  have d: "distinct xs" using assms by (metis distinct_upto mset_eq_imp_distinct_iff)
  then show "distinct (take k xs)" by simp
  have "set xs = {0..n - 1}" using assms by (metis set_mset_mset set_upto)
  then show "set (take k xs) \<subseteq> {0..<n}" using set_take_subset [of k xs] by auto
  have "length xs = nat n" using assms by (metis length_upto diff_add_cancel diff_zero mset_eq_length)
  then show "length (take k xs) = min k (nat n)" by (simp add: min.commute)
qed

lemma indices_from_root_props:
  assumes "rng_lawful rng" and "indices_from_root sha shake rng tokens rand_hex n k = Inr idxs"
  shows "sorted idxs \<and> distinct idxs \<and> set idxs \<subseteq> {0..<n} \<and> int (length idxs) = k"
proof -
  have k: "0 < k" "k \<le> n" using assms(2) by (auto simp: indices_from_root_def split: if_splits)
  show ?thesis
  proof (cases "10 * k < n")
    case True
    then obtain material where "idxs = sort (rng_sample rng material n k)"
      using assms(2) k by (auto simp: indices_from_root_def res_simps split: if_split_asm)
    with k assms(1) show ?thesis by (auto simp: rng_lawful_def)
  next
    case False
    then obtain material where m: "idxs = sort (take (nat k) (rng_shuffle rng material [0..n - 1]))"
      using assms(2) k by (auto simp: indices_from_root_def res_simps split: if_split_asm)
    have "mset (rng_shuffle rng material [0..n - 1]) = mset [0..n - 1]"
      using assms(1) by (simp add: rng_lawful_def)
    from distinct_shuffle_take [OF this, of "nat k"] m k show ?thesis by auto
  qed
qed

lemma indices_in_range_props:
  assumes "rng_lawful rng"
    and "indices_from_root_in_range sha shake rng tokens rand_hex start end k = Inr idxs"
  shows "sorted idxs \<and> distinct idxs \<and> set idxs \<subseteq> {start..<end}
       \<and> int (length idxs) = (if start = end then 0 else min k (end - start))"
proof (cases "start = end")
  case True
  with assms(2) show ?thesis
    by (auto simp: indices_from_root_in_range_def split: if_splits)
next
  case False
  then obtain rel where rel: "indices_from_root sha shake rng tokens rand_hex (end - start) (min k (end - start)) = Inr rel"
    and idxs: "idxs = map (\<lambda>i. start + i) rel"
    using assms(2) by (auto simp: indices_from_root_in_range_def res_simps Let_def split: if_splits)
  from indices_from_root_props [OF assms(1) rel] False idxs show ?thesis
    by (auto simp: distinct_map inj_on_def sorted_map sorted_wrt_map)
qed

text \<open>
  The challenged positions are what the verifier needs: with a lawful generator,
  \<open>indices_from_root_in_range\<close> returns \<open>min k (end - start)\<close> distinct positions in
  increasing order, all inside the half-open range \<open>[start, end)\<close>.
\<close>

theorem challenge_positions_in_range:
  assumes "rng_lawful rng"
    and "indices_from_root_in_range sha shake rng tokens rand_hex start end k = Inr idxs"
  shows "sorted idxs \<and> distinct idxs \<and> set idxs \<subseteq> {start..<end}
       \<and> int (length idxs) = (if start = end then 0 else min k (end - start))"
  using indices_in_range_props [OF assms] .

definition plain_rng :: rng_ops where
  "plain_rng = \<lparr> rng_sample = (\<lambda>m n k. [0..k - 1]), rng_shuffle = (\<lambda>m xs. xs) \<rparr>"

lemma plain_rng_lawful: "rng_lawful plain_rng"
  by (auto simp: plain_rng_def rng_lawful_def)

theorem challenge_positions_in_range_witness:
  "\<exists>idxs. indices_from_root_in_range (\<lambda>m. [1]) (\<lambda>m n. replicate n 1) plain_rng [5] ''ab'' 10 14 2 = Inr idxs
     \<and> set idxs \<subseteq> {10..<14} \<and> length idxs = 2"
proof -
  have h: "fromhex ''ab'' = Inr [171]" by (simp add: ascii_space_def hex_value_def)
  have c: "clean_hex ''ab'' = Inr ''ab''"
    by (simp add: clean_hex_def strip_0x_hex pad_even_def is_hex_char_def hex_value_def)
  have "\<exists>m. prf_shake (\<lambda>m n. replicate n 1) RNG_LABEL_open [[1], [171]] 32 = Inr m"
    by (simp add: prf_shake_def prf_input_def res_simps frame_Inr fits_def label_open)
  then obtain m where m: "prf_shake (\<lambda>m n. replicate n 1) RNG_LABEL_open [[1], [171]] 32 = Inr m" ..
  have i: "indices_from_root_in_range (\<lambda>m. [1]) (\<lambda>m n. replicate n 1) plain_rng [5] ''ab'' 10 14 2 = Inr [10, 11]"
    by (simp add: indices_from_root_in_range_def indices_from_root_def c h m hash_tokens_def plain_rng_def
        upto.simps del: fromhex.simps)
  from challenge_positions_in_range [OF plain_rng_lawful i] i show ?thesis by auto
qed

section \<open>Modular inner product\<close>

text \<open>\<open>torch.round\<close> rounds half to even; the product is exact here.\<close>

definition round_half_even :: "real \<Rightarrow> int" where
  "round_half_even x =
     (let f = \<lfloor>x\<rfloor>; d = x - of_int f in
      if d < 1 / 2 then f else if 1 / 2 < d then f + 1 else if even f then f else f + 1)"

definition dot_mod_q :: "real list \<Rightarrow> int list \<Rightarrow> int res" where
  "dot_mod_q hidden r_vec =
     (if length hidden \<noteq> length r_vec then Inl RuntimeError
      else Inr (sum_list (map2 (\<lambda>h r. round_half_even (h * 1024) * r) hidden r_vec) mod PRIME_Q))"

lemma dot_mod_q_range: "dot_mod_q h r = Inr v \<Longrightarrow> 0 \<le> v \<and> v < PRIME_Q"
  by (auto simp: dot_mod_q_def PRIME_Q_def split: if_splits)

section \<open>The per-window prompt range\<close>

definition prompt_range_preimage :: "string \<Rightarrow> string \<Rightarrow> bytes" where
  "prompt_range_preimage randomness env_name =
     encode ''prompt-range/v1|'' @ encode env_name @ encode ''|'' @ encode randomness"

definition window_prompt_range :: "(bytes \<Rightarrow> bytes) \<Rightarrow> string \<Rightarrow> string \<Rightarrow> int \<Rightarrow> int \<Rightarrow> int \<times> int" where
  "window_prompt_range sha randomness env_name universe_n sz =
     (if universe_n \<le> sz then (0, universe_n)
      else (let seed = sha (prompt_range_preimage randomness env_name);
                lo = from_bytes_be (take 8 seed) mod (universe_n - sz)
            in (lo, lo + sz)))"

text \<open>
  The eligible slice of a window is always a usable one: it lies inside the prompt
  space and has exactly \<open>size\<close> prompts, or is the whole space when that is no larger.
\<close>

theorem window_prompt_range_bounds:
  assumes "0 \<le> universe_n"
  shows "case window_prompt_range sha randomness env_name universe_n sz of (lo, hi) \<Rightarrow>
     0 \<le> lo \<and> hi \<le> universe_n \<and> hi - lo = min sz universe_n"
proof (cases "universe_n \<le> sz")
  case True
  with assms show ?thesis by (simp add: window_prompt_range_def)
next
  case False
  let ?x = "from_bytes_be (take 8 (sha (prompt_range_preimage randomness env_name)))"
  have "0 \<le> ?x mod (universe_n - sz)" and "?x mod (universe_n - sz) < universe_n - sz"
    using False by simp_all
  with False show ?thesis by (simp add: window_prompt_range_def Let_def)
qed

theorem window_prompt_range_bounds_witness:
  "case window_prompt_range (\<lambda>m. [0, 0, 0, 0, 0, 0, 1, 44]) ''ab'' ''math'' 1000 10 of (lo, hi) \<Rightarrow>
     0 \<le> lo \<and> hi \<le> 1000 \<and> hi - lo = min 10 1000"
  by (rule window_prompt_range_bounds) simp

end
