(* ===== verification/Signatures.thy ===== *)
theory Signatures
  imports Crypto
begin

text \<open>
  \<open>reliquary/protocol/signatures.py\<close>: the byte strings that miners sign (the commit of a
  rollout, the envelope of a submission, the upload precommit), signing and verifying them.
  Each binding is split into its preimage, the bytes that are hashed, and the SHA-256 digest
  of it, so that what a signature binds can be stated about the preimage. The keypair
  library (\<open>bittensor\<close>) is the record \<open>keypair_ops\<close>; \<open>None\<close> stands for its absence.
\<close>

definition COMMIT_DOMAIN :: bytes where "COMMIT_DOMAIN = encode ''grail-commit-v1''"
definition ENVELOPE_DOMAIN :: bytes where "ENVELOPE_DOMAIN = encode ''reliquary-envelope-v1''"
definition ENVELOPE_DOMAIN_V2 :: bytes where "ENVELOPE_DOMAIN_V2 = encode ''reliquary-envelope-v2''"
definition ENVELOPE_DOMAIN_V3 :: bytes where "ENVELOPE_DOMAIN_V3 = encode ''reliquary-envelope-v3''"
definition PRECOMMIT_DOMAIN :: bytes where "PRECOMMIT_DOMAIN = encode ''reliquary-upload-precommit-v2''"
definition PRECOMMIT_DOMAIN_V3 :: bytes where "PRECOMMIT_DOMAIN_V3 = encode ''reliquary-upload-precommit-v3''"

record keypair_ops =
  kp_sign :: "bytes \<Rightarrow> bytes"
  kp_verify :: "string \<Rightarrow> bytes \<Rightarrow> bytes \<Rightarrow> bool res"

section \<open>The commit binding\<close>

definition hash_commitments :: "(bytes \<Rightarrow> bytes) \<Rightarrow> (real \<Rightarrow> string) \<Rightarrow> json \<Rightarrow> bytes" where
  "hash_commitments sha rep commitments =
     (case dumps (float_text True rep) commitments of
        None \<Rightarrow> sha [] | Some payload \<Rightarrow> sha (encode payload))"

definition commit_preimage :: "(bytes \<Rightarrow> bytes) \<Rightarrow> (real \<Rightarrow> string) \<Rightarrow> int list \<Rightarrow> string \<Rightarrow> string \<Rightarrow> int
    \<Rightarrow> json \<Rightarrow> bytes res" where
  "commit_preimage sha rep tokens randomness_hex model_name layer_index commitments =
     rbind (fromhex (pad_even (strip_0x randomness_hex))) (\<lambda>rand_bytes.
     rbind (to_bytes_be_signed 4 layer_index) (\<lambda>layer_b.
     rbind (frame 4 [hash_tokens sha tokens, rand_bytes, encode model_name, layer_b,
                     hash_commitments sha rep commitments]) (\<lambda>body.
     Inr (COMMIT_DOMAIN @ body))))"

definition build_commit_binding :: "(bytes \<Rightarrow> bytes) \<Rightarrow> (real \<Rightarrow> string) \<Rightarrow> int list \<Rightarrow> string \<Rightarrow> string \<Rightarrow> int
    \<Rightarrow> json \<Rightarrow> bytes res" where
  "build_commit_binding sha rep tokens randomness_hex model_name layer_index commitments =
     rbind (commit_preimage sha rep tokens randomness_hex model_name layer_index commitments) (\<lambda>m. Inr (sha m))"

definition sign_commit_binding :: "(bytes \<Rightarrow> bytes) \<Rightarrow> (real \<Rightarrow> string) \<Rightarrow> keypair_ops option \<Rightarrow> int list \<Rightarrow> string
    \<Rightarrow> string \<Rightarrow> int \<Rightarrow> json \<Rightarrow> bytes res" where
  "sign_commit_binding sha rep bt tokens randomness_hex model_name layer_index commitments =
     (case bt of None \<Rightarrow> Inl ImportError
      | Some kp \<Rightarrow>
          rbind (build_commit_binding sha rep tokens randomness_hex model_name layer_index commitments)
            (\<lambda>msg. Inr (kp_sign kp msg)))"

text \<open>
  \<open>commit\<close> is the raw dictionary of the submission. Every exception inside the \<open>try\<close> means
  that the signature is not accepted.
\<close>

definition json_str :: "json \<Rightarrow> py_error \<Rightarrow> string res" where
  "json_str v e = (case v of JStr s \<Rightarrow> Inr s | _ \<Rightarrow> Inl e)"

definition json_ints :: "json \<Rightarrow> int list res" where
  "json_ints v = rbind (jlist v) (traverse (\<lambda>t. case as_int t of Some i \<Rightarrow> Inr i | None \<Rightarrow> Inl TypeError))"

definition commit_message :: "(bytes \<Rightarrow> bytes) \<Rightarrow> (real \<Rightarrow> string) \<Rightarrow> json \<Rightarrow> bytes res" where
  "commit_message sha rep commit =
     rbind (jindex commit ''tokens'') (\<lambda>tokens.
     rbind (jindex commit ''commitments'') (\<lambda>commitments.
     rbind (jget commit ''beacon'' (JObj [])) (\<lambda>beacon.
     rbind (jindex beacon ''randomness'') (\<lambda>randomness.
     rbind (jget commit ''model'' (JObj [])) (\<lambda>model_info.
     rbind (jget model_info ''name'' (JStr [])) (\<lambda>model_name.
     rbind (rbind (jget model_info ''layer_index'' JNull) jint) (\<lambda>layer_index.
     rbind (json_str randomness AttributeError) (\<lambda>rand.
     rbind (json_ints tokens) (\<lambda>toks.
     rbind (if truthy model_name then json_str model_name AttributeError else Inr []) (\<lambda>name.
     build_commit_binding sha rep toks rand name layer_index commitments))))))))))"

definition verify_commit_signature :: "(bytes \<Rightarrow> bytes) \<Rightarrow> (real \<Rightarrow> string) \<Rightarrow> keypair_ops option \<Rightarrow> json \<Rightarrow> string
    \<Rightarrow> bool res" where
  "verify_commit_signature sha rep bt commit wallet_address =
     (case bt of None \<Rightarrow> Inl ImportError
      | Some kp \<Rightarrow>
          (case
             rbind (rbind (jindex commit ''signature'') (\<lambda>s. json_str s TypeError)) (\<lambda>sig_hex.
             rbind (fromhex sig_hex) (\<lambda>sig.
             rbind (jget commit ''proof_version'' JNull) (\<lambda>pv.
             if pv \<noteq> JStr GRAIL_PROOF_VERSION then Inr False
             else rbind (commit_message sha rep commit) (\<lambda>msg. kp_verify kp wallet_address msg sig))))
           of Inl _ \<Rightarrow> Inr False | Inr b \<Rightarrow> Inr b))"

section \<open>The envelope binding\<close>

record envelope =
  env_hotkey :: string
  env_window :: int
  env_prompt :: int
  env_merkle_root :: string
  env_checkpoint :: string
  env_round :: int
  env_randomness :: string
  env_nonce :: string
  env_protocol :: "int option"
  env_profile :: string

definition hex_bytes :: "string \<Rightarrow> bytes res" where
  "hex_bytes s = (let clean = pad_even (strip_0x s) in if clean = [] then Inr [] else fromhex clean)"

definition envelope_parts :: "envelope \<Rightarrow> (bytes \<times> bytes list) res" where
  "envelope_parts e =
     rbind (to_bytes_be 8 (env_window e)) (\<lambda>window_b.
     rbind (to_bytes_be 8 (env_prompt e)) (\<lambda>prompt_b.
     rbind (to_bytes_be 8 (env_round e)) (\<lambda>round_b.
     rbind (hex_bytes (env_merkle_root e)) (\<lambda>merkle_b.
     rbind (hex_bytes (env_randomness e)) (\<lambda>rand_b.
     (let hotkey_b = encode (env_hotkey e); ckpt_b = encode (env_checkpoint e); nonce_b = encode (env_nonce e) in
      if env_profile e \<noteq> [] then
        rbind (to_bytes_be 8 (case env_protocol e of None \<Rightarrow> 0 | Some v \<Rightarrow> v)) (\<lambda>protocol_b.
        Inr (ENVELOPE_DOMAIN_V3, [hotkey_b, window_b, prompt_b, merkle_b, ckpt_b, round_b, rand_b, nonce_b,
                                  protocol_b, encode (env_profile e)]))
      else case env_protocol e of
        None \<Rightarrow> Inr (ENVELOPE_DOMAIN, [hotkey_b, window_b, prompt_b, merkle_b, ckpt_b, round_b, rand_b, nonce_b])
      | Some v \<Rightarrow>
          rbind (to_bytes_be 8 v) (\<lambda>protocol_b.
          Inr (ENVELOPE_DOMAIN_V2, [hotkey_b, window_b, prompt_b, merkle_b, ckpt_b, round_b, protocol_b,
                                    rand_b, nonce_b]))))))))"

definition envelope_preimage :: "envelope \<Rightarrow> bytes res" where
  "envelope_preimage e =
     rbind (envelope_parts e) (\<lambda>(domain, parts). rbind (frame 4 parts) (\<lambda>body. Inr (domain @ body)))"

definition build_envelope_binding :: "(bytes \<Rightarrow> bytes) \<Rightarrow> envelope \<Rightarrow> bytes res" where
  "build_envelope_binding sha e = rbind (envelope_preimage e) (\<lambda>m. Inr (sha m))"

definition sign_envelope :: "(bytes \<Rightarrow> bytes) \<Rightarrow> keypair_ops option \<Rightarrow> envelope \<Rightarrow> bytes res" where
  "sign_envelope sha bt e =
     (case bt of None \<Rightarrow> Inl ImportError
      | Some kp \<Rightarrow> rbind (build_envelope_binding sha e) (\<lambda>msg. Inr (kp_sign kp msg)))"

text \<open>The verifier rebuilds the binding without a protocol version and without a profile.\<close>

definition verify_envelope_signature :: "(bytes \<Rightarrow> bytes) \<Rightarrow> keypair_ops option \<Rightarrow> envelope \<Rightarrow> string \<Rightarrow> bool" where
  "verify_envelope_signature sha bt e envelope_signature =
     (case bt of None \<Rightarrow> False
      | Some kp \<Rightarrow>
          if envelope_signature = [] then False
          else case fromhex envelope_signature of
            Inl _ \<Rightarrow> False
          | Inr sig_bytes \<Rightarrow>
              (case rbind (build_envelope_binding sha (e \<lparr> env_protocol := None, env_profile := [] \<rparr>))
                      (\<lambda>msg. kp_verify kp (env_hotkey e) msg sig_bytes) of
                 Inl _ \<Rightarrow> False | Inr b \<Rightarrow> b))"

section \<open>The upload precommit\<close>

record precommit =
  pre_hotkey :: string
  pre_window :: int
  pre_prompt :: int
  pre_merkle_root :: string
  pre_checkpoint :: string
  pre_environment :: string
  pre_payload_bytes :: int
  pre_payload_sha256 :: string
  pre_round :: int
  pre_randomness :: string
  pre_protocol :: int
  pre_nonce :: string
  pre_profile :: string

definition precommit_parts :: "precommit \<Rightarrow> (bytes \<times> bytes list) res" where
  "precommit_parts p =
     rbind (to_bytes_be 8 (pre_window p)) (\<lambda>window_b.
     rbind (to_bytes_be 8 (pre_prompt p)) (\<lambda>prompt_b.
     rbind (hex_bytes (pre_merkle_root p)) (\<lambda>merkle_b.
     rbind (to_bytes_be 8 (pre_payload_bytes p)) (\<lambda>size_b.
     rbind (hex_bytes (pre_payload_sha256 p)) (\<lambda>digest_b.
     rbind (to_bytes_be 8 (pre_round p)) (\<lambda>round_b.
     rbind (hex_bytes (pre_randomness p)) (\<lambda>rand_b.
     rbind (to_bytes_be 8 (pre_protocol p)) (\<lambda>protocol_b.
     (let fields = [encode (pre_hotkey p), window_b, prompt_b, merkle_b, encode (pre_checkpoint p),
                    encode (pre_environment p), size_b, digest_b, round_b, rand_b, protocol_b, encode (pre_nonce p)] in
      Inr (if pre_profile p \<noteq> [] then (PRECOMMIT_DOMAIN_V3, fields @ [encode (pre_profile p)])
           else (PRECOMMIT_DOMAIN, fields))))))))))) "

definition precommit_preimage :: "precommit \<Rightarrow> bytes res" where
  "precommit_preimage p =
     rbind (precommit_parts p) (\<lambda>(domain, parts). rbind (frame 4 parts) (\<lambda>body. Inr (domain @ body)))"

definition build_precommit_binding :: "(bytes \<Rightarrow> bytes) \<Rightarrow> precommit \<Rightarrow> bytes res" where
  "build_precommit_binding sha p = rbind (precommit_preimage p) (\<lambda>m. Inr (sha m))"

definition sign_precommit :: "(bytes \<Rightarrow> bytes) \<Rightarrow> keypair_ops option \<Rightarrow> precommit \<Rightarrow> bytes res" where
  "sign_precommit sha bt p =
     (case bt of None \<Rightarrow> Inl ImportError
      | Some kp \<Rightarrow> rbind (build_precommit_binding sha p) (\<lambda>msg. Inr (kp_sign kp msg)))"

section \<open>The environment seed\<close>

definition hex_number :: "string \<Rightarrow> int" where
  "hex_number s = foldl (\<lambda>a c. 16 * a + (case hex_value c of Some v \<Rightarrow> int v | None \<Rightarrow> 0)) 0 s"

definition derive_env_seed :: "(bytes \<Rightarrow> bytes) \<Rightarrow> string \<Rightarrow> string \<Rightarrow> json \<Rightarrow> int" where
  "derive_env_seed sha wallet_addr window_hash problem_index =
     (let idx = (case jint problem_index of Inl _ \<Rightarrow> 0 | Inr i \<Rightarrow> i);
          material = encode (wallet_addr @ '':'' @ window_hash @ '':'' @ str_int idx)
      in hex_number (take 8 (hex (sha (encode ''seed|'' @ material)))))"

section \<open>What the signatures bind\<close>

lemma domain_lengths [simp]:
  "length ENVELOPE_DOMAIN = 21" "length ENVELOPE_DOMAIN_V2 = 21" "length ENVELOPE_DOMAIN_V3 = 21"
  "length PRECOMMIT_DOMAIN = 29" "length PRECOMMIT_DOMAIN_V3 = 29" "length COMMIT_DOMAIN = 15"
  by code_simp+

lemma envelope_domains_distinct [simp]:
  "ENVELOPE_DOMAIN \<noteq> ENVELOPE_DOMAIN_V2" "ENVELOPE_DOMAIN \<noteq> ENVELOPE_DOMAIN_V3"
  "ENVELOPE_DOMAIN_V2 \<noteq> ENVELOPE_DOMAIN_V3" "PRECOMMIT_DOMAIN \<noteq> PRECOMMIT_DOMAIN_V3"
  by code_simp+

lemmas envelope_domains_distinct_sym [simp] = envelope_domains_distinct [THEN not_sym]

lemma envelope_parts_domain:
  "envelope_parts e = Inr (d, ps) \<Longrightarrow>
     d = (if env_profile e \<noteq> [] then ENVELOPE_DOMAIN_V3
          else if env_protocol e = None then ENVELOPE_DOMAIN else ENVELOPE_DOMAIN_V2)"
  by (auto simp: envelope_parts_def Let_def res_simps split: if_splits option.splits)

lemma precommit_parts_domain:
  "precommit_parts p = Inr (d, ps) \<Longrightarrow>
     d = (if pre_profile p \<noteq> [] then PRECOMMIT_DOMAIN_V3 else PRECOMMIT_DOMAIN)"
  by (auto simp: precommit_parts_def Let_def res_simps split: if_splits)

lemma to_bytes_be_eq: "to_bytes_be n i = Inr x \<Longrightarrow> to_bytes_be n j = Inr x \<Longrightarrow> i = j"
  by (metis from_be_bytes sum.distinct(1) sum.inject(2) to_bytes_be_def)

lemma framed_eq:
  assumes "rbind (frame 4 ps) (\<lambda>b. Inr (d @ b)) = Inr m" and "rbind (frame 4 qs) (\<lambda>b. Inr (d' @ b)) = Inr m"
    and "length d = length d'"
  shows "d = d' \<and> ps = qs"
proof -
  obtain x y where "frame 4 ps = Inr x" "frame 4 qs = Inr y" "d @ x = m" "d' @ y = m"
    using assms by (auto simp: res_simps)
  with assms(3) show ?thesis by (auto dest: frame4_inj)
qed

lemma envelope_preimage_parts:
  assumes "envelope_preimage e = Inr m" and "envelope_preimage e' = Inr m"
  shows "\<exists>d ps. envelope_parts e = Inr (d, ps) \<and> envelope_parts e' = Inr (d, ps)"
proof -
  obtain d ps d' qs where "envelope_parts e = Inr (d, ps)" "envelope_parts e' = Inr (d', qs)"
    "rbind (frame 4 ps) (\<lambda>b. Inr (d @ b)) = Inr m" "rbind (frame 4 qs) (\<lambda>b. Inr (d' @ b)) = Inr m"
    using assms by (auto simp: envelope_preimage_def rbind_eq_Inr)
  moreover from this have "length d = length d'" by (auto dest!: envelope_parts_domain)
  ultimately show ?thesis using framed_eq by blast
qed

definition same_envelope :: "envelope \<Rightarrow> envelope \<Rightarrow> bool" where
  "same_envelope e e' =
     (env_hotkey e = env_hotkey e' \<and> env_window e = env_window e' \<and> env_prompt e = env_prompt e'
      \<and> env_checkpoint e = env_checkpoint e' \<and> env_round e = env_round e' \<and> env_nonce e = env_nonce e'
      \<and> hex_bytes (env_merkle_root e) = hex_bytes (env_merkle_root e')
      \<and> hex_bytes (env_randomness e) = hex_bytes (env_randomness e')
      \<and> env_profile e = env_profile e'
      \<and> (if env_profile e = [] then env_protocol e = env_protocol e'
         else (case env_protocol e of None \<Rightarrow> 0 | Some v \<Rightarrow> v) = (case env_protocol e' of None \<Rightarrow> 0 | Some v \<Rightarrow> v)))"

text \<open>
  C36. A signed envelope binds every field the validator routes on. If two envelopes, of any of
  the three wire versions, hash the same preimage, they agree on the hotkey, window, prompt,
  checkpoint, round, nonce, profile and protocol version (a missing version counts as 0 under a
  profile), and their hexadecimal fields spell the same bytes.
\<close>

theorem envelope_preimage_binds:
  assumes "envelope_preimage e = Inr m" and "envelope_preimage e' = Inr m"
  shows "same_envelope e e'"
proof -
  obtain d ps where "envelope_parts e = Inr (d, ps)" "envelope_parts e' = Inr (d, ps)"
    using envelope_preimage_parts [OF assms] by blast
  then show ?thesis
    by (auto simp: envelope_parts_def same_envelope_def Let_def rbind_eq_Inr
        split: if_splits option.splits dest: encode_inj to_bytes_be_eq)
qed

text \<open>The witness envelopes: two nonces under the second wire version.\<close>

definition sample_envelope :: "string \<Rightarrow> envelope" where
  "sample_envelope nonce =
     \<lparr> env_hotkey = ''5F'', env_window = 7, env_prompt = 3, env_merkle_root = ''ab'', env_checkpoint = [],
       env_round = 9, env_randomness = ''0x01'', env_nonce = nonce, env_protocol = Some 2, env_profile = [] \<rparr>"

theorem envelope_preimage_binds_witness:
  "\<exists>m. envelope_preimage (sample_envelope ''n1'') = Inr m
     \<and> envelope_preimage (sample_envelope ''n2'') \<noteq> Inr m"
proof -
  have "projr (envelope_preimage (sample_envelope ''n1'')) \<noteq> [] \<and> isl (envelope_preimage (sample_envelope ''n1'')) = False"
    by code_simp
  then obtain m where m: "envelope_preimage (sample_envelope ''n1'') = Inr m"
    by (cases "envelope_preimage (sample_envelope ''n1'')") auto
  have "\<not> same_envelope (sample_envelope ''n1'') (sample_envelope ''n2'')"
    by (simp add: same_envelope_def sample_envelope_def)
  then show ?thesis using envelope_preimage_binds [OF m, of "sample_envelope ''n2''"] m by auto
qed

lemma precommit_preimage_parts:
  assumes "precommit_preimage p = Inr m" and "precommit_preimage p' = Inr m"
  shows "\<exists>d ps. precommit_parts p = Inr (d, ps) \<and> precommit_parts p' = Inr (d, ps)"
proof -
  obtain d ps d' qs where "precommit_parts p = Inr (d, ps)" "precommit_parts p' = Inr (d', qs)"
    "rbind (frame 4 ps) (\<lambda>b. Inr (d @ b)) = Inr m" "rbind (frame 4 qs) (\<lambda>b. Inr (d' @ b)) = Inr m"
    using assms by (auto simp: precommit_preimage_def rbind_eq_Inr)
  moreover from this have "length d = length d'" by (auto dest!: precommit_parts_domain)
  ultimately show ?thesis using framed_eq by blast
qed

text \<open>
  The upload precommit pins the body it announces. Two precommits with the same preimage
  agree on the size and the digest of the payload, the environment, the protocol version, the
  profile and the routing fields, so a body cannot be swapped for another after signing.
\<close>

theorem precommit_preimage_binds:
  assumes "precommit_preimage p = Inr m" and "precommit_preimage p' = Inr m"
  shows "pre_payload_bytes p = pre_payload_bytes p' \<and> hex_bytes (pre_payload_sha256 p) = hex_bytes (pre_payload_sha256 p')
    \<and> pre_environment p = pre_environment p' \<and> pre_protocol p = pre_protocol p' \<and> pre_profile p = pre_profile p'
    \<and> pre_hotkey p = pre_hotkey p' \<and> pre_window p = pre_window p' \<and> pre_prompt p = pre_prompt p'
    \<and> pre_checkpoint p = pre_checkpoint p' \<and> pre_round p = pre_round p' \<and> pre_nonce p = pre_nonce p'
    \<and> hex_bytes (pre_merkle_root p) = hex_bytes (pre_merkle_root p')
    \<and> hex_bytes (pre_randomness p) = hex_bytes (pre_randomness p')"
proof -
  obtain d ps where "precommit_parts p = Inr (d, ps)" "precommit_parts p' = Inr (d, ps)"
    using precommit_preimage_parts [OF assms] by blast
  then show ?thesis
    by (auto simp: precommit_parts_def Let_def rbind_eq_Inr split: if_splits dest: encode_inj to_bytes_be_eq)
qed

definition sample_precommit :: "int \<Rightarrow> precommit" where
  "sample_precommit n =
     \<lparr> pre_hotkey = ''5F'', pre_window = 7, pre_prompt = 3, pre_merkle_root = ''ab'', pre_checkpoint = [],
       pre_environment = ''m'', pre_payload_bytes = n, pre_payload_sha256 = ''cd'', pre_round = 9,
       pre_randomness = ''01'', pre_protocol = 2, pre_nonce = ''n'', pre_profile = ''p'' \<rparr>"

theorem precommit_preimage_binds_witness:
  "\<exists>m. precommit_preimage (sample_precommit 10) = Inr m \<and> precommit_preimage (sample_precommit 11) \<noteq> Inr m"
proof -
  have "\<not> isl (precommit_preimage (sample_precommit 10))" by code_simp
  then obtain m where m: "precommit_preimage (sample_precommit 10) = Inr m"
    by (cases "precommit_preimage (sample_precommit 10)") auto
  then show ?thesis using precommit_preimage_binds [OF m, of "sample_precommit 11"]
    by (auto simp: sample_precommit_def)
qed

section \<open>Domain separation\<close>

lemma commit_preimage_starts: "commit_preimage sha rep ts r n l c = Inr m \<Longrightarrow> take 1 m = take 1 COMMIT_DOMAIN"
  by (auto simp: commit_preimage_def rbind_eq_Inr)

lemma envelope_preimage_starts: "envelope_preimage e = Inr m \<Longrightarrow> take 11 m = take 11 ENVELOPE_DOMAIN"
proof -
  have a: "take 11 ENVELOPE_DOMAIN_V2 = take 11 ENVELOPE_DOMAIN" "take 11 ENVELOPE_DOMAIN_V3 = take 11 ENVELOPE_DOMAIN"
    by code_simp+
  assume "envelope_preimage e = Inr m"
  then obtain d ps b where "envelope_parts e = Inr (d, ps)" "m = d @ b"
    by (auto simp: envelope_preimage_def rbind_eq_Inr)
  then show ?thesis using a by (auto dest!: envelope_parts_domain)
qed

lemma precommit_preimage_starts: "precommit_preimage p = Inr m \<Longrightarrow> take 11 m = take 11 PRECOMMIT_DOMAIN"
proof -
  have a: "take 11 PRECOMMIT_DOMAIN_V3 = take 11 PRECOMMIT_DOMAIN" by code_simp
  assume "precommit_preimage p = Inr m"
  then obtain d ps b where "precommit_parts p = Inr (d, ps)" "m = d @ b"
    by (auto simp: precommit_preimage_def rbind_eq_Inr)
  then show ?thesis using a by (auto dest!: precommit_parts_domain)
qed

text \<open>
  No signature can be replayed across kinds of message: the preimage of a commit, of an
  envelope and of a precommit are never equal, whatever the fields, the version or the profile.
\<close>

theorem signature_domains_separated:
  "\<not> (commit_preimage sha rep ts r n l c = Inr m \<and> envelope_preimage e = Inr m)
   \<and> \<not> (commit_preimage sha rep ts r n l c = Inr m \<and> precommit_preimage p = Inr m)
   \<and> \<not> (envelope_preimage e = Inr m \<and> precommit_preimage p = Inr m)"
proof -
  have "take 1 (take 11 ENVELOPE_DOMAIN) \<noteq> take 1 COMMIT_DOMAIN" "take 1 (take 11 PRECOMMIT_DOMAIN) \<noteq> take 1 COMMIT_DOMAIN"
    "take 11 ENVELOPE_DOMAIN \<noteq> take 11 PRECOMMIT_DOMAIN" by code_simp+
  moreover have "take 1 (take 11 m) = take 1 m" by simp
  ultimately show ?thesis
    using commit_preimage_starts [of sha rep ts r n l c m] envelope_preimage_starts [of e m]
      precommit_preimage_starts [of p m] by metis
qed

section \<open>Signing and verifying\<close>

definition kp_lawful :: "keypair_ops \<Rightarrow> string \<Rightarrow> bool" where
  "kp_lawful kp addr = (\<forall>msg. kp_verify kp addr msg (kp_sign kp msg) = Inr True)"

text \<open>
  Signing then verifying an envelope: the verifier accepts what the signer made for the first wire
  version, and it never rebuilds the preimage that was signed for an envelope that carries a protocol
  version or a profile.
\<close>

theorem envelope_sign_verify:
  assumes "kp_lawful kp (env_hotkey e)" and "sign_envelope sha (Some kp) e = Inr sig" and "sig \<noteq> []"
  shows "(env_protocol e = None \<and> env_profile e = [] \<longrightarrow> verify_envelope_signature sha (Some kp) e (hex sig))
    \<and> ((env_protocol e = None \<and> env_profile e = []) \<longleftrightarrow>
         envelope_preimage e = envelope_preimage (e \<lparr> env_protocol := None, env_profile := [] \<rparr>))"
proof
  have "hex sig \<noteq> []" using assms(3) length_hex by (metis length_0_conv mult_is_0 zero_neq_numeral)
  then show "env_protocol e = None \<and> env_profile e = [] \<longrightarrow> verify_envelope_signature sha (Some kp) e (hex sig)"
    using assms(1,2)
    by (cases e) (auto simp: sign_envelope_def verify_envelope_signature_def rbind_eq_Inr kp_lawful_def fromhex_hex)
  obtain m where m: "envelope_preimage e = Inr m"
    using assms(2) by (auto simp: sign_envelope_def build_envelope_binding_def rbind_eq_Inr)
  show "(env_protocol e = None \<and> env_profile e = []) \<longleftrightarrow>
         envelope_preimage e = envelope_preimage (e \<lparr> env_protocol := None, env_profile := [] \<rparr>)"
  proof
    assume "envelope_preimage e = envelope_preimage (e \<lparr> env_protocol := None, env_profile := [] \<rparr>)"
    with m have "envelope_preimage (e \<lparr> env_protocol := None, env_profile := [] \<rparr>) = Inr m" by simp
    then obtain d ps where "envelope_parts e = Inr (d, ps)"
      "envelope_parts (e \<lparr> env_protocol := None, env_profile := [] \<rparr>) = Inr (d, ps)"
      using envelope_preimage_parts [OF m] by blast
    then show "env_protocol e = None \<and> env_profile e = []"
      by (auto dest!: envelope_parts_domain split: if_splits)
  next
    assume "env_protocol e = None \<and> env_profile e = []"
    then have "e \<lparr> env_protocol := None, env_profile := [] \<rparr> = e" by simp
    then show "envelope_preimage e = envelope_preimage (e \<lparr> env_protocol := None, env_profile := [] \<rparr>)" by simp
  qed
qed

definition toy_keypair :: keypair_ops where
  "toy_keypair = \<lparr> kp_sign = (\<lambda>m. m @ [1]), kp_verify = (\<lambda>a m s. Inr (s = m @ [1])) \<rparr>"

theorem envelope_sign_verify_witness:
  "\<exists>sig. sign_envelope (\<lambda>m. m) (Some toy_keypair) (sample_envelope ''n1'') = Inr sig \<and>
     envelope_preimage (sample_envelope ''n1'') \<noteq> envelope_preimage (sample_envelope ''n1'' \<lparr> env_protocol := None, env_profile := [] \<rparr>)"
proof -
  have "\<not> isl (sign_envelope (\<lambda>m. m) (Some toy_keypair) (sample_envelope ''n1''))
      \<and> projr (sign_envelope (\<lambda>m. m) (Some toy_keypair) (sample_envelope ''n1'')) \<noteq> []"
    by code_simp
  then obtain sig where s: "sign_envelope (\<lambda>m. m) (Some toy_keypair) (sample_envelope ''n1'') = Inr sig" "sig \<noteq> []"
    by (cases "sign_envelope (\<lambda>m. m) (Some toy_keypair) (sample_envelope ''n1'')") auto
  have "kp_lawful toy_keypair (env_hotkey (sample_envelope ''n1''))" by (simp add: kp_lawful_def toy_keypair_def)
  from envelope_sign_verify [OF this s] s(1) show ?thesis by (auto simp: sample_envelope_def)
qed

lemma hex_value_less: "hex_value c = Some v \<Longrightarrow> v < 16"
  by (auto simp: hex_value_def Let_def split: if_splits)

lemma hex_number_range: "0 \<le> hex_number s \<and> hex_number s < 16 ^ length s"
proof -
  have "0 \<le> a \<and> a < A \<Longrightarrow>
     0 \<le> foldl (\<lambda>a c. 16 * a + (case hex_value c of Some v \<Rightarrow> int v | None \<Rightarrow> 0)) a s
     \<and> foldl (\<lambda>a c. 16 * a + (case hex_value c of Some v \<Rightarrow> int v | None \<Rightarrow> 0)) a s < A * 16 ^ length s" for a A
  proof (induction s arbitrary: a A)
    case Nil
    then show ?case by simp
  next
    case (Cons c s)
    have "0 \<le> 16 * a + (case hex_value c of Some v \<Rightarrow> int v | None \<Rightarrow> 0)
        \<and> 16 * a + (case hex_value c of Some v \<Rightarrow> int v | None \<Rightarrow> 0) < 16 * A"
      using Cons.prems hex_value_less [of c] by (force split: option.split)
    from Cons.IH [OF this] show ?case by (simp add: mult.assoc mult.left_commute)
  qed
  from this [of 0 1] show ?thesis by (simp add: hex_number_def)
qed

lemma derive_env_seed_range: "0 \<le> derive_env_seed sha w h p \<and> derive_env_seed sha w h p < 2 ^ 32"
proof -
  have "hex_number (take 8 t) < 2 ^ 32" for t
  proof -
    have "(16::int) ^ length (take 8 t) \<le> 16 ^ 8" by (intro power_increasing) auto
    with hex_number_range [of "take 8 t"] show ?thesis by simp
  qed
  then show ?thesis using hex_number_range by (simp add: derive_env_seed_def Let_def)
qed

end
