(* ===== verification/Merkle.thy ===== *)
theory Merkle
  imports Json
begin

text \<open>
  \<open>reliquary/protocol/merkle.py\<close>: the canonical Merkle root of a rollout group, the digest of
  its generation-defining fields, and the check of a claimed root. SHA-256 is the parameter
  \<open>sha\<close>, the text of a finite float is \<open>rep\<close> and \<open>str(v)\<close> of a value that is not a
  string is \<open>other\<close>. A rollout is a dictionary or an object with attributes.
\<close>

section \<open>Leaves\<close>

definition LEAF_DOMAIN :: bytes where "LEAF_DOMAIN = encode ''reliquary-rollout-leaf-v2'' @ [0]"
definition NODE_DOMAIN :: bytes where "NODE_DOMAIN = encode ''reliquary-rollout-node-v2'' @ [0]"
definition SELECTION_DOMAIN :: bytes where "SELECTION_DOMAIN = encode ''reliquary-selection-stream-v1'' @ [0]"

datatype rollout_value = RDict "(string \<times> json) list" | RObject "(string \<times> json) list"

fun field :: "rollout_value \<Rightarrow> string \<Rightarrow> json res" where
  "field (RDict d) k = (case map_of d k of None \<Rightarrow> Inl KeyError | Some v \<Rightarrow> Inr v)"
| "field (RObject d) k = (case map_of d k of None \<Rightarrow> Inl AttributeError | Some v \<Rightarrow> Inr v)"

fun rollout_env_name :: "rollout_value \<Rightarrow> json" where
  "rollout_env_name (RDict d) = dget d ''env_name'' (JStr [])"
| "rollout_env_name (RObject d) = dget d ''env_name'' (JStr [])"

definition py_str :: "(json \<Rightarrow> string) \<Rightarrow> json \<Rightarrow> string" where
  "py_str other v = (case v of JStr s \<Rightarrow> s | _ \<Rightarrow> other v)"

definition canonical_json :: "(real \<Rightarrow> string) \<Rightarrow> json \<Rightarrow> bytes res" where
  "canonical_json rep v =
     (case dumps (float_text False rep) v of None \<Rightarrow> Inl ValueError | Some t \<Rightarrow> Inr (encode t))"

definition leaf_payload :: "(real \<Rightarrow> string) \<Rightarrow> (json \<Rightarrow> string) \<Rightarrow> nat \<Rightarrow> rollout_value \<Rightarrow> bytes res" where
  "leaf_payload rep other index rollout =
     rbind (field rollout ''commit'') (\<lambda>commit.
     rbind (field rollout ''reward'') (\<lambda>reward.
     rbind (field rollout ''tokens'') (\<lambda>tokens.
     canonical_json rep (JObj
       [(''commit'', commit),
        (''env_name'', JStr (py_str other (rollout_env_name rollout))),
        (''index'', JInt (int index)),
        (''reward'', reward),
        (''tokens'', tokens)]))))"

definition leaf_payloads :: "(real \<Rightarrow> string) \<Rightarrow> (json \<Rightarrow> string) \<Rightarrow> rollout_value list \<Rightarrow> bytes list res" where
  "leaf_payloads rep other rollouts = traverse (\<lambda>(i, r). leaf_payload rep other i r) (enumerate 0 rollouts)"

section \<open>The tree\<close>

fun pairs :: "'a list \<Rightarrow> ('a \<times> 'a) list" where
  "pairs (l # r # rest) = (l, r) # pairs rest"
| "pairs [l] = [(l, l)]"
| "pairs [] = []"

definition node_message :: "bytes \<times> bytes \<Rightarrow> bytes" where
  "node_message lr = NODE_DOMAIN @ fst lr @ snd lr"

definition parents :: "(bytes \<Rightarrow> bytes) \<Rightarrow> bytes list \<Rightarrow> bytes list" where
  "parents sha leaves = map (\<lambda>lr. sha (node_message lr)) (pairs leaves)"

lemma length_pairs: "length (pairs xs) = (length xs + 1) div 2"
  by (induction xs rule: pairs.induct) auto

text \<open>The loop halves the level, rounding up, until one digest is left.\<close>

function merkle_loop :: "(bytes \<Rightarrow> bytes) \<Rightarrow> bytes list \<Rightarrow> bytes list" where
  "merkle_loop sha leaves = (if 1 < length leaves then merkle_loop sha (parents sha leaves) else leaves)"
  by auto
termination by (relation "measure (\<lambda>(sha, ls). length ls)") (auto simp: parents_def length_pairs)

declare merkle_loop.simps [simp del]

definition merkle_root :: "(bytes \<Rightarrow> bytes) \<Rightarrow> bytes list \<Rightarrow> bytes res" where
  "merkle_root sha payloads =
     (let leaves = map (\<lambda>p. sha (LEAF_DOMAIN @ p)) payloads in
      if leaves = [] then Inl ValueError else Inr (hd (merkle_loop sha leaves)))"

definition compute_rollouts_merkle_root :: "(bytes \<Rightarrow> bytes) \<Rightarrow> (real \<Rightarrow> string) \<Rightarrow> (json \<Rightarrow> string)
    \<Rightarrow> rollout_value list \<Rightarrow> string res" where
  "compute_rollouts_merkle_root sha rep other rollouts =
     rbind (leaf_payloads rep other rollouts) (\<lambda>ps. rbind (merkle_root sha ps) (\<lambda>d. Inr (hex d)))"

section \<open>The selection digest and the claimed root\<close>

definition selection_stream :: "(json \<Rightarrow> string) \<Rightarrow> nat \<Rightarrow> rollout_value \<Rightarrow> json res" where
  "selection_stream other index rollout =
     rbind (field rollout ''tokens'') (\<lambda>tokens.
       Inr (JObj [(''env_name'', JStr (py_str other (rollout_env_name rollout))),
                  (''index'', JInt (int index)), (''tokens'', tokens)]))"

definition compute_rollouts_selection_digest :: "(bytes \<Rightarrow> bytes) \<Rightarrow> (real \<Rightarrow> string) \<Rightarrow> (json \<Rightarrow> string)
    \<Rightarrow> rollout_value list \<Rightarrow> bytes res" where
  "compute_rollouts_selection_digest sha rep other rollouts =
     rbind (traverse (\<lambda>(i, r). selection_stream other i r) (enumerate 0 rollouts)) (\<lambda>streams.
       if streams = [] then Inl ValueError
       else rbind (canonical_json rep (JList streams)) (\<lambda>b. Inr (sha (SELECTION_DOMAIN @ b))))"

definition submission_merkle_matches :: "(bytes \<Rightarrow> bytes) \<Rightarrow> (real \<Rightarrow> string) \<Rightarrow> (json \<Rightarrow> string)
    \<Rightarrow> rollout_value list \<Rightarrow> string \<Rightarrow> bool" where
  "submission_merkle_matches sha rep other rollouts claimed =
     (case compute_rollouts_merkle_root sha rep other rollouts of
        Inl _ \<Rightarrow> False | Inr expected \<Rightarrow> lower claimed = expected)"

section \<open>What the root binds\<close>

text \<open>Every message the computation of a root hashes.\<close>

function node_messages :: "(bytes \<Rightarrow> bytes) \<Rightarrow> bytes list \<Rightarrow> bytes list" where
  "node_messages sha leaves =
     (if 1 < length leaves then map node_message (pairs leaves) @ node_messages sha (parents sha leaves) else [])"
  by auto
termination by (relation "measure (\<lambda>(sha, ls). length ls)") (auto simp: parents_def length_pairs)

declare node_messages.simps [simp del]

definition hashed_messages :: "(bytes \<Rightarrow> bytes) \<Rightarrow> bytes list \<Rightarrow> bytes list" where
  "hashed_messages sha payloads =
     map (\<lambda>p. LEAF_DOMAIN @ p) payloads @ node_messages sha (map (\<lambda>p. sha (LEAF_DOMAIN @ p)) payloads)"

lemma map_sha_inj:
  assumes "inj_on sha (set (xs @ ys))" and "map sha xs = map sha ys"
  shows "xs = ys"
  using assms by (metis inj_on_map_eq_map set_append)

lemma pairs_inj: "length xs = length ys \<Longrightarrow> pairs xs = pairs ys \<Longrightarrow> xs = ys"
proof (induction xs arbitrary: ys rule: pairs.induct)
  case (1 l r rest)
  then obtain l' r' rest' where "ys = l' # r' # rest'" by (metis Suc_length_conv length_Cons)
  with 1 show ?case by simp
next
  case (2 l)
  then obtain l' where "ys = [l']" by (metis length_0_conv length_Suc_conv)
  with 2 show ?case by simp
qed simp

lemma pairs_member: "(a, b) \<in> set (pairs xs) \<Longrightarrow> a \<in> set xs \<and> b \<in> set xs"
  by (induction xs rule: pairs.induct) auto

lemma node_message_inj:
  "length (fst p) = length (fst q) \<Longrightarrow> node_message p = node_message q \<Longrightarrow> p = q"
  by (cases p; cases q) (auto simp: node_message_def append_eq_append_conv)

lemma map_node_message_inj:
  assumes "\<forall>p \<in> set ps \<union> set qs. length (fst p) = n" and "map node_message ps = map node_message qs"
  shows "ps = qs"
proof -
  have "inj_on node_message (set ps \<union> set qs)"
    by (rule inj_onI, rule node_message_inj) (simp_all add: assms(1))
  then show ?thesis using assms(2) by (simp add: inj_on_map_eq_map)
qed

lemma merkle_loop_inj:
  assumes "length xs = length ys" and "inj_on sha (set (node_messages sha xs) \<union> set (node_messages sha ys))"
    and "\<And>m. length (sha m) = n" and "\<forall>d \<in> set xs \<union> set ys. length d = n"
    and "merkle_loop sha xs = merkle_loop sha ys"
  shows "xs = ys"
  using assms
proof (induction sha xs arbitrary: ys rule: merkle_loop.induct)
  case (1 sha xs)
  show ?case
  proof (cases "1 < length xs")
    case False
    with 1 show ?thesis by (simp add: merkle_loop.simps)
  next
    case True
    have nm: "node_messages sha zs = map node_message (pairs zs) @ node_messages sha (parents sha zs)"
      if "length zs = length xs" for zs
      using True that by (subst node_messages.simps) simp
    have len: "length (parents sha xs) = length (parents sha ys)"
      using 1(2) by (simp add: parents_def length_pairs)
    have "parents sha xs = parents sha ys"
    proof (rule 1(1) [OF True len])
      show "inj_on sha (set (node_messages sha (parents sha xs)) \<union> set (node_messages sha (parents sha ys)))"
        using 1(3) nm [of xs] nm [of ys] 1(2) by (auto intro: inj_on_subset)
      show "\<And>m. length (sha m) = n" by (rule 1(4))
      show "\<forall>d \<in> set (parents sha xs) \<union> set (parents sha ys). length d = n" using 1(4) by (auto simp: parents_def)
      show "merkle_loop sha (parents sha xs) = merkle_loop sha (parents sha ys)"
        using 1(6) True 1(2) by (simp add: merkle_loop.simps [of sha xs] merkle_loop.simps [of sha ys])
    qed
    then have "map sha (map node_message (pairs xs)) = map sha (map node_message (pairs ys))"
      by (simp add: parents_def comp_def)
    then have "map node_message (pairs xs) = map node_message (pairs ys)"
      by (rule map_sha_inj [rotated]) (use 1(3) nm [of xs] nm [of ys] 1(2) in \<open>auto intro: inj_on_subset\<close>)
    then have "pairs xs = pairs ys"
      by (rule map_node_message_inj [rotated, where n = n]) (use 1(5) in \<open>auto dest!: pairs_member\<close>)
    then show ?thesis by (rule pairs_inj [OF 1(2)])
  qed
qed

lemma merkle_loop_single: "ls \<noteq> [] \<Longrightarrow> \<exists>d. merkle_loop sha ls = [d]"
proof (induction sha ls rule: merkle_loop.induct)
  case (1 sha ls)
  show ?case
  proof (cases "1 < length ls")
    case True
    then have "parents sha ls \<noteq> []" by (cases ls rule: pairs.cases) (auto simp: parents_def)
    with 1 True show ?thesis by (subst merkle_loop.simps) simp
  next
    case False
    then show ?thesis using 1(2) by (cases ls) (auto simp: merkle_loop.simps)
  qed
qed

text \<open>
  C37. The Merkle root of a rollout group is binding. When SHA-256 has no collision among the messages
  hashed for two groups of the same size (the schema fixes it to eight), equal roots mean equal leaf
  payloads, that is the same canonical text of commit, environment, index, reward and tokens at
  every position.
\<close>

theorem merkle_root_binds:
  assumes "leaf_payloads rep other rs = Inr ps" and "leaf_payloads rep other rs' = Inr ps'"
    and "length rs = length rs'" and "\<forall>m. length (sha m) = 32"
    and "inj_on sha (set (hashed_messages sha ps) \<union> set (hashed_messages sha ps'))"
    and "compute_rollouts_merkle_root sha rep other rs = Inr rt"
    and "compute_rollouts_merkle_root sha rep other rs' = Inr rt"
  shows "ps = ps'"
proof -
  let ?l = "map (\<lambda>p. sha (LEAF_DOMAIN @ p))"
  have len: "length ps = length ps'"
    using assms(1-3) by (auto simp: leaf_payloads_def dest!: traverse_length)
  have "hd (merkle_loop sha (?l ps)) = hd (merkle_loop sha (?l ps'))" "ps \<noteq> []" "ps' \<noteq> []"
    using assms(1,2,6,7) by (auto simp: compute_rollouts_merkle_root_def merkle_root_def Let_def hex_inj split: if_splits)
  then have "merkle_loop sha (?l ps) = merkle_loop sha (?l ps')"
    using merkle_loop_single [of "?l ps" sha] merkle_loop_single [of "?l ps'" sha] by auto
  then have "?l ps = ?l ps'"
    by (rule merkle_loop_inj [rotated -1, where n = 32])
      (use assms(4,5) len in \<open>auto simp: hashed_messages_def intro: inj_on_subset\<close>)
  then have "map sha (map (\<lambda>p. LEAF_DOMAIN @ p) ps) = map sha (map (\<lambda>p. LEAF_DOMAIN @ p) ps')"
    by (simp add: comp_def)
  then have "map (\<lambda>p. LEAF_DOMAIN @ p) ps = map (\<lambda>p. LEAF_DOMAIN @ p) ps'"
    by (rule map_sha_inj [rotated]) (use assms(5) in \<open>auto simp: hashed_messages_def intro: inj_on_subset\<close>)
  then show ?thesis by (auto simp: inj_on_def dest!: map_injective)
qed

lemma leaf_payloads_length: "leaf_payloads rep other rs = Inr ps \<Longrightarrow> length ps = length rs"
  by (auto simp: leaf_payloads_def dest!: traverse_length)

text \<open>A toy hash of 32 bytes and two groups of two rollouts that differ in one token.\<close>

definition toy_hash :: "bytes \<Rightarrow> bytes" where
  "toy_hash m = replicate 32 (word_of_nat (length m) + last m)"

definition sample_rollout :: "int \<Rightarrow> rollout_value" where
  "sample_rollout t = RDict [(''commit'', JObj []), (''reward'', JInt 1), (''tokens'', JList [JInt t])]"

lemma hashed_messages_two:
  "hashed_messages sha [a, b] =
     [LEAF_DOMAIN @ a, LEAF_DOMAIN @ b, node_message (sha (LEAF_DOMAIN @ a), sha (LEAF_DOMAIN @ b))]"
  by (simp add: hashed_messages_def node_messages.simps parents_def)

lemma inj_on_distinct_image: "distinct (map (\<lambda>m. g (f m)) xs) \<Longrightarrow> inj_on f (set xs)"
  by (auto simp: distinct_map inj_on_def)

lemma sample_leaf:
  "\<exists>a. leaf_payload (\<lambda>x. []) (\<lambda>v. []) 0 (sample_rollout 1) = Inr a \<and> length a = 61 \<and> last a = 125"
  "\<exists>a. leaf_payload (\<lambda>x. []) (\<lambda>v. []) 1 (sample_rollout 22) = Inr a \<and> length a = 62 \<and> last a = 125"
  "\<exists>a. leaf_payload (\<lambda>x. []) (\<lambda>v. []) 1 (sample_rollout 333) = Inr a \<and> length a = 63 \<and> last a = 125"
proof -
  have *: "\<exists>a. r = Inr a \<and> length a = n \<and> last a = 125"
    if "case r of Inl e \<Rightarrow> False | Inr a \<Rightarrow> length a = n \<and> last a = (125 :: byte)"
    for r :: "bytes res" and n using that by (cases r) auto
  show "\<exists>a. leaf_payload (\<lambda>x. []) (\<lambda>v. []) 0 (sample_rollout 1) = Inr a \<and> length a = 61 \<and> last a = 125"
    by (rule *) code_simp
  show "\<exists>a. leaf_payload (\<lambda>x. []) (\<lambda>v. []) 1 (sample_rollout 22) = Inr a \<and> length a = 62 \<and> last a = 125"
    by (rule *) code_simp
  show "\<exists>a. leaf_payload (\<lambda>x. []) (\<lambda>v. []) 1 (sample_rollout 333) = Inr a \<and> length a = 63 \<and> last a = 125"
    by (rule *) code_simp
qed

theorem merkle_root_binds_witness:
  "compute_rollouts_merkle_root toy_hash (\<lambda>x. []) (\<lambda>v. []) [sample_rollout 1, sample_rollout 22]
     \<noteq> compute_rollouts_merkle_root toy_hash (\<lambda>x. []) (\<lambda>v. []) [sample_rollout 1, sample_rollout 333]"
proof
  let ?r = "[sample_rollout 1, sample_rollout 22]" and ?r' = "[sample_rollout 1, sample_rollout 333]"
  assume eq: "compute_rollouts_merkle_root toy_hash (\<lambda>x. []) (\<lambda>v. []) ?r
     = compute_rollouts_merkle_root toy_hash (\<lambda>x. []) (\<lambda>v. []) ?r'"
  obtain a b c where l: "leaf_payload (\<lambda>x. []) (\<lambda>v. []) 0 (sample_rollout 1) = Inr a"
      "leaf_payload (\<lambda>x. []) (\<lambda>v. []) 1 (sample_rollout 22) = Inr b"
      "leaf_payload (\<lambda>x. []) (\<lambda>v. []) 1 (sample_rollout 333) = Inr c"
    and abc: "length a = 61" "last a = 125" "length b = 62" "last b = 125" "length c = 63" "last c = 125"
    using sample_leaf by auto
  have p: "leaf_payloads (\<lambda>x. []) (\<lambda>v. []) ?r = Inr [a, b]" "leaf_payloads (\<lambda>x. []) (\<lambda>v. []) ?r' = Inr [a, c]"
    using l by (simp_all add: leaf_payloads_def)
  obtain rt where rt: "compute_rollouts_merkle_root toy_hash (\<lambda>x. []) (\<lambda>v. []) ?r = Inr rt"
    by (simp add: compute_rollouts_merkle_root_def merkle_root_def p)
  let ?m = "\<lambda>x. LEAF_DOMAIN @ x"
  let ?ms = "[?m a, ?m b, ?m c, node_message (toy_hash (?m a), toy_hash (?m b)),
     node_message (toy_hash (?m a), toy_hash (?m c))]"
  have "length LEAF_DOMAIN = 26" "length NODE_DOMAIN = 26" by code_simp+
  moreover have "a \<noteq> []" "b \<noteq> []" "c \<noteq> []" using abc by auto
  ultimately have "distinct (map (\<lambda>m. hd (toy_hash m)) ?ms)" using abc by (simp add: toy_hash_def node_message_def)
  then have "inj_on toy_hash (set ?ms)" by (rule inj_on_distinct_image)
  then have inj: "inj_on toy_hash (set (hashed_messages toy_hash [a, b]) \<union> set (hashed_messages toy_hash [a, c]))"
    by (rule inj_on_subset) (auto simp: hashed_messages_two)
  have len: "length ?r = length ?r'" "\<forall>m. length (toy_hash m) = 32" by (simp_all add: toy_hash_def)
  have "[a, b] = [a, c]" by (rule merkle_root_binds [OF p len inj rt rt [unfolded eq]])
  then show False using abc by simp
qed

end
