(* ===== verification/GrailVerifier.thy ===== *)
theory GrailVerifier
  imports Crypto
begin

text \<open>
  \<open>reliquary/protocol/grail_verifier.py\<close>: log-magnitude buckets (scalar and vectorised), the
  sketch of a hidden state, and the check of a miner's sketch. Tensor primitives of torch
  are parameters: \<open>topk\<close> (indices of the k largest entries), its row-wise version, the
  \<open>float32\<close> matrix product and the cast of a non-finite float to \<open>int64\<close>. Integer dot
  products are \<open>int32\<close> and wrap; casts to \<open>int8\<close> wrap.
\<close>

section \<open>Buckets\<close>

definition log_magnitude_bucket :: "int \<Rightarrow> pyfloat \<Rightarrow> int" where
  "log_magnitude_bucket num_buckets v =
     (case v of
        NaN \<Rightarrow> 0
      | PInf \<Rightarrow> num_buckets - 1
      | NInf \<Rightarrow> - (num_buckets - 1)
      | Fin x \<Rightarrow>
          if \<bar>x\<bar> < 1 / 10 ^ 6 then 0
          else (let log_val = log 2 (\<bar>x\<bar> + 1);
                    scale_factor = of_int num_buckets / 10;
                    bucket = max 0 (min (num_buckets - 1) (trunc (log_val * scale_factor)))
                in if 0 \<le> x then bucket else - bucket))"

text \<open>
  The vectorised version computes every lane unconditionally and masks the special cases
  afterwards. \<open>junk\<close> is what the cast of a non-finite number to \<open>int64\<close> gives.
\<close>

definition bucket_lane :: "(pyfloat \<Rightarrow> int) \<Rightarrow> int \<Rightarrow> pyfloat \<Rightarrow> int" where
  "bucket_lane junk num_buckets v =
     (let scale_factor = of_int num_buckets / 10 :: real;
          raw = (case pf_abs v of Fin a \<Rightarrow> trunc (log 2 (a + 1) * scale_factor) | w \<Rightarrow> junk w);
          clamped = min (num_buckets - 1) (max 0 raw);
          signed_b = (if pf_le (Fin 0) v then clamped else - clamped);
          dead = (if pf_lt (pf_abs v) (Fin (1 / 10 ^ 6)) then 0 else signed_b);
          non_nan = (if v = NaN then 0 else dead)
      in if v = PInf \<or> v = NInf
         then (if v = PInf then num_buckets - 1 else - (num_buckets - 1))
         else non_nan)"

definition log_magnitude_bucket_vectorized :: "(pyfloat \<Rightarrow> int) \<Rightarrow> int \<Rightarrow> pyfloat list list \<Rightarrow> int list list" where
  "log_magnitude_bucket_vectorized junk num_buckets vals = map (map (bucket_lane junk num_buckets)) vals"

lemma bucket_lane_eq: "1 \<le> num_buckets \<Longrightarrow> bucket_lane junk num_buckets v = log_magnitude_bucket num_buckets v"
  by (cases v) (auto simp: bucket_lane_def log_magnitude_bucket_def Let_def pf_lt_def)

lemma bucket_bound: "1 \<le> num_buckets \<Longrightarrow> \<bar>log_magnitude_bucket num_buckets v\<bar> \<le> num_buckets - 1"
  by (cases v) (auto simp: log_magnitude_bucket_def Let_def)

section \<open>Tolerance\<close>

definition adaptive_sketch_tolerance :: "int \<Rightarrow> int \<Rightarrow> int res" where
  "adaptive_sketch_tolerance position sequence_length =
     (if position < 0 then Inl ValueError
      else Inr (trunc (of_int PROOF_SKETCH_TOLERANCE_BASE + PROOF_SKETCH_TOLERANCE_GROWTH * sqrt (of_int position))))"

lemma tolerance_bounds:
  assumes "adaptive_sketch_tolerance p n = Inr t" and "p \<le> 40000"
  shows "5000 \<le> t \<and> t \<le> 6000"
proof -
  have p: "0 \<le> p" and t: "t = trunc (5000 + 5 * sqrt (of_int p))"
    using assms(1) by (auto simp: adaptive_sketch_tolerance_def PROOF_SKETCH_TOLERANCE_BASE_def
        PROOF_SKETCH_TOLERANCE_GROWTH_def split: if_splits)
  have "sqrt (real_of_int p) \<le> sqrt (200 ^ 2)" using assms(2) by (intro real_sqrt_le_mono) simp
  moreover have "0 \<le> sqrt (real_of_int p)" using p by simp
  ultimately have "5000 \<le> 5000 + 5 * sqrt (real_of_int p)" "5000 + 5 * sqrt (real_of_int p) \<le> 6000" by simp_all
  then show ?thesis unfolding t trunc_def by (simp add: le_floor_iff floor_le_iff)
qed

section \<open>The verifier\<close>

record grail_verifier =
  gv_hidden_dim :: int
  gv_topk :: nat
  gv_num_buckets :: int
  gv_r_coeff_range :: int

definition GRAILVerifier :: "int \<Rightarrow> grail_verifier" where
  "GRAILVerifier hidden_dim =
     \<lparr> gv_hidden_dim = hidden_dim, gv_topk = PROOF_TOPK, gv_num_buckets = PROOF_NUM_BUCKETS,
       gv_r_coeff_range = PROOF_COEFF_RANGE \<rparr>"

text \<open>Big-endian 16-bit lanes; numpy's \<open>abs\<close> of an \<open>int16\<close> wraps at the smallest value.\<close>

fun words16 :: "bytes \<Rightarrow> 16 word list" where
  "words16 (a # b # r) = word_of_int (from_bytes_be [a, b]) # words16 r"
| "words16 _ = []"

definition abs16 :: "16 word \<Rightarrow> 16 word" where
  "abs16 w = (if sint w < 0 then - w else w)"

definition int8 :: "int \<Rightarrow> int" where
  "int8 i = sint (word_of_int i :: 8 word)"

definition int32 :: "int \<Rightarrow> int" where
  "int32 i = sint (word_of_int i :: 32 word)"

definition r_coeff :: "int \<Rightarrow> 16 word \<Rightarrow> int" where
  "r_coeff R w = int8 (sint (abs16 w) mod (2 * R + 1) - R)"

definition generate_r_vec :: "(bytes \<Rightarrow> nat \<Rightarrow> bytes) \<Rightarrow> grail_verifier \<Rightarrow> string \<Rightarrow> int list res" where
  "generate_r_vec shake gv randomness_hex =
     rbind (fromhex (pad_even (strip_0x randomness_hex))) (\<lambda>rb.
     rbind (prf_shake shake RNG_LABEL_sketch [rb] (2 * int (gv_topk gv))) (\<lambda>raw.
     Inr (map (r_coeff (gv_r_coeff_range gv)) (take (gv_topk gv) (words16 raw)))))"

text \<open>The torch operations.\<close>

record torch_ops =
  t_topk :: "nat \<Rightarrow> pyfloat list \<Rightarrow> nat list res"
  t_topk_rows :: "nat \<Rightarrow> pyfloat list list \<Rightarrow> nat list list res"
  t_f32_dot :: "int list \<Rightarrow> int list \<Rightarrow> int"
  t_cast_special :: "pyfloat \<Rightarrow> int"

definition int_dot :: "int list \<Rightarrow> int list \<Rightarrow> int" where
  "int_dot xs ys = sum_list (map2 (*) xs ys)"

definition torch_dot :: "int list \<Rightarrow> int list \<Rightarrow> int res" where
  "torch_dot xs ys = (if length xs \<noteq> length ys then Inl RuntimeError else Inr (int32 (int_dot xs ys)))"

definition gather :: "pyfloat list \<Rightarrow> nat list \<Rightarrow> pyfloat list res" where
  "gather h idx = traverse (\<lambda>i. if i < length h then Inr (h ! i) else Inl IndexError) idx"

definition state_sketch :: "torch_ops \<Rightarrow> grail_verifier \<Rightarrow> pyfloat list \<Rightarrow> int list \<Rightarrow> int res" where
  "state_sketch tc gv hidden r_vec =
     rbind (t_topk tc (gv_topk gv) (map pf_abs hidden)) (\<lambda>idx.
     rbind (gather hidden (sort idx)) (\<lambda>vals.
     rbind (torch_dot (map (\<lambda>v. int8 (log_magnitude_bucket (gv_num_buckets gv) v)) vals) r_vec) (\<lambda>s.
     Inr (s mod PRIME_Q))))"

definition create_commitment :: "torch_ops \<Rightarrow> grail_verifier \<Rightarrow> pyfloat list \<Rightarrow> int list \<Rightarrow> json res" where
  "create_commitment tc gv hidden r_vec =
     rbind (state_sketch tc gv hidden r_vec) (\<lambda>s. Inr (JObj [(''sketch'', JInt s)]))"

definition create_commitments_batch :: "torch_ops \<Rightarrow> grail_verifier \<Rightarrow> pyfloat list list \<Rightarrow> int list \<Rightarrow> json list res" where
  "create_commitments_batch tc gv h_layer r_vec =
     rbind (t_topk_rows tc (gv_topk gv) (map (map pf_abs) h_layer)) (\<lambda>idx_rows.
     rbind (traverse (\<lambda>(h, idx). gather h (sort idx)) (zip h_layer idx_rows)) (\<lambda>rows.
     rbind (traverse (\<lambda>bs. if length bs \<noteq> length r_vec then Inl RuntimeError else Inr (t_f32_dot tc bs r_vec))
              (log_magnitude_bucket_vectorized (t_cast_special tc) (gv_num_buckets gv) rows)) (\<lambda>sketches.
     Inr (map (\<lambda>s. JObj [(''sketch'', JInt (s mod PRIME_Q))]) sketches))))"

section \<open>Verification\<close>

text \<open>
  A miner's sketch is any JSON value; it takes part in the arithmetic when it is a number.
  The diagnostics keep what callers read.
\<close>

definition as_number :: "json \<Rightarrow> pyfloat res" where
  "as_number v = (case as_int v of Some i \<Rightarrow> Inr (Fin (of_int i))
     | None \<Rightarrow> (case v of JFloat f \<Rightarrow> Inr f | _ \<Rightarrow> Inl TypeError))"

record sketch_diag =
  sd_diff :: pyfloat
  sd_valid :: bool
  sd_tolerance :: int
  sd_validator_sketch :: int
  sd_position :: int

definition mod_diff :: "int \<Rightarrow> pyfloat \<Rightarrow> pyfloat" where
  "mod_diff validator_sketch miner_sketch =
     (let sketch_diff = pf_abs (pf_sub (Fin (of_int validator_sketch)) miner_sketch) in
      pf_min sketch_diff (pf_sub (Fin (of_int PRIME_Q)) sketch_diff))"

definition verify_commitment :: "torch_ops \<Rightarrow> grail_verifier \<Rightarrow> pyfloat list \<Rightarrow> json \<Rightarrow> int list \<Rightarrow> int \<Rightarrow> int
    \<Rightarrow> (bool \<times> sketch_diag) res" where
  "verify_commitment tc gv validator_hidden miner_commitment r_vec sequence_length position =
     rbind (adaptive_sketch_tolerance position sequence_length) (\<lambda>tolerance.
     rbind (state_sketch tc gv validator_hidden r_vec) (\<lambda>validator_sketch.
     rbind (jindex miner_commitment ''sketch'') (\<lambda>m.
     rbind (as_number m) (\<lambda>miner_sketch.
     (let d = mod_diff validator_sketch miner_sketch;
          is_valid = pf_le d (Fin (of_int tolerance)) in
      Inr (is_valid, \<lparr> sd_diff = d, sd_valid = is_valid, sd_tolerance = tolerance,
                        sd_validator_sketch = validator_sketch, sd_position = position \<rparr>))))))"

section \<open>Bounds of the coefficients and of the dot product\<close>

lemma int8_id: "- 128 \<le> i \<Longrightarrow> i < 128 \<Longrightarrow> int8 i = i"
  by (simp add: int8_def sint_sbintrunc' signed_take_bit_int_eq_self)

lemma int32_id: "- (2 ^ 31) \<le> i \<Longrightarrow> i < 2 ^ 31 \<Longrightarrow> int32 i = i"
  by (simp add: int32_def sint_sbintrunc' signed_take_bit_int_eq_self)

lemma r_coeff_range:
  assumes "0 \<le> R" and "R \<le> 127"
  shows "\<bar>r_coeff R w\<bar> \<le> R"
proof -
  have "0 < 2 * R + 1" using assms by simp
  from pos_mod_bound [OF this, of "sint (abs16 w)"] pos_mod_sign [OF this, of "sint (abs16 w)"]
  have *: "\<bar>sint (abs16 w) mod (2 * R + 1) - R\<bar> \<le> R" by linarith
  then have "int8 (sint (abs16 w) mod (2 * R + 1) - R) = sint (abs16 w) mod (2 * R + 1) - R"
    using assms by (intro int8_id) linarith+
  with * show ?thesis by (simp add: r_coeff_def)
qed

lemma int_dot_bound:
  assumes "\<forall>x \<in> set xs. \<bar>x\<bar> \<le> a" and "\<forall>y \<in> set ys. \<bar>y\<bar> \<le> b" and "0 \<le> a" and "0 \<le> b"
  shows "sum_list (map2 (\<lambda>x y. \<bar>x * y\<bar>) xs ys) \<le> int (length xs) * (a * b)"
  using assms(1,2)
proof (induction xs ys rule: list_induct2')
  case (4 x xs y ys)
  have "\<bar>x * y\<bar> \<le> a * b" using 4(2,3) assms(3) by (auto simp: abs_mult intro!: mult_mono)
  with 4 show ?case by (simp add: distrib_right)
qed (use assms in auto)

lemma int_dot_abs: "\<bar>int_dot xs ys\<bar> \<le> sum_list (map2 (\<lambda>x y. \<bar>x * y\<bar>) xs ys)"
  unfolding int_dot_def by (induction xs ys rule: list_induct2') auto

section \<open>The batch and the loop\<close>

text \<open>
  What the tensor library documents: \<open>topk\<close> returns \<open>k\<close> indices of its argument, along a
  dimension it works row by row, and a \<open>float32\<close> product of small integers is exact.
\<close>

definition torch_lawful :: "torch_ops \<Rightarrow> bool" where
  "torch_lawful tc =
     ((\<forall>k v idx. t_topk tc k v = Inr idx \<longrightarrow> length idx = k \<and> (\<forall>i\<in>set idx. i < length v))
      \<and> (\<forall>k rows. t_topk_rows tc k rows = traverse (t_topk tc k) rows)
      \<and> (\<forall>xs ys. sum_list (map2 (\<lambda>x y. \<bar>x * y\<bar>) xs ys) \<le> 2 ^ 24 \<longrightarrow> t_f32_dot tc xs ys = int_dot xs ys))"

definition row_buckets :: "pyfloat list \<Rightarrow> nat list \<Rightarrow> int list" where
  "row_buckets h idx = map (\<lambda>i. log_magnitude_bucket 8 (h ! i)) (sort idx)"

lemma traverse_stage:
  "traverse (\<lambda>x. rbind (f x) (\<lambda>y. Inr (g x y))) xs = rbind (traverse f xs) (\<lambda>ys. Inr (map2 g xs ys))"
proof (induction xs)
  case (Cons x xs)
  then show ?case by (cases "f x"; cases "traverse f xs") auto
qed simp

lemma length_row_buckets [simp]: "length (row_buckets h idx) = length idx"
  by (simp add: row_buckets_def)

lemma row_buckets_bound: "\<forall>b \<in> set (row_buckets h idx). \<bar>b\<bar> \<le> 7"
  using bucket_bound [of 8] by (auto simp: row_buckets_def)

lemma row_buckets_dot:
  assumes "length idx = 16" and "\<forall>r \<in> set r_vec. \<bar>r\<bar> \<le> 127"
  shows "sum_list (map2 (\<lambda>x y. \<bar>x * y\<bar>) (row_buckets h idx) r_vec) \<le> 14224"
  using int_dot_bound [OF row_buckets_bound assms(2), of h idx] assms(1) by (simp add: row_buckets_def)

lemma gather_lawful: "\<forall>i \<in> set idx. i < length h \<Longrightarrow> gather h (sort idx) = Inr (map ((!) h) (sort idx))"
  unfolding gather_def by (rule traverse_total) simp

lemma gv_fields [simp]:
  "gv_topk (GRAILVerifier d) = 16" "gv_num_buckets (GRAILVerifier d) = 8" "gv_r_coeff_range (GRAILVerifier d) = 127"
  by (simp_all add: GRAILVerifier_def PROOF_TOPK_def PROOF_NUM_BUCKETS_def PROOF_COEFF_RANGE_def)

lemma state_sketch_eq:
  assumes "torch_lawful tc" and "length r_vec = 16" and "\<forall>r \<in> set r_vec. \<bar>r\<bar> \<le> 127"
  shows "state_sketch tc (GRAILVerifier d) h r_vec =
     rbind (t_topk tc 16 (map pf_abs h)) (\<lambda>idx. Inr (int_dot (row_buckets h idx) r_vec mod PRIME_Q))"
proof (cases "t_topk tc 16 (map pf_abs h)")
  case (Inl e)
  then show ?thesis by (simp add: state_sketch_def)
next
  case (Inr idx)
  then have idx: "length idx = 16" "\<forall>i \<in> set idx. i < length h"
    using assms(1) unfolding torch_lawful_def by fastforce+
  have "int8 (log_magnitude_bucket 8 v) = log_magnitude_bucket 8 v" for v
    using bucket_bound [of 8 v] by (intro int8_id) auto
  then have "map (\<lambda>v. int8 (log_magnitude_bucket 8 v)) (map ((!) h) (sort idx)) = row_buckets h idx"
    by (simp add: row_buckets_def)
  moreover have "\<bar>int_dot (row_buckets h idx) r_vec\<bar> \<le> 14224"
    using int_dot_abs row_buckets_dot [OF idx(1) assms(3)] by (rule order_trans)
  then have "int32 (int_dot (row_buckets h idx) r_vec) = int_dot (row_buckets h idx) r_vec"
    by (intro int32_id) auto
  ultimately show ?thesis
    using Inr idx assms(2) by (simp add: state_sketch_def gather_lawful torch_dot_def del: map_map)
qed

text \<open>
  The vectorised commitments are the ones of the scalar loop. For the deployed verifier (16
  entries, 8 buckets) and a projection vector of 16 coefficients in [-127, 127], computing all positions at
  once gives, position by position, what \<open>create_commitment\<close> gives, errors included: the \<open>float32\<close>
  product stays exact and no \<open>int8\<close> or \<open>int32\<close> overflow occurs.
\<close>

theorem batch_commitments_equal_loop:
  assumes "torch_lawful tc" and "length r_vec = 16" and "\<forall>r \<in> set r_vec. \<bar>r\<bar> \<le> 127"
  shows "create_commitments_batch tc (GRAILVerifier d) hs r_vec =
     traverse (\<lambda>h. create_commitment tc (GRAILVerifier d) h r_vec) hs"
proof -
  let ?g = "\<lambda>h idx. JObj [(''sketch'', JInt (int_dot (row_buckets h idx) r_vec mod PRIME_Q))]"
  have "create_commitment tc (GRAILVerifier d) h r_vec = rbind (t_topk tc 16 (map pf_abs h)) (\<lambda>idx. Inr (?g h idx))" for h
    by (simp add: create_commitment_def state_sketch_eq [OF assms] rbind_assoc)
  then have loop: "traverse (\<lambda>h. create_commitment tc (GRAILVerifier d) h r_vec) hs =
      rbind (traverse (\<lambda>h. t_topk tc 16 (map pf_abs h)) hs) (\<lambda>idxs. Inr (map2 ?g hs idxs))"
    by (simp add: traverse_stage)
  have rows: "t_topk_rows tc 16 (map (map pf_abs) hs) = traverse (\<lambda>h. t_topk tc 16 (map pf_abs h)) hs"
    using assms(1) by (simp add: torch_lawful_def) (induction hs; simp)
  show ?thesis
  proof (cases "traverse (\<lambda>h. t_topk tc 16 (map pf_abs h)) hs")
    case (Inl e)
    then show ?thesis by (simp add: loop create_commitments_batch_def rows)
  next
    case (Inr idxs)
    then have all: "list_all2 (\<lambda>h idx. t_topk tc 16 (map pf_abs h) = Inr idx) hs idxs" by (simp add: traverse_Inr_iff)
    then have ok: "length idx = 16 \<and> (\<forall>i \<in> set idx. i < length h)" if "(h, idx) \<in> set (zip hs idxs)" for h idx
      using that assms(1) unfolding torch_lawful_def by (fastforce simp: list_all2_iff)
    have "traverse (\<lambda>(h, idx). gather h (sort idx)) (zip hs idxs) = Inr (map (\<lambda>(h, idx). map ((!) h) (sort idx)) (zip hs idxs))"
      by (rule traverse_total) (auto simp: gather_lawful dest: ok)
    moreover have "log_magnitude_bucket_vectorized (t_cast_special tc) 8 (map (\<lambda>(h, idx). map ((!) h) (sort idx)) (zip hs idxs))
        = map (\<lambda>(h, idx). row_buckets h idx) (zip hs idxs)"
      by (auto simp: log_magnitude_bucket_vectorized_def row_buckets_def bucket_lane_eq)
    moreover have "traverse (\<lambda>bs. if length bs \<noteq> length r_vec then Inl RuntimeError else Inr (t_f32_dot tc bs r_vec))
          (map (\<lambda>(h, idx). row_buckets h idx) (zip hs idxs))
        = Inr (map (\<lambda>bs. int_dot bs r_vec) (map (\<lambda>(h, idx). row_buckets h idx) (zip hs idxs)))"
    proof (rule traverse_total)
      fix bs assume "bs \<in> set (map (\<lambda>(h, idx). row_buckets h idx) (zip hs idxs))"
      then obtain h idx where b: "bs = row_buckets h idx" "length idx = 16" using ok by auto
      have "sum_list (map2 (\<lambda>x y. \<bar>x * y\<bar>) bs r_vec) \<le> 2 ^ 24"
        using row_buckets_dot [OF b(2) assms(3), of h] by (simp add: b(1))
      then have "t_f32_dot tc bs r_vec = int_dot bs r_vec" using assms(1) by (auto simp: torch_lawful_def)
      then show "(if length bs \<noteq> length r_vec then Inl RuntimeError else Inr (t_f32_dot tc bs r_vec)) = Inr (int_dot bs r_vec)"
        using b assms(2) by (simp add: row_buckets_def)
    qed
    ultimately show ?thesis
      by (simp add: loop create_commitments_batch_def rows Inr comp_def split_def)
  qed
qed

definition plain_torch :: torch_ops where
  "plain_torch = \<lparr> t_topk = (\<lambda>k v. if length v < k then Inl RuntimeError else Inr [0..<k]),
     t_topk_rows = (\<lambda>k rows. traverse (\<lambda>v. if length v < k then Inl RuntimeError else Inr [0..<k]) rows),
     t_f32_dot = int_dot, t_cast_special = (\<lambda>v. 0) \<rparr>"

lemma plain_torch_lawful: "torch_lawful plain_torch"
  by (auto simp: torch_lawful_def plain_torch_def split: if_splits)

theorem batch_commitments_equal_loop_witness:
  "create_commitments_batch plain_torch (GRAILVerifier 16) [replicate 16 PInf, [Fin 0]] (replicate 16 127)
     = traverse (\<lambda>h. create_commitment plain_torch (GRAILVerifier 16) h (replicate 16 127)) [replicate 16 PInf, [Fin 0]]"
  by (rule batch_commitments_equal_loop [OF plain_torch_lawful]) auto

section \<open>What verification accepts\<close>

text \<open>
  C35. An honest miner passes. The commitment of a hidden state verifies against the same
  hidden state and projection vector at every position, with difference 0.
\<close>

theorem honest_commitment_verifies:
  assumes "create_commitment tc gv h r_vec = Inr c" and "0 \<le> position"
  shows "\<exists>d. verify_commitment tc gv h c r_vec n position = Inr (True, d) \<and> sd_diff d = Fin 0 \<and> 5000 \<le> sd_tolerance d"
proof -
  obtain t where t: "adaptive_sketch_tolerance position n = Inr t" "5000 \<le> t"
    using assms(2) by (auto simp: adaptive_sketch_tolerance_def PROOF_SKETCH_TOLERANCE_BASE_def
        PROOF_SKETCH_TOLERANCE_GROWTH_def trunc_def le_floor_iff)
  obtain s where s: "state_sketch tc gv h r_vec = Inr s" "c = JObj [(''sketch'', JInt s)]"
    using assms(1) by (auto simp: create_commitment_def rbind_eq_Inr)
  have "mod_diff s (Fin (of_int s)) = Fin 0"
    by (simp add: mod_diff_def PRIME_Q_def Let_def)
  with s t show ?thesis by (simp add: verify_commitment_def jindex_def as_number_def Let_def)
qed

theorem honest_commitment_verifies_witness:
  "\<exists>c d. create_commitment plain_torch (GRAILVerifier 16) (replicate 16 PInf) (replicate 16 127) = Inr c
     \<and> verify_commitment plain_torch (GRAILVerifier 16) (replicate 16 PInf) c (replicate 16 127) 40 33 = Inr (True, d)"
proof -
  have "\<exists>c. create_commitment plain_torch (GRAILVerifier 16) (replicate 16 PInf) (replicate 16 127) = Inr c"
    using state_sketch_eq [OF plain_torch_lawful, of "replicate 16 127" 16 "replicate 16 PInf"]
    by (simp add: create_commitment_def plain_torch_def)
  then show ?thesis using honest_commitment_verifies by (metis zero_le_numeral)
qed

lemma state_sketch_range: "state_sketch tc gv h r = Inr v \<Longrightarrow> 0 \<le> v \<and> v < PRIME_Q"
  by (auto simp: state_sketch_def rbind_eq_Inr PRIME_Q_def)

lemma verify_commitment_int:
  assumes "verify_commitment tc gv h (JObj [(''sketch'', JInt s)]) r_vec n position = Inr (ok, d)"
  shows "\<exists>v. state_sketch tc gv h r_vec = Inr v \<and> sd_validator_sketch d = v \<and>
     ok = (min \<bar>v - s\<bar> (PRIME_Q - \<bar>v - s\<bar>) \<le> sd_tolerance d)"
proof -
  have *: "mod_diff v (Fin (of_int s)) = Fin (of_int (min \<bar>v - s\<bar> (PRIME_Q - \<bar>v - s\<bar>)))" for v
    by (simp add: mod_diff_def Let_def of_int_min)
  show ?thesis using assms
    by (auto simp: verify_commitment_def rbind_eq_Inr jindex_def as_number_def Let_def * simp del: of_int_min)
qed

text \<open>
  Verification of a sketch inside the field. When the miner's sketch is an integer in [0, q),
  the check accepts exactly the sketches within the tolerance of the validator's sketch modulo q.
\<close>

theorem in_field_sketch_checked:
  assumes "verify_commitment tc gv h (JObj [(''sketch'', JInt s)]) r_vec n position = Inr (ok, d)"
    and "0 \<le> s" and "s < PRIME_Q"
  shows "ok = (\<exists>k. \<bar>sd_validator_sketch d - s + k * PRIME_Q\<bar> \<le> sd_tolerance d)"
proof -
  obtain v where v: "state_sketch tc gv h r_vec = Inr v" "sd_validator_sketch d = v"
    and ok: "ok = (min \<bar>v - s\<bar> (PRIME_Q - \<bar>v - s\<bar>) \<le> sd_tolerance d)"
    using verify_commitment_int [OF assms(1)] by blast
  have r: "0 \<le> v" "v < PRIME_Q" using state_sketch_range [OF v(1)] by auto
  have "ok \<longleftrightarrow> (\<exists>k \<in> {-1, 0, 1}. \<bar>v - s + k * PRIME_Q\<bar> \<le> sd_tolerance d)"
    using r assms(2,3) unfolding ok by (auto simp: min_def abs_if)
  moreover have "k \<in> {-1, 0, 1} \<or> min \<bar>v - s\<bar> (PRIME_Q - \<bar>v - s\<bar>) \<le> \<bar>v - s + k * PRIME_Q\<bar>" for k
  proof (cases "k \<in> {-1, 0, 1}")
    case False
    then have "2 \<le> k \<or> k \<le> - 2" by auto
    define x where "x = k * PRIME_Q"
    have "0 \<le> PRIME_Q" by (simp add: PRIME_Q_def)
    with \<open>2 \<le> k \<or> k \<le> - 2\<close> have "2 * PRIME_Q \<le> x \<or> x \<le> - 2 * PRIME_Q"
      unfolding x_def by (metis mult_right_mono)
    then have "min \<bar>v - s\<bar> (PRIME_Q - \<bar>v - s\<bar>) \<le> \<bar>v - s + x\<bar>" using r assms(2,3) by linarith
    then show ?thesis by (simp add: x_def)
  qed simp
  ultimately show ?thesis unfolding v(2) using ok by (meson order_trans)
qed

theorem in_field_sketch_checked_witness:
  "\<exists>d. verify_commitment plain_torch (GRAILVerifier 16) (replicate 16 PInf) (JObj [(''sketch'', JInt 30000)])
     (replicate 16 127) 40 33 = Inr (False, d)"
proof -
  let ?v = "verify_commitment plain_torch (GRAILVerifier 16) (replicate 16 PInf) (JObj [(''sketch'', JInt 30000)]) (replicate 16 127) 40 33"
  have sk: "state_sketch plain_torch (GRAILVerifier 16) (replicate 16 PInf) (replicate 16 127) = Inr 14224"
    using state_sketch_eq [OF plain_torch_lawful, of "replicate 16 127" 16 "replicate 16 PInf"]
    by (simp add: plain_torch_def row_buckets_def log_magnitude_bucket_def int_dot_def PRIME_Q_def numeral_eq_Suc map_replicate_const)
  obtain ok d where v: "?v = Inr (ok, d)"
    by (auto simp: verify_commitment_def sk adaptive_sketch_tolerance_def jindex_def as_number_def Let_def)
  have d: "sd_validator_sketch d = 14224" "adaptive_sketch_tolerance 33 40 = Inr (sd_tolerance d)"
    using v by (auto simp: verify_commitment_def sk rbind_eq_Inr Let_def)
  have "sd_tolerance d \<le> 6000" using tolerance_bounds [OF d(2)] by simp
  moreover have "6000 < \<bar>14224 - 30000 + k * PRIME_Q\<bar>" for k
    by (cases "k = 0"; cases "0 < k") (auto simp: PRIME_Q_def)
  ultimately have "\<not> (\<exists>k. \<bar>sd_validator_sketch d - 30000 + k * PRIME_Q\<bar> \<le> sd_tolerance d)"
    unfolding d(1) by (meson not_le order_trans)
  with in_field_sketch_checked [OF v] have "\<not> ok" by (simp add: PRIME_Q_def)
  with v show ?thesis by auto
qed

lemma verify_commitment_diff_int:
  "verify_commitment tc gv h (JObj [(''sketch'', JInt s)]) r_vec n position = Inr (ok, d) \<Longrightarrow> \<exists>k. sd_diff d = Fin (of_int k)"
  by (auto simp: verify_commitment_def rbind_eq_Inr jindex_def as_number_def Let_def mod_diff_def simp flip: of_int_diff of_int_abs of_int_min)

lemma out_of_field_sketch_finite:
  assumes "state_sketch tc gv h r_vec = Inr v" and "0 \<le> position" and "2 * PRIME_Q \<le> s"
  shows "\<exists>d k. verify_commitment tc gv h (JObj [(''sketch'', JInt s)]) r_vec n position = Inr (True, d)
      \<and> jint (JFloat (sd_diff d)) = Inr k"
proof -
  obtain t where t: "adaptive_sketch_tolerance position n = Inr t" "0 \<le> t"
    using assms(2) by (auto simp: adaptive_sketch_tolerance_def PROOF_SKETCH_TOLERANCE_BASE_def
        PROOF_SKETCH_TOLERANCE_GROWTH_def trunc_def le_floor_iff)
  then obtain ok d where v: "verify_commitment tc gv h (JObj [(''sketch'', JInt s)]) r_vec n position = Inr (ok, d)"
    by (auto simp: verify_commitment_def assms(1) jindex_def as_number_def Let_def)
  then have "sd_tolerance d = t" by (auto simp: verify_commitment_def t assms(1) rbind_eq_Inr Let_def)
  moreover have "v < PRIME_Q" "0 \<le> v" using state_sketch_range [OF assms(1)] by auto
  ultimately have "ok" using verify_commitment_int [OF v] assms(1,3) t(2) by (auto simp: min_def)
  moreover obtain k where "sd_diff d = Fin (of_int k)" using verify_commitment_diff_int [OF v] by blast
  ultimately show ?thesis using v by auto
qed

text \<open>
  The range of the sketch is not checked: any integer sketch of at least 2q is accepted at every
  position, whatever the hidden state, because the modular difference becomes negative.
\<close>

theorem out_of_field_sketch_accepted:
  assumes "state_sketch tc gv h r_vec = Inr v" and "0 \<le> position" and "2 * PRIME_Q \<le> s"
  shows "\<exists>d. verify_commitment tc gv h (JObj [(''sketch'', JInt s)]) r_vec n position = Inr (True, d)"
  using out_of_field_sketch_finite [OF assms] by blast

theorem out_of_field_sketch_accepted_witness:
  "\<exists>v d. state_sketch plain_torch (GRAILVerifier 16) (replicate 16 (Fin 0)) (replicate 16 127) = Inr v \<and>
     verify_commitment plain_torch (GRAILVerifier 16) (replicate 16 (Fin 0)) (JObj [(''sketch'', JInt 5000000000)])
       (replicate 16 127) 40 33 = Inr (True, d)"
proof -
  obtain v where "state_sketch plain_torch (GRAILVerifier 16) (replicate 16 (Fin 0)) (replicate 16 127) = Inr v"
    using state_sketch_eq [OF plain_torch_lawful, of "replicate 16 127" 16 "replicate 16 (Fin 0)"]
    by (simp add: plain_torch_def)
  with out_of_field_sketch_accepted [OF this, of 33 5000000000 40] show ?thesis by (auto simp: PRIME_Q_def)
qed

end
