(* ===== verification/Submission.thy ===== *)
theory Submission
  imports Json Constants
begin

text \<open>
  \<open>reliquary/protocol/submission.py\<close>: the wire schema of the protocol. A model class is a record
  and its validation a function from the JSON value to an option, where \<open>None\<close> is a
  \<open>ValidationError\<close>. The coercions of the validation library (what it takes as an integer, a float or a boolean)
  are the parameter \<open>pydantic\<close>; strings are taken as they are. A forbidden extra field, a missing required field,
  a bound, a pattern and every custom validator of the source is a branch of the model.
\<close>

section \<open>Reject reasons and window states\<close>

datatype reject_reason =
    ACCEPTED
  | SUBMITTED
  | BAD_SIGNATURE
  | BAD_ENVELOPE_SIGNATURE
  | BAD_PROMPT_IDX
  | PROMPT_MISMATCH
  | DISTRIBUTION_SUSPICIOUS
  | PROMPT_IN_COOLDOWN
  | SUPERSEDED
  | PROMPT_FULL
  | PROMPT_OUT_OF_RANGE
  | GRAIL_FAIL
  | HASH_DUPLICATE
  | LOGPROB_MISMATCH
  | REWARD_MISMATCH
  | OUT_OF_ZONE
  | RATE_LIMITED
  | BATCH_FILLED
  | WRONG_ROLLOUT_COUNT
  | PROTOCOL_VERSION_MISMATCH
  | WINDOW_MISMATCH
  | WINDOW_NOT_ACTIVE
  | BAD_SCHEMA
  | BAD_TOKENS
  | TOKENS_MISMATCH
  | BAD_TERMINATION
  | BOXED_ANSWER_TAMPERED
  | TOKEN_TAMPERED
  | MALFORMED_FINAL_ANSWER
  | REWARD_SHAPE_SUSPICIOUS
  | REWARD_DISTRIBUTION
  | WRONG_CHECKPOINT
  | MERKLE_ROOT_MISMATCH
  | WRONG_RANDOMNESS
  | HOTKEY_NOT_REGISTERED
  | REGISTRATION_UNAVAILABLE
  | PROTOCOL_MISMATCH
  | GENERATION_CONTRACT_MISMATCH
  | PROOF_CAPACITY_ABORT
  | WORKER_DROPPED
  | STALE_ROUND
  | FUTURE_ROUND
  | SEED_MISMATCH
  | PRECOMMIT_REQUIRED
  | PRECOMMIT_INVALID
  | PRECOMMIT_EXPIRED

fun reason_value :: "reject_reason \<Rightarrow> string" where
  "reason_value ACCEPTED = ''accepted''"
| "reason_value SUBMITTED = ''submitted''"
| "reason_value BAD_SIGNATURE = ''bad_signature''"
| "reason_value BAD_ENVELOPE_SIGNATURE = ''bad_envelope_signature''"
| "reason_value BAD_PROMPT_IDX = ''bad_prompt_idx''"
| "reason_value PROMPT_MISMATCH = ''prompt_mismatch''"
| "reason_value DISTRIBUTION_SUSPICIOUS = ''distribution_suspicious''"
| "reason_value PROMPT_IN_COOLDOWN = ''prompt_in_cooldown''"
| "reason_value SUPERSEDED = ''superseded''"
| "reason_value PROMPT_FULL = ''prompt_full''"
| "reason_value PROMPT_OUT_OF_RANGE = ''prompt_out_of_range''"
| "reason_value GRAIL_FAIL = ''grail_fail''"
| "reason_value HASH_DUPLICATE = ''hash_duplicate''"
| "reason_value LOGPROB_MISMATCH = ''logprob_mismatch''"
| "reason_value REWARD_MISMATCH = ''reward_mismatch''"
| "reason_value OUT_OF_ZONE = ''out_of_zone''"
| "reason_value RATE_LIMITED = ''rate_limited''"
| "reason_value BATCH_FILLED = ''batch_filled''"
| "reason_value WRONG_ROLLOUT_COUNT = ''wrong_rollout_count''"
| "reason_value PROTOCOL_VERSION_MISMATCH = ''protocol_version_mismatch''"
| "reason_value WINDOW_MISMATCH = ''window_mismatch''"
| "reason_value WINDOW_NOT_ACTIVE = ''window_not_active''"
| "reason_value BAD_SCHEMA = ''bad_schema''"
| "reason_value BAD_TOKENS = ''bad_tokens''"
| "reason_value TOKENS_MISMATCH = ''tokens_mismatch''"
| "reason_value BAD_TERMINATION = ''bad_termination''"
| "reason_value BOXED_ANSWER_TAMPERED = ''boxed_answer_tampered''"
| "reason_value TOKEN_TAMPERED = ''token_tampered''"
| "reason_value MALFORMED_FINAL_ANSWER = ''malformed_final_answer''"
| "reason_value REWARD_SHAPE_SUSPICIOUS = ''reward_shape_suspicious''"
| "reason_value REWARD_DISTRIBUTION = ''reward_distribution''"
| "reason_value WRONG_CHECKPOINT = ''wrong_checkpoint''"
| "reason_value MERKLE_ROOT_MISMATCH = ''merkle_root_mismatch''"
| "reason_value WRONG_RANDOMNESS = ''wrong_randomness''"
| "reason_value HOTKEY_NOT_REGISTERED = ''hotkey_not_registered''"
| "reason_value REGISTRATION_UNAVAILABLE = ''registration_unavailable''"
| "reason_value PROTOCOL_MISMATCH = ''protocol_mismatch''"
| "reason_value GENERATION_CONTRACT_MISMATCH = ''generation_contract_mismatch''"
| "reason_value PROOF_CAPACITY_ABORT = ''proof_capacity_abort''"
| "reason_value WORKER_DROPPED = ''worker_dropped''"
| "reason_value STALE_ROUND = ''stale_round''"
| "reason_value FUTURE_ROUND = ''future_round''"
| "reason_value SEED_MISMATCH = ''seed_mismatch''"
| "reason_value PRECOMMIT_REQUIRED = ''precommit_required''"
| "reason_value PRECOMMIT_INVALID = ''precommit_invalid''"
| "reason_value PRECOMMIT_EXPIRED = ''precommit_expired''"

definition all_reasons :: "reject_reason list" where
  "all_reasons =
     [ACCEPTED, SUBMITTED, BAD_SIGNATURE, BAD_ENVELOPE_SIGNATURE, BAD_PROMPT_IDX, PROMPT_MISMATCH, 
      DISTRIBUTION_SUSPICIOUS, PROMPT_IN_COOLDOWN, SUPERSEDED, PROMPT_FULL, PROMPT_OUT_OF_RANGE, GRAIL_FAIL, 
      HASH_DUPLICATE, LOGPROB_MISMATCH, REWARD_MISMATCH, OUT_OF_ZONE, RATE_LIMITED, BATCH_FILLED, 
      WRONG_ROLLOUT_COUNT, PROTOCOL_VERSION_MISMATCH, WINDOW_MISMATCH, WINDOW_NOT_ACTIVE, BAD_SCHEMA, BAD_TOKENS, 
      TOKENS_MISMATCH, BAD_TERMINATION, BOXED_ANSWER_TAMPERED, TOKEN_TAMPERED, MALFORMED_FINAL_ANSWER, REWARD_SHAPE_SUSPICIOUS, 
      REWARD_DISTRIBUTION, WRONG_CHECKPOINT, MERKLE_ROOT_MISMATCH, WRONG_RANDOMNESS, HOTKEY_NOT_REGISTERED, REGISTRATION_UNAVAILABLE, 
      PROTOCOL_MISMATCH, GENERATION_CONTRACT_MISMATCH, PROOF_CAPACITY_ABORT, WORKER_DROPPED, STALE_ROUND, FUTURE_ROUND, 
      SEED_MISMATCH, PRECOMMIT_REQUIRED, PRECOMMIT_INVALID, PRECOMMIT_EXPIRED]"

datatype window_state = OPEN | TRAINING | PUBLISHING | READY

fun window_state_value :: "window_state \<Rightarrow> string" where
  "window_state_value OPEN = ''open''"
| "window_state_value TRAINING = ''training''"
| "window_state_value PUBLISHING = ''publishing''"
| "window_state_value READY = ''ready''"

definition parse_reason :: "json \<Rightarrow> reject_reason option" where
  "parse_reason v = (case v of
       JStr s \<Rightarrow> (case filter (\<lambda>r. reason_value r = s) all_reasons of [] \<Rightarrow> None | r # _ \<Rightarrow> Some r)
     | _ \<Rightarrow> None)"

definition parse_window_state :: "json \<Rightarrow> window_state option" where
  "parse_window_state v = (case v of
       JStr s \<Rightarrow> (case filter (\<lambda>w. window_state_value w = s) [OPEN, TRAINING, PUBLISHING, READY] of
                     [] \<Rightarrow> None | w # _ \<Rightarrow> Some w)
     | _ \<Rightarrow> None)"

section \<open>Field validation\<close>

record pydantic =
  pyd_int :: "json \<Rightarrow> int option"
  pyd_float :: "json \<Rightarrow> pyfloat option"
  pyd_bool :: "json \<Rightarrow> bool option"

text \<open>What the library documents and the code relies on: a value of the declared type validates to itself.\<close>

definition pydantic_lawful :: "pydantic \<Rightarrow> bool" where
  "pydantic_lawful pd =
     ((\<forall>i. pyd_int pd (JInt i) = Some i) \<and> (\<forall>x. pyd_float pd (JFloat x) = Some x) \<and> (\<forall>b. pyd_bool pd (JBool b) = Some b))"

type_synonym fields = "(string \<times> json) list"

definition guard :: "('a \<Rightarrow> bool) \<Rightarrow> 'a option \<Rightarrow> 'a option" where
  "guard P v = (case v of None \<Rightarrow> None | Some x \<Rightarrow> if P x then Some x else None)"

definition required :: "fields \<Rightarrow> string \<Rightarrow> (json \<Rightarrow> 'a option) \<Rightarrow> 'a option" where
  "required kvs k parse = Option.bind (map_of kvs k) parse"

definition optional :: "fields \<Rightarrow> string \<Rightarrow> 'a \<Rightarrow> (json \<Rightarrow> 'a option) \<Rightarrow> 'a option" where
  "optional kvs k dflt parse = (case map_of kvs k of None \<Rightarrow> Some dflt | Some v \<Rightarrow> parse v)"

definition as_model :: "string list \<Rightarrow> (fields \<Rightarrow> 'a option) \<Rightarrow> json \<Rightarrow> 'a option" where
  "as_model allowed parse v = (case v of
       JObj kvs \<Rightarrow> if list_all (\<lambda>kv. fst kv \<in> set allowed) kvs then parse kvs else None
     | _ \<Rightarrow> None)"

definition p_str :: "json \<Rightarrow> string option" where
  "p_str v = (case v of JStr s \<Rightarrow> Some s | _ \<Rightarrow> None)"

definition p_dict :: "json \<Rightarrow> fields option" where
  "p_dict v = (case v of JObj kvs \<Rightarrow> Some kvs | _ \<Rightarrow> None)"

definition p_list :: "(json \<Rightarrow> 'a option) \<Rightarrow> json \<Rightarrow> 'a list option" where
  "p_list parse v = (case v of JList xs \<Rightarrow> those (map parse xs) | _ \<Rightarrow> None)"

definition p_null :: "(json \<Rightarrow> 'a option) \<Rightarrow> json \<Rightarrow> 'a option option" where
  "p_null parse v = (if v = JNull then Some None else map_option Some (parse v))"

definition hex_string :: "string \<Rightarrow> bool" where
  "hex_string s = list_all is_hex_char s"

abbreviation obind :: "'a option \<Rightarrow> ('a \<Rightarrow> 'b option) \<Rightarrow> 'b option" where
  "obind \<equiv> Option.bind"

lemma guard_Some [simp]: "guard P v = Some x \<longleftrightarrow> v = Some x \<and> P x"
  by (auto simp: guard_def split: option.splits)

lemma obind_Some [simp]: "obind v f = Some y \<longleftrightarrow> (\<exists>x. v = Some x \<and> f x = Some y)"
  by (cases v) auto

lemma those_length: "those xs = Some ys \<Longrightarrow> length ys = length xs"
  by (induction xs arbitrary: ys) (auto split: option.splits)

lemma as_model_Some: "as_model ks parse v = Some x \<longleftrightarrow>
    (\<exists>kvs. v = JObj kvs \<and> (\<forall>kv \<in> set kvs. fst kv \<in> set ks) \<and> parse kvs = Some x)"
  by (cases v) (auto simp: as_model_def list_all_iff)

section \<open>Submissions\<close>

record rollout_submission =
  rs_tokens :: "int list"
  rs_reward :: pyfloat
  rs_commit :: fields
  rs_env_name :: string

definition RolloutSubmission :: "pydantic \<Rightarrow> json \<Rightarrow> rollout_submission option" where
  "RolloutSubmission pd = as_model [''tokens'', ''reward'', ''commit'', ''env_name''] (\<lambda>kvs.
     obind (required kvs ''tokens'' (\<lambda>v. guard (\<lambda>ts. ts \<noteq> []) (p_list (pyd_int pd) v))) (\<lambda>tokens.
     obind (required kvs ''reward'' (pyd_float pd)) (\<lambda>reward.
     obind (required kvs ''commit'' p_dict) (\<lambda>commit.
     obind (required kvs ''env_name'' p_str) (\<lambda>env_name.
     Some \<lparr> rs_tokens = tokens, rs_reward = reward, rs_commit = commit, rs_env_name = env_name \<rparr>)))))"

record batch_submission_request =
  bs_miner_hotkey :: string
  bs_prompt_idx :: int
  bs_window_start :: int
  bs_merkle_root :: string
  bs_rollouts :: "rollout_submission list"
  bs_checkpoint_hash :: string
  bs_drand_round :: int
  bs_nonce :: string
  bs_envelope_signature :: string
  bs_protocol_version :: int
  bs_generation_profile_id :: string

definition p_nonneg :: "pydantic \<Rightarrow> json \<Rightarrow> int option" where
  "p_nonneg pd v = guard (\<lambda>i. 0 \<le> i) (pyd_int pd v)"

definition p_hex64 :: "json \<Rightarrow> string option" where
  "p_hex64 v = guard (\<lambda>s. length s = 64 \<and> hex_string s) (p_str v)"

definition p_str_between :: "nat \<Rightarrow> nat \<Rightarrow> json \<Rightarrow> string option" where
  "p_str_between lo hi v = guard (\<lambda>s. lo \<le> length s \<and> length s \<le> hi) (p_str v)"

definition rollouts_share_one_environment :: "rollout_submission list \<Rightarrow> bool" where
  "rollouts_share_one_environment rs = (card (rs_env_name ` set rs) = 1)"

definition BatchSubmissionRequest :: "pydantic \<Rightarrow> json \<Rightarrow> batch_submission_request option" where
  "BatchSubmissionRequest pd = as_model
     [''miner_hotkey'', ''prompt_idx'', ''window_start'', ''merkle_root'', ''rollouts'', ''checkpoint_hash'',
      ''drand_round'', ''nonce'', ''envelope_signature'', ''protocol_version'', ''generation_profile_id''] (\<lambda>kvs.
     obind (required kvs ''miner_hotkey'' (\<lambda>v. guard (\<lambda>s. s \<noteq> []) (p_str v))) (\<lambda>hotkey.
     obind (required kvs ''prompt_idx'' (p_nonneg pd)) (\<lambda>prompt_idx.
     obind (required kvs ''window_start'' (p_nonneg pd)) (\<lambda>window_start.
     obind (required kvs ''merkle_root'' p_hex64) (\<lambda>merkle_root.
     obind (required kvs ''rollouts'' (\<lambda>v. guard (\<lambda>rs. int (length rs) = M_ROLLOUTS) (p_list (RolloutSubmission pd) v))) (\<lambda>rollouts.
     obind (required kvs ''checkpoint_hash'' (p_str_between 0 256)) (\<lambda>checkpoint_hash.
     obind (optional kvs ''drand_round'' 0 (p_nonneg pd)) (\<lambda>drand_round.
     obind (optional kvs ''nonce'' [] (p_str_between 0 128)) (\<lambda>nonce.
     obind (optional kvs ''envelope_signature'' [] (\<lambda>v. guard hex_string (p_str v))) (\<lambda>envelope_signature.
     obind (optional kvs ''protocol_version'' 0 (p_nonneg pd)) (\<lambda>protocol_version.
     obind (optional kvs ''generation_profile_id'' [] (p_str_between 0 64)) (\<lambda>profile.
     if rollouts_share_one_environment rollouts then
       Some \<lparr> bs_miner_hotkey = hotkey, bs_prompt_idx = prompt_idx, bs_window_start = window_start,
              bs_merkle_root = merkle_root, bs_rollouts = rollouts, bs_checkpoint_hash = checkpoint_hash,
              bs_drand_round = drand_round, bs_nonce = nonce, bs_envelope_signature = envelope_signature,
              bs_protocol_version = protocol_version, bs_generation_profile_id = profile \<rparr>
     else None))))))))))))"

record batch_submission_response =
  br_accepted :: bool
  br_reason :: reject_reason

definition BatchSubmissionResponse :: "pydantic \<Rightarrow> json \<Rightarrow> batch_submission_response option" where
  "BatchSubmissionResponse pd = as_model [''accepted'', ''reason''] (\<lambda>kvs.
     obind (required kvs ''accepted'' (pyd_bool pd)) (\<lambda>a.
     obind (required kvs ''reason'' parse_reason) (\<lambda>r.
     Some \<lparr> br_accepted = a, br_reason = r \<rparr>)))"

record submission_precommit_request =
  pr_miner_hotkey :: string
  pr_prompt_idx :: int
  pr_window_start :: int
  pr_merkle_root :: string
  pr_checkpoint_hash :: string
  pr_environment :: string
  pr_payload_bytes :: int
  pr_payload_sha256 :: string
  pr_drand_round :: int
  pr_protocol_version :: int
  pr_generation_profile_id :: string
  pr_nonce :: string
  pr_signature :: string

definition SubmissionPrecommitRequest :: "pydantic \<Rightarrow> json \<Rightarrow> submission_precommit_request option" where
  "SubmissionPrecommitRequest pd = as_model
     [''miner_hotkey'', ''prompt_idx'', ''window_start'', ''merkle_root'', ''checkpoint_hash'', ''environment'',
      ''payload_bytes'', ''payload_sha256'', ''drand_round'', ''protocol_version'', ''generation_profile_id'',
      ''nonce'', ''precommit_signature''] (\<lambda>kvs.
     obind (required kvs ''miner_hotkey'' (\<lambda>v. guard (\<lambda>s. s \<noteq> []) (p_str v))) (\<lambda>hotkey.
     obind (required kvs ''prompt_idx'' (p_nonneg pd)) (\<lambda>prompt_idx.
     obind (required kvs ''window_start'' (p_nonneg pd)) (\<lambda>window_start.
     obind (required kvs ''merkle_root'' p_hex64) (\<lambda>merkle_root.
     obind (required kvs ''checkpoint_hash'' (p_str_between 0 256)) (\<lambda>checkpoint_hash.
     obind (required kvs ''environment'' (p_str_between 1 64)) (\<lambda>environment.
     obind (required kvs ''payload_bytes'' (\<lambda>v. guard (\<lambda>i. 0 < i) (pyd_int pd v))) (\<lambda>payload_bytes.
     obind (required kvs ''payload_sha256'' p_hex64) (\<lambda>payload_sha256.
     obind (required kvs ''drand_round'' (p_nonneg pd)) (\<lambda>drand_round.
     obind (optional kvs ''protocol_version'' 0 (p_nonneg pd)) (\<lambda>version.
     obind (optional kvs ''generation_profile_id'' [] (p_str_between 0 64)) (\<lambda>profile.
     obind (required kvs ''nonce'' (p_str_between 1 128)) (\<lambda>nonce.
     obind (required kvs ''precommit_signature'' (\<lambda>v. guard hex_string (p_str_between 2 256 v))) (\<lambda>signature.
     Some \<lparr> pr_miner_hotkey = hotkey, pr_prompt_idx = prompt_idx, pr_window_start = window_start,
            pr_merkle_root = merkle_root, pr_checkpoint_hash = checkpoint_hash, pr_environment = environment,
            pr_payload_bytes = payload_bytes, pr_payload_sha256 = payload_sha256, pr_drand_round = drand_round,
            pr_protocol_version = version, pr_generation_profile_id = profile, pr_nonce = nonce,
            pr_signature = signature \<rparr>))))))))))))))"

record submission_precommit_response =
  pp_accepted :: bool
  pp_reason :: reject_reason
  pp_receipt_id :: "string option"
  pp_upload_deadline_ts :: "pyfloat option"

definition SubmissionPrecommitResponse :: "pydantic \<Rightarrow> json \<Rightarrow> submission_precommit_response option" where
  "SubmissionPrecommitResponse pd = as_model [''accepted'', ''reason'', ''receipt_id'', ''upload_deadline_ts''] (\<lambda>kvs.
     obind (required kvs ''accepted'' (pyd_bool pd)) (\<lambda>a.
     obind (required kvs ''reason'' parse_reason) (\<lambda>r.
     obind (optional kvs ''receipt_id'' None (p_null p_str)) (\<lambda>rid.
     obind (optional kvs ''upload_deadline_ts'' None (p_null (pyd_float pd))) (\<lambda>ts.
     Some \<lparr> pp_accepted = a, pp_reason = r, pp_receipt_id = rid, pp_upload_deadline_ts = ts \<rparr>)))))"

section \<open>Window state and verdicts\<close>

record grpo_batch_state =
  gs_state :: window_state
  gs_window_n :: int
  gs_anchor_block :: int
  gs_cooldown_prompts :: "int list"
  gs_valid_submissions :: int
  gs_checkpoint_n :: int
  gs_checkpoint_repo_id :: "string option"
  gs_checkpoint_revision :: "string option"
  gs_protocol_version :: "int option"
  gs_generation_profile_id :: "string option"
  gs_generation_contract :: "fields option"
  gs_randomness :: string

definition GrpoBatchState :: "pydantic \<Rightarrow> json \<Rightarrow> grpo_batch_state option" where
  "GrpoBatchState pd = as_model
     [''state'', ''window_n'', ''anchor_block'', ''cooldown_prompts'', ''valid_submissions'', ''checkpoint_n'',
      ''checkpoint_repo_id'', ''checkpoint_revision'', ''protocol_version'', ''generation_profile_id'',
      ''generation_contract'', ''randomness''] (\<lambda>kvs.
     obind (required kvs ''state'' parse_window_state) (\<lambda>st.
     obind (required kvs ''window_n'' (p_nonneg pd)) (\<lambda>window_n.
     obind (required kvs ''anchor_block'' (p_nonneg pd)) (\<lambda>anchor.
     obind (optional kvs ''cooldown_prompts'' [] (p_list (pyd_int pd))) (\<lambda>cooldown.
     obind (required kvs ''valid_submissions'' (p_nonneg pd)) (\<lambda>valid.
     obind (required kvs ''checkpoint_n'' (p_nonneg pd)) (\<lambda>checkpoint_n.
     obind (optional kvs ''checkpoint_repo_id'' None (p_null p_str)) (\<lambda>repo.
     obind (optional kvs ''checkpoint_revision'' None (p_null p_str)) (\<lambda>revision.
     obind (optional kvs ''protocol_version'' None (p_null (p_nonneg pd))) (\<lambda>version.
     obind (optional kvs ''generation_profile_id'' None (p_null (p_str_between 0 64))) (\<lambda>profile.
     obind (optional kvs ''generation_contract'' None (p_null p_dict)) (\<lambda>contract.
     obind (optional kvs ''randomness'' [] p_str) (\<lambda>randomness.
     Some \<lparr> gs_state = st, gs_window_n = window_n, gs_anchor_block = anchor, gs_cooldown_prompts = cooldown,
            gs_valid_submissions = valid, gs_checkpoint_n = checkpoint_n, gs_checkpoint_repo_id = repo,
            gs_checkpoint_revision = revision, gs_protocol_version = version, gs_generation_profile_id = profile,
            gs_generation_contract = contract, gs_randomness = randomness \<rparr>)))))))))))))"

text \<open>
  A verdict carries, next to what is required, seventeen optional observability fields. The model keeps
  the two that the miner reads and checks the others for their type.
\<close>

record verdict =
  vd_merkle_root :: string
  vd_window_n :: "int option"
  vd_accepted :: bool
  vd_reason :: reject_reason
  vd_ts :: pyfloat
  vd_rewarded :: "bool option"
  vd_submitted_drand_round :: "int option"

definition verdict_float_fields :: "string list" where
  "verdict_float_fields = [''arrival_ts'', ''decision_ts'', ''queue_wait_ms'', ''verify_ms'', ''total_ms'']"

definition verdict_int_fields :: "string list" where
  "verdict_int_fields = [''arrival_drand_round'', ''drand_delta'', ''seal_trigger_round'', ''canonical_rank'']"

definition verdict_bool_fields :: "string list" where
  "verdict_bool_fields = [''accepted_into_pool'', ''selected_for_batch'']"

definition verdict_str_fields :: "string list" where
  "verdict_str_fields = [''prompt_hash_lead'', ''reject_stage'', ''reject_reason'']"

definition optional_ok :: "fields \<Rightarrow> (json \<Rightarrow> 'a option) \<Rightarrow> string list \<Rightarrow> bool" where
  "optional_ok kvs parse ks = list_all (\<lambda>k. optional kvs k None (p_null parse) \<noteq> None) ks"

definition Verdict :: "pydantic \<Rightarrow> json \<Rightarrow> verdict option" where
  "Verdict pd = as_model
     ([''merkle_root'', ''window_n'', ''accepted'', ''reason'', ''ts'', ''rewarded'', ''submitted_drand_round'']
      @ verdict_float_fields @ verdict_int_fields @ verdict_bool_fields @ verdict_str_fields) (\<lambda>kvs.
     obind (required kvs ''merkle_root'' p_hex64) (\<lambda>root.
     obind (optional kvs ''window_n'' None (p_null (p_nonneg pd))) (\<lambda>window_n.
     obind (required kvs ''accepted'' (pyd_bool pd)) (\<lambda>accepted.
     obind (required kvs ''reason'' parse_reason) (\<lambda>reason.
     obind (required kvs ''ts'' (pyd_float pd)) (\<lambda>ts.
     obind (optional kvs ''rewarded'' None (p_null (pyd_bool pd))) (\<lambda>rewarded.
     obind (optional kvs ''submitted_drand_round'' None (p_null (pyd_int pd))) (\<lambda>sround.
     if optional_ok kvs (pyd_float pd) verdict_float_fields \<and> optional_ok kvs (pyd_int pd) verdict_int_fields
        \<and> optional_ok kvs (pyd_bool pd) verdict_bool_fields \<and> optional_ok kvs p_str verdict_str_fields
     then Some \<lparr> vd_merkle_root = root, vd_window_n = window_n, vd_accepted = accepted, vd_reason = reason,
                 vd_ts = ts, vd_rewarded = rewarded, vd_submitted_drand_round = sround \<rparr>
     else None))))))))"

definition VerdictsResponse :: "pydantic \<Rightarrow> json \<Rightarrow> verdict list option" where
  "VerdictsResponse pd = as_model [''verdicts''] (\<lambda>kvs. required kvs ''verdicts'' (p_list (Verdict pd)))"

section \<open>The commit dictionary\<close>

record model_info =
  mi_name :: string
  mi_layer_index :: int

definition ModelInfo :: "pydantic \<Rightarrow> json \<Rightarrow> model_info option" where
  "ModelInfo pd = as_model [''name'', ''layer_index''] (\<lambda>kvs.
     obind (required kvs ''name'' p_str) (\<lambda>name.
     obind (required kvs ''layer_index'' (pyd_int pd)) (\<lambda>layer.
     Some \<lparr> mi_name = name, mi_layer_index = layer \<rparr>)))"

definition BeaconInfo :: "json \<Rightarrow> string option" where
  "BeaconInfo = as_model [''randomness''] (\<lambda>kvs.
     required kvs ''randomness'' (\<lambda>v. guard (\<lambda>s. s \<noteq> [] \<and> hex_string s) (p_str v)))"

record rollout_metadata =
  rm_prompt_length :: int
  rm_completion_length :: int
  rm_success :: bool
  rm_total_reward :: pyfloat
  rm_advantage :: pyfloat
  rm_token_logprobs :: "pyfloat list"
  rm_forced :: bool
  rm_force_span :: "int list option"
  rm_truncated :: bool

definition RolloutMetadata :: "pydantic \<Rightarrow> int \<Rightarrow> json \<Rightarrow> rollout_metadata option" where
  "RolloutMetadata pd cap = as_model
     [''prompt_length'', ''completion_length'', ''success'', ''total_reward'', ''advantage'', ''token_logprobs'',
      ''forced'', ''force_span'', ''truncated''] (\<lambda>kvs.
     obind (required kvs ''prompt_length'' (p_nonneg pd)) (\<lambda>prompt_length.
     obind (required kvs ''completion_length'' (\<lambda>v. guard (\<lambda>i. 0 < i \<and> i \<le> cap) (pyd_int pd v))) (\<lambda>completion_length.
     obind (required kvs ''success'' (pyd_bool pd)) (\<lambda>success.
     obind (required kvs ''total_reward'' (pyd_float pd)) (\<lambda>total_reward.
     obind (required kvs ''advantage'' (pyd_float pd)) (\<lambda>advantage.
     obind (required kvs ''token_logprobs'' (p_list (pyd_float pd))) (\<lambda>token_logprobs.
     obind (optional kvs ''forced'' False (pyd_bool pd)) (\<lambda>forced.
     obind (optional kvs ''force_span'' None (p_null (p_list (pyd_int pd)))) (\<lambda>force_span.
     obind (optional kvs ''truncated'' False (pyd_bool pd)) (\<lambda>truncated.
     Some \<lparr> rm_prompt_length = prompt_length, rm_completion_length = completion_length, rm_success = success,
            rm_total_reward = total_reward, rm_advantage = advantage, rm_token_logprobs = token_logprobs,
            rm_forced = forced, rm_force_span = force_span, rm_truncated = truncated \<rparr>))))))))))"

record commit_model =
  cm_tokens :: "int list"
  cm_commitments :: "fields list"
  cm_model :: model_info
  cm_signature :: string
  cm_beacon :: string
  cm_rollout :: rollout_metadata

definition commitments_len_matches_tokens :: "int list \<Rightarrow> fields list \<Rightarrow> bool" where
  "commitments_len_matches_tokens tokens v = (length v = length tokens)"

definition lengths_consistent :: "int list \<Rightarrow> rollout_metadata \<Rightarrow> bool" where
  "lengths_consistent tokens v =
     (if rm_prompt_length v + rm_completion_length v \<noteq> int (length tokens) then False
      else int (length (rm_token_logprobs v)) = int (length tokens)
           \<or> int (length (rm_token_logprobs v)) = rm_completion_length v)"

definition CommitModel :: "pydantic \<Rightarrow> int \<Rightarrow> json \<Rightarrow> commit_model option" where
  "CommitModel pd cap = as_model
     [''tokens'', ''commitments'', ''proof_version'', ''model'', ''signature'', ''beacon'', ''rollout''] (\<lambda>kvs.
     obind (required kvs ''tokens'' (\<lambda>v. guard (\<lambda>ts. CHALLENGE_K \<le> int (length ts)) (p_list (pyd_int pd) v))) (\<lambda>tokens.
     obind (required kvs ''commitments'' (\<lambda>v. guard (commitments_len_matches_tokens tokens) (p_list p_dict v))) (\<lambda>commitments.
     obind (required kvs ''proof_version'' (\<lambda>v. guard (\<lambda>s. s = ''v7'') (p_str v))) (\<lambda>proof_version.
     obind (required kvs ''model'' (ModelInfo pd)) (\<lambda>model.
     obind (required kvs ''signature'' (\<lambda>v. guard (\<lambda>s. s \<noteq> [] \<and> hex_string s) (p_str v))) (\<lambda>signature.
     obind (required kvs ''beacon'' BeaconInfo) (\<lambda>beacon.
     obind (required kvs ''rollout'' (\<lambda>v. guard (lengths_consistent tokens) (RolloutMetadata pd cap v))) (\<lambda>rollout.
     Some \<lparr> cm_tokens = tokens, cm_commitments = commitments, cm_model = model, cm_signature = signature,
            cm_beacon = beacon, cm_rollout = rollout \<rparr>))))))))"

section \<open>What a validated message guarantees\<close>

lemma all_reasons_complete: "r \<in> set all_reasons"
  by (cases r) (simp_all add: all_reasons_def)

lemma reason_value_inj: "reason_value r = reason_value r' \<Longrightarrow> r = r'"
proof -
  have "distinct (map reason_value all_reasons)" by code_simp
  then have "inj_on reason_value (set all_reasons)" by (simp add: distinct_map)
  then show "reason_value r = reason_value r' \<Longrightarrow> r = r'" by (auto dest: inj_onD simp: all_reasons_complete)
qed

lemma parse_reason_value: "parse_reason (JStr (reason_value r)) = Some r"
proof -
  have "filter (\<lambda>x. reason_value x = reason_value r) all_reasons \<noteq> []"
    using all_reasons_complete [of r] by (auto simp: filter_empty_conv)
  then obtain x xs where x: "filter (\<lambda>x. reason_value x = reason_value r) all_reasons = x # xs"
    by (cases "filter (\<lambda>x. reason_value x = reason_value r) all_reasons") auto
  then have "x \<in> set (filter (\<lambda>x. reason_value x = reason_value r) all_reasons)" by simp
  then have "x = r" using reason_value_inj by auto
  with x show ?thesis by (simp add: parse_reason_def)
qed

lemma share_one_environment:
  assumes "rollouts_share_one_environment rs" and "x \<in> set rs" and "y \<in> set rs"
  shows "rs_env_name x = rs_env_name y"
proof -
  obtain e where "rs_env_name ` set rs = {e}"
    using assms(1) unfolding rollouts_share_one_environment_def by (rule card_1_singletonE)
  then have "rs_env_name x \<in> {e}" "rs_env_name y \<in> {e}" using assms(2,3) by (metis imageI)+
  then show ?thesis by simp
qed

lemma if_Some_None [simp]: "(if b then Some x else None) = Some y \<longleftrightarrow> b \<and> x = y"
  by simp

lemma request_shape:
  assumes "BatchSubmissionRequest pd v = Some r"
  shows "length (bs_rollouts r) = 8 \<and> 0 \<le> bs_prompt_idx r \<and> 0 \<le> bs_window_start r
    \<and> length (bs_merkle_root r) = 64 \<and> hex_string (bs_merkle_root r) \<and> bs_miner_hotkey r \<noteq> []
    \<and> rollouts_share_one_environment (bs_rollouts r)"
  using assms unfolding BatchSubmissionRequest_def as_model_Some
  apply (elim exE conjE)
  apply (simp only: obind_Some if_Some_None required_def p_nonneg_def p_hex64_def guard_Some)
  apply (elim exE conjE)
  apply hypsubst
  apply (simp only: batch_submission_request.select_convs M_ROLLOUTS_def of_nat_eq_iff simp_thms)
  done

lemma metadata_shape:
  assumes "RolloutMetadata pd cap v = Some m"
  shows "0 \<le> rm_prompt_length m \<and> 0 < rm_completion_length m \<and> rm_completion_length m \<le> cap"
  using assms unfolding RolloutMetadata_def as_model_Some
  by (elim exE conjE, simp only: obind_Some required_def p_nonneg_def guard_Some)
     (elim exE conjE, simp only: option.inject, hypsubst, simp)

lemma commit_shape:
  assumes "CommitModel pd cap v = Some c"
  shows "32 \<le> length (cm_tokens c) \<and> length (cm_commitments c) = length (cm_tokens c)
    \<and> (\<exists>w. RolloutMetadata pd cap w = Some (cm_rollout c)) \<and> lengths_consistent (cm_tokens c) (cm_rollout c)"
  using assms unfolding CommitModel_def as_model_Some
  by (elim exE conjE, simp only: obind_Some required_def guard_Some commitments_len_matches_tokens_def CHALLENGE_K_def)
     (elim exE conjE, simp only: option.inject, hypsubst, simp, blast)

lemma commit_lengths:
  assumes "CommitModel pd cap v = Some c"
  shows "0 \<le> rm_prompt_length (cm_rollout c)" and "0 < rm_completion_length (cm_rollout c)"
    and "rm_completion_length (cm_rollout c) \<le> cap"
    and "rm_prompt_length (cm_rollout c) + rm_completion_length (cm_rollout c) = int (length (cm_tokens c))"
    and "length (rm_token_logprobs (cm_rollout c)) = length (cm_tokens c)
         \<or> int (length (rm_token_logprobs (cm_rollout c))) = rm_completion_length (cm_rollout c)"
  using commit_shape [OF assms] metadata_shape by (auto simp: lengths_consistent_def split: if_splits)

end
