(* ===== verification/Verifier.thy ===== *)
theory Verifier
  imports Signatures GrailVerifier Submission
begin

text \<open>
  \<open>reliquary/validator/verifier.py\<close>: the checks of one commit against the model. A tensor of logits
  is the list of its rows. Parameters: the model's forward pass, the softmax functions, the numpy
  statistics, the order \<open>sorted\<close> gives to lists with a NaN, and \<open>float(s)\<close> of a string.
\<close>

record tensor_fns =
  tf_softmax :: "pyfloat list \<Rightarrow> pyfloat list"
  tf_log_softmax :: "pyfloat list \<Rightarrow> pyfloat list"
  tf_np_mean :: "pyfloat list \<Rightarrow> pyfloat"
  tf_np_median :: "pyfloat list \<Rightarrow> pyfloat"
  tf_np_quantile :: "pyfloat list \<Rightarrow> real \<Rightarrow> pyfloat"
  tf_sorted :: "pyfloat list \<Rightarrow> pyfloat list"
  tf_float_of_str :: "string \<Rightarrow> pyfloat res"

text \<open>Everything outside the program that a verification uses.\<close>

record verifier_env =
  ve_sha :: "bytes \<Rightarrow> bytes"
  ve_shake :: "bytes \<Rightarrow> nat \<Rightarrow> bytes"
  ve_rng :: rng_ops
  ve_torch :: torch_ops
  ve_fns :: tensor_fns
  ve_forward :: "int list \<Rightarrow> (pyfloat list list \<times> pyfloat list list) res"
  ve_config :: json
  ve_emb_shape :: "int list option"

section \<open>Indexing and number conversion\<close>

text \<open>Indexing of a Python list or a tensor: a negative index counts from the end.\<close>

definition py_at :: "'a list \<Rightarrow> int \<Rightarrow> 'a res" where
  "py_at xs i = (let n = int (length xs) in
     if 0 \<le> i \<and> i < n then Inr (xs ! nat i)
     else if - n \<le> i \<and> i < 0 then Inr (xs ! nat (i + n)) else Inl IndexError)"

lemma py_at_Inr: "0 \<le> i \<Longrightarrow> i < int (length xs) \<Longrightarrow> py_at xs i = Inr (xs ! nat i)"
  by (simp add: py_at_def)

definition jfloat :: "tensor_fns \<Rightarrow> json \<Rightarrow> pyfloat res" where
  "jfloat fns v = (case v of JFloat f \<Rightarrow> Inr f | JInt i \<Rightarrow> Inr (Fin (of_int i))
     | JBool b \<Rightarrow> Inr (Fin (if b then 1 else 0)) | JStr s \<Rightarrow> tf_float_of_str fns s | _ \<Rightarrow> Inl TypeError)"

definition json_eq_int :: "json \<Rightarrow> int \<Rightarrow> bool" where
  "json_eq_int v i = (as_int v = Some i \<or> v = JFloat (Fin (of_int i)))"

definition pf_add :: "pyfloat \<Rightarrow> pyfloat \<Rightarrow> pyfloat" where
  "pf_add x y = (case y of Fin b \<Rightarrow> pf_sub x (Fin (- b)) | PInf \<Rightarrow> pf_sub x NInf | NInf \<Rightarrow> pf_sub x PInf | NaN \<Rightarrow> NaN)"

definition pf_scale :: "real \<Rightarrow> pyfloat \<Rightarrow> pyfloat" where
  "pf_scale c x = (case x of Fin a \<Rightarrow> Fin (c * a) | w \<Rightarrow> w)"

text \<open>\<open>math.exp\<close> raises when the result is above the largest double.\<close>

definition DBL_MAX :: real where
  "DBL_MAX = (2 - 1 / 2 ^ 52) * 2 ^ 1023"

definition math_exp :: "pyfloat \<Rightarrow> pyfloat res" where
  "math_exp x = (case x of
       Fin a \<Rightarrow> if DBL_MAX < exp a then Inl OverflowError else Inr (Fin (exp a))
     | PInf \<Rightarrow> Inr PInf | NInf \<Rightarrow> Inr (Fin 0) | NaN \<Rightarrow> Inr NaN)"

section \<open>Signature and termination\<close>

definition verify_signature :: "(bytes \<Rightarrow> bytes) \<Rightarrow> (real \<Rightarrow> string) \<Rightarrow> keypair_ops option \<Rightarrow> json \<Rightarrow> string \<Rightarrow> bool res" where
  "verify_signature sha rep bt commit hotkey = verify_commit_signature sha rep bt commit hotkey"

definition verify_termination :: "tensor_fns \<Rightarrow> json \<Rightarrow> int option \<Rightarrow> pyfloat list list \<Rightarrow> bool res" where
  "verify_termination fns commit eos_token_id logits =
     rbind (jindex commit ''tokens'') (\<lambda>tokens.
     case eos_token_id of None \<Rightarrow> Inr False
     | Some eos_id \<Rightarrow>
         rbind (rbind (jlist tokens) (\<lambda>ts. py_at ts (-1))) (\<lambda>last_token.
         if \<not> json_eq_int last_token eos_id then Inr False
         else rbind (py_at logits (-2)) (\<lambda>row.
              rbind (py_at (tf_softmax fns row) eos_id) (\<lambda>p_eos.
              Inr (pf_le (Fin MIN_EOS_PROBABILITY) p_eos)))))"

section \<open>GRAIL commitments\<close>

record proof_result =
  pr_all_passed :: bool
  pr_passed :: int
  pr_checked :: int
  pr_logits :: "pyfloat list list"
  pr_sketch_diff_max :: int

text \<open>The loop over the challenged positions, with the counters \<open>passed\<close>, \<open>checked\<close> and \<open>sketch_diff_max\<close>.\<close>

fun challenge_loop :: "torch_ops \<Rightarrow> grail_verifier \<Rightarrow> pyfloat list list \<Rightarrow> json list \<Rightarrow> int list \<Rightarrow> int
    \<Rightarrow> int list \<Rightarrow> int \<times> int \<times> int \<Rightarrow> (int \<times> int \<times> int) res" where
  "challenge_loop tc gv hidden commitments r_vec seq_len [] acc = Inr acc"
| "challenge_loop tc gv hidden commitments r_vec seq_len (idx # rest) (passed, checked, dmax) =
     (if seq_len \<le> idx then challenge_loop tc gv hidden commitments r_vec seq_len rest (passed, checked, dmax)
      else rbind (py_at commitments idx) (\<lambda>miner_commit.
           rbind (py_at hidden idx) (\<lambda>validator_hidden.
           rbind (verify_commitment tc gv validator_hidden miner_commit r_vec seq_len idx) (\<lambda>(valid, diag).
           rbind (jint (JFloat (sd_diff diag))) (\<lambda>sketch_diff.
           challenge_loop tc gv hidden commitments r_vec seq_len rest
             (if valid then passed + 1 else passed, checked + 1, if dmax < sketch_diff then sketch_diff else dmax))))))"

definition verify_commitment_proofs :: "verifier_env \<Rightarrow> json \<Rightarrow> string \<Rightarrow> proof_result res" where
  "verify_commitment_proofs ve commit window_randomness =
     rbind (rbind (jindex commit ''tokens'') json_ints) (\<lambda>tokens.
     rbind (rbind (jindex commit ''commitments'') jlist) (\<lambda>commitments.
     (let seq_len = int (length tokens) in
      rbind (resolve_hidden_size (ve_config ve) (ve_emb_shape ve)) (\<lambda>hidden_dim.
      (let gv = GRAILVerifier hidden_dim in
       rbind (generate_r_vec (ve_shake ve) gv window_randomness) (\<lambda>r_vec.
       (let expected_challenges = min CHALLENGE_K seq_len in
        rbind (indices_from_root (ve_sha ve) (ve_shake ve) (ve_rng ve) tokens window_randomness seq_len expected_challenges)
          (\<lambda>challenge_indices.
        rbind (ve_forward ve tokens) (\<lambda>(hidden_states, logits).
        rbind (challenge_loop (ve_torch ve) gv hidden_states commitments r_vec seq_len challenge_indices (0, 0, 0))
          (\<lambda>(passed, checked, dmax).
        Inr \<lparr> pr_all_passed = (passed = checked \<and> expected_challenges \<le> checked), pr_passed = passed,
              pr_checked = checked, pr_logits = logits, pr_sketch_diff_max = dmax \<rparr>))))))))))"

section \<open>Rewards\<close>

definition verify_reward_claim :: "('p \<Rightarrow> string \<Rightarrow> pyfloat res) \<Rightarrow> 'p \<Rightarrow> string \<Rightarrow> pyfloat \<Rightarrow> bool" where
  "verify_reward_claim compute_reward problem completion_text claimed =
     (case compute_reward problem completion_text of
        Inl _ \<Rightarrow> False
      | Inr actual \<Rightarrow> pf_le (pf_abs (pf_sub actual claimed)) (Fin (1 / 10 ^ 6)))"

fun finite_value :: "pyfloat \<Rightarrow> real option" where
  "finite_value (Fin x) = Some x"
| "finite_value _ = None"

definition mean :: "real list \<Rightarrow> real" where
  "mean xs = sum_list xs / of_nat (length xs)"

definition variance :: "real list \<Rightarrow> real" where
  "variance xs = sum_list (map (\<lambda>r. (r - mean xs) ^ 2) xs) / of_nat (length xs)"

text \<open>With an infinity or a NaN among the rewards the mean is not finite and the variance a NaN.\<close>

definition rewards_std :: "pyfloat list \<Rightarrow> pyfloat" where
  "rewards_std rewards =
     (if length rewards < 2 then Fin 0
      else case those (map finite_value rewards) of None \<Rightarrow> NaN | Some xs \<Rightarrow> Fin (sqrt (variance xs)))"

definition is_in_zone :: "pyfloat \<Rightarrow> bool \<Rightarrow> bool" where
  "is_in_zone sigma bootstrap =
     (if pf_lt sigma (Fin (1 / 10 ^ 8)) then False
      else pf_le (Fin (if bootstrap then BOOTSTRAP_SIGMA_MIN else SIGMA_MIN)) sigma)"

section \<open>Log-probabilities\<close>

definition median :: "tensor_fns \<Rightarrow> pyfloat list \<Rightarrow> pyfloat res" where
  "median fns xs = (let s = tf_sorted fns xs; n = length s in
     if n = 0 then Inl ValueError
     else if n mod 2 = 1 then Inr (s ! (n div 2))
     else Inr (pf_scale (1 / 2) (pf_add (s ! (n div 2 - 1)) (s ! (n div 2)))))"

definition logprob_dev :: "tensor_fns \<Rightarrow> json list \<Rightarrow> json list \<Rightarrow> int \<Rightarrow> pyfloat list list \<Rightarrow> int \<Rightarrow> pyfloat res" where
  "logprob_dev fns tokens claimed offset logits abs_idx =
     rbind (py_at logits (abs_idx - 1)) (\<lambda>row.
     rbind (rbind (py_at tokens abs_idx) jint) (\<lambda>tok.
     rbind (py_at (tf_log_softmax fns row) tok) (\<lambda>model_lp.
     rbind (rbind (py_at claimed (abs_idx - offset)) (jfloat fns)) (\<lambda>miner_lp.
     rbind (math_exp (pf_abs (pf_sub model_lp miner_lp))) (\<lambda>e.
     Inr (pf_sub e (Fin 1)))))))"

fun logprob_devs :: "tensor_fns \<Rightarrow> json list \<Rightarrow> json list \<Rightarrow> int \<Rightarrow> pyfloat list list \<Rightarrow> int list \<Rightarrow> pyfloat list option res" where
  "logprob_devs fns tokens claimed offset logits [] = Inr (Some [])"
| "logprob_devs fns tokens claimed offset logits (i # is) =
     (if i - 1 < 0 \<or> int (length logits) \<le> i - 1 then Inr None
      else rbind (logprob_dev fns tokens claimed offset logits i) (\<lambda>d.
           rbind (logprob_devs fns tokens claimed offset logits is) (\<lambda>ds.
           Inr (map_option (\<lambda>ds. d # ds) ds))))"

definition verify_logprobs_claim :: "verifier_env \<Rightarrow> json list \<Rightarrow> int \<Rightarrow> int \<Rightarrow> json list \<Rightarrow> pyfloat list list \<Rightarrow> string
    \<Rightarrow> (bool \<times> pyfloat) res" where
  "verify_logprobs_claim ve tokens prompt_length completion_length claimed_logprobs logits challenge_randomness =
     (if completion_length < CHALLENGE_K then Inr (False, PInf)
      else if length claimed_logprobs \<noteq> length tokens \<and> int (length claimed_logprobs) \<noteq> completion_length then Inr (False, PInf)
      else
        (let offset = (if length claimed_logprobs = length tokens then 0 else prompt_length) in
         rbind (traverse (\<lambda>t. case as_int t of Some i \<Rightarrow> Inr i | None \<Rightarrow> Inl TypeError) tokens) (\<lambda>toks.
         rbind (indices_from_root_in_range (ve_sha ve) (ve_shake ve) (ve_rng ve) toks challenge_randomness
                  prompt_length (prompt_length + completion_length) CHALLENGE_K) (\<lambda>challenge_idxs.
         if int (length challenge_idxs) \<noteq> CHALLENGE_K then Inr (False, PInf)
         else rbind (logprob_devs (ve_fns ve) tokens claimed_logprobs offset logits challenge_idxs) (\<lambda>devs.
           case devs of None \<Rightarrow> Inr (False, PInf)
           | Some ds \<Rightarrow> rbind (median (ve_fns ve) ds) (\<lambda>m. Inr (pf_le m (Fin LOGPROB_IS_EPS), m)))))))"

section \<open>Token distribution\<close>

record dist_metrics =
  dm_mean :: pyfloat
  dm_median :: pyfloat
  dm_q10 :: pyfloat
  dm_low_frac :: real
  dm_high_frac :: real

definition fraction :: "('a \<Rightarrow> bool) \<Rightarrow> 'a list \<Rightarrow> real" where
  "fraction P xs = of_nat (length (filter P xs)) / of_nat (length xs)"

fun step_probs :: "tensor_fns \<Rightarrow> json list \<Rightarrow> pyfloat list list \<Rightarrow> real \<Rightarrow> int list \<Rightarrow> pyfloat list res" where
  "step_probs fns tokens logits temperature [] = Inr []"
| "step_probs fns tokens logits temperature (t # ts) =
     (if t = 0 \<or> int (length logits) \<le> t - 1 \<or> int (length tokens) \<le> t
      then step_probs fns tokens logits temperature ts
      else rbind (py_at logits (t - 1)) (\<lambda>row.
           rbind (rbind (py_at tokens t) jint) (\<lambda>tok.
           rbind (py_at (tf_softmax fns (map (pf_scale (1 / temperature)) row)) tok) (\<lambda>p.
           rbind (step_probs fns tokens logits temperature ts) (\<lambda>ps. Inr (p # ps))))))"

definition evaluate_token_distribution :: "tensor_fns \<Rightarrow> json list \<Rightarrow> int \<Rightarrow> int \<Rightarrow> pyfloat list list \<Rightarrow> real
    \<Rightarrow> (bool option \<times> dist_metrics option) res" where
  "evaluate_token_distribution fns tokens prompt_length completion_length logits temperature =
     (if completion_length < SAMPLING_MIN_STEPS then Inr (None, None)
      else rbind (step_probs fns tokens logits temperature [prompt_length..prompt_length + completion_length - 1]) (\<lambda>probs.
        if int (length probs) < SAMPLING_MIN_STEPS then Inr (None, None)
        else
          (let m = \<lparr> dm_mean = tf_np_mean fns probs, dm_median = tf_np_median fns probs,
                     dm_q10 = tf_np_quantile fns probs (1 / 10),
                     dm_low_frac = fraction (\<lambda>x. pf_le x (Fin SAMPLING_LOW_P)) probs,
                     dm_high_frac = fraction (\<lambda>x. pf_le (Fin SAMPLING_HIGH_P) x) probs \<rparr>;
               suspicious = (pf_lt (dm_median m) (Fin SAMPLING_MEDIAN_LOW_MAX) \<or> pf_lt (dm_q10 m) (Fin SAMPLING_LOW_Q10_MAX))
           in Inr (Some (\<not> suspicious), Some m))))"

section \<open>The challenge loop\<close>

lemma challenge_loop_sound:
  assumes "challenge_loop tc gv hidden cs r_vec n idxs (p, c, m) = Inr (p', c', m')"
    and "\<forall>i \<in> set idxs. 0 \<le> i \<and> i < n"
  shows "c' = c + int (length idxs) \<and> p' \<le> p + int (length idxs) \<and>
    (p' = p + int (length idxs) \<longrightarrow> (\<forall>i \<in> set idxs. \<exists>h mc d. py_at hidden i = Inr h \<and> py_at cs i = Inr mc
       \<and> verify_commitment tc gv h mc r_vec n i = Inr (True, d)))"
  using assms
proof (induction idxs arbitrary: p c m)
  case Nil
  then show ?case by simp
next
  case (Cons i idxs)
  obtain mc h valid d k where i: "py_at cs i = Inr mc" "py_at hidden i = Inr h"
      "verify_commitment tc gv h mc r_vec n i = Inr (valid, d)"
    and rest: "challenge_loop tc gv hidden cs r_vec n idxs
        (if valid then p + 1 else p, c + 1, if m < k then k else m) = Inr (p', c', m')"
    using Cons.prems by (force simp: rbind_eq_Inr)
  from Cons.IH [OF rest] Cons.prems(2) i show ?case by (cases valid) auto
qed

lemma challenge_loop_complete:
  assumes "\<forall>i \<in> set idxs. 0 \<le> i \<and> i < n \<and> (\<exists>d k. verify_commitment tc gv (hidden ! nat i) (cs ! nat i) r_vec n i = Inr (True, d)
       \<and> jint (JFloat (sd_diff d)) = Inr k)"
    and "int (length hidden) = n" and "int (length cs) = n"
  shows "\<exists>m'. challenge_loop tc gv hidden cs r_vec n idxs (p, c, m) = Inr (p + int (length idxs), c + int (length idxs), m')"
  using assms
proof (induction idxs arbitrary: p c m)
  case Nil
  then show ?case by simp
next
  case (Cons i idxs)
  obtain d k where dk: "verify_commitment tc gv (hidden ! nat i) (cs ! nat i) r_vec n i = Inr (True, d)"
    "jint (JFloat (sd_diff d)) = Inr k" and i: "0 \<le> i" "i < n" using Cons.prems by auto
  have "py_at cs i = Inr (cs ! nat i)" "py_at hidden i = Inr (hidden ! nat i)" using i assms(2,3) by (simp_all add: py_at_Inr)
  moreover obtain m' where "challenge_loop tc gv hidden cs r_vec n idxs (p + 1, c + 1, if m < k then k else m)
      = Inr (p + 1 + int (length idxs), c + 1 + int (length idxs), m')"
    using Cons.IH [of "p + 1" "c + 1" "if m < k then k else m"] Cons.prems by auto
  ultimately show ?case using dk i by (simp add: algebra_simps)
qed

text \<open>
  C29. A proof that passes was checked at every challenge. When \<open>verify_commitment_proofs\<close> reports
  success, the challenged positions are distinct positions of the sequence, exactly the smaller of 32
  and its length, and at each of them the sketch check on the validator's own hidden state accepted.
\<close>

theorem passed_proof_checked_everywhere:
  assumes "rng_lawful (ve_rng ve)" and "verify_commitment_proofs ve commit rand = Inr r" and "pr_all_passed r"
  shows "\<exists>tokens cs hidden logits r_vec idxs gv.
      rbind (jindex commit ''tokens'') json_ints = Inr tokens
    \<and> rbind (jindex commit ''commitments'') jlist = Inr cs
    \<and> ve_forward ve tokens = Inr (hidden, logits) \<and> generate_r_vec (ve_shake ve) gv rand = Inr r_vec
    \<and> distinct idxs \<and> length idxs = min 32 (length tokens) \<and> set idxs \<subseteq> {0..<int (length tokens)}
    \<and> (\<forall>i \<in> set idxs. \<exists>h mc d. py_at hidden i = Inr h \<and> py_at cs i = Inr mc
         \<and> verify_commitment (ve_torch ve) gv h mc r_vec (int (length tokens)) i = Inr (True, d))"
proof -
  obtain tokens cs dm r_vec idxs hidden logits p c m where
      s: "rbind (jindex commit ''tokens'') json_ints = Inr tokens" "rbind (jindex commit ''commitments'') jlist = Inr cs"
      "generate_r_vec (ve_shake ve) (GRAILVerifier dm) rand = Inr r_vec"
      "indices_from_root (ve_sha ve) (ve_shake ve) (ve_rng ve) tokens rand (int (length tokens))
         (min CHALLENGE_K (int (length tokens))) = Inr idxs"
      "ve_forward ve tokens = Inr (hidden, logits)"
      "challenge_loop (ve_torch ve) (GRAILVerifier dm) hidden cs r_vec (int (length tokens)) idxs (0, 0, 0) = Inr (p, c, m)"
      "p = c"
    using assms(2,3) by (auto simp: verify_commitment_proofs_def rbind_eq_Inr Let_def)
  have ix: "distinct idxs" "set idxs \<subseteq> {0..<int (length tokens)}" "int (length idxs) = min CHALLENGE_K (int (length tokens))"
    using indices_from_root_props [OF assms(1) s(4)] by auto
  have "\<forall>i \<in> set idxs. 0 \<le> i \<and> i < int (length tokens)" using ix(2) by auto
  from challenge_loop_sound [OF s(6) this] s(7)
  have "\<forall>i \<in> set idxs. \<exists>h mc d. py_at hidden i = Inr h \<and> py_at cs i = Inr mc
         \<and> verify_commitment (ve_torch ve) (GRAILVerifier dm) h mc r_vec (int (length tokens)) i = Inr (True, d)"
    by auto
  moreover have "length idxs = min 32 (length tokens)" using ix(3) by (simp add: CHALLENGE_K_def min_def split: if_splits)
  ultimately show ?thesis using s ix(1,2) by blast
qed

lemma honest_proof:
  assumes "rng_lawful (ve_rng ve)" and "rbind (jindex commit ''tokens'') json_ints = Inr tokens"
    and "rbind (jindex commit ''commitments'') jlist = Inr cs"
    and "resolve_hidden_size (ve_config ve) (ve_emb_shape ve) = Inr dm"
    and "generate_r_vec (ve_shake ve) (GRAILVerifier dm) rand = Inr r_vec"
    and "indices_from_root (ve_sha ve) (ve_shake ve) (ve_rng ve) tokens rand (int (length tokens))
         (min 32 (int (length tokens))) = Inr idxs"
    and "ve_forward ve tokens = Inr (hidden, logits)" and "length hidden = length tokens"
    and "traverse (\<lambda>h. create_commitment (ve_torch ve) (GRAILVerifier dm) h r_vec) hidden = Inr cs"
  shows "\<exists>r. verify_commitment_proofs ve commit rand = Inr r \<and> pr_all_passed r"
proof -
  let ?n = "int (length tokens)"
  have ix: "set idxs \<subseteq> {0..<?n}" "int (length idxs) = min 32 ?n"
    using indices_from_root_props [OF assms(1,6)] by auto
  then have ir: "\<forall>i \<in> set idxs. 0 \<le> i \<and> i < ?n" by auto
  have cs: "length cs = length hidden" "\<And>i. i < length hidden \<Longrightarrow>
      create_commitment (ve_torch ve) (GRAILVerifier dm) (hidden ! i) r_vec = Inr (cs ! i)"
    using assms(9) by (auto simp: traverse_Inr_iff list_all2_conv_all_nth)
  have "\<exists>d k. verify_commitment (ve_torch ve) (GRAILVerifier dm) (hidden ! nat i) (cs ! nat i) r_vec ?n i = Inr (True, d)
       \<and> jint (JFloat (sd_diff d)) = Inr k" if "i \<in> set idxs" for i
  proof -
    have i: "0 \<le> i" "nat i < length hidden" using that ir assms(8) by auto
    from honest_commitment_verifies [OF cs(2) [OF i(2)] i(1)] show ?thesis by fastforce
  qed
  then obtain m where "challenge_loop (ve_torch ve) (GRAILVerifier dm) hidden cs r_vec ?n idxs (0, 0, 0)
      = Inr (0 + int (length idxs), 0 + int (length idxs), m)"
    using challenge_loop_complete [of idxs ?n "ve_torch ve" "GRAILVerifier dm" hidden cs r_vec 0 0 0] ir cs(1) assms(8)
    by auto
  then show ?thesis using assms(2-7) ix(2)
    by (simp add: verify_commitment_proofs_def Let_def CHALLENGE_K_def)
qed

text \<open>
  An honest proof passes. If the commitments are the ones created from the hidden states that
  the validator's forward pass also computes, one per token, the proof passes at all challenges.
\<close>

theorem honest_proof_passes:
  assumes "rng_lawful (ve_rng ve)" and "rbind (jindex commit ''tokens'') json_ints = Inr tokens"
    and "rbind (jindex commit ''commitments'') jlist = Inr cs"
    and "resolve_hidden_size (ve_config ve) (ve_emb_shape ve) = Inr dm"
    and "generate_r_vec (ve_shake ve) (GRAILVerifier dm) rand = Inr r_vec"
    and "indices_from_root (ve_sha ve) (ve_shake ve) (ve_rng ve) tokens rand (int (length tokens))
         (min 32 (int (length tokens))) = Inr idxs"
    and "ve_forward ve tokens = Inr (hidden, logits)" and "length hidden = length tokens"
    and "traverse (\<lambda>h. create_commitment (ve_torch ve) (GRAILVerifier dm) h r_vec) hidden = Inr cs"
  shows "\<exists>r. verify_commitment_proofs ve commit rand = Inr r \<and> pr_all_passed r"
  using honest_proof [OF assms] .

lemma forged_all:
  assumes "rng_lawful (ve_rng ve)" and "rbind (jindex commit ''tokens'') json_ints = Inr tokens"
    and "rbind (jindex commit ''commitments'') jlist = Inr (replicate (length tokens) (JObj [(''sketch'', JInt (2 * PRIME_Q))]))"
    and "resolve_hidden_size (ve_config ve) (ve_emb_shape ve) = Inr dm"
    and "generate_r_vec (ve_shake ve) (GRAILVerifier dm) rand = Inr r_vec"
    and "indices_from_root (ve_sha ve) (ve_shake ve) (ve_rng ve) tokens rand (int (length tokens))
         (min 32 (int (length tokens))) = Inr idxs"
    and "ve_forward ve tokens = Inr (hidden, logits)" and "length hidden = length tokens"
    and "\<forall>h \<in> set hidden. \<exists>v. state_sketch (ve_torch ve) (GRAILVerifier dm) h r_vec = Inr v"
  shows "\<exists>r. verify_commitment_proofs ve commit rand = Inr r \<and> pr_all_passed r"
proof -
  let ?n = "int (length tokens)"
  let ?cs = "replicate (length tokens) (JObj [(''sketch'', JInt (2 * PRIME_Q))])"
  have ix: "set idxs \<subseteq> {0..<?n}" "int (length idxs) = min 32 ?n"
    using indices_from_root_props [OF assms(1,6)] by auto
  then have ir: "\<forall>i \<in> set idxs. 0 \<le> i \<and> i < ?n" by auto
  have "\<exists>d k. verify_commitment (ve_torch ve) (GRAILVerifier dm) (hidden ! nat i) (?cs ! nat i) r_vec ?n i = Inr (True, d)
       \<and> jint (JFloat (sd_diff d)) = Inr k" if "i \<in> set idxs" for i
  proof -
    have i: "0 \<le> i" "nat i < length hidden" using that ir assms(8) by auto
    then obtain v where "state_sketch (ve_torch ve) (GRAILVerifier dm) (hidden ! nat i) r_vec = Inr v"
      using assms(9) nth_mem by blast
    from out_of_field_sketch_finite [OF this i(1), of "2 * PRIME_Q" ?n] i(2) assms(8) show ?thesis by fastforce
  qed
  then obtain m where "challenge_loop (ve_torch ve) (GRAILVerifier dm) hidden ?cs r_vec ?n idxs (0, 0, 0)
      = Inr (0 + int (length idxs), 0 + int (length idxs), m)"
    using challenge_loop_complete [of idxs ?n "ve_torch ve" "GRAILVerifier dm" hidden ?cs r_vec 0 0 0] ir assms(8)
    by auto
  then show ?thesis using assms(2-7) ix(2)
    by (simp add: verify_commitment_proofs_def Let_def CHALLENGE_K_def)
qed

text \<open>
  C30. The proof can be forged. Whatever the validator's forward pass gives, a commit whose sketches
  are all the integer 2q passes at every challenge: the miner needs no hidden state at all.
\<close>

theorem forged_proof_passes:
  assumes "rng_lawful (ve_rng ve)" and "rbind (jindex commit ''tokens'') json_ints = Inr tokens"
    and "rbind (jindex commit ''commitments'') jlist = Inr (replicate (length tokens) (JObj [(''sketch'', JInt (2 * PRIME_Q))]))"
    and "resolve_hidden_size (ve_config ve) (ve_emb_shape ve) = Inr dm"
    and "generate_r_vec (ve_shake ve) (GRAILVerifier dm) rand = Inr r_vec"
    and "indices_from_root (ve_sha ve) (ve_shake ve) (ve_rng ve) tokens rand (int (length tokens))
         (min 32 (int (length tokens))) = Inr idxs"
    and "ve_forward ve tokens = Inr (hidden, logits)" and "length hidden = length tokens"
    and "\<forall>h \<in> set hidden. \<exists>v. state_sketch (ve_torch ve) (GRAILVerifier dm) h r_vec = Inr v"
  shows "\<exists>r. verify_commitment_proofs ve commit rand = Inr r \<and> pr_all_passed r"
  using forged_all [OF assms] .

section \<open>A concrete environment\<close>

definition toy_fns :: tensor_fns where
  "toy_fns = \<lparr> tf_softmax = (\<lambda>xs. xs), tf_log_softmax = (\<lambda>xs. xs), tf_np_mean = (\<lambda>xs. NaN), tf_np_median = (\<lambda>xs. NaN),
     tf_np_quantile = (\<lambda>xs q. NaN), tf_sorted = (\<lambda>xs. case those (map finite_value xs) of None \<Rightarrow> xs | Some ys \<Rightarrow> map Fin (sort ys)), tf_float_of_str = (\<lambda>s. Inl ValueError) \<rparr>"

definition toy_ve :: verifier_env where
  "toy_ve = \<lparr> ve_sha = (\<lambda>m. [1]), ve_shake = (\<lambda>m n. replicate n 1), ve_rng = plain_rng, ve_torch = plain_torch,
     ve_fns = toy_fns, ve_forward = (\<lambda>ts. Inr (replicate (length ts) (replicate 16 PInf), [])),
     ve_config = JObj [(''hidden_size'', JInt 16)], ve_emb_shape = None \<rparr>"

definition toy_commit :: "json list \<Rightarrow> json" where
  "toy_commit cs = JObj [(''tokens'', JList [JInt 5, JInt 6]), (''commitments'', JList cs)]"

lemma toy_tokens: "rbind (jindex (toy_commit cs) ''tokens'') json_ints = Inr [5, 6]"
  "rbind (jindex (toy_commit cs) ''commitments'') jlist = Inr cs"
  by (simp_all add: toy_commit_def jindex_def json_ints_def)

lemma toy_dim: "resolve_hidden_size (ve_config toy_ve) (ve_emb_shape toy_ve) = Inr 16"
  by (simp add: resolve_hidden_size_def toy_ve_def positive_int_def)

lemma toy_r_vec: "generate_r_vec (ve_shake toy_ve) (GRAILVerifier 16) ''ab'' = Inr (replicate 16 (-125))"
proof -
  have "generate_r_vec (\<lambda>m n. replicate n 1) (GRAILVerifier 16) ''ab'' = Inr (replicate 16 (-125))" by code_simp
  then show ?thesis by (simp add: toy_ve_def)
qed

lemma toy_indices:
  "indices_from_root (ve_sha toy_ve) (ve_shake toy_ve) (ve_rng toy_ve) [5, 6] ''ab'' (int (length [5::int, 6]))
     (min 32 (int (length [5::int, 6]))) = Inr [0, 1]"
proof -
  have "indices_from_root (\<lambda>m. [1]) (\<lambda>m n. replicate n 1) plain_rng [5, 6] ''ab'' 2 2 = Inr [0, 1]" by code_simp
  then show ?thesis by (simp add: toy_ve_def)
qed

lemma toy_forward: "ve_forward toy_ve [5, 6] = Inr (replicate 2 (replicate 16 PInf), [])"
  by (simp add: toy_ve_def numeral_2_eq_2)

lemma toy_sketch: "\<exists>v. state_sketch (ve_torch toy_ve) (GRAILVerifier 16) (replicate 16 PInf) (replicate 16 (-125)) = Inr v"
  using state_sketch_eq [OF plain_torch_lawful, of "replicate 16 (-125)" 16 "replicate 16 PInf"]
  by (simp add: toy_ve_def) (simp add: plain_torch_def)

lemma toy_rng: "rng_lawful (ve_rng toy_ve)"
  by (simp add: toy_ve_def plain_rng_lawful)

theorem forged_proof_passes_witness:
  "\<exists>r. verify_commitment_proofs toy_ve (toy_commit (replicate 2 (JObj [(''sketch'', JInt (2 * PRIME_Q))]))) ''ab'' = Inr r
     \<and> pr_all_passed r"
  by (rule forged_proof_passes [OF toy_rng toy_tokens(1) _ toy_dim toy_r_vec toy_indices toy_forward])
    (use toy_sketch in \<open>simp_all add: toy_tokens numeral_2_eq_2\<close>)

theorem honest_proof_passes_witness:
  "\<exists>cs r. verify_commitment_proofs toy_ve (toy_commit cs) ''ab'' = Inr r \<and> pr_all_passed r \<and> length cs = 2"
proof -
  obtain v where v: "state_sketch (ve_torch toy_ve) (GRAILVerifier 16) (replicate 16 PInf) (replicate 16 (-125)) = Inr v"
    using toy_sketch by blast
  let ?cs = "replicate 2 (JObj [(''sketch'', JInt v)])"
  have "traverse (\<lambda>h. create_commitment (ve_torch toy_ve) (GRAILVerifier 16) h (replicate 16 (-125))) (replicate 2 (replicate 16 PInf)) = Inr ?cs"
    by (simp add: create_commitment_def v numeral_2_eq_2)
  from honest_proof_passes [OF toy_rng toy_tokens toy_dim toy_r_vec toy_indices toy_forward _ this]
  show ?thesis by fastforce
qed

theorem passed_proof_checked_everywhere_witness:
  "\<exists>cs r idxs :: int list. verify_commitment_proofs toy_ve (toy_commit cs) ''ab'' = Inr r \<and> pr_all_passed r
     \<and> distinct idxs \<and> length idxs = 2"
proof -
  let ?c = "toy_commit (replicate 2 (JObj [(''sketch'', JInt (2 * PRIME_Q))]))"
  have "\<exists>r. verify_commitment_proofs toy_ve ?c ''ab'' = Inr r \<and> pr_all_passed r"
    by (rule forged_all [OF toy_rng toy_tokens(1) _ toy_dim toy_r_vec toy_indices toy_forward])
      (use toy_sketch in \<open>simp_all add: toy_tokens numeral_2_eq_2\<close>)
  then obtain r where r: "verify_commitment_proofs toy_ve ?c ''ab'' = Inr r" "pr_all_passed r" by blast
  from passed_proof_checked_everywhere [OF toy_rng r] obtain idxs :: "int list" and tokens where
    "distinct idxs" "length idxs = min 32 (length tokens)" "rbind (jindex ?c ''tokens'') json_ints = Inr tokens"
    by blast
  then have "length idxs = 2" by (auto simp: toy_tokens)
  with \<open>distinct idxs\<close> r show ?thesis by blast
qed

section \<open>The reward zone\<close>

lemma binary_sum:
  assumes "\<forall>x \<in> set xs. x = 0 \<or> x = (1::real)"
  shows "\<exists>k. sum_list xs = of_nat k \<and> k \<le> length xs \<and> (k = 0 \<longleftrightarrow> 1 \<notin> set xs) \<and> (k = length xs \<longleftrightarrow> 0 \<notin> set xs)"
  using assms
proof (induction xs)
  case Nil
  then show ?case by (intro exI [of _ 0]) simp
next
  case (Cons x xs)
  then obtain k where k: "sum_list xs = of_nat k" "k \<le> length xs" "k = 0 \<longleftrightarrow> 1 \<notin> set xs" "k = length xs \<longleftrightarrow> 0 \<notin> set xs"
    by auto
  consider "x = 0" | "x = 1" using Cons.prems by auto
  then show ?case
  proof cases
    case 1
    with k show ?thesis by (intro exI [of _ k]) auto
  next
    case 2
    with k show ?thesis by (intro exI [of _ "Suc k"]) auto
  qed
qed

lemma binary_squares:
  assumes "\<forall>x \<in> set xs. x = 0 \<or> x = (1::real)"
  shows "sum_list (map (\<lambda>r. (r - m) ^ 2) xs) = (1 - 2 * m) * sum_list xs + of_nat (length xs) * m ^ 2"
  using assms
proof (induction xs)
  case (Cons x xs)
  then have "x = 0 \<or> x = 1" by simp
  with Cons show ?case by (auto simp: power2_eq_square algebra_simps)
qed simp

lemma those_finite: "those (map finite_value (map Fin xs)) = Some xs"
  by (induction xs) auto

lemma binary_zone:
  assumes "length xs = 8" and "\<forall>x \<in> set xs. x = 0 \<or> x = 1"
  shows "is_in_zone (rewards_std (map Fin xs)) bootstrap \<longleftrightarrow> 0 \<in> set xs \<and> 1 \<in> set xs"
proof -
  obtain k where k: "sum_list xs = of_nat k" "k \<le> 8" "k = 0 \<longleftrightarrow> 1 \<notin> set xs" "k = 8 \<longleftrightarrow> 0 \<notin> set xs"
    using binary_sum [OF assms(2)] assms(1) by auto
  have "variance xs = of_nat k * (8 - of_nat k) / 64"
    using binary_squares [OF assms(2), of "of_nat k / 8"] k(1) assms(1)
    by (simp add: variance_def mean_def power2_eq_square field_simps)
  then have std: "rewards_std (map Fin xs) = Fin (sqrt (of_nat k * (8 - of_nat k) / 64))"
    using assms(1) those_finite [of xs] by (simp add: rewards_std_def)
  show ?thesis
  proof (cases "k = 0 \<or> k = 8")
    case True
    then show ?thesis using k std by (auto simp: is_in_zone_def)
  next
    case False
    then have "1 \<le> k" "k \<le> 7" using k(2) by auto
    then have "(1::real) \<le> of_nat k" "real k \<le> 7" by simp_all
    then have "(real k - 1) * (7 - real k) \<ge> 0" by simp
    then have "7 / 64 \<le> of_nat k * (8 - real k) / 64" by (simp add: algebra_simps)
    moreover have "(33 / 100) ^ 2 \<le> (7 / 64 :: real)" by (simp add: power2_eq_square)
    ultimately have "33 / 100 \<le> sqrt (of_nat k * (8 - real k) / 64)" by (intro real_le_rsqrt) linarith
    then have "is_in_zone (rewards_std (map Fin xs)) bootstrap"
      by (simp add: std is_in_zone_def SIGMA_MIN_def BOOTSTRAP_SIGMA_MIN_def)
    then show ?thesis using False k(3,4) by simp
  qed
qed

text \<open>
  The zone filter on a group of eight right-or-wrong rewards keeps exactly the mixed groups.
  A group with at least one success and one failure has a standard deviation of at least
  sqrt(7)/8, which is above the threshold 0.33 in both modes; a unanimous group has none.
\<close>

theorem binary_group_in_zone:
  assumes "length xs = 8" and "\<forall>x \<in> set xs. x = 0 \<or> x = 1"
  shows "is_in_zone (rewards_std (map Fin xs)) bootstrap \<longleftrightarrow> 0 \<in> set xs \<and> 1 \<in> set xs"
  using binary_zone [OF assms] .

theorem binary_group_in_zone_witness:
  "is_in_zone (rewards_std (map Fin [0, 0, 0, 1, 0, 0, 0, 0])) False"
  using binary_group_in_zone [of "[0, 0, 0, 1, 0, 0, 0, 0]" False] by simp

section \<open>The log-probability median\<close>

lemma logprob_devs_Some:
  "logprob_devs fns tokens claimed off logits idxs = Inr (Some ds) \<Longrightarrow>
     list_all2 (\<lambda>i d. logprob_dev fns tokens claimed off logits i = Inr d) idxs ds"
proof (induction idxs arbitrary: ds)
  case (Cons i idxs)
  then show ?case by (auto simp: rbind_eq_Inr split: if_splits)
qed simp

lemma sorted_median_half:
  fixes s :: "real list"
  assumes "sorted s" and "length s = 2 * h" and "0 < h" and "(s ! (h - 1) + s ! h) / 2 \<le> e"
  shows "h \<le> length (filter (\<lambda>x. x \<le> e) s)"
proof -
  have le: "s ! (h - 1) \<le> e" using sorted_nth_mono [OF assms(1), of "h - 1" h] assms(2-4) by simp
  have "\<forall>x \<in> set (take h s). x \<le> e"
  proof
    fix x assume "x \<in> set (take h s)"
    then obtain i where i: "i < h" "x = s ! i" using assms(2) by (auto simp: in_set_conv_nth)
    have "s ! i \<le> s ! (h - 1)" using assms(1,2) i by (intro sorted_nth_mono) auto
    with le i show "x \<le> e" by simp
  qed
  then have "filter (\<lambda>x. x \<le> e) (take h s) = take h s" by simp
  then have "length (filter (\<lambda>x. x \<le> e) (take h s)) = h" using assms(2) by simp
  moreover have "length (filter (\<lambda>x. x \<le> e) s) = length (filter (\<lambda>x. x \<le> e) (take h s)) + length (filter (\<lambda>x. x \<le> e) (drop h s))"
    by (metis append_take_drop_id filter_append length_append)
  ultimately show ?thesis by simp
qed

lemma median_even:
  assumes "\<And>xs. tf_sorted fns (map Fin xs) = map Fin (sort xs)" and "length xs = 32"
  shows "median fns (map Fin xs) = Inr (Fin ((sort xs ! 15 + sort xs ! 16) / 2))"
proof -
  have "sort xs \<noteq> []" using assms(2) by (metis length_sort list.size(3) zero_neq_numeral)
  then show ?thesis using assms(2) by (simp add: median_def Let_def assms(1) pf_scale_def pf_add_def)
qed

text \<open>
  C31. What an accepted log-probability claim guarantees. If the claim is accepted and the deviations are finite
  numbers, there were 32 distinct challenged positions, all in the completion, and at 16 of
  them at least the deviation exp|model - miner| - 1 is within 0.10.
\<close>

theorem accepted_logprobs_mostly_close:
  assumes "verify_logprobs_claim ve tokens pl cl claimed logits rand = Inr (True, m)"
    and "rng_lawful (ve_rng ve)" and "\<And>xs. tf_sorted (ve_fns ve) (map Fin xs) = map Fin (sort xs)"
    and "\<And>off i d. logprob_dev (ve_fns ve) tokens claimed off logits i = Inr d \<Longrightarrow> \<exists>x. d = Fin x"
  shows "\<exists>idxs off. distinct idxs \<and> length idxs = 32 \<and> set idxs \<subseteq> {pl..<pl + cl} \<and>
    16 \<le> length (filter (\<lambda>i. \<exists>x. logprob_dev (ve_fns ve) tokens claimed off logits i = Inr (Fin x) \<and> x \<le> 1 / 10) idxs)"
proof -
  obtain off toks idxs ds where
      ix: "indices_from_root_in_range (ve_sha ve) (ve_shake ve) (ve_rng ve) toks rand pl (pl + cl) CHALLENGE_K = Inr idxs"
    and len: "length idxs = 32" and ds: "logprob_devs (ve_fns ve) tokens claimed off logits idxs = Inr (Some ds)"
    and med: "median (ve_fns ve) ds = Inr m" and le: "pf_le m (Fin LOGPROB_IS_EPS)"
    using assms(1)
    by (auto simp: verify_logprobs_claim_def Let_def rbind_eq_Inr CHALLENGE_K_def split: if_splits option.splits)
  have pos: "distinct idxs" "set idxs \<subseteq> {pl..<pl + cl}"
    using indices_in_range_props [OF assms(2) ix] by auto
  have rel: "list_all2 (\<lambda>i d. logprob_dev (ve_fns ve) tokens claimed off logits i = Inr d) idxs ds"
    by (rule logprob_devs_Some [OF ds])
  then have "\<forall>d \<in> set ds. \<exists>x. d = Fin x" using assms(4) by (fastforce simp: list_all2_conv_all_nth in_set_conv_nth)
  then obtain xs where xs: "ds = map Fin xs" by (metis ex_map_conv)
  have lx: "length xs = 32" using rel len xs by (auto dest: list_all2_lengthD)
  have "m = Fin ((sort xs ! 15 + sort xs ! 16) / 2)"
    using median_even [of "ve_fns ve", OF assms(3) lx] med xs by simp
  then have "(sort xs ! 15 + sort xs ! 16) / 2 \<le> 1 / 10" using le by (simp add: LOGPROB_IS_EPS_def)
  then have "16 \<le> length (filter (\<lambda>x. x \<le> 1 / 10) (sort xs))"
    using sorted_median_half [of "sort xs" 16 "1 / 10"] lx by simp
  then have "16 \<le> length (filter (\<lambda>x. x \<le> 1 / 10) xs)" by (simp add: filter_sort)
  moreover have "length (filter (\<lambda>x. x \<le> 1 / 10) xs) =
      length (filter (\<lambda>i. \<exists>x. logprob_dev (ve_fns ve) tokens claimed off logits i = Inr (Fin x) \<and> x \<le> 1 / 10) idxs)"
    using rel unfolding xs by (simp add: list_all2_map2) (induction rule: list_all2_induct; simp)
  ultimately show ?thesis using pos len by auto
qed

lemma toy_dev:
  "logprob_dev toy_fns (replicate 33 (JInt 0)) (replicate 33 (JFloat (Fin 0))) off (replicate 33 [Fin 0]) i = Inr d \<Longrightarrow> d = Fin 0"
  by (auto simp: logprob_dev_def toy_fns_def rbind_eq_Inr py_at_def Let_def jfloat_def math_exp_def split: if_splits)

lemma toy_dev_in:
  "1 \<le> i \<Longrightarrow> i \<le> 32 \<Longrightarrow>
   logprob_dev toy_fns (replicate 33 (JInt 0)) (replicate 33 (JFloat (Fin 0))) 0 (replicate 33 [Fin 0]) i = Inr (Fin 0)"
  by (auto simp: logprob_dev_def toy_fns_def py_at_def Let_def jfloat_def math_exp_def DBL_MAX_def)

lemma toy_devs:
  "\<forall>i \<in> set idxs. 1 \<le> i \<and> i \<le> 32 \<Longrightarrow>
   logprob_devs toy_fns (replicate 33 (JInt 0)) (replicate 33 (JFloat (Fin 0))) 0 (replicate 33 [Fin 0]) idxs
     = Inr (Some (map (\<lambda>i. Fin 0) idxs))"
  by (induction idxs) (auto simp: toy_dev_in)

lemma toy_sorted: "tf_sorted toy_fns (map Fin xs) = map Fin (sort xs)"
  by (simp add: toy_fns_def those_finite del: map_map)

theorem accepted_logprobs_mostly_close_witness:
  "\<exists>m idxs :: int list. verify_logprobs_claim toy_ve (replicate 33 (JInt 0)) 1 32 (replicate 33 (JFloat (Fin 0)))
     (replicate 33 [Fin 0]) ''ab'' = Inr (True, m) \<and> distinct idxs \<and> length idxs = 32 \<and> set idxs \<subseteq> {1..<33}"
proof -
  let ?v = "verify_logprobs_claim toy_ve (replicate 33 (JInt 0)) 1 32 (replicate 33 (JFloat (Fin 0))) (replicate 33 [Fin 0]) ''ab''"
  have hx: "clean_hex ''ab'' = Inr ''ab''" "fromhex ''ab'' = Inr [171]" "map ((+) 1) [0..31] = [1..32]" by code_simp+
  have "prf_shake (\<lambda>m n. replicate n 1) RNG_LABEL_open [[1], [171]] 32 = Inr (replicate 32 1)"
    by (subst prf_const) (simp_all add: fits_def label_open)
  then have "indices_from_root_in_range (\<lambda>m. [1]) (\<lambda>m n. replicate n 1) plain_rng (replicate 33 0) ''ab'' 1 33 32 = Inr [1..32]"
    by (simp add: indices_from_root_in_range_def indices_from_root_def hx hash_tokens_def plain_rng_def
        del: fromhex.simps upto_rec_numeral)
  then have ix: "indices_from_root_in_range (ve_sha toy_ve) (ve_shake toy_ve) (ve_rng toy_ve) (replicate 33 0) ''ab'' 1 33 32 = Inr [1..32]"
    by (simp add: toy_ve_def)
  have fns: "ve_fns toy_ve = toy_fns" by (simp add: toy_ve_def)
  have "map (\<lambda>i. Fin 0) [1..32] = map Fin (replicate 32 0)" by (simp add: map_replicate_const)
  then have md: "median toy_fns (map (\<lambda>i. Fin 0) [1..32]) = Inr (Fin 0)"
    using median_even [of toy_fns "replicate 32 0", OF toy_sorted] by (simp add: sorted_sort_id sorted_replicate)
  have tr: "traverse (\<lambda>t. case as_int t of Some i \<Rightarrow> Inr i | None \<Rightarrow> Inl TypeError) (replicate 33 (JInt 0)) = Inr (replicate 33 0)"
    by (subst traverse_total [where g = "\<lambda>_. 0"]) auto
  have v: "?v = Inr (True, Fin 0)"
    using toy_devs [of "[1..32]"]
    by (simp add: verify_logprobs_claim_def CHALLENGE_K_def tr ix fns md LOGPROB_IS_EPS_def del: upto_rec_numeral)
  have fin: "\<exists>x. d = Fin x" if "logprob_dev (ve_fns toy_ve) (replicate 33 (JInt 0)) (replicate 33 (JFloat (Fin 0))) off
      (replicate 33 [Fin 0]) i = Inr d" for off i d
    using toy_dev that unfolding fns by blast
  have srt: "tf_sorted (ve_fns toy_ve) (map Fin xs) = map Fin (sort xs)" for xs unfolding fns by (rule toy_sorted)
  from accepted_logprobs_mostly_close [OF v toy_rng srt, OF fin] obtain idxs :: "int list" where
    "distinct idxs" "length idxs = 32" "set idxs \<subseteq> {1..<1 + 32}" by force
  moreover have "{1..<1 + 32} = {1..<33 :: int}" by simp
  ultimately show ?thesis using v by metis
qed

end
