(* ===== verification/Batcher.thy ===== *)
theory Batcher
  imports Verifier BatchSelection
begin

text \<open>
  \<open>reliquary/validator/batcher.py\<close>: the batcher of one window. \<open>batcher_env\<close> holds what the
  constructor receives (environment, model, callbacks), \<open>batcher\<close> the mutable attributes.
  \<open>accept_locked\<close> is the body of \<open>accept_submission\<close> in source order; the lock makes it
  atomic, so a call is one step. The cooldown map is shared by all batchers of the validator
  and is passed along. A call that raises leaves the batcher as it was (the only
  state written before a possible exception is the claim that precedes \<open>bytes.fromhex\<close> of the
  Merkle root, which the schema has already restricted to 64 hexadecimal digits).
\<close>

section \<open>State\<close>

record valid_submission = submission_like +
  vs_sigma :: pyfloat
  vs_rollouts :: "rollout_submission list"
  vs_completion_texts :: "string list"
  vs_sketch_diff_max :: int
  vs_lp_dev_max :: "pyfloat option"
  vs_dist_q10_min :: "pyfloat option"
  vs_claimed_checkpoint_hash :: string

record 'p batcher_env =
  be_env_len :: int
  be_get_problem :: "int \<Rightarrow> 'p res"
  be_compute_reward :: "'p \<Rightarrow> string \<Rightarrow> pyfloat res"
  be_completion_text :: "rollout_submission \<Rightarrow> string res"
  be_canonical_prompt_tokens :: "(int \<Rightarrow> int list res) option"
  be_verify_commitment :: "json \<Rightarrow> string \<Rightarrow> proof_result res"
  be_verify_signature :: "json \<Rightarrow> string \<Rightarrow> bool res"
  be_eos_token_id :: "int option"
  be_bootstrap :: bool
  be_pydantic :: pydantic
  be_cap :: int
  be_verifier :: verifier_env

record batcher =
  bt_window_start :: int
  bt_valid :: "valid_submission list"
  bt_claimed :: "int list"
  bt_randomness :: string
  bt_reject_counts :: "(string, int) dict"
  bt_seal_flag :: bool
  bt_seal_event :: "bool option"
  bt_checkpoint_hash :: string
  bt_window_opened_at :: real

definition GrpoWindowBatcher :: "int \<Rightarrow> real \<Rightarrow> batcher" where
  "GrpoWindowBatcher window_start now =
     \<lparr> bt_window_start = window_start, bt_valid = [], bt_claimed = [], bt_randomness = [],
       bt_reject_counts = [], bt_seal_flag = False, bt_seal_event = None, bt_checkpoint_hash = [],
       bt_window_opened_at = now \<rparr>"

text \<open>The event of the event loop is made on first access and set when the flag is.\<close>

definition seal_event :: "batcher \<Rightarrow> batcher \<times> bool" where
  "seal_event b = (case bt_seal_event b of
       Some e \<Rightarrow> (b, e)
     | None \<Rightarrow> (b \<lparr> bt_seal_event := Some (bt_seal_flag b) \<rparr>, bt_seal_flag b))"

definition reject :: "reject_reason \<Rightarrow> batcher \<Rightarrow> batcher \<times> batch_submission_response" where
  "reject reason b =
     (b \<lparr> bt_reject_counts := dset (reason_value reason) (dget (bt_reject_counts b) (reason_value reason) 0 + 1)
                                (bt_reject_counts b) \<rparr>,
      \<lparr> br_accepted = False, br_reason = reason \<rparr>)"

section \<open>The checks on the rewards\<close>

text \<open>A check gives either the reason to reject or what later checks use.\<close>

fun reward_loop :: "'p batcher_env \<Rightarrow> 'p \<Rightarrow> rollout_submission list \<Rightarrow> string list option res" where
  "reward_loop be problem [] = Inr (Some [])"
| "reward_loop be problem (r # rs) =
     rbind (be_completion_text be r) (\<lambda>txt.
       if \<not> verify_reward_claim (be_compute_reward be) problem txt (rs_reward r) then Inr None
       else rbind (reward_loop be problem rs) (\<lambda>txts. Inr (map_option (\<lambda>ts. txt # ts) txts)))"

section \<open>The checks on one rollout\<close>

record telemetry =
  tl_sketch_diff_max :: int
  tl_lp_dev_max :: "pyfloat option"
  tl_dist_q10_min :: "pyfloat option"

definition prompt_matches :: "int list option \<Rightarrow> json \<Rightarrow> bool res" where
  "prompt_matches canonical commit =
     (case canonical of None \<Rightarrow> Inr True
      | Some ctoks \<Rightarrow>
          rbind (jget_or commit ''rollout'' (JObj [])) (\<lambda>meta.
          rbind (rbind (jget meta ''prompt_length'' (JInt 0)) jint) (\<lambda>plen.
          rbind (rbind (jget commit ''tokens'' (JList [])) jlist) (\<lambda>toks.
          Inr (list_all2 json_eq_int (py_slice_to toks plen) ctoks)))))"

datatype check_result = Reject reject_reason | Pass telemetry

definition note_sketch :: "int \<Rightarrow> telemetry \<Rightarrow> telemetry" where
  "note_sketch d tm = (if tl_sketch_diff_max tm < d then tm \<lparr> tl_sketch_diff_max := d \<rparr> else tm)"

definition note_lp_dev :: "pyfloat \<Rightarrow> telemetry \<Rightarrow> telemetry" where
  "note_lp_dev d tm = (if d \<noteq> PInf \<and> (case tl_lp_dev_max tm of None \<Rightarrow> True | Some m \<Rightarrow> pf_lt m d)
     then tm \<lparr> tl_lp_dev_max := Some d \<rparr> else tm)"

definition note_q10 :: "dist_metrics option \<Rightarrow> telemetry \<Rightarrow> telemetry" where
  "note_q10 metrics tm = (case metrics of None \<Rightarrow> tm
     | Some m \<Rightarrow> if (case tl_dist_q10_min tm of None \<Rightarrow> True | Some q \<Rightarrow> pf_lt (dm_q10 m) q)
         then tm \<lparr> tl_dist_q10_min := Some (dm_q10 m) \<rparr> else tm)"

text \<open>The behavioural checks, on the logits of the proof.\<close>

definition check_behaviour :: "'p batcher_env \<Rightarrow> string \<Rightarrow> json \<Rightarrow> json list \<Rightarrow> pyfloat list list \<Rightarrow> telemetry
    \<Rightarrow> check_result res" where
  "check_behaviour be randomness commit tokens logits tm =
     rbind (jget_or commit ''rollout'' (JObj [])) (\<lambda>meta.
     rbind (rbind (jget meta ''prompt_length'' (JInt 0)) jint) (\<lambda>prompt_len.
     rbind (rbind (jget meta ''completion_length'' (JInt 0)) jint) (\<lambda>completion_len.
     rbind (rbind (jget_or meta ''token_logprobs'' (JList [])) jlist) (\<lambda>claimed_lp.
     rbind (verify_logprobs_claim (be_verifier be) tokens prompt_len completion_len claimed_lp logits randomness)
       (\<lambda>(lp_ok, lp_dev).
     (let tm1 = note_lp_dev lp_dev tm in
      if \<not> lp_ok then Inr (Reject LOGPROB_MISMATCH)
      else rbind (evaluate_token_distribution (ve_fns (be_verifier be)) tokens prompt_len completion_len logits T_PROTO)
             (\<lambda>(dist_ok, metrics).
               if dist_ok = Some False then Inr (Reject DISTRIBUTION_SUSPICIOUS)
               else Inr (Pass (note_q10 metrics tm1)))))))))"

definition numel :: "pyfloat list list \<Rightarrow> nat" where
  "numel rows = sum_list (map length rows)"

text \<open>All checks of one rollout: schema, tokens, prompt, signature, proof, termination, behaviour.\<close>

definition check_rollout :: "'p batcher_env \<Rightarrow> string \<Rightarrow> string \<Rightarrow> int list option \<Rightarrow> rollout_submission \<Rightarrow> telemetry
    \<Rightarrow> check_result res" where
  "check_rollout be randomness hk canonical r tm =
     (let commit = JObj (rs_commit r) in
      if CommitModel (be_pydantic be) (be_cap be) commit = None then Inr (Reject BAD_SCHEMA)
      else rbind (rbind (jindex commit ''tokens'') jlist) (\<lambda>tokens.
        if \<not> verify_tokens tokens (ve_config (be_verifier be)) then Inr (Reject BAD_TOKENS)
        else rbind (prompt_matches canonical commit) (\<lambda>same_prompt.
          if \<not> same_prompt then Inr (Reject PROMPT_MISMATCH)
          else rbind (be_verify_signature be commit hk) (\<lambda>sig_ok.
            if \<not> sig_ok then Inr (Reject BAD_SIGNATURE)
            else rbind (be_verify_commitment be commit randomness) (\<lambda>proof.
              (let tm1 = note_sketch (pr_sketch_diff_max proof) tm in
               if \<not> pr_all_passed proof then Inr (Reject GRAIL_FAIL)
               else if numel (pr_logits proof) = 0 then Inr (Pass tm1)
               else rbind (verify_termination (ve_fns (be_verifier be)) commit (be_eos_token_id be) (pr_logits proof))
                 (\<lambda>terminated.
                   if \<not> terminated then Inr (Reject BAD_TERMINATION)
                   else check_behaviour be randomness commit tokens (pr_logits proof) tm1)))))))"

fun check_rollouts :: "'p batcher_env \<Rightarrow> string \<Rightarrow> string \<Rightarrow> int list option \<Rightarrow> rollout_submission list \<Rightarrow> telemetry
    \<Rightarrow> check_result res" where
  "check_rollouts be randomness hk canonical [] tm = Inr (Pass tm)"
| "check_rollouts be randomness hk canonical (r # rs) tm =
     rbind (check_rollout be randomness hk canonical r tm) (\<lambda>c.
       case c of Reject reason \<Rightarrow> Inr (Reject reason)
       | Pass tm1 \<Rightarrow> check_rollouts be randomness hk canonical rs tm1)"

section \<open>Accepting a submission\<close>

definition distinct_eligible :: "cooldown_map \<Rightarrow> int \<Rightarrow> valid_submission list \<Rightarrow> nat" where
  "distinct_eligible cm w subs = card (prompt_idx ` set (filter (\<lambda>s. \<not> is_in_cooldown cm (prompt_idx s) w) subs))"

definition fire_seal :: "cooldown_map \<Rightarrow> batcher \<Rightarrow> batcher" where
  "fire_seal cm b =
     (if B_BATCH \<le> int (distinct_eligible cm (bt_window_start b) (bt_valid b)) \<and> \<not> bt_seal_flag b
      then b \<lparr> bt_seal_flag := True, bt_seal_event := map_option (\<lambda>_. True) (bt_seal_event b) \<rparr> else b)"

definition new_submission :: "batch_submission_request \<Rightarrow> bytes \<Rightarrow> pyfloat \<Rightarrow> string list \<Rightarrow> real \<Rightarrow> telemetry \<Rightarrow> valid_submission" where
  "new_submission req mroot sigma txts now tm =
     \<lparr> hotkey = bs_miner_hotkey req, prompt_idx = bs_prompt_idx req, merkle_root = mroot, arrived_at = now,
       vs_sigma = sigma, vs_rollouts = bs_rollouts req, vs_completion_texts = txts,
       vs_sketch_diff_max = tl_sketch_diff_max tm, vs_lp_dev_max = tl_lp_dev_max tm,
       vs_dist_q10_min = tl_dist_q10_min tm, vs_claimed_checkpoint_hash = bs_checkpoint_hash req \<rparr>"

definition admit :: "cooldown_map \<Rightarrow> batcher \<Rightarrow> valid_submission \<Rightarrow> batcher \<times> batch_submission_response" where
  "admit cm b s =
     (fire_seal cm (b \<lparr> bt_claimed := prompt_idx s # bt_claimed b, bt_valid := bt_valid b @ [s] \<rparr>),
      \<lparr> br_accepted = True, br_reason = ACCEPTED \<rparr>)"

text \<open>The checks that need no model: window, checkpoint, prompt index, cooldown, claim.\<close>

definition cheap_reject :: "'p batcher_env \<Rightarrow> cooldown_map \<Rightarrow> batcher \<Rightarrow> batch_submission_request \<Rightarrow> reject_reason option" where
  "cheap_reject be cm b req =
     (if bs_window_start req \<noteq> bt_window_start b then Some WINDOW_MISMATCH
      else if bt_checkpoint_hash b \<noteq> [] \<and> bs_checkpoint_hash req \<noteq> bt_checkpoint_hash b then Some WRONG_CHECKPOINT
      else if be_env_len be \<le> bs_prompt_idx req then Some BAD_PROMPT_IDX
      else if is_in_cooldown cm (bs_prompt_idx req) (bt_window_start b) then Some PROMPT_IN_COOLDOWN
      else if bs_prompt_idx req \<in> set (bt_claimed b) then Some SUPERSEDED
      else None)"

definition accept_locked :: "'p batcher_env \<Rightarrow> cooldown_map \<Rightarrow> real \<Rightarrow> batcher \<Rightarrow> batch_submission_request
    \<Rightarrow> (batcher \<times> batch_submission_response) res" where
  "accept_locked be cm now b req =
     (case cheap_reject be cm b req of Some reason \<Rightarrow> Inr (reject reason b)
      | None \<Rightarrow>
          rbind (be_get_problem be (bs_prompt_idx req)) (\<lambda>problem.
          rbind (reward_loop be problem (bs_rollouts req)) (\<lambda>texts.
          case texts of None \<Rightarrow> Inr (reject REWARD_MISMATCH b)
          | Some txts \<Rightarrow>
              (let sigma = rewards_std (map rs_reward (bs_rollouts req)) in
               if \<not> is_in_zone sigma (be_bootstrap be) then Inr (reject OUT_OF_ZONE b)
               else rbind (case be_canonical_prompt_tokens be of None \<Rightarrow> Inr None
                           | Some f \<Rightarrow> rbind (f (bs_prompt_idx req)) (\<lambda>ts. Inr (Some ts))) (\<lambda>canonical.
                    rbind (check_rollouts be (bt_randomness b) (bs_miner_hotkey req) canonical (bs_rollouts req)
                             \<lparr> tl_sketch_diff_max = 0, tl_lp_dev_max = None, tl_dist_q10_min = None \<rparr>) (\<lambda>c.
                    case c of Reject reason \<Rightarrow> Inr (reject reason b)
                    | Pass tm \<Rightarrow>
                        rbind (fromhex (bs_merkle_root req)) (\<lambda>mroot.
                        Inr (admit cm b (new_submission req mroot sigma txts now tm)))))))))"

definition accept_submission :: "'p batcher_env \<Rightarrow> cooldown_map \<Rightarrow> real \<Rightarrow> batcher \<Rightarrow> batch_submission_request
    \<Rightarrow> (batcher \<times> batch_submission_response) res" where
  "accept_submission be cm now b req = accept_locked be cm now b req"

section \<open>Sealing and state\<close>

fun record_all :: "cooldown_map \<Rightarrow> int \<Rightarrow> valid_submission list \<Rightarrow> cooldown_map res" where
  "record_all cm w [] = Inr cm"
| "record_all cm w (s # ss) = rbind (record_batched cm (prompt_idx s) w) (\<lambda>cm1. record_all cm1 w ss)"

definition seal_batch :: "(bytes \<Rightarrow> bytes) \<Rightarrow> cooldown_map \<Rightarrow> batcher \<Rightarrow> (cooldown_map \<times> valid_submission list) res" where
  "seal_batch sha cm b =
     rbind (select_batch sha (bt_valid b) B_BATCH (bt_window_start b) cm) (\<lambda>batch.
     rbind (record_all cm (bt_window_start b) batch) (\<lambda>cm1. Inr (cm1, batch)))"

definition batcher_get_state :: "cooldown_map \<Rightarrow> batcher \<Rightarrow> grpo_batch_state" where
  "batcher_get_state cm b =
     \<lparr> gs_state = OPEN, gs_window_n = bt_window_start b, gs_anchor_block = bt_window_start b,
       gs_cooldown_prompts = sorted_list_of_set (current_cooldown_set cm (bt_window_start b)),
       gs_valid_submissions = int (length (bt_valid b)), gs_checkpoint_n = 0, gs_checkpoint_repo_id = None,
       gs_checkpoint_revision = None, gs_protocol_version = None, gs_generation_profile_id = None,
       gs_generation_contract = None, gs_randomness = [] \<rparr>"

section \<open>What one call does\<close>

text \<open>The submission the batcher stores when every check passes.\<close>

definition passes :: "'p batcher_env \<Rightarrow> cooldown_map \<Rightarrow> real \<Rightarrow> batcher \<Rightarrow> batch_submission_request \<Rightarrow> valid_submission \<Rightarrow> bool" where
  "passes be cm now b req s =
     (cheap_reject be cm b req = None \<and>
      (\<exists>problem txts canonical tm mroot.
         be_get_problem be (bs_prompt_idx req) = Inr problem
       \<and> reward_loop be problem (bs_rollouts req) = Inr (Some txts)
       \<and> is_in_zone (rewards_std (map rs_reward (bs_rollouts req))) (be_bootstrap be)
       \<and> (case be_canonical_prompt_tokens be of None \<Rightarrow> Inr None
          | Some f \<Rightarrow> rbind (f (bs_prompt_idx req)) (\<lambda>ts. Inr (Some ts))) = Inr canonical
       \<and> check_rollouts be (bt_randomness b) (bs_miner_hotkey req) canonical (bs_rollouts req)
           \<lparr> tl_sketch_diff_max = 0, tl_lp_dev_max = None, tl_dist_q10_min = None \<rparr> = Inr (Pass tm)
       \<and> fromhex (bs_merkle_root req) = Inr mroot
       \<and> s = new_submission req mroot (rewards_std (map rs_reward (bs_rollouts req))) txts now tm))"

lemma accept_outcome:
  assumes "accept_submission be cm now b req = Inr (b', resp)"
  shows "(\<exists>reason. reject reason b = (b', resp)) \<or> (\<exists>s. passes be cm now b req s \<and> admit cm b s = (b', resp))"
proof (cases "cheap_reject be cm b req")
  case (Some reason)
  then have "reject reason b = (b', resp)" using assms by (simp add: accept_submission_def accept_locked_def)
  then show ?thesis by blast
next
  case None
  let ?can = "case be_canonical_prompt_tokens be of None \<Rightarrow> Inr None
    | Some f \<Rightarrow> rbind (f (bs_prompt_idx req)) (\<lambda>ts. Inr (Some ts))"
  let ?sg = "rewards_std (map rs_reward (bs_rollouts req))"
  let ?t0 = "\<lparr> tl_sketch_diff_max = 0, tl_lp_dev_max = None, tl_dist_q10_min = None \<rparr>"
  obtain problem texts where p: "be_get_problem be (bs_prompt_idx req) = Inr problem"
      "reward_loop be problem (bs_rollouts req) = Inr texts"
    using assms None by (auto simp: accept_submission_def accept_locked_def rbind_eq_Inr)
  show ?thesis
  proof (cases texts)
    case N: None
    then show ?thesis using assms None p by (auto simp: accept_submission_def accept_locked_def)
  next
    case S: (Some txts)
    show ?thesis
    proof (cases "is_in_zone ?sg (be_bootstrap be)")
      case False
      then show ?thesis using assms None p S by (auto simp: accept_submission_def accept_locked_def)
    next
      case True
      then obtain canonical c where c: "?can = Inr canonical"
          "check_rollouts be (bt_randomness b) (bs_miner_hotkey req) canonical (bs_rollouts req) ?t0 = Inr c"
        using assms None p S by (auto simp: accept_submission_def accept_locked_def rbind_eq_Inr Let_def)
      show ?thesis
      proof (cases c)
        case (Reject reason)
        then show ?thesis using assms None p S True c by (auto simp: accept_submission_def accept_locked_def)
      next
        case (Pass tm)
        with assms None p S True c obtain mroot where "fromhex (bs_merkle_root req) = Inr mroot"
            "admit cm b (new_submission req mroot ?sg txts now tm) = (b', resp)"
          by (auto simp: accept_submission_def accept_locked_def rbind_eq_Inr)
        then show ?thesis using None p S True c Pass unfolding passes_def by blast
      qed
    qed
  qed
qed

lemma passes_accepted:
  "passes be cm now b req s \<Longrightarrow> accept_submission be cm now b req = Inr (admit cm b s)"
  by (auto simp: passes_def accept_submission_def accept_locked_def Let_def)

lemma reject_not_accepted: "br_accepted (snd (reject reason b)) = False"
  by (simp add: reject_def)

lemma accept_iff_passes:
  "(\<exists>b' resp. accept_submission be cm now b req = Inr (b', resp) \<and> br_accepted resp)
     \<longleftrightarrow> (\<exists>s. passes be cm now b req s)"
proof
  assume "\<exists>b' resp. accept_submission be cm now b req = Inr (b', resp) \<and> br_accepted resp"
  then obtain b' resp where a: "accept_submission be cm now b req = Inr (b', resp)" "br_accepted resp" by blast
  from accept_outcome [OF a(1)] a(2) show "\<exists>s. passes be cm now b req s" by (auto simp: reject_def)
next
  assume "\<exists>s. passes be cm now b req s"
  then obtain s where "passes be cm now b req s" ..
  from passes_accepted [OF this] show "\<exists>b' resp. accept_submission be cm now b req = Inr (b', resp) \<and> br_accepted resp"
    by (simp add: admit_def)
qed

lemma fire_seal_fields [simp]:
  "bt_valid (fire_seal cm b) = bt_valid b" "bt_claimed (fire_seal cm b) = bt_claimed b"
  "bt_window_start (fire_seal cm b) = bt_window_start b" "bt_reject_counts (fire_seal cm b) = bt_reject_counts b"
  "bt_seal_flag (fire_seal cm b) \<longleftrightarrow> bt_seal_flag b \<or> 8 \<le> distinct_eligible cm (bt_window_start b) (bt_valid b)"
  by (auto simp: fire_seal_def B_BATCH_def)

lemma new_submission_fields [simp]:
  "prompt_idx (new_submission req mroot sg txts now tm) = bs_prompt_idx req"
  "hotkey (new_submission req mroot sg txts now tm) = bs_miner_hotkey req"
  "vs_sigma (new_submission req mroot sg txts now tm) = sg"
  "vs_rollouts (new_submission req mroot sg txts now tm) = bs_rollouts req"
  by (simp_all add: new_submission_def)

section \<open>The invariant of a window\<close>

text \<open>
  The steps of one window, between its opening and its seal: a verdict on a submission, a
  call that raises, the event loop asking for the seal event, and the service
  publishing the randomness. \<open>n\<close> counts the verdicts.
\<close>

inductive window_reach :: "'p batcher_env \<Rightarrow> cooldown_map \<Rightarrow> batcher \<Rightarrow> nat \<Rightarrow> bool" for be cm where
  opened: "window_reach be cm (GrpoWindowBatcher w now \<lparr> bt_checkpoint_hash := h \<rparr>) 0"
| randomness: "window_reach be cm b n \<Longrightarrow> window_reach be cm (b \<lparr> bt_randomness := r \<rparr>) n"
| event: "window_reach be cm b n \<Longrightarrow> window_reach be cm (fst (seal_event b)) n"
| verdict: "window_reach be cm b n \<Longrightarrow> accept_submission be cm now b req = Inr (b', resp) \<Longrightarrow> window_reach be cm b' (Suc n)"

definition window_inv :: "'p batcher_env \<Rightarrow> cooldown_map \<Rightarrow> batcher \<Rightarrow> bool" where
  "window_inv be cm b =
     (distinct (map prompt_idx (bt_valid b)) \<and> set (bt_claimed b) = prompt_idx ` set (bt_valid b)
      \<and> (\<forall>s \<in> set (bt_valid b). prompt_idx s < be_env_len be \<and> \<not> is_in_cooldown cm (prompt_idx s) (bt_window_start b)
           \<and> is_in_zone (vs_sigma s) (be_bootstrap be))
      \<and> (bt_seal_flag b \<longleftrightarrow> 8 \<le> length (bt_valid b))
      \<and> (bt_seal_event b = None \<or> bt_seal_event b = Some (bt_seal_flag b)))"

definition reject_total :: "batcher \<Rightarrow> int" where
  "reject_total b = sum_list (map snd (bt_reject_counts b))"

lemma sum_dset_incr: "sum_list (map snd (dset k (dget d k 0 + 1) d)) = sum_list (map snd d) + (1::int)"
  by (induction d) (auto simp: dget_def)

lemma distinct_eligible_all:
  assumes "distinct (map prompt_idx subs)" and "\<forall>s \<in> set subs. \<not> is_in_cooldown cm (prompt_idx s) w"
  shows "distinct_eligible cm w subs = length subs"
proof -
  have "filter (\<lambda>s. \<not> is_in_cooldown cm (prompt_idx s) w) subs = subs" using assms(2) by simp
  then show ?thesis using distinct_card [OF assms(1)] by (simp add: distinct_eligible_def)
qed

lemma window_inv_accept:
  assumes "window_inv be cm b" and "passes be cm now b req s"
  shows "window_inv be cm (fst (admit cm b s))"
proof -
  from assms(2) have s: "prompt_idx s = bs_prompt_idx req" "is_in_zone (vs_sigma s) (be_bootstrap be)"
    and c: "cheap_reject be cm b req = None" by (auto simp: passes_def)
  from c have new: "prompt_idx s \<notin> set (bt_claimed b)" "prompt_idx s < be_env_len be"
    "\<not> is_in_cooldown cm (prompt_idx s) (bt_window_start b)" unfolding s(1)
    by (auto simp: cheap_reject_def split: if_splits)
  let ?b = "b \<lparr> bt_claimed := prompt_idx s # bt_claimed b, bt_valid := bt_valid b @ [s] \<rparr>"
  have d: "distinct (map prompt_idx (bt_valid ?b))"
    and ok: "\<forall>t \<in> set (bt_valid ?b). \<not> is_in_cooldown cm (prompt_idx t) (bt_window_start ?b)"
    using assms(1) new by (auto simp: window_inv_def)
  have "distinct_eligible cm (bt_window_start ?b) (bt_valid ?b) = length (bt_valid ?b)"
    by (rule distinct_eligible_all [OF d ok])
  then show ?thesis using assms(1) d ok new s(2)
    by (auto simp: window_inv_def admit_def fire_seal_def B_BATCH_def)
qed

lemma window_inv_reject: "window_inv be cm b \<Longrightarrow> window_inv be cm (fst (reject reason b))"
  by (auto simp: window_inv_def reject_def)

lemma window_reach_inv:
  "window_reach be cm b n \<Longrightarrow> window_inv be cm b \<and> reject_total b + int (length (bt_valid b)) = int n"
proof (induction rule: window_reach.induct)
  case (opened w now h)
  then show ?case by (simp add: window_inv_def reject_total_def GrpoWindowBatcher_def)
next
  case (randomness b n r)
  then show ?case by (auto simp: window_inv_def reject_total_def)
next
  case (event b n)
  then show ?case by (auto simp: window_inv_def reject_total_def seal_event_def split: option.splits)
next
  case (verdict b n now req b' resp)
  consider (rej) reason where "reject reason b = (b', resp)"
    | (acc) s where "passes be cm now b req s" "admit cm b s = (b', resp)"
    using accept_outcome [OF verdict.hyps(2)] by blast
  then show ?case
  proof cases
    case rej
    then have "b' = fst (reject reason b)" by simp
    with verdict.IH window_inv_reject [of be cm b reason] show ?thesis
      by (auto simp: reject_def reject_total_def sum_dset_incr)
  next
    case acc
    then have "b' = fst (admit cm b s)" by simp
    with verdict.IH window_inv_accept [OF _ acc(1)] show ?thesis
      by (auto simp: admit_def reject_total_def)
  qed
qed

text \<open>
  C1. What a window keeps, whatever submissions arrive in whatever order. At most one submission is held per
  prompt, exactly the held prompts are claimed, each is inside the environment, off cooldown and
  in the reward zone; the seal flag is up if and only if eight prompts are held; and every
  verdict is accounted for, either as a held submission or in the reject counts.
\<close>

theorem window_invariant:
  assumes "window_reach be cm b n"
  shows "distinct (map prompt_idx (bt_valid b)) \<and> set (bt_claimed b) = prompt_idx ` set (bt_valid b)
    \<and> (\<forall>s \<in> set (bt_valid b). prompt_idx s < be_env_len be \<and> \<not> is_in_cooldown cm (prompt_idx s) (bt_window_start b)
         \<and> is_in_zone (vs_sigma s) (be_bootstrap be))
    \<and> (bt_seal_flag b \<longleftrightarrow> 8 \<le> length (bt_valid b))
    \<and> reject_total b + int (length (bt_valid b)) = int n"
  using window_reach_inv [OF assms] by (simp add: window_inv_def)

section \<open>What acceptance means\<close>

lemma check_rollouts_Cons_Pass:
  "check_rollouts be rand hk canonical (r # rs) tm = Inr (Pass t') \<longleftrightarrow>
     (\<exists>t. check_rollout be rand hk canonical r tm = Inr (Pass t) \<and> check_rollouts be rand hk canonical rs t = Inr (Pass t'))"
proof (cases "check_rollout be rand hk canonical r tm")
  case (Inr c)
  then show ?thesis by (cases c) auto
qed simp

lemma check_rollouts_Pass:
  "check_rollouts be rand hk canonical rs tm = Inr (Pass tm') \<Longrightarrow> r \<in> set rs \<Longrightarrow>
     \<exists>t t'. check_rollout be rand hk canonical r t = Inr (Pass t')"
proof (induction rs arbitrary: tm)
  case (Cons a rs)
  then show ?case unfolding check_rollouts_Cons_Pass by auto
qed simp

lemma reward_loop_Some:
  "reward_loop be problem rs = Inr (Some txts) \<Longrightarrow> r \<in> set rs \<Longrightarrow>
     \<exists>txt. be_completion_text be r = Inr txt \<and> verify_reward_claim (be_compute_reward be) problem txt (rs_reward r)"
  by (induction rs arbitrary: txts) (auto simp: rbind_eq_Inr split: if_splits)

definition rollout_verified :: "'p batcher_env \<Rightarrow> string \<Rightarrow> string \<Rightarrow> int list option \<Rightarrow> fields \<Rightarrow> bool" where
  "rollout_verified be rand hk canonical commit =
     (CommitModel (be_pydantic be) (be_cap be) (JObj commit) \<noteq> None
      \<and> prompt_matches canonical (JObj commit) = Inr True
      \<and> be_verify_signature be (JObj commit) hk = Inr True
      \<and> (\<exists>proof. be_verify_commitment be (JObj commit) rand = Inr proof \<and> pr_all_passed proof
           \<and> (numel (pr_logits proof) \<noteq> 0 \<longrightarrow>
                verify_termination (ve_fns (be_verifier be)) (JObj commit) (be_eos_token_id be) (pr_logits proof) = Inr True)))"

lemma check_rollout_Pass:
  "check_rollout be rand hk canonical r t = Inr (Pass t') \<Longrightarrow> rollout_verified be rand hk canonical (rs_commit r)"
  by (auto simp: check_rollout_def rollout_verified_def Let_def rbind_eq_Inr split: if_splits)

text \<open>
  C2. Acceptance is verification. When a submission is accepted, the claimed reward of every
  rollout was recomputed within 1e-6, its standard deviation is in the zone, and every commit
  passed the schema, starts with the canonical prompt, carries a valid signature and a
  GRAIL proof that passed, and ends with a confident EOS whenever there are logits.
\<close>

theorem accepted_submission_verified:
  assumes "accept_submission be cm now b req = Inr (b', resp)" and "br_accepted resp"
  shows "is_in_zone (rewards_std (map rs_reward (bs_rollouts req))) (be_bootstrap be) \<and>
    (\<exists>problem canonical. be_get_problem be (bs_prompt_idx req) = Inr problem \<and>
      (\<forall>f. be_canonical_prompt_tokens be = Some f \<longrightarrow> (\<exists>ts. canonical = Some ts \<and> f (bs_prompt_idx req) = Inr ts)) \<and>
      (\<forall>r \<in> set (bs_rollouts req).
         (\<exists>txt. be_completion_text be r = Inr txt \<and> verify_reward_claim (be_compute_reward be) problem txt (rs_reward r))
         \<and> rollout_verified be (bt_randomness b) (bs_miner_hotkey req) canonical (rs_commit r)))"
proof -
  obtain s where p: "passes be cm now b req s" using accept_iff_passes assms by blast
  obtain problem txts canonical tm where g: "be_get_problem be (bs_prompt_idx req) = Inr problem"
      "reward_loop be problem (bs_rollouts req) = Inr (Some txts)"
      "is_in_zone (rewards_std (map rs_reward (bs_rollouts req))) (be_bootstrap be)"
    and c: "(case be_canonical_prompt_tokens be of None \<Rightarrow> Inr None
          | Some f \<Rightarrow> rbind (f (bs_prompt_idx req)) (\<lambda>ts. Inr (Some ts))) = Inr canonical"
    and k: "check_rollouts be (bt_randomness b) (bs_miner_hotkey req) canonical (bs_rollouts req)
           \<lparr> tl_sketch_diff_max = 0, tl_lp_dev_max = None, tl_dist_q10_min = None \<rparr> = Inr (Pass tm)"
    using p unfolding passes_def by blast
  have "\<exists>ts. canonical = Some ts \<and> f (bs_prompt_idx req) = Inr ts" if "be_canonical_prompt_tokens be = Some f" for f
    using c that by (auto simp: rbind_eq_Inr)
  moreover have "rollout_verified be (bt_randomness b) (bs_miner_hotkey req) canonical (rs_commit r)"
    if "r \<in> set (bs_rollouts req)" for r
    using check_rollouts_Pass [OF k that] check_rollout_Pass by metis
  ultimately show ?thesis using g reward_loop_Some [OF g(2)] by blast
qed

section \<open>The tokens of a rollout and of its commit\<close>

lemma check_rollouts_commits:
  "map rs_commit rs = map rs_commit rs' \<Longrightarrow> check_rollouts be rand hk canonical rs tm = check_rollouts be rand hk canonical rs' tm"
proof (induction rs arbitrary: rs' tm)
  case (Cons r rs)
  then obtain r' rs1 where rs': "rs' = r' # rs1" "rs_commit r' = rs_commit r" "map rs_commit rs = map rs_commit rs1" by auto
  then have "check_rollout be rand hk canonical r' tm = check_rollout be rand hk canonical r tm"
    by (simp add: check_rollout_def)
  then show ?case using rs' Cons.IH [OF rs'(3)]
    by (cases "check_rollout be rand hk canonical r tm") (auto split: check_result.split)
qed simp

text \<open>
  The tokens that are rewarded are not the tokens that are proved. If a submission is accepted, replacing the
  rollouts by others with the same commits, whose own tokens decode to completions with the claimed rewards
  in the zone, is accepted too: nothing compares \<open>rollout.tokens\<close> with the tokens of the commit.
\<close>

theorem rewarded_tokens_unbound:
  assumes "accept_submission be cm now b req = Inr (b1, resp)" and "br_accepted resp"
    and "map rs_commit rs' = map rs_commit (bs_rollouts req)"
    and "be_get_problem be (bs_prompt_idx req) = Inr problem"
    and "reward_loop be problem rs' = Inr (Some txts)"
    and "is_in_zone (rewards_std (map rs_reward rs')) (be_bootstrap be)"
  shows "\<exists>b2 resp2. accept_submission be cm now b (req \<lparr> bs_rollouts := rs' \<rparr>) = Inr (b2, resp2) \<and> br_accepted resp2"
proof -
  obtain s where p: "passes be cm now b req s" using accept_iff_passes assms(1,2) by blast
  have c: "cheap_reject be cm b (req \<lparr> bs_rollouts := rs' \<rparr>) = cheap_reject be cm b req"
    by (simp add: cheap_reject_def)
  let ?r = "req \<lparr> bs_rollouts := rs' \<rparr>"
  obtain canonical tm mroot where k: "(case be_canonical_prompt_tokens be of None \<Rightarrow> Inr None
          | Some f \<Rightarrow> rbind (f (bs_prompt_idx req)) (\<lambda>ts. Inr (Some ts))) = Inr canonical"
      "check_rollouts be (bt_randomness b) (bs_miner_hotkey req) canonical (bs_rollouts req)
         \<lparr> tl_sketch_diff_max = 0, tl_lp_dev_max = None, tl_dist_q10_min = None \<rparr> = Inr (Pass tm)"
      "fromhex (bs_merkle_root req) = Inr mroot" "cheap_reject be cm b req = None"
    using p unfolding passes_def by blast
  have eqs: "bs_prompt_idx ?r = bs_prompt_idx req" "bs_rollouts ?r = rs'" "bs_miner_hotkey ?r = bs_miner_hotkey req"
    "bs_merkle_root ?r = bs_merkle_root req" by simp_all
  have "passes be cm now b ?r (new_submission ?r mroot (rewards_std (map rs_reward rs')) txts now tm)"
    unfolding passes_def eqs using k c assms(4-6) by (metis check_rollouts_commits [OF assms(3)])
  then show ?thesis using accept_iff_passes by blast
qed

section \<open>Sealing\<close>

lemma record_all_marks:
  "\<forall>s \<in> set ss. 0 \<le> prompt_idx s \<Longrightarrow> 0 \<le> w \<Longrightarrow>
   record_all cm w ss = Inr (foldl (\<lambda>m p. mark m p w) cm (map prompt_idx ss))"
  by (induction ss arbitrary: cm) (auto simp: record_batched_def)

lemma record_all_Inr:
  "record_all cm w ss = Inr cm' \<Longrightarrow> cm' = foldl (\<lambda>m p. mark m p w) cm (map prompt_idx ss)"
  by (induction ss arbitrary: cm) (auto simp: record_batched_def rbind_eq_Inr split: if_splits)

lemma seal_batch_props:
  assumes "seal_batch sha cm b = Inr (cm', batch)"
  shows "length batch \<le> 8 \<and> set batch \<subseteq> set (bt_valid b) \<and> distinct (map prompt_idx batch)
    \<and> (\<forall>s \<in> set batch. \<not> is_in_cooldown cm (prompt_idx s) (bt_window_start b))
    \<and> cm' = foldl (\<lambda>m p. mark m p (bt_window_start b)) cm (map prompt_idx batch)"
  using assms select_batch_props [of sha "bt_valid b" 8 "bt_window_start b" cm batch]
  by (auto simp: seal_batch_def rbind_eq_Inr B_BATCH_def dest: record_all_Inr)

text \<open>
  Sealing a window takes at most eight held submissions of distinct prompts, none of them in
  cooldown, and afterwards exactly those prompts have become blocked, until a full cooldown span has passed.
\<close>

theorem sealed_batch_cools_down:
  assumes "seal_batch sha cm b = Inr (cm', batch)"
  shows "length batch \<le> 8 \<and> set batch \<subseteq> set (bt_valid b) \<and> distinct (map prompt_idx batch)
    \<and> (\<forall>s \<in> set batch. \<not> is_in_cooldown cm (prompt_idx s) (bt_window_start b))
    \<and> (\<forall>p w. is_in_cooldown cm' p w =
         (if p \<in> prompt_idx ` set batch then cooldown_windows cm \<noteq> 0 \<and> w - bt_window_start b < cooldown_windows cm
          else is_in_cooldown cm p w))"
  using seal_batch_props [OF assms] by (simp add: cd.blocked_put_all)

section \<open>A concrete window\<close>

definition toy_pydantic :: pydantic where
  "toy_pydantic = \<lparr> pyd_int = (\<lambda>v. case v of JInt i \<Rightarrow> Some i | _ \<Rightarrow> None),
     pyd_float = (\<lambda>v. case v of JFloat x \<Rightarrow> Some x | _ \<Rightarrow> None),
     pyd_bool = (\<lambda>v. case v of JBool b \<Rightarrow> Some b | _ \<Rightarrow> None) \<rparr>"

definition toy_fields :: fields where
  "toy_fields =
     [(''tokens'', JList (replicate 32 (JInt 1))), (''commitments'', JList (replicate 32 (JObj []))),
      (''proof_version'', JStr ''v7''), (''model'', JObj [(''name'', JStr []), (''layer_index'', JInt 0)]),
      (''signature'', JStr ''ab''), (''beacon'', JObj [(''randomness'', JStr ''ab'')]),
      (''rollout'', JObj [(''prompt_length'', JInt 0), (''completion_length'', JInt 32), (''success'', JBool True),
         (''total_reward'', JFloat NaN), (''advantage'', JFloat NaN), (''token_logprobs'', JList (replicate 32 (JFloat NaN)))])]"

definition toy_rollout :: "int \<Rightarrow> rollout_submission" where
  "toy_rollout t = \<lparr> rs_tokens = [t], rs_reward = Fin (of_int t), rs_commit = toy_fields, rs_env_name = ''m'' \<rparr>"

definition toy_request :: "int list \<Rightarrow> batch_submission_request" where
  "toy_request ts = \<lparr> bs_miner_hotkey = ''5F'', bs_prompt_idx = 3, bs_window_start = 7, bs_merkle_root = ''ab'',
     bs_rollouts = map toy_rollout ts, bs_checkpoint_hash = [], bs_drand_round = 0, bs_nonce = [],
     bs_envelope_signature = [], bs_protocol_version = 0, bs_generation_profile_id = [] \<rparr>"

definition toy_be :: "unit batcher_env" where
  "toy_be = \<lparr> be_env_len = 10, be_get_problem = (\<lambda>i. Inr ()), 
     be_compute_reward = (\<lambda>p txt. Inr (Fin (if txt = ''good'' then 1 else 0))),
     be_completion_text = (\<lambda>r. Inr (if rs_tokens r = [1] then ''good'' else ''bad'')),
     be_canonical_prompt_tokens = None,
     be_verify_commitment = (\<lambda>c r. Inr \<lparr> pr_all_passed = True, pr_passed = 32, pr_checked = 32, pr_logits = [], pr_sketch_diff_max = 0 \<rparr>),
     be_verify_signature = (\<lambda>c h. Inr True), be_eos_token_id = None, be_bootstrap = False,
     be_pydantic = toy_pydantic, be_cap = 100, be_verifier = toy_ve \<rparr>"

definition toy_cm :: cooldown_map where
  "toy_cm = \<lparr> cooldown_windows = 5, last_batched = [] \<rparr>"

lemma toy_be_fields:
  "be_pydantic toy_be = toy_pydantic" "be_cap toy_be = 100" "be_verifier toy_be = toy_ve"
  "be_verify_signature toy_be c h = Inr True"
  "be_verify_commitment toy_be c r =
     Inr \<lparr> pr_all_passed = True, pr_passed = 32, pr_checked = 32, pr_logits = [], pr_sketch_diff_max = 0 \<rparr>"
  by (simp_all add: toy_be_def)

lemma toy_commit_ok: "CommitModel toy_pydantic 100 (JObj toy_fields) \<noteq> None"
proof -
  have "\<not> Option.is_none (CommitModel toy_pydantic 100 (JObj toy_fields))" by code_simp
  then show ?thesis by (simp add: Option.is_none_def)
qed

lemma toy_tokens_ok: "verify_tokens (replicate 32 (JInt 1)) (ve_config toy_ve)"
proof -
  have "verify_tokens (replicate 32 (JInt 1)) (JObj [(''hidden_size'', JInt 16)])" by code_simp
  then show ?thesis by (simp add: toy_ve_def)
qed

lemma toy_check: "check_rollout toy_be r h None (toy_rollout t) tm = Inr (Pass (note_sketch 0 tm))"
proof -
  have "jindex (JObj toy_fields) ''tokens'' = Inr (JList (replicate 32 (JInt 1)))"
    by (simp add: toy_fields_def jindex_def)
  then show ?thesis using toy_commit_ok toy_tokens_ok
    by (simp add: check_rollout_def toy_be_fields Let_def toy_rollout_def prompt_matches_def numel_def)
qed

lemma toy_checks: "\<exists>tm'. check_rollouts toy_be r h None (map toy_rollout ts) tm = Inr (Pass tm')"
  by (induction ts arbitrary: tm) (auto simp: toy_check)

lemma toy_rewards: "\<forall>t \<in> set ts. t = 0 \<or> t = 1 \<Longrightarrow> \<exists>txts. reward_loop toy_be () (map toy_rollout ts) = Inr (Some txts)"
  by (induction ts) (auto simp: toy_be_def toy_rollout_def verify_reward_claim_def)

lemma toy_zone:
  assumes "length ts = 8" and "\<forall>t \<in> set ts. t = 0 \<or> t = 1" and "0 \<in> set ts" and "1 \<in> set ts"
  shows "is_in_zone (rewards_std (map rs_reward (map toy_rollout ts))) (be_bootstrap toy_be)"
proof -
  have eq: "map rs_reward (map toy_rollout ts) = map Fin (map real_of_int ts)" by (simp add: toy_rollout_def)
  have "0 \<in> set (map real_of_int ts)" "1 \<in> set (map real_of_int ts)"
    using imageI [OF assms(3), of real_of_int] imageI [OF assms(4), of real_of_int] by simp_all
  moreover have "\<forall>x \<in> set (map real_of_int ts). x = 0 \<or> x = 1" using assms(2) by auto
  ultimately show ?thesis unfolding eq using assms(1) by (subst binary_zone) simp_all
qed

lemma toy_passes:
  assumes "length ts = 8" and "\<forall>t \<in> set ts. t = 0 \<or> t = 1" and "0 \<in> set ts" and "1 \<in> set ts"
  shows "\<exists>s. passes toy_be toy_cm 0 (GrpoWindowBatcher 7 0) (toy_request ts) s"
proof -
  obtain txts where t: "reward_loop toy_be () (map toy_rollout ts) = Inr (Some txts)" using toy_rewards [OF assms(2)] ..
  obtain tm where c: "check_rollouts toy_be [] ''5F'' None (map toy_rollout ts)
      \<lparr> tl_sketch_diff_max = 0, tl_lp_dev_max = None, tl_dist_q10_min = None \<rparr> = Inr (Pass tm)" using toy_checks by blast
  have h: "fromhex ''ab'' = Inr [171]" by code_simp
  have "cheap_reject toy_be toy_cm (GrpoWindowBatcher 7 0) (toy_request ts) = None"
    by (simp add: cheap_reject_def toy_request_def GrpoWindowBatcher_def toy_be_def toy_cm_def is_in_cooldown_def)
  moreover have "be_get_problem toy_be 3 = Inr ()" "be_canonical_prompt_tokens toy_be = None" by (simp_all add: toy_be_def)
  ultimately show ?thesis using t c h toy_zone [OF assms]
    by (auto simp: passes_def toy_request_def GrpoWindowBatcher_def)
qed

lemma toy_accepted:
  "\<exists>b resp. accept_submission toy_be toy_cm 0 (GrpoWindowBatcher 7 0) (toy_request [1, 0, 0, 0, 0, 0, 0, 0]) = Inr (b, resp)
     \<and> br_accepted resp"
  using toy_passes [of "[1, 0, 0, 0, 0, 0, 0, 0]"] accept_iff_passes [of toy_be toy_cm 0 "GrpoWindowBatcher 7 0"] by simp

theorem accepted_submission_verified_witness:
  "is_in_zone (rewards_std (map rs_reward (bs_rollouts (toy_request [1, 0, 0, 0, 0, 0, 0, 0])))) (be_bootstrap toy_be)"
proof -
  obtain b resp where "accept_submission toy_be toy_cm 0 (GrpoWindowBatcher 7 0) (toy_request [1, 0, 0, 0, 0, 0, 0, 0]) = Inr (b, resp)"
    "br_accepted resp" using toy_accepted by blast
  from accepted_submission_verified [OF this] show ?thesis by (rule conjunct1)
qed

theorem rewarded_tokens_unbound_witness:
  "\<exists>b resp. accept_submission toy_be toy_cm 0 (GrpoWindowBatcher 7 0)
     (toy_request [1, 0, 0, 0, 0, 0, 0, 0] \<lparr> bs_rollouts := map toy_rollout [1, 1, 0, 0, 0, 0, 0, 0] \<rparr>) = Inr (b, resp)
     \<and> br_accepted resp"
proof -
  obtain b resp where a: "accept_submission toy_be toy_cm 0 (GrpoWindowBatcher 7 0) (toy_request [1, 0, 0, 0, 0, 0, 0, 0]) = Inr (b, resp)"
    "br_accepted resp" using toy_accepted by blast
  obtain txts where t: "reward_loop toy_be () (map toy_rollout [1, 1, 0, 0, 0, 0, 0, 0]) = Inr (Some txts)"
    using toy_rewards [of "[1, 1, 0, 0, 0, 0, 0, 0]"] by auto
  have z: "is_in_zone (rewards_std (map rs_reward (map toy_rollout [1, 1, 0, 0, 0, 0, 0, 0]))) (be_bootstrap toy_be)"
    by (rule toy_zone) auto
  show ?thesis
    by (rule rewarded_tokens_unbound [OF a _ _ t z]) (simp_all add: toy_request_def toy_rollout_def toy_be_def)
qed

theorem window_invariant_witness:
  "\<exists>b. window_reach toy_be toy_cm b 1 \<and> map prompt_idx (bt_valid b) = [3] \<and> bt_claimed b = [3]"
proof -
  have o: "window_reach toy_be toy_cm (GrpoWindowBatcher 7 0) 0"
    using window_reach.opened [where be = toy_be and cm = toy_cm and w = 7 and now = 0 and h = "[]"] by (simp add: GrpoWindowBatcher_def)
  obtain s where p: "passes toy_be toy_cm 0 (GrpoWindowBatcher 7 0) (toy_request [1, 0, 0, 0, 0, 0, 0, 0]) s"
    using toy_passes [of "[1, 0, 0, 0, 0, 0, 0, 0]"] by auto
  let ?b = "fst (admit toy_cm (GrpoWindowBatcher 7 0) s)"
  have r: "window_reach toy_be toy_cm ?b (Suc 0)"
    using window_reach.verdict [OF o passes_accepted [OF p, unfolded admit_def]] by (simp add: admit_def)
  have "prompt_idx s = 3" using p by (auto simp: passes_def toy_request_def)
  then have "map prompt_idx (bt_valid ?b) = [3]" "bt_claimed ?b = [3]"
    by (simp_all add: admit_def GrpoWindowBatcher_def)
  with r window_invariant [OF r] show ?thesis by auto
qed

theorem sealed_batch_cools_down_witness:
  "\<exists>b cm' batch. seal_batch (\<lambda>m. m) toy_cm b = Inr (cm', batch) \<and> map prompt_idx batch = [3] \<and> is_in_cooldown cm' 3 8"
proof -
  obtain s where p: "passes toy_be toy_cm 0 (GrpoWindowBatcher 7 0) (toy_request [1, 0, 0, 0, 0, 0, 0, 0]) s"
    using toy_passes [of "[1, 0, 0, 0, 0, 0, 0, 0]"] by auto
  define b where "b = fst (admit toy_cm (GrpoWindowBatcher 7 0) s)"
  have s: "prompt_idx s = 3" using p by (auto simp: passes_def toy_request_def)
  have bv: "bt_valid b = [s]" "bt_window_start b = 7" by (simp_all add: b_def admit_def GrpoWindowBatcher_def)
  have c: "seal_batch (\<lambda>m. m) toy_cm b = Inr (mark toy_cm 3 7, [s])"
    by (simp add: bv s seal_batch_def select_batch_def B_BATCH_def order_key_of_def
        tiebreak_key_def tiebreak_preimage_def to_bytes_be_def ordered_def toy_cm_def is_in_cooldown_def record_batched_def)
  from sealed_batch_cools_down [OF c] s have "is_in_cooldown (mark toy_cm 3 7) 3 8" by (simp add: bv toy_cm_def)
  with c s show ?thesis
    by (intro exI [of _ b] exI [of _ "mark toy_cm 3 7"] exI [of _ "[s]"]) simp
qed

end
