(* ===== verification/Checkpoint.thy ===== *)
theory Checkpoint
  imports Submission
begin

text \<open>
  \<open>reliquary/validator/checkpoint.py\<close> and \<open>reliquary/validator/resume.py\<close>: publishing a
  checkpoint (save, upload, sign, install the manifest) and resuming from one. The model, the
  directory writer, the upload, the download and the commit list are arguments; the store is a
  record and every method takes and returns it. The regular expressions are written out, with
  the detail that \<open>$\<close> also matches before a final newline.
\<close>

section \<open>Publishing\<close>

record manifest_entry =
  me_checkpoint_n :: int
  me_repo_id :: string
  me_revision :: string
  me_signature :: string

record checkpoint_store =
  cs_repo_id :: string
  cs_staging_dir :: string
  cs_current :: "manifest_entry option"

definition CheckpointStore :: "string \<Rightarrow> string \<Rightarrow> checkpoint_store" where
  "CheckpointStore repo staging = \<lparr> cs_repo_id = repo, cs_staging_dir = staging, cs_current = None \<rparr>"

definition current_manifest :: "checkpoint_store \<Rightarrow> manifest_entry option" where
  "current_manifest st = cs_current st"

definition manifest_payload :: "int \<Rightarrow> string \<Rightarrow> bytes" where
  "manifest_payload n revision = encode (str_int n @ CHR ''|'' # revision)"

definition manifest_signature :: "(bytes \<Rightarrow> bytes res) \<Rightarrow> int \<Rightarrow> string \<Rightarrow> string res" where
  "manifest_signature sign n revision =
     rbind (sign (manifest_payload n revision)) (\<lambda>sig. Inr (''ed25519:'' @ hex sig))"

text \<open>
  The steps of \<open>publish\<close> in order. A step that raises ends the call there; the manifest is installed
  last, so it changes only when everything before it has succeeded.
\<close>

definition publish :: "(string \<Rightarrow> 'm \<Rightarrow> unit res) \<Rightarrow> (string \<Rightarrow> string \<Rightarrow> string \<Rightarrow> string res) \<Rightarrow> (bytes \<Rightarrow> bytes res)
    \<Rightarrow> checkpoint_store \<Rightarrow> int \<Rightarrow> 'm \<Rightarrow> (checkpoint_store \<times> manifest_entry) res" where
  "publish save upload sign st n model =
     (let snapshot_dir = cs_staging_dir st @ ''/ckpt_'' @ str_int n in
      rbind (save snapshot_dir model) (\<lambda>_.
      rbind (upload snapshot_dir (cs_repo_id st) (''checkpoint '' @ str_int n)) (\<lambda>revision.
      rbind (manifest_signature sign n revision) (\<lambda>signature.
      (let entry = \<lparr> me_checkpoint_n = n, me_repo_id = cs_repo_id st, me_revision = revision,
                     me_signature = signature \<rparr> in
       Inr (st \<lparr> cs_current := Some entry \<rparr>, entry))))))"

section \<open>Parsing the source\<close>

datatype resume_source = ShaSource string | PathSource string

text \<open>\<open>str.partition\<close> at a character: the text before it and after it.\<close>

fun partition_at :: "char \<Rightarrow> string \<Rightarrow> (string \<times> string) option" where
  "partition_at c [] = None"
| "partition_at c (x # xs) =
     (if x = c then Some ([], xs) else map_option (\<lambda>(a, b). (x # a, b)) (partition_at c xs))"

definition newline :: char where
  "newline = char_of (10 :: nat)"

text \<open>The text up to where \<open>$\<close> may match: all of it, or all but one final newline.\<close>

definition chop_newline :: "string \<Rightarrow> string" where
  "chop_newline s = (if s \<noteq> [] \<and> List.last s = newline then butlast s else s)"

definition lower_hex_char :: "char \<Rightarrow> bool" where
  "lower_hex_char c = (c \<in> set ''0123456789abcdef'')"

text \<open>\<open>^[0-9a-f]{40}$\<close>\<close>

definition hex40_match :: "string \<Rightarrow> bool" where
  "hex40_match s = (length (chop_newline s) = 40 \<and> list_all lower_hex_char (chop_newline s))"

definition parse_resume_source :: "string \<Rightarrow> resume_source res" where
  "parse_resume_source raw =
     (case partition_at CHR '':'' raw of
        None \<Rightarrow> Inl ValueError
      | Some (scheme, rest) \<Rightarrow>
          (if scheme = ''sha''
           then if \<not> hex40_match rest then Inl ValueError else Inr (ShaSource rest)
           else if scheme = ''path''
           then if rest = [] then Inl ValueError else Inr (PathSource rest)
           else Inl ValueError))"

section \<open>Resolving it\<close>

definition is_digit :: "char \<Rightarrow> bool" where
  "is_digit c = (digit_value c \<noteq> None)"

text \<open>\<open>Path(p).name\<close>: the last component that is neither empty nor a single dot.\<close>

function components :: "string \<Rightarrow> string list" where
  "components s = (case partition_at CHR ''/'' s of None \<Rightarrow> [s] | Some (a, b) \<Rightarrow> a # components b)"
  by pat_completeness auto

lemma partition_at_length: "partition_at c s = Some (a, b) \<Longrightarrow> length b < length s"
  by (induction s arbitrary: a) (auto split: if_splits)

termination components
  by (relation "measure length") (auto dest: partition_at_length)

declare components.simps [simp del]

definition path_name :: "string \<Rightarrow> string" where
  "path_name p = (let cs = filter (\<lambda>c. c \<noteq> [] \<and> c \<noteq> ''.'') (components p) in
     if cs = [] then [] else List.last cs)"

text \<open>\<open>^ckpt_(\d+)$\<close>, giving the digits as a number.\<close>

definition ckpt_dirname :: "string \<Rightarrow> int option" where
  "ckpt_dirname name =
     (let body = chop_newline name; ds = drop 5 body in
      if take 5 body = ''ckpt_'' \<and> ds \<noteq> [] \<and> list_all is_digit ds
      then map_option int (parse_digits 0 False ds) else None)"

text \<open>
  \<open>^checkpoint\s+(\d+)\s*$\<close> without regard to case: after the word, at least one space, then digits,
  then nothing but spaces.
\<close>

definition ckpt_title :: "string \<Rightarrow> int option" where
  "ckpt_title title =
     (let rest = drop 10 title; body = dropWhile py_space rest;
          ds = takeWhile is_digit body; tail = dropWhile is_digit body in
      if lower (take 10 title) = ''checkpoint'' \<and> body \<noteq> rest \<and> ds \<noteq> [] \<and> list_all py_space tail
      then map_option int (parse_digits 0 False ds) else None)"

text \<open>
  The two callables may be absent. The commit list gives the title of a revision, the download
  its local directory.
\<close>

definition resolve_resume_source :: "(string \<Rightarrow> string \<Rightarrow> string res) option \<Rightarrow> (string \<Rightarrow> string \<Rightarrow> string res) option
    \<Rightarrow> string \<Rightarrow> resume_source \<Rightarrow> (string \<times> int) res" where
  "resolve_resume_source download_fn commit_title_fn repo source =
     (case source of
        PathSource p \<Rightarrow> (case ckpt_dirname (path_name p) of None \<Rightarrow> Inl ValueError | Some n \<Rightarrow> Inr (p, n))
      | ShaSource sha \<Rightarrow>
          (case (download_fn, commit_title_fn) of
             (Some download, Some commit_title) \<Rightarrow>
               rbind (commit_title repo sha) (\<lambda>title.
               case ckpt_title title of None \<Rightarrow> Inl ValueError
               | Some n \<Rightarrow> rbind (download repo sha) (\<lambda>path. Inr (path, n)))
           | _ \<Rightarrow> Inl RuntimeError))"

section \<open>Lemmas\<close>

lemma partition_at_append:
  "partition_at c (s @ c # t) =
     (case partition_at c s of None \<Rightarrow> Some (s, t) | Some (a, b) \<Rightarrow> Some (a, b @ c # t))"
  by (induction s) (auto split: option.split)

lemma partition_at_None: "partition_at c s = None \<longleftrightarrow> c \<notin> set s"
  by (induction s) auto

lemma components_append: "CHR ''/'' \<notin> set t \<Longrightarrow> components (s @ CHR ''/'' # t) = components s @ [t]"
proof (induction s rule: components.induct)
  case (1 s)
  show ?case
  proof (cases "partition_at CHR ''/'' s")
    case None
    moreover have "components t = [t]" using iffD2 [OF partition_at_None "1.prems"]
      by (subst components.simps) simp
    ultimately show ?thesis by (subst (1 2) components.simps) (simp add: partition_at_append)
  next
    case (Some ab)
    then show ?thesis using "1.IH" [OF Some _ "1.prems"]
      by (subst (1 2) components.simps) (cases ab, simp add: partition_at_append)
  qed
qed

lemma path_name_append:
  "CHR ''/'' \<notin> set t \<Longrightarrow> t \<noteq> [] \<Longrightarrow> t \<noteq> ''.'' \<Longrightarrow> path_name (s @ CHR ''/'' # t) = t"
  by (simp add: path_name_def components_append)

lemma digit_plain:
  assumes "c \<in> set (str_nat n)"
  shows "is_digit c \<and> c \<noteq> CHR ''/'' \<and> c \<noteq> newline \<and> \<not> py_space c"
proof -
  obtain d where d: "d < 10" "c = digit_char d" using str_nat_digits [OF assms] by blast
  have "list_all (\<lambda>d. is_digit (digit_char d) \<and> digit_char d \<noteq> CHR ''/'' \<and> digit_char d \<noteq> newline
      \<and> \<not> py_space (digit_char d)) [0..<10]" by code_simp
  with d show ?thesis by (auto simp: list_all_iff)
qed

lemma str_nat_nonempty: "str_nat n \<noteq> []"
  using digits_rev_nonempty [of n] by (simp add: str_nat_def)

lemma chop_newline_digits: "chop_newline (s @ str_nat n) = s @ str_nat n"
  using digit_plain [of "List.last (str_nat n)" n] str_nat_nonempty [of n] by (auto simp: chop_newline_def)

lemma ckpt_dirname_roundtrip: "ckpt_dirname (''ckpt_'' @ str_nat n) = Some (int n)"
  using chop_newline_digits [of "''ckpt_''" n] digit_plain [of _ n]
  by (auto simp: ckpt_dirname_def Let_def str_nat_nonempty list_all_iff parse_str_nat)

lemma ckpt_title_roundtrip: "ckpt_title (''checkpoint '' @ str_nat n) = Some (int n)"
proof -
  have sp: "py_space CHR '' ''" by code_simp
  have l: "lower ''checkpoint'' = ''checkpoint''" by code_simp
  have "dropWhile py_space (str_nat n) = str_nat n" "takeWhile is_digit (str_nat n) = str_nat n"
    "dropWhile is_digit (str_nat n) = []"
    "list_all is_digit (str_nat n)"
    using digit_plain [of _ n] str_nat_nonempty [of n]
    by (auto simp: dropWhile_eq_self_iff takeWhile_eq_all_conv dropWhile_eq_Nil_conv list_all_iff)
  then show ?thesis using sp l by (simp add: ckpt_title_def Let_def str_nat_nonempty parse_str_nat del: takeWhile_eq_all_conv dropWhile_eq_Nil_conv)
qed

lemma publish_Inr:
  "publish save upload sign st n model = Inr (st', entry) \<longleftrightarrow>
     (\<exists>u revision signature. save (cs_staging_dir st @ ''/ckpt_'' @ str_int n) model = Inr u
        \<and> upload (cs_staging_dir st @ ''/ckpt_'' @ str_int n) (cs_repo_id st) (''checkpoint '' @ str_int n) = Inr revision
        \<and> manifest_signature sign n revision = Inr signature
        \<and> entry = \<lparr> me_checkpoint_n = n, me_repo_id = cs_repo_id st, me_revision = revision, me_signature = signature \<rparr>
        \<and> st' = st \<lparr> cs_current := Some entry \<rparr>)"
  by (auto simp: publish_def Let_def res_simps)

text \<open>
  A published checkpoint can be resumed from under its number, both ways: from the snapshot
  directory the validator wrote, and from the revision it uploaded, when the commit list
  gives that revision the title the upload was given.
\<close>

theorem publish_resume_roundtrip:
  assumes "0 \<le> n" and "publish save upload sign st n model = Inr (st', entry)"
    and "title (cs_repo_id st) (me_revision entry) = Inr (''checkpoint '' @ str_int n)"
    and "download (cs_repo_id st) (me_revision entry) = Inr dir"
  shows "current_manifest st' = Some entry \<and> me_checkpoint_n entry = n
    \<and> resolve_resume_source (Some download) (Some title) (cs_repo_id st) (ShaSource (me_revision entry)) = Inr (dir, n)
    \<and> resolve_resume_source None None (cs_repo_id st) (PathSource (cs_staging_dir st @ ''/ckpt_'' @ str_int n))
        = Inr (cs_staging_dir st @ ''/ckpt_'' @ str_int n, n)"
proof -
  have s: "str_int n = str_nat (nat n)" using assms(1) by (simp add: str_int_def)
  have "path_name (cs_staging_dir st @ CHR ''/'' # (''ckpt_'' @ str_nat (nat n))) = ''ckpt_'' @ str_nat (nat n)"
    by (rule path_name_append) (use digit_plain [of _ "nat n"] in auto)
  then show ?thesis using assms ckpt_dirname_roundtrip [of "nat n"] ckpt_title_roundtrip [of "nat n"]
    by (auto simp: publish_Inr current_manifest_def resolve_resume_source_def s)
qed

theorem publish_resume_roundtrip_witness:
  "\<exists>st entry. publish (\<lambda>d m. Inr ()) (\<lambda>d r t. Inr ''abc'') (\<lambda>m. Inr [7]) (CheckpointStore ''org/sn'' ''/tmp'') 12 () = Inr (st, entry)
     \<and> resolve_resume_source None None ''org/sn'' (PathSource ''/tmp/ckpt_12'') = Inr (''/tmp/ckpt_12'', 12)"
proof -
  obtain st entry where p: "publish (\<lambda>d m. Inr ()) (\<lambda>d r t. Inr ''abc'') (\<lambda>m. Inr [7]) (CheckpointStore ''org/sn'' ''/tmp'') 12 () = Inr (st, entry)"
    by (auto simp: publish_def manifest_signature_def Let_def)
  have "str_int 12 = ''12''" by code_simp
  then show ?thesis using p publish_resume_roundtrip [OF _ p, of "\<lambda>r v. Inr (''checkpoint '' @ str_int 12)" "\<lambda>r v. Inr ''d''" "''d''"]
    by (auto simp: CheckpointStore_def)
qed

lemma publish_signed:
  assumes "publish save upload sign st n model = Inr (st', entry)"
  shows "cs_current st' = Some entry \<and> me_checkpoint_n entry = n
    \<and> manifest_signature sign n (me_revision entry) = Inr (me_signature entry)
    \<and> cs_repo_id st' = cs_repo_id st \<and> cs_staging_dir st' = cs_staging_dir st"
  using assms by (auto simp: publish_Inr)

section \<open>Which sources are accepted\<close>

lemma partition_at_Some: "partition_at c s = Some (a, b) \<longleftrightarrow> s = a @ c # b \<and> c \<notin> set a"
proof (induction s arbitrary: a)
  case (Cons x xs)
  show ?case
  proof (cases "x = c")
    case True
    then show ?thesis by (cases a) auto
  next
    case False
    then show ?thesis using Cons.IH by (cases a) auto
  qed
qed simp

lemma chop_newline_split: "s = chop_newline s \<or> s = chop_newline s @ [newline]"
  by (cases s rule: rev_cases) (auto simp: chop_newline_def)

lemma lower_hex_newline: "\<not> lower_hex_char newline"
  by code_simp

lemma hex40_match_iff:
  "hex40_match s \<longleftrightarrow> (\<exists>h. length h = 40 \<and> list_all lower_hex_char h \<and> (s = h \<or> s = h @ [newline]))"
proof
  assume "hex40_match s"
  then show "\<exists>h. length h = 40 \<and> list_all lower_hex_char h \<and> (s = h \<or> s = h @ [newline])"
    using chop_newline_split [of s] unfolding hex40_match_def by blast
next
  assume "\<exists>h. length h = 40 \<and> list_all lower_hex_char h \<and> (s = h \<or> s = h @ [newline])"
  then obtain h where h: "length h = 40" "list_all lower_hex_char h" "s = h \<or> s = h @ [newline]" by blast
  have "h \<noteq> []" using h(1) by auto
  then have "List.last h \<in> set h" by simp
  then have "List.last h \<noteq> newline" using h(2) lower_hex_newline by (auto simp: list_all_iff)
  then have "chop_newline h = h" by (simp add: chop_newline_def)
  moreover have "chop_newline (h @ [newline]) = h" by (simp add: chop_newline_def)
  ultimately show "hex40_match s" using h unfolding hex40_match_def by metis
qed

text \<open>
  Which resume sources are accepted. A commit source is forty lower-case hexadecimal digits, with or
  without one newline after them (the pattern's end anchor lets it through, and it stays in
  the revision that is then looked up and published); a path source is any non-empty text.
\<close>

theorem resume_sources_accepted:
  "(parse_resume_source raw = Inr (ShaSource s) \<longleftrightarrow>
      raw = ''sha:'' @ s \<and> (\<exists>h. length h = 40 \<and> list_all lower_hex_char h \<and> (s = h \<or> s = h @ [newline])))
   \<and> (parse_resume_source raw = Inr (PathSource p) \<longleftrightarrow> raw = ''path:'' @ p \<and> p \<noteq> [])"
proof -
  have sha: "partition_at CHR '':'' raw = Some (''sha'', s) \<longleftrightarrow> raw = ''sha:'' @ s"
    and path: "partition_at CHR '':'' raw = Some (''path'', s) \<longleftrightarrow> raw = ''path:'' @ s" for s
    by (auto simp: partition_at_Some)
  have a: "parse_resume_source raw = Inr (ShaSource s) \<longleftrightarrow>
      partition_at CHR '':'' raw = Some (''sha'', s) \<and> hex40_match s"
    by (auto simp: parse_resume_source_def split: option.splits if_splits)
  have b: "parse_resume_source raw = Inr (PathSource p) \<longleftrightarrow>
      partition_at CHR '':'' raw = Some (''path'', p) \<and> p \<noteq> []"
    by (auto simp: parse_resume_source_def split: option.splits if_splits)
  show ?thesis unfolding a b sha path hex40_match_iff by blast
qed

end
