(* ===== verification/Server.thy ===== *)
theory Server
  imports Batcher Checkpoint
begin

text \<open>
  \<open>reliquary/validator/server.py\<close>: the HTTP face of the validator. Batchers are shared objects: the service, the
  server and the queue hold references to them, so they live in a store (\<open>batchers\<close>, a reference is an
  index) and every handler takes and returns it. Each handler is one step: the event loop runs
  a handler to its next \<open>await\<close> and the queue is unbounded, so \<open>put\<close> does not wait. An \<open>HTTPException\<close> is
  the exception with its status.
\<close>

type_synonym ref = nat
type_synonym 'p batchers = "('p batcher_env \<times> batcher) list"

record server =
  srv_active :: "ref option"
  srv_state :: window_state
  srv_checkpoint :: "manifest_entry option"
  srv_queue :: "(batch_submission_request \<times> ref) list"
  srv_worker :: bool
  srv_serving :: bool

definition ValidatorServer :: server where
  "ValidatorServer = \<lparr> srv_active = None, srv_state = READY, srv_checkpoint = None, srv_queue = [],
     srv_worker = False, srv_serving = False \<rparr>"

definition set_active_batcher :: "ref option \<Rightarrow> server \<Rightarrow> server" where
  "set_active_batcher r srv = srv \<lparr> srv_active := r \<rparr>"

definition set_current_state :: "window_state \<Rightarrow> server \<Rightarrow> server" where
  "set_current_state st srv = srv \<lparr> srv_state := st \<rparr>"

definition set_current_checkpoint :: "manifest_entry \<Rightarrow> server \<Rightarrow> server" where
  "set_current_checkpoint entry srv = srv \<lparr> srv_checkpoint := Some entry \<rparr>"

section \<open>Handlers\<close>

definition health :: "'p batchers \<Rightarrow> server \<Rightarrow> string \<times> int option" where
  "health bs srv = (''ok'', map_option (\<lambda>r. bt_window_start (snd (bs ! r))) (srv_active srv))"

text \<open>Running the verification of a request on the batcher a reference names.\<close>

definition accept_on :: "cooldown_map \<Rightarrow> real \<Rightarrow> 'p batchers \<Rightarrow> ref \<Rightarrow> batch_submission_request
    \<Rightarrow> ('p batchers \<times> batch_submission_response) res" where
  "accept_on cm now bs r req =
     rbind (accept_submission (fst (bs ! r)) cm now (snd (bs ! r)) req) (\<lambda>(b, resp).
       Inr (bs [r := (fst (bs ! r), b)], resp))"

definition submit :: "cooldown_map \<Rightarrow> real \<Rightarrow> 'p batchers \<Rightarrow> server \<Rightarrow> batch_submission_request
    \<Rightarrow> (server \<times> 'p batchers \<times> batch_submission_response) res" where
  "submit cm now bs srv req =
     (if srv_state srv \<noteq> OPEN then Inr (srv, bs, \<lparr> br_accepted = False, br_reason = WINDOW_NOT_ACTIVE \<rparr>)
      else case srv_active srv of
          None \<Rightarrow> Inl (HTTPException 503)
        | Some r \<Rightarrow>
            if bs_window_start req \<noteq> bt_window_start (snd (bs ! r)) then Inl (HTTPException 409)
            else if \<not> srv_worker srv
              then rbind (accept_on cm now bs r req) (\<lambda>(bs1, resp). Inr (srv, bs1, resp))
            else Inr (srv \<lparr> srv_queue := srv_queue srv @ [(req, r)] \<rparr>, bs,
                      \<lparr> br_accepted = True, br_reason = ACCEPTED \<rparr>))"

definition state_view :: "cooldown_map \<Rightarrow> 'p batchers \<Rightarrow> server \<Rightarrow> grpo_batch_state res" where
  "state_view cm bs srv =
     (case srv_active srv of None \<Rightarrow> Inl (HTTPException 503)
      | Some r \<Rightarrow>
          (let b = snd (bs ! r); cp = srv_checkpoint srv in
           Inr \<lparr> gs_state = srv_state srv, gs_window_n = bt_window_start b, gs_anchor_block = bt_window_start b,
                 gs_cooldown_prompts = sorted_list_of_set (current_cooldown_set cm (bt_window_start b)),
                 gs_valid_submissions = int (length (bt_valid b)),
                 gs_checkpoint_n = (case cp of None \<Rightarrow> 0 | Some e \<Rightarrow> me_checkpoint_n e),
                 gs_checkpoint_repo_id = map_option me_repo_id cp, gs_checkpoint_revision = map_option me_revision cp,
                 gs_protocol_version = None, gs_generation_profile_id = None, gs_generation_contract = None,
                 gs_randomness = [] \<rparr>))"

definition checkpoint_view :: "server \<Rightarrow> manifest_entry res" where
  "checkpoint_view srv = (case srv_checkpoint srv of None \<Rightarrow> Inl (HTTPException 404) | Some e \<Rightarrow> Inr e)"

section \<open>The worker\<close>

text \<open>
  One turn of \<open>_submit_worker\<close>: the verdict goes to the log only, an exception is logged and
  leaves the batcher as it was.
\<close>

definition submit_worker :: "cooldown_map \<Rightarrow> real \<Rightarrow> 'p batchers \<Rightarrow> server \<Rightarrow> server \<times> 'p batchers" where
  "submit_worker cm now bs srv =
     (case srv_queue srv of
        [] \<Rightarrow> (srv, bs)
      | (req, r) # rest \<Rightarrow>
          (srv \<lparr> srv_queue := rest \<rparr>,
           case accept_on cm now bs r req of Inl e \<Rightarrow> bs | Inr (bs1, resp) \<Rightarrow> bs1))"

definition start :: "server \<Rightarrow> server" where
  "start srv = (if srv_serving srv then srv else srv \<lparr> srv_serving := True, srv_worker := True \<rparr>)"

definition stop :: "server \<Rightarrow> server" where
  "stop srv = srv \<lparr> srv_worker := False, srv_serving := False \<rparr>"

section \<open>What a submission can reach\<close>

text \<open>Every queued request was addressed to the window of the batcher it is queued for.\<close>

definition queue_ok :: "'p batchers \<Rightarrow> server \<Rightarrow> bool" where
  "queue_ok bs srv =
     ((\<forall>(req, r) \<in> set (srv_queue srv). r < length bs \<and> bs_window_start req = bt_window_start (snd (bs ! r)))
      \<and> (\<forall>r. srv_active srv = Some r \<longrightarrow> r < length bs))"

lemma accept_keeps_window:
  assumes "accept_submission be cm now b req = Inr (b', resp)"
  shows "bt_window_start b' = bt_window_start b"
  using accept_outcome [OF assms] by (auto simp: reject_def admit_def)

lemma accept_on_props:
  assumes "accept_on cm now bs r req = Inr (bs', resp)"
  shows "length bs' = length bs" and "map (bt_window_start \<circ> snd) bs' = map (bt_window_start \<circ> snd) bs"
    and "\<forall>i. i \<noteq> r \<longrightarrow> bs' ! i = bs ! i"
proof -
  obtain b where a: "accept_submission (fst (bs ! r)) cm now (snd (bs ! r)) req = Inr (b, resp)"
    "bs' = bs [r := (fst (bs ! r), b)]" using assms by (auto simp: accept_on_def res_simps)
  then show "length bs' = length bs" "\<forall>i. i \<noteq> r \<longrightarrow> bs' ! i = bs ! i" by simp_all
  show "map (bt_window_start \<circ> snd) bs' = map (bt_window_start \<circ> snd) bs"
  proof (rule nth_equalityI)
    show "length (map (bt_window_start \<circ> snd) bs') = length (map (bt_window_start \<circ> snd) bs)" using a(2) by simp
    show "map (bt_window_start \<circ> snd) bs' ! i = map (bt_window_start \<circ> snd) bs ! i"
      if "i < length (map (bt_window_start \<circ> snd) bs')" for i
      using that accept_keeps_window [OF a(1)] a(2) by (cases "i = r") simp_all
  qed
qed

lemma queue_ok_windows:
  assumes "length bs' = length bs" and "map (bt_window_start \<circ> snd) bs' = map (bt_window_start \<circ> snd) bs"
  shows "queue_ok bs' srv = queue_ok bs srv"
proof -
  have "bt_window_start (snd (bs' ! i)) = bt_window_start (snd (bs ! i))" if "i < length bs" for i
    using arg_cong [OF assms(2), of "\<lambda>ws. ws ! i"] that assms(1) by simp
  then show ?thesis by (auto simp: queue_ok_def assms(1))
qed

lemma submit_queue_ok:
  assumes "queue_ok bs srv" and "submit cm now bs srv req = Inr (srv', bs', resp)"
  shows "queue_ok bs' srv'"
proof (cases "srv_worker srv \<or> srv_state srv \<noteq> OPEN")
  case True
  then show ?thesis using assms by (auto simp: submit_def queue_ok_def split: if_splits option.splits)
next
  case False
  then obtain r where "accept_on cm now bs r req = Inr (bs', resp)" "srv' = srv"
    using assms(2) by (auto simp: submit_def res_simps split: if_splits option.splits)
  then show ?thesis using assms(1) queue_ok_windows [OF accept_on_props(1,2)] by blast
qed

lemma worker_queue_ok:
  assumes "queue_ok bs srv" and "submit_worker cm now bs srv = (srv', bs')"
  shows "queue_ok bs' srv' \<and> (\<forall>i. bs' ! i \<noteq> bs ! i \<longrightarrow> (\<exists>req. (req, i) \<in> set (srv_queue srv)))"
proof (cases "srv_queue srv")
  case Nil
  then show ?thesis using assms by (simp add: submit_worker_def)
next
  case (Cons qr rest)
  obtain req r where qr: "qr = (req, r)" by (cases qr)
  have ok: "queue_ok bs (srv \<lparr> srv_queue := rest \<rparr>)" using assms(1) Cons by (auto simp: queue_ok_def)
  show ?thesis
  proof (cases "accept_on cm now bs r req")
    case (Inl e)
    then show ?thesis using ok assms(2) Cons qr by (simp add: submit_worker_def)
  next
    case (Inr v)
    obtain bs1 resp where v: "v = (bs1, resp)" by (cases v)
    with Inr have a: "accept_on cm now bs r req = Inr (bs1, resp)" by simp
    have "srv' = srv \<lparr> srv_queue := rest \<rparr>" "bs' = bs1" using assms(2) Cons qr a by (simp_all add: submit_worker_def)
    then show ?thesis using ok queue_ok_windows [OF accept_on_props(1,2) [OF a]] accept_on_props(3) [OF a] Cons qr
      by auto
  qed
qed

text \<open>
  What the answer of \<open>/submit\<close> means. Outside the open state nothing changes and the answer is
  \<open>window_not_active\<close>; an accepted answer of a running server says only that the request, addressed to the
  active window, was appended to the queue with its batcher; no batcher is touched.
\<close>

theorem submit_answer:
  assumes "submit cm now bs srv req = Inr (srv', bs', resp)"
  shows "(srv_state srv \<noteq> OPEN \<longrightarrow> srv' = srv \<and> bs' = bs \<and> br_reason resp = WINDOW_NOT_ACTIVE \<and> \<not> br_accepted resp)
    \<and> (srv_worker srv \<longrightarrow> bs' = bs)
    \<and> (srv_worker srv \<and> br_accepted resp \<longrightarrow>
         (\<exists>r. srv_active srv = Some r \<and> bs_window_start req = bt_window_start (snd (bs ! r))
            \<and> srv' = srv \<lparr> srv_queue := srv_queue srv @ [(req, r)] \<rparr>))"
  using assms by (auto simp: submit_def split: if_splits option.splits)

text \<open>
  The provisional verdict is not the verdict. When a running server holds the open window and one of the
  cheap checks (checkpoint, prompt index, cooldown, claimed prompt) refuses a request addressed to it,
  the miner is still answered \<open>accepted\<close>, and the worker's next turn rejects the
  submission with that reason, which only the reject counts record.
\<close>

theorem accepted_answer_can_be_rejected:
  assumes "cheap_reject be cm b req = Some reason" and "bs_window_start req = bt_window_start b"
    and "srv_state srv = OPEN" and "srv_worker srv" and "srv_active srv = Some 0" and "srv_queue srv = []"
  shows "\<exists>srv1. submit cm now [(be, b)] srv req = Inr (srv1, [(be, b)], \<lparr> br_accepted = True, br_reason = ACCEPTED \<rparr>)
    \<and> submit_worker cm now [(be, b)] srv1 = (srv, [(be, fst (reject reason b))])"
proof -
  have "accept_submission be cm now b req = Inr (reject reason b)"
    using assms(1) by (simp add: accept_submission_def accept_locked_def)
  then show ?thesis using assms(2-6)
    by (simp add: submit_def submit_worker_def accept_on_def reject_def)
qed

section \<open>Concrete instances\<close>

definition toy_server :: server where
  "toy_server = \<lparr> srv_active = Some 0, srv_state = OPEN, srv_checkpoint = None, srv_queue = [], srv_worker = True,
     srv_serving = True \<rparr>"

theorem submit_answer_witness:
  "\<exists>srv. submit toy_cm 0 [(toy_be, GrpoWindowBatcher 7 0)] toy_server (toy_request [1])
       = Inr (srv, [(toy_be, GrpoWindowBatcher 7 0)], \<lparr> br_accepted = True, br_reason = ACCEPTED \<rparr>)
     \<and> srv_queue srv = [(toy_request [1], 0)]"
proof -
  obtain srv where a: "submit toy_cm 0 [(toy_be, GrpoWindowBatcher 7 0)] toy_server (toy_request [1])
       = Inr (srv, [(toy_be, GrpoWindowBatcher 7 0)], \<lparr> br_accepted = True, br_reason = ACCEPTED \<rparr>)"
    by (simp add: submit_def toy_server_def toy_request_def GrpoWindowBatcher_def)
  from submit_answer [OF a] have "srv_queue srv = [(toy_request [1], 0)]" by (auto simp: toy_server_def)
  with a show ?thesis by blast
qed

theorem accepted_answer_can_be_rejected_witness:
  "\<exists>srv1. submit toy_cm 0 [(toy_be, GrpoWindowBatcher 7 0 \<lparr> bt_claimed := [3] \<rparr>)] toy_server (toy_request [1])
       = Inr (srv1, [(toy_be, GrpoWindowBatcher 7 0 \<lparr> bt_claimed := [3] \<rparr>)], \<lparr> br_accepted = True, br_reason = ACCEPTED \<rparr>)
     \<and> submit_worker toy_cm 0 [(toy_be, GrpoWindowBatcher 7 0 \<lparr> bt_claimed := [3] \<rparr>)] srv1
       = (toy_server, [(toy_be, fst (reject SUPERSEDED (GrpoWindowBatcher 7 0 \<lparr> bt_claimed := [3] \<rparr>)))])"
  by (rule accepted_answer_can_be_rejected)
     (simp_all add: cheap_reject_def toy_request_def GrpoWindowBatcher_def toy_be_def toy_cm_def is_in_cooldown_def toy_server_def)

end
