(* ===== verification/Chain.thy ===== *)
theory Chain
  imports Crypto
begin

text \<open>
  \<open>reliquary/infrastructure/chain.py\<close>: what the validator and the miner derive from the chain
  and the randomness beacon, and how a chain call ends. A remote call is the value it returns or
  the exception it raises, \<open>Inl TimeoutError\<close> when \<open>asyncio.wait_for\<close> gives up.
\<close>

section \<open>Window randomness\<close>

text \<open>\<open>int // int\<close> with its exception.\<close>

definition floordiv :: "int \<Rightarrow> int \<Rightarrow> int res" where
  "floordiv a b = (if b = 0 then Inl ZeroDivisionError else Inr (a div b))"

definition compute_drand_round_for_window :: "int \<Rightarrow> int \<Rightarrow> int \<Rightarrow> int res" where
  "compute_drand_round_for_window window_start_block genesis_time period =
     (let ts = window_start_block * BLOCK_TIME_SECONDS in
      if ts < genesis_time then Inr 1
      else rbind (floordiv (ts - genesis_time) period) (\<lambda>q. Inr (1 + q)))"

text \<open>\<open>h.replace("0x", "")\<close>\<close>

definition drop_0x :: "string \<Rightarrow> string" where
  "drop_0x h = drop_pair (CHR ''0'') (CHR ''x'') h"

text \<open>An empty \<open>drand_randomness\<close> counts as none, as \<open>if drand_randomness\<close> reads it.\<close>

definition window_material :: "string option \<Rightarrow> string \<Rightarrow> int option \<Rightarrow> bytes res" where
  "window_material block_hash drand drand_round =
     rbind (case block_hash of None \<Rightarrow> Inr [] | Some h \<Rightarrow> fromhex (drop_0x h)) (\<lambda>m1.
     rbind (fromhex drand) (\<lambda>m2.
     rbind (case drand_round of None \<Rightarrow> Inr [] | Some r \<Rightarrow> to_bytes_be 8 r) (\<lambda>m3.
     Inr (m1 @ m2 @ m3))))"

definition compute_window_randomness :: "(bytes \<Rightarrow> bytes) \<Rightarrow> string option \<Rightarrow> string option \<Rightarrow> int option \<Rightarrow> string res" where
  "compute_window_randomness sha block_hash drand_randomness drand_round =
     (case drand_randomness of
        Some (c # cs) \<Rightarrow> rbind (window_material block_hash (c # cs) drand_round) (\<lambda>m. Inr (hex (sha m)))
      | _ \<Rightarrow> (case block_hash of None \<Rightarrow> Inl ValueError | Some h \<Rightarrow> Inr (drop_0x h)))"

text \<open>The clock is a \<open>float\<close>; its floor division and remainder by the integer period.\<close>

definition compute_current_drand_round :: "real \<Rightarrow> int \<Rightarrow> int \<Rightarrow> int res" where
  "compute_current_drand_round now genesis_time period =
     (if now < of_int genesis_time then Inr 1
      else if period = 0 then Inl ZeroDivisionError
      else Inr (1 + \<lfloor>(now - of_int genesis_time) / of_int period\<rfloor>))"

definition seconds_until_next_drand_boundary :: "real \<Rightarrow> int \<Rightarrow> int \<Rightarrow> real res" where
  "seconds_until_next_drand_boundary now genesis_time period =
     (if now < of_int genesis_time then Inr (of_int genesis_time - now)
      else if period = 0 then Inl ZeroDivisionError
      else (let elapsed = now - of_int genesis_time;
                rm = elapsed - of_int period * of_int \<lfloor>elapsed / of_int period\<rfloor> in
            if rm = 0 then Inr 0 else Inr (of_int period - rm)))"

section \<open>Chain calls\<close>

text \<open>
  The response of \<open>subtensor.set_weights\<close>: its \<open>success\<close> attribute, absent or not. A
  timeout is raised on, any other exception becomes a failed submission.
\<close>

definition set_weights :: "bool option res \<Rightarrow> bool res" where
  "set_weights outcome =
     (case outcome of
        Inl TimeoutError \<Rightarrow> Inl TimeoutError
      | Inl e \<Rightarrow> Inr False
      | Inr None \<Rightarrow> Inr False
      | Inr (Some success) \<Rightarrow> Inr success)"

text \<open>A close that fails or times out is logged and forgotten; nothing to close is fine too.\<close>

definition close_subtensor :: "'s option \<Rightarrow> ('s \<Rightarrow> unit res) \<Rightarrow> unit res" where
  "close_subtensor subtensor close =
     (case subtensor of None \<Rightarrow> Inr ()
      | Some s \<Rightarrow> (case close s of Inl e \<Rightarrow> Inr () | Inr u \<Rightarrow> Inr u))"

section \<open>Lemmas\<close>

lemma set_weights_true: "set_weights r = Inr True \<longleftrightarrow> r = Inr (Some True)"
  by (auto simp: set_weights_def split: sum.splits option.splits py_error.splits)

lemma drand_round_pos:
  assumes "compute_drand_round_for_window w g p = Inr r" and "0 < p"
  shows "1 \<le> r"
  using assms by (auto simp: compute_drand_round_for_window_def Let_def floordiv_def res_simps
      pos_imp_zdiv_nonneg_iff split: if_splits)

lemma drand_round_mono:
  assumes "0 < p" and "w \<le> w'" and "compute_drand_round_for_window w g p = Inr r"
    and "compute_drand_round_for_window w' g p = Inr r'"
  shows "r \<le> r'"
  using assms drand_round_pos [OF assms(4,1)]
  by (auto simp: compute_drand_round_for_window_def Let_def floordiv_def BLOCK_TIME_SECONDS_def
      res_simps split: if_splits intro!: zdiv_mono1)

text \<open>
  The round in progress is the last one whose start lies at or before the clock, and the wait
  for the next boundary ends exactly at the start of a round.
\<close>

definition round_start :: "int \<Rightarrow> int \<Rightarrow> int \<Rightarrow> int" where
  "round_start genesis_time period r = genesis_time + (r - 1) * period"

lemma floor_div_bounds:
  fixes e :: real
  assumes "0 < p"
  shows "of_int p * of_int \<lfloor>e / of_int p\<rfloor> \<le> e" and "e < of_int p * (of_int \<lfloor>e / of_int p\<rfloor> + 1)"
proof -
  have p: "0 < real_of_int p" using assms by simp
  have "of_int \<lfloor>e / of_int p\<rfloor> \<le> e / of_int p" "e / of_int p < of_int \<lfloor>e / of_int p\<rfloor> + 1" by linarith+
  then show "of_int p * of_int \<lfloor>e / of_int p\<rfloor> \<le> e" "e < of_int p * (of_int \<lfloor>e / of_int p\<rfloor> + 1)"
    unfolding pos_le_divide_eq [OF p] pos_divide_less_eq [OF p] by (simp_all add: mult.commute)
qed

text \<open>
  The round in progress brackets the clock: once the beacon's genesis has passed, the
  round the validator computes for a time has started by then and the next has not, and
  waiting for the boundary takes less than a period and ends exactly at the start of a round.
\<close>

theorem current_round_brackets_clock:
  assumes "0 < period" and "of_int genesis \<le> now"
    and "compute_current_drand_round now genesis period = Inr r"
    and "seconds_until_next_drand_boundary now genesis period = Inr wait"
  shows "1 \<le> r \<and> of_int (round_start genesis period r) \<le> now \<and> now < of_int (round_start genesis period (r + 1))
    \<and> 0 \<le> wait \<and> wait < of_int period
    \<and> (now + wait = of_int (round_start genesis period r) \<or> now + wait = of_int (round_start genesis period (r + 1)))"
proof -
  let ?e = "now - of_int genesis" and ?q = "\<lfloor>(now - of_int genesis) / of_int period\<rfloor>"
  have r: "r = 1 + ?q" using assms(1-3) by (simp add: compute_current_drand_round_def)
  have q: "0 \<le> ?q" using assms(1,2) by (simp add: zero_le_floor)
  note b = floor_div_bounds [OF assms(1), of ?e]
  have w: "wait = (if ?e - of_int period * of_int ?q = 0 then 0 else of_int period - (?e - of_int period * of_int ?q))"
    using assms(1,2,4) by (auto simp: seconds_until_next_drand_boundary_def Let_def split: if_splits)
  show ?thesis using q b unfolding r w by (auto simp: round_start_def algebra_simps)
qed

theorem current_round_brackets_clock_witness:
  "1 \<le> (4::int) \<and> of_int (round_start 100 3 4) \<le> (110::real) \<and> (110::real) < of_int (round_start 100 3 (4 + 1))
    \<and> 0 \<le> (2::real) \<and> (2::real) < of_int 3
    \<and> ((110::real) + 2 = of_int (round_start 100 3 4) \<or> (110::real) + 2 = of_int (round_start 100 3 (4 + 1)))"
proof -
  have "\<lfloor>10 / 3 :: real\<rfloor> = 3" by (simp add: floor_eq_iff)
  then have "compute_current_drand_round 110 100 3 = Inr 4" "seconds_until_next_drand_boundary 110 100 3 = Inr 2"
    by (simp_all add: compute_current_drand_round_def seconds_until_next_drand_boundary_def Let_def)
  from current_round_brackets_clock [OF _ _ this] show ?thesis by (simp add: round_start_def)
qed

end
