(* ===== verification/Ema.thy ===== *)
theory Ema
  imports BatchSelection Chain "HOL-Library.Multiset"
begin

text \<open>
  The miners' scores: the moving average that \<open>ValidationService._update_ema\<close> keeps live, that
  \<open>_replay_ema\<close> of the service and of the weight-only validator rebuild from the archive, and the
  weights that \<open>_submit_weights\<close> of both derive from it. A score is a real in insertion order
  of the hotkeys. The code iterates over a Python set, in an order that the language leaves open: \<open>ord\<close> is
  that order, any function that permutes its list.
\<close>

type_synonym scores = "(string, real) dict"

definition orders :: "(string list \<Rightarrow> string list) \<Rightarrow> bool" where
  "orders ord = (\<forall>xs. mset (ord xs) = mset xs)"

text \<open>\<open>window_contribs[hotkey] += 1\<close> on a \<open>defaultdict(int)\<close>.\<close>

definition window_contribs :: "string list \<Rightarrow> (string, int) dict" where
  "window_contribs hks = foldl (\<lambda>d hk. dset hk (dget d hk 0 + 1) d) [] hks"

definition all_hotkeys :: "(string list \<Rightarrow> string list) \<Rightarrow> scores \<Rightarrow> (string, int) dict \<Rightarrow> string list" where
  "all_hotkeys ord ema contribs = ord (remdups (dkeys ema @ dkeys contribs))"

definition blend :: "int \<Rightarrow> real \<Rightarrow> real" where
  "blend n old = EMA_ALPHA * (of_int n / of_int B_BATCH) + (1 - EMA_ALPHA) * old"

definition prune :: "scores \<Rightarrow> scores" where
  "prune ema = filter (\<lambda>(hk, v). 1 / 10 ^ 6 < v) ema"

text \<open>The service reads \<open>ema[hk]\<close> of a \<open>defaultdict\<close>, which inserts the zero it returns.\<close>

definition default_get :: "scores \<Rightarrow> string \<Rightarrow> scores \<times> real" where
  "default_get ema hk = (case map_of ema hk of None \<Rightarrow> (dset hk 0 ema, 0) | Some v \<Rightarrow> (ema, v))"

definition service_blend :: "(string, int) dict \<Rightarrow> scores \<Rightarrow> string \<Rightarrow> scores" where
  "service_blend contribs ema hk =
     (let (ema1, old) = default_get ema hk in dset hk (blend (dget contribs hk 0) old) ema1)"

definition service_ema_window :: "(string list \<Rightarrow> string list) \<Rightarrow> scores \<Rightarrow> string list \<Rightarrow> scores" where
  "service_ema_window ord ema hks =
     (let contribs = window_contribs hks in
      prune (foldl (service_blend contribs) ema (all_hotkeys ord ema contribs)))"

definition update_ema :: "(string list \<Rightarrow> string list) \<Rightarrow> scores \<Rightarrow> 'a submission_like_scheme list \<Rightarrow> scores" where
  "update_ema ord ema batch = service_ema_window ord ema (map hotkey batch)"

definition archive_hotkeys :: "archive \<Rightarrow> string list" where
  "archive_hotkeys r = map ae_hotkey (aw_batch r)"

definition replay_ema :: "(string list \<Rightarrow> string list) \<Rightarrow> archive list \<Rightarrow> scores" where
  "replay_ema ord archives =
     foldl (\<lambda>ema r. service_ema_window ord ema (archive_hotkeys r)) [] (sort_key aw_window_start archives)"

text \<open>The weight-only validator has a plain dictionary and reads \<open>ema.get(hk, 0.0)\<close>.\<close>

definition weight_only_blend :: "(string, int) dict \<Rightarrow> scores \<Rightarrow> string \<Rightarrow> scores" where
  "weight_only_blend contribs ema hk = dset hk (blend (dget contribs hk 0) (dget ema hk 0)) ema"

definition weight_only_window :: "(string list \<Rightarrow> string list) \<Rightarrow> scores \<Rightarrow> string list \<Rightarrow> scores" where
  "weight_only_window ord ema hks =
     (let contribs = window_contribs hks in
      prune (foldl (weight_only_blend contribs) ema (all_hotkeys ord ema contribs)))"

definition weight_only_replay :: "(string list \<Rightarrow> string list) \<Rightarrow> archive list \<Rightarrow> scores" where
  "weight_only_replay ord archives =
     foldl (\<lambda>ema r. weight_only_window ord ema (archive_hotkeys r)) [] (sort_key aw_window_start archives)"

section \<open>Weights\<close>

definition score_total :: "scores \<Rightarrow> real" where
  "score_total ema = sum_list (map snd ema)"

definition burn_weight :: "scores \<Rightarrow> real" where
  "burn_weight ema = max 0 (1 - score_total ema)"

text \<open>\<open>dict(zip(meta.hotkeys, meta.uids))\<close>: a repeated hotkey keeps its last uid.\<close>

definition hotkey_to_uid :: "string list \<Rightarrow> int list \<Rightarrow> (string, int) dict" where
  "hotkey_to_uid hotkeys uids = foldl (\<lambda>d (hk, u). dset hk u d) [] (zip hotkeys uids)"

definition weight_vector :: "(string, int) dict \<Rightarrow> scores \<Rightarrow> real \<Rightarrow> (int \<times> real) list" where
  "weight_vector uid_of weights burn =
     List.map_filter (\<lambda>(hk, w). case map_of uid_of hk of None \<Rightarrow> None
        | Some u \<Rightarrow> if 0 < w then Some (u, w) else None) weights
     @ (if 0 < burn then [(UID_BURN, burn)] else [])"

text \<open>
  Submitting: the metagraph is read first, an empty vector counts as done, and the chain's
  answer decides otherwise. \<open>chain\<close> gives the outcome of the extrinsic.
\<close>

definition submit_weights :: "(string list \<times> int list) res \<Rightarrow> ((int \<times> real) list \<Rightarrow> bool option res) \<Rightarrow> scores \<Rightarrow> real
    \<Rightarrow> bool res" where
  "submit_weights metagraph chain weights burn =
     rbind metagraph (\<lambda>(hotkeys, uids).
     (let vec = weight_vector (hotkey_to_uid hotkeys uids) weights burn in
      if vec = [] then Inr True else set_weights (chain vec)))"

section \<open>One window, hotkey by hotkey\<close>

definition prune_value :: "real \<Rightarrow> real" where
  "prune_value v = (if 1 / 10 ^ 6 < v then v else 0)"

lemma orders_set: "orders ord \<Longrightarrow> set (ord xs) = set xs"
  by (metis orders_def set_mset_mset)

lemma orders_distinct: "orders ord \<Longrightarrow> distinct xs \<Longrightarrow> distinct (ord xs)"
  by (metis orders_def mset_eq_imp_distinct_iff)

lemma service_blend_eq: "service_blend contribs ema hk = weight_only_blend contribs ema hk"
proof -
  have "dset hk v (dset hk u d) = dset hk v d" for u v :: real and d
    by (induction d) auto
  then show ?thesis
    by (simp add: service_blend_def weight_only_blend_def default_get_def dget_def split: option.split)
qed

lemma service_window_eq: "service_ema_window ord ema hks = weight_only_window ord ema hks"
proof -
  have "service_blend c = weight_only_blend c" for c by (intro ext service_blend_eq)
  then show ?thesis by (simp add: service_ema_window_def weight_only_window_def)
qed

lemma contribs_count_acc:
  "dget (foldl (\<lambda>d hk. dset hk (dget d hk 0 + 1) d) d0 hks) hk 0 = dget d0 hk 0 + int (count_list hks hk)"
  by (induction hks arbitrary: d0) (auto simp: dget_dset)

lemma contribs_count: "dget (window_contribs hks) hk 0 = int (count_list hks hk)"
  by (simp add: window_contribs_def contribs_count_acc) (simp add: dget_def)

lemma contribs_keys_acc: "fst ` set (foldl (\<lambda>d hk. dset hk (dget d hk 0 + 1) d) d0 hks) = fst ` set d0 \<union> set hks"
  by (induction hks arbitrary: d0) auto

lemma contribs_keys: "fst ` set (window_contribs hks) = set hks"
  by (simp add: window_contribs_def contribs_keys_acc)

lemma blends_value:
  assumes "distinct ks"
  shows "dget (foldl (weight_only_blend c) e ks) k 0 = (if k \<in> set ks then blend (dget c k 0) (dget e k 0) else dget e k 0)"
  using assms by (induction ks arbitrary: e) (auto simp: weight_only_blend_def dget_dset)

lemma blends_keys: "fst ` set (foldl (weight_only_blend c) e ks) = fst ` set e \<union> set ks"
  by (induction ks arbitrary: e) (auto simp: weight_only_blend_def)

lemma blends_ok: "dict_ok e \<Longrightarrow> dict_ok (foldl (weight_only_blend c) e ks)"
  by (induction ks arbitrary: e) (auto simp: weight_only_blend_def)

lemma dget_absent: "k \<notin> fst ` set d \<Longrightarrow> dget d k v = v"
  using iffD2 [OF map_of_eq_None_iff, of k d] by (simp add: dget_def)

lemma prune_get: "dict_ok e \<Longrightarrow> dget (prune e) k 0 = prune_value (dget e k 0)"
  by (auto simp: prune_def dget_def map_of_filter_ok prune_value_def split: option.split)

lemma all_hotkeys_props:
  assumes "orders ord"
  shows "set (all_hotkeys ord e c) = fst ` set e \<union> fst ` set c" and "distinct (all_hotkeys ord e c)"
  using assms by (simp_all add: all_hotkeys_def orders_set orders_distinct dkeys_def)

lemma window_ok: "dict_ok e \<Longrightarrow> dict_ok (weight_only_window ord e hks)"
  by (simp add: weight_only_window_def prune_def blends_ok Let_def)

lemma window_value:
  assumes "orders ord" and "dict_ok e"
  shows "dget (weight_only_window ord e hks) k 0 = prune_value (blend (int (count_list hks k)) (dget e k 0))"
proof -
  let ?c = "window_contribs hks"
  note ks = all_hotkeys_props [OF assms(1), of e ?c]
  have "dget (foldl (weight_only_blend ?c) e (all_hotkeys ord e ?c)) k 0 = blend (int (count_list hks k)) (dget e k 0)"
  proof (cases "k \<in> set (all_hotkeys ord e ?c)")
    case False
    then have "k \<notin> fst ` set e" "k \<notin> set hks" unfolding ks(1) contribs_keys by simp_all
    then show ?thesis using False ks(2) by (simp add: blends_value dget_absent blend_def count_list_0_iff)
  qed (simp add: blends_value ks(2) contribs_count)
  then show ?thesis using assms(2) by (simp add: weight_only_window_def prune_get blends_ok Let_def)
qed

lemma window_keys:
  assumes "orders ord"
  shows "fst ` set (weight_only_window ord e hks) \<subseteq> fst ` set e \<union> set hks"
proof -
  let ?f = "foldl (weight_only_blend (window_contribs hks)) e (all_hotkeys ord e (window_contribs hks))"
  have "fst ` set (prune ?f) \<subseteq> fst ` set ?f" by (auto simp: prune_def)
  also have "\<dots> = fst ` set e \<union> set hks" using all_hotkeys_props(1) [OF assms] by (auto simp: blends_keys contribs_keys)
  finally show ?thesis by (simp add: weight_only_window_def Let_def)
qed

section \<open>Scores stay a distribution\<close>

definition scores_ok :: "scores \<Rightarrow> bool" where
  "scores_ok e = (dict_ok e \<and> (\<forall>(k, v) \<in> set e. 1 / 10 ^ 6 < v) \<and> score_total e \<le> 1)"

lemma score_total_sum: "dict_ok e \<Longrightarrow> finite A \<Longrightarrow> fst ` set e \<subseteq> A \<Longrightarrow> score_total e = (\<Sum>k\<in>A. dget e k 0)"
proof (induction e arbitrary: A)
  case Nil
  then show ?case by (simp add: score_total_def dget_def)
next
  case (Cons p e)
  have new: "fst p \<notin> fst ` set e" using Cons.prems(1) by (auto simp: dict_ok_def)
  have "score_total e = (\<Sum>k\<in>A - {fst p}. dget e k 0)"
  proof (rule Cons.IH)
    have "fst ` set e \<subseteq> A" using Cons.prems(3) by simp
    then show "fst ` set e \<subseteq> A - {fst p}" using new by blast
  qed (use Cons.prems in \<open>simp_all add: dict_ok_def\<close>)
  also have "\<dots> = (\<Sum>k\<in>A - {fst p}. dget (p # e) k 0)"
    by (rule sum.cong) (cases p, auto simp: dget_def)
  also have "\<dots> + snd p = (\<Sum>k\<in>A. dget (p # e) k 0)"
  proof -
    have "dget (p # e) (fst p) 0 = snd p" by (cases p) (simp add: dget_def)
    moreover have "fst p \<in> A" using Cons.prems(3) by auto
    ultimately show ?thesis using Cons.prems(2) sum.remove [of A "fst p" "\<lambda>k. dget (p # e) k 0"] by simp
  qed
  finally show ?case by (simp add: score_total_def)
qed

lemma scores_pos: "scores_ok e \<Longrightarrow> \<forall>(hk, v) \<in> set e. 0 < v"
  by (fastforce simp: scores_ok_def)

lemma score_nonneg: "scores_ok e \<Longrightarrow> 0 \<le> dget e k 0"
  by (force simp: scores_ok_def dget_def dest: map_of_SomeD split: option.split)

lemma sum_counts: "finite A \<Longrightarrow> set hks \<subseteq> A \<Longrightarrow> (\<Sum>k\<in>A. count_list hks k) = length hks"
  by (metis sum_count_set)

lemma prune_value_le: "0 \<le> v \<Longrightarrow> prune_value v \<le> v"
  by (simp add: prune_value_def)

lemma alpha_bounds: "0 < EMA_ALPHA" "EMA_ALPHA < 1"
  by (simp_all add: EMA_ALPHA_def)

lemma blend_nonneg: "0 \<le> n \<Longrightarrow> 0 \<le> v \<Longrightarrow> 0 \<le> blend n v"
  using alpha_bounds by (simp add: blend_def B_BATCH_def)

lemma window_scores_ok:
  assumes "orders ord" and "scores_ok e" and "length hks \<le> 8"
  shows "scores_ok (weight_only_window ord e hks)"
    and "score_total (weight_only_window ord e hks) \<le> EMA_ALPHA * (length hks / 8) + (1 - EMA_ALPHA) * score_total e"
proof -
  let ?w = "weight_only_window ord e hks"
  have ok: "dict_ok e" using assms(2) by (simp add: scores_ok_def)
  define A where "A = fst ` set e \<union> set hks"
  have A: "finite A" "fst ` set e \<subseteq> A" "set hks \<subseteq> A" by (simp_all add: A_def)
  have sub: "fst ` set ?w \<subseteq> A"
    using window_keys [OF assms(1)] unfolding A_def .
  have "score_total ?w = (\<Sum>k\<in>A. prune_value (blend (int (count_list hks k)) (dget e k 0)))"
    using score_total_sum [OF window_ok [OF ok] A(1) sub] by (simp add: window_value [OF assms(1) ok])
  also have "\<dots> \<le> (\<Sum>k\<in>A. blend (int (count_list hks k)) (dget e k 0))"
    using score_nonneg [OF assms(2)] by (intro sum_mono prune_value_le blend_nonneg) simp_all
  also have "\<dots> = EMA_ALPHA * ((\<Sum>k\<in>A. real (count_list hks k)) / 8) + (1 - EMA_ALPHA) * (\<Sum>k\<in>A. dget e k 0)"
    by (simp add: blend_def B_BATCH_def sum.distrib sum_distrib_left sum_divide_distrib)
  also have "(\<Sum>k\<in>A. real (count_list hks k)) = length hks"
    using sum_counts [OF A(1,3)] by (metis of_nat_sum)
  also have "(\<Sum>k\<in>A. dget e k 0) = score_total e" by (rule score_total_sum [symmetric, OF ok A(1,2)])
  finally show le: "score_total ?w \<le> EMA_ALPHA * (length hks / 8) + (1 - EMA_ALPHA) * score_total e" .
  have "EMA_ALPHA * (length hks / 8) \<le> EMA_ALPHA * 1" "(1 - EMA_ALPHA) * score_total e \<le> (1 - EMA_ALPHA) * 1"
    using assms(2,3) alpha_bounds by (auto intro!: mult_left_mono simp: scores_ok_def)
  with le have "score_total ?w \<le> 1" by simp
  then show "scores_ok ?w" using window_ok [OF ok] by (auto simp: scores_ok_def weight_only_window_def prune_def Let_def)
qed

lemma scores_ok_Nil: "scores_ok []"
  by (simp add: scores_ok_def score_total_def)

lemma foldl_scores_ok:
  assumes "orders ord" and "\<forall>hks \<in> set hss. length hks \<le> 8"
  shows "scores_ok e \<Longrightarrow> scores_ok (foldl (weight_only_window ord) e hss)"
  using assms(2) by (induction hss arbitrary: e) (auto intro: window_scores_ok [OF assms(1)])

lemma replay_windows: "replay_ema ord archives = foldl (weight_only_window ord) [] (map archive_hotkeys (sort_key aw_window_start archives))"
  by (simp add: replay_ema_def foldl_map service_window_eq)

lemma weight_only_windows:
  "weight_only_replay ord archives = foldl (weight_only_window ord) [] (map archive_hotkeys (sort_key aw_window_start archives))"
  by (simp add: weight_only_replay_def foldl_map)

lemma live_windows: "foldl (update_ema ord) e batches = foldl (weight_only_window ord) e (map (map hotkey) batches)"
  by (induction batches arbitrary: e) (simp_all add: update_ema_def service_window_eq)

lemma replay_scores_ok:
  assumes "orders ord" and "\<forall>r \<in> set archives. length (aw_batch r) \<le> 8"
  shows "scores_ok (replay_ema ord archives)"
  unfolding replay_windows by (rule foldl_scores_ok [OF assms(1) _ scores_ok_Nil]) (use assms(2) in \<open>auto simp: archive_hotkeys_def\<close>)

text \<open>
  C7. The scores are a share of one. Bootstrapped from any archive and updated with any sequence of sealed
  batches of at most eight submissions, every score is above the pruning threshold, no
  hotkey is listed twice, the scores sum to at most one, and scores and burn together are exactly one.
\<close>

theorem scores_and_burn_are_one:
  assumes "orders ord" and "\<forall>r \<in> set archives. length (aw_batch r) \<le> 8" and "\<forall>b \<in> set batches. length b \<le> 8"
  shows "dict_ok (foldl (update_ema ord) (replay_ema ord archives) batches)
    \<and> (\<forall>(hk, v) \<in> set (foldl (update_ema ord) (replay_ema ord archives) batches). 1 / 10 ^ 6 < v)
    \<and> 0 \<le> burn_weight (foldl (update_ema ord) (replay_ema ord archives) batches)
    \<and> score_total (foldl (update_ema ord) (replay_ema ord archives) batches)
        + burn_weight (foldl (update_ema ord) (replay_ema ord archives) batches) = 1"
proof -
  have "scores_ok (foldl (update_ema ord) (replay_ema ord archives) batches)"
    unfolding live_windows by (rule foldl_scores_ok [OF assms(1) _ replay_scores_ok [OF assms(1,2)]]) (use assms(3) in auto)
  then show ?thesis by (simp add: scores_ok_def burn_weight_def)
qed

section \<open>The order of a set does not matter, and the archive replays the live scores\<close>

lemma windows_agree:
  assumes "orders ord1" and "orders ord2" and "dict_ok e1" and "dict_ok e2" and "\<And>k. dget e1 k 0 = dget e2 k 0"
  shows "dget (foldl (weight_only_window ord1) e1 hss) k 0 = dget (foldl (weight_only_window ord2) e2 hss) k 0"
  using assms(3-5)
proof (induction hss arbitrary: e1 e2)
  case (Cons hks hss)
  show ?case unfolding foldl_Cons
    by (rule Cons.IH) (use Cons.prems in \<open>auto simp: window_ok window_value assms(1,2)\<close>)
qed simp

lemma sort_key_unique:
  assumes "sorted_wrt (<) (map f hist)" and "mset xs = mset hist"
  shows "sort_key f xs = hist"
proof -
  have "distinct (map f hist)" "sorted (map f hist)" using assms(1) strict_sorted_iff by blast+
  then have "inj_on f (set hist)" and "sorted (map f hist)" by (simp_all add: distinct_map)
  then show ?thesis using assms(2)
    by (metis properties_for_sort_key mset_eq_setD mset_sort sorted_sort_key sorted_sort_id sort_key_inj_key_eq)
qed

text \<open>
  C8. A restart loses no score. If the archive holds the run's windows, in whatever order it is downloaded,
  then replaying it gives every hotkey the score the live validator had after the same windows, and
  a weight-only validator computes the same scores, whatever order each of them iterates its sets in.
\<close>

theorem replay_gives_live_scores:
  assumes "orders ord1" and "orders ord2" and "orders ord3"
    and "sorted_wrt (<) (map aw_window_start hist)" and "mset archives = mset hist"
    and "map (map hotkey) batches = map archive_hotkeys hist"
  shows "dget (replay_ema ord1 archives) hk 0 = dget (foldl (update_ema ord2) [] batches) hk 0
    \<and> dget (weight_only_replay ord3 archives) hk 0 = dget (foldl (update_ema ord2) [] batches) hk 0"
  unfolding replay_windows weight_only_windows live_windows assms(6) sort_key_unique [OF assms(4,5)]
  using windows_agree [OF assms(1,2) dict_ok_Nil dict_ok_Nil] windows_agree [OF assms(3,2) dict_ok_Nil dict_ok_Nil] by blast

section \<open>A truncated archive\<close>

lemma prune_value_diff:
  assumes "0 \<le> x" and "0 \<le> y"
  shows "\<bar>prune_value x - prune_value y\<bar> \<le> \<bar>x - y\<bar> + 1 / 10 ^ 6"
  using assms by (auto simp: prune_value_def)

lemma window_diff:
  assumes "orders ord1" and "orders ord2" and "scores_ok e1" and "scores_ok e2"
  shows "\<bar>dget (weight_only_window ord1 e1 hks) k 0 - dget (weight_only_window ord2 e2 hks) k 0\<bar>
    \<le> (1 - EMA_ALPHA) * \<bar>dget e1 k 0 - dget e2 k 0\<bar> + 1 / 10 ^ 6"
proof -
  let ?b = "\<lambda>e. blend (int (count_list hks k)) (dget e k 0)"
  have ok: "dict_ok e1" "dict_ok e2" using assms(3,4) by (simp_all add: scores_ok_def)
  have "\<bar>prune_value (?b e1) - prune_value (?b e2)\<bar> \<le> \<bar>?b e1 - ?b e2\<bar> + 1 / 10 ^ 6"
    by (rule prune_value_diff) (simp_all add: blend_nonneg score_nonneg assms(3,4))
  also have "?b e1 - ?b e2 = (1 - EMA_ALPHA) * (dget e1 k 0 - dget e2 k 0)" by (simp add: blend_def algebra_simps)
  also have "\<bar>\<dots>\<bar> = (1 - EMA_ALPHA) * \<bar>dget e1 k 0 - dget e2 k 0\<bar>" using alpha_bounds by (simp add: abs_mult)
  finally show ?thesis by (simp add: window_value assms(1,2) ok)
qed

lemma windows_diff:
  assumes "orders ord1" and "orders ord2" and "scores_ok e1" and "scores_ok e2" and "\<forall>hks \<in> set hss. length hks \<le> 8"
  shows "\<bar>dget (foldl (weight_only_window ord1) e1 hss) k 0 - dget (foldl (weight_only_window ord2) e2 hss) k 0\<bar>
    \<le> (1 - EMA_ALPHA) ^ length hss * \<bar>dget e1 k 0 - dget e2 k 0\<bar> + 1 / 10 ^ 6 / EMA_ALPHA"
  using assms(5)
proof (induction hss rule: rev_induct)
  case Nil
  then show ?case using alpha_bounds by simp
next
  case (snoc hks hss)
  let ?d = "\<lambda>hss. \<bar>dget (foldl (weight_only_window ord1) e1 hss) k 0 - dget (foldl (weight_only_window ord2) e2 hss) k 0\<bar>"
  have "?d (hss @ [hks]) \<le> (1 - EMA_ALPHA) * ?d hss + 1 / 10 ^ 6"
    using window_diff [OF assms(1,2) foldl_scores_ok [OF assms(1) _ assms(3)] foldl_scores_ok [OF assms(2) _ assms(4)], of hss hss hks k]
      snoc.prems by simp
  also have "\<dots> \<le> (1 - EMA_ALPHA) * ((1 - EMA_ALPHA) ^ length hss * \<bar>dget e1 k 0 - dget e2 k 0\<bar> + 1 / 10 ^ 6 / EMA_ALPHA) + 1 / 10 ^ 6"
    using snoc alpha_bounds by (intro add_right_mono mult_left_mono) auto
  also have "\<dots> = (1 - EMA_ALPHA) ^ length (hss @ [hks]) * \<bar>dget e1 k 0 - dget e2 k 0\<bar> + 1 / 10 ^ 6 / EMA_ALPHA"
    using alpha_bounds by (simp add: field_simps)
  finally show ?case .
qed

lemma score_le_total: "scores_ok e \<Longrightarrow> dget e k 0 \<le> 1"
proof -
  assume ok: "scores_ok e"
  have "dget e k 0 \<le> score_total e"
  proof (cases "map_of e k")
    case None
    moreover have "0 \<le> score_total e" unfolding score_total_def
      using scores_pos [OF ok] by (intro sum_list_nonneg) (auto intro: less_imp_le)
    ultimately show ?thesis by (simp add: dget_def)
  next
    case (Some v)
    then have "v \<in> set (map snd e)" by (force dest: map_of_SomeD)
    moreover have "\<And>y. y \<in> set (map snd e) \<Longrightarrow> 0 \<le> y" using ok by (fastforce simp: scores_ok_def)
    ultimately show ?thesis using Some sum_list_nonneg_le_member [of "map snd e" v]
      by (simp add: dget_def score_total_def)
  qed
  then show "dget e k 0 \<le> 1" using ok by (simp add: scores_ok_def)
qed

text \<open>
  Start-up replays only the most recent windows. If \<open>n\<close> windows are replayed after older ones
  were dropped, every score is within \<open>(1 - alpha)^n\<close> of the live one, up to the
  pruning threshold divided by \<open>alpha\<close>.
\<close>

theorem truncated_replay_error:
  assumes "orders ord1" and "orders ord2" and "\<forall>b \<in> set (old @ recent). length b \<le> 8"
    and "sorted_wrt (<) (map aw_window_start archives)" and "map archive_hotkeys archives = map (map hotkey) recent"
  shows "\<bar>dget (foldl (update_ema ord1) [] (old @ recent)) hk 0 - dget (replay_ema ord2 archives) hk 0\<bar>
    \<le> (1 - EMA_ALPHA) ^ length recent + 1 / 10 ^ 6 / EMA_ALPHA"
proof -
  let ?e = "foldl (weight_only_window ord1) [] (map (map hotkey) old)"
  have ok: "scores_ok ?e" by (rule foldl_scores_ok [OF assms(1) _ scores_ok_Nil]) (use assms(3) in auto)
  have "\<bar>dget ?e hk 0 - dget [] hk 0\<bar> \<le> 1"
    using score_nonneg [OF ok] score_le_total [OF ok] by (simp add: dget_def)
  then have "(1 - EMA_ALPHA) ^ length recent * \<bar>dget ?e hk 0 - dget [] hk 0\<bar> \<le> (1 - EMA_ALPHA) ^ length recent * 1"
    using alpha_bounds by (intro mult_left_mono) auto
  moreover have "\<bar>dget (foldl (weight_only_window ord1) ?e (map (map hotkey) recent)) hk 0
      - dget (foldl (weight_only_window ord2) [] (map (map hotkey) recent)) hk 0\<bar>
    \<le> (1 - EMA_ALPHA) ^ length recent * \<bar>dget ?e hk 0 - dget [] hk 0\<bar> + 1 / 10 ^ 6 / EMA_ALPHA"
    using windows_diff [OF assms(1,2) ok scores_ok_Nil, of "map (map hotkey) recent" hk] assms(3) by auto
  ultimately show ?thesis
    by (simp add: replay_windows live_windows sort_key_unique [OF assms(4)] assms(5))
qed

section \<open>The submitted weights\<close>

lemma weights_sum:
  assumes "\<forall>(hk, v) \<in> set e. 0 < v"
  shows "sum_list (map snd (weight_vector uid_of e burn))
    = sum_list (map snd (filter (\<lambda>(hk, v). map_of uid_of hk \<noteq> None) e)) + (if 0 < burn then burn else 0)"
proof -
  have "sum_list (map snd (List.map_filter (\<lambda>(hk, w). case map_of uid_of hk of None \<Rightarrow> None
        | Some u \<Rightarrow> if 0 < w then Some (u, w) else None) e))
    = sum_list (map snd (filter (\<lambda>(hk, v). map_of uid_of hk \<noteq> None) e))"
    using assms by (induction e) (auto simp: List.map_filter_def split: option.splits)
  then show ?thesis by (simp add: weight_vector_def)
qed

lemma sum_filter_split: "sum_list (map f xs) = sum_list (map f (filter P xs)) + sum_list (map f (filter (\<lambda>x. \<not> P x) xs))"
  for f :: "'a \<Rightarrow> real"
  by (induction xs) auto

text \<open>
  What the submitted weights leave out. All weights are positive and each goes to the uid of a scored hotkey
  or is the burn; they sum to one minus the scores of the hotkeys that are not in the
  metagraph. The share of a deregistered miner is neither paid nor burned.
\<close>

theorem submitted_weights_sum:
  assumes "scores_ok e"
  shows "sum_list (map snd (weight_vector uid_of e (burn_weight e)))
      = 1 - sum_list (map snd (filter (\<lambda>(hk, v). map_of uid_of hk = None) e))
    \<and> (\<forall>(u, w) \<in> set (weight_vector uid_of e (burn_weight e)).
         0 < w \<and> ((u = UID_BURN \<and> w = burn_weight e) \<or> (\<exists>hk. map_of uid_of hk = Some u \<and> (hk, w) \<in> set e)))"
proof
  note pos = scores_pos [OF assms]
  have "score_total e + burn_weight e = 1" "0 \<le> burn_weight e" using assms by (simp_all add: scores_ok_def burn_weight_def)
  moreover have "score_total e = sum_list (map snd (filter (\<lambda>(hk, v). map_of uid_of hk \<noteq> None) e))
      + sum_list (map snd (filter (\<lambda>(hk, v). map_of uid_of hk = None) e))"
    using sum_filter_split [of snd e "\<lambda>(hk, v). map_of uid_of hk \<noteq> None"] by (simp add: score_total_def case_prod_unfold)
  ultimately show "sum_list (map snd (weight_vector uid_of e (burn_weight e)))
      = 1 - sum_list (map snd (filter (\<lambda>(hk, v). map_of uid_of hk = None) e))"
    by (simp add: weights_sum [OF pos])
  show "\<forall>(u, w) \<in> set (weight_vector uid_of e (burn_weight e)).
         0 < w \<and> ((u = UID_BURN \<and> w = burn_weight e) \<or> (\<exists>hk. map_of uid_of hk = Some u \<and> (hk, w) \<in> set e))"
    by (auto simp: weight_vector_def List.map_filter_def split: option.splits if_splits)
qed

section \<open>Concrete instances\<close>

definition toy_archive :: "int \<Rightarrow> string \<Rightarrow> archive" where
  "toy_archive w hk = \<lparr> aw_window_start = w, aw_batch = [\<lparr> ae_hotkey = hk, ae_prompt_idx = 5 \<rparr>] \<rparr>"

definition toy_sub :: "string \<Rightarrow> submission_like" where
  "toy_sub hk = \<lparr> hotkey = hk, prompt_idx = 5, merkle_root = [], arrived_at = 0 \<rparr>"

lemma orders_id: "orders (\<lambda>xs. xs)" and orders_rev: "orders rev"
  by (simp_all add: orders_def)

theorem scores_and_burn_are_one_witness:
  "score_total (foldl (update_ema rev) (replay_ema rev [toy_archive 3 ''a'']) [[toy_sub ''b'']])
     + burn_weight (foldl (update_ema rev) (replay_ema rev [toy_archive 3 ''a'']) [[toy_sub ''b'']]) = 1"
  using scores_and_burn_are_one [OF orders_rev, of "[toy_archive 3 ''a'']" "[[toy_sub ''b'']]"]
  by (simp add: toy_archive_def)

theorem replay_gives_live_scores_witness:
  "dget (weight_only_replay rev [toy_archive 7 ''b'', toy_archive 3 ''a'']) ''a'' 0
     = dget (foldl (update_ema (\<lambda>xs. xs)) [] [[toy_sub ''a''], [toy_sub ''b'']]) ''a'' 0"
  using replay_gives_live_scores [OF orders_id orders_id orders_rev,
      of "[toy_archive 3 ''a'', toy_archive 7 ''b'']" "[toy_archive 7 ''b'', toy_archive 3 ''a'']"
        "[[toy_sub ''a''], [toy_sub ''b'']]" "''a''"]
  by (simp add: toy_archive_def toy_sub_def archive_hotkeys_def)

theorem truncated_replay_error_witness:
  "\<bar>dget (foldl (update_ema (\<lambda>xs. xs)) [] ([[toy_sub ''a'']] @ [[toy_sub ''b'']])) ''a'' 0
      - dget (replay_ema rev [toy_archive 7 ''b'']) ''a'' 0\<bar> \<le> (1 - EMA_ALPHA) ^ 1 + 1 / 10 ^ 6 / EMA_ALPHA"
  using truncated_replay_error [OF orders_id orders_rev, of "[[toy_sub ''a'']]" "[[toy_sub ''b'']]" "[toy_archive 7 ''b'']" "''a''"]
  by (simp add: toy_archive_def toy_sub_def archive_hotkeys_def)

theorem submitted_weights_sum_witness:
  "sum_list (map snd (weight_vector [(''a'', 4)] [(''a'', 1 / 4), (''gone'', 1 / 4)] (burn_weight [(''a'', 1 / 4), (''gone'', 1 / 4)]))) = 3 / 4"
  using submitted_weights_sum [of "[(''a'', 1 / 4), (''gone'', 1 / 4)]" "[(''a'', 4)]"]
  by (simp add: scores_ok_def dict_ok_def score_total_def)

end
