(* ===== verification/Storage.thy ===== *)
theory Storage
  imports Checkpoint
begin

text \<open>
  \<open>reliquary/infrastructure/storage.py\<close>: the object store the validators share. A bucket is a
  dictionary from keys to bodies; a remote call may also fail, so reads go through a function that
  returns the body or the exception. \<open>gzip\<close>, \<open>json.loads\<close>, the hash and the MAC are
  arguments (\<open>codec\<close>); \<open>json.dumps\<close> is the writer of theory Json and, without \<open>sort_keys\<close>,
  \<open>dumps_plain\<close> here.
\<close>

record codec =
  cd_sha :: "bytes \<Rightarrow> bytes"
  cd_hmac :: "bytes \<Rightarrow> bytes \<Rightarrow> bytes"
  cd_gzip :: "bytes \<Rightarrow> bytes"
  cd_gunzip :: "bytes \<Rightarrow> bytes res"
  cd_loads :: "bytes \<Rightarrow> json res"
  cd_repr :: "real \<Rightarrow> string"

type_synonym bucket = "(string, bytes) dict"

fun dumps_plain :: "(real \<Rightarrow> string) \<Rightarrow> json \<Rightarrow> string" where
  "dumps_plain rep JNull = ''null''"
| "dumps_plain rep (JBool b) = (if b then ''true'' else ''false'')"
| "dumps_plain rep (JInt i) = str_int i"
| "dumps_plain rep (JFloat f) = the (float_text True rep f)"
| "dumps_plain rep (JStr s) = dump_str s"
| "dumps_plain rep (JList xs) = [CHR 0x5B] @ comma_join (map (dumps_plain rep) xs) @ [CHR 0x5D]"
| "dumps_plain rep (JObj kvs) =
     [CHR 0x7B] @ comma_join (map (\<lambda>kv. dump_str (fst kv) @ [CHR 0x3A] @ dumps_plain rep (snd kv)) kvs) @ [CHR 0x7D]"

definition json_bytes :: "codec \<Rightarrow> json \<Rightarrow> bytes" where
  "json_bytes c v = encode (dumps_plain (cd_repr c) v)"

definition bucket_get :: "bucket \<Rightarrow> string \<Rightarrow> bytes res" where
  "bucket_get b key = (case map_of b key of None \<Rightarrow> Inl KeyError | Some body \<Rightarrow> Inr body)"

section \<open>Plain objects\<close>

definition upload_json :: "codec \<Rightarrow> string \<Rightarrow> json \<Rightarrow> bucket \<Rightarrow> bucket" where
  "upload_json c key data b = dset key (json_bytes c data) b"

definition ends_with :: "string \<Rightarrow> string \<Rightarrow> bool" where
  "ends_with suffix s = (length suffix \<le> length s \<and> drop (length s - length suffix) s = suffix)"

definition download_json :: "codec \<Rightarrow> (string \<Rightarrow> bytes res) \<Rightarrow> string \<Rightarrow> json option" where
  "download_json c get key =
     (case rbind (get key) (\<lambda>body. rbind (if ends_with ''.gz'' key then cd_gunzip c body else Inr body) (cd_loads c)) of
        Inl e \<Rightarrow> None | Inr v \<Rightarrow> Some v)"

definition file_exists :: "(string \<Rightarrow> unit res) \<Rightarrow> string \<Rightarrow> bool" where
  "file_exists head key = (case head key of Inl e \<Rightarrow> False | Inr u \<Rightarrow> True)"

section \<open>Keys\<close>

definition gz_suffix :: string where "gz_suffix = ''.json.gz''"

definition results_key :: "int \<Rightarrow> string" where
  "results_key w = ''reliquary/results/window-'' @ str_int w @ gz_suffix"

definition rollouts_key :: "string \<Rightarrow> int \<Rightarrow> string" where
  "rollouts_key hk w = ''reliquary/windows/'' @ hk @ ''-window-'' @ str_int w @ gz_suffix"

definition dataset_prefix :: string where "dataset_prefix = ''reliquary/dataset/window-''"

definition dataset_key :: "int \<Rightarrow> string" where
  "dataset_key w = dataset_prefix @ str_int w @ gz_suffix"

text \<open>
  The pattern \<open>reliquary/dataset/window-(\d+)\.json\.gz$\<close>: the digits after the prefix, all of them, then
  the suffix and at most one newline.
\<close>

definition window_of_key :: "string \<Rightarrow> int option" where
  "window_of_key key =
     (let rest = drop (length dataset_prefix) key;
          ds = takeWhile is_digit rest; after = dropWhile is_digit rest in
      if take (length dataset_prefix) key = dataset_prefix \<and> ds \<noteq> [] \<and> chop_newline after = gz_suffix
      then map_option int (parse_digits 0 False ds) else None)"

section \<open>Window archives\<close>

definition save_window_results :: "codec \<Rightarrow> int \<Rightarrow> json \<Rightarrow> bucket \<Rightarrow> bucket" where
  "save_window_results c w results b = dset (results_key w) (cd_gzip c (json_bytes c results)) b"

definition upload_window_rollouts :: "codec \<Rightarrow> string \<Rightarrow> int \<Rightarrow> json list \<Rightarrow> bucket \<Rightarrow> bucket" where
  "upload_window_rollouts c hk w rollouts b =
     dset (rollouts_key hk w) (cd_gzip c (json_bytes c (JList rollouts))) b"

definition upload_window_dataset :: "codec \<Rightarrow> int \<Rightarrow> json \<Rightarrow> bucket \<Rightarrow> bucket" where
  "upload_window_dataset c w data b = dset (dataset_key w) (cd_gzip c (json_bytes c data)) b"

text \<open>A window that is missing, fails to download or fails to parse is skipped.\<close>

definition read_dataset :: "codec \<Rightarrow> (string \<Rightarrow> bytes res) \<Rightarrow> int \<Rightarrow> json option" where
  "read_dataset c get w =
     (case rbind (get (dataset_key w)) (\<lambda>body. rbind (cd_gunzip c body) (cd_loads c)) of
        Inl e \<Rightarrow> None | Inr v \<Rightarrow> Some v)"

definition list_recent_datasets :: "codec \<Rightarrow> (string \<Rightarrow> bytes res) \<Rightarrow> int \<Rightarrow> int \<Rightarrow> json list" where
  "list_recent_datasets c get current_window n =
     (if n \<le> 0 \<or> current_window \<le> 0 then []
      else List.map_filter (read_dataset c get) [max 0 (current_window - n)..current_window - 1])"

text \<open>
  The listing comes in pages of keys; a client error discards what was read, any other
  exception propagates.
\<close>

definition list_all_window_keys :: "string list list res \<Rightarrow> bool \<Rightarrow> int list res" where
  "list_all_window_keys pages is_client_error =
     (case pages of
        Inl e \<Rightarrow> if is_client_error then Inr [] else Inl e
      | Inr ps \<Rightarrow> Inr (sort (List.map_filter window_of_key (concat ps))))"

section \<open>Downloading a miner's rollouts\<close>

text \<open>\<open>None\<close> is the pair \<open>(None, None)\<close>; the head carries the length and the time of last change.\<close>

definition download_window_rollouts :: "codec \<Rightarrow> (int \<times> real option) res \<Rightarrow> bytes res \<Rightarrow> string \<Rightarrow> int
    \<Rightarrow> (json list \<times> real option) option" where
  "download_window_rollouts c head body_of hk w =
     (case head of Inl e \<Rightarrow> None
      | Inr (content_length, last_modified) \<Rightarrow>
          if MAX_ROLLOUT_FILE_SIZE_BYTES < content_length then None
          else (case rbind body_of (\<lambda>body. if ends_with ''.gz'' (rollouts_key hk w)
                    then cd_gunzip c body else Inr body) of
              Inl e \<Rightarrow> None
            | Inr body \<Rightarrow>
                if ends_with ''.gz'' (rollouts_key hk w)
                   \<and> min MAX_ROLLOUT_FILE_SIZE_BYTES (content_length * 20) < int (length body) then None
                else (case cd_loads c body of
                    Inr (JList data) \<Rightarrow> Some (data, last_modified)
                  | _ \<Rightarrow> None)))"

section \<open>The used-indices state\<close>

definition state_key :: "string \<Rightarrow> string" where
  "state_key validator_id =
     ''reliquary/state/used_indices'' @ (if validator_id = [] then [] else CHR ''-'' # validator_id) @ gz_suffix"

definition state_hmac_key :: "codec \<Rightarrow> string \<Rightarrow> bytes" where
  "state_hmac_key c secret = cd_sha c (encode ''reliquary-state-hmac|'' @ encode secret)"

definition compute_state_hmac :: "codec \<Rightarrow> string \<Rightarrow> bytes \<Rightarrow> string" where
  "compute_state_hmac c secret data = hex (cd_hmac c (state_hmac_key c secret) data)"

definition sorted_payload :: "codec \<Rightarrow> fields \<Rightarrow> bytes" where
  "sorted_payload c kvs = encode (the (dumps (float_text True (cd_repr c)) (JObj kvs)))"

definition hmac_field :: string where "hmac_field = ''_hmac''"

definition saved_state :: "codec \<Rightarrow> string \<Rightarrow> (int, string) dict \<Rightarrow> fields" where
  "saved_state c secret used =
     (let data = foldl (\<lambda>d (k, v). dset (str_int k) (JStr v) d) [] used in
      dset hmac_field (JStr (compute_state_hmac c secret (sorted_payload c data))) data)"

definition save_used_indices :: "codec \<Rightarrow> string \<Rightarrow> (int, string) dict \<Rightarrow> string \<Rightarrow> bucket \<Rightarrow> bucket" where
  "save_used_indices c secret used validator_id b =
     dset (state_key validator_id) (cd_gzip c (json_bytes c (JObj (saved_state c secret used)))) b"

text \<open>\<open>hmac.compare_digest\<close> accepts two ASCII strings and raises on anything else.\<close>

definition compare_digest :: "json \<Rightarrow> string \<Rightarrow> bool res" where
  "compare_digest stored expected =
     (case stored of
        JStr s \<Rightarrow> if list_all (\<lambda>ch. (of_char ch :: nat) < 128) s then Inr (s = expected) else Inl TypeError
      | _ \<Rightarrow> Inl TypeError)"

definition check_state :: "codec \<Rightarrow> string \<Rightarrow> fields \<Rightarrow> bool res" where
  "check_state c secret raw =
     (let stored = dget raw hmac_field JNull in
      if truthy stored
      then compare_digest stored (compute_state_hmac c secret (sorted_payload c (filter (\<lambda>kv. fst kv \<noteq> hmac_field) raw)))
      else Inr True)"

definition int_keys :: "fields \<Rightarrow> (int, json) dict res" where
  "int_keys raw =
     rbind (traverse (\<lambda>kv. rbind (py_int (fst kv)) (\<lambda>i. Inr (i, snd kv))) (filter (\<lambda>kv. fst kv \<noteq> hmac_field) raw))
       (\<lambda>kvs. Inr (foldl (\<lambda>d (k, v). dset k v d) [] kvs))"

text \<open>Any exception, a failed check included, gives the empty map.\<close>

definition load_used_indices :: "codec \<Rightarrow> string \<Rightarrow> string \<Rightarrow> (string \<Rightarrow> bytes res) \<Rightarrow> (int, json) dict" where
  "load_used_indices c secret validator_id get =
     (case rbind (get (state_key validator_id)) (\<lambda>body. rbind (cd_gunzip c body) (\<lambda>text. rbind (cd_loads c text) (\<lambda>v.
        case v of
          JObj raw \<Rightarrow> rbind (check_state c secret raw) (\<lambda>ok. if ok then int_keys raw else Inr [])
        | _ \<Rightarrow> Inl AttributeError))) of
        Inl e \<Rightarrow> []
      | Inr used \<Rightarrow> used)"

section \<open>Lemmas on keys\<close>

lemma window_of_key_dataset: "0 \<le> w \<Longrightarrow> window_of_key (dataset_key w) = Some w"
proof -
  assume w: "0 \<le> w"
  have k: "dataset_key w = dataset_prefix @ str_nat (nat w) @ gz_suffix" using w by (simp add: dataset_key_def str_int_def)
  have d: "\<And>c. c \<in> set (str_nat (nat w)) \<Longrightarrow> is_digit c" using digit_plain by blast
  have g: "gz_suffix = CHR ''.'' # ''json.gz''" "\<not> is_digit CHR ''.''" "chop_newline gz_suffix = gz_suffix"
    unfolding gz_suffix_def by (simp, code_simp, code_simp)
  have "takeWhile is_digit (str_nat (nat w) @ gz_suffix) = str_nat (nat w)"
    "dropWhile is_digit (str_nat (nat w) @ gz_suffix) = gz_suffix"
    using d g(2) by (simp_all add: takeWhile_append2 dropWhile_append2 gz_suffix_def)
  then show "window_of_key (dataset_key w) = Some w"
    using w g(3) by (simp add: window_of_key_def k str_nat_nonempty parse_str_nat)
qed

lemma ends_with_append: "ends_with t (s @ t)"
  by (simp add: ends_with_def)

lemma dataset_key_inj: "dataset_key v = dataset_key w \<Longrightarrow> v = w"
  by (simp add: dataset_key_def str_int_inj)

lemma map_filter_sorted:
  "sorted_wrt R xs \<Longrightarrow> (\<And>x y a b. x \<in> set xs \<Longrightarrow> y \<in> set xs \<Longrightarrow> R x y \<Longrightarrow> f x = Some a \<Longrightarrow> f y = Some b \<Longrightarrow> Q a b) \<Longrightarrow>
   sorted_wrt Q (List.map_filter f xs)"
  by (induction xs) (force simp: List.map_filter_def split: option.splits)+

section \<open>Lemmas on dictionaries that grow\<close>

lemma dset_fresh: "k \<notin> fst ` set d \<Longrightarrow> dset k v d = d @ [(k, v)]"
  by (induction d) auto

lemma foldl_dset_fresh:
  "distinct (map (f \<circ> fst) xs) \<Longrightarrow> (f \<circ> fst) ` set xs \<inter> fst ` set d = {} \<Longrightarrow>
   foldl (\<lambda>d (k, v). dset (f k) (g k v) d) d xs = d @ map (\<lambda>(k, v). (f k, g k v)) xs"
  by (induction xs arbitrary: d) (force simp: dset_fresh split: prod.splits)+

lemma map_filter_upto:
  "sorted_wrt (<) (map fst hist) \<Longrightarrow>
   List.map_filter (map_of hist) [a..b] = map snd (filter (\<lambda>p. a \<le> fst p \<and> fst p \<le> b) hist)"
proof (induction hist arbitrary: a)
  case Nil
  then show ?case by (simp add: List.map_filter_def)
next
  case (Cons p hist)
  obtain w d where p: "p = (w, d)" by (cases p)
  have gt: "\<And>q. q \<in> set hist \<Longrightarrow> w < fst q" using Cons.prems p by auto
  then have none: "map_of hist w = None" by (auto simp: map_of_eq_None_iff)
  have skip: "List.map_filter (map_of (p # hist)) xs = List.map_filter (map_of hist) xs" if "w \<notin> set xs" for xs
    using that by (induction xs) (auto simp: List.map_filter_def p)
  have low: "List.map_filter (map_of hist) xs = []" if "\<forall>x \<in> set xs. x \<le> w" for xs
  proof -
    have "map_of hist x = None" if "x \<in> set xs" for x
      using gt \<open>\<forall>x \<in> set xs. x \<le> w\<close> that by (force simp: map_of_eq_None_iff)
    then show ?thesis by (induction xs) (auto simp: List.map_filter_def)
  qed
  show ?case
  proof (cases "a \<le> w \<and> w \<le> b")
    case True
    then have "[a..b] = [a..w - 1] @ [w..b]" "[w..b] = w # [w + 1..b]"
      using upto_split1 [of a w b] upto_rec1 [of w b] by simp_all
    then have u: "[a..b] = [a..w - 1] @ w # [w + 1..b]" by simp
    have "List.map_filter (map_of (p # hist)) [a..b] = d # List.map_filter (map_of hist) [w + 1..b]"
      unfolding u using skip [of "[a..w - 1]"] skip [of "[w + 1..b]"] low [of "[a..w - 1]"]
      by (simp add: List.map_filter_def p)
    also have "\<dots> = d # map snd (filter (\<lambda>q. w + 1 \<le> fst q \<and> fst q \<le> b) hist)" using Cons by simp
    also have "filter (\<lambda>q. w + 1 \<le> fst q \<and> fst q \<le> b) hist = filter (\<lambda>q. a \<le> fst q \<and> fst q \<le> b) hist"
      using gt True by (force intro: filter_cong)
    finally show ?thesis using True p by simp
  next
    case False
    then have nw: "w \<notin> set [a..b]" by auto
    have f: "filter (\<lambda>q. a \<le> fst q \<and> fst q \<le> b) (p # hist) = filter (\<lambda>q. a \<le> fst q \<and> fst q \<le> b) hist"
      using False p by auto
    show ?thesis unfolding f using trans [OF skip [OF nw] Cons.IH [of a]] Cons.prems by (simp only: list.map sorted_wrt.simps)
  qed
qed

section \<open>What is archived is what is read back\<close>

definition codec_ok :: "codec \<Rightarrow> json \<Rightarrow> bool" where
  "codec_ok c v = ((\<forall>b. cd_gunzip c (cd_gzip c b) = Inr b) \<and> cd_loads c (json_bytes c v) = Inr v)"

definition archive_all :: "codec \<Rightarrow> (int \<times> json) list \<Rightarrow> bucket" where
  "archive_all c hist = foldl (\<lambda>b (w, v). upload_window_dataset c w v b) [] hist"

lemma archive_all_eq:
  assumes "distinct (map fst hist)"
  shows "archive_all c hist = map (\<lambda>(w, v). (dataset_key w, cd_gzip c (json_bytes c v))) hist"
proof -
  have "distinct (map (dataset_key \<circ> fst) hist)"
    using assms inj_on_subset [OF injI [of dataset_key, OF dataset_key_inj]]
    by (simp add: distinct_map comp_inj_on flip: map_map)
  from foldl_dset_fresh [OF this, of "[]" "\<lambda>w v. cd_gzip c (json_bytes c v)"]
  show ?thesis by (simp add: archive_all_def upload_window_dataset_def)
qed

lemma map_of_archive:
  "map_of (map (\<lambda>(w, v). (dataset_key w, f v)) hist) (dataset_key w) = map_option f (map_of hist w)"
  by (induction hist) (auto dest: dataset_key_inj)

lemma read_archived:
  assumes "distinct (map fst hist)" and "\<forall>p \<in> set hist. codec_ok c (snd p)"
  shows "read_dataset c (bucket_get (archive_all c hist)) w = map_of hist w"
proof (cases "map_of hist w")
  case None
  then show ?thesis
    by (simp add: read_dataset_def bucket_get_def archive_all_eq [OF assms(1)]
        map_of_archive [where f = "\<lambda>v. cd_gzip c (json_bytes c v)"])
next
  case (Some v)
  then have "codec_ok c v" using assms(2) map_of_SomeD by fastforce
  then show ?thesis using Some
    by (simp add: read_dataset_def bucket_get_def archive_all_eq [OF assms(1)] codec_ok_def
        map_of_archive [where f = "\<lambda>v. cd_gzip c (json_bytes c v)"])
qed

lemma keys_archived:
  assumes "distinct (map fst hist)" and "\<forall>p \<in> set hist. 0 \<le> fst p"
  shows "List.map_filter window_of_key (map fst (archive_all c hist)) = map fst hist"
proof -
  have "List.map_filter window_of_key (map (dataset_key \<circ> fst) hist) = map fst hist" if "\<forall>p \<in> set hist. 0 \<le> fst p"
    using that by (induction hist) (simp_all add: List.map_filter_def window_of_key_dataset)
  then show ?thesis using assms by (simp add: archive_all_eq comp_def case_prod_unfold)
qed

text \<open>
  C28. What is archived is what a restart reads. After a run of windows has been archived in increasing order, the
  listing gives exactly their numbers, and the download of the last \<open>n\<close> windows before
  \<open>current\<close> gives exactly the archives of the run in that range, in order, whatever pages the
  listing comes in.
\<close>

theorem archived_history_is_read_back:
  assumes "sorted_wrt (<) (map fst hist)" and "\<forall>p \<in> set hist. 0 \<le> fst p \<and> codec_ok c (snd p)"
    and "concat pages = map fst (archive_all c hist)"
  shows "list_all_window_keys (Inr pages) e = Inr (map fst hist)
    \<and> list_recent_datasets c (bucket_get (archive_all c hist)) current n
      = map snd (filter (\<lambda>p. current - n \<le> fst p \<and> fst p < current) hist)"
proof
  have d: "distinct (map fst hist)" using assms(1) strict_sorted_iff by blast
  have "sorted (map fst hist)" using assms(1) strict_sorted_iff by blast
  then show "list_all_window_keys (Inr pages) e = Inr (map fst hist)"
    using assms(2,3) d by (simp add: list_all_window_keys_def keys_archived sorted_sort_id)
  have r: "read_dataset c (bucket_get (archive_all c hist)) = map_of hist"
    using read_archived [OF d] assms(2) by blast
  have f: "filter (\<lambda>p. max 0 (current - n) \<le> fst p \<and> fst p \<le> current - 1) hist
      = filter (\<lambda>p. current - n \<le> fst p \<and> fst p < current) hist"
    using assms(2) by (intro filter_cong) auto
  show "list_recent_datasets c (bucket_get (archive_all c hist)) current n
      = map snd (filter (\<lambda>p. current - n \<le> fst p \<and> fst p < current) hist)"
  proof (cases "n \<le> 0 \<or> current \<le> 0")
    case True
    then have "filter (\<lambda>p. current - n \<le> fst p \<and> fst p < current) hist = []" using assms(2) by (force simp: filter_empty_conv)
    with True show ?thesis by (simp add: list_recent_datasets_def)
  next
    case False
    then have "list_recent_datasets c (bucket_get (archive_all c hist)) current n
        = map snd (filter (\<lambda>p. max 0 (current - n) \<le> fst p \<and> fst p \<le> current - 1) hist)"
      by (simp only: list_recent_datasets_def r map_filter_upto [OF assms(1)] if_False)
    then show ?thesis unfolding f .
  qed
qed

section \<open>The used-indices state\<close>

definition used_json :: "(int, string) dict \<Rightarrow> (int, json) dict" where
  "used_json used = map (\<lambda>(k, v). (k, JStr v)) used"

lemma hmac_field_not_int: "str_int i \<noteq> hmac_field"
proof
  assume "str_int i = hmac_field"
  then have "py_int hmac_field = Inr i" using py_int_str_int [of i] by simp
  moreover have "py_int hmac_field = Inl ValueError" by code_simp
  ultimately show False by simp
qed

lemma hex_ascii: "list_all (\<lambda>ch. (of_char ch :: nat) < 128) (hex bs)"
proof -
  have "list_all (\<lambda>n. (of_char (hex_digit n) :: nat) < 128) [0..<16]" by code_simp
  then have "\<And>n. n < 16 \<Longrightarrow> (of_char (hex_digit n) :: nat) < 128" by (auto simp: list_all_iff)
  then show ?thesis using unat_byte_split by (auto simp: list_all_iff hex_def hex_of_byte_def)
qed

lemma int_keys_saved:
  assumes "dict_ok used"
  shows "int_keys (map (\<lambda>(k, v). (str_int k, JStr v)) used @ [(hmac_field, h)]) = Inr (used_json used)"
proof -
  let ?raw = "map (\<lambda>(k, v). (str_int k, JStr v)) used"
  have f: "filter (\<lambda>kv. fst kv \<noteq> hmac_field) (?raw @ [(hmac_field, h)]) = ?raw"
    using hmac_field_not_int by (auto simp: filter_id_conv)
  have "traverse (\<lambda>kv. rbind (py_int (fst kv)) (\<lambda>i. Inr (i, snd kv))) ?raw = Inr (used_json used)"
    by (induction used) (auto simp: py_int_str_int used_json_def)
  moreover have "foldl (\<lambda>d (k, v). dset k v d) [] (used_json used) = used_json used"
    using foldl_dset_fresh [of "\<lambda>k. k" "used_json used" "[]" "\<lambda>k v. v"] assms
    by (simp add: dict_ok_def used_json_def comp_def case_prod_unfold)
  ultimately show ?thesis unfolding int_keys_def f by simp
qed

text \<open>
  The state a validator saves is the state it loads, with the same secret: the keys come back
  as integers in the same order and the integrity check passes.
\<close>

theorem used_indices_roundtrip:
  assumes "codec_ok c (JObj (saved_state c secret used))" and "dict_ok used"
    and "\<forall>k m. cd_hmac c k m \<noteq> []"
  shows "load_used_indices c secret vid (bucket_get (save_used_indices c secret used vid b)) = used_json used"
proof -
  let ?data = "map (\<lambda>(k, v). (str_int k, JStr v)) used"
  have "distinct (map (str_int \<circ> fst) used)"
    using assms(2) inj_on_subset [OF injI [of str_int, OF str_int_inj]]
    by (simp add: dict_ok_def distinct_map comp_inj_on flip: map_map)
  from foldl_dset_fresh [OF this, of "[]" "\<lambda>k v. JStr v"]
  have data: "foldl (\<lambda>d (k, v). dset (str_int k) (JStr v) d) [] used = ?data" by simp
  let ?h = "compute_state_hmac c secret (sorted_payload c ?data)"
  have fresh: "hmac_field \<notin> fst ` set ?data" using hmac_field_not_int by (auto dest: sym)
  have signed: "dset hmac_field (JStr ?h) ?data = ?data @ [(hmac_field, JStr ?h)]" by (rule dset_fresh [OF fresh])
  have f: "filter (\<lambda>kv. fst kv \<noteq> hmac_field) (?data @ [(hmac_field, JStr ?h)]) = ?data"
    using hmac_field_not_int by (auto simp: filter_id_conv)
  have g: "dget (?data @ [(hmac_field, JStr ?h)]) hmac_field JNull = JStr ?h"
    using iffD2 [OF map_of_eq_None_iff fresh] by (simp add: dget_def map_add_def)
  have a: "list_all (\<lambda>ch. (of_char ch :: nat) < 128) ?h" unfolding compute_state_hmac_def by (rule hex_ascii)
  have "?h \<noteq> []" using assms(3) by (simp add: compute_state_hmac_def hex_def hex_of_byte_def)
  then have "check_state c secret (?data @ [(hmac_field, JStr ?h)]) = Inr True"
    using a by (simp only: check_state_def Let_def g f compare_digest_def truthy.simps json.case if_True simp_thms)
  moreover have "saved_state c secret used = ?data @ [(hmac_field, JStr ?h)]"
    by (simp only: saved_state_def Let_def data signed)
  ultimately show ?thesis using assms(1) int_keys_saved [OF assms(2)]
    by (simp add: load_used_indices_def save_used_indices_def bucket_get_def codec_ok_def)
qed

text \<open>
  The integrity check covers only files that carry its field. Whoever can write the state file
  can drop the field: any object with integer keys and no \<open>_hmac\<close> entry is loaded as it is, whatever
  the secret.
\<close>

theorem unsigned_state_accepted:
  assumes "map_of raw hmac_field = None" and "int_keys raw = Inr used"
    and "rbind (get (state_key vid)) (cd_gunzip c) = Inr text" and "cd_loads c text = Inr (JObj raw)"
  shows "load_used_indices c secret vid get = used"
  using assms by (auto simp: load_used_indices_def check_state_def dget_def res_simps)

lemma download_bounds:
  assumes "download_window_rollouts c (Inr (len, t)) body hk w = Some (data, t')"
  shows "len \<le> MAX_ROLLOUT_FILE_SIZE_BYTES \<and> t' = t
    \<and> (\<exists>raw text. body = Inr raw \<and> cd_gunzip c raw = Inr text \<and> int (length text) \<le> MAX_ROLLOUT_FILE_SIZE_BYTES
        \<and> int (length text) \<le> 20 * len \<and> cd_loads c text = Inr (JList data))"
proof -
  have "rollouts_key hk w = (''reliquary/windows/'' @ hk @ ''-window-'' @ str_int w @ ''.json'') @ ''.gz''"
    by (simp add: rollouts_key_def gz_suffix_def)
  then have "ends_with ''.gz'' (rollouts_key hk w)" by (simp only: ends_with_append)
  then show ?thesis using assms
    by (auto simp: download_window_rollouts_def res_simps split: if_splits sum.splits json.splits)
qed

section \<open>Concrete instances\<close>

definition toy_codec :: "json \<Rightarrow> codec" where
  "toy_codec v = \<lparr> cd_sha = (\<lambda>b. b), cd_hmac = (\<lambda>k m. [7]), cd_gzip = (\<lambda>b. b), cd_gunzip = Inr,
     cd_loads = (\<lambda>b. Inr v), cd_repr = (\<lambda>x. ''1.0'') \<rparr>"

lemma toy_codec_ok: "codec_ok (toy_codec v) v"
  by (simp add: codec_ok_def toy_codec_def)

theorem archived_history_is_read_back_witness:
  "list_recent_datasets (toy_codec (JObj [])) (bucket_get (archive_all (toy_codec (JObj [])) [(3, JObj []), (9, JObj [])])) 10 5
     = [JObj []]"
  using archived_history_is_read_back [of "[(3, JObj []), (9, JObj [])]" "toy_codec (JObj [])"
      "[map fst (archive_all (toy_codec (JObj [])) [(3, JObj []), (9, JObj [])])]" True 10 5]
  by (simp add: toy_codec_ok)

theorem used_indices_roundtrip_witness:
  "\<exists>c. load_used_indices c ''s'' ''v1'' (bucket_get (save_used_indices c ''s'' [(3, ''hk'')] ''v1'' [])) = [(3, JStr ''hk'')]"
proof -
  let ?c = "toy_codec (JObj (saved_state (toy_codec JNull) ''s'' [(3, ''hk'')]))"
  have "saved_state ?c ''s'' [(3, ''hk'')] = saved_state (toy_codec JNull) ''s'' [(3, ''hk'')]"
    by (simp add: saved_state_def compute_state_hmac_def toy_codec_def)
  then have "codec_ok ?c (JObj (saved_state ?c ''s'' [(3, ''hk'')]))" using toy_codec_ok by metis
  moreover have "\<forall>k m. cd_hmac ?c k m \<noteq> []" by (simp add: toy_codec_def)
  ultimately show ?thesis using used_indices_roundtrip [of ?c "''s''" "[(3, ''hk'')]" "''v1''" "[]"]
    by (intro exI [of _ ?c]) (simp add: used_json_def dict_ok_def)
qed

theorem unsigned_state_accepted_witness:
  "load_used_indices (toy_codec (JObj [(''5'', JStr ''x'')])) ''s'' [] (\<lambda>k. Inr []) = [(5, JStr ''x'')]"
proof -
  have k: "int_keys [(''5'', JStr ''x'')] = Inr [(5, JStr ''x'')]"
    by (simp add: int_keys_def hmac_field_def) code_simp
  show ?thesis
    by (rule unsigned_state_accepted [where raw = "[(''5'', JStr ''x'')]", OF _ k])
       (simp_all add: toy_codec_def hmac_field_def)
qed

end
