(* ===== verification/Telemetry.thy ===== *)
theory Telemetry
  imports Constants
begin

text \<open>
  \<open>reliquary/validator/telemetry.py\<close>: the three module globals and the four functions on
  them. The optional package is an argument: each call of it gives a value or an exception.
\<close>

record 'r telemetry_state =
  ts_run :: "'r option"
  ts_enabled :: bool
  ts_log_warned :: bool

definition telemetry_initial :: "'r telemetry_state" where
  "telemetry_initial = \<lparr> ts_run = None, ts_enabled = False, ts_log_warned = False \<rparr>"

definition telemetry_is_active :: "'r telemetry_state \<Rightarrow> bool" where
  "telemetry_is_active s = ts_enabled s"

definition telemetry_run_id :: "environ \<Rightarrow> string \<Rightarrow> string" where
  "telemetry_run_id env hk = take 8 hk @ CHR ''-'' # dget env ''RELIQUARY_WANDB_VERSION'' ''v1''"

text \<open>\<open>start\<close> is \<open>wandb.init\<close>, given the project, the entity and the run id.\<close>

definition telemetry_init :: "environ \<Rightarrow> (string \<Rightarrow> string option \<Rightarrow> string \<Rightarrow> 'r res) \<Rightarrow> string \<Rightarrow> 'r telemetry_state
    \<Rightarrow> 'r telemetry_state" where
  "telemetry_init env start hk s =
     (if dget env ''WANDB_API_KEY'' [] = [] then s
      else case start (dget env ''WANDB_PROJECT'' ''reliquary-validator'') (map_of env ''WANDB_ENTITY'')
              (telemetry_run_id env hk) of
          Inr run \<Rightarrow> s \<lparr> ts_run := Some run, ts_enabled := True \<rparr>
        | Inl e \<Rightarrow> s \<lparr> ts_enabled := False \<rparr>)"

text \<open>The second component says whether a warning is logged.\<close>

definition log_training_step :: "unit res \<Rightarrow> 'r telemetry_state \<Rightarrow> 'r telemetry_state \<times> bool" where
  "log_training_step outcome s =
     (if \<not> ts_enabled s then (s, False)
      else case outcome of
          Inr u \<Rightarrow> (s, False)
        | Inl e \<Rightarrow> if \<not> ts_log_warned s then (s \<lparr> ts_log_warned := True \<rparr>, True) else (s, False))"

definition telemetry_finish :: "unit res \<Rightarrow> 'r telemetry_state \<Rightarrow> 'r telemetry_state" where
  "telemetry_finish outcome s =
     (if \<not> ts_enabled s then s
      else s \<lparr> ts_run := None, ts_enabled := False, ts_log_warned := False \<rparr>)"

definition reset_for_tests :: "'r telemetry_state \<Rightarrow> 'r telemetry_state" where
  "reset_for_tests s = s \<lparr> ts_run := None, ts_enabled := False, ts_log_warned := False \<rparr>"

text \<open>However many training steps fail to be logged in one session, one warning is printed.\<close>

fun log_steps :: "unit res list \<Rightarrow> 'r telemetry_state \<Rightarrow> 'r telemetry_state \<times> nat" where
  "log_steps [] s = (s, 0)"
| "log_steps (r # rs) s =
     (let (s1, w) = log_training_step r s; (s2, n) = log_steps rs s1 in (s2, (if w then 1 else 0) + n))"

lemma log_step_warned: "ts_log_warned s \<Longrightarrow> log_training_step r s = (s, False)"
  by (simp add: log_training_step_def split: sum.split)

lemma log_steps_warned: "ts_log_warned s \<Longrightarrow> log_steps rs s = (s, 0)"
  by (induction rs arbitrary: s) (simp_all add: log_step_warned)

lemma one_warning_per_session:
  "snd (log_steps rs s) \<le> 1 \<and> ts_enabled (fst (log_steps rs s)) = ts_enabled s \<and> ts_run (fst (log_steps rs s)) = ts_run s"
proof (induction rs arbitrary: s)
  case (Cons r rs)
  show ?case
  proof (cases "ts_enabled s \<and> \<not> ts_log_warned s \<and> isl r")
    case True
    then have "log_training_step r s = (s \<lparr> ts_log_warned := True \<rparr>, True)"
      by (cases r) (auto simp: log_training_step_def)
    then show ?thesis by (simp add: log_steps_warned)
  next
    case False
    then have "log_training_step r s = (s, False)" by (cases r) (auto simp: log_training_step_def)
    then show ?thesis using Cons by (simp add: case_prod_unfold)
  qed
qed simp

end
