(* ===== verification/Training.thy ===== *)
theory Training
  imports Batcher Telemetry
begin

text \<open>
  \<open>reliquary/validator/training.py\<close>: one policy-gradient step on a sealed batch. The module
  globals are the record \<open>training_state\<close>; the model's forward pass (the log-probability of every next token) and
  the optimiser's update are arguments. What the file computes itself is written out on floats
  with their special values: advantages, ratio, clipping, the divergence estimate, the means, and the
  learning-rate schedule.
\<close>

definition LEARNING_RATE :: real where "LEARNING_RATE = 5 / 10 ^ 6"
definition PPO_CLIP_EPSILON :: real where "PPO_CLIP_EPSILON = 2 / 10"
definition KL_BETA :: real where "KL_BETA = 4 / 100"

section \<open>Tensor arithmetic on special values\<close>

fun pf_mul :: "pyfloat \<Rightarrow> pyfloat \<Rightarrow> pyfloat" where
  "pf_mul NaN y = NaN"
| "pf_mul x NaN = NaN"
| "pf_mul (Fin a) (Fin b) = Fin (a * b)"
| "pf_mul (Fin a) y = (if a = 0 then NaN else if (0 < a) = (y = PInf) then PInf else NInf)"
| "pf_mul x (Fin b) = (if b = 0 then NaN else if (0 < b) = (x = PInf) then PInf else NInf)"
| "pf_mul x y = (if x = y then PInf else NInf)"

fun pf_exp :: "pyfloat \<Rightarrow> pyfloat" where
  "pf_exp (Fin a) = Fin (exp a)"
| "pf_exp PInf = PInf"
| "pf_exp NInf = Fin 0"
| "pf_exp NaN = NaN"

text \<open>\<open>torch.min\<close> and \<open>torch.clamp\<close> pass a NaN on; the mean of no elements is NaN.\<close>

definition t_min :: "pyfloat \<Rightarrow> pyfloat \<Rightarrow> pyfloat" where
  "t_min x y = (if x = NaN \<or> y = NaN then NaN else pf_min x y)"

definition t_clamp :: "real \<Rightarrow> real \<Rightarrow> pyfloat \<Rightarrow> pyfloat" where
  "t_clamp lo hi x = (if x = NaN then NaN else pf_min (pf_max x (Fin lo)) (Fin hi))"

definition t_sum :: "pyfloat list \<Rightarrow> pyfloat" where
  "t_sum xs = foldl pf_add (Fin 0) xs"

definition t_mean :: "pyfloat list \<Rightarrow> pyfloat" where
  "t_mean xs = (if xs = [] then NaN else pf_scale (1 / length xs) (t_sum xs))"

section \<open>Advantages\<close>

text \<open>
  A reward that is not finite makes the variance NaN, hence every advantage NaN (\<open>nan < 1e-8\<close> is
  false); the mean and variance of finite rewards are those of theory Verifier.
\<close>

definition real_advantages :: "real list \<Rightarrow> real list" where
  "real_advantages rewards =
     (let n = length rewards; std = sqrt (variance rewards) in
      if n = 0 then []
      else if std < 1 / 10 ^ 8 then replicate n 0
      else map (\<lambda>r. (r - mean rewards) / std) rewards)"

definition compute_advantages :: "pyfloat list \<Rightarrow> pyfloat list" where
  "compute_advantages rewards =
     (case those (map finite_value rewards) of
        None \<Rightarrow> replicate (length rewards) NaN
      | Some xs \<Rightarrow> map Fin (real_advantages xs))"

section \<open>Learning rate\<close>

definition lr_lambda :: "int \<Rightarrow> real" where
  "lr_lambda step =
     (if step < LR_WARMUP_WINDOWS then of_int (step + 1) / of_int LR_WARMUP_WINDOWS
      else (let progress = of_int (step - LR_WARMUP_WINDOWS) / of_int (max 1 (LR_COSINE_MAX_WINDOWS - LR_WARMUP_WINDOWS)) in
            1 / 2 * (1 + cos (pi * min progress 1))))"

section \<open>State\<close>

text \<open>
  \<open>id(model)\<close> is \<open>op_id\<close>; \<open>op_params\<close> is \<open>list(model.parameters())\<close>, absent when the call raises
  \<open>AttributeError\<close> or \<open>TypeError\<close>. The update sees the losses that were back-propagated and
  the learning rate.
\<close>

record loss_term =
  lt_tokens :: "int list"
  lt_advantage :: pyfloat
  lt_value :: pyfloat

record ('m, 'p) training_ops =
  op_id :: "'m \<Rightarrow> int"
  op_params :: "'m \<Rightarrow> 'p list option"
  op_next_logprobs :: "'m \<Rightarrow> int list \<Rightarrow> pyfloat list res"
  op_update :: "'m \<Rightarrow> loss_term list \<Rightarrow> real \<Rightarrow> 'm"

record 'm training_state =
  tr_model_id :: "int option"
  tr_ref_model :: "'m option"
  tr_scheduler_step :: int

definition reset_training_state :: "'m training_state \<Rightarrow> 'm training_state" where
  "reset_training_state s = s \<lparr> tr_model_id := None, tr_ref_model := None, tr_scheduler_step := 0 \<rparr>"

definition lazy_init :: "('m, 'p) training_ops \<Rightarrow> 'm \<Rightarrow> 'm training_state \<Rightarrow> 'm training_state \<times> bool" where
  "lazy_init ops model s =
     (if tr_model_id s = Some (op_id ops model) then (s, True)
      else case op_params ops model of
          None \<Rightarrow> (s, False)
        | Some ps \<Rightarrow> if ps = [] then (s, False)
            else (s \<lparr> tr_model_id := Some (op_id ops model), tr_ref_model := Some model, tr_scheduler_step := 0 \<rparr>, True))"

section \<open>One rollout\<close>

text \<open>\<open>torch.tensor\<close> of the reported log-probabilities: text is a \<open>ValueError\<close>, a null or a container is not a number.\<close>

fun tensor_float :: "json \<Rightarrow> pyfloat res" where
  "tensor_float (JFloat f) = Inr f"
| "tensor_float (JInt i) = Inr (Fin (of_int i))"
| "tensor_float (JBool b) = Inr (Fin (if b then 1 else 0))"
| "tensor_float (JStr s) = Inl ValueError"
| "tensor_float _ = Inl TypeError"

definition ppo_term :: "pyfloat \<Rightarrow> pyfloat \<Rightarrow> pyfloat \<Rightarrow> pyfloat" where
  "ppo_term advantage new old =
     (let ratio = pf_exp (pf_sub new old) in
      t_min (pf_mul ratio advantage)
        (pf_mul (t_clamp (1 - PPO_CLIP_EPSILON) (1 + PPO_CLIP_EPSILON) ratio) advantage))"

definition kl_term :: "pyfloat \<Rightarrow> pyfloat \<Rightarrow> pyfloat" where
  "kl_term new ref = (let d = pf_sub ref new in pf_sub (pf_sub (pf_exp d) (Fin 1)) d)"

text \<open>
  The completion slice starts at \<open>prompt_length - 1\<close>, and the reported list is used whole.
\<close>

definition rollout_loss :: "('m, 'p) training_ops \<Rightarrow> 'm \<Rightarrow> 'm \<Rightarrow> rollout_submission \<Rightarrow> pyfloat \<Rightarrow> (pyfloat \<times> pyfloat) res" where
  "rollout_loss ops model ref_model r advantage =
     rbind (jget (JObj (rs_commit r)) ''rollout'' (JObj [])) (\<lambda>meta.
     rbind (jget meta ''prompt_length'' (JInt 0)) (\<lambda>pl.
     rbind (jget meta ''token_logprobs'' (JList [])) (\<lambda>old_json.
     rbind (case as_int pl of None \<Rightarrow> Inl TypeError | Some i \<Rightarrow> Inr i) (\<lambda>prompt_length.
     if prompt_length \<le> 0 \<or> \<not> truthy old_json then Inl ValueError
     else
       rbind (op_next_logprobs ops model (rs_tokens r)) (\<lambda>new_all.
       rbind (op_next_logprobs ops ref_model (rs_tokens r)) (\<lambda>ref_all.
       rbind (jlist old_json) (\<lambda>old_list.
       rbind (traverse tensor_float old_list) (\<lambda>old.
       (let new = drop (nat (prompt_length - 1)) new_all; ref = drop (nat (prompt_length - 1)) ref_all in
        if length old \<noteq> length new then Inl ValueError
        else Inr (pf_sub (Fin 0) (t_mean (map2 (ppo_term advantage) new old)),
                  t_mean (map2 kl_term new ref))))))))))) "

definition loss_value :: "nat \<Rightarrow> pyfloat \<times> pyfloat \<Rightarrow> pyfloat" where
  "loss_value n_total pk = pf_scale (1 / n_total) (pf_add (fst pk) (pf_scale KL_BETA (snd pk)))"

section \<open>The batch\<close>

record tally =
  ta_terms :: "loss_term list"
  ta_ppo :: pyfloat
  ta_kl :: pyfloat
  ta_processed :: nat
  ta_skipped :: nat

text \<open>A \<open>ValueError\<close> skips the rollout, any other exception ends the step.\<close>

fun rollouts_loop :: "('m, 'p) training_ops \<Rightarrow> 'm \<Rightarrow> 'm \<Rightarrow> nat \<Rightarrow> (rollout_submission \<times> pyfloat) list \<Rightarrow> tally \<Rightarrow> tally res" where
  "rollouts_loop ops model ref_model n_total [] ta = Inr ta"
| "rollouts_loop ops model ref_model n_total ((r, adv) # rest) ta =
     (case rollout_loss ops model ref_model r adv of
        Inl ValueError \<Rightarrow> rollouts_loop ops model ref_model n_total rest ta
      | Inl e \<Rightarrow> Inl e
      | Inr pk \<Rightarrow> rollouts_loop ops model ref_model n_total rest
          (ta \<lparr> ta_terms := ta_terms ta @ [\<lparr> lt_tokens = rs_tokens r, lt_advantage = adv, lt_value = loss_value n_total pk \<rparr>],
               ta_ppo := pf_add (ta_ppo ta) (fst pk), ta_kl := pf_add (ta_kl ta) (snd pk),
               ta_processed := Suc (ta_processed ta) \<rparr>))"

definition group_step :: "('m, 'p) training_ops \<Rightarrow> 'm \<Rightarrow> 'm \<Rightarrow> nat \<Rightarrow> valid_submission \<Rightarrow> tally \<Rightarrow> tally res" where
  "group_step ops model ref_model n_total g ta =
     (let advantages = compute_advantages (map rs_reward (vs_rollouts g)) in
      if list_all (\<lambda>a. a = Fin 0) advantages then Inr (ta \<lparr> ta_skipped := Suc (ta_skipped ta) \<rparr>)
      else rollouts_loop ops model ref_model n_total (zip (vs_rollouts g) advantages) ta)"

fun groups_loop :: "('m, 'p) training_ops \<Rightarrow> 'm \<Rightarrow> 'm \<Rightarrow> nat \<Rightarrow> valid_submission list \<Rightarrow> tally \<Rightarrow> tally res" where
  "groups_loop ops model ref_model n_total [] ta = Inr ta"
| "groups_loop ops model ref_model n_total (g # gs) ta =
     rbind (group_step ops model ref_model n_total g ta) (\<lambda>ta1. groups_loop ops model ref_model n_total gs ta1)"

record step_metrics =
  mt_lr :: real
  mt_ppo_loss :: pyfloat
  mt_kl :: pyfloat
  mt_processed :: nat
  mt_total :: nat
  mt_reward_mean :: pyfloat
  mt_reward_std :: pyfloat
  mt_reward_min :: pyfloat
  mt_reward_max :: pyfloat
  mt_n_groups :: nat
  mt_n_degenerate :: nat

definition reward_std :: "pyfloat list \<Rightarrow> pyfloat" where
  "reward_std rewards = (case those (map finite_value rewards) of None \<Rightarrow> NaN | Some xs \<Rightarrow> Fin (sqrt (variance xs)))"

definition step_metrics_of :: "real \<Rightarrow> nat \<Rightarrow> tally \<Rightarrow> valid_submission list \<Rightarrow> step_metrics" where
  "step_metrics_of lr n_total ta batch =
     (let rewards = concat (map (\<lambda>g. map rs_reward (vs_rollouts g)) batch) in
      \<lparr> mt_lr = lr, mt_ppo_loss = pf_scale (1 / ta_processed ta) (ta_ppo ta),
        mt_kl = pf_scale (1 / ta_processed ta) (ta_kl ta), mt_processed = ta_processed ta, mt_total = n_total,
        mt_reward_mean = t_mean rewards, mt_reward_std = reward_std rewards,
        mt_reward_min = foldl pf_min (hd rewards) (tl rewards), mt_reward_max = foldl pf_max (hd rewards) (tl rewards),
        mt_n_groups = length batch, mt_n_degenerate = ta_skipped ta \<rparr>)"

text \<open>
  \<open>train_step\<close> gives the state it leaves, also when it raises, and then the model and the metrics it logged, if any. The optimiser uses the
  rate in force before the scheduler advances; the metrics report the one after.
\<close>

definition train_step :: "('m, 'p) training_ops \<Rightarrow> 'm training_state \<Rightarrow> 'm \<Rightarrow> valid_submission list
    \<Rightarrow> 'm training_state \<times> ('m \<times> step_metrics option) res" where
  "train_step ops s model batch =
     (if batch = [] then (s, Inr (model, None))
      else (case lazy_init ops model s of
          (s1, False) \<Rightarrow> (s1, Inr (model, None))
        | (s1, True) \<Rightarrow>
            (case tr_ref_model s1 of None \<Rightarrow> (s1, Inl AssertionError)
             | Some ref_model \<Rightarrow>
                (let n_total = sum_list (map (\<lambda>g. length (vs_rollouts g)) batch) in
                 case groups_loop ops model ref_model n_total batch
                          \<lparr> ta_terms = [], ta_ppo = Fin 0, ta_kl = Fin 0, ta_processed = 0, ta_skipped = 0 \<rparr> of
                   Inl e \<Rightarrow> (s1, Inl e)
                 | Inr ta \<Rightarrow>
                     if ta_processed ta = 0 then (s1, Inr (model, None))
                     else (let model1 = op_update ops model (ta_terms ta) (LEARNING_RATE * lr_lambda (tr_scheduler_step s1));
                               s2 = s1 \<lparr> tr_scheduler_step := tr_scheduler_step s1 + 1 \<rparr> in
                           (s2, Inr (model1, Some (step_metrics_of (LEARNING_RATE * lr_lambda (tr_scheduler_step s2)) n_total ta batch))))))))"

section \<open>Advantages are normalised\<close>

lemma mean_deviation: "sum_list (map (\<lambda>r. r - c) xs) = sum_list xs - length xs * c" for c :: real
  by (induction xs) (simp_all add: algebra_simps)

lemma deviation_sum: "xs \<noteq> [] \<Longrightarrow> sum_list (map (\<lambda>r. r - mean xs) xs) = 0"
  by (simp add: mean_deviation mean_def)

lemma sum_list_scale: "sum_list (map (\<lambda>r. f r / c) xs) = sum_list (map f xs) / c" for c :: real
  by (induction xs) (simp_all add: add_divide_distrib)

lemma variance_nonneg: "0 \<le> variance xs"
  unfolding variance_def by (intro divide_nonneg_nonneg sum_list_nonneg) auto

text \<open>
  C39. Group-relative advantages. For a group of finite rewards whose standard deviation is at least 1e-8
  the advantages sum to zero and their squares to the size of the group, and they keep the order
  of the rewards; below that they are all zero, and the step over a batch only counts the group as skipped.
\<close>

theorem advantages_normalised:
  assumes "rewards \<noteq> []"
  shows "\<exists>as. compute_advantages (map Fin rewards) = map Fin as \<and> length as = length rewards \<and> sum_list as = 0
    \<and> (if sqrt (variance rewards) < 1 / 10 ^ 8
       then as = replicate (length rewards) 0
         \<and> (\<forall>(ops :: ('m, 'p) training_ops) model ref_model n g ta. map rs_reward (vs_rollouts g) = map Fin rewards
              \<longrightarrow> group_step ops model ref_model n g ta = Inr (ta \<lparr> ta_skipped := Suc (ta_skipped ta) \<rparr>))
       else sum_list (map (\<lambda>a. a ^ 2) as) = length rewards
         \<and> (\<forall>i < length rewards. \<forall>j < length rewards. rewards ! i < rewards ! j \<longrightarrow> as ! i < as ! j))"
proof (cases "sqrt (variance rewards) < 1 / 10 ^ 8")
  case True
  have c: "compute_advantages (map Fin rewards) = map Fin (replicate (length rewards) 0)" using True assms
    by (simp add: compute_advantages_def those_finite real_advantages_def Let_def del: map_map)
  have skip: "group_step ops model ref_model n g ta = Inr (ta \<lparr> ta_skipped := Suc (ta_skipped ta) \<rparr>)"
    if "map rs_reward (vs_rollouts g) = map Fin rewards" for ops :: "('m, 'p) training_ops" and model ref_model n g ta
    unfolding group_step_def that c Let_def by (simp add: list_all_iff)
  show ?thesis unfolding if_P [OF True] using c skip
    by (intro exI [of _ "replicate (length rewards) 0"] conjI) (simp_all add: sum_list_replicate)
next
  case False
  let ?s = "sqrt (variance rewards)"
  have s: "0 < ?s" using False by (meson less_le_trans linorder_not_less zero_less_divide_1_iff zero_less_numeral zero_less_power)
  then have v: "variance rewards \<noteq> 0" by auto
  let ?as = "map (\<lambda>r. (r - mean rewards) / ?s) rewards"
  have "sum_list (map (\<lambda>a. a ^ 2) ?as) = sum_list (map (\<lambda>r. (r - mean rewards) ^ 2 / variance rewards) rewards)"
    by (simp add: comp_def power_divide variance_nonneg)
  also have "\<dots> = length rewards" using v assms
    unfolding sum_list_scale by (simp add: variance_def)
  finally have sq: "sum_list (map (\<lambda>a. a ^ 2) ?as) = length rewards" .
  have z: "sum_list ?as = 0" unfolding sum_list_scale deviation_sum [OF assms] by simp
  have o: "\<forall>i < length rewards. \<forall>j < length rewards. rewards ! i < rewards ! j \<longrightarrow> ?as ! i < ?as ! j"
    using s by (auto intro: divide_strict_right_mono)
  have c: "compute_advantages (map Fin rewards) = map Fin ?as" unfolding compute_advantages_def those_finite
    using False assms by (simp add: real_advantages_def Let_def)
  show ?thesis unfolding if_not_P [OF False] using c sq z o by (intro exI [of _ ?as] conjI) simp_all
qed

theorem advantages_normalised_witness:
  "\<exists>as. compute_advantages (map Fin [1, 0]) = map Fin as \<and> sum_list as = 0"
  using advantages_normalised [of "[1, 0]"] by auto

section \<open>The learning-rate schedule\<close>

text \<open>
  The learning-rate factor stays between zero and one, rises during the ten warm-up steps up to one, falls
  from then on, and is zero from step ten thousand.
\<close>

theorem lr_schedule_shape:
  "(\<forall>k. 0 \<le> k \<longrightarrow> 0 \<le> lr_lambda k \<and> lr_lambda k \<le> 1)
   \<and> (\<forall>j k. 0 \<le> j \<longrightarrow> j < k \<longrightarrow> k < 10 \<longrightarrow> lr_lambda j < lr_lambda k) \<and> lr_lambda 9 = 1 \<and> lr_lambda 10 = 1
   \<and> (\<forall>j k. 10 \<le> j \<longrightarrow> j \<le> k \<longrightarrow> lr_lambda k \<le> lr_lambda j) \<and> (\<forall>k. 10000 \<le> k \<longrightarrow> lr_lambda k = 0)"
proof -
  have warm: "lr_lambda k = (of_int k + 1) / 10" if "k < 10" for k
    using that by (simp add: lr_lambda_def LR_WARMUP_WINDOWS_def)
  have cosine: "lr_lambda k = 1 / 2 * (1 + cos (pi * min ((of_int k - 10) / 9990) 1))" if "10 \<le> k" for k
    using that by (simp add: lr_lambda_def LR_WARMUP_WINDOWS_def LR_COSINE_MAX_WINDOWS_def Let_def)
  have "0 \<le> lr_lambda k \<and> lr_lambda k \<le> 1" if k: "0 \<le> k" for k
  proof (cases "k < 10")
    case True
    then have "real_of_int k \<le> 9" by linarith
    then show ?thesis using k True by (simp add: warm)
  next
    case False
    have c: "- 1 \<le> cos x" "cos x \<le> 1" for x :: real by simp_all
    have "0 \<le> 1 + cos x" for x :: real using c(1) [of x] by linarith
    then show ?thesis using False c(2) by (simp add: cosine)
  qed
  moreover have "lr_lambda k \<le> lr_lambda j" if j: "10 \<le> j" "j \<le> k" for j k
  proof -
    let ?f = "\<lambda>k. pi * min ((real_of_int k - 10) / 9990) 1"
    have "?f j \<le> ?f k" using that by (intro mult_left_mono min.mono) (auto intro: divide_right_mono)
    moreover have "0 \<le> ?f j" using j by (intro mult_nonneg_nonneg) auto
    moreover have "?f k \<le> pi * 1" by (intro mult_left_mono) auto
    ultimately have "cos (?f k) \<le> cos (?f j)" by (intro cos_monotone_0_pi_le) auto
    then show ?thesis using that by (simp add: cosine)
  qed
  moreover have "lr_lambda k = 0" if "10000 \<le> k" for k
  proof -
    have "1 \<le> (real_of_int k - 10) / 9990" using that by simp
    then have "min ((real_of_int k - 10) / 9990) 1 = 1" by simp
    then show ?thesis using that by (simp add: cosine)
  qed
  ultimately show ?thesis by (simp add: warm cosine)
qed

text \<open>Whenever a model is remembered, so is the reference snapshot.\<close>

definition training_state_ok :: "'m training_state \<Rightarrow> bool" where
  "training_state_ok s = (tr_model_id s \<noteq> None \<longrightarrow> tr_ref_model s \<noteq> None)"

lemma lazy_init_ref: "training_state_ok s \<Longrightarrow> lazy_init ops model s = (s1, True) \<Longrightarrow> tr_ref_model s1 \<noteq> None"
  by (auto simp: lazy_init_def training_state_ok_def split: if_splits option.splits)

lemma train_step_state_ok:
  assumes "training_state_ok s"
  shows "training_state_ok (fst (train_step ops s model batch))"
proof -
  have l: "training_state_ok (fst (lazy_init ops model s))"
    using assms by (auto simp: lazy_init_def training_state_ok_def split: option.split)
  show ?thesis using assms l
    by (cases "lazy_init ops model s")
       (auto simp: train_step_def training_state_ok_def Let_def split: bool.splits option.splits sum.splits)
qed

section \<open>What the schema and the verifier let through\<close>

text \<open>
  The shape of a commit's metadata that the training step reads: a prompt length, and log-probabilities
  that convert to floats.
\<close>

definition trains_on :: "rollout_submission \<Rightarrow> int \<Rightarrow> json list \<Rightarrow> pyfloat list \<Rightarrow> bool" where
  "trains_on r pl lps old =
     (\<exists>meta. jget (JObj (rs_commit r)) ''rollout'' (JObj []) = Inr meta
        \<and> jget meta ''prompt_length'' (JInt 0) = Inr (JInt pl)
        \<and> jget meta ''token_logprobs'' (JList []) = Inr (JList lps)
        \<and> traverse tensor_float lps = Inr old)"

text \<open>The forward pass gives one log-probability per token after the first.\<close>

definition forward_ok :: "('m, 'p) training_ops \<Rightarrow> bool" where
  "forward_ok ops = (\<forall>m ts. \<exists>lps. op_next_logprobs ops m ts = Inr lps \<and> length lps = length ts - 1)"

lemma rollout_loss_eq:
  assumes "trains_on r pl lps old" and "0 < pl" and "lps \<noteq> []"
    and "op_next_logprobs ops m (rs_tokens r) = Inr new" and "op_next_logprobs ops ref (rs_tokens r) = Inr refs"
  shows "rollout_loss ops m ref r adv =
     (if length old \<noteq> length (drop (nat (pl - 1)) new) then Inl ValueError
      else Inr (pf_sub (Fin 0) (t_mean (map2 (ppo_term adv) (drop (nat (pl - 1)) new) old)),
                t_mean (map2 kl_term (drop (nat (pl - 1)) new) (drop (nat (pl - 1)) refs))))"
  using assms by (auto simp: trains_on_def rollout_loss_def Let_def)

lemma full_layout_skipped:
  assumes "forward_ok ops" and "trains_on r pl lps old" and "0 < pl"
    and "length lps = length (rs_tokens r)" and "rs_tokens r \<noteq> []"
  shows "rollout_loss ops m ref r adv = Inl ValueError"
proof -
  obtain new refs where n: "op_next_logprobs ops m (rs_tokens r) = Inr new" "length new = length (rs_tokens r) - 1"
      "op_next_logprobs ops ref (rs_tokens r) = Inr refs" using assms(1) unfolding forward_ok_def by metis
  have old: "length old = length lps" using assms(2) traverse_length by (auto simp: trains_on_def)
  have "length (drop (nat (pl - 1)) new) \<noteq> length old" using n(2) old assms(3-5) by (cases "rs_tokens r") auto
  moreover have "lps \<noteq> []" using assms(4,5) by auto
  ultimately show ?thesis using rollout_loss_eq [OF assms(2,3) _ n(1,3)] by auto
qed

lemma rollouts_loop_skips:
  assumes "\<forall>p \<in> set rs. rollout_loss ops m ref (fst p) (snd p) = Inl ValueError"
  shows "rollouts_loop ops m ref n rs ta = Inr ta"
  using assms by (induction rs) auto

lemma groups_loop_skips:
  assumes "\<forall>g \<in> set gs. \<forall>r \<in> set (vs_rollouts g). \<forall>adv. rollout_loss ops m ref r adv = Inl ValueError"
  shows "\<exists>ta'. groups_loop ops m ref n gs ta = Inr ta' \<and> ta_processed ta' = ta_processed ta"
  using assms
proof (induction gs arbitrary: ta)
  case (Cons g gs)
  have "\<exists>ta1. group_step ops m ref n g ta = Inr ta1 \<and> ta_processed ta1 = ta_processed ta"
  proof -
    have "rollouts_loop ops m ref n (zip (vs_rollouts g) as) ta = Inr ta" for as
      by (rule rollouts_loop_skips) (use Cons.prems in \<open>auto dest: set_zip_leftD\<close>)
    then show ?thesis by (simp add: group_step_def Let_def)
  qed
  then obtain ta1 where "group_step ops m ref n g ta = Inr ta1" "ta_processed ta1 = ta_processed ta" by blast
  then show ?case using Cons.IH [of ta1] Cons.prems by auto
qed simp

text \<open>
  The two layouts of the reported log-probabilities. The schema and the verifier take one value per token of the
  sequence as well as one per completion token; the training step takes only the second. A batch whose
  miners all use the first, with a non-empty prompt, leaves the model as it was: every rollout is skipped.
\<close>

theorem full_sequence_layout_never_trains:
  assumes "forward_ok ops"
    and "\<forall>g \<in> set batch. \<forall>r \<in> set (vs_rollouts g). rs_tokens r \<noteq> [] \<and>
       (\<exists>pl lps old. trains_on r pl lps old \<and> 0 < pl \<and> length lps = length (rs_tokens r))"
    and "training_state_ok s"
  shows "(\<forall>tokens v. rm_prompt_length v + rm_completion_length v = int (length tokens)
        \<longrightarrow> length (rm_token_logprobs v) = length tokens \<longrightarrow> lengths_consistent tokens v)
    \<and> (\<exists>s'. train_step ops s model batch = (s', Inr (model, None)))"
proof
  show "\<forall>tokens v. rm_prompt_length v + rm_completion_length v = int (length tokens)
      \<longrightarrow> length (rm_token_logprobs v) = length tokens \<longrightarrow> lengths_consistent tokens v"
    by (simp add: lengths_consistent_def)
  have skip: "\<forall>g \<in> set batch. \<forall>r \<in> set (vs_rollouts g). \<forall>adv. rollout_loss ops model ref r adv = Inl ValueError" for ref
    using assms(2) full_layout_skipped [OF assms(1)] by blast
  show "\<exists>s'. train_step ops s model batch = (s', Inr (model, None))"
  proof (cases "batch = [] \<or> \<not> snd (lazy_init ops model s)")
    case True
    then show ?thesis by (cases "lazy_init ops model s") (auto simp: train_step_def)
  next
    case False
    then obtain s1 where s1: "lazy_init ops model s = (s1, True)" by (cases "lazy_init ops model s") auto
    show ?thesis
    proof (cases "tr_ref_model s1")
      case None
      then show ?thesis using lazy_init_ref [OF assms(3) s1] by simp
    next
      case (Some ref)
      obtain ta where "groups_loop ops model ref (sum_list (map (\<lambda>g. length (vs_rollouts g)) batch)) batch
          \<lparr> ta_terms = [], ta_ppo = Fin 0, ta_kl = Fin 0, ta_processed = 0, ta_skipped = 0 \<rparr> = Inr ta" "ta_processed ta = 0"
        using groups_loop_skips [OF skip] by fastforce
      then show ?thesis using False s1 Some by (simp add: train_step_def)
    qed
  qed
qed

section \<open>A reported NaN\<close>

lemma pf_add_NaN [simp]: "pf_add NaN y = NaN" "pf_add x NaN = NaN"
  by (cases y) (simp_all add: pf_add_def)

lemma pf_sub_NaN [simp]: "pf_sub x NaN = NaN"
  by (cases x) auto

lemma foldl_NaN: "foldl pf_add NaN xs = NaN"
  by (induction xs) auto

lemma t_sum_NaN: "NaN \<in> set xs \<Longrightarrow> t_sum xs = NaN"
proof -
  have "NaN \<in> set xs \<Longrightarrow> foldl pf_add a xs = NaN" for a
    by (induction xs arbitrary: a) (auto simp: foldl_NaN)
  then show "NaN \<in> set xs \<Longrightarrow> t_sum xs = NaN" by (simp add: t_sum_def)
qed

lemma t_mean_NaN: "NaN \<in> set xs \<Longrightarrow> t_mean xs = NaN"
  by (auto simp: t_mean_def t_sum_NaN pf_scale_def)

lemma ppo_term_NaN: "ppo_term adv new NaN = NaN"
  by (simp add: ppo_term_def t_min_def)

lemma logprob_devs_cong:
  "(\<And>i. i \<in> set is \<Longrightarrow> py_at claimed' (i - offset) = py_at claimed (i - offset)) \<Longrightarrow>
   logprob_devs fns tokens claimed' offset logits is = logprob_devs fns tokens claimed offset logits is"
proof (induction "is")
  case (Cons i "is")
  have "logprob_dev fns tokens claimed' offset logits i = logprob_dev fns tokens claimed offset logits i"
    using Cons.prems [of i] by (simp add: logprob_dev_def)
  then show ?case using Cons by simp
qed simp

lemma verify_logprobs_cong:
  assumes "length claimed' = length claimed"
    and "traverse (\<lambda>t. case as_int t of Some i \<Rightarrow> Inr i | None \<Rightarrow> Inl TypeError) tokens = Inr toks"
    and "indices_from_root_in_range (ve_sha ve) (ve_shake ve) (ve_rng ve) toks rand pl (pl + cl) CHALLENGE_K = Inr idxs"
    and "\<And>i. i \<in> set idxs \<Longrightarrow> py_at claimed' (i - (if length claimed = length tokens then 0 else pl))
       = py_at claimed (i - (if length claimed = length tokens then 0 else pl))"
  shows "verify_logprobs_claim ve tokens pl cl claimed' logits rand = verify_logprobs_claim ve tokens pl cl claimed logits rand"
proof -
  have devs: "logprob_devs (ve_fns ve) tokens claimed' (if length claimed = length tokens then 0 else pl) logits idxs
      = logprob_devs (ve_fns ve) tokens claimed (if length claimed = length tokens then 0 else pl) logits idxs"
    by (rule logprob_devs_cong) (rule assms(4))
  show ?thesis unfolding verify_logprobs_claim_def assms(1) Let_def assms(2) rbind.simps assms(3) devs by (rule refl)
qed

text \<open>
  Only the challenged log-probabilities are checked, and the training step trusts them all. Put a NaN in place
  of an unchallenged value of a completion-only list: the verifier's answer is the same,
  and the loss of that rollout becomes NaN without an exception, so it is back-propagated.
\<close>

theorem unchallenged_nan_reaches_the_loss:
  assumes "traverse (\<lambda>t. case as_int t of Some i \<Rightarrow> Inr i | None \<Rightarrow> Inl TypeError) tokens = Inr toks"
    and "indices_from_root_in_range (ve_sha ve) (ve_shake ve) (ve_rng ve) toks rand pl (pl + int (length lps)) CHALLENGE_K = Inr idxs"
    and "rng_lawful (ve_rng ve)" and "j < length lps" and "pl + int j \<notin> set idxs"
    and "0 < pl" and "pl + int (length lps) = int (length (rs_tokens r))" and "length tokens = length (rs_tokens r)"
    and "forward_ok ops" and "trains_on r pl (lps [j := JFloat NaN]) old"
  shows "verify_logprobs_claim ve tokens pl (int (length lps)) (lps [j := JFloat NaN]) logits rand
       = verify_logprobs_claim ve tokens pl (int (length lps)) lps logits rand
    \<and> (\<exists>kl. rollout_loss ops m ref r adv = Inr (NaN, kl))"
proof
  have range: "set idxs \<subseteq> {pl..<pl + int (length lps)}" using indices_in_range_props [OF assms(3,2)] by blast
  have ne: "length lps \<noteq> length tokens" using assms(6-8) by simp
  show "verify_logprobs_claim ve tokens pl (int (length lps)) (lps [j := JFloat NaN]) logits rand
       = verify_logprobs_claim ve tokens pl (int (length lps)) lps logits rand"
  proof (rule verify_logprobs_cong [OF _ assms(1,2)])
    fix i assume i: "i \<in> set idxs"
    then have "pl \<le> i" "i < pl + int (length lps)" "i \<noteq> pl + int j" using range assms(5) by auto
    then have "nat (i - pl) \<noteq> j" by auto
    then show "py_at (lps [j := JFloat NaN]) (i - (if length lps = length tokens then 0 else pl))
        = py_at lps (i - (if length lps = length tokens then 0 else pl))"
      using ne \<open>pl \<le> i\<close> by (auto simp: py_at_def Let_def)
  qed simp
  obtain new refs where n: "op_next_logprobs ops m (rs_tokens r) = Inr new" "length new = length (rs_tokens r) - 1"
      "op_next_logprobs ops ref (rs_tokens r) = Inr refs" using assms(9) unfolding forward_ok_def by metis
  have tr: "traverse tensor_float (lps [j := JFloat NaN]) = Inr old" using assms(10) by (auto simp: trains_on_def)
  have old: "length old = length lps" "old ! j = NaN"
    using tr assms(4) by (auto simp: traverse_Inr_iff list_all2_conv_all_nth)
  let ?new = "drop (nat (pl - 1)) new"
  have len: "length old = length ?new" using n(2) old(1) assms(6,7) by auto
  have j: "j < length ?new" using len old(1) assms(4) by simp
  then have "map2 (ppo_term adv) ?new old ! j = ppo_term adv (?new ! j) NaN" using len old(2) by simp
  then have "ppo_term adv (?new ! j) NaN \<in> set (map2 (ppo_term adv) ?new old)"
    using nth_mem [of j "map2 (ppo_term adv) ?new old"] j len by simp
  then have "t_mean (map2 (ppo_term adv) ?new old) = NaN" unfolding ppo_term_NaN by (rule t_mean_NaN)
  moreover have "lps [j := JFloat NaN] \<noteq> []" using assms(4) by auto
  ultimately show "\<exists>kl. rollout_loss ops m ref r adv = Inr (NaN, kl)"
    using rollout_loss_eq [OF assms(10,6) _ n(1,3)] len by simp
qed

section \<open>Concrete instances\<close>

definition toy_ops :: "(int, int) training_ops" where
  "toy_ops = \<lparr> op_id = (\<lambda>m. 7), op_params = (\<lambda>m. Some [m]),
     op_next_logprobs = (\<lambda>m ts. Inr (replicate (length ts - 1) (Fin 0))), op_update = (\<lambda>m ls lr. m + 1) \<rparr>"

definition toy_trained :: "int list \<Rightarrow> int \<Rightarrow> json list \<Rightarrow> rollout_submission" where
  "toy_trained ts pl lps = \<lparr> rs_tokens = ts, rs_reward = Fin 1,
     rs_commit = [(''rollout'', JObj [(''prompt_length'', JInt pl), (''token_logprobs'', JList lps)])], rs_env_name = [] \<rparr>"

definition toy_group :: "rollout_submission list \<Rightarrow> valid_submission" where
  "toy_group rs = \<lparr> hotkey = ''a'', prompt_idx = 3, merkle_root = [], arrived_at = 0, vs_sigma = Fin 1, vs_rollouts = rs,
     vs_completion_texts = [], vs_sketch_diff_max = 0, vs_lp_dev_max = None, vs_dist_q10_min = None,
     vs_claimed_checkpoint_hash = [] \<rparr>"

lemma toy_ops_forward: "forward_ok toy_ops"
  by (simp add: forward_ok_def toy_ops_def)

lemma toy_trains_on: "traverse tensor_float lps = Inr old \<Longrightarrow> trains_on (toy_trained ts pl lps) pl lps old"
  by (simp add: trains_on_def toy_trained_def jget_def dget_def)

definition fresh_training :: "int training_state" where
  "fresh_training = \<lparr> tr_model_id = None, tr_ref_model = None, tr_scheduler_step = 0 \<rparr>"

theorem full_sequence_layout_never_trains_witness:
  "\<exists>s'. train_step toy_ops fresh_training 5
     [toy_group [toy_trained [4, 5] 1 [JFloat (Fin 0), JFloat (Fin 0)], toy_trained [4, 6] 1 [JFloat (Fin 0), JFloat (Fin 0)]]]
     = (s', Inr (5, None))"
proof -
  have t: "trains_on (toy_trained ts 1 [JFloat (Fin 0), JFloat (Fin 0)]) 1 [JFloat (Fin 0), JFloat (Fin 0)] [Fin 0, Fin 0]" for ts
    by (rule toy_trains_on) simp
  have ok: "\<exists>pl lps old. trains_on (toy_trained ts 1 [JFloat (Fin 0), JFloat (Fin 0)]) pl lps old \<and> 0 < pl
      \<and> length lps = length (rs_tokens (toy_trained ts 1 [JFloat (Fin 0), JFloat (Fin 0)]))" if "length ts = 2" for ts
    using t [of ts] that by (intro exI [of _ 1] exI [of _ "[JFloat (Fin 0), JFloat (Fin 0)]"] exI) (simp add: toy_trained_def)
  show ?thesis
    by (rule full_sequence_layout_never_trains [OF toy_ops_forward, THEN conjunct2])
       (use ok [of "[4, 5]"] ok [of "[4, 6]"] in \<open>auto simp: toy_group_def toy_trained_def fresh_training_def training_state_ok_def\<close>)
qed

theorem unchallenged_nan_reaches_the_loss_witness:
  "\<exists>kl. rollout_loss toy_ops 5 5 (toy_trained (replicate 34 0) 1 ((replicate 33 (JFloat (Fin 0))) [32 := JFloat NaN])) (Fin 1)
     = Inr (NaN, kl)"
proof -
  have hx: "clean_hex ''ab'' = Inr ''ab''" "fromhex ''ab'' = Inr [171]" "map ((+) 1) (sort (take 32 [0..32])) = [1..32]" by code_simp+
  have "prf_shake (\<lambda>m n. replicate n 1) RNG_LABEL_open [[1], [171]] 32 = Inr (replicate 32 1)"
    by (subst prf_const) (simp_all add: fits_def label_open)
  then have "indices_from_root_in_range (\<lambda>m. [1]) (\<lambda>m n. replicate n 1) plain_rng (replicate 34 0) ''ab'' 1 34 32 = Inr [1..32]"
    by (simp add: indices_from_root_in_range_def indices_from_root_def hx hash_tokens_def plain_rng_def
        del: fromhex.simps upto_rec_numeral)
  then have ix: "indices_from_root_in_range (ve_sha toy_ve) (ve_shake toy_ve) (ve_rng toy_ve) (replicate 34 0) ''ab'' 1 34 32 = Inr [1..32]"
    by (simp add: toy_ve_def)
  have tr: "traverse (\<lambda>t. case as_int t of Some i \<Rightarrow> Inr i | None \<Rightarrow> Inl TypeError) (replicate 34 (JInt 0)) = Inr (replicate 34 0)"
    by (subst traverse_total [where g = "\<lambda>_. 0"]) auto
  let ?lps = "replicate 33 (JFloat (Fin 0))"
  have fl: "traverse tensor_float (?lps [32 := JFloat NaN]) = Inr (map (\<lambda>v. case v of JFloat f \<Rightarrow> f) (?lps [32 := JFloat NaN]))"
  proof (rule traverse_total)
    fix v assume "v \<in> set (?lps [32 := JFloat NaN])"
    then have "v \<in> insert (JFloat NaN) (set ?lps)" using set_update_subset_insert by fast
    then show "tensor_float v = Inr (case v of JFloat f \<Rightarrow> f)" by auto
  qed
  have u: "rng_lawful (ve_rng toy_ve)" by (simp add: toy_ve_def plain_rng_lawful)
  show ?thesis
    by (rule unchallenged_nan_reaches_the_loss [OF tr _ u _ _ _ _ _ toy_ops_forward toy_trains_on [OF fl],
          where rand = "''ab''" and idxs = "[1..32]", THEN conjunct2])
       (use ix in \<open>simp_all add: CHALLENGE_K_def toy_trained_def del: upto_rec_numeral\<close>)
qed

end
