(* ===== verification/Service.thy ===== *)
theory Service
  imports Server Ema Storage Training
begin

text \<open>
  \<open>reliquary/validator/service.py\<close>: the validator's main loop. The service owns the server, the
  store of batchers, the cooldown map, the scores, the checkpoint store and the training globals; they
  are the record \<open>service\<close>, whose bucket is the remote archive. What the process is given
  (environment, tokenizer, model functions, codec) is \<open>service_env\<close>, and what the outside world answers during one
  iteration is \<open>iteration_io\<close>. A call that may raise after it has changed state returns the
  state with \<open>unit res\<close>.
\<close>

section \<open>Opening a window\<close>

definition is_bootstrap_window :: "int \<Rightarrow> int \<Rightarrow> bool" where
  "is_bootstrap_window window_start subnet_start =
     (if window_start < subnet_start then False else window_start - subnet_start < BOOTSTRAP_WINDOWS)"

record ('m, 'q) service_env =
  se_sha :: "bytes \<Rightarrow> bytes"
  se_codec :: codec
  se_order :: "string list \<Rightarrow> string list"
  se_env_name :: string
  se_env_len :: int
  se_get_problem :: "int \<Rightarrow> fields res"
  se_compute_reward :: "fields \<Rightarrow> string \<Rightarrow> pyfloat res"
  se_decode :: "int list \<Rightarrow> string res"
  se_encode :: "string \<Rightarrow> int list res"
  se_eos_token_id :: "int option"
  se_verifier :: "'m \<Rightarrow> verifier_env"
  se_verify_signature :: "json \<Rightarrow> string \<Rightarrow> bool res"
  se_pydantic :: pydantic
  se_cap :: int
  se_training :: "('m, 'q) training_ops"
  se_validator_hotkey :: string
  se_sign :: "bytes \<Rightarrow> bytes res"
  se_weight_interval :: int

definition completion_text :: "('m, 'q) service_env \<Rightarrow> rollout_submission \<Rightarrow> string res" where
  "completion_text se r =
     rbind (jget (JObj (rs_commit r)) ''rollout'' (JObj [])) (\<lambda>meta.
     rbind (jget meta ''prompt_length'' (JInt 0)) (\<lambda>pl.
     case as_int pl of None \<Rightarrow> Inl TypeError
     | Some prompt_len \<Rightarrow> se_decode se (py_slice_from (rs_tokens r) prompt_len)))"

definition canonical_prompt_tokens :: "('m, 'q) service_env \<Rightarrow> int \<Rightarrow> int list res" where
  "canonical_prompt_tokens se idx =
     rbind (se_get_problem se idx) (\<lambda>problem.
     rbind (jindex (JObj problem) ''prompt'') (\<lambda>prompt.
     case prompt of JStr s \<Rightarrow> se_encode se s | _ \<Rightarrow> Inl TypeError))"

definition open_grpo_window :: "('m, 'q) service_env \<Rightarrow> 'm \<Rightarrow> int \<Rightarrow> bool \<Rightarrow> real \<Rightarrow> fields batcher_env \<times> batcher" where
  "open_grpo_window se model window_start bootstrap now =
     (\<lparr> be_env_len = se_env_len se, be_get_problem = se_get_problem se, be_compute_reward = se_compute_reward se,
        be_completion_text = completion_text se, be_canonical_prompt_tokens = Some (canonical_prompt_tokens se),
        be_verify_commitment = verify_commitment_proofs (se_verifier se model),
        be_verify_signature = se_verify_signature se, be_eos_token_id = se_eos_token_id se, be_bootstrap = bootstrap,
        be_pydantic = se_pydantic se, be_cap = se_cap se, be_verifier = se_verifier se model \<rparr>,
      GrpoWindowBatcher window_start now)"

section \<open>State\<close>

record 'm service =
  sc_window_n :: int
  sc_checkpoint_n :: int
  sc_ema :: scores
  sc_last_weight_block :: int
  sc_cooldown :: cooldown_map
  sc_store :: checkpoint_store
  sc_active :: "ref option"
  sc_state :: window_state
  sc_model :: 'm
  sc_training :: "'m training_state"
  sc_server :: server
  sc_batchers :: "fields batchers"
  sc_bucket :: bucket

definition ValidationService :: "'m \<Rightarrow> string \<Rightarrow> string \<Rightarrow> bucket \<Rightarrow> 'm service" where
  "ValidationService model repo staging bucket =
     \<lparr> sc_window_n = 0, sc_checkpoint_n = 0, sc_ema = [], sc_last_weight_block = 0,
       sc_cooldown = \<lparr> cooldown_windows = BATCH_PROMPT_COOLDOWN_WINDOWS, last_batched = [] \<rparr>,
       sc_store = CheckpointStore repo staging, sc_active = None, sc_state = READY, sc_model = model,
       sc_training = \<lparr> tr_model_id = None, tr_ref_model = None, tr_scheduler_step = 0 \<rparr>,
       sc_server = ValidatorServer, sc_batchers = [], sc_bucket = bucket \<rparr>"

definition set_state :: "window_state \<Rightarrow> 'm service \<Rightarrow> 'm service" where
  "set_state st s = s \<lparr> sc_state := st, sc_server := set_current_state st (sc_server s) \<rparr>"

definition set_active :: "ref option \<Rightarrow> 'm service \<Rightarrow> 'm service" where
  "set_active r s = s \<lparr> sc_active := r, sc_server := set_active_batcher r (sc_server s) \<rparr>"

definition open_window :: "('m, 'q) service_env \<Rightarrow> real \<Rightarrow> 'm service \<Rightarrow> 'm service" where
  "open_window se now s =
     (let n = sc_window_n s + 1;
          (be, b) = open_grpo_window se (sc_model s) n (is_bootstrap_window n SUBNET_START_BLOCK) now;
          h = (case current_manifest (sc_store s) of None \<Rightarrow> [] | Some cp \<Rightarrow> me_revision cp);
          r = length (sc_batchers s) in
      set_state OPEN (set_active (Some r)
        (s \<lparr> sc_window_n := n, sc_batchers := sc_batchers s @ [(be, b \<lparr> bt_checkpoint_hash := h \<rparr>)] \<rparr>)))"

definition change_batcher :: "ref \<Rightarrow> (batcher \<Rightarrow> batcher) \<Rightarrow> 'm service \<Rightarrow> 'm service" where
  "change_batcher r f s =
     s \<lparr> sc_batchers := (sc_batchers s) [r := (fst (sc_batchers s ! r), f (snd (sc_batchers s ! r)))] \<rparr>"

text \<open>Deriving the randomness may raise; then the batcher keeps its empty one.\<close>

definition set_window_randomness :: "string res \<Rightarrow> 'm service \<Rightarrow> 'm service \<times> unit res" where
  "set_window_randomness randomness s =
     (case sc_active s of None \<Rightarrow> (s, Inr ())
      | Some r \<Rightarrow> (case randomness of Inl e \<Rightarrow> (s, Inl e)
          | Inr rand \<Rightarrow> (change_batcher r (\<lambda>b. b \<lparr> bt_randomness := rand \<rparr>) s, Inr ())))"

text \<open>
  \<open>_derive_randomness\<close>: the block hash of the window number, and the beacon of the round that
  \<open>compute_drand_round_for_window\<close> gives for it.
\<close>

definition derive_randomness :: "(bytes \<Rightarrow> bytes) \<Rightarrow> (int \<Rightarrow> string option res) \<Rightarrow> bool \<Rightarrow> int \<times> int
    \<Rightarrow> (string \<Rightarrow> (string \<times> int) res) \<Rightarrow> int \<Rightarrow> string res" where
  "derive_randomness sha get_block_hash use_drand chain_info get_beacon target_window =
     rbind (get_block_hash target_window) (\<lambda>block_hash.
     if use_drand
     then rbind (compute_drand_round_for_window target_window (fst chain_info) (snd chain_info)) (\<lambda>drand_round.
          rbind (get_beacon (str_int drand_round)) (\<lambda>(rand, r).
          compute_window_randomness sha block_hash (Some rand) (Some r)))
     else compute_window_randomness sha block_hash None None)"

section \<open>The archive\<close>

definition resp_time :: "batcher \<Rightarrow> valid_submission \<Rightarrow> json" where
  "resp_time b s = (if arrived_at s = 0 then JNull else JFloat (Fin (arrived_at s - bt_window_opened_at b)))"

definition opt_float :: "pyfloat option \<Rightarrow> json" where
  "opt_float x = (case x of None \<Rightarrow> JNull | Some f \<Rightarrow> JFloat f)"

definition rollout_entry :: "int option \<Rightarrow> rollout_submission \<Rightarrow> string \<Rightarrow> json res" where
  "rollout_entry eos_id r txt =
     rbind (jget_or (JObj (rs_commit r)) ''rollout'' (JObj [])) (\<lambda>meta.
     rbind (rbind (jget meta ''prompt_length'' (JInt 0)) jint) (\<lambda>prompt_length.
     rbind (rbind (jget meta ''completion_length'' (JInt (max 0 (int (length (rs_tokens r)) - prompt_length)))) jint)
       (\<lambda>completion_length.
     Inr (JObj [(''tokens'', JList (map JInt (rs_tokens r))), (''reward'', JFloat (rs_reward r)),
                (''completion_length'', JInt completion_length),
                (''eos_terminated'', JBool (rs_tokens r \<noteq> [] \<and> eos_id = Some (List.last (rs_tokens r)))),
                (''completion_text'', JStr txt)]))))"

definition rollout_payload :: "int option \<Rightarrow> valid_submission \<Rightarrow> json res" where
  "rollout_payload eos_id s =
     rbind (traverse (\<lambda>(r, txt). rollout_entry eos_id r txt) (zip (vs_rollouts s) (vs_completion_texts s)))
       (\<lambda>es. Inr (JList es))"

definition batch_entry :: "('m, 'q) service_env \<Rightarrow> batcher \<Rightarrow> valid_submission \<Rightarrow> json res" where
  "batch_entry se b s =
     rbind (se_get_problem se (prompt_idx s)) (\<lambda>problem.
     rbind (rollout_payload (se_eos_token_id se) s) (\<lambda>rollouts.
     Inr (JObj [(''hotkey'', JStr (hotkey s)), (''prompt_idx'', JInt (prompt_idx s)), (''sigma'', JFloat (vs_sigma s)),
                (''prompt'', dget problem ''prompt'' (JStr [])), (''ground_truth'', dget problem ''ground_truth'' (JStr [])),
                (''rollouts'', rollouts), (''response_time'', resp_time b s), (''merkle_root'', JStr (hex (merkle_root s))),
                (''claimed_checkpoint_hash'', JStr (vs_claimed_checkpoint_hash s)),
                (''sketch_diff_max'', JInt (vs_sketch_diff_max s)), (''lp_dev_max'', opt_float (vs_lp_dev_max s)),
                (''dist_q10_min'', opt_float (vs_dist_q10_min s))])))"

definition runner_up :: "batcher \<Rightarrow> valid_submission \<Rightarrow> json" where
  "runner_up b s =
     JObj [(''hotkey'', JStr (hotkey s)), (''prompt_idx'', JInt (prompt_idx s)), (''sigma'', JFloat (vs_sigma s)),
           (''response_time'', resp_time b s), (''merkle_root'', JStr (hex (merkle_root s))),
           (''sketch_diff_max'', JInt (vs_sketch_diff_max s)), (''lp_dev_max'', opt_float (vs_lp_dev_max s)),
           (''dist_q10_min'', opt_float (vs_dist_q10_min s))]"

definition runners_up :: "batcher \<Rightarrow> valid_submission list \<Rightarrow> json" where
  "runners_up b batch =
     JList (map (runner_up b)
       (filter (\<lambda>s. (hotkey s, prompt_idx s) \<notin> (\<lambda>t. (hotkey t, prompt_idx t)) ` set batch) (bt_valid b)))"

definition archive_window :: "('m, 'q) service_env \<Rightarrow> batcher \<Rightarrow> valid_submission list \<Rightarrow> json res" where
  "archive_window se b batch =
     rbind (traverse (batch_entry se b) batch) (\<lambda>entries.
     Inr (JObj [(''window_start'', JInt (bt_window_start b)), (''validator_hotkey'', JStr (se_validator_hotkey se)),
                (''randomness'', JStr (bt_randomness b)), (''environment'', JStr (se_env_name se)),
                (''batch'', JList entries), (''runners_up'', runners_up b batch),
                (''reject_summary'', JObj (map (\<lambda>(k, n). (k, JInt n)) (bt_reject_counts b)))]))"

text \<open>
  What the replay of the scores takes from an archive: the window and the hotkey of each batch entry. The
  prompt of an \<open>archive_entry\<close> is not read.
\<close>

definition entry_hotkey :: "json \<Rightarrow> archive_entry res" where
  "entry_hotkey v = rbind (jindex v ''hotkey'') (\<lambda>h.
     case h of JStr s \<Rightarrow> Inr \<lparr> ae_hotkey = s, ae_prompt_idx = 0 \<rparr> | _ \<Rightarrow> Inl TypeError)"

definition read_archive :: "json \<Rightarrow> archive res" where
  "read_archive v =
     rbind (rbind (jindex v ''window_start'') jint) (\<lambda>w.
     rbind (rbind (jget v ''batch'' (JList [])) jlist) (\<lambda>es.
     rbind (traverse entry_hotkey es) (\<lambda>batch. Inr \<lparr> aw_window_start = w, aw_batch = batch \<rparr>)))"

text \<open>
  \<open>rebuild_from_history\<close> on the downloaded documents: an exception stops it where it is, with what it has
  rebuilt so far.
\<close>

fun rebuild_entries :: "int \<Rightarrow> json list \<Rightarrow> (int, int) dict \<Rightarrow> (int, int) dict \<times> unit res" where
  "rebuild_entries w [] d = (d, Inr ())"
| "rebuild_entries w (e # es) d =
     (case rbind (jindex e ''prompt_idx'') jint of
        Inl x \<Rightarrow> (d, Inl x)
      | Inr i \<Rightarrow> rebuild_entries w es (rebuild_entry w i d))"

fun rebuild_records :: "int \<Rightarrow> json list \<Rightarrow> (int, int) dict \<Rightarrow> (int, int) dict \<times> unit res" where
  "rebuild_records horizon [] d = (d, Inr ())"
| "rebuild_records horizon (v # vs) d =
     (case rbind (jindex v ''window_start'') jint of
        Inl x \<Rightarrow> (d, Inl x)
      | Inr w \<Rightarrow>
          if w \<le> horizon then rebuild_records horizon vs d
          else case rbind (jget v ''batch'' (JList [])) jlist of
              Inl x \<Rightarrow> (d, Inl x)
            | Inr es \<Rightarrow>
                (case rebuild_entries w es d of
                   (d1, Inl x) \<Rightarrow> (d1, Inl x)
                 | (d1, Inr u) \<Rightarrow> rebuild_records horizon vs d1))"

definition rebuild_cooldown :: "cooldown_map \<Rightarrow> json list \<Rightarrow> int \<Rightarrow> cooldown_map" where
  "rebuild_cooldown m archives current =
     m \<lparr> last_batched := fst (rebuild_records (current - cooldown_windows m) archives []) \<rparr>"

section \<open>Start-up\<close>

record startup_io =
  su_window_keys :: "int list res"
  su_commit_titles :: "string list res"
  su_datasets :: "int \<Rightarrow> int \<Rightarrow> json list res"
  su_current_block :: "int res"

text \<open>
  \<open>_apply_resume_from\<close>: nothing without a source; otherwise the model is replaced and a signed manifest
  installed. Its exceptions end the process.
\<close>

definition apply_resume_from :: "('m, 'q) service_env \<Rightarrow> string \<Rightarrow> (string \<Rightarrow> string \<Rightarrow> string res)
    \<Rightarrow> (string \<Rightarrow> string \<Rightarrow> string res) \<Rightarrow> (string \<Rightarrow> 'm res) \<Rightarrow> 'm service \<Rightarrow> 'm service res" where
  "apply_resume_from se resume_from download commit_title load_model s =
     (if resume_from = [] then Inr s
      else rbind (parse_resume_source resume_from) (\<lambda>source.
           rbind (resolve_resume_source (Some download) (Some commit_title) (cs_repo_id (sc_store s)) source)
             (\<lambda>(local_path, checkpoint_n).
           rbind (load_model local_path) (\<lambda>model.
           (let revision = (case source of ShaSource sha \<Rightarrow> sha | PathSource p \<Rightarrow> p) in
            rbind (manifest_signature (se_sign se) checkpoint_n revision) (\<lambda>signature.
            (let entry = \<lparr> me_checkpoint_n = checkpoint_n, me_repo_id = cs_repo_id (sc_store s),
                           me_revision = revision, me_signature = signature \<rparr> in
             Inr (s \<lparr> sc_model := model, sc_store := (sc_store s) \<lparr> cs_current := Some entry \<rparr>,
                      sc_checkpoint_n := checkpoint_n,
                      sc_server := set_current_checkpoint entry (sc_server s) \<rparr>))))))))"

definition is_checkpoint_title :: "string \<Rightarrow> bool" where
  "is_checkpoint_title title = (take 11 title = ''checkpoint '')"

definition rolling_windows :: "('m, 'q) service_env \<Rightarrow> int" where
  "rolling_windows se = se_weight_interval se div WINDOW_LENGTH"

text \<open>Each of the three parts has its own handler: a failure leaves that part as it was.\<close>

definition bootstrap_window_n :: "startup_io \<Rightarrow> 'm service \<Rightarrow> 'm service" where
  "bootstrap_window_n io s =
     (case su_window_keys io of
        Inr (w # ws) \<Rightarrow> s \<lparr> sc_window_n := foldl max w ws \<rparr>
      | _ \<Rightarrow> s)"

definition bootstrap_checkpoint_n :: "startup_io \<Rightarrow> 'm service \<Rightarrow> 'm service" where
  "bootstrap_checkpoint_n io s =
     (case su_commit_titles io of
        Inl e \<Rightarrow> s
      | Inr titles \<Rightarrow> s \<lparr> sc_checkpoint_n := int (length (filter is_checkpoint_title titles)) \<rparr>)"

definition bootstrap_ema :: "('m, 'q) service_env \<Rightarrow> startup_io \<Rightarrow> 'm service \<Rightarrow> 'm service" where
  "bootstrap_ema se io s =
     (case rbind (su_datasets io (sc_window_n s + 1) (rolling_windows se * 3)) (traverse read_archive) of
        Inl e \<Rightarrow> s
      | Inr archives \<Rightarrow> s \<lparr> sc_ema := replay_ema (se_order se) archives \<rparr>)"

definition bootstrap_state_from_external :: "('m, 'q) service_env \<Rightarrow> startup_io \<Rightarrow> 'm service \<Rightarrow> 'm service" where
  "bootstrap_state_from_external se io s = bootstrap_ema se io (bootstrap_checkpoint_n io (bootstrap_window_n io s))"

definition rebuild_cooldown_from_history :: "startup_io \<Rightarrow> 'm service \<Rightarrow> 'm service" where
  "rebuild_cooldown_from_history io s =
     (case su_datasets io (sc_window_n s + 1) BATCH_PROMPT_COOLDOWN_WINDOWS of
        Inl e \<Rightarrow> s
      | Inr archives \<Rightarrow> s \<lparr> sc_cooldown := rebuild_cooldown (sc_cooldown s) archives (sc_window_n s) \<rparr>)"

text \<open>The part of \<open>run\<close> before the loop, in its order.\<close>

definition boot :: "('m, 'q) service_env \<Rightarrow> string \<Rightarrow> (string \<Rightarrow> string \<Rightarrow> string res) \<Rightarrow> (string \<Rightarrow> string \<Rightarrow> string res)
    \<Rightarrow> (string \<Rightarrow> 'm res) \<Rightarrow> startup_io \<Rightarrow> 'm service \<Rightarrow> 'm service res" where
  "boot se resume_from download commit_title load_model io s =
     rbind (apply_resume_from se resume_from download commit_title load_model (s \<lparr> sc_server := start (sc_server s) \<rparr>)) (\<lambda>s1.
     (let s2 = rebuild_cooldown_from_history io (bootstrap_state_from_external se io s1) in
      Inr (case su_current_block io of Inl e \<Rightarrow> s2 | Inr blk \<Rightarrow> s2 \<lparr> sc_last_weight_block := blk \<rparr>)))"

section \<open>Closing a window\<close>

record 'm iteration_io =
  io_now :: real
  io_randomness :: "string res"
  io_save :: "string \<Rightarrow> 'm \<Rightarrow> unit res"
  io_upload :: "string \<Rightarrow> string \<Rightarrow> string \<Rightarrow> string res"
  io_archive :: "unit res"
  io_current_block :: "int res"
  io_metagraph :: "(string list \<times> int list) res"
  io_chain :: "(int \<times> real) list \<Rightarrow> bool option res"

text \<open>A failed publish stays on the previous checkpoint.\<close>

definition publish_checkpoint :: "('m, 'q) service_env \<Rightarrow> 'm iteration_io \<Rightarrow> 'm service \<Rightarrow> 'm service" where
  "publish_checkpoint se io s =
     (if sc_window_n s mod CHECKPOINT_PUBLISH_INTERVAL_WINDOWS = 0 \<or> current_manifest (sc_store s) = None
      then case publish (io_save io) (io_upload io) (se_sign se) (sc_store s) (sc_checkpoint_n s + 1) (sc_model s) of
          Inl e \<Rightarrow> s
        | Inr (st, entry) \<Rightarrow> s \<lparr> sc_store := st, sc_checkpoint_n := sc_checkpoint_n s + 1,
                               sc_server := set_current_checkpoint entry (sc_server s) \<rparr>
      else s)"

text \<open>A failed archive is logged.\<close>

definition archive_step :: "('m, 'q) service_env \<Rightarrow> 'm iteration_io \<Rightarrow> batcher \<Rightarrow> valid_submission list \<Rightarrow> 'm service \<Rightarrow> 'm service" where
  "archive_step se io b batch s =
     (case rbind (archive_window se b batch) (\<lambda>v. rbind (io_archive io) (\<lambda>_. Inr v)) of
        Inl e \<Rightarrow> s
      | Inr v \<Rightarrow> s \<lparr> sc_bucket := upload_window_dataset (se_codec se) (bt_window_start b) v (sc_bucket s) \<rparr>)"

text \<open>Training, only on a full batch; what a step that raises has already initialised stays.\<close>

definition train_phase :: "('m, 'q) service_env \<Rightarrow> valid_submission list \<Rightarrow> 'm service \<Rightarrow> 'm service \<times> unit res" where
  "train_phase se batch s =
     (if int (length batch) < B_BATCH then (s, Inr ())
      else case train_step (se_training se) (sc_training s) (sc_model s) batch of
          (ts, Inl e) \<Rightarrow> (s \<lparr> sc_training := ts \<rparr>, Inl e)
        | (ts, Inr (model, mt)) \<Rightarrow> (s \<lparr> sc_training := ts, sc_model := model \<rparr>, Inr ()))"

definition train_and_publish :: "('m, 'q) service_env \<Rightarrow> 'm iteration_io \<Rightarrow> 'm service \<Rightarrow> 'm service \<times> unit res" where
  "train_and_publish se io s =
     (case sc_active s of None \<Rightarrow> (s, Inr ())
      | Some r \<Rightarrow>
          (let s1 = set_state TRAINING s; b = snd (sc_batchers s ! r) in
           case seal_batch (se_sha se) (sc_cooldown s1) b of
             Inl e \<Rightarrow> (s1, Inl e)
           | Inr (cm, batch) \<Rightarrow>
               (let s2 = s1 \<lparr> sc_cooldown := cm, sc_ema := update_ema (se_order se) (sc_ema s1) batch \<rparr> in
                case train_phase se batch s2 of
                  (s3, Inl e) \<Rightarrow> (s3, Inl e)
                | (s3, Inr u) \<Rightarrow>
                    (let s4 = set_state PUBLISHING s3;
                         s5 = (if B_BATCH \<le> int (length batch) then publish_checkpoint se io s4 else s4);
                         s6 = archive_step se io b batch s5 in
                     (set_state READY (set_active None s6), Inr ())))))"

text \<open>Submitting weights when the interval has passed.\<close>

definition weight_step :: "('m, 'q) service_env \<Rightarrow> 'm iteration_io \<Rightarrow> 'm service \<Rightarrow> 'm service \<times> unit res" where
  "weight_step se io s =
     (case io_current_block io of Inl e \<Rightarrow> (s, Inl e)
      | Inr blk \<Rightarrow>
          if se_weight_interval se \<le> blk - sc_last_weight_block s
          then case submit_weights (io_metagraph io) (io_chain io) (sc_ema s) (burn_weight (sc_ema s)) of
              Inl e \<Rightarrow> (s, Inl e)
            | Inr True \<Rightarrow> (s \<lparr> sc_last_weight_block := blk \<rparr>, Inr ())
            | Inr False \<Rightarrow> (s, Inr ())
          else (s, Inr ()))"

section \<open>The loop\<close>

text \<open>The handler of a failed iteration.\<close>

definition reset_iteration :: "'m service \<Rightarrow> 'm service" where
  "reset_iteration s = set_state READY (set_active None s)"

definition guarded :: "'m service \<times> unit res \<Rightarrow> 'm service" where
  "guarded out = (case out of (s, Inl e) \<Rightarrow> reset_iteration s | (s, Inr u) \<Rightarrow> s)"

text \<open>
  One iteration has two halves, between which the event loop serves requests: the window is opened,
  and, when the seal event fires or the timeout passes, it is closed.
\<close>

definition open_half :: "('m, 'q) service_env \<Rightarrow> 'm iteration_io \<Rightarrow> 'm service \<Rightarrow> 'm service" where
  "open_half se io s =
     (case set_window_randomness (io_randomness io) (open_window se (io_now io) s) of
        (s1, Inl e) \<Rightarrow> reset_iteration s1
      | (s1, Inr u) \<Rightarrow>
          (case sc_active s1 of None \<Rightarrow> s1 | Some r \<Rightarrow> change_batcher r (\<lambda>b. fst (seal_event b)) s1))"

definition close_half :: "('m, 'q) service_env \<Rightarrow> 'm iteration_io \<Rightarrow> 'm service \<Rightarrow> 'm service" where
  "close_half se io s =
     guarded (case train_and_publish se io s of (s1, Inl e) \<Rightarrow> (s1, Inl e) | (s1, Inr u) \<Rightarrow> weight_step se io s1)"

text \<open>What the event loop does to the service in between: a request, or a turn of the worker.\<close>

definition serve_submit :: "real \<Rightarrow> batch_submission_request \<Rightarrow> 'm service \<Rightarrow> 'm service" where
  "serve_submit now req s =
     (case submit (sc_cooldown s) now (sc_batchers s) (sc_server s) req of
        Inl e \<Rightarrow> s
      | Inr (srv, bs, resp) \<Rightarrow> s \<lparr> sc_server := srv, sc_batchers := bs \<rparr>)"

definition serve_worker :: "real \<Rightarrow> 'm service \<Rightarrow> 'm service" where
  "serve_worker now s =
     (let (srv, bs) = submit_worker (sc_cooldown s) now (sc_batchers s) (sc_server s) in
      s \<lparr> sc_server := srv, sc_batchers := bs \<rparr>)"

datatype event = Request real batch_submission_request | Turn real

fun serve :: "'m service \<Rightarrow> event \<Rightarrow> 'm service" where
  "serve s (Request now req) = serve_submit now req s"
| "serve s (Turn now) = serve_worker now s"

section \<open>Runs of the service\<close>

datatype phase = Between | Waiting

text \<open>The window and the prompts that closing now would seal.\<close>

definition sealed_now :: "('m, 'q) service_env \<Rightarrow> 'm service \<Rightarrow> (int \<times> int list) list" where
  "sealed_now se s =
     (case sc_active s of None \<Rightarrow> []
      | Some r \<Rightarrow> (case seal_batch (se_sha se) (sc_cooldown s) (snd (sc_batchers s ! r)) of
          Inl e \<Rightarrow> []
        | Inr (cm, batch) \<Rightarrow> [(bt_window_start (snd (sc_batchers s ! r)), map prompt_idx batch)]))"

text \<open>A run from \<open>s0\<close>, with the seals it has performed, oldest first.\<close>

inductive service_reach :: "('m, 'q) service_env \<Rightarrow> 'm service \<Rightarrow> phase \<Rightarrow> (int \<times> int list) list \<Rightarrow> 'm service \<Rightarrow> bool"
  for se s0 where
  begins: "service_reach se s0 Between [] s0"
| window_opens: "service_reach se s0 Between seals s \<Longrightarrow>
    service_reach se s0 (if sc_active (open_half se io s) = None then Between else Waiting) seals (open_half se io s)"
| request: "service_reach se s0 ph seals s \<Longrightarrow> service_reach se s0 ph seals (serve_submit now req s)"
| worker: "service_reach se s0 ph seals s \<Longrightarrow> service_reach se s0 ph seals (serve_worker now s)"
| window_closes: "service_reach se s0 Waiting seals s \<Longrightarrow>
    service_reach se s0 Between (seals @ sealed_now se s) (close_half se io s)"

definition windows_of :: "'p batchers \<Rightarrow> int list" where
  "windows_of bs = map (bt_window_start \<circ> snd) bs"

text \<open>Service, server and checkpoint store agree, and the scores are a distribution.\<close>

definition agrees :: "'m service \<Rightarrow> bool" where
  "agrees s = (srv_state (sc_server s) = sc_state s \<and> srv_active (sc_server s) = sc_active s
     \<and> srv_checkpoint (sc_server s) = cs_current (sc_store s) \<and> scores_ok (sc_ema s)
     \<and> queue_ok (sc_batchers s) (sc_server s)
     \<and> sorted_wrt (<) (windows_of (sc_batchers s)) \<and> (\<forall>w \<in> set (windows_of (sc_batchers s)). w \<le> sc_window_n s))"

fun phase_ok :: "phase \<Rightarrow> 'm service \<Rightarrow> bool" where
  "phase_ok Between s = (sc_state s = READY \<and> sc_active s = None)"
| "phase_ok Waiting s = (sc_state s = OPEN \<and> (\<exists>r. sc_active s = Some r \<and> r < length (sc_batchers s)
     \<and> bt_window_start (snd (sc_batchers s ! r)) = sc_window_n s))"

lemma set_state_fields [simp]:
  "sc_state (set_state st s) = st" "srv_state (sc_server (set_state st s)) = st"
  "sc_active (set_state st s) = sc_active s" "srv_active (sc_server (set_state st s)) = srv_active (sc_server s)"
  "srv_checkpoint (sc_server (set_state st s)) = srv_checkpoint (sc_server s)"
  "srv_queue (sc_server (set_state st s)) = srv_queue (sc_server s)"
  "sc_store (set_state st s) = sc_store s" "sc_ema (set_state st s) = sc_ema s"
  "sc_batchers (set_state st s) = sc_batchers s" "sc_window_n (set_state st s) = sc_window_n s"
  "sc_cooldown (set_state st s) = sc_cooldown s" "sc_bucket (set_state st s) = sc_bucket s"
  "sc_training (set_state st s) = sc_training s" "sc_model (set_state st s) = sc_model s"
  "sc_checkpoint_n (set_state st s) = sc_checkpoint_n s"
  by (simp_all add: set_state_def set_current_state_def)

lemma set_active_fields [simp]:
  "sc_active (set_active r s) = r" "srv_active (sc_server (set_active r s)) = r"
  "sc_state (set_active r s) = sc_state s" "srv_state (sc_server (set_active r s)) = srv_state (sc_server s)"
  "srv_checkpoint (sc_server (set_active r s)) = srv_checkpoint (sc_server s)"
  "srv_queue (sc_server (set_active r s)) = srv_queue (sc_server s)"
  "sc_store (set_active r s) = sc_store s" "sc_ema (set_active r s) = sc_ema s"
  "sc_batchers (set_active r s) = sc_batchers s" "sc_window_n (set_active r s) = sc_window_n s"
  "sc_cooldown (set_active r s) = sc_cooldown s" "sc_bucket (set_active r s) = sc_bucket s"
  "sc_checkpoint_n (set_active r s) = sc_checkpoint_n s" "sc_training (set_active r s) = sc_training s" "sc_model (set_active r s) = sc_model s"
  by (simp_all add: set_active_def set_active_batcher_def)

lemma agrees_set_state: "agrees s \<Longrightarrow> agrees (set_state st s)"
  by (simp add: agrees_def queue_ok_def)

lemma agrees_deactivate: "agrees s \<Longrightarrow> agrees (set_active None s)"
  by (simp add: agrees_def queue_ok_def)

lemma agrees_reset: "agrees s \<Longrightarrow> agrees (reset_iteration s) \<and> phase_ok Between (reset_iteration s)"
  by (simp add: reset_iteration_def agrees_set_state agrees_deactivate)

lemma change_batcher_fields [simp]:
  "sc_active (change_batcher r f s) = sc_active s" "sc_state (change_batcher r f s) = sc_state s"
  "sc_server (change_batcher r f s) = sc_server s" "sc_store (change_batcher r f s) = sc_store s"
  "sc_ema (change_batcher r f s) = sc_ema s" "sc_window_n (change_batcher r f s) = sc_window_n s"
  "sc_cooldown (change_batcher r f s) = sc_cooldown s" "sc_bucket (change_batcher r f s) = sc_bucket s"
  "length (sc_batchers (change_batcher r f s)) = length (sc_batchers s)"
  "sc_checkpoint_n (change_batcher r f s) = sc_checkpoint_n s"
  by (simp_all add: change_batcher_def)

lemma window_change_nth:
  "(\<And>b. bt_window_start (f b) = bt_window_start b) \<Longrightarrow> i < length (sc_batchers s) \<Longrightarrow>
   bt_window_start (snd (sc_batchers (change_batcher r f s) ! i)) = bt_window_start (snd (sc_batchers s ! i))"
  by (cases "i = r") (simp_all add: change_batcher_def)

lemma windows_change:
  "(\<And>b. bt_window_start (f b) = bt_window_start b) \<Longrightarrow> windows_of (sc_batchers (change_batcher r f s)) = windows_of (sc_batchers s)"
  by (rule nth_equalityI) (simp_all add: windows_of_def window_change_nth)

lemma agrees_windows:
  assumes "windows_of bs = windows_of (sc_batchers s)" and "agrees s"
  shows "agrees (s \<lparr> sc_batchers := bs \<rparr>)"
proof -
  have "length bs = length (sc_batchers s)" using arg_cong [OF assms(1), of length] by (simp add: windows_of_def)
  then have "queue_ok bs (sc_server s) = queue_ok (sc_batchers s) (sc_server s)"
    using queue_ok_windows assms(1) unfolding windows_of_def by blast
  then show ?thesis using assms by (simp add: agrees_def)
qed

lemma agrees_change:
  assumes "\<And>b. bt_window_start (f b) = bt_window_start b" and "agrees s"
  shows "agrees (change_batcher r f s)"
  using agrees_windows [OF windows_change assms(2), of f r, OF assms(1)]
  by (simp add: change_batcher_def)

lemma phase_change:
  assumes "\<And>b. bt_window_start (f b) = bt_window_start b" and "phase_ok ph s"
  shows "phase_ok ph (change_batcher r f s)"
  using assms(2) by (cases ph) (auto simp: window_change_nth [OF assms(1)])

lemma open_window_ok:
  assumes "agrees s"
  shows "agrees (open_window se now s) \<and> phase_ok Waiting (open_window se now s)
    \<and> sc_window_n (open_window se now s) = sc_window_n s + 1 \<and> sc_cooldown (open_window se now s) = sc_cooldown s"
proof -
  have "windows_of (sc_batchers (open_window se now s)) = windows_of (sc_batchers s) @ [sc_window_n s + 1]"
    by (simp add: open_window_def Let_def open_grpo_window_def windows_of_def GrpoWindowBatcher_def)
  moreover have "queue_ok (sc_batchers s @ [x]) (sc_server s \<lparr> srv_active := Some (length (sc_batchers s)), srv_state := st \<rparr>)" for x st
    using assms by (fastforce simp: agrees_def queue_ok_def nth_append)
  ultimately show ?thesis using assms
    by (auto simp: agrees_def sorted_wrt_append open_window_def Let_def open_grpo_window_def GrpoWindowBatcher_def
        set_state_def set_current_state_def set_active_def set_active_batcher_def intro: le_less_trans)
qed

lemma open_half_ok:
  assumes "agrees s"
  shows "agrees (open_half se io s) \<and> sc_window_n (open_half se io s) = sc_window_n s + 1
    \<and> sc_cooldown (open_half se io s) = sc_cooldown s
    \<and> (if sc_active (open_half se io s) = None then phase_ok Between (open_half se io s) else phase_ok Waiting (open_half se io s))"
proof -
  let ?s = "open_window se (io_now io) s"
  have o: "agrees ?s" "phase_ok Waiting ?s" "sc_window_n ?s = sc_window_n s + 1" "sc_cooldown ?s = sc_cooldown s"
    using open_window_ok [OF assms] by blast+
  obtain r where r: "sc_active ?s = Some r" using o(2) by auto
  show ?thesis
  proof (cases "io_randomness io")
    case (Inl e)
    then have "open_half se io s = reset_iteration ?s" by (simp add: open_half_def set_window_randomness_def r)
    then show ?thesis using agrees_reset [OF o(1)] o(3,4) by (simp add: reset_iteration_def)
  next
    case (Inr rand)
    let ?t = "change_batcher r (\<lambda>b. b \<lparr> bt_randomness := rand \<rparr>) ?s"
    have e: "open_half se io s = change_batcher r (\<lambda>b. fst (seal_event b)) ?t"
      using Inr r by (simp add: open_half_def set_window_randomness_def)
    have k: "bt_window_start (fst (seal_event b)) = bt_window_start b" for b
      by (simp add: seal_event_def split: option.split)
    have "agrees ?t" "phase_ok Waiting ?t" using o(1,2) by (auto intro: agrees_change phase_change simp del: phase_ok.simps)
    then have "agrees (change_batcher r (\<lambda>b. fst (seal_event b)) ?t)"
        "phase_ok Waiting (change_batcher r (\<lambda>b. fst (seal_event b)) ?t)"
      using agrees_change [of "\<lambda>b. fst (seal_event b)" ?t r] phase_change [of "\<lambda>b. fst (seal_event b)" Waiting ?t r] k
      by blast+
    then show ?thesis unfolding e using o(3,4) r by (simp del: phase_ok.simps)
  qed
qed

lemma serve_submit_ok:
  assumes "agrees s" and "phase_ok ph s"
  shows "agrees (serve_submit now req s) \<and> phase_ok ph (serve_submit now req s)
    \<and> sc_window_n (serve_submit now req s) = sc_window_n s \<and> sc_cooldown (serve_submit now req s) = sc_cooldown s"
proof (cases "submit (sc_cooldown s) now (sc_batchers s) (sc_server s) req")
  case (Inl e)
  then show ?thesis using assms by (simp add: serve_submit_def)
next
  case (Inr v)
  then obtain srv bs resp where v: "submit (sc_cooldown s) now (sc_batchers s) (sc_server s) req = Inr (srv, bs, resp)"
    by (cases v) auto
  have w: "windows_of bs = windows_of (sc_batchers s)"
    and f: "srv_state srv = srv_state (sc_server s)" "srv_active srv = srv_active (sc_server s)"
      "srv_checkpoint srv = srv_checkpoint (sc_server s)"
    using v by (auto simp: submit_def res_simps windows_of_def dest!: accept_on_props(2) split: if_splits option.splits)
  have l: "length bs = length (sc_batchers s)" using arg_cong [OF w, of length] by (simp add: windows_of_def)
  have nth: "bt_window_start (snd (bs ! r)) = bt_window_start (snd (sc_batchers s ! r))" if "r < length bs" for r
    using arg_cong [OF w, of "\<lambda>ws. ws ! r"] that l by (simp add: windows_of_def)
  have q: "queue_ok bs srv" using submit_queue_ok [OF _ v] assms(1) by (simp add: agrees_def)
  show ?thesis using assms w f q l nth by (cases ph) (auto simp: serve_submit_def v agrees_def)
qed

lemma serve_worker_ok:
  assumes "agrees s" and "phase_ok ph s"
  shows "agrees (serve_worker now s) \<and> phase_ok ph (serve_worker now s)
    \<and> sc_window_n (serve_worker now s) = sc_window_n s \<and> sc_cooldown (serve_worker now s) = sc_cooldown s"
proof -
  obtain srv bs where v: "submit_worker (sc_cooldown s) now (sc_batchers s) (sc_server s) = (srv, bs)" by fastforce
  have w: "windows_of bs = windows_of (sc_batchers s)"
    and f: "srv_state srv = srv_state (sc_server s)" "srv_active srv = srv_active (sc_server s)"
      "srv_checkpoint srv = srv_checkpoint (sc_server s)"
    using v by (auto simp: submit_worker_def windows_of_def dest!: accept_on_props(2) split: list.splits sum.splits)
  have l: "length bs = length (sc_batchers s)" using arg_cong [OF w, of length] by (simp add: windows_of_def)
  have nth: "bt_window_start (snd (bs ! r)) = bt_window_start (snd (sc_batchers s ! r))" if "r < length bs" for r
    using arg_cong [OF w, of "\<lambda>ws. ws ! r"] that l by (simp add: windows_of_def)
  have q: "queue_ok bs srv" using worker_queue_ok [OF _ v] assms(1) by (simp add: agrees_def)
  show ?thesis using assms w f q l nth by (cases ph) (auto simp: serve_worker_def v agrees_def)
qed

section \<open>Closing keeps everything in step\<close>

lemma update_ema_ok:
  assumes "orders ord" and "scores_ok e" and "length batch \<le> 8"
  shows "scores_ok (update_ema ord e batch)"
  unfolding update_ema_def service_window_eq by (rule window_scores_ok(1) [OF assms(1,2)]) (simp add: assms(3))

lemma agrees_fields:
  assumes "agrees s" and "sc_server t = sc_server s" and "sc_state t = sc_state s" and "sc_active t = sc_active s"
    and "sc_store t = sc_store s" and "scores_ok (sc_ema t)" and "sc_batchers t = sc_batchers s" and "sc_window_n t = sc_window_n s"
  shows "agrees t"
  using assms by (simp add: agrees_def)

lemma publish_agrees: "agrees s \<Longrightarrow> agrees (publish_checkpoint se io s) \<and>
   sc_window_n (publish_checkpoint se io s) = sc_window_n s \<and> sc_cooldown (publish_checkpoint se io s) = sc_cooldown s
   \<and> sc_active (publish_checkpoint se io s) = sc_active s \<and> sc_ema (publish_checkpoint se io s) = sc_ema s
   \<and> sc_bucket (publish_checkpoint se io s) = sc_bucket s"
  by (auto simp: publish_checkpoint_def agrees_def set_current_checkpoint_def queue_ok_def publish_Inr split: sum.split)

lemma archive_step_fields [simp]:
  "sc_server (archive_step se io b batch s) = sc_server s" "sc_state (archive_step se io b batch s) = sc_state s"
  "sc_active (archive_step se io b batch s) = sc_active s" "sc_store (archive_step se io b batch s) = sc_store s"
  "sc_ema (archive_step se io b batch s) = sc_ema s" "sc_batchers (archive_step se io b batch s) = sc_batchers s"
  "sc_window_n (archive_step se io b batch s) = sc_window_n s" "sc_cooldown (archive_step se io b batch s) = sc_cooldown s"
  by (auto simp: archive_step_def split: sum.split)

lemma train_phase_fields:
  assumes "train_phase se batch s = (s', out)"
  shows "sc_server s' = sc_server s" "sc_state s' = sc_state s" "sc_active s' = sc_active s" "sc_store s' = sc_store s"
    "sc_ema s' = sc_ema s" "sc_batchers s' = sc_batchers s" "sc_window_n s' = sc_window_n s" "sc_cooldown s' = sc_cooldown s"
    "sc_bucket s' = sc_bucket s"
  using assms by (auto simp: train_phase_def split: if_splits sum.splits prod.splits)

lemma train_and_publish_ok:
  assumes "orders (se_order se)" and "agrees s" and "train_and_publish se io s = (s', out)"
  shows "agrees s' \<and> sc_window_n s' = sc_window_n s
    \<and> sc_cooldown s' = cd.run_seals (sc_cooldown s) (sealed_now se s)
    \<and> (out = Inr () \<and> sc_active s \<noteq> None \<longrightarrow> phase_ok Between s')"
proof (cases "sc_active s")
  case None
  then show ?thesis using assms(2,3) by (simp add: train_and_publish_def sealed_now_def)
next
  case (Some r)
  let ?b = "snd (sc_batchers s ! r)"
  have s1: "agrees (set_state TRAINING s)" by (rule agrees_set_state [OF assms(2)])
  show ?thesis
  proof (cases "seal_batch (se_sha se) (sc_cooldown s) ?b")
    case (Inl e)
    then show ?thesis using assms(3) Some s1 by (auto simp: train_and_publish_def sealed_now_def)
  next
    case (Inr v)
    obtain cm batch where v: "v = (cm, batch)" by (cases v)
    with Inr have seal: "seal_batch (se_sha se) (sc_cooldown s) ?b = Inr (cm, batch)" by simp
    note sp = seal_batch_props [OF seal]
    let ?s2 = "(set_state TRAINING s) \<lparr> sc_cooldown := cm, sc_ema := update_ema (se_order se) (sc_ema s) batch \<rparr>"
    have a2: "agrees ?s2" using s1 sp update_ema_ok [OF assms(1)] by (auto simp: agrees_def)
    have cm: "cm = cd.run_seals (sc_cooldown s) (sealed_now se s)"
      using sp by (simp add: sealed_now_def Some seal)
    obtain s3 o3 where t: "train_phase se batch ?s2 = (s3, o3)" by fastforce
    note t3 = train_phase_fields [OF t]
    have a3: "agrees s3" by (rule agrees_fields [OF a2]) (use a2 t3 in \<open>simp_all add: agrees_def\<close>)
    show ?thesis
    proof (cases o3)
      case (Inl e)
      then have "s' = s3" "out = Inl e" using assms(3) Some seal t by (simp_all add: train_and_publish_def)
      then show ?thesis using a3 t3 cm by simp
    next
      case (Inr u)
      let ?s4 = "set_state PUBLISHING s3"
      let ?s5 = "if B_BATCH \<le> int (length batch) then publish_checkpoint se io ?s4 else ?s4"
      have s': "s' = set_state READY (set_active None (archive_step se io ?b batch ?s5))" "out = Inr ()"
        using assms(3) Some seal t Inr by (simp_all add: train_and_publish_def Let_def)
      have a4: "agrees ?s4" by (rule agrees_set_state [OF a3])
      have a5: "agrees ?s5 \<and> sc_window_n ?s5 = sc_window_n s \<and> sc_cooldown ?s5 = cm"
        using a4 publish_agrees [OF a4, of se io] t3 by simp
      have "agrees (archive_step se io ?b batch ?s5)" using a5 by (auto intro: agrees_fields simp: agrees_def)
      then show ?thesis unfolding s' using a5 cm by (simp add: agrees_set_state agrees_deactivate)
    qed
  qed
qed

lemma close_half_ok:
  assumes "orders (se_order se)" and "agrees s" and "phase_ok Waiting s"
  shows "agrees (close_half se io s) \<and> phase_ok Between (close_half se io s) \<and> sc_window_n (close_half se io s) = sc_window_n s
    \<and> sc_cooldown (close_half se io s) = cd.run_seals (sc_cooldown s) (sealed_now se s)"
proof -
  obtain s1 out where t: "train_and_publish se io s = (s1, out)" by fastforce
  note ok = train_and_publish_ok [OF assms(1,2) t]
  have act: "sc_active s \<noteq> None" using assms(3) by auto
  show ?thesis
  proof (cases out)
    case (Inl e)
    then have "close_half se io s = reset_iteration s1" by (simp add: close_half_def t guarded_def)
    then show ?thesis using ok agrees_reset [of s1] by (simp add: reset_iteration_def)
  next
    case (Inr u)
    have p: "phase_ok Between s1" using ok act Inr by simp
    obtain s2 o2 where w: "weight_step se io s1 = (s2, o2)" by fastforce
    have s2: "s2 = s1 \<or> (\<exists>blk. s2 = s1 \<lparr> sc_last_weight_block := blk \<rparr>)"
      using w by (auto simp: weight_step_def split: sum.splits if_splits bool.splits)
    have e: "close_half se io s = (case o2 of Inl e \<Rightarrow> reset_iteration s2 | Inr u \<Rightarrow> s2)"
      by (cases o2) (simp_all add: close_half_def t Inr w guarded_def)
    have a2: "agrees s2" "phase_ok Between s2" "sc_window_n s2 = sc_window_n s1" "sc_cooldown s2 = sc_cooldown s1"
      using s2 ok p by (auto simp: agrees_def)
    show ?thesis unfolding e using a2 ok agrees_reset [OF a2(1)] by (cases o2) (simp_all add: reset_iteration_def)
  qed
qed

section \<open>What holds in every reachable state\<close>

lemma sealed_now_props:
  assumes "x \<in> set (sealed_now se s)" and "phase_ok Waiting s"
  shows "fst x = sc_window_n s \<and> (\<forall>p \<in> set (snd x). \<not> is_in_cooldown (sc_cooldown s) p (fst x))"
proof -
  obtain r where r: "sc_active s = Some r" "bt_window_start (snd (sc_batchers s ! r)) = sc_window_n s" using assms(2) by auto
  then obtain cm batch where b: "seal_batch (se_sha se) (sc_cooldown s) (snd (sc_batchers s ! r)) = Inr (cm, batch)"
      "x = (sc_window_n s, map prompt_idx batch)"
    using assms(1) by (cases "seal_batch (se_sha se) (sc_cooldown s) (snd (sc_batchers s ! r))") (auto simp: sealed_now_def)
  show ?thesis using seal_batch_props [OF b(1)] b(2) r(2) by auto
qed

lemma sealed_now_length: "sealed_now se s = [] \<or> (\<exists>x. sealed_now se s = [x])"
  by (auto simp: sealed_now_def split: option.split sum.split)

lemma service_reach_inv:
  assumes "orders (se_order se)" and "agrees s0" and "phase_ok Between s0" and "service_reach se s0 ph seals s"
  shows "agrees s \<and> phase_ok ph s \<and> sc_cooldown s = cd.run_seals (sc_cooldown s0) seals
    \<and> cd.seals_ok (sc_cooldown s0) seals \<and> sorted_wrt (<) (map fst seals)
    \<and> (\<forall>w \<in> fst ` set seals. w \<le> sc_window_n s \<and> (ph = Waiting \<longrightarrow> w < sc_window_n s))"
  using assms(4)
proof (induction rule: service_reach.induct)
  case begins
  then show ?case using assms(2,3) by simp
next
  case (window_opens seals s io)
  then show ?case using open_half_ok [of s se io] by (auto split: if_splits)
next
  case (request ph seals s now req)
  then show ?case using serve_submit_ok [of s ph now req] by simp
next
  case (worker ph seals s now)
  then show ?case using serve_worker_ok [of s ph now] by simp
next
  case (window_closes seals s io)
  have ok: "agrees s" "phase_ok Waiting s" using window_closes.IH by blast+
  note c = close_half_ok [OF assms(1) ok, of io]
  consider (none) "sealed_now se s = []" | (one) x where "sealed_now se s = [x]" using sealed_now_length [of se s] by blast
  then show ?case
  proof cases
    case none
    then show ?thesis using c window_closes.IH by auto
  next
    case one
    obtain w ps where x: "x = (w, ps)" by (cases x)
    have p: "w = sc_window_n s" "\<forall>p \<in> set ps. \<not> is_in_cooldown (sc_cooldown s) p w"
      using sealed_now_props [of x se s] ok(2) one x by auto
    have r: "cd.run_seals (sc_cooldown s0) (seals @ [(w, ps)]) = cd.run_seals (sc_cooldown s) [(w, ps)]"
      using window_closes.IH by (simp add: cd.run_seals_snoc)
    have k: "cd.seals_ok (sc_cooldown s0) (seals @ [(w, ps)])"
      using window_closes.IH p(2) by (simp add: cd.seals_ok_snoc)
    show ?thesis unfolding one x using c window_closes.IH p(1) r k one x by (auto simp: sorted_wrt_append)
  qed
qed

text \<open>
  C3. The invariant of the validator's loop, whatever requests, failures and timeouts a run meets: the server shows the
  service's own state, batcher and checkpoint; between windows the state is ready and no batcher is
  active, while a window is open its batcher carries the current number; window
  numbers never repeat; and scores and burn together are one.
\<close>

theorem service_invariant:
  assumes "orders (se_order se)" and "agrees s0" and "phase_ok Between s0" and "service_reach se s0 ph seals s"
  shows "srv_state (sc_server s) = sc_state s \<and> srv_active (sc_server s) = sc_active s
    \<and> srv_checkpoint (sc_server s) = cs_current (sc_store s)
    \<and> (ph = Between \<longrightarrow> sc_state s = READY \<and> sc_active s = None)
    \<and> (ph = Waiting \<longrightarrow> sc_state s = OPEN \<and> (\<exists>r. sc_active s = Some r \<and> r < length (sc_batchers s)
         \<and> bt_window_start (snd (sc_batchers s ! r)) = sc_window_n s))
    \<and> distinct (windows_of (sc_batchers s)) \<and> score_total (sc_ema s) + burn_weight (sc_ema s) = 1"
proof -
  note inv = service_reach_inv [OF assms]
  have "distinct (windows_of (sc_batchers s))" using inv unfolding agrees_def by (meson strict_sorted_iff)
  moreover have "score_total (sc_ema s) + burn_weight (sc_ema s) = 1"
    using inv by (simp add: agrees_def scores_ok_def burn_weight_def)
  ultimately show ?thesis using inv by (cases ph) (simp_all add: agrees_def)
qed

text \<open>
  C6. No prompt is trained on twice within the cooldown. In any run of the service the sealed windows have increasing
  numbers, and two seals that contain the same prompt are at least the cooldown apart.
\<close>

theorem prompt_reuse_is_spaced:
  assumes "orders (se_order se)" and "agrees s0" and "phase_ok Between s0" and "cooldown_windows (sc_cooldown s0) \<noteq> 0"
    and "service_reach se s0 ph seals s"
  shows "sorted_wrt (\<lambda>(w1, ps1) (w2, ps2). w1 < w2
      \<and> (\<forall>p \<in> set ps1 \<inter> set ps2. cooldown_windows (sc_cooldown s0) \<le> w2 - w1)) seals"
proof -
  note inv = service_reach_inv [OF assms(1-3,5)]
  have spaced: "cooldown_windows (sc_cooldown s0) \<le> fst (seals ! j) - fst (seals ! i)"
    if ij: "i < j" "j < length seals" and p: "p \<in> set (snd (seals ! i))" "p \<in> set (snd (seals ! j))" for i j p
  proof -
    have i: "seals = take i seals @ (seals ! i) # drop (Suc i) seals" using ij by (intro id_take_nth_drop) simp
    have j: "drop (Suc i) seals = take (j - Suc i) (drop (Suc i) seals) @ (seals ! j) # drop (Suc j) seals"
      using ij id_take_nth_drop [of "j - Suc i" "drop (Suc i) seals"] by simp
    obtain w1 ps1 w2 ps2 where e: "seals ! i = (w1, ps1)" "seals ! j = (w2, ps2)" by fastforce
    have s: "seals = take i seals @ (w1, ps1) # take (j - Suc i) (drop (Suc i) seals) @ (w2, ps2) # drop (Suc j) seals"
      using i j e by metis
    have "cd.seals_ok (sc_cooldown s0) (take i seals @ (w1, ps1) # take (j - Suc i) (drop (Suc i) seals) @ (w2, ps2) # drop (Suc j) seals)"
      "sorted_wrt (<) (map fst (take i seals @ (w1, ps1) # take (j - Suc i) (drop (Suc i) seals) @ (w2, ps2) # drop (Suc j) seals))"
      using inv s by metis+
    from cd.seals_spaced [OF this, of p] p e assms(4) show ?thesis by simp
  qed
  have "fst (seals ! i) < fst (seals ! j)" if "i < j" "j < length seals" for i j
    using inv that by (auto simp: sorted_wrt_iff_nth_less)
  then show ?thesis using spaced by (auto simp: sorted_wrt_iff_nth_less case_prod_unfold)
qed

lemma serve_ok:
  assumes "agrees s" and "phase_ok ph s"
  shows "agrees (foldl serve s evs) \<and> phase_ok ph (foldl serve s evs) \<and> sc_window_n (foldl serve s evs) = sc_window_n s"
  using assms
proof (induction evs arbitrary: s)
  case (Cons ev evs)
  have "agrees (serve s ev) \<and> phase_ok ph (serve s ev) \<and> sc_window_n (serve s ev) = sc_window_n s"
    using serve_submit_ok [OF Cons.prems] serve_worker_ok [OF Cons.prems] by (cases ev) (simp_all del: phase_ok.simps)
  then show ?case using Cons.IH [of "serve s ev"] by (simp del: phase_ok.simps)
qed simp

text \<open>
  What closing a window leaves behind, outcome by outcome. The window is charged to the cooldown map and the scores once it is
  sealed; the model moves when a full batch trained without an exception; the checkpoint when it was also due and published;
  the bucket when the window was neither lost in the seal nor in training, and archived.
\<close>

definition archived :: "('m, 'q) service_env \<Rightarrow> 'm iteration_io \<Rightarrow> batcher \<Rightarrow> valid_submission list \<Rightarrow> bucket \<Rightarrow> bucket" where
  "archived se io b batch bucket =
     (case archive_window se b batch of
        Inl e \<Rightarrow> bucket
      | Inr v \<Rightarrow> (case io_archive io of Inl e \<Rightarrow> bucket
                  | Inr u \<Rightarrow> upload_window_dataset (se_codec se) (bt_window_start b) v bucket))"

definition published :: "('m, 'q) service_env \<Rightarrow> 'm iteration_io \<Rightarrow> 'm service \<Rightarrow> 'm \<Rightarrow> checkpoint_store \<times> int" where
  "published se io s model =
     (if sc_window_n s mod CHECKPOINT_PUBLISH_INTERVAL_WINDOWS = 0 \<or> current_manifest (sc_store s) = None
      then (case publish (io_save io) (io_upload io) (se_sign se) (sc_store s) (sc_checkpoint_n s + 1) model of
              Inl e \<Rightarrow> (sc_store s, sc_checkpoint_n s)
            | Inr (st, entry) \<Rightarrow> (st, sc_checkpoint_n s + 1))
      else (sc_store s, sc_checkpoint_n s))"

definition window_outcome :: "('m, 'q) service_env \<Rightarrow> 'm iteration_io \<Rightarrow> 'm service \<Rightarrow> batcher \<Rightarrow> 'm service \<Rightarrow> bool" where
  "window_outcome se io s b s' =
     (case seal_batch (se_sha se) (sc_cooldown s) b of
        Inl e \<Rightarrow> sc_cooldown s' = sc_cooldown s \<and> sc_ema s' = sc_ema s \<and> sc_training s' = sc_training s \<and> sc_model s' = sc_model s
          \<and> (sc_store s', sc_checkpoint_n s') = (sc_store s, sc_checkpoint_n s) \<and> sc_bucket s' = sc_bucket s
      | Inr (cm, batch) \<Rightarrow>
          sc_cooldown s' = cm \<and> sc_ema s' = update_ema (se_order se) (sc_ema s) batch
          \<and> (if length batch < 8
             then sc_training s' = sc_training s \<and> sc_model s' = sc_model s
               \<and> (sc_store s', sc_checkpoint_n s') = (sc_store s, sc_checkpoint_n s)
               \<and> sc_bucket s' = archived se io b batch (sc_bucket s)
             else (case train_step (se_training se) (sc_training s) (sc_model s) batch of
                 (ts, Inl e) \<Rightarrow> sc_training s' = ts \<and> sc_model s' = sc_model s
                   \<and> (sc_store s', sc_checkpoint_n s') = (sc_store s, sc_checkpoint_n s) \<and> sc_bucket s' = sc_bucket s
               | (ts, Inr (model, mt)) \<Rightarrow> sc_training s' = ts \<and> sc_model s' = model
                   \<and> (sc_store s', sc_checkpoint_n s') = published se io s model
                   \<and> sc_bucket s' = archived se io b batch (sc_bucket s))))"

lemma window_outcome_fields:
  assumes "window_outcome se io s b s1"
    and "sc_cooldown s2 = sc_cooldown s1" "sc_ema s2 = sc_ema s1" "sc_training s2 = sc_training s1" "sc_model s2 = sc_model s1"
      "sc_store s2 = sc_store s1" "sc_checkpoint_n s2 = sc_checkpoint_n s1" "sc_bucket s2 = sc_bucket s1"
  shows "window_outcome se io s b s2"
  using assms(1) unfolding window_outcome_def assms(2-) .

lemma archive_step_bucket:
  "sc_bucket (archive_step se io b batch s) = archived se io b batch (sc_bucket s)"
  "sc_training (archive_step se io b batch s) = sc_training s" "sc_model (archive_step se io b batch s) = sc_model s"
  "sc_checkpoint_n (archive_step se io b batch s) = sc_checkpoint_n s"
  by (auto simp: archive_step_def archived_def split: sum.split)

lemma publish_outcome:
  assumes "sc_store s2 = sc_store s" "sc_checkpoint_n s2 = sc_checkpoint_n s" "sc_window_n s2 = sc_window_n s"
  shows "(sc_store (publish_checkpoint se io s2), sc_checkpoint_n (publish_checkpoint se io s2)) = published se io s (sc_model s2)"
    "sc_training (publish_checkpoint se io s2) = sc_training s2" "sc_model (publish_checkpoint se io s2) = sc_model s2"
    "sc_bucket (publish_checkpoint se io s2) = sc_bucket s2" "sc_cooldown (publish_checkpoint se io s2) = sc_cooldown s2"
    "sc_ema (publish_checkpoint se io s2) = sc_ema s2"
  using assms by (auto simp: publish_checkpoint_def published_def split: sum.split)

lemma train_and_publish_outcome:
  assumes "sc_active s = Some r" and "train_and_publish se io s = (s1, out)"
  shows "window_outcome se io s (snd (sc_batchers s ! r)) s1"
proof (cases "seal_batch (se_sha se) (sc_cooldown s) (snd (sc_batchers s ! r))")
  case (Inl e)
  then show ?thesis using assms by (auto simp: train_and_publish_def window_outcome_def)
next
  case (Inr v)
  obtain cm batch where seal: "seal_batch (se_sha se) (sc_cooldown s) (snd (sc_batchers s ! r)) = Inr (cm, batch)"
    using Inr by (cases v) auto
  show ?thesis
  proof (cases "length batch < 8")
    case True
    then show ?thesis using assms seal
      by (auto simp: train_and_publish_def train_phase_def B_BATCH_def window_outcome_def archive_step_bucket Let_def)
  next
    case False
    obtain ts res where ts: "train_step (se_training se) (sc_training s) (sc_model s) batch = (ts, res)" by fastforce
    show ?thesis using assms seal False ts
      by (cases res) (auto simp: train_and_publish_def train_phase_def B_BATCH_def window_outcome_def archive_step_bucket
          publish_outcome [where s = s] Let_def)
  qed
qed

lemma close_half_outcome:
  assumes "sc_active s = Some r"
  shows "window_outcome se io s (snd (sc_batchers s ! r)) (close_half se io s)"
proof -
  obtain s1 out where t: "train_and_publish se io s = (s1, out)" by fastforce
  note w = train_and_publish_outcome [OF assms t]
  obtain s2 o2 where ws: "weight_step se io s1 = (s2, o2)" by fastforce
  have "s2 = s1 \<or> (\<exists>blk. s2 = s1 \<lparr> sc_last_weight_block := blk \<rparr>)"
    using ws by (auto simp: weight_step_def split: sum.splits if_splits bool.splits)
  then have w2: "window_outcome se io s (snd (sc_batchers s ! r)) s2" by (auto intro: window_outcome_fields [OF w])
  show ?thesis using w w2 ws
    by (cases out; cases o2) (auto simp: close_half_def t guarded_def reset_iteration_def intro: window_outcome_fields)
qed

text \<open>
  C15. The loop always comes back. Take any open window, whatever its batcher has admitted. Whatever the seal, the training step, the upload,
  the archive and the chain then answer or raise, closing it ends with the state ready, no active
  batcher and service and server in step; and what is left behind is the outcome that happened: a failed seal changes nothing, a
  training step that raises leaves the window charged but the model, the checkpoint and the archive as they were, and otherwise the
  model is the trained one, published when due and archived. From there the next window opens under the
  next number, or is given up for want of randomness, and any requests and worker turns leave it open until it is closed in turn.
\<close>

theorem iteration_ends_ready:
  assumes "orders (se_order se)" and "agrees s" and "phase_ok Waiting s"
  shows "let s1 = close_half se io s; s2 = foldl serve (open_half se io' s1) evs in
      agrees s1 \<and> sc_state s1 = READY \<and> srv_state (sc_server s1) = READY \<and> sc_active s1 = None \<and> srv_active (sc_server s1) = None
    \<and> sc_window_n s1 = sc_window_n s
    \<and> (\<exists>r. sc_active s = Some r \<and> window_outcome se io s (snd (sc_batchers s ! r)) s1)
    \<and> agrees s2 \<and> sc_window_n s2 = sc_window_n s + 1
    \<and> phase_ok (if io_randomness io' \<in> range Inl then Between else Waiting) s2"
proof -
  let ?s1 = "close_half se io s"
  have c: "agrees ?s1" "phase_ok Between ?s1" "sc_window_n ?s1 = sc_window_n s" using close_half_ok [OF assms] by blast+
  obtain r where r: "sc_active s = Some r" using assms(3) by auto
  note o = open_half_ok [OF c(1), of se io']
  have a: "(sc_active (open_half se io' ?s1) = None) = (io_randomness io' \<in> range Inl)"
    by (cases "io_randomness io'")
       (auto simp: open_half_def set_window_randomness_def open_window_def Let_def reset_iteration_def split: prod.split)
  have p: "phase_ok (if io_randomness io' \<in> range Inl then Between else Waiting) (open_half se io' ?s1)"
    using o unfolding a by (auto simp del: phase_ok.simps split: if_splits)
  show ?thesis
    unfolding Let_def using c o close_half_outcome [OF r, of se io] r serve_ok [OF conjunct1 [OF o] p, of evs]
    by (auto simp: agrees_def simp del: phase_ok.simps(2))
qed

section \<open>The archive carries what a restart needs\<close>

lemma batch_entry_fields:
  assumes "batch_entry se b s = Inr e"
  shows "entry_hotkey e = Inr \<lparr> ae_hotkey = hotkey s, ae_prompt_idx = 0 \<rparr>"
    and "rbind (jindex e ''prompt_idx'') jint = Inr (prompt_idx s)"
  using assms by (auto simp: batch_entry_def res_simps entry_hotkey_def jindex_def)

lemma entries_read:
  assumes "traverse (batch_entry se b) batch = Inr es"
  shows "traverse entry_hotkey es = Inr (map (\<lambda>s. \<lparr> ae_hotkey = hotkey s, ae_prompt_idx = 0 \<rparr>) batch)"
    and "rebuild_entries w es d = (foldl (\<lambda>d s. rebuild_entry w (prompt_idx s) d) d batch, Inr ())"
proof -
  have l: "list_all2 (\<lambda>s e. batch_entry se b s = Inr e) batch es" using assms by (simp add: traverse_Inr_iff)
  then show "traverse entry_hotkey es = Inr (map (\<lambda>s. \<lparr> ae_hotkey = hotkey s, ae_prompt_idx = 0 \<rparr>) batch)"
    by (induction rule: list_all2_induct) (simp_all add: batch_entry_fields(1))
  from l show "rebuild_entries w es d = (foldl (\<lambda>d s. rebuild_entry w (prompt_idx s) d) d batch, Inr ())"
    by (induction arbitrary: d rule: list_all2_induct) (simp_all add: batch_entry_fields(2))
qed

text \<open>
  The archive carries what a restart needs. From the document that is written for a sealed window the replay of the scores reads
  the window's number and the hotkeys of the batch in order, and the rebuild of the cooldown
  records the window for exactly the batch's prompts.
\<close>

theorem archive_is_read_back:
  assumes "archive_window se b batch = Inr v"
  shows "(\<exists>r. read_archive v = Inr r \<and> aw_window_start r = bt_window_start b \<and> archive_hotkeys r = map hotkey batch)
    \<and> (horizon < bt_window_start b \<longrightarrow>
        rebuild_records horizon [v] d = (foldl (\<lambda>d s. rebuild_entry (bt_window_start b) (prompt_idx s) d) d batch, Inr ()))"
proof -
  obtain es where es: "traverse (batch_entry se b) batch = Inr es"
    "rbind (jindex v ''window_start'') jint = Inr (bt_window_start b)"
    "rbind (jget v ''batch'' (JList [])) jlist = Inr es"
    using assms by (auto simp: archive_window_def res_simps jindex_def jget_def dget_def)
  have "read_archive v = Inr \<lparr> aw_window_start = bt_window_start b,
      aw_batch = map (\<lambda>s. \<lparr> ae_hotkey = hotkey s, ae_prompt_idx = 0 \<rparr>) batch \<rparr>"
    using es entries_read(1) [OF es(1)] by (simp add: read_archive_def)
  moreover have "horizon < bt_window_start b \<Longrightarrow>
      rebuild_records horizon [v] d = (foldl (\<lambda>d s. rebuild_entry (bt_window_start b) (prompt_idx s) d) d batch, Inr ())"
    using es entries_read(2) [OF es(1)] by simp
  ultimately show ?thesis by (auto simp: archive_hotkeys_def comp_def)
qed

section \<open>Where a window is lost\<close>

text \<open>
  A window whose training step raises is charged but not archived. Its prompts go into cooldown and its miners are
  scored in memory, the iteration is reset to ready, and the bucket is as it was: a restart
  replays neither.
\<close>

theorem failed_training_is_not_archived:
  assumes "sc_active s = Some r" and "seal_batch (se_sha se) (sc_cooldown s) (snd (sc_batchers s ! r)) = Inr (cm, batch)"
    and "8 \<le> length batch" and "train_step (se_training se) (sc_training s) (sc_model s) batch = (ts, Inl e)"
  shows "sc_cooldown (close_half se io s) = cm \<and> sc_ema (close_half se io s) = update_ema (se_order se) (sc_ema s) batch
    \<and> sc_bucket (close_half se io s) = sc_bucket s \<and> sc_state (close_half se io s) = READY
    \<and> sc_active (close_half se io s) = None"
  using assms by (simp add: close_half_def train_and_publish_def Let_def train_phase_def B_BATCH_def guarded_def reset_iteration_def)

section \<open>Start-up\<close>

lemma bootstrap_ema_fields [simp]:
  "sc_store (bootstrap_ema se io s) = sc_store s" "sc_server (bootstrap_ema se io s) = sc_server s"
  "sc_checkpoint_n (bootstrap_ema se io s) = sc_checkpoint_n s" "sc_window_n (bootstrap_ema se io s) = sc_window_n s"
  by (simp_all add: bootstrap_ema_def split: sum.split)

lemma bootstrap_window_fields [simp]:
  "sc_store (bootstrap_window_n io s) = sc_store s" "sc_server (bootstrap_window_n io s) = sc_server s"
  by (simp_all add: bootstrap_window_n_def split: sum.split list.split)

lemma rebuild_fields [simp]:
  "sc_store (rebuild_cooldown_from_history io s) = sc_store s" "sc_server (rebuild_cooldown_from_history io s) = sc_server s"
  "sc_checkpoint_n (rebuild_cooldown_from_history io s) = sc_checkpoint_n s"
  by (simp_all add: rebuild_cooldown_from_history_def split: sum.split)

text \<open>
  The number of a resumed checkpoint does not survive start-up. The bootstrap that runs after the resume replaces it by the number of
  \<open>checkpoint\<close> commits, while the manifest that miners are shown keeps the resumed one; the next checkpoint
  is then numbered from the commit count.
\<close>

theorem bootstrap_overrides_resumed_number:
  assumes "boot se resume_from download title load io s = Inr s'" and "resume_from \<noteq> []"
    and "su_commit_titles io = Inr titles"
  shows "\<exists>source path n entry. parse_resume_source resume_from = Inr source
    \<and> resolve_resume_source (Some download) (Some title) (cs_repo_id (sc_store s)) source = Inr (path, n)
    \<and> cs_current (sc_store s') = Some entry \<and> srv_checkpoint (sc_server s') = Some entry \<and> me_checkpoint_n entry = n
    \<and> sc_checkpoint_n s' = int (length (filter is_checkpoint_title titles))"
proof -
  let ?s = "s \<lparr> sc_server := start (sc_server s) \<rparr>"
  obtain s1 where s1: "apply_resume_from se resume_from download title load ?s = Inr s1"
    and s': "s' = (let s2 = rebuild_cooldown_from_history io (bootstrap_state_from_external se io s1) in
        case su_current_block io of Inl e \<Rightarrow> s2 | Inr blk \<Rightarrow> s2 \<lparr> sc_last_weight_block := blk \<rparr>)"
    using assms(1) by (auto simp: boot_def res_simps Let_def)
  obtain source path n entry where r: "parse_resume_source resume_from = Inr source"
      "resolve_resume_source (Some download) (Some title) (cs_repo_id (sc_store s)) source = Inr (path, n)"
      "cs_current (sc_store s1) = Some entry" "srv_checkpoint (sc_server s1) = Some entry" "me_checkpoint_n entry = n"
    using s1 assms(2) by (auto simp: apply_resume_from_def res_simps Let_def set_current_checkpoint_def)
  have b: "sc_store (bootstrap_state_from_external se io s1) = sc_store s1"
    "sc_server (bootstrap_state_from_external se io s1) = sc_server s1"
    "sc_checkpoint_n (bootstrap_state_from_external se io s1) = int (length (filter is_checkpoint_title titles))"
    using assms(3) by (simp_all add: bootstrap_state_from_external_def bootstrap_checkpoint_n_def)
  have "sc_store s' = sc_store s1" "sc_server s' = sc_server s1"
    "sc_checkpoint_n s' = int (length (filter is_checkpoint_title titles))"
    unfolding s' by (simp_all add: Let_def b split: sum.split)
  then show ?thesis using r by metis
qed

section \<open>The randomness of a window\<close>

text \<open>
  Window randomness does not depend on time. Windows are numbered from one, and the beacon round is computed as if the number were a block height: as
  long as twelve times the number lies before the beacon's genesis, every window uses round one, and
  the seed is a function of the block hash at that small height.
\<close>

theorem window_randomness_uses_round_one:
  assumes "w * 12 < genesis"
  shows "derive_randomness sha get_block_hash True (genesis, period) get_beacon w =
    rbind (get_block_hash w) (\<lambda>h. rbind (get_beacon ''1'') (\<lambda>(rand, r). compute_window_randomness sha h (Some rand) (Some r)))"
proof -
  have "str_int 1 = ''1''" by code_simp
  then show ?thesis using assms
    by (simp add: derive_randomness_def compute_drand_round_for_window_def BLOCK_TIME_SECONDS_def)
qed

section \<open>Concrete instances\<close>

definition toy_se :: "(int, int) service_env" where
  "toy_se = \<lparr> se_sha = (\<lambda>b. b), se_codec = toy_codec JNull, se_order = (\<lambda>xs. xs), se_env_name = ''math'', se_env_len = 10,
     se_get_problem = (\<lambda>i. Inr [(''prompt'', JStr ''p'')]), se_compute_reward = (\<lambda>p txt. Inr (Fin 0)),
     se_decode = (\<lambda>ts. Inr []), se_encode = (\<lambda>t. Inr [1]), se_eos_token_id = None, se_verifier = (\<lambda>m. toy_ve),
     se_verify_signature = (\<lambda>c h. Inr True), se_pydantic = toy_pydantic, se_cap = 100, se_training = toy_ops,
     se_validator_hotkey = ''v'', se_sign = (\<lambda>m. Inr [7]), se_weight_interval = 360 \<rparr>"

definition toy_service :: "int service" where
  "toy_service = ValidationService 5 ''org/sn'' ''/ckpt'' []"

definition toy_io :: "int iteration_io" where
  "toy_io = \<lparr> io_now = 1, io_randomness = Inr ''ab'', io_save = (\<lambda>d m. Inr ()), io_upload = (\<lambda>d r t. Inr ''abc''),
     io_archive = Inr (), io_current_block = Inr 10, io_metagraph = Inr ([], []), io_chain = (\<lambda>v. Inr (Some True)) \<rparr>"

lemma toy_se_order: "orders (se_order toy_se)"
  by (simp add: toy_se_def orders_id)

lemma toy_service_ok: "agrees toy_service" "phase_ok Between toy_service"
  by (simp_all add: toy_service_def ValidationService_def agrees_def ValidatorServer_def CheckpointStore_def scores_ok_Nil
      queue_ok_def windows_of_def)

lemma open_half_fresh:
  assumes "io_randomness io = Inr rand"
  shows "sc_active (open_half se io s) = Some (length (sc_batchers s))"
    and "bt_valid (snd (sc_batchers (open_half se io s) ! length (sc_batchers s))) = []"
    and "bt_window_start (snd (sc_batchers (open_half se io s) ! length (sc_batchers s))) = sc_window_n s + 1"
  using assms by (simp_all add: open_half_def open_window_def Let_def open_grpo_window_def set_window_randomness_def
      set_active_def set_state_def change_batcher_def GrpoWindowBatcher_def nth_append seal_event_def)

text \<open>Two windows that nobody submits to, opened and closed.\<close>

lemma toy_open: "service_reach toy_se toy_service Waiting [] (open_half toy_se toy_io toy_service)"
  using service_reach.window_opens [OF service_reach.begins [of toy_se toy_service], of toy_io]
    open_half_fresh(1) [of toy_io "''ab''" toy_se toy_service] by (simp add: toy_io_def)

lemma toy_run: "service_reach toy_se toy_service Between [(1, [])] (close_half toy_se toy_io (open_half toy_se toy_io toy_service))"
proof -
  let ?s = "open_half toy_se toy_io toy_service"
  note f = open_half_fresh [of toy_io "''ab''" toy_se toy_service]
  have b: "sc_batchers toy_service = []" "sc_window_n toy_service = 0" by (simp_all add: toy_service_def ValidationService_def)
  have "sealed_now toy_se ?s = [(1, [])]"
    using f b by (simp add: toy_io_def sealed_now_def seal_batch_def select_batch_def ordered_def B_BATCH_def)
  then show ?thesis using service_reach.window_closes [OF toy_open, of toy_io] by simp
qed

theorem service_invariant_witness:
  "\<exists>s. service_reach toy_se toy_service Waiting [] s \<and> sc_state s = OPEN \<and> srv_state (sc_server s) = OPEN
    \<and> score_total (sc_ema s) + burn_weight (sc_ema s) = 1"
  using service_invariant [OF toy_se_order toy_service_ok toy_open] toy_open by auto

theorem prompt_reuse_is_spaced_witness:
  "service_reach toy_se toy_service Between [(1, [])] (close_half toy_se toy_io (open_half toy_se toy_io toy_service))
   \<and> sorted_wrt (\<lambda>(w1, ps1) (w2, ps2). w1 < w2 \<and> (\<forall>p \<in> set ps1 \<inter> set ps2. (1000000 :: int) \<le> w2 - w1)) [(1 :: int, [] :: int list)]"
proof -
  have c: "cooldown_windows (sc_cooldown toy_service) = 1000000"
    by (simp add: toy_service_def ValidationService_def BATCH_PROMPT_COOLDOWN_WINDOWS_def)
  then have "cooldown_windows (sc_cooldown toy_service) \<noteq> 0" by simp
  from prompt_reuse_is_spaced [OF toy_se_order toy_service_ok this toy_run, unfolded c]
  show ?thesis by (rule conjI [OF toy_run])
qed

definition toy_held :: valid_submission where
  "toy_held = toy_group [toy_trained [4, 5] 1 [JFloat (Fin 0)]] \<lparr> vs_completion_texts := [''t''] \<rparr>"

theorem archive_is_read_back_witness:
  "\<exists>v r. archive_window toy_se (GrpoWindowBatcher 7 0) [toy_held] = Inr v \<and> read_archive v = Inr r
     \<and> aw_window_start r = 7 \<and> archive_hotkeys r = [''a'']"
proof -
  obtain v where v: "archive_window toy_se (GrpoWindowBatcher 7 0) [toy_held] = Inr v"
    by (simp add: archive_window_def batch_entry_def toy_se_def rollout_payload_def toy_held_def toy_group_def
        rollout_entry_def toy_trained_def jget_or_def jget_def dget_def)
  then show ?thesis using archive_is_read_back [OF v] by (auto simp: toy_held_def toy_group_def GrpoWindowBatcher_def)
qed

theorem bootstrap_overrides_resumed_number_witness:
  "\<exists>s entry. boot toy_se ''path:/ckpt/ckpt_12'' (\<lambda>r v. Inl RuntimeError) (\<lambda>r v. Inl RuntimeError) (\<lambda>p. Inr 6)
      \<lparr> su_window_keys = Inr [], su_commit_titles = Inr [''checkpoint 1'', ''init''], su_datasets = (\<lambda>c n. Inr []),
        su_current_block = Inr 100 \<rparr> toy_service = Inr s
    \<and> cs_current (sc_store s) = Some entry \<and> me_checkpoint_n entry = 12 \<and> sc_checkpoint_n s = 1"
proof -
  have p: "parse_resume_source ''path:/ckpt/ckpt_12'' = Inr (PathSource ''/ckpt/ckpt_12'')"
    by (simp add: parse_resume_source_def)
  have c: "ckpt_dirname (path_name ''/ckpt/ckpt_12'') = Some 12" by code_simp
  let ?io = "\<lparr> su_window_keys = Inr [], su_commit_titles = Inr [''checkpoint 1'', ''init''], su_datasets = (\<lambda>c n. Inr []),
        su_current_block = Inr 100 \<rparr>"
  obtain s where s: "boot toy_se ''path:/ckpt/ckpt_12'' (\<lambda>r v. Inl RuntimeError) (\<lambda>r v. Inl RuntimeError) (\<lambda>p. Inr 6) ?io toy_service = Inr s"
    by (simp add: boot_def apply_resume_from_def p resolve_resume_source_def c manifest_signature_def toy_se_def Let_def)
  from bootstrap_overrides_resumed_number [OF s] show ?thesis
    using s p c by (auto simp: resolve_resume_source_def is_checkpoint_title_def)
qed

theorem window_randomness_uses_round_one_witness:
  "derive_randomness (\<lambda>m. m) (\<lambda>w. Inr (Some ''0xab'')) True (1692803367, 3) (\<lambda>r. Inr (''cd'', 1)) 500000
   = rbind (Inr (Some ''0xab'')) (\<lambda>h. rbind (Inr (''cd'', 1)) (\<lambda>(rand, r). compute_window_randomness (\<lambda>m. m) h (Some rand) (Some r)))"
  using window_randomness_uses_round_one [of 500000 1692803367 "\<lambda>m. m" "\<lambda>w. Inr (Some ''0xab'')" 3 "\<lambda>r. Inr (''cd'', 1)"]
  by simp

text \<open>A full window whose forward pass fails, as when the device runs out of memory.\<close>

definition failing_se :: "(int, int) service_env" where
  "failing_se = toy_se \<lparr> se_training := toy_ops \<lparr> op_next_logprobs := (\<lambda>m ts. Inl RuntimeError) \<rparr> \<rparr>"

definition full_group :: "int \<Rightarrow> valid_submission" where
  "full_group i = (toy_group [toy_trained [4, 5] 1 [JFloat (Fin 0)], toy_trained [4, 6] 1 [JFloat (Fin 0)] \<lparr> rs_reward := Fin 0 \<rparr>])
     \<lparr> prompt_idx := i, arrived_at := of_int i \<rparr>"

definition full_service :: "int service" where
  "full_service = set_state OPEN (set_active (Some 0) (toy_service \<lparr> sc_window_n := 1,
     sc_batchers := [(fst (open_grpo_window toy_se 5 1 True 0), GrpoWindowBatcher 1 0 \<lparr> bt_valid := map full_group [0..7] \<rparr>)] \<rparr>))"

lemma full_seal:
  "\<exists>cm. seal_batch (\<lambda>b. b) (sc_cooldown full_service) (snd (sc_batchers full_service ! 0)) = Inr (cm, map full_group [0..7])"
  by (simp add: full_service_def seal_batch_def select_batch_def ordered_def B_BATCH_def order_key_of_def tiebreak_key_def
      tiebreak_preimage_def to_bytes_be_def full_group_def toy_group_def GrpoWindowBatcher_def toy_service_def
      ValidationService_def is_in_cooldown_def upto.simps record_batched_def)

lemma full_advantages: "compute_advantages [Fin 1, Fin 0] = [Fin 1, Fin (- 1)]"
proof -
  have v: "variance [1, 0] = 1 / 4" by (simp add: variance_def mean_def power2_eq_square)
  have "sqrt (1 / 4) = 1 / 2" by (simp add: real_sqrt_divide)
  then show ?thesis by (simp add: compute_advantages_def real_advantages_def v Let_def) (simp add: mean_def)
qed

lemma full_training_fails:
  "train_step (se_training failing_se) (sc_training full_service) (sc_model full_service) (map full_group (0 # is))
     = (\<lparr> tr_model_id = Some 7, tr_ref_model = Some 5, tr_scheduler_step = 0 \<rparr>, Inl RuntimeError)"
proof -
  have r: "map rs_reward (vs_rollouts (full_group 0)) = [Fin 1, Fin 0]"
    by (simp add: full_group_def toy_group_def toy_trained_def)
  have g: "group_step (se_training failing_se) 5 5 n (full_group 0) ta = Inl RuntimeError" for n ta
    unfolding group_step_def r full_advantages
    by (simp add: failing_se_def full_group_def toy_group_def toy_trained_def rollout_loss_def jget_def dget_def)
  have m: "sc_model full_service = 5" by (simp add: full_service_def toy_service_def ValidationService_def)
  have l: "lazy_init (se_training failing_se) 5 (sc_training full_service)
      = (\<lparr> tr_model_id = Some 7, tr_ref_model = Some 5, tr_scheduler_step = 0 \<rparr>, True)"
    by (simp add: lazy_init_def failing_se_def toy_ops_def full_service_def toy_service_def ValidationService_def)
  show ?thesis by (simp add: train_step_def m l g Let_def)
qed

theorem failed_training_is_not_archived_witness:
  "sc_ema (close_half failing_se toy_io full_service)
     = update_ema (\<lambda>xs. xs) [] (map full_group [0..7])
   \<and> sc_bucket (close_half failing_se toy_io full_service) = []"
proof -
  obtain cm where c: "seal_batch (\<lambda>b. b) (sc_cooldown full_service) (snd (sc_batchers full_service ! 0)) = Inr (cm, map full_group [0..7])"
    using full_seal by blast
  have f: "se_sha failing_se = (\<lambda>b. b)" "se_order failing_se = (\<lambda>xs. xs)" "sc_active full_service = Some 0"
    "sc_ema full_service = []" "sc_bucket full_service = []"
    by (simp_all add: failing_se_def toy_se_def full_service_def toy_service_def ValidationService_def)
  have u: "[0..7] = 0 # [1..7::int]" by (simp add: upto.simps)
  have t: "train_step (se_training failing_se) (sc_training full_service) (sc_model full_service) (map full_group [0..7])
      = (\<lparr> tr_model_id = Some 7, tr_ref_model = Some 5, tr_scheduler_step = 0 \<rparr>, Inl RuntimeError)"
    unfolding u by (rule full_training_fails)
  show ?thesis
    using failed_training_is_not_archived [OF f(3) _ _ t, of cm, unfolded f(1), OF c] f by simp
qed

theorem iteration_ends_ready_witness:
  "sc_state (close_half failing_se toy_io full_service) = READY
   \<and> sc_training (close_half failing_se toy_io full_service) = \<lparr> tr_model_id = Some 7, tr_ref_model = Some 5, tr_scheduler_step = 0 \<rparr>
   \<and> sc_bucket (close_half failing_se toy_io full_service) = []
   \<and> sc_window_n (foldl serve (open_half failing_se toy_io (close_half failing_se toy_io full_service)) [Turn 0]) = 2"
proof -
  obtain cm where c: "seal_batch (\<lambda>b. b) (sc_cooldown full_service) (snd (sc_batchers full_service ! 0)) = Inr (cm, map full_group [0..7])"
    using full_seal by blast
  have u: "[0..7] = 0 # [1..7::int]" by (simp add: upto.simps)
  have t: "train_step (se_training failing_se) (sc_training full_service) (sc_model full_service) (map full_group [0..7])
      = (\<lparr> tr_model_id = Some 7, tr_ref_model = Some 5, tr_scheduler_step = 0 \<rparr>, Inl RuntimeError)"
    unfolding u by (rule full_training_fails)
  have f: "se_sha failing_se = (\<lambda>b. b)" "sc_active full_service = Some 0" "sc_bucket full_service = []" "sc_window_n full_service = 1"
    "orders (se_order failing_se)"
    by (simp_all add: failing_se_def toy_se_def full_service_def toy_service_def ValidationService_def orders_id)
  have w: "agrees full_service" "phase_ok Waiting full_service"
    by (simp_all add: full_service_def toy_service_def ValidationService_def agrees_def ValidatorServer_def CheckpointStore_def scores_ok_Nil
        queue_ok_def windows_of_def GrpoWindowBatcher_def)
  have "length (map full_group [0..7]) = 8" by simp
  then show ?thesis
    using iteration_ends_ready [OF f(5) w, of toy_io toy_io "[Turn 0]"] c t f by (simp add: window_outcome_def Let_def)
qed

end
