(* ===== verification/WeightOnly.thy ===== *)
theory WeightOnly
  imports Service
begin

text \<open>
  \<open>reliquary/validator/weight_only.py\<close>: the loop of a validator that only sets weights. One turn of the loop takes the
  block of the last submission and what the outside world answers, and gives the new one and
  whether the turn ends with a pause. Every exception is logged and followed by a pause.
\<close>

record weight_only_io =
  wi_current_block :: "int res"
  wi_window_keys :: "int list res"
  wi_datasets :: "int \<Rightarrow> int \<Rightarrow> json list res"
  wi_metagraph :: "(string list \<times> int list) res"
  wi_chain :: "(int \<times> real) list \<Rightarrow> bool option res"

definition weight_only_submit :: "(string list \<Rightarrow> string list) \<Rightarrow> int \<Rightarrow> weight_only_io \<Rightarrow> int list \<Rightarrow> bool res" where
  "weight_only_submit ord interval io windows =
     rbind (wi_datasets io (foldl max (hd windows) (tl windows) + 1) (interval div WINDOW_LENGTH * 3)) (\<lambda>docs.
     rbind (traverse read_archive docs) (\<lambda>archives.
     (let ema = weight_only_replay ord archives in
      submit_weights (wi_metagraph io) (wi_chain io) ema (burn_weight ema))))"

definition weight_only_turn :: "(string list \<Rightarrow> string list) \<Rightarrow> int \<Rightarrow> weight_only_io \<Rightarrow> int \<Rightarrow> int \<times> bool" where
  "weight_only_turn ord interval io last_submit =
     (case wi_current_block io of Inl e \<Rightarrow> (last_submit, True)
      | Inr blk \<Rightarrow>
          if blk - last_submit < interval then (last_submit, True)
          else case wi_window_keys io of Inl e \<Rightarrow> (last_submit, True)
          | Inr windows \<Rightarrow>
              if windows = [] then (last_submit, True)
              else case weight_only_submit ord interval io windows of
                  Inl e \<Rightarrow> (last_submit, True)
                | Inr submitted \<Rightarrow> (if submitted then blk else last_submit, False))"

text \<open>The blocks at which a run of turns has submitted.\<close>

fun submission_blocks :: "(string list \<Rightarrow> string list) \<Rightarrow> int \<Rightarrow> weight_only_io list \<Rightarrow> int \<Rightarrow> int list" where
  "submission_blocks ord interval [] last_submit = []"
| "submission_blocks ord interval (io # ios) last_submit =
     (let (next, slept) = weight_only_turn ord interval io last_submit in
      (if next \<noteq> last_submit then [next] else []) @ submission_blocks ord interval ios next)"

lemma turn_cases:
  assumes "weight_only_turn ord interval io l = (n, slept)"
  shows "n = l \<or> (l + interval \<le> n \<and> wi_current_block io = Inr n \<and> \<not> slept)"
  using assms by (auto simp: weight_only_turn_def split: sum.splits if_splits)

lemma submission_blocks_spaced:
  assumes "0 \<le> interval"
  shows "sorted_wrt (\<lambda>a b. a + interval \<le> b) (submission_blocks ord interval ios l)
    \<and> (\<forall>b \<in> set (submission_blocks ord interval ios l). l + interval \<le> b)"
proof (induction ios arbitrary: l)
  case (Cons io ios)
  obtain n slept where t: "weight_only_turn ord interval io l = (n, slept)" by fastforce
  have "n = l \<or> l + interval \<le> n" using turn_cases [OF t] by blast
  then show ?case using Cons.IH [of n] t assms by (fastforce simp: Let_def)
qed simp

text \<open>
  The weight-only loop keeps the cadence. In any run, whatever the chain and the archive answer, successful
  submissions lie at least the interval of blocks apart, the first one that far after the block
  the run started from.
\<close>

theorem weight_submissions_are_spaced:
  assumes "0 \<le> interval"
  shows "sorted_wrt (\<lambda>a b. a + interval \<le> b) (l # submission_blocks ord interval ios l)"
  using submission_blocks_spaced [OF assms] by simp

definition toy_wo_io :: "int \<Rightarrow> weight_only_io" where
  "toy_wo_io blk = \<lparr> wi_current_block = Inr blk, wi_window_keys = Inr [4],
     wi_datasets = (\<lambda>c n. Inr [JObj [(''window_start'', JInt 4), (''batch'', JList [JObj [(''hotkey'', JStr ''a'')]])]]),
     wi_metagraph = Inr ([''a''], [3]), wi_chain = (\<lambda>v. Inr (Some True)) \<rparr>"

theorem weight_submissions_are_spaced_witness:
  "submission_blocks (\<lambda>xs. xs) 360 [toy_wo_io 400, toy_wo_io 500, toy_wo_io 760] 0 = [400, 760]
   \<and> sorted_wrt (\<lambda>a b. a + 360 \<le> b) [0, 400, 760 :: int]"
proof -
  have r: "traverse read_archive [JObj [(''window_start'', JInt 4), (''batch'', JList [JObj [(''hotkey'', JStr ''a'')]])]]
      = Inr [\<lparr> aw_window_start = 4, aw_batch = [\<lparr> ae_hotkey = ''a'', ae_prompt_idx = 0 \<rparr>] \<rparr>]"
    by (simp add: read_archive_def jindex_def jget_def dget_def entry_hotkey_def)
  have s: "weight_only_submit (\<lambda>xs. xs) 360 (toy_wo_io b) [4] = Inr True" for b
    by (simp add: weight_only_submit_def toy_wo_io_def r submit_weights_def Let_def set_weights_def
        del: traverse.simps)
  have "submission_blocks (\<lambda>xs. xs) 360 [toy_wo_io 400, toy_wo_io 500, toy_wo_io 760] 0 = [400, 760]"
    using s by (simp add: weight_only_turn_def toy_wo_io_def)
  then show ?thesis using weight_submissions_are_spaced [of 360 0 "\<lambda>xs. xs" "[toy_wo_io 400, toy_wo_io 500, toy_wo_io 760]"] by simp
qed

end
