(* ===== verification/ForcedSampling.thy ===== *)
theory ForcedSampling
  imports Crypto Constants
begin

text \<open>
  \<open>reliquary/environment/forced_sampling.py\<close>: the sampler that miner and validator share.
  A row of logits is warped (temperature, top-k, softmax, top-p) into probabilities, and the
  token is the inverse CDF of those probabilities at a public number \<open>u\<close> that is hashed from
  the window randomness. Four routines compute it: \<open>warp\<close> and \<open>pick\<close> for one row,
  \<open>warp_fast\<close>, the batched \<open>force_rows_batched\<close> and its fast path, and the validator's
  \<open>seed_consistency\<close>.

  A tensor row is a non-empty \<open>real list\<close>, a batch a list of rows, and \<open>-inf\<close> is \<open>None\<close>.
  Sums are exact, so claims of equality to the last bit are here equalities of reals.
  \<open>torch.sort\<close> is not stable and \<open>torch.topk\<close> does not document its order among ties: the
  order in which each call visits its row is the parameter \<open>ord\<close>, which the predicate
  \<open>descending\<close> constrains to what is documented.
\<close>

section \<open>Tensor operations\<close>

definition temper :: "real \<Rightarrow> real list \<Rightarrow> real list" where
  "temper t logits = map (\<lambda>x. x / t) logits"

definition kth_largest :: "nat \<Rightarrow> real list \<Rightarrow> real" where
  "kth_largest k xs = rev (sort xs) ! (k - 1)"

definition top_k_mask :: "int \<Rightarrow> real list \<Rightarrow> real option list" where
  "top_k_mask top_k lg =
     (if 0 < top_k then
        let k = min (nat top_k) (length lg); kth = kth_largest k lg
        in map (\<lambda>x. if x < kth then None else Some x) lg
      else map Some lg)"

fun exp_weight :: "real option \<Rightarrow> real" where
  "exp_weight None = 0"
| "exp_weight (Some x) = exp x"

definition softmax :: "real option list \<Rightarrow> real list" where
  "softmax lg = map (\<lambda>x. exp_weight x / sum_list (map exp_weight lg)) lg"

fun cumsum_from :: "real \<Rightarrow> real list \<Rightarrow> real list" where
  "cumsum_from a [] = []"
| "cumsum_from a (x # xs) = (a + x) # cumsum_from (a + x) xs"

abbreviation cumsum :: "real list \<Rightarrow> real list" where
  "cumsum \<equiv> cumsum_from 0"

text \<open>\<open>searchsorted(cdf, u, right=True)\<close>: the number of entries up to \<open>u\<close>.\<close>

definition searchsorted_right :: "real list \<Rightarrow> real \<Rightarrow> nat" where
  "searchsorted_right cdf u = length (takeWhile (\<lambda>c. c \<le> u) cdf)"

fun scatter :: "real list \<Rightarrow> nat list \<Rightarrow> real list \<Rightarrow> real list" where
  "scatter base (i # is) (x # xs) = scatter (base[i := x]) is xs"
| "scatter base _ _ = base"

type_synonym sort_order = "real list \<Rightarrow> nat list"

definition descending_list :: "real list \<Rightarrow> nat list \<Rightarrow> bool" where
  "descending_list xs is = sorted_wrt (\<lambda>i j. xs ! j \<le> xs ! i) is"

definition descending :: "sort_order \<Rightarrow> bool" where
  "descending ord = (\<forall>xs. distinct (ord xs) \<and> set (ord xs) = {..<length xs} \<and> descending_list xs (ord xs))"

section \<open>One row\<close>

text \<open>The crossing token is kept: an entry survives when the mass before it is below \<open>top_p\<close>.\<close>

definition keep_top_p :: "real \<Rightarrow> real list \<Rightarrow> real list" where
  "keep_top_p top_p sp = map2 (\<lambda>s c. if c - s < top_p then s else 0) sp (cumsum sp)"

definition top_p_mask :: "sort_order \<Rightarrow> real \<Rightarrow> real list \<Rightarrow> real list" where
  "top_p_mask ord top_p probs =
     (if top_p \<noteq> 0 \<and> top_p < 1 then
        let si = ord probs; sp = map ((!) probs) si
        in scatter (replicate (length probs) 0) si (keep_top_p top_p sp)
      else probs)"

definition renorm :: "real list \<Rightarrow> real list" where
  "renorm probs = map (\<lambda>x. x / sum_list probs) probs"

definition warp :: "sort_order \<Rightarrow> real list \<Rightarrow> real \<Rightarrow> int \<Rightarrow> real \<Rightarrow> real list" where
  "warp ord logits t top_k top_p =
     (let lg = top_k_mask top_k (temper t logits); probs = softmax lg
      in renorm (top_p_mask ord top_p probs))"

definition warp_fast :: "sort_order \<Rightarrow> real list \<Rightarrow> real \<Rightarrow> int \<Rightarrow> real \<Rightarrow> real list" where
  "warp_fast ord logits t top_k top_p =
     (let lg = top_k_mask top_k (temper t logits); probs = softmax lg
      in renorm
          (if top_p \<noteq> 0 \<and> top_p < 1 then
             let surv_idx = filter (\<lambda>i. 0 < probs ! i) [0..<length probs];
                 surv = map ((!) probs) surv_idx;
                 order = ord surv;
                 sp = keep_top_p top_p (map ((!) surv) order);
                 kept_ids = map ((!) surv_idx) order
             in scatter (replicate (length probs) 0) kept_ids sp
           else probs))"

definition pick :: "real list \<Rightarrow> real \<Rightarrow> nat" where
  "pick probs u = min (searchsorted_right (cumsum probs) u) (length probs - 1)"

section \<open>A batch of rows\<close>

text \<open>
  The batched routines run every operation along the last axis. A row and a number are
  paired by \<open>searchsorted\<close>, which rejects batches of different sizes.
\<close>

definition warp_batch :: "sort_order \<Rightarrow> real list list \<Rightarrow> real \<Rightarrow> int \<Rightarrow> real \<Rightarrow> real list list" where
  "warp_batch ord logits t top_k top_p =
     (let lg = map (top_k_mask top_k) (map (temper t) logits); probs = map softmax lg;
          kept = map (top_p_mask ord top_p) probs
      in map renorm kept)"

definition clamp_rows :: "nat \<Rightarrow> nat list \<Rightarrow> nat list" where
  "clamp_rows vocab idx = map (\<lambda>i. min i (vocab - 1)) idx"

definition row_size :: "real list list \<Rightarrow> nat" where
  "row_size logits = (case logits of [] \<Rightarrow> 0 | r # _ \<Rightarrow> length r)"

definition force_rows_batched :: "sort_order \<Rightarrow> real list list \<Rightarrow> real list \<Rightarrow> real \<Rightarrow> int \<Rightarrow> real
    \<Rightarrow> nat list res" where
  "force_rows_batched ord logits us t top_k top_p =
     (if length us \<noteq> length logits then Inl RuntimeError
      else let lg = map (temper t) logits;
               lg = map (top_k_mask top_k) lg;
               probs = map softmax lg;
               probs = map (top_p_mask ord top_p) probs;
               probs = map renorm probs;
               cdf = map cumsum probs;
               idx = map2 searchsorted_right cdf us
           in Inr (clamp_rows (row_size logits) idx))"

definition topk_indices :: "sort_order \<Rightarrow> nat \<Rightarrow> real list \<Rightarrow> nat list" where
  "topk_indices ord k lg = take k (ord lg)"

definition boundary_tie :: "sort_order \<Rightarrow> nat \<Rightarrow> real list \<Rightarrow> bool" where
  "boundary_tie ord k lg =
     (let kth = last (map ((!) lg) (topk_indices ord k lg)) in k < length (filter (\<lambda>x. kth \<le> x) lg))"

definition inner_tie :: "sort_order \<Rightarrow> nat \<Rightarrow> real list \<Rightarrow> bool" where
  "inner_tie ord k lg =
     (let topv = map ((!) lg) (topk_indices ord k lg)
      in list_ex (\<lambda>(a, b). a = b) (zip (drop 1 topv) topv))"

definition fast_probs :: "sort_order \<Rightarrow> nat \<Rightarrow> real \<Rightarrow> real list \<Rightarrow> real list" where
  "fast_probs ord k top_p lg =
     (let topi = topk_indices ord k lg; kth = last (map ((!) lg) topi);
          probs = softmax (map (\<lambda>x. if kth \<le> x then Some x else None) lg);
          probs = (if top_p \<noteq> 0 \<and> top_p < 1 then
                     scatter (replicate (length probs) 0) topi (keep_top_p top_p (map ((!) probs) topi))
                   else probs)
      in renorm probs)"

definition fast_pick :: "sort_order \<Rightarrow> nat \<Rightarrow> real list \<Rightarrow> real list \<Rightarrow> real \<Rightarrow> nat" where
  "fast_pick ord k lg probs u =
     (let asc_i = sort (topk_indices ord k lg);
          pos = searchsorted_right (cumsum (map ((!) probs) asc_i)) u
      in if k \<le> pos then length lg - 1 else asc_i ! pos)"

definition force_rows_batched_fast :: "sort_order \<Rightarrow> sort_order \<Rightarrow> real list list \<Rightarrow> real list \<Rightarrow> real
    \<Rightarrow> int \<Rightarrow> real \<Rightarrow> nat list res" where
  "force_rows_batched_fast topk_ord ord logits us t top_k top_p =
     (if \<not> (0 < top_k \<and> top_k < int (row_size logits)) then
        force_rows_batched ord logits us t top_k top_p
      else
        let lg = map (temper t) logits; k = min (nat top_k) (row_size logits)
        in if list_ex (boundary_tie topk_ord k) lg \<or> list_ex (inner_tie topk_ord k) lg then
             force_rows_batched ord logits us t top_k top_p
           else if length us \<noteq> length logits then Inl RuntimeError
           else Inr (map2 (\<lambda>r u. fast_pick topk_ord k r (fast_probs topk_ord k top_p r) u) lg us))"

section \<open>The public draw\<close>

definition u_preimage :: "string \<Rightarrow> string \<Rightarrow> int \<Rightarrow> string \<Rightarrow> int \<Rightarrow> int \<Rightarrow> bytes res" where
  "u_preimage domain randomness prompt_idx checkpoint_hash rollout_index t =
     rbind (len_prefix 2 (encode randomness)) (\<lambda>r.
     rbind (to_bytes_be 8 prompt_idx) (\<lambda>p.
     rbind (len_prefix 2 (encode checkpoint_hash)) (\<lambda>c.
     rbind (to_bytes_be 4 rollout_index) (\<lambda>k.
     rbind (to_bytes_be 4 t) (\<lambda>s.
     Inr (encode domain @ r @ p @ c @ k @ s))))))"

definition u_at :: "(bytes \<Rightarrow> bytes) \<Rightarrow> string \<Rightarrow> string \<Rightarrow> int \<Rightarrow> string \<Rightarrow> int \<Rightarrow> int \<Rightarrow> real res" where
  "u_at sha domain randomness prompt_idx checkpoint_hash rollout_index t =
     rbind (u_preimage domain randomness prompt_idx checkpoint_hash rollout_index t) (\<lambda>msg.
     Inr (of_int (from_bytes_be (take 8 (sha msg))) / 2 ^ 64))"

section \<open>The validator's check\<close>

definition seed_consistency :: "sort_order \<Rightarrow> real list list \<Rightarrow> int list \<Rightarrow> real list \<Rightarrow> real \<Rightarrow> int \<Rightarrow> real
    \<Rightarrow> real \<Rightarrow> nat \<times> nat" where
  "seed_consistency ord logits token_ids u_values t top_k top_p stochastic_threshold =
     (let n = min (min (length token_ids) (length u_values)) (length logits)
      in if n = 0 then (0, 0)
         else let probs = warp_batch ord (take n logits) t top_k top_p;
                  stochastic = map (\<lambda>r. Max (set r) < stochastic_threshold) probs;
                  cdf = map cumsum probs;
                  picks = clamp_rows (row_size probs) (map2 searchsorted_right cdf (take n u_values));
                  matched = map2 (\<and>) stochastic (map2 (\<lambda>p x. int p = x) picks (take n token_ids))
              in (length (filter id stochastic), length (filter id matched)))"

section \<open>Searching a cumulative sum\<close>

fun first_over :: "real \<Rightarrow> real \<Rightarrow> real list \<Rightarrow> nat" where
  "first_over a u [] = 0"
| "first_over a u (x # xs) = (if a + x \<le> u then Suc (first_over (a + x) u xs) else 0)"

lemma search_first_over: "searchsorted_right (cumsum_from a xs) u = first_over a u xs"
  by (induction xs arbitrary: a) (auto simp: searchsorted_right_def)

lemma first_over_le: "first_over a u xs \<le> length xs"
  by (induction xs arbitrary: a) auto

lemma first_over_before: "i < first_over a u xs \<Longrightarrow> a + sum_list (take (Suc i) xs) \<le> u"
proof (induction xs arbitrary: a i)
  case Nil
  then show ?case by simp
next
  case (Cons x xs)
  then show ?case by (cases i) (force split: if_splits simp: add.assoc [symmetric])+
qed

lemma first_over_stop:
  "first_over a u xs < length xs \<Longrightarrow> u < a + sum_list (take (Suc (first_over a u xs)) xs)"
  by (induction xs arbitrary: a) (auto simp: add.assoc [symmetric])

lemma first_over_prefix: "a \<le> u \<Longrightarrow> a + sum_list (take (first_over a u xs) xs) \<le> u"
  by (cases "first_over a u xs") (simp, metis first_over_before lessI)

text \<open>Entries that are zero can be left out of the search.\<close>

lemma first_over_restrict:
  assumes "a \<le> u" and "\<And>i. i \<in> set is \<Longrightarrow> \<not> P i \<Longrightarrow> p i = 0"
  shows "(length (filter P is) \<le> first_over a u (map p (filter P is)) \<and> first_over a u (map p is) = length is)
    \<or> (first_over a u (map p (filter P is)) < length (filter P is) \<and> first_over a u (map p is) < length is
        \<and> filter P is ! first_over a u (map p (filter P is)) = is ! first_over a u (map p is))"
  using assms by (induction "is" arbitrary: a) auto

lemma cumsum_nth: "m < length xs \<Longrightarrow> cumsum_from a xs ! m = a + sum_list (take (Suc m) xs)"
proof (induction xs arbitrary: a m)
  case Nil
  then show ?case by simp
next
  case (Cons x xs)
  then show ?case by (cases m) auto
qed

lemma length_cumsum [simp]: "length (cumsum_from a xs) = length xs"
  by (induction xs arbitrary: a) auto

lemma length_scatter [simp]: "length (scatter base is xs) = length base"
  by (induction base "is" xs rule: scatter.induct) auto

lemma scatter_other: "i \<notin> set is \<Longrightarrow> scatter base is xs ! i = base ! i"
  by (induction base "is" xs rule: scatter.induct) auto

lemma scatter_at:
  assumes "distinct is" and "length xs = length is" and "set is \<subseteq> {..<length base}" and "m < length is"
  shows "scatter base is xs ! (is ! m) = xs ! m"
  using assms
proof (induction base "is" xs arbitrary: m rule: scatter.induct)
  case (1 base i "is" x xs)
  then show ?case by (cases m) (auto simp: scatter_other)
qed auto

lemma keep_top_p_nth:
  "m < length sp \<Longrightarrow> keep_top_p p sp ! m = (if sum_list (take m sp) < p then sp ! m else 0)"
  by (simp add: keep_top_p_def cumsum_nth take_Suc_conv_app_nth)

lemma length_keep_top_p [simp]: "length (keep_top_p p sp) = length sp"
  by (simp add: keep_top_p_def)

section \<open>The nucleus does not depend on the order\<close>

text \<open>
  The reference: an entry survives when the entries strictly above it weigh less than
  \<open>top_p\<close>. Every routine computes it when no two positive entries are equal.
\<close>

definition nucleus :: "real \<Rightarrow> real list \<Rightarrow> real list" where
  "nucleus top_p probs =
     map (\<lambda>y. if sum_list (filter (\<lambda>x. y < x) probs) < top_p then y else 0) probs"

definition untied_support :: "real list \<Rightarrow> bool" where
  "untied_support probs = distinct (filter (\<lambda>x. 0 < x) probs)"

lemma untied_support_inj:
  assumes "untied_support probs" and "i < length probs" and "j < length probs"
    and "0 < probs ! i" and "probs ! i = probs ! j"
  shows "i = j"
  using assms
proof (induction probs arbitrary: i j)
  case Nil
  then show ?case by simp
next
  case (Cons a xs)
  have u: "untied_support xs" using Cons.prems(1) by (auto simp: untied_support_def split: if_splits)
  have "0 < a \<Longrightarrow> a \<notin> set xs"
    using Cons.prems(1) by (auto simp: untied_support_def)
  then show ?case using Cons u by (cases i; cases j) (auto simp: in_set_conv_nth)
qed

lemma sum_list_filter_map:
  assumes "distinct is"
  shows "sum_list (filter P (map f is)) = (\<Sum>i \<in> {i \<in> set is. P (f i)}. (f i :: real))"
proof -
  have "sum_list (filter P (map f is)) = sum_list (map f (filter (P \<circ> f) is))"
    by (simp add: filter_map)
  also have "\<dots> = sum f (set (filter (P \<circ> f) is))"
    using assms by (simp add: sum_list_distinct_conv_sum_set)
  finally show ?thesis by simp
qed

text \<open>An enumeration of a row's positive entries, the largest first.\<close>

definition enumerates :: "real list \<Rightarrow> nat list \<Rightarrow> bool" where
  "enumerates probs is = (distinct is \<and> set is \<subseteq> {..<length probs}
     \<and> (\<forall>i < length probs. 0 < probs ! i \<longrightarrow> i \<in> set is) \<and> descending_list probs is)"

lemma mass_before:
  assumes e: "enumerates probs is" and u: "untied_support probs" and m: "m < length is"
    and pos: "0 < probs ! (is ! m)"
  shows "sum_list (take m (map ((!) probs) is)) = sum_list (filter (\<lambda>x. probs ! (is ! m) < x) probs)"
proof -
  let ?y = "probs ! (is ! m)" and ?f = "(!) probs"
  have sorted: "sorted_wrt (\<lambda>i j. probs ! j \<le> probs ! i) is" and dist: "distinct is"
    and sub: "set is \<subseteq> {..<length probs}"
    and cov: "\<forall>i < length probs. 0 < probs ! i \<longrightarrow> i \<in> set is"
    using e by (auto simp: enumerates_def descending_list_def)
  have above: "?y < probs ! i" if "i \<in> set (take m is)" for i
  proof -
    have "\<exists>k < m. i = is ! k" using that m by (auto simp: in_set_conv_nth)
    then obtain k where k: "k < m" "i = is ! k" by blast
    then have "?y \<le> probs ! i" using sorted m by (auto simp: sorted_wrt_iff_nth_less)
    moreover have "is ! k \<noteq> is ! m" using k(1) m dist by (simp add: nth_eq_iff_index_eq)
    then have "probs ! i \<noteq> ?y"
      using untied_support_inj [OF u, of "is ! m" i] pos sub k m
      by (metis less_trans lessThan_iff nth_mem subsetD)
    ultimately show ?thesis by simp
  qed
  have below: "\<not> ?y < probs ! i" if i: "i \<in> set (drop m is)" for i
  proof -
    obtain k where "k < length (drop m is)" and "drop m is ! k = i"
      using i unfolding in_set_conv_nth by blast
    then have k: "m + k < length is" "i = is ! (m + k)" using m by simp_all
    then show ?thesis
      using sorted by (cases "k = 0") (simp_all add: sorted_wrt_iff_nth_less not_less)
  qed
  have "filter (\<lambda>x. ?y < x) (map ?f (take m is @ drop m is)) = map ?f (take m is)"
    using above below unfolding map_append filter_append by (simp add: filter_id_conv filter_empty_conv)
  then have "sum_list (take m (map ?f is)) = sum_list (filter (\<lambda>x. ?y < x) (map ?f is))"
    by (simp add: take_map)
  also have "\<dots> = (\<Sum>i \<in> {i \<in> set is. ?y < probs ! i}. probs ! i)"
    by (rule sum_list_filter_map [OF dist])
  also have "{i \<in> set is. ?y < probs ! i} = {i \<in> set [0..<length probs]. ?y < probs ! i}"
  proof
    show "{i \<in> set is. ?y < probs ! i} \<subseteq> {i \<in> set [0..<length probs]. ?y < probs ! i}"
      using sub by auto
    show "{i \<in> set [0..<length probs]. ?y < probs ! i} \<subseteq> {i \<in> set is. ?y < probs ! i}"
      using cov less_trans [OF pos] by simp blast
  qed
  also have "(\<Sum>i \<in> {i \<in> set [0..<length probs]. ?y < probs ! i}. probs ! i)
      = sum_list (filter (\<lambda>x. ?y < x) (map ?f [0..<length probs]))"
    by (rule sum_list_filter_map [symmetric]) simp
  finally show ?thesis by (simp add: map_nth)
qed

lemma scattered_nucleus:
  assumes e: "enumerates probs is" and u: "untied_support probs" and nn: "\<forall>x \<in> set probs. 0 \<le> x"
  shows "scatter (replicate (length probs) 0) is (keep_top_p top_p (map ((!) probs) is)) = nucleus top_p probs"
proof (rule nth_equalityI)
  fix i assume "i < length (scatter (replicate (length probs) 0) is (keep_top_p top_p (map ((!) probs) is)))"
  then have i: "i < length probs" by simp
  show "scatter (replicate (length probs) 0) is (keep_top_p top_p (map ((!) probs) is)) ! i = nucleus top_p probs ! i"
  proof (cases "i \<in> set is")
    case False
    then have "\<not> 0 < probs ! i" using e i by (auto simp: enumerates_def)
    then have "probs ! i = 0" using nn i by (metis less_eq_real_def nth_mem)
    then show ?thesis using i False by (simp add: scatter_other nucleus_def)
  next
    case True
    then obtain m where m: "m < length is" "i = is ! m" by (auto simp: in_set_conv_nth)
    then have "scatter (replicate (length probs) 0) is (keep_top_p top_p (map ((!) probs) is)) ! i
        = (if sum_list (take m (map ((!) probs) is)) < top_p then probs ! i else 0)"
      using e by (simp add: scatter_at enumerates_def keep_top_p_nth)
    moreover have "0 \<le> probs ! i" using nn i by simp
    ultimately show ?thesis
      using mass_before [OF e u m(1)] m(2) i by (cases "probs ! i = 0") (simp_all add: nucleus_def)
  qed
qed (simp add: nucleus_def)

section \<open>The softmax of a masked row\<close>

definition kept_logits :: "real option list \<Rightarrow> real list" where
  "kept_logits lg = List.map_filter id lg"

lemma kept_logits_simps [simp]:
  "kept_logits [] = []"
  "kept_logits (None # xs) = kept_logits xs"
  "kept_logits (Some x # xs) = x # kept_logits xs"
  by (simp_all add: kept_logits_def List.map_filter_simps)

lemma length_softmax [simp]: "length (softmax lg) = length lg"
  by (simp add: softmax_def)

lemma length_mask [simp]: "length (top_k_mask k lg) = length lg" "length (temper t lg) = length lg"
  by (simp_all add: top_k_mask_def temper_def Let_def)

lemma exp_weight_nonneg: "0 \<le> exp_weight w"
  by (cases w) auto

lemma exp_total_pos: "Some x \<in> set lg \<Longrightarrow> 0 < sum_list (map exp_weight lg)"
proof -
  assume "Some x \<in> set lg"
  then have "exp_weight (Some x) \<le> sum_list (map exp_weight lg)"
    by (intro sum_list_nonneg_le_member) (auto intro: exp_weight_nonneg rev_image_eqI)
  moreover have "0 < exp_weight (Some x)" by simp
  ultimately show ?thesis by linarith
qed

lemma softmax_sum:
  assumes "Some x \<in> set lg"
  shows "sum_list (softmax lg) = 1"
proof -
  have "sum_list (softmax lg) = sum_list (map exp_weight lg) / sum_list (map exp_weight lg)"
    by (simp add: softmax_def divide_inverse sum_list_mult_const)
  then show ?thesis using exp_total_pos [OF assms] by simp
qed

lemma softmax_nonneg: "\<forall>x \<in> set (softmax lg). 0 \<le> x"
  by (auto simp: softmax_def intro!: divide_nonneg_nonneg exp_weight_nonneg sum_list_nonneg)

lemma softmax_pos_iff:
  assumes "Some x \<in> set lg" and "i < length lg"
  shows "0 < softmax lg ! i \<longleftrightarrow> lg ! i \<noteq> None"
  using exp_total_pos [OF assms(1)] assms(2) by (cases "lg ! i") (simp_all add: softmax_def)

lemma softmax_support:
  assumes "Some x \<in> set lg"
  shows "filter (\<lambda>x. 0 < x) (softmax lg) = map (\<lambda>x. exp x / sum_list (map exp_weight lg)) (kept_logits lg)"
proof -
  have "filter (\<lambda>x. 0 < x) (map (\<lambda>w. exp_weight w / S) ws) = map (\<lambda>x. exp x / S) (kept_logits ws)"
    if "0 < S" for S ws
  proof (induction ws)
    case Nil
    then show ?case by simp
  next
    case (Cons w ws)
    then show ?case using that by (cases w) simp_all
  qed
  from this [OF exp_total_pos [OF assms]] show ?thesis by (simp add: softmax_def)
qed

lemma untied_softmax:
  assumes "Some x \<in> set lg" and "distinct (kept_logits lg)"
  shows "untied_support (softmax lg)"
proof -
  have "inj_on (\<lambda>x. exp x / sum_list (map exp_weight lg)) (set (kept_logits lg))"
    using exp_total_pos [OF assms(1)] by (auto intro!: inj_onI)
  then show ?thesis
    using assms(2) by (simp add: untied_support_def softmax_support [OF assms(1)] distinct_map)
qed

lemma sorted_by_order:
  assumes "descending ord"
  shows "map ((!) xs) (ord xs) = rev (sort xs)"
proof -
  have o: "distinct (ord xs)" "set (ord xs) = set [0..<length xs]" "sorted_wrt (\<lambda>i j. xs ! j \<le> xs ! i) (ord xs)"
    using assms by (auto simp: descending_def descending_list_def)
  have "mset (ord xs) = mset [0..<length xs]"
    using o by (metis distinct_upt set_eq_iff_mset_eq_distinct)
  then have "mset (map ((!) xs) (ord xs)) = mset xs"
    by (metis map_nth mset_map)
  moreover have "sorted (rev (map ((!) xs) (ord xs)))"
    using o(3) by (simp add: sorted_wrt_rev sorted_wrt_map)
  ultimately have "sort xs = rev (map ((!) xs) (ord xs))"
    by (intro properties_for_sort) simp_all
  then show ?thesis by simp
qed

lemma kth_largest_member: "0 < k \<Longrightarrow> k \<le> length xs \<Longrightarrow> kth_largest k xs \<in> set xs"
  unfolding kth_largest_def by (metis One_nat_def Suc_le_eq diff_less length_rev length_sort less_le_trans
      nth_mem set_rev set_sort zero_less_one diff_le_self less_imp_le_nat)

lemma mask_keeps_one: "lg \<noteq> [] \<Longrightarrow> \<exists>x. Some x \<in> set (top_k_mask top_k lg)"
proof (cases "0 < top_k")
  case True
  assume "lg \<noteq> []"
  with True have "kth_largest (min (nat top_k) (length lg)) lg \<in> set lg"
    by (intro kth_largest_member) auto
  then show ?thesis using True by (auto simp: top_k_mask_def Let_def image_iff intro!: exI bexI)
next
  case False
  assume "lg \<noteq> []"
  then show ?thesis using False by (auto simp: top_k_mask_def neq_Nil_conv)
qed

section \<open>All routines agree\<close>

text \<open>What every routine computes for an untied row, whatever the orders of its sorts.\<close>

definition warped :: "real list \<Rightarrow> real \<Rightarrow> int \<Rightarrow> real \<Rightarrow> real list" where
  "warped logits t top_k top_p =
     (let probs = softmax (top_k_mask top_k (temper t logits))
      in renorm (if top_p \<noteq> 0 \<and> top_p < 1 then nucleus top_p probs else probs))"

definition untied :: "real \<Rightarrow> int \<Rightarrow> real list \<Rightarrow> bool" where
  "untied t top_k logits = distinct (kept_logits (top_k_mask top_k (temper t logits)))"

lemma descending_enumerates: "descending ord \<Longrightarrow> enumerates probs (ord probs)"
  by (simp add: descending_def enumerates_def)

lemma untied_probs:
  assumes "logits \<noteq> []" and "untied t top_k logits"
  shows "untied_support (softmax (top_k_mask top_k (temper t logits)))"
proof -
  obtain x where "Some x \<in> set (top_k_mask top_k (temper t logits))"
    using mask_keeps_one [of "temper t logits" top_k] assms(1) by (auto simp: temper_def)
  then show ?thesis using assms(2) unfolding untied_def by (rule untied_softmax)
qed

lemma warp_warped:
  assumes "descending ord" and "logits \<noteq> []" and "untied t top_k logits"
  shows "warp ord logits t top_k top_p = warped logits t top_k top_p"
  using scattered_nucleus [OF descending_enumerates [OF assms(1)] untied_probs [OF assms(2,3)] softmax_nonneg]
  by (simp add: warp_def warped_def top_p_mask_def Let_def)

lemma survivors_enumerate:
  assumes o: "descending ord" and nn: "\<forall>x \<in> set probs. 0 \<le> x"
  defines "surv \<equiv> filter (\<lambda>i. 0 < probs ! i) [0..<length probs]"
  defines "vals \<equiv> map ((!) probs) surv"
  shows "enumerates probs (map ((!) surv) (ord vals))"
    and "map ((!) vals) (ord vals) = map ((!) probs) (map ((!) surv) (ord vals))"
proof -
  have v: "distinct (ord vals)" "set (ord vals) = {..<length surv}" "descending_list vals (ord vals)"
    using o by (auto simp: descending_def vals_def)
  have at: "vals ! m = probs ! (surv ! m)" if "m \<in> set (ord vals)" for m
    using that v(2) by (simp add: vals_def)
  have "distinct surv" by (simp add: surv_def)
  then have "inj_on ((!) surv) (set (ord vals))"
    unfolding v(2) by (auto intro!: inj_onI simp: nth_eq_iff_index_eq)
  moreover have "set (map ((!) surv) (ord vals)) = set surv"
    by (simp add: v(2)) (auto simp: in_set_conv_nth image_iff)
  moreover have "descending_list probs (map ((!) surv) (ord vals))"
    using v(3) unfolding descending_list_def sorted_wrt_map
    by (rule sorted_wrt_mono_rel [rotated]) (simp add: at)
  ultimately show "enumerates probs (map ((!) surv) (ord vals))"
    using v(1) by (auto simp: enumerates_def distinct_map surv_def)
  show "map ((!) vals) (ord vals) = map ((!) probs) (map ((!) surv) (ord vals))"
    by (simp add: at)
qed

lemma warp_fast_warped:
  assumes "descending ord" and "logits \<noteq> []" and "untied t top_k logits"
  shows "warp_fast ord logits t top_k top_p = warped logits t top_k top_p"
proof -
  let ?probs = "softmax (top_k_mask top_k (temper t logits))"
  note nn = softmax_nonneg [of "top_k_mask top_k (temper t logits)"]
  note e = survivors_enumerate [OF assms(1) nn]
  show ?thesis
    using scattered_nucleus [OF e(1) untied_probs [OF assms(2,3)] nn] unfolding warp_fast_def warped_def Let_def e(2)
    by simp
qed

lemma pick_less: "probs \<noteq> [] \<Longrightarrow> pick probs u < length probs"
  by (cases probs) (simp_all add: pick_def less_Suc_eq_le)

section \<open>The batched routines\<close>

definition batch_shape :: "real list list \<Rightarrow> bool" where
  "batch_shape logits = (\<forall>r \<in> set logits. r \<noteq> [] \<and> length r = row_size logits)"

lemma length_warp [simp]: "length (warp ord logits t top_k top_p) = length logits"
  by (simp add: warp_def renorm_def top_p_mask_def Let_def)

lemma length_warped [simp]: "length (warped logits t top_k top_p) = length logits"
  by (simp add: warped_def renorm_def nucleus_def Let_def)

lemma warp_batch_rows: "warp_batch ord logits t top_k top_p = map (\<lambda>r. warp ord r t top_k top_p) logits"
  by (simp add: warp_batch_def warp_def Let_def)

lemma picks_rows:
  assumes "\<forall>r \<in> set logits. length r = v"
  shows "clamp_rows v (map2 searchsorted_right (map cumsum (map (\<lambda>r. warp ord r t top_k top_p) logits)) us)
    = map2 (\<lambda>r u. pick (warp ord r t top_k top_p) u) logits us"
  using assms by (induction logits arbitrary: us) (auto simp: clamp_rows_def pick_def split: list.splits simp: zip_Cons1)

lemma force_rows_batched_rows:
  assumes "batch_shape logits"
  shows "force_rows_batched ord logits us t top_k top_p =
    (if length us \<noteq> length logits then Inl RuntimeError
     else Inr (map2 (\<lambda>r u. pick (warp ord r t top_k top_p) u) logits us))"
  using picks_rows [of logits "row_size logits" ord t top_k top_p us] assms
  by (simp add: force_rows_batched_def warp_def Let_def comp_def batch_shape_def)

section \<open>The fast path\<close>

lemma last_take: "0 < k \<Longrightarrow> k \<le> length xs \<Longrightarrow> last (take k xs) = xs ! (k - 1)"
  by (subst last_conv_nth) auto

lemma topk_last:
  assumes o: "descending ord" and k: "0 < k" "k \<le> length lg"
  shows "last (map ((!) lg) (topk_indices ord k lg)) = kth_largest k lg"
proof -
  have "length (topk_indices ord k lg) = k"
    using o k by (simp add: topk_indices_def descending_def) (metis card_lessThan distinct_card min_absorb2)
  moreover have "map ((!) lg) (topk_indices ord k lg) = take k (rev (sort lg))"
    using sorted_by_order [OF o, of lg] by (simp add: topk_indices_def take_map [symmetric])
  ultimately show ?thesis
    using k last_take [of k "rev (sort lg)"] by (simp add: kth_largest_def)
qed

lemma mask_fast:
  assumes "descending ord" and "0 < k" and "k \<le> length lg"
  shows "map (\<lambda>x. if last (map ((!) lg) (topk_indices ord k lg)) \<le> x then Some x else None) lg
    = top_k_mask (int k) lg"
  using assms by (auto simp: topk_last top_k_mask_def Let_def min_def not_less)

lemma length_order: "descending ord \<Longrightarrow> length (ord lg) = length lg"
  unfolding descending_def by (metis card_lessThan distinct_card)

text \<open>Without a tie at the threshold, the top-k indices are exactly the entries that survive.\<close>

lemma topk_set:
  assumes o: "descending ord" and k: "0 < k" "k \<le> length lg" and b: "\<not> boundary_tie ord k lg"
  shows "set (topk_indices ord k lg) = {i. i < length lg \<and> kth_largest k lg \<le> lg ! i}"
proof (rule card_subset_eq)
  let ?S = "{i. i < length lg \<and> kth_largest k lg \<le> lg ! i}"
  show "finite ?S" by simp
  have d: "distinct (ord lg)" "set (ord lg) = {..<length lg}"
    "sorted_wrt (\<lambda>i j. lg ! j \<le> lg ! i) (ord lg)"
    using o by (auto simp: descending_def descending_list_def)
  have last: "kth_largest k lg = lg ! (ord lg ! (k - 1))"
    using topk_last [OF o k] last_take [of k "map ((!) lg) (ord lg)"] k
    by (simp add: topk_indices_def take_map length_order [OF o])
  show sub: "set (topk_indices ord k lg) \<subseteq> ?S"
  proof
    fix i assume "i \<in> set (topk_indices ord k lg)"
    then obtain m where m: "m < k" "i = ord lg ! m"
      using k by (auto simp: topk_indices_def in_set_conv_nth length_order [OF o])
    then have "m = k - 1 \<or> m < k - 1" by linarith
    then have "lg ! (ord lg ! (k - 1)) \<le> lg ! i"
      using m d(3) k by (auto simp: sorted_wrt_iff_nth_less length_order [OF o])
    moreover have "i \<in> set (ord lg)" using m k by (simp add: length_order [OF o])
    ultimately show "i \<in> ?S" using d(2) last by simp
  qed
  have c: "card (set (topk_indices ord k lg)) = k"
    using d(1) k by (simp add: topk_indices_def distinct_card length_order [OF o])
  moreover have "card ?S \<le> k"
    using b topk_last [OF o k] by (simp add: boundary_tie_def Let_def length_filter_conv_card)
  ultimately show "card (set (topk_indices ord k lg)) = card ?S"
    using card_mono [OF _ sub] by simp
qed

lemma adjacent_distinct:
  assumes "sorted_wrt (\<ge>) (vs :: real list)" and "\<not> list_ex (\<lambda>(a, b). a = b) (zip (drop 1 vs) vs)"
  shows "distinct vs"
  using assms
proof (induction vs)
  case Nil
  then show ?case by simp
next
  case (Cons v vs)
  then show ?case
  proof (cases vs)
    case Nil
    then show ?thesis by simp
  next
    case (Cons w ws)
    then have "w < v" "\<forall>x \<in> set ws. x \<le> w" using Cons.prems by auto
    then show ?thesis using Cons.IH Cons.prems Cons by fastforce
  qed
qed

lemma topk_enumerates:
  assumes o: "descending ord" and k: "0 < k" "k \<le> length lg" and b: "\<not> boundary_tie ord k lg"
  shows "enumerates (softmax (top_k_mask (int k) lg)) (topk_indices ord k lg)"
proof -
  let ?m = "top_k_mask (int k) lg" and ?topi = "topk_indices ord k lg"
  obtain x where x: "Some x \<in> set ?m" using mask_keeps_one [of lg "int k"] k by fastforce
  note topi = topk_set [OF o k b]
  have m: "?m ! i = (if lg ! i < kth_largest k lg then None else Some (lg ! i))" if "i < length lg" for i
    using that k by (simp add: top_k_mask_def Let_def min_def)
  have "distinct ?topi" using o by (simp add: topk_indices_def descending_def)
  moreover have "i \<in> set ?topi" if "i < length lg" "0 < softmax ?m ! i" for i
    using that softmax_pos_iff [OF x, of i] m [of i] by (auto simp: topi split: if_splits)
  moreover have "descending_list (softmax ?m) ?topi"
  proof -
    have "descending_list lg ?topi"
      using o by (simp add: topk_indices_def descending_def descending_list_def sorted_wrt_take)
    then show ?thesis unfolding descending_list_def
    proof (rule sorted_wrt_mono_rel [rotated])
      fix i j assume ij: "i \<in> set ?topi" "j \<in> set ?topi" "lg ! j \<le> lg ! i"
      then show "softmax ?m ! j \<le> softmax ?m ! i"
        using exp_total_pos [OF x] m [of i] m [of j] by (simp add: topi softmax_def divide_right_mono)
    qed
  qed
  ultimately show ?thesis by (auto simp: enumerates_def topi)
qed

lemma kept_of_mask:
  "0 < k \<Longrightarrow> k \<le> length lg \<Longrightarrow> kept_logits (top_k_mask (int k) lg) = filter (\<lambda>x. kth_largest k lg \<le> x) lg"
proof -
  have "kept_logits (map (\<lambda>x. if x < c then None else Some x) xs) = filter (\<lambda>x. c \<le> x) xs" for c xs
    by (induction xs) auto
  then show "0 < k \<Longrightarrow> k \<le> length lg \<Longrightarrow> ?thesis" by (simp add: top_k_mask_def Let_def min_def)
qed

lemma no_ties_kept:
  assumes o: "descending ord" and k: "0 < k" "k \<le> length lg"
    and b: "\<not> boundary_tie ord k lg" and i: "\<not> inner_tie ord k lg"
  shows "distinct (kept_logits (top_k_mask (int k) lg))"
proof -
  let ?topi = "topk_indices ord k lg" and ?keep = "filter (\<lambda>i. kth_largest k lg \<le> lg ! i) [0..<length lg]"
  have "sorted_wrt (\<ge>) (map ((!) lg) ?topi)"
    using o by (simp add: topk_indices_def descending_def descending_list_def sorted_wrt_take sorted_wrt_map)
  then have "distinct (map ((!) lg) ?topi)"
    using i adjacent_distinct unfolding inner_tie_def Let_def by blast
  then have "inj_on ((!) lg) (set ?keep)"
    by (simp add: distinct_map topk_set [OF o k b])
  then have "distinct (map ((!) lg) ?keep)" by (simp add: distinct_map)
  moreover have "map ((!) lg) ?keep = filter (\<lambda>x. kth_largest k lg \<le> x) (map ((!) lg) [0..<length lg])"
    by (simp add: filter_map comp_def)
  ultimately show ?thesis by (simp add: kept_of_mask [OF k] map_nth)
qed

lemma zero_stays_zero:
  assumes "i < length logits" and "softmax (top_k_mask top_k (temper t logits)) ! i = 0"
  shows "warped logits t top_k top_p ! i = 0"
  using assms by (simp add: warped_def renorm_def nucleus_def Let_def)

lemma fast_probs_warped:
  assumes o: "descending ord" and k: "0 < k" "k \<le> length logits"
    and b: "\<not> boundary_tie ord k (temper t logits)" and i: "\<not> inner_tie ord k (temper t logits)"
  shows "fast_probs ord k top_p (temper t logits) = warped logits t (int k) top_p"
proof -
  let ?lg = "temper t logits"
  have k': "k \<le> length ?lg" using k by simp
  have u: "untied_support (softmax (top_k_mask (int k) ?lg))"
    using no_ties_kept [OF o k(1) k' b i] k by (intro untied_probs) (auto simp: untied_def)
  show ?thesis
    using scattered_nucleus [OF topk_enumerates [OF o k(1) k' b] u softmax_nonneg]
    by (simp add: fast_probs_def warped_def Let_def mask_fast [OF o k(1) k'])
qed

lemma fast_pick_pick:
  assumes o: "descending ord" and k: "0 < k" "k \<le> length logits"
    and b: "\<not> boundary_tie ord k (temper t logits)" and u: "0 \<le> u"
  shows "fast_pick ord k (temper t logits) (warped logits t (int k) top_p) u = pick (warped logits t (int k) top_p) u"
proof -
  let ?lg = "temper t logits" and ?probs = "warped logits t (int k) top_p"
  let ?P = "\<lambda>i. kth_largest k ?lg \<le> ?lg ! i" and ?topi = "topk_indices ord k ?lg"
  have k': "k \<le> length ?lg" using k by simp
  obtain x where x: "Some x \<in> set (top_k_mask (int k) ?lg)"
    using mask_keeps_one [of ?lg "int k"] k' k by fastforce
  have len: "length ?topi = k" using k' o by (simp add: topk_indices_def length_order)
  have "set (sort ?topi) = set (filter ?P [0..<length logits])"
    using topk_set [OF o k(1) k' b] by auto
  moreover have "distinct ?topi" using o by (simp add: topk_indices_def descending_def)
  ultimately have asc: "sort ?topi = filter ?P [0..<length logits]"
    by (intro sorted_distinct_set_unique) (simp_all add: sorted_filter [where f = id, simplified])
  have z: "?probs ! i = 0" if "i \<in> set [0..<length logits]" "\<not> ?P i" for i
  proof (rule zero_stays_zero)
    have "top_k_mask (int k) ?lg ! i = None"
      using that k k' by (simp add: top_k_mask_def Let_def min_def)
    then show "softmax (top_k_mask (int k) ?lg) ! i = 0" using that by (simp add: softmax_def)
  qed (use that in simp)
  have "length (filter ?P [0..<length logits]) = k" using asc len by (metis length_sort)
  then show ?thesis
    using first_over_restrict [of 0 u "[0..<length logits]" ?P "(!) ?probs", OF u z]
    by (auto simp: fast_pick_def pick_def asc search_first_over Let_def map_nth [of ?probs, simplified])
qed

lemma map2_cong_set:
  assumes "\<And>r u. r \<in> set rs \<Longrightarrow> u \<in> set us \<Longrightarrow> f r u = g r u"
  shows "map2 f rs us = map2 g rs us"
  by (rule map_cong) (auto intro: assms dest: set_zip_leftD set_zip_rightD)

lemma map2_map1: "map2 f (map h rs) us = map2 (\<lambda>r u. f (h r) u) rs us"
  by (simp add: zip_map1 split_beta comp_def)

lemma untied_rows:
  assumes "descending ord1" and "descending ord2" and "r \<noteq> []" and "untied t top_k r"
  shows "warp ord1 r t top_k top_p = warp ord2 r t top_k top_p"
  using assms by (simp add: warp_warped)

lemma fast_row:
  assumes o: "descending topk_ord" "descending ord" and k: "0 < k" "k \<le> length r"
    and b: "\<not> boundary_tie topk_ord k (temper t r)" and i: "\<not> inner_tie topk_ord k (temper t r)" and u: "0 \<le> u"
  shows "fast_pick topk_ord k (temper t r) (fast_probs topk_ord k top_p (temper t r)) u
    = pick (warp ord r t (int k) top_p) u"
proof -
  have "untied t (int k) r"
    using no_ties_kept [OF o(1) k(1) _ b i] k by (simp add: untied_def)
  moreover have "r \<noteq> []" using k by auto
  ultimately show ?thesis
    by (simp add: fast_probs_warped [OF o(1) k b i] fast_pick_pick [OF o(1) k b u] warp_warped [OF o(2)])
qed

text \<open>
  C33. The fast path \<open>force_rows_batched_fast\<close>, which sorts, accumulates and searches only the
  top-k entries, returns the tokens of the reference \<open>force_rows_batched\<close> (or its error) for
  every batch, whatever order \<open>torch.topk\<close> and \<open>torch.sort\<close> give to equal entries: a batch
  with a tie takes the fallback, and without ties both compute the same nucleus.
\<close>

theorem fast_path_agrees:
  assumes "descending topk_ord" and "descending ord" and "batch_shape logits" and "\<forall>u \<in> set us. 0 \<le> u"
  shows "force_rows_batched_fast topk_ord ord logits us t top_k top_p = force_rows_batched ord logits us t top_k top_p"
proof -
  let ?k = "min (nat top_k) (row_size logits)"
  have row: "fast_pick topk_ord ?k (temper t r) (fast_probs topk_ord ?k top_p (temper t r)) u
      = pick (warp ord r t top_k top_p) u"
    if "0 < top_k" "top_k < int (row_size logits)" "r \<in> set logits" "u \<in> set us"
      "\<not> boundary_tie topk_ord ?k (temper t r)" "\<not> inner_tie topk_ord ?k (temper t r)" for r u
  proof -
    have "int ?k = top_k" "0 < ?k" "?k \<le> length r" "0 \<le> u"
      using that assms(3,4) by (auto simp: batch_shape_def)
    then show ?thesis using fast_row [OF assms(1,2), of ?k r t u top_p] that(5,6) by simp
  qed
  have "map2 (\<lambda>r u. fast_pick topk_ord ?k r (fast_probs topk_ord ?k top_p r) u) (map (temper t) logits) us
      = map2 (\<lambda>r u. pick (warp ord r t top_k top_p) u) logits us"
    if "0 < top_k" "top_k < int (row_size logits)"
      "\<not> list_ex (boundary_tie topk_ord ?k) (map (temper t) logits)"
      "\<not> list_ex (inner_tie topk_ord ?k) (map (temper t) logits)"
  proof -
    have "fast_pick topk_ord ?k (temper t r) (fast_probs topk_ord ?k top_p (temper t r)) u
        = pick (warp ord r t top_k top_p) u" if "r \<in> set logits" "u \<in> set us" for r u
      using that \<open>0 < top_k\<close> \<open>top_k < _\<close> \<open>\<not> list_ex (boundary_tie _ _) _\<close> \<open>\<not> list_ex (inner_tie _ _) _\<close>
      by (intro row) (auto simp: list_ex_iff)
    then show ?thesis unfolding map2_map1 by (rule map2_cong_set)
  qed
  then show ?thesis
    unfolding force_rows_batched_fast_def force_rows_batched_rows [OF assms(3)] Let_def
    by (cases "0 < top_k \<and> top_k < int (row_size logits)") simp_all
qed

text \<open>
  Without ties among the logits that survive top-k, the restricted sort of \<open>warp_fast\<close>
  gives the probabilities of \<open>warp\<close>, and the batched routine gives each row the token that
  \<open>pick\<close> and \<open>warp\<close> give it, whatever order the three sorts visit equal entries in.
\<close>

theorem batched_is_per_row:
  assumes "descending ord1" and "descending ord2" and "descending ord3" and "batch_shape logits"
    and "list_all (untied t top_k) logits" and "length us = length logits"
  shows "force_rows_batched ord1 logits us t top_k top_p
      = Inr (map2 (\<lambda>r u. pick (warp ord2 r t top_k top_p) u) logits us)
    \<and> map (\<lambda>r. warp_fast ord3 r t top_k top_p) logits = map (\<lambda>r. warp ord2 r t top_k top_p) logits"
proof -
  have r: "r \<noteq> []" "untied t top_k r" if "r \<in> set logits" for r
    using that assms(4,5) by (auto simp: batch_shape_def list_all_iff)
  then have fast: "map (\<lambda>r. warp_fast ord3 r t top_k top_p) logits = map (\<lambda>r. warp ord2 r t top_k top_p) logits"
    using assms(2,3) by (simp add: warp_warped warp_fast_warped)
  have "map2 (\<lambda>r u. pick (warp ord1 r t top_k top_p) u) logits us = map2 (\<lambda>r u. pick (warp ord2 r t top_k top_p) u) logits us"
    by (rule map2_cong_set) (simp add: untied_rows [OF assms(1,2) r])
  with fast show ?thesis
    using assms(6) by (simp add: force_rows_batched_rows [OF assms(4)])
qed

section \<open>The forced token\<close>

lemma u_at_range:
  assumes "u_at sha domain randomness prompt_idx checkpoint_hash rollout_index t = Inr u"
  shows "0 \<le> u \<and> u < 1"
proof -
  obtain msg where "Inr (of_int (from_bytes_be (take 8 (sha msg))) / 2 ^ 64) = (Inr u :: real res)"
    using assms unfolding u_at_def rbind_eq_Inr by blast
  then have u: "u = of_int (from_bytes_be (take 8 (sha msg))) / 2 ^ 64" by simp
  have b: "0 \<le> from_bytes_be (take 8 (sha msg))" "from_bytes_be (take 8 (sha msg)) < 256 ^ length (take 8 (sha msg))"
    using from_bytes_be_bounds by blast+
  have "(256 :: int) ^ length (take 8 (sha msg)) \<le> 256 ^ 8" by (rule power_increasing) auto
  with b(2) have "from_bytes_be (take 8 (sha msg)) < 2 ^ 64" by simp
  with b(1) show ?thesis by (simp add: u)
qed

lemma scatter_nonneg:
  "\<forall>x \<in> set base. 0 \<le> x \<Longrightarrow> \<forall>x \<in> set xs. 0 \<le> x \<Longrightarrow> \<forall>x \<in> set (scatter base is xs). (0 :: real) \<le> x"
proof (induction base "is" xs rule: scatter.induct)
  case (1 base i "is" x xs)
  have "\<forall>y \<in> set (base[i := x]). 0 \<le> y"
    using set_update_subset_insert [of base i x] 1(2,3) by auto
  with 1 show ?case by simp
qed auto

lemma keep_top_p_nonneg: "\<forall>x \<in> set sp. 0 \<le> x \<Longrightarrow> \<forall>x \<in> set (keep_top_p p sp). 0 \<le> x"
  by (auto simp: keep_top_p_def dest!: set_zip_leftD)

lemma top_p_mask_nonneg:
  assumes "descending ord" and "\<forall>x \<in> set probs. 0 \<le> x"
  shows "\<forall>x \<in> set (top_p_mask ord top_p probs). 0 \<le> x"
proof -
  have "\<forall>x \<in> set (map ((!) probs) (ord probs)). 0 \<le> x"
    unfolding sorted_by_order [OF assms(1)] using assms(2) by simp
  note keep_top_p_nonneg [OF this, of top_p]
  from scatter_nonneg [OF _ this, of "replicate (length probs) 0" "ord probs"] assms(2)
  show ?thesis by (simp add: top_p_mask_def Let_def)
qed

lemma top_p_mask_at:
  assumes "descending ord" and "m < length probs" and "top_p \<noteq> 0" and "top_p < 1"
  shows "top_p_mask ord top_p probs ! (ord probs ! m)
    = (if sum_list (take m (map ((!) probs) (ord probs))) < top_p then probs ! (ord probs ! m) else 0)"
  using assms
  by (simp add: top_p_mask_def Let_def scatter_at keep_top_p_nth length_order descending_def [THEN iffD1, THEN spec])

lemma order_covers:
  assumes "descending ord" and "i < length probs"
  shows "\<exists>m < length probs. i = ord probs ! m"
proof -
  have "i \<in> set (ord probs)" using assms by (simp add: descending_def)
  then show ?thesis by (auto simp: in_set_conv_nth length_order [OF assms(1)])
qed

lemma length_top_p_mask [simp]: "length (top_p_mask ord top_p probs) = length probs"
  by (simp add: top_p_mask_def Let_def)

lemma top_p_mask_zero:
  assumes "descending ord" and "i < length probs" and "probs ! i = 0"
  shows "top_p_mask ord top_p probs ! i = 0"
proof (cases "top_p \<noteq> 0 \<and> top_p < 1")
  case True
  then show ?thesis using order_covers [OF assms(1,2)] assms(3) top_p_mask_at [OF assms(1)] by auto
next
  case False
  then show ?thesis using assms by (auto simp: top_p_mask_def)
qed

lemma top_p_mask_total:
  assumes o: "descending ord" and nn: "\<forall>x \<in> set probs. 0 \<le> x" and p: "sum_list probs = 1" "0 < top_p"
  shows "0 < sum_list (top_p_mask ord top_p probs)"
proof (cases "top_p < 1")
  case False
  then show ?thesis using p by (simp add: top_p_mask_def)
next
  case True
  have "\<exists>i < length probs. 0 < probs ! i"
  proof (rule ccontr)
    assume "\<not> ?thesis"
    then have "\<forall>x \<in> set probs. x = 0" using nn by (force simp: in_set_conv_nth)
    then have "sum_list probs = 0" by (induction probs) auto
    with p(1) show False by simp
  qed
  then obtain i where i: "i < length probs" "0 < probs ! i" by blast
  obtain m where m: "m < length probs" "i = ord probs ! m" using order_covers [OF o i(1)] by blast
  have first: "ord probs ! 0 < length probs"
    using o i(1) by (metis descending_def gr_implies_not0 gr_zeroI length_order lessThan_iff nth_mem)
  have "probs ! i \<le> probs ! (ord probs ! 0)"
    using o m by (cases m) (auto simp: descending_def descending_list_def sorted_wrt_iff_nth_less length_order [OF o])
  moreover have "0 < length probs" using i(1) by auto
  ultimately have "0 < top_p_mask ord top_p probs ! (ord probs ! 0)"
    using True p(2) i(2) top_p_mask_at [OF o, of 0 probs top_p] by simp
  also have "\<dots> \<le> sum_list (top_p_mask ord top_p probs)"
    using first by (intro sum_list_nonneg_le_member) (auto simp: top_p_mask_nonneg [OF o nn, rule_format])
  finally show ?thesis .
qed

lemma renorm_props:
  assumes "\<forall>x \<in> set probs. 0 \<le> x" and "0 < sum_list probs"
  shows "sum_list (renorm probs) = 1" and "\<forall>x \<in> set (renorm probs). 0 \<le> x"
proof -
  have "sum_list (renorm probs) = sum_list probs / sum_list probs"
    by (simp add: renorm_def divide_inverse sum_list_mult_const)
  then show "sum_list (renorm probs) = 1" using assms(2) by simp
  show "\<forall>x \<in> set (renorm probs). 0 \<le> x" using assms by (auto simp: renorm_def)
qed

lemma warp_distribution:
  assumes "descending ord" and "logits \<noteq> []" and "0 < top_p"
  shows "sum_list (warp ord logits t top_k top_p) = 1" and "\<forall>x \<in> set (warp ord logits t top_k top_p). 0 \<le> x"
proof -
  obtain x where "Some x \<in> set (top_k_mask top_k (temper t logits))"
    using mask_keeps_one [of "temper t logits" top_k] assms(2) by (auto simp: temper_def)
  note total = top_p_mask_total [OF assms(1) softmax_nonneg softmax_sum [OF this] assms(3)]
  show "sum_list (warp ord logits t top_k top_p) = 1" "\<forall>x \<in> set (warp ord logits t top_k top_p). 0 \<le> x"
    unfolding warp_def Let_def
    using renorm_props [OF top_p_mask_nonneg [OF assms(1) softmax_nonneg] total] by blast+
qed

lemma pick_brackets:
  assumes "sum_list probs = 1" and "0 \<le> u" and "u < 1"
  shows "pick probs u < length probs" and "sum_list (take (pick probs u) probs) \<le> u"
    and "u < sum_list (take (Suc (pick probs u)) probs)" and "0 < probs ! pick probs u"
proof -
  let ?i = "first_over 0 u probs"
  have "?i \<noteq> length probs" using first_over_prefix [OF assms(2), of probs] assms by auto
  then have i: "?i < length probs" using first_over_le [of 0 u probs] by simp
  then have pick: "pick probs u = ?i" by (simp add: pick_def search_first_over)
  show "pick probs u < length probs" and lo: "sum_list (take (pick probs u) probs) \<le> u"
    and hi: "u < sum_list (take (Suc (pick probs u)) probs)"
    using i first_over_prefix [OF assms(2), of probs] first_over_stop [OF i] by (simp_all add: pick)
  show "0 < probs ! pick probs u" using lo hi i by (simp add: pick take_Suc_conv_app_nth)
qed

text \<open>
  The token forced at a position is the inverse CDF of the warped row at the public draw:
  the mass of the tokens before it is at most \<open>u\<close>, the mass up to it exceeds \<open>u\<close>. So it
  always exists (the final clamp of \<open>pick\<close> is never needed when the sums are exact), has
  positive probability, and is one of the tokens that top-k kept.
\<close>

theorem forced_token_is_inverse_cdf:
  assumes "descending ord" and "logits \<noteq> []" and "0 < top_p"
    and "u_at sha domain randomness prompt_idx checkpoint_hash rollout_index pos = Inr u"
  shows "let p = warp ord logits t top_k top_p; i = pick p u
    in i < length logits \<and> sum_list (take i p) \<le> u \<and> u < sum_list (take (Suc i) p) \<and> 0 < p ! i
       \<and> top_k_mask top_k (temper t logits) ! i \<noteq> None"
proof -
  let ?p = "warp ord logits t top_k top_p"
  have u: "0 \<le> u" "u < 1" using u_at_range [OF assms(4)] by simp_all
  note b = pick_brackets [OF warp_distribution(1) [OF assms(1-3)] u, of t top_k]
  have i: "pick ?p u < length logits" using b(1) by simp
  have "top_k_mask top_k (temper t logits) ! pick ?p u \<noteq> None"
  proof
    assume "top_k_mask top_k (temper t logits) ! pick ?p u = None"
    then have "softmax (top_k_mask top_k (temper t logits)) ! pick ?p u = 0"
      using i by (simp add: softmax_def)
    then have "?p ! pick ?p u = 0"
      using i top_p_mask_zero [OF assms(1)] by (simp add: warp_def renorm_def Let_def)
    with b(4) show False by simp
  qed
  with b i show ?thesis by (simp add: Let_def)
qed

lemma to_bytes_be_eq_Inr: "to_bytes_be n i = Inr b \<longleftrightarrow> 0 \<le> i \<and> i < 256 ^ n \<and> b = be_bytes n i"
  by (auto simp: to_bytes_be_def)

text \<open>
  The hashed message determines the window randomness, the prompt, the checkpoint, the
  rollout and the position: no two positions of a window share a draw unless SHA-256 collides.
  The miner's hotkey is not part of it.
\<close>

theorem u_preimage_binds:
  assumes "u_preimage domain r1 p1 c1 k1 t1 = Inr m" and "u_preimage domain r2 p2 c2 k2 t2 = Inr m"
  shows "r1 = r2 \<and> p1 = p2 \<and> c1 = c2 \<and> k1 = k2 \<and> t1 = t2"
proof -
  let ?m = "\<lambda>r p c k t. lp_raw 2 (encode r) @ be_bytes 8 p @ lp_raw 2 (encode c) @ be_bytes 4 k @ be_bytes 4 t"
  let ?ok = "\<lambda>r p c k t. fits 2 (encode r) \<and> fits 2 (encode c) \<and> 0 \<le> p \<and> p < 256 ^ 8
    \<and> 0 \<le> k \<and> k < 256 ^ 4 \<and> 0 \<le> t \<and> t < 256 ^ 4"
  have "\<And>r p c k t. u_preimage domain r p c k t = Inr m \<Longrightarrow> ?ok r p c k t \<and> m = encode domain @ ?m r p c k t"
    unfolding u_preimage_def rbind_eq_Inr len_prefix_Inr to_bytes_be_eq_Inr by blast
  from this [OF assms(1)] this [OF assms(2)]
  have ok: "?ok r1 p1 c1 k1 t1" "?ok r2 p2 c2 k2 t2" and e: "?m r1 p1 c1 k1 t1 = ?m r2 p2 c2 k2 t2" by auto
  from e ok have r: "encode r1 = encode r2" and
    e2: "be_bytes 8 p1 @ lp_raw 2 (encode c1) @ be_bytes 4 k1 @ be_bytes 4 t1
      = be_bytes 8 p2 @ lp_raw 2 (encode c2) @ be_bytes 4 k2 @ be_bytes 4 t2"
    using lp_raw_cut by blast+
  from e2 have p: "be_bytes 8 p1 = be_bytes 8 p2" and
    e3: "lp_raw 2 (encode c1) @ be_bytes 4 k1 @ be_bytes 4 t1 = lp_raw 2 (encode c2) @ be_bytes 4 k2 @ be_bytes 4 t2"
    by (simp_all add: append_eq_append_conv)
  from e3 ok have c: "encode c1 = encode c2" and e4: "be_bytes 4 k1 @ be_bytes 4 t1 = be_bytes 4 k2 @ be_bytes 4 t2"
    using lp_raw_cut by blast+
  from e4 have k: "be_bytes 4 k1 = be_bytes 4 k2" and t: "be_bytes 4 t1 = be_bytes 4 t2"
    by (simp_all add: append_eq_append_conv)
  show ?thesis
    using encode_inj [OF r] encode_inj [OF c] ok p k t be_bytes_inj [where n = 8, of p1 p2] be_bytes_inj [where n = 4, of k1 k2]
      be_bytes_inj [where n = 4, of t1 t2] by blast
qed

section \<open>Stable sorts\<close>

text \<open>Two orders that \<open>torch.sort\<close> may take: equal entries by ascending and by descending index.\<close>

definition argsort :: sort_order where
  "argsort xs = sort_key (\<lambda>i. - xs ! i) [0..<length xs]"

definition argsort_last :: sort_order where
  "argsort_last xs = sort_key (\<lambda>i. - xs ! i) (rev [0..<length xs])"

lemma argsort_descending: "descending argsort" "descending argsort_last"
proof -
  have "sorted_wrt (\<lambda>i j. xs ! j \<le> xs ! i) (sort_key (\<lambda>i. - xs ! i) is)" for xs :: "real list" and "is"
    using sorted_sort_key [of "\<lambda>i. - xs ! i" "is"] by (simp add: sorted_wrt_map)
  then show "descending argsort" "descending argsort_last"
    by (auto simp: descending_def descending_list_def argsort_def argsort_last_def)
qed

section \<open>A tie at the edge of the nucleus\<close>

text \<open>A row whose probabilities are 94, 3 and 3 hundredths.\<close>

definition tied_row :: "real list" where
  "tied_row = [T_PROTO * ln (94 / 100), T_PROTO * ln (3 / 100), T_PROTO * ln (3 / 100)]"

lemma tied_softmax:
  "softmax (top_k_mask TOP_K_PROTO (temper T_PROTO tied_row)) = [94 / 100, 3 / 100, 3 / 100]"
proof -
  have t: "temper T_PROTO tied_row = [ln (94 / 100), ln (3 / 100), ln (3 / 100)]"
    by (simp add: temper_def tied_row_def T_PROTO_def)
  have "(ln (3 / 100) :: real) \<le> ln (94 / 100)" by simp
  then have "kth_largest 3 [ln (94 / 100), ln (3 / 100), ln (3 / 100)] = ln (3 / 100)"
    by (simp add: kth_largest_def)
  then show ?thesis
    by (simp add: numeral_3_eq_3 t top_k_mask_def TOP_K_PROTO_def Let_def softmax_def)
qed

lemma tied_warp:
  "warp argsort tied_row T_PROTO TOP_K_PROTO TOP_P_PROTO = [94 / 97, 3 / 97, 0]"
  "warp argsort_last tied_row T_PROTO TOP_K_PROTO TOP_P_PROTO = [94 / 97, 0, 3 / 97]"
proof -
  have a: "argsort [47 / 50, 3 / 100, 3 / 100] = [0, 1, 2]"
    and b: "argsort_last [47 / 50, 3 / 100, 3 / 100] = [0, 2, 1]"
    by (simp_all add: argsort_def argsort_last_def upt_rec)
  have "top_p_mask argsort TOP_P_PROTO [94 / 100, 3 / 100, 3 / 100] = [94 / 100, 3 / 100, 0]"
    "top_p_mask argsort_last TOP_P_PROTO [94 / 100, 3 / 100, 3 / 100] = [94 / 100, 0, 3 / 100]"
    by (simp_all add: top_p_mask_def Let_def a b keep_top_p_def TOP_P_PROTO_def numeral_2_eq_2)
  then show "warp argsort tied_row T_PROTO TOP_K_PROTO TOP_P_PROTO = [94 / 97, 3 / 97, 0]"
    "warp argsort_last tied_row T_PROTO TOP_K_PROTO TOP_P_PROTO = [94 / 97, 0, 3 / 97]"
    by (simp_all add: warp_def tied_softmax renorm_def)
qed

text \<open>
  The draw is not unique when logits tie at the edge of the nucleus. For a row with
  probabilities 0.94, 0.03 and 0.03 and the protocol's constants, two orders that
  \<open>torch.sort\<close> may take keep different tokens: a miner that forces the token of one order is
  counted by a validator that runs the other as a stochastic position that does not match.
\<close>

theorem tie_forks_the_draw:
  "\<exists>ord_m ord_v row u. descending ord_m \<and> descending ord_v \<and> 0 \<le> u \<and> u < 1
     \<and> (\<exists>x. force_rows_batched ord_m [row] [u] T_PROTO TOP_K_PROTO TOP_P_PROTO = Inr [x]
          \<and> seed_consistency ord_v [row] [int x] [u] T_PROTO TOP_K_PROTO TOP_P_PROTO (99 / 100) = (1, 0))"
proof -
  have s: "batch_shape [tied_row]" by (simp add: batch_shape_def row_size_def tied_row_def)
  have "force_rows_batched argsort [tied_row] [98 / 100] T_PROTO TOP_K_PROTO TOP_P_PROTO = Inr [1]"
    by (simp add: force_rows_batched_rows [OF s] tied_warp pick_def searchsorted_right_def)
  moreover have "seed_consistency argsort_last [tied_row] [int 1] [98 / 100] T_PROTO TOP_K_PROTO TOP_P_PROTO (99 / 100) = (1, 0)"
    by (simp add: seed_consistency_def warp_batch_rows tied_warp clamp_rows_def row_size_def searchsorted_right_def)
  ultimately show ?thesis
    using argsort_descending by (intro exI [of _ argsort] exI [of _ argsort_last] exI [of _ tied_row]
        exI [of _ "98 / 100"] conjI exI [of _ 1]) simp_all
qed

section \<open>Witnesses\<close>

theorem fast_path_agrees_witness:
  "force_rows_batched_fast argsort argsort_last [[1, 3, 2], [2, 2, 1]] [1 / 2, 1 / 4] 1 2 (95 / 100)
    = force_rows_batched argsort_last [[1, 3, 2], [2, 2, 1]] [1 / 2, 1 / 4] 1 2 (95 / 100)"
  by (intro fast_path_agrees argsort_descending) (simp_all add: batch_shape_def row_size_def)

theorem batched_is_per_row_witness:
  "force_rows_batched argsort [[1, 3, 2]] [1 / 2] 1 2 (95 / 100)
      = Inr (map2 (\<lambda>r u. pick (warp argsort_last r 1 2 (95 / 100)) u) [[1, 3, 2]] [1 / 2])
   \<and> map (\<lambda>r. warp_fast argsort r 1 2 (95 / 100)) [[1, 3, 2]] = map (\<lambda>r. warp argsort_last r 1 2 (95 / 100)) [[1, 3, 2]]"
  by (intro batched_is_per_row argsort_descending)
     (simp_all add: batch_shape_def row_size_def untied_def top_k_mask_def temper_def kth_largest_def)

lemma sample_draw:
  "u_at (\<lambda>_. replicate 32 128) ''d'' ''ab'' 7 ''c'' 0 1 = Inr (9259542123273814144 / 2 ^ 64)"
proof -
  have "take 8 (replicate 32 128) = ([128, 128, 128, 128, 128, 128, 128, 128] :: bytes)" by code_simp
  then have "from_bytes_be (take 8 (replicate 32 128)) = 9259542123273814144" by (simp add: from_bytes_be_def)
  then show ?thesis by (simp add: u_at_def u_preimage_def len_prefix_def to_bytes_be_def encode_def enc_char_def)
qed

theorem forced_token_is_inverse_cdf_witness:
  "let p = warp argsort [1, 3, 2] 1 2 (95 / 100); i = pick p (9259542123273814144 / 2 ^ 64)
   in i < length [1, 3, 2 :: real] \<and> sum_list (take i p) \<le> 9259542123273814144 / 2 ^ 64
     \<and> 9259542123273814144 / 2 ^ 64 < sum_list (take (Suc i) p) \<and> 0 < p ! i
     \<and> top_k_mask 2 (temper 1 [1, 3, 2]) ! i \<noteq> None"
  by (rule forced_token_is_inverse_cdf [OF argsort_descending(1) _ _ sample_draw]) simp_all

theorem u_preimage_binds_witness:
  "\<exists>m. u_preimage ''d'' ''ab'' 7 ''c'' 0 1 = Inr m
     \<and> (\<forall>r p c k t. u_preimage ''d'' r p c k t = Inr m \<longrightarrow> r = ''ab'' \<and> p = 7 \<and> c = ''c'' \<and> k = 0 \<and> t = 1)"
proof -
  obtain m where m: "u_preimage ''d'' ''ab'' 7 ''c'' 0 1 = Inr m"
    by (simp add: u_preimage_def len_prefix_def to_bytes_be_def encode_def enc_char_def)
  then show ?thesis using u_preimage_binds [OF m] by blast
qed

end
