(* ===== verification/ForcedSeed.thy ===== *)
theory ForcedSeed
  imports ForcedSampling
begin

text \<open>
  \<open>reliquary/miner/forced_seed_sampler.py\<close>: the logits processor through which the miner makes
  HuggingFace \<open>generate\<close> emit the forced tokens, the keyword arguments it is run with, and
  the offsets of the second phase of budget-forced generation. \<open>generate\<close> itself is not part
  of the repository: it appears as the greedy choice of the processor's output.
\<close>

section \<open>The processor\<close>

datatype prompt_arg = OnePrompt int | PromptPerRow "int list"

record forced_processor =
  fp_randomness :: string
  fp_hotkey :: string
  fp_rollout_indices :: "int list"
  fp_prompt_indices :: "int list"
  fp_prompt_idx :: int
  fp_checkpoint_hash :: string
  fp_base_offsets :: "int list"
  fp_start_len :: int
  fp_temperature :: real
  fp_top_k :: int
  fp_top_p :: real

definition prompt_indices_of :: "prompt_arg \<Rightarrow> int list \<Rightarrow> int list res" where
  "prompt_indices_of arg rollouts =
     (case arg of
        PromptPerRow is \<Rightarrow> if length is \<noteq> length rollouts then Inl ValueError else Inr is
      | OnePrompt i \<Rightarrow> Inr (replicate (length rollouts) i))"

definition ForcedSeedLogitsProcessor :: "string \<Rightarrow> string \<Rightarrow> prompt_arg \<Rightarrow> string \<Rightarrow> int list \<Rightarrow> int list
    \<Rightarrow> int \<Rightarrow> forced_processor res" where
  "ForcedSeedLogitsProcessor randomness hk arg checkpoint_hash rollouts offsets start_len =
     rbind (prompt_indices_of arg rollouts) (\<lambda>prompts.
     Inr \<lparr> fp_randomness = randomness, fp_hotkey = hk, fp_rollout_indices = rollouts,
           fp_prompt_indices = prompts,
           fp_prompt_idx = (case prompts of [] \<Rightarrow> 0 | i # _ \<Rightarrow> i),
           fp_checkpoint_hash = checkpoint_hash, fp_base_offsets = offsets, fp_start_len = start_len,
           fp_temperature = T_PROTO, fp_top_k = TOP_K_PROTO, fp_top_p = TOP_P_PROTO \<rparr>)"

text \<open>Row \<open>r\<close> draws at its own offset plus the step, the width of the input minus the first one.\<close>

definition item :: "'a list \<Rightarrow> nat \<Rightarrow> 'a res" where
  "item xs r = (if r < length xs then Inr (xs ! r) else Inl IndexError)"

definition row_draw :: "(bytes \<Rightarrow> bytes) \<Rightarrow> string \<Rightarrow> forced_processor \<Rightarrow> int \<Rightarrow> nat \<Rightarrow> real res" where
  "row_draw sha domain fp s r =
     rbind (item (fp_prompt_indices fp) r) (\<lambda>p.
     rbind (item (fp_rollout_indices fp) r) (\<lambda>k.
     rbind (item (fp_base_offsets fp) r) (\<lambda>b.
     u_at sha domain (fp_randomness fp) p (fp_checkpoint_hash fp) k (b + s))))"

definition one_hot :: "nat \<Rightarrow> nat \<Rightarrow> pyfloat list" where
  "one_hot n i = (replicate n NInf)[i := Fin 0]"

definition processor_call :: "sort_order \<Rightarrow> (bytes \<Rightarrow> bytes) \<Rightarrow> string \<Rightarrow> forced_processor \<Rightarrow> int
    \<Rightarrow> real list list \<Rightarrow> pyfloat list list res" where
  "processor_call ord sha domain fp width scores =
     (let s = width - fp_start_len fp
      in rbind (traverse (row_draw sha domain fp s) [0..<length scores]) (\<lambda>us.
         rbind (force_rows_batched ord scores us (fp_temperature fp) (fp_top_k fp) (fp_top_p fp)) (\<lambda>forced.
         Inr (map (one_hot (row_size scores)) forced))))"

section \<open>The arguments of generate\<close>

datatype kwarg = KwNone | KwInt int | KwFloat real | KwBool bool | KwProcessors "forced_processor list"
  | KwOther string

definition WARPER_KWARGS :: "string list" where
  "WARPER_KWARGS = [''temperature'', ''top_p'', ''top_k'']"

definition NEUTRAL_PROCESSOR_KWARGS :: "(string, kwarg) dict" where
  "NEUTRAL_PROCESSOR_KWARGS =
     [(''repetition_penalty'', KwFloat 1), (''encoder_repetition_penalty'', KwFloat 1),
      (''no_repeat_ngram_size'', KwInt 0), (''encoder_no_repeat_ngram_size'', KwInt 0),
      (''min_length'', KwInt 0), (''min_new_tokens'', KwInt 0), (''suppress_tokens'', KwNone),
      (''begin_suppress_tokens'', KwNone), (''bad_words_ids'', KwNone), (''forced_bos_token_id'', KwNone),
      (''forced_eos_token_id'', KwNone), (''exponential_decay_length_penalty'', KwNone),
      (''sequence_bias'', KwNone)]"

definition dict_update :: "('k, 'v) dict \<Rightarrow> ('k, 'v) dict \<Rightarrow> ('k, 'v) dict" where
  "dict_update d new = foldl (\<lambda>d (k, v). dset k v d) d new"

definition forced_seed_generate_kwargs :: "(string, kwarg) dict \<Rightarrow> forced_processor \<Rightarrow> (string, kwarg) dict" where
  "forced_seed_generate_kwargs base_kwargs processor =
     (let kw = filter (\<lambda>(k, _). k \<notin> set WARPER_KWARGS) base_kwargs;
          kw = dict_update kw NEUTRAL_PROCESSOR_KWARGS;
          kw = dset ''do_sample'' (KwBool False) kw
      in dset ''logits_processor'' (KwProcessors [processor]) kw)"

definition phase2_base_offsets :: "int list \<Rightarrow> int \<Rightarrow> int list" where
  "phase2_base_offsets primed_lengths prompt_length = map (\<lambda>L. max 0 (L - prompt_length)) primed_lengths"

section \<open>What an honest run looks like to the validator\<close>

text \<open>\<open>generate\<close> with \<open>do_sample=False\<close> takes a token with the largest score.\<close>

definition greedy_choice :: "pyfloat list \<Rightarrow> int \<Rightarrow> bool" where
  "greedy_choice row x = (0 \<le> x \<and> nat x < length row \<and> (\<forall>y \<in> set row. pf_le y (row ! nat x)))"

lemma greedy_one_hot:
  assumes "i < n" and "greedy_choice (one_hot n i) x"
  shows "x = int i"
proof (rule ccontr)
  assume "x \<noteq> int i"
  with assms have "one_hot n i ! nat x = NInf" by (auto simp: greedy_choice_def one_hot_def)
  moreover have "Fin 0 \<in> set (one_hot n i)"
    using assms(1) by (auto simp: one_hot_def set_conv_nth intro!: exI [of _ i])
  ultimately show False using assms(2) by (auto simp: greedy_choice_def)
qed

lemma row_draw_Inr:
  "row_draw sha domain fp s r = Inr u \<longleftrightarrow>
    r < length (fp_prompt_indices fp) \<and> r < length (fp_rollout_indices fp) \<and> r < length (fp_base_offsets fp)
    \<and> u_at sha domain (fp_randomness fp) (fp_prompt_indices fp ! r) (fp_checkpoint_hash fp)
        (fp_rollout_indices fp ! r) (fp_base_offsets fp ! r + s) = Inr u"
  by (auto simp: row_draw_def item_def res_simps)

lemma processor_row:
  assumes "processor_call ord sha domain fp width scores = Inr out" and "batch_shape scores" and "r < length scores"
  obtains u where "row_draw sha domain fp (width - fp_start_len fp) r = Inr u"
    and "out ! r = one_hot (length (scores ! r)) (pick (warp ord (scores ! r) (fp_temperature fp) (fp_top_k fp) (fp_top_p fp)) u)"
proof -
  let ?w = "\<lambda>r. warp ord r (fp_temperature fp) (fp_top_k fp) (fp_top_p fp)"
  obtain us where us: "traverse (row_draw sha domain fp (width - fp_start_len fp)) [0..<length scores] = Inr us"
    and out: "out = map (one_hot (row_size scores)) (map2 (\<lambda>r u. pick (?w r) u) scores us)" and l: "length us = length scores"
    using assms(1) unfolding processor_call_def Let_def force_rows_batched_rows [OF assms(2)]
    by (auto simp: res_simps split: if_splits)
  have "row_draw sha domain fp (width - fp_start_len fp) r = Inr (us ! r)"
    using us assms(3) by (simp add: traverse_Inr_iff list_all2_conv_all_nth)
  moreover have "out ! r = one_hot (length (scores ! r)) (pick (?w (scores ! r)) (us ! r))"
    using out l assms(2,3) by (simp add: batch_shape_def)
  ultimately show thesis by (rule that)
qed

lemma matching_run_consistent:
  assumes "length toks = length rows" and "length us = length rows" and "batch_shape rows"
    and "\<And>i. i < length rows \<Longrightarrow> toks ! i = int (pick (warp ord (rows ! i) t top_k top_p) (us ! i))"
  shows "seed_consistency ord rows toks us t top_k top_p thr
    = (length (filter (\<lambda>r. Max (set (warp ord r t top_k top_p)) < thr) rows),
       length (filter (\<lambda>r. Max (set (warp ord r t top_k top_p)) < thr) rows))"
proof (cases "rows = []")
  case True
  then show ?thesis using assms by (simp add: seed_consistency_def)
next
  case False
  let ?w = "\<lambda>r. warp ord r t top_k top_p"
  have size: "row_size (map ?w rows) = row_size rows" using False by (cases rows) (simp_all add: row_size_def)
  have "clamp_rows (row_size rows) (map2 searchsorted_right (map cumsum (map ?w rows)) us)
      = map2 (\<lambda>r u. pick (?w r) u) rows us"
    using assms(3) by (intro picks_rows) (simp add: batch_shape_def)
  moreover have "map2 (\<lambda>p x. int p = x) (map2 (\<lambda>r u. pick (?w r) u) rows us) toks = replicate (length rows) True"
    using assms by (intro nth_equalityI) simp_all
  ultimately show ?thesis
    using False assms(1,2) by (simp add: seed_consistency_def warp_batch_rows size zip_replicate2 filter_map comp_def)
qed


text \<open>
  C32. A miner that lets \<open>generate\<close> choose greedily from the processor's scores passes the
  validator's check at every position: if the tokens of one row over \<open>n\<close> steps were chosen
  that way, then \<open>seed_consistency\<close> on the same logits, with the draws recomputed from the row's
  prompt, rollout and offset, counts every stochastic position as a match. Miner and validator
  may sort ties differently as long as the logits that survive top-k do not tie.
\<close>

theorem forced_run_is_consistent:
  assumes "descending ord_m" and "descending ord_v"
    and "ForcedSeedLogitsProcessor randomness hk arg checkpoint_hash rollouts offsets start_len = Inr fp"
    and "length toks = n" and "length us = n"
    and "\<forall>i < n. batch_shape (scores i) \<and> r < length (scores i) \<and> untied T_PROTO TOP_K_PROTO (scores i ! r)
      \<and> length (scores i ! r) = vocab
      \<and> (\<exists>out. processor_call ord_m sha domain fp (start_len + int i) (scores i) = Inr out
           \<and> greedy_choice (out ! r) (toks ! i))
      \<and> u_at sha domain randomness (fp_prompt_indices fp ! r) checkpoint_hash (rollouts ! r)
           (offsets ! r + int i) = Inr (us ! i)"
  shows "\<exists>k. seed_consistency ord_v (map (\<lambda>i. scores i ! r) [0..<n]) toks us T_PROTO TOP_K_PROTO TOP_P_PROTO
    stochastic_threshold = (k, k)"
proof -
  let ?rows = "map (\<lambda>i. scores i ! r) [0..<n]"
  let ?w = "\<lambda>ord x. warp ord x T_PROTO TOP_K_PROTO TOP_P_PROTO"
  have fp: "fp_start_len fp = start_len" "fp_randomness fp = randomness" "fp_checkpoint_hash fp = checkpoint_hash"
    "fp_rollout_indices fp = rollouts" "fp_base_offsets fp = offsets" "fp_temperature fp = T_PROTO"
    "fp_top_k fp = TOP_K_PROTO" "fp_top_p fp = TOP_P_PROTO"
    using assms(3) by (auto simp: ForcedSeedLogitsProcessor_def res_simps)
  have tok: "toks ! i = int (pick (?w ord_v (scores i ! r)) (us ! i))" if "i < n" for i
  proof -
    from that assms(6) obtain out where b: "batch_shape (scores i)" and r: "r < length (scores i)"
      and un: "untied T_PROTO TOP_K_PROTO (scores i ! r)"
      and out: "processor_call ord_m sha domain fp (start_len + int i) (scores i) = Inr out"
      and g: "greedy_choice (out ! r) (toks ! i)"
      and u: "u_at sha domain randomness (fp_prompt_indices fp ! r) checkpoint_hash (rollouts ! r)
           (offsets ! r + int i) = Inr (us ! i)"
      by blast
    have ne: "scores i ! r \<noteq> []" using b r by (simp add: batch_shape_def)
    have d: "row_draw sha domain fp (start_len + int i - fp_start_len fp) r = Inr v \<Longrightarrow> v = us ! i" for v
      using u by (simp add: row_draw_Inr fp)
    obtain v where "row_draw sha domain fp (start_len + int i - fp_start_len fp) r = Inr v"
      and "out ! r = one_hot (length (scores i ! r)) (pick (?w ord_m (scores i ! r)) v)"
      using processor_row [OF out b r] by (metis fp(6-8))
    with d g have "greedy_choice (one_hot (length (scores i ! r)) (pick (?w ord_m (scores i ! r)) (us ! i))) (toks ! i)"
      by simp
    moreover have "pick (?w ord_m (scores i ! r)) (us ! i) < length (scores i ! r)"
      using ne pick_less [of "?w ord_m (scores i ! r)"] by (metis length_greater_0_conv length_warp)
    ultimately have "toks ! i = int (pick (?w ord_m (scores i ! r)) (us ! i))" by (rule greedy_one_hot [rotated])
    then show ?thesis using untied_rows [OF assms(1,2) ne un] by simp
  qed
  have "batch_shape ?rows"
  proof -
    have "length (scores i ! r) = vocab" if "i < n" for i using assms(6) that by blast
    moreover have "scores i ! r \<noteq> []" if "i < n" for i
    proof -
      have "batch_shape (scores i)" "r < length (scores i)" using assms(6) that by blast+
      then show ?thesis by (simp add: batch_shape_def)
    qed
    ultimately show ?thesis by (cases n) (auto simp: batch_shape_def row_size_def upt_conv_Cons simp del: upt_Suc)
  qed
  then show ?thesis
    using matching_run_consistent [of toks ?rows us ord_v T_PROTO TOP_K_PROTO TOP_P_PROTO] tok assms(4,5) by fastforce
qed

text \<open>
  The two phases of a forced rollout draw from one stream: a row of phase 2 that was primed with
  \<open>L\<close> tokens resumes at the position after its completion so far.
\<close>

lemma phase2_resumes:
  assumes "i < length primed" and "prompt_length \<le> primed ! i"
  shows "phase2_base_offsets primed prompt_length ! i = primed ! i - prompt_length"
  using assms by (simp add: phase2_base_offsets_def)

lemma map_of_dict_update: "dict_ok new \<Longrightarrow> map_of (dict_update d new) = map_of d ++ map_of new"
  unfolding dict_update_def
proof (induction new arbitrary: d)
  case Nil
  then show ?case by simp
next
  case (Cons p new)
  have f: "fst p \<notin> dom (map_of new)" using Cons.prems by (simp add: dict_ok_def dom_map_of_conv_image_fst)
  have "dict_ok new" using Cons.prems by (simp add: dict_ok_def)
  then have "map_of (foldl (\<lambda>d (k, v). dset k v d) (dset (fst p) (snd p) d) new)
      = (map_of d)(fst p \<mapsto> snd p) ++ map_of new"
    by (simp add: Cons.IH fun_upd_def)
  also have "\<dots> = map_of d ++ (map_of new)(fst p \<mapsto> snd p)"
    using f by (auto simp: map_add_def fun_eq_iff split: option.splits)
  finally show ?case by (cases p) (auto simp: fun_eq_iff map_add_def split: option.splits)
qed

text \<open>
  Whatever sampling options the caller passes, \<open>generate\<close> gets none of the warpers, every
  logits processor of the model's own configuration in its inert setting, greedy selection, and
  the forced processor as the only custom one; every other option is passed through.
\<close>

theorem generate_kwargs_are_neutral:
  "let kw = map_of (forced_seed_generate_kwargs base_kwargs fp) in
     kw ''do_sample'' = Some (KwBool False) \<and> kw ''logits_processor'' = Some (KwProcessors [fp])
     \<and> (\<forall>k \<in> set WARPER_KWARGS. kw k = None)
     \<and> (\<forall>k v. map_of NEUTRAL_PROCESSOR_KWARGS k = Some v \<longrightarrow> kw k = Some v)
     \<and> (\<forall>k. k \<notin> set WARPER_KWARGS \<union> fst ` set NEUTRAL_PROCESSOR_KWARGS \<union> {''do_sample'', ''logits_processor''}
          \<longrightarrow> kw k = map_of base_kwargs k)"
proof -
  let ?f = "filter (\<lambda>(k, _). k \<notin> set WARPER_KWARGS) base_kwargs"
  have ok: "dict_ok NEUTRAL_PROCESSOR_KWARGS" by (simp add: dict_ok_def NEUTRAL_PROCESSOR_KWARGS_def)
  have f: "map_of ?f k = (if k \<in> set WARPER_KWARGS then None else map_of base_kwargs k)" for k
    by (induction base_kwargs) (auto split: if_splits)
  have kw: "map_of (forced_seed_generate_kwargs base_kwargs fp) k =
      (if k = ''logits_processor'' then Some (KwProcessors [fp]) else if k = ''do_sample'' then Some (KwBool False)
       else case map_of NEUTRAL_PROCESSOR_KWARGS k of Some v \<Rightarrow> Some v
       | None \<Rightarrow> if k \<in> set WARPER_KWARGS then None else map_of base_kwargs k)" for k
    by (simp add: forced_seed_generate_kwargs_def Let_def map_of_dict_update [OF ok] map_add_def f split: option.splits)
  have "\<forall>k \<in> set WARPER_KWARGS. map_of NEUTRAL_PROCESSOR_KWARGS k = None \<and> k \<noteq> ''do_sample'' \<and> k \<noteq> ''logits_processor''"
    by (simp add: NEUTRAL_PROCESSOR_KWARGS_def WARPER_KWARGS_def)
  then have w: "map_of NEUTRAL_PROCESSOR_KWARGS k = None \<and> k \<noteq> ''do_sample'' \<and> k \<noteq> ''logits_processor''"
    if "k \<in> set WARPER_KWARGS" for k using that by blast
  have n: "k \<noteq> ''do_sample'' \<and> k \<noteq> ''logits_processor''" if "map_of NEUTRAL_PROCESSOR_KWARGS k = Some v" for k v
    using map_of_SomeD [OF that] by (auto simp: NEUTRAL_PROCESSOR_KWARGS_def)
  have o: "map_of NEUTRAL_PROCESSOR_KWARGS k = None" if "k \<notin> fst ` set NEUTRAL_PROCESSOR_KWARGS" for k
    using that by (simp add: map_of_eq_None_iff)
  show ?thesis
    unfolding Let_def
  proof (intro conjI ballI allI impI)
    fix k assume "k \<in> set WARPER_KWARGS"
    from w [OF this] this show "map_of (forced_seed_generate_kwargs base_kwargs fp) k = None" by (simp add: kw)
  next
    fix k v assume v: "map_of NEUTRAL_PROCESSOR_KWARGS k = Some v"
    from n [OF v] v show "map_of (forced_seed_generate_kwargs base_kwargs fp) k = Some v" by (simp add: kw)
  next
    fix k assume k: "k \<notin> set WARPER_KWARGS \<union> fst ` set NEUTRAL_PROCESSOR_KWARGS \<union> {''do_sample'', ''logits_processor''}"
    then have "map_of NEUTRAL_PROCESSOR_KWARGS k = None" by (intro o) blast
    with k show "map_of (forced_seed_generate_kwargs base_kwargs fp) k = map_of base_kwargs k" by (simp add: kw)
  qed (simp_all add: kw)
qed

section \<open>Witness\<close>

definition toy_row :: "real list" where
  "toy_row = [T_PROTO * ln (3 / 4), T_PROTO * ln (1 / 4)]"

lemma toy_row_mask: "top_k_mask TOP_K_PROTO (temper T_PROTO toy_row) = [Some (ln (3 / 4)), Some (ln (1 / 4))]"
proof -
  have "(ln (1 / 4) :: real) < ln (3 / 4)" by simp
  then have "kth_largest 2 [ln (3 / 4), ln (1 / 4)] = ln (1 / 4)" by (simp add: kth_largest_def)
  moreover have "temper T_PROTO toy_row = [ln (3 / 4), ln (1 / 4)]"
    by (simp add: temper_def toy_row_def T_PROTO_def)
  ultimately show ?thesis by (simp add: top_k_mask_def TOP_K_PROTO_def Let_def numeral_2_eq_2)
qed

lemma toy_row_warp: "warp argsort toy_row T_PROTO TOP_K_PROTO TOP_P_PROTO = [3 / 4, 1 / 4]"
proof -
  have "softmax [Some (ln (3 / 4)), Some (ln (1 / 4))] = [3 / 4, 1 / 4]" by (simp add: softmax_def)
  moreover have "argsort [3 / 4, 1 / 4] = [0, 1]" by (simp add: argsort_def upt_rec)
  ultimately show ?thesis
    by (simp add: warp_def toy_row_mask top_p_mask_def keep_top_p_def TOP_P_PROTO_def renorm_def Let_def numeral_2_eq_2)
qed

theorem forced_run_is_consistent_witness:
  "\<exists>k. seed_consistency argsort_last [toy_row] [0] [9259542123273814144 / 2 ^ 64] T_PROTO TOP_K_PROTO TOP_P_PROTO (99 / 100)
    = (k, k)"
proof -
  let ?sha = "\<lambda>_. replicate 32 128 :: bytes"
  obtain fp where fp: "ForcedSeedLogitsProcessor ''ab'' ''h'' (OnePrompt 7) ''c'' [0] [1] 5 = Inr fp"
    by (simp add: ForcedSeedLogitsProcessor_def prompt_indices_of_def)
  then have f: "fp_prompt_indices fp = [7]" "fp_rollout_indices fp = [0]" "fp_base_offsets fp = [1]" "fp_start_len fp = 5"
    "fp_randomness fp = ''ab''" "fp_checkpoint_hash fp = ''c''" "fp_temperature fp = T_PROTO" "fp_top_k fp = TOP_K_PROTO"
    "fp_top_p fp = TOP_P_PROTO"
    by (auto simp: ForcedSeedLogitsProcessor_def prompt_indices_of_def)
  have shape: "batch_shape [toy_row]" by (simp add: batch_shape_def row_size_def toy_row_def)
  have draw: "row_draw ?sha ''d'' fp 0 0 = Inr (9259542123273814144 / 2 ^ 64)"
    using sample_draw by (simp add: row_draw_def item_def f)
  have size: "row_size [toy_row] = 2" "length toy_row = 2" by (simp_all add: row_size_def toy_row_def)
  have "processor_call argsort ?sha ''d'' fp 5 [toy_row] = Inr [[Fin 0, NInf]]"
    using draw by (simp add: processor_call_def f force_rows_batched_rows [OF shape] toy_row_warp pick_def
        searchsorted_right_def one_hot_def size numeral_2_eq_2)
  moreover have "greedy_choice [Fin 0, NInf] 0" by (simp add: greedy_choice_def)
  moreover have "untied T_PROTO TOP_K_PROTO toy_row" by (simp add: untied_def toy_row_mask)
  ultimately show ?thesis
    using forced_run_is_consistent [OF argsort_descending fp, of "[0]" 1 "[9259542123273814144 / 2 ^ 64]"
        "\<lambda>_. [toy_row]" 0 2 ?sha "''d''" "99 / 100"] shape sample_draw
    by (simp add: f size)
qed

end
