(* ===== verification/Modeling.thy ===== *)
theory Modeling
  imports Tokens
begin

text \<open>
  \<open>reliquary/shared/modeling.py\<close>: the model class for a configuration, the padding token,
  the set of end-of-sequence ids, and the searches for an end of sequence and for a closed
  thinking block. A configuration object is its JSON value; the objects of \<open>unittest.mock\<close> that
  the code skips are not modelled.
\<close>

section \<open>Loading\<close>

datatype auto_class = AutoModelForImageTextToText | AutoModelForCausalLM

definition CONFIG_KWARGS :: "string list" where
  "CONFIG_KWARGS = [''cache_dir'', ''force_download'', ''local_files_only'', ''proxies'', ''revision'',
     ''subfolder'', ''token'', ''trust_remote_code'']"

definition config_kwargs :: "(string, json) dict \<Rightarrow> (string, json) dict" where
  "config_kwargs kwargs = filter (\<lambda>(k, _). k \<in> set CONFIG_KWARGS) kwargs"

text \<open>\<open>x in value\<close>: a substring test when the value is a string.\<close>

fun contains :: "json \<Rightarrow> string \<Rightarrow> bool res" where
  "contains (JList xs) s = Inr (JStr s \<in> set xs)"
| "contains (JStr t) s = Inr (occurs_in s t)"
| "contains (JObj kvs) s = Inr (s \<in> fst ` set kvs)"
| "contains _ s = Inl TypeError"

definition is_qwen35_conditional_config :: "json \<Rightarrow> bool res" where
  "is_qwen35_conditional_config cfg =
     (if jattr cfg ''model_type'' \<noteq> Some (JStr ''qwen3_5'') then Inr False
      else let architectures = (case jattr cfg ''architectures'' of Some v \<Rightarrow> if truthy v then v else JList [] | None \<Rightarrow> JList [])
           in contains architectures ''Qwen3_5ForConditionalGeneration'')"

definition auto_model_class_for_config :: "json \<Rightarrow> auto_class res" where
  "auto_model_class_for_config cfg =
     rbind (is_qwen35_conditional_config cfg) (\<lambda>b.
     Inr (if b then AutoModelForImageTextToText else AutoModelForCausalLM))"

text \<open>
  The deprecated \<open>torch_dtype\<close> is renamed unless \<open>dtype\<close> is given; the configuration and the
  weights are read by the transformers library, the two function parameters.
\<close>

definition load_text_generation_model :: "(string \<Rightarrow> (string, json) dict \<Rightarrow> json res)
    \<Rightarrow> (auto_class \<Rightarrow> string \<Rightarrow> (string, json) dict \<Rightarrow> 'm res) \<Rightarrow> string \<Rightarrow> (string, json) dict \<Rightarrow> 'm res" where
  "load_text_generation_model load_config load_model source kwargs =
     (let kw = (case (map_of kwargs ''torch_dtype'', map_of kwargs ''dtype'') of
                  (Some v, None) \<Rightarrow> dset ''dtype'' v (filter (\<lambda>(k, _). k \<noteq> ''torch_dtype'') kwargs)
                | _ \<Rightarrow> kwargs)
      in rbind (load_config source (config_kwargs kw)) (\<lambda>cfg.
         rbind (auto_model_class_for_config cfg) (\<lambda>cls.
         load_model cls source kw)))"

record padding =
  pd_pad_token_id :: "int option"
  pd_eos_token_id :: "int option"

definition ensure_tokenizer_padding :: "padding \<Rightarrow> padding" where
  "ensure_tokenizer_padding tk =
     (if pd_pad_token_id tk = None then tk \<lparr> pd_pad_token_id := pd_eos_token_id tk \<rparr> else tk)"

section \<open>The end-of-sequence set\<close>

text \<open>
  An id list may hold values that are not ids: an item that \<open>int()\<close> rejects with a
  \<open>TypeError\<close> or a \<open>ValueError\<close> is skipped, other errors propagate.
\<close>

fun id_items :: "json list \<Rightarrow> int list res" where
  "id_items [] = Inr []"
| "id_items (v # vs) =
     (if v = JNull then id_items vs
      else case jint v of
          Inr i \<Rightarrow> rbind (id_items vs) (\<lambda>is. Inr (i # is))
        | Inl e \<Rightarrow> if e = TypeError \<or> e = ValueError then id_items vs else Inl e)"

definition iter_token_ids :: "json \<Rightarrow> int list res" where
  "iter_token_ids v =
     (case as_int v of
        Some i \<Rightarrow> Inr [i]
      | None \<Rightarrow> (case v of
            JList xs \<Rightarrow> id_items xs
          | JObj kvs \<Rightarrow> id_items (map (\<lambda>kv. JStr (fst kv)) kvs)
          | _ \<Rightarrow> Inr []))"

record model_meta =
  mm_generation_config :: "json option"
  mm_config :: "json option"

definition attr_ids :: "json option \<Rightarrow> int list res" where
  "attr_ids holder =
     (case holder of None \<Rightarrow> Inr []
      | Some JNull \<Rightarrow> Inr []
      | Some v \<Rightarrow> (case jattr v ''eos_token_id'' of None \<Rightarrow> Inr [] | Some e \<Rightarrow> iter_token_ids e))"

definition text_config_of :: "json option \<Rightarrow> json option" where
  "text_config_of cfg = (case cfg of None \<Rightarrow> None | Some v \<Rightarrow> jattr v ''text_config'')"

definition resolve_eos_token_ids :: "model_meta option \<Rightarrow> json option \<Rightarrow> int set res" where
  "resolve_eos_token_ids model tk =
     rbind (case model of None \<Rightarrow> Inr [] | Some m \<Rightarrow>
              rbind (attr_ids (mm_generation_config m)) (\<lambda>a.
              rbind (attr_ids (mm_config m)) (\<lambda>b.
              rbind (attr_ids (text_config_of (mm_config m))) (\<lambda>c. Inr (a @ b @ c))))) (\<lambda>ids.
     rbind (attr_ids tk) (\<lambda>d. Inr (set (ids @ d))))"

section \<open>Searching a sequence\<close>

fun first_eos_index :: "int list \<Rightarrow> int set \<Rightarrow> nat option" where
  "first_eos_index [] eos = None"
| "first_eos_index (x # xs) eos = (if x \<in> eos then Some 0 else map_option Suc (first_eos_index xs eos))"

definition has_think_close :: "int list \<Rightarrow> int set \<Rightarrow> bool" where
  "has_think_close tokens close = list_ex (\<lambda>x. x \<in> close) tokens"

definition BFT_FORCE_TAIL :: string where
  "BFT_FORCE_TAIL = [CHR 0x0A, CHR 0x0A] @ ''Final Answer: '' @ [CHR 0x5C] @ ''boxed{''"

definition think_close_token_ids :: "(string \<Rightarrow> int option) \<Rightarrow> int list res" where
  "think_close_token_ids to_id =
     (case to_id ''</think>'' of
        None \<Rightarrow> Inl ValueError
      | Some i \<Rightarrow> if i < 0 then Inl ValueError else Inr [i])"

definition force_close_token_ids :: "(string \<Rightarrow> int option) \<Rightarrow> (string \<Rightarrow> int list) \<Rightarrow> int list res" where
  "force_close_token_ids to_id encode_tail =
     rbind (think_close_token_ids to_id) (\<lambda>close_ids. Inr (close_ids @ encode_tail BFT_FORCE_TAIL))"

lemma first_eos_None: "first_eos_index xs eos = None \<longleftrightarrow> (\<forall>x \<in> set xs. x \<notin> eos)"
  by (induction xs) auto

lemma first_eos_Some:
  "first_eos_index xs eos = Some i \<longleftrightarrow> i < length xs \<and> xs ! i \<in> eos \<and> (\<forall>x \<in> set (take i xs). x \<notin> eos)"
proof (induction xs arbitrary: i)
  case Nil
  then show ?case by simp
next
  case (Cons x xs)
  then show ?case by (cases i) auto
qed

lemma first_eos_append:
  "first_eos_index (xs @ ys) eos = (case first_eos_index xs eos of Some i \<Rightarrow> Some i
     | None \<Rightarrow> map_option (\<lambda>i. i + length xs) (first_eos_index ys eos))"
  by (induction xs) (auto simp: option.map_comp option.map_ident comp_def split: option.splits)

text \<open>\<open>xs[: i + 1]\<close> at the first end of sequence, and everything when there is none.\<close>

definition cut_at_eos :: "int list \<Rightarrow> int set \<Rightarrow> int list" where
  "cut_at_eos xs eos = (case first_eos_index xs eos of Some i \<Rightarrow> take (Suc i) xs | None \<Rightarrow> xs)"

lemma cut_at_eos_props:
  "\<forall>i < length (cut_at_eos xs eos). cut_at_eos xs eos ! i \<in> eos \<longrightarrow> i = length (cut_at_eos xs eos) - 1"
  "\<exists>rest. xs = cut_at_eos xs eos @ rest"
proof -
  show "\<exists>rest. xs = cut_at_eos xs eos @ rest"
    by (auto simp: cut_at_eos_def split: option.splits intro: append_take_drop_id [symmetric])
  show "\<forall>i < length (cut_at_eos xs eos). cut_at_eos xs eos ! i \<in> eos \<longrightarrow> i = length (cut_at_eos xs eos) - 1"
  proof (cases "first_eos_index xs eos")
    case None
    then have "\<forall>x \<in> set xs. x \<notin> eos" by (simp add: first_eos_None)
    then show ?thesis using None nth_mem by (fastforce simp: cut_at_eos_def)
  next
    case (Some k)
    then have k: "k < length xs" "\<forall>x \<in> set (take k xs). x \<notin> eos" by (auto simp: first_eos_Some)
    have "i = k" if "i \<le> k" "xs ! i \<in> eos" for i
      using k that by (metis in_set_conv_nth le_neq_implies_less length_take min.absorb4 nth_take)
    moreover have "cut_at_eos xs eos = take (Suc k) xs" and "length (take (Suc k) xs) = Suc k"
      using Some k(1) by (simp_all add: cut_at_eos_def)
    ultimately show ?thesis by (simp add: less_Suc_eq_le)
  qed
qed

end
