(* ===== verification/Bft.thy ===== *)
theory Bft
  imports ForcedSeed Modeling
begin

text \<open>
  \<open>reliquary/miner/bft.py\<close>: budget-forced termination. Phase 1 samples up to the thinking
  budget; rows that hit an end of sequence are kept, rows that closed their thinking continue,
  the others get \<open>force_ids\<close> appended before the answer is sampled in phase 2. Rows are token
  lists and \<open>model.generate\<close> is the parameter \<open>gen\<close>: padded rows, attention masks, number of
  tokens and keyword arguments to the generated rows.
\<close>

section \<open>Applicability\<close>

definition bft_applicable :: "string option \<Rightarrow> bool" where
  "bft_applicable env_name = (BFT_ENABLED \<and> (env_name = None \<or> env_name = Some ''openmathinstruct''))"

definition phase1_max_new_tokens :: "int \<Rightarrow> int \<Rightarrow> string option \<Rightarrow> int" where
  "phase1_max_new_tokens budget max_new_tokens env_name =
     (if bft_applicable env_name then budget else max_new_tokens)"

section \<open>One prompt\<close>

type_synonym generate = "int list list \<Rightarrow> int list list \<Rightarrow> int \<Rightarrow> (string, kwarg) dict \<Rightarrow> int list list"

record rollout_out =
  ro_tokens :: "int list"
  ro_prompt_length :: nat
  ro_forced :: bool
  ro_force_span :: "(nat \<times> nat) option"

text \<open>What the first loop decides for a row: finished, or the primed tokens of phase 2 and the span.\<close>

datatype row_plan = Finished rollout_out | Unfinished "int list" "(nat \<times> nat) option"

definition plan_row :: "int list \<Rightarrow> int set \<Rightarrow> int list \<Rightarrow> int set \<Rightarrow> int list \<Rightarrow> row_plan" where
  "plan_row prompt_tokens close_set force_ids eos_ids sq =
     (let plen = length prompt_tokens; generated = drop plen sq
      in case first_eos_index generated eos_ids of
           Some fe \<Rightarrow> Finished \<lparr> ro_tokens = prompt_tokens @ take (Suc fe) generated, ro_prompt_length = plen,
                                  ro_forced = False, ro_force_span = None \<rparr>
         | None \<Rightarrow>
             if has_think_close generated close_set then Unfinished sq None
             else Unfinished (sq @ force_ids) (Some (length sq, length sq + length force_ids)))"

fun is_unfinished :: "row_plan \<Rightarrow> bool" where
  "is_unfinished (Finished _) = False"
| "is_unfinished (Unfinished _ _) = True"

fun primed_of :: "row_plan \<Rightarrow> int list" where
  "primed_of (Unfinished p _) = p"
| "primed_of (Finished r) = ro_tokens r"

fun span_of :: "row_plan \<Rightarrow> (nat \<times> nat) option" where
  "span_of (Unfinished _ s) = s"
| "span_of (Finished r) = None"

fun kept_rollout :: "row_plan \<Rightarrow> rollout_out option" where
  "kept_rollout (Finished r) = Some r"
| "kept_rollout (Unfinished _ _) = None"

definition pad_id :: "int set \<Rightarrow> int" where
  "pad_id eos_ids = (if eos_ids = {} then 0 else Min eos_ids)"

definition longest :: "int list list \<Rightarrow> nat" where
  "longest rows = fold (\<lambda>r w. max (length r) w) rows 0"

definition left_pad :: "int \<Rightarrow> nat \<Rightarrow> int list \<Rightarrow> int list" where
  "left_pad pad width row = replicate (width - length row) pad @ row"

definition left_mask :: "nat \<Rightarrow> int list \<Rightarrow> int list" where
  "left_mask width row = replicate (width - length row) 0 @ replicate (length row) 1"

text \<open>The generated tail of a row, cut after its first end of sequence.\<close>

definition finish_row :: "int set \<Rightarrow> nat \<Rightarrow> nat \<Rightarrow> row_plan \<Rightarrow> int list \<Rightarrow> rollout_out" where
  "finish_row eos_ids width plen plan ans_row =
     \<lparr> ro_tokens = primed_of plan @ cut_at_eos (drop width ans_row) eos_ids, ro_prompt_length = plen,
       ro_forced = (span_of plan \<noteq> None), ro_force_span = span_of plan \<rparr>"

fun fill_rows :: "rollout_out option list \<Rightarrow> (nat \<times> rollout_out) list \<Rightarrow> rollout_out option list" where
  "fill_rows out [] = out"
| "fill_rows out ((i, r) # rs) = fill_rows (out[i := Some r]) rs"

definition bft_assemble_rollouts :: "generate \<Rightarrow> int list list \<Rightarrow> int list \<Rightarrow> int set \<Rightarrow> int list \<Rightarrow> int set \<Rightarrow> int
    \<Rightarrow> string \<Rightarrow> string \<Rightarrow> int \<Rightarrow> string \<Rightarrow> (string, kwarg) dict \<Rightarrow> rollout_out option list res" where
  "bft_assemble_rollouts gen phase1 prompt_tokens close_set force_ids eos_ids answer_budget randomness hk
     prompt_idx checkpoint_hash gen_kwargs =
     (let plen = length prompt_tokens;
          plans = map (plan_row prompt_tokens close_set force_ids eos_ids) phase1;
          out = map kept_rollout plans;
          todo = filter (\<lambda>i. is_unfinished (plans ! i)) [0..<length plans];
          primed = map (\<lambda>i. primed_of (plans ! i)) todo
      in if todo = [] then Inr out
         else
           let width = longest primed
           in rbind (ForcedSeedLogitsProcessor randomness hk (OnePrompt prompt_idx) checkpoint_hash
                (map int todo) (phase2_base_offsets (map (int \<circ> length) primed) (int plen)) (int width)) (\<lambda>fp.
              let ans = gen (map (left_pad (pad_id eos_ids) width) primed) (map (left_mask width) primed)
                          answer_budget (forced_seed_generate_kwargs gen_kwargs fp)
              in rbind (traverse (\<lambda>k. rbind (item ans k) (\<lambda>a.
                   Inr (todo ! k, finish_row eos_ids width plen (plans ! (todo ! k)) a))) [0..<length todo]) (\<lambda>rs.
                 Inr (fill_rows out rs))))"

definition right_pad :: "int \<Rightarrow> nat \<Rightarrow> int list \<Rightarrow> int list" where
  "right_pad pad width row = row @ replicate (width - length row) pad"

text \<open>\<open>max\<close> of no completions raises.\<close>

definition bft_rollouts_from_completions :: "generate \<Rightarrow> int list list \<Rightarrow> int list \<Rightarrow> int set \<Rightarrow> int list \<Rightarrow> int set
    \<Rightarrow> int \<Rightarrow> string \<Rightarrow> string \<Rightarrow> int \<Rightarrow> string \<Rightarrow> (string, kwarg) dict \<Rightarrow> rollout_out option list res" where
  "bft_rollouts_from_completions gen completions prompt_tokens close_set force_ids eos_ids answer_budget randomness
     hk prompt_idx checkpoint_hash gen_kwargs =
     (if completions = [] then Inl ValueError
      else bft_assemble_rollouts gen (map (right_pad (pad_id eos_ids) (longest completions)) completions)
             prompt_tokens close_set force_ids eos_ids answer_budget randomness hk prompt_idx checkpoint_hash gen_kwargs)"

section \<open>Several prompts in one call\<close>

record prompt_group =
  pg_completions :: "int list list"
  pg_prompt_tokens :: "int list"
  pg_prompt_idx :: int

text \<open>
  The rows of all groups in order, each with its group, its position in the group and its plan;
  \<open>gi\<close> counts the groups.
\<close>

definition group_rows :: "int set \<Rightarrow> int list \<Rightarrow> int set \<Rightarrow> prompt_group list \<Rightarrow> (nat \<times> nat \<times> row_plan) list" where
  "group_rows close_set force_ids eos_ids groups =
     concat (map (\<lambda>gi. let g = groups ! gi in
       map (\<lambda>ri. (gi, ri, plan_row (pg_prompt_tokens g) close_set force_ids eos_ids (pg_completions g ! ri)))
         [0..<length (pg_completions g)]) [0..<length groups])"

fun fill_groups :: "rollout_out option list list \<Rightarrow> (nat \<times> nat \<times> rollout_out) list \<Rightarrow> rollout_out option list list" where
  "fill_groups out [] = out"
| "fill_groups out ((gi, ri, r) # rs) = fill_groups (out[gi := (out ! gi)[ri := Some r]]) rs"

definition bft_rollouts_from_completions_multi :: "generate \<Rightarrow> prompt_group list \<Rightarrow> int set \<Rightarrow> int list \<Rightarrow> int set
    \<Rightarrow> int \<Rightarrow> string \<Rightarrow> string \<Rightarrow> string \<Rightarrow> (string, kwarg) dict \<Rightarrow> rollout_out option list list res" where
  "bft_rollouts_from_completions_multi gen groups close_set force_ids eos_ids answer_budget randomness hk
     checkpoint_hash gen_kwargs =
     (if groups = [] then Inl ValueError
      else
        let out = map (\<lambda>g. map (\<lambda>c. kept_rollout (plan_row (pg_prompt_tokens g) close_set force_ids eos_ids c))
                    (pg_completions g)) groups;
            todo = filter (\<lambda>(gi, ri, p). is_unfinished p) (group_rows close_set force_ids eos_ids groups);
            primed = map (\<lambda>(gi, ri, p). primed_of p) todo;
            plens = map (\<lambda>(gi, ri, p). length (pg_prompt_tokens (groups ! gi))) todo
        in if todo = [] then Inr out
           else
             let width = longest primed
             in rbind (ForcedSeedLogitsProcessor randomness hk
                  (PromptPerRow (map (\<lambda>(gi, ri, p). pg_prompt_idx (groups ! gi)) todo)) checkpoint_hash
                  (map (\<lambda>(gi, ri, p). int ri) todo)
                  (map2 (\<lambda>p pl. max 0 (int (length p) - int pl)) primed plens) (int width)) (\<lambda>fp.
                let ans = gen (map (left_pad (pad_id eos_ids) width) primed) (map (left_mask width) primed)
                            answer_budget (forced_seed_generate_kwargs gen_kwargs fp)
                in rbind (traverse (\<lambda>k. rbind (item ans k) (\<lambda>a.
                     case todo ! k of (gi, ri, p) \<Rightarrow> Inr (gi, ri, finish_row eos_ids width (plens ! k) p a)))
                     [0..<length todo]) (\<lambda>rs.
                   Inr (fill_groups out rs))))"

section \<open>Metadata of the commit\<close>

definition bft_rollout_metadata :: "rollout_out \<Rightarrow> json list \<Rightarrow> json" where
  "bft_rollout_metadata generation token_logprobs =
     JObj [(''prompt_length'', JInt (int (ro_prompt_length generation))),
           (''completion_length'', JInt (int (length (ro_tokens generation)) - int (ro_prompt_length generation))),
           (''success'', JBool True), (''total_reward'', JFloat (Fin 0)), (''advantage'', JFloat (Fin 0)),
           (''token_logprobs'', JList token_logprobs), (''forced'', JBool (ro_forced generation)),
           (''force_span'', (case ro_force_span generation of
              Some (a, b) \<Rightarrow> JList [JInt (int a), JInt (int b)] | None \<Rightarrow> JNull))]"

section \<open>Rows\<close>

lemma traverse_cong_set: "(\<And>x. x \<in> set xs \<Longrightarrow> f x = g x) \<Longrightarrow> traverse f xs = traverse g xs"
  by (induction xs) auto

lemma fill_rows_nth:
  assumes "distinct (map fst rs)" and "fst ` set rs \<subseteq> {..<length out}"
  shows "length (fill_rows out rs) = length out"
    and "fill_rows out rs ! j = (case map_of rs j of Some r \<Rightarrow> Some r | None \<Rightarrow> out ! j)"
proof -
  show "length (fill_rows out rs) = length out"
    by (induction out rs rule: fill_rows.induct) auto
  show "fill_rows out rs ! j = (case map_of rs j of Some r \<Rightarrow> Some r | None \<Rightarrow> out ! j)"
    using assms
  proof (induction out rs rule: fill_rows.induct)
    case (1 out)
    then show ?case by simp
  next
    case (2 out i r rs)
    then have "map_of rs i = None" by (simp add: map_of_eq_None_iff)
    with 2 show ?case by (auto split: option.splits)
  qed
qed

lemma traverse_items:
  assumes "n \<le> length ans"
  shows "traverse (\<lambda>k. rbind (item ans k) (\<lambda>a. Inr (f k a))) [0..<n] = Inr (map (\<lambda>k. f k (ans ! k)) [0..<n])"
  using assms by (intro traverse_total) (simp add: item_def)

lemma one_prompt_processor:
  obtains fp where "ForcedSeedLogitsProcessor randomness hk (OnePrompt pidx) ck rollouts offsets start = Inr fp"
  by (simp add: ForcedSeedLogitsProcessor_def prompt_indices_of_def)

text \<open>What phase 2 makes of the row \<open>i\<close>, when \<open>gen\<close> returns a row for every row it is given.\<close>

definition row_result :: "int list \<Rightarrow> int set \<Rightarrow> int list \<Rightarrow> int set \<Rightarrow> int list \<Rightarrow> rollout_out \<Rightarrow> bool" where
  "row_result prompt_tokens close_set force_ids eos_ids sq r =
     (case plan_row prompt_tokens close_set force_ids eos_ids sq of
        Finished r' \<Rightarrow> r = r'
      | Unfinished p sp \<Rightarrow> \<exists>width a. r = finish_row eos_ids width (length prompt_tokens) (Unfinished p sp) a)"

lemma unfinished_form: "is_unfinished p \<Longrightarrow> p = Unfinished (primed_of p) (span_of p)"
  by (cases p) auto

lemma assemble_rows:
  assumes gen: "\<forall>rows masks n kw. length (gen rows masks n kw) = length rows"
  shows "\<exists>out. bft_assemble_rollouts gen phase1 prompt_tokens close_set force_ids eos_ids budget randomness hk pidx ck kwargs = Inr out
    \<and> length out = length phase1
    \<and> (\<forall>i < length phase1. \<exists>r. out ! i = Some r \<and> row_result prompt_tokens close_set force_ids eos_ids (phase1 ! i) r)"
proof -
  let ?plans = "map (plan_row prompt_tokens close_set force_ids eos_ids) phase1"
  let ?todo = "filter (\<lambda>i. is_unfinished (?plans ! i)) [0..<length ?plans]"
  let ?primed = "map (\<lambda>i. primed_of (?plans ! i)) ?todo"
  let ?out = "map kept_rollout ?plans"
  have kept: "\<exists>r. kept_rollout (?plans ! i) = Some r \<and> row_result prompt_tokens close_set force_ids eos_ids (phase1 ! i) r"
    if "i < length phase1" "i \<notin> set ?todo" for i
    using that by (cases "?plans ! i") (auto simp: row_result_def)
  show ?thesis
  proof (cases "?todo = []")
    case True
    then show ?thesis
      using kept by (auto simp: bft_assemble_rollouts_def Let_def)
  next
    case False
    let ?w = "longest ?primed"
    obtain fp where fp: "ForcedSeedLogitsProcessor randomness hk (OnePrompt pidx) ck (map int ?todo)
        (phase2_base_offsets (map (int \<circ> length) ?primed) (int (length prompt_tokens))) (int ?w) = Inr fp"
      by (rule one_prompt_processor)
    define ans where "ans = gen (map (left_pad (pad_id eos_ids) ?w) ?primed) (map (left_mask ?w) ?primed) budget
      (forced_seed_generate_kwargs kwargs fp)"
    have len: "length ?todo \<le> length ans" using gen by (simp add: ans_def)
    define rs where "rs = map (\<lambda>k. (?todo ! k, finish_row eos_ids ?w (length prompt_tokens) (?plans ! (?todo ! k)) (ans ! k)))
      [0..<length ?todo]"
    have run: "bft_assemble_rollouts gen phase1 prompt_tokens close_set force_ids eos_ids budget randomness hk pidx ck kwargs
        = Inr (fill_rows ?out rs)"
      using False unfolding bft_assemble_rollouts_def Let_def fp rbind.simps ans_def [symmetric] traverse_items [OF len]
      by (simp add: rs_def)
    have fst: "map fst rs = ?todo" by (simp add: rs_def comp_def map_nth)
    then have d: "distinct (map fst rs)" by simp
    have sub: "fst ` set rs \<subseteq> {..<length ?out}"
      using fst by (metis (no_types, lifting) atLeast_upt filter_is_subset length_map set_map)
    have "\<exists>r. fill_rows ?out rs ! i = Some r \<and> row_result prompt_tokens close_set force_ids eos_ids (phase1 ! i) r"
      if i: "i < length phase1" for i
    proof (cases "i \<in> set ?todo")
      case True
      then obtain k where k: "k < length ?todo" "?todo ! k = i" by (metis in_set_conv_nth)
      then have "(i, finish_row eos_ids ?w (length prompt_tokens) (?plans ! i) (ans ! k)) \<in> set rs"
        by (force simp: rs_def)
      then have "map_of rs i = Some (finish_row eos_ids ?w (length prompt_tokens) (?plans ! i) (ans ! k))"
        using d by simp
      moreover obtain p sp where "?plans ! i = Unfinished p sp" using True i by (cases "?plans ! i") auto
      ultimately show ?thesis
        using fill_rows_nth(2) [OF d sub, of i] i by (auto simp: row_result_def)
    next
      case False
      then have "map_of rs i = None" using fst by (metis list.set_map map_of_eq_None_iff)
      then show ?thesis using fill_rows_nth(2) [OF d sub, of i] kept [OF i False] i by simp
    qed
    then show ?thesis using run fill_rows_nth(1) [OF d sub] by auto
  qed
qed

lemma cut_tail_eos:
  assumes "\<forall>x \<in> set pre. x \<notin> eos"
  shows "\<forall>j < length (pre @ cut_at_eos xs eos). (pre @ cut_at_eos xs eos) ! j \<in> eos
    \<longrightarrow> j = length (pre @ cut_at_eos xs eos) - 1"
proof (intro allI impI)
  fix j assume j: "j < length (pre @ cut_at_eos xs eos)" "(pre @ cut_at_eos xs eos) ! j \<in> eos"
  then have "\<not> j < length pre" using assms by (auto simp: nth_append split: if_splits)
  then have "j - length pre < length (cut_at_eos xs eos)" "cut_at_eos xs eos ! (j - length pre) \<in> eos"
    using j by (auto simp: nth_append)
  then have "j - length pre = length (cut_at_eos xs eos) - 1" using cut_at_eos_props(1) by blast
  with j(1) \<open>\<not> j < length pre\<close> show "j = length (pre @ cut_at_eos xs eos) - 1" by simp
qed

text \<open>The completion of a row: an end of sequence is at most its last token, and a forced span is in place.\<close>

definition rollout_sound :: "int list \<Rightarrow> int set \<Rightarrow> int list \<Rightarrow> int set \<Rightarrow> int list \<Rightarrow> rollout_out \<Rightarrow> bool" where
  "rollout_sound prompt_tokens close_set force_ids eos_ids sq r =
     (let plen = length prompt_tokens; generated = drop plen sq; completion = drop plen (ro_tokens r)
      in take plen (ro_tokens r) = prompt_tokens \<and> ro_prompt_length r = plen
       \<and> (\<forall>j < length completion. completion ! j \<in> eos_ids \<longrightarrow> j = length completion - 1)
       \<and> (ro_forced r = ((\<forall>x \<in> set generated. x \<notin> eos_ids) \<and> \<not> has_think_close generated close_set))
       \<and> ro_force_span r = (if ro_forced r then Some (length sq, length sq + length force_ids) else None)
       \<and> (ro_forced r \<longrightarrow> take (length force_ids) (drop (length sq) (ro_tokens r)) = force_ids))"

lemma row_result_sound:
  assumes "row_result prompt_tokens close_set force_ids eos_ids sq r"
    and "take (length prompt_tokens) sq = prompt_tokens" and "set force_ids \<inter> eos_ids = {}"
  shows "rollout_sound prompt_tokens close_set force_ids eos_ids sq r"
proof -
  let ?g = "drop (length prompt_tokens) sq"
  have sq: "sq = prompt_tokens @ ?g" using assms(2) by (metis append_take_drop_id)
  have fe: "\<forall>x \<in> set force_ids. x \<notin> eos_ids" using assms(3) by auto
  show ?thesis
  proof (cases "first_eos_index ?g eos_ids")
    case (Some k)
    then have "r = \<lparr> ro_tokens = prompt_tokens @ cut_at_eos ?g eos_ids, ro_prompt_length = length prompt_tokens,
        ro_forced = False, ro_force_span = None \<rparr>"
      using assms(1) by (simp add: row_result_def plan_row_def cut_at_eos_def Let_def)
    moreover have "\<not> (\<forall>x \<in> set ?g. x \<notin> eos_ids)" using Some by (metis first_eos_None option.distinct(1))
    ultimately show ?thesis using cut_at_eos_props(1) by (simp add: rollout_sound_def Let_def)
  next
    case None
    then have ne: "\<forall>x \<in> set ?g. x \<notin> eos_ids" by (simp add: first_eos_None)
    show ?thesis
    proof (cases "has_think_close ?g close_set")
      case True
      then obtain a w where "r = finish_row eos_ids w (length prompt_tokens) (Unfinished sq None) a"
        using assms(1) None by (auto simp: row_result_def plan_row_def Let_def)
      then have r: "ro_tokens r = prompt_tokens @ ?g @ cut_at_eos (drop w a) eos_ids" "\<not> ro_forced r"
        "ro_force_span r = None" "ro_prompt_length r = length prompt_tokens"
        using sq by (simp_all add: finish_row_def)
      show ?thesis using cut_tail_eos [OF ne] True r by (simp add: rollout_sound_def Let_def)
    next
      case False
      then obtain a w where "r = finish_row eos_ids w (length prompt_tokens)
          (Unfinished (sq @ force_ids) (Some (length sq, length sq + length force_ids))) a"
        using assms(1) None by (auto simp: row_result_def plan_row_def Let_def)
      then have r: "ro_tokens r = sq @ force_ids @ cut_at_eos (drop w a) eos_ids" "ro_forced r"
        "ro_force_span r = Some (length sq, length sq + length force_ids)" "ro_prompt_length r = length prompt_tokens"
        by (simp_all add: finish_row_def)
      have c: "drop (length prompt_tokens) (ro_tokens r) = (?g @ force_ids) @ cut_at_eos (drop w a) eos_ids"
        and p: "take (length prompt_tokens) (ro_tokens r) = prompt_tokens"
        unfolding r(1) by (subst sq, simp)+
      have "\<forall>x \<in> set (?g @ force_ids). x \<notin> eos_ids" using ne fe by auto
      from cut_tail_eos [OF this] show ?thesis
        unfolding rollout_sound_def Let_def c p using False ne r(2-4) by (simp add: r(1))
    qed
  qed
qed

text \<open>
  C34. Budget-forced assembly returns one rollout per row, for any generator that returns a row for
  every row it is given, on rows of the first phase that start with the prompt and with a force template that holds
  no end-of-sequence token. Each starts with the prompt, has an end-of-sequence token at most in
  last position, is marked forced exactly when phase 1 neither ended nor closed its thinking, and
  then carries the force template exactly at its \<open>force_span\<close>, which starts where phase 1 stopped.
\<close>

theorem bft_rollouts_are_sound:
  assumes "\<forall>rows masks n kw. length (gen rows masks n kw) = length rows"
    and "\<forall>sq \<in> set phase1. take (length prompt_tokens) sq = prompt_tokens" and "set force_ids \<inter> eos_ids = {}"
  shows "\<exists>rs. bft_assemble_rollouts gen phase1 prompt_tokens close_set force_ids eos_ids budget randomness hk pidx ck kwargs
      = Inr (map Some rs)
    \<and> list_all2 (rollout_sound prompt_tokens close_set force_ids eos_ids) phase1 rs"
proof -
  obtain out where out: "bft_assemble_rollouts gen phase1 prompt_tokens close_set force_ids eos_ids budget randomness hk pidx ck kwargs = Inr out"
    and len: "length out = length phase1"
    and rows: "\<forall>i < length phase1. \<exists>r. out ! i = Some r \<and> row_result prompt_tokens close_set force_ids eos_ids (phase1 ! i) r"
    using assemble_rows [OF assms(1)] by blast
  let ?rs = "map the out"
  have "out = map Some ?rs"
    using rows len by (intro nth_equalityI) auto
  moreover have "list_all2 (rollout_sound prompt_tokens close_set force_ids eos_ids) phase1 ?rs"
  proof (rule list_all2_all_nthI)
    fix i assume i: "i < length phase1"
    then obtain r where "out ! i = Some r" "row_result prompt_tokens close_set force_ids eos_ids (phase1 ! i) r"
      using rows by blast
    then show "rollout_sound prompt_tokens close_set force_ids eos_ids (phase1 ! i) (?rs ! i)"
      using row_result_sound assms(2,3) i len by (metis nth_map nth_mem option.sel)
  qed (simp add: len)
  ultimately show ?thesis using out by metis
qed

text \<open>
  The second phase draws at the position its token takes in the completion: row \<open>k\<close> of the
  processor, which primes \<open>p\<close>, draws at step \<open>s\<close> for position \<open>length p - plen + s\<close>.
\<close>

lemma phase2_draws:
  assumes "ForcedSeedLogitsProcessor randomness hk (OnePrompt pidx) ck rollouts
      (phase2_base_offsets (map (int \<circ> length) primed) (int plen)) start = Inr fp"
    and "k < length primed" and "length rollouts = length primed" and "plen \<le> length (primed ! k)"
  shows "row_draw sha domain fp s k = u_at sha domain randomness pidx ck (rollouts ! k) (int (length (primed ! k) - plen) + s)"
  using assms
  by (auto simp: ForcedSeedLogitsProcessor_def prompt_indices_of_def row_draw_def item_def phase2_base_offsets_def
      max_def of_nat_diff)

section \<open>The two list entry points\<close>

lemma fold_max: "fold (\<lambda>r w. max (length r) w) rows m = Max (insert m (length ` set rows))"
proof (induction rows arbitrary: m)
  case Nil
  then show ?case by simp
next
  case (Cons r rows)
  have "Max (insert (max (length r) m) (length ` set rows)) = Max (insert m (insert (length r) (length ` set rows)))"
    by (cases "rows = []") (simp_all add: max.commute max.left_commute)
  with Cons show ?case by simp
qed

lemma longest_bound: "r \<in> set rows \<Longrightarrow> length r \<le> longest rows"
  by (simp add: longest_def fold_max)

text \<open>Padding changes the plan of no row that has ended or that is already as long as the batch.\<close>

lemma plan_row_padded:
  assumes "length c = width \<or> (length prompt_tokens \<le> length c
    \<and> (\<exists>x \<in> set (drop (length prompt_tokens) c). x \<in> eos_ids))"
  shows "plan_row prompt_tokens close_set force_ids eos_ids (right_pad pad width c)
    = plan_row prompt_tokens close_set force_ids eos_ids c"
proof (cases "length c = width")
  case True
  then show ?thesis by (simp add: right_pad_def)
next
  case False
  with assms have l: "length prompt_tokens \<le> length c"
    and e: "\<exists>x \<in> set (drop (length prompt_tokens) c). x \<in> eos_ids" by auto
  have "first_eos_index (drop (length prompt_tokens) c) eos_ids \<noteq> None"
    using e by (metis first_eos_None)
  then obtain k where k: "first_eos_index (drop (length prompt_tokens) c) eos_ids = Some k" by blast
  then have "k < length (drop (length prompt_tokens) c)" by (simp add: first_eos_Some)
  then show ?thesis
    using k l by (simp add: plan_row_def right_pad_def Let_def first_eos_append)
qed

lemma fill_groups_single:
  "fill_groups [out] (map (Pair 0) rs) = [fill_rows out rs]"
  by (induction out rs rule: fill_rows.induct) auto

lemma filter_map_pairs:
  "filter (\<lambda>(gi, ri, p). Q p) (map (\<lambda>i. (0, i, f i)) xs) = map (\<lambda>i. (0, i, f i)) (filter (\<lambda>i. Q (f i)) xs)"
  by (induction xs) auto

lemma multi_single:
  "bft_rollouts_from_completions_multi gen [g] close_set force_ids eos_ids budget randomness hk ck kwargs
    = map_sum id (\<lambda>out. [out]) (bft_assemble_rollouts gen (pg_completions g) (pg_prompt_tokens g) close_set force_ids
        eos_ids budget randomness hk (pg_prompt_idx g) ck kwargs)"
proof -
  let ?pt = "pg_prompt_tokens g" and ?cs = "pg_completions g"
  let ?plan = "\<lambda>i. plan_row ?pt close_set force_ids eos_ids (?cs ! i)"
  define todo where "todo = filter (\<lambda>i. is_unfinished (?plan i)) [0..<length ?cs]"
  have mem: "map (plan_row ?pt close_set force_ids eos_ids) ?cs ! i = ?plan i" if "i \<in> set [0..<length ?cs]" for i
    using that by simp
  have todo1: "filter (\<lambda>i. is_unfinished (map (plan_row ?pt close_set force_ids eos_ids) ?cs ! i)) [0..<length ?cs] = todo"
    unfolding todo_def by (rule filter_cong [OF refl]) simp
  have todo2: "filter (\<lambda>(gi, ri, p). is_unfinished p) (group_rows close_set force_ids eos_ids [g])
      = map (\<lambda>i. (0, i, ?plan i)) todo"
    by (simp add: group_rows_def Let_def todo_def filter_map_pairs)
  have sub: "i < length ?cs" if "i \<in> set todo" for i using that by (simp add: todo_def)
  have primed1: "map (\<lambda>i. primed_of (map (plan_row ?pt close_set force_ids eos_ids) ?cs ! i)) todo = map (primed_of \<circ> ?plan) todo"
    by (simp add: sub)
  show ?thesis
  proof (cases "todo = []")
    case True
    then show ?thesis
      by (simp add: bft_rollouts_from_completions_multi_def bft_assemble_rollouts_def Let_def todo1 todo2)
  next
    case False
    let ?primed = "map (primed_of \<circ> ?plan) todo"
    let ?w = "longest ?primed"
    obtain fp where fp: "ForcedSeedLogitsProcessor randomness hk (OnePrompt (pg_prompt_idx g)) ck (map int todo)
        (phase2_base_offsets (map (int \<circ> length) ?primed) (int (length ?pt))) (int ?w) = Inr fp"
      by (rule one_prompt_processor)
    have offsets: "map2 (\<lambda>p pl. max 0 (int (length p) - int pl)) ?primed (map (\<lambda>i. length ?pt) todo)
        = phase2_base_offsets (map (int \<circ> length) ?primed) (int (length ?pt))"
      by (simp add: phase2_base_offsets_def zip_map_map zip_same_conv_map comp_def)
    have fp2: "ForcedSeedLogitsProcessor randomness hk (PromptPerRow (map (\<lambda>i. pg_prompt_idx g) todo)) ck (map int todo)
        (phase2_base_offsets (map (int \<circ> length) ?primed) (int (length ?pt))) (int ?w) = Inr fp"
      using fp by (simp add: ForcedSeedLogitsProcessor_def prompt_indices_of_def map_replicate_const)
    define ans where "ans = gen (map (left_pad (pad_id eos_ids) ?w) ?primed) (map (left_mask ?w) ?primed) budget
      (forced_seed_generate_kwargs kwargs fp)"
    define row where "row k a = (todo ! k, finish_row eos_ids ?w (length ?pt) (?plan (todo ! k)) a)" for k a
    have tr: "traverse (\<lambda>k. rbind (item ans k) (\<lambda>a. Inr ((0 :: nat, fst (row k a), snd (row k a))))) ks
        = map_sum id (map (Pair 0)) (traverse (\<lambda>k. rbind (item ans k) (\<lambda>a. Inr (row k a))) ks)" for ks
    proof (induction ks)
      case Nil
      then show ?case by simp
    next
      case (Cons k ks)
      then show ?case
        by (cases "item ans k"; cases "traverse (\<lambda>k. rbind (item ans k) (\<lambda>a. Inr (row k a))) ks") (auto simp: split_beta)
    qed
    have single: "bft_assemble_rollouts gen ?cs ?pt close_set force_ids eos_ids budget randomness hk (pg_prompt_idx g) ck kwargs
      = rbind (traverse (\<lambda>k. rbind (item ans k) (\<lambda>a. Inr (row k a))) [0..<length todo])
          (\<lambda>rs. Inr (fill_rows (map kept_rollout (map (plan_row ?pt close_set force_ids eos_ids) ?cs)) rs))"
    proof -
      have "traverse (\<lambda>k. rbind (item ans k) (\<lambda>a. Inr (todo ! k, finish_row eos_ids ?w (length ?pt)
            (map (plan_row ?pt close_set force_ids eos_ids) ?cs ! (todo ! k)) a))) [0..<length todo]
          = traverse (\<lambda>k. rbind (item ans k) (\<lambda>a. Inr (row k a))) [0..<length todo]"
        by (rule traverse_cong_set) (simp add: row_def sub)
      then show ?thesis
        using False by (simp add: bft_assemble_rollouts_def Let_def todo1 primed1 fp ans_def [symmetric] del: map_map)
    qed
    have multi: "bft_rollouts_from_completions_multi gen [g] close_set force_ids eos_ids budget randomness hk ck kwargs
      = rbind (traverse (\<lambda>k. rbind (item ans k) (\<lambda>a. Inr (0, fst (row k a), snd (row k a)))) [0..<length todo])
          (\<lambda>rs. Inr (fill_groups [map kept_rollout (map (plan_row ?pt close_set force_ids eos_ids) ?cs)] rs))"
    proof -
      let ?todo = "map (\<lambda>i. (0 :: nat, i, ?plan i)) todo"
      have p: "map (\<lambda>(gi, ri, p). primed_of p) ?todo = ?primed"
        and l: "map (\<lambda>(gi, ri, p). length (pg_prompt_tokens ([g] ! gi))) ?todo = map (\<lambda>i. length ?pt) todo"
        and x: "map (\<lambda>(gi, ri, p). pg_prompt_idx ([g] ! gi)) ?todo = map (\<lambda>i. pg_prompt_idx g) todo"
        and r: "map (\<lambda>(gi, ri, p). int ri) ?todo = map int todo"
        by (simp_all add: comp_def)
      have tr: "traverse (\<lambda>k. rbind (item ans k) (\<lambda>a. case ?todo ! k of (gi, ri, p) \<Rightarrow>
            Inr (gi, ri, finish_row eos_ids ?w (map (\<lambda>i. length ?pt) todo ! k) p a))) [0..<length ?todo]
          = traverse (\<lambda>k. rbind (item ans k) (\<lambda>a. Inr (0, fst (row k a), snd (row k a)))) [0..<length todo]"
        unfolding length_map by (rule traverse_cong_set) (simp add: row_def)
      have out: "map (\<lambda>g. map (\<lambda>c. kept_rollout (plan_row (pg_prompt_tokens g) close_set force_ids eos_ids c)) (pg_completions g)) [g]
          = [map kept_rollout (map (plan_row ?pt close_set force_ids eos_ids) ?cs)]"
        by (simp add: comp_def)
      have ne: "?todo \<noteq> []" using False by simp
      show ?thesis
        unfolding bft_rollouts_from_completions_multi_def Let_def todo2 p l x r offsets fp2 rbind.simps
          ans_def [symmetric] tr out
        using ne by simp
    qed
    show ?thesis
      unfolding single multi tr
      by (cases "traverse (\<lambda>k. rbind (item ans k) (\<lambda>a. Inr (row k a))) [0..<length todo]") (simp_all add: fill_groups_single)
  qed
qed

text \<open>
  For one prompt, the batched second phase makes the same call of \<open>generate\<close> and returns the
  same rollouts as the single-prompt path, under that path's documented precondition: every
  completion that has not ended is as long as the longest of the batch.
\<close>

theorem batched_phase2_agrees:
  assumes "pg_completions g \<noteq> []"
    and "\<forall>c \<in> set (pg_completions g). length c = longest (pg_completions g)
      \<or> (length (pg_prompt_tokens g) \<le> length c \<and> (\<exists>x \<in> set (drop (length (pg_prompt_tokens g)) c). x \<in> eos_ids))"
  shows "bft_rollouts_from_completions_multi gen [g] close_set force_ids eos_ids budget randomness hk ck kwargs
    = map_sum id (\<lambda>out. [out]) (bft_rollouts_from_completions gen (pg_completions g) (pg_prompt_tokens g) close_set
        force_ids eos_ids budget randomness hk (pg_prompt_idx g) ck kwargs)"
proof -
  let ?pt = "pg_prompt_tokens g" and ?cs = "pg_completions g"
  let ?pad = "right_pad (pad_id eos_ids) (longest ?cs)"
  have "map (plan_row ?pt close_set force_ids eos_ids) (map ?pad ?cs) = map (plan_row ?pt close_set force_ids eos_ids) ?cs"
    using assms(2) by (auto intro!: plan_row_padded)
  then have "bft_assemble_rollouts gen (map ?pad ?cs) ?pt close_set force_ids eos_ids budget randomness hk (pg_prompt_idx g) ck kwargs
      = bft_assemble_rollouts gen ?cs ?pt close_set force_ids eos_ids budget randomness hk (pg_prompt_idx g) ck kwargs"
    unfolding bft_assemble_rollouts_def by (simp only:)
  then show ?thesis
    using assms(1) by (simp only: multi_single bft_rollouts_from_completions_def if_False)
qed

lemma padded_plan_ends:
  assumes "finite eos_ids" and "eos_ids \<noteq> {}" and "length prompt_tokens \<le> length c" and "length c < width"
    and "\<forall>x \<in> set (drop (length prompt_tokens) c). x \<notin> eos_ids"
  shows "plan_row prompt_tokens close_set force_ids eos_ids (right_pad (pad_id eos_ids) width c)
    = Finished \<lparr> ro_tokens = prompt_tokens @ drop (length prompt_tokens) c @ [Min eos_ids],
        ro_prompt_length = length prompt_tokens, ro_forced = False, ro_force_span = None \<rparr>"
proof -
  let ?g = "drop (length prompt_tokens) c"
  obtain n where n: "width - length c = Suc n" using assms(4) by (metis Suc_diff_Suc)
  have pad: "pad_id eos_ids = Min eos_ids" "Min eos_ids \<in> eos_ids" using assms(1,2) by (simp_all add: pad_id_def)
  have "first_eos_index ?g eos_ids = None" using assms(5) by (simp add: first_eos_None)
  then have "first_eos_index (?g @ replicate (width - length c) (pad_id eos_ids)) eos_ids = Some (length ?g)"
    by (simp add: first_eos_append n pad)
  then show ?thesis using assms(3) by (simp add: plan_row_def right_pad_def Let_def n pad)
qed

text \<open>
  Outside that precondition the two paths differ: the padding of the single-prompt path is an
  end-of-sequence token, so a completion that stopped short of the longest one without ending
  is returned as ended, with an end-of-sequence token the model never produced and no forced
  answer, where the batched path goes on generating.
\<close>

theorem short_completion_ends_with_padding:
  assumes "\<forall>rows masks n kw. length (gen rows masks n kw) = length rows"
    and "finite eos_ids" and "eos_ids \<noteq> {}" and "i < length completions"
    and "length prompt_tokens \<le> length (completions ! i)" and "length (completions ! i) < longest completions"
    and "\<forall>x \<in> set (drop (length prompt_tokens) (completions ! i)). x \<notin> eos_ids"
  shows "\<exists>out r. bft_rollouts_from_completions gen completions prompt_tokens close_set force_ids eos_ids budget
      randomness hk pidx ck kwargs = Inr out \<and> out ! i = Some r
    \<and> ro_tokens r = prompt_tokens @ drop (length prompt_tokens) (completions ! i) @ [Min eos_ids] \<and> \<not> ro_forced r
    \<and> is_unfinished (plan_row prompt_tokens close_set force_ids eos_ids (completions ! i))"
proof -
  let ?rows = "map (right_pad (pad_id eos_ids) (longest completions)) completions"
  obtain out where out: "bft_assemble_rollouts gen ?rows prompt_tokens close_set force_ids eos_ids budget randomness hk
      pidx ck kwargs = Inr out"
    and rows: "\<forall>i < length ?rows. \<exists>r. out ! i = Some r \<and> row_result prompt_tokens close_set force_ids eos_ids (?rows ! i) r"
    using assemble_rows [OF assms(1)] by blast
  obtain r where r: "out ! i = Some r" "row_result prompt_tokens close_set force_ids eos_ids (?rows ! i) r"
    using rows assms(4) by (metis length_map)
  have "?rows ! i = right_pad (pad_id eos_ids) (longest completions) (completions ! i)" using assms(4) by simp
  with r(2) padded_plan_ends [OF assms(2,3,5,6,7)]
  have "r = \<lparr> ro_tokens = prompt_tokens @ drop (length prompt_tokens) (completions ! i) @ [Min eos_ids],
        ro_prompt_length = length prompt_tokens, ro_forced = False, ro_force_span = None \<rparr>"
    by (simp add: row_result_def)
  moreover have "first_eos_index (drop (length prompt_tokens) (completions ! i)) eos_ids = None"
    using assms(7) by (simp add: first_eos_None)
  then have "is_unfinished (plan_row prompt_tokens close_set force_ids eos_ids (completions ! i))"
    by (simp add: plan_row_def Let_def)
  moreover have "completions \<noteq> []" using assms(4) by auto
  ultimately show ?thesis using out r(1) by (simp add: bft_rollouts_from_completions_def)
qed

section \<open>Witnesses\<close>

text \<open>A generator that appends two answer tokens, the second an end of sequence.\<close>

definition toy_generate :: generate where
  "toy_generate rows masks n kw = map (\<lambda>r. r @ [30, 2, 2]) rows"

lemma toy_generate_rows: "\<forall>rows masks n kw. length (toy_generate rows masks n kw) = length rows"
  by (simp add: toy_generate_def)

theorem bft_rollouts_are_sound_witness:
  "\<exists>rs. bft_assemble_rollouts toy_generate [[5, 6, 10, 2, 0], [5, 6, 10, 9, 11], [5, 6, 10, 11, 12]] [5, 6] {9} [9, 40] {2} 8
      ''ab'' ''h'' 3 ''c'' [] = Inr (map Some rs)
    \<and> list_all2 (rollout_sound [5, 6] {9} [9, 40] {2}) [[5, 6, 10, 2, 0], [5, 6, 10, 9, 11], [5, 6, 10, 11, 12]] rs"
  by (rule bft_rollouts_are_sound [OF toy_generate_rows]) simp_all

theorem batched_phase2_agrees_witness:
  "bft_rollouts_from_completions_multi toy_generate [\<lparr> pg_completions = [[5, 6, 10, 2], [5, 6, 10, 11, 12]], pg_prompt_tokens = [5, 6],
      pg_prompt_idx = 3 \<rparr>] {9} [9, 40] {2} 8 ''ab'' ''h'' ''c'' []
    = map_sum id (\<lambda>out. [out]) (bft_rollouts_from_completions toy_generate [[5, 6, 10, 2], [5, 6, 10, 11, 12]] [5, 6] {9} [9, 40] {2} 8
      ''ab'' ''h'' 3 ''c'' [])"
  using batched_phase2_agrees [of "\<lparr> pg_completions = [[5, 6, 10, 2], [5, 6, 10, 11, 12]], pg_prompt_tokens = [5, 6],
      pg_prompt_idx = 3 \<rparr>" "{2}" toy_generate "{9}" "[9, 40]" 8 "''ab''" "''h''" "''c''" "[]"]
  by (simp add: longest_def)

theorem short_completion_ends_with_padding_witness:
  "\<exists>out r. bft_rollouts_from_completions toy_generate [[5, 6, 10], [5, 6, 10, 11, 12]] [5, 6] {9} [9, 40] {2} 8 ''ab'' ''h'' 3
      ''c'' [] = Inr out \<and> out ! 0 = Some r \<and> ro_tokens r = [5, 6, 10, 2] \<and> \<not> ro_forced r"
  using short_completion_ends_with_padding [OF toy_generate_rows, of "{2}" 0 "[[5, 6, 10], [5, 6, 10, 11, 12]]" "[5, 6]"
      "{9}" "[9, 40]" 8 "''ab''" "''h''" 3 "''c''" "[]"]
  by (simp add: longest_def) blast

end
