(* ===== verification/MixController.thy ===== *)
theory MixController
  imports Json "HOL-Library.Multiset"
begin

text \<open>
  \<open>reliquary/miner/mix_controller.py\<close>: how the miner divides its submission slots among its
  environments. The controller keeps a moving average of the reward rate of each environment;
  \<open>target_slots\<close> divides the slots in proportion to it above a floor, by largest remainders;
  \<open>pick_bake_env\<close> chooses the environment to bake next and rotates among ties with a
  counter of the module, which is passed along here.
\<close>

record mix_controller =
  mx_envs :: "string list"
  mx_total :: int
  mx_floor :: int
  mx_alpha :: real
  mx_yield :: "(string, real option) dict"

definition NEUTRAL_YIELD :: real where "NEUTRAL_YIELD = 5 / 10"

text \<open>\<open>{k: f(k) for k in keys}\<close>.\<close>

definition dict_of :: "('k \<Rightarrow> 'v) \<Rightarrow> 'k list \<Rightarrow> ('k, 'v) dict" where
  "dict_of f ks = foldl (\<lambda>d k. dset k (f k) d) [] ks"

definition dvalues :: "('k, 'v) dict \<Rightarrow> 'v list" where
  "dvalues d = map snd d"

definition MixController :: "string list \<Rightarrow> int \<Rightarrow> int \<Rightarrow> real \<Rightarrow> mix_controller" where
  "MixController envs total_slots slot_floor alpha =
     \<lparr> mx_envs = envs, mx_total = total_slots, mx_floor = slot_floor, mx_alpha = alpha,
       mx_yield = dict_of (\<lambda>e. None) envs \<rparr>"

definition record_outcome :: "string \<Rightarrow> bool \<Rightarrow> mix_controller \<Rightarrow> mix_controller" where
  "record_outcome env rewarded mc =
     (case map_of (mx_yield mc) env of
        None \<Rightarrow> mc
      | Some prev \<Rightarrow>
          (let x = (if rewarded then 1 else 0) in
           mc \<lparr> mx_yield := dset env (Some (case prev of None \<Rightarrow> x
                                          | Some p \<Rightarrow> (1 - mx_alpha mc) * p + mx_alpha mc * x)) (mx_yield mc) \<rparr>))"

definition effective_yield :: "mix_controller \<Rightarrow> string \<Rightarrow> real" where
  "effective_yield mc env = (case dget (mx_yield mc) env None of None \<Rightarrow> NEUTRAL_YIELD | Some y \<Rightarrow> y)"

section \<open>Slots\<close>

text \<open>\<open>for e in es: d[e] += f(e)\<close>.\<close>

definition add_each :: "('k \<Rightarrow> int) \<Rightarrow> 'k list \<Rightarrow> ('k, int) dict \<Rightarrow> ('k, int) dict" where
  "add_each f es d = foldl (\<lambda>d e. dset e (dget d e 0 + f e) d) d es"

definition mix_weight :: "mix_controller \<Rightarrow> string \<Rightarrow> real" where
  "mix_weight mc e = max (effective_yield mc e) (1 / 10 ^ 9)"

definition mix_quota :: "mix_controller \<Rightarrow> int \<Rightarrow> string \<Rightarrow> real" where
  "mix_quota mc remaining e =
     of_int remaining * mix_weight mc e / sum_list (dvalues (dict_of (mix_weight mc) (mx_envs mc)))"

definition even_split :: "mix_controller \<Rightarrow> (string, int) dict res" where
  "even_split mc =
     (let n = int (length (mx_envs mc)) in
      if n = 0 then Inl ZeroDivisionError
      else let base = mx_total mc div n
           in Inr (add_each (\<lambda>e. 1) (py_slice_to (mx_envs mc) (mx_total mc - base * n))
                     (dict_of (\<lambda>e. base) (mx_envs mc))))"

definition target_slots :: "mix_controller \<Rightarrow> (string, int) dict res" where
  "target_slots mc =
     (let n = int (length (mx_envs mc)); alloc = dict_of (\<lambda>e. mx_floor mc) (mx_envs mc);
          remaining = mx_total mc - mx_floor mc * n
      in if remaining < 0 then even_split mc
         else if remaining = 0 then Inr alloc
         else let quota = mix_quota mc remaining;
                  base = (\<lambda>e. trunc (quota e));
                  alloc = add_each base (mx_envs mc) alloc;
                  leftover = remaining - sum_list (dvalues (dict_of base (mx_envs mc)));
                  order = sort_key (\<lambda>e. - (quota e - of_int (base e))) (mx_envs mc)
              in Inr (add_each (\<lambda>e. 1) (py_slice_to order leftover) alloc))"

section \<open>The environment to bake next\<close>

fun deficit_loop :: "(string, int) dict \<Rightarrow> (string \<times> int) list \<Rightarrow> int option \<Rightarrow> string list \<Rightarrow> string list" where
  "deficit_loop counts [] best tied = tied"
| "deficit_loop counts ((env, target) # rest) best tied =
     (let deficit = target - dget counts env 0 in
      case best of
        None \<Rightarrow> deficit_loop counts rest (Some deficit) [env]
      | Some b \<Rightarrow>
          if b < deficit then deficit_loop counts rest (Some deficit) [env]
          else if deficit = b then deficit_loop counts rest best (tied @ [env])
          else deficit_loop counts rest best tied)"

definition pick_bake_env :: "(string, int) dict \<Rightarrow> (string, int) dict \<Rightarrow> nat \<Rightarrow> (string \<times> nat) res" where
  "pick_bake_env slots counts counter =
     (let tied = deficit_loop counts slots None [] in
      if tied = [] then Inl AssertionError
      else if length tied = 1 then Inr (tied ! 0, counter)
      else Inr (tied ! (counter mod length tied), Suc counter))"

definition entry_env_name :: "(string, json) dict \<Rightarrow> string \<Rightarrow> json" where
  "entry_env_name entry dflt = (let v = dget entry ''env_name'' JNull in if truthy v then v else JStr dflt)"

section \<open>Lemmas on the dictionaries\<close>

lemma map_of_dict_of: "map_of (dict_of f ks) k = (if k \<in> set ks then Some (f k) else None)"
proof -
  have "map_of (foldl (\<lambda>d k. dset k (f k) d) d ks) k = (if k \<in> set ks then Some (f k) else map_of d k)" for d
    by (induction ks arbitrary: d) auto
  then show ?thesis by (simp add: dict_of_def)
qed

lemma dget_dict_of: "dget (dict_of f ks) k dflt = (if k \<in> set ks then f k else dflt)"
  by (simp add: dget_def map_of_dict_of)

lemma dset_append: "k \<notin> fst ` set d \<Longrightarrow> dset k v d = d @ [(k, v)]"
  by (induction d) auto

lemma dict_of_distinct: "distinct ks \<Longrightarrow> dict_of f ks = map (\<lambda>k. (k, f k)) ks"
proof -
  have "distinct (map fst d @ ks) \<Longrightarrow> foldl (\<lambda>d k. dset k (f k) d) d ks = d @ map (\<lambda>k. (k, f k)) ks" for d
    by (induction ks arbitrary: d) (auto simp: dset_append)
  then show "distinct ks \<Longrightarrow> ?thesis" by (simp add: dict_of_def)
qed

lemma add_each_value:
  "dget (add_each f es d) k 0 = dget d k 0 + f k * int (count (mset es) k)"
proof (induction es arbitrary: d)
  case Nil
  then show ?case by (simp add: add_each_def)
next
  case (Cons e es)
  have "add_each f (e # es) d = add_each f es (dset e (dget d e 0 + f e) d)" by (simp add: add_each_def)
  then show ?case by (simp add: Cons dget_dset algebra_simps)
qed

lemma add_each_keys: "set es \<subseteq> set (dkeys d) \<Longrightarrow> dkeys (add_each f es d) = dkeys d"
proof (induction es arbitrary: d)
  case Nil
  then show ?case by (simp add: add_each_def)
next
  case (Cons e es)
  have k: "dkeys (dset e v d) = dkeys d" if "e \<in> set (dkeys d)" for v e and d :: "('a, int) dict"
    using that by (induction d) (auto simp: dkeys_def)
  have "add_each f (e # es) d = add_each f es (dset e (dget d e 0 + f e) d)" by (simp add: add_each_def)
  moreover have "dkeys (dset e (dget d e 0 + f e) d) = dkeys d" using Cons.prems by (intro k) simp
  ultimately show ?case using Cons by simp
qed

lemma dkeys_dict_of: "distinct ks \<Longrightarrow> dkeys (dict_of f ks) = ks"
  by (simp add: dict_of_distinct dkeys_def comp_def)

lemma dvalues_dict_of: "distinct ks \<Longrightarrow> dvalues (dict_of f ks) = map f ks"
  by (simp add: dict_of_distinct dvalues_def comp_def)

lemma dvalues_dget: "distinct (dkeys d) \<Longrightarrow> dvalues d = map (\<lambda>k. dget d k 0) (dkeys d)"
proof -
  assume "distinct (dkeys d)"
  then have "dget d k 0 = v" if "(k, v) \<in> set d" for k v
    using that by (simp add: dget_def dkeys_def)
  then have "map snd d = map (\<lambda>p. dget d (fst p) 0) d" by (intro map_cong) auto
  then show ?thesis by (simp add: dvalues_def dkeys_def comp_def)
qed

section \<open>The division is exact and fair\<close>

lemma sum_list_const: "sum_list (map (\<lambda>e. c) es) = (c :: int) * int (length es)"
  by (induction es) (auto simp: algebra_simps)

lemma sum_list_add: "sum_list (map (\<lambda>e. f e + g e) es) = sum_list (map f es) + (sum_list (map g es) :: int)"
  by (induction es) auto

lemma sum_counts_subset:
  assumes "distinct es" and "distinct xs" and "set xs \<subseteq> set es"
  shows "sum_list (map (\<lambda>e. int (count (mset xs) e)) es) = int (length xs)"
proof -
  have "sum_list (map (\<lambda>e. int (count (mset xs) e)) es) = (\<Sum>e \<in> set es. int (count (mset xs) e))"
    using assms(1) by (simp add: sum_list_distinct_conv_sum_set)
  also have "\<dots> = (\<Sum>e \<in> set es. if e \<in> set xs then 1 else 0)"
    using assms(2) by (intro sum.cong refl) (simp add: distinct_count_atmost_1)
  also have "\<dots> = int (card (set es \<inter> set xs))" by (simp add: sum.If_cases)
  also have "set es \<inter> set xs = set xs" using assms(3) by blast
  finally show ?thesis using assms(2) by (simp add: distinct_card)
qed

lemma mix_weight_pos: "0 < mix_weight mc e"
  by (simp add: mix_weight_def)

lemma mix_quota_props:
  assumes "distinct (mx_envs mc)" and "mx_envs mc \<noteq> []" and "0 < r"
  shows "sum_list (map (mix_quota mc r) (mx_envs mc)) = of_int r" and "0 \<le> mix_quota mc r e"
proof -
  let ?W = "sum_list (map (mix_weight mc) (mx_envs mc))"
  have W: "0 < ?W"
  proof -
    obtain x where "x \<in> set (mx_envs mc)" using assms(2) by (cases "mx_envs mc") auto
    then have "mix_weight mc x \<le> ?W"
      by (intro sum_list_nonneg_le_member) (auto intro: less_imp_le mix_weight_pos)
    with mix_weight_pos [of mc x] show ?thesis by linarith
  qed
  have q: "mix_quota mc r e = of_int r / ?W * mix_weight mc e" for e
    by (simp add: mix_quota_def dvalues_dict_of [OF assms(1)])
  have "sum_list (map (mix_quota mc r) (mx_envs mc)) = of_int r / ?W * ?W"
    unfolding q by (rule sum_list_const_mult)
  then show "sum_list (map (mix_quota mc r) (mx_envs mc)) = of_int r" using W by simp
  show "0 \<le> mix_quota mc r e"
    unfolding q using W assms(3) mix_weight_pos [of mc e] by simp
qed

lemma floor_sum_bounds:
  assumes "\<And>e. 0 \<le> (q e :: real)"
  shows "of_int (sum_list (map (\<lambda>e. trunc (q e)) es)) \<le> sum_list (map q es)
    \<and> (es \<noteq> [] \<longrightarrow> sum_list (map q es) < of_int (sum_list (map (\<lambda>e. trunc (q e)) es)) + real (length es))"
proof (induction es)
  case Nil
  then show ?case by simp
next
  case (Cons e es)
  then show ?case using trunc_bounds [OF assms [of e]] by (cases "es = []") auto
qed

lemma add_each_sum:
  assumes "distinct es" and "dkeys d = es" and "distinct xs" and "set xs \<subseteq> set es"
  shows "sum_list (dvalues (add_each (\<lambda>e. 1) xs d)) = sum_list (dvalues d) + int (length xs)"
proof -
  have k: "dkeys (add_each (\<lambda>e. 1) xs d) = es"
    using add_each_keys [of xs d] assms(2,4) by simp
  have "sum_list (dvalues (add_each (\<lambda>e. 1) xs d)) = sum_list (map (\<lambda>e. dget d e 0 + int (count (mset xs) e)) es)"
    using assms(1) k by (simp add: dvalues_dget add_each_value)
  also have "\<dots> = sum_list (map (\<lambda>e. dget d e 0) es) + int (length xs)"
    by (simp add: sum_list_add sum_counts_subset [OF assms(1,3,4)])
  finally show ?thesis using assms(1,2) by (simp add: dvalues_dget)
qed

text \<open>The proportional case, with what it gives each environment.\<close>

lemma proportional_slots:
  assumes d: "distinct (mx_envs mc)" and ne: "mx_envs mc \<noteq> []"
    and r: "r = mx_total mc - mx_floor mc * int (length (mx_envs mc))" "0 < r"
    and slots: "target_slots mc = Inr slots"
  shows "sum_list (dvalues slots) = mx_total mc" and "dkeys slots = mx_envs mc"
    and "e \<in> set (mx_envs mc) \<Longrightarrow> \<bar>of_int (dget slots e 0) - (of_int (mx_floor mc) + mix_quota mc r e)\<bar> \<le> 1"
    and "e \<in> set (mx_envs mc) \<Longrightarrow> mx_floor mc + trunc (mix_quota mc r e) \<le> dget slots e 0
      \<and> dget slots e 0 \<le> mx_floor mc + trunc (mix_quota mc r e) + 1"
proof -
  let ?es = "mx_envs mc" and ?q = "mix_quota mc r"
  let ?base = "\<lambda>e. trunc (?q e)" and ?n = "length (mx_envs mc)"
  define alloc where "alloc = add_each ?base ?es (dict_of (\<lambda>e. mx_floor mc) ?es)"
  define leftover where "leftover = r - sum_list (map ?base ?es)"
  define xs where "xs = py_slice_to (sort_key (\<lambda>e. - (?q e - of_int (?base e))) ?es) leftover"
  have slots': "slots = add_each (\<lambda>e. 1) xs alloc"
    using slots r d unfolding target_slots_def Let_def
    by (simp add: dvalues_dict_of alloc_def leftover_def xs_def)
  have fl: "of_int (sum_list (map ?base ?es)) \<le> sum_list (map ?q ?es)"
    "sum_list (map ?q ?es) < of_int (sum_list (map ?base ?es)) + real ?n"
    using floor_sum_bounds [of ?q ?es] mix_quota_props(2) [OF d ne r(2)] ne by blast+
  then have lo: "0 \<le> leftover" "leftover < int ?n"
    unfolding mix_quota_props(1) [OF d ne r(2)] leftover_def by linarith+
  have xs: "distinct xs" "set xs \<subseteq> set ?es" "int (length xs) = leftover"
  proof -
    show "distinct xs" using d by (simp add: xs_def py_slice_to_def)
    show "set xs \<subseteq> set ?es" by (auto simp: xs_def py_slice_to_def dest: in_set_takeD)
    show "int (length xs) = leftover" using lo by (simp add: xs_def py_slice_to_def slice_bound_def)
  qed
  have dk: "dkeys (dict_of (\<lambda>e. mx_floor mc) ?es) = ?es" using d by (rule dkeys_dict_of)
  have ak: "dkeys alloc = ?es"
    using add_each_keys [of ?es "dict_of (\<lambda>e. mx_floor mc) ?es"] dk by (simp add: alloc_def)
  have av: "dget alloc e 0 = mx_floor mc + ?base e" if "e \<in> set ?es" for e
    using that d by (simp add: alloc_def add_each_value dget_dict_of distinct_count_atmost_1)
  have "dvalues alloc = map (\<lambda>e. mx_floor mc + ?base e) ?es"
    using ak d av by (simp add: dvalues_dget)
  then have "sum_list (dvalues alloc) = mx_floor mc * int ?n + sum_list (map ?base ?es)"
    by (simp add: sum_list_add sum_list_const)
  then show "sum_list (dvalues slots) = mx_total mc"
    using add_each_sum [OF d ak xs(1,2)] xs(3) r(1) by (simp add: slots' leftover_def)
  show "dkeys slots = ?es"
    using add_each_keys [of xs alloc] xs(2) ak by (simp add: slots')
  have v: "dget slots e 0 = mx_floor mc + ?base e + (if e \<in> set xs then 1 else 0)" if "e \<in> set ?es" for e
    using that av xs(1) by (simp add: slots' add_each_value distinct_count_atmost_1)
  show "e \<in> set ?es \<Longrightarrow> mx_floor mc + trunc (?q e) \<le> dget slots e 0 \<and> dget slots e 0 \<le> mx_floor mc + trunc (?q e) + 1"
    by (simp add: v)
  show "e \<in> set ?es \<Longrightarrow> \<bar>of_int (dget slots e 0) - (of_int (mx_floor mc) + ?q e)\<bar> \<le> 1"
    using trunc_bounds [OF mix_quota_props(2) [OF d ne r(2)], of e] by (simp add: v)
qed

lemma even_slots:
  assumes d: "distinct (mx_envs mc)" and ne: "mx_envs mc \<noteq> []"
  shows "\<exists>slots. even_split mc = Inr slots \<and> dkeys slots = mx_envs mc \<and> sum_list (dvalues slots) = mx_total mc
    \<and> (\<forall>e \<in> set (mx_envs mc). mx_total mc div int (length (mx_envs mc)) \<le> dget slots e 0
         \<and> dget slots e 0 \<le> mx_total mc div int (length (mx_envs mc)) + 1)"
proof -
  let ?es = "mx_envs mc" and ?n = "int (length (mx_envs mc))"
  let ?b = "mx_total mc div ?n" and ?xs = "py_slice_to (mx_envs mc) (mx_total mc - mx_total mc div ?n * ?n)"
  let ?d = "dict_of (\<lambda>e. ?b) ?es"
  have n: "0 < ?n" using ne by simp
  have m: "mx_total mc - ?b * ?n = mx_total mc mod ?n" by (simp add: minus_div_mult_eq_mod)
  have xs: "distinct ?xs" "set ?xs \<subseteq> set ?es" "int (length ?xs) = mx_total mc mod ?n"
  proof -
    have mb: "0 \<le> mx_total mc mod ?n" "mx_total mc mod ?n < ?n" using n by simp_all
    show "distinct ?xs" using d by (simp add: py_slice_to_def)
    show "set ?xs \<subseteq> set ?es" by (auto simp: py_slice_to_def dest: in_set_takeD)
    show "int (length ?xs) = mx_total mc mod ?n" unfolding m using mb by (simp add: py_slice_to_def slice_bound_def)
  qed
  have k: "dkeys ?d = ?es" using d by (rule dkeys_dict_of)
  have v: "dget (add_each (\<lambda>e. 1) ?xs ?d) e 0 = ?b + (if e \<in> set ?xs then 1 else 0)" if "e \<in> set ?es" for e
    using that xs(1) by (simp add: add_each_value dget_dict_of distinct_count_atmost_1)
  have "sum_list (dvalues (add_each (\<lambda>e. 1) ?xs ?d)) = ?b * ?n + mx_total mc mod ?n"
    using add_each_sum [OF d k xs(1,2)] xs(3) d by (simp add: dvalues_dict_of sum_list_const)
  moreover have "dkeys (add_each (\<lambda>e. 1) ?xs ?d) = ?es" using add_each_keys [of ?xs ?d] xs(2) k by simp
  ultimately show ?thesis using ne v by (simp add: even_split_def Let_def)
qed

text \<open>
  The slots always add up to the budget. When the floors fit, every environment gets at least
  its floor and no more than one slot away from its exact share, its floor plus the part of the rest
  that is proportional to its moving average; when they do not, the split is even, and two
  environments differ by at most one slot.
\<close>

theorem target_slots_exact_and_fair:
  assumes "distinct (mx_envs mc)" and "mx_envs mc \<noteq> []"
  shows "\<exists>slots. target_slots mc = Inr slots \<and> dkeys slots = mx_envs mc \<and> sum_list (dvalues slots) = mx_total mc
    \<and> (let r = mx_total mc - mx_floor mc * int (length (mx_envs mc)) in
       if 0 \<le> r then \<forall>e \<in> set (mx_envs mc). mx_floor mc \<le> dget slots e 0
           \<and> \<bar>of_int (dget slots e 0) - (of_int (mx_floor mc) + mix_quota mc r e)\<bar> \<le> 1
       else \<forall>e \<in> set (mx_envs mc). \<forall>e' \<in> set (mx_envs mc). \<bar>dget slots e 0 - dget slots e' 0\<bar> \<le> 1)"
proof -
  define r where "r = mx_total mc - mx_floor mc * int (length (mx_envs mc))"
  consider "r < 0" | "r = 0" | "0 < r" by linarith
  then show ?thesis
  proof cases
    case 1
    obtain slots where s: "even_split mc = Inr slots" "dkeys slots = mx_envs mc" "sum_list (dvalues slots) = mx_total mc"
      and b: "\<forall>e \<in> set (mx_envs mc). mx_total mc div int (length (mx_envs mc)) \<le> dget slots e 0
         \<and> dget slots e 0 \<le> mx_total mc div int (length (mx_envs mc)) + 1"
      using even_slots [OF assms] by blast
    have "\<bar>dget slots e 0 - dget slots e' 0\<bar> \<le> 1" if "e \<in> set (mx_envs mc)" "e' \<in> set (mx_envs mc)" for e e'
      using b that by (smt (verit))
    moreover have "target_slots mc = even_split mc" using 1 by (simp add: target_slots_def r_def Let_def)
    ultimately show ?thesis using 1 s by (simp add: r_def [symmetric])
  next
    case 2
    have "sum_list (dvalues (dict_of (\<lambda>e. mx_floor mc) (mx_envs mc))) = mx_total mc"
      using 2 assms(1) by (simp add: r_def dvalues_dict_of sum_list_const)
    moreover have "mix_quota mc 0 e = 0" for e by (simp add: mix_quota_def)
    moreover have "target_slots mc = Inr (dict_of (\<lambda>e. mx_floor mc) (mx_envs mc))"
      using 2 by (simp add: target_slots_def r_def Let_def)
    ultimately show ?thesis
      using 2 assms(1) by (simp add: r_def [symmetric] Let_def dkeys_dict_of dget_dict_of)
  next
    case 3
    have t: "\<exists>slots. target_slots mc = Inr slots" using 3 by (simp add: target_slots_def r_def Let_def)
    then obtain slots where slots: "target_slots mc = Inr slots" by blast
    note p = proportional_slots [OF assms r_def 3 slots]
    have "0 \<le> trunc (mix_quota mc r e)" for e
      using trunc_bounds [OF mix_quota_props(2) [OF assms 3]] by blast
    then have "mx_floor mc \<le> dget slots e 0" if "e \<in> set (mx_envs mc)" for e
      using p(4) [OF that] by (smt (verit))
    then show ?thesis using 3 slots p(1-3) by (simp add: r_def [symmetric] Let_def)
  qed
qed

section \<open>Ties rotate\<close>

definition deficits :: "(string, int) dict \<Rightarrow> (string \<times> int) list \<Rightarrow> (string \<times> int) list" where
  "deficits counts slots = map (\<lambda>(e, n). (e, n - dget counts e 0)) slots"

lemma deficit_loop_best:
  "deficit_loop counts rest (Some b) tied =
    (let m = Max (insert b (snd ` set (deficits counts rest))) in
     (if m = b then tied else []) @ map fst (filter (\<lambda>(e, x). x = m) (deficits counts rest)))"
proof (induction rest arbitrary: b tied)
  case Nil
  then show ?case by (simp add: deficits_def)
next
  case (Cons p rest)
  obtain e n where p: "p = (e, n)" by (cases p)
  let ?x = "n - dget counts e 0" and ?D = "snd ` set (deficits counts rest)"
  have fin: "finite ?D" by simp
  have D: "deficits counts (p # rest) = (e, ?x) # deficits counts rest" by (simp add: p deficits_def)
  have m: "Max (insert b (insert ?x ?D)) = Max (insert (max b ?x) ?D)"
    using fin by (cases "?D = {}") (simp_all add: max.assoc)
  have ge: "max b ?x \<le> Max (insert (max b ?x) ?D)" using fin by (intro Max_ge) auto
  consider "b < ?x" | "?x = b" | "?x < b" by linarith
  then show ?case
    by cases (use Cons.IH m ge in \<open>auto simp: p D Let_def deficits_def max_def split: if_splits\<close>)
qed

definition most_behind :: "(string, int) dict \<Rightarrow> (string \<times> int) list \<Rightarrow> string list" where
  "most_behind counts slots =
     map fst (filter (\<lambda>(e, x). x = Max (snd ` set (deficits counts slots))) (deficits counts slots))"

lemma tied_most_behind: "slots \<noteq> [] \<Longrightarrow> deficit_loop counts slots None [] = most_behind counts slots"
proof -
  assume "slots \<noteq> []"
  then obtain e n rest where s: "slots = (e, n) # rest" by (metis neq_Nil_conv prod.exhaust)
  let ?x = "n - dget counts e 0"
  have "deficit_loop counts slots None [] = deficit_loop counts rest (Some ?x) [e]" by (simp add: s Let_def)
  also have "\<dots> = most_behind counts slots"
    unfolding deficit_loop_best by (auto simp: most_behind_def s deficits_def Let_def)
  finally show ?thesis .
qed

lemma most_behind_nonempty: "slots \<noteq> [] \<Longrightarrow> most_behind counts slots \<noteq> []"
proof -
  assume "slots \<noteq> []"
  then have "Max (snd ` set (deficits counts slots)) \<in> snd ` set (deficits counts slots)"
    by (intro Max_in) (auto simp: deficits_def)
  then show ?thesis by (force simp: most_behind_def filter_empty_conv)
qed

text \<open>Successive calls, with nothing baked in between.\<close>

fun bake_picks :: "(string, int) dict \<Rightarrow> (string, int) dict \<Rightarrow> nat \<Rightarrow> nat \<Rightarrow> string list res" where
  "bake_picks slots counts counter 0 = Inr []"
| "bake_picks slots counts counter (Suc k) =
     rbind (pick_bake_env slots counts counter) (\<lambda>(e, c).
     rbind (bake_picks slots counts c k) (\<lambda>es. Inr (e # es)))"

lemma bake_picks_tied:
  assumes "slots \<noteq> []" and "1 < length (most_behind counts slots)"
  shows "bake_picks slots counts c k
    = Inr (map (\<lambda>j. most_behind counts slots ! ((c + j) mod length (most_behind counts slots))) [0..<k])"
proof (induction k arbitrary: c)
  case 0
  then show ?case by simp
next
  case (Suc k)
  have "pick_bake_env slots counts c
      = Inr (most_behind counts slots ! (c mod length (most_behind counts slots)), Suc c)"
    using assms by (auto simp: pick_bake_env_def Let_def tied_most_behind)
  moreover have "[0..<Suc k] = 0 # map Suc [0..<k]" by (metis map_Suc_upt upt_conv_Cons zero_less_Suc)
  ultimately show ?case by (simp add: Suc comp_def del: upt_Suc)
qed

lemma rotation_covers:
  assumes "0 < L"
  shows "(\<lambda>j. (c + j) mod L) ` {..<L} = {..<L :: nat}"
proof
  show "(\<lambda>j. (c + j) mod L) ` {..<L} \<subseteq> {..<L}" using assms by auto
  show "{..<L} \<subseteq> (\<lambda>j. (c + j) mod L) ` {..<L}"
  proof
    fix i assume i: "i \<in> {..<L}"
    let ?j = "(i + (L - c mod L)) mod L"
    have le: "c mod L \<le> L" using assms by (simp add: less_imp_le)
    have "(c + ?j) mod L = (c + (i + (L - c mod L))) mod L" by (simp add: mod_add_right_eq)
    also have "c + (i + (L - c mod L)) = i + L + c div L * L"
      using le div_mult_mod_eq [of c L] by linarith
    also have "\<dots> mod L = i" using i by simp
    finally have "i = (c + ?j) mod L" by simp
    moreover have "?j < L" using assms by simp
    ultimately show "i \<in> (\<lambda>j. (c + j) mod L) ` {..<L}" by blast
  qed
qed

text \<open>
  Ties rotate fairly: while the pool does not change, every environment that is furthest
  below its target is chosen within as many calls as there are such environments, from whatever
  value of the shared counter, and no other environment is chosen.
\<close>

theorem ties_rotate_fairly:
  assumes "slots \<noteq> []"
  shows "\<exists>picks. bake_picks slots counts c (length (most_behind counts slots)) = Inr picks
    \<and> set picks = set (most_behind counts slots)"
proof -
  let ?best = "most_behind counts slots"
  have ne: "?best \<noteq> []" using assms by (rule most_behind_nonempty)
  show ?thesis
  proof (cases "length ?best = 1")
    case True
    then have "pick_bake_env slots counts c = Inr (?best ! 0, c)"
      using ne assms by (simp add: pick_bake_env_def Let_def tied_most_behind)
    then show ?thesis using True by (cases ?best) auto
  next
    case False
    then have l: "1 < length ?best" using ne by (cases ?best) auto
    have "set (map (\<lambda>j. ?best ! ((c + j) mod length ?best)) [0..<length ?best])
        = (!) ?best ` ((\<lambda>j. (c + j) mod length ?best) ` {..<length ?best})"
      by (auto simp: image_image)
    also have "\<dots> = set ?best"
      using l by (subst rotation_covers) (auto simp: in_set_conv_nth image_iff)
    finally show ?thesis using bake_picks_tied [OF assms l] by simp
  qed
qed

section \<open>Witnesses\<close>

theorem target_slots_exact_and_fair_witness:
  "\<exists>slots. target_slots (record_outcome ''math'' True (MixController [''math'', ''code''] 8 1 (1 / 10))) = Inr slots
    \<and> dkeys slots = [''math'', ''code''] \<and> sum_list (dvalues slots) = 8
    \<and> (\<forall>e \<in> {''math'', ''code''}. 1 \<le> dget slots e 0)"
  using target_slots_exact_and_fair [of "record_outcome ''math'' True (MixController [''math'', ''code''] 8 1 (1 / 10))"]
  by (auto simp: record_outcome_def MixController_def map_of_dict_of)

theorem ties_rotate_fairly_witness:
  "\<exists>picks. bake_picks [(''math'', 4), (''code'', 4)] [] 7 (length (most_behind [] [(''math'', 4), (''code'', 4)])) = Inr picks
    \<and> set picks = set (most_behind [] [(''math'', 4), (''code'', 4)])"
  by (rule ties_rotate_fairly) simp

end
