(* ===== verification/Submitter.thy ===== *)
theory Submitter
  imports Submission Signatures
begin

text \<open>
  \<open>reliquary/miner/submitter.py\<close>: how the miner finds the validator, polls it and pushes a
  submission. An HTTP call is an \<open>attempt\<close>: a transport error of the client library, any other exception, or a response.
  A loop of calls takes the attempts in order, as a function of their number, and returns what it did, calls and
  pauses in order, with its result. The texts of logs and error messages are not modelled; the
  serialisation of a request by the validation library is an argument.
\<close>

section \<open>Calls\<close>

record http_response =
  hr_status :: int
  hr_json :: "json res"

datatype attempt = Failed | Raised py_error | Answered http_response

datatype action = Sent | Slept real

definition RETRY_DELAYS :: "real list" where "RETRY_DELAYS = [1, 2, 4]"
definition VALIDATOR_HTTP_PORT :: int where "VALIDATOR_HTTP_PORT = 8888"

text \<open>What one attempt means to a retry loop: the end of it, or another attempt after a pause.\<close>

datatype 'r verdict_of_attempt = Done "'r res" | Again

text \<open>No pause follows the last attempt; when it fails too, \<open>SubmissionError\<close>.\<close>

fun retry_loop :: "(attempt \<Rightarrow> 'r verdict_of_attempt) \<Rightarrow> (nat \<Rightarrow> attempt) \<Rightarrow> nat \<Rightarrow> real list \<Rightarrow> action list \<times> 'r res" where
  "retry_loop judge calls n [] = ([], Inl SubmissionError)"
| "retry_loop judge calls n (delay # delays) =
     (case judge (calls n) of
        Done r \<Rightarrow> ([Sent], r)
      | Again \<Rightarrow>
          (let (acts, r) = retry_loop judge calls (Suc n) delays
           in (Sent # (if delays = [] then acts else Slept delay # acts), r)))"

definition rejected :: "reject_reason \<Rightarrow> batch_submission_response" where
  "rejected reason = \<lparr> br_accepted = False, br_reason = reason \<rparr>"

text \<open>
  \<open>parse\<close> is \<open>response_model.model_validate\<close>, and \<open>as_reject\<close> is given exactly when the response model is
  \<open>BatchSubmissionResponse\<close>.
\<close>

definition judge_post :: "(json \<Rightarrow> 'r option) \<Rightarrow> (reject_reason \<Rightarrow> 'r) option \<Rightarrow> attempt \<Rightarrow> 'r verdict_of_attempt" where
  "judge_post parse as_reject a =
     (case a of Failed \<Rightarrow> Again | Raised e \<Rightarrow> Done (Inl e)
      | Answered r \<Rightarrow>
          (let s = hr_status r in
           if s = 503 \<and> as_reject \<noteq> None then Done (Inr (the as_reject WINDOW_NOT_ACTIVE))
           else if 400 \<le> s \<and> s < 500 then
             (case as_reject of
                Some rej \<Rightarrow> Done (Inr (rej (if s = 409 then WINDOW_MISMATCH else BAD_PROMPT_IDX)))
              | None \<Rightarrow> Done (Inl SubmissionError))
           else if 500 \<le> s then Again
           else Done (rbind (hr_json r) (\<lambda>v. case parse v of None \<Rightarrow> Inl ValueError | Some x \<Rightarrow> Inr x))))"

definition post_with_retry :: "(json \<Rightarrow> 'r option) \<Rightarrow> (reject_reason \<Rightarrow> 'r) option \<Rightarrow> (nat \<Rightarrow> attempt) \<Rightarrow> action list \<times> 'r res" where
  "post_with_retry parse as_reject calls = retry_loop (judge_post parse as_reject) calls 0 RETRY_DELAYS"

definition judge_get :: "(json \<Rightarrow> 'r option) \<Rightarrow> attempt \<Rightarrow> 'r verdict_of_attempt" where
  "judge_get parse a =
     (case a of Failed \<Rightarrow> Again | Raised e \<Rightarrow> Done (Inl e)
      | Answered r \<Rightarrow>
          (let s = hr_status r in
           if s = 503 then Done (Inl SubmissionError)
           else if s = 404 then Done (Inl SubmissionError)
           else if 400 \<le> s \<and> s < 500 then Done (Inl SubmissionError)
           else if 500 \<le> s then Again
           else Done (rbind (hr_json r) (\<lambda>v. case parse v of None \<Rightarrow> Inl ValueError | Some x \<Rightarrow> Inr x))))"

definition get_with_retry :: "(json \<Rightarrow> 'r option) \<Rightarrow> (nat \<Rightarrow> attempt) \<Rightarrow> action list \<times> 'r res" where
  "get_with_retry parse calls = retry_loop (judge_get parse) calls 0 RETRY_DELAYS"

definition judge_reveal :: "pydantic \<Rightarrow> attempt \<Rightarrow> batch_submission_response verdict_of_attempt" where
  "judge_reveal pd a =
     (case a of Failed \<Rightarrow> Again | Raised e \<Rightarrow> Done (Inl e)
      | Answered r \<Rightarrow>
          (let s = hr_status r in
           if s = 503 then Done (Inr (rejected WINDOW_NOT_ACTIVE))
           else if 400 \<le> s \<and> s < 500 then
             Done (Inr (rejected (if s = 409 then WINDOW_MISMATCH else BAD_PROMPT_IDX)))
           else if 500 \<le> s then Again
           else Done (rbind (hr_json r) (\<lambda>v. case BatchSubmissionResponse pd v of None \<Rightarrow> Inl ValueError | Some x \<Rightarrow> Inr x))))"

definition post_bytes_with_retry :: "pydantic \<Rightarrow> (nat \<Rightarrow> attempt) \<Rightarrow> action list \<times> batch_submission_response res" where
  "post_bytes_with_retry pd calls = retry_loop (judge_reveal pd) calls 0 RETRY_DELAYS"

section \<open>Discovery and addresses\<close>

record axon =
  ax_ip :: "string option"
  ax_port :: "int option"

record metagraph =
  mg_validator_permit :: "bool list option"
  mg_axons :: "axon list option"

fun first_validator :: "int \<Rightarrow> (bool \<times> axon) list \<Rightarrow> string res" where
  "first_validator port [] = Inl NoValidatorFoundError"
| "first_validator port ((permit, ax) # rest) =
     (if \<not> permit then first_validator port rest
      else case ax_ip ax of
          None \<Rightarrow> first_validator port rest
        | Some ip \<Rightarrow>
            if ip = [] \<or> ip \<in> {''0.0.0.0'', []} then first_validator port rest
            else let p = (case ax_port ax of None \<Rightarrow> port | Some q \<Rightarrow> if q = 0 then port else q)
                 in Inr (''http://'' @ ip @ '':'' @ str_int p))"

definition discover_validator_url :: "metagraph \<Rightarrow> int \<Rightarrow> string res" where
  "discover_validator_url mg port =
     (case (mg_validator_permit mg, mg_axons mg) of
        (Some permits, Some axons) \<Rightarrow> first_validator port (zip permits axons)
      | _ \<Rightarrow> Inl NoValidatorFoundError)"

text \<open>\<open>quote(s, safe="")\<close>: a byte is kept when it is an unreserved character, else written \<open>%XX\<close>.\<close>

definition unreserved :: "byte \<Rightarrow> bool" where
  "unreserved b = (let n = unat b in
     (48 \<le> n \<and> n \<le> 57) \<or> (65 \<le> n \<and> n \<le> 90) \<or> (97 \<le> n \<and> n \<le> 122) \<or> n \<in> {45, 46, 95, 126})"

definition upper_hex_digit :: "nat \<Rightarrow> char" where
  "upper_hex_digit n = ''0123456789ABCDEF'' ! n"

definition quote_byte :: "byte \<Rightarrow> string" where
  "quote_byte b =
     (if unreserved b then [char_of (unat b)]
      else [CHR ''%'', upper_hex_digit (unat b div 16), upper_hex_digit (unat b mod 16)])"

definition quote :: "string \<Rightarrow> string" where
  "quote s = concat (map quote_byte (encode s))"

definition build_state_url :: "string \<Rightarrow> string option \<Rightarrow> string" where
  "build_state_url url env =
     (case env of None \<Rightarrow> url @ ''/state'' | Some e \<Rightarrow> url @ ''/state'' @ ''?env='' @ quote e)"

text \<open>\<open>since_text\<close> is Python's text of the cursor.\<close>

definition build_verdicts_url :: "string \<Rightarrow> string \<Rightarrow> string option \<Rightarrow> string" where
  "build_verdicts_url url hk since_text =
     (let base = url @ ''/verdicts/'' @ quote hk in case since_text of None \<Rightarrow> base | Some t \<Rightarrow> base @ ''?since='' @ t)"

section \<open>Polling\<close>

definition fetch_verdicts :: "pydantic \<Rightarrow> attempt \<Rightarrow> verdict list option" where
  "fetch_verdicts pd a =
     (case a of Failed \<Rightarrow> None | Raised e \<Rightarrow> None
      | Answered r \<Rightarrow> if hr_status r \<noteq> 200 then None
          else case hr_json r of Inl e \<Rightarrow> None | Inr v \<Rightarrow> VerdictsResponse pd v)"

definition get_window_state_v2 :: "pydantic \<Rightarrow> (nat \<Rightarrow> attempt) \<Rightarrow> action list \<times> grpo_batch_state res" where
  "get_window_state_v2 pd calls = get_with_retry (GrpoBatchState pd) calls"

definition get_window_state_v2_with_resp :: "pydantic \<Rightarrow> attempt \<Rightarrow> (grpo_batch_state \<times> http_response) res" where
  "get_window_state_v2_with_resp pd a =
     (case a of Failed \<Rightarrow> Inl RequestError | Raised e \<Rightarrow> Inl e
      | Answered r \<Rightarrow>
          if hr_status r = 503 then Inl SubmissionError
          else if hr_status r = 404 then Inl SubmissionError
          else if 400 \<le> hr_status r then Inl SubmissionError
          else rbind (hr_json r) (\<lambda>v. case GrpoBatchState pd v of None \<Rightarrow> Inl ValueError | Some st \<Rightarrow> Inr (st, r)))"

section \<open>The two-phase submission\<close>

text \<open>What goes on the wire: the precommit, the body under its receipt, or the body alone.\<close>

datatype message = Precommit submission_precommit_request | Reveal bytes string | Direct batch_submission_request

text \<open>\<open>dump\<close> is \<open>request.model_dump_json().encode()\<close>.\<close>

definition precommit_binding :: "(bytes \<Rightarrow> bytes) \<Rightarrow> (batch_submission_request \<Rightarrow> bytes)
    \<Rightarrow> batch_submission_request \<Rightarrow> string \<Rightarrow> string \<Rightarrow> precommit" where
  "precommit_binding sha dump req env randomness =
     (let payload = dump req in
      \<lparr> pre_hotkey = bs_miner_hotkey req, pre_window = bs_window_start req, pre_prompt = bs_prompt_idx req,
        pre_merkle_root = bs_merkle_root req, pre_checkpoint = bs_checkpoint_hash req, pre_environment = env,
        pre_payload_bytes = int (length payload), pre_payload_sha256 = hex (sha payload),
        pre_round = bs_drand_round req, pre_randomness = randomness, pre_protocol = bs_protocol_version req,
        pre_nonce = bs_nonce req, pre_profile = bs_generation_profile_id req \<rparr>)"

text \<open>The keyword arguments of the request: every signed field but the randomness, and the signature.\<close>

definition precommit_kwargs :: "precommit \<Rightarrow> string \<Rightarrow> json" where
  "precommit_kwargs p signature = JObj
     [(''miner_hotkey'', JStr (pre_hotkey p)), (''window_start'', JInt (pre_window p)), (''prompt_idx'', JInt (pre_prompt p)),
      (''merkle_root'', JStr (pre_merkle_root p)), (''checkpoint_hash'', JStr (pre_checkpoint p)),
      (''environment'', JStr (pre_environment p)), (''payload_bytes'', JInt (pre_payload_bytes p)),
      (''payload_sha256'', JStr (pre_payload_sha256 p)), (''drand_round'', JInt (pre_round p)),
      (''protocol_version'', JInt (pre_protocol p)), (''nonce'', JStr (pre_nonce p)),
      (''generation_profile_id'', JStr (pre_profile p)), (''precommit_signature'', JStr signature)]"

definition build_precommit :: "pydantic \<Rightarrow> (bytes \<Rightarrow> bytes) \<Rightarrow> keypair_ops option \<Rightarrow> (batch_submission_request \<Rightarrow> bytes)
    \<Rightarrow> batch_submission_request \<Rightarrow> string \<Rightarrow> (bytes \<times> submission_precommit_request) res" where
  "build_precommit pd sha kp dump req randomness =
     (let environments = remdups (map rs_env_name (bs_rollouts req)) in
      if length environments \<noteq> 1 then Inl SubmissionError
      else
        let fields = precommit_binding sha dump req (hd environments) randomness in
        rbind (sign_precommit sha kp fields) (\<lambda>signature.
          case SubmissionPrecommitRequest pd (precommit_kwargs fields (hex signature)) of
            None \<Rightarrow> Inl ValueError
          | Some precommit \<Rightarrow> Inr (dump req, precommit)))"

text \<open>
  The submission returns what it sent, the calls and pauses of the body loop and the result. \<open>pre\<close> is the
  answer to the precommit, which is sent once, \<open>posts\<close> are the answers to \<open>/submit\<close>.
\<close>

definition submit_with_precommit :: "pydantic \<Rightarrow> (bytes \<Rightarrow> bytes) \<Rightarrow> keypair_ops option
    \<Rightarrow> (batch_submission_request \<Rightarrow> bytes) \<Rightarrow> attempt \<Rightarrow> (nat \<Rightarrow> attempt) \<Rightarrow> batch_submission_request \<Rightarrow> string
    \<Rightarrow> message list \<times> action list \<times> batch_submission_response res" where
  "submit_with_precommit pd sha kp dump pre posts req randomness =
     (case build_precommit pd sha kp dump req randomness of
        Inl e \<Rightarrow> ([], [], Inl e)
      | Inr (payload, precommit) \<Rightarrow>
          (case pre of
             Failed \<Rightarrow> ([Precommit precommit], [], Inl RequestError)
           | Raised e \<Rightarrow> ([Precommit precommit], [], Inl e)
           | Answered r \<Rightarrow>
               if hr_status r = 404 then
                 ([Precommit precommit, Direct req], post_with_retry (BatchSubmissionResponse pd) (Some rejected) posts)
               else if 400 \<le> hr_status r then ([Precommit precommit], [], Inl SubmissionError)
               else
                 (case rbind (hr_json r) (\<lambda>v. case SubmissionPrecommitResponse pd v of None \<Rightarrow> Inl ValueError | Some x \<Rightarrow> Inr x) of
                    Inl e \<Rightarrow> ([Precommit precommit], [], Inl e)
                  | Inr verdict \<Rightarrow>
                      if \<not> pp_accepted verdict then ([Precommit precommit], [], Inr (rejected (pp_reason verdict)))
                      else
                        (case pp_receipt_id verdict of
                           None \<Rightarrow> ([Precommit precommit], [], Inl SubmissionError)
                         | Some receipt \<Rightarrow>
                             if receipt = [] then ([Precommit precommit], [], Inl SubmissionError)
                             else ([Precommit precommit, Reveal payload receipt], post_bytes_with_retry pd posts)))))"

text \<open>Without a wallet or without randomness the body is posted at once.\<close>

definition submit_batch_v2 :: "pydantic \<Rightarrow> (bytes \<Rightarrow> bytes) \<Rightarrow> keypair_ops option option
    \<Rightarrow> (batch_submission_request \<Rightarrow> bytes) \<Rightarrow> attempt \<Rightarrow> (nat \<Rightarrow> attempt) \<Rightarrow> batch_submission_request \<Rightarrow> string option
    \<Rightarrow> message list \<times> action list \<times> batch_submission_response res" where
  "submit_batch_v2 pd sha wallet dump pre posts req randomness =
     (case (wallet, randomness) of
        (Some kp, Some rand) \<Rightarrow> submit_with_precommit pd sha kp dump pre posts req rand
      | _ \<Rightarrow> ([Direct req], post_with_retry (BatchSubmissionResponse pd) (Some rejected) posts))"

section \<open>Retrying\<close>

text \<open>
  An attempt after which a loop tries again: a transport error, or a status of 500 or more that is not one of the statuses the
  loop takes for an answer. What the loops make of any other attempt is a table from statuses to results; a status outside the
  table is an answer whose body is parsed.
\<close>

definition transient :: "int set \<Rightarrow> attempt \<Rightarrow> bool" where
  "transient final a =
     (case a of Failed \<Rightarrow> True | Raised e \<Rightarrow> False | Answered r \<Rightarrow> 500 \<le> hr_status r \<and> hr_status r \<notin> final)"

definition submit_table :: "(reject_reason \<Rightarrow> 'r) \<Rightarrow> int \<Rightarrow> 'r res option" where
  "submit_table rej s =
     (if s = 503 then Some (Inr (rej WINDOW_NOT_ACTIVE)) else if s = 409 then Some (Inr (rej WINDOW_MISMATCH))
      else if s \<in> {400..499} then Some (Inr (rej BAD_PROMPT_IDX)) else None)"

definition error_table :: "int set \<Rightarrow> int \<Rightarrow> 'r res option" where
  "error_table final s = (if s \<in> final \<union> {400..499} then Some (Inl SubmissionError) else None)"

definition answer_of :: "(int \<Rightarrow> 'r res option) \<Rightarrow> (json \<Rightarrow> 'r option) \<Rightarrow> attempt \<Rightarrow> 'r res" where
  "answer_of table parse a =
     (case a of Failed \<Rightarrow> Inl SubmissionError | Raised e \<Rightarrow> Inl e
      | Answered r \<Rightarrow> (case table (hr_status r) of Some x \<Rightarrow> x
          | None \<Rightarrow> rbind (hr_json r) (\<lambda>v. case parse v of None \<Rightarrow> Inl ValueError | Some x \<Rightarrow> Inr x)))"

text \<open>
  An exchange over such attempts: \<open>k\<close> transient ones, each followed by its pause, then the one that ends it; or three transient
  ones and a submission error.
\<close>

definition exchange :: "int set \<Rightarrow> (attempt \<Rightarrow> 'r res) \<Rightarrow> (nat \<Rightarrow> attempt) \<Rightarrow> action list \<times> 'r res \<Rightarrow> bool" where
  "exchange final ans calls out =
     (\<exists>k \<le> 2. (\<forall>m<k. transient final (calls m)) \<and> fst out = take (2 * k + 1) [Sent, Slept 1, Sent, Slept 2, Sent]
        \<and> (if transient final (calls k) then k = 2 \<and> snd out = Inl SubmissionError else snd out = ans (calls k)))"

lemma retry_exchange:
  assumes judge: "\<And>a. judge a = (if transient final a then Again else Done (ans a))"
  shows "exchange final ans calls (retry_loop judge calls 0 RETRY_DELAYS)"
proof -
  let ?t = "\<lambda>n. transient final (calls n)"
  consider "\<not> ?t 0" | "?t 0" "\<not> ?t 1" | "?t 0" "?t 1" by blast
  then show ?thesis
  proof cases
    case 1
    then show ?thesis unfolding exchange_def
      by (intro exI [of _ 0]) (simp add: RETRY_DELAYS_def judge)
  next
    case 2
    then show ?thesis unfolding exchange_def
      by (intro exI [of _ 1]) (simp add: RETRY_DELAYS_def judge)
  next
    case 3
    then show ?thesis unfolding exchange_def
      by (intro exI [of _ 2]) (simp add: RETRY_DELAYS_def judge All_less_Suc numeral_eq_Suc)
  qed
qed

lemma judge_post_cases:
  "judge_post parse (Some rej) a = (if transient {503} a then Again else Done (answer_of (submit_table rej) parse a))"
  "judge_post parse None a = (if transient {} a then Again else Done (answer_of (error_table {}) parse a))"
  by (auto simp: judge_post_def transient_def answer_of_def submit_table_def error_table_def Let_def split: attempt.split)

lemma judge_get_cases:
  "judge_get parse a = (if transient {503} a then Again else Done (answer_of (error_table {503}) parse a))"
  by (auto simp: judge_get_def transient_def answer_of_def error_table_def Let_def split: attempt.split)

lemma judge_reveal_cases:
  "judge_reveal pd a = (if transient {503} a then Again else Done (answer_of (submit_table rejected) (BatchSubmissionResponse pd) a))"
  by (auto simp: judge_reveal_def transient_def answer_of_def submit_table_def Let_def split: attempt.split)

text \<open>
  C38. Every exchange ends, and only transient failures are retried. Posting a submission, posting anything else, polling the state and revealing a
  body each make at most three calls: after a transport error or a server error the loop pauses, one second the first
  time and two the second, and calls again, and after the third it gives up without a pause, with a submission error. A client error, \<open>503\<close> where it
  means that no window is open, and any other exception are final: the first such attempt is the last
  call, and its result is the one the table gives: a rejection for a submission, a submission error for a poll.
\<close>

theorem exchanges_end:
  "exchange {503} (answer_of (submit_table rej) parse) calls (post_with_retry parse (Some rej) calls)
   \<and> exchange {} (answer_of (error_table {}) parse) calls (post_with_retry parse None calls)
   \<and> exchange {503} (answer_of (error_table {503}) parse) calls (get_with_retry parse calls)
   \<and> exchange {503} (answer_of (submit_table rejected) (BatchSubmissionResponse pd)) calls (post_bytes_with_retry pd calls)"
  unfolding post_with_retry_def get_with_retry_def post_bytes_with_retry_def
  by (intro conjI retry_exchange judge_post_cases judge_get_cases judge_reveal_cases)

theorem exchanges_end_witness:
  "let status = (\<lambda>s. Answered \<lparr> hr_status = s, hr_json = Inl ValueError \<rparr>); calls = (!) [Failed, status 409, status 500] in
     get_with_retry (\<lambda>v. Some v) calls = ([Sent, Slept 1, Sent], Inl SubmissionError)
   \<and> post_with_retry (\<lambda>v. Some v) None (\<lambda>n. status 503) = ([Sent, Slept 1, Sent, Slept 2, Sent], Inl SubmissionError)"
proof -
  define status where "status = (\<lambda>s. Answered \<lparr> hr_status = s, hr_json = Inl ValueError \<rparr>)"
  define calls where "calls = (!) [Failed, status 409, status 500]"
  have t: "transient {503} (calls 0)" "\<not> transient {503} (calls 1)" "transient {} (status 503)"
    by (simp_all add: calls_def status_def transient_def)
  have "exchange {503} (answer_of (error_table {503}) (\<lambda>v. Some v)) calls (get_with_retry (\<lambda>v. Some v) calls)"
    "exchange {} (answer_of (error_table {}) (\<lambda>v. Some v)) (\<lambda>n. status 503) (post_with_retry (\<lambda>v. Some v) None (\<lambda>n. status 503))"
    using exchanges_end [where parse = "\<lambda>v. Some v"] by blast+
  then have "get_with_retry (\<lambda>v. Some v) calls = ([Sent, Slept 1, Sent], Inl SubmissionError)"
    "post_with_retry (\<lambda>v. Some v) None (\<lambda>n. status 503) = ([Sent, Slept 1, Sent, Slept 2, Sent], Inl SubmissionError)"
    using t by (auto simp: exchange_def answer_of_def error_table_def calls_def status_def prod_eq_iff le_Suc_eq numeral_2_eq_2 split: if_splits)
  then show ?thesis by (simp add: status_def calls_def Let_def)
qed

section \<open>What is revealed\<close>

text \<open>The binding a validator rebuilds from a precommit it received and its own window randomness.\<close>

definition rebuilt_binding :: "submission_precommit_request \<Rightarrow> string \<Rightarrow> precommit" where
  "rebuilt_binding p randomness =
     \<lparr> pre_hotkey = pr_miner_hotkey p, pre_window = pr_window_start p, pre_prompt = pr_prompt_idx p,
       pre_merkle_root = pr_merkle_root p, pre_checkpoint = pr_checkpoint_hash p, pre_environment = pr_environment p,
       pre_payload_bytes = pr_payload_bytes p, pre_payload_sha256 = pr_payload_sha256 p, pre_round = pr_drand_round p,
       pre_randomness = randomness, pre_protocol = pr_protocol_version p, pre_nonce = pr_nonce p,
       pre_profile = pr_generation_profile_id p \<rparr>"

lemma precommit_kwargs_kept:
  assumes "pydantic_lawful pd" and "SubmissionPrecommitRequest pd (precommit_kwargs p s) = Some q"
  shows "rebuilt_binding q (pre_randomness p) = p \<and> pr_signature q = s"
  using assms
  by (auto simp: SubmissionPrecommitRequest_def precommit_kwargs_def as_model_Some required_def optional_def p_nonneg_def
      p_hex64_def p_str_def p_str_between_def pydantic_lawful_def rebuilt_binding_def)

lemma build_precommit_sound:
  assumes "pydantic_lawful pd" and "build_precommit pd sha kp dump req rand = Inr (payload, q)"
  shows "payload = dump req \<and> pr_payload_sha256 q = hex (sha payload) \<and> pr_payload_bytes q = int (length payload)
    \<and> (\<exists>sig. sign_precommit sha kp (rebuilt_binding q rand) = Inr sig \<and> pr_signature q = hex sig)"
proof -
  obtain env sig where payload: "payload = dump req"
    and sig: "sign_precommit sha kp (precommit_binding sha dump req env rand) = Inr sig"
    and q: "SubmissionPrecommitRequest pd (precommit_kwargs (precommit_binding sha dump req env rand) (hex sig)) = Some q"
    using assms(2) by (auto simp: build_precommit_def Let_def rbind_eq_Inr split: if_splits option.splits)
  have "pre_randomness (precommit_binding sha dump req env rand) = rand" by (simp add: precommit_binding_def Let_def)
  then have kept: "rebuilt_binding q rand = precommit_binding sha dump req env rand" "pr_signature q = hex sig"
    using precommit_kwargs_kept [OF assms(1) q] by simp_all
  have "pr_payload_sha256 q = hex (sha payload) \<and> pr_payload_bytes q = int (length payload)"
    using arg_cong [OF kept(1), of pre_payload_sha256] arg_cong [OF kept(1), of pre_payload_bytes] payload
    by (simp add: rebuilt_binding_def precommit_binding_def Let_def)
  with payload sig kept show ?thesis by simp
qed

text \<open>
  A body goes out only under the receipt of its own commitment: when a submission reveals
  bytes, the message before it was one precommit, whose digest and length are those of the
  bytes, whose signature is the miner's over the binding that a validator rebuilds from the
  request and the same randomness, and the receipt is not empty. The bytes are the request's
  one serialisation.
\<close>

theorem revealed_body_is_committed:
  assumes "pydantic_lawful pd"
    and "submit_batch_v2 pd sha wallet dump pre posts req randomness = (msgs, acts, r)"
    and "Reveal body receipt \<in> set msgs"
  shows "\<exists>q kp rand sig. msgs = [Precommit q, Reveal body receipt] \<and> receipt \<noteq> [] \<and> body = dump req
    \<and> pr_payload_sha256 q = hex (sha body) \<and> pr_payload_bytes q = int (length body)
    \<and> wallet = Some kp \<and> randomness = Some rand
    \<and> sign_precommit sha kp (rebuilt_binding q rand) = Inr sig \<and> pr_signature q = hex sig"
proof -
  obtain kp rand where w: "wallet = Some kp" "randomness = Some rand"
    "submit_with_precommit pd sha kp dump pre posts req rand = (msgs, acts, r)"
    using assms(2,3) by (auto simp: submit_batch_v2_def split: option.splits)
  then obtain q where q: "build_precommit pd sha kp dump req rand = Inr (body, q)" "receipt \<noteq> []"
    "msgs = [Precommit q, Reveal body receipt]"
    using assms(3) by (auto simp: submit_with_precommit_def Let_def split: sum.splits attempt.splits if_splits option.splits)
  show ?thesis using build_precommit_sound [OF assms(1) q(1)] q w by auto
qed

definition sample_request :: batch_submission_request where
  "sample_request =
     \<lparr> bs_miner_hotkey = ''5F'', bs_prompt_idx = 3, bs_window_start = 7, bs_merkle_root = replicate 64 (CHR ''a''),
       bs_rollouts = [\<lparr> rs_tokens = [1], rs_reward = Fin 1, rs_commit = [], rs_env_name = ''m'' \<rparr>],
       bs_checkpoint_hash = [], bs_drand_round = 9, bs_nonce = ''n'', bs_envelope_signature = [],
       bs_protocol_version = 2, bs_generation_profile_id = ''p'' \<rparr>"

definition plain_pydantic :: pydantic where
  "plain_pydantic =
     \<lparr> pyd_int = (\<lambda>v. case v of JInt i \<Rightarrow> Some i | _ \<Rightarrow> None), pyd_float = (\<lambda>v. case v of JFloat x \<Rightarrow> Some x | _ \<Rightarrow> None),
       pyd_bool = (\<lambda>v. case v of JBool b \<Rightarrow> Some b | _ \<Rightarrow> None) \<rparr>"

definition plain_keys :: keypair_ops where
  "plain_keys = \<lparr> kp_sign = (\<lambda>m. take 8 m), kp_verify = (\<lambda>h m s. Inr (s = take 8 m)) \<rparr>"

definition sample_submission :: "message list \<times> action list \<times> batch_submission_response res" where
  "sample_submission = submit_batch_v2 plain_pydantic (\<lambda>m. replicate 32 (word_of_nat (length m))) (Some (Some plain_keys))
     (\<lambda>r. [1, 2, 3])
     (Answered \<lparr> hr_status = 200, hr_json = Inr (JObj [(''accepted'', JBool True), (''reason'', JStr ''accepted''),
                                                   (''receipt_id'', JStr ''r1'')]) \<rparr>)
     (\<lambda>n. Failed) sample_request (Some ''01'')"

theorem revealed_body_is_committed_witness:
  "\<exists>q. fst sample_submission = [Precommit q, Reveal [1, 2, 3] ''r1''] \<and> pr_payload_bytes q = 3"
proof -
  have "case fst sample_submission of [Precommit q, Reveal b rc] \<Rightarrow> b = [1, 2, 3] \<and> rc = ''r1'' | _ \<Rightarrow> False"
    by code_simp
  then have "\<exists>q. fst sample_submission = [Precommit q, Reveal [1, 2, 3] ''r1'']"
    by (cases "fst sample_submission"; cases "tl (fst sample_submission)"; cases "tl (tl (fst sample_submission))")
      (auto split: message.split_asm)
  then obtain q where q: "fst sample_submission = [Precommit q, Reveal [1, 2, 3] ''r1'']" by blast
  then obtain pauses r where s: "sample_submission = ([Precommit q, Reveal [1, 2, 3] ''r1''], pauses, r)"
    by (metis prod.collapse)
  have "pydantic_lawful plain_pydantic" by (simp add: pydantic_lawful_def plain_pydantic_def)
  then have "pr_payload_bytes q = 3"
    using revealed_body_is_committed [OF _ s [unfolded sample_submission_def], of "[1, 2, 3]" "''r1''"] by auto
  with q show ?thesis by blast
qed

section \<open>Addresses\<close>

lemma upper_hex_table:
  "list_all (\<lambda>n. hex_value (upper_hex_digit n) = Some n) [0..<16]"
  by code_simp

lemma upper_hex_inj: "m < 16 \<Longrightarrow> n < 16 \<Longrightarrow> upper_hex_digit m = upper_hex_digit n \<Longrightarrow> m = n"
proof -
  assume mn: "m < 16" "n < 16" "upper_hex_digit m = upper_hex_digit n"
  have "hex_value (upper_hex_digit k) = Some k" if "k < 16" for k
    using upper_hex_table that unfolding list_all_iff by simp
  then have "Some m = Some n" using mn by metis
  then show ?thesis by simp
qed

lemma of_char_byte: "(of_char (char_of (unat (b :: byte))) :: nat) = unat b"
  using unsigned_less [of b, where ?'a = nat] by simp

lemma unreserved_not_percent: "unreserved b \<Longrightarrow> char_of (unat b) \<noteq> CHR ''%''"
proof
  assume u: "unreserved b" and "char_of (unat b) = CHR ''%''"
  then have "unat b = (of_char (CHR ''%'') :: nat)" using of_char_byte [of b] by metis
  with u show False by (auto simp: unreserved_def Let_def)
qed

lemma byte_of_digits: "unat (b :: byte) div 16 = unat c div 16 \<Longrightarrow> unat b mod 16 = unat c mod 16 \<Longrightarrow> b = c"
  by (metis div_mult_mod_eq word_unat_eq_iff)

lemma quote_byte_cut: "quote_byte b @ s = quote_byte c @ t \<Longrightarrow> b = c \<and> s = t"
proof -
  assume eq: "quote_byte b @ s = quote_byte c @ t"
  consider "unreserved b" "unreserved c" | "unreserved b" "\<not> unreserved c" | "\<not> unreserved b" "unreserved c"
    | "\<not> unreserved b" "\<not> unreserved c" by blast
  then show ?thesis
  proof cases
    case 1
    with eq have "char_of (unat b) = (char_of (unat c) :: char)" "s = t" by (simp_all add: quote_byte_def)
    then show ?thesis by (metis of_char_byte word_unat_eq_iff)
  next
    case 2
    with eq show ?thesis using unreserved_not_percent [of b] by (simp add: quote_byte_def)
  next
    case 3
    with eq show ?thesis using unreserved_not_percent [of c] by (simp add: quote_byte_def)
  next
    case 4
    with eq have "upper_hex_digit (unat b div 16) = upper_hex_digit (unat c div 16)"
      "upper_hex_digit (unat b mod 16) = upper_hex_digit (unat c mod 16)" "s = t" by (simp_all add: quote_byte_def)
    then show ?thesis
      using upper_hex_inj [OF unat_byte_split(1) unat_byte_split(1)] upper_hex_inj [OF unat_byte_split(2) unat_byte_split(2)]
      by (auto intro!: byte_of_digits)
  qed
qed

interpretation pct: prefix_code_nonempty "\<lambda>_. True" quote_byte
proof unfold_locales
  show "quote_byte b @ s = quote_byte c @ t \<Longrightarrow> b = c \<and> s = t" for b c s t by (rule quote_byte_cut)
  show "quote_byte b \<noteq> []" for b by (simp add: quote_byte_def)
qed

lemma quote_inj: "quote s = quote t \<Longrightarrow> s = t"
  unfolding quote_def
  by (rule encode_inj, rule pct.concat_inj) (auto simp: list_all_iff)

text \<open>
  Addresses do not collide. The state addresses of two environments of one validator are
  equal only when the environments are, the address without an environment equals none of
  them, and the verdict addresses of two hotkeys without a cursor are equal only when the
  hotkeys are.
\<close>

theorem addresses_do_not_collide:
  "(build_state_url url a = build_state_url url b) = (a = b)
   \<and> (build_verdicts_url url h None = build_verdicts_url url k None) = (h = k)"
  by (auto simp: build_state_url_def build_verdicts_url_def dest: quote_inj split: option.splits)

end
