(* ===== verification/Selection.thy ===== *)
theory Selection
  imports Verifier Bft "HOL-Library.Product_Lexorder"
begin

text \<open>
  The decisions of the miner that need no model: \<open>reliquary/miner/zone.py\<close> and, from
  \<open>reliquary/miner/engine.py\<close>, the zone filter, the end-of-sequence predicates, the alarm for
  silent failures, the choice of a prompt and the composition of a group of eight rollouts.
  Rewards are finite floats (every environment of the repository returns a number between 0 and
  1); \<open>float(s)\<close> of an environment variable is an argument. The random generator is the sequence of its draws.
\<close>

section \<open>The zone\<close>

definition ZONE_THRESHOLD_STEADY :: real where "ZONE_THRESHOLD_STEADY = 43 / 100"
definition ZONE_THRESHOLD_BOOTSTRAP :: real where "ZONE_THRESHOLD_BOOTSTRAP = 33 / 100"
definition VALIDATOR_STEADY_SIGMA_MIN :: real where "VALIDATOR_STEADY_SIGMA_MIN = 43 / 100"

definition population_std :: "real list \<Rightarrow> real" where
  "population_std rewards = (if rewards = [] then 0 else sqrt (variance rewards))"

definition zone_is_in_zone :: "real list \<Rightarrow> bool \<Rightarrow> bool" where
  "zone_is_in_zone rewards bootstrap =
     ((if bootstrap then ZONE_THRESHOLD_BOOTSTRAP else ZONE_THRESHOLD_STEADY) \<le> population_std rewards)"

definition std :: "real list \<Rightarrow> real" where
  "std xs = (if length xs = 0 then 0
     else let m = sum_list xs / of_nat (length xs) in sqrt (sum_list (map (\<lambda>x. (x - m) ^ 2) xs) / of_nat (length xs)))"

definition skip_for_out_of_zone :: "(string \<Rightarrow> pyfloat res) \<Rightarrow> environ \<Rightarrow> real list \<Rightarrow> bool" where
  "skip_for_out_of_zone float_of env rewards =
     (let threshold = (case map_of env ''RELIQUARY_ZONE_SIGMA_MIN'' of
          None \<Rightarrow> Fin VALIDATOR_STEADY_SIGMA_MIN
        | Some raw \<Rightarrow> (case float_of raw of Inr t \<Rightarrow> t | Inl _ \<Rightarrow> Fin VALIDATOR_STEADY_SIGMA_MIN))
      in pf_lt (rewards_std (map Fin rewards)) threshold)"

section \<open>End of sequence\<close>

definition validator_termination_ok :: "int list \<Rightarrow> int set \<Rightarrow> bool" where
  "validator_termination_ok completion eos =
     (if completion = [] \<or> eos = {} then False
      else let positions = filter (\<lambda>i. completion ! i \<in> eos) [0..<length completion] in
           positions \<noteq> [] \<and> length positions = 1 \<and> hd positions = length completion - 1)"

fun cut_loop :: "int set \<Rightarrow> int list \<Rightarrow> (nat \<times> int) list \<Rightarrow> int list" where
  "cut_loop eos tokens [] = tokens"
| "cut_loop eos tokens ((i, tok) # rest) = (if tok \<in> eos then take (i + 1) tokens else cut_loop eos tokens rest)"

definition truncate_at_first_eos :: "int list \<Rightarrow> int set \<Rightarrow> int list" where
  "truncate_at_first_eos completion eos =
     (if eos = {} then completion else cut_loop eos completion (enumerate 0 completion))"

definition max_truncated_allowed :: "environ \<Rightarrow> int" where
  "max_truncated_allowed env =
     (case map_of env ''RELIQUARY_MAX_TRUNCATED_CODE'' of None \<Rightarrow> 0
      | Some raw \<Rightarrow> (case py_int raw of Inl _ \<Rightarrow> 0 | Inr v \<Rightarrow> if 0 \<le> v then v else 0))"

definition too_many_truncated :: "int \<Rightarrow> int \<Rightarrow> string option \<Rightarrow> environ \<Rightarrow> bool" where
  "too_many_truncated n_total n_terminated env_name env =
     (if bft_applicable env_name then n_terminated = 0
      else max_truncated_allowed env < n_total - n_terminated)"

section \<open>The alarm for silent failures\<close>

record drop_tracker =
  dt_min_sample :: int
  dt_alert_ratio :: real
  dt_n :: int
  dt_by_reason :: "(string, int) dict"

definition TECHNICAL :: "string list" where "TECHNICAL = [''termination'', ''schema'', ''truncated'']"

definition DropTracker :: "int \<Rightarrow> real \<Rightarrow> drop_tracker" where
  "DropTracker min_sample alert_ratio =
     \<lparr> dt_min_sample = min_sample, dt_alert_ratio = alert_ratio, dt_n = 0, dt_by_reason = [] \<rparr>"

definition drop_reset :: "drop_tracker \<Rightarrow> drop_tracker" where
  "drop_reset t = t \<lparr> dt_n := 0, dt_by_reason := [] \<rparr>"

fun technical_cause :: "drop_tracker \<Rightarrow> string list \<Rightarrow> string option" where
  "technical_cause t [] = None"
| "technical_cause t (cause # causes) =
     (if dt_alert_ratio t * of_int (dt_n t) \<le> of_int (dget (dt_by_reason t) cause 0) then Some cause
      else technical_cause t causes)"

text \<open>The message is the cause it names.\<close>

definition record_drop :: "bool \<Rightarrow> string option \<Rightarrow> drop_tracker \<Rightarrow> drop_tracker \<times> string option" where
  "record_drop dropped reason t =
     (if \<not> dropped then (drop_reset t, None)
      else
        let t1 = t \<lparr> dt_n := dt_n t + 1,
              dt_by_reason := (case reason of None \<Rightarrow> dt_by_reason t
                 | Some r \<Rightarrow> if r = [] then dt_by_reason t else dset r (dget (dt_by_reason t) r 0 + 1) (dt_by_reason t)) \<rparr>
        in if dt_n t1 < dt_min_sample t1 then (t1, None)
           else (drop_reset t1, technical_cause t1 TECHNICAL))"

section \<open>Choosing a prompt\<close>

record prompt_source =
  so_len :: int
  so_eligible :: "int list option"

record rng_draws =
  rd_randrange :: "nat \<Rightarrow> int \<Rightarrow> int"
  rd_choice :: "int list \<Rightarrow> int"

definition draws_lawful :: "rng_draws \<Rightarrow> bool" where
  "draws_lawful rd = ((\<forall>n b. 0 < b \<longrightarrow> 0 \<le> rd_randrange rd n b \<and> rd_randrange rd n b < b)
     \<and> (\<forall>xs. xs \<noteq> [] \<longrightarrow> rd_choice rd xs \<in> set xs))"

text \<open>\<open>for _ in range(max_attempts)\<close>: the first of the drawn candidates that is not in cooldown.\<close>

fun draw_loop :: "int set \<Rightarrow> (nat \<Rightarrow> int) \<Rightarrow> nat \<Rightarrow> nat \<Rightarrow> int res" where
  "draw_loop cooldown candidate n 0 = Inl RuntimeError"
| "draw_loop cooldown candidate n (Suc attempts) =
     (if candidate n \<notin> cooldown then Inr (candidate n) else draw_loop cooldown candidate (Suc n) attempts)"

definition choose_eligible :: "rng_draws \<Rightarrow> int list \<Rightarrow> int res" where
  "choose_eligible rd eligible = (if eligible = [] then Inl RuntimeError else Inr (rd_choice rd eligible))"

definition pick_whole :: "rng_draws \<Rightarrow> int set \<Rightarrow> nat \<Rightarrow> int \<Rightarrow> int \<Rightarrow> int res" where
  "pick_whole rd cooldown max_attempts lo hi =
     (let span = hi - lo in
      if 2 * int (card cooldown) < span
      then draw_loop cooldown (\<lambda>n. lo + rd_randrange rd n span) 0 max_attempts
      else choose_eligible rd (filter (\<lambda>i. i \<notin> cooldown) [lo..hi - 1]))"

definition pick_from_pool :: "rng_draws \<Rightarrow> int set \<Rightarrow> nat \<Rightarrow> int list \<Rightarrow> int res" where
  "pick_from_pool rd cooldown max_attempts pool =
     (let n_pool = int (length pool) in
      if 2 * int (card cooldown) < n_pool
      then draw_loop cooldown (\<lambda>n. pool ! nat (rd_randrange rd n n_pool)) 0 max_attempts
      else choose_eligible rd (filter (\<lambda>i. i \<notin> cooldown) pool))"

definition pick_prompt_idx :: "prompt_source \<Rightarrow> int set \<Rightarrow> rng_draws \<Rightarrow> nat \<Rightarrow> (int \<times> int) option \<Rightarrow> int res" where
  "pick_prompt_idx env cooldown rd max_attempts prompt_range =
     (let n = so_len env;
          (lo, hi) = (case prompt_range of None \<Rightarrow> (0, n) | Some (a, b) \<Rightarrow> (max 0 a, min n b)) in
      if prompt_range \<noteq> None \<and> hi - lo \<le> 0 then Inl RuntimeError
      else case so_eligible env of
          None \<Rightarrow> pick_whole rd cooldown max_attempts lo hi
        | Some pool \<Rightarrow>
            (let confined = filter (\<lambda>i. lo \<le> i \<and> i < hi) pool;
                 pool1 = (if prompt_range = None then pool
                          else if confined \<noteq> [] then confined else [lo..hi - 1])
             in pick_from_pool rd cooldown max_attempts pool1))"

section \<open>Composing a group\<close>

text \<open>A generated rollout with what its forward pass gave, as the pool keeps it.\<close>

record baked =
  bk_all_tokens :: "int list"
  bk_prompt_length :: nat
  bk_completion_text :: string
  bk_hidden :: "pyfloat list list"
  bk_token_logprobs :: "pyfloat list"
  bk_reward :: real
  bk_in_eos :: bool
  bk_p_stop :: "real option"
  bk_q10 :: "real option"
  bk_median :: "real option"
  bk_bt_ok :: bool
  bk_forced :: bool
  bk_force_span :: "(nat \<times> nat) option"

text \<open>The settings that the module reads from the process environment.\<close>

record knobs =
  kn_k_min :: int
  kn_k_max :: int
  kn_max_non_btok :: int
  kn_max_phases :: int
  kn_drop_btok0 :: bool
  kn_min_q10 :: real
  kn_min_median :: real
  kn_sigma_margin :: real
  kn_eos_floor :: real

text \<open>\<open>number\<close> is \<open>float\<close> of a text that denotes a finite float.\<close>

definition load_knobs :: "(string \<Rightarrow> real res) \<Rightarrow> environ \<Rightarrow> knobs res" where
  "load_knobs number env =
     rbind (py_int (dget env ''RELIQUARY_K_MIN'' ''3'')) (\<lambda>k_min.
     rbind (py_int (dget env ''RELIQUARY_K_MAX'' ''5'')) (\<lambda>k_max.
     rbind (py_int (dget env ''RELIQUARY_MAX_NON_BTOK_IN_SUBMISSION'' ''0'')) (\<lambda>non_bt.
     rbind (py_int (dget env ''RELIQUARY_MAX_PHASES'' ''3'')) (\<lambda>phases.
     rbind (number (dget env ''RELIQUARY_MIN_LOCAL_Q10'' ''0.0'')) (\<lambda>q10.
     rbind (number (dget env ''RELIQUARY_MIN_LOCAL_MEDIAN'' ''0.0'')) (\<lambda>med.
     rbind (number (dget env ''RELIQUARY_EOS_LOGPROB_FLOOR'' ''0.0'')) (\<lambda>flr.
     rbind (number (dget env ''RELIQUARY_CODE_SIGMA_MARGIN'' ''0.03'')) (\<lambda>margin.
     Inr \<lparr> kn_k_min = k_min, kn_k_max = k_max, kn_max_non_btok = non_bt, kn_max_phases = phases,
           kn_drop_btok0 = (dget env ''RELIQUARY_DROP_BTOK0_PHASE1'' ''1'' = ''1''), kn_min_q10 = q10,
           kn_min_median = med, kn_sigma_margin = margin, kn_eos_floor = flr \<rparr>))))))))"

definition terminating_rollouts :: "baked list \<Rightarrow> string option \<Rightarrow> baked list" where
  "terminating_rollouts rollouts env_name = (if bft_applicable env_name then rollouts else filter bk_in_eos rollouts)"

text \<open>\<open>int(t).to_bytes(4, "big", signed=False)\<close> of every token; the hash is \<open>sha\<close>.\<close>

definition token_digest :: "(bytes \<Rightarrow> bytes) \<Rightarrow> baked \<Rightarrow> bytes res" where
  "token_digest sha r = rbind (traverse (to_bytes_be 4) (bk_all_tokens r)) (\<lambda>bs. Inr (sha (concat bs)))"

fun dedupe :: "(bytes \<Rightarrow> bytes) \<Rightarrow> baked list \<Rightarrow> bytes list \<Rightarrow> baked list \<Rightarrow> baked list res" where
  "dedupe sha [] seen out = Inr out"
| "dedupe sha (r # rs) seen out =
     rbind (token_digest sha r) (\<lambda>h.
       if h \<notin> set seen then dedupe sha rs (h # seen) (out @ [r]) else dedupe sha rs seen out)"

definition passes_local_dist :: "knobs \<Rightarrow> baked \<Rightarrow> bool" where
  "passes_local_dist kn r =
     (let low = (\<lambda>v bound. 0 < bound \<and> (case v of None \<Rightarrow> True | Some x \<Rightarrow> x < (bound :: real))) in
      \<not> low (bk_q10 r) (kn_min_q10 kn) \<and> \<not> low (bk_median r) (kn_min_median kn))"

definition select_continuous_subset :: "baked list \<Rightarrow> nat \<Rightarrow> real \<Rightarrow> baked list option" where
  "select_continuous_subset rollouts n sigma_target =
     (if length rollouts < n then None
      else
        let ordered = sort_key bk_reward rollouts; lo = n div 2; hi = n - lo;
            chosen = take lo ordered @ drop (length ordered - hi) ordered
        in if sigma_target \<le> std (map bk_reward chosen) then Some chosen else None)"

definition or_zero :: "real option \<Rightarrow> real" where
  "or_zero v = (case v of None \<Rightarrow> 0 | Some x \<Rightarrow> x)"

definition bt_key :: "baked \<Rightarrow> real \<times> real" where
  "bt_key r = (- or_zero (bk_q10 r), - or_zero (bk_p_stop r))"

definition nonbt_key :: "baked \<Rightarrow> int \<times> real" where
  "nonbt_key r = (- (if bk_in_eos r then 1 else 0), - or_zero (bk_p_stop r))"

definition k_order :: "knobs \<Rightarrow> int list" where
  "k_order kn = (let mid = (kn_k_min kn + kn_k_max kn) div 2 in sort_key (\<lambda>k. \<bar>k - mid\<bar>) [kn_k_min kn..kn_k_max kn])"

definition non_bt_count :: "baked list \<Rightarrow> int" where
  "non_bt_count chosen = int (length (filter (\<lambda>r. \<not> bk_bt_ok r) chosen))"

text \<open>Rollouts with one reward, the well-terminated ones first.\<close>

definition fill_from :: "baked list \<Rightarrow> baked list \<Rightarrow> int \<Rightarrow> baked list" where
  "fill_from bt nbt k =
     (let used = py_slice_to bt k in if int (length used) < k then used @ py_slice_to nbt (k - int (length used)) else used)"

fun compose_loop :: "int \<Rightarrow> baked list \<Rightarrow> baked list \<Rightarrow> baked list \<Rightarrow> baked list \<Rightarrow> int list \<Rightarrow> (baked list \<times> int) option" where
  "compose_loop max_non_bt cb cn wb wn [] = None"
| "compose_loop max_non_bt cb cn wb wn (k # ks) =
     (let wrong_n = M_ROLLOUTS - k in
      if int (length cb) + int (length cn) < k \<or> int (length wb) + int (length wn) < wrong_n
      then compose_loop max_non_bt cb cn wb wn ks
      else
        let chosen = fill_from cb cn k @ fill_from wb wn wrong_n; n_non_bt = non_bt_count chosen in
        if max_non_bt < n_non_bt \<or> M_ROLLOUTS - n_non_bt < M_ROLLOUTS - max_non_bt
        then compose_loop max_non_bt cb cn wb wn ks else Some (chosen, k))"

definition with_reward :: "real \<Rightarrow> baked list \<Rightarrow> baked list" where
  "with_reward x rs = filter (\<lambda>r. bk_reward r = x) rs"

definition try_select :: "(bytes \<Rightarrow> bytes) \<Rightarrow> knobs \<Rightarrow> string option \<Rightarrow> bool \<Rightarrow> baked list
    \<Rightarrow> (baked list \<times> int option) option res" where
  "try_select sha kn env_name continuous_reward rollouts =
     (let rollouts1 = terminating_rollouts rollouts env_name in
      if int (length rollouts1) < M_ROLLOUTS then Inr None
      else rbind (dedupe sha rollouts1 [] []) (\<lambda>rollouts2.
        let kept = filter (passes_local_dist kn) rollouts2 in
        if int (length kept) < M_ROLLOUTS then Inr None
        else
          let bt_ok_rollouts = filter bk_bt_ok kept; non_bt_ok = filter (\<lambda>r. \<not> bk_bt_ok r) kept in
          if continuous_reward then
            let pool = (if M_ROLLOUTS \<le> int (length bt_ok_rollouts) then bt_ok_rollouts else kept) in
            Inr (case select_continuous_subset pool (nat M_ROLLOUTS) (ZONE_THRESHOLD_STEADY + kn_sigma_margin kn) of
                   None \<Rightarrow> None
                 | Some chosen \<Rightarrow> if kn_max_non_btok kn < non_bt_count chosen then None else Some (chosen, None))
          else
            Inr (map_option (\<lambda>(chosen, k). (chosen, Some k))
              (compose_loop (kn_max_non_btok kn)
                 (sort_key bt_key (with_reward 1 bt_ok_rollouts)) (sort_key nonbt_key (with_reward 1 non_bt_ok))
                 (sort_key bt_key (with_reward 0 bt_ok_rollouts)) (sort_key nonbt_key (with_reward 0 non_bt_ok))
                 (k_order kn)))))"

section \<open>Properties of the cut\<close>

lemma cut_loop_enumerate:
  "cut_loop eos tokens (enumerate n xs) =
     (case first_eos_index xs eos of None \<Rightarrow> tokens | Some i \<Rightarrow> take (Suc (n + i)) tokens)"
  by (induction xs arbitrary: n) (auto split: option.splits)

lemma first_eos_empty: "first_eos_index xs {} = None"
  by (simp add: first_eos_None)

lemma truncate_is_cut: "truncate_at_first_eos c eos = cut_at_eos c eos"
  by (cases "eos = {}") (simp_all add: truncate_at_first_eos_def cut_at_eos_def cut_loop_enumerate first_eos_empty split: option.splits)

lemma filter_upt_last:
  assumes "n \<noteq> 0" and "\<forall>i<n. P i \<longrightarrow> i = n - 1"
  shows "filter P [0..<n] = (if P (n - 1) then [n - 1] else [])"
proof -
  obtain m where m: "n = Suc m" using assms(1) by (cases n) auto
  have "\<not> P x" if "x < m" for x using assms(2) [rule_format, of x] m that by auto
  then have "filter P [0..<m] = []" by (simp add: filter_empty_conv)
  with m show ?thesis by simp
qed

lemma cut_member: "(\<exists>t \<in> set (cut_at_eos c eos). t \<in> eos) \<longleftrightarrow> (\<exists>t \<in> set c. t \<in> eos)"
proof (cases "first_eos_index c eos")
  case None
  then show ?thesis by (simp add: cut_at_eos_def)
next
  case (Some i)
  then have "i < length c" "c ! i \<in> eos" by (simp_all add: first_eos_Some)
  then have "c ! i \<in> set (take (Suc i) c)" "c ! i \<in> set c" by (auto simp: in_set_conv_nth)
  then show ?thesis using Some \<open>c ! i \<in> eos\<close> by (auto simp: cut_at_eos_def)
qed

lemma termination_ok_cut: "validator_termination_ok (cut_at_eos c eos) eos \<longleftrightarrow> (\<exists>t \<in> set c. t \<in> eos)"
proof -
  let ?d = "cut_at_eos c eos"
  have last: "\<forall>i < length ?d. ?d ! i \<in> eos \<longrightarrow> i = length ?d - 1" by (rule cut_at_eos_props(1))
  show ?thesis
  proof (cases "?d = []")
    case True
    then show ?thesis using cut_member [of c eos] by (auto simp: validator_termination_ok_def)
  next
    case False
    then have "filter (\<lambda>i. ?d ! i \<in> eos) [0..<length ?d] = (if ?d ! (length ?d - 1) \<in> eos then [length ?d - 1] else [])"
      using last by (intro filter_upt_last) auto
    then have "validator_termination_ok ?d eos \<longleftrightarrow> ?d ! (length ?d - 1) \<in> eos"
      using False by (auto simp: validator_termination_ok_def Let_def)
    also have "\<dots> \<longleftrightarrow> (\<exists>t \<in> set ?d. t \<in> eos)"
      using False last by (metis diff_less in_set_conv_nth length_greater_0_conv zero_less_one)
    finally show ?thesis by (simp add: cut_member)
  qed
qed

lemma ok_is_uncut: "validator_termination_ok c eos \<Longrightarrow> cut_at_eos c eos = c"
proof -
  assume ok: "validator_termination_ok c eos"
  then have c: "c \<noteq> []"
    and one: "length (filter (\<lambda>i. c ! i \<in> eos) [0..<length c]) = 1"
      "hd (filter (\<lambda>i. c ! i \<in> eos) [0..<length c]) = length c - 1"
    by (auto simp: validator_termination_ok_def Let_def split: if_splits)
  obtain k where k: "filter (\<lambda>i. c ! i \<in> eos) [0..<length c] = [k]" using one(1) by (auto simp: length_Suc_conv)
  have "{i. i < length c \<and> c ! i \<in> eos} = set (filter (\<lambda>i. c ! i \<in> eos) [0..<length c])" by auto
  then have set: "{i. i < length c \<and> c ! i \<in> eos} = {length c - 1}" using k one(2) by simp
  show ?thesis
  proof (cases "first_eos_index c eos")
    case None
    then show ?thesis by (simp add: cut_at_eos_def)
  next
    case (Some i)
    then have "i \<in> {i. i < length c \<and> c ! i \<in> eos}" by (simp add: first_eos_Some)
    then have "i = length c - 1" unfolding set by simp
    then show ?thesis using Some c by (simp add: cut_at_eos_def)
  qed
qed

text \<open>
  The cut makes a completion pass the validator's termination rule. Truncating at the first
  end of sequence gives a completion with exactly one, in the last place, whenever there was
  one at all; it is the cut of the HuggingFace path, it invents nothing, and it leaves a
  completion that already passes as it is.
\<close>

theorem truncation_terminates:
  "validator_termination_ok (truncate_at_first_eos c eos) eos = (\<exists>t \<in> set c. t \<in> eos)
   \<and> truncate_at_first_eos c eos = cut_at_eos c eos
   \<and> (\<exists>rest. c = truncate_at_first_eos c eos @ rest)
   \<and> (\<not> validator_termination_ok c eos \<or> truncate_at_first_eos c eos = c)"
  using termination_ok_cut [of c eos] cut_at_eos_props(2) [of c eos] ok_is_uncut [of c eos]
  by (simp add: truncate_is_cut)

section \<open>Properties of the zone filter\<close>

definition ones :: "real list \<Rightarrow> nat" where
  "ones xs = length (filter (\<lambda>x. x = 1) xs)"

lemma ones_sum: "\<forall>x \<in> set xs. x = 0 \<or> x = 1 \<Longrightarrow> sum_list xs = of_nat (ones xs)"
  by (induction xs) (auto simp: ones_def)

lemma ones_le: "ones xs \<le> length xs"
  by (simp add: ones_def)

lemma binary_std:
  assumes "length xs = 8" and "\<forall>x \<in> set xs. x = 0 \<or> x = 1"
  shows "rewards_std (map Fin xs) = Fin (sqrt (of_nat (ones xs) * (8 - of_nat (ones xs)) / 64))"
proof -
  have "variance xs = of_nat (ones xs) * (8 - of_nat (ones xs)) / 64"
    using binary_squares [OF assms(2), of "of_nat (ones xs) / 8"] ones_sum [OF assms(2)] assms(1)
    by (simp add: variance_def mean_def power2_eq_square field_simps)
  then show ?thesis using assms(1) those_finite [of xs] by (simp add: rewards_std_def)
qed

lemma sqrt_threshold: "0 \<le> a \<Longrightarrow> 0 \<le> x \<Longrightarrow> a \<le> sqrt x \<longleftrightarrow> a ^ 2 \<le> x"
  by (metis abs_of_nonneg real_sqrt_abs real_sqrt_le_iff)

lemma ones_cases: "n \<le> 8 \<Longrightarrow> n \<in> {0, 1, 2, 3, 4, 5, 6, 7, 8 :: nat}"
  by auto

text \<open>
  What the miner keeps and what the validator accepts. Of the binary groups of eight the miner keeps
  exactly those with two to six correct rollouts, the validator accepts those with one to
  seven: the filter never lets a group through that would be rejected, and it discards the groups
  with one or seven that would be paid.
\<close>

theorem miner_zone_is_narrower:
  assumes "length xs = 8" and "\<forall>x \<in> set xs. x = 0 \<or> x = 1"
  shows "(\<not> skip_for_out_of_zone float_of [] xs) = (2 \<le> ones xs \<and> ones xs \<le> 6)
    \<and> is_in_zone (rewards_std (map Fin xs)) bootstrap = (1 \<le> ones xs \<and> ones xs \<le> 7)"
proof -
  have n: "ones xs \<le> 8" using ones_le [of xs] assms(1) by simp
  let ?v = "of_nat (ones xs) * (8 - of_nat (ones xs)) / 64 :: real"
  have v: "0 \<le> ?v" using n by simp
  have skip: "(\<not> skip_for_out_of_zone float_of [] xs) = (43 / 100 \<le> sqrt ?v)"
    by (simp add: skip_for_out_of_zone_def binary_std [OF assms] pf_lt_def VALIDATOR_STEADY_SIGMA_MIN_def not_le less_imp_le) linarith
  have zone: "is_in_zone (rewards_std (map Fin xs)) bootstrap = (33 / 100 \<le> sqrt ?v)"
    by (auto simp: is_in_zone_def binary_std [OF assms] pf_lt_def SIGMA_MIN_def BOOTSTRAP_SIGMA_MIN_def)
  show ?thesis unfolding skip zone using ones_cases [OF n] v
    by (subst sqrt_threshold; (subst sqrt_threshold)?) (auto simp: power2_eq_square)
qed

theorem miner_zone_is_narrower_witness:
  "is_in_zone (rewards_std (map Fin [1, 0, 0, 0, 0, 0, 0, 0])) False
   \<and> skip_for_out_of_zone (\<lambda>s. Inl ValueError) [] [1, 0, 0, 0, 0, 0, 0, 0]"
  using miner_zone_is_narrower [of "[1, 0, 0, 0, 0, 0, 0, 0]" "\<lambda>s. Inl ValueError" False] by (simp add: ones_def)

lemma rewards_std_Fin: "rewards_std (map Fin xs) = (if length xs < 2 then Fin 0 else Fin (sqrt (variance xs)))"
  by (simp add: rewards_std_def those_finite [unfolded list.map_comp] del: list.map_comp)

text \<open>A kept group of any finite rewards is in the validator's zone.\<close>

lemma kept_group_in_zone:
  "\<not> skip_for_out_of_zone float_of [] xs \<Longrightarrow> is_in_zone (rewards_std (map Fin xs)) bootstrap"
  by (cases "rewards_std (map Fin xs)")
    (auto simp: skip_for_out_of_zone_def is_in_zone_def pf_lt_def VALIDATOR_STEADY_SIGMA_MIN_def SIGMA_MIN_def
      BOOTSTRAP_SIGMA_MIN_def rewards_std_Fin split: if_splits)

section \<open>Properties of the choice of a prompt\<close>

definition candidates :: "prompt_source \<Rightarrow> (int \<times> int) option \<Rightarrow> int list" where
  "candidates env prompt_range =
     (let (lo, hi) = (case prompt_range of None \<Rightarrow> (0, so_len env) | Some (a, b) \<Rightarrow> (max 0 a, min (so_len env) b)) in
      case so_eligible env of None \<Rightarrow> [lo..hi - 1]
      | Some pool \<Rightarrow> if prompt_range = None then pool
          else let confined = filter (\<lambda>i. lo \<le> i \<and> i < hi) pool in if confined \<noteq> [] then confined else [lo..hi - 1])"

definition picks_from :: "int list \<Rightarrow> int set \<Rightarrow> nat \<Rightarrow> int res \<Rightarrow> bool" where
  "picks_from pool cooldown attempts result =
     (case result of Inr i \<Rightarrow> i \<in> set pool \<and> i \<notin> cooldown
      | Inl e \<Rightarrow> e = RuntimeError \<and> (set pool \<subseteq> cooldown \<or> 2 * card cooldown < length pool
          \<and> (\<exists>drawn. length drawn = attempts \<and> set drawn \<subseteq> cooldown \<inter> set pool)))"

lemma draw_loop_picks:
  assumes "\<forall>n. candidate n \<in> set pool" and "2 * card cooldown < length pool"
  shows "picks_from pool cooldown attempts (draw_loop cooldown candidate n attempts)"
proof (induction attempts arbitrary: n)
  case 0
  then show ?case using assms(2) by (simp add: picks_from_def)
next
  case (Suc k)
  show ?case
  proof (cases "candidate n \<in> cooldown")
    case False
    then show ?thesis using assms(1) by (simp add: picks_from_def)
  next
    case True
    show ?thesis
    proof (cases "draw_loop cooldown candidate (Suc n) k")
      case (Inl e)
      then have e: "e = RuntimeError" and "set pool \<subseteq> cooldown \<or> (\<exists>drawn. length drawn = k \<and> set drawn \<subseteq> cooldown \<inter> set pool)"
        using Suc.IH [of "Suc n"] by (auto simp: picks_from_def)
      then consider "set pool \<subseteq> cooldown" | drawn where "length drawn = k" "set drawn \<subseteq> cooldown \<inter> set pool" by blast
      then show ?thesis
      proof cases
        case 1
        then show ?thesis using True Inl e by (simp add: picks_from_def)
      next
        case 2
        then have "length (candidate n # drawn) = Suc k" "set (candidate n # drawn) \<subseteq> cooldown \<inter> set pool"
          using True assms(1) by auto
        then have "\<exists>d. length d = Suc k \<and> set d \<subseteq> cooldown \<inter> set pool" by blast
        then show ?thesis using True Inl e assms(2) by (simp add: picks_from_def)
      qed
    next
      case (Inr i)
      then show ?thesis using Suc.IH [of "Suc n"] True by (simp add: picks_from_def)
    qed
  qed
qed

lemma choose_eligible_picks:
  assumes "draws_lawful rd"
  shows "picks_from pool cooldown attempts (choose_eligible rd (filter (\<lambda>i. i \<notin> cooldown) pool))"
proof (cases "filter (\<lambda>i. i \<notin> cooldown) pool = []")
  case True
  then show ?thesis by (auto simp: choose_eligible_def picks_from_def filter_empty_conv)
next
  case False
  then have "rd_choice rd (filter (\<lambda>i. i \<notin> cooldown) pool) \<in> set (filter (\<lambda>i. i \<notin> cooldown) pool)"
    using assms False unfolding draws_lawful_def by blast
  then show ?thesis using False by (simp add: choose_eligible_def picks_from_def)
qed

lemma draw_range: "draws_lawful rd \<Longrightarrow> 0 < b \<Longrightarrow> 0 \<le> rd_randrange rd n b \<and> rd_randrange rd n b < b"
  by (simp add: draws_lawful_def)

lemma pick_whole_picks:
  assumes "draws_lawful rd"
  shows "picks_from [lo..hi - 1] cooldown attempts (pick_whole rd cooldown attempts lo hi)"
proof (cases "2 * int (card cooldown) < hi - lo")
  case True
  have "lo + rd_randrange rd n (hi - lo) \<in> set [lo..hi - 1]" for n
    using draw_range [OF assms, of "hi - lo" n] True by simp
  then show ?thesis using True draw_loop_picks [of _ "[lo..hi - 1]"] by (simp add: pick_whole_def Let_def)
next
  case False
  then show ?thesis using choose_eligible_picks [OF assms] by (simp add: pick_whole_def Let_def)
qed

lemma pick_from_pool_picks:
  assumes "draws_lawful rd"
  shows "picks_from pool cooldown attempts (pick_from_pool rd cooldown attempts pool)"
proof (cases "2 * int (card cooldown) < int (length pool)")
  case True
  then have "0 < int (length pool)" by linarith
  then have "pool ! nat (rd_randrange rd n (int (length pool))) \<in> set pool" for n
    using draw_range [OF assms, of "int (length pool)" n] by (intro nth_mem) (simp add: nat_less_iff)
  then show ?thesis using True draw_loop_picks [of _ pool] by (simp add: pick_from_pool_def Let_def)
next
  case False
  then show ?thesis using choose_eligible_picks [OF assms] by (simp add: pick_from_pool_def Let_def)
qed

text \<open>
  The miner only bakes prompts it may submit. A picked prompt lies in the window's slice
  (and in the preferred pool when that meets the slice) and is not in cooldown. The only failure is
  a runtime error, and then either every candidate is in cooldown or as many draws as
  allowed have all hit the cooldown although it covers less than half of the candidates.
\<close>

theorem picked_prompt_is_eligible:
  assumes "draws_lawful rd"
  shows "picks_from (candidates env prompt_range) cooldown attempts (pick_prompt_idx env cooldown rd attempts prompt_range)"
proof -
  obtain lo hi where lh: "(case prompt_range of None \<Rightarrow> (0, so_len env) | Some (a, b) \<Rightarrow> (max 0 a, min (so_len env) b)) = (lo, hi)"
    by fastforce
  show ?thesis
  proof (cases "prompt_range \<noteq> None \<and> hi - lo \<le> 0")
    case True
    then have "filter (\<lambda>i. lo \<le> i \<and> i < hi) pool = []" for pool by (auto simp: filter_empty_conv)
    then have "candidates env prompt_range = []" using True by (auto simp: candidates_def lh split: option.split)
    then show ?thesis using True by (simp add: pick_prompt_idx_def lh picks_from_def)
  next
    case False
    then show ?thesis
    proof (cases "so_eligible env")
      case None
      then show ?thesis using False pick_whole_picks [OF assms, of lo hi]
        by (simp add: pick_prompt_idx_def candidates_def lh) metis
    next
      case (Some pool)
      then have "pick_prompt_idx env cooldown rd attempts prompt_range
          = pick_from_pool rd cooldown attempts (candidates env prompt_range)"
        using False by (simp add: pick_prompt_idx_def candidates_def lh Let_def) metis
      then show ?thesis using pick_from_pool_picks [OF assms] by simp
    qed
  qed
qed

definition first_draws :: rng_draws where
  "first_draws = \<lparr> rd_randrange = (\<lambda>n b. int n mod b), rd_choice = hd \<rparr>"

theorem picked_prompt_is_eligible_witness:
  "pick_prompt_idx \<lparr> so_len = 10, so_eligible = None \<rparr> {4} first_draws 3 (Some (4, 8)) = Inr 5
   \<and> picks_from [4, 5, 6, 7] {4} 3 (Inr 5)"
proof -
  have "draws_lawful first_draws" by (simp add: draws_lawful_def first_draws_def)
  from picked_prompt_is_eligible [OF this, of "\<lparr> so_len = 10, so_eligible = None \<rparr>" "Some (4, 8)" "{4}" 3]
  show ?thesis by (simp add: candidates_def pick_prompt_idx_def pick_whole_def first_draws_def numeral_3_eq_3 upto_rec1)
qed

section \<open>Properties of the alarm\<close>

text \<open>The alarms of a run of groups, each dropped or not and with a reason.\<close>

fun alarms :: "(bool \<times> string option) list \<Rightarrow> drop_tracker \<Rightarrow> string list" where
  "alarms [] t = []"
| "alarms ((dropped, reason) # es) t =
     (let (t1, alert) = record_drop dropped reason t in (case alert of None \<Rightarrow> [] | Some c \<Rightarrow> [c]) @ alarms es t1)"

fun tracker_after :: "(bool \<times> string option) list \<Rightarrow> drop_tracker \<Rightarrow> drop_tracker" where
  "tracker_after [] t = t"
| "tracker_after ((dropped, reason) # es) t = tracker_after es (fst (record_drop dropped reason t))"

lemma alarms_append: "alarms (es @ fs) t = alarms es t @ alarms fs (tracker_after es t)"
  by (induction es t rule: alarms.induct) (auto simp: Let_def split: prod.split)

definition tracker_ok :: "drop_tracker \<Rightarrow> bool" where
  "tracker_ok t = (0 \<le> dt_n t \<and> dt_n t < dt_min_sample t \<and> (\<forall>r. 0 \<le> dget (dt_by_reason t) r 0))"

lemma dget_Nil: "dget [] k d = d"
  by (simp add: dget_def)

lemma record_drop_ok:
  assumes "tracker_ok t"
  shows "tracker_ok (fst (record_drop dropped reason t))
    \<and> dt_min_sample (fst (record_drop dropped reason t)) = dt_min_sample t
    \<and> dt_alert_ratio (fst (record_drop dropped reason t)) = dt_alert_ratio t"
  using assms
  by (auto simp: tracker_ok_def record_drop_def drop_reset_def Let_def dget_Nil dget_dset split: option.split)

lemma tracker_after_ok:
  "tracker_ok t \<Longrightarrow> tracker_ok (tracker_after es t) \<and> dt_min_sample (tracker_after es t) = dt_min_sample t
     \<and> dt_alert_ratio (tracker_after es t) = dt_alert_ratio t"
  by (induction es t rule: tracker_after.induct) (use record_drop_ok in \<open>auto simp del: split_paired_All\<close>)

lemma technical_cause_found:
  assumes "c \<in> set causes" and "dt_alert_ratio t * of_int (dt_n t) \<le> of_int (dget (dt_by_reason t) c 0)"
  shows "\<exists>d \<in> set causes. technical_cause t causes = Some d"
  using assms by (induction causes) auto

lemma run_below:
  assumes "c \<noteq> []" and "dt_n t + int k < dt_min_sample t"
  shows "dt_n (tracker_after (replicate k (True, Some c)) t) = dt_n t + int k
    \<and> dget (dt_by_reason (tracker_after (replicate k (True, Some c)) t)) c 0 = dget (dt_by_reason t) c 0 + int k"
  using assms
proof (induction k arbitrary: t)
  case 0
  then show ?case by simp
next
  case (Suc k)
  let ?t = "fst (record_drop True (Some c) t)"
  have t: "dt_n ?t = dt_n t + 1" "dt_min_sample ?t = dt_min_sample t"
    "dget (dt_by_reason ?t) c 0 = dget (dt_by_reason t) c 0 + 1"
    using Suc.prems by (simp_all add: record_drop_def Let_def dget_dset)
  then show ?case using Suc.IH [of ?t] Suc.prems by simp
qed

text \<open>The event that completes a sample resets the tracker; it raises an alarm when one cause has all of it.\<close>

lemma run_completes:
  assumes "tracker_ok t" and "c \<in> set TECHNICAL" and "int k = dt_min_sample t - dt_n t"
  shows "dt_n (tracker_after (replicate k (True, Some c)) t) = 0
    \<and> dt_by_reason (tracker_after (replicate k (True, Some c)) t) = []
    \<and> (dt_n t = 0 \<and> dt_alert_ratio t \<le> 1 \<longrightarrow> (\<exists>d \<in> set TECHNICAL. d \<in> set (alarms (replicate k (True, Some c)) t)))"
proof -
  have c: "c \<noteq> []" using assms(2) by (auto simp: TECHNICAL_def)
  obtain j where j: "k = Suc j" using assms(1,3) by (cases k) (auto simp: tracker_ok_def)
  let ?u = "tracker_after (replicate j (True, Some c)) t"
  have u: "dt_n ?u = dt_n t + int j" "dget (dt_by_reason ?u) c 0 = dget (dt_by_reason t) c 0 + int j"
    using run_below [OF c, of t j] assms(3) j by auto
  have um: "dt_min_sample ?u = dt_min_sample t" "dt_alert_ratio ?u = dt_alert_ratio t"
    using tracker_after_ok [OF assms(1)] by auto
  let ?v = "?u \<lparr> dt_n := dt_n ?u + 1, dt_by_reason := dset c (dget (dt_by_reason ?u) c 0 + 1) (dt_by_reason ?u) \<rparr>"
  have rec: "record_drop True (Some c) ?u = (drop_reset ?v, technical_cause ?v TECHNICAL)"
    using u(1) um(1) assms(3) j c by (simp add: record_drop_def Let_def)
  have rep: "replicate k (True, Some c) = replicate j (True, Some c) @ [(True, Some c)]"
    by (simp add: j replicate_append_same)
  have after: "tracker_after (es @ fs) t = tracker_after fs (tracker_after es t)" for es fs t
    by (induction es t rule: tracker_after.induct) auto
  have fin: "dt_n (tracker_after (replicate k (True, Some c)) t) = 0"
    "dt_by_reason (tracker_after (replicate k (True, Some c)) t) = []"
    by (simp_all add: rep after rec drop_reset_def)
  have "\<exists>d \<in> set TECHNICAL. d \<in> set (alarms (replicate k (True, Some c)) t)" if "dt_n t = 0" "dt_alert_ratio t \<le> 1"
  proof -
    have "0 \<le> dget (dt_by_reason t) c 0" using assms(1) by (simp add: tracker_ok_def)
    then have "of_int (dt_n ?v) \<le> (of_int (dget (dt_by_reason ?v) c 0) :: real)" using u that by (simp add: dget_dset)
    moreover have "dt_alert_ratio ?v * of_int (dt_n ?v) \<le> of_int (dt_n ?v)"
      using that u um(2) mult_right_mono [of "dt_alert_ratio ?v" 1 "of_int (dt_n ?v)"] by simp
    ultimately obtain d where "d \<in> set TECHNICAL" "technical_cause ?v TECHNICAL = Some d"
      using technical_cause_found [OF assms(2), of ?v] by auto
    then show ?thesis by (auto simp: rep alarms_append rec)
  qed
  with fin show ?thesis by blast
qed

text \<open>
  A silent failure is noticed. Whatever happened before, a run of groups that are all
  dropped for one technical cause raises an alarm within twice the sample size, less one.
\<close>

theorem silent_failure_alarms:
  assumes "1 \<le> min_sample" and "ratio \<le> 1" and "c \<in> set TECHNICAL" and "2 * min_sample - 1 \<le> int n"
  shows "alarms (replicate n (True, Some c)) (tracker_after history (DropTracker min_sample ratio)) \<noteq> []"
proof -
  let ?t = "tracker_after history (DropTracker min_sample ratio)"
  have "tracker_ok (DropTracker min_sample ratio)" using assms(1) by (simp add: tracker_ok_def DropTracker_def dget_Nil)
  from tracker_after_ok [OF this, of history]
  have t: "tracker_ok ?t" "dt_min_sample ?t = min_sample" "dt_alert_ratio ?t = ratio" by (auto simp: DropTracker_def)
  define k where "k = (if dt_n ?t = 0 then 0 else nat (min_sample - dt_n ?t))"
  let ?u = "tracker_after (replicate k (True, Some c)) ?t"
  have u: "tracker_ok ?u" "dt_min_sample ?u = min_sample" "dt_alert_ratio ?u = ratio"
    using tracker_after_ok [OF t(1)] t by auto
  have "dt_n ?u = 0"
    using run_completes [OF t(1) assms(3), of k] t by (auto simp: k_def tracker_ok_def)
  then have alarm: "alarms (replicate (nat min_sample) (True, Some c)) ?u \<noteq> []"
    using run_completes [OF u(1) assms(3), of "nat min_sample"] u assms(1,2) by fastforce
  have "int k \<le> min_sample - 1" using t(1,2) assms(1) by (auto simp: k_def tracker_ok_def)
  then have "n = k + nat min_sample + (n - k - nat min_sample)" using assms(1,4) by linarith
  then have "replicate n (True, Some c) = replicate k (True, Some c) @ replicate (nat min_sample) (True, Some c)
      @ replicate (n - k - nat min_sample) (True, Some c)" by (metis append.assoc replicate_add)
  with alarm show ?thesis by (simp add: alarms_append)
qed

theorem silent_failure_alarms_witness:
  "alarms (replicate 79 (True, Some ''schema''))
     (tracker_after [(True, Some ''out_of_zone''), (False, None), (True, None)] (DropTracker 40 (9 / 10))) \<noteq> []"
  by (rule silent_failure_alarms) (simp_all add: TECHNICAL_def)

section \<open>Properties of the composition\<close>

lemma dedupe_props:
  assumes "dedupe sha rs seen out = Inr kept" and "\<forall>r \<in> set out. \<exists>h \<in> set seen. token_digest sha r = Inr h"
    and "distinct (map (token_digest sha) out)"
  shows "distinct (map (token_digest sha) kept) \<and> set out \<subseteq> set kept \<and> set kept \<subseteq> set out \<union> set rs
    \<and> (\<forall>r \<in> set kept. \<exists>h. token_digest sha r = Inr h)"
  using assms
proof (induction rs arbitrary: seen out)
  case Nil
  then show ?case by auto
next
  case (Cons r rs)
  obtain h where h: "token_digest sha r = Inr h" using Cons.prems(1) by (auto simp: rbind_eq_Inr)
  show ?case
  proof (cases "h \<in> set seen")
    case True
    then show ?thesis using Cons.IH [of seen out] Cons.prems h by auto
  next
    case False
    then have "token_digest sha r \<notin> token_digest sha ` set out" using Cons.prems(2) h by force
    then have "distinct (map (token_digest sha) (out @ [r]))" using Cons.prems(3) by simp
    moreover have "\<forall>x \<in> set (out @ [r]). \<exists>g \<in> set (h # seen). token_digest sha x = Inr g"
      using Cons.prems(2) h by auto
    moreover have "dedupe sha rs (h # seen) (out @ [r]) = Inr kept" using Cons.prems(1) h False by simp
    ultimately have "distinct (map (token_digest sha) kept) \<and> set (out @ [r]) \<subseteq> set kept
        \<and> set kept \<subseteq> set (out @ [r]) \<union> set rs \<and> (\<forall>r \<in> set kept. \<exists>h. token_digest sha r = Inr h)"
      by (intro Cons.IH)
    then show ?thesis by auto
  qed
qed

lemma fill_from_props:
  assumes "0 \<le> k" and "k \<le> int (length bt) + int (length nbt)"
  shows "int (length (fill_from bt nbt k)) = k \<and> set (fill_from bt nbt k) \<subseteq> set bt \<union> set nbt
    \<and> fill_from bt nbt k = take (nat k) bt @ take (nat k - length bt) nbt"
proof -
  have "fill_from bt nbt k = take (nat k) bt @ take (nat k - length bt) nbt"
    using assms(1) by (auto simp: fill_from_def py_slice_to_def slice_bound_def Let_def min_def nat_diff_distrib)
  moreover from this have "int (length (fill_from bt nbt k)) = k" using assms by (simp add: min_def) linarith
  moreover have "set (take (nat k) bt @ take (nat k - length bt) nbt) \<subseteq> set bt \<union> set nbt"
    by (auto dest: in_set_takeD)
  ultimately show ?thesis by simp
qed

text \<open>What \<open>compose_loop\<close> does for one number of correct rollouts.\<close>

definition composable :: "int \<Rightarrow> baked list \<Rightarrow> baked list \<Rightarrow> baked list \<Rightarrow> baked list \<Rightarrow> int \<Rightarrow> bool" where
  "composable max_non_bt cb cn wb wn k =
     (k \<le> int (length cb) + int (length cn) \<and> M_ROLLOUTS - k \<le> int (length wb) + int (length wn)
      \<and> non_bt_count (fill_from cb cn k @ fill_from wb wn (M_ROLLOUTS - k)) \<le> max_non_bt)"

lemma compose_loop_find:
  "compose_loop m cb cn wb wn ks =
     map_option (\<lambda>k. (fill_from cb cn k @ fill_from wb wn (M_ROLLOUTS - k), k)) (find (composable m cb cn wb wn) ks)"
  by (induction ks) (auto simp: composable_def Let_def)

lemma non_bt_count_append: "non_bt_count (xs @ ys) = non_bt_count xs + non_bt_count ys"
  by (simp add: non_bt_count_def)

lemma non_bt_count_fill:
  assumes "0 \<le> k" and "k \<le> int (length bt) + int (length nbt)"
    and "\<forall>r \<in> set bt. bk_bt_ok r" and "\<forall>r \<in> set nbt. \<not> bk_bt_ok r"
  shows "non_bt_count (fill_from bt nbt k) = max 0 (k - int (length bt))"
proof -
  have "filter (\<lambda>r. \<not> bk_bt_ok r) (take (nat k) bt) = []" using assms(3) by (auto simp: filter_empty_conv dest: in_set_takeD)
  moreover have "filter (\<lambda>r. \<not> bk_bt_ok r) (take (nat k - length bt) nbt) = take (nat k - length bt) nbt"
    using assms(4) by (auto simp: filter_id_conv dest: in_set_takeD)
  ultimately have "non_bt_count (fill_from bt nbt k) = int (length (take (nat k - length bt) nbt))"
    using fill_from_props [OF assms(1,2)] by (simp add: non_bt_count_def)
  then show ?thesis using assms(1,2) unfolding length_take by arith
qed

text \<open>The groups that may be submitted: eight of the rollouts, \<open>k\<close> correct and the others wrong.\<close>

definition admissible :: "knobs \<Rightarrow> baked list \<Rightarrow> baked list \<Rightarrow> int \<Rightarrow> bool" where
  "admissible kn kept chosen k =
     (set chosen \<subseteq> set kept \<and> int (length chosen) = M_ROLLOUTS \<and> kn_k_min kn \<le> k \<and> k \<le> kn_k_max kn
      \<and> int (length (with_reward 1 chosen)) = k \<and> int (length (with_reward 0 chosen)) = M_ROLLOUTS - k
      \<and> non_bt_count chosen \<le> kn_max_non_btok kn)"

definition submittable :: "(bytes \<Rightarrow> bytes) \<Rightarrow> knobs \<Rightarrow> string option \<Rightarrow> baked list \<Rightarrow> baked \<Rightarrow> bool" where
  "submittable sha kn env_name rollouts r =
     (r \<in> set rollouts \<and> passes_local_dist kn r \<and> (bft_applicable env_name \<or> bk_in_eos r))"

lemma set_k_order: "set (k_order kn) = {kn_k_min kn..kn_k_max kn}"
  by (simp add: k_order_def Let_def)

lemma with_reward_append: "with_reward x (as @ bs) = with_reward x as @ with_reward x bs"
  by (simp add: with_reward_def)

lemma with_reward_same: "\<forall>r \<in> set rs. bk_reward r = x \<Longrightarrow> with_reward x rs = rs"
  by (simp add: with_reward_def filter_id_conv)

lemma with_reward_other: "\<forall>r \<in> set rs. bk_reward r = y \<Longrightarrow> x \<noteq> y \<Longrightarrow> with_reward x rs = []"
  by (auto simp: with_reward_def filter_empty_conv)

text \<open>The four sorted lists the composition draws from, of the kept rollouts.\<close>

abbreviation cbt :: "baked list \<Rightarrow> real \<Rightarrow> baked list" where
  "cbt kept x \<equiv> sort_key bt_key (with_reward x (filter bk_bt_ok kept))"

abbreviation cnbt :: "baked list \<Rightarrow> real \<Rightarrow> baked list" where
  "cnbt kept x \<equiv> sort_key nonbt_key (with_reward x (filter (\<lambda>r. \<not> bk_bt_ok r) kept))"

lemma filled_admissible:
  assumes k: "kn_k_min kn \<le> k" "k \<le> kn_k_max kn" "0 \<le> k" "k \<le> M_ROLLOUTS"
    and ok: "composable (kn_max_non_btok kn) (cbt kept 1) (cnbt kept 1) (cbt kept 0) (cnbt kept 0) k"
  shows "admissible kn kept (fill_from (cbt kept 1) (cnbt kept 1) k @ fill_from (cbt kept 0) (cnbt kept 0) (M_ROLLOUTS - k)) k"
proof -
  let ?c = "fill_from (cbt kept 1) (cnbt kept 1) k" and ?w = "fill_from (cbt kept 0) (cnbt kept 0) (M_ROLLOUTS - k)"
  have c: "int (length ?c) = k" "set ?c \<subseteq> set (cbt kept 1) \<union> set (cnbt kept 1)"
    using fill_from_props [of k "cbt kept 1" "cnbt kept 1"] k ok by (auto simp: composable_def)
  have w: "int (length ?w) = M_ROLLOUTS - k" "set ?w \<subseteq> set (cbt kept 0) \<union> set (cnbt kept 0)"
    using fill_from_props [of "M_ROLLOUTS - k" "cbt kept 0" "cnbt kept 0"] k ok by (auto simp: composable_def)
  have src: "x \<in> set (cbt kept a) \<union> set (cnbt kept a) \<Longrightarrow> bk_reward x = a \<and> x \<in> set kept" for x a
    by (auto simp: with_reward_def)
  have cr: "\<forall>r \<in> set ?c. bk_reward r = 1" "set ?c \<subseteq> set kept" using c(2) src [of _ 1] by blast+
  have wr: "\<forall>r \<in> set ?w. bk_reward r = 0" "set ?w \<subseteq> set kept" using w(2) src [of _ 0] by blast+
  have "with_reward 1 (?c @ ?w) = ?c"
    unfolding with_reward_append with_reward_same [OF cr(1)] by (subst with_reward_other [OF wr(1)]) simp_all
  moreover have "with_reward 0 (?c @ ?w) = ?w"
    unfolding with_reward_append with_reward_same [OF wr(1)] by (subst with_reward_other [OF cr(1)]) simp_all
  moreover have "set (?c @ ?w) \<subseteq> set kept" using cr(2) wr(2) by simp
  moreover have "int (length (?c @ ?w)) = M_ROLLOUTS" using c(1) w(1) by simp
  moreover have "non_bt_count (?c @ ?w) \<le> kn_max_non_btok kn" using ok by (simp add: composable_def)
  ultimately show ?thesis using c(1) w(1) k(1,2) by (simp add: admissible_def)
qed

lemma distinct_filter_le: "distinct xs \<Longrightarrow> set xs \<subseteq> set ys \<Longrightarrow> length (filter P xs) \<le> length (filter P ys)"
proof -
  assume xs: "distinct xs" "set xs \<subseteq> set ys"
  have "length (filter P xs) = card (set (filter P xs))" using xs(1) by (intro distinct_card [symmetric]) simp
  also have "\<dots> \<le> card (set (filter P ys))" using xs(2) by (intro card_mono) auto
  also have "\<dots> \<le> length (filter P ys)" by (rule card_length)
  finally show ?thesis .
qed

lemma split_filter_length: "length (filter P (filter Q xs)) + length (filter P (filter (\<lambda>x. \<not> Q x) xs)) = length (filter P xs)"
  by (induction xs) auto

lemma admissible_composable:
  assumes S: "distinct chosen" "admissible kn kept chosen k" and k: "0 \<le> k" "k \<le> M_ROLLOUTS"
  shows "composable (kn_max_non_btok kn) (cbt kept 1) (cnbt kept 1) (cbt kept 0) (cnbt kept 0) k"
proof -
  have sub: "set chosen \<subseteq> set kept" and cnt: "int (length (with_reward 1 chosen)) = k"
    "int (length (with_reward 0 chosen)) = M_ROLLOUTS - k" and nbt: "non_bt_count chosen \<le> kn_max_non_btok kn"
    using S(2) by (simp_all add: admissible_def)
  let ?bt = "\<lambda>x rs. int (length (with_reward x (filter bk_bt_ok rs)))"
  let ?nbt = "\<lambda>x rs. int (length (with_reward x (filter (\<lambda>r. \<not> bk_bt_ok r) rs)))"
  have le: "?bt x chosen \<le> ?bt x kept" "?nbt x chosen \<le> ?nbt x kept" for x
    using distinct_filter_le [OF S(1) sub] by (simp_all add: with_reward_def)
  have split: "int (length (with_reward x rs)) = ?bt x rs + ?nbt x rs" for x rs
    using split_filter_length [of "\<lambda>r. bk_reward r = x" bk_bt_ok rs] by (simp add: with_reward_def)
  have both: "?nbt 1 chosen + ?nbt 0 chosen \<le> non_bt_count chosen"
  proof -
    have "?nbt 1 chosen + ?nbt 0 chosen
        = int (length (filter (\<lambda>r. bk_reward r = 1 \<or> bk_reward r = 0) (filter (\<lambda>r. \<not> bk_bt_ok r) chosen)))"
      unfolding with_reward_def by (induction chosen) auto
    also have "\<dots> \<le> non_bt_count chosen" unfolding non_bt_count_def using length_filter_le of_nat_mono by blast
    finally show ?thesis .
  qed
  have enough: "k \<le> int (length (cbt kept 1)) + int (length (cnbt kept 1))"
    "M_ROLLOUTS - k \<le> int (length (cbt kept 0)) + int (length (cnbt kept 0))"
    using cnt split [of 1 chosen] split [of 0 chosen] le [of 1] le [of 0] by simp_all
  have marks: "\<forall>r \<in> set (cbt kept x). bk_bt_ok r" "\<forall>r \<in> set (cnbt kept x). \<not> bk_bt_ok r" for x
    by (auto simp: with_reward_def)
  have fill: "non_bt_count (fill_from (cbt kept 1) (cnbt kept 1) k) = max 0 (k - ?bt 1 kept)"
    "non_bt_count (fill_from (cbt kept 0) (cnbt kept 0) (M_ROLLOUTS - k)) = max 0 (M_ROLLOUTS - k - ?bt 0 kept)"
    using non_bt_count_fill [OF k(1) enough(1) marks] non_bt_count_fill [OF _ enough(2) marks] k(2) by simp_all
  have "max 0 (k - ?bt 1 kept) \<le> ?nbt 1 chosen" "max 0 (M_ROLLOUTS - k - ?bt 0 kept) \<le> ?nbt 0 chosen"
    using cnt split [of 1 chosen] split [of 0 chosen] le [of 1] le [of 0] by simp_all
  then have "max 0 (k - ?bt 1 kept) + max 0 (M_ROLLOUTS - k - ?bt 0 kept) \<le> kn_max_non_btok kn"
    using both nbt by linarith
  then show ?thesis using enough by (simp add: composable_def non_bt_count_append fill)
qed

definition good_group :: "(bytes \<Rightarrow> bytes) \<Rightarrow> knobs \<Rightarrow> string option \<Rightarrow> baked list \<Rightarrow> baked list \<Rightarrow> int \<Rightarrow> bool" where
  "good_group sha kn env_name rollouts chosen k =
     (admissible kn rollouts chosen k \<and> distinct (map (token_digest sha) chosen)
      \<and> (\<forall>r \<in> set chosen. submittable sha kn env_name rollouts r))"

lemma filled_distinct:
  assumes "distinct kept" and "0 \<le> k" "k \<le> M_ROLLOUTS"
    and "composable m (cbt kept 1) (cnbt kept 1) (cbt kept 0) (cnbt kept 0) k"
  shows "distinct (fill_from (cbt kept 1) (cnbt kept 1) k @ fill_from (cbt kept 0) (cnbt kept 0) (M_ROLLOUTS - k))"
proof -
  have d: "distinct (cbt kept x)" "distinct (cnbt kept x)" for x using assms(1) by (simp_all add: with_reward_def)
  have disj: "set (cbt kept x) \<inter> set (cnbt kept y) = {}" for x y by (auto simp: with_reward_def)
  have fill: "distinct (fill_from (cbt kept x) (cnbt kept x) j)"
    if "0 \<le> j" "j \<le> int (length (cbt kept x)) + int (length (cnbt kept x))" for j x
  proof -
    have "set (take (nat j) (cbt kept x)) \<inter> set (take (nat j - length (cbt kept x)) (cnbt kept x)) = {}"
      using disj [of x x] set_take_subset by fast
    then show ?thesis using fill_from_props [OF that] d by (simp add: distinct_take)
  qed
  have ok: "k \<le> int (length (cbt kept 1)) + int (length (cnbt kept 1))"
    "M_ROLLOUTS - k \<le> int (length (cbt kept 0)) + int (length (cnbt kept 0))" "0 \<le> M_ROLLOUTS - k"
    using assms(3,4) by (simp_all add: composable_def)
  have src: "\<forall>r \<in> set (cbt kept x) \<union> set (cnbt kept x). bk_reward r = x" for x by (auto simp: with_reward_def)
  have "set (fill_from (cbt kept 1) (cnbt kept 1) k) \<inter> set (fill_from (cbt kept 0) (cnbt kept 0) (M_ROLLOUTS - k)) = {}"
  proof -
    have "x \<in> set (fill_from (cbt kept 1) (cnbt kept 1) k) \<Longrightarrow> bk_reward x = 1" for x
      using fill_from_props [OF assms(2) ok(1)] src [of 1] by blast
    moreover have "x \<in> set (fill_from (cbt kept 0) (cnbt kept 0) (M_ROLLOUTS - k)) \<Longrightarrow> bk_reward x = 0" for x
      using fill_from_props [OF ok(3,2)] src [of 0] by blast
    ultimately show ?thesis using zero_neq_one by (metis disjoint_iff)
  qed
  then show ?thesis using fill [OF assms(2) ok(1)] fill [OF ok(3,2)] by simp
qed

lemma compose_result:
  assumes "distinct kept" and "0 \<le> kn_k_min kn" "kn_k_max kn \<le> M_ROLLOUTS"
  shows "case compose_loop (kn_max_non_btok kn) (cbt kept 1) (cnbt kept 1) (cbt kept 0) (cnbt kept 0) (k_order kn) of
      None \<Rightarrow> \<forall>chosen k. \<not> (distinct chosen \<and> admissible kn kept chosen k)
    | Some (chosen, k) \<Rightarrow> distinct chosen \<and> admissible kn kept chosen k"
proof (cases "find (composable (kn_max_non_btok kn) (cbt kept 1) (cnbt kept 1) (cbt kept 0) (cnbt kept 0)) (k_order kn)")
  case None
  have "\<not> (distinct chosen \<and> admissible kn kept chosen k)" for chosen k
  proof
    assume S: "distinct chosen \<and> admissible kn kept chosen k"
    then have k: "kn_k_min kn \<le> k" "k \<le> kn_k_max kn" by (auto simp: admissible_def)
    then have "composable (kn_max_non_btok kn) (cbt kept 1) (cnbt kept 1) (cbt kept 0) (cnbt kept 0) k"
      using admissible_composable [of chosen kn kept k] S assms(2,3) by linarith
    moreover have "k \<in> set (k_order kn)" using k by (simp add: set_k_order)
    ultimately show False using None by (auto simp: find_None_iff)
  qed
  then show ?thesis by (simp add: compose_loop_find None)
next
  case (Some k)
  then have k: "k \<in> set (k_order kn)" "composable (kn_max_non_btok kn) (cbt kept 1) (cnbt kept 1) (cbt kept 0) (cnbt kept 0) k"
    by (auto simp: find_Some_iff)
  then have b: "kn_k_min kn \<le> k" "k \<le> kn_k_max kn" "0 \<le> k" "k \<le> M_ROLLOUTS"
    using assms(2,3) by (auto simp: set_k_order)
  show ?thesis using filled_admissible [OF b k(2)] filled_distinct [OF assms(1) b(3,4) k(2)]
    by (simp add: compose_loop_find Some)
qed

lemma admissible_subset: "admissible kn kept chosen k \<Longrightarrow> set kept \<subseteq> set rs \<Longrightarrow> admissible kn rs chosen k"
  by (auto simp: admissible_def)

lemma token_digest_defined:
  assumes "\<forall>t \<in> set (bk_all_tokens r). 0 \<le> t \<and> t < 2 ^ 32"
  shows "\<exists>h. token_digest sha r = Inr h"
proof -
  have "traverse (to_bytes_be 4) (bk_all_tokens r) = Inr (map (be_bytes 4) (bk_all_tokens r))"
    using assms by (intro traverse_total) (auto simp: to_bytes_be_def)
  then show ?thesis by (simp add: token_digest_def)
qed

lemma dedupe_defined:
  "\<forall>r \<in> set rs. \<exists>h. token_digest sha r = Inr h \<Longrightarrow> \<exists>kept. dedupe sha rs seen out = Inr kept"
  by (induction rs arbitrary: seen out) auto

lemma dedupe_covers:
  assumes "dedupe sha rs seen out = Inr kept" and "r \<in> set rs" and "token_digest sha r = Inr h"
  shows "h \<in> set seen \<or> (\<exists>r' \<in> set kept. token_digest sha r' = Inr h)"
  using assms
proof (induction rs arbitrary: seen out)
  case Nil
  then show ?case by simp
next
  case (Cons x rs)
  obtain g where g: "token_digest sha x = Inr g" using Cons.prems(1) by (auto simp: rbind_eq_Inr)
  have keeps: "dedupe sha ys s o' = Inr kept \<Longrightarrow> set o' \<subseteq> set kept" for ys s o'
    by (induction ys arbitrary: s o') (force simp: rbind_eq_Inr split: if_splits)+
  show ?case
  proof (cases "g \<in> set seen")
    case True
    then show ?thesis using Cons g by auto
  next
    case False
    then have rest: "dedupe sha rs (g # seen) (out @ [x]) = Inr kept" using Cons.prems(1) g by simp
    have "x \<in> set kept" using keeps [OF rest] by simp
    then show ?thesis using Cons.IH [OF rest] Cons.prems(2,3) g by auto
  qed
qed

lemma good_group_shape:
  assumes "good_group sha kn env_name rollouts chosen k"
  shows "distinct chosen \<and> int (length chosen) = M_ROLLOUTS \<and> admissible kn rollouts chosen k"
  using assms by (auto simp: good_group_def admissible_def distinct_map)

lemma short_pool:
  assumes "good_group sha kn env_name rollouts chosen k" and "\<forall>r. submittable sha kn env_name rollouts r \<longrightarrow> r \<in> set pool"
  shows "M_ROLLOUTS \<le> int (length pool)"
proof -
  have "set chosen \<subseteq> set pool" using assms by (auto simp: good_group_def)
  then have "length (filter (\<lambda>r. True) chosen) \<le> length (filter (\<lambda>r. True) pool)"
    using good_group_shape [OF assms(1)] by (intro distinct_filter_le) auto
  then show ?thesis using good_group_shape [OF assms(1)] by simp
qed

lemma reward_partition:
  "length (with_reward 1 xs) + length (with_reward 0 xs) + length (filter (\<lambda>r. bk_reward r \<noteq> 1 \<and> bk_reward r \<noteq> 0) xs) = length xs"
  by (induction xs) (auto simp: with_reward_def)

lemma admissible_in_zone:
  assumes "admissible kn rs chosen k" and "1 \<le> k" "k \<le> 7"
  shows "is_in_zone (rewards_std (map (\<lambda>r. Fin (bk_reward r)) chosen)) bootstrap"
proof -
  let ?xs = "map bk_reward chosen"
  have n: "length ?xs = 8" using assms(1) by (simp add: admissible_def M_ROLLOUTS_def)
  have cnt: "int (length (with_reward 1 chosen)) = k" "int (length (with_reward 0 chosen)) = 8 - k"
    using assms(1) by (simp_all add: admissible_def M_ROLLOUTS_def)
  have "length chosen = 8" using n by simp
  then have "length (filter (\<lambda>r. bk_reward r \<noteq> 1 \<and> bk_reward r \<noteq> 0) chosen) = 0"
    using reward_partition [of chosen] cnt by linarith
  then have "filter (\<lambda>r. bk_reward r \<noteq> 1 \<and> bk_reward r \<noteq> 0) chosen = []" by simp
  then have b: "\<forall>x \<in> set ?xs. x = 0 \<or> x = 1" by (auto simp: filter_empty_conv)
  have "with_reward 1 chosen \<noteq> []" "with_reward 0 chosen \<noteq> []" using cnt assms(2,3) by auto
  then have "1 \<in> set ?xs" "0 \<in> set ?xs" unfolding with_reward_def filter_empty_conv by force+
  then have "is_in_zone (rewards_std (map Fin ?xs)) bootstrap" using binary_zone [OF n b] by blast
  then show ?thesis by (simp add: comp_def)
qed

text \<open>
  C17. The composition of a binary group is sound and complete. What it returns is eight pairwise
  different rollouts of the pool that pass every local filter, with a number of correct ones in the
  band, no more badly terminated ones than allowed, and the validator's zone check accepts their
  rewards; when it returns nothing, no such group exists. (The band is within one to seven, token ids
  are 32-bit, and rollouts with the same digest are the same.)
\<close>

theorem composition_sound_and_complete:
  assumes "1 \<le> kn_k_min kn" and "kn_k_max kn \<le> 7"
    and "\<forall>r \<in> set rollouts. \<forall>t \<in> set (bk_all_tokens r). 0 \<le> t \<and> t < 2 ^ 32"
    and "inj_on (token_digest sha) (set rollouts)"
  shows "case try_select sha kn env_name False rollouts of
      Inr None \<Rightarrow> \<forall>chosen k. \<not> good_group sha kn env_name rollouts chosen k
    | Inr (Some (chosen, Some k)) \<Rightarrow> good_group sha kn env_name rollouts chosen k
        \<and> is_in_zone (rewards_std (map (\<lambda>r. Fin (bk_reward r)) chosen)) bootstrap
    | _ \<Rightarrow> False"
proof -
  let ?R = "terminating_rollouts rollouts env_name"
  have R: "set ?R = {r \<in> set rollouts. bft_applicable env_name \<or> bk_in_eos r}" by (auto simp: terminating_rollouts_def)
  have dig: "\<forall>r \<in> set ?R. \<exists>h. token_digest sha r = Inr h" using token_digest_defined assms(3) R by auto
  obtain R2 where R2: "dedupe sha ?R [] [] = Inr R2" using dedupe_defined [OF dig] by blast
  have R2p: "distinct (map (token_digest sha) R2)" "set R2 \<subseteq> set ?R" using dedupe_props [OF R2] by auto
  have "r \<in> set R2" if rR: "r \<in> set ?R" for r
  proof -
    obtain r' where "r' \<in> set R2" "token_digest sha r' = token_digest sha r"
      using dedupe_covers [OF R2 rR] dig rR by fastforce
    moreover from this(1) have "r' \<in> set rollouts" "r \<in> set rollouts" using R2p(2) R rR by auto
    ultimately show ?thesis using assms(4) by (metis inj_onD)
  qed
  then have R2R: "set R2 = set ?R" using R2p(2) by blast
  let ?kept = "filter (passes_local_dist kn) R2"
  have sub: "submittable sha kn env_name rollouts r \<longleftrightarrow> r \<in> set ?kept" for r
    unfolding submittable_def using R2R R by auto
  then have subR: "\<forall>r. submittable sha kn env_name rollouts r \<longrightarrow> r \<in> set ?R" using R2R by auto
  have kept: "distinct ?kept" "set ?kept \<subseteq> set rollouts" using R2p(1) R2R R by (auto simp: distinct_map)
  have good: "good_group sha kn env_name rollouts chosen k \<longleftrightarrow> distinct chosen \<and> admissible kn ?kept chosen k" for chosen k
  proof
    assume g: "good_group sha kn env_name rollouts chosen k"
    then have "set chosen \<subseteq> set ?kept" using sub by (auto simp: good_group_def)
    then show "distinct chosen \<and> admissible kn ?kept chosen k"
      using good_group_shape [OF g] by (simp add: admissible_def)
  next
    assume d: "distinct chosen \<and> admissible kn ?kept chosen k"
    then have "set chosen \<subseteq> set rollouts" "\<forall>r \<in> set chosen. submittable sha kn env_name rollouts r"
      using kept(2) sub by (auto simp: admissible_def)
    then show "good_group sha kn env_name rollouts chosen k"
      using d admissible_subset [OF _ kept(2)] assms(4) by (simp add: good_group_def distinct_map inj_on_subset)
  qed
  have none: "\<forall>chosen k. \<not> good_group sha kn env_name rollouts chosen k"
    if "int (length ?R) < M_ROLLOUTS \<or> int (length ?kept) < M_ROLLOUTS"
  proof (intro allI notI)
    fix chosen k
    assume "good_group sha kn env_name rollouts chosen k"
    from short_pool [OF this subR] short_pool [OF this, of ?kept] sub that show False by auto
  qed
  show ?thesis
  proof (cases "int (length ?R) < M_ROLLOUTS \<or> int (length ?kept) < M_ROLLOUTS")
    case True
    then have "try_select sha kn env_name False rollouts = Inr None" by (auto simp: try_select_def Let_def R2)
    then show ?thesis using none [OF True] by simp
  next
    case False
    have band: "0 \<le> kn_k_min kn" "kn_k_max kn \<le> M_ROLLOUTS" using assms(1,2) by (simp_all add: M_ROLLOUTS_def)
    have "try_select sha kn env_name False rollouts = Inr (map_option (\<lambda>(chosen, k). (chosen, Some k))
        (compose_loop (kn_max_non_btok kn) (cbt ?kept 1) (cnbt ?kept 1) (cbt ?kept 0) (cnbt ?kept 0) (k_order kn)))"
      using False by (simp add: try_select_def Let_def R2)
    then show ?thesis using compose_result [OF kept(1) band] admissible_in_zone assms(1,2)
      by (auto simp: good split: option.splits) (force simp: admissible_def)
  qed
qed

definition sample_baked :: "real \<Rightarrow> int \<Rightarrow> baked" where
  "sample_baked reward t =
     \<lparr> bk_all_tokens = [t, 9], bk_prompt_length = 1, bk_completion_text = [], bk_hidden = [], bk_token_logprobs = [],
       bk_reward = reward, bk_in_eos = True, bk_p_stop = Some 1, bk_q10 = None, bk_median = None, bk_bt_ok = True,
       bk_forced = False, bk_force_span = None \<rparr>"

definition sample_knobs :: knobs where
  "sample_knobs = \<lparr> kn_k_min = 3, kn_k_max = 5, kn_max_non_btok = 0, kn_max_phases = 3, kn_drop_btok0 = True,
     kn_min_q10 = 0, kn_min_median = 0, kn_sigma_margin = 3 / 100, kn_eos_floor = 0 \<rparr>"

definition sample_pool :: "baked list" where
  "sample_pool = map (sample_baked 1) [0, 1, 2] @ map (sample_baked 0) [3, 4, 5, 6, 7]"

theorem composition_sound_and_complete_witness:
  "\<exists>chosen k. try_select (\<lambda>m. m) sample_knobs (Some ''opencodeinstruct'') False sample_pool = Inr (Some (chosen, Some k))
     \<and> good_group (\<lambda>m. m) sample_knobs (Some ''opencodeinstruct'') sample_pool chosen k"
proof -
  let ?e = "Some ''opencodeinstruct''"
  have digest: "token_digest (\<lambda>m. m) (sample_baked x t) = Inr (be_bytes 4 t @ be_bytes 4 9)"
    if "0 \<le> t" "t < 8" for x t
    using that by (simp add: token_digest_def sample_baked_def to_bytes_be_def)
  have beq: "(be_bytes 4 s = be_bytes 4 t) = (s = t)" if "0 \<le> s" "s < 8" "0 \<le> t" "t < 8" for s t
    using be_bytes_inj [of s 4 t] that by auto
  have dist: "distinct (map (token_digest (\<lambda>m. m)) sample_pool)"
    unfolding sample_pool_def by (simp add: digest beq)
  then have inj: "inj_on (token_digest (\<lambda>m. m)) (set sample_pool)" by (simp add: distinct_map)
  have "admissible sample_knobs sample_pool sample_pool 3"
    by (simp add: admissible_def sample_knobs_def sample_pool_def sample_baked_def with_reward_def M_ROLLOUTS_def non_bt_count_def)
  moreover have "\<forall>r \<in> set sample_pool. submittable (\<lambda>m. m) sample_knobs ?e sample_pool r"
    by (auto simp: submittable_def sample_pool_def sample_baked_def passes_local_dist_def sample_knobs_def)
  ultimately have g: "good_group (\<lambda>m. m) sample_knobs ?e sample_pool sample_pool 3" using dist by (simp add: good_group_def)
  have b: "\<forall>r \<in> set sample_pool. \<forall>t \<in> set (bk_all_tokens r). 0 \<le> t \<and> t < 2 ^ 32"
    by (auto simp: sample_pool_def sample_baked_def)
  have k: "1 \<le> kn_k_min sample_knobs" "kn_k_max sample_knobs \<le> 7" by (simp_all add: sample_knobs_def)
  from composition_sound_and_complete [OF k b inj, of ?e False] g
  show ?thesis by (auto split: sum.splits option.splits prod.splits)
qed

section \<open>The composition of a group with partial rewards\<close>

lemma continuous_sound:
  assumes "select_continuous_subset rollouts n target = Some chosen"
  shows "length chosen = n \<and> set chosen \<subseteq> set rollouts \<and> target \<le> std (map bk_reward chosen)"
proof -
  let ?o = "sort_key bk_reward rollouts"
  have c: "chosen = take (n div 2) ?o @ drop (length ?o - (n - n div 2)) ?o" "n \<le> length rollouts"
    "target \<le> std (map bk_reward chosen)"
    using assms by (auto simp: select_continuous_subset_def Let_def not_less split: if_splits)
  then show ?thesis by (auto dest: in_set_takeD in_set_dropD)
qed

text \<open>
  The lower and the upper half are not the widest group. Among nine rollouts of a code prompt there
  are eight whose standard deviation reaches the target, but the routine that takes the four
  lowest and the four highest rewards stays below it and returns nothing, so a group that the
  validator would pay is thrown away.
\<close>

theorem halves_miss_a_payable_group:
  "\<exists>rollouts chosen. length rollouts = 9 \<and> length chosen = 8 \<and> set chosen \<subseteq> set rollouts \<and> distinct chosen
     \<and> (\<forall>r \<in> set rollouts. 0 \<le> bk_reward r \<and> bk_reward r \<le> 1)
     \<and> ZONE_THRESHOLD_STEADY + kn_sigma_margin sample_knobs \<le> std (map bk_reward chosen)
     \<and> select_continuous_subset rollouts 8 (ZONE_THRESHOLD_STEADY + kn_sigma_margin sample_knobs) = None"
proof -
  let ?r = "\<lambda>t x. sample_baked x t"
  define a where "a = [?r 0 0, ?r 1 0, ?r 2 0]"
  define b where "b = [?r 5 (9 / 10), ?r 6 1, ?r 7 1, ?r 8 1]"
  let ?all = "a @ [?r 3 (57 / 100), ?r 4 (9 / 10)] @ b"
  have std_sq: "(46 / 100 \<le> std xs) = (2116 / 10000 \<le> sum_list (map (\<lambda>x. (x - sum_list xs / 8) ^ 2) xs) / 8)"
    if "length xs = 8" for xs
  proof -
    let ?v = "sum_list (map (\<lambda>x. (x - sum_list xs / 8) ^ 2) xs) / (8 :: real)"
    have nonneg: "0 \<le> ?v" by (intro divide_nonneg_nonneg sum_list_nonneg) auto
    have "std xs = sqrt ?v" using that by (simp add: std_def Let_def)
    moreover have "46 / 100 \<le> sqrt ?v \<longleftrightarrow> (46 / 100) ^ 2 \<le> ?v" by (rule sqrt_threshold [OF _ nonneg]) simp
    moreover have "(46 / 100 :: real) ^ 2 = 2116 / 10000" by (simp add: power2_eq_square)
    ultimately show ?thesis by (simp only:)
  qed
  have sorted: "sort_key bk_reward ?all = ?all" by (simp add: a_def b_def sample_baked_def)
  have t: "ZONE_THRESHOLD_STEADY + kn_sigma_margin sample_knobs = 46 / 100"
    by (simp add: ZONE_THRESHOLD_STEADY_def sample_knobs_def)
  have low: "\<not> 46 / 100 \<le> std [0, 0, 0, 57 / 100, 9 / 10, 1, 1, 1]"
    by (subst std_sq) (simp_all add: power2_eq_square)
  have high: "46 / 100 \<le> std [0, 0, 0, 9 / 10, 9 / 10, 1, 1, 1]"
    by (subst std_sq) (simp_all add: power2_eq_square)
  have miss: "select_continuous_subset ?all 8 (46 / 100) = None"
    unfolding select_continuous_subset_def sorted using low by (simp add: a_def b_def sample_baked_def Let_def)
  have hit: "46 / 100 \<le> std (map bk_reward (a @ [?r 4 (9 / 10)] @ b))"
    using high by (simp add: a_def b_def sample_baked_def)
  have "distinct (a @ [?r 4 (9 / 10)] @ b)" by (simp add: a_def b_def sample_baked_def)
  moreover have "\<forall>r \<in> set ?all. 0 \<le> bk_reward r \<and> bk_reward r \<le> 1" by (simp add: a_def b_def sample_baked_def)
  moreover have "length ?all = 9" "length (a @ [?r 4 (9 / 10)] @ b) = 8" by (simp_all add: a_def b_def)
  ultimately show ?thesis using hit miss unfolding t by (intro exI [of _ ?all] exI [of _ "a @ [?r 4 (9 / 10)] @ b"]) auto
qed

end
