(* ===== verification/MinerCommit.thy ===== *)
theory MinerCommit
  imports Selection Merkle MixController
begin

text \<open>
  What the miner signs and sends, from \<open>reliquary/miner/engine.py\<close>: the commit of one rollout
  (\<open>_build_grail_commit\<close>), a pool entry turned into submissions under a Merkle root
  (\<open>_finalize_pool_entry\<close>) and the signed request (\<open>_build_signed_request_sync\<close>). \<open>miner_env\<close> holds the
  proof model's forward pass, the tensor functions, the hash, the text of a float and the
  keypair; the thread pools only run independent calls. A negative index into a tensor counts from its end.
\<close>

section \<open>The environment\<close>

record miner_env =
  me_sha :: "bytes \<Rightarrow> bytes"
  me_shake :: "bytes \<Rightarrow> nat \<Rightarrow> bytes"
  me_torch :: torch_ops
  me_fns :: tensor_fns
  me_rep :: "real \<Rightarrow> string"
  me_other :: "json \<Rightarrow> string"
  me_keypair :: "keypair_ops option"
  me_hotkey :: string
  me_hidden_dim :: int
  me_model_name :: string
  me_forward :: "int list \<Rightarrow> (pyfloat list list \<times> pyfloat list list) res"
  me_pydantic :: pydantic
  me_environ :: environ

definition LAYER_INDEX :: int where "LAYER_INDEX = -1"

section \<open>One commit\<close>

definition token_logprob :: "tensor_fns \<Rightarrow> int list \<Rightarrow> pyfloat list list \<Rightarrow> int \<Rightarrow> pyfloat res" where
  "token_logprob fns all_tokens logits i =
     rbind (py_at logits (i - 1)) (\<lambda>row. rbind (py_at all_tokens i) (\<lambda>tok. py_at (tf_log_softmax fns row) tok))"

text \<open>\<open>for i in range(prompt_length, len(all_tokens))\<close>.\<close>

definition token_logprobs :: "tensor_fns \<Rightarrow> int list \<Rightarrow> nat \<Rightarrow> pyfloat list list \<Rightarrow> pyfloat list res" where
  "token_logprobs fns all_tokens prompt_length logits =
     traverse (token_logprob fns all_tokens logits) (map int [prompt_length..<length all_tokens])"

definition commit_dict :: "miner_env \<Rightarrow> rollout_out \<Rightarrow> json list \<Rightarrow> bytes \<Rightarrow> string \<Rightarrow> pyfloat list \<Rightarrow> fields" where
  "commit_dict me generation commitments signature randomness logprobs =
     [(''tokens'', JList (map JInt (ro_tokens generation))), (''commitments'', JList commitments),
      (''proof_version'', JStr GRAIL_PROOF_VERSION),
      (''model'', JObj [(''name'', JStr (me_model_name me)), (''layer_index'', JInt LAYER_INDEX)]),
      (''signature'', JStr (hex signature)), (''beacon'', JObj [(''randomness'', JStr randomness)]),
      (''rollout'', bft_rollout_metadata generation (map JFloat logprobs))]"

definition commit_signature :: "miner_env \<Rightarrow> int list \<Rightarrow> string \<Rightarrow> json list \<Rightarrow> bytes res" where
  "commit_signature me all_tokens randomness commitments =
     sign_commit_binding (me_sha me) (me_rep me) (me_keypair me) all_tokens randomness (me_model_name me) LAYER_INDEX
       (JList commitments)"

definition build_grail_commit :: "miner_env \<Rightarrow> rollout_out \<Rightarrow> string \<Rightarrow> fields res" where
  "build_grail_commit me generation randomness =
     (let all_tokens = ro_tokens generation; gv = GRAILVerifier (me_hidden_dim me) in
      rbind (me_forward me all_tokens) (\<lambda>(hidden_states, logits).
      rbind (generate_r_vec (me_shake me) gv randomness) (\<lambda>r_vec.
      rbind (create_commitments_batch (me_torch me) gv hidden_states r_vec) (\<lambda>commitments.
      rbind (token_logprobs (me_fns me) all_tokens (ro_prompt_length generation) logits) (\<lambda>lps.
      rbind (commit_signature me all_tokens randomness commitments) (\<lambda>signature.
      Inr (commit_dict me generation commitments signature randomness lps)))))))"

definition build_rollout_submission :: "miner_env \<Rightarrow> (int list \<Rightarrow> string) \<Rightarrow> ('p \<Rightarrow> string \<Rightarrow> pyfloat res) \<Rightarrow> string
    \<Rightarrow> rollout_out \<Rightarrow> 'p \<Rightarrow> string \<Rightarrow> rollout_submission res" where
  "build_rollout_submission me decode compute_reward env_name generation problem randomness =
     rbind (compute_reward problem (decode (drop (ro_prompt_length generation) (ro_tokens generation)))) (\<lambda>reward.
     rbind (build_grail_commit me generation randomness) (\<lambda>commit.
     case RolloutSubmission (me_pydantic me) (JObj
            [(''tokens'', JList (map JInt (ro_tokens generation))), (''reward'', JFloat reward), (''commit'', JObj commit),
             (''env_name'', JStr env_name)]) of
       None \<Rightarrow> Inl ValueError | Some r \<Rightarrow> Inr r))"

section \<open>Merkle roots\<close>

definition legacy_leaf :: "(bytes \<Rightarrow> bytes) \<Rightarrow> (real \<Rightarrow> string) \<Rightarrow> nat \<Rightarrow> rollout_submission \<Rightarrow> bytes res" where
  "legacy_leaf sha rep i r =
     rbind (to_bytes_be 8 (int i)) (\<lambda>index.
       let text = (\<lambda>v. case dumps (float_text True rep) v of None \<Rightarrow> [] | Some t \<Rightarrow> encode t)
       in Inr (sha (index @ text (JList (map JInt (rs_tokens r))) @ text (JFloat (rs_reward r)) @ text (JObj (rs_commit r)))))"

function legacy_tree :: "(bytes \<Rightarrow> bytes) \<Rightarrow> bytes list \<Rightarrow> bytes list" where
  "legacy_tree sha leaves =
     (if 1 < length leaves then legacy_tree sha (map (\<lambda>(left, right). sha (left @ right)) (pairs leaves)) else leaves)"
  by auto
termination by (relation "measure (\<lambda>(sha, leaves). length leaves)") (auto simp: length_pairs)

declare legacy_tree.simps [simp del]

definition compute_merkle_root :: "(bytes \<Rightarrow> bytes) \<Rightarrow> (real \<Rightarrow> string) \<Rightarrow> rollout_submission list \<Rightarrow> string res" where
  "compute_merkle_root sha rep rollouts =
     rbind (traverse (\<lambda>(i, r). legacy_leaf sha rep i r) (enumerate 0 rollouts)) (\<lambda>leaves.
       case legacy_tree sha leaves of [] \<Rightarrow> Inl IndexError | d # _ \<Rightarrow> Inr (hex d))"

definition wire_v2_enabled :: "environ \<Rightarrow> bool" where
  "wire_v2_enabled env = (dget env ''RELIQUARY_WIRE_V2'' ''0'' = ''1'')"

definition wire_protocol_version :: "environ \<Rightarrow> int" where
  "wire_protocol_version env = (if wire_v2_enabled env then 2 else protocol_version env)"

definition submission_value :: "rollout_submission \<Rightarrow> rollout_value" where
  "submission_value r = RObject
     [(''tokens'', JList (map JInt (rs_tokens r))), (''reward'', JFloat (rs_reward r)), (''commit'', JObj (rs_commit r)),
      (''env_name'', JStr (rs_env_name r))]"

definition submission_merkle_root :: "miner_env \<Rightarrow> rollout_submission list \<Rightarrow> string res" where
  "submission_merkle_root me rollout_subs =
     (if wire_v2_enabled (me_environ me)
      then compute_rollouts_merkle_root (me_sha me) (me_rep me) (me_other me) (map submission_value rollout_subs)
      else compute_merkle_root (me_sha me) (me_rep me) rollout_subs)"

section \<open>A pool entry\<close>

record 'p pool_entry =
  pe_prompt_idx :: int
  pe_problem :: 'p
  pe_rollouts :: "baked list"
  pe_checkpoint_n :: int
  pe_env_name :: "string option"

definition env_of_entry :: "string list \<Rightarrow> 'p pool_entry \<Rightarrow> string" where
  "env_of_entry active_envs entry =
     (case pe_env_name entry of None \<Rightarrow> hd active_envs | Some n \<Rightarrow> if n = [] then hd active_envs else n)"

definition generation_of :: "baked \<Rightarrow> rollout_out" where
  "generation_of r =
     \<lparr> ro_tokens = bk_all_tokens r, ro_prompt_length = bk_prompt_length r, ro_forced = bk_forced r,
       ro_force_span = bk_force_span r \<rparr>"

definition finalized_rollout :: "miner_env \<Rightarrow> string \<Rightarrow> string \<Rightarrow> baked \<Rightarrow> json list \<Rightarrow> bytes \<Rightarrow> rollout_submission res" where
  "finalized_rollout me env_name randomness r commitments signature =
     (case RolloutSubmission (me_pydantic me) (JObj
            [(''tokens'', JList (map JInt (bk_all_tokens r))), (''reward'', JFloat (Fin (bk_reward r))),
             (''commit'', JObj (commit_dict me (generation_of r) commitments signature randomness (bk_token_logprobs r))),
             (''env_name'', JStr env_name)]) of
       None \<Rightarrow> Inl ValueError | Some s \<Rightarrow> Inr s)"

text \<open>A thread pool of no workers is an error.\<close>

definition finalize_pool_entry :: "miner_env \<Rightarrow> string list \<Rightarrow> 'p pool_entry \<Rightarrow> string
    \<Rightarrow> (rollout_submission list \<times> string) res" where
  "finalize_pool_entry me active_envs entry randomness =
     (let gv = GRAILVerifier (me_hidden_dim me); rollouts = pe_rollouts entry in
      rbind (generate_r_vec (me_shake me) gv randomness) (\<lambda>r_vec.
      rbind (traverse (\<lambda>r. create_commitments_batch (me_torch me) gv (bk_hidden r) r_vec) rollouts) (\<lambda>commitments.
      if rollouts = [] then Inl ValueError
      else rbind (traverse (\<lambda>(r, cs). commit_signature me (bk_all_tokens r) randomness cs) (zip rollouts commitments))
        (\<lambda>signatures.
        rbind (traverse (\<lambda>(r, cs, sg). finalized_rollout me (env_of_entry active_envs entry) randomness r cs sg)
                 (zip rollouts (zip commitments signatures))) (\<lambda>rollout_subs.
        rbind (submission_merkle_root me rollout_subs) (\<lambda>mroot. Inr (rollout_subs, mroot)))))))"

section \<open>The signed request\<close>

definition request_envelope :: "miner_env \<Rightarrow> string \<Rightarrow> int \<Rightarrow> int \<Rightarrow> string \<Rightarrow> string \<Rightarrow> string \<Rightarrow> int \<Rightarrow> envelope" where
  "request_envelope me root_hex prompt_idx window_n randomness ckpt_hash nonce current_round =
     (let profile = generation_profile_id (me_environ me); version = wire_protocol_version (me_environ me) in
      \<lparr> env_hotkey = me_hotkey me, env_window = window_n, env_prompt = prompt_idx, env_merkle_root = root_hex,
        env_checkpoint = ckpt_hash, env_round = current_round, env_randomness = randomness, env_nonce = nonce,
        env_protocol = (if profile \<noteq> [] \<or> wire_v2_enabled (me_environ me) then Some version else None),
        env_profile = profile \<rparr>)"

definition rollout_json :: "rollout_submission \<Rightarrow> json" where
  "rollout_json r = JObj
     [(''tokens'', JList (map JInt (rs_tokens r))), (''reward'', JFloat (rs_reward r)), (''commit'', JObj (rs_commit r)),
      (''env_name'', JStr (rs_env_name r))]"

definition build_signed_request :: "miner_env \<Rightarrow> int res \<Rightarrow> string \<Rightarrow> rollout_submission list \<Rightarrow> string \<Rightarrow> int \<Rightarrow> int
    \<Rightarrow> string \<Rightarrow> string \<Rightarrow> (int \<times> batch_submission_request) res" where
  "build_signed_request me drand_round ckpt_hash rollouts root_hex prompt_idx window_n randomness nonce =
     rbind drand_round (\<lambda>current_round.
     rbind (sign_envelope (me_sha me) (me_keypair me)
              (request_envelope me root_hex prompt_idx window_n randomness ckpt_hash nonce current_round)) (\<lambda>envelope_sig.
     case BatchSubmissionRequest (me_pydantic me) (JObj
            [(''miner_hotkey'', JStr (me_hotkey me)), (''prompt_idx'', JInt prompt_idx), (''window_start'', JInt window_n),
             (''merkle_root'', JStr root_hex), (''rollouts'', JList (map rollout_json rollouts)),
             (''checkpoint_hash'', JStr ckpt_hash), (''drand_round'', JInt current_round), (''nonce'', JStr nonce),
             (''envelope_signature'', JStr (hex envelope_sig)),
             (''protocol_version'', JInt (wire_protocol_version (me_environ me))),
             (''generation_profile_id'', JStr (generation_profile_id (me_environ me)))]) of
       None \<Rightarrow> Inl ValueError | Some req \<Rightarrow> Inr (current_round, req)))"

section \<open>What the validator reads in a commit\<close>

lemma p_list_map: "(\<And>x. x \<in> set xs \<Longrightarrow> parse (f x) = Some (g x)) \<Longrightarrow> p_list parse (JList (map f xs)) = Some (map g xs)"
  unfolding p_list_def json.case by (induction xs) auto

lemma p_list_ints: "pydantic_lawful pd \<Longrightarrow> p_list (pyd_int pd) (JList (map JInt xs)) = Some xs"
  using p_list_map [of xs "pyd_int pd" JInt "\<lambda>x. x"] by (simp add: pydantic_lawful_def)

lemma p_list_floats: "pydantic_lawful pd \<Longrightarrow> p_list (pyd_float pd) (JList (map JFloat xs)) = Some xs"
  using p_list_map [of xs "pyd_float pd" JFloat "\<lambda>x. x"] by (simp add: pydantic_lawful_def)

lemma p_list_dicts: "p_list p_dict (JList (map JObj xs)) = Some xs"
  using p_list_map [of xs p_dict JObj "\<lambda>x. x"] by (simp add: p_dict_def)

lemma json_ints_ints: "json_ints (JList (map JInt xs)) = Inr xs"
  unfolding json_ints_def jlist.simps rbind.simps by (induction xs) simp_all

lemma commit_dict_fields:
  "jindex (JObj (commit_dict me g cs sig r lps)) ''tokens'' = Inr (JList (map JInt (ro_tokens g)))"
  "jindex (JObj (commit_dict me g cs sig r lps)) ''commitments'' = Inr (JList cs)"
  "jindex (JObj (commit_dict me g cs sig r lps)) ''signature'' = Inr (JStr (hex sig))"
  "jget (JObj (commit_dict me g cs sig r lps)) ''proof_version'' d = Inr (JStr GRAIL_PROOF_VERSION)"
  "jget (JObj (commit_dict me g cs sig r lps)) ''beacon'' d = Inr (JObj [(''randomness'', JStr r)])"
  "jget (JObj (commit_dict me g cs sig r lps)) ''model'' d
     = Inr (JObj [(''name'', JStr (me_model_name me)), (''layer_index'', JInt LAYER_INDEX)])"
  "jget (JObj (commit_dict me g cs sig r lps)) ''rollout'' d = Inr (bft_rollout_metadata g (map JFloat lps))"
  by (simp_all add: commit_dict_def jindex_def jget_def dget_def)

lemma metadata_fields:
  "jget (bft_rollout_metadata g lps) ''prompt_length'' d = Inr (JInt (int (ro_prompt_length g)))"
  "jget (bft_rollout_metadata g lps) ''completion_length'' d
     = Inr (JInt (int (length (ro_tokens g)) - int (ro_prompt_length g)))"
  "jget (bft_rollout_metadata g lps) ''token_logprobs'' d = Inr (JList lps)"
  "truthy (bft_rollout_metadata g lps)"
  by (simp_all add: bft_rollout_metadata_def jget_def dget_def)

lemma hex_is_hex: "hex_string (hex bs)"
proof -
  have "is_hex_char (hex_digit n)" if "n < 16" for n using hex_digit_cases [OF that] by (simp add: is_hex_char_def)
  then have "list_all is_hex_char (hex_of_byte b)" for b using unat_byte_split by (simp add: hex_of_byte_def)
  then show ?thesis unfolding hex_string_def hex_def by (induction bs) simp_all
qed

text \<open>The schema accepts a commit with 32 tokens or more, one sketch per token and one log-probability per completion token.\<close>

lemma commit_schema:
  assumes "pydantic_lawful pd" and "32 \<le> length (ro_tokens g)" and "length cs = length (ro_tokens g)"
    and "ro_prompt_length g < length (ro_tokens g)" and "int (length (ro_tokens g)) - int (ro_prompt_length g) \<le> cap"
    and "length lps = length (ro_tokens g) - ro_prompt_length g" and "sig \<noteq> []" and "r \<noteq> []" and "hex_string r"
  shows "CommitModel pd cap (JObj (commit_dict me g (map JObj cs) sig r lps)) \<noteq> None"
proof -
  have h: "hex_string (hex sig)" by (rule hex_is_hex)
  have h0: "hex sig \<noteq> []" using assms(7) by (metis fromhex.simps(1) fromhex_hex sum.inject(2))
  have span: "\<exists>s. (p_null (p_list (pyd_int pd)) (case ro_force_span g of Some (a, b) \<Rightarrow> JList [JInt (int a), JInt (int b)] | None \<Rightarrow> JNull)) = Some s"
    using p_list_ints [OF assms(1), of "[int a, int b]" for a b] by (auto simp: p_null_def split: option.splits)
  then obtain s where s: "(p_null (p_list (pyd_int pd)) (case ro_force_span g of Some (a, b) \<Rightarrow> JList [JInt (int a), JInt (int b)] | None \<Rightarrow> JNull)) = Some s" ..
  let ?m = "\<lparr> rm_prompt_length = int (ro_prompt_length g), rm_completion_length = int (length (ro_tokens g)) - int (ro_prompt_length g),
      rm_success = True, rm_total_reward = Fin 0, rm_advantage = Fin 0, rm_token_logprobs = lps, rm_forced = ro_forced g,
      rm_force_span = s, rm_truncated = False \<rparr>"
  have meta: "RolloutMetadata pd cap (bft_rollout_metadata g (map JFloat lps)) = Some ?m"
    using assms(1,4,5) s p_list_floats [OF assms(1), of lps]
    by (simp add: RolloutMetadata_def bft_rollout_metadata_def as_model_def required_def optional_def p_nonneg_def
        pydantic_lawful_def guard_def)
  have cons: "lengths_consistent (ro_tokens g) ?m" using assms(4,6) by (simp add: lengths_consistent_def of_nat_diff)
  show ?thesis
    using assms(1-3,8,9) h h0 meta cons p_list_ints [OF assms(1), of "ro_tokens g"] p_list_dicts [of cs]
    by (simp add: CommitModel_def commit_dict_def as_model_def required_def guard_def p_str_def ModelInfo_def BeaconInfo_def
        pydantic_lawful_def CHALLENGE_K_def commitments_len_matches_tokens_def GRAIL_PROOF_VERSION_def)
qed

lemma commit_signature_verifies:
  assumes "me_keypair me = Some kp" and "kp_lawful kp (me_hotkey me)"
    and "commit_signature me (ro_tokens g) r cs = Inr sig"
  shows "verify_commit_signature (me_sha me) (me_rep me) (me_keypair me) (JObj (commit_dict me g cs sig r lps)) (me_hotkey me) = Inr True"
proof -
  obtain m where m: "build_commit_binding (me_sha me) (me_rep me) (ro_tokens g) r (me_model_name me) LAYER_INDEX (JList cs) = Inr m"
    "sig = kp_sign kp m"
    using assms(1,3) by (auto simp: commit_signature_def sign_commit_binding_def rbind_eq_Inr)
  have "commit_message (me_sha me) (me_rep me) (JObj (commit_dict me g cs sig r lps)) = Inr m"
    by (simp add: commit_message_def commit_dict_fields m(1) json_ints_ints)
      (use m(1) in \<open>auto simp: jindex_def jget_def dget_def json_str_def\<close>)
  then show ?thesis using assms(1,2) m(2)
    by (simp add: verify_commit_signature_def commit_dict_fields json_str_def fromhex_hex kp_lawful_def)
qed

end
