(* ===== verification/HonestMiner.thy ===== *)
theory HonestMiner
  imports MinerCommit Batcher
begin

text \<open>
  The miner against the validator: what the commit built by theory MinerCommit meets in the
  checks of theory Batcher when both run the same model stack.
\<close>

section \<open>Both sides on one stack\<close>

definition same_stack :: "miner_env \<Rightarrow> 'p batcher_env \<Rightarrow> bool" where
  "same_stack me be =
     (let ve = be_verifier be in
      ve_sha ve = me_sha me \<and> ve_shake ve = me_shake me \<and> ve_torch ve = me_torch me \<and> ve_fns ve = me_fns me
      \<and> ve_forward ve = me_forward me \<and> resolve_hidden_size (ve_config ve) (ve_emb_shape ve) = Inr (me_hidden_dim me)
      \<and> (\<forall>c h. be_verify_signature be c h = verify_signature (me_sha me) (me_rep me) (me_keypair me) c h)
      \<and> (\<forall>c r. be_verify_commitment be c r = verify_commitment_proofs ve c r))"

text \<open>What the libraries of that stack promise.\<close>

definition stack_lawful :: "miner_env \<Rightarrow> 'p batcher_env \<Rightarrow> bool" where
  "stack_lawful me be =
     (rng_lawful (ve_rng (be_verifier be)) \<and> torch_lawful (me_torch me) \<and> pydantic_lawful (be_pydantic be)
      \<and> (\<forall>m. length (me_sha me m) = 32) \<and> (\<forall>m n. length (me_shake me m n) = n) \<and> (\<forall>xs. tf_sorted (me_fns me) (map Fin xs) = map Fin (sort xs))
      \<and> (\<exists>kp. me_keypair me = Some kp \<and> kp_lawful kp (me_hotkey me) \<and> (\<forall>m. kp_sign kp m \<noteq> [])))"

text \<open>
  A rollout the model can have produced: a prompt, at least 32 tokens of completion within the cap, one hidden state and one row
  of logits per token, and finite log-probabilities; the randomness is hexadecimal.
\<close>

definition regular_rollout :: "miner_env \<Rightarrow> 'p batcher_env \<Rightarrow> rollout_out \<Rightarrow> string \<Rightarrow> bool" where
  "regular_rollout me be g rand =
     (let n = length (ro_tokens g) in
      0 < ro_prompt_length g \<and> ro_prompt_length g + 32 \<le> n \<and> int (n - ro_prompt_length g) \<le> be_cap be
      \<and> rand \<noteq> [] \<and> hex_string rand \<and> length rand < 2 ^ 32
      \<and> (\<exists>hidden logits. me_forward me (ro_tokens g) = Inr (hidden, logits) \<and> length hidden = n \<and> length logits = n
           \<and> (\<forall>row \<in> set logits. \<forall>x \<in> set (tf_log_softmax (me_fns me) row). \<exists>a. x = Fin a)))"

section \<open>Challenges exist\<close>

lemma clean_hex_bytes:
  assumes "rand \<noteq> []" and "hex_string rand"
  shows "\<exists>c rb. clean_hex rand = Inr c \<and> fromhex c = Inr rb \<and> length rb \<le> length rand"
proof -
  have hex: "list_all is_hex_char (pad_even rand)" "even (length (pad_even rand))"
    using assms(2) by (auto simp: pad_even_def hex_string_def is_hex_char_def hex_value_def)
  obtain rb where rb: "fromhex (pad_even rand) = Inr rb" "2 * length rb = length (pad_even rand)"
    using fromhex_total [OF hex] by blast
  have "length (pad_even rand) \<le> length rand + 1" by (simp add: pad_even_def)
  moreover have "1 \<le> length rand" using assms(1) by (cases rand) auto
  ultimately have "length rb \<le> length rand" using rb(2) by linarith
  moreover have "strip_0x rand = rand" using assms(2) by (simp add: strip_0x_hex hex_string_def)
  ultimately show ?thesis using assms(1) rb(1) by (simp add: clean_hex_def)
qed

lemma challenge_defined:
  assumes "rand \<noteq> []" and "hex_string rand" and "length rand < 2 ^ 32" and "\<forall>m. length (sha m) = 32"
    and "0 < k" and "k \<le> n" and "tokens \<noteq> []"
  shows "\<exists>idxs. indices_from_root sha shake rng tokens rand n k = Inr idxs"
proof -
  obtain c rb where c: "clean_hex rand = Inr c" "fromhex c = Inr rb" "length rb \<le> length rand"
    using clean_hex_bytes [OF assms(1,2)] by blast
  have "list_all (fits 4) [RNG_LABEL_open, hash_tokens sha tokens, rb]"
    using c(3) assms(3,4) by (simp add: fits_def hash_tokens_def label_open)
  then have "\<exists>m. prf_shake shake RNG_LABEL_open [hash_tokens sha tokens, rb] 32 = Inr m"
    by (simp add: prf_shake_def prf_input_def frame_Inr res_simps)
  then show ?thesis using c assms(5-7) by (auto simp: indices_from_root_def)
qed

section \<open>The projection vector and the sketches\<close>

lemma length_words16: "length (words16 bs) = length bs div 2"
  by (induction bs rule: words16.induct) auto

lemma r_vec_shape:
  assumes "\<forall>m n. length (shake m n) = n" and "generate_r_vec shake (GRAILVerifier d) rand = Inr r_vec"
  shows "length r_vec = 16 \<and> (\<forall>r \<in> set r_vec. \<bar>r\<bar> \<le> 127)"
proof -
  obtain rb raw where raw: "prf_shake shake RNG_LABEL_sketch [rb] 32 = Inr raw"
    and r: "r_vec = map (r_coeff 127) (take 16 (words16 raw))"
    using assms(2) by (auto simp: generate_r_vec_def GRAILVerifier_def rbind_eq_Inr PROOF_TOPK_def PROOF_COEFF_RANGE_def)
  have "length raw = 32" using raw assms(1) by (auto simp: prf_shake_def rbind_eq_Inr split: if_splits)
  then show ?thesis using r r_coeff_range [of 127] by (auto simp: length_words16)
qed

lemma batch_objects:
  "create_commitments_batch tc gv hs r = Inr cs \<Longrightarrow> \<exists>kvs. cs = map JObj kvs"
proof -
  assume "create_commitments_batch tc gv hs r = Inr cs"
  then obtain ss where "cs = map (\<lambda>s. JObj [(''sketch'', JInt (s mod PRIME_Q))]) ss"
    by (auto simp: create_commitments_batch_def rbind_eq_Inr)
  then have "cs = map JObj (map (\<lambda>s. [(''sketch'', JInt (s mod PRIME_Q))]) ss)" by simp
  then show ?thesis by blast
qed

section \<open>The log-probability claim\<close>

lemma token_logprobs_nth:
  assumes "token_logprobs fns toks pl logits = Inr lps" and "pl \<le> i" "i < length toks"
  shows "length lps = length toks - pl \<and> token_logprob fns toks logits (int i) = Inr (lps ! (i - pl))"
proof -
  have all: "list_all2 (\<lambda>i x. token_logprob fns toks logits i = Inr x) (map int [pl..<length toks]) lps"
    using assms(1) by (simp add: token_logprobs_def traverse_Inr_iff)
  then have len: "length lps = length toks - pl" by (auto dest: list_all2_lengthD)
  have "token_logprob fns toks logits (map int [pl..<length toks] ! (i - pl)) = Inr (lps ! (i - pl))"
    using list_all2_nthD [OF all, of "i - pl"] assms(2,3) by simp
  then show ?thesis using len assms(2,3) by simp
qed

lemma py_at_member: "py_at xs i = Inr x \<Longrightarrow> x \<in> set xs"
  unfolding py_at_def Let_def in_set_conv_nth
  by (cases "0 \<le> i") (auto split: if_splits intro: exI [of _ "nat i"] exI [of _ "nat (i + int (length xs))"])

lemma honest_deviation:
  assumes lps: "token_logprobs fns toks pl logits = Inr lps" and i: "0 < pl" "pl \<le> i" "i < length toks"
    and len: "length logits = length toks" and fin: "\<forall>row \<in> set logits. \<forall>x \<in> set (tf_log_softmax fns row). \<exists>a. x = Fin a"
  shows "logprob_dev fns (map JInt toks) (map JFloat lps) (int pl) logits (int i) = Inr (Fin 0)"
proof -
  have n: "length lps = length toks - pl" "token_logprob fns toks logits (int i) = Inr (lps ! (i - pl))"
    using token_logprobs_nth [OF lps i(2,3)] by simp_all
  have row: "py_at logits (int i - 1) = Inr (logits ! (i - 1))" using py_at_Inr [of "int i - 1" logits] i len
    by (simp add: nat_diff_distrib)
  have tok: "py_at toks (int i) = Inr (toks ! i)" "py_at (map JInt toks) (int i) = Inr (JInt (toks ! i))"
    using i(3) by (simp_all add: py_at_Inr)
  have x: "py_at (tf_log_softmax fns (logits ! (i - 1))) (toks ! i) = Inr (lps ! (i - pl))"
    using n(2) row tok by (simp add: token_logprob_def)
  then have "lps ! (i - pl) \<in> set (tf_log_softmax fns (logits ! (i - 1)))"
    by (rule py_at_member)
  moreover have "logits ! (i - 1) \<in> set logits" using i len by simp
  ultimately obtain a where a: "lps ! (i - pl) = Fin a" using fin by blast
  have "py_at (map JFloat lps) (int i - int pl) = Inr (JFloat (Fin a))"
    using py_at_Inr [of "int i - int pl" "map JFloat lps"] i n(1) a by (simp add: nat_diff_distrib)
  then show ?thesis using x row tok a
    by (simp add: logprob_dev_def jfloat_def math_exp_def DBL_MAX_def)
qed

lemma honest_deviations:
  assumes "token_logprobs fns toks pl logits = Inr lps" and "0 < pl" and "length logits = length toks"
    and "\<forall>row \<in> set logits. \<forall>x \<in> set (tf_log_softmax fns row). \<exists>a. x = Fin a"
    and "\<forall>i \<in> set idxs. int pl \<le> i \<and> i < int (length toks)"
  shows "logprob_devs fns (map JInt toks) (map JFloat lps) (int pl) logits idxs = Inr (Some (replicate (length idxs) (Fin 0)))"
  using assms(5)
proof (induction idxs)
  case Nil
  then show ?case by simp
next
  case (Cons i idxs)
  then have i: "pl \<le> nat i" "nat i < length toks" "int (nat i) = i" by (auto simp: nat_less_iff)
  have "logprob_dev fns (map JInt toks) (map JFloat lps) (int pl) logits i = Inr (Fin 0)"
    using honest_deviation [OF assms(1,2) i(1,2) assms(3,4)] i(3) by simp
  moreover have "\<not> (i - 1 < 0 \<or> int (length logits) \<le> i - 1)" using Cons.prems assms(2,3) by auto
  ultimately show ?case using Cons by simp
qed

lemma honest_logprobs_accepted:
  assumes lawful: "\<forall>m. length (ve_sha ve m) = 32" "\<forall>xs. tf_sorted (ve_fns ve) (map Fin xs) = map Fin (sort xs)" "rng_lawful (ve_rng ve)"
    and rand: "rand \<noteq> []" "hex_string rand" "length rand < 2 ^ 32"
    and lps: "token_logprobs (ve_fns ve) toks pl logits = Inr lps" and len: "0 < pl" "pl + 32 \<le> length toks" "length logits = length toks"
    and fin: "\<forall>row \<in> set logits. \<forall>x \<in> set (tf_log_softmax (ve_fns ve) row). \<exists>a. x = Fin a"
  shows "verify_logprobs_claim ve (map JInt toks) (int pl) (int (length toks) - int pl) (map JFloat lps) logits rand = Inr (True, Fin 0)"
proof -
  have n: "length lps = length toks - pl" using token_logprobs_nth [OF lps, of pl] len by simp
  have "\<exists>rel. indices_from_root (ve_sha ve) (ve_shake ve) (ve_rng ve) toks rand (int (length toks) - int pl) 32 = Inr rel"
    using len(2) by (intro challenge_defined rand lawful(1)) auto
  then obtain idxs where idxs: "indices_from_root_in_range (ve_sha ve) (ve_shake ve) (ve_rng ve) toks rand (int pl) (int (length toks)) 32 = Inr idxs"
    using len(2) by (auto simp: indices_from_root_in_range_def min_def)
  from indices_in_range_props [OF lawful(3) this] len(2)
  have ix: "set idxs \<subseteq> {int pl..<int (length toks)}" "length idxs = 32" by auto
  have devs: "logprob_devs (ve_fns ve) (map JInt toks) (map JFloat lps) (int pl) logits idxs = Inr (Some (replicate 32 (Fin 0)))"
    using honest_deviations [OF lps len(1,3) fin, of idxs] ix(1) unfolding ix(2) by (simp add: subset_iff)
  have "tf_sorted (ve_fns ve) (map Fin (replicate 32 0)) = map Fin (sort (replicate 32 0))" using lawful(2) by blast
  then have srt: "tf_sorted (ve_fns ve) (replicate 32 (Fin 0)) = replicate 32 (Fin 0)" by (simp add: sorted_sort_id)
  have med: "median (ve_fns ve) (replicate 32 (Fin 0)) = Inr (Fin 0)"
    by (simp add: median_def srt pf_scale_def pf_add_def)
  have ints: "traverse (\<lambda>t. case as_int t of None \<Rightarrow> Inl TypeError | Some i \<Rightarrow> Inr i) (map JInt toks) = Inr toks"
    by (induction toks) simp_all
  have "length toks - pl \<noteq> length toks" using len by simp
  then show ?thesis using n len(2) ix(2) by (simp add: verify_logprobs_claim_def CHALLENGE_K_def ints idxs devs med LOGPROB_IS_EPS_def)
qed

section \<open>An honest rollout in the checks\<close>

lemma built_commit:
  assumes "build_grail_commit me g rand = Inr commit"
  shows "\<exists>hidden logits r_vec cs lps sig. me_forward me (ro_tokens g) = Inr (hidden, logits)
    \<and> generate_r_vec (me_shake me) (GRAILVerifier (me_hidden_dim me)) rand = Inr r_vec
    \<and> create_commitments_batch (me_torch me) (GRAILVerifier (me_hidden_dim me)) hidden r_vec = Inr cs
    \<and> token_logprobs (me_fns me) (ro_tokens g) (ro_prompt_length g) logits = Inr lps
    \<and> commit_signature me (ro_tokens g) rand cs = Inr sig \<and> commit = commit_dict me g cs sig rand lps"
  using assms by (auto simp: build_grail_commit_def Let_def rbind_eq_Inr)

lemma proof_logits:
  assumes "verify_commitment_proofs ve commit rand = Inr r" and "rbind (jindex commit ''tokens'') json_ints = Inr toks"
    and "ve_forward ve toks = Inr (hidden, logits)"
  shows "pr_logits r = logits"
  using assms by (auto simp: verify_commitment_proofs_def rbind_eq_Inr Let_def)

lemma signed_nonempty: "me_keypair me = Some kp \<Longrightarrow> \<forall>m. kp_sign kp m \<noteq> [] \<Longrightarrow> commit_signature me toks rand cs = Inr sig \<Longrightarrow> sig \<noteq> []"
  by (auto simp: commit_signature_def sign_commit_binding_def rbind_eq_Inr)

lemma honest_checks:
  assumes stack: "same_stack me be" and lawful: "stack_lawful me be" and reg: "regular_rollout me be g rand"
    and built: "build_grail_commit me g rand = Inr commit"
  shows "CommitModel (be_pydantic be) (be_cap be) (JObj commit) \<noteq> None
    \<and> be_verify_signature be (JObj commit) (me_hotkey me) = Inr True
    \<and> (\<exists>p lps logits. be_verify_commitment be (JObj commit) rand = Inr p \<and> pr_all_passed p \<and> pr_logits p = logits
         \<and> jget (JObj commit) ''rollout'' (JObj []) = Inr (bft_rollout_metadata g (map JFloat lps))
         \<and> verify_logprobs_claim (be_verifier be) (map JInt (ro_tokens g)) (int (ro_prompt_length g))
              (int (length (ro_tokens g)) - int (ro_prompt_length g)) (map JFloat lps) logits rand = Inr (True, Fin 0))"
proof -
  let ?ve = "be_verifier be" and ?gv = "GRAILVerifier (me_hidden_dim me)"
  obtain hidden logits r_vec cs lps sig where b: "me_forward me (ro_tokens g) = Inr (hidden, logits)"
    "generate_r_vec (me_shake me) ?gv rand = Inr r_vec" "create_commitments_batch (me_torch me) ?gv hidden r_vec = Inr cs"
    "token_logprobs (me_fns me) (ro_tokens g) (ro_prompt_length g) logits = Inr lps"
    "commit_signature me (ro_tokens g) rand cs = Inr sig" "commit = commit_dict me g cs sig rand lps"
    using built_commit [OF built] by blast
  have n: "length hidden = length (ro_tokens g)" "length logits = length (ro_tokens g)"
    "\<forall>row \<in> set logits. \<forall>x \<in> set (tf_log_softmax (me_fns me) row). \<exists>a. x = Fin a"
    "0 < ro_prompt_length g" "ro_prompt_length g + 32 \<le> length (ro_tokens g)"
    "int (length (ro_tokens g) - ro_prompt_length g) \<le> be_cap be" "rand \<noteq> []" "hex_string rand" "length rand < 2 ^ 32"
    using reg b(1) by (auto simp: regular_rollout_def Let_def)
  have v: "ve_sha ?ve = me_sha me" "ve_shake ?ve = me_shake me" "ve_torch ?ve = me_torch me" "ve_fns ?ve = me_fns me"
    "ve_forward ?ve = me_forward me" "resolve_hidden_size (ve_config ?ve) (ve_emb_shape ?ve) = Inr (me_hidden_dim me)"
    "\<And>c h. be_verify_signature be c h = verify_signature (me_sha me) (me_rep me) (me_keypair me) c h"
    "\<And>c r. be_verify_commitment be c r = verify_commitment_proofs ?ve c r"
    using stack by (auto simp: same_stack_def Let_def)
  have l: "rng_lawful (ve_rng ?ve)" "torch_lawful (me_torch me)" "pydantic_lawful (be_pydantic be)"
    "\<forall>m. length (me_sha me m) = 32" "\<forall>m n. length (me_shake me m n) = n"
    "\<forall>xs. tf_sorted (me_fns me) (map Fin xs) = map Fin (sort xs)"
    using lawful by (auto simp: stack_lawful_def)
  obtain kp where kp: "me_keypair me = Some kp" "kp_lawful kp (me_hotkey me)" "\<forall>m. kp_sign kp m \<noteq> []"
    using lawful by (auto simp: stack_lawful_def)
  have each: "traverse (\<lambda>h. create_commitment (me_torch me) ?gv h r_vec) hidden = Inr cs"
    using b(3) batch_commitments_equal_loop [OF l(2), of r_vec] r_vec_shape [OF l(5) b(2)] by simp
  then have ncs: "length cs = length (ro_tokens g)" using n(1) by (auto dest: traverse_length)
  obtain kvs where kvs: "cs = map JObj kvs" using batch_objects [OF b(3)] by blast
  have nlps: "length lps = length (ro_tokens g) - ro_prompt_length g"
    using token_logprobs_nth [OF b(4), of "ro_prompt_length g"] n(5) by simp
  have schema: "CommitModel (be_pydantic be) (be_cap be) (JObj commit) \<noteq> None"
    unfolding b(6) kvs using n ncs nlps kvs signed_nonempty [OF kp(1,3) b(5)]
    by (intro commit_schema l(3)) auto
  have toks: "rbind (jindex (JObj commit) ''tokens'') json_ints = Inr (ro_tokens g)"
    "rbind (jindex (JObj commit) ''commitments'') jlist = Inr cs"
    by (simp_all add: b(6) commit_dict_fields json_ints_ints)
  have "\<exists>idxs. indices_from_root (me_sha me) (me_shake me) (ve_rng ?ve) (ro_tokens g) rand (int (length (ro_tokens g)))
      (min 32 (int (length (ro_tokens g)))) = Inr idxs"
    using n(5) by (intro challenge_defined n(7-9) l(4)) auto
  then obtain p where p: "verify_commitment_proofs ?ve (JObj commit) rand = Inr p" "pr_all_passed p"
    using honest_proof [of ?ve "JObj commit" "ro_tokens g" cs "me_hidden_dim me" rand r_vec _ hidden logits] l(1) toks v b(1,2) n(1) each
    by auto
  have lp: "verify_logprobs_claim ?ve (map JInt (ro_tokens g)) (int (ro_prompt_length g))
      (int (length (ro_tokens g)) - int (ro_prompt_length g)) (map JFloat lps) logits rand = Inr (True, Fin 0)"
    using l(1,4,6) n b(4) by (intro honest_logprobs_accepted) (simp_all add: v)
  have sig: "be_verify_signature be (JObj commit) (me_hotkey me) = Inr True"
    unfolding v(7) verify_signature_def b(6) by (rule commit_signature_verifies [OF kp(1,2) b(5)])
  have "pr_logits p = logits" using proof_logits [OF p(1) toks(1)] b(1) v(5) by auto
  then show ?thesis using schema sig p lp v(8) by (auto simp: b(6) commit_dict_fields)
qed

section \<open>The verdict\<close>

lemma honest_behaviour:
  assumes "jget commit ''rollout'' (JObj []) = Inr (bft_rollout_metadata g (map JFloat lps))"
    and "verify_logprobs_claim (be_verifier be) tokens (int (ro_prompt_length g))
           (int (length (ro_tokens g)) - int (ro_prompt_length g)) (map JFloat lps) logits rand = Inr (True, x)"
  shows "check_behaviour be rand commit tokens logits tm \<noteq> Inr (Reject LOGPROB_MISMATCH)
    \<and> (\<forall>reason. check_behaviour be rand commit tokens logits tm = Inr (Reject reason) \<longrightarrow> reason = DISTRIBUTION_SUSPICIOUS)"
proof -
  have lp: "jget_or (bft_rollout_metadata g (map JFloat lps)) ''token_logprobs'' (JList []) = Inr (JList (map JFloat lps))"
    by (cases lps) (simp_all add: jget_or_def metadata_fields)
  have meta: "jget_or commit ''rollout'' (JObj []) = Inr (bft_rollout_metadata g (map JFloat lps))"
    using assms(1) by (simp add: jget_or_def metadata_fields)
  show ?thesis using assms(2)
    by (auto simp: check_behaviour_def meta lp metadata_fields rbind_eq_Inr Let_def split: if_splits)
qed

lemma honest_survives:
  assumes "same_stack me be" and "stack_lawful me be" and "regular_rollout me be g rand"
    and "build_grail_commit me g rand = Inr (rs_commit r)"
    and rejected: "check_rollout be rand (me_hotkey me) canonical r tm = Inr (Reject reason)"
  shows "reason \<in> {BAD_TOKENS, PROMPT_MISMATCH, BAD_TERMINATION, DISTRIBUTION_SUSPICIOUS}"
proof -
  from honest_checks [OF assms(1-4)] obtain p lps logits where h:
    "CommitModel (be_pydantic be) (be_cap be) (JObj (rs_commit r)) \<noteq> None"
    "be_verify_signature be (JObj (rs_commit r)) (me_hotkey me) = Inr True"
    "be_verify_commitment be (JObj (rs_commit r)) rand = Inr p" "pr_all_passed p" "pr_logits p = logits"
    "jget (JObj (rs_commit r)) ''rollout'' (JObj []) = Inr (bft_rollout_metadata g (map JFloat lps))"
    "verify_logprobs_claim (be_verifier be) (map JInt (ro_tokens g)) (int (ro_prompt_length g))
       (int (length (ro_tokens g)) - int (ro_prompt_length g)) (map JFloat lps) logits rand = Inr (True, Fin 0)"
    by blast
  have toks: "rbind (jindex (JObj (rs_commit r)) ''tokens'') jlist = Inr (map JInt (ro_tokens g))"
    using built_commit [OF assms(4)] by (auto simp: commit_dict_fields)
  show ?thesis using rejected h(1-5) honest_behaviour [OF h(6,7)]
    by (auto simp: check_rollout_def toks rbind_eq_Inr Let_def split: if_splits)
qed

text \<open>
  C5. Completeness of the protocol between honest parties. When miner and validator run the same
  stack (equal forward passes, libraries that keep their documented promises), the commit that
  \<open>_build_grail_commit\<close> produces for a rollout of at least one prompt token and 32 to \<open>cap\<close> completion
  tokens is never rejected for its schema, its signature, its GRAIL proof or its log-probabilities:
  the only verdicts left are those on the tokens themselves, the prompt, the termination and the distribution.
\<close>

theorem honest_rollout_survives:
  assumes "same_stack me be" and "stack_lawful me be" and "regular_rollout me be g rand"
    and "build_grail_commit me g rand = Inr (rs_commit r)"
    and "check_rollout be rand (me_hotkey me) canonical r tm = Inr (Reject reason)"
  shows "reason \<in> {BAD_TOKENS, PROMPT_MISMATCH, BAD_TERMINATION, DISTRIBUTION_SUSPICIOUS}"
  using honest_survives [OF assms] .

section \<open>A concrete pair\<close>

definition honest_me :: miner_env where
  "honest_me = \<lparr> me_sha = (\<lambda>m. replicate 32 1), me_shake = (\<lambda>m n. replicate n 1), me_torch = plain_torch, me_fns = toy_fns,
     me_rep = (\<lambda>x. []), me_other = (\<lambda>v. []), me_keypair = Some toy_keypair, me_hotkey = ''5F'', me_hidden_dim = 16,
     me_model_name = ''m'', me_forward = (\<lambda>ts. Inr (replicate (length ts) (replicate 16 PInf), replicate (length ts) [Fin 0])),
     me_pydantic = toy_pydantic, me_environ = [] \<rparr>"

definition honest_ve :: verifier_env where
  "honest_ve = toy_ve \<lparr> ve_sha := me_sha honest_me, ve_forward := me_forward honest_me \<rparr>"

definition honest_be :: "unit batcher_env" where
  "honest_be = toy_be \<lparr> be_verifier := honest_ve, be_verify_commitment := verify_commitment_proofs honest_ve,
     be_verify_signature := verify_signature (me_sha honest_me) (me_rep honest_me) (me_keypair honest_me) \<rparr>"

definition honest_g :: rollout_out where
  "honest_g = \<lparr> ro_tokens = replicate 34 0, ro_prompt_length = 1, ro_forced = False, ro_force_span = None \<rparr>"

lemma honest_stack: "same_stack honest_me honest_be" "stack_lawful honest_me honest_be" "regular_rollout honest_me honest_be honest_g ''ab''"
proof -
  show "same_stack honest_me honest_be"
    using toy_dim by (simp add: same_stack_def honest_be_def honest_ve_def honest_me_def toy_ve_def)
  have "kp_lawful toy_keypair ''5F''" "\<forall>m. kp_sign toy_keypair m \<noteq> []" by (simp_all add: kp_lawful_def toy_keypair_def)
  then show "stack_lawful honest_me honest_be"
    by (simp add: stack_lawful_def honest_be_def honest_ve_def honest_me_def toy_be_def toy_ve_def plain_rng_lawful plain_torch_lawful
        pydantic_lawful_def toy_pydantic_def toy_sorted)
  have "hex_string ''ab''" by code_simp
  then show "regular_rollout honest_me honest_be honest_g ''ab''"
    by (simp add: regular_rollout_def honest_g_def honest_me_def honest_be_def toy_be_def toy_fns_def)
qed

lemma honest_built: "\<exists>commit. build_grail_commit honest_me honest_g ''ab'' = Inr commit"
proof -
  obtain v where v: "state_sketch plain_torch (GRAILVerifier 16) (replicate 16 PInf) (replicate 16 (-125)) = Inr v"
    using toy_sketch by (auto simp: toy_ve_def)
  have r: "generate_r_vec (\<lambda>m n. replicate n 1) (GRAILVerifier 16) ''ab'' = Inr (replicate 16 (-125))"
    using toy_r_vec by (simp add: toy_ve_def)
  let ?c = "JObj [(''sketch'', JInt v)]"
  have "traverse (\<lambda>h. create_commitment plain_torch (GRAILVerifier 16) h (replicate 16 (-125))) (replicate 34 (replicate 16 PInf)) = Inr (replicate 34 ?c)"
    by (subst traverse_total [where g = "\<lambda>_. ?c"]) (auto simp: create_commitment_def v)
  then have c: "create_commitments_batch plain_torch (GRAILVerifier 16) (replicate 34 (replicate 16 PInf)) (replicate 16 (-125)) = Inr (replicate 34 ?c)"
    by (subst batch_commitments_equal_loop [OF plain_torch_lawful]) auto
  have lp: "token_logprobs toy_fns (replicate 34 0) 1 (replicate 34 [Fin 0]) = Inr (replicate 33 (Fin 0))"
    unfolding token_logprobs_def
    by (subst traverse_total [where g = "\<lambda>_. Fin 0"]) (auto simp: token_logprob_def toy_fns_def py_at_def map_replicate_const nth_Cons' nat_diff_distrib)
  have "\<exists>sig. commit_signature honest_me (replicate 34 0) ''ab'' (replicate 34 ?c) = Inr sig"
  proof -
    have "strip_0x ''ab'' = ''ab''" "fromhex (pad_even ''ab'') = Inr [171]" "length (encode ''m'') = Suc 0" by code_simp+
    then show ?thesis
      by (auto simp: commit_signature_def honest_me_def sign_commit_binding_def build_commit_binding_def commit_preimage_def
          frame_Inr fits_def hash_tokens_def hash_commitments_def rbind_eq_Inr LAYER_INDEX_def to_bytes_be_signed_def split: option.splits)
  qed
  then obtain sig where "commit_signature honest_me (replicate 34 0) ''ab'' (replicate 34 ?c) = Inr sig" by blast
  then show ?thesis by (simp add: build_grail_commit_def honest_g_def) (simp add: honest_me_def r c lp [simplified] Let_def)
qed

theorem honest_rollout_survives_witness:
  "\<exists>r tm. check_rollout honest_be ''ab'' ''5F'' (Some [9]) r tm = Inr (Reject PROMPT_MISMATCH)
     \<and> build_grail_commit honest_me honest_g ''ab'' = Inr (rs_commit r)
     \<and> PROMPT_MISMATCH \<in> {BAD_TOKENS, PROMPT_MISMATCH, BAD_TERMINATION, DISTRIBUTION_SUSPICIOUS}"
proof -
  obtain commit where built: "build_grail_commit honest_me honest_g ''ab'' = Inr commit" using honest_built by blast
  define r where "r = \<lparr> rs_tokens = [], rs_reward = Fin 0, rs_commit = commit, rs_env_name = [] \<rparr>"
  have b: "build_grail_commit honest_me honest_g ''ab'' = Inr (rs_commit r)" by (simp add: r_def built)
  have "verify_tokens (replicate 34 (JInt 0)) (JObj [(''hidden_size'', JInt 16)])" by code_simp
  then have toks: "verify_tokens (map JInt (ro_tokens honest_g)) (ve_config (be_verifier honest_be))"
    by (simp add: honest_g_def honest_be_def honest_ve_def toy_ve_def)
  obtain cs sig lps where r_eq: "rs_commit r = commit_dict honest_me honest_g cs sig ''ab'' lps" using built_commit [OF b] by blast
  have "jget (JObj (rs_commit r)) ''tokens'' d = Inr (JList (map JInt (ro_tokens honest_g)))" for d
    by (simp add: r_eq commit_dict_def jget_def dget_def)
  then have "prompt_matches (Some [9]) (JObj (rs_commit r)) = Inr False"
    by (simp add: prompt_matches_def r_eq jget_or_def commit_dict_fields metadata_fields)
       (simp add: honest_g_def py_slice_to_def json_eq_int_def slice_bound_def Let_def numeral_eq_Suc)
  moreover have "rbind (jindex (JObj (rs_commit r)) ''tokens'') jlist = Inr (map JInt (ro_tokens honest_g))"
    by (simp add: r_eq commit_dict_fields)
  ultimately have "check_rollout honest_be ''ab'' (me_hotkey honest_me) (Some [9]) r tm = Inr (Reject PROMPT_MISMATCH)" for tm
    using honest_checks [OF honest_stack b] toks by (auto simp: check_rollout_def)
  moreover from honest_rollout_survives [OF honest_stack b this]
  have "PROMPT_MISMATCH \<in> {BAD_TOKENS, PROMPT_MISMATCH, BAD_TERMINATION, DISTRIBUTION_SUSPICIOUS}" .
  ultimately show ?thesis using b by (auto simp: honest_me_def)
qed

end
