(* ===== verification/Generation.thy ===== *)
theory Generation
  imports MinerCommit
begin

text \<open>
  Generating the rollouts of a prompt, from \<open>reliquary/miner/engine.py\<close>: the batched first phase and
  its cache (\<open>_prefetch_phase1\<close>, \<open>_take_prefetched_phase1\<close>), the eight rollouts of one prompt on either
  backend (\<open>_generate_m_rollouts\<close>) and the second phase of a thinking environment (\<open>_bft_from_seqs\<close>). The
  generation backends are arguments; sampling parameters that are constants of the protocol are left out of
  their arguments. The chunked schedule of \<open>_bake_streaming\<close> is in theory Baking.
\<close>

section \<open>The environment\<close>

text \<open>A task environment: its name, its data and its reward, a float or an exception.\<close>

record 'p task_env =
  en_name :: string
  en_continuous :: bool
  en_source :: prompt_source
  en_get_problem :: "int \<Rightarrow> 'p res"
  en_prompt :: "'p \<Rightarrow> string"
  en_reward :: "'p \<Rightarrow> string \<Rightarrow> real res"

text \<open>
  The vLLM backend: the forced first phase of many prompts (absent on an older backend), that of one
  prompt, and free sampling for many prompts and for one.
\<close>

record vllm =
  vl_forced_multi :: "(int list list \<Rightarrow> int list \<Rightarrow> string \<Rightarrow> string \<Rightarrow> int \<Rightarrow> int list list list res) option"
  vl_forced :: "int list \<Rightarrow> string \<Rightarrow> int \<Rightarrow> string \<Rightarrow> int \<Rightarrow> int list list res"
  vl_generate_multi :: "int list list \<Rightarrow> int \<Rightarrow> int \<Rightarrow> int list list list res"
  vl_generate :: "int list \<Rightarrow> int \<Rightarrow> int \<Rightarrow> int list list res"

text \<open>\<open>bv_eos_token_id\<close> is the sorted list \<open>_eos_ids\<close> as an argument of \<open>generate\<close>.\<close>

record bake_env =
  bv_me :: miner_env
  bv_knobs :: knobs
  bv_tokenizer :: tokenizer
  bv_token_id :: "string \<Rightarrow> int option"
  bv_encode_tail :: "string \<Rightarrow> int list"
  bv_pad_token_id :: kwarg
  bv_eos_token_id :: kwarg
  bv_eos_ids :: "int list"
  bv_budget :: int
  bv_max_new_tokens :: int
  bv_enforce :: bool
  bv_hf_generate :: generate
  bv_gen_model :: generate
  bv_vllm :: "vllm option"
  bv_number :: "string \<Rightarrow> pyfloat res"

type_synonym phase1_key = "int \<times> string \<times> string"

record bake_state =
  ba_cache :: "(phase1_key, int list list) dict"
  ba_drops :: drop_tracker
  ba_randomness :: string
  ba_local_hash :: string
  ba_local_n :: int
  ba_window_n :: int

definition vllm_forced_seed_enabled :: "environ \<Rightarrow> bool" where
  "vllm_forced_seed_enabled env = (dget env ''RELIQUARY_VLLM_FORCED_SEED'' ''0'' = ''1'')"

definition should_use_async_loop :: "bool \<Rightarrow> bool \<Rightarrow> bool \<Rightarrow> bool" where
  "should_use_async_loop backend_is_async forced_enforce vllm_forced_on =
     (if \<not> backend_is_async then False else if \<not> forced_enforce then True else vllm_forced_on)"

definition forced_vllm :: "bake_env \<Rightarrow> bool" where
  "forced_vllm bv = (bv_enforce bv \<and> vllm_forced_seed_enabled (me_environ (bv_me bv)))"

definition max_new :: "bake_env \<Rightarrow> string \<Rightarrow> int" where
  "max_new bv env_name = phase1_max_new_tokens (bv_budget bv) (bv_max_new_tokens bv) (Some env_name)"

section \<open>The second phase\<close>

definition stop_kwargs :: "bake_env \<Rightarrow> (string, kwarg) dict" where
  "stop_kwargs bv =
     [(''pad_token_id'', bv_pad_token_id bv)]
     @ (if bv_eos_ids bv = [] then [] else [(''eos_token_id'', bv_eos_token_id bv)])"

definition bft_from_seqs :: "bake_env \<Rightarrow> int list list \<Rightarrow> int list \<Rightarrow> string \<Rightarrow> int \<Rightarrow> string \<Rightarrow> rollout_out option list res" where
  "bft_from_seqs bv seqs prompt_tokens randomness prompt_idx checkpoint_hash =
     rbind (think_close_token_ids (bv_token_id bv)) (\<lambda>close_ids.
     rbind (force_close_token_ids (bv_token_id bv) (bv_encode_tail bv)) (\<lambda>force_ids.
     bft_rollouts_from_completions (bv_hf_generate bv) seqs prompt_tokens (set close_ids) force_ids (set (bv_eos_ids bv))
       BFT_ANSWER_BUDGET randomness (me_hotkey (bv_me bv)) prompt_idx checkpoint_hash (stop_kwargs bv)))"

section \<open>The cache of the first phase\<close>

fun cache_all :: "string \<Rightarrow> string \<Rightarrow> (int \<times> int list list) list \<Rightarrow> (phase1_key, int list list) dict
    \<Rightarrow> (phase1_key, int list list) dict" where
  "cache_all randomness checkpoint_hash [] cache = cache"
| "cache_all randomness checkpoint_hash ((prompt_idx, completions) # rest) cache =
     cache_all randomness checkpoint_hash rest (dset (prompt_idx, randomness, checkpoint_hash) completions cache)"

text \<open>The new entries are collected first and then merged; a failure empties the cache.\<close>

definition prefetch_phase1 :: "bake_env \<Rightarrow> 'p task_env \<Rightarrow> 'p list \<Rightarrow> int list \<Rightarrow> string \<Rightarrow> bake_state \<Rightarrow> bake_state \<times> nat" where
  "prefetch_phase1 bv env problems prompt_indices randomness s =
     (case (bv_vllm bv, map_option vl_forced_multi (bv_vllm bv)) of
        (Some backend, Some (Some multi)) \<Rightarrow>
          if \<not> forced_vllm bv then (s, 0)
          else
            (case rbind (traverse (\<lambda>p. encode_prompt (bv_tokenizer bv) (en_prompt env p)) problems) (\<lambda>prompts_tokens.
                    multi prompts_tokens prompt_indices randomness (ba_local_hash s) (max_new bv (en_name env))) of
               Inl e \<Rightarrow> (s \<lparr> ba_cache := [] \<rparr>, 0)
             | Inr grouped \<Rightarrow>
                 (let cache = cache_all randomness (ba_local_hash s) (zip prompt_indices grouped) []
                  in (s \<lparr> ba_cache := dict_update (ba_cache s) cache \<rparr>, length cache)))
      | _ \<Rightarrow> (s, 0))"

definition take_prefetched_phase1 :: "int \<Rightarrow> string \<Rightarrow> string \<Rightarrow> bake_state \<Rightarrow> bake_state \<times> int list list option" where
  "take_prefetched_phase1 prompt_idx randomness checkpoint_hash s =
     (let k = (prompt_idx, randomness, checkpoint_hash) in
      (s \<lparr> ba_cache := filter (\<lambda>(k', _). k' \<noteq> k) (ba_cache s) \<rparr>, map_of (ba_cache s) k))"

section \<open>The rollouts of one prompt\<close>

definition plain_rollout :: "nat \<Rightarrow> int list \<Rightarrow> rollout_out option" where
  "plain_rollout prompt_length sq =
     Some \<lparr> ro_tokens = sq, ro_prompt_length = prompt_length, ro_forced = False, ro_force_span = None \<rparr>"

definition vllm_rollouts :: "bake_env \<Rightarrow> 'p task_env \<Rightarrow> int list \<Rightarrow> string \<Rightarrow> int \<Rightarrow> string \<Rightarrow> int list list
    \<Rightarrow> rollout_out option list res" where
  "vllm_rollouts bv env prompt_tokens randomness prompt_idx checkpoint_hash completions =
     (let cut = map (\<lambda>g. truncate_at_first_eos g (set (bv_eos_ids bv))) completions;
          seqs = map (\<lambda>g. prompt_tokens @ g) cut
      in if bft_applicable (Some (en_name env))
         then bft_from_seqs bv seqs prompt_tokens randomness prompt_idx checkpoint_hash
         else Inr (map (plain_rollout (length prompt_tokens)) seqs))"

text \<open>One call of \<open>generate\<close> over eight copies of the prompt, every row forced onto its own stream.\<close>

definition hf_rollouts :: "bake_env \<Rightarrow> 'p task_env \<Rightarrow> int list \<Rightarrow> string \<Rightarrow> int \<Rightarrow> string \<Rightarrow> rollout_out option list res" where
  "hf_rollouts bv env prompt_tokens randomness prompt_idx checkpoint_hash =
     (let m = nat M_ROLLOUTS; pl = length prompt_tokens in
      rbind (ForcedSeedLogitsProcessor randomness (me_hotkey (bv_me bv)) (OnePrompt prompt_idx) checkpoint_hash
               (map int [0..<m]) (replicate m 0) (int pl)) (\<lambda>phase1_proc.
      let outputs = bv_gen_model bv (replicate m prompt_tokens) (replicate m (replicate pl 1)) (max_new bv (en_name env))
                      (forced_seed_generate_kwargs (stop_kwargs bv) phase1_proc)
      in rbind (traverse (item outputs) [0..<m]) (\<lambda>rows.
         if bft_applicable (Some (en_name env))
         then bft_from_seqs bv rows prompt_tokens randomness prompt_idx checkpoint_hash
         else Inr (map (\<lambda>sq. plain_rollout pl (prompt_tokens @
                (case first_eos_index (drop pl sq) (set (bv_eos_ids bv)) of
                   None \<Rightarrow> drop pl sq | Some k \<Rightarrow> take (k + 1) (drop pl sq)))) rows))))"

definition generate_m_rollouts :: "bake_env \<Rightarrow> 'p task_env \<Rightarrow> 'p \<Rightarrow> string \<Rightarrow> int \<Rightarrow> bake_state
    \<Rightarrow> bake_state \<times> rollout_out option list res" where
  "generate_m_rollouts bv env problem randomness prompt_idx s =
     (let checkpoint_hash = ba_local_hash s;
          backend = (if \<not> bv_enforce bv \<or> vllm_forced_seed_enabled (me_environ (bv_me bv)) then bv_vllm bv else None) in
      case encode_prompt (bv_tokenizer bv) (en_prompt env problem) of
        Inl e \<Rightarrow> (s, Inl e)
      | Inr prompt_tokens \<Rightarrow>
          (case backend of
             None \<Rightarrow> (s, hf_rollouts bv env prompt_tokens randomness prompt_idx checkpoint_hash)
           | Some vl \<Rightarrow>
               (let mx = max_new bv (en_name env);
                    finish = vllm_rollouts bv env prompt_tokens randomness prompt_idx checkpoint_hash in
                if forced_vllm bv
                then (case take_prefetched_phase1 prompt_idx randomness checkpoint_hash s of
                        (s1, Some completions) \<Rightarrow> (s1, finish completions)
                      | (s1, None) \<Rightarrow>
                          (s1, rbind (vl_forced vl prompt_tokens randomness prompt_idx checkpoint_hash mx) finish))
                else (s, rbind (vl_generate vl prompt_tokens M_ROLLOUTS mx) finish))))"

section \<open>The cache is transparent\<close>

text \<open>The batched call returns, prompt by prompt, what the single call returns.\<close>

definition batched_agrees :: "vllm \<Rightarrow> bool" where
  "batched_agrees vl =
     (\<forall>multi ps idxs r h mx gs. vl_forced_multi vl = Some multi \<and> multi ps idxs r h mx = Inr gs \<longrightarrow>
        length gs = length ps \<and> (\<forall>k < length ps. k < length idxs \<longrightarrow> vl_forced vl (ps ! k) r (idxs ! k) h mx = Inr (gs ! k)))"

definition cache_sound :: "bake_env \<Rightarrow> 'p task_env \<Rightarrow> vllm \<Rightarrow> bake_state \<Rightarrow> bool" where
  "cache_sound bv env vl s =
     (\<forall>i r h c. map_of (ba_cache s) (i, r, h) = Some c \<longrightarrow>
        (\<exists>p toks. en_get_problem env i = Inr p \<and> encode_prompt (bv_tokenizer bv) (en_prompt env p) = Inr toks
           \<and> vl_forced vl toks r i h (max_new bv (en_name env)) = Inr c))"

lemma map_of_cache_all:
  "map_of (cache_all r h ics cache) k = Some c \<Longrightarrow> map_of cache k = Some c \<or> (\<exists>i. (i, c) \<in> set ics \<and> k = (i, r, h))"
  by (induction ics arbitrary: cache rule: list.induct) (fastforce split: if_splits)+

lemma dict_ok_cache_all: "dict_ok cache \<Longrightarrow> dict_ok (cache_all r h ics cache)"
  by (induction ics arbitrary: cache) auto

lemma prefetch_cache:
  assumes "map_of (ba_cache (fst (prefetch_phase1 bv env problems idxs r s))) k = Some c"
  shows "map_of (ba_cache s) k = Some c
    \<or> (\<exists>vl multi ps gs i. bv_vllm bv = Some vl \<and> vl_forced_multi vl = Some multi
         \<and> traverse (\<lambda>p. encode_prompt (bv_tokenizer bv) (en_prompt env p)) problems = Inr ps
         \<and> multi ps idxs r (ba_local_hash s) (max_new bv (en_name env)) = Inr gs
         \<and> (i, c) \<in> set (zip idxs gs) \<and> k = (i, r, ba_local_hash s))"
proof (cases "\<exists>vl multi. bv_vllm bv = Some vl \<and> vl_forced_multi vl = Some multi \<and> forced_vllm bv")
  case True
  then obtain vl multi where vl: "bv_vllm bv = Some vl" "vl_forced_multi vl = Some multi" "forced_vllm bv" by blast
  show ?thesis
  proof (cases "rbind (traverse (\<lambda>p. encode_prompt (bv_tokenizer bv) (en_prompt env p)) problems)
      (\<lambda>ps. multi ps idxs r (ba_local_hash s) (max_new bv (en_name env)))")
    case (Inl e)
    then show ?thesis using assms vl by (simp add: prefetch_phase1_def)
  next
    case (Inr gs)
    have "dict_ok (cache_all r (ba_local_hash s) (zip idxs gs) [])" by (rule dict_ok_cache_all) simp
    from map_of_dict_update [OF this, of "ba_cache s"] assms vl Inr
    have "map_of (ba_cache s) k = Some c \<or> map_of (cache_all r (ba_local_hash s) (zip idxs gs) []) k = Some c"
      by (auto simp: prefetch_phase1_def Let_def map_add_def split: option.splits)
    then show ?thesis using map_of_cache_all [of r "ba_local_hash s" "zip idxs gs" "[]" k c] Inr vl
      by (auto simp: rbind_eq_Inr)
  qed
next
  case False
  then show ?thesis using assms by (auto simp: prefetch_phase1_def split: option.splits)
qed

lemma prefetch_sound:
  assumes "bv_vllm bv = Some vl" and "batched_agrees vl" and "cache_sound bv env vl s"
    and probs: "list_all2 (\<lambda>i p. en_get_problem env i = Inr p) idxs problems"
  shows "cache_sound bv env vl (fst (prefetch_phase1 bv env problems idxs r s))"
  unfolding cache_sound_def
proof (intro allI impI)
  fix i r' h c
  let ?enc = "\<lambda>p. encode_prompt (bv_tokenizer bv) (en_prompt env p)"
  assume "map_of (ba_cache (fst (prefetch_phase1 bv env problems idxs r s))) (i, r', h) = Some c"
  from prefetch_cache [OF this] consider "map_of (ba_cache s) (i, r', h) = Some c"
    | multi ps gs where "vl_forced_multi vl = Some multi" "traverse ?enc problems = Inr ps"
        "multi ps idxs r' h (max_new bv (en_name env)) = Inr gs" "(i, c) \<in> set (zip idxs gs)"
    using assms(1) by auto
  then show "\<exists>p toks. en_get_problem env i = Inr p \<and> ?enc p = Inr toks \<and> vl_forced vl toks r' i h (max_new bv (en_name env)) = Inr c"
  proof cases
    case 1
    then show ?thesis using assms(3) by (auto simp: cache_sound_def)
  next
    case 2
    then obtain k where k: "k < length idxs" "k < length gs" "idxs ! k = i" "gs ! k = c" by (auto simp: in_set_zip)
    have g: "length gs = length ps" "k < length ps \<Longrightarrow> vl_forced vl (ps ! k) r' i h (max_new bv (en_name env)) = Inr c"
      using assms(2) 2(1,3) k unfolding batched_agrees_def by blast+
    have "list_all2 (\<lambda>p t. ?enc p = Inr t) problems ps" using 2(2) by (simp add: traverse_Inr_iff)
    then have "?enc (problems ! k) = Inr (ps ! k)" using k(2) g(1) by (simp add: list_all2_conv_all_nth)
    moreover have "en_get_problem env i = Inr (problems ! k)" using probs k(1,3) by (auto simp: list_all2_conv_all_nth)
    ultimately show ?thesis using g k(2) by auto
  qed
qed

lemma taken_once:
  assumes "take_prefetched_phase1 i r h s = (s1, c)"
  shows "c = map_of (ba_cache s) (i, r, h)" and "map_of (ba_cache s1) (i, r, h) = None"
    and "\<And>k v. map_of (ba_cache s1) k = Some v \<Longrightarrow> map_of (ba_cache s) k = Some v" and "ba_local_hash s1 = ba_local_hash s"
proof -
  have s1: "s1 = s \<lparr> ba_cache := filter (\<lambda>(k', _). k' \<noteq> (i, r, h)) (ba_cache s) \<rparr>" "c = map_of (ba_cache s) (i, r, h)"
    using assms by (auto simp: take_prefetched_phase1_def Let_def)
  have m: "map_of (filter (\<lambda>(k', _). k' \<noteq> (i, r, h)) d) k = (if k = (i, r, h) then None else map_of d k)" for d :: "(phase1_key, int list list) dict" and k
    by (induction d) auto
  show "c = map_of (ba_cache s) (i, r, h)" "map_of (ba_cache s1) (i, r, h) = None" "ba_local_hash s1 = ba_local_hash s"
    using s1 m by auto
  show "map_of (ba_cache s1) k = Some v \<Longrightarrow> map_of (ba_cache s) k = Some v" for k v using s1 m by (simp split: if_splits)
qed

lemma generate_keeps_cache:
  assumes "generate_m_rollouts bv env p r i s = (s1, out)"
  shows "s1 = s \<or> s1 = fst (take_prefetched_phase1 i r (ba_local_hash s) s)"
  using assms by (auto simp: generate_m_rollouts_def Let_def split: sum.splits option.splits if_splits prod.splits)

lemma generate_from_cache:
  assumes "bv_vllm bv = Some vl" and "cache_sound bv env vl s" and "en_get_problem env i = Inr p"
  shows "snd (generate_m_rollouts bv env p r i s) = snd (generate_m_rollouts bv env p r i (s \<lparr> ba_cache := [] \<rparr>))"
proof (cases "map_of (ba_cache s) (i, r, ba_local_hash s)")
  case None
  then show ?thesis using assms(1)
    by (auto simp: generate_m_rollouts_def take_prefetched_phase1_def Let_def split: sum.splits)
next
  case (Some c)
  then obtain toks where "encode_prompt (bv_tokenizer bv) (en_prompt env p) = Inr toks"
    "vl_forced vl toks r i (ba_local_hash s) (max_new bv (en_name env)) = Inr c"
    using assms(2,3) by (fastforce simp: cache_sound_def)
  then show ?thesis using assms(1) Some
    by (simp add: generate_m_rollouts_def take_prefetched_phase1_def Let_def)
qed

text \<open>Generating consumes its own entry, touches no other, and makes no call when it finds one.\<close>

lemma generate_pops:
  assumes "bv_vllm bv = Some vl" and "cache_sound bv env vl s" and "en_get_problem env i = Inr p"
    and "generate_m_rollouts bv env p r i s = (s1, out)"
  shows "if forced_vllm bv then map_of (ba_cache s1) (i, r, ba_local_hash s) = None else s1 = s"
    and "k \<noteq> (i, r, ba_local_hash s) \<Longrightarrow> map_of (ba_cache s1) k = map_of (ba_cache s) k"
proof -
  let ?key = "(i, r, ba_local_hash s)"
  have kept: "map_of (filter (\<lambda>(k', _). k' \<noteq> ?key) d) k = (if k = ?key then None else map_of d k)"
    for d :: "(phase1_key, int list list) dict" and k
    by (induction d) auto
  have cases: "s1 = (if forced_vllm bv \<and> (\<exists>toks. encode_prompt (bv_tokenizer bv) (en_prompt env p) = Inr toks)
      then s \<lparr> ba_cache := filter (\<lambda>(k', _). k' \<noteq> ?key) (ba_cache s) \<rparr> else s)"
    using assms(1,4) by (auto simp: generate_m_rollouts_def take_prefetched_phase1_def forced_vllm_def Let_def
        split: sum.splits option.splits if_splits)
  have "map_of (ba_cache s) ?key = None" if none: "\<nexists>toks. encode_prompt (bv_tokenizer bv) (en_prompt env p) = Inr toks"
  proof (rule ccontr)
    assume "map_of (ba_cache s) ?key \<noteq> None"
    then obtain q toks where "en_get_problem env i = Inr q" "encode_prompt (bv_tokenizer bv) (en_prompt env q) = Inr toks"
      using assms(2) unfolding cache_sound_def by blast
    then show False using assms(3) none by simp
  qed
  then show "if forced_vllm bv then map_of (ba_cache s1) ?key = None else s1 = s"
    using kept by (auto simp: cases)
  show "k \<noteq> ?key \<Longrightarrow> map_of (ba_cache s1) k = map_of (ba_cache s) k" using kept by (simp add: cases)
qed

lemma generate_served:
  assumes "bv_vllm bv = Some vl" and "forced_vllm bv" and "map_of (ba_cache s) (i, r, ba_local_hash s) = Some c"
  shows "generate_m_rollouts (bv \<lparr> bv_vllm := Some (vl \<lparr> vl_forced := f \<rparr>) \<rparr>) env p r i s = generate_m_rollouts bv env p r i s"
proof -
  have bft: "bft_from_seqs (bv \<lparr> bv_vllm := x \<rparr>) = bft_from_seqs bv" for x
    by (simp add: fun_eq_iff bft_from_seqs_def stop_kwargs_def)
  have finish: "vllm_rollouts (bv \<lparr> bv_vllm := x \<rparr>) = (vllm_rollouts bv :: 'a task_env \<Rightarrow> _)" for x
    by (intro ext) (simp add: vllm_rollouts_def bft Let_def)
  show ?thesis using assms
    by (simp add: generate_m_rollouts_def take_prefetched_phase1_def forced_vllm_def max_new_def finish Let_def split: sum.split)
qed

text \<open>
  C19. Prefetching changes when the first phase runs, not what it gives. When the batched call of the backend
  agrees with the single one, every entry of the cache holds what a call for that prompt, randomness and
  checkpoint returns; the batched prefetch and the generation of a prompt keep it so, and the rollouts of a prompt
  are those of a call without a cache, under any later randomness. An entry is served once: after a forced generation
  its entry is gone, every other one is untouched, and when the entry was there the answer did not
  depend on the backend, whatever a call to it would have returned; a generation that is not forced leaves the cache alone.
\<close>

theorem prefetch_is_transparent:
  assumes "bv_vllm bv = Some vl" and "batched_agrees vl" and "cache_sound bv env vl s"
    and "list_all2 (\<lambda>i p. en_get_problem env i = Inr p) idxs problems" and "en_get_problem env i = Inr p"
  shows "let s1 = fst (prefetch_phase1 bv env problems idxs r s); s2 = fst (generate_m_rollouts bv env p r' i s1);
        key = (i, r', ba_local_hash s1) in
      cache_sound bv env vl s2
    \<and> snd (generate_m_rollouts bv env p r' i s1) = snd (generate_m_rollouts bv env p r' i (s1 \<lparr> ba_cache := [] \<rparr>))
    \<and> (if forced_vllm bv then map_of (ba_cache s2) key = None else s2 = s1)
    \<and> (\<forall>k. k \<noteq> key \<longrightarrow> map_of (ba_cache s2) k = map_of (ba_cache s1) k)
    \<and> (forced_vllm bv \<and> map_of (ba_cache s1) key \<noteq> None \<longrightarrow>
        (\<forall>f. snd (generate_m_rollouts (bv \<lparr> bv_vllm := Some (vl \<lparr> vl_forced := f \<rparr>) \<rparr>) env p r' i s1)
             = snd (generate_m_rollouts bv env p r' i s1)))"
proof -
  let ?s1 = "fst (prefetch_phase1 bv env problems idxs r s)"
  have s1: "cache_sound bv env vl ?s1" by (rule prefetch_sound [OF assms(1-4)])
  obtain s2 out where g: "generate_m_rollouts bv env p r' i ?s1 = (s2, out)" by fastforce
  obtain t c where t: "take_prefetched_phase1 i r' (ba_local_hash ?s1) ?s1 = (t, c)" by fastforce
  have "s2 = ?s1 \<or> s2 = t" using generate_keeps_cache [OF g] t by auto
  moreover have "cache_sound bv env vl t" using s1 taken_once(3) [OF t] unfolding cache_sound_def by blast
  ultimately have "cache_sound bv env vl s2" using s1 by auto
  moreover have "snd (generate_m_rollouts (bv \<lparr> bv_vllm := Some (vl \<lparr> vl_forced := f \<rparr>) \<rparr>) env p r' i ?s1) = out"
    if "forced_vllm bv" "map_of (ba_cache ?s1) (i, r', ba_local_hash ?s1) \<noteq> None" for f
    using generate_served [OF assms(1) that(1), of ?s1 i r' _ f env p] that(2) g by fastforce
  ultimately show ?thesis
    using generate_from_cache [OF assms(1) s1 assms(5), of r'] generate_pops [OF assms(1) s1 assms(5) g]
    unfolding Let_def g fst_conv snd_conv by blast
qed

section \<open>A concrete backend\<close>

definition sample_me :: miner_env where
  "sample_me = \<lparr> me_sha = (\<lambda>m. m), me_shake = (\<lambda>m n. replicate n 1), me_torch = plain_torch, me_fns = toy_fns,
     me_rep = (\<lambda>x. []), me_other = (\<lambda>v. []), me_keypair = Some toy_keypair, me_hotkey = ''5F'', me_hidden_dim = 16,
     me_model_name = ''m'', me_forward = (\<lambda>ts. Inr (replicate (length ts) [Fin 0], replicate (length ts) [Fin 0])),
     me_pydantic = \<lparr> pyd_int = (\<lambda>v. None), pyd_float = (\<lambda>v. None), pyd_bool = (\<lambda>v. None) \<rparr>,
     me_environ = [(''RELIQUARY_VLLM_FORCED_SEED'', ''1'')] \<rparr>"

definition sample_vllm :: vllm where
  "sample_vllm =
     \<lparr> vl_forced_multi = Some (\<lambda>ps idxs r h mx.
          if length ps \<noteq> length idxs then Inl ValueError else Inr (map2 (\<lambda>p i. replicate 8 (p @ [i])) ps idxs)),
       vl_forced = (\<lambda>p r i h mx. Inr (replicate 8 (p @ [i]))), vl_generate_multi = (\<lambda>ps n mx. Inl RuntimeError),
       vl_generate = (\<lambda>p n mx. Inl RuntimeError) \<rparr>"

definition sample_tokenizer :: tokenizer where
  "sample_tokenizer = \<lparr> tk_chat_template = None, tk_apply_chat_template = None, tk_encode = (\<lambda>t. if t = ''task'' then [1] else [2]),
     tk_decode = (\<lambda>ts. if ts = [JInt 0] then ''good'' else ''bad''), tk_eos = None \<rparr>"

definition sample_bake :: bake_env where
  "sample_bake = \<lparr> bv_me = sample_me, bv_knobs = sample_knobs, bv_tokenizer = sample_tokenizer, bv_token_id = (\<lambda>t. None),
     bv_encode_tail = (\<lambda>t. []), bv_pad_token_id = KwNone, bv_eos_token_id = KwNone, bv_eos_ids = [9], bv_budget = 64,
     bv_max_new_tokens = 64, bv_enforce = True, bv_hf_generate = toy_generate, bv_gen_model = toy_generate,
     bv_vllm = Some sample_vllm, bv_number = (\<lambda>t. Inl ValueError) \<rparr>"

definition sample_env :: "nat task_env" where
  "sample_env = \<lparr> en_name = ''opencodeinstruct'', en_continuous = True, en_source = \<lparr> so_len = 10, so_eligible = None \<rparr>,
     en_get_problem = (\<lambda>i. Inr (nat i)), en_prompt = (\<lambda>p. ''task''), en_reward = (\<lambda>p t. Inr (if t = ''good'' then 1 else 0)) \<rparr>"

definition sample_state :: bake_state where
  "sample_state = \<lparr> ba_cache = [], ba_drops = DropTracker 40 (9 / 10), ba_randomness = ''ab'', ba_local_hash = ''h'',
     ba_local_n = 1, ba_window_n = 7 \<rparr>"

lemma sample_agrees: "batched_agrees sample_vllm"
  by (auto simp: batched_agrees_def sample_vllm_def split: if_splits)

lemma sample_prefetched:
  "fst (prefetch_phase1 sample_bake sample_env [3, 4] [3, 4] ''ab'' sample_state)
     = sample_state \<lparr> ba_cache := [((3, ''ab'', ''h''), replicate 8 [1, 3]), ((4, ''ab'', ''h''), replicate 8 [1, 4])] \<rparr>"
  by (simp add: prefetch_phase1_def sample_bake_def sample_vllm_def sample_me_def forced_vllm_def vllm_forced_seed_enabled_def
      dget_def sample_tokenizer_def encode_prompt_def sample_state_def dict_update_def sample_env_def Let_def)

theorem prefetch_is_transparent_witness:
  "\<exists>s1 s2. fst (prefetch_phase1 sample_bake sample_env [3, 4] [3, 4] ''ab'' sample_state) = s1
     \<and> generate_m_rollouts sample_bake sample_env 3 ''ab'' 3 s1 = (s2, Inr (map (plain_rollout 1) (replicate 8 [1, 1, 3])))
     \<and> map_of (ba_cache s1) (3, ''ab'', ''h'') \<noteq> None \<and> map_of (ba_cache s2) (3, ''ab'', ''h'') = None"
proof -
  let ?s1 = "fst (prefetch_phase1 sample_bake sample_env [3, 4] [3, 4] ''ab'' sample_state)"
  have v: "bv_vllm sample_bake = Some sample_vllm" by (simp add: sample_bake_def)
  have c: "cache_sound sample_bake sample_env sample_vllm sample_state" by (simp add: cache_sound_def sample_state_def)
  have g: "generate_m_rollouts sample_bake sample_env 3 ''ab'' 3 ?s1
      = (?s1 \<lparr> ba_cache := [((4, ''ab'', ''h''), replicate 8 [1, 4])] \<rparr>, Inr (map (plain_rollout 1) (replicate 8 [1, 1, 3])))"
    unfolding sample_prefetched
    by (simp add: generate_m_rollouts_def sample_bake_def sample_me_def forced_vllm_def vllm_forced_seed_enabled_def dget_def
        sample_tokenizer_def encode_prompt_def sample_state_def take_prefetched_phase1_def vllm_rollouts_def bft_applicable_def
        BFT_ENABLED_def sample_env_def truncate_at_first_eos_def enumerate_eq_zip Let_def)
  have "list_all2 (\<lambda>i p. en_get_problem sample_env i = Inr p) [3, 4] [3, 4]" "en_get_problem sample_env 3 = Inr 3"
    by (simp_all add: sample_env_def)
  from prefetch_is_transparent [OF v sample_agrees c this, of "''ab''" "''ab''"] g
  show ?thesis by (auto simp: sample_prefetched)
qed

text \<open>
  The key of the cache is the prompt index, the randomness and the checkpoint, not the environment. An
  entry that a bake of one environment leaves behind is served to the prompt with the same index of
  another: its rollouts carry the completions of the first, where a direct call gives its own.
\<close>

theorem phase1_cache_crosses_environments:
  "let other = sample_env \<lparr> en_name := ''other'', en_prompt := (\<lambda>p. ''text'') \<rparr>;
       s1 = fst (prefetch_phase1 sample_bake sample_env [3, 4] [3, 4] ''ab'' sample_state) in
     snd (generate_m_rollouts sample_bake other 3 ''ab'' 3 s1) = Inr (map (plain_rollout 1) (replicate 8 [2, 1, 3]))
   \<and> snd (generate_m_rollouts sample_bake other 3 ''ab'' 3 sample_state) = Inr (map (plain_rollout 1) (replicate 8 [2, 2, 3]))"
  unfolding sample_prefetched
  by (simp add: generate_m_rollouts_def sample_bake_def sample_me_def forced_vllm_def vllm_forced_seed_enabled_def dget_def
      sample_tokenizer_def encode_prompt_def sample_state_def take_prefetched_phase1_def vllm_rollouts_def bft_applicable_def
      BFT_ENABLED_def sample_env_def sample_vllm_def truncate_at_first_eos_def enumerate_eq_zip Let_def)

end
