(* ===== verification/Baking.thy ===== *)
theory Baking
  imports Generation
begin

text \<open>
  From generated rollouts to a pool entry, from \<open>reliquary/miner/engine.py\<close>: grading a group, the proof
  forward of a rollout with its local scores, the three ways to bake a prompt (\<open>_pre_bake_entry\<close>,
  \<open>_pre_bake_batch\<close> over several phases, and \<open>_process_one_completion\<close> of the asynchronous loop) and the choice
  of the asynchronous loop's next prompt. A score that is not a finite number ends the model with an error: the
  order of a sort with such keys is not specified.
\<close>

section \<open>Grading\<close>

definition decoded_completion :: "bake_env \<Rightarrow> nat \<Rightarrow> int list \<Rightarrow> string" where
  "decoded_completion bv prompt_length all_tokens = tk_decode (bv_tokenizer bv) (map JInt (drop prompt_length all_tokens))"

definition safe_reward :: "'p task_env \<Rightarrow> 'p \<Rightarrow> string \<Rightarrow> real" where
  "safe_reward env problem completion = (case en_reward env problem completion of Inr x \<Rightarrow> x | Inl _ \<Rightarrow> 0)"

text \<open>The pool of threads keeps the order of its input.\<close>

definition grade_group_parallel :: "'p task_env \<Rightarrow> ('p \<times> string) list \<Rightarrow> real list" where
  "grade_group_parallel env problem_completions = map (\<lambda>(p, c). safe_reward env p c) problem_completions"

section \<open>The proof forward of a rollout\<close>

record partial =
  pa_all_tokens :: "int list"
  pa_prompt_length :: nat
  pa_text :: string
  pa_reward :: real
  pa_forced :: bool
  pa_force_span :: "(nat \<times> nat) option"

definition torch_exp :: "pyfloat \<Rightarrow> pyfloat" where
  "torch_exp x = (case x of Fin a \<Rightarrow> Fin (exp a) | PInf \<Rightarrow> PInf | NInf \<Rightarrow> Fin 0 | NaN \<Rightarrow> NaN)"

definition finite_score :: "pyfloat \<Rightarrow> real res" where
  "finite_score x = (case finite_value x of None \<Rightarrow> Inl ValueError | Some r \<Rightarrow> Inr r)"

definition P_STOP_LOCAL_MIN :: real where "P_STOP_LOCAL_MIN = 1 / 100"

definition p_stop_local :: "bake_env \<Rightarrow> int list \<Rightarrow> pyfloat list list \<Rightarrow> bool \<Rightarrow> real option res" where
  "p_stop_local bv all_tokens logits in_eos =
     (let n_tok = length all_tokens in
      if in_eos \<and> 2 \<le> n_tok \<and> n_tok - 2 < length logits
      then (let probs_last = tf_softmax (me_fns (bv_me bv)) (logits ! (n_tok - 2)) in
            rbind (traverse (py_at probs_last) (bv_eos_ids bv)) (\<lambda>ps.
            rbind (finite_score (foldl pf_add (Fin 0) ps)) (\<lambda>x. Inr (Some x))))
      else Inr None)"

definition floor_last :: "knobs \<Rightarrow> bool \<Rightarrow> pyfloat list \<Rightarrow> pyfloat list" where
  "floor_last kn in_eos lps =
     (if 0 < kn_eos_floor kn \<and> in_eos \<and> lps \<noteq> []
      then butlast lps @ [pf_max (last lps) (Fin (ln (kn_eos_floor kn)))] else lps)"

definition chosen_probs :: "bake_env \<Rightarrow> int list \<Rightarrow> nat \<Rightarrow> pyfloat list list \<Rightarrow> pyfloat list res" where
  "chosen_probs bv all_tokens prompt_length logits =
     traverse (\<lambda>i. rbind (py_at logits (i - 1)) (\<lambda>row. rbind (py_at all_tokens i) (\<lambda>tok.
        rbind (py_at (tf_log_softmax (me_fns (bv_me bv)) (map (pf_scale (1 / T_PROTO)) row)) tok) (\<lambda>x. Inr (torch_exp x)))))
       (map int [prompt_length..<length all_tokens])"

definition local_quantiles :: "bake_env \<Rightarrow> pyfloat list \<Rightarrow> (real option \<times> real option) res" where
  "local_quantiles bv probs =
     (if 30 \<le> length probs
      then rbind (finite_score (tf_np_quantile (me_fns (bv_me bv)) probs (1 / 10))) (\<lambda>q.
           rbind (finite_score (tf_np_median (me_fns (bv_me bv)) probs)) (\<lambda>m. Inr (Some q, Some m)))
      else Inr (None, None))"

definition proof_forward :: "bake_env \<Rightarrow> partial \<Rightarrow> baked res" where
  "proof_forward bv r =
     (let all_tokens = pa_all_tokens r; pl = pa_prompt_length r in
      rbind (me_forward (bv_me bv) all_tokens) (\<lambda>(hidden, logits).
      rbind (token_logprobs (me_fns (bv_me bv)) all_tokens pl logits) (\<lambda>lps.
      (let in_eos = validator_termination_ok (drop pl all_tokens) (set (bv_eos_ids bv)) in
       rbind (p_stop_local bv all_tokens logits in_eos) (\<lambda>p_stop.
       rbind (chosen_probs bv all_tokens pl logits) (\<lambda>probs.
       rbind (local_quantiles bv probs) (\<lambda>(q10, med).
       Inr \<lparr> bk_all_tokens = all_tokens, bk_prompt_length = pl, bk_completion_text = pa_text r, bk_hidden = hidden,
             bk_token_logprobs = floor_last (bv_knobs bv) in_eos lps, bk_reward = pa_reward r, bk_in_eos = in_eos,
             bk_p_stop = p_stop, bk_q10 = q10, bk_median = med,
             bk_bt_ok = (in_eos \<and> (case p_stop of None \<Rightarrow> False | Some p \<Rightarrow> P_STOP_LOCAL_MIN \<le> p)),
             bk_forced = pa_forced r, bk_force_span = pa_force_span r \<rparr>)))))))"

section \<open>One prompt at a time\<close>

definition note_drop :: "string \<Rightarrow> bake_state \<Rightarrow> bake_state" where
  "note_drop reason s = s \<lparr> ba_drops := fst (record_drop True (Some reason) (ba_drops s)) \<rparr>"

definition each_rollout :: "rollout_out option list \<Rightarrow> rollout_out list res" where
  "each_rollout gens = traverse (\<lambda>g. case g of None \<Rightarrow> Inl TypeError | Some r \<Rightarrow> Inr r) gens"

text \<open>The proof of an entry carries no local score: those fields are absent, which reads as false.\<close>

definition cached_rollout :: "bake_env \<Rightarrow> rollout_out \<Rightarrow> real \<Rightarrow> baked res" where
  "cached_rollout bv g reward =
     (let all_tokens = ro_tokens g; pl = ro_prompt_length g in
      rbind (me_forward (bv_me bv) all_tokens) (\<lambda>(hidden, logits).
      rbind (token_logprobs (me_fns (bv_me bv)) all_tokens pl logits) (\<lambda>lps.
      Inr \<lparr> bk_all_tokens = all_tokens, bk_prompt_length = pl, bk_completion_text = decoded_completion bv pl all_tokens,
            bk_hidden = hidden, bk_token_logprobs = lps, bk_reward = reward, bk_in_eos = False, bk_p_stop = None,
            bk_q10 = None, bk_median = None, bk_bt_ok = False, bk_forced = ro_forced g, bk_force_span = ro_force_span g \<rparr>)))"

definition new_entry :: "'p task_env \<Rightarrow> int \<Rightarrow> 'p \<Rightarrow> int \<Rightarrow> baked list \<Rightarrow> 'p pool_entry" where
  "new_entry env prompt_idx problem expected_ckpt_n rollouts =
     \<lparr> pe_prompt_idx = prompt_idx, pe_problem = problem, pe_rollouts = rollouts, pe_checkpoint_n = expected_ckpt_n,
       pe_env_name = Some (en_name env) \<rparr>"

definition entry_of_generations :: "bake_env \<Rightarrow> 'p task_env \<Rightarrow> int \<Rightarrow> 'p \<Rightarrow> int \<Rightarrow> rollout_out list \<Rightarrow> bake_state
    \<Rightarrow> bake_state \<times> 'p pool_entry option res" where
  "entry_of_generations bv env prompt_idx problem expected_ckpt_n gens s =
     (let rewards = grade_group_parallel env (map (\<lambda>g. (problem, decoded_completion bv (ro_prompt_length g) (ro_tokens g))) gens) in
      if skip_for_out_of_zone (bv_number bv) (me_environ (bv_me bv)) rewards
      then (note_drop ''out_of_zone'' s, Inr None)
      else (s, rbind (traverse (\<lambda>(g, x). cached_rollout bv g x) (zip gens rewards)) (\<lambda>rollouts.
                 Inr (Some (new_entry env prompt_idx problem expected_ckpt_n rollouts)))))"

definition pre_bake_entry :: "bake_env \<Rightarrow> 'p task_env \<Rightarrow> int \<Rightarrow> 'p \<Rightarrow> int \<Rightarrow> bake_state \<Rightarrow> bake_state \<times> 'p pool_entry option res" where
  "pre_bake_entry bv env prompt_idx problem expected_ckpt_n s =
     (case generate_m_rollouts bv env problem (ba_randomness s) prompt_idx s of
        (s1, Inl e) \<Rightarrow> (s1, Inl e)
      | (s1, Inr gens) \<Rightarrow>
          if int (length gens) < M_ROLLOUTS then (s1, Inr None)
          else (case each_rollout gens of Inl e \<Rightarrow> (s1, Inl e)
                | Inr rs \<Rightarrow> entry_of_generations bv env prompt_idx problem expected_ckpt_n rs s1))"

section \<open>Several prompts, several phases\<close>

datatype 'p bake_outcome = Entry "'p pool_entry" | Retry "baked list" | Dropped

definition phase_of :: "baked list \<Rightarrow> int list list \<Rightarrow> int" where
  "phase_of existing completions = (int (length existing) + int (length completions)) div M_ROLLOUTS"

definition uniform_rewards :: "baked list \<Rightarrow> partial list \<Rightarrow> bool" where
  "uniform_rewards existing new_partial = (card (set (map bk_reward existing @ map pa_reward new_partial)) \<le> 1)"

definition new_all_hit_max :: "bake_env \<Rightarrow> partial list \<Rightarrow> bool" where
  "new_all_hit_max bv new_partial =
     list_all (\<lambda>r. pa_all_tokens r = [] \<or> last (pa_all_tokens r) \<notin> set (bv_eos_ids bv)) new_partial"

definition truncated_group :: "bake_env \<Rightarrow> 'p task_env \<Rightarrow> baked list \<Rightarrow> bool" where
  "truncated_group bv env rollouts =
     too_many_truncated (int (length rollouts)) (int (length (filter bk_bt_ok rollouts))) (Some (en_name env))
       (me_environ (bv_me bv))"

text \<open>The end of both paths: compose a group, ask for another phase or give the prompt up.\<close>

definition compose_or_retry :: "bake_env \<Rightarrow> 'p task_env \<Rightarrow> int \<Rightarrow> 'p \<Rightarrow> int \<Rightarrow> int \<Rightarrow> baked list \<Rightarrow> 'p bake_outcome res" where
  "compose_or_retry bv env prompt_idx problem expected_ckpt_n phase rollouts =
     rbind (try_select (me_sha (bv_me bv)) (bv_knobs bv) (Some (en_name env)) (en_continuous env) rollouts) (\<lambda>chosen.
       Inr (case chosen of
              Some (rs, k) \<Rightarrow> Entry (new_entry env prompt_idx problem expected_ckpt_n rs)
            | None \<Rightarrow> if phase < kn_max_phases (bv_knobs bv) then Retry rollouts else Dropped))"

definition graded_partial :: "bake_env \<Rightarrow> 'p task_env \<Rightarrow> 'p \<Rightarrow> nat \<Rightarrow> rollout_out \<Rightarrow> partial res" where
  "graded_partial bv env problem prompt_length roll =
     (let text = decoded_completion bv prompt_length (ro_tokens roll) in
      rbind (en_reward env problem text) (\<lambda>reward.
      Inr \<lparr> pa_all_tokens = ro_tokens roll, pa_prompt_length = prompt_length, pa_text = text, pa_reward = reward,
            pa_forced = ro_forced roll, pa_force_span = ro_force_span roll \<rparr>))"

definition phase_rollouts :: "bake_env \<Rightarrow> 'p task_env \<Rightarrow> int \<Rightarrow> int list \<Rightarrow> int list list \<Rightarrow> bake_state \<Rightarrow> rollout_out list res" where
  "phase_rollouts bv env prompt_idx ptoks completions s =
     (let seqs = map (\<lambda>g. ptoks @ g) completions in
      if bft_applicable (Some (en_name env))
      then rbind (bft_from_seqs bv seqs ptoks (ba_randomness s) prompt_idx (ba_local_hash s)) each_rollout
      else each_rollout (map (plain_rollout (length ptoks)) seqs))"

definition bake_scored :: "bake_env \<Rightarrow> 'p task_env \<Rightarrow> int \<Rightarrow> 'p \<Rightarrow> int \<Rightarrow> int \<Rightarrow> baked list \<Rightarrow> bake_state
    \<Rightarrow> bake_state \<times> 'p bake_outcome res" where
  "bake_scored bv env prompt_idx problem expected_ckpt_n phase rollouts s =
     (if phase = 1 \<and> kn_drop_btok0 (bv_knobs bv) \<and> truncated_group bv env rollouts
      then (note_drop ''termination'' s, Inr Dropped)
      else (s, compose_or_retry bv env prompt_idx problem expected_ckpt_n phase rollouts))"

definition bake_prompt :: "bake_env \<Rightarrow> 'p task_env \<Rightarrow> int \<Rightarrow> int \<Rightarrow> 'p \<Rightarrow> int list \<Rightarrow> int list list \<Rightarrow> baked list \<Rightarrow> bake_state
    \<Rightarrow> bake_state \<times> 'p bake_outcome res" where
  "bake_prompt bv env expected_ckpt_n prompt_idx problem ptoks completions existing s =
     (if int (length completions) < M_ROLLOUTS then (s, Inr Dropped)
      else
        let phase = phase_of existing completions in
        case rbind (phase_rollouts bv env prompt_idx ptoks completions s) (traverse (graded_partial bv env problem (length ptoks))) of
          Inl e \<Rightarrow> (s, Inl e)
        | Inr new_partial \<Rightarrow>
            if phase = 1 \<and> uniform_rewards existing new_partial then (s, Inr Dropped)
            else if phase = 1 \<and> kn_drop_btok0 (bv_knobs bv) \<and> existing = [] \<and> new_all_hit_max bv new_partial
            then (s, Inr Dropped)
            else (case traverse (proof_forward bv) new_partial of
                    Inl e \<Rightarrow> (s, Inl e)
                  | Inr new_rollouts \<Rightarrow> bake_scored bv env prompt_idx problem expected_ckpt_n phase (existing @ new_rollouts) s))"

fun bake_prompts :: "bake_env \<Rightarrow> 'p task_env \<Rightarrow> int \<Rightarrow> (int, baked list) dict \<Rightarrow> (int \<times> 'p \<times> int list \<times> int list list) list
    \<Rightarrow> 'p pool_entry list \<Rightarrow> (int, baked list) dict \<Rightarrow> bake_state
    \<Rightarrow> bake_state \<times> ('p pool_entry list \<times> (int, baked list) dict) res" where
  "bake_prompts bv env ckpt_n existing [] entries retry s = (s, Inr (entries, retry))"
| "bake_prompts bv env ckpt_n existing ((i, p, ptoks, completions) # rest) entries retry s =
     (case bake_prompt bv env ckpt_n i p ptoks completions (dget existing i []) s of
        (s1, Inl e) \<Rightarrow> (s1, Inl e)
      | (s1, Inr (Entry x)) \<Rightarrow> bake_prompts bv env ckpt_n existing rest (entries @ [x]) retry s1
      | (s1, Inr (Retry rs)) \<Rightarrow> bake_prompts bv env ckpt_n existing rest entries (dset i rs retry) s1
      | (s1, Inr Dropped) \<Rightarrow> bake_prompts bv env ckpt_n existing rest entries retry s1)"

text \<open>The per-prompt path, after one batched first phase; an exception leaves the cache as it is.\<close>

fun bake_entries :: "bake_env \<Rightarrow> 'p task_env \<Rightarrow> int \<Rightarrow> (int \<times> 'p) list \<Rightarrow> 'p pool_entry list \<Rightarrow> bake_state
    \<Rightarrow> bake_state \<times> 'p pool_entry list res" where
  "bake_entries bv env ckpt_n [] entries s = (s, Inr entries)"
| "bake_entries bv env ckpt_n ((i, p) # rest) entries s =
     (case pre_bake_entry bv env i p ckpt_n s of
        (s1, Inl e) \<Rightarrow> (s1, Inl e)
      | (s1, Inr None) \<Rightarrow> bake_entries bv env ckpt_n rest entries s1
      | (s1, Inr (Some x)) \<Rightarrow> bake_entries bv env ckpt_n rest (entries @ [x]) s1)"

definition pre_bake_batch :: "bake_env \<Rightarrow> 'p task_env \<Rightarrow> int list \<Rightarrow> 'p list \<Rightarrow> int \<Rightarrow> (int, baked list) dict \<Rightarrow> bake_state
    \<Rightarrow> bake_state \<times> ('p pool_entry list \<times> (int, baked list) dict) res" where
  "pre_bake_batch bv env prompt_indices problems expected_ckpt_n existing s =
     (case (if bv_enforce bv then None else bv_vllm bv) of
        None \<Rightarrow>
          (case bake_entries bv env expected_ckpt_n (zip prompt_indices problems) []
                  (fst (prefetch_phase1 bv env problems prompt_indices (ba_randomness s) s)) of
             (s1, Inl e) \<Rightarrow> (s1, Inl e)
           | (s1, Inr entries) \<Rightarrow> (s1 \<lparr> ba_cache := [] \<rparr>, Inr (entries, [])))
      | Some backend \<Rightarrow>
          (case rbind (traverse (\<lambda>p. encode_prompt (bv_tokenizer bv) (en_prompt env p)) problems) (\<lambda>prompts.
                  rbind (vl_generate_multi backend prompts M_ROLLOUTS (max_new bv (en_name env))) (\<lambda>all_completions.
                  Inr (prompts, all_completions))) of
             Inl e \<Rightarrow> (s, Inl e)
           | Inr (prompts, all_completions) \<Rightarrow>
               bake_prompts bv env expected_ckpt_n existing (zip prompt_indices (zip problems (zip prompts all_completions)))
                 [] [] s))"

section \<open>The asynchronous path\<close>

definition process_one_completion :: "bake_env \<Rightarrow> 'p task_env \<Rightarrow> int \<Rightarrow> 'p \<Rightarrow> int list \<Rightarrow> int list list \<Rightarrow> baked list \<Rightarrow> int
    \<Rightarrow> 'p bake_outcome res" where
  "process_one_completion bv env prompt_idx problem ptoks completions existing expected_ckpt_n =
     (if int (length completions) < M_ROLLOUTS then Inr Dropped
      else
        let phase = phase_of existing completions in
        rbind (rbind (each_rollout (map (plain_rollout (length ptoks)) (map (\<lambda>g. ptoks @ g) completions)))
                 (traverse (graded_partial bv env problem (length ptoks)))) (\<lambda>new_partial.
        if phase = 1 \<and> uniform_rewards existing new_partial then Inr Dropped
        else rbind (traverse (proof_forward bv) new_partial) (\<lambda>new_rollouts.
          let rollouts = existing @ new_rollouts in
          if phase = 1 \<and> kn_drop_btok0 (bv_knobs bv) \<and> truncated_group bv env rollouts then Inr Dropped
          else compose_or_retry bv env prompt_idx problem expected_ckpt_n phase rollouts)))"

text \<open>The first retry that is not excluded and whose prompt can be read; the unreadable ones before it are forgotten.\<close>

fun pick_retry :: "'p task_env \<Rightarrow> int set \<Rightarrow> int list \<Rightarrow> (int, baked list) dict
    \<Rightarrow> (int, baked list) dict \<times> (int \<times> 'p \<times> baked list) option" where
  "pick_retry env skip [] retry = (retry, None)"
| "pick_retry env skip (i # rest) retry =
     (if i \<in> skip then pick_retry env skip rest retry
      else case en_get_problem env i of
          Inl e \<Rightarrow> pick_retry env skip rest (filter (\<lambda>(j, _). j \<noteq> i) retry)
        | Inr problem \<Rightarrow> (retry, Some (i, problem, dget retry i [])))"

definition active_prompt_range :: "bake_env \<Rightarrow> int \<Rightarrow> int \<Rightarrow> 'p task_env \<Rightarrow> int \<Rightarrow> string \<Rightarrow> (int \<times> int) option" where
  "active_prompt_range bv range_from_window range_size env window_n randomness =
     (if window_n < range_from_window \<or> randomness = [] then None
      else Some (window_prompt_range (me_sha (bv_me bv)) randomness (en_name env) (so_len (en_source env)) range_size))"

definition async_pick_next_prompt :: "'p task_env \<Rightarrow> int set \<Rightarrow> int set \<Rightarrow> rng_draws \<Rightarrow> (int \<times> int) option \<Rightarrow> (int, baked list) dict
    \<Rightarrow> (int, baked list) dict \<times> (int \<times> 'p \<times> baked list) option res" where
  "async_pick_next_prompt env cooldown exclude rng prompt_range retry =
     (case pick_retry env (exclude \<union> cooldown) (map fst retry) retry of
        (retry1, Some choice) \<Rightarrow> (retry1, Inr (Some choice))
      | (retry1, None) \<Rightarrow>
          (retry1, case pick_prompt_idx (en_source env) (cooldown \<union> exclude) rng 1000 prompt_range of
             Inl RuntimeError \<Rightarrow> Inr None
           | Inl e \<Rightarrow> Inl e
           | Inr i \<Rightarrow> rbind (en_get_problem env i) (\<lambda>problem. Inr (Some (i, problem, [])))))"

section \<open>What a composed group is\<close>

lemma std_variance: "std xs = (if xs = [] then 0 else sqrt (variance xs))"
  by (simp add: std_def variance_def mean_def Let_def)

lemma dedupe_kept:
  assumes "dedupe sha rs [] [] = Inr kept" and "distinct chosen" and "set chosen \<subseteq> set (filter P kept)"
  shows "distinct (map (token_digest sha) chosen) \<and> set chosen \<subseteq> set rs"
proof -
  have d: "distinct (map (token_digest sha) kept)" "set kept \<subseteq> set rs" using dedupe_props [OF assms(1)] by auto
  have "set chosen \<subseteq> set kept" using assms(3) by auto
  then show ?thesis using d assms(2) by (auto simp: distinct_map inj_on_subset)
qed

lemma halves_distinct:
  assumes "select_continuous_subset rollouts n target = Some chosen" and "distinct rollouts"
  shows "distinct chosen"
proof -
  let ?o = "sort_key bk_reward rollouts"
  have c: "chosen = take (n div 2) ?o @ drop (length ?o - (n - n div 2)) ?o" "n \<le> length ?o"
    using assms(1) by (auto simp: select_continuous_subset_def Let_def not_less split: if_splits)
  have o: "distinct ?o" using assms(2) by simp
  have "set (take (n div 2) ?o) \<inter> set (drop (length ?o - (n - n div 2)) ?o) = {}"
    by (rule set_take_disj_set_drop_if_distinct [OF o]) (use c(2) in linarith)
  then show ?thesis using c(1) o by simp
qed

lemma continuous_in_zone:
  assumes "43 / 100 \<le> std (map bk_reward chosen)" and "length chosen = 8"
  shows "is_in_zone (rewards_std (map (\<lambda>r. Fin (bk_reward r)) chosen)) bootstrap"
proof -
  have "43 / 100 \<le> sqrt (variance (map bk_reward chosen))" using assms by (auto simp: std_variance split: if_splits)
  moreover have "rewards_std (map (\<lambda>r. Fin (bk_reward r)) chosen) = Fin (sqrt (variance (map bk_reward chosen)))"
    using rewards_std_Fin [of "map bk_reward chosen"] assms(2) by (simp add: comp_def)
  ultimately show ?thesis by (simp add: is_in_zone_def SIGMA_MIN_def BOOTSTRAP_SIGMA_MIN_def)
qed

lemma try_select_sound:
  assumes sel: "try_select sha kn en cont rs = Inr (Some (chosen, k))"
    and band: "1 \<le> kn_k_min kn" "kn_k_max kn \<le> 7" "0 \<le> kn_sigma_margin kn"
  shows "set chosen \<subseteq> set (terminating_rollouts rs en) \<and> int (length chosen) = M_ROLLOUTS
    \<and> distinct (map (token_digest sha) chosen) \<and> is_in_zone (rewards_std (map (\<lambda>r. Fin (bk_reward r)) chosen)) bootstrap"
proof -
  obtain R2 where R2: "dedupe sha (terminating_rollouts rs en) [] [] = Inr R2"
    using sel by (auto simp: try_select_def Let_def rbind_eq_Inr split: if_splits)
  let ?kept = "filter (passes_local_dist kn) R2"
  have dk: "distinct ?kept" using dedupe_props [OF R2] by (auto simp: distinct_map)
  have "distinct chosen \<and> set chosen \<subseteq> set ?kept \<and> int (length chosen) = M_ROLLOUTS
      \<and> is_in_zone (rewards_std (map (\<lambda>r. Fin (bk_reward r)) chosen)) bootstrap"
  proof (cases cont)
    case True
    let ?pool = "if M_ROLLOUTS \<le> int (length (filter bk_bt_ok ?kept)) then filter bk_bt_ok ?kept else ?kept"
    have sub: "select_continuous_subset ?pool (nat M_ROLLOUTS) (ZONE_THRESHOLD_STEADY + kn_sigma_margin kn) = Some chosen"
      using sel True R2 by (auto simp: try_select_def Let_def split: if_splits option.splits)
    have "distinct ?pool" "set ?pool \<subseteq> set ?kept" using distinct_filter [OF dk, of bk_bt_ok] dk by (simp_all, auto)
    moreover have "43 / 100 \<le> std (map bk_reward chosen)" "length chosen = 8"
      using continuous_sound [OF sub] band(3) by (simp_all add: ZONE_THRESHOLD_STEADY_def M_ROLLOUTS_def)
    ultimately show ?thesis using continuous_sound [OF sub] halves_distinct [OF sub] continuous_in_zone
      by (auto simp: M_ROLLOUTS_def)
  next
    case False
    then obtain k' where "compose_loop (kn_max_non_btok kn) (cbt ?kept 1) (cnbt ?kept 1) (cbt ?kept 0) (cnbt ?kept 0) (k_order kn) = Some (chosen, k')"
      using sel R2 by (auto simp: try_select_def Let_def split: if_splits)
    with compose_result [OF dk, of kn] band have a: "distinct chosen" "admissible kn ?kept chosen k'"
      by (auto simp: M_ROLLOUTS_def)
    then have "1 \<le> k'" "k' \<le> 7" using band by (auto simp: admissible_def)
    then show ?thesis using a admissible_in_zone [OF a(2)] by (auto simp: admissible_def)
  qed
  then show ?thesis using dedupe_kept [OF R2] by blast
qed

section \<open>Baked rollouts\<close>

text \<open>What the rollout says about itself is true: the reward is that of its completion, the hidden states are those of its tokens.\<close>

definition rollout_graded :: "bake_env \<Rightarrow> 'p task_env \<Rightarrow> 'p \<Rightarrow> nat \<Rightarrow> baked \<Rightarrow> bool" where
  "rollout_graded bv env problem pl r =
     (en_reward env problem (decoded_completion bv pl (bk_all_tokens r)) = Inr (bk_reward r)
      \<and> bk_completion_text r = decoded_completion bv pl (bk_all_tokens r) \<and> bk_prompt_length r = pl
      \<and> bk_in_eos r = validator_termination_ok (drop pl (bk_all_tokens r)) (set (bv_eos_ids bv))
      \<and> (\<exists>logits. me_forward (bv_me bv) (bk_all_tokens r) = Inr (bk_hidden r, logits)))"

definition partial_graded :: "bake_env \<Rightarrow> 'p task_env \<Rightarrow> 'p \<Rightarrow> nat \<Rightarrow> partial \<Rightarrow> bool" where
  "partial_graded bv env problem pl r =
     (pa_prompt_length r = pl \<and> pa_text r = decoded_completion bv pl (pa_all_tokens r)
      \<and> en_reward env problem (pa_text r) = Inr (pa_reward r))"

lemma graded_partial_graded:
  "graded_partial bv env problem pl roll = Inr r \<Longrightarrow> partial_graded bv env problem pl r"
  by (auto simp: graded_partial_def partial_graded_def Let_def rbind_eq_Inr)

lemma proof_forward_fields:
  assumes "proof_forward bv r = Inr x"
  shows "bk_all_tokens x = pa_all_tokens r \<and> bk_prompt_length x = pa_prompt_length r \<and> bk_completion_text x = pa_text r
    \<and> bk_reward x = pa_reward r \<and> bk_in_eos x = validator_termination_ok (drop (pa_prompt_length r) (pa_all_tokens r)) (set (bv_eos_ids bv))
    \<and> bk_forced x = pa_forced r \<and> bk_force_span x = pa_force_span r \<and> (bk_bt_ok x \<longrightarrow> bk_in_eos x)
    \<and> (\<exists>logits. me_forward (bv_me bv) (pa_all_tokens r) = Inr (bk_hidden x, logits))"
  using assms by (auto simp: proof_forward_def Let_def rbind_eq_Inr)

lemma proof_forward_graded:
  "partial_graded bv env problem pl r \<Longrightarrow> proof_forward bv r = Inr x \<Longrightarrow> rollout_graded bv env problem pl x"
  using proof_forward_fields [of bv r x] by (auto simp: partial_graded_def rollout_graded_def)

lemma traverse_image: "traverse f xs = Inr ys \<Longrightarrow> y \<in> set ys \<Longrightarrow> \<exists>x \<in> set xs. f x = Inr y"
  unfolding traverse_Inr_iff list_all2_conv_all_nth in_set_conv_nth by (metis nth_mem)

lemma traverse_set: "traverse f xs = Inr ys \<Longrightarrow> (\<And>x y. x \<in> set xs \<Longrightarrow> f x = Inr y \<Longrightarrow> P y) \<Longrightarrow> \<forall>y \<in> set ys. P y"
  using traverse_image by fastforce

text \<open>The outcomes of both paths go through the composition of the cumulative rollouts.\<close>

lemma compose_outcome:
  assumes "compose_or_retry bv env i p n phase rs = Inr out"
  shows "case out of
      Entry e \<Rightarrow> \<exists>k. try_select (me_sha (bv_me bv)) (bv_knobs bv) (Some (en_name env)) (en_continuous env) rs = Inr (Some (pe_rollouts e, k))
        \<and> e = new_entry env i p n (pe_rollouts e)
    | Retry rs' \<Rightarrow> rs' = rs \<and> phase < kn_max_phases (bv_knobs bv)
    | Dropped \<Rightarrow> kn_max_phases (bv_knobs bv) \<le> phase"
  using assms by (auto simp: compose_or_retry_def rbind_eq_Inr new_entry_def split: option.splits if_splits)

definition scored_outcome :: "bake_env \<Rightarrow> 'p task_env \<Rightarrow> int \<Rightarrow> 'p \<Rightarrow> int \<Rightarrow> nat \<Rightarrow> int list list \<Rightarrow> baked list \<Rightarrow> 'p bake_outcome \<Rightarrow> bool" where
  "scored_outcome bv env i p n pl completions existing out =
     (out = Dropped \<or> (\<exists>new_rollouts. (\<forall>r \<in> set new_rollouts. rollout_graded bv env p pl r)
        \<and> compose_or_retry bv env i p n (phase_of existing completions) (existing @ new_rollouts) = Inr out))"

lemma bake_prompt_outcome:
  assumes "bake_prompt bv env n i p ptoks completions existing s = (s1, Inr out)"
  shows "scored_outcome bv env i p n (length ptoks) completions existing out"
proof (cases "out = Dropped")
  case False
  then obtain ps new where ps: "rbind (phase_rollouts bv env i ptoks completions s) (traverse (graded_partial bv env p (length ptoks))) = Inr ps"
    and new: "traverse (proof_forward bv) ps = Inr new"
    and out: "compose_or_retry bv env i p n (phase_of existing completions) (existing @ new) = Inr out"
    using assms by (auto simp: bake_prompt_def bake_scored_def Let_def split: if_splits sum.splits)
  have "\<forall>r \<in> set ps. partial_graded bv env p (length ptoks) r"
    using ps by (auto simp: rbind_eq_Inr dest!: traverse_image graded_partial_graded)
  then have "\<forall>r \<in> set new. rollout_graded bv env p (length ptoks) r"
    using traverse_set [OF new] proof_forward_graded by metis
  then show ?thesis using out by (auto simp: scored_outcome_def)
qed (simp add: scored_outcome_def)

lemma process_outcome:
  assumes "process_one_completion bv env i p ptoks completions existing n = Inr out"
  shows "scored_outcome bv env i p n (length ptoks) completions existing out"
proof (cases "out = Dropped")
  case False
  then obtain rolls ps new where ps: "traverse (graded_partial bv env p (length ptoks)) rolls = Inr ps"
    and new: "traverse (proof_forward bv) ps = Inr new"
    and out: "compose_or_retry bv env i p n (phase_of existing completions) (existing @ new) = Inr out"
    using assms by (auto simp: process_one_completion_def Let_def rbind_eq_Inr split: if_splits)
  have "\<forall>r \<in> set ps. partial_graded bv env p (length ptoks) r" using ps by (auto dest!: traverse_image graded_partial_graded)
  then have "\<forall>r \<in> set new. rollout_graded bv env p (length ptoks) r"
    using traverse_set [OF new] proof_forward_graded by metis
  then show ?thesis using out by (auto simp: scored_outcome_def)
qed (simp add: scored_outcome_def)

lemma outcome_payable:
  assumes "scored_outcome bv env i p n pl completions existing out"
    and "\<forall>r \<in> set existing. rollout_graded bv env p pl r"
    and "1 \<le> kn_k_min (bv_knobs bv)" "kn_k_max (bv_knobs bv) \<le> 7" "0 \<le> kn_sigma_margin (bv_knobs bv)"
  shows "case out of
      Entry e \<Rightarrow> int (length (pe_rollouts e)) = M_ROLLOUTS
        \<and> (\<forall>r \<in> set (pe_rollouts e). rollout_graded bv env p pl r
             \<and> (bft_applicable (Some (en_name env)) \<or> validator_termination_ok (drop pl (bk_all_tokens r)) (set (bv_eos_ids bv))))
        \<and> distinct (map (token_digest (me_sha (bv_me bv))) (pe_rollouts e))
        \<and> is_in_zone (rewards_std (map (\<lambda>r. Fin (bk_reward r)) (pe_rollouts e))) bootstrap
    | Retry rs \<Rightarrow> \<forall>r \<in> set rs. rollout_graded bv env p pl r
    | Dropped \<Rightarrow> True"
proof (cases "out = Dropped")
  case False
  then obtain new where new: "\<forall>r \<in> set (existing @ new). rollout_graded bv env p pl r"
    and out: "compose_or_retry bv env i p n (phase_of existing completions) (existing @ new) = Inr out"
    using assms(1,2) by (auto simp: scored_outcome_def)
  show ?thesis
  proof (cases out)
    case (Entry e)
    with compose_outcome [OF out] obtain k where
      "try_select (me_sha (bv_me bv)) (bv_knobs bv) (Some (en_name env)) (en_continuous env) (existing @ new) = Inr (Some (pe_rollouts e, k))"
      by auto
    from try_select_sound [OF this assms(3-5)] Entry new show ?thesis
      by (fastforce simp: terminating_rollouts_def rollout_graded_def split: if_splits)
  next
    case (Retry rs)
    then show ?thesis using compose_outcome [OF out] new by simp
  qed (simp add: False)
qed simp

text \<open>
  C16. A composed entry can be paid. When the rollouts carried over from earlier phases are truthful about
  themselves, an entry that \<open>_pre_bake_batch\<close> composes (or that the asynchronous path does) holds eight rollouts with
  pairwise different tokens, each with the reward of its completion and the hidden states of its tokens, each
  terminated as the validator asks outside the thinking environment, with rewards in the validator's zone; and
  what is carried to the next phase is truthful again.
\<close>

theorem baked_entries_are_payable:
  assumes "bake_prompt bv env n i p ptoks completions existing s = (s1, Inr out)
      \<or> process_one_completion bv env i p ptoks completions existing n = Inr out"
    and "\<forall>r \<in> set existing. rollout_graded bv env p (length ptoks) r"
    and "1 \<le> kn_k_min (bv_knobs bv)" "kn_k_max (bv_knobs bv) \<le> 7" "0 \<le> kn_sigma_margin (bv_knobs bv)"
  shows "case out of
      Entry e \<Rightarrow> int (length (pe_rollouts e)) = M_ROLLOUTS
        \<and> (\<forall>r \<in> set (pe_rollouts e). rollout_graded bv env p (length ptoks) r
             \<and> (bft_applicable (Some (en_name env))
                \<or> validator_termination_ok (drop (length ptoks) (bk_all_tokens r)) (set (bv_eos_ids bv))))
        \<and> distinct (map (token_digest (me_sha (bv_me bv))) (pe_rollouts e))
        \<and> is_in_zone (rewards_std (map (\<lambda>r. Fin (bk_reward r)) (pe_rollouts e))) bootstrap
    | Retry rs \<Rightarrow> \<forall>r \<in> set rs. rollout_graded bv env p (length ptoks) r
    | Dropped \<Rightarrow> True"
proof -
  have "scored_outcome bv env i p n (length ptoks) completions existing out"
    using assms(1) bake_prompt_outcome process_outcome by metis
  from outcome_payable [OF this assms(2-5)] show ?thesis .
qed

section \<open>Phases\<close>

lemma proof_forward_length: "traverse (proof_forward bv) ps = Inr new \<Longrightarrow> length new = length ps"
  by (rule traverse_length)

lemma process_length:
  assumes "process_one_completion bv env i p ptoks completions existing n = Inr (Retry rs)"
  shows "length rs = length existing + length completions \<and> phase_of existing completions < kn_max_phases (bv_knobs bv)"
proof -
  obtain rolls ps new where r: "each_rollout (map (plain_rollout (length ptoks)) (map (\<lambda>g. ptoks @ g) completions)) = Inr rolls"
    "traverse (graded_partial bv env p (length ptoks)) rolls = Inr ps" "traverse (proof_forward bv) ps = Inr new"
    "compose_or_retry bv env i p n (phase_of existing completions) (existing @ new) = Inr (Retry rs)"
    using assms by (auto simp: process_one_completion_def Let_def rbind_eq_Inr split: if_splits)
  then have "length new = length completions" by (auto simp: each_rollout_def dest!: traverse_length)
  then show ?thesis using compose_outcome [OF r(4)] by simp
qed

text \<open>The phases of one prompt: what is carried over when every one of them ends with a retry.\<close>

fun carried :: "bake_env \<Rightarrow> 'p task_env \<Rightarrow> int \<Rightarrow> 'p \<Rightarrow> int list \<Rightarrow> int \<Rightarrow> baked list \<Rightarrow> int list list list \<Rightarrow> baked list option" where
  "carried bv env i p ptoks n existing [] = Some existing"
| "carried bv env i p ptoks n existing (completions # phases) =
     (case process_one_completion bv env i p ptoks completions existing n of
        Inr (Retry rs) \<Rightarrow> carried bv env i p ptoks n rs phases | _ \<Rightarrow> None)"

lemma carried_length:
  assumes "\<forall>c \<in> set phases. int (length c) = M_ROLLOUTS" and "carried bv env i p ptoks n existing phases = Some rs"
    and "int (length existing) = M_ROLLOUTS * k"
  shows "int (length rs) = M_ROLLOUTS * (k + int (length phases)) \<and> (phases = [] \<or> k + int (length phases) < kn_max_phases (bv_knobs bv))"
  using assms
proof (induction phases arbitrary: existing k)
  case (Cons c phases)
  then obtain rs1 where p1: "process_one_completion bv env i p ptoks c existing n = Inr (Retry rs1)"
    and rest: "carried bv env i p ptoks n rs1 phases = Some rs"
    by (auto split: sum.splits bake_outcome.splits)
  have c: "int (length c) = M_ROLLOUTS" using Cons.prems(1) by simp
  have "phase_of existing c = k + 1" using Cons.prems(3) c by (simp add: phase_of_def M_ROLLOUTS_def)
  then have b: "int (length rs1) = M_ROLLOUTS * (k + 1)" "k + 1 < kn_max_phases (bv_knobs bv)"
    using process_length [OF p1] Cons.prems(3) c by (simp_all add: algebra_simps)
  from Cons.IH [OF _ rest b(1)] Cons.prems(1) b(2) show ?case by (auto simp: algebra_simps)
qed simp

text \<open>
  Retrying a prompt ends. When every phase generates its eight rollouts, what is carried over after a
  number of retries in a row is exactly eight rollouts per phase, and that number stays below \<open>MAX_PHASES\<close>: the
  last phase bakes an entry or gives the prompt up.
\<close>

theorem phases_are_bounded:
  assumes "\<forall>c \<in> set phases. int (length c) = M_ROLLOUTS" and "carried bv env i p ptoks n [] phases = Some rs"
  shows "int (length rs) = M_ROLLOUTS * int (length phases)
    \<and> (phases = [] \<or> int (length phases) < kn_max_phases (bv_knobs bv))"
  using carried_length [OF assms, of 0] by simp

section \<open>The asynchronous path against the synchronous one\<close>

lemma not_terminated:
  assumes "ts = [] \<or> last ts \<notin> eos"
  shows "\<not> validator_termination_ok (drop pl ts) eos"
proof
  let ?c = "drop pl ts"
  assume ok: "validator_termination_ok ?c eos"
  then have c: "?c \<noteq> []" and f: "filter (\<lambda>i. ?c ! i \<in> eos) [0..<length ?c] \<noteq> []"
    "hd (filter (\<lambda>i. ?c ! i \<in> eos) [0..<length ?c]) = length ?c - 1"
    by (auto simp: validator_termination_ok_def Let_def split: if_splits)
  have "hd (filter (\<lambda>i. ?c ! i \<in> eos) [0..<length ?c]) \<in> set (filter (\<lambda>i. ?c ! i \<in> eos) [0..<length ?c])"
    using f(1) by (rule hd_in_set)
  then have "?c ! (length ?c - 1) \<in> eos" unfolding f(2) by simp
  then have "last ?c \<in> eos" using c by (simp add: last_conv_nth)
  moreover have "last ?c = last ts" "ts \<noteq> []" using c by auto
  ultimately show False using assms by simp
qed

lemma hit_max_truncated:
  assumes "new_all_hit_max bv ps" and "traverse (proof_forward bv) ps = Inr new"
    and "\<not> bft_applicable (Some (en_name env))" and "max_truncated_allowed (me_environ (bv_me bv)) < int (length ps)"
  shows "truncated_group bv env new"
proof -
  have "\<not> bk_bt_ok x" if "x \<in> set new" for x
  proof -
    obtain r where r: "r \<in> set ps" "proof_forward bv r = Inr x" using traverse_image [OF assms(2)] \<open>x \<in> set new\<close> by blast
    have "pa_all_tokens r = [] \<or> last (pa_all_tokens r) \<notin> set (bv_eos_ids bv)"
      using assms(1) r(1) by (auto simp: new_all_hit_max_def list_all_iff)
    from not_terminated [OF this] proof_forward_fields [OF r(2)] show ?thesis by auto
  qed
  then have "filter bk_bt_ok new = []" by (auto simp: filter_empty_conv)
  then show ?thesis using assms(3,4) traverse_length [OF assms(2)] by (simp add: truncated_group_def too_many_truncated_def)
qed

text \<open>
  Outside the thinking environment the asynchronous path is the synchronous one. Whenever it returns,
  \<open>_pre_bake_batch\<close>'s body for that prompt returns the same outcome, although it drops a prompt without a finished
  rollout before the forward pass and the asynchronous path only after it (the bound says that a group without
  one is over the allowance).
\<close>

theorem async_agrees_with_sync:
  assumes "process_one_completion bv env i p ptoks completions existing n = Inr out"
    and "\<not> bft_applicable (Some (en_name env))" and "max_truncated_allowed (me_environ (bv_me bv)) < int (length completions)"
  shows "snd (bake_prompt bv env n i p ptoks completions existing s) = Inr out"
proof (cases "int (length completions) < M_ROLLOUTS")
  case True
  then show ?thesis using assms(1) by (simp add: process_one_completion_def bake_prompt_def)
next
  case False
  let ?ph = "phase_of existing completions"
  let ?rolls = "each_rollout (map (plain_rollout (length ptoks)) (map (\<lambda>g. ptoks @ g) completions))"
  have pr: "phase_rollouts bv env i ptoks completions s = ?rolls" using assms(2) by (simp add: phase_rollouts_def Let_def)
  obtain ps where ps: "rbind ?rolls (traverse (graded_partial bv env p (length ptoks))) = Inr ps"
    using assms(1) False by (auto simp: process_one_completion_def Let_def rbind_eq_Inr)
  then have len: "length ps = length completions" by (auto simp: rbind_eq_Inr each_rollout_def dest!: traverse_length)
  show ?thesis
  proof (cases "?ph = 1 \<and> uniform_rewards existing ps")
    case True
    then show ?thesis using assms(1) False ps by (simp add: process_one_completion_def bake_prompt_def pr Let_def)
  next
    case ne: False
    then obtain new where new: "traverse (proof_forward bv) ps = Inr new"
      using assms(1) False ps by (auto simp: process_one_completion_def Let_def rbind_eq_Inr split: if_splits)
    have "truncated_group bv env (existing @ new)" if "existing = []" "new_all_hit_max bv ps"
      using hit_max_truncated [OF that(2) new assms(2)] assms(3) len that(1) by simp
    then show ?thesis using assms(1) False ps ne new
      by (auto simp: process_one_completion_def bake_prompt_def bake_scored_def pr Let_def split: if_splits)
  qed
qed

section \<open>Retrying under the forced seed\<close>

lemma dedupe_again:
  assumes "\<forall>y \<in> set ys. \<exists>h. token_digest sha y = Inr h \<and> (h \<in> set seen \<or> (\<exists>x \<in> set xs. token_digest sha x = Inr h))"
    and "dedupe sha xs seen out = Inr kept"
  shows "dedupe sha (xs @ ys) seen out = Inr kept"
  using assms
proof (induction xs arbitrary: seen out)
  case Nil
  then show ?case by (induction ys) auto
next
  case (Cons x xs)
  then obtain h where h: "token_digest sha x = Inr h" by (auto simp: rbind_eq_Inr)
  show ?case
  proof (cases "h \<in> set seen")
    case True
    then have "dedupe sha (xs @ ys) seen out = Inr kept" using Cons h by (intro Cons.IH) fastforce+
    then show ?thesis using True h by simp
  next
    case False
    then have "dedupe sha (xs @ ys) (h # seen) (out @ [x]) = Inr kept" using Cons h by (intro Cons.IH) fastforce+
    then show ?thesis using False h by simp
  qed
qed

lemma dedupe_shrinks: "dedupe sha xs seen out = Inr kept \<Longrightarrow> length kept \<le> length out + length xs"
  by (induction xs arbitrary: seen out) (fastforce simp: rbind_eq_Inr split: if_splits)+

lemma dedupe_digests: "dedupe sha xs seen out = Inr kept \<Longrightarrow> \<forall>x \<in> set xs. \<exists>h. token_digest sha x = Inr h"
  by (induction xs arbitrary: seen out) (fastforce simp: rbind_eq_Inr split: if_splits)+

lemma select_twice:
  assumes "try_select sha kn en cont rs = Inr None" and "try_select sha kn en cont (rs @ rs) = Inr res"
  shows "res = None"
proof (cases "int (length (terminating_rollouts (rs @ rs) en)) < M_ROLLOUTS")
  case True
  then show ?thesis using assms(2) by (simp add: try_select_def)
next
  case False
  let ?t = "terminating_rollouts rs en"
  have tt: "terminating_rollouts (rs @ rs) en = ?t @ ?t" by (simp add: terminating_rollouts_def)
  obtain kept2 where k2: "dedupe sha (?t @ ?t) [] [] = Inr kept2"
    using assms(2) False by (auto simp: try_select_def tt Let_def rbind_eq_Inr)
  have dig: "\<forall>x \<in> set ?t. \<exists>h. token_digest sha x = Inr h" using dedupe_digests [OF k2] by simp
  obtain kept where k: "dedupe sha ?t [] [] = Inr kept" using dedupe_defined [OF dig] by blast
  have "dedupe sha (?t @ ?t) [] [] = Inr kept" using dig by (intro dedupe_again [OF _ k] ballI) metis
  then have same: "dedupe sha (?t @ ?t) [] [] = Inr kept" .
  show ?thesis
  proof (cases "int (length ?t) < M_ROLLOUTS")
    case True
    moreover have "length kept \<le> length ?t" using dedupe_shrinks [OF k] by simp
    ultimately have "int (length (filter (passes_local_dist kn) kept)) < M_ROLLOUTS"
      using length_filter_le [of "passes_local_dist kn" kept] by linarith
    then show ?thesis using assms(2) False by (simp add: try_select_def tt Let_def same)
  next
    case ge: False
    then have "try_select sha kn en cont (rs @ rs) = try_select sha kn en cont rs"
      using False by (simp add: try_select_def tt Let_def same k)
    then show ?thesis using assms by simp
  qed
qed

text \<open>
  Under the forced seed a second phase is wasted. The stream of a rollout depends on the window, the prompt,
  the checkpoint and the rollout's number, so the retry of a prompt in the same window regenerates the completions of the first
  phase; its duplicates are dropped and no entry can come of it.
\<close>

theorem forced_retry_is_futile:
  assumes "process_one_completion bv env i p ptoks completions [] n = Inr (Retry rs)"
    and "process_one_completion bv env i p ptoks completions rs n = Inr out"
  shows "\<nexists>e. out = Entry e"
proof
  assume "\<exists>e. out = Entry e"
  then obtain e where e: "out = Entry e" by blast
  let ?r = "each_rollout (map (plain_rollout (length ptoks)) (map (\<lambda>g. ptoks @ g) completions))"
  obtain ps new where new: "rbind ?r (traverse (graded_partial bv env p (length ptoks))) = Inr ps" "traverse (proof_forward bv) ps = Inr new"
    and c1: "compose_or_retry bv env i p n (phase_of [] completions) new = Inr (Retry rs)"
    using assms(1) by (auto simp: process_one_completion_def Let_def split: if_splits elim!: rbind_eq_Inr [THEN iffD1, elim_format])
  then have rs: "rs = new" using compose_outcome [OF c1] by simp
  have c2: "compose_or_retry bv env i p n (phase_of rs completions) (rs @ new) = Inr (Entry e)"
    using assms(2) e new by (auto simp: process_one_completion_def Let_def split: if_splits)
  have "try_select (me_sha (bv_me bv)) (bv_knobs bv) (Some (en_name env)) (en_continuous env) rs = Inr None"
    using c1 rs by (auto simp: compose_or_retry_def rbind_eq_Inr split: option.splits prod.splits) (metis not_None_eq surj_pair)
  from select_twice [OF this] compose_outcome [OF c2] rs show False by auto
qed

section \<open>The path under the forced seed\<close>

lemma skip_default: "map_of environ ''RELIQUARY_ZONE_SIGMA_MIN'' = None \<Longrightarrow> skip_for_out_of_zone f environ xs = skip_for_out_of_zone f [] xs"
  by (simp add: skip_for_out_of_zone_def)

lemma cached_rollout_fields:
  assumes "cached_rollout bv g x = Inr r"
  shows "bk_all_tokens r = ro_tokens g \<and> bk_prompt_length r = ro_prompt_length g \<and> bk_reward r = x
    \<and> bk_completion_text r = decoded_completion bv (ro_prompt_length g) (ro_tokens g)
    \<and> (\<exists>logits. me_forward (bv_me bv) (bk_all_tokens r) = Inr (bk_hidden r, logits)
         \<and> token_logprobs (me_fns (bv_me bv)) (bk_all_tokens r) (bk_prompt_length r) logits = Inr (bk_token_logprobs r))"
  using assms by (auto simp: cached_rollout_def Let_def rbind_eq_Inr)

lemma entry_rollouts:
  assumes "entry_of_generations bv env i p n gens s = (s1, Inr (Some e))"
  shows "list_all2 (\<lambda>g r. cached_rollout bv g (safe_reward env p (decoded_completion bv (ro_prompt_length g) (ro_tokens g))) = Inr r)
      gens (pe_rollouts e)
    \<and> \<not> skip_for_out_of_zone (bv_number bv) (me_environ (bv_me bv)) (map bk_reward (pe_rollouts e))"
proof -
  let ?w = "\<lambda>g. safe_reward env p (decoded_completion bv (ro_prompt_length g) (ro_tokens g))"
  have rw: "grade_group_parallel env (map (\<lambda>g. (p, decoded_completion bv (ro_prompt_length g) (ro_tokens g))) gens) = map ?w gens"
    by (simp add: grade_group_parallel_def)
  have zip: "zip gens (map ?w gens) = map (\<lambda>g. (g, ?w g)) gens" by (simp add: zip_map2 zip_same_conv_map)
  obtain rs where rs: "traverse (\<lambda>(g, x). cached_rollout bv g x) (map (\<lambda>g. (g, ?w g)) gens) = Inr rs" "pe_rollouts e = rs"
    and skip: "\<not> skip_for_out_of_zone (bv_number bv) (me_environ (bv_me bv)) (map ?w gens)"
    using assms unfolding entry_of_generations_def Let_def rw zip
    by (auto simp: rbind_eq_Inr new_entry_def split: if_splits)
  have each: "list_all2 (\<lambda>g r. cached_rollout bv g (?w g) = Inr r) gens rs"
    using rs(1) by (simp add: traverse_Inr_iff list_all2_map1)
  then have "map bk_reward rs = map ?w gens"
    by (auto simp: list_all2_conv_all_nth cached_rollout_fields intro!: nth_equalityI)
  then show ?thesis using each skip rs(2) by simp
qed

text \<open>
  What the per-prompt path puts in the pool is graded, proven and in the zone. An entry of \<open>_pre_bake_entry\<close> has at least
  eight rollouts, each with the reward of its own completion (0 when the grader fails) and the hidden states and
  log-probabilities of its own tokens, and its rewards are in the validator's zone, steady or
  bootstrap, unless the diagnostic override of the threshold is set.
\<close>

theorem forced_entry_in_zone:
  assumes "pre_bake_entry bv env i p n s = (s1, Inr (Some e))"
    and "map_of (me_environ (bv_me bv)) ''RELIQUARY_ZONE_SIGMA_MIN'' = None"
  shows "M_ROLLOUTS \<le> int (length (pe_rollouts e))
    \<and> (\<forall>r \<in> set (pe_rollouts e). bk_completion_text r = decoded_completion bv (bk_prompt_length r) (bk_all_tokens r)
         \<and> bk_reward r = safe_reward env p (bk_completion_text r)
         \<and> (\<exists>logits. me_forward (bv_me bv) (bk_all_tokens r) = Inr (bk_hidden r, logits)
              \<and> token_logprobs (me_fns (bv_me bv)) (bk_all_tokens r) (bk_prompt_length r) logits = Inr (bk_token_logprobs r)))
    \<and> is_in_zone (rewards_std (map (\<lambda>r. Fin (bk_reward r)) (pe_rollouts e))) bootstrap"
proof -
  obtain gens rs s2 where g: "generate_m_rollouts bv env p (ba_randomness s) i s = (s2, Inr gens)" "M_ROLLOUTS \<le> int (length gens)"
    "each_rollout gens = Inr rs" and e: "entry_of_generations bv env i p n rs s2 = (s1, Inr (Some e))"
    using assms(1) by (auto simp: pre_bake_entry_def split: prod.splits sum.splits if_splits)
  have len: "length rs = length gens" using g(3) by (auto simp: each_rollout_def dest: traverse_length)
  from entry_rollouts [OF e]
  have each: "list_all2 (\<lambda>g r. cached_rollout bv g (safe_reward env p (decoded_completion bv (ro_prompt_length g) (ro_tokens g))) = Inr r)
      rs (pe_rollouts e)" and skip: "\<not> skip_for_out_of_zone (bv_number bv) [] (map bk_reward (pe_rollouts e))"
    by (simp_all add: skip_default [OF assms(2)])
  have "\<exists>g. cached_rollout bv g (safe_reward env p (decoded_completion bv (ro_prompt_length g) (ro_tokens g))) = Inr r"
    if "r \<in> set (pe_rollouts e)" for r
    using each that by (auto simp: list_all2_conv_all_nth in_set_conv_nth)
  then have "\<forall>r \<in> set (pe_rollouts e). bk_completion_text r = decoded_completion bv (bk_prompt_length r) (bk_all_tokens r)
       \<and> bk_reward r = safe_reward env p (bk_completion_text r)
       \<and> (\<exists>logits. me_forward (bv_me bv) (bk_all_tokens r) = Inr (bk_hidden r, logits)
            \<and> token_logprobs (me_fns (bv_me bv)) (bk_all_tokens r) (bk_prompt_length r) logits = Inr (bk_token_logprobs r))"
    by (metis cached_rollout_fields)
  moreover have "M_ROLLOUTS \<le> int (length (pe_rollouts e))" using g(2) len each by (auto dest: list_all2_lengthD)
  moreover have "is_in_zone (rewards_std (map (\<lambda>r. Fin (bk_reward r)) (pe_rollouts e))) bootstrap"
    using kept_group_in_zone [OF skip] by (simp add: comp_def)
  ultimately show ?thesis by blast
qed

section \<open>A concrete prompt\<close>

text \<open>A backend whose eight completions never stop, four of them the right answer, all repeated.\<close>

definition endless_bake :: bake_env where
  "endless_bake = sample_bake
     \<lparr> bv_me := sample_me \<lparr> me_forward := (\<lambda>ts. Inr (replicate (length ts) [Fin 0], replicate (length ts) (replicate 10 (Fin 1)))) \<rparr>,
       bv_tokenizer := sample_tokenizer \<lparr> tk_decode := (\<lambda>ts. if take 1 ts = [JInt 0] then ''good'' else ''bad'') \<rparr>,
       bv_vllm := Some (sample_vllm
         \<lparr> vl_forced_multi := Some (\<lambda>ps idxs r h mx. Inr (map (\<lambda>p. [[0], [0], [0], [0], [1], [1], [1], [1]]) ps)),
           vl_forced := (\<lambda>p r i h mx. Inr [[0], [0], [0], [0], [1], [1], [1], [1]]) \<rparr>) \<rparr>"

definition endless_rollout :: "int \<Rightarrow> rollout_out" where
  "endless_rollout t = \<lparr> ro_tokens = [1, t], ro_prompt_length = 1, ro_forced = False, ro_force_span = None \<rparr>"

lemma endless_generation:
  "generate_m_rollouts endless_bake sample_env 3 ''ab'' 3 sample_state
     = (sample_state, Inr (map (Some \<circ> endless_rollout) [0, 0, 0, 0, 1, 1, 1, 1]))"
  by (simp add: generate_m_rollouts_def endless_bake_def sample_bake_def sample_me_def forced_vllm_def vllm_forced_seed_enabled_def
      dget_def sample_tokenizer_def encode_prompt_def sample_state_def take_prefetched_phase1_def vllm_rollouts_def bft_applicable_def
      sample_env_def sample_vllm_def truncate_at_first_eos_def enumerate_eq_zip plain_rollout_def endless_rollout_def Let_def)

lemma endless_text: "decoded_completion endless_bake 1 (1 # t # ts) = (if t = 0 then ''good'' else ''bad'')"
  by (simp add: decoded_completion_def endless_bake_def)

lemma endless_fields:
  "me_forward (bv_me endless_bake) ts = Inr (replicate (length ts) [Fin 0], replicate (length ts) (replicate 10 (Fin 1)))"
  "me_fns (bv_me endless_bake) = toy_fns" "me_environ (bv_me endless_bake) = [(''RELIQUARY_VLLM_FORCED_SEED'', ''1'')]"
  "bv_eos_ids endless_bake = [9]" "bv_knobs endless_bake = sample_knobs" "me_sha (bv_me endless_bake) = (\<lambda>m. m)"
  by (simp_all add: endless_bake_def sample_bake_def sample_me_def)

lemma endless_cached:
  "t \<in> {0, 1} \<Longrightarrow> cached_rollout endless_bake (endless_rollout t) x = Inr
     \<lparr> bk_all_tokens = [1, t], bk_prompt_length = 1, bk_completion_text = (if t = 0 then ''good'' else ''bad''),
       bk_hidden = [[Fin 0], [Fin 0]], bk_token_logprobs = [Fin 1], bk_reward = x, bk_in_eos = False, bk_p_stop = None,
       bk_q10 = None, bk_median = None, bk_bt_ok = False, bk_forced = False, bk_force_span = None \<rparr>"
  using endless_text [of t "[]"]
  by (auto simp: cached_rollout_def endless_rollout_def endless_fields token_logprobs_def token_logprob_def
      py_at_def toy_fns_def Let_def numeral_2_eq_2)

lemma endless_in_zone: "\<not> skip_for_out_of_zone f [] [1, 1, 1, 1, 0, 0, 0, 0]"
proof -
  have "43 / 100 \<le> sqrt (1 / 4 :: real)" by (rule real_le_rsqrt) (simp add: power2_eq_square)
  then show ?thesis
    using binary_std [of "[1, 1, 1, 1, 0, 0, 0, 0]"] by (simp add: skip_for_out_of_zone_def VALIDATOR_STEADY_SIGMA_MIN_def ones_def)
qed

definition endless_baked :: "int \<Rightarrow> baked" where
  "endless_baked t = \<lparr> bk_all_tokens = [1, t], bk_prompt_length = 1, bk_completion_text = (if t = 0 then ''good'' else ''bad''),
     bk_hidden = [[Fin 0], [Fin 0]], bk_token_logprobs = [Fin 1], bk_reward = (if t = 0 then 1 else 0), bk_in_eos = False,
     bk_p_stop = None, bk_q10 = None, bk_median = None, bk_bt_ok = False, bk_forced = False, bk_force_span = None \<rparr>"

abbreviation endless_ts :: "int list" where "endless_ts \<equiv> [0, 0, 0, 0, 1, 1, 1, 1]"

lemma endless_entry:
  "pre_bake_entry endless_bake sample_env 3 3 1 sample_state
     = (sample_state, Inr (Some (new_entry sample_env 3 3 1 (map endless_baked endless_ts))))"
proof -
  let ?gens = "map (Some \<circ> endless_rollout) endless_ts" and ?w = "map (\<lambda>t. if t = 0 then 1 else 0 :: real) endless_ts"
  have "ba_randomness sample_state = ''ab''" by (simp add: sample_state_def)
  then have g: "generate_m_rollouts endless_bake sample_env 3 (ba_randomness sample_state) 3 sample_state = (sample_state, Inr ?gens)"
    using endless_generation by simp
  have e: "each_rollout ?gens = Inr (map endless_rollout endless_ts)" by (simp add: each_rollout_def)
  have r: "grade_group_parallel sample_env (map (\<lambda>g. (3, decoded_completion endless_bake (ro_prompt_length g) (ro_tokens g)))
      (map endless_rollout endless_ts)) = ?w"
    using endless_text by (simp add: grade_group_parallel_def endless_rollout_def safe_reward_def sample_env_def)
  have k: "\<not> skip_for_out_of_zone (bv_number endless_bake) (me_environ (bv_me endless_bake)) ?w"
    using endless_in_zone by (subst skip_default) (simp_all add: endless_fields)
  have c: "cached_rollout endless_bake (endless_rollout 0) 1 = Inr (endless_baked 0)"
    "cached_rollout endless_bake (endless_rollout 1) 0 = Inr (endless_baked 1)"
    using endless_cached [of 0 1] endless_cached [of 1 0] by (simp_all add: endless_baked_def)
  have t: "traverse (\<lambda>(g, x). cached_rollout endless_bake g x) (map (\<lambda>t. (endless_rollout t, if t = 0 then 1 else 0)) endless_ts)
      = Inr (map endless_baked endless_ts)" by (simp add: c)
  have z: "zip (map endless_rollout endless_ts) ?w = map (\<lambda>t. (endless_rollout t, if t = 0 then 1 else 0)) endless_ts" by simp
  have "entry_of_generations endless_bake sample_env 3 3 1 (map endless_rollout endless_ts) sample_state
      = (sample_state, Inr (Some (new_entry sample_env 3 3 1 (map endless_baked endless_ts))))"
    unfolding entry_of_generations_def Let_def r z if_not_P [OF k] t rbind.simps ..
  moreover have "\<not> int (length ?gens) < M_ROLLOUTS" by (simp add: M_ROLLOUTS_def)
  ultimately show ?thesis unfolding pre_bake_entry_def g prod.case sum.case e by (simp only: if_False)
qed

text \<open>
  The termination gate is not on the path that runs. Under the forced seed (the default) every entry comes from
  \<open>_pre_bake_entry\<close>, which never calls \<open>_try_select\<close>: for a code prompt whose eight completions never stop and repeat
  each other it returns an entry with all of them, where the batch path drops the prompt.
\<close>

theorem forced_entry_skips_the_gate:
  "(\<exists>e. pre_bake_entry endless_bake sample_env 3 3 1 sample_state = (sample_state, Inr (Some e))
      \<and> length (pe_rollouts e) = 8 \<and> \<not> distinct (map bk_all_tokens (pe_rollouts e))
      \<and> (\<forall>r \<in> set (pe_rollouts e). \<not> validator_termination_ok (drop 1 (bk_all_tokens r)) (set (bv_eos_ids endless_bake))))
   \<and> snd (bake_prompt endless_bake sample_env 1 3 3 [1] [[0], [0], [0], [0], [1], [1], [1], [1]] [] sample_state) = Inr Dropped"
proof -
  obtain e where e: "pre_bake_entry endless_bake sample_env 3 3 1 sample_state = (sample_state, Inr (Some e))"
    "map bk_all_tokens (pe_rollouts e) = [[1, 0], [1, 0], [1, 0], [1, 0], [1, 1], [1, 1], [1, 1], [1, 1]]"
    using endless_entry by (fastforce simp: new_entry_def endless_baked_def)
  have "length (pe_rollouts e) = 8" using arg_cong [OF e(2), of length] by simp
  moreover have "\<not> validator_termination_ok (drop 1 (bk_all_tokens r)) (set (bv_eos_ids endless_bake))" if "r \<in> set (pe_rollouts e)" for r
  proof -
    have "bk_all_tokens r \<in> set (map bk_all_tokens (pe_rollouts e))" using that by simp
    then have "bk_all_tokens r = [1, 0] \<or> bk_all_tokens r = [1, 1]" unfolding e(2) by auto
    then show ?thesis by (auto simp: validator_termination_ok_def endless_fields)
  qed
  moreover have "snd (bake_prompt endless_bake sample_env 1 3 3 [1] [[0], [0], [0], [0], [1], [1], [1], [1]] [] sample_state) = Inr Dropped"
    using endless_text [of _ "[]"]
    by (simp add: bake_prompt_def phase_of_def M_ROLLOUTS_def phase_rollouts_def sample_env_def bft_applicable_def each_rollout_def
        plain_rollout_def graded_partial_def uniform_rewards_def new_all_hit_max_def endless_fields sample_knobs_def Let_def)
  ultimately show ?thesis using e by auto
qed

theorem forced_entry_in_zone_witness:
  "\<exists>e. pre_bake_entry endless_bake sample_env 3 3 1 sample_state = (sample_state, Inr (Some e))
     \<and> is_in_zone (rewards_std (map (\<lambda>r. Fin (bk_reward r)) (pe_rollouts e))) False"
proof -
  obtain e where e: "pre_bake_entry endless_bake sample_env 3 3 1 sample_state = (sample_state, Inr (Some e))"
    using endless_entry by blast
  have "map_of (me_environ (bv_me endless_bake)) ''RELIQUARY_ZONE_SIGMA_MIN'' = None" by (simp add: endless_fields)
  from forced_entry_in_zone [OF e this, of False] e show ?thesis by blast
qed

text \<open>Eight completions that stop, four of them right, but only two different ones: no group, another phase.\<close>

abbreviation doubled :: "int list list" where "doubled \<equiv> [[0, 9], [0, 9], [0, 9], [0, 9], [1, 9], [1, 9], [1, 9], [1, 9]]"

definition doubled_baked :: "int \<Rightarrow> baked" where
  "doubled_baked t = \<lparr> bk_all_tokens = [1, t, 9], bk_prompt_length = 1, bk_completion_text = (if t = 0 then ''good'' else ''bad''),
     bk_hidden = [[Fin 0], [Fin 0], [Fin 0]], bk_token_logprobs = [Fin 1, Fin 1], bk_reward = (if t = 0 then 1 else 0),
     bk_in_eos = True, bk_p_stop = Some 1, bk_q10 = None, bk_median = None, bk_bt_ok = True, bk_forced = False, bk_force_span = None \<rparr>"

lemma doubled_forward:
  assumes "t \<in> {0, 1}"
  shows "proof_forward endless_bake \<lparr> pa_all_tokens = [1, t, 9], pa_prompt_length = 1, pa_text = (if t = 0 then ''good'' else ''bad''),
      pa_reward = (if t = 0 then 1 else 0), pa_forced = False, pa_force_span = None \<rparr> = Inr (doubled_baked t)"
proof -
  let ?row = "replicate 10 (Fin 1)"
  have row: "py_at ?row 9 = Inr (Fin 1)" "py_at ?row t = Inr (Fin 1)" "py_at (replicate 10 (pf_scale (1 / T_PROTO) (Fin 1))) 9 = Inr (Fin (1 / T_PROTO))"
    "py_at (replicate 10 (pf_scale (1 / T_PROTO) (Fin 1))) t = Inr (Fin (1 / T_PROTO))"
    using assms by (auto simp: py_at_def pf_scale_def)
  have rows: "py_at (replicate 3 ?row) 0 = Inr ?row" "py_at (replicate 3 ?row) 1 = Inr ?row" "replicate 3 ?row ! 1 = ?row"
    by (simp_all add: py_at_def)
  have fw: "me_forward (bv_me endless_bake) [1, t, 9] = Inr ([[Fin 0], [Fin 0], [Fin 0]], replicate 3 ?row)"
    by (simp add: endless_fields numeral_3_eq_3)
  have toks: "py_at [1, t, 9] 1 = Inr t" "py_at [1, t, 9] 2 = Inr (9 :: int)" "map int [1..<length [1, t, 9]] = [1, 2]"
    by (simp_all add: py_at_def numeral_3_eq_3 upt_rec numeral_2_eq_2)
  have fns: "tf_log_softmax toy_fns xs = xs" "tf_softmax toy_fns xs = xs" for xs by (simp_all add: toy_fns_def)
  have lps: "token_logprobs toy_fns [1, t, 9] 1 (replicate 3 ?row) = Inr [Fin 1, Fin 1]"
    unfolding token_logprobs_def toks(3) by (simp add: token_logprob_def rows toks row fns)
  have ok: "validator_termination_ok (drop 1 [1, t, 9]) (set (bv_eos_ids endless_bake))"
    using assms by (auto simp: validator_termination_ok_def endless_fields)
  have ps: "p_stop_local endless_bake [1, t, 9] (replicate 3 ?row) True = Inr (Some 1)"
    by (simp add: p_stop_local_def endless_fields fns rows row finite_score_def pf_add_def)
  have cp: "chosen_probs endless_bake [1, t, 9] 1 (replicate 3 ?row) = Inr [Fin (exp (1 / T_PROTO)), Fin (exp (1 / T_PROTO))]"
    unfolding chosen_probs_def toks(3) by (simp add: endless_fields fns rows toks row torch_exp_def)
  show ?thesis unfolding proof_forward_def Let_def partial.select_convs fw rbind.simps prod.case endless_fields(2) lps eqTrueI [OF ok] ps cp
    by (simp add: local_quantiles_def floor_last_def endless_fields sample_knobs_def doubled_baked_def P_STOP_LOCAL_MIN_def)
qed

lemma doubled_partials:
  "traverse (graded_partial endless_bake sample_env 3 1) (map (\<lambda>t. \<lparr> ro_tokens = [1, t, 9], ro_prompt_length = 1, ro_forced = False,
      ro_force_span = None \<rparr>) endless_ts)
   = Inr (map (\<lambda>t. \<lparr> pa_all_tokens = [1, t, 9], pa_prompt_length = 1, pa_text = (if t = 0 then ''good'' else ''bad''),
      pa_reward = (if t = 0 then 1 else 0), pa_forced = False, pa_force_span = None \<rparr>) endless_ts)"
  using endless_text by (simp add: graded_partial_def sample_env_def Let_def)

lemma doubled_select:
  "try_select (\<lambda>m. m) sample_knobs (Some ''opencodeinstruct'') True (map doubled_baked endless_ts) = Inr None"
  "try_select (\<lambda>m. m) sample_knobs (Some ''opencodeinstruct'') True (map doubled_baked endless_ts @ map doubled_baked endless_ts) = Inr None"
proof -
  have d: "token_digest (\<lambda>m. m) (doubled_baked t) = Inr (be_bytes 4 1 @ be_bytes 4 t @ be_bytes 4 9)" if "t \<in> {0, 1}" for t
    using that by (auto simp: token_digest_def doubled_baked_def to_bytes_be_def)
  have ne: "be_bytes 4 0 \<noteq> be_bytes 4 1" using be_bytes_inj [of 0 4 1] by auto
  have "dedupe (\<lambda>m. m) (map doubled_baked endless_ts) [] [] = Inr [doubled_baked 0, doubled_baked 1]"
    "dedupe (\<lambda>m. m) (map doubled_baked endless_ts @ map doubled_baked endless_ts) [] [] = Inr [doubled_baked 0, doubled_baked 1]"
    using d [of 0] d [of 1] ne by simp_all
  moreover have "terminating_rollouts (map doubled_baked endless_ts) (Some ''opencodeinstruct'') = map doubled_baked endless_ts"
    "terminating_rollouts (map doubled_baked endless_ts @ map doubled_baked endless_ts) (Some ''opencodeinstruct'')
       = map doubled_baked endless_ts @ map doubled_baked endless_ts"
    by (simp_all add: terminating_rollouts_def bft_applicable_def doubled_baked_def)
  ultimately show "try_select (\<lambda>m. m) sample_knobs (Some ''opencodeinstruct'') True (map doubled_baked endless_ts) = Inr None"
    "try_select (\<lambda>m. m) sample_knobs (Some ''opencodeinstruct'') True (map doubled_baked endless_ts @ map doubled_baked endless_ts) = Inr None"
    by (simp_all add: try_select_def Let_def M_ROLLOUTS_def)
qed

abbreviation doubled_ps :: "partial list" where
  "doubled_ps \<equiv> map (\<lambda>t. \<lparr> pa_all_tokens = [1, t, 9], pa_prompt_length = 1, pa_text = (if t = 0 then ''good'' else ''bad''),
      pa_reward = (if t = 0 then 1 else 0), pa_forced = False, pa_force_span = None \<rparr>) endless_ts"

lemma doubled_rolls:
  "each_rollout (map (plain_rollout (length [1 :: int])) (map (\<lambda>g. [1] @ g) doubled))
     = Inr (map (\<lambda>t. \<lparr> ro_tokens = [1, t, 9], ro_prompt_length = 1, ro_forced = False, ro_force_span = None \<rparr>) endless_ts)"
  by (simp add: each_rollout_def plain_rollout_def)

lemma doubled_new: "traverse (proof_forward endless_bake) doubled_ps = Inr (map doubled_baked endless_ts)"
  using doubled_forward [of 0] doubled_forward [of 1] by simp

lemma doubled_retry:
  "process_one_completion endless_bake sample_env 3 3 [1] doubled [] 1 = Inr (Retry (map doubled_baked endless_ts))"
proof -
  have u: "\<not> uniform_rewards [] doubled_ps" by (simp add: uniform_rewards_def)
  have t: "\<not> truncated_group endless_bake sample_env (map doubled_baked endless_ts)"
    by (simp add: truncated_group_def too_many_truncated_def doubled_baked_def sample_env_def bft_applicable_def
        max_truncated_allowed_def endless_fields)
  have c: "compose_or_retry endless_bake sample_env 3 3 1 1 (map doubled_baked endless_ts) = Inr (Retry (map doubled_baked endless_ts))"
    using doubled_select(1) by (simp add: compose_or_retry_def endless_fields sample_env_def sample_knobs_def)
  have ph: "phase_of [] doubled = 1" "\<not> int (length doubled) < M_ROLLOUTS" by (simp_all add: phase_of_def M_ROLLOUTS_def)
  have ps: "rbind (each_rollout (map (plain_rollout (length [1 :: int])) (map (\<lambda>g. [1] @ g) doubled)))
      (traverse (graded_partial endless_bake sample_env 3 (length [1 :: int]))) = Inr doubled_ps"
    unfolding doubled_rolls rbind.simps using doubled_partials by simp
  show ?thesis
    unfolding process_one_completion_def if_not_P [OF ph(2)] Let_def ph(1) ps rbind.simps
    by (simp only: u t c doubled_new simp_thms if_False rbind.simps append_Nil)
qed

lemma doubled_second:
  "process_one_completion endless_bake sample_env 3 3 [1] doubled (map doubled_baked endless_ts) 1
     = Inr (Retry (map doubled_baked endless_ts @ map doubled_baked endless_ts))"
proof -
  have c: "compose_or_retry endless_bake sample_env 3 3 1 2 (map doubled_baked endless_ts @ map doubled_baked endless_ts)
      = Inr (Retry (map doubled_baked endless_ts @ map doubled_baked endless_ts))"
    using doubled_select(2) by (simp add: compose_or_retry_def endless_fields sample_env_def sample_knobs_def)
  have ph: "phase_of (map doubled_baked endless_ts) doubled = 2" "\<not> int (length doubled) < M_ROLLOUTS"
    by (simp_all add: phase_of_def M_ROLLOUTS_def)
  have two: "(2 :: int) = 1 \<longleftrightarrow> False" by simp
  have ps: "rbind (each_rollout (map (plain_rollout (length [1 :: int])) (map (\<lambda>g. [1] @ g) doubled)))
      (traverse (graded_partial endless_bake sample_env 3 (length [1 :: int]))) = Inr doubled_ps"
    unfolding doubled_rolls rbind.simps using doubled_partials by simp
  show ?thesis
    unfolding process_one_completion_def if_not_P [OF ph(2)] Let_def ph(1) ps rbind.simps
    by (simp only: two c doubled_new simp_thms if_False rbind.simps)
qed

theorem phases_are_bounded_witness:
  "\<exists>rs. carried endless_bake sample_env 3 3 [1] 1 [] [doubled] = Some rs
     \<and> int (length rs) = M_ROLLOUTS \<and> 1 < kn_max_phases (bv_knobs endless_bake)"
proof -
  have c: "carried endless_bake sample_env 3 3 [1] 1 [] [doubled] = Some (map doubled_baked endless_ts)" by (simp add: doubled_retry)
  have "\<forall>c \<in> set [doubled]. int (length c) = M_ROLLOUTS" by (simp add: M_ROLLOUTS_def)
  from phases_are_bounded [OF this c] c show ?thesis by auto
qed

theorem async_agrees_with_sync_witness:
  "snd (bake_prompt endless_bake sample_env 1 3 3 [1] doubled [] sample_state) = Inr (Retry (map doubled_baked endless_ts))"
  by (rule async_agrees_with_sync [OF doubled_retry])
     (simp_all add: sample_env_def bft_applicable_def max_truncated_allowed_def endless_fields)

theorem baked_entries_are_payable_witness:
  "\<exists>rs. process_one_completion endless_bake sample_env 3 3 [1] doubled [] 1 = Inr (Retry rs) \<and> rs \<noteq> []
     \<and> (\<forall>r \<in> set rs. rollout_graded endless_bake sample_env 3 1 r)"
  using baked_entries_are_payable [of endless_bake sample_env 1 3 3 "[1]" doubled "[]" sample_state sample_state
      "Retry (map doubled_baked endless_ts)"] doubled_retry
  by (auto simp: endless_fields sample_knobs_def)

theorem forced_retry_is_futile_witness:
  "\<exists>rs out. process_one_completion endless_bake sample_env 3 3 [1] doubled [] 1 = Inr (Retry rs)
     \<and> process_one_completion endless_bake sample_env 3 3 [1] doubled rs 1 = Inr out \<and> (\<nexists>e. out = Entry e)"
  using forced_retry_is_futile [OF doubled_retry doubled_second] doubled_retry doubled_second by blast

end
