(* ===== verification/Engine.thy ===== *)
theory Engine
  imports Baking
begin

text \<open>
  The miner's state and its generators, from \<open>reliquary/miner/engine.py\<close>: one iteration of \<open>_generator_loop\<close>, the streamed bake of a
  batch (\<open>_bake_streaming\<close>, \<open>_grade_chunk_streaming\<close>) and the steps of \<open>_async_generator_loop\<close>. A lock protects single
  assignments only, so a locked section is a step; waiting, sleeping and the copy of the pool on disk are left out. The
  prefetch of the next chunk runs beside the grading of the current one: the model lets it land before or after it.
\<close>

section \<open>State\<close>

datatype 'p fire_task = Scheduled grpo_batch_state int | Posting grpo_batch_state "'p pool_entry list"

record 'p engine =
  eg_bake :: bake_state
  eg_pool :: "'p pool_entry list"
  eg_cooldowns :: "(string, int set) dict"
  eg_retry :: "(string, (int, baked list) dict) dict"
  eg_mix :: mix_controller
  eg_tie_counter :: nat
  eg_fired :: "int set"
  eg_logged_empty :: "int set"
  eg_submitted_count :: "(int, int) dict"
  eg_tasks :: "'p fire_task list"
  eg_submitted_env :: "(string, string) dict"
  eg_verdicts_since :: pyfloat

record 'p engine_env =
  ee_bake :: bake_env
  ee_active :: "string list"
  ee_envs :: "string \<Rightarrow> 'p task_env"
  ee_default :: "'p task_env"
  ee_range_from :: int
  ee_range_size :: int
  ee_pool_max :: int

definition MAX_SUBMISSIONS_PER_HOTKEY_PER_WINDOW :: int where "MAX_SUBMISSIONS_PER_HOTKEY_PER_WINDOW = 8"

definition environ_of :: "'p engine_env \<Rightarrow> environ" where "environ_of ee = me_environ (bv_me (ee_bake ee))"

definition drop_pool_on_ckpt_advance :: "'p engine_env \<Rightarrow> bool" where
  "drop_pool_on_ckpt_advance ee =
     (if bv_enforce (ee_bake ee) then True else dget (environ_of ee) ''RELIQUARY_DROP_POOL_ON_CKPT'' ''0'' = ''1'')"

definition pool_persist_enabled :: "bool \<Rightarrow> int \<Rightarrow> bool" where
  "pool_persist_enabled enforce prompt_range_from_window = (prompt_range_from_window = 2 ^ 63 - 1 \<and> \<not> enforce)"

definition window_range :: "'p engine_env \<Rightarrow> 'p task_env \<Rightarrow> int \<Rightarrow> string \<Rightarrow> (int \<times> int) option" where
  "window_range ee env window_n randomness =
     active_prompt_range (ee_bake ee) (ee_range_from ee) (ee_range_size ee) env window_n randomness"

definition cooldown_of :: "'p engine \<Rightarrow> string \<Rightarrow> int set" where "cooldown_of s n = dget (eg_cooldowns s) n {}"

definition retry_of :: "'p engine \<Rightarrow> string \<Rightarrow> (int, baked list) dict" where "retry_of s n = dget (eg_retry s) n []"

definition set_retry :: "string \<Rightarrow> (int, baked list) dict \<Rightarrow> 'p engine \<Rightarrow> 'p engine" where
  "set_retry n d s = s \<lparr> eg_retry := dset n d (eg_retry s) \<rparr>"

definition dpop :: "'k \<Rightarrow> ('k, 'v) dict \<Rightarrow> ('k, 'v) dict" where "dpop k d = filter (\<lambda>(k', _). k' \<noteq> k) d"

fun count_pool :: "string list \<Rightarrow> 'p pool_entry list \<Rightarrow> (string, int) dict \<Rightarrow> (string, int) dict" where
  "count_pool active [] counts = counts"
| "count_pool active (e # es) counts =
     (let en = env_of_entry active e in count_pool active es (dset en (dget counts en 0 + 1) counts))"

definition pool_env_stats :: "'p engine_env \<Rightarrow> 'p engine \<Rightarrow> (string, int) dict \<times> (string \<Rightarrow> int set)" where
  "pool_env_stats ee s =
     (count_pool (ee_active ee) (eg_pool s) (dict_of (\<lambda>n. 0) (ee_active ee)),
      \<lambda>n. set (map pe_prompt_idx (filter (\<lambda>e. env_of_entry (ee_active ee) e = n) (eg_pool s))))"

section \<open>The streamed bake\<close>

text \<open>An entry joins the pool unless its checkpoint is gone and stale entries are dropped.\<close>

definition push_entry :: "'p engine_env \<Rightarrow> 'p pool_entry \<Rightarrow> 'p engine \<Rightarrow> 'p engine \<times> bool" where
  "push_entry ee e s =
     (if drop_pool_on_ckpt_advance ee \<and> pe_checkpoint_n e \<noteq> ba_local_n (eg_bake s) then (s, False)
      else (s \<lparr> eg_pool := eg_pool s @ [e] \<rparr>, True))"

fun grade_chunk_streaming :: "'p engine_env \<Rightarrow> 'p task_env \<Rightarrow> int \<Rightarrow> (int \<times> 'p) list \<Rightarrow> 'p pool_entry list \<Rightarrow> 'p engine
    \<Rightarrow> 'p engine \<times> 'p pool_entry list" where
  "grade_chunk_streaming ee env expected_ckpt_n [] entries s = (s, entries)"
| "grade_chunk_streaming ee env expected_ckpt_n ((i, p) # rest) entries s =
     (case pre_bake_entry (ee_bake ee) env i p expected_ckpt_n (eg_bake s) of
        (b, Inr (Some e)) \<Rightarrow>
          (case push_entry ee e (s \<lparr> eg_bake := b \<rparr>) of (s1, pushed) \<Rightarrow>
             grade_chunk_streaming ee env expected_ckpt_n rest (if pushed then entries @ [e] else entries) s1)
      | (b, _) \<Rightarrow> grade_chunk_streaming ee env expected_ckpt_n rest entries (s \<lparr> eg_bake := b \<rparr>))"

definition chunk_size :: "environ \<Rightarrow> nat \<Rightarrow> nat" where
  "chunk_size env n_problems =
     (let size = (case py_int (dget env ''RELIQUARY_BAKE_CHUNK'' ''10'') of Inr v \<Rightarrow> v | Inl _ \<Rightarrow> 10)
      in if size \<le> 0 then (if n_problems = 0 then 1 else n_problems) else nat size)"

function chunks_of :: "nat \<Rightarrow> 'a list \<Rightarrow> 'a list list" where
  "chunks_of n xs = (if xs = [] \<or> n = 0 then [] else take n xs # chunks_of n (drop n xs))"
  by auto
termination by (relation "measure (\<lambda>(n, xs). length xs)") auto

declare chunks_of.simps [simp del]

definition prefetch_chunk :: "'p engine_env \<Rightarrow> 'p task_env \<Rightarrow> (int \<times> 'p) list \<Rightarrow> 'p engine \<Rightarrow> 'p engine" where
  "prefetch_chunk ee env chunk s =
     s \<lparr> eg_bake := fst (prefetch_phase1 (ee_bake ee) env (map snd chunk) (map fst chunk) (ba_randomness (eg_bake s)) (eg_bake s)) \<rparr>"

fun bake_chunks :: "'p engine_env \<Rightarrow> 'p task_env \<Rightarrow> int \<Rightarrow> bool list \<Rightarrow> (int \<times> 'p) list list \<Rightarrow> 'p pool_entry list \<Rightarrow> 'p engine
    \<Rightarrow> 'p engine \<times> 'p pool_entry list" where
  "bake_chunks ee env ckpt_n ahead [] entries s = (s, entries)"
| "bake_chunks ee env ckpt_n ahead (c # rest) entries s =
     (let next_chunk = (\<lambda>s. case rest of [] \<Rightarrow> s | d # _ \<Rightarrow> prefetch_chunk ee env d s);
          early = (case ahead of [] \<Rightarrow> True | a # _ \<Rightarrow> a);
          (s1, entries1) = grade_chunk_streaming ee env ckpt_n c entries (if early then next_chunk s else s)
      in bake_chunks ee env ckpt_n (drop 1 ahead) rest entries1 (if early then s1 else next_chunk s1))"

definition bake_streaming :: "'p engine_env \<Rightarrow> 'p task_env \<Rightarrow> bool list \<Rightarrow> 'p list \<Rightarrow> int list \<Rightarrow> int \<Rightarrow> 'p engine
    \<Rightarrow> 'p engine \<times> 'p pool_entry list" where
  "bake_streaming ee env ahead problems prompt_indices expected_ckpt_n s =
     (let chunks = chunks_of (chunk_size (environ_of ee) (length problems)) (zip prompt_indices problems);
          s1 = (case chunks of [] \<Rightarrow> s | c # _ \<Rightarrow> prefetch_chunk ee env c s);
          (s2, entries) = bake_chunks ee env expected_ckpt_n ahead chunks [] s1
      in (s2 \<lparr> eg_bake := eg_bake s2 \<lparr> ba_cache := [] \<rparr> \<rparr>, entries))"

section \<open>One iteration of the generator\<close>

text \<open>\<open>draws k\<close> are the random draws of the pick with \<open>k\<close> prompts already picked.\<close>

fun fresh_picks :: "'p task_env \<Rightarrow> int set \<Rightarrow> (nat \<Rightarrow> rng_draws) \<Rightarrow> (int \<times> int) option \<Rightarrow> nat \<Rightarrow> (int \<times> 'p) list \<Rightarrow> (int \<times> 'p) list res" where
  "fresh_picks env exclude draws prompt_range 0 picks = Inr picks"
| "fresh_picks env exclude draws prompt_range (Suc free) picks =
     (case pick_prompt_idx (en_source env) (exclude \<union> set (map fst picks)) (draws (length picks)) 1000 prompt_range of
        Inl RuntimeError \<Rightarrow> Inr picks
      | Inl e \<Rightarrow> Inl e
      | Inr i \<Rightarrow> rbind (en_get_problem env i) (\<lambda>p. fresh_picks env exclude draws prompt_range free (picks @ [(i, p)])))"

definition with_problem :: "'p task_env \<Rightarrow> int \<Rightarrow> (int \<times> 'p) res" where
  "with_problem env i = rbind (en_get_problem env i) (\<lambda>p. Inr (i, p))"

definition generator_picks :: "'p task_env \<Rightarrow> int set \<Rightarrow> int set \<Rightarrow> (int, baked list) dict \<Rightarrow> (nat \<Rightarrow> rng_draws) \<Rightarrow> (int \<times> int) option
    \<Rightarrow> nat \<Rightarrow> (int \<times> 'p) list res" where
  "generator_picks env cooldown in_pool retry draws prompt_range batch_size =
     (let retry_picks = filter (\<lambda>i. i \<notin> cooldown \<and> i \<notin> in_pool) (map fst retry) in
      rbind (traverse (with_problem env) (take batch_size retry_picks)) (\<lambda>picks.
        fresh_picks env (cooldown \<union> in_pool) draws prompt_range (batch_size - length picks) picks))"

definition batch_size_of :: "environ \<Rightarrow> nat res" where
  "batch_size_of env = rbind (py_int (dget env ''RELIQUARY_BAKE_BATCH_SIZE'' ''2'')) (\<lambda>v. Inr (nat (max 1 v)))"

text \<open>
  An exception anywhere in the iteration is logged and the loop goes on with the state reached so far. Retries that are in
  cooldown or in the pool are forgotten before the fresh picks.
\<close>

definition generator_iteration :: "'p engine_env \<Rightarrow> nat \<Rightarrow> (nat \<Rightarrow> rng_draws) \<Rightarrow> bool list \<Rightarrow> 'p engine \<Rightarrow> 'p engine" where
  "generator_iteration ee batch_size draws ahead s =
     (if ee_pool_max ee \<le> int (length (eg_pool s)) then s
      else if bv_enforce (ee_bake ee) \<and> ba_randomness (eg_bake s) = [] then s
      else let (pool_counts, in_pool_by_env) = pool_env_stats ee s in
        case rbind (target_slots (eg_mix s)) (\<lambda>slots. pick_bake_env slots pool_counts (eg_tie_counter s)) of
          Inl e \<Rightarrow> s
        | Inr (env_name, counter) \<Rightarrow>
            (let env = ee_envs ee env_name; cooldown = cooldown_of s env_name; in_pool = in_pool_by_env env_name;
                 retry = retry_of s env_name;
                 s1 = s \<lparr> eg_tie_counter := counter \<rparr>;
                 live = filter (\<lambda>(i, _). i \<notin> cooldown \<and> i \<notin> in_pool) retry;
                 prompt_range = window_range ee env (ba_window_n (eg_bake s)) (ba_randomness (eg_bake s))
             in case traverse (with_problem env) (take batch_size (map fst live)) of
                  Inl e \<Rightarrow> s1
                | Inr _ \<Rightarrow>
                    (let s2 = set_retry env_name live s1 in
                     case generator_picks env cooldown in_pool retry draws prompt_range batch_size of
                       Inl e \<Rightarrow> s2
                     | Inr picks \<Rightarrow>
                         if picks = [] then s2
                         else (let (s3, entries) = bake_streaming ee env ahead (map snd picks) (map fst picks) (ba_local_n (eg_bake s2)) s2
                               in set_retry env_name (filter (\<lambda>(i, _). i \<notin> fst ` set picks) (retry_of s3 env_name)) s3))))"

section \<open>The asynchronous generator\<close>

record 'p in_flight =
  if_prompt_idx :: int
  if_randomness :: "string option"
  if_problem :: 'p
  if_ptoks :: "int list"
  if_existing :: "baked list"
  if_ckpt_n :: int
  if_env_name :: string

text \<open>
  Dispatching one request. Under the forced seed \<open>AsyncVLLMBackend.generate_forced_phase1\<close> is called with the keyword
  \<open>primary_eos_id\<close>, which that method does not have.
\<close>

definition async_submit_one :: "'p engine_env \<Rightarrow> rng_draws \<Rightarrow> 'p in_flight list \<Rightarrow> 'p engine \<Rightarrow> 'p engine \<times> 'p in_flight option res" where
  "async_submit_one ee draws pending s =
     (let counts = fold (\<lambda>m d. dset (if_env_name m) (dget d (if_env_name m) 0 + 1) d) pending (fst (pool_env_stats ee s)) in
      case rbind (target_slots (eg_mix s)) (\<lambda>slots. pick_bake_env slots counts (eg_tie_counter s)) of
        Inl e \<Rightarrow> (s, Inl e)
      | Inr (env_name, counter) \<Rightarrow>
          (let env = ee_envs ee env_name; s1 = s \<lparr> eg_tie_counter := counter \<rparr>;
               busy = set (map if_prompt_idx (filter (\<lambda>m. if_env_name m = env_name) pending));
               prompt_range = window_range ee env (ba_window_n (eg_bake s)) (ba_randomness (eg_bake s))
           in case async_pick_next_prompt env (cooldown_of s env_name) busy draws prompt_range (retry_of s env_name) of
                (retry, Inl e) \<Rightarrow> (set_retry env_name retry s1, Inl e)
              | (retry, Inr None) \<Rightarrow> (set_retry env_name retry s1, Inr None)
              | (retry, Inr (Some (i, p, existing))) \<Rightarrow>
                  (let s2 = set_retry env_name retry s1 in
                   case encode_prompt (bv_tokenizer (ee_bake ee)) (en_prompt env p) of
                     Inl e \<Rightarrow> (s2, Inl e)
                   | Inr ptoks \<Rightarrow>
                       if forced_vllm (ee_bake ee) then
                         (if ba_randomness (eg_bake s) = [] then (s2, Inr None) else (s2, Inl TypeError))
                       else (set_retry env_name (dpop i retry) s2,
                             Inr (Some \<lparr> if_prompt_idx = i, if_randomness = None, if_problem = p, if_ptoks = ptoks, if_existing = existing,
                                         if_ckpt_n = ba_local_n (eg_bake s), if_env_name = env_name \<rparr>)))))"

text \<open>A finished request: its completions, or the failure of the backend.\<close>

definition async_completed :: "'p engine_env \<Rightarrow> 'p in_flight \<Rightarrow> int list list res \<Rightarrow> 'p engine \<Rightarrow> 'p engine" where
  "async_completed ee m result s =
     (case result of
        Inl e \<Rightarrow> s
      | Inr completions \<Rightarrow>
          if if_randomness m \<noteq> None \<and> if_randomness m \<noteq> Some (ba_randomness (eg_bake s)) then s
          else (case process_one_completion (ee_bake ee) (ee_envs ee (if_env_name m)) (if_prompt_idx m) (if_problem m) (if_ptoks m)
                       completions (if_existing m) (if_ckpt_n m) of
                  Inr (Entry e) \<Rightarrow> fst (push_entry ee e s)
                | Inr (Retry rs) \<Rightarrow> set_retry (if_env_name m) (dset (if_prompt_idx m) rs (retry_of s (if_env_name m))) s
                | _ \<Rightarrow> s))"

section \<open>The streamed bake is the plain one\<close>

lemma chunks_concat: "0 < n \<Longrightarrow> concat (chunks_of n xs) = xs"
  by (induction n xs rule: chunks_of.induct) (subst chunks_of.simps, auto)

lemma chunk_size_pos: "0 < chunk_size env k"
  by (simp add: chunk_size_def Let_def split: sum.split)

text \<open>What a bake reads of its state, apart from the cache and the drop counter.\<close>

definition same_reads :: "bake_state \<Rightarrow> bake_state \<Rightarrow> bool" where
  "same_reads s t = (ba_randomness t = ba_randomness s \<and> ba_local_hash t = ba_local_hash s \<and> ba_local_n t = ba_local_n s)"

lemma same_reads_trans: "same_reads s t \<Longrightarrow> same_reads t u \<Longrightarrow> same_reads s u" by (simp add: same_reads_def)

lemma prefetch_reads: "same_reads s (fst (prefetch_phase1 bv env problems idxs r s))"
  by (auto simp: prefetch_phase1_def same_reads_def Let_def split: option.split sum.split)

lemma generate_reads:
  assumes "generate_m_rollouts bv env p r i s = (s1, out)"
  shows "same_reads s s1"
  using generate_keeps_cache [OF assms] by (auto simp: same_reads_def take_prefetched_phase1_def Let_def)

lemma generate_sound:
  assumes "generate_m_rollouts bv env p r i s = (s1, out)" and "cache_sound bv env vl s"
  shows "cache_sound bv env vl s1"
proof -
  obtain t c where t: "take_prefetched_phase1 i r (ba_local_hash s) s = (t, c)" by fastforce
  then have "cache_sound bv env vl t" using assms(2) taken_once(3) [OF t] unfolding cache_sound_def by blast
  then show ?thesis using generate_keeps_cache [OF assms(1)] assms(2) t by auto
qed

lemma entry_result: "snd (entry_of_generations bv env i p n rs s) = snd (entry_of_generations bv env i p n rs t)"
  by (simp add: entry_of_generations_def Let_def)

lemma entry_state:
  "same_reads s (fst (entry_of_generations bv env i p n rs s)) \<and> ba_cache (fst (entry_of_generations bv env i p n rs s)) = ba_cache s"
  by (simp add: entry_of_generations_def same_reads_def note_drop_def Let_def)

lemma generate_same_reads:
  assumes "same_reads s t"
  shows "snd (generate_m_rollouts bv env p r i (s \<lparr> ba_cache := [] \<rparr>)) = snd (generate_m_rollouts bv env p r i (t \<lparr> ba_cache := [] \<rparr>))"
  using assms by (simp add: generate_m_rollouts_def take_prefetched_phase1_def same_reads_def Let_def split: sum.split option.split)

lemma pre_bake_step:
  assumes v: "bv_vllm bv = Some vl" and c: "cache_sound bv env vl t" and g: "en_get_problem env i = Inr p" and r: "same_reads s t"
  shows "snd (pre_bake_entry bv env i p n t) = snd (pre_bake_entry bv env i p n (s \<lparr> ba_cache := [] \<rparr>))"
    and "same_reads s (fst (pre_bake_entry bv env i p n t))" and "cache_sound bv env vl (fst (pre_bake_entry bv env i p n t))"
proof -
  obtain t1 out where t1: "generate_m_rollouts bv env p (ba_randomness t) i t = (t1, out)" by fastforce
  obtain s1 out' where s1: "generate_m_rollouts bv env p (ba_randomness s) i (s \<lparr> ba_cache := [] \<rparr>) = (s1, out')" by fastforce
  have rr: "ba_randomness t = ba_randomness s" using r by (simp add: same_reads_def)
  have "out = out'"
    using generate_from_cache [OF v c g, of "ba_randomness s"] generate_same_reads [OF r, of bv env p "ba_randomness s" i] t1 s1 rr
    by (metis snd_conv)
  then show "snd (pre_bake_entry bv env i p n t) = snd (pre_bake_entry bv env i p n (s \<lparr> ba_cache := [] \<rparr>))"
    using t1 s1 entry_result [of bv env i p n _ t1 s1]
    by (simp add: pre_bake_entry_def split: sum.split)
  have keep: "same_reads t t1" "cache_sound bv env vl t1" using generate_reads [OF t1] generate_sound [OF t1 c] by blast+
  then show "same_reads s (fst (pre_bake_entry bv env i p n t))"
    using t1 r entry_state [of t1 bv env i p n] same_reads_trans
    by (auto simp: pre_bake_entry_def split: sum.split)
  have "cache_sound bv env vl (fst (entry_of_generations bv env i p n rs t1))" for rs
    using keep(2) entry_state [of t1 bv env i p n rs] by (simp add: cache_sound_def)
  then show "cache_sound bv env vl (fst (pre_bake_entry bv env i p n t))"
    using t1 keep(2) by (simp add: pre_bake_entry_def split: sum.split)
qed

text \<open>The reference: every prompt on its own, without a cache, in order.\<close>

definition plain_entry :: "'p engine_env \<Rightarrow> 'p task_env \<Rightarrow> int \<Rightarrow> bake_state \<Rightarrow> int \<times> 'p \<Rightarrow> 'p pool_entry option" where
  "plain_entry ee env n b = (\<lambda>(i, p).
     case snd (pre_bake_entry (ee_bake ee) env i p n (b \<lparr> ba_cache := [] \<rparr>)) of
       Inr (Some e) \<Rightarrow> if drop_pool_on_ckpt_advance ee \<and> pe_checkpoint_n e \<noteq> ba_local_n b then None else Some e
     | _ \<Rightarrow> None)"

definition plain_entries :: "'p engine_env \<Rightarrow> 'p task_env \<Rightarrow> int \<Rightarrow> bake_state \<Rightarrow> (int \<times> 'p) list \<Rightarrow> 'p pool_entry list" where
  "plain_entries ee env n b ips = List.map_filter (plain_entry ee env n b) ips"

definition bake_ok :: "'p engine_env \<Rightarrow> 'p task_env \<Rightarrow> vllm \<Rightarrow> bake_state \<Rightarrow> 'p engine \<Rightarrow> bool" where
  "bake_ok ee env vl b s = (cache_sound (ee_bake ee) env vl (eg_bake s) \<and> same_reads b (eg_bake s))"

lemma plain_entries_Cons:
  "plain_entries ee env n b (x # xs) = (case plain_entry ee env n b x of None \<Rightarrow> [] | Some e \<Rightarrow> [e]) @ plain_entries ee env n b xs"
  by (simp add: plain_entries_def List.map_filter_def split: option.split)

lemma plain_entries_append: "plain_entries ee env n b (xs @ ys) = plain_entries ee env n b xs @ plain_entries ee env n b ys"
  by (simp add: plain_entries_def List.map_filter_def)

lemma grade_chunk_plain:
  assumes v: "bv_vllm (ee_bake ee) = Some vl" and "bake_ok ee env vl b s"
    and "\<forall>(i, p) \<in> set ips. en_get_problem env i = Inr p"
    and "grade_chunk_streaming ee env n ips entries s = (s1, entries1)"
  shows "entries1 = entries @ plain_entries ee env n b ips \<and> eg_pool s1 = eg_pool s @ plain_entries ee env n b ips
    \<and> bake_ok ee env vl b s1"
  using assms(2-4)
proof (induction ips arbitrary: entries s)
  case Nil
  then show ?case by (auto simp: plain_entries_def List.map_filter_def)
next
  case (Cons x ips)
  obtain i p where x: "x = (i, p)" by fastforce
  have g: "en_get_problem env i = Inr p" using Cons.prems(2) x by simp
  have c: "cache_sound (ee_bake ee) env vl (eg_bake s)" "same_reads b (eg_bake s)" using Cons.prems(1) by (simp_all add: bake_ok_def)
  obtain b1 out where o: "pre_bake_entry (ee_bake ee) env i p n (eg_bake s) = (b1, out)" by fastforce
  from pre_bake_step [OF v c(1) g c(2), of n] o
  have out: "out = snd (pre_bake_entry (ee_bake ee) env i p n (b \<lparr> ba_cache := [] \<rparr>))"
    and ok1: "bake_ok ee env vl b (s \<lparr> eg_bake := b1 \<rparr>)" by (simp_all add: bake_ok_def)
  have n1: "ba_local_n b1 = ba_local_n b" using ok1 by (simp add: bake_ok_def same_reads_def)
  show ?case
  proof (cases "plain_entry ee env n b x")
    case None
    then have "grade_chunk_streaming ee env n ips entries (s \<lparr> eg_bake := b1 \<rparr>) = (s1, entries1)"
      using Cons.prems(3) o n1 by (auto simp: x plain_entry_def push_entry_def out split: sum.splits option.splits if_splits)
    from Cons.IH [OF ok1 _ this] Cons.prems(2) None show ?thesis by (auto simp: plain_entries_Cons)
  next
    case (Some e)
    then have "grade_chunk_streaming ee env n ips (entries @ [e]) (s \<lparr> eg_bake := b1, eg_pool := eg_pool s @ [e] \<rparr>) = (s1, entries1)"
      using Cons.prems(3) o n1 by (auto simp: x plain_entry_def push_entry_def out split: sum.splits option.splits if_splits)
    note rest = this
    have "bake_ok ee env vl b (s \<lparr> eg_bake := b1, eg_pool := eg_pool s @ [e] \<rparr>)" using ok1 by (simp add: bake_ok_def)
    from Cons.IH [OF this _ rest] Cons.prems(2) Some show ?thesis by (auto simp: plain_entries_Cons)
  qed
qed

lemma prefetch_chunk_ok:
  assumes v: "bv_vllm (ee_bake ee) = Some vl" "batched_agrees vl" and ok: "bake_ok ee env vl b s"
    and "\<forall>(i, p) \<in> set ips. en_get_problem env i = Inr p"
  shows "bake_ok ee env vl b (prefetch_chunk ee env ips s) \<and> eg_pool (prefetch_chunk ee env ips s) = eg_pool s"
proof -
  have "list_all2 (\<lambda>i p. en_get_problem env i = Inr p) (map fst ips) (map snd ips)"
    using assms(4) by (auto simp: list_all2_map1 list_all2_map2 list_all2_same)
  from prefetch_sound [OF v _ this] ok prefetch_reads [of "eg_bake s"] same_reads_trans show ?thesis
    by (fastforce simp: bake_ok_def prefetch_chunk_def)
qed

lemma bake_chunks_plain:
  assumes v: "bv_vllm (ee_bake ee) = Some vl" "batched_agrees vl" and "bake_ok ee env vl b s"
    and "\<forall>c \<in> set chunks. \<forall>(i, p) \<in> set c. en_get_problem env i = Inr p"
    and "bake_chunks ee env n ahead chunks entries s = (s1, entries1)"
  shows "entries1 = entries @ plain_entries ee env n b (concat chunks) \<and> eg_pool s1 = eg_pool s @ plain_entries ee env n b (concat chunks)
    \<and> bake_ok ee env vl b s1"
  using assms(3-5)
proof (induction chunks arbitrary: ahead entries s)
  case Nil
  then show ?case by (auto simp: plain_entries_def List.map_filter_def)
next
  case (Cons c rest)
  let ?next = "\<lambda>s. case rest of [] \<Rightarrow> s | d # _ \<Rightarrow> prefetch_chunk ee env d s"
  let ?early = "case ahead of [] \<Rightarrow> True | a # _ \<Rightarrow> a"
  have nxt: "bake_ok ee env vl b (?next t) \<and> eg_pool (?next t) = eg_pool t" if "bake_ok ee env vl b t" for t
    using prefetch_chunk_ok [OF v that] that Cons.prems(2) by (auto split: list.split)
  let ?t = "if ?early then ?next s else s"
  have t: "bake_ok ee env vl b ?t" "eg_pool ?t = eg_pool s" using nxt Cons.prems(1) by auto
  obtain s2 entries2 where g: "grade_chunk_streaming ee env n c entries ?t = (s2, entries2)" by fastforce
  have "\<forall>(i, p) \<in> set c. en_get_problem env i = Inr p" using Cons.prems(2) by simp
  from grade_chunk_plain [OF v(1) t(1) this g] t(2)
  have s2: "entries2 = entries @ plain_entries ee env n b c" "eg_pool s2 = eg_pool s @ plain_entries ee env n b c" "bake_ok ee env vl b s2"
    by auto
  have rest: "bake_chunks ee env n (drop 1 ahead) rest entries2 (if ?early then s2 else ?next s2) = (s1, entries1)"
    using Cons.prems(3) g by (simp add: Let_def)
  have u: "bake_ok ee env vl b (if ?early then s2 else ?next s2)" "eg_pool (if ?early then s2 else ?next s2) = eg_pool s2"
    using nxt s2(3) by auto
  from Cons.IH [OF u(1) _ rest] Cons.prems(2) u(2) s2 show ?case by (auto simp: plain_entries_append)
qed

text \<open>
  C18. Streaming a bake changes the order of the work, not its result. Whatever the size of the chunks and whether the prefetch of the
  next chunk lands before or after the grading of the current one, \<open>_bake_streaming\<close> returns and appends to the
  pool exactly the entries that baking every prompt on its own, without a cache, would give, in the order of
  the prompts; the cache is empty again at the end.
\<close>

theorem streaming_changes_nothing:
  assumes "bv_vllm (ee_bake ee) = Some vl" and "batched_agrees vl" and "ba_cache (eg_bake s) = []"
    and "list_all2 (\<lambda>i p. en_get_problem env i = Inr p) idxs problems"
  shows "let (s1, entries) = bake_streaming ee env ahead problems idxs n s in
      entries = plain_entries ee env n (eg_bake s) (zip idxs problems)
    \<and> eg_pool s1 = eg_pool s @ entries \<and> ba_cache (eg_bake s1) = []"
proof -
  let ?chunks = "chunks_of (chunk_size (environ_of ee) (length problems)) (zip idxs problems)"
  have all: "concat ?chunks = zip idxs problems" by (rule chunks_concat [OF chunk_size_pos])
  have "\<forall>(i, p) \<in> set (zip idxs problems). en_get_problem env i = Inr p"
    using assms(4) by (auto simp: list_all2_iff)
  then have g: "\<forall>c \<in> set ?chunks. \<forall>(i, p) \<in> set c. en_get_problem env i = Inr p"
    using arg_cong [OF all, of set] by auto
  have ok: "bake_ok ee env vl (eg_bake s) s" using assms(3) by (simp add: bake_ok_def cache_sound_def same_reads_def)
  let ?s0 = "case ?chunks of [] \<Rightarrow> s | c # _ \<Rightarrow> prefetch_chunk ee env c s"
  have s0: "bake_ok ee env vl (eg_bake s) ?s0 \<and> eg_pool ?s0 = eg_pool s"
  proof (cases ?chunks)
    case (Cons c rest)
    then have "\<forall>(i, p) \<in> set c. en_get_problem env i = Inr p" using g by simp
    from prefetch_chunk_ok [OF assms(1,2) ok this] show ?thesis by (simp add: Cons)
  qed (simp add: ok)
  obtain s2 entries where b: "bake_chunks ee env n ahead ?chunks [] ?s0 = (s2, entries)" by fastforce
  from bake_chunks_plain [OF assms(1,2) _ g b, of "eg_bake s"] s0 show ?thesis
    by (simp add: bake_streaming_def b all Let_def)
qed

definition sample_engine_env :: "nat engine_env" where
  "sample_engine_env = \<lparr> ee_bake = endless_bake, ee_active = [''opencodeinstruct''], ee_envs = (\<lambda>n. sample_env), ee_default = sample_env,
     ee_range_from = 100, ee_range_size = 100, ee_pool_max = 32 \<rparr>"

definition sample_engine :: "nat engine" where
  "sample_engine = \<lparr> eg_bake = sample_state, eg_pool = [], eg_cooldowns = [], eg_retry = [], eg_mix = MixController [''opencodeinstruct''] 8 8 (1 / 10),
     eg_tie_counter = 0, eg_fired = {}, eg_logged_empty = {}, eg_submitted_count = [], eg_tasks = [], eg_submitted_env = [],
     eg_verdicts_since = Fin 0 \<rparr>"

lemma sample_plain_entries:
  "plain_entries sample_engine_env sample_env 1 sample_state [(3, 3)] = [new_entry sample_env 3 3 1 (map endless_baked endless_ts)]"
proof -
  have "sample_state \<lparr> ba_cache := [] \<rparr> = sample_state" "ba_local_n sample_state = 1" by (simp_all add: sample_state_def)
  then have "plain_entry sample_engine_env sample_env 1 sample_state (3, 3) = Some (new_entry sample_env 3 3 1 (map endless_baked endless_ts))"
    using endless_entry by (simp add: plain_entry_def sample_engine_env_def new_entry_def)
  then show ?thesis by (simp add: plain_entries_def List.map_filter_def)
qed

theorem streaming_changes_nothing_witness:
  "\<exists>s1. bake_streaming sample_engine_env sample_env [] [3] [3] 1 sample_engine
       = (s1, [new_entry sample_env 3 3 1 (map endless_baked endless_ts)])
     \<and> eg_pool s1 = [new_entry sample_env 3 3 1 (map endless_baked endless_ts)]"
proof -
  obtain vl where v: "bv_vllm (ee_bake sample_engine_env) = Some vl" and vl: "batched_agrees vl"
    by (auto simp: sample_engine_env_def endless_bake_def batched_agrees_def)
  have s: "ba_cache (eg_bake sample_engine) = []" "eg_bake sample_engine = sample_state" "eg_pool sample_engine = []"
    by (simp_all add: sample_engine_def sample_state_def)
  have "list_all2 (\<lambda>i p. en_get_problem sample_env i = Inr p) [3] [3]" by (simp add: sample_env_def)
  from streaming_changes_nothing [OF v vl s(1) this, of "[]" 1] show ?thesis
    by (auto simp: Let_def sample_plain_entries s split: prod.splits)
qed

section \<open>The asynchronous loop under the forced seed\<close>

text \<open>
  Under the forced seed the asynchronous loop dispatches nothing. Whenever it has a prompt to bake and the window's randomness is
  known, the call of the backend raises a type error, because the asynchronous backend does not take the keyword that
  the loop passes: no request is ever in flight.
\<close>

theorem async_forced_never_dispatches:
  assumes "forced_vllm (ee_bake ee)"
  shows "(\<forall>m. snd (async_submit_one ee draws pending s) \<noteq> Inr (Some m)) \<and> eg_pool (fst (async_submit_one ee draws pending s)) = eg_pool s"
  using assms by (auto simp: async_submit_one_def set_retry_def Let_def split: sum.splits option.splits prod.splits)

theorem async_forced_never_dispatches_witness:
  "snd (async_submit_one sample_engine_env first_draws [] sample_engine) = Inl TypeError
   \<and> eg_pool (fst (async_submit_one sample_engine_env first_draws [] sample_engine)) = []"
proof -
  have f: "forced_vllm (ee_bake sample_engine_env)"
    by (simp add: sample_engine_env_def endless_bake_def sample_bake_def sample_me_def forced_vllm_def vllm_forced_seed_enabled_def dget_def)
  have m: "rbind (target_slots (eg_mix sample_engine)) (\<lambda>slots. pick_bake_env slots (fst (pool_env_stats sample_engine_env sample_engine)) 0)
      = Inr (''opencodeinstruct'', 0)"
    by (simp add: sample_engine_def sample_engine_env_def target_slots_def pick_bake_env_def MixController_def dict_of_def pool_env_stats_def dget_def)
  have p: "async_pick_next_prompt sample_env {} {} first_draws None [] = ([], Inr (Some (0, 0, [])))"
  proof -
    have k: "(1000 :: nat) = Suc 999" by simp
    have "draw_loop {} f 0 1000 = Inr (f 0)" for f by (simp add: k del: Suc_numeral)
    then have "pick_whole first_draws {} 1000 0 10 = Inr 0" by (simp add: pick_whole_def first_draws_def)
    then show ?thesis by (simp add: async_pick_next_prompt_def sample_env_def pick_prompt_idx_def)
  qed
  have t: "encode_prompt (bv_tokenizer (ee_bake sample_engine_env)) (en_prompt sample_env p) = Inr [1]" for p
    by (simp add: sample_engine_env_def endless_bake_def sample_bake_def sample_tokenizer_def encode_prompt_def sample_env_def)
  have e: "eg_tie_counter sample_engine = 0" "eg_retry sample_engine = []" "eg_cooldowns sample_engine = []"
    "eg_pool sample_engine = []" "ba_window_n (eg_bake sample_engine) = 7" "ba_randomness (eg_bake sample_engine) = ''ab''"
    "ee_envs sample_engine_env n = sample_env" for n
    by (simp_all add: sample_engine_def sample_state_def sample_engine_env_def)
  have w: "window_range sample_engine_env sample_env 7 ''ab'' = None"
    by (simp add: window_range_def active_prompt_range_def sample_engine_env_def)
  from async_forced_never_dispatches [OF f, of first_draws "[]" sample_engine] show ?thesis
    by (simp add: async_submit_one_def m e w p t f cooldown_of_def retry_of_def dget_def)
qed

end
