(* ===== verification/MinerCheckpoint.thy ===== *)
theory MinerCheckpoint
  imports Chain Submission
begin

text \<open>
  What the miner keeps in step with the validator, from \<open>reliquary/miner/engine.py\<close>: the clock offset used for the drand round
  of a submission, the checkpoint it generates and proves with (\<open>maybe_pull_checkpoint\<close>, \<open>_load_checkpoint\<close>), and the
  pruning of the local snapshots. Loading a model, reloading the generation backend, downloading and reading
  the cache directory are arguments; the wall clock is an argument of the offset functions.
\<close>

section \<open>The clock offset\<close>

record clock_offset =
  co_ema :: "real option"
  co_offset :: real

definition OFFSET_EMA_ALPHA :: real where "OFFSET_EMA_ALPHA = 2 / 10"

text \<open>\<open>parsed\<close> is \<open>parsedate_to_datetime\<close> of the \<open>Date\<close> header, when there is one.\<close>

definition apply_offset_from_validator_response :: "(string \<Rightarrow> real res) \<Rightarrow> string option \<Rightarrow> real \<Rightarrow> real \<Rightarrow> clock_offset
    \<Rightarrow> clock_offset \<times> real option" where
  "apply_offset_from_validator_response parsedate date_header t_send t_recv co =
     (case date_header of
        None \<Rightarrow> (co, None)
      | Some h \<Rightarrow>
          if h = [] then (co, None)
          else (case parsedate h of
                  Inl e \<Rightarrow> (co, None)
                | Inr validator_time \<Rightarrow>
                    (let raw_offset = validator_time - (t_send + t_recv) / 2;
                         ema = (case co_ema co of None \<Rightarrow> raw_offset
                                | Some e \<Rightarrow> (1 - OFFSET_EMA_ALPHA) * e + OFFSET_EMA_ALPHA * raw_offset)
                     in (\<lparr> co_ema = Some ema, co_offset = ema + 1 / 2 \<rparr>, Some (ema + 1 / 2)))))"

definition compute_offset_sub_second :: "int \<Rightarrow> real \<Rightarrow> int \<Rightarrow> int \<Rightarrow> real" where
  "compute_offset_sub_second r_drand t_fetch genesis_time period =
     (let t_round_start = genesis_time + (r_drand - 1) * period
      in of_int t_round_start + of_int period / 2 - t_fetch)"

text \<open>One turn of the background loop; a failed fetch keeps the offset.\<close>

definition refresh_drand_offset :: "int res \<Rightarrow> real \<Rightarrow> (int \<times> int) res \<Rightarrow> clock_offset \<Rightarrow> clock_offset" where
  "refresh_drand_offset beacon_round t_fetch chain_info co =
     (case rbind beacon_round (\<lambda>r. rbind chain_info (\<lambda>(genesis, period). Inr (compute_offset_sub_second r t_fetch genesis period))) of
        Inl e \<Rightarrow> co
      | Inr new_offset \<Rightarrow> if co_ema co = None then co \<lparr> co_offset := new_offset \<rparr> else co)"

definition current_drand_round_at_send :: "real \<Rightarrow> (int \<times> int) res \<Rightarrow> clock_offset \<Rightarrow> int res" where
  "current_drand_round_at_send now chain_info co =
     rbind chain_info (\<lambda>(genesis, period). compute_current_drand_round (now + co_offset co) genesis period)"

section \<open>The checkpoint\<close>

definition maybe_pull_checkpoint :: "(string \<Rightarrow> string \<Rightarrow> string res) \<Rightarrow> (string \<Rightarrow> 's \<Rightarrow> 's \<times> 'm res) \<Rightarrow> grpo_batch_state
    \<Rightarrow> int \<Rightarrow> string \<Rightarrow> 'm \<Rightarrow> 's \<Rightarrow> 's \<times> (int \<times> string \<times> 'm) res" where
  "maybe_pull_checkpoint download_fn load_fn st local_n local_hash local_model s =
     (if gs_checkpoint_n st \<le> local_n then (s, Inr (local_n, local_hash, local_model))
      else case (gs_checkpoint_repo_id st, gs_checkpoint_revision st) of
          (Some repo, Some revision) \<Rightarrow>
            (case download_fn repo revision of
               Inl e \<Rightarrow> (s, Inl e)
             | Inr local_path \<Rightarrow>
                 (case load_fn local_path s of
                    (s1, Inl e) \<Rightarrow> (s1, Inl e)
                  | (s1, Inr new_model) \<Rightarrow> (s1, Inr (gs_checkpoint_n st, revision, new_model))))
        | _ \<Rightarrow> (s, Inr (local_n, local_hash, local_model)))"

text \<open>Both models and what goes with them. \<open>md_reload\<close> is the vLLM backend's reload, when one is wired.\<close>

record 'm models =
  md_hf :: 'm
  md_gen :: "'m option"
  md_eos :: "int list"
  md_loaded_path :: "string option"

record 'm loaders =
  lo_load_hf :: "string \<Rightarrow> 'm res"
  lo_load_gen :: "string \<Rightarrow> 'm res"
  lo_reload :: "(string \<Rightarrow> unit res) option"
  lo_eos :: "'m \<Rightarrow> int list"

definition load_checkpoint :: "'m loaders \<Rightarrow> string \<Rightarrow> 'm models \<Rightarrow> 'm models \<times> 'm res" where
  "load_checkpoint lo local_path md =
     (if md_loaded_path md = Some local_path then (md, Inr (md_hf md))
      else case lo_load_hf lo local_path of
          Inl e \<Rightarrow> (md, Inr (md_hf md))
        | Inr new_hf \<Rightarrow>
            (let md1 = md \<lparr> md_hf := new_hf, md_eos := lo_eos lo new_hf \<rparr> in
             case lo_reload lo of
               Some reload \<Rightarrow>
                 (case reload local_path of
                    Inl e \<Rightarrow> (md1 \<lparr> md_loaded_path := None \<rparr>, Inr new_hf)
                  | Inr u \<Rightarrow> (md1 \<lparr> md_loaded_path := Some local_path \<rparr>, Inr new_hf))
             | None \<Rightarrow>
                 (case lo_load_gen lo local_path of
                    Inl e \<Rightarrow> (md1 \<lparr> md_gen := None, md_loaded_path := None \<rparr>, Inr new_hf)
                  | Inr new_gen \<Rightarrow> (md1 \<lparr> md_gen := Some new_gen, md_loaded_path := Some local_path \<rparr>, Inr new_hf))))"

section \<open>The cache of snapshots\<close>

text \<open>The cache directory: each repository with the commit hashes of its revisions. The first match is pruned.\<close>

fun prune_hf_revisions :: "string \<Rightarrow> string \<Rightarrow> (string \<times> string list) list \<Rightarrow> string list" where
  "prune_hf_revisions repo_id keep_revision [] = []"
| "prune_hf_revisions repo_id keep_revision ((r, revisions) # repos) =
     (if r \<noteq> repo_id then prune_hf_revisions repo_id keep_revision repos
      else filter (\<lambda>h. h \<noteq> keep_revision) revisions)"

text \<open>A failed prune does not fail the download; \<open>cache\<close> is the cache after the snapshot, or the failure to read it.\<close>

definition hf_download :: "(string \<Rightarrow> string \<Rightarrow> string res) \<Rightarrow> (string \<times> string list) list res \<Rightarrow> string \<Rightarrow> string
    \<Rightarrow> (string \<times> string list) res" where
  "hf_download snapshot cache repo_id revision =
     rbind (snapshot repo_id revision) (\<lambda>local_path.
       Inr (local_path, case cache of Inl e \<Rightarrow> [] | Inr repos \<Rightarrow> prune_hf_revisions repo_id revision repos))"

section \<open>Properties of the clock offset\<close>

text \<open>Polls of a validator whose clock agrees: the header is the whole second of the moment it was stamped.\<close>

definition truthful_poll :: "(string \<Rightarrow> real res) \<Rightarrow> string option \<times> real \<times> real \<Rightarrow> bool" where
  "truthful_poll parsedate = (\<lambda>(h, t0, t1). \<forall>t. h \<noteq> None \<and> parsedate (the h) = Inr t \<longrightarrow> t = of_int \<lfloor>(t0 + t1) / 2\<rfloor>)"

fun polls :: "(string \<Rightarrow> real res) \<Rightarrow> (string option \<times> real \<times> real) list \<Rightarrow> clock_offset \<Rightarrow> clock_offset" where
  "polls parsedate [] co = co"
| "polls parsedate ((h, t0, t1) # rest) co =
     polls parsedate rest (fst (apply_offset_from_validator_response parsedate h t0 t1 co))"

definition offset_ok :: "clock_offset \<Rightarrow> bool" where
  "offset_ok co = (case co_ema co of None \<Rightarrow> co_offset co = 0
     | Some e \<Rightarrow> - 1 < e \<and> e \<le> 0 \<and> co_offset co = e + 1 / 2)"

lemma poll_ok:
  assumes "offset_ok co" and "truthful_poll parsedate (h, t0, t1)"
  shows "offset_ok (fst (apply_offset_from_validator_response parsedate h t0 t1 co))"
proof (cases "\<exists>d t. h = Some d \<and> d \<noteq> [] \<and> parsedate d = Inr t")
  case False
  then show ?thesis using assms(1) by (auto simp: apply_offset_from_validator_response_def split: option.split sum.split)
next
  case True
  then obtain d t where h: "h = Some d" "d \<noteq> []" "parsedate d = Inr t" by blast
  define x where "x = t - (t0 + t1) / 2"
  have "t = of_int \<lfloor>(t0 + t1) / 2\<rfloor>" using assms(2) h by (simp add: truthful_poll_def)
  then have x: "- 1 < x \<and> x \<le> 0" unfolding x_def by linarith
  show ?thesis
  proof (cases "co_ema co")
    case None
    then show ?thesis using h x by (simp add: apply_offset_from_validator_response_def offset_ok_def x_def Let_def)
  next
    case (Some e)
    then have "- 1 < e \<and> e \<le> 0" using assms(1) by (simp add: offset_ok_def)
    then have "- 1 < 8 / 10 * e + 2 / 10 * x \<and> 8 / 10 * e + 2 / 10 * x \<le> 0" using x by linarith
    then show ?thesis using h Some
      by (simp add: apply_offset_from_validator_response_def offset_ok_def x_def [symmetric] OFFSET_EMA_ALPHA_def Let_def)
  qed
qed

lemma polls_ok: "offset_ok co \<Longrightarrow> \<forall>p \<in> set ps. truthful_poll parsedate p \<Longrightarrow> offset_ok (polls parsedate ps co)"
  by (induction ps arbitrary: co) (simp_all add: split_paired_all poll_ok)

text \<open>
  The clock calibration cannot run away. Whatever the polls, with a validator whose clock agrees and whose
  header carries whole seconds, the offset of the miner stays within half a second of zero: the compensation of the
  floor keeps the smoothed estimate centred.
\<close>

theorem clock_offset_is_bounded:
  assumes "\<forall>p \<in> set ps. truthful_poll parsedate p"
  shows "- 1 / 2 < co_offset (polls parsedate ps \<lparr> co_ema = None, co_offset = 0 \<rparr>)
    \<and> co_offset (polls parsedate ps \<lparr> co_ema = None, co_offset = 0 \<rparr>) \<le> 1 / 2"
proof -
  have "offset_ok (polls parsedate ps \<lparr> co_ema = None, co_offset = 0 \<rparr>)" by (rule polls_ok [OF _ assms]) (simp add: offset_ok_def)
  then show ?thesis by (auto simp: offset_ok_def split: option.splits)
qed

theorem clock_offset_is_bounded_witness:
  "- 1 / 2 < co_offset (polls (\<lambda>h. Inr 7) [(Some ''d'', 7, 8), (None, 1, 2)] \<lparr> co_ema = None, co_offset = 0 \<rparr>)"
  using clock_offset_is_bounded [of "[(Some ''d'', 7, 8), (None, 1, 2)]" "\<lambda>h. Inr 7"] by (simp add: truthful_poll_def)

section \<open>Properties of the pull\<close>

text \<open>
  A checkpoint that cannot be loaded is taken all the same. When the new snapshot fails to load, \<open>_load_checkpoint\<close> keeps the
  old model and returns it as if it were the new one; the caller then advances to the new number and hash, so the
  miner goes on proving with the old weights under the new checkpoint's name, and the same state never
  triggers another attempt.
\<close>

theorem failed_load_advances_the_checkpoint:
  assumes "local_n < gs_checkpoint_n st" and "gs_checkpoint_repo_id st = Some repo" and "gs_checkpoint_revision st = Some revn"
    and "download_fn repo revn = Inr path" and "lo_load_hf lo path = Inl e" and "md_loaded_path md \<noteq> Some path"
  shows "maybe_pull_checkpoint download_fn (load_checkpoint lo) st local_n local_hash (md_hf md) md
      = (md, Inr (gs_checkpoint_n st, revn, md_hf md))
    \<and> maybe_pull_checkpoint download_fn (load_checkpoint lo) st (gs_checkpoint_n st) revn (md_hf md) md
      = (md, Inr (gs_checkpoint_n st, revn, md_hf md))"
  using assms by (simp add: maybe_pull_checkpoint_def load_checkpoint_def)

definition sample_poll_state :: grpo_batch_state where
  "sample_poll_state = \<lparr> gs_state = OPEN, gs_window_n = 7, gs_anchor_block = 7, gs_cooldown_prompts = [], gs_valid_submissions = 0,
     gs_checkpoint_n = 3, gs_checkpoint_repo_id = Some ''r'', gs_checkpoint_revision = Some ''c'', gs_protocol_version = None,
     gs_generation_profile_id = None, gs_generation_contract = None, gs_randomness = ''ab'' \<rparr>"

theorem failed_load_advances_the_checkpoint_witness:
  "let lo = \<lparr> lo_load_hf = (\<lambda>p. Inl RuntimeError), lo_load_gen = (\<lambda>p. Inl RuntimeError), lo_reload = None, lo_eos = (\<lambda>m. [9]) \<rparr>;
       md = \<lparr> md_hf = ''old'', md_gen = None, md_eos = [9], md_loaded_path = None \<rparr> in
   maybe_pull_checkpoint (\<lambda>r v. Inr ''p'') (load_checkpoint lo) sample_poll_state 2 ''b'' (md_hf md) md = (md, Inr (3, ''c'', ''old''))"
  using failed_load_advances_the_checkpoint [of 2 sample_poll_state "''r''" "''c''" "\<lambda>r v. Inr ''p''" "''p''"
      "\<lparr> lo_load_hf = (\<lambda>p. Inl RuntimeError), lo_load_gen = (\<lambda>p. Inl RuntimeError), lo_reload = None, lo_eos = (\<lambda>m. [9]) \<rparr>"
      RuntimeError "\<lparr> md_hf = ''old'', md_gen = None, md_eos = [9], md_loaded_path = None \<rparr>" "''b''"]
  by (simp add: sample_poll_state_def Let_def)

text \<open>
  A successful pull always leaves the miner at the validator's checkpoint, never behind and never ahead by its own doing, and
  the revision it keeps is never among those pruned.
\<close>

theorem pull_follows_the_validator:
  "(case maybe_pull_checkpoint download_fn load_fn st local_n local_hash m s of
      (s1, Inr (n, h, m')) \<Rightarrow> (n, h, m') = (local_n, local_hash, m) \<and> s1 = s
         \<or> local_n < n \<and> n = gs_checkpoint_n st \<and> Some h = gs_checkpoint_revision st
    | (s1, Inl e) \<Rightarrow> local_n < gs_checkpoint_n st)
   \<and> keep \<notin> set (prune_hf_revisions repo keep repos)"
proof -
  have "keep \<notin> set (prune_hf_revisions repo keep repos)" by (induction repos) (auto split: if_splits)
  then show ?thesis by (auto simp: maybe_pull_checkpoint_def split: option.split sum.split prod.split)
qed

end
