(* ===== verification/Trigger.thy ===== *)
theory Trigger
  imports Engine Submitter MinerCheckpoint
begin

text \<open>
  The foreground of the miner, from \<open>reliquary/miner/engine.py\<close>: the phases of \<open>_trigger_loop\<close> (poll, pull of the
  checkpoint, decision to fire), \<open>_fire_for_window\<close> with \<open>_submit_entry\<close>, and the poll of the verdicts. The loop runs beside
  the generators: everything between two awaits is a step, and \<open>miner_step\<close> interleaves them in every order.
  Pauses, logging and the copy of the pool on disk are left out.
\<close>

section \<open>A poll\<close>

record tick_io =
  ti_state :: "grpo_batch_state res"
  ti_extra :: "string \<Rightarrow> grpo_batch_state res"
  ti_download :: "string \<Rightarrow> string \<Rightarrow> string res"

text \<open>What the HTTP client answers, as the poll reads it.\<close>

definition poll_of :: "pydantic \<Rightarrow> attempt \<Rightarrow> (string \<Rightarrow> nat \<Rightarrow> attempt) \<Rightarrow> (string \<Rightarrow> string \<Rightarrow> string res) \<Rightarrow> tick_io" where
  "poll_of pd first extra download =
     \<lparr> ti_state = rbind (get_window_state_v2_with_resp pd first) (\<lambda>(st, resp). Inr st),
       ti_extra = (\<lambda>n. snd (get_window_state_v2 pd (extra n))), ti_download = download \<rparr>"

definition note_cooldowns :: "'p engine_env \<Rightarrow> tick_io \<Rightarrow> grpo_batch_state \<Rightarrow> 'p engine \<Rightarrow> 'p engine" where
  "note_cooldowns ee io st s =
     s \<lparr> eg_cooldowns :=
           foldl (\<lambda>d n. case ti_extra io n of Inl e \<Rightarrow> d | Inr st' \<Rightarrow> dset n (set (gs_cooldown_prompts st')) d)
             (dset (hd (ee_active ee)) (set (gs_cooldown_prompts st)) (eg_cooldowns s)) (drop 1 (ee_active ee)) \<rparr>"

definition flush_on_flip :: "'p engine_env \<Rightarrow> grpo_batch_state \<Rightarrow> 'p engine \<Rightarrow> 'p engine" where
  "flush_on_flip ee st s =
     (let r = gs_randomness st;
          s1 = (if r \<noteq> [] \<and> r \<noteq> ba_randomness (eg_bake s)
                  \<and> (bv_enforce (ee_bake ee) \<or> window_range ee (ee_default ee) (gs_window_n st) r \<noteq> None)
                then s \<lparr> eg_pool := [], eg_retry := map (\<lambda>(n, q). (n, [])) (eg_retry s) \<rparr> else s)
      in if r \<noteq> [] then s1 \<lparr> eg_bake := (eg_bake s1) \<lparr> ba_randomness := r, ba_window_n := gs_window_n st \<rparr> \<rparr> else s1)"

section \<open>The pull of a checkpoint\<close>

text \<open>The flag tells whether the local number changed; then the iteration ends without firing.\<close>

definition take_checkpoint :: "'p engine_env \<Rightarrow> 'm loaders \<Rightarrow> (string \<Rightarrow> string \<Rightarrow> string res) \<Rightarrow> grpo_batch_state
    \<Rightarrow> 'p engine \<times> 'm models \<Rightarrow> ('p engine \<times> 'm models) \<times> bool" where
  "take_checkpoint ee lo download st = (\<lambda>(s, md).
     case maybe_pull_checkpoint download (load_checkpoint lo) st (ba_local_n (eg_bake s)) (ba_local_hash (eg_bake s)) (md_hf md) md of
       (md1, Inl e) \<Rightarrow> ((s, md1), False)
     | (md1, Inr (new_n, new_hash, new_model)) \<Rightarrow>
         if new_n = ba_local_n (eg_bake s) then ((s, md1), False)
         else ((s \<lparr> eg_pool := (if drop_pool_on_ckpt_advance ee then [] else eg_pool s),
                    eg_bake := (eg_bake s) \<lparr> ba_local_n := new_n, ba_local_hash := new_hash \<rparr> \<rparr>, md1 \<lparr> md_hf := new_model \<rparr>), True))"

section \<open>The decision to fire\<close>

definition fire_as_ready :: "'p engine_env \<Rightarrow> int \<Rightarrow> string \<Rightarrow> bool" where
  "fire_as_ready ee window_n randomness =
     (if bv_enforce (ee_bake ee) then True else window_range ee (ee_default ee) window_n randomness \<noteq> None)"

definition should_fire_for_window :: "grpo_batch_state \<Rightarrow> int set \<Rightarrow> int set \<Rightarrow> nat \<Rightarrow> bool" where
  "should_fire_for_window st fired_windows forfeit_windows pool_size =
     (gs_window_n st \<notin> fired_windows \<and> gs_window_n st \<notin> forfeit_windows \<and> gs_state st = OPEN
      \<and> gs_randomness st \<noteq> [] \<and> 0 < pool_size)"

definition decide_fire :: "'p engine_env \<Rightarrow> grpo_batch_state \<Rightarrow> 'p engine \<Rightarrow> 'p engine" where
  "decide_fire ee st s =
     (let w = gs_window_n st; pool_size = length (eg_pool s) in
      if fire_as_ready ee w (gs_randomness st) then
        (let remaining = MAX_SUBMISSIONS_PER_HOTKEY_PER_WINDOW - dget (eg_submitted_count s) w 0 in
         if gs_state st = OPEN \<and> gs_randomness st \<noteq> [] \<and> 0 < remaining \<and> 0 < pool_size \<and> eg_tasks s = []
         then s \<lparr> eg_tasks := [Scheduled st remaining] \<rparr> else s)
      else if should_fire_for_window st (eg_fired s) (eg_logged_empty s) pool_size then
        s \<lparr> eg_fired := insert w (eg_fired s), eg_tasks := eg_tasks s @ [Scheduled st MAX_SUBMISSIONS_PER_HOTKEY_PER_WINDOW] \<rparr>
      else if w \<notin> eg_fired s \<and> w \<notin> eg_logged_empty s \<and> gs_state st = OPEN \<and> gs_randomness st \<noteq> [] \<and> pool_size = 0 then
        s \<lparr> eg_logged_empty := insert w (eg_logged_empty s) \<rparr>
      else s)"

definition prune_windows :: "grpo_batch_state \<Rightarrow> 'p engine \<Rightarrow> 'p engine" where
  "prune_windows st s =
     s \<lparr> eg_logged_empty := {w \<in> eg_logged_empty s. gs_window_n st - 64 \<le> w},
         eg_fired := {w \<in> eg_fired s. gs_window_n st - 64 \<le> w},
         eg_submitted_count := filter (\<lambda>(w, c). gs_window_n st - 64 \<le> w) (eg_submitted_count s) \<rparr>"

text \<open>One iteration without interruption; without an active environment it ends the loop with an error.\<close>

definition trigger_tick :: "'p engine_env \<Rightarrow> 'm loaders \<Rightarrow> tick_io \<Rightarrow> 'p engine \<times> 'm models \<Rightarrow> ('p engine \<times> 'm models) res" where
  "trigger_tick ee lo io = (\<lambda>(s, md).
     case ti_state io of
       Inl e \<Rightarrow> Inr (s, md)
     | Inr st \<Rightarrow>
         if ee_active ee = [] then Inl IndexError
         else case take_checkpoint ee lo (ti_download io) st (flush_on_flip ee st (note_cooldowns ee io st s), md) of
             (sm, True) \<Rightarrow> Inr sm
           | ((s1, md1), False) \<Rightarrow> Inr (prune_windows st (decide_fire ee st s1), md1))"

section \<open>A burst\<close>

text \<open>
  An entry is dropped when its prompt is in the cooldown of the polled state, whatever the environment of the entry, or outside
  the window's range of its own environment.
\<close>

definition stale_entry :: "'p engine_env \<Rightarrow> grpo_batch_state \<Rightarrow> 'p pool_entry \<Rightarrow> bool" where
  "stale_entry ee st e =
     (let n = env_of_entry (ee_active ee) e in
      pe_prompt_idx e \<in> set (gs_cooldown_prompts st)
      \<or> (case (if n \<in> set (ee_active ee) then window_range ee (ee_envs ee n) (gs_window_n st) (gs_randomness st) else None) of
           None \<Rightarrow> False | Some (lo, hi) \<Rightarrow> \<not> (lo \<le> pe_prompt_idx e \<and> pe_prompt_idx e < hi)))"

fun drain :: "('p pool_entry \<Rightarrow> bool) \<Rightarrow> int \<Rightarrow> 'p pool_entry list \<Rightarrow> 'p pool_entry list \<Rightarrow> 'p pool_entry list
    \<Rightarrow> 'p pool_entry list \<times> 'p pool_entry list" where
  "drain stale budget [] fire kept = (fire, kept)"
| "drain stale budget (e # es) fire kept =
     (if stale e then drain stale budget es fire kept
      else if int (length fire) < budget then drain stale budget es (fire @ [e]) kept
      else drain stale budget es fire (kept @ [e]))"

definition start_fire :: "'p engine_env \<Rightarrow> grpo_batch_state \<Rightarrow> int \<Rightarrow> 'p engine \<Rightarrow> 'p engine \<times> 'p pool_entry list" where
  "start_fire ee st budget s =
     (case drain (stale_entry ee st) budget (eg_pool s) [] [] of
        (fire, kept) \<Rightarrow>
          (let s1 = s \<lparr> eg_pool := kept \<rparr>; w = gs_window_n st in
           (if fire = [] then s1
            else s1 \<lparr> eg_submitted_count := dset w (dget (eg_submitted_count s1) w 0 + int (length fire)) (eg_submitted_count s1) \<rparr>,
            fire)))"

record post_io =
  po_round :: "int res"
  po_nonce :: string
  po_dump :: "batch_submission_request \<Rightarrow> bytes"
  po_pre :: attempt
  po_posts :: "nat \<Rightarrow> attempt"

definition submit_entry :: "'p engine_env \<Rightarrow> grpo_batch_state \<Rightarrow> 'p pool_entry \<Rightarrow> post_io \<Rightarrow> 'p engine
    \<Rightarrow> 'p engine \<times> batch_submission_response option" where
  "submit_entry ee st e po s =
     (let me = bv_me (ee_bake ee) in
      case finalize_pool_entry me (ee_active ee) e (gs_randomness st) of
        Inl x \<Rightarrow> (s, None)
      | Inr (subs, mroot) \<Rightarrow>
          (let s1 = s \<lparr> eg_submitted_env := dset mroot (env_of_entry (ee_active ee) e) (eg_submitted_env s) \<rparr> in
           case build_signed_request me (po_round po) (ba_local_hash (eg_bake s)) subs mroot (pe_prompt_idx e) (gs_window_n st)
                  (gs_randomness st) (po_nonce po) of
             Inl x \<Rightarrow> (s1, None)
           | Inr (current_round, request) \<Rightarrow>
               (case snd (snd (submit_batch_v2 (me_pydantic me) (me_sha me) (Some (me_keypair me)) (po_dump po) (po_pre po) (po_posts po)
                                 request (Some (gs_randomness st)))) of
                  Inl x \<Rightarrow> (s1, None)
                | Inr resp \<Rightarrow>
                    (s1 \<lparr> eg_bake := (eg_bake s1) \<lparr> ba_drops := fst (record_drop False None (ba_drops (eg_bake s1))) \<rparr> \<rparr>, Some resp))))"

fun submit_all :: "'p engine_env \<Rightarrow> grpo_batch_state \<Rightarrow> ('p pool_entry \<times> post_io) list \<Rightarrow> 'p engine
    \<Rightarrow> 'p engine \<times> batch_submission_response option list" where
  "submit_all ee st [] s = (s, [])"
| "submit_all ee st ((e, po) # rest) s =
     (case submit_entry ee st e po s of (s1, r) \<Rightarrow> (case submit_all ee st rest s1 of (s2, rs) \<Rightarrow> (s2, r # rs)))"

definition retryable_reasons :: "string list" where
  "retryable_reasons = [''stale_round'', ''batch_filled'', ''rate_limited'', ''future_round'', ''registration_unavailable'']"

definition requeued :: "batch_submission_response option \<Rightarrow> bool" where
  "requeued r = (case r of None \<Rightarrow> False
     | Some resp \<Rightarrow> if br_accepted resp then False else reason_value (br_reason resp) \<in> set retryable_reasons)"

definition remove_nth :: "nat \<Rightarrow> 'a list \<Rightarrow> 'a list" where "remove_nth k xs = take k xs @ drop (Suc k) xs"

definition finish_fire :: "'p engine_env \<Rightarrow> grpo_batch_state \<Rightarrow> ('p pool_entry \<times> post_io) list \<Rightarrow> 'p engine \<Rightarrow> 'p engine" where
  "finish_fire ee st fire s =
     (case submit_all ee st fire s of (s1, responses) \<Rightarrow>
        s1 \<lparr> eg_pool := eg_pool s1 @ map fst (filter (\<lambda>(e, r). requeued r) (zip (map fst fire) responses)) \<rparr>)"

section \<open>Verdicts\<close>

fun apply_verdicts :: "(string, string) dict \<Rightarrow> verdict list \<Rightarrow> mix_controller \<Rightarrow> pyfloat \<Rightarrow> mix_controller \<times> pyfloat" where
  "apply_verdicts submitted [] mc max_ts = (mc, max_ts)"
| "apply_verdicts submitted (v # vs) mc max_ts =
     (let ts = pf_max max_ts (vd_ts v) in
      case (map_of submitted (vd_merkle_root v), vd_rewarded v) of
        (Some env, Some rewarded) \<Rightarrow> apply_verdicts submitted vs (record_outcome env rewarded mc) ts
      | _ \<Rightarrow> apply_verdicts submitted vs mc ts)"

definition tick_verdicts :: "pydantic \<Rightarrow> attempt \<Rightarrow> 'p engine \<Rightarrow> 'p engine" where
  "tick_verdicts pd answer s =
     (case fetch_verdicts pd answer of
        None \<Rightarrow> s
      | Some vs \<Rightarrow>
          if vs = [] then s
          else case apply_verdicts (eg_submitted_env s) vs (eg_mix s) (Fin 0) of (mc, new_ts) \<Rightarrow>
            s \<lparr> eg_mix := mc, eg_verdicts_since := (if pf_lt (eg_verdicts_since s) new_ts then new_ts else eg_verdicts_since s),
                eg_submitted_env := drop (length (eg_submitted_env s) - 2000) (eg_submitted_env s) \<rparr>)"

section \<open>Runs of the miner\<close>

text \<open>The state \<open>mine_window\<close> starts from.\<close>

definition new_engine :: "string list \<Rightarrow> drop_tracker \<Rightarrow> 'p pool_entry list \<Rightarrow> 'p engine" where
  "new_engine active drops reloaded =
     \<lparr> eg_bake = \<lparr> ba_cache = [], ba_drops = drops, ba_randomness = [], ba_local_hash = [], ba_local_n = - 1, ba_window_n = - 1 \<rparr>,
       eg_pool = reloaded, eg_cooldowns = dict_of (\<lambda>n. {}) active, eg_retry = dict_of (\<lambda>n. []) active,
       eg_mix = MixController active MAX_SUBMISSIONS_PER_HOTKEY_PER_WINDOW 1 (1 / 10), eg_tie_counter = 0, eg_fired = {},
       eg_logged_empty = {}, eg_submitted_count = [], eg_tasks = [], eg_submitted_env = [], eg_verdicts_since = Fin 0 \<rparr>"

text \<open>
  The trigger loop waits in three places. \<open>mn_newest\<close> (the highest window polled) and \<open>mn_log\<close> (the entries drained for a burst,
  with their window) are ghost fields: no step reads the log.
\<close>

datatype trigger_phase = Polling | Pulling grpo_batch_state | Deciding grpo_batch_state

record ('p, 'm) miner =
  mn_phase :: trigger_phase
  mn_engine :: "'p engine"
  mn_models :: "'m models"
  mn_newest :: "int option"
  mn_log :: "(int \<times> 'p pool_entry) list"

definition recent :: "int option \<Rightarrow> int \<Rightarrow> bool" where
  "recent newest w = (case newest of None \<Rightarrow> True | Some n \<Rightarrow> n - 64 \<le> w)"

definition newer :: "int option \<Rightarrow> int \<Rightarrow> int option" where
  "newer newest w = Some (case newest of None \<Rightarrow> w | Some n \<Rightarrow> max n w)"

text \<open>What a generator does between two awaits: its own fields, and at most one new entry.\<close>

definition generator_effect :: "'p engine_env \<Rightarrow> 'p engine \<Rightarrow> 'p engine \<Rightarrow> bool" where
  "generator_effect ee s s1 =
     (\<exists>retry counter cache drops. let t = s \<lparr> eg_retry := retry, eg_tie_counter := counter,
          eg_bake := (eg_bake s) \<lparr> ba_cache := cache, ba_drops := drops \<rparr> \<rparr> in
        s1 = t \<or> (\<exists>e. s1 = fst (push_entry ee e t)))"

text \<open>The validator never goes back by more than 64 windows: the bound that \<open>_trigger_loop\<close> prunes with.\<close>

inductive miner_step :: "'p engine_env \<Rightarrow> 'm loaders \<Rightarrow> ('p, 'm) miner \<Rightarrow> ('p, 'm) miner \<Rightarrow> bool" for ee lo where
  polled: "mn_phase m = Polling \<Longrightarrow> ti_state io = Inr st \<Longrightarrow> recent (mn_newest m) (gs_window_n st) \<Longrightarrow>
    miner_step ee lo m (m \<lparr> mn_phase := Pulling st, mn_engine := flush_on_flip ee st (note_cooldowns ee io st (mn_engine m)),
                            mn_newest := newer (mn_newest m) (gs_window_n st) \<rparr>)"
| pulled: "mn_phase m = Pulling st \<Longrightarrow> take_checkpoint ee lo download st (mn_engine m, mn_models m) = ((s, md), advanced) \<Longrightarrow>
    miner_step ee lo m (m \<lparr> mn_phase := (if advanced then Polling else Deciding st), mn_engine := s, mn_models := md \<rparr>)"
| decided: "mn_phase m = Deciding st \<Longrightarrow>
    miner_step ee lo m (m \<lparr> mn_phase := Polling, mn_engine := prune_windows st (decide_fire ee st (mn_engine m)) \<rparr>)"
| started: "k < length (eg_tasks (mn_engine m)) \<Longrightarrow> eg_tasks (mn_engine m) ! k = Scheduled st budget \<Longrightarrow>
    start_fire ee st budget (mn_engine m) = (s, fire) \<Longrightarrow>
    miner_step ee lo m (m \<lparr> mn_engine := s \<lparr> eg_tasks := (if fire = [] then remove_nth k (eg_tasks s) else (eg_tasks s) [k := Posting st fire]) \<rparr>,
                            mn_log := mn_log m @ map (Pair (gs_window_n st)) fire \<rparr>)"
| finished: "k < length (eg_tasks (mn_engine m)) \<Longrightarrow> eg_tasks (mn_engine m) ! k = Posting st (map fst fire) \<Longrightarrow>
    finish_fire ee st fire (mn_engine m) = s \<Longrightarrow>
    miner_step ee lo m (m \<lparr> mn_engine := s \<lparr> eg_tasks := remove_nth k (eg_tasks s) \<rparr> \<rparr>)"
| generated: "generator_effect ee (mn_engine m) s \<Longrightarrow> miner_step ee lo m (m \<lparr> mn_engine := s \<rparr>)"
| judged: "miner_step ee lo m (m \<lparr> mn_engine := tick_verdicts (me_pydantic (bv_me (ee_bake ee))) answer (mn_engine m) \<rparr>)"

inductive miner_reach :: "'p engine_env \<Rightarrow> 'm loaders \<Rightarrow> ('p, 'm) miner \<Rightarrow> bool" for ee lo where
  start: "miner_reach ee lo \<lparr> mn_phase = Polling, mn_engine = new_engine (ee_active ee) drops reloaded, mn_models = md, mn_newest = None,
                              mn_log = [] \<rparr>"
| step: "miner_reach ee lo m \<Longrightarrow> miner_step ee lo m m1 \<Longrightarrow> miner_reach ee lo m1"

section \<open>The cap of a window\<close>

text \<open>How many entries of a window have been drained, and what the scheduled bursts of the window may still drain.\<close>

definition fired_in :: "int \<Rightarrow> (int \<times> 'p pool_entry) list \<Rightarrow> nat" where
  "fired_in w fired = length (filter (\<lambda>(v, e). v = w) fired)"

fun budget_left :: "int \<Rightarrow> 'p fire_task list \<Rightarrow> nat" where
  "budget_left w [] = 0"
| "budget_left w (Scheduled st b # ts) = (if gs_window_n st = w then nat b else 0) + budget_left w ts"
| "budget_left w (Posting st es # ts) = budget_left w ts"

lemma budget_left_append: "budget_left w (xs @ ys) = budget_left w xs + budget_left w ys"
  by (induction w xs rule: budget_left.induct) auto

lemma budget_left_split:
  assumes "k < length ts"
  shows "budget_left w ts = budget_left w (take k ts) + (budget_left w [ts ! k] + budget_left w (drop (Suc k) ts))"
  using assms by (metis append_Cons append_Nil budget_left_append id_take_nth_drop)

lemma budget_left_remove:
  "k < length ts \<Longrightarrow> budget_left w (remove_nth k ts) + budget_left w [ts ! k] = budget_left w ts"
  by (simp add: remove_nth_def budget_left_append budget_left_split [of k])

lemma budget_left_update:
  "k < length ts \<Longrightarrow> budget_left w (ts [k := t]) + budget_left w [ts ! k] = budget_left w ts + budget_left w [t]"
  using budget_left_append [of w "[t]" "drop (Suc k) ts"]
  by (simp add: upd_conv_take_nth_drop budget_left_append budget_left_split [of k ts])

lemma fired_in_append: "fired_in w (xs @ ys) = fired_in w xs + fired_in w ys"
  by (simp add: fired_in_def)

lemma fired_in_burst: "fired_in w (map (Pair v) es) = (if v = w then length es else 0)"
  by (auto simp: fired_in_def filter_map o_def)

lemma drain_live:
  assumes "0 \<le> budget"
  shows "drain stale budget es fire kept =
    (fire @ take (nat budget - length fire) (filter (\<lambda>e. \<not> stale e) es), kept @ drop (nat budget - length fire) (filter (\<lambda>e. \<not> stale e) es))"
  using assms
proof (induction es arbitrary: fire kept)
  case (Cons e es)
  show ?case
  proof (cases "stale e")
    case False
    show ?thesis
    proof (cases "int (length fire) < budget")
      case True
      then have "nat budget - length fire = Suc (nat budget - length (fire @ [e]))" by auto
      then show ?thesis using Cons False True by simp
    next
      case full: False
      then have "nat budget - length fire = 0" by auto
      then show ?thesis using Cons False full by simp
    qed
  qed (use Cons in simp)
qed simp

definition legacy :: "'p engine_env \<Rightarrow> int \<Rightarrow> bool" where
  "legacy ee w = (\<not> bv_enforce (ee_bake ee) \<and> w < ee_range_from ee)"

lemma legacy_mode: "r \<noteq> [] \<Longrightarrow> fire_as_ready ee w r = (\<not> legacy ee w)"
  by (simp add: fire_as_ready_def legacy_def window_range_def active_prompt_range_def)

definition capped :: "'p engine_env \<Rightarrow> int option \<Rightarrow> (int \<times> 'p pool_entry) list \<Rightarrow> 'p engine \<Rightarrow> int \<Rightarrow> bool" where
  "capped ee newest fired s w =
     (fired_in w fired + budget_left w (eg_tasks s) \<le> 8
      \<and> (recent newest w \<longrightarrow> dget (eg_submitted_count s) w 0 = int (fired_in w fired)
            \<and> (legacy ee w \<and> w \<notin> eg_fired s \<longrightarrow> fired_in w fired + budget_left w (eg_tasks s) = 0)))"

text \<open>What the two conditions read of the engine; every step but three leaves it alone.\<close>

definition same_fires :: "'p engine \<Rightarrow> 'p engine \<Rightarrow> bool" where
  "same_fires s t = (eg_tasks t = eg_tasks s \<and> eg_submitted_count t = eg_submitted_count s \<and> eg_fired t = eg_fired s)"

lemma same_fires_refl [simp]: "same_fires s s" by (simp add: same_fires_def)

lemma capped_same: "same_fires s t \<Longrightarrow> capped ee newest fired t w = capped ee newest fired s w"
  by (simp add: same_fires_def capped_def)

lemma same_fires_steps:
  "same_fires s (note_cooldowns ee io st s)" "same_fires s (flush_on_flip ee st s)" "same_fires s (tick_verdicts pd answer s)"
  by (auto simp: same_fires_def note_cooldowns_def flush_on_flip_def tick_verdicts_def Let_def split: option.split prod.split)

lemma checkpoint_same_fires: "take_checkpoint ee lo download st (s, md) = ((s1, md1), advanced) \<Longrightarrow> same_fires s s1"
  by (auto simp: same_fires_def take_checkpoint_def split: prod.splits sum.splits if_splits)

lemma generator_same_fires: "generator_effect ee s s1 \<Longrightarrow> same_fires s s1"
  by (auto simp: same_fires_def generator_effect_def push_entry_def Let_def split: if_splits)

lemma submit_same_fires: "same_fires s (fst (submit_entry ee st e po s))"
  by (auto simp: same_fires_def submit_entry_def Let_def split: sum.split prod.split)

lemma submit_all_same_fires: "same_fires s (fst (submit_all ee st fire s))"
proof (induction fire arbitrary: s)
  case (Cons x fire)
  obtain e po where x: "x = (e, po)" by fastforce
  obtain s1 r where s1: "submit_entry ee st e po s = (s1, r)" by fastforce
  show ?case using Cons [of s1] submit_same_fires [of s ee st e po] s1
    by (auto simp: x same_fires_def split: prod.split)
qed simp

lemma finish_same_fires: "same_fires s (finish_fire ee st fire s)"
proof -
  obtain s1 rs where s1: "submit_all ee st fire s = (s1, rs)" by fastforce
  then show ?thesis using submit_all_same_fires [of s ee st fire] by (simp add: finish_fire_def same_fires_def)
qed

lemma count_pruned:
  "gs_window_n st - 64 \<le> w \<Longrightarrow> dget (filter (\<lambda>(w, c). gs_window_n st - 64 \<le> w) d) w 0 = dget d w 0"
  by (induction d) (auto simp: dget_def split: if_splits)

lemma capped_decide:
  assumes "capped ee newest fired s w" and r: "newest = Some n" "gs_window_n st \<le> n" "recent newest (gs_window_n st)"
  shows "capped ee newest fired (prune_windows st (decide_fire ee st s)) w"
proof -
  have keep: "gs_window_n st - 64 \<le> v" if "recent newest v" for v using that r by (simp add: recent_def)
  have "capped ee newest fired (decide_fire ee st s) w"
    using assms(1) legacy_mode [of "gs_randomness st" ee "gs_window_n st"] r(3)
    by (auto simp: capped_def decide_fire_def should_fire_for_window_def budget_left_append MAX_SUBMISSIONS_PER_HOTKEY_PER_WINDOW_def
        Let_def split: if_splits)
  then show ?thesis using keep by (auto simp: capped_def prune_windows_def count_pruned)
qed

lemma start_fire_drains:
  assumes "start_fire ee st budget s = (s1, fire)" and "0 \<le> budget"
  shows "int (length fire) \<le> budget" and "eg_tasks s1 = eg_tasks s" and "eg_fired s1 = eg_fired s"
    and "dget (eg_submitted_count s1) w 0 = dget (eg_submitted_count s) w 0 + (if w = gs_window_n st then int (length fire) else 0)"
  using assms by (auto simp: start_fire_def drain_live Let_def dget_def split: if_splits)

lemma capped_start:
  assumes c: "capped ee newest fired s w" and k: "k < length (eg_tasks s)" "eg_tasks s ! k = Scheduled st budget" and b: "0 \<le> budget"
    and s1: "start_fire ee st budget s = (s1, fire)"
  shows "capped ee newest (fired @ map (Pair (gs_window_n st)) fire)
    (s1 \<lparr> eg_tasks := (if fire = [] then remove_nth k (eg_tasks s1) else (eg_tasks s1) [k := Posting st fire]) \<rparr>) w"
proof -
  note d = start_fire_drains [OF s1 b]
  have n: "length fire \<le> nat budget" using d(1) by linarith
  let ?ts = "if fire = [] then remove_nth k (eg_tasks s1) else (eg_tasks s1) [k := Posting st fire]"
  have left: "budget_left w ?ts + (if gs_window_n st = w then nat budget else 0) = budget_left w (eg_tasks s)"
    using budget_left_remove [of k "eg_tasks s" w] budget_left_update [of k "eg_tasks s" w "Posting st fire"] k d(2) by auto
  let ?f = "fired_in w (fired @ map (Pair (gs_window_n st)) fire)"
  have f: "?f = fired_in w fired + (if gs_window_n st = w then length fire else 0)"
    by (simp add: fired_in_append fired_in_burst)
  have "?f + budget_left w ?ts \<le> fired_in w fired + budget_left w (eg_tasks s)"
    unfolding f using left n by (cases "gs_window_n st = w") simp_all
  moreover have "dget (eg_submitted_count s1) w 0 = int ?f" if "dget (eg_submitted_count s) w 0 = int (fired_in w fired)"
    unfolding f d(4) using that by auto
  ultimately show ?thesis using c d(3) by (auto simp: capped_def)
qed

text \<open>Budgets of scheduled bursts are not negative, and under the forced seed there is at most one burst.\<close>

definition tasks_ok :: "'p engine_env \<Rightarrow> 'p engine \<Rightarrow> bool" where
  "tasks_ok ee s = ((\<forall>st b. Scheduled st b \<in> set (eg_tasks s) \<longrightarrow> 0 \<le> b) \<and> (bv_enforce (ee_bake ee) \<longrightarrow> length (eg_tasks s) \<le> 1))"

lemma set_remove_nth: "set (remove_nth k xs) \<subseteq> set xs"
  by (auto simp: remove_nth_def dest: in_set_takeD in_set_dropD)

lemma length_remove_nth: "length (remove_nth k xs) \<le> length xs"
  by (simp add: remove_nth_def)

lemma tasks_ok_same: "same_fires s t \<Longrightarrow> tasks_ok ee t = tasks_ok ee s"
  by (simp add: same_fires_def tasks_ok_def)

lemma tasks_ok_less:
  assumes "tasks_ok ee s" and "eg_tasks s1 = ts" and "length ts \<le> length (eg_tasks s)"
    and "\<forall>st b. Scheduled st b \<in> set ts \<longrightarrow> Scheduled st b \<in> set (eg_tasks s)"
  shows "tasks_ok ee s1"
  using assms by (auto simp: tasks_ok_def)

lemma tasks_ok_decide: "tasks_ok ee s \<Longrightarrow> tasks_ok ee (prune_windows st (decide_fire ee st s))"
  by (auto simp: tasks_ok_def prune_windows_def decide_fire_def fire_as_ready_def MAX_SUBMISSIONS_PER_HOTKEY_PER_WINDOW_def Let_def)

definition polled_ok :: "trigger_phase \<Rightarrow> int option \<Rightarrow> bool" where
  "polled_ok ph newest = (case ph of Polling \<Rightarrow> True
     | Pulling st \<Rightarrow> recent newest (gs_window_n st) \<and> (\<exists>n. newest = Some n \<and> gs_window_n st \<le> n)
     | Deciding st \<Rightarrow> recent newest (gs_window_n st) \<and> (\<exists>n. newest = Some n \<and> gs_window_n st \<le> n))"

definition miner_ok :: "'p engine_env \<Rightarrow> ('p, 'm) miner \<Rightarrow> bool" where
  "miner_ok ee m = ((\<forall>w. capped ee (mn_newest m) (mn_log m) (mn_engine m) w) \<and> tasks_ok ee (mn_engine m) \<and> polled_ok (mn_phase m) (mn_newest m))"

lemma recent_newer: "recent (newer newest v) w \<Longrightarrow> recent newest w"
  by (auto simp: recent_def newer_def split: option.splits)

lemma capped_newer: "capped ee newest fired s w \<Longrightarrow> capped ee (newer newest v) fired s w"
  using recent_newer by (auto simp: capped_def)

lemma miner_step_ok:
  assumes "miner_step ee lo m m1" and "miner_ok ee m"
  shows "miner_ok ee m1"
  using assms
proof (induction rule: miner_step.induct)
  case (polled m io st)
  let ?s = "flush_on_flip ee st (note_cooldowns ee io st (mn_engine m))"
  have "same_fires (mn_engine m) ?s" using same_fires_steps(1,2) by (metis same_fires_def)
  note same = this
  have "capped ee (newer (mn_newest m) (gs_window_n st)) (mn_log m) ?s w" for w
    unfolding capped_same [OF same] by (rule capped_newer) (use polled(4) in \<open>simp add: miner_ok_def\<close>)
  moreover have "polled_ok (Pulling st) (newer (mn_newest m) (gs_window_n st))"
    using polled(3) by (auto simp: polled_ok_def newer_def recent_def split: option.splits)
  ultimately show ?case using polled(4) by (simp add: miner_ok_def tasks_ok_same [OF same])
next
  case (pulled m st download s md advanced)
  then show ?case using capped_same [OF checkpoint_same_fires [OF pulled(2)]] tasks_ok_same [OF checkpoint_same_fires [OF pulled(2)]]
    by (auto simp: miner_ok_def polled_ok_def)
next
  case (decided m st)
  then obtain n where n: "mn_newest m = Some n" "gs_window_n st \<le> n" "recent (mn_newest m) (gs_window_n st)"
    by (auto simp: miner_ok_def polled_ok_def)
  have "capped ee (mn_newest m) (mn_log m) (prune_windows st (decide_fire ee st (mn_engine m))) w" for w
    by (rule capped_decide [OF _ n]) (use decided(2) in \<open>simp add: miner_ok_def\<close>)
  then show ?case using decided(2) by (simp add: miner_ok_def polled_ok_def tasks_ok_decide)
next
  case (started k m st budget s fire)
  have ok: "tasks_ok ee (mn_engine m)" using started(4) by (simp add: miner_ok_def)
  then have b: "0 \<le> budget" using started(1,2) nth_mem by (fastforce simp: tasks_ok_def)
  let ?ts = "if fire = [] then remove_nth k (eg_tasks s) else (eg_tasks s) [k := Posting st fire]"
  have "\<forall>st' b'. Scheduled st' b' \<in> set ?ts \<longrightarrow> Scheduled st' b' \<in> set (eg_tasks (mn_engine m))"
    using start_fire_drains(2) [OF started(3) b] set_remove_nth [of k "eg_tasks s"] set_update_subset_insert [of "eg_tasks s" k] by auto
  moreover have "length ?ts \<le> length (eg_tasks (mn_engine m))"
    using start_fire_drains(2) [OF started(3) b] length_remove_nth [of k "eg_tasks s"] by auto
  ultimately have "tasks_ok ee (s \<lparr> eg_tasks := ?ts \<rparr>)" by (intro tasks_ok_less [OF ok]) simp_all
  then show ?case using capped_start [OF _ started(1,2) b started(3)] started(4) by (auto simp: miner_ok_def)
next
  case (finished k m st fire s)
  then have same: "same_fires (mn_engine m) s" using finish_same_fires by blast
  then have ts: "eg_tasks s = eg_tasks (mn_engine m)" by (simp add: same_fires_def)
  have "budget_left w (remove_nth k (eg_tasks s)) = budget_left w (eg_tasks (mn_engine m))" for w
    using budget_left_remove [OF finished(1), of w] finished(2) ts by simp
  then have "capped ee (mn_newest m) (mn_log m) (s \<lparr> eg_tasks := remove_nth k (eg_tasks s) \<rparr>) w" for w
    using finished(4) same by (auto simp: miner_ok_def capped_def same_fires_def)
  moreover have "tasks_ok ee (s \<lparr> eg_tasks := remove_nth k (eg_tasks s) \<rparr>)"
  proof (rule tasks_ok_less)
    show "tasks_ok ee (mn_engine m)" using finished(4) by (simp add: miner_ok_def)
    show "length (remove_nth k (eg_tasks s)) \<le> length (eg_tasks (mn_engine m))" using length_remove_nth [of k "eg_tasks s"] ts by simp
    show "\<forall>st' b. Scheduled st' b \<in> set (remove_nth k (eg_tasks s)) \<longrightarrow> Scheduled st' b \<in> set (eg_tasks (mn_engine m))"
      using set_remove_nth [of k "eg_tasks s"] ts by auto
  qed simp
  ultimately show ?case using finished(4) by (auto simp: miner_ok_def)
next
  case (generated m s)
  note same = generator_same_fires [OF generated(1)]
  show ?case using generated(2) by (simp add: miner_ok_def capped_same [OF same] tasks_ok_same [OF same])
next
  case (judged m answer)
  then show ?case by (simp add: miner_ok_def capped_same [OF same_fires_steps(3)] tasks_ok_same [OF same_fires_steps(3)])
qed

lemma miner_reach_ok: "miner_reach ee lo m \<Longrightarrow> miner_ok ee m"
proof (induction rule: miner_reach.induct)
  case (start drops reloaded md)
  then show ?case by (simp add: miner_ok_def capped_def tasks_ok_def polled_ok_def new_engine_def fired_in_def dget_def)
qed (rule miner_step_ok)

text \<open>
  C4. No window gets more than its share. However the trigger loop, the bursts, the generators, the pulls of checkpoints and the verdict
  polls interleave, and whatever comes back to the pool, the miner drains at most
  eight entries (\<open>MAX_SUBMISSIONS_PER_HOTKEY_PER_WINDOW\<close>) for one window, as long as the validator's window never goes back by more than the
  64 windows that the loop prunes with; and under the forced seed at most one burst is in flight.
\<close>

theorem bursts_are_capped:
  assumes "miner_reach ee lo m"
  shows "int (fired_in w (mn_log m)) \<le> MAX_SUBMISSIONS_PER_HOTKEY_PER_WINDOW
    \<and> (bv_enforce (ee_bake ee) \<longrightarrow> length (eg_tasks (mn_engine m)) \<le> 1)"
  using miner_reach_ok [OF assms]
  by (auto simp: miner_ok_def capped_def tasks_ok_def MAX_SUBMISSIONS_PER_HOTKEY_PER_WINDOW_def dest: spec [of _ w])

text \<open>A run of one window: poll, pull, an entry baked, the decision, the burst.\<close>

definition quiet_state :: grpo_batch_state where
  "quiet_state = sample_poll_state \<lparr> gs_checkpoint_n := - 1 \<rparr>"

definition quiet_entry :: "nat pool_entry" where "quiet_entry = new_entry sample_env 3 3 (- 1) []"

definition quiet_io :: tick_io where
  "quiet_io = \<lparr> ti_state = Inr quiet_state, ti_extra = (\<lambda>n. Inl RequestError), ti_download = (\<lambda>r v. Inl RequestError) \<rparr>"

definition quiet_engine :: "nat engine" where
  "quiet_engine = new_engine [''opencodeinstruct''] (DropTracker 40 (9 / 10)) []"

definition quiet_polled :: "nat engine" where
  "quiet_polled = quiet_engine \<lparr> eg_bake := (eg_bake quiet_engine) \<lparr> ba_randomness := ''ab'', ba_window_n := 7 \<rparr> \<rparr>"

definition quiet_models :: "string models" where
  "quiet_models = \<lparr> md_hf = ''old'', md_gen = None, md_eos = [9], md_loaded_path = None \<rparr>"

definition quiet_loaders :: "string loaders" where
  "quiet_loaders = \<lparr> lo_load_hf = (\<lambda>p. Inl RuntimeError), lo_load_gen = (\<lambda>p. Inl RuntimeError), lo_reload = None, lo_eos = (\<lambda>m. [9]) \<rparr>"

lemma quiet_env:
  "bv_enforce (ee_bake sample_engine_env)" "ee_active sample_engine_env = [''opencodeinstruct'']" "ee_envs sample_engine_env n = sample_env"
  "drop_pool_on_ckpt_advance sample_engine_env" "w < 100 \<Longrightarrow> window_range sample_engine_env env w r = None"
  by (simp_all add: sample_engine_env_def endless_bake_def sample_bake_def drop_pool_on_ckpt_advance_def window_range_def active_prompt_range_def)

lemma quiet_fields:
  "gs_state quiet_state = OPEN" "gs_window_n quiet_state = 7" "gs_cooldown_prompts quiet_state = []" "gs_checkpoint_n quiet_state = - 1"
  "gs_randomness quiet_state = ''ab''" "ti_state quiet_io = Inr quiet_state"
  by (simp_all add: quiet_state_def sample_poll_state_def quiet_io_def)

lemma quiet_polled_fields:
  "eg_pool quiet_polled = []" "eg_tasks quiet_polled = []" "eg_submitted_count quiet_polled = []" "eg_fired quiet_polled = {}"
  "eg_logged_empty quiet_polled = {}" "ba_local_n (eg_bake quiet_polled) = - 1"
  by (simp_all add: quiet_polled_def quiet_engine_def new_engine_def)

lemma quiet_poll:
  "flush_on_flip sample_engine_env quiet_state (note_cooldowns sample_engine_env quiet_io quiet_state quiet_engine) = quiet_polled"
  by (simp add: flush_on_flip_def note_cooldowns_def quiet_env quiet_polled_def quiet_engine_def new_engine_def quiet_state_def
      sample_poll_state_def dict_of_def Let_def)

lemma quiet_run:
  "miner_reach sample_engine_env quiet_loaders
     \<lparr> mn_phase = Polling,
       mn_engine = quiet_polled \<lparr> eg_pool := [], eg_submitted_count := [(7, 1)], eg_tasks := [Posting quiet_state [quiet_entry]] \<rparr>,
       mn_models = quiet_models, mn_newest = Some 7, mn_log = [(7, quiet_entry)] \<rparr>"
  (is "miner_reach ?ee ?lo ?m5")
proof -
  let ?m = "\<lambda>ph s n. \<lparr> mn_phase = ph, mn_engine = s, mn_models = quiet_models, mn_newest = n, mn_log = [] \<rparr>"
  have m0: "miner_reach ?ee ?lo (?m Polling quiet_engine None)"
    using miner_reach.start [of ?ee ?lo] by (simp add: quiet_engine_def quiet_env)
  have "miner_step ?ee ?lo (?m Polling quiet_engine None) (?m (Pulling quiet_state) quiet_polled (Some 7))"
    using miner_step.polled [of "?m Polling quiet_engine None" quiet_io quiet_state ?ee ?lo]
    by (simp add: quiet_poll quiet_fields newer_def recent_def)
  with m0 have m1: "miner_reach ?ee ?lo (?m (Pulling quiet_state) quiet_polled (Some 7))" by (rule miner_reach.step)
  have "miner_step ?ee ?lo (?m (Pulling quiet_state) quiet_polled (Some 7)) (?m (Deciding quiet_state) quiet_polled (Some 7))"
    using miner_step.pulled [of "?m (Pulling quiet_state) quiet_polled (Some 7)" quiet_state ?ee ?lo "\<lambda>r v. Inl RequestError"
        quiet_polled quiet_models False]
    by (simp add: take_checkpoint_def maybe_pull_checkpoint_def quiet_fields quiet_polled_fields)
  with m1 have m2: "miner_reach ?ee ?lo (?m (Deciding quiet_state) quiet_polled (Some 7))" by (rule miner_reach.step)
  let ?s = "quiet_polled \<lparr> eg_pool := [quiet_entry] \<rparr>"
  have "generator_effect ?ee quiet_polled ?s"
    unfolding generator_effect_def Let_def
    by (rule exI [of _ "eg_retry quiet_polled"], rule exI [of _ "eg_tie_counter quiet_polled"], rule exI [of _ "ba_cache (eg_bake quiet_polled)"],
        rule exI [of _ "ba_drops (eg_bake quiet_polled)"], rule disjI2, rule exI [of _ quiet_entry])
      (simp add: push_entry_def quiet_entry_def new_entry_def quiet_polled_fields)
  then have "miner_step ?ee ?lo (?m (Deciding quiet_state) quiet_polled (Some 7)) (?m (Deciding quiet_state) ?s (Some 7))"
    using miner_step.generated [of ?ee "?m (Deciding quiet_state) quiet_polled (Some 7)" ?s ?lo] by simp
  with m2 have m3: "miner_reach ?ee ?lo (?m (Deciding quiet_state) ?s (Some 7))" by (rule miner_reach.step)
  let ?t = "?s \<lparr> eg_tasks := [Scheduled quiet_state 8] \<rparr>"
  have "prune_windows quiet_state (decide_fire ?ee quiet_state ?s) = ?t"
    by (simp add: decide_fire_def fire_as_ready_def quiet_env prune_windows_def quiet_polled_fields quiet_fields dget_def
        MAX_SUBMISSIONS_PER_HOTKEY_PER_WINDOW_def)
  then have "miner_step ?ee ?lo (?m (Deciding quiet_state) ?s (Some 7)) (?m Polling ?t (Some 7))"
    using miner_step.decided [of "?m (Deciding quiet_state) ?s (Some 7)" quiet_state ?ee ?lo] by simp
  with m3 have m4: "miner_reach ?ee ?lo (?m Polling ?t (Some 7))" by (rule miner_reach.step)
  have live: "\<not> stale_entry ?ee quiet_state quiet_entry"
    by (simp add: stale_entry_def quiet_env quiet_fields)
  have "start_fire ?ee quiet_state 8 ?t = (?t \<lparr> eg_pool := [], eg_submitted_count := [(7, 1)] \<rparr>, [quiet_entry])"
    by (simp add: start_fire_def live dget_def Let_def quiet_polled_fields quiet_fields)
  then have "miner_step ?ee ?lo (?m Polling ?t (Some 7)) ?m5"
    using miner_step.started [of 0 "?m Polling ?t (Some 7)" quiet_state 8 ?ee "?t \<lparr> eg_pool := [], eg_submitted_count := [(7, 1)] \<rparr>"
        "[quiet_entry]" ?lo]
    by (simp add: quiet_fields)
  with m4 show ?thesis by (rule miner_reach.step)
qed

theorem bursts_are_capped_witness: "fired_in 7 [(7, quiet_entry)] = 1 \<and> int (fired_in 7 [(7, quiet_entry)]) \<le> 8"
  using bursts_are_capped [OF quiet_run, of 7] by (simp add: fired_in_def MAX_SUBMISSIONS_PER_HOTKEY_PER_WINDOW_def)

section \<open>The flip of the randomness\<close>

lemma flipped_pool:
  assumes "bv_enforce (ee_bake ee)" and "gs_randomness st \<noteq> []" and "gs_randomness st \<noteq> ba_randomness (eg_bake s)"
  shows "eg_pool (flush_on_flip ee st s) = []" and "\<forall>(n, q) \<in> set (eg_retry (flush_on_flip ee st s)). q = []"
    and "ba_randomness (eg_bake (flush_on_flip ee st s)) = gs_randomness st" and "eg_tasks (flush_on_flip ee st s) = eg_tasks s"
  using assms by (auto simp: flush_on_flip_def Let_def)

lemma checkpoint_keeps:
  assumes "take_checkpoint ee lo download st (s, md) = ((s1, md1), advanced)"
  shows "eg_pool s = [] \<Longrightarrow> eg_pool s1 = []" and "eg_retry s1 = eg_retry s" and "ba_randomness (eg_bake s1) = ba_randomness (eg_bake s)"
    and "eg_tasks s1 = eg_tasks s"
  using assms by (auto simp: take_checkpoint_def split: prod.splits sum.splits if_splits)

lemma decide_keeps:
  "eg_pool (prune_windows st (decide_fire ee st s)) = eg_pool s" "eg_retry (prune_windows st (decide_fire ee st s)) = eg_retry s"
  "ba_randomness (eg_bake (prune_windows st (decide_fire ee st s))) = ba_randomness (eg_bake s)"
  "eg_pool s = [] \<Longrightarrow> eg_tasks (prune_windows st (decide_fire ee st s)) = eg_tasks s"
  by (simp_all add: prune_windows_def decide_fire_def should_fire_for_window_def Let_def)

text \<open>
  A flip of the randomness empties the pool. Under the forced seed an iteration of the trigger loop that reads a new randomness leaves
  no entry in the pool and no retry in any queue, adopts the randomness whether or not the checkpoint is pulled and whether or not
  the pull fails, and schedules no burst.
\<close>

theorem flip_empties_the_pool:
  assumes "bv_enforce (ee_bake ee)" and "ee_active ee \<noteq> []" and "ti_state io = Inr st"
    and "gs_randomness st \<noteq> []" and "gs_randomness st \<noteq> ba_randomness (eg_bake s)"
  shows "\<exists>s1 md1. trigger_tick ee lo io (s, md) = Inr (s1, md1) \<and> eg_pool s1 = [] \<and> (\<forall>(n, q) \<in> set (eg_retry s1). q = [])
    \<and> ba_randomness (eg_bake s1) = gs_randomness st \<and> eg_tasks s1 = eg_tasks s"
proof -
  let ?n = "note_cooldowns ee io st s"
  have n: "eg_bake ?n = eg_bake s" "eg_tasks ?n = eg_tasks s" by (simp_all add: note_cooldowns_def)
  have "gs_randomness st \<noteq> ba_randomness (eg_bake ?n)" using assms(5) n by simp
  note f = flipped_pool [OF assms(1,4) this]
  obtain s1 md1 advanced where t: "take_checkpoint ee lo (ti_download io) st (flush_on_flip ee st ?n, md) = ((s1, md1), advanced)"
    by (metis prod.exhaust)
  note c = checkpoint_keeps [OF t]
  have pool: "eg_pool s1 = []" using c(1) f(1) by blast
  show ?thesis using f c(2-4) pool n t assms(2,3) by (cases advanced) (simp_all add: trigger_tick_def decide_keeps)
qed

theorem flip_empties_the_pool_witness:
  "\<exists>s1 md1. trigger_tick sample_engine_env quiet_loaders quiet_io (quiet_engine \<lparr> eg_pool := [quiet_entry] \<rparr>, quiet_models) = Inr (s1, md1)
     \<and> eg_pool s1 = [] \<and> ba_randomness (eg_bake s1) = ''ab''"
  using flip_empties_the_pool [of sample_engine_env quiet_io quiet_state "quiet_engine \<lparr> eg_pool := [quiet_entry] \<rparr>" quiet_loaders quiet_models]
  by (auto simp: quiet_env quiet_fields quiet_engine_def new_engine_def)

text \<open>
  An entry of the previous window can be fired in the next. The comment in \<open>_pre_bake_entry\<close> says that the flush drops the entries whose
  randomness has flipped, so that a submission only carries tokens of its own window. An entry whose bake is under way at the flip joins the pool
  afterwards, because the streaming path checks only the checkpoint, and the next burst fires it: here the tokens
  are forced by the randomness \<open>ab\<close> and posted under \<open>cd\<close>.
\<close>

theorem stale_entry_is_fired:
  "let st = quiet_state \<lparr> gs_window_n := 8, gs_randomness := ''cd'', gs_checkpoint_n := 1 \<rparr>;
       s1 = flush_on_flip sample_engine_env st (note_cooldowns sample_engine_env quiet_io st sample_engine) in
   ba_randomness (eg_bake sample_engine) = ''ab'' \<and>
   (\<exists>e. pre_bake_entry endless_bake sample_env 3 3 1 (eg_bake sample_engine) = (eg_bake sample_engine, Inr (Some e))
      \<and> eg_tasks (decide_fire sample_engine_env st (fst (push_entry sample_engine_env e s1))) = [Scheduled st 8]
      \<and> snd (start_fire sample_engine_env st 8 (decide_fire sample_engine_env st (fst (push_entry sample_engine_env e s1)))) = [e])"
proof -
  let ?st = "quiet_state \<lparr> gs_window_n := 8, gs_randomness := ''cd'', gs_checkpoint_n := 1 \<rparr>"
  obtain e where e: "pre_bake_entry endless_bake sample_env 3 3 1 sample_state = (sample_state, Inr (Some e))"
    "pe_checkpoint_n e = 1" "pe_prompt_idx e = 3"
    using endless_entry by (metis new_entry_def pool_entry.select_convs(1,4))
  let ?s1 = "flush_on_flip sample_engine_env ?st (note_cooldowns sample_engine_env quiet_io ?st sample_engine)"
  have b: "eg_bake sample_engine = sample_state" "ba_randomness sample_state = ''ab''" by (simp_all add: sample_engine_def sample_state_def)
  have s1: "eg_pool ?s1 = []" "ba_local_n (eg_bake ?s1) = 1" "eg_tasks ?s1 = []" "eg_submitted_count ?s1 = []"
    by (simp_all add: flush_on_flip_def note_cooldowns_def quiet_env sample_engine_def sample_state_def Let_def)
  have p: "fst (push_entry sample_engine_env e ?s1) = ?s1 \<lparr> eg_pool := [e] \<rparr>" by (simp add: push_entry_def s1 e)
  have d: "decide_fire sample_engine_env ?st (?s1 \<lparr> eg_pool := [e] \<rparr>) = ?s1 \<lparr> eg_pool := [e], eg_tasks := [Scheduled ?st 8] \<rparr>"
    by (simp add: decide_fire_def fire_as_ready_def quiet_env quiet_fields s1 dget_def MAX_SUBMISSIONS_PER_HOTKEY_PER_WINDOW_def)
  have "\<not> stale_entry sample_engine_env ?st e" by (simp add: stale_entry_def quiet_env quiet_fields)
  then have "snd (start_fire sample_engine_env ?st 8 (?s1 \<lparr> eg_pool := [e], eg_tasks := [Scheduled ?st 8] \<rparr>)) = [e]"
    by (simp add: start_fire_def Let_def)
  then show ?thesis using e(1) b p d unfolding Let_def by auto
qed

section \<open>What a burst does to the pool\<close>

lemma submit_keeps_pool: "eg_pool (fst (submit_entry ee st e po s)) = eg_pool s"
  by (auto simp: submit_entry_def Let_def split: sum.split prod.split)

lemma submit_all_results:
  "eg_pool (fst (submit_all ee st fire s)) = eg_pool s \<and> length (snd (submit_all ee st fire s)) = length fire"
proof (induction fire arbitrary: s)
  case (Cons x fire)
  obtain e po where x: "x = (e, po)" by fastforce
  obtain s1 r where s1: "submit_entry ee st e po s = (s1, r)" by fastforce
  obtain s2 rs where "submit_all ee st fire s1 = (s2, rs)" by fastforce
  then show ?case using Cons [of s1] submit_keeps_pool [of ee st e po s] s1 by (simp add: x)
qed simp

lemma filter_zip_takes:
  "length rs = length xs \<Longrightarrow> mset (map fst (filter (\<lambda>(x, r). P r) (zip xs rs))) \<subseteq># mset xs"
  by (induction rs xs rule: list_induct2) (auto intro: subset_mset.order_trans)

text \<open>
  A burst neither invents nor duplicates an entry. It drains the oldest entries of the pool that are not stale, at most
  its budget, and keeps the rest in order; when it ends it puts back some of the entries it drained, once each: the pool after
  the burst together with what it gave up is the live pool before it.
\<close>

theorem burst_conserves_entries:
  assumes "0 \<le> budget" and "start_fire ee st budget s = (s1, fire)" and "map fst posts = fire"
  shows "let live = filter (\<lambda>e. \<not> stale_entry ee st e) (eg_pool s) in
    fire = take (nat budget) live \<and> eg_pool s1 = drop (nat budget) live
    \<and> mset (eg_pool (finish_fire ee st posts s1)) \<subseteq># mset live
    \<and> mset (eg_pool s1) \<subseteq># mset (eg_pool (finish_fire ee st posts s1))"
proof -
  let ?live = "filter (\<lambda>e. \<not> stale_entry ee st e) (eg_pool s)"
  have d: "fire = take (nat budget) ?live" "eg_pool s1 = drop (nat budget) ?live"
    using assms(2) by (auto simp: start_fire_def drain_live [OF assms(1)] Let_def)
  obtain s2 rs where a: "submit_all ee st posts s1 = (s2, rs)" by fastforce
  let ?again = "map fst (filter (\<lambda>(e, r). requeued r) (zip (map fst posts) rs))"
  have f: "eg_pool (finish_fire ee st posts s1) = eg_pool s1 @ ?again" and l: "length rs = length fire"
    using submit_all_results [of ee st posts s1] a assms(3) by (auto simp: finish_fire_def)
  have "mset ?again \<subseteq># mset fire" using filter_zip_takes [OF l, of requeued] assms(3) by simp
  moreover have "mset (drop (nat budget) ?live) + mset fire = mset ?live"
    using d(1) by (metis append_take_drop_id mset_append union_commute)
  ultimately have "mset (eg_pool s1) + mset ?again \<subseteq># mset ?live" using d(2) by (metis mset_subset_eq_mono_add_left_cancel)
  then show ?thesis using d f by (simp add: Let_def)
qed

theorem burst_conserves_entries_witness:
  "let s = quiet_engine \<lparr> eg_pool := [quiet_entry, quiet_entry \<lparr> pe_prompt_idx := 5 \<rparr>] \<rparr> in
   \<exists>s1 fire. start_fire sample_engine_env quiet_state 1 s = (s1, fire) \<and> fire = [quiet_entry]
     \<and> eg_pool s1 = [quiet_entry \<lparr> pe_prompt_idx := 5 \<rparr>]"
proof -
  let ?s = "quiet_engine \<lparr> eg_pool := [quiet_entry, quiet_entry \<lparr> pe_prompt_idx := 5 \<rparr>] \<rparr>"
  obtain s1 fire where f: "start_fire sample_engine_env quiet_state 1 ?s = (s1, fire)" by fastforce
  have live: "\<not> stale_entry sample_engine_env quiet_state e" for e by (simp add: stale_entry_def quiet_env quiet_fields)
  define po where "po = \<lparr> po_round = Inr 1, po_nonce = [], po_dump = (\<lambda>r. []), po_pre = Failed, po_posts = (\<lambda>n. Failed) \<rparr>"
  have "map fst (map (\<lambda>e. (e, po)) fire) = fire" by (simp add: o_def)
  from burst_conserves_entries [OF _ f this] f show ?thesis by (simp add: live Let_def)
qed

text \<open>
  The cooldown that the fire path applies is the first environment's. Prompt numbers are scoped to their environment and the
  trigger loop keeps a cooldown for each, but \<open>_fire_for_window\<close> reads only the state it was scheduled with: with two
  environments it throws away an entry that is in nobody's way and fires one whose prompt its own environment is cooling.
\<close>

theorem burst_reads_one_cooldown:
  "let ee = sample_engine_env \<lparr> ee_active := [''math'', ''code''], ee_envs := (\<lambda>n. sample_env) \<rparr>;
       st = quiet_state \<lparr> gs_cooldown_prompts := [4] \<rparr>;
       io = quiet_io \<lparr> ti_extra := (\<lambda>n. Inr (quiet_state \<lparr> gs_cooldown_prompts := [3] \<rparr>)) \<rparr>;
       free = quiet_entry \<lparr> pe_env_name := Some ''code'', pe_prompt_idx := 4 \<rparr>;
       cooling = quiet_entry \<lparr> pe_env_name := Some ''code'' \<rparr>;
       s = note_cooldowns ee io st (quiet_engine \<lparr> eg_pool := [free, cooling] \<rparr>) in
   cooldown_of s ''code'' = {3} \<and> snd (start_fire ee st 8 s) = [cooling] \<and> eg_pool (fst (start_fire ee st 8 s)) = []"
  by (simp add: note_cooldowns_def cooldown_of_def dget_def start_fire_def stale_entry_def window_range_def active_prompt_range_def
      sample_engine_env_def quiet_state_def sample_poll_state_def quiet_io_def quiet_engine_def new_engine_def quiet_entry_def new_entry_def
      env_of_entry_def dict_of_def Let_def)

end
