(* ===== verification/Dataset.thy ===== *)
theory Dataset
  imports Storage Verifier
begin

text \<open>
  \<open>reliquary/environment/virtual_parquet.py\<close>: the lazy, pinned dataset both sides of the protocol
  read their prompts from. The hub's file system and pyarrow are the parameter \<open>parquet_io\<close>, one
  value per call so that a later call may fail where an earlier one did not; an open
  \<open>ParquetFile\<close> is the path it was opened on. The state is \<open>VirtualParquetDataset\<close>: the manifest
  (absent until the first access), the LRU of fetched row groups and the LRU of open files, each
  an ordered dictionary with the oldest entry first. \<open>get_row\<close> is cut at its lock boundaries
  into the sections of \<open>reader\<close>, so that one thread runs them in sequence and several threads
  interleave them. The lemmas say that every read, in whatever history or interleaving, returns
  the row of the pinned snapshot, and that the caches stay within their bounds.
\<close>

section \<open>State\<close>

record 'r parquet_io =
  pq_ls :: "string \<Rightarrow> string list res"
  pq_footer :: "string \<Rightarrow> nat list res"
  pq_open :: "string \<Rightarrow> unit res"
  pq_read :: "string \<Rightarrow> nat \<Rightarrow> string list option \<Rightarrow> 'r list res"

type_synonym group_key = "nat \<times> nat"

record 'r dataset =
  ds_repo :: string
  ds_revision :: string
  ds_columns :: "string list option"
  ds_data_dir :: string
  ds_cache_cap :: int
  ds_files :: "string list option"
  ds_rg_start :: "nat list option"
  ds_rg_loc :: "group_key list option"
  ds_total :: "nat option"
  ds_cache :: "(group_key, 'r list) dict"
  ds_pf :: "(nat, string) dict"

definition new_dataset :: "string \<Rightarrow> string \<Rightarrow> string list option \<Rightarrow> string \<Rightarrow> int \<Rightarrow> 'r dataset" where
  "new_dataset repo revision columns data_dir cap =
     \<lparr> ds_repo = repo, ds_revision = revision, ds_columns = columns, ds_data_dir = data_dir, ds_cache_cap = cap,
       ds_files = None, ds_rg_start = None, ds_rg_loc = None, ds_total = None, ds_cache = [], ds_pf = [] \<rparr>"

section \<open>The manifest\<close>

definition base_path :: "string \<Rightarrow> string \<Rightarrow> string \<Rightarrow> string" where
  "base_path repo revision data_dir = ''datasets/'' @ repo @ ''@'' @ revision @ ''/'' @ data_dir"

definition base_dir :: "'r dataset \<Rightarrow> string" where
  "base_dir d = base_path (ds_repo d) (ds_revision d) (ds_data_dir d)"

definition parquet_name :: "string \<Rightarrow> bool" where
  "parquet_name p = ends_with ''.parquet'' p"

text \<open>The global start of every row group, its place, and the rows counted so far.\<close>

type_synonym manifest = "nat list \<times> group_key list \<times> nat"

fun scan_groups :: "nat \<Rightarrow> nat \<Rightarrow> nat list \<Rightarrow> manifest \<Rightarrow> manifest" where
  "scan_groups fi rg [] m = m"
| "scan_groups fi rg (n # ns) (starts, locs, seen) =
     scan_groups fi (Suc rg) ns (starts @ [seen], locs @ [(fi, rg)], seen + n)"

fun scan_files :: "'r parquet_io \<Rightarrow> nat \<Rightarrow> string list \<Rightarrow> manifest \<Rightarrow> manifest res" where
  "scan_files io fi [] m = Inr m"
| "scan_files io fi (p # ps) m =
     rbind (pq_footer io p) (\<lambda>ns. scan_files io (Suc fi) ps (scan_groups fi 0 ns m))"

definition ensure_manifest :: "'r parquet_io \<Rightarrow> 'r dataset \<Rightarrow> 'r dataset \<times> unit res" where
  "ensure_manifest io d =
     (case ds_total d of
        Some n \<Rightarrow> (d, Inr ())
      | None \<Rightarrow>
          (case rbind (pq_ls io (base_dir d)) (\<lambda>ps.
                let files = sort (filter parquet_name ps) in
                if files = [] then Inl RuntimeError
                else rbind (scan_files io 0 files ([], [], 0)) (\<lambda>m. Inr (files, m))) of
             Inl e \<Rightarrow> (d, Inl e)
           | Inr (files, starts, locs, seen) \<Rightarrow>
               (d \<lparr> ds_files := Some files, ds_rg_start := Some starts, ds_rg_loc := Some locs, ds_total := Some seen \<rparr>, Inr ())))"

definition dataset_len :: "'r parquet_io \<Rightarrow> 'r dataset \<Rightarrow> 'r dataset \<times> nat res" where
  "dataset_len io d =
     (case ensure_manifest io d of
        (d1, Inl e) \<Rightarrow> (d1, Inl e)
      | (d1, Inr u) \<Rightarrow> (d1, case ds_total d1 of None \<Rightarrow> Inl AssertionError | Some n \<Rightarrow> Inr n))"

section \<open>Ordered dictionaries\<close>

definition move_to_end :: "'k \<Rightarrow> ('k, 'v) dict \<Rightarrow> ('k, 'v) dict" where
  "move_to_end k c = filter (\<lambda>p. fst p \<noteq> k) c @ filter (\<lambda>p. fst p = k) c"

text \<open>
  \<open>while len(c) > cap: c.popitem(last=False)\<close>. Popping an empty dictionary raises, which a
  negative capacity reaches.
\<close>

fun evict :: "int \<Rightarrow> ('k, 'v) dict \<Rightarrow> ('k, 'v) dict \<times> unit res" where
  "evict cap [] = ([], if cap < 0 then Inl KeyError else Inr ())"
| "evict cap (p # c) = (if cap < int (length (p # c)) then evict cap c else (p # c, Inr ()))"

section \<open>Row groups\<close>

text \<open>
  \<open>bisect.bisect_right\<close>: halve \<open>[lo, hi)\<close> until it is empty.
\<close>

function bisect_from :: "nat list \<Rightarrow> nat \<Rightarrow> nat \<Rightarrow> nat \<Rightarrow> nat" where
  "bisect_from a x lo hi =
     (if lo < hi
      then (let mid = (lo + hi) div 2 in
            if x < a ! mid then bisect_from a x lo mid else bisect_from a x (Suc mid) hi)
      else lo)"
  by pat_completeness auto
termination by (relation "measure (\<lambda>(a, x, lo, hi). hi - lo)") auto

declare bisect_from.simps [simp del]

definition bisect_right :: "nat list \<Rightarrow> nat \<Rightarrow> nat" where
  "bisect_right a x = bisect_from a x 0 (length a)"

text \<open>
  \<open>_parquet_file\<close>: a cached handle becomes the newest; a new one is opened, and when five are
  open the oldest is closed. A close that fails is ignored.
\<close>

definition parquet_file :: "'r parquet_io \<Rightarrow> 'r dataset \<Rightarrow> nat \<Rightarrow> 'r dataset \<times> string res" where
  "parquet_file io d fi =
     (case map_of (ds_pf d) fi of
        Some h \<Rightarrow> (d \<lparr> ds_pf := move_to_end fi (ds_pf d) \<rparr>, Inr h)
      | None \<Rightarrow>
          (case ds_files d of
             None \<Rightarrow> (d, Inl AssertionError)
           | Some files \<Rightarrow>
               (case rbind (py_at files (int fi)) (\<lambda>p. rbind (pq_open io p) (\<lambda>u. Inr p)) of
                  Inl e \<Rightarrow> (d, Inl e)
                | Inr h \<Rightarrow>
                    (let pf = dset fi h (ds_pf d) in
                     (d \<lparr> ds_pf := (if 4 < length pf then tl pf else pf) \<rparr>, Inr h)))))"

definition fetch_row_group :: "'r parquet_io \<Rightarrow> 'r dataset \<Rightarrow> group_key \<Rightarrow> 'r dataset \<times> 'r list res" where
  "fetch_row_group io d key =
     (case parquet_file io d (fst key) of
        (d1, Inl e) \<Rightarrow> (d1, Inl e)
      | (d1, Inr h) \<Rightarrow> (d1, pq_read io h (snd key) (ds_columns d1)))"

section \<open>One read, section by section\<close>

text \<open>
  A reader is before the manifest check, before the cache look-up, waiting for the I/O lock
  after a miss, holding that lock to fetch, holding it to store what it fetched, or done. The
  numbers are the row wanted, its group and the group's first row.
\<close>

datatype 'r reader =
    Started int | Ready int | Waiting nat group_key nat | Fetching nat group_key nat
  | Storing nat group_key nat "'r list" | Finished "'r res"

definition look_up :: "'r dataset \<Rightarrow> int \<Rightarrow> 'r dataset \<times> 'r reader" where
  "look_up d i =
     (case (ds_total d, ds_rg_start d, ds_rg_loc d) of
        (Some seen, Some starts, Some locs) \<Rightarrow>
          if seen = 0 then (d, Finished (Inl AssertionError))
          else (let j = nat (i mod int seen); gi = int (bisect_right starts j) - 1 in
                case rbind (py_at locs gi) (\<lambda>key. rbind (py_at starts gi) (\<lambda>st. Inr (key, st))) of
                  Inl e \<Rightarrow> (d, Finished (Inl e))
                | Inr (key, st) \<Rightarrow>
                    (case map_of (ds_cache d) key of
                       Some rows \<Rightarrow> (d \<lparr> ds_cache := move_to_end key (ds_cache d) \<rparr>, Finished (py_at rows (int j - int st)))
                     | None \<Rightarrow> (d, Waiting j key st)))
      | _ \<Rightarrow> (d, Finished (Inl AssertionError)))"

definition store_rows :: "'r dataset \<Rightarrow> group_key \<Rightarrow> 'r list \<Rightarrow> 'r dataset \<times> unit res" where
  "store_rows d key rows =
     (case evict (ds_cache_cap d) (move_to_end key (dset key rows (ds_cache d))) of
        (c, r) \<Rightarrow> (d \<lparr> ds_cache := c \<rparr>, r))"

fun advance :: "'r parquet_io \<Rightarrow> 'r dataset \<times> 'r reader \<Rightarrow> 'r dataset \<times> 'r reader" where
  "advance io (d, Started i) =
     (case ensure_manifest io d of (d1, Inl e) \<Rightarrow> (d1, Finished (Inl e)) | (d1, Inr u) \<Rightarrow> (d1, Ready i))"
| "advance io (d, Ready i) = look_up d i"
| "advance io (d, Waiting j key st) =
     (d, case map_of (ds_cache d) key of
           Some rows \<Rightarrow> Finished (py_at rows (int j - int st))
         | None \<Rightarrow> Fetching j key st)"
| "advance io (d, Fetching j key st) =
     (case fetch_row_group io d key of
        (d1, Inl e) \<Rightarrow> (d1, Finished (Inl e)) | (d1, Inr rows) \<Rightarrow> (d1, Storing j key st rows))"
| "advance io (d, Storing j key st rows) =
     (case store_rows d key rows of
        (d1, Inl e) \<Rightarrow> (d1, Finished (Inl e))
      | (d1, Inr u) \<Rightarrow> (d1, Finished (py_at rows (int j - int st))))"
| "advance io (d, Finished r) = (d, Finished r)"

fun answer :: "'r reader \<Rightarrow> 'r res" where
  "answer (Finished r) = r"
| "answer p = Inl AssertionError"

text \<open>Alone on the dataset, a reader is through after five sections.\<close>

definition get_row :: "'r parquet_io \<Rightarrow> 'r dataset \<Rightarrow> int \<Rightarrow> 'r dataset \<times> 'r res" where
  "get_row io d i = (case (advance io ^^ 5) (d, Started i) of (d1, p) \<Rightarrow> (d1, answer p))"

section \<open>What the search finds\<close>

lemma bisect_from_split:
  assumes "sorted a" and "hi \<le> length a" and "lo \<le> hi"
    and "\<forall>k<lo. a ! k \<le> x" and "\<forall>k. hi \<le> k \<longrightarrow> k < length a \<longrightarrow> x < a ! k"
  shows "let r = bisect_from a x lo hi in
    r \<le> length a \<and> (\<forall>k<r. a ! k \<le> x) \<and> (\<forall>k. r \<le> k \<longrightarrow> k < length a \<longrightarrow> x < a ! k)"
  using assms
proof (induction a x lo hi rule: bisect_from.induct)
  case (1 a x lo hi)
  define mid where "mid = (lo + hi) div 2"
  show ?case
  proof (cases "lo < hi")
    case False
    then show ?thesis using "1.prems" by (subst bisect_from.simps) simp
  next
    case True
    have mid: "lo \<le> mid" "mid < hi" "mid < length a" using True "1.prems"(2) by (auto simp: mid_def)
    show ?thesis
    proof (cases "x < a ! mid")
      case True
      have "\<forall>k. mid \<le> k \<longrightarrow> k < length a \<longrightarrow> x < a ! k"
        using True sorted_nth_mono [OF "1.prems"(1)] by (meson le_less_trans less_le_trans)
      with "1.IH"(1) [OF \<open>lo < hi\<close> mid_def True "1.prems"(1)] mid "1.prems"(4) True \<open>lo < hi\<close>
      show ?thesis by (subst bisect_from.simps) (simp add: Let_def mid_def)
    next
      case False
      have "\<forall>k<Suc mid. a ! k \<le> x"
        using False sorted_nth_mono [OF "1.prems"(1) _ mid(3)] by (metis less_Suc_eq_le linorder_not_less order_trans)
      with "1.IH"(2) [OF \<open>lo < hi\<close> mid_def False "1.prems"(1,2)] mid "1.prems"(5) False \<open>lo < hi\<close>
      show ?thesis by (subst bisect_from.simps) (simp add: Let_def mid_def)
    qed
  qed
qed

lemma bisect_right_split:
  assumes "sorted a"
  shows "bisect_right a x \<le> length a" and "k < bisect_right a x \<Longrightarrow> a ! k \<le> x"
    and "bisect_right a x \<le> k \<Longrightarrow> k < length a \<Longrightarrow> x < a ! k"
  using bisect_from_split [of a "length a" 0 x] assms by (auto simp: bisect_right_def Let_def)

fun starts_from :: "nat \<Rightarrow> nat list \<Rightarrow> nat list" where
  "starts_from t [] = []"
| "starts_from t (n # ns) = t # starts_from (t + n) ns"

fun places :: "nat \<Rightarrow> 'a list list \<Rightarrow> group_key list" where
  "places fi [] = []"
| "places fi (gs # gss) = map (Pair fi) [0..<length gs] @ places (Suc fi) gss"

lemma length_starts_from [simp]: "length (starts_from t ns) = length ns"
  by (induction t ns rule: starts_from.induct) auto

lemma starts_from_nth: "k < length ns \<Longrightarrow> starts_from t ns ! k = t + sum_list (take k ns)"
  by (induction t ns arbitrary: k rule: starts_from.induct) (auto simp: nth_Cons split: nat.split)

lemma starts_from_append: "starts_from t (ms @ ns) = starts_from t ms @ starts_from (t + sum_list ms) ns"
  by (induction t ms rule: starts_from.induct) (auto simp: add.assoc)

lemma sorted_starts_from: "sorted (starts_from t ns)"
proof -
  have "t \<le> s" if "s \<in> set (starts_from t ns)" for s t ns
    using that by (induction t ns rule: starts_from.induct) force+
  then show ?thesis
    by (induction t ns rule: starts_from.induct) (auto intro: le_trans [OF le_add1])
qed

lemma length_places [simp]: "length (places fi gss) = length (concat gss)"
  by (induction fi gss rule: places.induct) auto

lemma places_nth:
  assumes "k < length (concat gss)"
  obtains a b where "places fi gss ! k = (fi + a, b)" "a < length gss" "b < length (gss ! a)"
    "concat gss ! k = gss ! a ! b"
proof -
  have "\<exists>a b. places fi gss ! k = (fi + a, b) \<and> a < length gss \<and> b < length (gss ! a) \<and> concat gss ! k = gss ! a ! b"
    using assms
  proof (induction gss arbitrary: fi k)
    case (Cons gs gss)
    show ?case
    proof (cases "k < length gs")
      case True
      then have "places fi (gs # gss) ! k = (fi + 0, k)" "0 < length (gs # gss)" "concat (gs # gss) ! k = (gs # gss) ! 0 ! k"
        by (simp_all add: nth_append)
      with True show ?thesis by (metis nth_Cons_0)
    next
      case False
      with Cons.prems have "k - length gs < length (concat gss)" by simp
      from Cons.IH [OF this, of "Suc fi"] obtain a b where
        ab: "places (Suc fi) gss ! (k - length gs) = (Suc fi + a, b)" "a < length gss" "b < length (gss ! a)"
          "concat gss ! (k - length gs) = gss ! a ! b" by blast
      with False have "places fi (gs # gss) ! k = (fi + Suc a, b)" "Suc a < length (gs # gss)"
        "b < length ((gs # gss) ! Suc a)" "concat (gs # gss) ! k = (gs # gss) ! Suc a ! b"
        by (simp_all add: nth_append)
      then show ?thesis by blast
    qed
  qed simp
  then show ?thesis using that by blast
qed

lemma concat_nth_split:
  assumes "k < length gs" and "m < length (gs ! k)"
  shows "concat gs ! (sum_list (map length (take k gs)) + m) = gs ! k ! m"
proof -
  have "concat gs = concat (take k gs) @ gs ! k @ concat (drop (Suc k) gs)"
    by (subst id_take_nth_drop [OF assms(1)]) simp
  then show ?thesis using assms(2) by (simp add: length_concat nth_append)
qed

text \<open>
  The group the search picks is the one that holds the row: a group with no rows shares its
  start with the next one and is passed over.
\<close>

lemma locate_group:
  assumes "j < length (concat gs)"
  defines "starts \<equiv> starts_from 0 (map length gs)"
  shows "0 < bisect_right starts j \<and> bisect_right starts j \<le> length gs
    \<and> starts ! (bisect_right starts j - 1) \<le> j
    \<and> j - starts ! (bisect_right starts j - 1) < length (gs ! (bisect_right starts j - 1))
    \<and> concat gs ! j = gs ! (bisect_right starts j - 1) ! (j - starts ! (bisect_right starts j - 1))"
proof -
  note b = bisect_right_split [where a = starts and x = j, OF sorted_starts_from [of 0 "map length gs", folded starts_def]]
  let ?k = "bisect_right starts j - 1"
  have nth: "starts ! k = sum_list (map length (take k gs))" if "k < length gs" for k
    using that by (simp add: starts_def starts_from_nth take_map)
  have gs: "gs \<noteq> []" using assms(1) by auto
  then have "starts ! 0 = 0" using nth [of 0] by simp
  then have pos: "0 < bisect_right starts j"
    using b(3) [of 0] gs by (cases "bisect_right starts j") (auto simp: starts_def)
  have k: "?k < length gs" using b(1) pos by (simp add: starts_def)
  have le: "starts ! ?k \<le> j" using b(2) [of ?k] pos by simp
  have "j < sum_list (map length (take (Suc ?k) gs))"
  proof (cases "Suc ?k < length gs")
    case True
    then show ?thesis using b(3) [of "Suc ?k"] nth [OF True] pos by (simp add: starts_def)
  next
    case False
    then show ?thesis using assms(1) k by (simp add: length_concat)
  qed
  then have m: "j - starts ! ?k < length (gs ! ?k)" using k le nth [OF k] by (simp add: take_Suc_conv_app_nth)
  show ?thesis using concat_nth_split [OF k m] nth [OF k] le m pos b(1) by (simp add: starts_def)
qed

section \<open>The pinned snapshot\<close>

text \<open>
  The files under the base directory at the pinned revision with their row groups, as the
  requested columns show them. \<open>table\<close> is what the dataset stands for: the rows of the parquet
  files in the order of their names.
\<close>

type_synonym 'r snapshot = "(string \<times> 'r list list) list"

definition shards :: "'r snapshot \<Rightarrow> string list" where
  "shards snap = sort (filter parquet_name (map fst snap))"

definition shard_groups :: "'r snapshot \<Rightarrow> 'r list list list" where
  "shard_groups snap = map (\<lambda>p. dget snap p []) (shards snap)"

definition table :: "'r snapshot \<Rightarrow> 'r list" where
  "table snap = concat (concat (shard_groups snap))"

definition group_at :: "'r snapshot \<Rightarrow> group_key \<Rightarrow> 'r list" where
  "group_at snap key = shard_groups snap ! fst key ! snd key"

definition group_exists :: "'r snapshot \<Rightarrow> group_key \<Rightarrow> bool" where
  "group_exists snap key = (fst key < length (shards snap) \<and> snd key < length (shard_groups snap ! fst key))"

text \<open>
  A hub that serves the snapshot: its calls may fail, and may list the files in any order, but
  what they return is the snapshot's. One that also never fails is \<open>answers\<close>.
\<close>

definition serves :: "'r snapshot \<Rightarrow> string \<Rightarrow> string list option \<Rightarrow> 'r parquet_io \<Rightarrow> bool" where
  "serves snap base cols io =
     (distinct (map fst snap)
      \<and> (\<forall>ps. pq_ls io base = Inr ps \<longrightarrow> distinct ps \<and> set ps = fst ` set snap)
      \<and> (\<forall>p\<in>fst ` set snap. \<forall>ns. pq_footer io p = Inr ns \<longrightarrow> ns = map length (dget snap p []))
      \<and> (\<forall>p\<in>fst ` set snap. \<forall>g rows. g < length (dget snap p []) \<longrightarrow> pq_read io p g cols = Inr rows \<longrightarrow> rows = dget snap p [] ! g))"

definition answers :: "'r snapshot \<Rightarrow> string \<Rightarrow> string list option \<Rightarrow> 'r parquet_io \<Rightarrow> bool" where
  "answers snap base cols io =
     (serves snap base cols io \<and> pq_ls io base \<in> range Inr
      \<and> (\<forall>p\<in>fst ` set snap. pq_footer io p \<in> range Inr \<and> pq_open io p \<in> range Inr
          \<and> (\<forall>g<length (dget snap p []). pq_read io p g cols \<in> range Inr)))"

definition manifest_of :: "'r snapshot \<Rightarrow> 'r dataset \<Rightarrow> bool" where
  "manifest_of snap d =
     (ds_files d = Some (shards snap)
      \<and> ds_rg_start d = Some (starts_from 0 (map length (concat (shard_groups snap))))
      \<and> ds_rg_loc d = Some (places 0 (shard_groups snap))
      \<and> ds_total d = Some (length (table snap)))"

definition dataset_ok :: "'r snapshot \<Rightarrow> string \<Rightarrow> string list option \<Rightarrow> 'r dataset \<Rightarrow> bool" where
  "dataset_ok snap base cols d =
     (base_dir d = base \<and> ds_columns d = cols
      \<and> (ds_total d = None \<and> ds_files d = None \<or> manifest_of snap d)
      \<and> dict_ok (ds_cache d) \<and> int (length (ds_cache d)) \<le> max 0 (ds_cache_cap d)
      \<and> (\<forall>(key, rows)\<in>set (ds_cache d). rows = group_at snap key)
      \<and> dict_ok (ds_pf d) \<and> length (ds_pf d) \<le> 4
      \<and> (\<forall>(fi, p)\<in>set (ds_pf d). fi < length (shards snap) \<and> p = shards snap ! fi))"

text \<open>What a reader for row \<open>i\<close> knows at each point.\<close>

definition located :: "'r snapshot \<Rightarrow> int \<Rightarrow> nat \<Rightarrow> group_key \<Rightarrow> nat \<Rightarrow> bool" where
  "located snap i j key st =
     (table snap \<noteq> [] \<and> j = nat (i mod int (length (table snap))) \<and> group_exists snap key
      \<and> st \<le> j \<and> j - st < length (group_at snap key) \<and> table snap ! j = group_at snap key ! (j - st))"

fun reader_ok :: "'r snapshot \<Rightarrow> int \<Rightarrow> 'r reader \<Rightarrow> bool" where
  "reader_ok snap i (Started i') = (i' = i)"
| "reader_ok snap i (Ready i') = (i' = i)"
| "reader_ok snap i (Waiting j key st) = located snap i j key st"
| "reader_ok snap i (Fetching j key st) = located snap i j key st"
| "reader_ok snap i (Storing j key st rows) = (located snap i j key st \<and> rows = group_at snap key)"
| "reader_ok snap i (Finished r) =
     (\<forall>x. r = Inr x \<longrightarrow> table snap \<noteq> [] \<and> x = table snap ! nat (i mod int (length (table snap))))"

text \<open>A reader that has not failed and, once past the manifest, finds one.\<close>

fun unfailed :: "'r dataset \<Rightarrow> 'r reader \<Rightarrow> bool" where
  "unfailed d (Started i) = True"
| "unfailed d (Finished r) = (r \<in> range Inr)"
| "unfailed d p = (ds_total d \<noteq> None)"

fun stage :: "'r reader \<Rightarrow> nat" where
  "stage (Started i) = 5"
| "stage (Ready i) = 4"
| "stage (Waiting j key st) = 3"
| "stage (Fetching j key st) = 2"
| "stage (Storing j key st rows) = 1"
| "stage (Finished r) = 0"

section \<open>Each section keeps the dataset true\<close>

lemma length_shard_groups [simp]: "length (shard_groups snap) = length (shards snap)"
  by (simp add: shard_groups_def)

lemma shard_in_snapshot: "k < length (shards snap) \<Longrightarrow> shards snap ! k \<in> fst ` set snap"
  using nth_mem [of k "shards snap"] by (auto simp: shards_def)

lemma listed_shards:
  assumes "serves snap base cols io" and "pq_ls io base = Inr ps"
  shows "sort (filter parquet_name ps) = shards snap"
proof -
  have "set (sort (filter parquet_name ps)) = set (shards snap)" "distinct (sort (filter parquet_name ps))"
    "distinct (shards snap)"
    using assms by (auto simp: serves_def shards_def distinct_map)
  moreover have "sorted (sort (filter parquet_name ps))" "sorted (shards snap)" by (simp_all add: shards_def)
  ultimately show ?thesis by (metis sorted_distinct_set_unique)
qed

lemma scan_groups_eq:
  "scan_groups fi rg ns (starts, locs, seen) =
     (starts @ starts_from seen ns, locs @ map (Pair fi) [rg..<rg + length ns], seen + sum_list ns)"
proof (induction ns arbitrary: rg starts locs seen)
  case (Cons n ns)
  have "[rg..<rg + length (n # ns)] = rg # [Suc rg..<Suc rg + length ns]" by (subst upt_rec) simp
  then show ?case by (simp only: scan_groups.simps Cons.IH) simp
qed simp

lemma scan_files_eq:
  assumes "\<And>p ns. p \<in> set ps \<Longrightarrow> pq_footer io p = Inr ns \<Longrightarrow> ns = map length (content p)"
    and "scan_files io fi ps (starts, locs, seen) = Inr m"
  shows "m = (starts @ starts_from seen (map length (concat (map content ps))),
              locs @ places fi (map content ps), seen + length (concat (concat (map content ps))))"
  using assms
proof (induction ps arbitrary: fi starts locs seen)
  case (Cons p ps)
  from Cons.prems(2) obtain ns where
    ns: "pq_footer io p = Inr ns" "scan_files io (Suc fi) ps (scan_groups fi 0 ns (starts, locs, seen)) = Inr m"
    by (auto simp: res_simps)
  have "ns = map length (content p)" using Cons.prems(1) [OF _ ns(1)] by simp
  with Cons.IH [OF Cons.prems(1) ns(2) [unfolded scan_groups_eq]]
  show ?case by (simp add: starts_from_append length_concat add.assoc)
qed simp

lemma scan_files_answers:
  assumes "\<And>p. p \<in> set ps \<Longrightarrow> pq_footer io p \<in> range Inr"
  shows "scan_files io fi ps m \<in> range Inr"
  using assms
proof (induction ps arbitrary: fi m)
  case (Cons p ps)
  obtain ns where "pq_footer io p = Inr ns" using Cons.prems [of p] by auto
  then show ?case using Cons.IH Cons.prems by simp
qed simp

lemma set_move_to_end [simp]: "set (move_to_end k c) = set c"
  by (auto simp: move_to_end_def)

lemma length_move_to_end [simp]: "length (move_to_end k c) = length c"
  using sum_length_filter_compl [of "\<lambda>p. fst p \<noteq> k" c] by (simp add: move_to_end_def)

lemma dict_ok_move_to_end [simp]: "dict_ok c \<Longrightarrow> dict_ok (move_to_end k c)"
  by (auto simp: dict_ok_def move_to_end_def distinct_map_filter)

lemma set_dset_sub: "set (dset k v d) \<subseteq> insert (k, v) (set d)"
  by (induction d) auto

lemma length_dset_le: "length (dset k v d) \<le> Suc (length d)"
  by (induction d) auto

lemma evict_ok:
  assumes "evict cap c = (c1, r)"
  shows "set c1 \<subseteq> set c \<and> (dict_ok c \<longrightarrow> dict_ok c1) \<and> int (length c1) \<le> max 0 cap \<and> (0 \<le> cap \<longrightarrow> r = Inr ())"
  using assms by (induction cap c rule: evict.induct) (auto simp: dict_ok_def split: if_splits)

lemma dict_ok_tl: "dict_ok c \<Longrightarrow> dict_ok (tl c)"
  by (cases c) (auto simp: dict_ok_def)

lemma ensure_manifest_ok:
  assumes ok: "dataset_ok snap base cols d" and io: "serves snap base cols io"
    and run: "ensure_manifest io d = (d1, r)"
  shows "dataset_ok snap base cols d1 \<and> (r = Inr () \<longrightarrow> ds_total d1 \<noteq> None) \<and> ds_cache_cap d1 = ds_cache_cap d"
proof (cases "ds_total d")
  case (Some n)
  then show ?thesis using run ok by (auto simp: ensure_manifest_def)
next
  case None
  have base: "base_dir d = base" using ok by (simp add: dataset_ok_def)
  show ?thesis
  proof (cases r)
    case (Inl e)
    then have "d1 = d" using run None by (auto simp: ensure_manifest_def split: sum.splits)
    then show ?thesis using ok Inl by simp
  next
    case (Inr u)
    from run None Inr obtain ps starts locs seen where
      ps: "pq_ls io base = Inr ps"
      and scan: "scan_files io 0 (sort (filter parquet_name ps)) ([], [], 0) = Inr (starts, locs, seen)"
      and d1: "d1 = d \<lparr> ds_files := Some (sort (filter parquet_name ps)), ds_rg_start := Some starts,
          ds_rg_loc := Some locs, ds_total := Some seen \<rparr>"
      unfolding ensure_manifest_def base by (auto simp: res_simps Let_def split: sum.splits if_splits)
    note files = listed_shards [OF io ps]
    have "ns = map length (dget snap p [])" if "p \<in> set (shards snap)" "pq_footer io p = Inr ns" for p ns
      using io that by (auto simp: serves_def shards_def)
    from scan_files_eq [OF this scan [unfolded files]] have "manifest_of snap d1"
      by (simp add: manifest_of_def d1 files shard_groups_def table_def)
    moreover have "dataset_ok snap base cols d1" if "manifest_of snap d1"
      using ok that by (simp add: dataset_ok_def d1 base_dir_def)
    ultimately show ?thesis by (simp add: manifest_of_def) (simp add: d1)
  qed
qed

lemma ensure_manifest_answers:
  assumes ok: "dataset_ok snap base cols d" and io: "answers snap base cols io" and "table snap \<noteq> []"
  shows "snd (ensure_manifest io d) = Inr ()"
proof (cases "ds_total d")
  case None
  have base: "base_dir d = base" using ok by (simp add: dataset_ok_def)
  obtain ps where ps: "pq_ls io base = Inr ps" using io by (auto simp: answers_def)
  note files = listed_shards [OF _ ps, of snap cols]
  have "serves snap base cols io" using io by (simp add: answers_def)
  then have files: "sort (filter parquet_name ps) = shards snap" by (rule files)
  have "shards snap \<noteq> []" using assms(3) by (auto simp: table_def shard_groups_def)
  moreover have "scan_files io 0 (shards snap) ([], [], 0) \<in> range Inr"
    by (rule scan_files_answers) (use io in \<open>auto simp: answers_def shards_def\<close>)
  ultimately show ?thesis using None
    by (auto simp: ensure_manifest_def base ps files Let_def)
qed (simp add: ensure_manifest_def)

lemma parquet_file_ok:
  assumes ok: "dataset_ok snap base cols d" and fi: "fi < length (shards snap)"
    and run: "parquet_file io d fi = (d1, r)"
  shows "dataset_ok snap base cols d1 \<and> ds_total d1 = ds_total d \<and> ds_cache_cap d1 = ds_cache_cap d
    \<and> (\<forall>h. r = Inr h \<longrightarrow> h = shards snap ! fi)
    \<and> (ds_total d \<noteq> None \<longrightarrow> pq_open io (shards snap ! fi) \<in> range Inr \<longrightarrow> r \<in> range Inr)"
proof (cases "map_of (ds_pf d) fi")
  case (Some h)
  then have "h = shards snap ! fi" using ok by (auto simp: dataset_ok_def dest!: map_of_SomeD)
  moreover have "d1 = d \<lparr> ds_pf := move_to_end fi (ds_pf d) \<rparr>" "r = Inr h" using run Some by (auto simp: parquet_file_def)
  ultimately show ?thesis using ok by (auto simp: dataset_ok_def base_dir_def manifest_of_def)
next
  case None
  have files: "ds_files d = Some (shards snap)" if "ds_total d \<noteq> None"
    using ok that by (auto simp: dataset_ok_def manifest_of_def)
  show ?thesis
  proof (cases r)
    case (Inl e)
    then have "d1 = d" using run None by (auto simp: parquet_file_def Let_def split: option.splits sum.splits)
    moreover have "r \<in> range Inr" if "ds_total d \<noteq> None" "pq_open io (shards snap ! fi) \<in> range Inr"
      using run None files [OF that(1)] that(2) fi by (auto simp: parquet_file_def py_at_Inr Let_def)
    ultimately show ?thesis using ok Inl by auto
  next
    case (Inr h)
    with run None have ds: "ds_total d \<noteq> None"
      using ok by (auto simp: dataset_ok_def parquet_file_def manifest_of_def)
    from run None Inr files [OF ds] have h: "h = shards snap ! fi"
      and d1: "d1 = d \<lparr> ds_pf := (let pf = dset fi h (ds_pf d) in if 4 < length pf then tl pf else pf) \<rparr>"
      using fi by (auto simp: parquet_file_def Let_def res_simps py_at_Inr split: sum.splits if_splits)
    let ?pf = "dset fi h (ds_pf d)" and ?pf1 = "let pf = dset fi h (ds_pf d) in if 4 < length pf then tl pf else pf"
    have sub: "set ?pf1 \<subseteq> insert (fi, h) (set (ds_pf d))"
      using set_dset_sub [of fi h "ds_pf d"] list.set_sel(2) [of ?pf] by (cases ?pf) (auto simp: Let_def)
    have len: "length ?pf1 \<le> 4" "dict_ok ?pf1"
      using ok length_dset_le [of fi h "ds_pf d"] by (auto simp: dataset_ok_def Let_def dict_ok_tl)
    have "dataset_ok snap base cols d1"
      using ok sub len h fi unfolding dataset_ok_def d1 by (auto simp: base_dir_def manifest_of_def)
    then show ?thesis using Inr h by (simp add: d1)
  qed
qed

lemma look_up_locates:
  fixes i :: int
  assumes m: "manifest_of snap d" and ne: "table snap \<noteq> []"
  defines "j \<equiv> nat (i mod int (length (table snap)))"
  obtains key st where "located snap i j key st"
    and "look_up d i = (case map_of (ds_cache d) key of
           Some rows \<Rightarrow> (d \<lparr> ds_cache := move_to_end key (ds_cache d) \<rparr>, Finished (py_at rows (int j - int st)))
         | None \<Rightarrow> (d, Waiting j key st))"
proof -
  let ?gs = "concat (shard_groups snap)" and ?locs = "places 0 (shard_groups snap)"
  let ?starts = "starts_from 0 (map length ?gs)"
  have j: "j < length (concat ?gs)" using ne by (simp add: j_def nat_less_iff flip: table_def)
  define k where "k = bisect_right ?starts j - 1"
  note loc = locate_group [OF j, folded k_def]
  then have k: "k < length ?gs" and k': "int (bisect_right ?starts j) - 1 = int k" by (auto simp: k_def)
  obtain a b where ab: "?locs ! k = (a, b)" "a < length (shard_groups snap)" "b < length (shard_groups snap ! a)"
      "?gs ! k = shard_groups snap ! a ! b"
    using places_nth [OF k, of 0] by auto
  have "located snap i j (a, b) (?starts ! k)"
    using loc ab ne by (simp add: located_def group_exists_def group_at_def table_def j_def)
  moreover have at: "py_at ?locs (int k) = Inr (a, b)" "py_at ?starts (int k) = Inr (?starts ! k)"
    using k ab(1) by (simp_all add: py_at_Inr)
  ultimately show ?thesis
    using that [of "(a, b)" "?starts ! k"] m ne k'
    by (simp add: look_up_def manifest_of_def Let_def flip: j_def)
qed

lemma located_item: "located snap i j key st \<Longrightarrow> py_at (group_at snap key) (int j - int st) = Inr (table snap ! j)"
proof -
  assume loc: "located snap i j key st"
  then have "st \<le> j" and m: "j - st < length (group_at snap key)" "table snap ! j = group_at snap key ! (j - st)"
    unfolding located_def by blast+
  then have diff: "int j - int st = int (j - st)" by simp
  show ?thesis unfolding diff using m by (simp add: py_at_def)
qed

lemma located_answer: "located snap i j key st \<Longrightarrow> reader_ok snap i (Finished (py_at (group_at snap key) (int j - int st)))"
  by (simp add: located_item) (simp add: located_def)

lemma cached_group: "dataset_ok snap base cols d \<Longrightarrow> map_of (ds_cache d) key = Some rows \<Longrightarrow> rows = group_at snap key"
  by (auto simp: dataset_ok_def dest!: map_of_SomeD)

lemma touched_ok: "dataset_ok snap base cols d \<Longrightarrow> dataset_ok snap base cols (d \<lparr> ds_cache := move_to_end key (ds_cache d) \<rparr>)"
  by (auto simp: dataset_ok_def base_dir_def manifest_of_def)

lemma store_rows_ok:
  assumes ok: "dataset_ok snap base cols d" and run: "store_rows d key (group_at snap key) = (d1, r)"
  shows "dataset_ok snap base cols d1 \<and> ds_total d1 = ds_total d \<and> ds_cache_cap d1 = ds_cache_cap d \<and> (0 \<le> ds_cache_cap d \<longrightarrow> r = Inr ())"
proof -
  obtain c where c: "evict (ds_cache_cap d) (move_to_end key (dset key (group_at snap key) (ds_cache d))) = (c, r)"
    and d1: "d1 = d \<lparr> ds_cache := c \<rparr>"
    using run by (auto simp: store_rows_def split: prod.splits)
  from evict_ok [OF c] have "set c \<subseteq> insert (key, group_at snap key) (set (ds_cache d))" "dict_ok c"
    "int (length c) \<le> max 0 (ds_cache_cap d)" "0 \<le> ds_cache_cap d \<longrightarrow> r = Inr ()"
    using ok set_dset_sub [of key "group_at snap key" "ds_cache d"] by (auto simp: dataset_ok_def)
  then show ?thesis using ok unfolding d1 dataset_ok_def by (auto simp: base_dir_def manifest_of_def)
qed

lemma fetched_group:
  assumes ok: "dataset_ok snap base cols d" and key: "group_exists snap key"
    and run: "fetch_row_group io d key = (d1, r)"
  shows "dataset_ok snap base cols d1 \<and> ds_total d1 = ds_total d \<and> ds_cache_cap d1 = ds_cache_cap d
    \<and> (serves snap base cols io \<longrightarrow> (\<forall>rows. r = Inr rows \<longrightarrow> rows = group_at snap key))
    \<and> (answers snap base cols io \<longrightarrow> ds_total d \<noteq> None \<longrightarrow> r \<in> range Inr)"
proof -
  let ?p = "shards snap ! fst key"
  have fi: "fst key < length (shards snap)" using key by (simp add: group_exists_def)
  obtain o' where op: "parquet_file io d (fst key) = (d1, o')"
    and r: "r = rbind o' (\<lambda>h. pq_read io h (snd key) cols)"
  proof -
    obtain d' o' where *: "parquet_file io d (fst key) = (d', o')" by fastforce
    then have "ds_columns d' = cols" using parquet_file_ok [OF ok fi *] by (auto simp: dataset_ok_def)
    with that * run show ?thesis by (auto simp: fetch_row_group_def split: sum.splits)
  qed
  have in_snap: "?p \<in> fst ` set snap" using fi by (rule shard_in_snapshot)
  have g: "snd key < length (dget snap ?p [])" "group_at snap key = dget snap ?p [] ! snd key"
    using key fi by (auto simp: group_exists_def group_at_def shard_groups_def)
  have rows: "rows = group_at snap key" if "serves snap base cols io" "pq_read io ?p (snd key) cols = Inr rows" for rows
    using that in_snap g by (auto simp: serves_def)
  have "pq_read io ?p (snd key) cols \<in> range Inr" "pq_open io ?p \<in> range Inr" if "answers snap base cols io"
    using that in_snap g(1) by (auto simp: answers_def)
  with parquet_file_ok [OF ok fi op] rows show ?thesis by (auto simp: r res_simps)
qed

text \<open>The two lemmas every claim about reading rests on: a section keeps what is true, and goes on if the hub answers.\<close>

lemma advance_ok:
  assumes ok: "dataset_ok snap base cols d" and io: "serves snap base cols io"
    and p: "reader_ok snap i p" and run: "advance io (d, p) = (d1, p1)"
  shows "dataset_ok snap base cols d1 \<and> reader_ok snap i p1 \<and> ds_cache_cap d1 = ds_cache_cap d
    \<and> (ds_total d \<noteq> None \<longrightarrow> ds_total d1 \<noteq> None)"
proof (cases p)
  case (Started i')
  then obtain r where r: "ensure_manifest io d = (d1, r)" "p1 = (case r of Inl e \<Rightarrow> Finished (Inl e) | Inr u \<Rightarrow> Ready i)"
    using run p by (cases "ensure_manifest io d") (auto split: sum.splits)
  then show ?thesis using ensure_manifest_ok [OF ok io r(1)]
    by (cases "ds_total d") (auto simp: ensure_manifest_def split: sum.splits)
next
  case (Ready i')
  then have look: "look_up d i = (d1, p1)" using run p by simp
  show ?thesis
  proof (cases "manifest_of snap d \<and> table snap \<noteq> []")
    case True
    then have m: "manifest_of snap d" and ne: "table snap \<noteq> []" by auto
    define j where "j = nat (i mod int (length (table snap)))"
    obtain key st where loc: "located snap i j key st"
      and eq: "look_up d i = (case map_of (ds_cache d) key of
           Some rows \<Rightarrow> (d \<lparr> ds_cache := move_to_end key (ds_cache d) \<rparr>, Finished (py_at rows (int j - int st)))
         | None \<Rightarrow> (d, Waiting j key st))"
      using look_up_locates [OF m ne, of i] unfolding j_def .
    show ?thesis
    proof (cases "map_of (ds_cache d) key")
      case None
      then show ?thesis using eq look loc ok by auto
    next
      case (Some rows)
      with look eq have "d1 = d \<lparr> ds_cache := move_to_end key (ds_cache d) \<rparr>"
        "p1 = Finished (py_at (group_at snap key) (int j - int st))"
        using cached_group [OF ok Some] by auto
      then show ?thesis using touched_ok [OF ok, of key] located_answer [OF loc] by (simp del: reader_ok.simps)
    qed
  next
    case False
    with ok consider "ds_total d = None" | "ds_total d = Some 0"
      by (auto simp: dataset_ok_def manifest_of_def)
    then have "d1 = d \<and> p1 = Finished (Inl AssertionError)"
      using look by cases (auto simp: look_up_def split: option.splits)
    then show ?thesis using ok by auto
  qed
next
  case (Waiting j key st)
  then have loc: "located snap i j key st" using p by simp
  show ?thesis
  proof (cases "map_of (ds_cache d) key")
    case None
    then show ?thesis using run ok loc Waiting by auto
  next
    case (Some rows)
    then have "d1 = d" "p1 = Finished (py_at (group_at snap key) (int j - int st))"
      using run Waiting cached_group [OF ok Some] by auto
    then show ?thesis using ok located_answer [OF loc] by (simp del: reader_ok.simps)
  qed
next
  case (Fetching j key st)
  obtain r where r: "fetch_row_group io d key = (d1, r)" "p1 = (case r of Inl e \<Rightarrow> Finished (Inl e) | Inr rows \<Rightarrow> Storing j key st rows)"
    using run Fetching by (cases "fetch_row_group io d key") (auto split: sum.splits)
  have "group_exists snap key" using p Fetching by (simp add: located_def)
  from fetched_group [OF ok this r(1)] io p Fetching show ?thesis by (auto simp: r(2) split: sum.splits)
next
  case (Storing j key st rows)
  obtain r where r: "store_rows d key rows = (d1, r)"
    "p1 = (case r of Inl e \<Rightarrow> Finished (Inl e) | Inr u \<Rightarrow> Finished (py_at rows (int j - int st)))"
    using run Storing by (cases "store_rows d key rows") (auto split: sum.splits)
  have rows: "rows = group_at snap key" and loc: "located snap i j key st" using p Storing by simp_all
  have "reader_ok snap i p1" using located_answer [OF loc] by (cases r) (simp_all add: r(2) rows del: reader_ok.simps, simp)
  with store_rows_ok [OF ok r(1) [unfolded rows]] show ?thesis by simp
next
  case (Finished r)
  then show ?thesis using run p ok by auto
qed

lemma advance_goes_on:
  assumes ok: "dataset_ok snap base cols d" and io: "answers snap base cols io" and ne: "table snap \<noteq> []"
    and cap: "0 \<le> ds_cache_cap d" and p: "reader_ok snap i p" "unfailed d p"
    and run: "advance io (d, p) = (d1, p1)"
  shows "unfailed d1 p1"
proof -
  have serves: "serves snap base cols io" using io by (simp add: answers_def)
  have set: "ds_total d1 \<noteq> None" if "ds_total d \<noteq> None" using advance_ok [OF ok serves p(1) run] that by simp
  show ?thesis
  proof (cases p)
    case (Started i')
    have "snd (ensure_manifest io d) = Inr ()" by (rule ensure_manifest_answers [OF ok io ne])
    then have "ensure_manifest io d = (d1, Inr ())" "p1 = Ready i'"
      using run Started by (cases "ensure_manifest io d"; simp)+
    with ensure_manifest_ok [OF ok serves this(1)] show ?thesis by simp
  next
    case (Ready i')
    then have look: "look_up d i = (d1, p1)" and "ds_total d \<noteq> None" using run p by simp_all
    then have m: "manifest_of snap d" using ok by (auto simp: dataset_ok_def)
    define j where "j = nat (i mod int (length (table snap)))"
    obtain key st where loc: "located snap i j key st"
      and eq: "look_up d i = (case map_of (ds_cache d) key of
           Some rows \<Rightarrow> (d \<lparr> ds_cache := move_to_end key (ds_cache d) \<rparr>, Finished (py_at rows (int j - int st)))
         | None \<Rightarrow> (d, Waiting j key st))"
      using look_up_locates [OF m ne, of i] unfolding j_def .
    show ?thesis
    proof (cases "map_of (ds_cache d) key")
      case None
      then show ?thesis using eq look m by (auto simp: manifest_of_def)
    next
      case (Some rows)
      then have "p1 = Finished (py_at (group_at snap key) (int j - int st))"
        using eq look cached_group [OF ok Some] by auto
      then show ?thesis by (simp add: located_item [OF loc])
    qed
  next
    case (Waiting j key st)
    then have loc: "located snap i j key st" using p by simp
    show ?thesis
    proof (cases "map_of (ds_cache d) key")
      case None
      then show ?thesis using run Waiting p by auto
    next
      case (Some rows)
      then have "p1 = Finished (py_at (group_at snap key) (int j - int st))"
        using run Waiting cached_group [OF ok Some] by auto
      then show ?thesis by (simp add: located_item [OF loc])
    qed
  next
    case (Fetching j key st)
    obtain r where r: "fetch_row_group io d key = (d1, r)" "p1 = (case r of Inl e \<Rightarrow> Finished (Inl e) | Inr rows \<Rightarrow> Storing j key st rows)"
      using run Fetching by (cases "fetch_row_group io d key") (auto split: sum.splits)
    have "group_exists snap key" using p Fetching by (simp add: located_def)
    from fetched_group [OF ok this r(1)] io p Fetching show ?thesis by (auto simp: r(2) split: sum.splits)
  next
    case (Storing j key st rows)
    have rows: "rows = group_at snap key" and loc: "located snap i j key st" using p Storing by simp_all
    obtain r where r: "store_rows d key rows = (d1, r)"
      "p1 = (case r of Inl e \<Rightarrow> Finished (Inl e) | Inr u \<Rightarrow> Finished (py_at rows (int j - int st)))"
      using run Storing by (cases "store_rows d key rows") (auto split: sum.splits)
    then have "r = Inr ()" using store_rows_ok [OF ok r(1) [unfolded rows]] cap by simp
    then show ?thesis by (simp add: r(2) rows located_item [OF loc])
  next
    case (Finished r)
    then show ?thesis using run p by simp
  qed
qed

lemma stage_decreases: "advance io (d, p) = (d1, p1) \<Longrightarrow> stage p1 \<le> stage p - 1"
  by (cases p) (auto simp: look_up_def Let_def split: sum.splits option.splits if_splits prod.splits)

lemma stage_zero: "stage p = 0 \<Longrightarrow> \<exists>r. p = Finished r"
  by (cases p) auto

lemma advances_ok:
  assumes "dataset_ok snap base cols d" and "serves snap base cols io" and "reader_ok snap i p"
    and "(advance io ^^ n) (d, p) = (d1, p1)"
  shows "dataset_ok snap base cols d1 \<and> reader_ok snap i p1 \<and> ds_cache_cap d1 = ds_cache_cap d \<and> stage p1 \<le> stage p - n
    \<and> (answers snap base cols io \<longrightarrow> table snap \<noteq> [] \<longrightarrow> 0 \<le> ds_cache_cap d \<longrightarrow> unfailed d p \<longrightarrow> unfailed d1 p1)"
  using assms(4)
proof (induction n arbitrary: d1 p1)
  case 0
  then show ?case using assms by simp
next
  case (Suc n)
  obtain d2 p2 where s: "(advance io ^^ n) (d, p) = (d2, p2)" "advance io (d2, p2) = (d1, p1)"
    using Suc.prems by (cases "(advance io ^^ n) (d, p)") auto
  note IH = Suc.IH [OF s(1)]
  then have ok: "dataset_ok snap base cols d2" "reader_ok snap i p2" by simp_all
  from advance_ok [OF ok(1) assms(2) ok(2) s(2)] stage_decreases [OF s(2)] advance_goes_on [OF ok(1) _ _ _ ok(2) _ s(2)] IH
  show ?case by auto
qed

lemma get_row_ok:
  assumes "dataset_ok snap base cols d" and "serves snap base cols io" and "get_row io d i = (d1, r)"
  shows "dataset_ok snap base cols d1 \<and> reader_ok snap i (Finished r) \<and> ds_cache_cap d1 = ds_cache_cap d
    \<and> (answers snap base cols io \<longrightarrow> table snap \<noteq> [] \<longrightarrow> 0 \<le> ds_cache_cap d \<longrightarrow> r \<in> range Inr)"
proof -
  obtain p where p: "(advance io ^^ 5) (d, Started i) = (d1, p)" and r: "r = answer p"
    using assms(3) by (cases "(advance io ^^ 5) (d, Started i)") (auto simp: get_row_def)
  note ok = advances_ok [OF assms(1,2) _ p, of i]
  then have "stage p = 0" by simp
  then obtain r' where "p = Finished r'" using stage_zero by blast
  with ok r show ?thesis by (auto simp del: funpow.simps)
qed

section \<open>The interface the environments rely on\<close>

text \<open>
  A source of rows with a state: its length and its rows are those of a fixed list whatever
  has been asked before, and an index wraps around the length. A client's lemma about one
  source compares two sides that hold different states.
\<close>

locale row_source =
  fixes read :: "'io \<Rightarrow> 's \<Rightarrow> int \<Rightarrow> 's \<times> 'r res"
    and size_of :: "'io \<Rightarrow> 's \<Rightarrow> 's \<times> nat res"
    and fits :: "'s \<Rightarrow> bool"
    and honest :: "'io \<Rightarrow> bool"
    and rows :: "'r list"
  assumes read_fits: "fits s \<Longrightarrow> honest io \<Longrightarrow> fits (fst (read io s i))"
    and read_row: "fits s \<Longrightarrow> honest io \<Longrightarrow> snd (read io s i) = Inr r
      \<Longrightarrow> rows \<noteq> [] \<and> r = rows ! nat (i mod int (length rows))"
    and size_fits: "fits s \<Longrightarrow> honest io \<Longrightarrow> fits (fst (size_of io s))"
    and size_rows: "fits s \<Longrightarrow> honest io \<Longrightarrow> snd (size_of io s) = Inr n \<Longrightarrow> n = length rows"
begin

lemma same_row:
  assumes "fits s" and "fits t" and "honest io" and "honest io'"
    and "snd (read io s i) = Inr r" and "snd (read io' t i') = Inr r'"
    and "i mod int (length rows) = i' mod int (length rows)"
  shows "r = r'"
  using read_row [OF assms(1,3,5)] read_row [OF assms(2,4,6)] assms(7) by simp

text \<open>The length first and then the wrapped index, as the environments look a problem up.\<close>

lemma wrapped_read:
  assumes s: "fits s" and io: "honest io" and n: "size_of io s = (s1, Inr n)" and r: "read io s1 (i mod int n) = (s2, Inr r)"
  shows "fits s2 \<and> rows \<noteq> [] \<and> r = rows ! nat (i mod int (length rows))"
proof -
  have s1: "fits s1" "n = length rows" using size_fits [OF s io] size_rows [OF s io] n by simp_all
  with read_fits [OF s1(1) io, of "i mod int n"] read_row [OF s1(1) io, of "i mod int n" r] r
  show ?thesis by simp
qed

end

lemma dataset_len_ok:
  assumes "dataset_ok snap base cols d" and "serves snap base cols io" and "dataset_len io d = (d1, r)"
  shows "dataset_ok snap base cols d1 \<and> (\<forall>n. r = Inr n \<longrightarrow> n = length (table snap))"
proof -
  obtain r1 where r1: "ensure_manifest io d = (d1, r1)"
    "r = (case r1 of Inl e \<Rightarrow> Inl e | Inr u \<Rightarrow> (case ds_total d1 of None \<Rightarrow> Inl AssertionError | Some n \<Rightarrow> Inr n))"
    using assms(3) by (cases "ensure_manifest io d") (auto simp: dataset_len_def split: sum.splits)
  from ensure_manifest_ok [OF assms(1,2) r1(1)] show ?thesis
    by (auto simp: r1(2) dataset_ok_def manifest_of_def split: sum.splits option.splits)
qed

interpretation rows: row_source get_row dataset_len "dataset_ok snap base cols" "serves snap base cols" "table snap"
  for snap :: "'r snapshot" and base cols
proof
  fix d :: "'r dataset" and io i
  assume ok: "dataset_ok snap base cols d" "serves snap base cols io"
  show "dataset_ok snap base cols (fst (get_row io d i))"
    using get_row_ok [OF ok, of i] by (cases "get_row io d i") auto
  show "table snap \<noteq> [] \<and> r = table snap ! nat (i mod int (length (table snap)))" if "snd (get_row io d i) = Inr r" for r
    using get_row_ok [OF ok, of i] that by (cases "get_row io d i") auto
  show "dataset_ok snap base cols (fst (dataset_len io d))"
    using dataset_len_ok [OF ok] by (cases "dataset_len io d") auto
  show "n = length (table snap)" if "snd (dataset_len io d) = Inr n" for n
    using dataset_len_ok [OF ok] that by (cases "dataset_len io d") auto
qed

section \<open>Histories and interleavings\<close>

fun read_all :: "'r dataset \<Rightarrow> ('r parquet_io \<times> int) list \<Rightarrow> 'r dataset \<times> 'r res list" where
  "read_all d [] = (d, [])"
| "read_all d ((io, i) # qs) =
     (case get_row io d i of (d1, r) \<Rightarrow> (case read_all d1 qs of (d2, rs) \<Rightarrow> (d2, r # rs)))"

text \<open>
  Threads on one dataset: a turn runs one section of one thread. The sections that build the
  manifest or enter the fetch wait for the I/O lock, which the thread that fetches and stores
  holds between its turns.
\<close>

fun holds_io :: "'r reader \<Rightarrow> bool" where
  "holds_io (Fetching j key st) = True"
| "holds_io (Storing j key st rows) = True"
| "holds_io p = False"

fun needs_io :: "'r dataset \<Rightarrow> 'r reader \<Rightarrow> bool" where
  "needs_io d (Started i) = (ds_total d = None)"
| "needs_io d (Waiting j key st) = True"
| "needs_io d p = False"

inductive reads_step :: "('r parquet_io \<Rightarrow> bool) \<Rightarrow> 'r dataset \<times> (int \<times> 'r reader) list \<Rightarrow> 'r dataset \<times> (int \<times> 'r reader) list \<Rightarrow> bool"
  for hub where
  turn: "reads_step hub (d, ps) (d1, ps[k := (fst (ps ! k), p1)])"
    if "hub io" and "k < length ps" and "stage (snd (ps ! k)) \<noteq> 0"
      and "needs_io d (snd (ps ! k)) \<longrightarrow> (\<forall>p\<in>set ps. \<not> holds_io (snd p))"
      and "advance io (d, snd (ps ! k)) = (d1, p1)"

inductive_cases reads_stepE: "reads_step hub (d, ps) (d1, ps1)"

definition fresh_readers :: "int list \<Rightarrow> (int \<times> 'r reader) list" where
  "fresh_readers is = map (\<lambda>i. (i, Started i)) is"

definition readers_ok :: "'r snapshot \<Rightarrow> string \<Rightarrow> string list option \<Rightarrow> int list \<Rightarrow> 'r dataset \<times> (int \<times> 'r reader) list \<Rightarrow> bool" where
  "readers_ok snap base cols is s =
     (dataset_ok snap base cols (fst s) \<and> map fst (snd s) = is
      \<and> (\<forall>(i, p)\<in>set (snd s). reader_ok snap i p)
      \<and> (\<forall>a<length (snd s). \<forall>b<length (snd s). holds_io (snd (snd s ! a)) \<longrightarrow> holds_io (snd (snd s ! b)) \<longrightarrow> a = b))"

lemma advance_takes_lock: "advance io (d, p) = (d1, p1) \<Longrightarrow> holds_io p1 \<Longrightarrow> holds_io p \<or> needs_io d p"
  by (cases p) (auto simp: look_up_def Let_def split: sum.splits option.splits if_splits prod.splits)

lemma readers_step:
  assumes "reads_step (serves snap base cols) (d, ps) (d1, ps1)" and "readers_ok snap base cols is (d, ps)"
  shows "readers_ok snap base cols is (d1, ps1) \<and> ds_cache_cap d1 = ds_cache_cap d
    \<and> sum_list (map (stage \<circ> snd) ps1) < sum_list (map (stage \<circ> snd) ps)"
proof -
  from assms(1) obtain io k p1 where ps1: "ps1 = ps[k := (fst (ps ! k), p1)]" and io: "serves snap base cols io"
    and k: "k < length ps" and live: "stage (snd (ps ! k)) \<noteq> 0"
    and lock: "needs_io d (snd (ps ! k)) \<longrightarrow> (\<forall>p\<in>set ps. \<not> holds_io (snd p))"
    and run: "advance io (d, snd (ps ! k)) = (d1, p1)"
    by (elim reads_stepE) blast
  have ok: "dataset_ok snap base cols d" and p: "reader_ok snap (fst (ps ! k)) (snd (ps ! k))" and fsts: "map fst ps = is"
    and one: "\<And>a b. a < length ps \<Longrightarrow> b < length ps \<Longrightarrow> holds_io (snd (ps ! a)) \<Longrightarrow> holds_io (snd (ps ! b)) \<Longrightarrow> a = b"
    using assms(2) nth_mem [OF k] unfolding readers_ok_def by (auto simp: case_prod_unfold)
  note adv = advance_ok [OF ok io p run]
  have "map fst ps1 = is" using ps1 fsts k by (simp add: map_update) (metis list_update_id nth_map)
  moreover have "\<forall>(i, p)\<in>set ps. reader_ok snap i p" using assms(2) by (simp add: readers_ok_def)
  then have "\<forall>(i, p)\<in>set ps1. reader_ok snap i p"
    using adv set_update_subset_insert [of ps k "(fst (ps ! k), p1)"] unfolding ps1 by blast
  moreover have "a = b" if "a < length ps1" "b < length ps1" "holds_io (snd (ps1 ! a))" "holds_io (snd (ps1 ! b))" for a b
    using that one ps1 lock k advance_takes_lock [OF run] by (auto simp: nth_list_update split: if_splits)
  ultimately have "readers_ok snap base cols is (d1, ps1)" using adv by (auto simp: readers_ok_def)
  moreover have "stage p1 < stage (snd (ps ! k))" using stage_decreases [OF run] live by simp
  then have "sum_list (map (stage \<circ> snd) ps1) < sum_list (map (stage \<circ> snd) ps)"
    using k ps1 member_le_sum_list [of "stage (snd (ps ! k))" "map (stage \<circ> snd) ps"]
    by (simp add: map_update sum_list_update)
  ultimately show ?thesis using adv by simp
qed

lemma readers_run:
  assumes "(reads_step (serves snap base cols) ^^ n) (d, ps) (d1, ps1)" and "readers_ok snap base cols is (d, ps)"
  shows "readers_ok snap base cols is (d1, ps1) \<and> ds_cache_cap d1 = ds_cache_cap d
    \<and> sum_list (map (stage \<circ> snd) ps1) + n \<le> sum_list (map (stage \<circ> snd) ps)"
  using assms(1)
proof (induction n arbitrary: d1 ps1)
  case 0
  then show ?case using assms(2) by simp
next
  case (Suc n)
  then obtain d2 ps2 where s: "(reads_step (serves snap base cols) ^^ n) (d, ps) (d2, ps2)"
    "reads_step (serves snap base cols) (d2, ps2) (d1, ps1)" by auto
  from Suc.IH [OF s(1)] readers_step [OF s(2), of "is"] show ?case by (simp del: map_map add: comp_def)
qed

lemma some_reader_moves:
  assumes "hub io" and "k < length ps" and "stage (snd (ps ! k)) \<noteq> 0"
  shows "\<exists>s. reads_step hub (d, ps) s"
proof (cases "\<exists>a<length ps. holds_io (snd (ps ! a))")
  case True
  then obtain a where a: "a < length ps" "holds_io (snd (ps ! a))" by blast
  then have "\<not> needs_io d (snd (ps ! a))" "stage (snd (ps ! a)) \<noteq> 0" by (cases "snd (ps ! a)"; simp)+
  then show ?thesis using reads_step.turn [of hub io a ps d, OF assms(1) a(1)]
    by (cases "advance io (d, snd (ps ! a))") blast
next
  case False
  then have "\<forall>p\<in>set ps. \<not> holds_io (snd p)" by (metis in_set_conv_nth)
  then show ?thesis using reads_step.turn [of hub io k ps d, OF assms]
    by (cases "advance io (d, snd (ps ! k))") blast
qed

lemma fresh_dataset_ok: "dataset_ok snap (base_path repo sha dir) cols (new_dataset repo sha cols dir cap)"
  by (simp add: dataset_ok_def base_dir_def new_dataset_def)

lemma read_all_ok:
  assumes "dataset_ok snap base cols d" and "\<forall>(io, i)\<in>set qs. serves snap base cols io" and "read_all d qs = (d1, rs)"
  shows "dataset_ok snap base cols d1 \<and> ds_cache_cap d1 = ds_cache_cap d
    \<and> list_all2 (\<lambda>(io, i) r. reader_ok snap i (Finished r)
        \<and> (answers snap base cols io \<longrightarrow> table snap \<noteq> [] \<longrightarrow> 0 \<le> ds_cache_cap d \<longrightarrow> r \<in> range Inr)) qs rs"
  using assms
proof (induction qs arbitrary: d rs)
  case (Cons q qs)
  obtain io i where q: "q = (io, i)" by (cases q)
  obtain d2 r rs' where r: "get_row io d i = (d2, r)" "read_all d2 qs = (d1, rs')" "rs = r # rs'"
    using Cons.prems(3) unfolding q by (auto split: prod.splits)
  have "serves snap base cols io" using Cons.prems(2) q by simp
  from get_row_ok [OF Cons.prems(1) this r(1)] Cons.IH [of d2 rs'] r(2,3) Cons.prems(2) show ?case
    by (simp add: q)
qed simp

definition hub_of :: "'r snapshot \<Rightarrow> 'r parquet_io" where
  "hub_of snap =
     \<lparr> pq_ls = \<lambda>dir. Inr (map fst snap), pq_footer = \<lambda>p. Inr (map length (dget snap p [])), pq_open = \<lambda>p. Inr (),
       pq_read = \<lambda>p g cols. if g < length (dget snap p []) then Inr (dget snap p [] ! g) else Inl IndexError \<rparr>"

lemma hub_of_answers: "distinct (map fst snap) \<Longrightarrow> answers snap base cols (hub_of snap)"
  by (simp add: answers_def serves_def hub_of_def)

lemma hub_of_serves: "distinct (map fst snap) \<Longrightarrow> serves snap base cols (hub_of snap)"
  using hub_of_answers by (auto simp: answers_def)

text \<open>
  C20. The lazy dataset is its snapshot: whatever is read and in whatever order, with calls
  to the hub that may fail at any point, every answer of \<open>get_row(i)\<close> is row \<open>i mod n\<close> of the
  parquet files taken in name order, an answer is given whenever the hub gives one, at most
  \<open>cache_row_groups\<close> row groups are kept and at most four files are open.
\<close>

theorem reads_are_the_snapshot:
  fixes snap :: "'r snapshot"
  assumes "\<forall>(io, i)\<in>set qs. serves snap (base_path repo sha dir) cols io"
    and "read_all (new_dataset repo sha cols dir cap) qs = (d, rs)"
  shows "list_all2 (\<lambda>(io, i) r.
        (\<forall>x. r = Inr x \<longrightarrow> table snap \<noteq> [] \<and> x = table snap ! nat (i mod int (length (table snap))))
        \<and> (answers snap (base_path repo sha dir) cols io \<and> table snap \<noteq> [] \<and> 0 \<le> cap \<longrightarrow> r \<in> range Inr)) qs rs
    \<and> int (length (ds_cache d)) \<le> max 0 cap \<and> length (ds_pf d) \<le> 4"
proof -
  have cap: "ds_cache_cap (new_dataset repo sha cols dir cap :: 'r dataset) = cap" by (simp add: new_dataset_def)
  note ok = read_all_ok [OF fresh_dataset_ok assms]
  then have "int (length (ds_cache d)) \<le> max 0 cap \<and> length (ds_pf d) \<le> 4" by (auto simp: dataset_ok_def cap)
  moreover note conjunct2 [OF conjunct2 [OF ok], unfolded cap]
  ultimately show ?thesis by (auto elim!: list_all2_mono)
qed

definition demo_snapshot :: "int snapshot" where
  "demo_snapshot = [(''b.parquet'', [[30, 40]]), (''README.md'', []), (''a.parquet'', [[10], [], [20]])]"

lemma demo_table: "table demo_snapshot = [10, 20, 30, 40]" "distinct (map fst demo_snapshot)"
  by code_simp+

theorem reads_are_the_snapshot_witness:
  "snd (read_all (new_dataset ''r'' ''v'' None ''data'' 1)
     [(hub_of demo_snapshot, 5), (hub_of demo_snapshot, - 1), (hub_of demo_snapshot, 0)]) = [Inr 20, Inr 40, Inr 10]"
proof -
  let ?d = "new_dataset ''r'' ''v'' None ''data'' 1 :: int dataset"
  let ?qs = "[(hub_of demo_snapshot, 5), (hub_of demo_snapshot, - 1), (hub_of demo_snapshot, 0)]"
  obtain d rs where r: "read_all ?d ?qs = (d, rs)" by fastforce
  have hubs: "\<forall>(io, i)\<in>set ?qs. serves demo_snapshot (base_path ''r'' ''v'' ''data'') None io"
    by (simp add: hub_of_serves demo_table)
  from reads_are_the_snapshot [OF hubs r] have "rs = [Inr 20, Inr 40, Inr 10]"
    by (auto simp: list_all2_Cons1 hub_of_answers demo_table image_iff)
  then show ?thesis unfolding r by simp
qed

text \<open>
  C21. Threads sharing one dataset do not disturb each other: in every interleaving of their
  lock sections, a finished read has its own row of the snapshot, never two threads are in the
  fetch section, the caches stay bounded, the run ends after at most five turns a thread, and
  while a thread is unfinished some thread can move.
\<close>

theorem interleaved_reads_agree:
  fixes snap :: "'r snapshot"
  assumes "(reads_step (serves snap base cols) ^^ n) (new_dataset repo sha cols dir cap, fresh_readers is) (d, ps)"
    and "base = base_path repo sha dir"
    and "serves snap base cols io"
  shows "(\<forall>k<length is. \<forall>x. snd (ps ! k) = Finished (Inr x)
            \<longrightarrow> table snap \<noteq> [] \<and> x = table snap ! nat (is ! k mod int (length (table snap))))
    \<and> (\<forall>a<length ps. \<forall>b<length ps. holds_io (snd (ps ! a)) \<longrightarrow> holds_io (snd (ps ! b)) \<longrightarrow> a = b)
    \<and> int (length (ds_cache d)) \<le> max 0 cap \<and> length (ds_pf d) \<le> 4
    \<and> n \<le> 5 * length is
    \<and> ((\<exists>s. reads_step (serves snap base cols) (d, ps) s) \<or> (\<forall>k<length is. \<exists>r. snd (ps ! k) = Finished r))"
proof -
  let ?d = "new_dataset repo sha cols dir cap :: 'r dataset" and ?ps = "fresh_readers is :: (int \<times> 'r reader) list"
  have stages: "sum_list (map (stage \<circ> snd) ?ps) = 5 * length is" by (induction "is") (simp_all add: fresh_readers_def)
  have "readers_ok snap base cols is (?d, ?ps)"
    using fresh_dataset_ok by (auto simp: readers_ok_def assms(2) fresh_readers_def comp_def)
  note run = readers_run [OF assms(1) this, unfolded stages]
  have len: "length ps = length is" and fsts: "\<And>k. k < length is \<Longrightarrow> fst (ps ! k) = is ! k"
    using run by (auto simp: readers_ok_def)
  have "reader_ok snap (is ! k) (snd (ps ! k))" if "k < length is" for k
  proof -
    have all: "\<forall>x\<in>set ps. reader_ok snap (fst x) (snd x)" using run by (simp add: readers_ok_def case_prod_unfold)
    then show ?thesis using nth_mem [of k ps] fsts [OF that] that len by metis
  qed
  then have "\<forall>k<length is. \<forall>x. snd (ps ! k) = Finished (Inr x)
      \<longrightarrow> table snap \<noteq> [] \<and> x = table snap ! nat (is ! k mod int (length (table snap)))" by fastforce
  moreover have "(\<exists>s. reads_step (serves snap base cols) (d, ps) s) \<or> (\<forall>k<length is. \<exists>r. snd (ps ! k) = Finished r)"
    using some_reader_moves [where hub = "serves snap base cols" and io = io and d = d and ps = ps] assms(3) stage_zero len by metis
  moreover have "readers_ok snap base cols is (d, ps)" and cap: "ds_cache_cap d = cap" and "n \<le> 5 * length is"
    using run by (simp_all add: new_dataset_def)
  moreover from this(1) have "\<forall>a<length ps. \<forall>b<length ps. holds_io (snd (ps ! a)) \<longrightarrow> holds_io (snd (ps ! b)) \<longrightarrow> a = b"
    by (simp add: readers_ok_def)
  moreover have "int (length (ds_cache d)) \<le> max 0 cap" "length (ds_pf d) \<le> 4"
    using \<open>readers_ok snap base cols is (d, ps)\<close> cap by (simp_all add: readers_ok_def dataset_ok_def)
  ultimately show ?thesis by blast
qed

theorem interleaved_reads_agree_witness:
  "\<exists>d ps. (reads_step (serves demo_snapshot (base_path ''r'' ''v'' ''data'') None) ^^ 1)
       (new_dataset ''r'' ''v'' None ''data'' 1, fresh_readers [5, 2]) (d, ps)
     \<and> length (ds_pf d) \<le> 4 \<and> (1::nat) \<le> 5 * length [5, 2::int]"
proof -
  let ?d = "new_dataset ''r'' ''v'' None ''data'' 1 :: int dataset" and ?ps = "fresh_readers [5, 2] :: (int \<times> int reader) list"
  let ?hub = "serves demo_snapshot (base_path ''r'' ''v'' ''data'') None"
  have hub: "?hub (hub_of demo_snapshot)" by (rule hub_of_serves [OF demo_table(2)])
  obtain d1 p1 where a: "advance (hub_of demo_snapshot) (?d, Started 5) = (d1, p1)" by fastforce
  have "reads_step ?hub (?d, ?ps) (d1, ?ps[0 := (5, p1)])"
    using reads_step.turn [where hub = ?hub and k = 0 and io = "hub_of demo_snapshot" and ps = ?ps and d = ?d] hub a
    by (simp add: fresh_readers_def)
  then have run: "(reads_step ?hub ^^ 1) (?d, ?ps) (d1, ?ps[0 := (5, p1)])" by (simp add: relcompp_apply)
  from interleaved_reads_agree [OF run refl hub] run show ?thesis by blast
qed

end
