(* ===== verification/MathAnswer.thy ===== *)
theory MathAnswer
  imports Checkpoint "HOL-Library.Multiset"
begin

text \<open>
  The grading half of \<open>reliquary/environment/openmathinstruct.py\<close>: the last boxed answer of a
  completion, its normal form, plain numbers as exact rationals, the rewriting of LaTeX into an
  expression, the whitelists that guard \<open>sympy\<close>, the bound on an expansion, matrices and tuples,
  and the reward. A regular expression is a matcher from a position to the replacement and the
  rest, and \<open>re_sub\<close> applies it from left to right; \<open>sympy\<close> itself (parsing, numeric
  evaluation, expansion) is the parameter \<open>sympy\<close>. The lemmas show that the rewriting and the
  comparison end, that numbers are compared exactly, that a boxed right answer scores, that no
  word outside the whitelist reaches the parser, and that the bound is one.
\<close>

section \<open>Text\<close>

definition begins :: "string \<Rightarrow> string \<Rightarrow> bool" where
  "begins p s = (take (length p) s = p)"

text \<open>The macro with that name: a backslash and the name.\<close>

definition tex :: "string \<Rightarrow> string" where
  "tex name = CHR 0x5C # name"

text \<open>
  \<open>re.sub\<close> and \<open>str.replace\<close>: the matcher is tried at every position that is not inside an
  earlier match. All patterns of the file match at least one character.
\<close>

function re_sub :: "(string \<Rightarrow> (string \<times> string) option) \<Rightarrow> string \<Rightarrow> string" where
  "re_sub m [] = []"
| "re_sub m (c # r) =
     (case m (c # r) of
        Some (out, rest) \<Rightarrow> if length rest < length (c # r) then out @ re_sub m rest else c # re_sub m r
      | None \<Rightarrow> c # re_sub m r)"
  by pat_completeness auto
termination by (relation "measure (length \<circ> snd)") auto

definition literal :: "string \<Rightarrow> string \<Rightarrow> string \<Rightarrow> (string \<times> string) option" where
  "literal p out s = (if begins p s then Some (out, drop (length p) s) else None)"

definition replace :: "string \<Rightarrow> string \<Rightarrow> string \<Rightarrow> string" where
  "replace p out s = re_sub (literal p out) s"

definition optional_char :: "char \<Rightarrow> string \<Rightarrow> string" where
  "optional_char c s = (case s of x # r \<Rightarrow> if x = c then r else s | [] \<Rightarrow> [])"

section \<open>The boxed answer\<close>

text \<open>\<open>s.rfind(p)\<close>, with \<open>None\<close> for -1.\<close>

fun rfind :: "string \<Rightarrow> string \<Rightarrow> nat option" where
  "rfind p [] = (if p = [] then Some 0 else None)"
| "rfind p (c # r) =
     (case rfind p r of Some k \<Rightarrow> Some (Suc k) | None \<Rightarrow> if begins p (c # r) then Some 0 else None)"

text \<open>The text up to the brace that closes the first one, at the depth reached so far.\<close>

fun close_brace :: "int \<Rightarrow> string \<Rightarrow> string option" where
  "close_brace depth [] = None"
| "close_brace depth (c # r) =
     (let d = (if c = CHR ''{'' then depth + 1 else if c = CHR ''}'' then depth - 1 else depth) in
      if c = CHR ''}'' \<and> d = 0 then Some [c] else map_option (\<lambda>t. c # t) (close_brace d r))"

definition last_boxed_only_string :: "string \<Rightarrow> string option" where
  "last_boxed_only_string text =
     (let hits = List.map_filter id [rfind (tex ''boxed{'') text, rfind (tex ''fbox{'') text] in
      if hits = [] then None
      else (let idx = Max (set hits); s = drop idx text; front = takeWhile (\<lambda>c. c \<noteq> CHR ''{'') s in
            map_option (\<lambda>t. front @ t) (close_brace 0 (drop (length front) s))))"

definition strip_boxed_wrapper :: "string \<Rightarrow> string" where
  "strip_boxed_wrapper s =
     (if begins (tex ''boxed{'') s \<and> List.last s = CHR ''}'' then butlast (drop 7 s)
      else if begins (tex ''fbox{'') s \<and> List.last s = CHR ''}'' then butlast (drop 6 s) else s)"

section \<open>Normal form\<close>

text \<open>\<open>\^\s*\{?\s*\\circ\s*\}?\<close>\<close>

definition m_circ :: "string \<Rightarrow> (string \<times> string) option" where
  "m_circ s =
     (case s of
        [] \<Rightarrow> None
      | c # r \<Rightarrow>
          (let r1 = dropWhile py_space (optional_char CHR ''{'' (dropWhile py_space r)) in
           if c = CHR ''^'' \<and> begins (tex ''circ'') r1
           then Some ([], optional_char CHR ''}'' (dropWhile py_space (drop 5 r1))) else None))"

text \<open>\<open>\\text\{([^}]*)\}\<close> and \<open>\\mbox\{([^}]*)\}\<close>, replaced by the group.\<close>

definition m_wrapped :: "string \<Rightarrow> string \<Rightarrow> (string \<times> string) option" where
  "m_wrapped name s =
     (if begins (tex name @ ''{'') s
      then (let r = drop (length name + 2) s in
            case dropWhile (\<lambda>c. c \<noteq> CHR ''}'') r of
              [] \<Rightarrow> None
            | c # rest \<Rightarrow> Some (takeWhile (\<lambda>c. c \<noteq> CHR ''}'') r, rest))
      else None)"

definition strip_dots :: "string \<Rightarrow> string" where
  "strip_dots s = rev (dropWhile (\<lambda>c. c = CHR ''.'') (rev s))"

text \<open>\<open>-?\d+\.0+\<close> as a full match.\<close>

definition trailing_zeros :: "string \<Rightarrow> bool" where
  "trailing_zeros s =
     (let r = optional_char CHR ''-'' s; r1 = dropWhile is_digit r in
      takeWhile is_digit r \<noteq> []
      \<and> (case r1 of c # z \<Rightarrow> c = CHR ''.'' \<and> z \<noteq> [] \<and> list_all (\<lambda>x. x = CHR ''0'') z | [] \<Rightarrow> False))"

fun replace_each :: "(string \<times> string) list \<Rightarrow> string \<Rightarrow> string" where
  "replace_each [] s = s"
| "replace_each ((p, out) # ps) s = replace_each ps (replace p out s)"

definition macro_pass :: "string \<Rightarrow> string" where
  "macro_pass s =
     replace_each [(tex ''!'', []), (tex '','', []), (tex '' '', []), (tex '';'', []), (tex '':'', []),
       (tex ''left'', []), (tex ''right'', []), (tex ''dfrac'', tex ''frac''), (tex ''tfrac'', tex ''frac'')] s"

definition unit_pass :: "string \<Rightarrow> string" where
  "unit_pass s =
     replace_each [(tex ''circ'', []), (tex ''degree'', []), (tex ''%'', []), (''%'', [])] (re_sub m_circ s)"

definition text_pass :: "string \<Rightarrow> string" where
  "text_pass s =
     replace_each [(tex ''$'', []), (''$'', [])] (re_sub (m_wrapped ''mbox'') (re_sub (m_wrapped ''text'') s))"

definition plain_pass :: "string \<Rightarrow> string" where
  "plain_pass s =
     (let s1 = filter (\<lambda>c. \<not> py_space c) (strip (strip_dots (strip s)));
          s2 = (if 1 < length s1 \<and> hd s1 = CHR ''+'' then tl s1 else s1) in
      if trailing_zeros s2 then takeWhile (\<lambda>c. c \<noteq> CHR ''.'') s2 else s2)"

definition normalize_answer :: "string option \<Rightarrow> string" where
  "normalize_answer s =
     (case s of None \<Rightarrow> [] | Some t \<Rightarrow> plain_pass (text_pass (unit_pass (macro_pass t))))"

section \<open>Numbers\<close>

definition digits_value :: "string \<Rightarrow> nat" where
  "digits_value ds = foldl (\<lambda>a c. 10 * a + (case digit_value c of Some d \<Rightarrow> d | None \<Rightarrow> 0)) 0 ds"

text \<open>
  \<open>[+-]?\d+(?:\.\d+)?(?:/\d+)?\<close> at the start of the text: sign, integer part, decimals, denominator,
  and what follows. An optional part that does not match is skipped.
\<close>

definition optional_digits :: "char \<Rightarrow> string \<Rightarrow> string option \<times> string" where
  "optional_digits c s =
     (case s of
        x # r \<Rightarrow> if x = c \<and> takeWhile is_digit r \<noteq> [] then (Some (takeWhile is_digit r), dropWhile is_digit r) else (None, s)
      | [] \<Rightarrow> (None, s))"

definition scan_number :: "string \<Rightarrow> ((bool \<times> string \<times> string option \<times> string option) \<times> string) option" where
  "scan_number s =
     (let neg = (s \<noteq> [] \<and> hd s = CHR ''-'');
          r = (if s \<noteq> [] \<and> hd s \<in> {CHR ''-'', CHR ''+''} then tl s else s) in
      if takeWhile is_digit r = [] then None
      else case optional_digits CHR ''.'' (dropWhile is_digit r) of (dec, r1) \<Rightarrow>
           (case optional_digits CHR ''/'' r1 of (den, r2) \<Rightarrow> Some ((neg, takeWhile is_digit r, dec, den), r2)))"

text \<open>
  \<open>Fraction(s)\<close> takes a decimal or a quotient, not both; a zero denominator raises, and so does a run of more
  than 4300 digits, which \<open>int\<close> refuses; the code turns each into \<open>None\<close>.
\<close>

definition int_digits :: "string \<Rightarrow> bool" where
  "int_digits ds = (length ds \<le> 4300)"

definition answer_number :: "string \<Rightarrow> rat option" where
  "answer_number s =
     (case scan_number s of
        Some ((neg, whole, dec, den), []) \<Rightarrow>
          (let sg = (if neg then - 1 else 1) in
           if \<not> int_digits whole then None
           else case (dec, den) of
             (None, None) \<Rightarrow> Some (sg * of_nat (digits_value whole))
           | (Some ds, None) \<Rightarrow>
               if int_digits ds then Some (sg * (of_nat (digits_value whole) + of_nat (digits_value ds) / 10 ^ length ds)) else None
           | (None, Some ds) \<Rightarrow>
               if int_digits ds \<and> digits_value ds \<noteq> 0 then Some (sg * (of_nat (digits_value whole) / of_nat (digits_value ds))) else None
           | (Some _, Some _) \<Rightarrow> None)
      | _ \<Rightarrow> None)"

section \<open>LaTeX to an expression\<close>

text \<open>\<open>[^...]+\<close> between an opening and a closing character, none of it in \<open>bad\<close>.\<close>

definition enclosed :: "char \<Rightarrow> char \<Rightarrow> char set \<Rightarrow> string \<Rightarrow> (string \<times> string) option" where
  "enclosed opn cls bad s =
     (case s of
        [] \<Rightarrow> None
      | x # r \<Rightarrow>
          (let body = takeWhile (\<lambda>c. c \<notin> bad) r in
           if x = opn \<and> body \<noteq> []
           then (case dropWhile (\<lambda>c. c \<notin> bad) r of
                   y # rest \<Rightarrow> if y = cls then Some (body, rest) else None
                 | [] \<Rightarrow> None)
           else None))"

definition braces :: "char set" where "braces = {CHR ''{'', CHR ''}''}"

definition m_root :: "string \<Rightarrow> (string \<times> string) option" where
  "m_root s =
     (if begins (tex ''sqrt'') s
      then (case enclosed CHR ''['' CHR '']'' (braces \<union> {CHR ''['', CHR '']''}) (drop 5 s) of
              None \<Rightarrow> None
            | Some (n, r) \<Rightarrow>
                (case enclosed CHR ''{'' CHR ''}'' braces r of
                   None \<Rightarrow> None
                 | Some (x, rest) \<Rightarrow> Some (''(('' @ x @ '')**(1.0/('' @ n @ '')))'', rest)))
      else None)"

definition m_sqrt :: "string \<Rightarrow> (string \<times> string) option" where
  "m_sqrt s =
     (if begins (tex ''sqrt'') s
      then (case enclosed CHR ''{'' CHR ''}'' braces (drop 5 s) of
              None \<Rightarrow> None | Some (x, rest) \<Rightarrow> Some (''sqrt(('' @ x @ ''))'', rest))
      else None)"

definition after_frac :: "string \<Rightarrow> string option" where
  "after_frac s =
     (if begins (tex ''frac'') s then Some (drop 5 s)
      else if begins (tex ''dfrac'') s \<or> begins (tex ''tfrac'') s then Some (drop 6 s) else None)"

definition m_frac :: "string \<Rightarrow> (string \<times> string) option" where
  "m_frac s =
     (case after_frac s of
        None \<Rightarrow> None
      | Some r \<Rightarrow>
          (case enclosed CHR ''{'' CHR ''}'' braces r of
             None \<Rightarrow> None
           | Some (a, r1) \<Rightarrow>
               (case enclosed CHR ''{'' CHR ''}'' braces r1 of
                  None \<Rightarrow> None | Some (b, rest) \<Rightarrow> Some (''(('' @ a @ '')/('' @ b @ ''))'', rest))))"

definition latex_round :: "string \<Rightarrow> string" where
  "latex_round s = re_sub m_frac (re_sub m_sqrt (re_sub m_root s))"

definition backslashes :: "string \<Rightarrow> nat" where
  "backslashes s = length (filter (\<lambda>c. c = CHR 0x5C) s)"

function latex_rounds :: "string \<Rightarrow> string" where
  "latex_rounds s = (if latex_round s = s then s else latex_rounds (latex_round s))"
  by pat_completeness auto

lemma backslashes_simps [simp]:
  "backslashes [] = 0" "backslashes (c # s) = (if c = CHR 0x5C then Suc (backslashes s) else backslashes s)"
  "backslashes (s @ t) = backslashes s + backslashes t"
  by (simp_all add: backslashes_def)

text \<open>A rewrite that removes a backslash each time leaves fewer of them, or the text as it is.\<close>

lemma re_sub_backslashes:
  assumes "\<And>s out rest. m s = Some (out, rest) \<Longrightarrow> backslashes out + backslashes rest < backslashes s"
  shows "backslashes (re_sub m s) < backslashes s \<or> re_sub m s = s"
  using assms
proof (induction m s rule: re_sub.induct)
  case (2 m c r)
  show ?case
  proof (cases "m (c # r)")
    case None
    then show ?thesis using "2.IH"(1) [OF None "2.prems"] by auto
  next
    case (Some p)
    obtain out rest where p: "p = (out, rest)" by (cases p)
    show ?thesis
    proof (cases "length rest < length (c # r)")
      case True
      from "2.IH"(2) [OF Some p [symmetric] True "2.prems"] "2.prems" [OF Some [unfolded p]] True
      show ?thesis by (auto simp: Some p)
    next
      case False
      from "2.IH"(3) [OF Some p [symmetric] False "2.prems"] False show ?thesis by (auto simp: Some p)
    qed
  qed
qed simp

lemma backslashes_split: "backslashes s = backslashes (takeWhile P s) + backslashes (dropWhile P s)"
  by (metis takeWhile_dropWhile_id backslashes_simps(3))

lemma enclosed_backslashes:
  assumes "enclosed opn cls bad s = Some (body, rest)" and "opn \<noteq> CHR 0x5C" and "cls \<noteq> CHR 0x5C"
  shows "backslashes s = backslashes body + backslashes rest"
proof -
  obtain r where r: "s = opn # r" "takeWhile (\<lambda>c. c \<notin> bad) r = body" "dropWhile (\<lambda>c. c \<notin> bad) r = cls # rest"
    using assms(1) by (auto simp: enclosed_def Let_def split: list.splits if_splits)
  have "backslashes r = backslashes body + backslashes (cls # rest)"
    using backslashes_split [of r "\<lambda>c. c \<notin> bad"] by (simp only: r)
  then show ?thesis using assms(2,3) by (simp add: r(1))
qed

lemma begins_tex: "begins (tex name) s \<Longrightarrow> backslashes name = 0 \<Longrightarrow> backslashes s = Suc (backslashes (drop (Suc (length name)) s))"
proof -
  assume b: "begins (tex name) s" "backslashes name = 0"
  then have "s = tex name @ drop (Suc (length name)) s" by (metis append_take_drop_id begins_def length_Cons tex_def)
  then have "backslashes s = backslashes (tex name) + backslashes (drop (Suc (length name)) s)"
    by (metis backslashes_simps(3))
  then show ?thesis using b by (simp add: tex_def)
qed

lemma latex_matchers:
  shows "m_root s = Some (out, rest) \<Longrightarrow> backslashes out + backslashes rest < backslashes s"
    and "m_sqrt s = Some (out, rest) \<Longrightarrow> backslashes out + backslashes rest < backslashes s"
    and "m_frac s = Some (out, rest) \<Longrightarrow> backslashes out + backslashes rest < backslashes s"
  by (auto simp: m_root_def m_sqrt_def m_frac_def after_frac_def eval_nat_numeral dest!: begins_tex enclosed_backslashes
      split: if_splits option.splits prod.splits)

lemma latex_round_backslashes: "backslashes (latex_round s) < backslashes s \<or> latex_round s = s"
  using re_sub_backslashes [of m_root s, OF latex_matchers(1)]
    re_sub_backslashes [of m_sqrt "re_sub m_root s", OF latex_matchers(2)]
    re_sub_backslashes [of m_frac "re_sub m_sqrt (re_sub m_root s)", OF latex_matchers(3)]
  unfolding latex_round_def by auto

termination latex_rounds
  by (relation "measure backslashes") (use latex_round_backslashes in auto)

declare latex_rounds.simps [simp del]

definition latex_to_pyexpr :: "string \<Rightarrow> string option" where
  "latex_to_pyexpr s =
     (let e = replace_each [(tex ''cdot'', ''*''), (tex ''times'', ''*''), (tex ''div'', ''/''), (tex ''pi'', ''pi''),
                (''^'', ''**''), (''{'', ''(''), (''}'', '')'')] (latex_rounds s) in
      if CHR 0x5C \<in> set e then None else Some e)"

section \<open>What may reach the parser\<close>

definition letter :: "char \<Rightarrow> bool" where
  "letter c = (let n = of_char c :: nat in 65 \<le> n \<and> n \<le> 90 \<or> 97 \<le> n \<and> n \<le> 122)"

definition starts_letter :: "string \<Rightarrow> bool" where
  "starts_letter s = (case s of c # r \<Rightarrow> letter c | [] \<Rightarrow> False)"

text \<open>
  \<open>(?<![A-Za-z])(?:sqrt|pi)(?![A-Za-z])\<close> removed: the length of the name at this position, and
  the pass with the character before it.
\<close>

definition name_here :: "string \<Rightarrow> nat option" where
  "name_here s =
     (if begins ''sqrt'' s \<and> \<not> starts_letter (drop 4 s) then Some 4
      else if begins ''pi'' s \<and> \<not> starts_letter (drop 2 s) then Some 2 else None)"

definition after_letter :: "char option \<Rightarrow> bool" where
  "after_letter prev = (case prev of Some c \<Rightarrow> letter c | None \<Rightarrow> False)"

function drop_names :: "char option \<Rightarrow> string \<Rightarrow> string" where
  "drop_names prev [] = []"
| "drop_names prev (c # r) =
     (case if after_letter prev then None else name_here (c # r) of
        Some n \<Rightarrow> drop_names (Some ((c # r) ! (n - 1))) (drop (n - 1) r)
      | None \<Rightarrow> c # drop_names (Some c) r)"
  by pat_completeness auto
termination by (relation "measure (length \<circ> snd)") auto

text \<open>\<open>(?<![A-Za-z])[A-Za-z](?![A-Za-z(])\<close> removed.\<close>

fun drop_letters :: "char option \<Rightarrow> string \<Rightarrow> string" where
  "drop_letters prev [] = []"
| "drop_letters prev (c # r) =
     (if letter c \<and> \<not> after_letter prev \<and> \<not> (starts_letter r \<or> begins ''('' r)
      then drop_letters (Some c) r else c # drop_letters (Some c) r)"

definition operator_char :: "char \<Rightarrow> bool" where
  "operator_char c = (is_digit c \<or> c \<in> set ''.+-*/() '' \<or> c = CHR 0x09)"

definition expr_str_is_safe :: "string \<Rightarrow> bool \<Rightarrow> bool" where
  "expr_str_is_safe s allow_symbols =
     (let cleaned = drop_names None s in
      list_all operator_char (if allow_symbols then drop_letters None cleaned else cleaned))"

section \<open>Parsed expressions\<close>

text \<open>
  What the guards read of a \<open>sympy\<close> tree: a number with the outcome of \<open>float()\<close> on it, a named
  constant, a symbol, a sum, a product, a power as \<open>as_base_exp\<close> splits it, and anything else,
  atomic or not.
\<close>

datatype sexpr =
    NumberE "pyfloat res" | ConstantE string | SymbolE string | AddE "sexpr list" | MulE "sexpr list"
  | PowE sexpr sexpr | OtherE bool "sexpr list"

fun small_exponent :: "pyfloat res \<Rightarrow> bool" where
  "small_exponent (Inl e) = False"
| "small_exponent (Inr f) = (\<not> pf_lt (Fin 10) (pf_abs f))"

fun expr_is_safe :: "sexpr \<Rightarrow> nat \<Rightarrow> bool \<Rightarrow> bool" where
  "expr_is_safe (NumberE f) depth symb = (depth \<le> 40)"
| "expr_is_safe (ConstantE c) depth symb = (depth \<le> 40)"
| "expr_is_safe (SymbolE x) depth symb = (depth \<le> 40 \<and> symb)"
| "expr_is_safe (AddE es) depth symb = (depth \<le> 40 \<and> list_all (\<lambda>a. expr_is_safe a (Suc depth) symb) es)"
| "expr_is_safe (MulE es) depth symb = (depth \<le> 40 \<and> list_all (\<lambda>a. expr_is_safe a (Suc depth) symb) es)"
| "expr_is_safe (PowE b x) depth symb =
     (depth \<le> 40 \<and> (case x of NumberE f \<Rightarrow> small_exponent f | _ \<Rightarrow> False) \<and> expr_is_safe b (Suc depth) symb)"
| "expr_is_safe (OtherE atomic es) depth symb = False"

fun has_symbols :: "sexpr \<Rightarrow> bool" where
  "has_symbols (SymbolE x) = True"
| "has_symbols (AddE es) = list_ex has_symbols es"
| "has_symbols (MulE es) = list_ex has_symbols es"
| "has_symbols (PowE b x) = (has_symbols b \<or> has_symbols x)"
| "has_symbols (OtherE atomic es) = list_ex has_symbols es"
| "has_symbols _ = False"

text \<open>
  How an exponent is read: \<open>None\<close> when the power counts as one term, the exponent when it
  multiplies out; \<open>int()\<close> of an infinity or a NaN raises.
\<close>

fun read_exponent :: "sexpr \<Rightarrow> nat option res" where
  "read_exponent (NumberE (Inl e)) = Inr None"
| "read_exponent (NumberE (Inr (Fin x))) = Inr (if x < 0 \<or> x \<noteq> of_int (trunc x) then None else Some (nat (trunc x)))"
| "read_exponent (NumberE (Inr NInf)) = Inr None"
| "read_exponent (NumberE (Inr PInf)) = Inl OverflowError"
| "read_exponent (NumberE (Inr NaN)) = Inl ValueError"
| "read_exponent _ = Inr None"

fun expand_term_bound :: "nat \<Rightarrow> sexpr \<Rightarrow> nat res"
  and add_bound :: "nat \<Rightarrow> nat \<Rightarrow> sexpr list \<Rightarrow> nat res"
  and mul_bound :: "nat \<Rightarrow> nat \<Rightarrow> sexpr list \<Rightarrow> nat res" where
  "expand_term_bound cap (AddE es) = add_bound cap 0 es"
| "expand_term_bound cap (MulE es) = mul_bound cap 1 es"
| "expand_term_bound cap (PowE b x) =
     (case read_exponent x of
        Inl e \<Rightarrow> Inl e
      | Inr None \<Rightarrow> Inr 1
      | Inr (Some k) \<Rightarrow>
          rbind (expand_term_bound cap b) (\<lambda>n.
          if n \<le> 1 then Inr 1
          else (let terms = (n + k - 1) choose k in Inr (if terms \<le> cap then terms else cap + 1))))"
| "expand_term_bound cap (NumberE f) = Inr 1"
| "expand_term_bound cap (ConstantE c) = Inr 1"
| "expand_term_bound cap (SymbolE x) = Inr 1"
| "expand_term_bound cap (OtherE atomic es) = Inr 1"
| "add_bound cap t [] = Inr t"
| "add_bound cap t (e # es) =
     rbind (expand_term_bound cap e) (\<lambda>n. if cap < t + n then Inr (cap + 1) else add_bound cap (t + n) es)"
| "mul_bound cap p [] = Inr p"
| "mul_bound cap p (e # es) =
     rbind (expand_term_bound cap e) (\<lambda>n. if cap < p * n then Inr (cap + 1) else mul_bound cap (p * n) es)"

section \<open>sympy\<close>

record sympy =
  sy_parse :: "string \<Rightarrow> sexpr res"
  sy_evalf :: "sexpr \<Rightarrow> (pyfloat \<times> pyfloat) res"
  sy_expand_is_zero :: "sexpr \<Rightarrow> sexpr \<Rightarrow> bool res"

text \<open>\<open>abs(vc - vg) <= 1e-9 * (1 + abs(vg))\<close> on complex floats.\<close>

fun complex_abs :: "pyfloat \<times> pyfloat \<Rightarrow> pyfloat" where
  "complex_abs (Fin x, Fin y) = Fin (sqrt (x ^ 2 + y ^ 2))"
| "complex_abs (x, y) = (if {x, y} \<inter> {PInf, NInf} \<noteq> {} then PInf else NaN)"

fun tolerance :: "pyfloat \<Rightarrow> pyfloat" where
  "tolerance (Fin x) = Fin ((1 + x) / 10 ^ 9)"
| "tolerance f = f"

definition close_values :: "pyfloat \<times> pyfloat \<Rightarrow> pyfloat \<times> pyfloat \<Rightarrow> bool" where
  "close_values a b = pf_le (complex_abs (pf_sub (fst a) (fst b), pf_sub (snd a) (snd b))) (tolerance (complex_abs b))"

definition short_pair :: "string \<Rightarrow> string \<Rightarrow> bool" where
  "short_pair a b = (a \<noteq> [] \<and> b \<noteq> [] \<and> length a \<le> 100 \<and> length b \<le> 100)"

definition caught :: "bool res \<Rightarrow> bool" where
  "caught r = (r = Inr True)"

definition latex_value_equal :: "sympy \<Rightarrow> string \<Rightarrow> string \<Rightarrow> bool" where
  "latex_value_equal sy candidate gt =
     (if \<not> short_pair candidate gt then False
      else case (latex_to_pyexpr candidate, latex_to_pyexpr gt) of
        (Some ec, Some eg) \<Rightarrow>
          expr_str_is_safe ec False \<and> expr_str_is_safe eg False
          \<and> caught (rbind (sy_parse sy ec) (\<lambda>xc. rbind (sy_parse sy eg) (\<lambda>xg.
              if \<not> (expr_is_safe xc 0 False \<and> expr_is_safe xg 0 False) then Inr False
              else rbind (sy_evalf sy xc) (\<lambda>vc. rbind (sy_evalf sy xg) (\<lambda>vg. Inr (close_values vc vg))))))
      | _ \<Rightarrow> False)"

definition latex_symbolic_equal :: "sympy \<Rightarrow> string \<Rightarrow> string \<Rightarrow> bool" where
  "latex_symbolic_equal sy candidate gt =
     (if \<not> short_pair candidate gt then False
      else case (latex_to_pyexpr candidate, latex_to_pyexpr gt) of
        (Some ec, Some eg) \<Rightarrow>
          expr_str_is_safe ec True \<and> expr_str_is_safe eg True
          \<and> caught (rbind (sy_parse sy ec) (\<lambda>xc. rbind (sy_parse sy eg) (\<lambda>xg.
              if \<not> (has_symbols xc \<and> has_symbols xg) then Inr False
              else if \<not> (expr_is_safe xc 0 True \<and> expr_is_safe xg 0 True) then Inr False
              else rbind (expand_term_bound 2000 xc) (\<lambda>bc.
                   if 2000 < bc then Inr False
                   else rbind (expand_term_bound 2000 xg) (\<lambda>bg.
                        if 2000 < bg then Inr False else sy_expand_is_zero sy xc xg)))))
      | _ \<Rightarrow> False)"

section \<open>Matrices and tuples\<close>

fun break_on :: "string \<Rightarrow> string \<Rightarrow> (string \<times> string) option" where
  "break_on p [] = None"
| "break_on p (c # r) =
     (if begins p (c # r) then Some ([], drop (length p) (c # r))
      else map_option (\<lambda>(a, b). (c # a, b)) (break_on p r))"

lemma break_on_length: "break_on p s = Some (a, b) \<Longrightarrow> p \<noteq> [] \<Longrightarrow> length a + length b < length s"
  by (induction p s arbitrary: a b rule: break_on.induct) (auto split: if_splits)

text \<open>\<open>s.split(p)\<close> for a non-empty separator.\<close>

function split_str :: "string \<Rightarrow> string \<Rightarrow> string list" where
  "split_str p s =
     (case break_on p s of Some (a, b) \<Rightarrow> if p = [] then [s] else a # split_str p b | None \<Rightarrow> [s])"
  by pat_completeness auto
termination by (relation "measure (length \<circ> snd)") (auto dest: break_on_length)

declare split_str.simps [simp del]

text \<open>\<open>\\begin\{[bp]?matrix\}(.*?)\\end\{[bp]?matrix\}\<close>: the first opening that is closed, up to the first close.\<close>

definition after_env :: "string \<Rightarrow> string \<Rightarrow> string option" where
  "after_env kind s =
     (let hits = filter (\<lambda>m. begins (tex kind @ ''{'' @ m @ ''}'') s) [''matrix'', ''bmatrix'', ''pmatrix''] in
      case hits of [] \<Rightarrow> None | m # _ \<Rightarrow> Some (drop (length kind + length m + 3) s))"

fun until_end :: "string \<Rightarrow> string option" where
  "until_end [] = None"
| "until_end (c # r) = (if after_env ''end'' (c # r) \<noteq> None then Some [] else map_option (\<lambda>t. c # t) (until_end r))"

fun matrix_body :: "string \<Rightarrow> string option" where
  "matrix_body [] = None"
| "matrix_body (c # r) =
     (case after_env ''begin'' (c # r) of
        Some rest \<Rightarrow> (case until_end rest of Some b \<Rightarrow> Some b | None \<Rightarrow> matrix_body r)
      | None \<Rightarrow> matrix_body r)"

datatype shape = Matrix nat nat | Delimited char

definition matrix_rows :: "string \<Rightarrow> string list list" where
  "matrix_rows body =
     filter (\<lambda>row. row \<noteq> [])
       (map (\<lambda>row. filter (\<lambda>c. c \<noteq> []) (map strip (split_str ''&'' row))) (split_str (tex [CHR 0x5C]) body))"

definition split_structure :: "string \<Rightarrow> (shape \<times> string list) option" where
  "split_structure s =
     (case matrix_body s of
        Some body \<Rightarrow>
          (let rows = matrix_rows body in
           if rows = [] then None
           else let width = length (hd rows) in
                if width = 0 \<or> list_ex (\<lambda>row. length row \<noteq> width) rows then None
                else Some (Matrix (length rows) width, concat rows))
      | None \<Rightarrow>
          (if 2 \<le> length s \<and> hd s \<in> {CHR ''('', CHR ''[''} \<and> List.last s \<in> {CHR '')'', CHR '']''} \<and> CHR '','' \<in> set s
           then Some (Delimited (hd s), map strip (split_str '','' (butlast (tl s)))) else None))"

section \<open>Every element is shorter\<close>

lemma length_strip: "length (strip s) \<le> length s"
  by (metis length_dropWhile_le length_rev order_trans strip_def)

lemma split_str_length: "x \<in> set (split_str p s) \<Longrightarrow> length x \<le> length s"
proof (induction p s rule: split_str.induct)
  case (1 p s)
  then show ?case
    by (subst (asm) split_str.simps) (fastforce split: option.splits if_splits dest: break_on_length)
qed

lemma until_end_length: "until_end s = Some b \<Longrightarrow> length b \<le> length s"
  by (induction s arbitrary: b rule: until_end.induct) (auto split: if_splits)

lemma after_env_length: "after_env kind s = Some rest \<Longrightarrow> length rest < length s"
  by (cases s) (auto simp: after_env_def Let_def begins_def tex_def split: list.splits if_splits)

lemma matrix_body_length: "matrix_body s = Some b \<Longrightarrow> length b < length s"
  by (induction s rule: matrix_body.induct)
    (fastforce split: option.splits dest: until_end_length after_env_length)+

lemma split_structure_shorter: "split_structure s = Some (sh, xs) \<Longrightarrow> x \<in> set xs \<Longrightarrow> length x < length s"
proof (cases "matrix_body s")
  case None
  assume "split_structure s = Some (sh, xs)" "x \<in> set xs"
  then obtain y where y: "y \<in> set (split_str '','' (butlast (tl s)))" "x = strip y" "2 \<le> length s"
    using None by (auto simp: split_structure_def split: if_splits)
  have "length x \<le> length (butlast (tl s))" using length_strip [of y] split_str_length [OF y(1)] y(2) by simp
  then show ?thesis using y(3) by simp
next
  case (Some body)
  assume "split_structure s = Some (sh, xs)" "x \<in> set xs"
  then obtain row where row: "row \<in> set (matrix_rows body)" "x \<in> set row"
    using Some by (auto simp: split_structure_def Let_def split: if_splits)
  then obtain r c where "r \<in> set (split_str (tex [CHR 0x5C]) body)" "c \<in> set (split_str ''&'' r)" "x = strip c"
    by (auto simp: matrix_rows_def)
  then have "length x \<le> length body" using length_strip [of c] split_str_length [of c] split_str_length [of r] by fastforce
  then show ?thesis using matrix_body_length [OF Some] by simp
qed

lemma re_sub_length:
  assumes "\<And>s out rest. m s = Some (out, rest) \<Longrightarrow> length out + length rest \<le> length s"
  shows "length (re_sub m s) \<le> length s"
  using assms
proof (induction m s rule: re_sub.induct)
  case (2 m c r)
  show ?case
  proof (cases "m (c # r)")
    case None
    then show ?thesis using "2.IH"(1) [OF None "2.prems"] by simp
  next
    case (Some p)
    obtain out rest where p: "p = (out, rest)" by (cases p)
    show ?thesis
    proof (cases "length rest < length (c # r)")
      case True
      from "2.IH"(2) [OF Some p [symmetric] True "2.prems"] "2.prems" [OF Some [unfolded p]] True
      show ?thesis by (simp add: Some p)
    next
      case False
      from "2.IH"(3) [OF Some p [symmetric] False "2.prems"] False show ?thesis by (simp add: Some p)
    qed
  qed
qed simp

lemma begins_length: "begins p s \<Longrightarrow> length p \<le> length s"
  by (metis begins_def length_take min.cobounded1)

lemma replace_length: "length out \<le> length p \<Longrightarrow> length (replace p out s) \<le> length s"
  unfolding replace_def
  by (rule re_sub_length) (auto simp: literal_def dest: begins_length split: if_splits)

lemma replace_each_length: "\<forall>(p, out)\<in>set ps. length out \<le> length p \<Longrightarrow> length (replace_each ps s) \<le> length s"
  by (induction ps s rule: replace_each.induct) (auto intro: order_trans dest: replace_length)

lemma optional_length: "length (optional_char c s) \<le> length s"
  by (auto simp: optional_char_def split: list.splits)

lemma m_circ_length: "m_circ s = Some (out, rest) \<Longrightarrow> length out + length rest \<le> length s"
proof -
  assume m: "m_circ s = Some (out, rest)"
  then obtain c r where s: "s = c # r" by (auto simp: m_circ_def split: list.splits)
  let ?r1 = "dropWhile py_space (optional_char CHR ''{'' (dropWhile py_space r))"
  have r1: "length ?r1 \<le> length r"
    by (meson length_dropWhile_le optional_length order_trans)
  have "out = []" "rest = optional_char CHR ''}'' (dropWhile py_space (drop 5 ?r1))"
    using m by (auto simp: m_circ_def s Let_def split: if_splits)
  then show ?thesis using r1 optional_length [of "CHR ''}''" "dropWhile py_space (drop 5 ?r1)"]
      length_dropWhile_le [of py_space "drop 5 ?r1"] by (simp add: s)
qed

lemma m_wrapped_length: "m_wrapped name s = Some (out, rest) \<Longrightarrow> length out + length rest \<le> length s"
proof -
  assume m: "m_wrapped name s = Some (out, rest)"
  let ?r = "drop (length name + 2) s"
  have "length ?r = length (takeWhile (\<lambda>c. c \<noteq> CHR ''}'') ?r) + length (dropWhile (\<lambda>c. c \<noteq> CHR ''}'') ?r)"
    by (metis length_append takeWhile_dropWhile_id)
  with m show ?thesis by (auto simp: m_wrapped_def Let_def split: if_splits list.splits)
qed

lemma plain_pass_length: "length (plain_pass s) \<le> length s"
proof -
  have "length (strip_dots t) \<le> length t" for t by (simp add: strip_dots_def) (metis length_dropWhile_le length_rev)
  then have f: "length (filter (\<lambda>c. \<not> py_space c) (strip (strip_dots (strip s)))) \<le> length s"
    by (meson length_filter_le length_strip order_trans)
  have "length (if 1 < length t \<and> hd t = CHR ''+'' then tl t else t) \<le> length t" for t :: string by simp
  then show ?thesis using f unfolding plain_pass_def Let_def
    by (auto intro: order_trans [OF length_takeWhile_le] order_trans [OF diff_le_self])
qed

lemma normalize_length: "length (normalize_answer (Some s)) \<le> length s"
proof -
  have a: "length (macro_pass t) \<le> length t" for t
    unfolding macro_pass_def by (rule replace_each_length) (simp add: tex_def)
  have b: "length (unit_pass t) \<le> length t" for t
    unfolding unit_pass_def
    by (rule order_trans [OF replace_each_length re_sub_length [OF m_circ_length]]) (simp_all add: tex_def)
  have c: "length (text_pass t) \<le> length t" for t
    unfolding text_pass_def
    by (rule order_trans [OF replace_each_length order_trans [OF re_sub_length [OF m_wrapped_length] re_sub_length [OF m_wrapped_length]]])
      (simp_all add: tex_def)
  show ?thesis unfolding normalize_answer_def using a b c plain_pass_length by (simp, meson order_trans)
qed

lemma element_shorter:
  "Some (sh, xs) = split_structure s \<Longrightarrow> x \<in> set xs \<Longrightarrow> length (normalize_answer (Some x)) < length s"
  by (metis le_less_trans normalize_length split_structure_shorter)

section \<open>Comparison and reward\<close>

text \<open>Same-shape structures compare element by element, each element normalised again.\<close>

function answers_equal :: "sympy \<Rightarrow> string \<Rightarrow> string \<Rightarrow> bool" where
  "answers_equal sy candidate gt =
     (let scalars =
        (case (answer_number candidate, answer_number gt) of
           (Some c, Some g) \<Rightarrow> c = g
         | _ \<Rightarrow> candidate = gt \<or> latex_value_equal sy candidate gt \<or> latex_symbolic_equal sy candidate gt) in
      case (split_structure candidate, split_structure gt) of
        (Some (cs, xs), Some (gs, ys)) \<Rightarrow>
          if cs = gs
          then length xs = length ys
             \<and> list_all (\<lambda>(a, b). answers_equal sy (normalize_answer (Some a)) (normalize_answer (Some b))) (zip xs ys)
          else scalars
      | _ \<Rightarrow> scalars)"
  by pat_completeness auto

termination
  by (relation "measure (\<lambda>(sy, candidate, gt). length candidate)") (auto dest!: set_zip_leftD intro: element_shorter)

declare answers_equal.simps [simp del]

definition compute_omi_reward :: "sympy \<Rightarrow> string option \<Rightarrow> string \<Rightarrow> real" where
  "compute_omi_reward sy ground_truth completion =
     (let boxed = last_boxed_only_string completion;
          tail = strip (List.last (split_str [CHR 0x0A] (strip completion)));
          candidate =
            (case boxed of
               Some b \<Rightarrow> Some (normalize_answer (Some (strip_boxed_wrapper b)))
             | None \<Rightarrow>
                 (case scan_number tail of
                    None \<Rightarrow> None
                  | Some (n, rest) \<Rightarrow> Some (normalize_answer (Some (take (length tail - length rest) tail)))));
          gt = normalize_answer ground_truth in
      case candidate of
        None \<Rightarrow> 0
      | Some c \<Rightarrow> if gt = [] then 0 else if answers_equal sy c gt then 1 else 0)"

section \<open>A right answer in a box scores\<close>

lemma answers_equal_refl: "answers_equal sy c c"
proof (induction "length c" arbitrary: c rule: less_induct)
  case less
  have "answers_equal sy (normalize_answer (Some a)) (normalize_answer (Some b))"
    if "(a, b) \<in> set (zip xs xs)" "split_structure c = Some (sh, xs)" for a b sh xs
  proof -
    have "b = a" "a \<in> set xs" using that(1) by (auto simp: in_set_zip)
    then show ?thesis using less [OF element_shorter [OF that(2) [symmetric]]] by simp
  qed
  then show ?case
    by (subst answers_equal.simps) (auto simp: Let_def list_all_iff split: option.splits)
qed

lemma rfind_skip: "\<forall>c\<in>set x. c \<noteq> CHR 0x5C \<Longrightarrow> rfind (tex p) t = None \<Longrightarrow> rfind (tex p) (x @ t) = None"
  by (induction x) (auto simp: begins_def tex_def)

lemma rfind_here: "begins p (c # r) \<Longrightarrow> rfind p r = None \<Longrightarrow> rfind p (pre @ c # r) = Some (length pre)"
  by (induction pre) auto

lemma rfind_bound: "rfind p s = None \<Longrightarrow> p \<noteq> [] \<Longrightarrow> rfind p (pre @ s) = Some k \<Longrightarrow> k < length pre"
proof (induction pre arbitrary: k)
  case (Cons c pre)
  then show ?case by (auto split: option.splits if_splits)
qed simp

text \<open>Text whose braces are balanced, read with that many braces open.\<close>

fun balanced :: "nat \<Rightarrow> string \<Rightarrow> bool" where
  "balanced n [] = (n = 0)"
| "balanced n (c # r) =
     (if c = CHR ''{'' then balanced (Suc n) r
      else if c = CHR ''}'' then 0 < n \<and> balanced (n - 1) r else balanced n r)"

lemma close_balanced:
  "balanced n ans \<Longrightarrow> close_brace (int n + 1) (ans @ ''}'' @ post) = Some (ans @ ''}'')"
proof (induction n ans rule: balanced.induct)
  case (2 n c r)
  then show ?case by (cases n) (auto simp: Let_def add.commute split: if_splits)
qed simp

lemma boxed_extracted:
  assumes "balanced 0 ans" and "rfind (tex ''boxed{'') (ans @ ''}'' @ post) = None" and "rfind (tex ''fbox{'') (ans @ ''}'' @ post) = None"
  shows "map_option strip_boxed_wrapper (last_boxed_only_string (pre @ tex ''boxed{'' @ ans @ ''}'' @ post)) = Some ans"
proof -
  define rest where "rest = ans @ ''}'' @ post"
  define whole where "whole = pre @ tex ''boxed{'' @ rest"
  have none: "rfind (tex ''boxed{'') (''boxed{'' @ rest) = None" "rfind (tex ''fbox{'') (tex ''boxed{'' @ rest) = None"
    using rfind_skip [of "''boxed{''" "''boxed{''" rest] rfind_skip [of "''boxed{''" "''fbox{''" rest] assms(2,3)
    by (simp_all add: tex_def begins_def rest_def)
  have hit: "rfind (tex ''boxed{'') whole = Some (length pre)"
    using rfind_here [of "tex ''boxed{''" "CHR 0x5C" "''boxed{'' @ rest" pre] none(1) by (simp add: tex_def begins_def whole_def)
  have other: "k < length pre" if "rfind (tex ''fbox{'') whole = Some k" for k
    using rfind_bound [OF none(2) _ that [unfolded whole_def]] by (simp add: tex_def)
  define hits where "hits = List.map_filter id [rfind (tex ''boxed{'') whole, rfind (tex ''fbox{'') whole]"
  have hits: "hits \<noteq> []" "Max (set hits) = length pre"
    using other by (cases "rfind (tex ''fbox{'') whole"; simp add: hits_def hit map_filter_simps)+
  have cut: "takeWhile (\<lambda>c. c \<noteq> CHR ''{'') (drop (length pre) whole) = tex ''boxed''"
    "drop (length (tex ''boxed'')) (drop (length pre) whole) = CHR ''{'' # rest"
    by (simp_all add: tex_def whole_def)
  have "close_brace 0 (CHR ''{'' # rest) = Some (CHR ''{'' # ans @ ''}'')"
    using close_balanced [OF assms(1), of post] by (simp add: rest_def)
  then have "last_boxed_only_string whole = Some (tex ''boxed'' @ CHR ''{'' # ans @ ''}'')"
    unfolding last_boxed_only_string_def Let_def hits_def [symmetric] hits(2) cut using hits(1) by simp
  moreover have "strip_boxed_wrapper (tex ''boxed'' @ CHR ''{'' # ans @ ''}'') = ans"
    by (simp add: strip_boxed_wrapper_def begins_def tex_def)
  ultimately show ?thesis by (simp add: whole_def rest_def)
qed

lemma boxed_reward:
  assumes "balanced 0 ans" and "rfind (tex ''boxed{'') (ans @ ''}'' @ post) = None" and "rfind (tex ''fbox{'') (ans @ ''}'' @ post) = None"
    and "normalize_answer gt \<noteq> []"
  shows "compute_omi_reward sy gt (pre @ tex ''boxed{'' @ ans @ ''}'' @ post) =
    (if answers_equal sy (normalize_answer (Some ans)) (normalize_answer gt) then 1 else 0)"
  using boxed_extracted [OF assms(1-3), of pre] assms(4)
  by (auto simp: compute_omi_reward_def Let_def)

text \<open>
  C25. A right answer in a box scores: whatever stands before it, if the last \<open>\boxed\<close> of a completion, with no other box macro
  after it, holds text with balanced braces that has the same normal form as the expected answer, and that form is not empty, the
  reward is 1, for matrices, tuples and expressions as for numbers and whatever \<open>sympy\<close> does.
\<close>

theorem boxed_answer_scores:
  assumes "balanced 0 ans" and "rfind (tex ''boxed{'') (ans @ ''}'' @ post) = None" and "rfind (tex ''fbox{'') (ans @ ''}'' @ post) = None"
    and "normalize_answer (Some ans) = normalize_answer gt" and "normalize_answer gt \<noteq> []"
  shows "compute_omi_reward sy gt (pre @ tex ''boxed{'' @ ans @ ''}'' @ post) = 1"
  unfolding boxed_reward [OF assms(1-3,5)] assms(4) by (simp add: answers_equal_refl)

theorem boxed_answer_scores_witness:
  "compute_omi_reward \<lparr> sy_parse = \<lambda>s. Inl TypeError, sy_evalf = \<lambda>e. Inl TypeError, sy_expand_is_zero = \<lambda>a b. Inl TypeError \<rparr>
     (Some '' x^{2}.'') (''so '' @ tex ''boxed{'' @ ''x^{2}'' @ ''}'' @ '' ok'') = 1"
  by (rule boxed_answer_scores) code_simp+

section \<open>Numbers are compared by value\<close>

definition number_char :: "char \<Rightarrow> bool" where
  "number_char c = (is_digit c \<or> c \<in> set ''+-./'')"

lemma optional_digits_chars:
  "optional_digits c s = (d, r) \<Longrightarrow> number_char c \<Longrightarrow> list_all number_char r \<Longrightarrow> list_all number_char s"
proof -
  assume o: "optional_digits c s = (d, r)" "number_char c" "list_all number_char r"
  have "list_all number_char t" if "list_all number_char (dropWhile is_digit t)" for t
    using that by (induction t) (auto simp: number_char_def split: if_splits)
  then show ?thesis using o by (auto simp: optional_digits_def split: list.splits if_splits)
qed

lemma number_chars: "answer_number s = Some q \<Longrightarrow> list_all number_char s \<and> s \<noteq> []"
proof -
  assume "answer_number s = Some q"
  then obtain n where n: "scan_number s = Some (n, [])"
    by (auto simp: answer_number_def split: option.splits prod.splits list.splits)
  define r where "r = (if s \<noteq> [] \<and> hd s \<in> {CHR ''-'', CHR ''+''} then tl s else s)"
  obtain dec r1 den where d: "optional_digits CHR ''.'' (dropWhile is_digit r) = (dec, r1)" "optional_digits CHR ''/'' r1 = (den, [])"
    and ne: "takeWhile is_digit r \<noteq> []"
    using n unfolding scan_number_def Let_def r_def [symmetric] by (auto split: prod.splits if_splits)
  have "list_all number_char r1" using optional_digits_chars [OF d(2)] by (simp add: number_char_def)
  then have "list_all number_char (dropWhile is_digit r)" using optional_digits_chars [OF d(1)] by (simp add: number_char_def)
  then have "list_all number_char r" by (induction r) (auto simp: number_char_def split: if_splits)
  moreover have "s \<noteq> []" using ne by (auto simp: r_def split: if_splits)
  ultimately show ?thesis by (cases s) (auto simp: r_def number_char_def split: if_splits)
qed

lemma no_matrix: "CHR 0x5C \<notin> set s \<Longrightarrow> matrix_body s = None"
  by (induction s rule: matrix_body.induct) (auto simp: after_env_def begins_def tex_def split: option.splits)

lemma number_unstructured: "list_all number_char s \<Longrightarrow> s \<noteq> [] \<Longrightarrow> split_structure s = None"
proof -
  assume s: "list_all number_char s" "s \<noteq> []"
  have bad: "\<not> number_char CHR 0x5C" "\<not> number_char CHR ''(''" "\<not> number_char CHR ''[''" by code_simp+
  have "CHR 0x5C \<notin> set s" using s(1) bad(1) by (metis list_all_iff)
  moreover have "number_char (hd s)" using s by (cases s) auto
  then have "hd s \<notin> {CHR ''('', CHR ''[''}" using bad(2,3) by (metis empty_iff insert_iff)
  ultimately show ?thesis by (simp add: split_structure_def no_matrix)
qed

lemma numbers_equal: "answer_number c = Some a \<Longrightarrow> answer_number g = Some b \<Longrightarrow> answers_equal sy c g = (a = b)"
proof -
  assume n: "answer_number c = Some a" "answer_number g = Some b"
  have "split_structure c = None" using number_chars [OF n(1)] number_unstructured by blast
  then show ?thesis using n by (subst answers_equal.simps) (simp add: Let_def)
qed

text \<open>
  C23. Numbers are graded by their exact value: when the boxed answer and the expected one both
  normalise to an integer, a decimal or a fraction, within the digits \<open>int\<close> accepts, the reward is 1 if the two rationals
  are equal and 0 otherwise, with no tolerance and no parser in between.
\<close>

theorem numbers_graded_exactly:
  assumes "balanced 0 ans" and "rfind (tex ''boxed{'') (ans @ ''}'' @ post) = None" and "rfind (tex ''fbox{'') (ans @ ''}'' @ post) = None"
    and "answer_number (normalize_answer (Some ans)) = Some a" and "answer_number (normalize_answer gt) = Some b"
  shows "compute_omi_reward sy gt (pre @ tex ''boxed{'' @ ans @ ''}'' @ post) = (if a = b then 1 else 0)"
  using boxed_reward [OF assms(1-3), of gt sy pre] numbers_equal [OF assms(4,5)] number_chars [OF assms(5)] by simp

theorem numbers_graded_exactly_witness:
  "compute_omi_reward \<lparr> sy_parse = \<lambda>s. Inl TypeError, sy_evalf = \<lambda>e. Inl TypeError, sy_expand_is_zero = \<lambda>a b. Inl TypeError \<rparr>
     (Some ''3/2'') (''so '' @ tex ''boxed{'' @ '' 1.50'' @ ''}'' @ []) = (if (3 / 2 :: rat) = 3 / 2 then 1 else 0)"
proof (rule numbers_graded_exactly)
  show "answer_number (normalize_answer (Some ''3/2'')) = Some (3 / 2)" by code_simp
  show "answer_number (normalize_answer (Some '' 1.50'')) = Some (3 / 2)" by code_simp
qed code_simp+

text \<open>
  A row separator followed by a space is eaten by the removal of the macro for a space, so the same
  matrix written with and without that space takes two shapes, two by two and one by three,
  and the right answer gets the reward 0.
\<close>

definition demo_matrix :: "string \<Rightarrow> string" where
  "demo_matrix sep = tex ''begin{pmatrix}1&2'' @ sep @ ''3&4'' @ tex ''end{pmatrix}''"

theorem matrix_separator_eaten:
  "map_option fst (split_structure (normalize_answer (Some (demo_matrix (tex [CHR 0x5C]))))) = Some (Matrix 2 2)
   \<and> map_option fst (split_structure (normalize_answer (Some (demo_matrix (tex (CHR 0x5C # '' '')))))) = Some (Matrix 1 3)
   \<and> compute_omi_reward sy (Some (demo_matrix (tex [CHR 0x5C])))
        (tex ''boxed{'' @ demo_matrix (tex (CHR 0x5C # '' '')) @ ''}'') = 0"
proof -
  let ?a = "normalize_answer (Some (demo_matrix (tex (CHR 0x5C # '' ''))))" and ?b = "normalize_answer (Some (demo_matrix (tex [CHR 0x5C])))"
  have shapes: "map_option fst (split_structure ?b) = Some (Matrix 2 2)" "map_option fst (split_structure ?a) = Some (Matrix 1 3)"
    "answer_number ?a = None" "?a \<noteq> ?b" "?b \<noteq> []"
    "latex_to_pyexpr ?a = None"
    by code_simp+
  have "\<not> answers_equal sy ?a ?b"
    using shapes by (subst answers_equal.simps)
      (auto simp: Let_def latex_value_equal_def latex_symbolic_equal_def split: option.splits)
  moreover have box: "balanced 0 (demo_matrix (tex (CHR 0x5C # '' '')))"
    "rfind (tex ''boxed{'') (demo_matrix (tex (CHR 0x5C # '' '')) @ ''}'' @ []) = None"
    "rfind (tex ''fbox{'') (demo_matrix (tex (CHR 0x5C # '' '')) @ ''}'' @ []) = None"
    by code_simp+
  ultimately have "compute_omi_reward sy (Some (demo_matrix (tex [CHR 0x5C])))
      ([] @ tex ''boxed{'' @ demo_matrix (tex (CHR 0x5C # '' '')) @ ''}'' @ []) = 0"
    unfolding boxed_reward [OF box shapes(5)] by simp
  then show ?thesis using shapes by simp
qed

section \<open>The whitelist of words\<close>

text \<open>The maximal runs of letters of a text.\<close>

function letter_runs :: "string \<Rightarrow> string list" where
  "letter_runs [] = []"
| "letter_runs (c # r) =
     (if letter c then (c # takeWhile letter r) # letter_runs (dropWhile letter r) else letter_runs r)"
  by pat_completeness auto
termination by (relation "measure length") (auto simp: le_imp_less_Suc length_dropWhile_le)

lemma runs_induct [case_names Nil other run]:
  assumes "P []" and "\<And>c r. \<not> letter c \<Longrightarrow> P r \<Longrightarrow> P (c # r)"
    and "\<And>w t. w \<noteq> [] \<Longrightarrow> list_all letter w \<Longrightarrow> \<not> starts_letter t \<Longrightarrow> P t \<Longrightarrow> P (w @ t)"
  shows "P s"
proof (induction s rule: letter_runs.induct)
  case (2 c r)
  show ?case
  proof (cases "letter c")
    case True
    have "list_all letter (c # takeWhile letter r)" using True by (auto simp: list_all_iff dest: set_takeWhileD)
    moreover have "\<not> starts_letter (dropWhile letter r)"
      by (induction r) (auto simp: starts_letter_def)
    ultimately have "P ((c # takeWhile letter r) @ dropWhile letter r)" using assms(3) "2.IH"(1) [OF True] by blast
    then show ?thesis by simp
  next
    case False
    then show ?thesis using assms(2) "2.IH"(2) by blast
  qed
qed (rule assms(1))

lemma letter_runs_run:
  "w \<noteq> [] \<Longrightarrow> list_all letter w \<Longrightarrow> \<not> starts_letter t \<Longrightarrow> letter_runs (w @ t) = w # letter_runs t"
proof -
  assume a: "w \<noteq> []" "list_all letter w" "\<not> starts_letter t"
  then obtain c v where w: "w = c # v" by (cases w) auto
  have t: "takeWhile letter t = []" "dropWhile letter t = t" using a(3) by (cases t; simp add: starts_letter_def)+
  show ?thesis using a t by (simp add: w takeWhile_append dropWhile_append list_all_iff)
qed

lemma letter_runs_other: "list_all (\<lambda>c. \<not> letter c) s \<Longrightarrow> letter_runs s = []"
  by (induction s) auto

lemma name_here_starts: "name_here (c # r) \<noteq> None \<Longrightarrow> letter c"
  by (auto simp: name_here_def begins_def letter_def split: if_splits)

lemma drop_names_other: "\<not> letter c \<Longrightarrow> drop_names prev (c # r) = c # drop_names (Some c) r"
  using name_here_starts [of c r] by (cases "name_here (c # r)") auto

lemma drop_names_inside:
  "list_all letter w \<Longrightarrow> after_letter prev \<Longrightarrow> w \<noteq> [] \<Longrightarrow> drop_names prev (w @ t) = w @ drop_names (Some (List.last w)) t"
proof (induction w arbitrary: prev)
  case (Cons c w)
  show ?case
  proof (cases "w = []")
    case True
    then show ?thesis using Cons.prems by simp
  next
    case False
    with Cons.IH [of "Some c"] Cons.prems show ?thesis by (simp add: after_letter_def)
  qed
qed simp

lemma name_here_run:
  assumes "w \<noteq> []" and "list_all letter w" and "\<not> starts_letter t"
  shows "name_here (w @ t) = (if w = ''sqrt'' then Some 4 else if w = ''pi'' then Some 2 else None)"
proof -
  have hit: "begins p (w @ t) \<and> \<not> starts_letter (drop (length p) (w @ t)) \<longleftrightarrow> w = p"
    if p: "list_all letter p" for p
  proof
    assume b: "begins p (w @ t) \<and> \<not> starts_letter (drop (length p) (w @ t))"
    consider "length w < length p" | "length p < length w" | "length p = length w" by linarith
    then show "w = p"
    proof cases
      case 1
      then obtain c u where cu: "drop (length w) p = c # u" by (cases "drop (length w) p") auto
      have "take (length p) (w @ t) = p" using b by (simp add: begins_def)
      then have "take (length p - length w) t = drop (length w) p" using 1 by (metis append_eq_conv_conj less_imp_le take_append take_all)
      then have "t \<noteq> [] \<and> hd t = c" using cu by (cases t; cases "length p - length w") auto
      moreover have "letter c" using p cu by (metis list.set_intros(1) in_set_dropD list_all_iff)
      ultimately show ?thesis using assms(3) by (cases t) (auto simp: starts_letter_def)
    next
      case 2
      then obtain c u where cu: "drop (length p) w = c # u" by (cases "drop (length p) w") auto
      then have "letter c" using assms(2) by (metis list.set_intros(1) in_set_dropD list_all_iff)
      then show ?thesis using b 2 cu by (simp add: starts_letter_def)
    next
      case 3
      then show ?thesis using b by (simp add: begins_def)
    qed
  next
    assume "w = p"
    then show "begins p (w @ t) \<and> \<not> starts_letter (drop (length p) (w @ t))" using assms(3) by (simp add: begins_def)
  qed
  have l: "list_all letter ''sqrt''" "list_all letter ''pi''" by code_simp+
  have n: "length ''sqrt'' = 4" "length ''pi'' = 2" by simp_all
  show ?thesis unfolding name_here_def hit [OF l(1), unfolded n] hit [OF l(2), unfolded n] by simp
qed

lemma drop_names_run:
  assumes "w \<noteq> []" and "list_all letter w" and "\<not> starts_letter t" and "\<not> after_letter prev"
  shows "drop_names prev (w @ t) = (if w \<in> {''sqrt'', ''pi''} then [] else w) @ drop_names (Some (List.last w)) t"
proof -
  obtain c v where w: "w = c # v" using assms(1) by (cases w) auto
  show ?thesis
  proof (cases "w \<in> {''sqrt'', ''pi''}")
    case True
    then show ?thesis using name_here_run [OF assms(1-3)] assms(4) by (auto simp: w)
  next
    case False
    then have "name_here (c # v @ t) = None" using name_here_run [OF assms(1-3)] by (simp add: w)
    then have "drop_names prev (w @ t) = c # drop_names (Some c) (v @ t)" using assms(4) by (simp add: w)
    also have "drop_names (Some c) (v @ t) = v @ drop_names (Some (List.last w)) t"
      using drop_names_inside [of v "Some c" t] assms(2) by (cases "v = []") (auto simp: w after_letter_def)
    finally show ?thesis using False by (simp add: w)
  qed
qed

lemma drop_names_runs:
  "\<not> after_letter prev \<or> \<not> starts_letter s \<Longrightarrow>
     letter_runs (drop_names prev s) = filter (\<lambda>w. w \<notin> {''sqrt'', ''pi''}) (letter_runs s)
     \<and> filter (\<lambda>c. \<not> letter c) (drop_names prev s) = filter (\<lambda>c. \<not> letter c) s
     \<and> (\<not> starts_letter s \<longrightarrow> \<not> starts_letter (drop_names prev s))"
proof (induction s arbitrary: prev rule: runs_induct)
  case (other c r)
  have "\<not> after_letter (Some c)" using other.hyps by (simp add: after_letter_def)
  with other.IH [of "Some c"] other.hyps show ?case
    unfolding drop_names_other [OF other.hyps(1)] by (simp add: starts_letter_def)
next
  case (run w t)
  have prev: "\<not> after_letter prev" using run.prems run.hyps by (cases w) (auto simp: starts_letter_def)
  have start: "starts_letter (w @ t)" using run.hyps by (cases w) (auto simp: starts_letter_def)
  let ?X = "drop_names (Some (List.last w)) t"
  have IH: "letter_runs ?X = filter (\<lambda>w. w \<notin> {''sqrt'', ''pi''}) (letter_runs t)"
    "filter (\<lambda>c. \<not> letter c) ?X = filter (\<lambda>c. \<not> letter c) t" "\<not> starts_letter ?X"
    using run.IH [of "Some (List.last w)"] run.hyps(3) by simp_all
  have w: "filter (\<lambda>c. \<not> letter c) w = []" using run.hyps(2) by (induction w) auto
  show ?case
    using IH start w letter_runs_run [OF run.hyps(1,2) IH(3)] letter_runs_run [OF run.hyps]
    unfolding drop_names_run [OF run.hyps prev] by simp
qed simp

text \<open>The second pass keeps every run of two letters or more, and every other character.\<close>

lemma drop_letters_inside:
  "list_all letter w \<Longrightarrow> after_letter prev \<Longrightarrow> drop_letters prev (w @ t) = w @ drop_letters (if w = [] then prev else Some (List.last w)) t"
  by (induction w arbitrary: prev) (auto simp: after_letter_def)

lemma drop_letters_keeps:
  "c \<in> set (drop_letters prev s) \<Longrightarrow> c \<in> set s"
  by (induction prev s rule: drop_letters.induct) (auto split: if_splits)

lemma drop_letters_other: "filter (\<lambda>c. \<not> letter c) (drop_letters prev s) = filter (\<lambda>c. \<not> letter c) s"
  by (induction prev s rule: drop_letters.induct) auto

lemma drop_letters_runs:
  "list_all (\<lambda>c. \<not> letter c) (drop_letters prev s) \<Longrightarrow> \<not> after_letter prev \<or> \<not> starts_letter s \<Longrightarrow>
     \<forall>w\<in>set (letter_runs s). length w = 1"
proof (induction s arbitrary: prev rule: runs_induct)
  case (other c r)
  have "\<not> after_letter (Some c)" using other.hyps by (simp add: after_letter_def)
  with other.IH [of "Some c"] other.hyps other.prems show ?case by simp
next
  case (run w t)
  have prev: "\<not> after_letter prev" using run.prems(2) run.hyps by (cases w) (auto simp: starts_letter_def)
  obtain c v where w: "w = c # v" "letter c" using run.hyps by (cases w) auto
  have v: "v = []"
  proof (rule ccontr)
    assume "v \<noteq> []"
    then have "starts_letter (v @ t)" using run.hyps(2) by (cases v) (auto simp: w starts_letter_def)
    then have "letter c \<and> c \<in> set (drop_letters prev (w @ t))" using w by simp
    then show False using run.prems(1) by (metis list_all_iff)
  qed
  have "list_all (\<lambda>c. \<not> letter c) (drop_letters (Some c) t)"
    using run.prems(1) by (simp add: w v split: if_splits)
  with run.IH [of "Some c"] run.hyps(3) letter_runs_run [OF run.hyps] show ?case by (simp add: w v)
qed simp

lemma operator_not_letter: "operator_char c \<Longrightarrow> \<not> letter c"
  by (auto simp: operator_char_def is_digit_def digit_value_def letter_def Let_def split: if_splits)

text \<open>
  C27. No foreign word reaches the expression parser: in a text the token whitelist admits, every run of letters is
  \<open>sqrt\<close> or \<open>pi\<close>, or a single letter where variables are allowed, and every other character is a
  digit, an operator, a parenthesis, a dot, a blank or a tab.
\<close>

theorem admitted_words:
  assumes "expr_str_is_safe s allow_symbols"
  shows "(\<forall>w\<in>set (letter_runs s). w \<in> {''sqrt'', ''pi''} \<or> allow_symbols \<and> length w = 1)
    \<and> (\<forall>c\<in>set s. \<not> letter c \<longrightarrow> operator_char c)"
proof -
  let ?t = "drop_names None s" and ?u = "if allow_symbols then drop_letters None (drop_names None s) else drop_names None s"
  have u: "list_all operator_char ?u" using assms by (simp add: expr_str_is_safe_def Let_def)
  then have plain: "list_all (\<lambda>c. \<not> letter c) ?u" using operator_not_letter by (auto simp: list_all_iff)
  note names = drop_names_runs [of None s, simplified after_letter_def, simplified]
  have "filter (\<lambda>c. \<not> letter c) ?u = filter (\<lambda>c. \<not> letter c) s" using names by (simp add: drop_letters_other)
  then have "set (filter (\<lambda>c. \<not> letter c) ?u) = set (filter (\<lambda>c. \<not> letter c) s)" by (rule arg_cong)
  then have "\<forall>c\<in>set s. \<not> letter c \<longrightarrow> operator_char c" using u unfolding list_all_iff by auto
  moreover have "\<forall>w\<in>set (letter_runs ?t). allow_symbols \<and> length w = 1"
  proof (cases allow_symbols)
    case True
    then show ?thesis using drop_letters_runs [of None ?t] plain by (simp add: after_letter_def)
  next
    case False
    then show ?thesis using plain letter_runs_other [of ?t] by simp
  qed
  ultimately show ?thesis using names by auto
qed

theorem admitted_words_witness:
  "expr_str_is_safe ''2sqrt(x)*pi'' True \<and> letter_runs ''2sqrt(x)*pi'' = [''sqrt'', ''x'', ''pi''] \<and> operator_char (CHR ''*'')"
proof -
  have safe: "expr_str_is_safe ''2sqrt(x)*pi'' True" by code_simp
  have "CHR ''*'' \<in> set ''2sqrt(x)*pi''" and "\<not> letter (CHR ''*'')" by code_simp+
  with admitted_words [OF safe] have "operator_char (CHR ''*'')" by blast
  moreover have "letter_runs ''2sqrt(x)*pi'' = [''sqrt'', ''x'', ''pi'']" by code_simp
  ultimately show ?thesis using safe by blast
qed

section \<open>The bound on an expansion\<close>

text \<open>
  The monomials of the expanded expression, as multisets of the parts that do not multiply
  out: a sum collects those of its terms, a product and a power multiply them.
\<close>

definition times_set :: "'a multiset set \<Rightarrow> 'a multiset set \<Rightarrow> 'a multiset set" where
  "times_set A B = (\<lambda>(a, b). a + b) ` (A \<times> B)"

fun power_set :: "'a multiset set \<Rightarrow> nat \<Rightarrow> 'a multiset set" where
  "power_set A 0 = {{#}}"
| "power_set A (Suc k) = times_set A (power_set A k)"

fun monomials :: "sexpr \<Rightarrow> sexpr multiset set" where
  "monomials (AddE es) = \<Union> (set (map monomials es))"
| "monomials (MulE es) = foldr times_set (map monomials es) {{#}}"
| "monomials (PowE b x) =
     (case read_exponent x of Inr (Some k) \<Rightarrow> power_set (monomials b) k | _ \<Rightarrow> {{#PowE b x#}})"
| "monomials e = {{#e#}}"

lemma finite_times_set [simp]: "finite A \<Longrightarrow> finite B \<Longrightarrow> finite (times_set A B)"
  by (simp add: times_set_def)

lemma card_times_set: "finite A \<Longrightarrow> finite B \<Longrightarrow> card (times_set A B) \<le> card A * card B"
  unfolding times_set_def by (metis card_cartesian_product card_image_le finite_cartesian_product)

lemma finite_power_set [simp]: "finite A \<Longrightarrow> finite (power_set A k)"
  by (induction k) auto

lemma finite_monomials [simp]: "finite (monomials e)"
proof (induction e rule: monomials.induct)
  case (2 es)
  then show ?case by (induction es) auto
qed (auto split: sum.splits option.splits)

text \<open>The multisets of a given size over a finite set, counted with repetition.\<close>

definition msets :: "'a set \<Rightarrow> nat \<Rightarrow> 'a multiset set" where
  "msets A k = {M. set_mset M \<subseteq> A \<and> size M = k}"

lemma msets_zero [simp]: "msets A 0 = {{#}}"
  by (auto simp: msets_def)

lemma msets_empty [simp]: "msets {} (Suc k) = {}"
  by (auto simp: msets_def)

lemma msets_insert: "msets (insert a A) (Suc k) \<subseteq> msets A (Suc k) \<union> add_mset a ` msets (insert a A) k"
proof
  fix M
  assume M: "M \<in> msets (insert a A) (Suc k)"
  show "M \<in> msets A (Suc k) \<union> add_mset a ` msets (insert a A) k"
  proof (cases "a \<in># M")
    case True
    then have "M = add_mset a (M - {#a#})" "set_mset (M - {#a#}) \<subseteq> insert a A" "size (M - {#a#}) = k"
      using M by (auto simp: msets_def size_Diff_singleton dest: in_diffD)
    then show ?thesis by (auto simp: msets_def)
  next
    case False
    then show ?thesis using M by (auto simp: msets_def)
  qed
qed

lemma card_msets:
  assumes "finite A"
  shows "finite (msets A k) \<and> card (msets A k) \<le> (card A + k - 1) choose k"
  using assms
proof (induction "card A + k" arbitrary: A k rule: less_induct)
  case less
  show ?case
  proof (cases k)
    case (Suc m)
    show ?thesis
    proof (cases "A = {}")
      case False
      then obtain a B where A: "A = insert a B" "a \<notin> B" by (metis Set.set_insert all_not_in_conv)
      then have B: "finite B" "card A = Suc (card B)" using less.prems by auto
      have i: "finite (msets B k)" "card (msets B k) \<le> (card B + k - 1) choose k"
        using less.hyps [of B k] B by auto
      have j: "finite (msets A m)" "card (msets A m) \<le> (card A + m - 1) choose m"
        using less.hyps [of A m] less.prems Suc by auto
      have sub: "msets A k \<subseteq> msets B k \<union> add_mset a ` msets A m" using msets_insert [of a B m] by (simp add: A(1) Suc)
      have fin: "finite (msets B k \<union> add_mset a ` msets A m)" using i(1) j(1) by simp
      have "card (msets A k) \<le> card (msets B k) + card (msets A m)"
        using card_mono [OF fin sub] card_Un_le [of "msets B k" "add_mset a ` msets A m"] card_image_le [OF j(1), of "add_mset a"] by linarith
      also have "\<dots> \<le> ((card B + m) choose Suc m) + ((card B + m) choose m)"
        using i(2) j(2) B(2) Suc by (intro add_mono) simp_all
      also have "\<dots> = (card A + k - 1) choose k" using B(2) Suc by simp
      finally show ?thesis using finite_subset [OF sub fin] by simp
    qed (simp add: Suc)
  qed simp
qed

lemma power_set_msets: "power_set A k \<subseteq> sum_mset ` msets A k"
proof (induction k)
  case (Suc k)
  show ?case
  proof
    fix M
    assume "M \<in> power_set A (Suc k)"
    then obtain a b where ab: "M = a + b" "a \<in> A" "b \<in> power_set A k" by (auto simp: times_set_def)
    then obtain N where "N \<in> msets A k" "b = sum_mset N" using Suc by auto
    then have "add_mset a N \<in> msets A (Suc k)" "M = sum_mset (add_mset a N)" using ab by (auto simp: msets_def)
    then show "M \<in> sum_mset ` msets A (Suc k)" by blast
  qed
qed simp

lemma card_power_set: "finite A \<Longrightarrow> card (power_set A k) \<le> (card A + k - 1) choose k"
  by (meson card_image_le card_mono card_msets finite_imageI order_trans power_set_msets)

lemma choose_at_least: "n \<le> (n + j) choose Suc j"
proof (induction j)
  case (Suc j)
  have "(n + Suc j) choose Suc (Suc j) = ((n + j) choose Suc j) + ((n + j) choose Suc (Suc j))" by simp
  with Suc show ?case by linarith
qed simp

lemma power_bound:
  assumes "finite A" and "card A \<le> n"
  shows "card (power_set A k) \<le> (n + k - 1) choose k"
  using card_power_set [OF assms(1), of k] binomial_right_mono [of "card A + k - 1" "n + k - 1" k] assms(2)
  by linarith

lemma bounds_cover:
  "expand_term_bound cap e = Inr n \<Longrightarrow> n \<le> cap \<Longrightarrow> card (monomials e) \<le> n"
  "add_bound cap t es = Inr n \<Longrightarrow> n \<le> cap \<Longrightarrow> card (\<Union> (set (map monomials es))) + t \<le> n"
  "mul_bound cap p es = Inr n \<Longrightarrow> n \<le> cap \<Longrightarrow> p * card (foldr times_set (map monomials es) {{#}}) \<le> n"
proof (induction cap e and cap t es and cap p es arbitrary: n and n and n
    rule: expand_term_bound_add_bound_mul_bound.induct)
  case (3 cap b x)
  show ?case
  proof (cases "read_exponent x")
    case (Inr ko)
    show ?thesis
    proof (cases ko)
      case None
      then show ?thesis using "3.prems" Inr by simp
    next
      case (Some k)
      then obtain m where m: "expand_term_bound cap b = Inr m"
        and n: "n = (if m \<le> 1 then 1 else if (m + k - 1) choose k \<le> cap then (m + k - 1) choose k else cap + 1)"
        using "3.prems"(1) Inr by (fastforce simp: res_simps Let_def split: if_splits)
      have IH: "m \<le> cap \<Longrightarrow> card (monomials b) \<le> m" using "3.IH" [OF Inr Some m] .
      have mono: "monomials (PowE b x) = power_set (monomials b) k" by (simp add: Inr Some)
      show ?thesis
      proof (cases "m \<le> 1")
        case True
        then have "card (monomials b) \<le> 1" using IH "3.prems"(2) n by simp
        then show ?thesis using power_bound [of "monomials b" 1 k] True unfolding mono n by (cases k) simp_all
      next
        case False
        then have terms: "n = (m + k - 1) choose k" using n "3.prems"(2) by (auto split: if_splits)
        show ?thesis
        proof (cases k)
          case 0
          then show ?thesis using terms unfolding mono by simp
        next
          case (Suc j)
          then have "m \<le> cap" using choose_at_least [of m j] terms "3.prems"(2) by simp
          then show ?thesis using power_bound [OF finite_monomials IH] unfolding mono terms by simp
        qed
      qed
    qed
  qed (use "3.prems" in simp)
next
  case (9 cap t e es)
  then obtain m where m: "expand_term_bound cap e = Inr m" "t + m \<le> cap" "add_bound cap (t + m) es = Inr n"
    by (auto simp: res_simps split: if_splits)
  have "card (monomials e) \<le> m" using "9.IH"(1) [OF m(1)] m(2) by simp
  moreover have "card (\<Union> (set (map monomials es))) + (t + m) \<le> n"
    using "9.IH"(2) [OF _ m(3) "9.prems"(2)] m(2) by simp
  ultimately show ?case using card_Un_le [of "monomials e" "\<Union> (set (map monomials es))"] by simp
next
  case (11 cap p e es)
  then obtain m where m: "expand_term_bound cap e = Inr m" "p * m \<le> cap" "mul_bound cap (p * m) es = Inr n"
    by (auto simp: res_simps split: if_splits)
  let ?R = "foldr times_set (map monomials es) {{#}}"
  have fin: "finite ?R" by (induction es) auto
  show ?case
  proof (cases "p = 0")
    case False
    then have "m \<le> cap" using m(2) by (metis le_trans mult_le_cancel2 mult_1 not_less_eq_eq le_zero_eq One_nat_def)
    then have "card (monomials e) \<le> m" using "11.IH"(1) [OF m(1)] by simp
    then have "p * card (times_set (monomials e) ?R) \<le> p * (m * card ?R)"
      using card_times_set [OF finite_monomials fin, of e] by (meson le_trans mult_le_mono le_refl)
    also have "\<dots> \<le> n" using "11.IH"(2) [OF _ m(3) "11.prems"(2)] m(2) by (simp add: mult.assoc)
    finally show ?thesis by simp
  qed simp
qed auto

text \<open>
  The cost guard of the symbolic comparison is sound: where \<open>_expand_term_bound\<close> returns a
  number within the cap, the fully expanded expression has at most that many monomials, for
  sums, products and powers nested in any way.
\<close>

theorem expansion_is_bounded:
  assumes "expand_term_bound cap e = Inr n" and "n \<le> cap"
  shows "finite (monomials e) \<and> card (monomials e) \<le> n"
  using bounds_cover(1) [OF assms] by simp

theorem expansion_is_bounded_witness:
  "finite (monomials (PowE (AddE [SymbolE ''a'', SymbolE ''b'', SymbolE ''c'']) (NumberE (Inr (Fin 10)))))
   \<and> card (monomials (PowE (AddE [SymbolE ''a'', SymbolE ''b'', SymbolE ''c'']) (NumberE (Inr (Fin 10))))) \<le> 66"
proof (rule expansion_is_bounded [where cap = 2000])
  have "(12 choose 10 :: nat) = 66" by (simp add: binomial_symmetric [of 10 12] eval_nat_numeral)
  moreover have "trunc 10 = 10" using trunc_of_int [of 10] by simp
  ultimately show "expand_term_bound 2000 (PowE (AddE [SymbolE ''a'', SymbolE ''b'', SymbolE ''c'']) (NumberE (Inr (Fin 10)))) = Inr 66"
    by simp
qed simp

end
