(* ===== verification/CodeGrader.thy ===== *)
theory CodeGrader
  imports Checkpoint
begin

text \<open>
  \<open>reliquary/environment/code_grader_driver.py\<close> and \<open>code_grader.py\<close>: the miner's local grader of
  generated programs. Executing a program and calling one of its functions is the parameter
  \<open>sandbox\<close>, whose operations read and change the state of the driver's process, shared by all cases; what the driver decides around it is modelled: which imports and builtins are
  allowed, which function of a program is called, which outputs count as JSON, when two outputs
  are equal, how the passed cases are counted, and how the parent reads the answer of the
  subprocess. The lemmas say that the function chosen fits the call, that the comparison is
  reflexive and symmetric on outputs, and that the reward is the fraction of passed cases.
\<close>

section \<open>The sandbox's imports and builtins\<close>

definition ALLOWED_IMPORT_ROOTS :: "string list" where
  "ALLOWED_IMPORT_ROOTS =
     [''abc'', ''array'', ''bisect'', ''collections'', ''copy'', ''dataclasses'', ''decimal'', ''enum'', ''functools'',
      ''heapq'', ''itertools'', ''math'', ''operator'', ''re'', ''statistics'', ''string'', ''typing'']"

definition DENIED_BUILTINS :: "string list" where
  "DENIED_BUILTINS = [''breakpoint'', ''compile'', ''dir'', ''eval'', ''exec'', ''globals'', ''help'', ''input'', ''locals'', ''open'', ''vars'']"

definition safe_import :: "(string \<Rightarrow> 'm res) \<Rightarrow> string \<Rightarrow> int \<Rightarrow> 'm res" where
  "safe_import genuine name level =
     (if level \<noteq> 0 \<or> takeWhile (\<lambda>c. c \<noteq> CHR ''.'') name \<notin> set ALLOWED_IMPORT_ROOTS then Inl ImportError else genuine name)"

definition safe_builtins :: "'b \<Rightarrow> (string, 'b) dict \<Rightarrow> (string, 'b) dict" where
  "safe_builtins imp builtins = dset ''__import__'' imp (filter (\<lambda>(name, v). name \<notin> set DENIED_BUILTINS) builtins)"

section \<open>Outputs\<close>

text \<open>What a called function may return, as far as \<open>_json_safe\<close> tells values apart.\<close>

datatype pyval =
    VNone | VBool bool | VInt int | VFloat pyfloat | VStr string | VSeq "pyval list"
  | VDict "(pyval \<times> pyval) list" | VOther

fun json_safe :: "pyval \<Rightarrow> json res"
  and json_safe_seq :: "pyval list \<Rightarrow> json list res"
  and json_safe_items :: "(pyval \<times> pyval) list \<Rightarrow> (string, json) dict \<Rightarrow> (string, json) dict res" where
  "json_safe VNone = Inr JNull"
| "json_safe (VBool b) = Inr (JBool b)"
| "json_safe (VInt i) = Inr (JInt i)"
| "json_safe (VFloat (Fin x)) = Inr (JFloat (Fin x))"
| "json_safe (VFloat f) = Inl TypeError"
| "json_safe (VStr s) = Inr (JStr s)"
| "json_safe (VSeq vs) = rbind (json_safe_seq vs) (\<lambda>js. Inr (JList js))"
| "json_safe (VDict kvs) = rbind (json_safe_items kvs []) (\<lambda>d. Inr (JObj d))"
| "json_safe VOther = Inl TypeError"
| "json_safe_seq [] = Inr []"
| "json_safe_seq (v # vs) = rbind (json_safe v) (\<lambda>j. rbind (json_safe_seq vs) (\<lambda>js. Inr (j # js)))"
| "json_safe_items [] d = Inr d"
| "json_safe_items ((VStr k, v) # kvs) d = rbind (json_safe v) (\<lambda>j. json_safe_items kvs (dset k j d))"
| "json_safe_items ((k, v) # kvs) d = Inl TypeError"

section \<open>Comparison\<close>

text \<open>\<open>math.isclose(a, b, rel_tol=1e-6, abs_tol=1e-9)\<close>\<close>

fun isclose :: "pyfloat \<Rightarrow> pyfloat \<Rightarrow> bool" where
  "isclose (Fin a) (Fin b) = (\<bar>a - b\<bar> \<le> max (max \<bar>a\<bar> \<bar>b\<bar> / 10 ^ 6) (1 / 10 ^ 9))"
| "isclose PInf PInf = True"
| "isclose NInf NInf = True"
| "isclose _ _ = False"

function json_equal :: "json \<Rightarrow> json \<Rightarrow> bool" where
  "json_equal l r =
     (case (l, r) of
        (JBool a, JBool b) \<Rightarrow> a = b
      | (JInt a, JInt b) \<Rightarrow> a = b
      | (JInt a, JFloat b) \<Rightarrow> isclose (Fin (of_int a)) b
      | (JFloat a, JInt b) \<Rightarrow> isclose a (Fin (of_int b))
      | (JFloat a, JFloat b) \<Rightarrow> isclose a b
      | (JNull, JNull) \<Rightarrow> True
      | (JStr a, JStr b) \<Rightarrow> a = b
      | (JList xs, JList ys) \<Rightarrow> length xs = length ys \<and> list_all (\<lambda>(a, b). json_equal a b) (zip xs ys)
      | (JObj d, JObj e) \<Rightarrow>
          fst ` set d = fst ` set e
          \<and> list_all (\<lambda>(k, v). case map_of e k of Some w \<Rightarrow> json_equal v w | None \<Rightarrow> False) d
      | _ \<Rightarrow> False)"
  by pat_completeness auto

lemma size_in_list: "x \<in> set xs \<Longrightarrow> size (x :: json) < Suc (size_list size xs)"
  by (simp add: less_Suc_eq_le size_list_estimation')

lemma size_in_dict: "(k, v) \<in> set d \<Longrightarrow> size (v :: json) < Suc (size_list (size_prod (\<lambda>s. 0) size) d)"
  by (induction d) auto

termination json_equal
  by (relation "measure (\<lambda>(l, r). size l)") (auto dest!: set_zip_leftD dest: size_in_list size_in_dict)

declare json_equal.simps [simp del]

definition outputs_match :: "json \<Rightarrow> json \<Rightarrow> json \<Rightarrow> bool" where
  "outputs_match out expected compare = (compare = JStr ''exact'' \<and> json_equal out expected)"

section \<open>Which function is called\<close>

text \<open>
  The syntax tree as the driver walks it: a function with its body and its other children, a
  class, a return with its value, a call, a name, the constant \<open>None\<close>, and any other node.
\<close>

datatype pyast =
    FunDef string "pyast list" "pyast list" | ClassDef "string" "pyast list" | ReturnNode "pyast option"
  | CallNode pyast "pyast list" | NameRef string | NoneConst | OtherNode "pyast list"

datatype param_kind = PositionalOnly | PositionalOrKeyword | VarPositional | KeywordOnly | VarKeyword

record pyobj =
  ob_id :: nat
  ob_callable :: bool
  ob_class :: bool
  ob_params :: "(param_kind \<times> bool) list option"

text \<open>A module body, or \<open>None\<close> after a \<open>SyntaxError\<close>.\<close>

type_synonym parsed = "pyast list option"

fun defined_name :: "pyast \<Rightarrow> string list" where
  "defined_name (FunDef f body other) = [f]"
| "defined_name (ClassDef c sub) = [c]"
| "defined_name _ = []"

definition user_defined_names :: "parsed \<Rightarrow> string list" where
  "user_defined_names tree = (case tree of None \<Rightarrow> [] | Some body \<Rightarrow> remdups (concat (map defined_name body)))"

text \<open>A signature that cannot be read accepts any call; the flag of a parameter says it has a default.\<close>

definition accepts_arity :: "pyobj \<Rightarrow> nat \<Rightarrow> bool" where
  "accepts_arity fn nargs =
     (case ob_params fn of
        None \<Rightarrow> True
      | Some ps \<Rightarrow>
          (let positional = filter (\<lambda>p. fst p \<in> {PositionalOnly, PositionalOrKeyword}) ps;
               required = length (filter (\<lambda>p. \<not> snd p) positional) in
           required \<le> nargs \<and> (list_ex (\<lambda>p. fst p = VarPositional) ps \<or> nargs \<le> length positional)))"

fun function_name :: "pyast \<Rightarrow> string list" where
  "function_name (FunDef f body other) = [f]"
| "function_name _ = []"

definition defined_functions_in_order :: "parsed \<Rightarrow> string list" where
  "defined_functions_in_order tree = (case tree of None \<Rightarrow> [] | Some body \<Rightarrow> concat (map function_name body))"

text \<open>The names called directly anywhere below a node, the node included.\<close>

fun called_names :: "pyast \<Rightarrow> string set" where
  "called_names (FunDef f body other) = \<Union> (set (map called_names (body @ other)))"
| "called_names (ClassDef c sub) = \<Union> (set (map called_names sub))"
| "called_names (ReturnNode v) = (case v of None \<Rightarrow> {} | Some e \<Rightarrow> called_names e)"
| "called_names (CallNode fn args) =
     (case fn of NameRef f \<Rightarrow> {f} | _ \<Rightarrow> {}) \<union> called_names fn \<union> \<Union> (set (map called_names args))"
| "called_names (NameRef x) = {}"
| "called_names NoneConst = {}"
| "called_names (OtherNode sub) = \<Union> (set (map called_names sub))"

definition call_graph_roots :: "parsed \<Rightarrow> string set \<Rightarrow> string set" where
  "call_graph_roots tree fn_names =
     (case tree of
        None \<Rightarrow> fn_names
      | Some body \<Rightarrow>
          fn_names - \<Union> (set (map (\<lambda>node. case node of FunDef f sub other \<Rightarrow> (called_names node \<inter> fn_names) - {f} | _ \<Rightarrow> {}) body)))"

text \<open>Whether a statement returns a value, nested functions and classes not entered.\<close>

fun value_return :: "pyast \<Rightarrow> bool" where
  "value_return (FunDef f body other) = False"
| "value_return (ClassDef c sub) = False"
| "value_return (ReturnNode v) = (case v of None \<Rightarrow> False | Some e \<Rightarrow> e \<noteq> NoneConst)"
| "value_return (CallNode fn args) = (value_return fn \<or> list_ex value_return args)"
| "value_return (NameRef x) = False"
| "value_return NoneConst = False"
| "value_return (OtherNode sub) = list_ex value_return sub"

definition returns_a_value :: "parsed \<Rightarrow> string \<Rightarrow> bool" where
  "returns_a_value tree name =
     (case tree of
        None \<Rightarrow> True
      | Some body \<Rightarrow>
          (case filter (\<lambda>node. function_name node = [name]) body of
             FunDef f sub other # rest \<Rightarrow> list_ex value_return sub
           | _ \<Rightarrow> True))"

type_synonym namespace = "(string, pyobj) dict"

definition is_function :: "namespace \<Rightarrow> string \<Rightarrow> bool" where
  "is_function ns name = (case map_of ns name of None \<Rightarrow> False | Some ob \<Rightarrow> ob_callable ob \<and> \<not> ob_class ob)"

definition resolve_name :: "namespace \<Rightarrow> parsed \<Rightarrow> nat \<Rightarrow> string option" where
  "resolve_name ns tree nargs =
     (let listed = filter (is_function ns) (defined_functions_in_order tree);
          fitting = filter (\<lambda>name. accepts_arity (the (map_of ns name)) nargs) listed in
      if fitting = [] then None
      else (let valued = filter (returns_a_value tree) fitting;
                candidates = (if valued \<noteq> [] then valued else fitting) in
            if length candidates = 1 then Some (hd candidates)
            else (let roots = call_graph_roots tree (set listed);
                      root_candidates = filter (\<lambda>name. name \<in> roots) candidates in
                  if length root_candidates = 1 then Some (hd root_candidates)
                  else Some (List.last (if root_candidates \<noteq> [] then root_candidates else candidates)))))"

definition resolve_function :: "namespace \<Rightarrow> parsed \<Rightarrow> nat \<Rightarrow> pyobj option" where
  "resolve_function ns tree nargs = (case resolve_name ns tree nargs of None \<Rightarrow> None | Some name \<Rightarrow> map_of ns name)"

definition resolve_class :: "namespace \<Rightarrow> string list \<Rightarrow> pyobj option" where
  "resolve_class ns defined =
     (case filter ob_class (List.map_filter (map_of ns) defined) of [c] \<Rightarrow> Some c | _ \<Rightarrow> None)"

section \<open>One call\<close>

datatype call_status = CallOk | CallRuntimeError | BadEntry | BadRequest | ForbiddenImport | Tampered | BadOutput

text \<open>
  What running the program and calling a function can end in: the namespace or the value with
  whether the critical builtins are intact, the sandbox's own \<open>ImportError\<close>, a \<open>TypeError\<close> whose
  message speaks of the output, or any other exception. Each operation takes the state of the process and
  gives the next one: the cases of one request run in one interpreter, and a program may change what it imports.
\<close>

datatype exec_outcome = Executed namespace bool | ExecRefused | ExecFailed
datatype call_outcome = Returned pyval bool | CallRefused | CallBadOutput | CallFailed

record 'w sandbox =
  sx_parse :: "string \<Rightarrow> parsed"
  sx_exec :: "'w \<Rightarrow> string \<Rightarrow> 'w \<times> exec_outcome"
  sx_call :: "'w \<Rightarrow> pyobj \<Rightarrow> json list \<Rightarrow> (string, json) dict \<Rightarrow> 'w \<times> call_outcome"
  sx_new :: "'w \<Rightarrow> pyobj \<Rightarrow> 'w \<times> (call_outcome + pyobj)"
  sx_attr :: "'w \<Rightarrow> pyobj \<Rightarrow> string \<Rightarrow> 'w \<times> (call_outcome + pyobj)"

definition finish_call :: "call_outcome \<Rightarrow> json \<times> call_status" where
  "finish_call r =
     (case r of
        Returned v intact \<Rightarrow>
          (if \<not> intact then (JNull, Tampered)
           else case json_safe v of Inr j \<Rightarrow> (j, CallOk) | Inl e \<Rightarrow> (JNull, BadOutput))
      | CallRefused \<Rightarrow> (JNull, ForbiddenImport)
      | CallBadOutput \<Rightarrow> (JNull, BadOutput)
      | CallFailed \<Rightarrow> (JNull, CallRuntimeError))"

text \<open>\<open>ns.get(key)\<close>: a list or a dictionary is no key and raises, a key that is no string finds nothing.\<close>

definition ns_get :: "namespace \<Rightarrow> json \<Rightarrow> pyobj option res" where
  "ns_get ns key =
     (case key of JStr s \<Rightarrow> Inr (map_of ns s) | JList xs \<Rightarrow> Inl TypeError | JObj d \<Rightarrow> Inl TypeError | _ \<Rightarrow> Inr None)"

text \<open>The receiver of a method is built before the name of the method is read.\<close>

definition find_method :: "'w sandbox \<Rightarrow> 'w \<Rightarrow> pyobj \<Rightarrow> (string, json) dict \<Rightarrow> 'w \<times> ((json \<times> call_status) + pyobj)" where
  "find_method sx w c entry =
     (case sx_new sx w c of
        (w1, Inl r) \<Rightarrow> (w1, Inl (finish_call r))
      | (w1, Inr receiver) \<Rightarrow>
          (case jindex (JObj entry) ''method'' of
             Inr (JStr m) \<Rightarrow> (case sx_attr sx w1 receiver m of (w2, Inl r) \<Rightarrow> (w2, Inl (finish_call r)) | (w2, Inr ob) \<Rightarrow> (w2, Inr ob))
           | _ \<Rightarrow> (w1, Inl (JNull, CallRuntimeError))))"

definition find_target :: "'w sandbox \<Rightarrow> 'w \<Rightarrow> string \<Rightarrow> namespace \<Rightarrow> (string, json) dict \<Rightarrow> nat
    \<Rightarrow> 'w \<times> ((json \<times> call_status) + pyobj)" where
  "find_target sx w code ns entry nargs =
     (let failed = (w, Inl (JNull, CallRuntimeError)) in
      if dget entry ''kind'' JNull = JStr ''function''
      then (case rbind (jindex (JObj entry) ''name'') (ns_get ns) of
              Inl e \<Rightarrow> failed
            | Inr found \<Rightarrow>
                (let fn = (case found of Some ob \<Rightarrow> if ob_callable ob then Some ob else None | None \<Rightarrow> None);
                     chosen = (if fn = None then resolve_function ns (sx_parse sx code) nargs else fn) in
                 case chosen of Some ob \<Rightarrow> if ob_callable ob then (w, Inr ob) else failed | None \<Rightarrow> failed))
      else if dget entry ''kind'' JNull = JStr ''method''
      then (case rbind (jindex (JObj entry) ''class_name'') (ns_get ns) of
              Inl e \<Rightarrow> failed
            | Inr found \<Rightarrow>
                (let cls = (case found of Some ob \<Rightarrow> if ob_class ob then Some ob else None | None \<Rightarrow> None);
                     chosen = (if cls = None then resolve_class ns (user_defined_names (sx_parse sx code)) else cls) in
                 case chosen of None \<Rightarrow> failed | Some c \<Rightarrow> find_method sx w c entry))
      else (w, Inl (JNull, BadEntry)))"

definition evaluate_call :: "'w sandbox \<Rightarrow> 'w \<Rightarrow> string \<Rightarrow> json \<Rightarrow> json \<Rightarrow> json \<Rightarrow> 'w \<times> json \<times> call_status" where
  "evaluate_call sx w code entry args kwargs =
     (if strip code = [] then (w, JNull, CallRuntimeError)
      else case entry of
        JObj e \<Rightarrow>
          (case (args, kwargs) of
             (JList xs, JObj kw) \<Rightarrow>
               (case sx_exec sx w code of
                  (w1, ExecRefused) \<Rightarrow> (w1, JNull, ForbiddenImport)
                | (w1, ExecFailed) \<Rightarrow> (w1, JNull, CallRuntimeError)
                | (w1, Executed ns intact) \<Rightarrow>
                    (if \<not> intact then (w1, JNull, Tampered)
                     else case find_target sx w1 code ns e (length xs) of
                       (w2, Inl out) \<Rightarrow> (w2, out)
                     | (w2, Inr fn) \<Rightarrow> (case sx_call sx w2 fn xs kw of (w3, r) \<Rightarrow> (w3, finish_call r))))
           | _ \<Rightarrow> (w, JNull, BadRequest))
      | _ \<Rightarrow> (w, JNull, BadEntry))"

section \<open>The driver and its parent\<close>

definition run_case :: "'w sandbox \<Rightarrow> string \<Rightarrow> 'w \<Rightarrow> (string, json) dict \<Rightarrow> 'w \<times> bool" where
  "run_case sx code w c =
     (case evaluate_call sx w code (dget c ''entry'' (JObj [])) (dget c ''args'' (JList [])) (dget c ''kwargs'' (JObj [])) of
        (w1, out, status) \<Rightarrow>
          (w1, status = CallOk \<and> outputs_match out (dget c ''expected'' JNull) (dget c ''compare'' (JStr ''exact''))))"

text \<open>The loop over the cases, with the number passed so far.\<close>

fun count_passed :: "'w sandbox \<Rightarrow> string \<Rightarrow> 'w \<Rightarrow> (string, json) dict list \<Rightarrow> int \<Rightarrow> int" where
  "count_passed sx code w [] passed = passed"
| "count_passed sx code w (c # cs) passed =
     (case run_case sx code w c of (w1, ok) \<Rightarrow> count_passed sx code w1 cs (if ok then passed + 1 else passed))"

text \<open>\<open>json.dumps\<close> of the two counters.\<close>

definition counts_text :: "int \<Rightarrow> int \<Rightarrow> string" where
  "counts_text p n =
     ''{'' @ dump_str ''passed'' @ '': '' @ str_int p @ '', '' @ dump_str ''total'' @ '': '' @ str_int n @ ''}''"

definition driver_main :: "'w sandbox \<Rightarrow> 'w \<Rightarrow> string \<Rightarrow> (string, json) dict list \<Rightarrow> string" where
  "driver_main sx w code cases =
     (let passed = count_passed sx code w cases 0 in counts_text passed (int (length cases)) @ [CHR 0x0A])"

definition line_break :: "char \<Rightarrow> bool" where
  "line_break c = ((of_char c :: nat) \<in> {10, 11, 12, 13, 28, 29, 30, 133})"

text \<open>\<open>splitlines()[-1]\<close> of a text that ends in no blank.\<close>

definition last_line :: "string \<Rightarrow> string res" where
  "last_line s = (if s = [] then Inl IndexError else Inr (rev (takeWhile (\<lambda>c. \<not> line_break c) (rev s))))"

definition read_score :: "(string \<Rightarrow> json res) \<Rightarrow> string \<Rightarrow> real res" where
  "read_score loads stdout =
     rbind (last_line (strip stdout)) (\<lambda>line.
     rbind (loads line) (\<lambda>out.
     rbind (rbind (jindex out ''total'') jint) (\<lambda>all_cases.
     if 0 < all_cases then rbind (rbind (jindex out ''passed'') jint) (\<lambda>p. Inr (of_int p / of_int all_cases)) else Inr 0)))"

text \<open>\<open>run\<close> is the subprocess: its standard output, or the exception of a timeout or a failed start.\<close>

definition grade_structured_cases ::
  "(string \<Rightarrow> json res) \<Rightarrow> (string \<Rightarrow> (string, json) dict list \<Rightarrow> string res) \<Rightarrow> string \<Rightarrow> (string, json) dict list \<Rightarrow> real" where
  "grade_structured_cases loads run code cases =
     (if cases = [] then 0
      else case rbind (run code cases) (read_score loads) of Inl e \<Rightarrow> 0 | Inr r \<Rightarrow> r)"

definition grade_completion :: "(string \<Rightarrow> string list \<Rightarrow> string res) \<Rightarrow> string \<Rightarrow> string list \<Rightarrow> real" where
  "grade_completion run completion cases =
     (if cases = [] then 0
      else case run completion cases of
        Inl e \<Rightarrow> 0
      | Inr stdout \<Rightarrow> of_nat (length (filter (\<lambda>c. c = CHR ''P'') stdout)) / of_nat (length cases))"

section \<open>Comparing outputs\<close>

text \<open>What the driver may output: finite floats, dictionaries with distinct keys.\<close>

fun output_json :: "json \<Rightarrow> bool" where
  "output_json (JFloat f) = (\<exists>x. f = Fin x)"
| "output_json (JList xs) = list_all output_json xs"
| "output_json (JObj d) = (dict_ok d \<and> list_all (\<lambda>kv. output_json (snd kv)) d)"
| "output_json _ = True"

lemma json_safe_output:
  "json_safe v = Inr j \<Longrightarrow> output_json j"
  "json_safe_seq vs = Inr js \<Longrightarrow> list_all output_json js"
  "json_safe_items kvs d = Inr e \<Longrightarrow> dict_ok d \<Longrightarrow> list_all (\<lambda>kv. output_json (snd kv)) d
     \<Longrightarrow> dict_ok e \<and> list_all (\<lambda>kv. output_json (snd kv)) e"
proof (induction v and vs and kvs d arbitrary: j and js and e rule: json_safe_json_safe_seq_json_safe_items.induct)
  case (13 k v kvs d)
  then obtain j where j: "json_safe v = Inr j" "json_safe_items kvs (dset k j d) = Inr e" by (auto simp: res_simps)
  have "list_all (\<lambda>kv. output_json (snd kv)) (dset k j d)"
    using "13.prems"(3) "13.IH"(1) [OF j(1)] by (induction d) auto
  then show ?case using "13.IH"(2) [OF j(2)] "13.prems"(2) by simp
qed (auto simp: res_simps)

lemma isclose_refl: "isclose (Fin x) (Fin x)"
  by simp

lemma isclose_sym: "isclose a b = isclose b a"
  by (cases a; cases b) (auto simp: abs_minus_commute max.commute)

lemma json_equal_refl: "output_json j \<Longrightarrow> json_equal j j"
proof (induction "size j" arbitrary: j rule: less_induct)
  case less
  show ?case
  proof (cases j)
    case (JList xs)
    have "json_equal a b" if "(a, b) \<in> set (zip xs xs)" for a b
    proof -
      have "b = a" "a \<in> set xs" using that by (auto simp: in_set_zip)
      then show ?thesis using less JList size_in_list by (auto simp: list_all_iff)
    qed
    then show ?thesis using JList by (subst json_equal.simps) (auto simp: list_all_iff)
  next
    case (JObj d)
    have "json_equal v v" "map_of d k = Some v" if "(k, v) \<in> set d" for k v
    proof -
      show "map_of d k = Some v" using that less.prems JObj by (simp add: dict_ok_def)
      have "size v < size j" using size_in_dict [OF that] JObj by simp
      moreover have "output_json v" using that less.prems JObj by (force simp: list_all_iff)
      ultimately show "json_equal v v" by (rule less.hyps)
    qed
    then show ?thesis using JObj by (subst json_equal.simps) (auto simp: list_all_iff)
  qed (use less.prems in \<open>auto simp: json_equal.simps\<close>)
qed

lemma json_equal_flip: "output_json j \<Longrightarrow> output_json k \<Longrightarrow> json_equal j k \<Longrightarrow> json_equal k j"
proof (induction "size j" arbitrary: j k rule: less_induct)
  case less
  show ?case
  proof (cases "(\<exists>xs. j = JList xs) \<or> (\<exists>d. j = JObj d)")
    case False
    then show ?thesis using less.prems(3) isclose_sym
      by (cases j; cases k) (auto simp: json_equal.simps)
  next
    case True
    then consider (seq) xs where "j = JList xs" | (obj) d where "j = JObj d" by blast
    then show ?thesis
    proof cases
      case seq
      then obtain ys where k: "k = JList ys" "length xs = length ys" and all: "\<forall>(a, b)\<in>set (zip xs ys). json_equal a b"
        using less.prems(3) by (subst (asm) json_equal.simps) (auto simp: list_all_iff split: json.splits)
      have "json_equal b a" if "(b, a) \<in> set (zip ys xs)" for a b
      proof -
        have "(a, b) \<in> set (zip xs ys)" using that k(2) by (auto simp: in_set_zip)
        then have "json_equal a b" "a \<in> set xs" "b \<in> set ys" using all by (auto dest: set_zip_leftD set_zip_rightD)
        then show ?thesis using less.hyps [of a b] less.prems(1,2) seq k size_in_list [of a xs] by (simp add: list_all_iff)
      qed
      then show ?thesis using seq k by (subst json_equal.simps) (auto simp: list_all_iff)
    next
      case obj
      then obtain e where k: "k = JObj e" and ks: "fst ` set d = fst ` set e"
        and all: "\<forall>(x, v)\<in>set d. case map_of e x of Some w \<Rightarrow> json_equal v w | None \<Rightarrow> False"
        using less.prems(3) by (subst (asm) json_equal.simps) (auto simp: list_all_iff split: json.splits)
      have "case map_of d x of Some v \<Rightarrow> json_equal w v | None \<Rightarrow> False" if "(x, w) \<in> set e" for x w
      proof -
        have "x \<in> fst ` set d" unfolding ks using that by force
        then obtain v where v: "map_of d x = Some v" using map_of_eq_None_iff [of d x] by (cases "map_of d x") auto
        then have vd: "(x, v) \<in> set d" by (rule map_of_SomeD)
        have w: "map_of e x = Some w" using that less.prems(2) k by (simp add: dict_ok_def)
        have "json_equal v w" using all vd w by fastforce
        then have "json_equal w v"
          using less.hyps [of v w] less.prems(1,2) obj k vd that size_in_dict [OF vd] by (fastforce simp: list_all_iff)
        then show ?thesis using v by simp
      qed
      then show ?thesis using obj k ks by (subst json_equal.simps) (auto simp: list_all_iff)
    qed
  qed
qed

text \<open>
  The comparison of outputs treats both sides alike: a value the driver outputs equals
  itself, and one output equals another exactly when the other equals it, however lists
  and dictionaries are nested and whatever the order of the keys.
\<close>

theorem outputs_compared_symmetrically:
  assumes "json_safe v = Inr j" and "json_safe w = Inr k"
  shows "json_equal j j \<and> json_equal j k = json_equal k j"
  using json_equal_refl json_equal_flip json_safe_output(1) [OF assms(1)] json_safe_output(1) [OF assms(2)] by blast

theorem outputs_compared_symmetrically_witness:
  "json_equal (JList [JInt 1]) (JList [JInt 1]) \<and> json_equal (JList [JInt 1]) (JInt 2) = json_equal (JInt 2) (JList [JInt 1])"
  by (rule outputs_compared_symmetrically [of "VSeq [VInt 1]" _ "VInt 2"]) simp_all

section \<open>The chosen function and the score\<close>

text \<open>
  When the program does not define the function the case names, the one called instead fits: it is a
  function the program defines at top level, it takes the number of arguments of the
  case, and it returns a value if any fitting function does; none is found exactly when none fits.
\<close>

theorem resolved_function_fits:
  "(case resolve_name ns tree nargs of
      Some name \<Rightarrow>
        name \<in> set (defined_functions_in_order tree) \<and> is_function ns name
        \<and> accepts_arity (the (map_of ns name)) nargs
        \<and> ((\<exists>f\<in>set (defined_functions_in_order tree). is_function ns f \<and> accepts_arity (the (map_of ns f)) nargs \<and> returns_a_value tree f)
            \<longrightarrow> returns_a_value tree name)
    | None \<Rightarrow> \<not> (\<exists>f\<in>set (defined_functions_in_order tree). is_function ns f \<and> accepts_arity (the (map_of ns f)) nargs))"
proof -
  define listed where "listed = filter (is_function ns) (defined_functions_in_order tree)"
  define fitting where "fitting = filter (\<lambda>name. accepts_arity (the (map_of ns name)) nargs) listed"
  define valued where "valued = filter (returns_a_value tree) fitting"
  define candidates where "candidates = (if valued \<noteq> [] then valued else fitting)"
  define preferred where "preferred = filter (\<lambda>name. name \<in> call_graph_roots tree (set listed)) candidates"
  have r: "resolve_name ns tree nargs =
      (if fitting = [] then None
       else if length candidates = 1 then Some (hd candidates)
       else if length preferred = 1 then Some (hd preferred)
       else Some (List.last (if preferred \<noteq> [] then preferred else candidates)))"
    unfolding resolve_name_def Let_def listed_def [symmetric] fitting_def [symmetric] valued_def [symmetric]
      candidates_def [symmetric] preferred_def [symmetric] by simp
  show ?thesis
  proof (cases "fitting = []")
    case True
    then show ?thesis by (auto simp: r fitting_def listed_def filter_empty_conv)
  next
    case False
    then have ne: "candidates \<noteq> []" by (auto simp: candidates_def valued_def)
    then obtain name where name: "resolve_name ns tree nargs = Some name" "name \<in> set candidates"
    proof -
      have "set preferred \<subseteq> set candidates" by (auto simp: preferred_def)
      then have "preferred \<noteq> [] \<Longrightarrow> hd preferred \<in> set candidates \<and> List.last preferred \<in> set candidates"
        using hd_in_set last_in_set by blast
      then have "\<exists>name. resolve_name ns tree nargs = Some name \<and> name \<in> set candidates" using ne False by (auto simp: r)
      then show ?thesis using that by blast
    qed
    have "name \<in> set fitting" using name(2) by (auto simp: candidates_def valued_def split: if_splits)
    moreover have "returns_a_value tree name" if "f \<in> set fitting" "returns_a_value tree f" for f
      using name(2) that by (auto simp: candidates_def valued_def filter_empty_conv split: if_splits)
    ultimately show ?thesis by (auto simp: name(1) fitting_def listed_def)
  qed
qed

lemma strip_line:
  assumes "s = c # t" and "\<not> py_space c" and "\<not> py_space (List.last s)"
  shows "strip (s @ [CHR 0x0A]) = s"
proof -
  have nl: "py_space CHR 0x0A" by (simp add: py_space_def)
  have "dropWhile py_space (s @ [CHR 0x0A]) = s @ [CHR 0x0A]" using assms by simp
  moreover have "dropWhile py_space (rev (s @ [CHR 0x0A])) = rev s"
  proof -
    obtain u z where u: "s = u @ [z]" using assms(1) by (metis list.distinct(1) rev_exhaust)
    then show ?thesis using assms(3) nl by simp
  qed
  ultimately show ?thesis by (simp add: strip_def)
qed

lemma counts_line: "last_line (strip (counts_text p n @ [CHR 0x0A])) = Inr (counts_text p n)"
proof -
  have digits: "\<not> line_break c" if "c \<in> set (str_int i)" for c i
  proof -
    have "c = CHR ''-'' \<or> (\<exists>n. c \<in> set (str_nat n))" using that by (auto simp: str_int_def split: if_splits)
    then consider "c = CHR ''-''" | d where "d < 10" "c = digit_char d" using str_nat_digits by blast
    then show ?thesis by cases (auto simp: line_break_def digit_char_def)
  qed
  have "list_all (\<lambda>c. \<not> line_break c) (counts_text p n)"
    unfolding counts_text_def list_all_append using digits
    by (simp add: dump_str_def esc_char_def line_break_def list_all_iff)
  then have whole: "takeWhile (\<lambda>c. \<not> line_break c) (rev (counts_text p n)) = rev (counts_text p n)"
    by (intro takeWhile_eq_all_conv [THEN iffD2]) (simp add: list_all_iff)
  moreover have "strip (counts_text p n @ [CHR 0x0A]) = counts_text p n"
  proof (rule strip_line)
    show "counts_text p n = CHR ''{'' # tl (counts_text p n)" by (simp add: counts_text_def)
    show "\<not> py_space CHR ''{''" by code_simp
    have "List.last (counts_text p n) = CHR ''}''" by (simp add: counts_text_def)
    then show "\<not> py_space (List.last (counts_text p n))" by simp code_simp
  qed
  moreover have "counts_text p n \<noteq> []" by (simp add: counts_text_def)
  ultimately show ?thesis by (simp only: last_line_def whole) simp
qed

text \<open>The verdicts of the cases, each in the state the cases before it leave.\<close>

fun verdicts_of :: "'w sandbox \<Rightarrow> string \<Rightarrow> 'w \<Rightarrow> (string, json) dict list \<Rightarrow> bool list" where
  "verdicts_of sx code w [] = []"
| "verdicts_of sx code w (c # cs) = snd (run_case sx code w c) # verdicts_of sx code (fst (run_case sx code w c)) cs"

lemma count_passed_verdicts: "count_passed sx code w cases k = k + int (length (filter id (verdicts_of sx code w cases)))"
  by (induction cases arbitrary: w k) (auto split: prod.split)

lemma verdicts_of_length: "length (verdicts_of sx code w cases) = length cases"
  by (induction cases arbitrary: w) auto

text \<open>\<open>json.loads\<close> inverts \<open>json.dumps\<close> on a pair of counters, whatever their values.\<close>

definition reads_counts :: "(string \<Rightarrow> json res) \<Rightarrow> bool" where
  "reads_counts loads = (\<forall>p n. loads (counts_text p n) = Inr (JObj [(''passed'', JInt p), (''total'', JInt n)]))"

lemma read_counts:
  assumes "reads_counts loads"
  shows "read_score loads (counts_text p n @ [CHR 0x0A]) = Inr (if 0 < n then of_int p / of_int n else 0)"
  using assms by (simp add: read_score_def counts_line reads_counts_def jindex_def)

text \<open>
  C26. The reward is the fraction of passed cases: when the subprocess runs the driver to its end
  and \<open>json.loads\<close> reads a pair of counters back as it was written, the parent's reward is the number of
  cases whose call, made in the state of the process that the earlier cases leave, returned without an error and matched
  its expected output, over the number of cases: a value between 0 and 1 that is 1 exactly when every case passes.
\<close>

theorem reward_is_pass_fraction:
  assumes "cases \<noteq> []" and "run code cases = Inr (driver_main sx w code cases)" and "reads_counts loads"
  shows "grade_structured_cases loads run code cases
      = of_nat (length (filter id (verdicts_of sx code w cases))) / of_nat (length cases)
    \<and> length (verdicts_of sx code w cases) = length cases
    \<and> 0 \<le> grade_structured_cases loads run code cases \<and> grade_structured_cases loads run code cases \<le> 1
    \<and> (grade_structured_cases loads run code cases = 1 \<longleftrightarrow> list_all id (verdicts_of sx code w cases))"
proof -
  let ?v = "verdicts_of sx code w cases" and ?p = "length (filter id (verdicts_of sx code w cases))"
  have n: "0 < length cases" using assms(1) by simp
  have r: "grade_structured_cases loads run code cases = of_nat ?p / of_nat (length cases)"
    using n by (simp add: grade_structured_cases_def assms(2) driver_main_def read_counts [OF assms(3)] count_passed_verdicts Let_def)
  have l: "length ?v = length cases" by (rule verdicts_of_length)
  then have le: "?p \<le> length cases" using length_filter_le [of id ?v] by simp
  have "?p = length cases \<longleftrightarrow> list_all id ?v"
    unfolding l [symmetric] by (metis filter_id_conv length_filter_less less_irrefl list_all_iff)
  moreover have "real ?p / real (length cases) = 1 \<longleftrightarrow> ?p = length cases" using n by auto
  ultimately have one: "real ?p / real (length cases) = 1 \<longleftrightarrow> list_all id ?v" by blast
  have "real ?p / real (length cases) \<le> 1" using n le by (simp add: divide_le_eq)
  then show ?thesis unfolding r by (intro conjI l one) simp_all
qed

text \<open>A reader of two counters, and a program whose only function counts its calls in the process it runs in.\<close>

definition read_two :: "string \<Rightarrow> json res" where
  "read_two s =
     (let r = drop 11 s; p = takeWhile (\<lambda>c. c \<noteq> CHR '','') r;
          n = takeWhile (\<lambda>c. c \<noteq> CHR ''}'') (drop 11 (drop (length p) r)) in
      rbind (py_int p) (\<lambda>i. rbind (py_int n) (\<lambda>j. Inr (JObj [(''passed'', JInt i), (''total'', JInt j)]))))"

lemma read_two_counts: "reads_counts read_two"
proof -
  have plain: "c \<noteq> CHR '','' \<and> c \<noteq> CHR ''}''" if "c \<in> set (str_int i)" for c i
  proof -
    have "c = CHR ''-'' \<or> (\<exists>n. c \<in> set (str_nat n))" using that by (auto simp: str_int_def split: if_splits)
    then consider "c = CHR ''-''" | d where "d < 10" "c = digit_char d" using str_nat_digits by blast
    then show ?thesis
    proof cases
      case 2
      then have "digit_value c \<noteq> None" by (simp add: digit_value_char)
      moreover have "digit_value CHR '','' = None" "digit_value CHR ''}'' = None" by code_simp+
      ultimately show ?thesis by auto
    qed simp
  qed
  have "takeWhile (\<lambda>c. c \<noteq> CHR '','') (str_int i @ CHR '','' # s) = str_int i"
    and "takeWhile (\<lambda>c. c \<noteq> CHR ''}'') (str_int i @ CHR ''}'' # s) = str_int i" for i s
    using plain [of _ i] by (simp_all add: takeWhile_append2)
  moreover have "drop 11 (counts_text p n) = str_int p @ CHR '','' # CHR '' '' # dump_str ''total'' @ '': '' @ str_int n @ ''}''" for p n
    by (simp add: counts_text_def dump_str_def esc_char_def)
  moreover have "drop 11 (CHR '','' # CHR '' '' # dump_str ''total'' @ '': '' @ str_int n @ ''}'') = str_int n @ CHR ''}'' # []" for n
    by (simp add: dump_str_def esc_char_def)
  ultimately show ?thesis by (simp add: reads_counts_def read_two_def py_int_str_int Let_def)
qed

definition counting_sandbox :: "int sandbox" where
  "counting_sandbox =
     \<lparr> sx_parse = \<lambda>c. Some [FunDef ''f'' [] []],
       sx_exec = \<lambda>w c. (w, Executed [(''f'', \<lparr> ob_id = 0, ob_callable = True, ob_class = False, ob_params = None \<rparr>)] True),
       sx_call = \<lambda>w f xs kw. (w + 1, Returned (VInt w) True),
       sx_new = \<lambda>w c. (w, Inl CallFailed), sx_attr = \<lambda>w c m. (w, Inl CallFailed) \<rparr>"

definition two_cases :: "(string, json) dict list" where
  "two_cases =
     [[(''entry'', JObj [(''kind'', JStr ''function''), (''name'', JStr ''f'')]), (''expected'', JInt 3)],
      [(''entry'', JObj [(''kind'', JStr ''function''), (''name'', JStr ''f'')]), (''expected'', JInt 3)]]"

theorem reward_is_pass_fraction_witness:
  "grade_structured_cases read_two (\<lambda>code cases. Inr (driver_main counting_sandbox 3 code cases)) ''x'' two_cases = 1 / 2"
proof -
  have v: "verdicts_of counting_sandbox ''x'' 3 two_cases = [True, False]"
    by (simp add: two_cases_def run_case_def evaluate_call_def find_target_def finish_call_def outputs_match_def json_equal.simps
        dget_def jindex_def ns_get_def strip_def py_space_def counting_sandbox_def)
  have n: "two_cases \<noteq> []" "length two_cases = 2" by (simp_all add: two_cases_def)
  show ?thesis
    using reward_is_pass_fraction [OF n(1) _ read_two_counts, of "\<lambda>code cases. Inr (driver_main counting_sandbox 3 code cases)" "''x''"
        counting_sandbox 3] by (simp add: v n(2))
qed

text \<open>
  The older grader counts every P of the standard output, the program's own prints included, so
  a program that prints and fails its only case gets a reward above 1.
\<close>

lemma printed_markers_are_counted:
  "grade_completion (\<lambda>completion cases. Inr (''PPP'' @ ''F'')) ''print(...)'' [''assert f() == 1''] = 3"
  by (simp add: grade_completion_def)

end
