(* ===== verification/Environment.thy ===== *)
theory Environment
  imports Dataset MathAnswer CodeGrader
begin

text \<open>
  \<open>reliquary/environment/__init__.py\<close>, \<open>base.py\<close>, and the environment classes of \<open>openmathinstruct.py\<close>
  and \<open>opencodeinstruct.py\<close>: which problem an index is on the pinned dataset, the subset of
  indices the miner prefers, the contract appended to a coding prompt, the extraction of code
  from a completion, and the reward. The hash, \<open>json.loads\<close>, the text of a value that is not a
  string and the grader's subprocess are arguments. The lemmas say that two parties pinned to
  one revision pose the same problem whatever each has read before, that the preferred indices
  are those of the allowed sources, and that a fenced program is taken out unchanged.
\<close>

datatype environment_kind = OpenMathInstruct | OpenCodeInstruct

definition load_environment :: "string \<Rightarrow> environment_kind res" where
  "load_environment name =
     (if name = ''openmathinstruct'' then Inr OpenMathInstruct
      else if name = ''opencodeinstruct'' then Inr OpenCodeInstruct else Inl ValueError)"

record problem =
  pb_prompt :: string
  pb_ground_truth :: string
  pb_id :: string

type_synonym row = "(string, json) dict"

section \<open>Problems of a dataset\<close>

definition omi_dataset :: "string \<Rightarrow> string \<Rightarrow> row dataset" where
  "omi_dataset repo revision = new_dataset repo revision (Some [''problem'', ''expected_answer'']) ''data'' 64"

definition oci_dataset :: "string \<Rightarrow> string \<Rightarrow> row dataset" where
  "oci_dataset repo revision = new_dataset repo revision (Some [''input'', ''structured_cases'']) ''data'' 64"

text \<open>\<open>idx = index % len(ds); row = ds[idx]\<close>\<close>

definition row_at :: "row parquet_io \<Rightarrow> row dataset \<Rightarrow> int \<Rightarrow> row dataset \<times> row res" where
  "row_at io d index =
     (case dataset_len io d of
        (d1, Inl e) \<Rightarrow> (d1, Inl e)
      | (d1, Inr n) \<Rightarrow> if n = 0 then (d1, Inl ZeroDivisionError) else get_row io d1 (index mod int n))"

definition short_id :: "(bytes \<Rightarrow> bytes) \<Rightarrow> string \<Rightarrow> string" where
  "short_id sha s = take 16 (hex (sha (encode s)))"

definition ANSWER_FORMAT_INSTRUCTION :: string where
  "ANSWER_FORMAT_INSTRUCTION = [CHR 0x0A, CHR 0x0A] @ ''Put your final answer within '' @ tex ''boxed{}.''"

text \<open>\<open>str(v)\<close>, where \<open>rep\<close> is the text of a value that is not a string.\<close>

definition py_str :: "(json \<Rightarrow> string) \<Rightarrow> json \<Rightarrow> string" where
  "py_str rep v = (case v of JStr s \<Rightarrow> s | _ \<Rightarrow> rep v)"

definition omi_problem :: "(bytes \<Rightarrow> bytes) \<Rightarrow> (json \<Rightarrow> string) \<Rightarrow> row \<Rightarrow> problem res" where
  "omi_problem sha rep r =
     rbind (jindex (JObj r) ''problem'') (\<lambda>q.
       case q of
         JStr question \<Rightarrow>
           Inr \<lparr> pb_prompt = question @ ANSWER_FORMAT_INSTRUCTION,
                 pb_ground_truth = py_str rep (dget r ''expected_answer'' (JStr [])), pb_id = short_id sha question \<rparr>
       | _ \<Rightarrow> Inl AttributeError)"

definition omi_get_problem ::
  "(bytes \<Rightarrow> bytes) \<Rightarrow> (json \<Rightarrow> string) \<Rightarrow> row parquet_io \<Rightarrow> row dataset \<Rightarrow> int \<Rightarrow> row dataset \<times> problem res" where
  "omi_get_problem sha rep io d index =
     (case row_at io d index of (d1, r) \<Rightarrow> (d1, rbind r (omi_problem sha rep)))"

definition omi_compute_reward :: "sympy \<Rightarrow> problem \<Rightarrow> string \<Rightarrow> real" where
  "omi_compute_reward sy p completion = compute_omi_reward sy (Some (pb_ground_truth p)) completion"

section \<open>The indices a miner prefers\<close>

text \<open>The scan of \<open>problem_source\<close> over the first shards, each index offset by the rows before its shard.\<close>

fun scan_columns :: "string set \<Rightarrow> nat \<Rightarrow> string list list \<Rightarrow> nat list" where
  "scan_columns allowed offset [] = []"
| "scan_columns allowed offset (col # cols) =
     map (\<lambda>i. offset + i) (filter (\<lambda>i. col ! i \<in> allowed) [0..<length col]) @ scan_columns allowed (offset + length col) cols"

text \<open>A cached list is used as it is.\<close>

definition scan_eligible_indices :: "nat list option \<Rightarrow> string set \<Rightarrow> nat \<Rightarrow> string list list \<Rightarrow> nat list" where
  "scan_eligible_indices cached allowed max_shards columns =
     (case cached of Some indices \<Rightarrow> indices | None \<Rightarrow> scan_columns allowed 0 (take max_shards columns))"

definition allowed_sources :: "string \<Rightarrow> string set" where
  "allowed_sources sources_env = set (filter (\<lambda>s. s \<noteq> []) (map strip (split_str '','' sources_env)))"

definition eligible_indices :: "string option \<Rightarrow> nat list option \<Rightarrow> nat \<Rightarrow> string list list \<Rightarrow> nat list option" where
  "eligible_indices sources_env cached max_shards columns =
     (let env = (case sources_env of None \<Rightarrow> ''augmented_gsm8k'' | Some s \<Rightarrow> s) in
      if env = [] then None else Some (scan_eligible_indices cached (allowed_sources env) max_shards columns))"

section \<open>Coding problems\<close>

definition jlen :: "json \<Rightarrow> nat res" where
  "jlen v = (case v of JStr s \<Rightarrow> Inr (length s) | JList xs \<Rightarrow> Inr (length xs) | JObj d \<Rightarrow> Inr (length d) | _ \<Rightarrow> Inl TypeError)"

definition contract_text :: "string \<Rightarrow> nat \<Rightarrow> string" where
  "contract_text name nargs =
     [CHR 0x0A, CHR 0x0A] @ ''Write your solution as a Python function named '' @ [CHR 0x60] @ name @ [CHR 0x60]
     @ '' that takes '' @ str_int (int nargs) @ '' '' @ (if nargs = 1 then ''argument'' else ''arguments'')
     @ '' and returns the result; do not read from stdin or print.''"

text \<open>The first case whose entry is a named function decides.\<close>

fun contract_instruction :: "(json \<Rightarrow> string) \<Rightarrow> (string, json) dict list \<Rightarrow> string res" where
  "contract_instruction rep [] = Inr []"
| "contract_instruction rep (c # cs) =
     rbind (jget_or (JObj c) ''entry'' (JObj [])) (\<lambda>entry.
     rbind (jget entry ''name'' JNull) (\<lambda>name.
     rbind (jget entry ''kind'' JNull) (\<lambda>kind.
       if kind = JStr ''function'' \<and> truthy name
       then rbind (jget_or (JObj c) ''args'' (JList [])) (\<lambda>args. rbind (jlen args) (\<lambda>n. Inr (contract_text (py_str rep name) n)))
       else contract_instruction rep cs)))"

definition row_cases :: "(string \<Rightarrow> json res) \<Rightarrow> row \<Rightarrow> (string, json) dict list" where
  "row_cases loads r =
     (let given = dget r ''structured_cases'' (JList []);
          raw = (case given of JStr s \<Rightarrow> loads s | _ \<Rightarrow> Inr given) in
      case raw of
        Inr (JList xs) \<Rightarrow> concat (map (\<lambda>x. case x of JObj d \<Rightarrow> [d] | _ \<Rightarrow> []) xs)
      | _ \<Rightarrow> [])"

record oci_text =
  ot_sha :: "bytes \<Rightarrow> bytes"
  ot_rep :: "json \<Rightarrow> string"
  ot_loads :: "string \<Rightarrow> json res"
  ot_float_repr :: "real \<Rightarrow> string"

definition oci_problem :: "oci_text \<Rightarrow> row \<Rightarrow> (problem \<times> (string, json) dict list) res" where
  "oci_problem ot r =
     rbind (jindex (JObj r) ''input'') (\<lambda>q.
     let cases = row_cases (ot_loads ot) r in
     rbind (contract_instruction (ot_rep ot) cases) (\<lambda>contract.
       case q of
         JStr text \<Rightarrow>
           (let prompt = text @ contract; problem_id = short_id (ot_sha ot) prompt in
            case dumps (float_text True (ot_float_repr ot)) (JList (map JObj cases)) of
              None \<Rightarrow> Inl ValueError
            | Some dumped \<Rightarrow>
                Inr (\<lparr> pb_prompt = prompt, pb_ground_truth = short_id (ot_sha ot) (problem_id @ dumped), pb_id = problem_id \<rparr>, cases))
       | _ \<Rightarrow> Inl TypeError))"

record oci_env =
  oe_dataset :: "row dataset"
  oe_cases_by_id :: "(string, (string, json) dict list) dict"

definition oci_get_problem :: "oci_text \<Rightarrow> row parquet_io \<Rightarrow> oci_env \<Rightarrow> int \<Rightarrow> oci_env \<times> problem res" where
  "oci_get_problem ot io s index =
     (case row_at io (oe_dataset s) index of
        (d1, r) \<Rightarrow>
          (case rbind r (oci_problem ot) of
             Inl e \<Rightarrow> (s \<lparr> oe_dataset := d1 \<rparr>, Inl e)
           | Inr (p, cases) \<Rightarrow>
               (s \<lparr> oe_dataset := d1, oe_cases_by_id := dset (pb_ground_truth p) cases (oe_cases_by_id s) \<rparr>, Inr p)))"

section \<open>Code out of a completion\<close>

text \<open>
  \<open>(\`\`\`|~~~)(?:python3?|py)?\s*\n(.*?)\n\1\<close> with the dot matching newlines: what may follow the
  fence, in the order the pattern tries it, and for each the newlines of the blank run after it,
  the last one first; the body is the shortest one closed by the same fence.
\<close>

definition fences :: "string list" where
  "fences = [replicate 3 CHR 0x60, ''~~~'']"

definition after_language :: "string \<Rightarrow> string list" where
  "after_language s =
     map (\<lambda>w. drop (length w) s) (filter (\<lambda>w. begins w s) [''python3'', ''python'', ''py'', []])"

definition body_starts :: "string \<Rightarrow> string list" where
  "body_starts s =
     map (\<lambda>k. drop (Suc k) s) (rev (filter (\<lambda>k. s ! k = CHR 0x0A) [0..<length (takeWhile py_space s)]))"

definition block_here :: "string \<Rightarrow> (string \<times> string) option" where
  "block_here s =
     (case List.map_filter id
         (concat (map (\<lambda>f. if begins f s
            then map (break_on (CHR 0x0A # f)) (concat (map body_starts (after_language (drop 3 s)))) else []) fences)) of
        [] \<Rightarrow> None | b # bs \<Rightarrow> Some b)"

text \<open>\<open>findall\<close>: the bodies of the blocks, left to right, none inside another.\<close>

function find_blocks :: "string \<Rightarrow> string list" where
  "find_blocks [] = []"
| "find_blocks (c # r) =
     (case block_here (c # r) of
        Some (body, rest) \<Rightarrow> if length rest < length (c # r) then body # find_blocks rest else find_blocks r
      | None \<Rightarrow> find_blocks r)"
  by pat_completeness auto
termination by (relation "measure length") auto

definition extract_python :: "string \<Rightarrow> string" where
  "extract_python completion =
     (let blocks = find_blocks completion in
      if completion = [] then [] else if blocks \<noteq> [] then List.last blocks else completion)"

definition oci_compute_reward ::
  "(string \<Rightarrow> json res) \<Rightarrow> (string \<Rightarrow> (string, json) dict list \<Rightarrow> string res) \<Rightarrow> oci_env \<Rightarrow> problem \<Rightarrow> string \<Rightarrow> real" where
  "oci_compute_reward loads run s p completion =
     (case map_of (oe_cases_by_id s) (pb_ground_truth p) of
        None \<Rightarrow> 0
      | Some cases \<Rightarrow> if cases = [] then 0 else grade_structured_cases loads run (extract_python completion) cases)"

section \<open>Two parties, one problem\<close>

text \<open>
  A problem is computed from the row alone, and the row is the snapshot's, so the state of
  the dataset that produced it does not matter.
\<close>

lemma row_at_snapshot:
  assumes "dataset_ok snap base cols d" and "serves snap base cols io" and "row_at io d i = (d1, Inr r)"
  shows "dataset_ok snap base cols d1 \<and> table snap \<noteq> [] \<and> r = table snap ! nat (i mod int (length (table snap)))"
proof -
  obtain d2 n where n: "dataset_len io d = (d2, Inr n)" "get_row io d2 (i mod int n) = (d1, Inr r)"
    using assms(3) by (auto simp: row_at_def split: prod.splits sum.splits if_splits)
  show ?thesis by (rule rows.wrapped_read [OF assms(1,2) n])
qed

lemma after_reads:
  assumes "\<forall>(io, i)\<in>set qs. serves snap (base_path repo sha dir) cols io"
    and "read_all (new_dataset repo sha cols dir cap) qs = (d, rs)"
  shows "dataset_ok snap (base_path repo sha dir) cols d"
proof -
  have "base_dir (new_dataset repo sha cols dir cap :: 'a dataset) = base_path repo sha dir"
    by (simp add: base_dir_def new_dataset_def)
  then show ?thesis using read_all_ok [OF fresh_dataset_ok [where snap = snap and repo = repo and sha = sha and cols = cols and dir = dir and cap = cap], of qs d rs] assms by auto
qed

text \<open>
  C22. The miner and the validator pose the same math problem. In the \<open>openmathinstruct\<close> environment pinned to one
  revision of its dataset, two parties that have read different rows before, through hubs that list the files in different
  orders and fail at different calls, get for an index the same prompt, expected answer and
  id, and these come from row \<open>index mod n\<close> of the snapshot.
\<close>

theorem same_problem_everywhere:
  assumes "\<forall>(io, i)\<in>set qs \<union> set qs'. serves snap (base_path repo revision ''data'') (Some [''problem'', ''expected_answer'']) io"
    and "serves snap (base_path repo revision ''data'') (Some [''problem'', ''expected_answer'']) io"
    and "serves snap (base_path repo revision ''data'') (Some [''problem'', ''expected_answer'']) io'"
    and "read_all (omi_dataset repo revision) qs = (d, rs)" and "read_all (omi_dataset repo revision) qs' = (e, rs')"
    and "omi_get_problem sha rep io d index = (d1, Inr p)" and "omi_get_problem sha rep io' e index = (e1, Inr q)"
  shows "p = q \<and> omi_problem sha rep (table snap ! nat (index mod int (length (table snap)))) = Inr p"
proof -
  let ?r = "table snap ! nat (index mod int (length (table snap)))"
  have d: "dataset_ok snap (base_path repo revision ''data'') (Some [''problem'', ''expected_answer'']) d"
    and e: "dataset_ok snap (base_path repo revision ''data'') (Some [''problem'', ''expected_answer'']) e"
    using after_reads [of qs] after_reads [of qs'] assms(1,4,5) by (simp_all add: omi_dataset_def)
  obtain r r' where r: "row_at io d index = (d1, Inr r)" "omi_problem sha rep r = Inr p"
    and r': "row_at io' e index = (e1, Inr r')" "omi_problem sha rep r' = Inr q"
    using assms(6,7) by (auto simp: omi_get_problem_def res_simps split: prod.splits)
  have "r = ?r" "r' = ?r" using row_at_snapshot [OF d assms(2) r(1)] row_at_snapshot [OF e assms(3) r'(1)] by simp_all
  then show ?thesis using r(2) r'(2) by simp
qed

definition demo_rows :: "row snapshot" where
  "demo_rows = [(''b.parquet'', [[[(''problem'', JStr ''two'')]]]),
     (''a.parquet'', [[[(''problem'', JStr ''one''), (''expected_answer'', JStr ''1'')]]])]"

lemma demo_rows_distinct: "distinct (map fst demo_rows)"
  by code_simp

lemma demo_rows_table:
  "table demo_rows = [[(''problem'', JStr ''one''), (''expected_answer'', JStr ''1'')], [(''problem'', JStr ''two'')]]"
  by code_simp

lemma hub_poses:
  fixes i :: int
  assumes "dataset_ok demo_rows base cols d" and "0 \<le> ds_cache_cap d"
  obtains d1 where "row_at (hub_of demo_rows) d i = (d1, Inr (table demo_rows ! nat (i mod 2)))"
proof -
  have io: "serves demo_rows base cols (hub_of demo_rows)" "answers demo_rows base cols (hub_of demo_rows)"
    by (rule hub_of_serves [OF demo_rows_distinct], rule hub_of_answers [OF demo_rows_distinct])
  have ne: "table demo_rows \<noteq> []" by (simp add: demo_rows_table)
  obtain d2 r where em: "ensure_manifest (hub_of demo_rows) d = (d2, r)" by fastforce
  have "r = Inr ()" using ensure_manifest_answers [OF assms(1) io(2) ne] em by simp
  with ensure_manifest_ok [OF assms(1) io(1) em] have d2: "dataset_ok demo_rows base cols d2" "ds_total d2 \<noteq> None" "ds_cache_cap d2 = ds_cache_cap d" by simp_all
  then have "ds_total d2 = Some 2" by (auto simp: dataset_ok_def manifest_of_def demo_rows_table)
  then have len: "dataset_len (hub_of demo_rows) d = (d2, Inr 2)" using em \<open>r = Inr ()\<close> by (simp add: dataset_len_def)
  obtain d3 r3 where g: "get_row (hub_of demo_rows) d2 (i mod 2) = (d3, r3)" by fastforce
  with get_row_ok [OF d2(1) io(1) g] io(2) ne assms(2) d2(3) have "r3 = Inr (table demo_rows ! nat (i mod 2))"
    by (auto simp: demo_rows_table)
  then show ?thesis using that len g by (simp add: row_at_def)
qed

theorem same_problem_everywhere_witness:
  "\<exists>p. omi_problem (\<lambda>b. b) (\<lambda>v. []) (table demo_rows ! nat ((7::int) mod int (length (table demo_rows)))) = Inr p
     \<and> take 3 (pb_prompt p) = ''two''"
proof -
  let ?base = "base_path ''r'' ''v'' ''data''" and ?cols = "Some [''problem'', ''expected_answer'']"
  let ?d = "omi_dataset ''r'' ''v''" and ?hub = "hub_of demo_rows"
  have ok: "dataset_ok demo_rows ?base ?cols ?d"
    by (rule after_reads [of "[]", where cap = 64]) (simp_all add: omi_dataset_def)
  obtain d1 where d1: "row_at ?hub ?d 7 = (d1, Inr (table demo_rows ! nat (7 mod 2)))"
    using hub_poses [OF ok, of 7] by (auto simp: omi_dataset_def new_dataset_def)
  obtain p where p: "omi_get_problem (\<lambda>b. b) (\<lambda>v. []) ?hub ?d 7 = (d1, Inr p)" and two: "take 3 (pb_prompt p) = ''two''"
    by (simp add: omi_get_problem_def d1 demo_rows_table omi_problem_def jindex_def)
  have io: "serves demo_rows ?base ?cols ?hub" by (rule hub_of_serves [OF demo_rows_distinct])
  from same_problem_everywhere [of "[]" "[]", OF _ io io _ _ p p] two show ?thesis by simp
qed

section \<open>The preferred indices\<close>

lemma scan_columns_eq:
  "scan_columns allowed offset cols =
     map (\<lambda>i. offset + i) (filter (\<lambda>i. concat cols ! i \<in> allowed) [0..<length (concat cols)])"
proof (induction allowed offset cols rule: scan_columns.induct)
  case (2 allowed offset col cols)
  let ?n = "length col" and ?m = "length (concat cols)"
  have split: "[0..<?n + ?m] = [0..<?n] @ map (\<lambda>i. i + ?n) [0..<?m]"
    using upt_add_eq_append [of 0 ?n ?m] map_add_upt [of ?n ?m] by (simp add: add.commute)
  have "filter (\<lambda>i. (col @ concat cols) ! i \<in> allowed) [0..<?n] = filter (\<lambda>i. col ! i \<in> allowed) [0..<?n]"
    by (rule filter_cong) (simp_all add: nth_append)
  moreover have "filter (\<lambda>i. (col @ concat cols) ! i \<in> allowed) (map (\<lambda>i. i + ?n) [0..<?m])
      = map (\<lambda>i. i + ?n) (filter (\<lambda>i. concat cols ! i \<in> allowed) [0..<?m])"
    by (simp add: filter_map comp_def nth_append)
  moreover have "(\<lambda>i. offset + ?n + i) = (\<lambda>i. offset + (i + ?n))" by (simp add: fun_eq_iff)
  ultimately show ?case unfolding scan_columns.simps "2.IH" by (simp add: split comp_def)
qed simp

text \<open>
  The preferred indices are exact: without a cached list they are, in increasing order and without repetition, the
  positions over the scanned shards whose source is allowed, so every one of them is an
  index of the dataset with that source.
\<close>

theorem eligible_indices_exact:
  assumes "sources_env = Some s" and "s \<noteq> []"
  shows "eligible_indices sources_env None max_shards columns =
      Some (filter (\<lambda>i. concat (take max_shards columns) ! i \<in> allowed_sources s) [0..<length (concat (take max_shards columns))])"
  using assms by (simp add: eligible_indices_def scan_eligible_indices_def scan_columns_eq)

theorem eligible_indices_exact_witness:
  "eligible_indices (Some ''a, b'') None 2 [[''a'', ''c''], [''b''], [''a'']] =
     Some (filter (\<lambda>i. concat (take 2 [[''a'', ''c''], [''b''], [''a'']]) ! i \<in> allowed_sources ''a, b'')
       [0..<length (concat (take 2 [[''a'', ''c''], [''b''], [''a'']]))])"
  by (rule eligible_indices_exact) simp_all

section \<open>A fenced program\<close>

definition fence_free :: "string \<Rightarrow> bool" where
  "fence_free s = (CHR 0x60 \<notin> set s \<and> CHR ''~'' \<notin> set s)"

lemma no_fence_no_block: "c \<noteq> CHR 0x60 \<Longrightarrow> c \<noteq> CHR ''~'' \<Longrightarrow> block_here (c # r) = None"
  by (simp add: block_here_def fences_def begins_def map_filter_simps numeral_3_eq_3)

lemma find_blocks_skip: "fence_free pre \<Longrightarrow> find_blocks (pre @ s) = find_blocks s"
  by (induction pre) (auto simp: fence_free_def no_fence_no_block)

lemma break_on_free: "CHR 0x60 \<notin> set body \<Longrightarrow>
   break_on (CHR 0x0A # replicate 3 CHR 0x60) (body @ CHR 0x0A # replicate 3 CHR 0x60 @ post) = Some (body, post)"
proof (induction body)
  case Nil
  then show ?case by (simp add: begins_def)
next
  case (Cons c body)
  have "\<not> begins (CHR 0x0A # replicate 3 CHR 0x60) ((c # body) @ CHR 0x0A # replicate 3 CHR 0x60 @ post)"
    using Cons.prems by (cases body) (auto simp: begins_def numeral_3_eq_3 split: if_splits)
  then show ?case using Cons by simp
qed

text \<open>
  A fenced program comes out unchanged: for a completion with one block of Python between
  fences of backquotes, text without fence characters around it, and a program without them that starts with a
  character that is not blank, \<open>_extract_python\<close> returns the program.
\<close>

theorem fenced_program_extracted:
  assumes "fence_free pre" and "fence_free code" and "fence_free post" and "code = c # r" and "\<not> py_space c"
  shows "extract_python (pre @ replicate 3 CHR 0x60 @ ''python'' @ [CHR 0x0A] @ code @ [CHR 0x0A] @ replicate 3 CHR 0x60 @ post) = code"
proof -
  define fence where "fence = replicate 3 CHR 0x60"
  define rest where "rest = code @ CHR 0x0A # fence @ post"
  define tagged where "tagged = ''python'' @ CHR 0x0A # rest"
  define block where "block = fence @ tagged"
  have langs: "after_language tagged = [CHR 0x0A # rest, ''thon'' @ CHR 0x0A # rest, tagged]"
    by (simp add: after_language_def begins_def tagged_def)
  have blanks: "\<not> py_space CHR ''t''" "\<not> py_space CHR ''p''" "py_space CHR 0x0A" by code_simp+
  have starts: "body_starts (CHR 0x0A # rest) = [rest]" "body_starts (''thon'' @ CHR 0x0A # rest) = []" "body_starts tagged = []"
    using assms(4,5) blanks by (simp_all add: body_starts_def tagged_def rest_def)
  have close: "break_on (CHR 0x0A # fence) rest = Some (code, post)"
    using break_on_free [of code post] assms(2) by (simp add: fence_def rest_def fence_free_def)
  have here: "begins fence block" "drop 3 block = tagged" "\<not> begins ''~~~'' block"
    by (simp_all add: block_def fence_def begins_def numeral_3_eq_3)
  have block: "block_here block = Some (code, post)"
    unfolding block_here_def fences_def fence_def [symmetric] by (simp add: here langs starts close map_filter_simps)
  have post: "find_blocks post = []" using find_blocks_skip [OF assms(3), of "[]"] by simp
  obtain x t where block': "block = x # t" by (simp add: block_def fence_def numeral_3_eq_3)
  have "length post < length block" by (simp add: block_def tagged_def rest_def)
  then have "find_blocks block = [code]" using block post by (simp add: block')
  then have "find_blocks (pre @ block) = [code]" using find_blocks_skip [OF assms(1), of block] by simp
  then show ?thesis by (simp add: extract_python_def Let_def block_def tagged_def rest_def fence_def)
qed

theorem fenced_program_extracted_witness:
  "extract_python (''Here: '' @ replicate 3 CHR 0x60 @ ''python'' @ [CHR 0x0A] @ ''f = 1'' @ [CHR 0x0A] @ replicate 3 CHR 0x60 @ []) = ''f = 1''"
  by (rule fenced_program_extracted) (code_simp | simp)+

text \<open>A coding problem is graded on the cases of its own row.\<close>

lemma graded_on_own_cases:
  assumes "oci_get_problem ot io s i = (s1, Inr p)"
  obtains d1 r where "row_at io (oe_dataset s) i = (d1, Inr r)"
    and "oci_compute_reward loads run s1 p completion =
      (if row_cases (ot_loads ot) r = [] then 0 else grade_structured_cases loads run (extract_python completion) (row_cases (ot_loads ot) r))"
proof -
  obtain d1 r cases where r: "row_at io (oe_dataset s) i = (d1, Inr r)" "oci_problem ot r = Inr (p, cases)"
    and s1: "s1 = s \<lparr> oe_dataset := d1, oe_cases_by_id := dset (pb_ground_truth p) cases (oe_cases_by_id s) \<rparr>"
    using assms by (auto simp: oci_get_problem_def res_simps split: prod.splits sum.splits)
  have "cases = row_cases (ot_loads ot) r"
  proof -
    obtain q where "jindex (JObj r) ''input'' = Inr q" using r(2) by (auto simp: oci_problem_def res_simps)
    then show ?thesis using r(2)
      by (cases q; cases "dumps (float_text True (ot_float_repr ot)) (JList (map JObj (row_cases (ot_loads ot) r)))")
        (auto simp: oci_problem_def res_simps Let_def simp del: dumps.simps)
  qed
  then show ?thesis using that r(1) by (simp add: oci_compute_reward_def s1)
qed

end
