(* ===== verification/Drand.thy ===== *)
theory Drand
  imports Service
begin

text \<open>
  \<open>reliquary/infrastructure/drand.py\<close>: the client of the public randomness beacon, and
  \<open>_compute_randomness\<close> of \<open>miner/engine.py\<close>, which draws a window's randomness from it. The module's globals are the
  record \<open>drand\<close>; what the network, the shuffle, \<open>bittensor_drand\<close> and the system's random
  source answer during one call is \<open>drand_io\<close>; SHA-256 is an argument. The lemmas show that a
  beacon marked as coming from drand is one the second source confirms, that no relay order and no partial
  outage hides a relay that answers, what holds of the cached chain parameters after any
  sequence of calls, and where the round of the answer and the round of the request part.
\<close>

section \<open>State\<close>

type_synonym payload = "(string, json) dict"

record chain_record =
  cr_hash :: string
  cr_period :: int
  cr_genesis :: "int option"

record drand =
  dr_current :: string
  dr_hash :: "string option"
  dr_genesis :: "int option"
  dr_period :: "int option"
  dr_info_cache :: "(string, payload) dict"
  dr_pubkeys :: "(string, bytes) dict"
  dr_counter :: int

record drand_io =
  dn_order :: "string list"
  dn_get :: "string \<Rightarrow> (int \<times> json res) res"
  dn_canonical :: "int \<Rightarrow> string res"
  dn_urandom :: bytes

definition DRAND_CHAINS :: "(string, chain_record) dict" where
  "DRAND_CHAINS =
     [(''quicknet'', \<lparr> cr_hash = ''52db9ba70e0cc0f6eaf7803dd07447a1f5477735fd3f661792ba94600c84e971'', cr_period = 3, cr_genesis = None \<rparr>),
      (''default'', \<lparr> cr_hash = ''8990e7a9aaed2ffed73dbd7092123d6f289930540d7651336225dc172e51b2ce'', cr_period = 30, cr_genesis = None \<rparr>)]"

definition DEFAULT_HASH :: string where
  "DEFAULT_HASH = ''8990e7a9aaed2ffed73dbd7092123d6f289930540d7651336225dc172e51b2ce''"

definition DRAND_URLS :: "string list" where
  "DRAND_URLS =
     [''https://api.drand.sh'', ''https://api2.drand.sh'', ''https://api3.drand.sh'', ''https://drand.cloudflare.com'',
      ''https://api.drand.secureweb3.com:6875'']"

text \<open>At import: the chain of the environment variable, nothing resolved yet.\<close>

definition fresh_drand :: "string \<Rightarrow> drand" where
  "fresh_drand env =
     \<lparr> dr_current = (if strip env = [] then ''quicknet'' else strip env), dr_hash = None, dr_genesis = None,
       dr_period = None, dr_info_cache = [], dr_pubkeys = [], dr_counter = 0 \<rparr>"

definition get_chain_record :: "string \<Rightarrow> chain_record res" where
  "get_chain_record name = (case map_of DRAND_CHAINS name of None \<Rightarrow> Inl ValueError | Some r \<Rightarrow> Inr r)"

section \<open>The network\<close>

text \<open>
  Every relay in shuffled order, for each every path that is one: the first answer with status
  200 whose body is JSON.
\<close>

fun first_answer :: "(string \<Rightarrow> (int \<times> json res) res) \<Rightarrow> string list \<Rightarrow> json option" where
  "first_answer get [] = None"
| "first_answer get (url # urls) =
     (case get url of
        Inr (status, Inr body) \<Rightarrow> if status = 200 then Some body else first_answer get urls
      | _ \<Rightarrow> first_answer get urls)"

definition http_urls :: "string list \<Rightarrow> string option list \<Rightarrow> string list" where
  "http_urls bases paths =
     concat (map (\<lambda>base. map (\<lambda>p. base @ p) (filter (\<lambda>p. p \<noteq> []) (List.map_filter id paths))) bases)"

definition http_get_json :: "drand_io \<Rightarrow> string option list \<Rightarrow> json option" where
  "http_get_json io paths = first_answer (dn_get io) (http_urls (dn_order io) paths)"

text \<open>\<open>a or b or ...\<close> over keys of a payload, and the reading of a number that may be text.\<close>

fun first_key :: "payload \<Rightarrow> string list \<Rightarrow> json" where
  "first_key p [] = JNull"
| "first_key p [k] = dget p k JNull"
| "first_key p (k # ks) = (if truthy (dget p k JNull) then dget p k JNull else first_key p ks)"

definition text_number :: "json \<Rightarrow> json" where
  "text_number v = (case v of JStr s \<Rightarrow> (case py_int s of Inr i \<Rightarrow> JInt i | Inl e \<Rightarrow> JNull) | _ \<Rightarrow> v)"

definition parse_chain_info_payload :: "payload \<Rightarrow> json \<times> json" where
  "parse_chain_info_payload p =
     (text_number (first_key p [''genesis_time'', ''genesisTime'', ''genesis'']),
      text_number (first_key p [''period'', ''round_time'', ''roundTime'']))"

definition set_unless_none :: "string \<Rightarrow> json \<Rightarrow> payload \<Rightarrow> payload" where
  "set_unless_none k v p = (if v = JNull then p else dset k v p)"

definition info_paths :: "string \<Rightarrow> string option list" where
  "info_paths h =
     [Some (''/v2/chains/'' @ h @ ''/info''), Some (''/'' @ h @ ''/info''), if h = DEFAULT_HASH then Some ''/info'' else None]"

definition fetch_chain_info :: "drand_io \<Rightarrow> drand \<Rightarrow> string \<Rightarrow> drand \<times> payload option res" where
  "fetch_chain_info io s h =
     (case map_of (dr_info_cache s) h of
        Some p \<Rightarrow> (s, Inr (Some p))
      | None \<Rightarrow>
          (case http_get_json io (info_paths h) of
             None \<Rightarrow> (s, Inr None)
           | Some body \<Rightarrow>
               (if \<not> truthy body then (s, Inr None)
                else case body of
                  JObj p \<Rightarrow>
                    (case parse_chain_info_payload p of
                       (gt, pd) \<Rightarrow>
                         (let p1 = set_unless_none ''period'' pd (set_unless_none ''genesis_time'' gt p) in
                          (s \<lparr> dr_info_cache := dset h p1 (dr_info_cache s) \<rparr>, Inr (Some p1))))
                | _ \<Rightarrow> (s, Inl AttributeError))))"

definition fetch_chain_pubkey :: "drand_io \<Rightarrow> drand \<Rightarrow> string \<Rightarrow> drand \<times> bytes option res" where
  "fetch_chain_pubkey io s h =
     (case map_of (dr_pubkeys s) h of
        Some k \<Rightarrow> (s, Inr (Some k))
      | None \<Rightarrow>
          (case fetch_chain_info io s h of
             (s1, Inl e) \<Rightarrow> (s1, Inl e)
           | (s1, Inr None) \<Rightarrow> (s1, Inr None)
           | (s1, Inr (Some p)) \<Rightarrow>
               (let v = first_key p [''public_key'', ''publicKey''] in
                if \<not> truthy v then (s1, Inr None)
                else case v of
                  JStr t \<Rightarrow>
                    (case fromhex t of
                       Inl e \<Rightarrow> (s1, Inr None)
                     | Inr k \<Rightarrow> (s1 \<lparr> dr_pubkeys := dset h k (dr_pubkeys s1) \<rparr>, Inr (Some k)))
                | _ \<Rightarrow> (s1, Inl TypeError))))"

section \<open>Chain parameters\<close>

text \<open>\<open>isinstance(v, int) and v > 0\<close>\<close>

definition live_number :: "payload option \<Rightarrow> string \<Rightarrow> int option \<Rightarrow> int option" where
  "live_number info k dflt =
     (case info of
        None \<Rightarrow> dflt
      | Some p \<Rightarrow> (case as_int (dget p k JNull) of Some i \<Rightarrow> if 0 < i then Some i else dflt | None \<Rightarrow> dflt))"

definition ensure_params :: "drand_io \<Rightarrow> bool \<Rightarrow> drand \<Rightarrow> drand \<times> unit res" where
  "ensure_params io refresh s =
     (case get_chain_record (dr_current s) of
        Inl e \<Rightarrow> (s, Inl e)
      | Inr rec \<Rightarrow>
          (if refresh \<or> dr_hash s \<noteq> Some (cr_hash rec) \<or> dr_genesis s = None \<or> dr_period s = None
           then (case fetch_chain_info io s (cr_hash rec) of
                   (s1, Inl e) \<Rightarrow> (s1, Inl e)
                 | (s1, Inr info) \<Rightarrow>
                     (s1 \<lparr> dr_hash := Some (cr_hash rec), dr_genesis := live_number info ''genesis_time'' (cr_genesis rec),
                           dr_period := live_number info ''period'' (Some (cr_period rec)) \<rparr>, Inr ()))
           else (s, Inr ())))"

definition set_chain :: "drand_io \<Rightarrow> string \<Rightarrow> bool \<Rightarrow> drand \<Rightarrow> drand \<times> unit res" where
  "set_chain io name refresh_info s =
     (case get_chain_record name of
        Inl e \<Rightarrow> (s, Inl e)
      | Inr rec \<Rightarrow> ensure_params io refresh_info (s \<lparr> dr_current := name \<rparr>))"

text \<open>The name, hash, period and genesis time of the active chain.\<close>

definition get_current_chain :: "drand_io \<Rightarrow> drand \<Rightarrow> drand \<times> (string \<times> string option \<times> int option \<times> int option) res" where
  "get_current_chain io s =
     (case ensure_params io False s of
        (s1, Inl e) \<Rightarrow> (s1, Inl e)
      | (s1, Inr u) \<Rightarrow> (s1, rbind (get_chain_record (dr_current s1)) (\<lambda>rec. Inr (dr_current s1, dr_hash s1, dr_period s1, dr_genesis s1))))"

section \<open>Beacons\<close>

record beacon =
  be_source :: string
  be_chain :: string
  be_chain_hash :: "string option"
  be_period :: "int option"
  be_round :: int
  be_randomness :: string
  be_signature :: json
  be_previous :: json

text \<open>
  \<open>verify_beacon_signature\<close> never raises: the signature must be hexadecimal text, the randomness its hash,
  and \<open>bittensor_drand\<close> must return the same signature for the round.
\<close>

definition verify_beacon_signature :: "(bytes \<Rightarrow> bytes) \<Rightarrow> drand_io \<Rightarrow> string \<Rightarrow> int \<Rightarrow> string \<Rightarrow> json \<Rightarrow> bool" where
  "verify_beacon_signature sha io chain_hash round_number randomness sig =
     (case sig of
        JStr t \<Rightarrow>
          (if t = [] then False
           else case fromhex t of
             Inl e \<Rightarrow> False
           | Inr bs \<Rightarrow>
               lower randomness = hex (sha bs)
               \<and> (case dn_canonical io round_number of Inl e \<Rightarrow> False | Inr c \<Rightarrow> lower c = lower t))
      | _ \<Rightarrow> False)"

definition get_mock_beacon :: "drand_io \<Rightarrow> drand \<Rightarrow> drand \<times> beacon res" where
  "get_mock_beacon io s =
     (case ensure_params io False s of
        (s1, Inl e) \<Rightarrow> (s1, Inl e)
      | (s1, Inr u) \<Rightarrow>
          (let n = dr_counter s1 + 1 in
           (s1 \<lparr> dr_counter := n \<rparr>,
            Inr \<lparr> be_source = ''mock'', be_chain = dr_current s1, be_chain_hash = dr_hash s1, be_period = dr_period s1,
                  be_round = n, be_randomness = hex (dn_urandom io), be_signature = JNull, be_previous = JNull \<rparr>)))"

definition beacon_paths :: "string \<Rightarrow> int option \<Rightarrow> string option list" where
  "beacon_paths h round_id =
     (let rid = (case round_id of None \<Rightarrow> ''latest'' | Some r \<Rightarrow> str_int r) in
      [Some (''/v2/chains/'' @ h @ ''/rounds/'' @ rid), Some (''/'' @ h @ ''/public/'' @ rid),
       if h = DEFAULT_HASH then Some (''/public/'' @ rid) else None])"

text \<open>The randomness of an answer that carries none is the hash of its signature.\<close>

definition derived_randomness :: "(bytes \<Rightarrow> bytes) \<Rightarrow> json \<Rightarrow> json \<Rightarrow> json res" where
  "derived_randomness sha rnd sig =
     (if rnd = JNull \<and> sig \<noteq> JNull
      then (case sig of
              JStr t \<Rightarrow> (case fromhex t of Inl e \<Rightarrow> Inr JNull | Inr bs \<Rightarrow> Inr (JStr (hex (sha bs))))
            | _ \<Rightarrow> Inl TypeError)
      else Inr rnd)"

text \<open>
  What is made of the body of an answer: no beacon when it is empty or lacks a field, an error when a
  field has a wrong type or the second source does not confirm it.
\<close>

definition beacon_from_answer ::
  "(bytes \<Rightarrow> bytes) \<Rightarrow> (json \<Rightarrow> string) \<Rightarrow> drand_io \<Rightarrow> string \<Rightarrow> string \<Rightarrow> int \<Rightarrow> json option \<Rightarrow> beacon option res" where
  "beacon_from_answer sha rep io chain h period data =
     (case data of
        None \<Rightarrow> Inr None
      | Some body \<Rightarrow>
          (if \<not> truthy body then Inr None
           else case body of
             JObj p \<Rightarrow>
               rbind (derived_randomness sha (dget p ''randomness'' JNull) (dget p ''signature'' JNull)) (\<lambda>rnd.
                 if rnd = JNull \<or> dget p ''round'' JNull = JNull then Inr None
                 else rbind (jint (dget p ''round'' JNull)) (\<lambda>n.
                   let text = (case rnd of JStr t \<Rightarrow> t | _ \<Rightarrow> rep rnd) in
                   if \<not> verify_beacon_signature sha io h n text (dget p ''signature'' JNull) then Inl RuntimeError
                   else Inr (Some \<lparr> be_source = ''drand'', be_chain = chain, be_chain_hash = Some h,
                          be_period = Some period, be_round = n, be_randomness = text,
                          be_signature = dget p ''signature'' JNull, be_previous = dget p ''previous_signature'' JNull \<rparr>)))
           | _ \<Rightarrow> Inl AttributeError))"

definition get_drand_beacon ::
  "(bytes \<Rightarrow> bytes) \<Rightarrow> (json \<Rightarrow> string) \<Rightarrow> drand_io \<Rightarrow> int option \<Rightarrow> bool \<Rightarrow> drand \<Rightarrow> drand \<times> beacon res" where
  "get_drand_beacon sha rep io round_id use_fallback s =
     (case ensure_params io False s of
        (s1, Inl e) \<Rightarrow> (s1, Inl e)
      | (s1, Inr u) \<Rightarrow>
          (case (dr_hash s1, dr_period s1) of
             (Some h, Some period) \<Rightarrow>
               (case beacon_from_answer sha rep io (dr_current s1) h period (http_get_json io (beacon_paths h round_id)) of
                  Inl e \<Rightarrow> (s1, Inl e)
                | Inr (Some b) \<Rightarrow> (s1, Inr b)
                | Inr None \<Rightarrow> if use_fallback then get_mock_beacon io s1 else (s1, Inl RuntimeError))
           | _ \<Rightarrow> (s1, Inl RuntimeError)))"

definition parse_round_id :: "string \<Rightarrow> int option res" where
  "parse_round_id round_id = (if round_id = ''latest'' then Inr None else rbind (py_int round_id) (\<lambda>r. Inr (Some r)))"

definition get_beacon ::
  "(bytes \<Rightarrow> bytes) \<Rightarrow> (json \<Rightarrow> string) \<Rightarrow> drand_io \<Rightarrow> string \<Rightarrow> bool \<Rightarrow> bool \<Rightarrow> drand \<Rightarrow> drand \<times> beacon res" where
  "get_beacon sha rep io round_id use_drand use_fallback s =
     (if \<not> use_drand then get_mock_beacon io s
      else case (case parse_round_id round_id of
                   Inl e \<Rightarrow> (s, Inl e)
                 | Inr rid \<Rightarrow> get_drand_beacon sha rep io rid use_fallback s) of
             (s1, Inr b) \<Rightarrow> (s1, Inr b)
           | (s1, Inl e) \<Rightarrow> if use_fallback then get_mock_beacon io s1 else (s1, Inl e))"

section \<open>Rounds\<close>

definition get_round_at_time :: "drand_io \<Rightarrow> int \<Rightarrow> drand \<Rightarrow> drand \<times> int res" where
  "get_round_at_time io timestamp s =
     (case ensure_params io False s of
        (s1, Inl e) \<Rightarrow> (s1, Inl e)
      | (s1, Inr u) \<Rightarrow>
          (s1, case (dr_genesis s1, dr_period s1) of
                 (Some g, Some p) \<Rightarrow> if timestamp < g then Inr 0 else rbind (floordiv (timestamp - g) p) (\<lambda>q. Inr (1 + q))
               | _ \<Rightarrow> Inl RuntimeError))"

fun first_int :: "payload \<Rightarrow> string list \<Rightarrow> int option" where
  "first_int p [] = None"
| "first_int p (k # ks) =
     (case map_of p k of
        Some v \<Rightarrow> (case jint v of Inr i \<Rightarrow> Some i | Inl e \<Rightarrow> first_int p ks)
      | None \<Rightarrow> first_int p ks)"

definition get_expected_round :: "drand_io \<Rightarrow> drand \<Rightarrow> drand \<times> int option res" where
  "get_expected_round io s =
     (case ensure_params io False s of
        (s1, Inl e) \<Rightarrow> (s1, Inl e)
      | (s1, Inr u) \<Rightarrow>
          (let path = ''/v2/chains/'' @ (case dr_hash s1 of Some h \<Rightarrow> h | None \<Rightarrow> ''None'') @ ''/health'' in
           (s1, case http_get_json io [Some path] of
                  None \<Rightarrow> Inr None
                | Some body \<Rightarrow>
                    (if \<not> truthy body then Inr None
                     else case body of
                       JObj p \<Rightarrow>
                         (case first_int p [''expected_round'', ''expectedRound'', ''expected''] of
                            Some i \<Rightarrow> Inr (Some i)
                          | None \<Rightarrow>
                              (case rbind (jget (dget p ''round'' (JObj [])) ''expected'' JNull) jint of
                                 Inr i \<Rightarrow> Inr (Some i) | Inl e \<Rightarrow> Inr None))
                     | JList xs \<Rightarrow> Inr None
                     | JStr t \<Rightarrow> Inr None
                     | _ \<Rightarrow> Inl TypeError))))"

section \<open>A window's randomness on the miner\<close>

text \<open>\<open>MiningEngine._compute_randomness\<close>: the beacon alone, or the block hash alone without drand.\<close>

definition miner_compute_randomness ::
  "(bytes \<Rightarrow> bytes) \<Rightarrow> (json \<Rightarrow> string) \<Rightarrow> drand_io \<Rightarrow> (int \<Rightarrow> string option res) \<Rightarrow> int \<Rightarrow> bool \<Rightarrow> drand \<Rightarrow> drand \<times> string res" where
  "miner_compute_randomness sha rep io get_block_hash window_start use_drand s =
     (if use_drand
      then (case get_current_chain io s of
              (s1, Inl e) \<Rightarrow> (s1, Inl e)
            | (s1, Inr (name, h, Some period, Some genesis)) \<Rightarrow>
                (case compute_drand_round_for_window window_start genesis period of
                   Inl e \<Rightarrow> (s1, Inl e)
                 | Inr r \<Rightarrow>
                     (case get_beacon sha rep io (str_int r) True False s1 of
                        (s2, Inl e) \<Rightarrow> (s2, Inl e)
                      | (s2, Inr b) \<Rightarrow> (s2, compute_window_randomness sha None (Some (be_randomness b)) (Some (be_round b)))))
            | (s1, Inr _) \<Rightarrow> (s1, Inl TypeError))
      else (s, rbind (get_block_hash window_start) (\<lambda>bh. compute_window_randomness sha bh None None)))"

section \<open>Relays\<close>

lemma first_answer_some: "first_answer get urls = Some body \<Longrightarrow> \<exists>u\<in>set urls. get u = Inr (200, Inr body)"
  by (induction urls) (auto split: sum.splits if_splits)

lemma first_answer_none: "first_answer get urls = None \<longleftrightarrow> (\<forall>u\<in>set urls. \<forall>body. get u \<noteq> Inr (200, Inr body))"
  by (induction urls) (auto split: sum.splits if_splits)

text \<open>
  A partial outage hides no relay: whatever the shuffled order, the fetch returns an answer exactly when
  some relay answers one of the paths with status 200 and JSON, and then one of those
  answers; the relays that raise, time out, refuse or send garbage do not matter.
\<close>

theorem answering_relay_is_found:
  "(http_get_json io paths \<noteq> None \<longleftrightarrow>
      (\<exists>base\<in>set (dn_order io). \<exists>p. Some p \<in> set paths \<and> p \<noteq> [] \<and> (\<exists>body. dn_get io (base @ p) = Inr (200, Inr body))))
   \<and> (\<forall>body. http_get_json io paths = Some body \<longrightarrow>
      (\<exists>base\<in>set (dn_order io). \<exists>p. Some p \<in> set paths \<and> p \<noteq> [] \<and> dn_get io (base @ p) = Inr (200, Inr body)))"
proof -
  have urls: "u \<in> set (http_urls bases paths) \<longleftrightarrow> (\<exists>base\<in>set bases. \<exists>p. Some p \<in> set paths \<and> p \<noteq> [] \<and> u = base @ p)" for u bases
    by (fastforce simp: http_urls_def List.map_filter_def image_iff)
  have ex: "(\<exists>u\<in>set (http_urls (dn_order io) paths). Q u) \<longleftrightarrow> (\<exists>base\<in>set (dn_order io). \<exists>p. Some p \<in> set paths \<and> p \<noteq> [] \<and> Q (base @ p))" for Q
    unfolding Bex_def urls by blast
  have "http_get_json io paths \<noteq> None \<longleftrightarrow> (\<exists>u\<in>set (http_urls (dn_order io) paths). \<exists>body. dn_get io u = Inr (200, Inr body))"
    unfolding http_get_json_def first_answer_none by blast
  moreover have "\<exists>u\<in>set (http_urls (dn_order io) paths). dn_get io u = Inr (200, Inr body)" if "http_get_json io paths = Some body" for body
    using first_answer_some that unfolding http_get_json_def by blast
  ultimately show ?thesis unfolding ex by blast
qed

section \<open>Parameters\<close>

text \<open>
  What holds of the module's globals: a resolved hash is a known chain's, periods and genesis
  times are positive, and mock rounds count up from zero.
\<close>

definition drand_ok :: "drand \<Rightarrow> bool" where
  "drand_ok s =
     ((\<forall>h. dr_hash s = Some h \<longrightarrow> h \<in> cr_hash ` snd ` set DRAND_CHAINS)
      \<and> (dr_hash s \<noteq> None \<longrightarrow> dr_period s \<noteq> None)
      \<and> (\<forall>p. dr_period s = Some p \<longrightarrow> 0 < p) \<and> (\<forall>g. dr_genesis s = Some g \<longrightarrow> 0 < g) \<and> 0 \<le> dr_counter s)"

lemma chain_record_cases:
  "get_chain_record name = Inr rec \<Longrightarrow> cr_hash rec \<in> cr_hash ` snd ` set DRAND_CHAINS \<and> 0 < cr_period rec \<and> cr_genesis rec = None"
  by (auto simp: get_chain_record_def DRAND_CHAINS_def split: if_splits)

lemma live_number_pos: "live_number info k dflt = Some i \<Longrightarrow> (\<And>j. dflt = Some j \<Longrightarrow> 0 < j) \<Longrightarrow> 0 < i"
  by (auto simp: live_number_def split: option.splits if_splits)

lemma live_number_default: "live_number info k (Some i) \<noteq> None"
  by (auto simp: live_number_def split: option.splits)

text \<open>A fetch of chain information only adds to its cache.\<close>

lemma fetch_info_keeps:
  "fetch_chain_info io s h = (s1, r) \<Longrightarrow> \<exists>cache. s1 = s \<lparr> dr_info_cache := cache \<rparr>"
proof -
  assume f: "fetch_chain_info io s h = (s1, r)"
  have same: "\<exists>cache. s = s \<lparr> dr_info_cache := cache \<rparr>" by (rule exI [of _ "dr_info_cache s"]) simp
  show ?thesis using f same
    by (auto simp: fetch_chain_info_def Let_def split: option.splits if_splits json.splits prod.splits)
qed

lemma ensure_params_ok:
  assumes "drand_ok s" and "ensure_params io refresh s = (s1, r)"
  shows "drand_ok s1 \<and> dr_current s1 = dr_current s \<and> dr_counter s1 = dr_counter s
    \<and> (r = Inr () \<longrightarrow> (\<exists>rec. get_chain_record (dr_current s) = Inr rec \<and> dr_hash s1 = Some (cr_hash rec)))"
proof (cases "get_chain_record (dr_current s)")
  case (Inl e)
  then show ?thesis using assms by (auto simp: ensure_params_def)
next
  case (Inr rec)
  note c = chain_record_cases [OF Inr]
  show ?thesis
  proof (cases "refresh \<or> dr_hash s \<noteq> Some (cr_hash rec) \<or> dr_genesis s = None \<or> dr_period s = None")
    case False
    then show ?thesis using assms Inr by (auto simp: ensure_params_def)
  next
    case True
    obtain s2 r2 where f: "fetch_chain_info io s (cr_hash rec) = (s2, r2)" by fastforce
    obtain cache where s2: "s2 = s \<lparr> dr_info_cache := cache \<rparr>" using fetch_info_keeps [OF f] by blast
    show ?thesis
    proof (cases r2)
      case Inl
      then show ?thesis using assms Inr True f s2 by (auto simp: ensure_params_def drand_ok_def)
    next
      case (Inr info)
      then have s1: "s1 = s2 \<lparr> dr_hash := Some (cr_hash rec), dr_genesis := live_number info ''genesis_time'' (cr_genesis rec),
          dr_period := live_number info ''period'' (Some (cr_period rec)) \<rparr>"
        using assms(2) \<open>get_chain_record (dr_current s) = Inr rec\<close> True f by (simp add: ensure_params_def)
      have "0 < p" if "live_number info ''period'' (Some (cr_period rec)) = Some p" for p
        using live_number_pos [OF that] c by simp
      moreover have "0 < g" if "live_number info ''genesis_time'' (cr_genesis rec) = Some g" for g
        using live_number_pos [OF that] c by simp
      ultimately have "drand_ok s1"
        using assms(1) c live_number_default [of info "''period''" "cr_period rec"] by (simp add: drand_ok_def s1 s2)
      then show ?thesis using \<open>get_chain_record (dr_current s) = Inr rec\<close> by (simp add: s1 s2)
    qed
  qed
qed

text \<open>The errors of the parameters: an unknown chain and an answer that is not an object.\<close>

lemma ensure_params_error: "ensure_params io refresh s = (s1, Inl e) \<Longrightarrow> e = ValueError \<or> e = AttributeError"
proof -
  assume a: "ensure_params io refresh s = (s1, Inl e)"
  have rec: "get_chain_record name = Inl err \<Longrightarrow> err = ValueError" for name err
    by (auto simp: get_chain_record_def split: option.splits)
  have info: "fetch_chain_info io s h = (s2, Inl err) \<Longrightarrow> err = AttributeError" for h s2 err
    by (auto simp: fetch_chain_info_def Let_def split: option.splits if_splits json.splits prod.splits)
  from a rec info show ?thesis
    by (auto simp: ensure_params_def split: sum.splits prod.splits if_splits)
qed

text \<open>The calls of the module, each with what the network answers during it.\<close>

datatype drand_call =
    SetChain string bool | CurrentChain | MockBeacon | DrandBeacon "int option" bool | Beacon string bool bool
  | RoundAtTime int | ExpectedRound | ChainPubkey string

fun drand_step :: "(bytes \<Rightarrow> bytes) \<Rightarrow> (json \<Rightarrow> string) \<Rightarrow> drand_io \<Rightarrow> drand_call \<Rightarrow> drand \<Rightarrow> drand" where
  "drand_step sha rep io (SetChain name refresh) s = fst (set_chain io name refresh s)"
| "drand_step sha rep io CurrentChain s = fst (get_current_chain io s)"
| "drand_step sha rep io MockBeacon s = fst (get_mock_beacon io s)"
| "drand_step sha rep io (DrandBeacon r fallback) s = fst (get_drand_beacon sha rep io r fallback s)"
| "drand_step sha rep io (Beacon r use fallback) s = fst (get_beacon sha rep io r use fallback s)"
| "drand_step sha rep io (RoundAtTime t) s = fst (get_round_at_time io t s)"
| "drand_step sha rep io ExpectedRound s = fst (get_expected_round io s)"
| "drand_step sha rep io (ChainPubkey h) s = fst (fetch_chain_pubkey io s h)"

definition drand_run :: "(bytes \<Rightarrow> bytes) \<Rightarrow> (json \<Rightarrow> string) \<Rightarrow> (drand_io \<times> drand_call) list \<Rightarrow> drand \<Rightarrow> drand" where
  "drand_run sha rep calls s = foldl (\<lambda>s (io, c). drand_step sha rep io c s) s calls"

lemma mock_ok: "drand_ok s \<Longrightarrow> drand_ok (fst (get_mock_beacon io s))"
proof -
  assume s: "drand_ok s"
  obtain s1 r where e: "ensure_params io False s = (s1, r)" by fastforce
  from ensure_params_ok [OF s e] show ?thesis
    by (cases r) (auto simp: get_mock_beacon_def e Let_def drand_ok_def)
qed

lemma drand_beacon_state:
  "fst (get_drand_beacon sha rep io rid fallback s) \<in> {fst (ensure_params io False s), fst (get_mock_beacon io (fst (ensure_params io False s)))}"
proof -
  obtain s1 r where e: "ensure_params io False s = (s1, r)" by fastforce
  show ?thesis
  proof (cases r)
    case (Inl err)
    then show ?thesis by (simp add: get_drand_beacon_def e)
  next
    case (Inr u)
    show ?thesis
    proof (cases "dr_hash s1 = None \<or> dr_period s1 = None")
      case True
      then show ?thesis using Inr by (cases "dr_hash s1"; cases "dr_period s1") (simp_all add: get_drand_beacon_def e)
    next
      case False
      then obtain h period where hp: "dr_hash s1 = Some h" "dr_period s1 = Some period" by auto
      define ans where "ans = beacon_from_answer sha rep io (dr_current s1) h period (http_get_json io (beacon_paths h rid))"
      show ?thesis using Inr by (simp add: get_drand_beacon_def e hp ans_def [symmetric] split: sum.split option.split)
    qed
  qed
qed

lemma ensure_fst_ok: "drand_ok s \<Longrightarrow> drand_ok (fst (ensure_params io refresh s))"
  using ensure_params_ok by (metis prod.collapse)

lemma drand_beacon_ok: "drand_ok s \<Longrightarrow> drand_ok (fst (get_drand_beacon sha rep io rid fallback s))"
  using drand_beacon_state [of sha rep io rid fallback s] mock_ok ensure_fst_ok by auto

text \<open>\<open>get_beacon\<close> by its paths: the mock, a bad round, or the drand answer with its fallback.\<close>

lemma get_beacon_ok: "drand_ok s \<Longrightarrow> drand_ok (fst (get_beacon sha rep io rid use fallback s))"
proof (cases use)
  case False
  assume "drand_ok s"
  then show ?thesis using False by (simp add: get_beacon_def mock_ok)
next
  case True
  assume s: "drand_ok s"
  show ?thesis
  proof (cases "parse_round_id rid")
    case (Inl e)
    then show ?thesis using True s by (simp add: get_beacon_def mock_ok)
  next
    case (Inr r)
    obtain s1 b where d: "get_drand_beacon sha rep io r fallback s = (s1, b)" by fastforce
    have "drand_ok s1" using drand_beacon_ok [OF s, of sha rep io r fallback] d by simp
    then show ?thesis using True Inr by (cases b) (simp_all add: get_beacon_def d mock_ok)
  qed
qed

lemma drand_step_ok: "drand_ok s \<Longrightarrow> drand_ok (drand_step sha rep io c s)"
proof (cases c)
  case (SetChain name refresh)
  moreover assume "drand_ok s"
  then have "drand_ok (s \<lparr> dr_current := name \<rparr>)" by (simp add: drand_ok_def)
  ultimately show ?thesis using ensure_fst_ok \<open>drand_ok s\<close> by (auto simp: set_chain_def split: sum.splits)
next
  case (Beacon rid use fallback)
  then show "drand_ok s \<Longrightarrow> ?thesis" by (simp add: get_beacon_ok)
next
  case (ChainPubkey h)
  assume s: "drand_ok s"
  obtain s1 r where f: "fetch_chain_info io s h = (s1, r)" by fastforce
  then have "drand_ok s1" using fetch_info_keeps [OF f] s by (auto simp: drand_ok_def)
  then show ?thesis using s ChainPubkey
    by (auto simp: fetch_chain_pubkey_def f Let_def drand_ok_def split: option.splits sum.splits json.splits)
next
  case CurrentChain
  then show "drand_ok s \<Longrightarrow> ?thesis" using ensure_fst_ok [of s io False]
    by (cases "ensure_params io False s") (simp add: get_current_chain_def split: sum.split)
next
  case (RoundAtTime t)
  then show "drand_ok s \<Longrightarrow> ?thesis" using ensure_fst_ok [of s io False]
    by (cases "ensure_params io False s") (simp add: get_round_at_time_def split: sum.split)
next
  case ExpectedRound
  then show "drand_ok s \<Longrightarrow> ?thesis" using ensure_fst_ok [of s io False]
    by (cases "ensure_params io False s") (simp add: get_expected_round_def Let_def split: sum.split)
qed (simp_all add: mock_ok drand_beacon_ok)

lemma fresh_drand_ok: "drand_ok (fresh_drand env)"
  by (simp add: drand_ok_def fresh_drand_def)

lemma drand_run_ok: "drand_ok s \<Longrightarrow> drand_ok (drand_run sha rep calls s)"
  by (induction calls arbitrary: s) (auto simp: drand_run_def drand_step_ok)

text \<open>The active chain is a known one: only \<open>set_chain\<close> writes it, after the lookup.\<close>

lemma current_chain_params:
  assumes "drand_ok s" and "get_current_chain io s = (s1, Inr (name, h, period, genesis))"
  shows "drand_ok s1 \<and> (\<exists>rec p. get_chain_record name = Inr rec \<and> h = Some (cr_hash rec) \<and> period = Some p \<and> 0 < p)
    \<and> (\<forall>g. genesis = Some g \<longrightarrow> 0 < g)"
proof -
  obtain s2 r where e: "ensure_params io False s = (s2, r)" by fastforce
  obtain u where r: "r = Inr u" using assms(2) e by (cases r) (simp_all add: get_current_chain_def)
  note ok = ensure_params_ok [OF assms(1) e]
  have "s1 = s2 \<and> name = dr_current s2 \<and> h = dr_hash s2 \<and> period = dr_period s2 \<and> genesis = dr_genesis s2"
    using assms(2) e r by (auto simp: get_current_chain_def rbind_eq_Inr)
  then show ?thesis using ok r by (auto simp: drand_ok_def)
qed

text \<open>
  Whatever was called before and whatever the relays answered, the parameters a caller reads are those of the active
  chain: its configured hash, a positive period and no genesis time but a positive one, so that
  no round is ever computed by a division by zero or from another chain's clock.
\<close>

theorem chain_parameters_are_sound:
  assumes "get_current_chain io (drand_run sha rep calls (fresh_drand env)) = (s1, Inr (name, h, period, genesis))"
  shows "(\<exists>rec p. get_chain_record name = Inr rec \<and> h = Some (cr_hash rec) \<and> period = Some p \<and> 0 < p)
    \<and> (\<forall>g. genesis = Some g \<longrightarrow> 0 < g)"
  using current_chain_params [OF drand_run_ok [OF fresh_drand_ok] assms] by blast

text \<open>A network nobody answers on: the configured period is used and the genesis time stays unknown.\<close>

definition silent_network :: drand_io where
  "silent_network = \<lparr> dn_order = DRAND_URLS, dn_get = \<lambda>_. Inl RuntimeError, dn_canonical = \<lambda>_. Inl RuntimeError, dn_urandom = [] \<rparr>"

lemma silent_get: "http_get_json silent_network paths = None"
proof -
  have "first_answer (\<lambda>_. Inl RuntimeError) urls = None" for urls by (induction urls) simp_all
  then show ?thesis by (simp add: http_get_json_def silent_network_def)
qed

lemma quicknet_record:
  "get_chain_record ''quicknet'' = Inr \<lparr> cr_hash = ''52db9ba70e0cc0f6eaf7803dd07447a1f5477735fd3f661792ba94600c84e971'', cr_period = 3, cr_genesis = None \<rparr>"
  by (simp add: get_chain_record_def DRAND_CHAINS_def)

lemma fresh_fields:
  "dr_info_cache (fresh_drand env) = []" "dr_hash (fresh_drand env) = None" "dr_genesis (fresh_drand env) = None"
  "dr_period (fresh_drand env) = None" "dr_counter (fresh_drand env) = 0" "dr_pubkeys (fresh_drand env) = []"
  by (simp_all add: fresh_drand_def)

lemma fresh_quicknet: "dr_current (fresh_drand []) = ''quicknet''"
  by (simp add: fresh_drand_def strip_def)

lemma silent_params:
  "snd (ensure_params silent_network False (fresh_drand [])) = Inr ()
   \<and> dr_period (fst (ensure_params silent_network False (fresh_drand []))) = Some 3
   \<and> dr_genesis (fst (ensure_params silent_network False (fresh_drand []))) = None"
  by (simp add: ensure_params_def fresh_quicknet quicknet_record fetch_chain_info_def fresh_fields silent_get live_number_def)

text \<open>A run against it: the chain is switched, a mock beacon drawn, the chain switched back.\<close>

lemma silent_set_chain:
  "set_chain silent_network ''quicknet'' True (fresh_drand [])
   = ((fresh_drand []) \<lparr> dr_hash := Some (cr_hash (snd (hd DRAND_CHAINS))), dr_period := Some 3 \<rparr>, Inr ())"
  by (simp add: set_chain_def ensure_params_def fresh_quicknet quicknet_record fetch_chain_info_def fresh_fields silent_get live_number_def DRAND_CHAINS_def)

lemma silent_current:
  "get_current_chain silent_network (drand_run sha rep [(silent_network, SetChain ''quicknet'' True)] (fresh_drand []))
   = ((fresh_drand []) \<lparr> dr_hash := Some (cr_hash (snd (hd DRAND_CHAINS))), dr_period := Some 3 \<rparr>,
      Inr (''quicknet'', Some (cr_hash (snd (hd DRAND_CHAINS))), Some 3, None))"
  by (simp add: drand_run_def silent_set_chain get_current_chain_def ensure_params_def fresh_quicknet quicknet_record
      fetch_chain_info_def fresh_fields silent_get live_number_def)
    (simp add: fresh_drand_def strip_def DRAND_CHAINS_def)

theorem chain_parameters_are_sound_witness:
  "\<exists>rec p. get_chain_record ''quicknet'' = Inr rec \<and> Some (cr_hash (snd (hd DRAND_CHAINS))) = Some (cr_hash rec)
     \<and> Some (3::int) = Some p \<and> 0 < p"
  by (rule chain_parameters_are_sound [OF silent_current, THEN conjunct1])

section \<open>The cached chain information\<close>

text \<open>
  Once the information of a chain has been fetched it is never fetched again: a refresh and a switch to the chain
  read the cached answer, so their results do not depend on what the network says now.
\<close>

theorem refresh_keeps_cached_info:
  assumes "get_chain_record name = Inr rec" and "map_of (dr_info_cache s) (cr_hash rec) = Some info"
  shows "set_chain io name True s = set_chain io' name True s
    \<and> (dr_current s = name \<longrightarrow> ensure_params io True s = ensure_params io' True s)
    \<and> dr_info_cache (fst (set_chain io name True s)) = dr_info_cache s"
proof -
  have f: "fetch_chain_info i t (cr_hash rec) = (t, Inr (Some info))" if "dr_info_cache t = dr_info_cache s" for i t
    using assms(2) that by (simp add: fetch_chain_info_def)
  show ?thesis using assms(1) by (simp add: set_chain_def ensure_params_def f)
qed

theorem refresh_keeps_cached_info_witness:
  "set_chain silent_network ''quicknet'' True
     ((fresh_drand []) \<lparr> dr_info_cache := [(cr_hash (snd (hd DRAND_CHAINS)), [(''period'', JInt 30)])] \<rparr>)
   = set_chain (silent_network \<lparr> dn_get := \<lambda>_. Inr (200, Inr (JObj [(''period'', JInt 5)])) \<rparr>) ''quicknet'' True
     ((fresh_drand []) \<lparr> dr_info_cache := [(cr_hash (snd (hd DRAND_CHAINS)), [(''period'', JInt 30)])] \<rparr>)"
proof -
  have "map_of (dr_info_cache ((fresh_drand []) \<lparr> dr_info_cache := [(cr_hash (snd (hd DRAND_CHAINS)), [(''period'', JInt 30)])] \<rparr>))
      (cr_hash \<lparr> cr_hash = ''52db9ba70e0cc0f6eaf7803dd07447a1f5477735fd3f661792ba94600c84e971'', cr_period = 3, cr_genesis = None \<rparr>)
    = Some [(''period'', JInt 30)]"
    by (simp add: DRAND_CHAINS_def)
  from refresh_keeps_cached_info [OF quicknet_record this] show ?thesis by blast
qed

section \<open>Authentic beacons\<close>

lemma verified_signature:
  "verify_beacon_signature sha io h n randomness sig \<Longrightarrow>
   \<exists>t bs c. sig = JStr t \<and> t \<noteq> [] \<and> fromhex t = Inr bs \<and> lower randomness = hex (sha bs) \<and> dn_canonical io n = Inr c \<and> lower c = lower t"
  by (auto simp: verify_beacon_signature_def split: json.splits sum.splits if_splits)

lemma beacon_from_answer_some:
  "beacon_from_answer sha rep io chain h period data = Inr (Some b) \<Longrightarrow>
   be_source b = ''drand'' \<and> be_chain b = chain \<and> be_chain_hash b = Some h \<and> be_period b = Some period
   \<and> (\<exists>p. data = Some (JObj p) \<and> jint (dget p ''round'' JNull) = Inr (be_round b) \<and> be_signature b = dget p ''signature'' JNull)
   \<and> verify_beacon_signature sha io h (be_round b) (be_randomness b) (be_signature b)"
  by (auto simp: beacon_from_answer_def rbind_eq_Inr Let_def split: option.splits if_splits json.splits)

lemma drand_beacon_inr:
  assumes "get_drand_beacon sha rep io rid False s = (s1, Inr b)"
  shows "\<exists>h period. ensure_params io False s = (s1, Inr ()) \<and> dr_hash s1 = Some h
    \<and> beacon_from_answer sha rep io (dr_current s1) h period (http_get_json io (beacon_paths h rid)) = Inr (Some b)"
proof -
  obtain s2 r where e: "ensure_params io False s = (s2, r)" by fastforce
  obtain u where r: "r = Inr u" using assms e by (cases r) (simp_all add: get_drand_beacon_def)
  obtain h period where hp: "dr_hash s2 = Some h" "dr_period s2 = Some period"
    using assms e r by (cases "dr_hash s2"; cases "dr_period s2") (simp_all add: get_drand_beacon_def)
  define ans where "ans = beacon_from_answer sha rep io (dr_current s2) h period (http_get_json io (beacon_paths h rid))"
  have "s1 = s2 \<and> ans = Inr (Some b)"
    using assms by (auto simp: get_drand_beacon_def e r hp ans_def [symmetric] split: sum.splits option.splits)
  then show ?thesis using e r hp unfolding ans_def by auto
qed

lemma get_beacon_inr:
  assumes "get_beacon sha rep io round_id True False s = (s1, Inr b)"
  shows "\<exists>rid. parse_round_id round_id = Inr rid \<and> get_drand_beacon sha rep io rid False s = (s1, Inr b)"
proof (cases "parse_round_id round_id")
  case (Inl e)
  then show ?thesis using assms by (simp add: get_beacon_def)
next
  case (Inr rid)
  then show ?thesis using assms by (simp add: get_beacon_def split: prod.splits sum.splits)
qed

text \<open>
  C24. A beacon obtained without fallback is authentic, whatever the relays send: its source is drand, its signature is
  hexadecimal, its randomness is the hash of that signature, the independent source returns the same
  signature for its round, and it carries the hash of the active chain. A relay cannot forge randomness.
\<close>

theorem beacon_is_confirmed:
  assumes "get_beacon sha rep io round_id True False s = (s1, Inr b)" and "drand_ok s"
  shows "be_source b = ''drand'' \<and> drand_ok s1
    \<and> (\<exists>rec. get_chain_record (dr_current s) = Inr rec \<and> be_chain b = dr_current s \<and> be_chain_hash b = Some (cr_hash rec))
    \<and> (\<exists>t bs c. be_signature b = JStr t \<and> fromhex t = Inr bs \<and> lower (be_randomness b) = hex (sha bs)
        \<and> dn_canonical io (be_round b) = Inr c \<and> lower c = lower t)"
proof -
  obtain rid where g: "get_drand_beacon sha rep io rid False s = (s1, Inr b)" using get_beacon_inr [OF assms(1)] by blast
  obtain h period where e: "ensure_params io False s = (s1, Inr ())" "dr_hash s1 = Some h"
    and a: "beacon_from_answer sha rep io (dr_current s1) h period (http_get_json io (beacon_paths h rid)) = Inr (Some b)"
    using drand_beacon_inr [OF g] by blast
  note f = beacon_from_answer_some [OF a]
  note v = verified_signature [of sha io h "be_round b" "be_randomness b" "be_signature b"]
  from ensure_params_ok [OF assms(2) e(1)] e(2) f v show ?thesis by auto
qed

text \<open>A network on which every relay and the second source know one round, whatever is asked for.\<close>

definition one_round_network :: "int \<Rightarrow> drand_io" where
  "one_round_network n =
     \<lparr> dn_order = DRAND_URLS,
       dn_get = \<lambda>url. Inr (200, Inr (JObj [(''genesis_time'', JInt 1692803367), (''round'', JInt n), (''signature'', JStr ''ab'')])),
       dn_canonical = \<lambda>r. if r = n then Inr ''AB'' else Inl ValueError, dn_urandom = [] \<rparr>"

lemma lower_hex: "lower (hex bs) = hex bs"
proof -
  have "list_all (\<lambda>n. lower_char (hex_digit n) = hex_digit n) [0..<16]" by code_simp
  then have "lower_char (hex_digit n) = hex_digit n" if "n < 16" for n using that by (simp add: list_all_iff)
  then have "lower (hex_of_byte b) = hex_of_byte b" for b
    using unat_byte_split [of b] by (simp add: lower_def hex_of_byte_def)
  then show ?thesis by (induction bs) (simp_all add: hex_def lower_def)
qed

lemma one_round_get:
  "http_get_json (one_round_network n) (Some (c # cs) # paths)
   = Some (JObj [(''genesis_time'', JInt 1692803367), (''round'', JInt n), (''signature'', JStr ''ab'')])"
  by (simp add: http_get_json_def one_round_network_def http_urls_def DRAND_URLS_def map_filter_simps)

lemma one_round_params:
  "ensure_params (one_round_network n) False (fresh_drand []) =
     ((fresh_drand []) \<lparr> dr_info_cache := [(cr_hash (snd (hd DRAND_CHAINS)),
          [(''genesis_time'', JInt 1692803367), (''round'', JInt n), (''signature'', JStr ''ab'')])],
        dr_hash := Some (cr_hash (snd (hd DRAND_CHAINS))), dr_genesis := Some 1692803367, dr_period := Some 3 \<rparr>, Inr ())"
  by (simp add: ensure_params_def fresh_quicknet quicknet_record fetch_chain_info_def fresh_fields info_paths_def one_round_get
      live_number_def parse_chain_info_payload_def text_number_def set_unless_none_def dget_def dset_def Let_def DRAND_CHAINS_def)

lemma one_round_beacon:
  "\<exists>s1 b. get_drand_beacon sha rep (one_round_network n) (Some requested) False (fresh_drand []) = (s1, Inr b)
     \<and> be_round b = n \<and> be_randomness b = hex (sha [171])"
proof -
  have f: "fromhex ''ab'' = Inr [171]" by (simp add: hex_value_def ascii_space_def)
  have "lower ''AB'' = lower ''ab''" by code_simp
  then have v: "verify_beacon_signature sha (one_round_network n) h n (hex (sha [171])) (JStr ''ab'')" for h
    by (simp add: verify_beacon_signature_def f lower_hex one_round_network_def del: fromhex.simps)
  have "beacon_from_answer sha rep (one_round_network n) chain h period
      (Some (JObj [(''genesis_time'', JInt 1692803367), (''round'', JInt n), (''signature'', JStr ''ab'')]))
    = Inr (Some \<lparr> be_source = ''drand'', be_chain = chain, be_chain_hash = Some h, be_period = Some period, be_round = n,
        be_randomness = hex (sha [171]), be_signature = JStr ''ab'', be_previous = JNull \<rparr>)" for chain h period
    by (simp add: beacon_from_answer_def derived_randomness_def dget_def f v Let_def del: fromhex.simps)
  then show ?thesis
    by (simp add: get_drand_beacon_def one_round_params beacon_paths_def Let_def one_round_get)
qed

text \<open>
  The round of the answer is never compared with the round of the request: against relays that serve another round, the
  call for any round succeeds and returns an authentic beacon of the round the relays chose, and the
  window's randomness is drawn from that one.
\<close>

theorem relay_picks_the_round:
  "\<exists>s1 b. get_drand_beacon sha rep (one_round_network n) (Some requested) False (fresh_drand []) = (s1, Inr b)
     \<and> be_round b = n \<and> be_randomness b = hex (sha [171])"
  by (rule one_round_beacon)

theorem beacon_is_confirmed_witness:
  "\<exists>s1 b. get_beacon (\<lambda>m. m) (\<lambda>_. []) (one_round_network 5) ''5'' True False (fresh_drand []) = (s1, Inr b) \<and> be_source b = ''drand''
     \<and> (\<exists>t bs c. be_signature b = JStr t \<and> fromhex t = Inr bs \<and> lower (be_randomness b) = hex ((\<lambda>m. m) bs)
        \<and> dn_canonical (one_round_network 5) (be_round b) = Inr c \<and> lower c = lower t)"
proof -
  have rid: "parse_round_id ''5'' = Inr (Some 5)" by code_simp
  obtain s1 b where "get_drand_beacon (\<lambda>m. m) (\<lambda>_. []) (one_round_network 5) (Some 5) False (fresh_drand []) = (s1, Inr b)"
    using one_round_beacon [of "\<lambda>m. m" "\<lambda>_. []" 5 5] by blast
  then have g: "get_beacon (\<lambda>m. m) (\<lambda>_. []) (one_round_network 5) ''5'' True False (fresh_drand []) = (s1, Inr b)"
    by (simp add: get_beacon_def rid)
  from beacon_is_confirmed [OF g fresh_drand_ok] g show ?thesis by blast
qed

section \<open>Rounds and clocks\<close>

text \<open>
  The round of a time is the one on the air then: zero before the genesis, otherwise the positive round whose interval of
  one period contains the time, the same round the chain module computes for its windows; and
  whatever the relays answered, the computation never divides by zero.
\<close>

theorem round_at_time_brackets:
  assumes "get_round_at_time io t (drand_run sha rep calls (fresh_drand env)) = (s1, r)"
  shows "r \<noteq> Inl ZeroDivisionError
    \<and> (\<forall>n. r = Inr n \<longrightarrow> (\<exists>g p. dr_genesis s1 = Some g \<and> dr_period s1 = Some p \<and> 0 < p
        \<and> (t < g \<longrightarrow> n = 0)
        \<and> (g \<le> t \<longrightarrow> 1 \<le> n \<and> g + (n - 1) * p \<le> t \<and> t < g + n * p \<and> compute_current_drand_round (of_int t) g p = Inr n)))"
proof -
  define s where "s = drand_run sha rep calls (fresh_drand env)"
  have s: "drand_ok s" unfolding s_def by (rule drand_run_ok [OF fresh_drand_ok])
  obtain s2 e where e: "ensure_params io False s = (s2, e)" by fastforce
  have r: "get_round_at_time io t s = (s1, r)" using assms by (simp add: s_def)
  show ?thesis
  proof (cases e)
    case (Inl err)
    then have "r = Inl err" using r e by (simp add: get_round_at_time_def)
    moreover have "err \<noteq> ZeroDivisionError" using e Inl ensure_params_error by blast
    ultimately show ?thesis by simp
  next
    case (Inr u)
    show ?thesis
    proof (cases "dr_genesis s2 = None \<or> dr_period s2 = None")
      case True
      then show ?thesis using r e Inr by (cases "dr_genesis s2"; cases "dr_period s2") (auto simp: get_round_at_time_def)
    next
      case False
      then obtain g p where gp: "dr_genesis s2 = Some g" "dr_period s2 = Some p" by auto
      have p: "0 < p" using ensure_params_ok [OF s e] gp by (simp add: drand_ok_def)
      have r1: "s1 = s2 \<and> r = (if t < g then Inr 0 else Inr (1 + (t - g) div p))"
        using r e Inr gp p by (auto simp: get_round_at_time_def floordiv_def)
      have d: "p * ((t - g) div p) + (t - g) mod p = t - g" "0 \<le> (t - g) mod p" "(t - g) mod p < p" using p by simp_all
      show ?thesis
      proof (cases "t < g")
        case True
        then show ?thesis using r1 gp p by auto
      next
        case False
        then have "0 \<le> (t - g) div p" using p by (simp add: pos_imp_zdiv_nonneg_iff)
        moreover have "compute_current_drand_round (of_int t) g p = Inr (1 + (t - g) div p)"
          using False p floor_divide_of_int_eq [of "t - g" p] by (simp add: compute_current_drand_round_def)
        moreover have "g + p * ((t - g) div p) \<le> t \<and> t < g + (p + p * ((t - g) div p))" using d by linarith
        ultimately show ?thesis using False r1 gp p by (simp add: algebra_simps)
      qed
    qed
  qed
qed

theorem round_at_time_brackets_witness:
  "\<exists>s1. get_round_at_time (one_round_network 5) 1692803400 (drand_run (\<lambda>m. m) (\<lambda>_. []) [] (fresh_drand [])) = (s1, Inr 12)
     \<and> (\<exists>g p. dr_genesis s1 = Some g \<and> dr_period s1 = Some p \<and> 0 < p \<and> g + (12 - 1) * p \<le> 1692803400 \<and> 1692803400 < g + 12 * p)"
proof -
  obtain s1 where g: "get_round_at_time (one_round_network 5) 1692803400 (drand_run (\<lambda>m. m) (\<lambda>_. []) [] (fresh_drand [])) = (s1, Inr 12)"
    and s1: "dr_genesis s1 = Some 1692803367"
    by (simp add: get_round_at_time_def drand_run_def one_round_params floordiv_def)
  from round_at_time_brackets [OF g] s1 g show ?thesis by auto
qed

section \<open>The seeds of the two sides\<close>

text \<open>
  The miner's own randomness is not the validator's. On the same window, chain parameters and beacon the miner hashes the
  beacon and its round, the validator the block hash in front of them: the two seeds are hashes
  of different messages whenever the block has a hash.
\<close>

theorem miner_seed_omits_block_hash:
  assumes "get_current_chain io s = (s1, Inr (name, h, Some period, Some genesis))"
    and "miner_compute_randomness sha rep io get_block_hash window True s = (s2, Inr mine)"
    and "derive_randomness sha get_block_hash True (genesis, period)
           (\<lambda>rid. rbind (snd (get_beacon sha rep io rid True False s1)) (\<lambda>b. Inr (be_randomness b, be_round b))) window = Inr theirs"
    and "get_block_hash window = Inr (Some bh)" and "fromhex (drop_0x bh) = Inr (c # cs)"
  shows "\<exists>msg. mine = hex (sha msg) \<and> theirs = hex (sha ((c # cs) @ msg)) \<and> msg \<noteq> (c # cs) @ msg"
proof -
  obtain d where d: "compute_drand_round_for_window window genesis period = Inr d"
    using assms(1,2) by (cases "compute_drand_round_for_window window genesis period") (auto simp: miner_compute_randomness_def)
  obtain s3 res where b: "get_beacon sha rep io (str_int d) True False s1 = (s3, res)" by fastforce
  obtain bc where bc: "res = Inr bc" using assms(1,2) d b by (cases res) (auto simp: miner_compute_randomness_def)
  have mine: "compute_window_randomness sha None (Some (be_randomness bc)) (Some (be_round bc)) = Inr mine"
    using assms(1,2) d b bc by (simp add: miner_compute_randomness_def)
  have theirs: "compute_window_randomness sha (Some bh) (Some (be_randomness bc)) (Some (be_round bc)) = Inr theirs"
    using assms(3,4) d b bc by (simp add: derive_randomness_def)
  show ?thesis using mine theirs assms(5)
    by (cases "be_randomness bc") (auto simp: compute_window_randomness_def window_material_def rbind_eq_Inr)
qed

theorem miner_seed_omits_block_hash_witness:
  "\<exists>msg. ''ab0000000000000001'' = hex msg \<and> ''01ab0000000000000001'' = hex ([1] @ msg) \<and> msg \<noteq> [1::byte] @ msg"
proof -
  define io where "io = one_round_network 1"
  define s where "s = fresh_drand []"
  define s1 where "s1 = fst (get_current_chain io s)"
  define s2 where "s2 = fst (miner_compute_randomness (\<lambda>m. m) (\<lambda>_. []) io (\<lambda>_. Inr (Some ''0x01'')) 1 True s)"
  have "snd (get_current_chain io s)
      = Inr (''quicknet'', Some ''52db9ba70e0cc0f6eaf7803dd07447a1f5477735fd3f661792ba94600c84e971'', Some 3, Some 1692803367)"
    unfolding io_def s_def by code_simp
  then have "get_current_chain io s
      = (s1, Inr (''quicknet'', Some ''52db9ba70e0cc0f6eaf7803dd07447a1f5477735fd3f661792ba94600c84e971'', Some 3, Some 1692803367))"
    by (simp add: s1_def prod_eq_iff)
  moreover have "snd (miner_compute_randomness (\<lambda>m. m) (\<lambda>_. []) io (\<lambda>_. Inr (Some ''0x01'')) 1 True s) = Inr ''ab0000000000000001''"
    unfolding io_def s_def by code_simp
  then have "miner_compute_randomness (\<lambda>m. m) (\<lambda>_. []) io (\<lambda>_. Inr (Some ''0x01'')) 1 True s = (s2, Inr ''ab0000000000000001'')"
    by (simp add: s2_def prod_eq_iff)
  moreover have "derive_randomness (\<lambda>m. m) (\<lambda>_. Inr (Some ''0x01'')) True (1692803367, 3)
      (\<lambda>rid. rbind (snd (get_beacon (\<lambda>m. m) (\<lambda>_. []) io rid True False s1)) (\<lambda>b. Inr (be_randomness b, be_round b))) 1
    = Inr ''01ab0000000000000001''"
    unfolding io_def s_def s1_def by code_simp
  ultimately show ?thesis
    by (rule miner_seed_omits_block_hash [where window = 1 and c = 1 and cs = "[]" and bh = "''0x01''"]) (simp, code_simp)
qed

end
