(* ===== verification/VllmForced.thy ===== *)
theory VllmForced
  imports ForcedSeed
begin

text \<open>
  \<open>reliquary/miner/vllm_forced_seed.py\<close>: forcing the public tokens inside the vLLM engine. One request carries its
  stream's coordinates; the adapter calls one closure per request and step, the batched processor one tensor
  pass per step over buffers it keeps between steps. The slot bookkeeping (\<open>process_dict_updates\<close>) is vLLM's and an
  argument. The lists of tokens generated so far are shared with the engine, which appends to them: a slot holds an
  address, and a step reads the store. The lemmas show that the batched processor, whatever updates and steps
  came before, writes what the closures write row by row, errors included, and that both force the tokens
  the HuggingFace processor forces.
\<close>

section \<open>Requests\<close>

record fs_payload =
  fs_randomness :: string
  fs_prompt_idx :: int
  fs_checkpoint_hash :: string
  fs_rollout_index :: int
  fs_base_offset :: "int option"
  fs_start_len :: "int option"

definition FORCED_SEED_EXTRA_KEY :: string where
  "FORCED_SEED_EXTRA_KEY = ''forced_seed''"

definition forced_seed_extra_args :: "string \<Rightarrow> int \<Rightarrow> string \<Rightarrow> int \<Rightarrow> int \<Rightarrow> int \<Rightarrow> fs_payload" where
  "forced_seed_extra_args randomness prompt_idx checkpoint_hash rollout_index base_offset start_len =
     \<lparr> fs_randomness = randomness, fs_prompt_idx = prompt_idx, fs_checkpoint_hash = checkpoint_hash,
       fs_rollout_index = rollout_index, fs_base_offset = Some base_offset, fs_start_len = Some start_len \<rparr>"

definition force_row :: "sort_order \<Rightarrow> (bytes \<Rightarrow> bytes) \<Rightarrow> string \<Rightarrow> real list \<Rightarrow> string \<Rightarrow> int \<Rightarrow> string \<Rightarrow> int \<Rightarrow> int
    \<Rightarrow> pyfloat list res" where
  "force_row ord sha domain logits_row randomness prompt_idx checkpoint_hash rollout_index t =
     rbind (u_at sha domain randomness prompt_idx checkpoint_hash rollout_index t) (\<lambda>u.
     let probs = warp ord logits_row T_PROTO TOP_K_PROTO TOP_P_PROTO;
         tok = pick probs u
     in Inr (one_hot (length logits_row) tok))"

definition make_forced_seed_request_proc :: "sort_order \<Rightarrow> (bytes \<Rightarrow> bytes) \<Rightarrow> string \<Rightarrow> string \<Rightarrow> int \<Rightarrow> string \<Rightarrow> int \<Rightarrow> int \<Rightarrow> int
    \<Rightarrow> int list \<Rightarrow> real list \<Rightarrow> pyfloat list res" where
  "make_forced_seed_request_proc ord sha domain randomness prompt_idx checkpoint_hash rollout_index base_offset start_len
     output_token_ids logits =
     (let t = base_offset + int (length output_token_ids)
      in force_row ord sha domain logits randomness prompt_idx checkpoint_hash rollout_index t)"

definition dflt0 :: "int option \<Rightarrow> int" where
  "dflt0 x = (case x of None \<Rightarrow> 0 | Some i \<Rightarrow> i)"

text \<open>The adapter: a request without the payload gets no closure.\<close>

definition new_req_logits_processor :: "sort_order \<Rightarrow> (bytes \<Rightarrow> bytes) \<Rightarrow> string \<Rightarrow> fs_payload option
    \<Rightarrow> (int list \<Rightarrow> real list \<Rightarrow> pyfloat list res) option" where
  "new_req_logits_processor ord sha domain extra =
     map_option (\<lambda>fs. make_forced_seed_request_proc ord sha domain (fs_randomness fs) (fs_prompt_idx fs) (fs_checkpoint_hash fs)
       (fs_rollout_index fs) (dflt0 (fs_base_offset fs)) (dflt0 (fs_start_len fs))) extra"

section \<open>One pass over a batch\<close>

text \<open>
  \<open>logits[rows] = -inf; logits[rows, toks] = 0.0\<close> on a matrix of which the other rows stay as they are.
\<close>

definition write_mask :: "nat list \<Rightarrow> nat list \<Rightarrow> pyfloat list list \<Rightarrow> pyfloat list list" where
  "write_mask rows toks logits =
     (let blank = foldl (\<lambda>l r. l[r := replicate (length (l ! r)) NInf]) logits rows
      in foldl (\<lambda>l (r, t). l[r := (l ! r)[t := Fin 0]]) blank (zip rows toks))"

definition force_selected :: "sort_order \<Rightarrow> real list list \<Rightarrow> nat list \<Rightarrow> real list \<Rightarrow> pyfloat list list res" where
  "force_selected ord logits rows us =
     rbind (traverse (item logits) rows) (\<lambda>sel.
     rbind (force_rows_batched ord sel us T_PROTO TOP_K_PROTO TOP_P_PROTO) (\<lambda>toks.
     Inr (write_mask rows toks (map (map Fin) logits))))"

definition batched_force_mask :: "sort_order \<Rightarrow> real list list \<Rightarrow> (nat \<times> real) list \<Rightarrow> pyfloat list list res" where
  "batched_force_mask ord logits entries =
     (if entries = [] then Inr (map (map Fin) logits)
      else force_selected ord logits (map fst entries) (map snd entries))"

section \<open>The state kept on the device\<close>

text \<open>
  A buffer that \<open>torch.empty\<close> makes has arbitrary contents: they are the argument \<open>fresh\<close>.
\<close>

record rows_state =
  rw_slots :: "(fs_payload \<times> nat) list"
  rw_rows :: "nat list option"
  rw_stage :: "real list option"
  rw_dev :: "(string \<times> real list) option"
  rw_cap :: nat

definition ForcedRowsState :: rows_state where
  "ForcedRowsState = \<lparr> rw_slots = [], rw_rows = None, rw_stage = None, rw_dev = None, rw_cap = 0 \<rparr>"

type_synonym req_info = "(nat, fs_payload \<times> nat) dict"

definition rebuild :: "(nat \<Rightarrow> real list) \<Rightarrow> req_info \<Rightarrow> string \<Rightarrow> rows_state \<Rightarrow> rows_state" where
  "rebuild fresh req device s =
     (let items = sort_key fst req; s1 = s \<lparr> rw_slots := map snd items \<rparr>; n = length items
      in if n = 0 then s1 \<lparr> rw_rows := None \<rparr>
         else let s2 = s1 \<lparr> rw_rows := Some (map fst items) \<rparr>
              in if rw_stage s2 = None \<or> rw_cap s2 < n \<or> (case rw_dev s2 of None \<Rightarrow> False | Some (d, b) \<Rightarrow> d \<noteq> device)
                 then let cap = max n (rw_cap s2)
                      in s2 \<lparr> rw_stage := Some (fresh cap), rw_dev := Some (device, fresh cap), rw_cap := cap \<rparr>
                 else s2)"

definition slot_draw :: "(bytes \<Rightarrow> bytes) \<Rightarrow> string \<Rightarrow> (nat \<Rightarrow> int list) \<Rightarrow> fs_payload \<times> nat \<Rightarrow> real res" where
  "slot_draw sha domain store slot =
     (case slot of (fs, ref) \<Rightarrow>
        let t = dflt0 (fs_base_offset fs) + int (length (store ref))
        in u_at sha domain (fs_randomness fs) (fs_prompt_idx fs) (fs_checkpoint_hash fs) (fs_rollout_index fs) t)"

text \<open>\<open>stage[i] = u\<close>, slot after slot: an error leaves the earlier entries written.\<close>

fun fill_stage :: "(bytes \<Rightarrow> bytes) \<Rightarrow> string \<Rightarrow> (nat \<Rightarrow> int list) \<Rightarrow> nat \<Rightarrow> (fs_payload \<times> nat) list \<Rightarrow> real list
    \<Rightarrow> real list \<times> unit res" where
  "fill_stage sha domain store i [] stage = (stage, Inr ())"
| "fill_stage sha domain store i (slot # slots) stage =
     (case slot_draw sha domain store slot of
        Inl e \<Rightarrow> (stage, Inl e)
      | Inr u \<Rightarrow> if i < length stage then fill_stage sha domain store (Suc i) slots (stage[i := u]) else (stage, Inl IndexError))"

definition rows_apply :: "sort_order \<Rightarrow> (bytes \<Rightarrow> bytes) \<Rightarrow> string \<Rightarrow> (nat \<Rightarrow> int list) \<Rightarrow> real list list \<Rightarrow> rows_state
    \<Rightarrow> rows_state \<times> pyfloat list list res" where
  "rows_apply ord sha domain store logits s =
     (if rw_slots s = [] then (s, Inr (map (map Fin) logits))
      else
        let n = length (rw_slots s)
        in case rw_stage s of
             None \<Rightarrow> (s, Inl TypeError)
           | Some stage \<Rightarrow>
               (case fill_stage sha domain store 0 (rw_slots s) stage of
                  (stage1, Inl e) \<Rightarrow> (s \<lparr> rw_stage := Some stage1 \<rparr>, Inl e)
                | (stage1, Inr u) \<Rightarrow>
                    (case (rw_dev s, rw_rows s) of
                       (Some (d, b), Some rows) \<Rightarrow>
                         (if length (take n b) \<noteq> length (take n stage1) then (s \<lparr> rw_stage := Some stage1 \<rparr>, Inl RuntimeError)
                          else (s \<lparr> rw_stage := Some stage1, rw_dev := Some (d, take n stage1 @ drop n b) \<rparr>,
                                force_selected ord logits rows (take n stage1)))
                     | _ \<Rightarrow> (s \<lparr> rw_stage := Some stage1 \<rparr>, Inl TypeError))))"

section \<open>The batched processor\<close>

record fs_processor =
  pr_req :: req_info
  pr_device :: string
  pr_state :: rows_state

definition new_fs_processor :: "string \<Rightarrow> fs_processor" where
  "new_fs_processor device = \<lparr> pr_req = [], pr_device = device, pr_state = ForcedRowsState \<rparr>"

definition new_slot :: "('q \<Rightarrow> fs_payload option) \<Rightarrow> 'q \<Rightarrow> nat \<Rightarrow> (fs_payload \<times> nat) option" where
  "new_slot extra params output_ref = map_option (\<lambda>fs. (fs, output_ref)) (extra params)"

type_synonym ('q, 'b) dict_updates = "req_info \<Rightarrow> 'b \<Rightarrow> ('q \<Rightarrow> nat \<Rightarrow> (fs_payload \<times> nat) option) \<Rightarrow> req_info \<times> bool"

definition update_state :: "('q, 'b) dict_updates \<Rightarrow> ('q \<Rightarrow> fs_payload option) \<Rightarrow> (nat \<Rightarrow> real list) \<Rightarrow> 'b \<Rightarrow> fs_processor \<Rightarrow> fs_processor" where
  "update_state upd extra fresh batch_update pr =
     (case upd (pr_req pr) batch_update (new_slot extra) of
        (req, updated) \<Rightarrow>
          let pr1 = pr \<lparr> pr_req := req \<rparr>
          in if updated then pr1 \<lparr> pr_state := rebuild fresh req (pr_device pr1) (pr_state pr1) \<rparr> else pr1)"

definition pr_apply :: "sort_order \<Rightarrow> (bytes \<Rightarrow> bytes) \<Rightarrow> string \<Rightarrow> (nat \<Rightarrow> int list) \<Rightarrow> real list list \<Rightarrow> fs_processor
    \<Rightarrow> fs_processor \<times> pyfloat list list res" where
  "pr_apply ord sha domain store logits pr =
     (case rows_apply ord sha domain store logits (pr_state pr) of (s, r) \<Rightarrow> (pr \<lparr> pr_state := s \<rparr>, r))"

text \<open>\<open>is_argmax_invariant\<close> of both processors, and the choice of the processor by \<open>RELIQUARY_VLLM_BATCHED_FS\<close>.\<close>

definition is_argmax_invariant :: bool where
  "is_argmax_invariant = False"

datatype processor_class = BatchedProcessor | AdapterProcessor

definition build_forced_seed_logitsproc_class :: "string option \<Rightarrow> processor_class" where
  "build_forced_seed_logitsproc_class env =
     (if (case env of None \<Rightarrow> ''1'' | Some v \<Rightarrow> v) = ''1'' then BatchedProcessor else AdapterProcessor)"

section \<open>Row by row\<close>

text \<open>
  The specification: what the closures of the registered requests write, each on its own row; a row without
  one passes through.
\<close>

definition request_row :: "sort_order \<Rightarrow> (bytes \<Rightarrow> bytes) \<Rightarrow> string \<Rightarrow> (nat \<Rightarrow> int list) \<Rightarrow> req_info \<Rightarrow> real list list \<Rightarrow> nat
    \<Rightarrow> pyfloat list res" where
  "request_row ord sha domain store req logits r =
     (case map_of req r of
        None \<Rightarrow> Inr (map Fin (logits ! r))
      | Some (fs, ref) \<Rightarrow>
          (case new_req_logits_processor ord sha domain (Some fs) of
             Some proc \<Rightarrow> proc (store ref) (logits ! r)
           | None \<Rightarrow> Inr (map Fin (logits ! r))))"

definition row_by_row :: "sort_order \<Rightarrow> (bytes \<Rightarrow> bytes) \<Rightarrow> string \<Rightarrow> (nat \<Rightarrow> int list) \<Rightarrow> req_info \<Rightarrow> real list list
    \<Rightarrow> pyfloat list list res" where
  "row_by_row ord sha domain store req logits = traverse (request_row ord sha domain store req logits) [0..<length logits]"

lemma request_row_draw:
  "request_row ord sha domain store req logits r =
     (case map_of req r of
        None \<Rightarrow> Inr (map Fin (logits ! r))
      | Some slot \<Rightarrow> rbind (slot_draw sha domain store slot) (\<lambda>u.
          Inr (one_hot (length (logits ! r)) (pick (warp ord (logits ! r) T_PROTO TOP_K_PROTO TOP_P_PROTO) u))))"
  by (simp add: request_row_def new_req_logits_processor_def make_forced_seed_request_proc_def force_row_def slot_draw_def Let_def
      split: option.split prod.split)

section \<open>The buffers\<close>

definition buffers_ok :: "rows_state \<Rightarrow> bool" where
  "buffers_ok s =
     (case rw_stage s of
        None \<Rightarrow> rw_dev s = None \<and> rw_cap s = 0
      | Some stage \<Rightarrow> length stage = rw_cap s \<and> (case rw_dev s of None \<Rightarrow> False | Some (d, b) \<Rightarrow> length b = rw_cap s))"

text \<open>What the state must hold of the registered requests.\<close>

definition rows_ok :: "req_info \<Rightarrow> string \<Rightarrow> rows_state \<Rightarrow> bool" where
  "rows_ok req device s =
     (let items = sort_key fst req
      in buffers_ok s \<and> rw_slots s = map snd items
         \<and> (items \<noteq> [] \<longrightarrow> rw_rows s = Some (map fst items) \<and> length items \<le> rw_cap s
             \<and> rw_stage s \<noteq> None \<and> map_option fst (rw_dev s) = Some device))"

definition pr_ok :: "fs_processor \<Rightarrow> bool" where
  "pr_ok pr = (dict_ok (pr_req pr) \<and> rows_ok (pr_req pr) (pr_device pr) (pr_state pr))"

lemma new_fs_processor_ok: "pr_ok (new_fs_processor device)"
  by (simp add: pr_ok_def rows_ok_def buffers_ok_def new_fs_processor_def ForcedRowsState_def)

lemma rebuild_ok:
  assumes "buffers_ok s" and "\<And>n. length (fresh n) = n"
  shows "rows_ok req device (rebuild fresh req device s)"
proof -
  define items where "items = sort_key fst req"
  show ?thesis
  proof (cases "items = []")
    case True
    then show ?thesis using assms(1) by (simp add: rows_ok_def rebuild_def Let_def items_def [symmetric] buffers_ok_def split: option.splits prod.splits)
  next
    case False
    then have "length req \<noteq> 0" by (auto simp: items_def)
    with False show ?thesis using assms
      by (auto simp: rows_ok_def rebuild_def Let_def items_def [symmetric] buffers_ok_def split: option.splits prod.splits)
  qed
qed

lemma fill_stage_length: "fill_stage sha domain store i slots stage = (stage1, r) \<Longrightarrow> length stage1 = length stage"
  by (induction slots arbitrary: i stage) (auto split: sum.splits if_splits)

lemma fill_stage_draws:
  assumes "i + length slots \<le> length stage"
  shows "fill_stage sha domain store i slots stage = (stage1, r) \<Longrightarrow>
    (case traverse (slot_draw sha domain store) slots of
       Inl e \<Rightarrow> r = Inl e
     | Inr us \<Rightarrow> r = Inr () \<and> stage1 = take i stage @ us @ drop (i + length slots) stage)"
  using assms
proof (induction slots arbitrary: i stage)
  case Nil
  then show ?case by simp
next
  case (Cons slot slots)
  show ?case
  proof (cases "slot_draw sha domain store slot")
    case (Inl e)
    then show ?thesis using Cons.prems by simp
  next
    case (Inr u)
    have i: "i < length stage" using Cons.prems(2) by simp
    have f: "fill_stage sha domain store (Suc i) slots (stage[i := u]) = (stage1, r)" using Cons.prems(1) Inr i by simp
    have t: "take (Suc i) (stage[i := u]) = take i stage @ [u]" using i by (simp add: take_Suc_conv_app_nth)
    have d: "drop (Suc (i + length slots)) (stage[i := u]) = drop (Suc (i + length slots)) stage" by simp
    show ?thesis
      using Cons.IH [OF f] Cons.prems(2) Inr t d by (cases "traverse (slot_draw sha domain store) slots") simp_all
  qed
qed

section \<open>The mask\<close>

lemma blank_rows:
  "length (foldl (\<lambda>l r. l[r := replicate (length (l ! r)) NInf]) logits rows) = length logits
   \<and> (i < length logits \<longrightarrow>
      foldl (\<lambda>l r. l[r := replicate (length (l ! r)) NInf]) logits rows ! i
        = (if i \<in> set rows then replicate (length (logits ! i)) NInf else logits ! i))"
proof (induction rows arbitrary: logits)
  case (Cons r rows)
  then show ?case by (cases "i = r") (auto simp: nth_list_update)
qed simp

lemma set_tokens:
  assumes "distinct (map fst ps)"
  shows "length (foldl (\<lambda>l (r, t). l[r := (l ! r)[t := Fin 0]]) l ps) = length l
   \<and> (i < length l \<longrightarrow>
      foldl (\<lambda>l (r, t). l[r := (l ! r)[t := Fin 0]]) l ps ! i
        = (case map_of ps i of None \<Rightarrow> l ! i | Some t \<Rightarrow> (l ! i)[t := Fin 0]))"
  using assms
proof (induction ps arbitrary: l)
  case Nil
  then show ?case by simp
next
  case (Cons p ps)
  obtain r t where p: "p = (r, t)" by fastforce
  have "map_of ps r = None" using Cons.prems p by (auto simp: map_of_eq_None_iff)
  moreover have "distinct (map fst ps)" using Cons.prems by simp
  ultimately show ?case using Cons.IH [of "l[r := (l ! r)[t := Fin 0]]"] p
    by (cases "i = r") (auto simp: nth_list_update split: option.splits)
qed

lemma write_mask_rows:
  assumes "distinct rows" and "length toks = length rows"
  shows "write_mask rows toks logits =
    map (\<lambda>i. case map_of (zip rows toks) i of None \<Rightarrow> logits ! i | Some t \<Rightarrow> one_hot (length (logits ! i)) t) [0..<length logits]"
proof (rule nth_equalityI)
  have d: "distinct (map fst (zip rows toks))" using assms by simp
  have m: "map_of (zip rows toks) i = None \<longleftrightarrow> i \<notin> set rows" for i using assms(2) by (simp add: map_of_zip_is_None)
  show "length (write_mask rows toks logits) = length (map (\<lambda>i. case map_of (zip rows toks) i of None \<Rightarrow> logits ! i | Some t \<Rightarrow> one_hot (length (logits ! i)) t) [0..<length logits])"
    using set_tokens [OF d] blank_rows by (simp add: write_mask_def)
  fix i assume "i < length (write_mask rows toks logits)"
  then have i: "i < length logits" using set_tokens [OF d] blank_rows by (simp add: write_mask_def)
  then show "write_mask rows toks logits ! i = map (\<lambda>i. case map_of (zip rows toks) i of None \<Rightarrow> logits ! i | Some t \<Rightarrow> one_hot (length (logits ! i)) t) [0..<length logits] ! i"
    using set_tokens [OF d, of _ i] blank_rows [of logits rows i] m [of i]
    by (auto simp: write_mask_def one_hot_def split: option.split)
qed

section \<open>The batched pass is the row by row one\<close>

lemma traverse_map: "traverse f (map g xs) = traverse (\<lambda>x. f (g x)) xs"
  by (induction xs) auto

text \<open>A traversal in which only the members that satisfy a test can fail.\<close>

lemma traverse_filter:
  assumes "distinct xs" and "\<And>x. x \<in> set xs \<Longrightarrow> \<not> P x \<Longrightarrow> g x = Inr (k x)"
    and "\<And>x. x \<in> set xs \<Longrightarrow> P x \<Longrightarrow> g x = rbind (h x) (\<lambda>u. Inr (m x u))"
  shows "traverse g xs = rbind (traverse h (filter P xs)) (\<lambda>us.
    Inr (map (\<lambda>x. if P x then m x (the (map_of (zip (filter P xs) us) x)) else k x) xs))"
  using assms
proof (induction xs)
  case Nil
  then show ?case by simp
next
  case (Cons x xs)
  have IH: "traverse g xs = rbind (traverse h (filter P xs)) (\<lambda>us.
    Inr (map (\<lambda>x. if P x then m x (the (map_of (zip (filter P xs) us) x)) else k x) xs))"
    by (rule Cons.IH) (use Cons.prems in auto)
  show ?case
  proof (cases "P x")
    case True
    have eq: "map (\<lambda>y. if P y then m y (the (map_of (zip (filter P (x # xs)) (u # us)) y)) else k y) xs
        = map (\<lambda>y. if P y then m y (the (map_of (zip (filter P xs) us) y)) else k y) xs" for u us
      using Cons.prems(1) True by (intro map_cong) auto
    show ?thesis using Cons.prems(3) [of x] True IH eq
      by (cases "h x"; cases "traverse h (filter P xs)") simp_all
  next
    case False
    show ?thesis using Cons.prems(2) [of x] False IH by (cases "traverse h (filter P xs)") simp_all
  qed
qed

lemma sorted_keys:
  assumes "dict_ok req" and "\<forall>r \<in> fst ` set req. r < n"
  shows "map fst (sort_key fst req) = filter (\<lambda>r. map_of req r \<noteq> None) [0..<n]"
proof (rule sorted_distinct_set_unique)
  show "sorted (map fst (sort_key fst req))" by simp
  have "mset (map fst (sort_key fst req)) = mset (map fst req)" by simp
  then show "distinct (map fst (sort_key fst req))" using assms(1) unfolding dict_ok_def by (metis mset_eq_imp_distinct_iff)
  show "set (map fst (sort_key fst req)) = set (filter (\<lambda>r. map_of req r \<noteq> None) [0..<n])"
    using assms(2) by (auto simp: map_of_eq_None_iff)
qed (simp_all add: sorted_wrt_filter)

lemma sorted_slots:
  assumes "dict_ok req"
  shows "map snd (sort_key fst req) = map (\<lambda>r. the (map_of req r)) (map fst (sort_key fst req))"
proof -
  have "map_of req (fst p) = Some (snd p)" if "p \<in> set (sort_key fst req)" for p
    using that assms by (simp add: dict_ok_def)
  then show ?thesis by simp
qed

lemma force_selected_rows:
  assumes "batch_shape logits" and "distinct rows" and "set rows \<subseteq> {..<length logits}" and "length us = length rows"
  shows "force_selected ord logits rows us = Inr (map (\<lambda>i. case map_of (zip rows us) i of
      None \<Rightarrow> map Fin (logits ! i)
    | Some u \<Rightarrow> one_hot (length (logits ! i)) (pick (warp ord (logits ! i) T_PROTO TOP_K_PROTO TOP_P_PROTO) u)) [0..<length logits])"
proof -
  let ?w = "\<lambda>r. warp ord r T_PROTO TOP_K_PROTO TOP_P_PROTO"
  have sel: "traverse (item logits) rows = Inr (map ((!) logits) rows)"
    by (rule traverse_total) (use assms(3) in \<open>auto simp: item_def\<close>)
  have b: "batch_shape (map ((!) logits) rows)"
    using assms(1,3) by (cases rows) (auto simp: batch_shape_def row_size_def)
  have f: "force_rows_batched ord (map ((!) logits) rows) us T_PROTO TOP_K_PROTO TOP_P_PROTO
      = Inr (map2 (\<lambda>r u. pick (?w (logits ! r)) u) rows us)"
    using force_rows_batched_rows [OF b] assms(4) by (simp add: zip_map1 comp_def case_prod_unfold)
  have m: "map_of (zip rows (map2 (\<lambda>r u. pick (?w (logits ! r)) u) rows us)) i
      = map_option (pick (?w (logits ! i))) (map_of (zip rows us) i)" for i
    using assms(4)
  proof (induction rows us rule: list_induct2')
    case (4 r rows u us)
    then show ?case by simp
  qed simp_all
  have "write_mask rows (map2 (\<lambda>r u. pick (?w (logits ! r)) u) rows us) (map (map Fin) logits)
      = map (\<lambda>i. case map_of (zip rows us) i of None \<Rightarrow> map Fin (logits ! i)
          | Some u \<Rightarrow> one_hot (length (logits ! i)) (pick (?w (logits ! i)) u)) [0..<length logits]"
    using assms(2,4) by (subst write_mask_rows) (auto simp: m split: option.split dest: set_zip_leftD)
  then show ?thesis by (simp add: force_selected_def sel f)
qed

lemma rows_apply_row_by_row:
  assumes "rows_ok req device s" and "dict_ok req" and "batch_shape logits" and "\<forall>r \<in> fst ` set req. r < length logits"
  shows "snd (rows_apply ord sha domain store logits s) = row_by_row ord sha domain store req logits
    \<and> rows_ok req device (fst (rows_apply ord sha domain store logits s))"
proof -
  let ?w = "\<lambda>r. warp ord r T_PROTO TOP_K_PROTO TOP_P_PROTO"
  define items where "items = sort_key fst req"
  define rows where "rows = map fst items"
  let ?P = "\<lambda>r. map_of req r \<noteq> None" and ?h = "\<lambda>r. slot_draw sha domain store (the (map_of req r))"
  have rows: "rows = filter ?P [0..<length logits]" using sorted_keys [OF assms(2,4)] by (simp add: rows_def items_def)
  have slots: "rw_slots s = map (\<lambda>r. the (map_of req r)) rows"
    using assms(1) sorted_slots [OF assms(2)] by (simp add: rows_ok_def Let_def items_def rows_def)
  have draws: "traverse (slot_draw sha domain store) (rw_slots s) = traverse ?h rows" by (simp add: slots traverse_map)
  have spec: "row_by_row ord sha domain store req logits = rbind (traverse ?h rows) (\<lambda>us.
      Inr (map (\<lambda>i. if ?P i then one_hot (length (logits ! i)) (pick (?w (logits ! i)) (the (map_of (zip rows us) i)))
        else map Fin (logits ! i)) [0..<length logits]))"
    unfolding row_by_row_def rows
    by (rule traverse_filter) (auto simp: request_row_draw split: option.split)
  show ?thesis
  proof (cases "items = []")
    case True
    then have "rows = []" "rw_slots s = []" by (simp_all add: rows_def slots)
    moreover have none: "\<not> ?P i" if "i < length logits" for i
      using that \<open>rows = []\<close> rows by (simp add: filter_empty_conv)
    have "map (\<lambda>i. if ?P i then one_hot (length (logits ! i)) (pick (?w (logits ! i)) (the (map_of (zip rows []) i)))
        else map Fin (logits ! i)) [0..<length logits] = map (map Fin) logits"
      by (rule nth_equalityI) (use none in simp_all)
    ultimately show ?thesis using spec assms(1) by (simp add: rows_apply_def)
  next
    case False
    then obtain stage b where st: "rw_stage s = Some stage" "rw_dev s = Some (device, b)" "rw_rows s = Some rows"
      and len: "length stage = rw_cap s" "length b = rw_cap s" "length rows \<le> rw_cap s"
      using assms(1) by (auto simp: rows_ok_def buffers_ok_def Let_def items_def [symmetric] rows_def split: option.splits)
    have ne: "rw_slots s \<noteq> []" and ln: "length (rw_slots s) = length rows" using False by (simp_all add: slots rows_def)
    obtain stage1 r where f: "fill_stage sha domain store 0 (rw_slots s) stage = (stage1, r)" by fastforce
    have l1: "length stage1 = rw_cap s" using fill_stage_length [OF f] len by simp
    have bound: "0 + length (rw_slots s) \<le> length stage" using len ln by simp
    note d = fill_stage_draws [OF bound f] and e = draws
    have keep: "rows_ok req device (s \<lparr> rw_stage := Some stage1 \<rparr>)"
      "rows_ok req device (s \<lparr> rw_stage := Some stage1, rw_dev := Some (device, take n stage1 @ drop n b) \<rparr>)" if "n \<le> rw_cap s" for n
      using assms(1) st len l1 that by (simp_all add: rows_ok_def buffers_ok_def Let_def)
    show ?thesis
    proof (cases "traverse ?h rows")
      case (Inl err)
      then show ?thesis using d ne f st spec keep [of 0] by (simp add: rows_apply_def draws Let_def)
    next
      case (Inr us)
      then have u: "r = Inr ()" "stage1 = us @ drop (length rows) stage" using d e ln by simp_all
      have lu: "length us = length rows" using traverse_length [OF Inr] .
      have t: "take (length rows) stage1 = us" using u(2) lu by simp
      have m: "map_of (zip rows us) i = (if ?P i then Some (the (map_of (zip rows us) i)) else None)" if "i < length logits" for i
      proof -
        have "i \<in> set rows \<longleftrightarrow> ?P i" unfolding rows using that by simp
        moreover have "map_of (zip rows us) i = None \<longleftrightarrow> i \<notin> set rows" by (rule map_of_zip_is_None) (simp add: lu)
        ultimately show ?thesis by (cases "map_of (zip rows us) i") simp_all
      qed
      have sub: "distinct rows" "set rows \<subseteq> {..<length logits}" by (auto simp: rows)
      have "snd (rows_apply ord sha domain store logits s) = force_selected ord logits rows us"
        using ne f u(1) st ln l1 len t by (simp add: rows_apply_def Let_def min_def)
      also have "\<dots> = row_by_row ord sha domain store req logits"
      proof -
        have "map (\<lambda>i. case map_of (zip rows us) i of None \<Rightarrow> map Fin (logits ! i)
              | Some u \<Rightarrow> one_hot (length (logits ! i)) (pick (?w (logits ! i)) u)) [0..<length logits]
            = map (\<lambda>i. if ?P i then one_hot (length (logits ! i)) (pick (?w (logits ! i)) (the (map_of (zip rows us) i)))
              else map Fin (logits ! i)) [0..<length logits]"
          by (rule map_cong [OF refl]) (subst m, simp, simp only: set_upt atLeastLessThan_iff, simp)
        then show ?thesis using force_selected_rows [OF assms(3) sub lu] by (simp only: spec Inr rbind.simps)
      qed
      finally show ?thesis using ne f u(1) st ln l1 len keep [of "length rows"] by (simp add: rows_apply_def Let_def min_def)
    qed
  qed
qed

lemma rows_apply_keeps:
  assumes "rows_ok req device s"
  shows "rows_ok req device (fst (rows_apply ord sha domain store logits s))"
proof (cases "rw_slots s = [] \<or> rw_stage s = None")
  case True
  then show ?thesis using assms by (auto simp: rows_apply_def Let_def split: option.split)
next
  case False
  then obtain stage where st: "rw_slots s \<noteq> []" "rw_stage s = Some stage" by auto
  moreover have "sort_key fst req \<noteq> []" using assms st(1) by (auto simp: rows_ok_def Let_def)
  ultimately obtain b rows where b: "rw_dev s = Some (device, b)" "length b = rw_cap s" "length stage = rw_cap s"
      "rw_rows s = Some rows" "length (rw_slots s) \<le> rw_cap s"
    using assms by (auto simp: rows_ok_def buffers_ok_def Let_def split: option.splits)
  obtain stage1 r where f: "fill_stage sha domain store 0 (rw_slots s) stage = (stage1, r)" by fastforce
  have l: "length stage1 = rw_cap s" using fill_stage_length [OF f] b by simp
  have a: "rows_ok req device (s \<lparr> rw_stage := Some stage1 \<rparr>)"
    using assms b l st by (simp add: rows_ok_def buffers_ok_def Let_def)
  have c: "rows_ok req device (s \<lparr> rw_stage := Some stage1, rw_dev := Some (device, take n stage1 @ drop n b) \<rparr>)" if "n \<le> rw_cap s" for n
    using assms b l st that by (simp add: rows_ok_def buffers_ok_def Let_def)
  show ?thesis using f st b(1,4) a c [OF b(5)] by (cases r) (simp_all add: rows_apply_def Let_def)
qed

datatype 'b fs_event = BatchUpdate 'b | Step "real list list" "nat \<Rightarrow> int list"

fun fs_step :: "sort_order \<Rightarrow> (bytes \<Rightarrow> bytes) \<Rightarrow> string \<Rightarrow> ('q, 'b) dict_updates \<Rightarrow> ('q \<Rightarrow> fs_payload option) \<Rightarrow> (nat \<Rightarrow> real list)
    \<Rightarrow> fs_processor \<Rightarrow> 'b fs_event \<Rightarrow> fs_processor" where
  "fs_step ord sha domain upd extra fresh pr (BatchUpdate b) = update_state upd extra fresh b pr"
| "fs_step ord sha domain upd extra fresh pr (Step logits store) = fst (pr_apply ord sha domain store logits pr)"

text \<open>
  What is documented of \<open>process_dict_updates\<close>: it edits a dictionary, and says so when it does.
\<close>

definition updates_lawful :: "('q, 'b) dict_updates \<Rightarrow> bool" where
  "updates_lawful upd =
     (\<forall>req b f. dict_ok req \<longrightarrow> dict_ok (fst (upd req b f)) \<and> (\<not> snd (upd req b f) \<longrightarrow> fst (upd req b f) = req))"

lemma fs_step_ok:
  assumes "pr_ok pr" and "updates_lawful upd" and "\<And>n. length (fresh n) = n"
  shows "pr_ok (fs_step ord sha domain upd extra fresh pr e)"
proof (cases e)
  case (BatchUpdate b)
  obtain req flag where u: "upd (pr_req pr) b (new_slot extra) = (req, flag)" by fastforce
  have law: "dict_ok req \<and> (\<not> flag \<longrightarrow> req = pr_req pr)"
    using assms(1,2) u unfolding pr_ok_def updates_lawful_def by (metis fst_conv snd_conv)
  have "buffers_ok (pr_state pr)" using assms(1) by (simp add: pr_ok_def rows_ok_def Let_def)
  from rebuild_ok [OF this, of fresh] assms(1,3) law show ?thesis
    by (auto simp: BatchUpdate update_state_def u pr_ok_def Let_def)
next
  case (Step logits store)
  then show ?thesis using assms(1) rows_apply_keeps [of "pr_req pr" "pr_device pr" "pr_state pr" ord sha domain store logits]
    by (cases "rows_apply ord sha domain store logits (pr_state pr)") (simp add: pr_apply_def pr_ok_def)
qed

lemma fs_run_ok:
  assumes "pr_ok pr" and "updates_lawful upd" and "\<And>n. length (fresh n) = n"
  shows "pr_ok (foldl (fs_step ord sha domain upd extra fresh) pr events)"
  using assms(1) by (induction events arbitrary: pr) (simp_all add: fs_step_ok assms(2,3))

text \<open>
  C10. The batched processor is the per-request one. Whatever batch updates and sampling steps came before (requests joining,
  leaving and moving, failed steps, buffers regrown or reused), a step writes exactly what the closures of
  the requests now registered write on their own rows, leaves every other row alone, and fails with the
  same error when one of them fails.
\<close>

theorem batched_processor_is_rowwise:
  assumes "updates_lawful upd" and "\<And>n. length (fresh n) = n"
    and "pr = foldl (fs_step ord sha domain upd extra fresh) (new_fs_processor device) events"
    and "batch_shape logits" and "\<forall>r \<in> fst ` set (pr_req pr). r < length logits"
  shows "snd (pr_apply ord sha domain store logits pr) = row_by_row ord sha domain store (pr_req pr) logits"
proof -
  have "pr_ok pr" unfolding assms(3) by (rule fs_run_ok [OF new_fs_processor_ok assms(1,2)])
  then have "rows_ok (pr_req pr) (pr_device pr) (pr_state pr)" "dict_ok (pr_req pr)" by (simp_all add: pr_ok_def)
  from rows_apply_row_by_row [OF this assms(4,5), of ord sha domain store] show ?thesis
    by (cases "rows_apply ord sha domain store logits (pr_state pr)") (simp add: pr_apply_def)
qed

text \<open>A concrete bookkeeping: one update registers or drops one request.\<close>

definition simple_updates :: "(fs_payload option, (nat \<times> fs_payload option \<times> nat) option) dict_updates" where
  "simple_updates req b f =
     (case b of
        None \<Rightarrow> (req, False)
      | Some (i, params, ref) \<Rightarrow> (case f params ref of Some slot \<Rightarrow> (dset i slot req, True) | None \<Rightarrow> (AList.delete i req, True)))"

definition sample_payload :: "int \<Rightarrow> fs_payload" where
  "sample_payload r = forced_seed_extra_args ''ab'' 3 ''c'' r 0 5"

theorem batched_processor_is_rowwise_witness:
  "let pr = foldl (fs_step (\<lambda>xs. rev (sort_key ((!) xs) [0..<length xs])) (\<lambda>m. [0, 0, 0, 0, 0, 0, 0, 0]) ''d'' simple_updates id (\<lambda>n. replicate n 0))
       (new_fs_processor ''cpu'') [BatchUpdate (Some (1, Some (sample_payload 7), 4)), BatchUpdate None]
   in pr_req pr = [(1, sample_payload 7, 4)]
     \<and> snd (pr_apply (\<lambda>xs. rev (sort_key ((!) xs) [0..<length xs])) (\<lambda>m. [0, 0, 0, 0, 0, 0, 0, 0]) ''d'' (\<lambda>_. []) [[1, 2], [3, 4]] pr)
       = row_by_row (\<lambda>xs. rev (sort_key ((!) xs) [0..<length xs])) (\<lambda>m. [0, 0, 0, 0, 0, 0, 0, 0]) ''d'' (\<lambda>_. []) (pr_req pr) [[1, 2], [3, 4]]"
proof -
  let ?ord = "\<lambda>xs :: real list. rev (sort_key ((!) xs) [0..<length xs])" and ?sha = "\<lambda>m :: bytes. [0, 0, 0, 0, 0, 0, 0, 0] :: bytes"
  define pr where "pr = foldl (fs_step ?ord ?sha ''d'' simple_updates id (\<lambda>n. replicate n 0))
       (new_fs_processor ''cpu'') [BatchUpdate (Some (1, Some (sample_payload 7), 4)), BatchUpdate None]"
  have law: "updates_lawful simple_updates"
    by (auto simp: updates_lawful_def simple_updates_def dict_ok_def distinct_delete split: option.split)
      (metis dict_ok_def dict_ok_dset)
  have req: "pr_req pr = [(1, sample_payload 7, 4)]"
    by (simp add: pr_def new_fs_processor_def update_state_def simple_updates_def new_slot_def Let_def)
  have "batch_shape [[1, 2], [3, 4]]" by (simp add: batch_shape_def row_size_def)
  moreover have "\<forall>r \<in> fst ` set (pr_req pr). r < length [[1, 2], [3, 4 :: real]]" by (simp add: req)
  ultimately have "snd (pr_apply ?ord ?sha ''d'' (\<lambda>_. []) [[1, 2], [3, 4]] pr) = row_by_row ?ord ?sha ''d'' (\<lambda>_. []) (pr_req pr) [[1, 2], [3, 4]]"
    by (rule batched_processor_is_rowwise [OF law length_replicate pr_def])
  then show ?thesis using req unfolding Let_def pr_def by blast
qed

section \<open>The two generation back ends force the same tokens\<close>

text \<open>
  The closure of a vLLM request writes, after any tokens, exactly the row the HuggingFace processor writes for the
  same rollout at the same step: a group generated by either back end is forced to the same tokens.
\<close>

theorem vllm_forces_what_generate_forces:
  assumes "ForcedSeedLogitsProcessor randomness hk arg checkpoint_hash rollouts offsets start_len = Inr fp"
    and "processor_call ord sha domain fp (start_len + int (length done_tokens)) scores = Inr out"
    and "batch_shape scores" and "r < length scores"
  shows "make_forced_seed_request_proc ord sha domain randomness (fp_prompt_indices fp ! r) checkpoint_hash (rollouts ! r)
    (offsets ! r) start_len done_tokens (scores ! r) = Inr (out ! r)"
proof -
  have fp: "fp_start_len fp = start_len" "fp_randomness fp = randomness" "fp_checkpoint_hash fp = checkpoint_hash"
    "fp_rollout_indices fp = rollouts" "fp_base_offsets fp = offsets" "fp_temperature fp = T_PROTO"
    "fp_top_k fp = TOP_K_PROTO" "fp_top_p fp = TOP_P_PROTO"
    using assms(1) by (auto simp: ForcedSeedLogitsProcessor_def res_simps)
  obtain u where d: "row_draw sha domain fp (start_len + int (length done_tokens) - fp_start_len fp) r = Inr u"
    and o: "out ! r = one_hot (length (scores ! r)) (pick (warp ord (scores ! r) T_PROTO TOP_K_PROTO TOP_P_PROTO) u)"
    using processor_row [OF assms(2-4)] by (metis fp(6-8))
  have "u_at sha domain randomness (fp_prompt_indices fp ! r) checkpoint_hash (rollouts ! r) (offsets ! r + int (length done_tokens)) = Inr u"
    using d by (simp add: row_draw_Inr fp)
  then show ?thesis using o by (simp add: make_forced_seed_request_proc_def force_row_def)
qed

theorem vllm_forces_what_generate_forces_witness:
  "make_forced_seed_request_proc argsort (\<lambda>_. replicate 32 128) ''d'' ''ab'' 7 ''c'' 0 1 5 [] toy_row = Inr [Fin 0, NInf]"
proof -
  let ?sha = "\<lambda>_. replicate 32 128 :: bytes"
  obtain fp where fp: "ForcedSeedLogitsProcessor ''ab'' ''h'' (OnePrompt 7) ''c'' [0] [1] 5 = Inr fp"
    by (simp add: ForcedSeedLogitsProcessor_def prompt_indices_of_def)
  then have f: "fp_prompt_indices fp = [7]" "fp_rollout_indices fp = [0]" "fp_base_offsets fp = [1]" "fp_start_len fp = 5"
    "fp_randomness fp = ''ab''" "fp_checkpoint_hash fp = ''c''" "fp_temperature fp = T_PROTO" "fp_top_k fp = TOP_K_PROTO"
    "fp_top_p fp = TOP_P_PROTO"
    by (auto simp: ForcedSeedLogitsProcessor_def prompt_indices_of_def)
  have shape: "batch_shape [toy_row]" by (simp add: batch_shape_def row_size_def toy_row_def)
  have draw: "row_draw ?sha ''d'' fp 0 0 = Inr (9259542123273814144 / 2 ^ 64)"
    using sample_draw by (simp add: row_draw_def item_def f)
  have size: "row_size [toy_row] = 2" "length toy_row = 2" by (simp_all add: row_size_def toy_row_def)
  have "processor_call argsort ?sha ''d'' fp (5 + int (length ([] :: int list))) [toy_row] = Inr [[Fin 0, NInf]]"
    using draw by (simp add: processor_call_def f force_rows_batched_rows [OF shape] toy_row_warp pick_def
        searchsorted_right_def one_hot_def size numeral_2_eq_2)
  from vllm_forces_what_generate_forces [OF fp this shape, of 0] show ?thesis by (simp add: f)
qed

end
