(* ===== verification/VllmBackend.thy ===== *)
theory VllmBackend
  imports VllmForced Generation
begin

text \<open>
  \<open>reliquary/miner/vllm_backend.py\<close>: the two vLLM back ends of the miner. The engine itself is an argument: how one is
  built (and how building fails), and what it returns for a list of requests. Each backend is a record that
  holds the current checkpoint and the engine, if one is loaded. The lemmas show that the batched first phase is
  the single one prompt by prompt, that its rollouts are forced and end with their stop token, that an engine never
  outlives its checkpoint, and how long loading and reloading can wait. The lock around the engine call makes
  every call one step here.
\<close>

section \<open>Completions\<close>

record completion =
  co_tokens :: "int list"
  co_stop :: json
  co_finish :: "string option"

definition with_stop_token :: "environ \<Rightarrow> completion \<Rightarrow> int option \<Rightarrow> int list" where
  "with_stop_token env co primary_eos_id =
     (let ids = co_tokens co in
      case as_int (co_stop co) of
        Some stop \<Rightarrow> if ids = [] \<or> List.last ids \<noteq> stop then ids @ [stop] else ids
      | None \<Rightarrow>
          (case primary_eos_id of
             None \<Rightarrow> ids
           | Some eos \<Rightarrow>
               if dget env ''RELIQUARY_RECONSTRUCT_EOS'' ''0'' = ''1'' \<and> co_finish co = Some ''stop''
                  \<and> (ids = [] \<or> List.last ids \<noteq> eos)
               then ids @ [eos] else ids))"

section \<open>Sampling parameters\<close>

text \<open>\<open>None\<close> where the code leaves the library's default.\<close>

record sampling_params =
  sp_n :: int
  sp_temperature :: real
  sp_top_p :: "real option"
  sp_top_k :: "int option"
  sp_max_tokens :: int
  sp_stop_token_ids :: "int list option"
  sp_include_stop :: bool
  sp_ignore_eos :: bool
  sp_forced_seed :: "fs_payload option"

definition build_sampling_params :: "int \<Rightarrow> real \<Rightarrow> real \<Rightarrow> int \<Rightarrow> int \<Rightarrow> int list option \<Rightarrow> sampling_params" where
  "build_sampling_params n temperature top_p top_k max_tokens stop_token_ids =
     (let stops = (case stop_token_ids of None \<Rightarrow> [151643, 151645] | Some ids \<Rightarrow> if ids = [] then [151643, 151645] else ids)
      in \<lparr> sp_n = n, sp_temperature = temperature, sp_top_p = Some top_p, sp_top_k = Some top_k, sp_max_tokens = max_tokens,
           sp_stop_token_ids = Some stops, sp_include_stop = True, sp_ignore_eos = False, sp_forced_seed = None \<rparr>)"

text \<open>The parameters of a forced request: greedy, and with \<open>ignore_eos\<close> on the synchronous path only.\<close>

definition forced_params :: "bool \<Rightarrow> int \<Rightarrow> int list option \<Rightarrow> fs_payload \<Rightarrow> sampling_params" where
  "forced_params ignore_eos max_tokens stop_token_ids fs =
     \<lparr> sp_n = 1, sp_temperature = 0, sp_top_p = None, sp_top_k = None, sp_max_tokens = max_tokens,
       sp_stop_token_ids = (case stop_token_ids of None \<Rightarrow> None | Some ids \<Rightarrow> if ids = [] then None else Some ids),
       sp_include_stop = True, sp_ignore_eos = ignore_eos, sp_forced_seed = Some fs \<rparr>"

section \<open>Building an engine\<close>

definition vllm_max_num_seqs :: "environ \<Rightarrow> int option" where
  "vllm_max_num_seqs env =
     (case map_of env ''RELIQUARY_VLLM_MAX_NUM_SEQS'' of
        None \<Rightarrow> None
      | Some raw \<Rightarrow> (case py_int raw of Inl e \<Rightarrow> None | Inr v \<Rightarrow> if 0 < v then Some v else None))"

definition vllm_enforce_eager :: "environ \<Rightarrow> bool" where
  "vllm_enforce_eager env = (dget env ''RELIQUARY_VLLM_CUDA_GRAPHS'' ''0'' \<noteq> ''1'')"

text \<open>
  The keyword arguments. \<open>la_forced\<close> stands for the whole recipe of a forced engine: its eagerness and the registered
  processor class; the other options of that recipe are constants.
\<close>

record llm_args =
  la_model :: string
  la_tokenizer :: string
  la_utilization :: real
  la_max_model_len :: int
  la_dtype :: string
  la_max_num_seqs :: "int option"
  la_forced :: "(bool \<times> processor_class) option"
  la_speculative :: bool
  la_disable_log_stats :: bool

record 'e vllm_backend =
  vb_model_path :: string
  vb_gpu_id :: int
  vb_utilization :: real
  vb_max_model_len :: int
  vb_dtype :: string
  vb_tokenizer_path :: "string option"
  vb_forced_seed :: bool
  vb_llm :: "'e option"
  vb_req_counter :: int
  vb_environ :: environ

definition VLLMBackend :: "environ \<Rightarrow> string \<Rightarrow> int \<Rightarrow> real \<Rightarrow> int \<Rightarrow> string \<Rightarrow> string option \<Rightarrow> bool \<Rightarrow> 'e vllm_backend" where
  "VLLMBackend env model_path gpu_id utilization max_model_len dtype tokenizer_path forced_seed =
     \<lparr> vb_model_path = model_path, vb_gpu_id = gpu_id, vb_utilization = utilization, vb_max_model_len = max_model_len,
       vb_dtype = dtype, vb_tokenizer_path = tokenizer_path, vb_forced_seed = forced_seed, vb_llm = None, vb_req_counter = 0,
       vb_environ = env \<rparr>"

definition build_llm :: "'e vllm_backend \<Rightarrow> llm_args" where
  "build_llm b =
     (let env = vb_environ b in
      \<lparr> la_model = vb_model_path b,
        la_tokenizer = (case vb_tokenizer_path b of None \<Rightarrow> vb_model_path b | Some p \<Rightarrow> if p = [] then vb_model_path b else p),
        la_utilization = vb_utilization b, la_max_model_len = vb_max_model_len b, la_dtype = vb_dtype b,
        la_max_num_seqs = vllm_max_num_seqs env,
        la_forced = (if vb_forced_seed b
                     then Some (vllm_enforce_eager env, build_forced_seed_logitsproc_class (map_of env ''RELIQUARY_VLLM_BATCHED_FS''))
                     else None),
        la_speculative = (\<not> vb_forced_seed b \<and> dget env ''RELIQUARY_DISABLE_SPECULATIVE'' ''0'' \<noteq> ''1''),
        la_disable_log_stats = False \<rparr>)"

text \<open>The asynchronous engine is built with the same recipe, without its statistics.\<close>

definition async_engine_args :: "'e vllm_backend \<Rightarrow> llm_args" where
  "async_engine_args b = (build_llm b) \<lparr> la_disable_log_stats := True \<rparr>"

definition pin_device :: "'e vllm_backend \<Rightarrow> 'e vllm_backend" where
  "pin_device b =
     (if map_of (vb_environ b) ''CUDA_VISIBLE_DEVICES'' = None
      then b \<lparr> vb_environ := dset ''CUDA_VISIBLE_DEVICES'' (str_int (vb_gpu_id b)) (vb_environ b) \<rparr> else b)"

section \<open>Loading\<close>

text \<open>Building an engine raises a \<open>ValueError\<close> or a \<open>RuntimeError\<close> with a message, or something else.\<close>

datatype build_error = BuildValueError string | BuildRuntimeError string | BuildOther py_error

definition text_in :: "string \<Rightarrow> string \<Rightarrow> bool" where
  "text_in sub s = list_ex (\<lambda>k. take (length sub) (drop k s) = sub) [0..<Suc (length s)]"

definition is_oom :: "string \<Rightarrow> bool" where
  "is_oom msg = (text_in ''Free memory on device'' msg \<or> text_in ''Engine core initialization failed'' msg)"

fun retryable :: "build_error \<Rightarrow> bool" where
  "retryable (BuildValueError msg) = is_oom msg"
| "retryable (BuildRuntimeError msg) = is_oom msg"
| "retryable (BuildOther e) = False"

fun raised :: "build_error \<Rightarrow> py_error" where
  "raised (BuildValueError msg) = ValueError"
| "raised (BuildRuntimeError msg) = RuntimeError"
| "raised (BuildOther e) = e"

text \<open>
  \<open>mk k\<close> is what the \<open>k\<close>-th attempt does. The seconds slept are part of the result; a failure that is not
  an out-of-memory one ends the loop, the last error is raised when the attempts run out.
\<close>

fun load_attempts :: "(nat \<Rightarrow> build_error + 'e) \<Rightarrow> nat \<Rightarrow> nat \<Rightarrow> py_error \<Rightarrow> int list \<times> 'e res" where
  "load_attempts mk k 0 last_exc = ([], Inl last_exc)"
| "load_attempts mk k (Suc left) last_exc =
     (case mk k of
        Inr e \<Rightarrow> ([], Inr e)
      | Inl err \<Rightarrow>
          if retryable err
          then (case load_attempts mk (Suc k) left (raised err) of (slept, r) \<Rightarrow> (3 * 2 ^ k # slept, r))
          else ([], Inl (raised err)))"

record 'e llm_io =
  li_make :: "llm_args \<Rightarrow> nat \<Rightarrow> build_error + 'e"
  li_call :: "'e \<Rightarrow> (int list \<times> sampling_params) list \<Rightarrow> completion list list res"
  li_stream :: "'e \<Rightarrow> string \<Rightarrow> int list \<times> sampling_params \<Rightarrow> completion list list res"
  li_pid :: int
  li_cuda :: bool
  li_total :: "real option"
  li_free :: "nat \<Rightarrow> real option"

definition load_engine :: "'e llm_io \<Rightarrow> ('e vllm_backend \<Rightarrow> llm_args) \<Rightarrow> 'e vllm_backend \<Rightarrow> 'e vllm_backend \<times> int list \<times> 'e res" where
  "load_engine io args_of b =
     (case vb_llm b of
        Some e \<Rightarrow> (b, [], Inr e)
      | None \<Rightarrow>
          (let b1 = pin_device b in
           case load_attempts (li_make io (args_of b1)) 0 5 AssertionError of
             (slept, Inr e) \<Rightarrow> (b1 \<lparr> vb_llm := Some e \<rparr>, slept, Inr e)
           | (slept, Inl err) \<Rightarrow> (b1, slept, Inl err)))"

definition ensure_loaded :: "'e llm_io \<Rightarrow> 'e vllm_backend \<Rightarrow> 'e vllm_backend \<times> int list \<times> 'e res" where
  "ensure_loaded io b = load_engine io build_llm b"

definition async_ensure_loaded :: "'e llm_io \<Rightarrow> 'e vllm_backend \<Rightarrow> 'e vllm_backend \<times> int list \<times> 'e res" where
  "async_ensure_loaded io b = load_engine io async_engine_args b"

section \<open>Generating\<close>

definition with_engine :: "'e llm_io \<Rightarrow> 'e vllm_backend \<Rightarrow> ('e \<Rightarrow> 'a res) \<Rightarrow> 'e vllm_backend \<times> 'a res" where
  "with_engine io b f = (case ensure_loaded io b of (b1, slept, r) \<Rightarrow> (b1, rbind r f))"

definition first_output :: "'a list \<Rightarrow> 'a res" where
  "first_output xs = (case xs of [] \<Rightarrow> Inl IndexError | x # _ \<Rightarrow> Inr x)"

definition vb_generate :: "'e llm_io \<Rightarrow> int list \<Rightarrow> int \<Rightarrow> real \<Rightarrow> real \<Rightarrow> int \<Rightarrow> int \<Rightarrow> int list option \<Rightarrow> 'e vllm_backend
    \<Rightarrow> 'e vllm_backend \<times> int list list res" where
  "vb_generate io prompt n temperature top_p top_k max_tokens stops b =
     with_engine io b (\<lambda>e.
       rbind (li_call io e [(prompt, build_sampling_params n temperature top_p top_k max_tokens stops)]) (\<lambda>outputs.
       rbind (first_output outputs) (\<lambda>out. Inr (map co_tokens out))))"

definition vb_generate_multi :: "'e llm_io \<Rightarrow> int list list \<Rightarrow> int \<Rightarrow> real \<Rightarrow> real \<Rightarrow> int \<Rightarrow> int \<Rightarrow> int list option \<Rightarrow> 'e vllm_backend
    \<Rightarrow> 'e vllm_backend \<times> int list list list res" where
  "vb_generate_multi io prompts n temperature top_p top_k max_tokens stops b =
     with_engine io b (\<lambda>e.
       rbind (li_call io e (map (\<lambda>p. (p, build_sampling_params n temperature top_p top_k max_tokens stops)) prompts)) (\<lambda>outputs.
       Inr (map (map co_tokens) outputs)))"

text \<open>One request per rollout index.\<close>

definition forced_requests :: "bool \<Rightarrow> string \<Rightarrow> string \<Rightarrow> nat \<Rightarrow> int \<Rightarrow> int list option \<Rightarrow> int list \<times> int \<Rightarrow> (int list \<times> sampling_params) list" where
  "forced_requests ignore_eos randomness checkpoint_hash m_rollouts max_tokens stops p =
     (case p of (tokens, prompt_idx) \<Rightarrow>
        map (\<lambda>r. (tokens, forced_params ignore_eos max_tokens stops
                    (forced_seed_extra_args randomness prompt_idx checkpoint_hash (int r) 0 (int (length tokens))))) [0..<m_rollouts])"

definition restored :: "environ \<Rightarrow> int option \<Rightarrow> completion list list \<Rightarrow> int list list res" where
  "restored env primary outputs = traverse (\<lambda>out. rbind (first_output out) (\<lambda>co. Inr (with_stop_token env co primary))) outputs"

definition generate_forced_phase1 :: "'e llm_io \<Rightarrow> int list \<Rightarrow> string \<Rightarrow> int \<Rightarrow> string \<Rightarrow> nat \<Rightarrow> int \<Rightarrow> int list option \<Rightarrow> int option
    \<Rightarrow> 'e vllm_backend \<Rightarrow> 'e vllm_backend \<times> int list list res" where
  "generate_forced_phase1 io prompt randomness prompt_idx checkpoint_hash m_rollouts max_tokens stops primary b =
     with_engine io b (\<lambda>e.
       rbind (li_call io e (forced_requests True randomness checkpoint_hash m_rollouts max_tokens stops (prompt, prompt_idx)))
         (restored (vb_environ b) primary))"

definition regroup :: "nat \<Rightarrow> nat \<Rightarrow> 'a list \<Rightarrow> 'a list list" where
  "regroup m n flat = map (\<lambda>i. take m (drop (i * m) flat)) [0..<n]"

definition generate_forced_phase1_multi :: "'e llm_io \<Rightarrow> int list list \<Rightarrow> int list \<Rightarrow> string \<Rightarrow> string \<Rightarrow> nat \<Rightarrow> int \<Rightarrow> int list option
    \<Rightarrow> int option \<Rightarrow> 'e vllm_backend \<Rightarrow> 'e vllm_backend \<times> int list list list res" where
  "generate_forced_phase1_multi io prompts prompt_indices randomness checkpoint_hash m_rollouts max_tokens stops primary b =
     (if length prompts \<noteq> length prompt_indices then (b, Inl ValueError)
      else with_engine io b (\<lambda>e.
        rbind (li_call io e (concat (map (forced_requests True randomness checkpoint_hash m_rollouts max_tokens stops)
                 (zip prompts prompt_indices)))) (\<lambda>outputs.
        rbind (restored (vb_environ b) primary outputs) (\<lambda>flat.
        Inr (regroup m_rollouts (length prompts) flat)))))"

section \<open>Reloading\<close>

text \<open>
  The wait for the old engine's memory: up to thirty polls one second apart; a poll that raises ends it. The result is the number of
  seconds waited.
\<close>

fun poll_release :: "(nat \<Rightarrow> real option) \<Rightarrow> real \<Rightarrow> nat \<Rightarrow> nat \<Rightarrow> nat" where
  "poll_release free target k 0 = 0"
| "poll_release free target k (Suc left) =
     (case free k of
        None \<Rightarrow> 0
      | Some gib \<Rightarrow> if target \<le> gib then 0 else Suc (poll_release free target (Suc k) left))"

definition reload_wait :: "'e llm_io \<Rightarrow> 'e vllm_backend \<Rightarrow> nat" where
  "reload_wait io b =
     (if li_cuda io
      then (let total = (case li_total io of None \<Rightarrow> 80 | Some gib \<Rightarrow> gib)
            in poll_release (li_free io) (vb_utilization b * total + 5) 0 30)
      else 0)"

definition vb_reload :: "'e llm_io \<Rightarrow> string \<Rightarrow> 'e vllm_backend \<Rightarrow> 'e vllm_backend \<times> nat" where
  "vb_reload io new_model_path b =
     (case vb_llm b of
        None \<Rightarrow> (b \<lparr> vb_model_path := new_model_path \<rparr>, 0)
      | Some e \<Rightarrow> (b \<lparr> vb_llm := None, vb_model_path := new_model_path \<rparr>, reload_wait io b))"

section \<open>The asynchronous back end\<close>

text \<open>
  \<open>AsyncVLLMBackend\<close> keeps the same state with a counter of requests, loads under a lock and streams one request per sample; only the last
  output of a stream counts. The tasks of one \<open>gather\<close> draw their identifiers in order, and the engine
  answers every request by itself.
\<close>

definition next_request_id :: "'e llm_io \<Rightarrow> 'e vllm_backend \<Rightarrow> 'e vllm_backend \<times> string" where
  "next_request_id io b =
     (let n = vb_req_counter b + 1 in
      (b \<lparr> vb_req_counter := n \<rparr>, ''reliquary-'' @ str_int (li_pid io) @ ''-'' @ str_int n))"

definition stream_sample :: "'e llm_io \<Rightarrow> 'e \<Rightarrow> string \<Rightarrow> int list \<times> sampling_params \<Rightarrow> int list res" where
  "stream_sample io e request_id req =
     rbind (li_stream io e request_id req) (\<lambda>outputs.
     if outputs = [] \<or> List.last outputs = [] then Inl RuntimeError
     else Inr (co_tokens (hd (List.last outputs))))"

fun gather_generate :: "'e llm_io \<Rightarrow> 'e \<Rightarrow> (int list \<times> sampling_params) list \<Rightarrow> 'e vllm_backend \<Rightarrow> 'e vllm_backend \<times> int list res list" where
  "gather_generate io e [] b = (b, [])"
| "gather_generate io e (req # reqs) b =
     (case next_request_id io b of
        (b1, rid) \<Rightarrow> (case gather_generate io e reqs b1 of (b2, rs) \<Rightarrow> (b2, stream_sample io e rid req # rs)))"

definition async_requests :: "'e llm_io \<Rightarrow> (int list \<times> sampling_params) list \<Rightarrow> 'e vllm_backend \<Rightarrow> 'e vllm_backend \<times> int list list res" where
  "async_requests io reqs b =
     (case async_ensure_loaded io b of
        (b1, slept, Inl err) \<Rightarrow> (b1, Inl err)
      | (b1, slept, Inr e) \<Rightarrow> (case gather_generate io e reqs b1 of (b2, rs) \<Rightarrow> (b2, traverse id rs)))"

definition async_generate :: "'e llm_io \<Rightarrow> int list \<Rightarrow> nat \<Rightarrow> real \<Rightarrow> real \<Rightarrow> int \<Rightarrow> int \<Rightarrow> int list option \<Rightarrow> 'e vllm_backend
    \<Rightarrow> 'e vllm_backend \<times> int list list res" where
  "async_generate io prompt n temperature top_p top_k max_tokens stops b =
     async_requests io (replicate n (prompt, build_sampling_params 1 temperature top_p top_k max_tokens stops)) b"

definition async_forced_phase1 :: "'e llm_io \<Rightarrow> int list \<Rightarrow> string \<Rightarrow> int \<Rightarrow> string \<Rightarrow> nat \<Rightarrow> int \<Rightarrow> int list option \<Rightarrow> 'e vllm_backend
    \<Rightarrow> 'e vllm_backend \<times> int list list res" where
  "async_forced_phase1 io prompt randomness prompt_idx checkpoint_hash m_rollouts max_tokens stops b =
     async_requests io (forced_requests False randomness checkpoint_hash m_rollouts max_tokens stops (prompt, prompt_idx)) b"

text \<open>A background loop that fails to shut down is ignored; the rest is the synchronous reload.\<close>

definition async_reload :: "'e llm_io \<Rightarrow> string \<Rightarrow> 'e vllm_backend \<Rightarrow> 'e vllm_backend \<times> nat" where
  "async_reload io new_model_path b =
     (if vb_llm b = None then (b \<lparr> vb_model_path := new_model_path \<rparr>, 0)
      else (b \<lparr> vb_llm := None, vb_model_path := new_model_path \<rparr>, reload_wait io b))"

section \<open>Loading and reloading\<close>

lemma load_attempts_result:
  "load_attempts mk k left last_exc = (slept, r) \<Longrightarrow>
   \<exists>j \<le> left. slept = map (\<lambda>i. 3 * 2 ^ (k + i)) [0..<j] \<and> (\<forall>i < j. \<exists>err. mk (k + i) = Inl err \<and> retryable err)
     \<and> (case r of
          Inr e \<Rightarrow> j < left \<and> mk (k + j) = Inr e
        | Inl x \<Rightarrow> j = left \<or> (\<exists>err. mk (k + j) = Inl err \<and> \<not> retryable err \<and> x = raised err))"
proof (induction left arbitrary: k last_exc slept)
  case 0
  then show ?case by (auto intro!: exI [of _ 0])
next
  case (Suc left)
  show ?case
  proof (cases "mk k")
    case (Inr e)
    then show ?thesis using Suc.prems by (auto intro!: exI [of _ 0])
  next
    case (Inl err)
    show ?thesis
    proof (cases "retryable err")
      case False
      then show ?thesis using Suc.prems Inl by (auto intro!: exI [of _ 0])
    next
      case True
      obtain slept' where l: "load_attempts mk (Suc k) left (raised err) = (slept', r)" and s: "slept = 3 * 2 ^ k # slept'"
        using Suc.prems Inl True by (auto split: prod.splits)
      from Suc.IH [OF l] obtain j where j: "j \<le> left" "slept' = map (\<lambda>i. 3 * 2 ^ (Suc k + i)) [0..<j]"
        "\<forall>i < j. \<exists>err. mk (Suc k + i) = Inl err \<and> retryable err"
        "case r of Inr e \<Rightarrow> j < left \<and> mk (Suc k + j) = Inr e
          | Inl x \<Rightarrow> j = left \<or> (\<exists>err. mk (Suc k + j) = Inl err \<and> \<not> retryable err \<and> x = raised err)"
        by blast
      have "slept = map (\<lambda>i. 3 * 2 ^ (k + i)) [0..<Suc j]"
        unfolding s j(2) by (simp add: upt_conv_Cons map_Suc_upt [symmetric] comp_def del: upt_Suc)
      moreover have "\<exists>err. mk (k + i) = Inl err \<and> retryable err" if "i < Suc j" for i
        using that j(3) Inl True by (cases i) auto
      ultimately show ?thesis using j(1,4) by (intro exI [of _ "Suc j"]) (cases r, simp_all)
    qed
  qed
qed

lemma build_llm_pinned: "build_llm (pin_device b) = build_llm b"
  by (simp add: build_llm_def pin_device_def vllm_max_num_seqs_def vllm_enforce_eager_def dget_def Let_def split: option.split)

lemma async_args_pinned: "async_engine_args (pin_device b) = async_engine_args b"
  by (simp add: async_engine_args_def build_llm_pinned)

lemma build_llm_other:
  "build_llm (b \<lparr> vb_req_counter := n \<rparr>) = build_llm b" "build_llm (b \<lparr> vb_llm := x \<rparr>) = build_llm b"
  by (simp_all add: build_llm_def Let_def split: option.split)

lemma pin_device_keeps: "vb_llm (pin_device b) = vb_llm b" "vb_model_path (pin_device b) = vb_model_path b"
  by (simp_all add: pin_device_def)

text \<open>
  Loading retries exactly the out-of-memory failures of a start: the attempts before the last one made all failed that way, an engine that is
  returned was built by the first attempt that succeeded, any other failure is raised at once, and
  the waits double from three seconds. When all five attempts fail the wait after the last one is slept too, so giving
  up takes ninety-three seconds.
\<close>

theorem loading_retries_memory_failures:
  assumes "ensure_loaded io b = (b1, slept, r) \<and> args = build_llm b \<or> async_ensure_loaded io b = (b1, slept, r) \<and> args = async_engine_args b"
    and "vb_llm b = None"
  shows "\<exists>j \<le> 5. slept = map (\<lambda>i. 3 * 2 ^ i) [0..<j]
    \<and> (\<forall>i < j. \<exists>err. li_make io args i = Inl err \<and> retryable err)
    \<and> (case r of
         Inr e \<Rightarrow> j < 5 \<and> li_make io args j = Inr e \<and> vb_llm b1 = Some e
       | Inl x \<Rightarrow> vb_llm b1 = None \<and> (j = 5 \<and> sum_list slept = 93
           \<or> (\<exists>err. li_make io args j = Inl err \<and> \<not> retryable err \<and> x = raised err)))"
proof -
  obtain r1 where l: "load_attempts (li_make io args) 0 5 AssertionError = (slept, r1)"
    and r1: "r = r1" "vb_llm b1 = (case r1 of Inr e \<Rightarrow> Some e | Inl x \<Rightarrow> None)"
    using assms pin_device_keeps [of b]
    by (auto simp: ensure_loaded_def async_ensure_loaded_def load_engine_def Let_def build_llm_pinned async_args_pinned split: prod.splits sum.splits)
  from load_attempts_result [OF l, unfolded add_0] obtain j where j: "j \<le> 5" "slept = map (\<lambda>i. 3 * 2 ^ i) [0..<j]"
    "\<forall>i < j. \<exists>err. li_make io args i = Inl err \<and> retryable err"
    "case r1 of Inr e \<Rightarrow> j < 5 \<and> li_make io args j = Inr e
      | Inl x \<Rightarrow> j = 5 \<or> (\<exists>err. li_make io args j = Inl err \<and> \<not> retryable err \<and> x = raised err)"
    by blast
  have "sum_list slept = 93" if "j = 5" using j(2) that by (simp add: upt_rec)
  then show ?thesis using j r1 by (intro exI [of _ j]) (auto split: sum.splits)
qed

definition full_memory :: "nat llm_io" where
  "full_memory =
     \<lparr> li_make = \<lambda>a k. Inl (BuildValueError ''Free memory on device''), li_call = \<lambda>e reqs. Inl RuntimeError,
       li_stream = \<lambda>e i req. Inl RuntimeError, li_pid = 1, li_cuda = True, li_total = Some 80, li_free = \<lambda>k. Some 10 \<rparr>"

theorem loading_retries_memory_failures_witness:
  "snd (ensure_loaded full_memory (VLLMBackend [] ''m'' 0 (85 / 100) 4096 ''bfloat16'' None True)) = ([3, 6, 12, 24, 48], Inl ValueError)
   \<and> sum_list [3, 6, 12, 24, 48 :: int] = 93"
proof -
  let ?b = "VLLMBackend [] ''m'' 0 (85 / 100) 4096 ''bfloat16'' None True :: nat vllm_backend"
  have oom: "is_oom ''Free memory on device''" by code_simp
  obtain b1 where e: "ensure_loaded full_memory ?b = (b1, [3, 6, 12, 24, 48], Inl ValueError)"
    by (simp add: ensure_loaded_def load_engine_def VLLMBackend_def Let_def pin_device_def full_memory_def numeral_eq_Suc oom)
  from loading_retries_memory_failures [OF disjI1, OF conjI, OF e refl] have "sum_list [3, 6, 12, 24, 48 :: int] = 93"
    by (auto simp: VLLMBackend_def full_memory_def oom)
  then show ?thesis by (simp only: e snd_conv simp_thms)
qed

lemma poll_release_bound: "poll_release free target k left \<le> left"
  by (induction left arbitrary: k) (simp_all split: option.split)

section \<open>An engine belongs to its checkpoint\<close>

text \<open>The operations of both back ends on the state, each with what the outside does during it.\<close>

datatype backend_op =
    Generate "int list" int "int list option" | GenerateMulti "int list list" int "int list option"
  | Forced "int list" int nat "int list option" | ForcedMulti "int list list" "int list" nat "int list option"
  | AsyncGenerate "int list" nat "int list option" | AsyncForced "int list" int nat "int list option"
  | Reload string | AsyncReload string

fun backend_step :: "'e vllm_backend \<Rightarrow> 'e llm_io \<times> backend_op \<Rightarrow> 'e vllm_backend" where
  "backend_step b (io, Generate p n stops) = fst (vb_generate io p n T_PROTO TOP_P_PROTO TOP_K_PROTO 16384 stops b)"
| "backend_step b (io, GenerateMulti ps n stops) = fst (vb_generate_multi io ps n T_PROTO TOP_P_PROTO TOP_K_PROTO 16384 stops b)"
| "backend_step b (io, Forced p i m stops) = fst (generate_forced_phase1 io p [] i [] m 16384 stops None b)"
| "backend_step b (io, ForcedMulti ps idxs m stops) = fst (generate_forced_phase1_multi io ps idxs [] [] m 16384 stops None b)"
| "backend_step b (io, AsyncGenerate p n stops) = fst (async_generate io p n T_PROTO TOP_P_PROTO TOP_K_PROTO 16384 stops b)"
| "backend_step b (io, AsyncForced p i m stops) = fst (async_forced_phase1 io p [] i [] m 16384 stops b)"
| "backend_step b (io, Reload path) = fst (vb_reload io path b)"
| "backend_step b (io, AsyncReload path) = fst (async_reload io path b)"

text \<open>The loaded engine was built, during one of the calls, from exactly the arguments the state stands for.\<close>

definition engine_current :: "'e llm_io set \<Rightarrow> 'e vllm_backend \<Rightarrow> bool" where
  "engine_current ios b =
     (\<forall>e. vb_llm b = Some e \<longrightarrow> (\<exists>io \<in> ios. \<exists>k < 5. \<exists>args \<in> {build_llm b, async_engine_args b}. li_make io args k = Inr e))"

lemma load_engine_current:
  assumes "engine_current ios b" and "io \<in> ios" and args: "args_of \<in> {build_llm, async_engine_args}"
  shows "engine_current ios (fst (load_engine io args_of b))"
proof (cases "vb_llm b")
  case (Some e)
  then show ?thesis using assms by (simp add: load_engine_def)
next
  case None
  have pinned: "args_of (pin_device b) = args_of b" using args by (auto simp: build_llm_pinned async_args_pinned)
  obtain b1 slept r where e: "load_engine io args_of b = (b1, slept, r)" by (metis prod.exhaust)
  obtain slept2 r2 where l: "load_attempts (li_make io (args_of b)) 0 5 AssertionError = (slept2, r2)" by fastforce
  have b1: "b1 = (case r2 of Inr x \<Rightarrow> (pin_device b) \<lparr> vb_llm := Some x \<rparr> | Inl err \<Rightarrow> pin_device b)"
    using e None l by (auto simp: load_engine_def Let_def pinned split: sum.splits)
  have same: "build_llm ((pin_device b) \<lparr> vb_llm := x \<rparr>) = build_llm b" "async_engine_args ((pin_device b) \<lparr> vb_llm := x \<rparr>) = async_engine_args b" for x
    by (simp_all add: async_engine_args_def build_llm_other build_llm_pinned)
  show ?thesis
  proof (cases r2)
    case (Inl err)
    then show ?thesis using e b1 None by (simp add: engine_current_def pin_device_keeps)
  next
    case (Inr x)
    from load_attempts_result [OF l, unfolded add_0] Inr obtain j where "j < 5" "li_make io (args_of b) j = Inr x" by auto
    then show ?thesis using e b1 Inr assms(2) args same by (auto simp: engine_current_def)
  qed
qed

lemma ensure_loaded_current:
  assumes "engine_current ios b" and "io \<in> ios"
  shows "engine_current ios (fst (ensure_loaded io b))" "engine_current ios (fst (async_ensure_loaded io b))"
  using load_engine_current [OF assms] by (simp_all add: ensure_loaded_def async_ensure_loaded_def)

lemma counter_current: "engine_current ios (b \<lparr> vb_req_counter := n \<rparr>) = engine_current ios b"
  by (simp add: engine_current_def build_llm_other async_engine_args_def)

lemma gather_current: "engine_current ios b \<Longrightarrow> engine_current ios (fst (gather_generate io e reqs b))"
proof (induction reqs arbitrary: b)
  case (Cons req reqs)
  have "engine_current ios (fst (gather_generate io e reqs (b \<lparr> vb_req_counter := vb_req_counter b + 1 \<rparr>)))"
    by (rule Cons.IH) (simp add: counter_current Cons.prems)
  then show ?case by (simp add: next_request_id_def Let_def split: prod.split) (metis fst_conv)
qed simp

lemma with_engine_state: "fst (with_engine io b f) = fst (ensure_loaded io b)"
  by (simp add: with_engine_def split: prod.split)

lemma async_requests_current:
  assumes "engine_current ios b" and "io \<in> ios"
  shows "engine_current ios (fst (async_requests io reqs b))"
proof -
  obtain b1 slept r where e: "async_ensure_loaded io b = (b1, slept, r)" by (metis prod.exhaust)
  have "engine_current ios b1" using ensure_loaded_current(2) [OF assms] e by simp
  then show ?thesis using gather_current [of ios b1 io] 
    by (cases r) (simp_all add: async_requests_def e split_beta)
qed

text \<open>The checkpoint a sequence of operations leads to, and the calls after the last reload.\<close>

fun reload_path :: "backend_op \<Rightarrow> string option" where
  "reload_path (Reload path) = Some path"
| "reload_path (AsyncReload path) = Some path"
| "reload_path opn = None"

definition checkpoint_after :: "string \<Rightarrow> ('e llm_io \<times> backend_op) list \<Rightarrow> string" where
  "checkpoint_after path ops = List.last (path # List.map_filter (\<lambda>(io, opn). reload_path opn) ops)"

definition since_reload :: "('e llm_io \<times> backend_op) list \<Rightarrow> ('e llm_io \<times> backend_op) list" where
  "since_reload ops = rev (takeWhile (\<lambda>(io, opn). reload_path opn = None) (rev ops))"

lemma checkpoint_after_snoc:
  "checkpoint_after path (ops @ [(io, opn)]) = (case reload_path opn of None \<Rightarrow> checkpoint_after path ops | Some p \<Rightarrow> p)"
  by (simp add: checkpoint_after_def List.map_filter_def split: option.split)

lemma since_reload_snoc:
  "since_reload (ops @ [(io, opn)]) = (if reload_path opn = None then since_reload ops @ [(io, opn)] else [])"
  by (simp add: since_reload_def)

text \<open>What the operations other than a reload keep of the state.\<close>

definition config :: "'e vllm_backend \<Rightarrow> string \<times> real \<times> int \<times> string \<times> string option \<times> bool" where
  "config b = (vb_model_path b, vb_utilization b, vb_max_model_len b, vb_dtype b, vb_tokenizer_path b, vb_forced_seed b)"

lemma load_engine_config: "config (fst (load_engine io args_of b)) = config b"
  by (auto simp: load_engine_def config_def pin_device_def Let_def split: option.split prod.split sum.split)

lemma gather_config: "config (fst (gather_generate io e reqs b)) = config b"
proof (induction reqs arbitrary: b)
  case (Cons req reqs)
  have "config (fst (gather_generate io e reqs (b \<lparr> vb_req_counter := vb_req_counter b + 1 \<rparr>))) = config b"
    unfolding Cons.IH by (simp add: config_def)
  then show ?case by (simp add: next_request_id_def Let_def split: prod.split) (metis fst_conv)
qed simp

lemma async_requests_config: "config (fst (async_requests io reqs b)) = config b"
proof -
  obtain b1 slept r where e: "async_ensure_loaded io b = (b1, slept, r)" by (metis prod.exhaust)
  then have "config b1 = config b" using load_engine_config [of io async_engine_args b] by (simp add: async_ensure_loaded_def)
  then show ?thesis using gather_config [of io _ reqs b1] by (cases r) (simp_all add: async_requests_def e split_beta)
qed

lemma step_config: "reload_path opn = None \<Longrightarrow> config (backend_step b (io, opn)) = config b"
  using load_engine_config [of io build_llm b] async_requests_config [of io _ b]
  by (cases opn) (simp_all add: vb_generate_def vb_generate_multi_def generate_forced_phase1_def ensure_loaded_def
      generate_forced_phase1_multi_def async_generate_def async_forced_phase1_def with_engine_state)

lemma step_reload:
  assumes "reload_path opn = Some path"
  shows "vb_llm (backend_step b (io, opn)) = None" "config (backend_step b (io, opn)) = (path, snd (config b))"
  using assms by (cases opn; cases "vb_llm b"; simp add: vb_reload_def async_reload_def config_def)+

lemma backend_step_current:
  assumes "engine_current ios b" and "io \<in> ios" and "reload_path opn = None"
  shows "engine_current ios (backend_step b (io, opn))"
  using ensure_loaded_current(1) [OF assms(1,2)] async_requests_current [OF assms(1,2)] assms(1,3)
  by (cases opn) (simp_all add: vb_generate_def vb_generate_multi_def generate_forced_phase1_def
      generate_forced_phase1_multi_def async_generate_def async_forced_phase1_def with_engine_state)

lemma engine_current_mono: "engine_current ios b \<Longrightarrow> ios \<subseteq> ios' \<Longrightarrow> engine_current ios' b"
  by (meson engine_current_def subset_eq)

lemma backend_run_current:
  assumes "vb_llm b0 = None"
  shows "engine_current (fst ` set (since_reload ops)) (foldl backend_step b0 ops)
    \<and> config (foldl backend_step b0 ops) = (checkpoint_after (vb_model_path b0) ops, snd (config b0))"
proof (induction ops rule: rev_induct)
  case Nil
  then show ?case using assms by (simp add: engine_current_def config_def checkpoint_after_def List.map_filter_def)
next
  case (snoc p ops)
  obtain io opn where p: "p = (io, opn)" by fastforce
  let ?b = "foldl backend_step b0 ops"
  show ?case
  proof (cases "reload_path opn")
    case None
    have "engine_current (insert io (fst ` set (since_reload ops))) ?b"
      using snoc.IH by (auto intro: engine_current_mono)
    then have "engine_current (insert io (fst ` set (since_reload ops))) (backend_step ?b (io, opn))"
      by (rule backend_step_current) (simp_all add: None)
    then show ?thesis using snoc.IH step_config [OF None, of ?b io]
      by (simp add: p None since_reload_snoc checkpoint_after_snoc)
  next
    case (Some path)
    then show ?thesis using snoc.IH step_reload [OF Some, of ?b io]
      by (simp add: p engine_current_def since_reload_snoc checkpoint_after_snoc)
  qed
qed

text \<open>
  C12. An engine never outlives its checkpoint. After any sequence of generations (whose loads may have failed or been retried) and reloads, on
  either back end, the state holds the path of the last reload, or the first path when there was none, and an engine that is
  loaded was built by one of the calls made since that reload, from that path, the tokenizer that goes with
  it, the options the backend was constructed with and, exactly for a forced backend, the forced-seed processor.
\<close>

theorem engine_serves_current_checkpoint:
  assumes "b = foldl backend_step (VLLMBackend env path gpu util len dtype tok forced) ops" and "vb_llm b = Some e"
  shows "vb_model_path b = checkpoint_after path ops
    \<and> (\<exists>io k args. io \<in> fst ` set (since_reload ops) \<and> k < 5 \<and> li_make io args k = Inr e
        \<and> args \<in> {build_llm b, async_engine_args b} \<and> la_model args = checkpoint_after path ops
        \<and> la_tokenizer args = (case tok of None \<Rightarrow> checkpoint_after path ops
             | Some p \<Rightarrow> if p = [] then checkpoint_after path ops else p)
        \<and> la_utilization args = util \<and> la_max_model_len args = len \<and> la_dtype args = dtype
        \<and> (la_forced args = None \<longleftrightarrow> \<not> forced))"
proof -
  let ?b0 = "VLLMBackend env path gpu util len dtype tok forced"
  have "vb_llm ?b0 = None" by (simp add: VLLMBackend_def)
  from backend_run_current [OF this, of ops] have r: "engine_current (fst ` set (since_reload ops)) b"
      "config b = (checkpoint_after path ops, util, len, dtype, tok, forced)"
    by (simp_all add: assms(1) config_def VLLMBackend_def)
  obtain io k args where f: "io \<in> fst ` set (since_reload ops)" "k < 5" "args \<in> {build_llm b, async_engine_args b}" "li_make io args k = Inr e"
    using r(1) assms(2) unfolding engine_current_def by blast
  then show ?thesis using r(2)
    by (intro conjI exI [of _ io] exI [of _ k] exI [of _ args])
       (auto simp: config_def async_engine_args_def build_llm_def Let_def split: option.split)
qed

definition easy_io :: "nat llm_io" where
  "easy_io = full_memory \<lparr> li_make := \<lambda>a k. Inr (length (la_model a)), li_call := \<lambda>e reqs. Inr [] \<rparr>"

theorem engine_serves_current_checkpoint_witness:
  "let b = foldl backend_step (VLLMBackend [] ''m'' 0 1 4096 ''bfloat16'' None True)
       [(easy_io, Forced [1] 2 8 None), (easy_io, Reload ''new''), (easy_io, Forced [1] 2 8 None)]
   in vb_llm b = Some 3 \<and> vb_model_path b = ''new''"
proof -
  define b where "b = foldl backend_step (VLLMBackend [] ''m'' 0 1 4096 ''bfloat16'' None True)
       [(easy_io, Forced [1] 2 8 None), (easy_io, Reload ''new''), (easy_io, Forced [1] 2 8 None)]"
  have v: "vb_llm b = Some 3"
    by (simp_all add: b_def VLLMBackend_def generate_forced_phase1_def with_engine_state ensure_loaded_def load_engine_def Let_def easy_io_def
        pin_device_def build_llm_def vb_reload_def numeral_eq_Suc)
  from engine_serves_current_checkpoint [OF b_def v] have "vb_model_path b = ''new''"
    by (simp add: checkpoint_after_def List.map_filter_def)
  then show ?thesis using v unfolding b_def Let_def by blast
qed

section \<open>The batched first phase\<close>

text \<open>
  Continuous batching: what an engine returns for a request does not depend on the other requests of the call, and outputs are
  parallel to prompts.
\<close>

definition answers_each :: "('e \<Rightarrow> (int list \<times> sampling_params) list \<Rightarrow> completion list list res)
    \<Rightarrow> ('e \<Rightarrow> int list \<times> sampling_params \<Rightarrow> completion list res) \<Rightarrow> bool" where
  "answers_each call one = (\<forall>e reqs. call e reqs = traverse (one e) reqs)"

text \<open>The backend as the engine of the miner calls it, its state loaded.\<close>

definition backend_client :: "'e llm_io \<Rightarrow> int list option \<Rightarrow> int option \<Rightarrow> 'e vllm_backend \<Rightarrow> vllm" where
  "backend_client io stops primary b =
     \<lparr> vl_forced_multi = Some (\<lambda>ps idxs r h mx. snd (generate_forced_phase1_multi io ps idxs r h (nat M_ROLLOUTS) mx stops primary b)),
       vl_forced = (\<lambda>p r i h mx. snd (generate_forced_phase1 io p r i h (nat M_ROLLOUTS) mx stops primary b)),
       vl_generate_multi = (\<lambda>ps n mx. snd (vb_generate_multi io ps n T_PROTO TOP_P_PROTO TOP_K_PROTO mx stops b)),
       vl_generate = (\<lambda>p n mx. snd (vb_generate io p n T_PROTO TOP_P_PROTO TOP_K_PROTO mx stops b)) \<rparr>"

lemma traverse_slice: "traverse f xs = Inr ys \<Longrightarrow> traverse f (take n (drop k xs)) = Inr (take n (drop k ys))"
  by (simp add: traverse_Inr_iff list_all2_takeI list_all2_dropI)

lemma concat_slice:
  assumes "k < length xss" and "\<And>xs. xs \<in> set xss \<Longrightarrow> length xs = m"
  shows "take m (drop (k * m) (concat xss)) = xss ! k"
  using assms
proof (induction xss arbitrary: k)
  case (Cons xs xss)
  show ?case
  proof (cases k)
    case 0
    then show ?thesis using Cons.prems(2) by simp
  next
    case (Suc j)
    have "take m (drop (j * m) (concat xss)) = xss ! j" by (rule Cons.IH) (use Cons.prems Suc in auto)
    then show ?thesis using Cons.prems(2) [of xs] Suc by (simp add: add.commute)
  qed
qed simp

lemma with_engine_loaded: "vb_llm b = Some e \<Longrightarrow> with_engine io b f = (b, f e)"
  by (simp add: with_engine_def ensure_loaded_def load_engine_def)

lemma length_forced_requests [simp]: "length (forced_requests ig r h m mx stops p) = m"
  by (simp add: forced_requests_def split: prod.split)

lemma phase1_multi_each:
  assumes "answers_each (li_call io) one" and "vb_llm b = Some e"
    and "snd (generate_forced_phase1_multi io ps idxs r h m mx stops primary b) = Inr gs"
  shows "length ps = length idxs \<and> length gs = length ps
    \<and> (\<forall>k < length ps. snd (generate_forced_phase1 io (ps ! k) r (idxs ! k) h m mx stops primary b) = Inr (gs ! k))"
proof -
  let ?reqs = "map (forced_requests True r h m mx stops) (zip ps idxs)"
  have len: "length ps = length idxs" using assms(3) by (auto simp: generate_forced_phase1_multi_def split: if_splits)
  obtain outs flat where outs: "traverse (one e) (concat ?reqs) = Inr outs" and flat: "restored (vb_environ b) primary outs = Inr flat"
    and gs: "gs = regroup m (length ps) flat"
    using assms by (auto simp: generate_forced_phase1_multi_def len with_engine_loaded [OF assms(2)] answers_each_def rbind_eq_Inr)
  have "snd (generate_forced_phase1 io (ps ! k) r (idxs ! k) h m mx stops primary b) = Inr (gs ! k)" if k: "k < length ps" for k
  proof -
    have "take m (drop (k * m) (concat ?reqs)) = ?reqs ! k"
      by (rule concat_slice) (use k len in auto)
    with traverse_slice [OF outs, of m "k * m"] k len
    have o: "traverse (one e) (forced_requests True r h m mx stops (ps ! k, idxs ! k)) = Inr (take m (drop (k * m) outs))" by simp
    have "restored (vb_environ b) primary (take m (drop (k * m) outs)) = Inr (take m (drop (k * m) flat))"
      using flat unfolding restored_def by (rule traverse_slice)
    then show ?thesis using assms(1,2) o k
      by (simp add: generate_forced_phase1_def with_engine_loaded answers_each_def gs regroup_def)
  qed
  then show ?thesis using len gs by (simp add: regroup_def)
qed

text \<open>
  C11. One batched call stands for one call per prompt: with a loaded engine that answers each request by itself, the batched first phase of the code's
  backend returns for every prompt what the single first phase returns for it, with its own stream and stop token. This is
  the contract the miner's prefetch cache rests on; a batch whose lengths differ is refused instead of mislabelled.
\<close>

theorem backend_batches_agree:
  assumes "answers_each (li_call io) one" and "vb_llm b = Some e"
  shows "batched_agrees (backend_client io stops primary b)
    \<and> (length ps \<noteq> length idxs \<longrightarrow> generate_forced_phase1_multi io ps idxs r h m mx stops primary b = (b, Inl ValueError))"
proof (intro conjI impI)
  show "batched_agrees (backend_client io stops primary b)"
    unfolding batched_agrees_def
  proof (intro allI impI, elim conjE)
    fix multi ps idxs r h mx gs
    assume "vl_forced_multi (backend_client io stops primary b) = Some multi" and g: "multi ps idxs r h mx = Inr gs"
    then have "multi = (\<lambda>ps idxs r h mx. snd (generate_forced_phase1_multi io ps idxs r h (nat M_ROLLOUTS) mx stops primary b))"
      by (simp add: backend_client_def)
    with g have "snd (generate_forced_phase1_multi io ps idxs r h (nat M_ROLLOUTS) mx stops primary b) = Inr gs" by simp
    from phase1_multi_each [OF assms this]
    show "length gs = length ps \<and> (\<forall>k < length ps. k < length idxs \<longrightarrow>
        vl_forced (backend_client io stops primary b) (ps ! k) r (idxs ! k) h mx = Inr (gs ! k))"
      by (simp add: backend_client_def)
  qed
qed (simp add: generate_forced_phase1_multi_def)

text \<open>An engine that answers every request with its prompt and the index of its stream.\<close>

definition echo_one :: "nat \<Rightarrow> int list \<times> sampling_params \<Rightarrow> completion list res" where
  "echo_one e req =
     (case sp_forced_seed (snd req) of
        None \<Rightarrow> Inl RuntimeError
      | Some fs \<Rightarrow> Inr [\<lparr> co_tokens = fst req @ [fs_rollout_index fs], co_stop = JInt 9, co_finish = Some ''stop'' \<rparr>])"

definition echo_io :: "nat llm_io" where
  "echo_io = easy_io \<lparr> li_call := \<lambda>e reqs. traverse (echo_one e) reqs \<rparr>"

theorem backend_batches_agree_witness:
  "batched_agrees (backend_client echo_io None None ((VLLMBackend [] ''m'' 0 1 4096 ''bfloat16'' None True) \<lparr> vb_llm := Some 1 \<rparr>))
   \<and> snd (generate_forced_phase1_multi echo_io [[1], [2]] [7, 8] ''ab'' ''c'' 2 16 None None
        ((VLLMBackend [] ''m'' 0 1 4096 ''bfloat16'' None True) \<lparr> vb_llm := Some 1 \<rparr>))
     = Inr [[[1, 0, 9], [1, 1, 9]], [[2, 0, 9], [2, 1, 9]]]"
proof -
  let ?b = "(VLLMBackend [] ''m'' 0 1 4096 ''bfloat16'' None True) \<lparr> vb_llm := Some (1 :: nat) \<rparr>"
  have "answers_each (li_call echo_io) echo_one" by (simp add: answers_each_def echo_io_def)
  moreover have "vb_llm ?b = Some 1" by simp
  ultimately have "batched_agrees (backend_client echo_io None None ?b)" by (rule backend_batches_agree [THEN conjunct1])
  moreover have "snd (generate_forced_phase1_multi echo_io [[1], [2]] [7, 8] ''ab'' ''c'' 2 16 None None ?b)
      = Inr [[[1, 0, 9], [1, 1, 9]], [[2, 0, 9], [2, 1, 9]]]"
    by code_simp
  ultimately show ?thesis by blast
qed

section \<open>Forced rollouts\<close>

text \<open>
  What is documented of an engine with the forced-seed processor registered: under temperature zero every token is a greedy choice from
  the logits the request's closure returns; generation stops at the first stop token or after \<open>max_tokens\<close>; the stop token that ended
  it is reported as \<open>stop_reason\<close> and may be missing at the end of \<open>token_ids\<close>. With \<open>ignore_eos\<close> nothing else
  stops it. \<open>model\<close> gives the logits after a sequence of tokens.
\<close>

definition greedy_forced :: "sort_order \<Rightarrow> (bytes \<Rightarrow> bytes) \<Rightarrow> string \<Rightarrow> (int list \<Rightarrow> real list) \<Rightarrow> int list \<Rightarrow> fs_payload \<Rightarrow> int list \<Rightarrow> bool" where
  "greedy_forced ord sha domain model prompt fs toks =
     (\<forall>i < length toks. \<exists>proc row. new_req_logits_processor ord sha domain (Some fs) = Some proc
        \<and> proc (take i toks) (model (prompt @ take i toks)) = Inr row \<and> greedy_choice row (toks ! i))"

definition stopped :: "sampling_params \<Rightarrow> completion \<Rightarrow> int list \<Rightarrow> bool" where
  "stopped sp co toks =
     (let stops = (case sp_stop_token_ids sp of None \<Rightarrow> {} | Some ids \<Rightarrow> set ids) in
      set (butlast toks) \<inter> stops = {}
      \<and> (if toks \<noteq> [] \<and> List.last toks \<in> stops
         then co_stop co = JInt (List.last toks) \<and> (co_tokens co = toks \<or> co_tokens co = butlast toks)
         else sp_ignore_eos sp \<longrightarrow>
           co_tokens co = toks \<and> co_stop co = JNull \<and> co_finish co = Some ''length'' \<and> int (length toks) = sp_max_tokens sp))"

definition engine_lawful :: "sort_order \<Rightarrow> (bytes \<Rightarrow> bytes) \<Rightarrow> string \<Rightarrow> (int list \<Rightarrow> real list)
    \<Rightarrow> (int list \<times> sampling_params \<Rightarrow> completion list res) \<Rightarrow> bool" where
  "engine_lawful ord sha domain model one =
     (\<forall>prompt sp fs outs. one (prompt, sp) = Inr outs \<and> sp_temperature sp = 0 \<and> sp_n sp = 1 \<and> sp_forced_seed sp = Some fs \<longrightarrow>
        (\<exists>co toks. outs = [co] \<and> greedy_forced ord sha domain model prompt fs toks \<and> stopped sp co toks))"

lemma last_butlast_stop:
  assumes "set (butlast toks) \<inter> stops = {}" and "toks \<noteq> []" and "List.last toks \<in> stops"
    and "co_tokens co = toks \<or> co_tokens co = butlast toks" and "co_stop co = JInt (List.last toks)"
  shows "with_stop_token env co primary = toks"
proof (cases "co_tokens co = toks")
  case True
  then show ?thesis using assms(2,5) by (simp add: with_stop_token_def Let_def)
next
  case False
  then have b: "co_tokens co = butlast toks" using assms(4) by blast
  have "butlast toks = [] \<or> List.last (butlast toks) \<noteq> List.last toks"
    using assms(1,3) last_in_set [of "butlast toks"] by fastforce
  then show ?thesis using assms(2,5) b by (auto simp: with_stop_token_def Let_def)
qed

lemma restored_stop:
  assumes "stopped sp co toks" and "sp_ignore_eos sp"
  shows "with_stop_token env co primary = toks"
proof -
  let ?stops = "case sp_stop_token_ids sp of None \<Rightarrow> {} | Some ids \<Rightarrow> set ids"
  show ?thesis
  proof (cases "toks \<noteq> [] \<and> List.last toks \<in> ?stops")
    case True
    then show ?thesis using assms(1) last_butlast_stop [of toks ?stops co env primary] by (simp add: stopped_def Let_def)
  next
    case False
    then have "co_tokens co = toks \<and> co_stop co = JNull \<and> co_finish co = Some ''length''"
      using assms unfolding stopped_def Let_def by auto
    then show ?thesis by (auto simp: with_stop_token_def Let_def split: option.split)
  qed
qed

lemma greedy_forced_token:
  assumes "greedy_forced ord sha domain model prompt fs toks" and "i < length toks" and "model (prompt @ take i toks) \<noteq> []"
    and "u_at sha domain (fs_randomness fs) (fs_prompt_idx fs) (fs_checkpoint_hash fs) (fs_rollout_index fs)
      (dflt0 (fs_base_offset fs) + int i) = Inr u"
  shows "toks ! i = int (pick (warp ord (model (prompt @ take i toks)) T_PROTO TOP_K_PROTO TOP_P_PROTO) u)"
proof -
  let ?row = "model (prompt @ take i toks)"
  obtain row where "greedy_choice row (toks ! i)"
    and "row = one_hot (length ?row) (pick (warp ord ?row T_PROTO TOP_K_PROTO TOP_P_PROTO) u)"
    using assms(1,2,4) by (auto simp: greedy_forced_def new_req_logits_processor_def make_forced_seed_request_proc_def force_row_def Let_def)
  moreover have "pick (warp ord ?row T_PROTO TOP_K_PROTO TOP_P_PROTO) u < length ?row"
    using assms(3) pick_less [of "warp ord ?row T_PROTO TOP_K_PROTO TOP_P_PROTO"] by (metis length_greater_0_conv length_warp)
  ultimately show ?thesis using greedy_one_hot by blast
qed

lemma forced_rollout:
  assumes "generate_forced_phase1 io prompt r idx h m mx (Some stops) primary b = (b1, Inr rolls)" and "stops \<noteq> []"
    and "answers_each (li_call io) one" and "\<And>e. engine_lawful ord sha domain model (one e)" and "k < length rolls"
  shows "length rolls = m
    \<and> (\<exists>sp. sp_stop_token_ids sp = Some stops \<and> sp_max_tokens sp = mx \<and> sp_ignore_eos sp \<and> (\<exists>co. stopped sp co (rolls ! k)))
    \<and> greedy_forced ord sha domain model prompt (forced_seed_extra_args r idx h (int k) 0 (int (length prompt))) (rolls ! k)"
proof -
  let ?reqs = "forced_requests True r h m mx (Some stops) (prompt, idx)"
  obtain e outs where outs: "traverse (one e) ?reqs = Inr outs" and rest: "restored (vb_environ b) primary outs = Inr rolls"
    using assms(1,3) by (auto simp: generate_forced_phase1_def with_engine_def answers_each_def rbind_eq_Inr split: prod.splits)
  have len: "length outs = m" "length rolls = m" using traverse_length [OF outs] traverse_length [OF rest [unfolded restored_def]] by simp_all
  then have k: "k < m" using assms(5) by simp
  define fs where "fs = forced_seed_extra_args r idx h (int k) 0 (int (length prompt))"
  have req: "?reqs ! k = (prompt, forced_params True mx (Some stops) fs)" using k by (simp add: forced_requests_def fs_def)
  have one: "one e (prompt, forced_params True mx (Some stops) fs) = Inr (outs ! k)"
    using outs req k len by (auto simp: traverse_Inr_iff list_all2_conv_all_nth)
  obtain co toks where co: "outs ! k = [co]" and g: "greedy_forced ord sha domain model prompt fs toks"
    and st: "stopped (forced_params True mx (Some stops) fs) co toks"
    using assms(4) [of e] one unfolding engine_lawful_def by (fastforce simp: forced_params_def)
  have "rbind (first_output (outs ! k)) (\<lambda>co. Inr (with_stop_token (vb_environ b) co primary)) = Inr (rolls ! k)"
    using rest k len by (auto simp: restored_def traverse_Inr_iff list_all2_conv_all_nth)
  then have "rolls ! k = toks"
    using restored_stop [OF st] by (simp add: co first_output_def forced_params_def)
  then have "\<exists>co. stopped (forced_params True mx (Some stops) fs) co (rolls ! k)" using st by blast
  moreover have "sp_stop_token_ids (forced_params True mx (Some stops) fs) = Some stops" "sp_max_tokens (forced_params True mx (Some stops) fs) = mx"
    "sp_ignore_eos (forced_params True mx (Some stops) fs)"
    using assms(2) by (simp_all add: forced_params_def)
  ultimately show ?thesis using g len \<open>rolls ! k = toks\<close> unfolding fs_def by blast
qed

text \<open>
  C9. What the synchronous backend returns for a forced group is what the validator wants to see. With an engine that behaves as documented
  there is one rollout per index; it has no stop token before its last position, and either ends with one or has the
  full length; and the validator's seed check on the model's logits, with draws recomputed from the rollout's
  index, counts every stochastic position of it as a match.
\<close>

theorem phase1_rollouts_are_forced:
  assumes "generate_forced_phase1 io prompt r idx h m mx (Some stops) primary b = (b1, Inr rolls)" and "stops \<noteq> []"
    and "answers_each (li_call io) one" and "\<And>e. engine_lawful ord_m sha domain model (one e)"
    and "descending ord_m" and "descending ord_v" and "\<And>xs. length (model xs) = Suc vocab \<and> untied T_PROTO TOP_K_PROTO (model xs)"
    and "k < length rolls" and "length us = length (rolls ! k)"
    and "\<forall>i < length us. u_at sha domain r idx h (int k) (int i) = Inr (us ! i)"
  shows "length rolls = m \<and> set (butlast (rolls ! k)) \<inter> set stops = {}
    \<and> (rolls ! k \<noteq> [] \<and> List.last (rolls ! k) \<in> set stops \<or> int (length (rolls ! k)) = mx)
    \<and> (\<exists>c. seed_consistency ord_v (map (\<lambda>i. model (prompt @ take i (rolls ! k))) [0..<length (rolls ! k)]) (rolls ! k) us
         T_PROTO TOP_K_PROTO TOP_P_PROTO threshold = (c, c))"
proof -
  let ?toks = "rolls ! k" and ?rows = "map (\<lambda>i. model (prompt @ take i (rolls ! k))) [0..<length (rolls ! k)]"
  note f = forced_rollout [OF assms(1-4) assms(8)]
  have tok: "?toks ! i = int (pick (warp ord_v (?rows ! i) T_PROTO TOP_K_PROTO TOP_P_PROTO) (us ! i))" if "i < length ?rows" for i
  proof -
    have ne: "model (prompt @ take i ?toks) \<noteq> []" using assms(7) [of "prompt @ take i ?toks"] by auto
    from f greedy_forced_token [of ord_m sha domain model prompt _ ?toks i "us ! i"] ne that assms(9,10)
    have "?toks ! i = int (pick (warp ord_m (model (prompt @ take i ?toks)) T_PROTO TOP_K_PROTO TOP_P_PROTO) (us ! i))"
      by (force simp: forced_seed_extra_args_def dflt0_def)
    then show ?thesis using untied_rows [OF assms(5,6) ne] assms(7) that by simp
  qed
  have "model xs \<noteq> []" for xs using assms(7) [of xs] by auto
  then have "batch_shape ?rows"
    using assms(7) by (cases "length ?toks") (auto simp: batch_shape_def row_size_def upt_conv_Cons simp del: upt_Suc)
  from matching_run_consistent [OF _ _ this, of ?toks us ord_v T_PROTO TOP_K_PROTO TOP_P_PROTO threshold] tok assms(9)
  have "\<exists>c. seed_consistency ord_v ?rows ?toks us T_PROTO TOP_K_PROTO TOP_P_PROTO threshold = (c, c)" by simp
  moreover have "set (butlast ?toks) \<inter> set stops = {} \<and> (?toks \<noteq> [] \<and> List.last ?toks \<in> set stops \<or> int (length ?toks) = mx)"
  proof -
    from f obtain sp co where sp: "sp_stop_token_ids sp = Some stops" "sp_max_tokens sp = mx" "sp_ignore_eos sp" and st: "stopped sp co ?toks"
      by blast
    show ?thesis using st sp unfolding stopped_def Let_def by (simp split: if_splits)
  qed
  ultimately show ?thesis using f by blast
qed

text \<open>An engine that knows one request, whose first token is its stop token and is stripped.\<close>

definition toy_payload :: fs_payload where
  "toy_payload = forced_seed_extra_args ''ab'' 7 ''c'' 0 0 1"

definition toy_one :: "nat \<Rightarrow> int list \<times> sampling_params \<Rightarrow> completion list res" where
  "toy_one e req =
     (if req = ([5], forced_params True 16 (Some [0]) toy_payload)
      then Inr [\<lparr> co_tokens = [], co_stop = JInt 0, co_finish = Some ''stop'' \<rparr>] else Inl RuntimeError)"

definition toy_io :: "nat llm_io" where
  "toy_io = easy_io \<lparr> li_call := \<lambda>e reqs. traverse (toy_one e) reqs \<rparr>"

lemma first_draw: "u_at (\<lambda>_. replicate 32 128) ''d'' ''ab'' 7 ''c'' 0 0 = Inr (9259542123273814144 / 2 ^ 64)"
proof -
  have "take 8 (replicate 32 128) = ([128, 128, 128, 128, 128, 128, 128, 128] :: bytes)" by code_simp
  then have "from_bytes_be (take 8 (replicate 32 128)) = 9259542123273814144" by (simp add: from_bytes_be_def)
  then show ?thesis by (simp add: u_at_def u_preimage_def len_prefix_def to_bytes_be_def encode_def enc_char_def)
qed

lemma toy_engine_lawful: "engine_lawful argsort (\<lambda>_. replicate 32 128) ''d'' (\<lambda>_. toy_row) (toy_one e)"
proof -
  have row: "force_row argsort (\<lambda>_. replicate 32 128) ''d'' toy_row ''ab'' 7 ''c'' 0 0 = Inr [Fin 0, NInf]"
    by (simp add: force_row_def first_draw toy_row_warp pick_def searchsorted_right_def one_hot_def numeral_2_eq_2) (simp add: toy_row_def)
  have "greedy_forced argsort (\<lambda>_. replicate 32 128) ''d'' (\<lambda>_. toy_row) [5] toy_payload [0]"
    by (simp add: greedy_forced_def new_req_logits_processor_def toy_payload_def forced_seed_extra_args_def make_forced_seed_request_proc_def
        dflt0_def row greedy_choice_def)
  moreover have "stopped (forced_params True 16 (Some [0]) toy_payload) \<lparr> co_tokens = [], co_stop = JInt 0, co_finish = Some ''stop'' \<rparr> [0]"
    by (simp add: stopped_def forced_params_def)
  ultimately show ?thesis
    by (auto simp: engine_lawful_def toy_one_def forced_params_def split: if_splits)
qed

theorem phase1_rollouts_are_forced_witness:
  "snd (generate_forced_phase1 toy_io [5] ''ab'' 7 ''c'' 1 16 (Some [0]) None (VLLMBackend [] ''m'' 0 1 4096 ''bfloat16'' None True)) = Inr [[0]]
   \<and> (\<exists>c. seed_consistency argsort_last [toy_row] [0] [9259542123273814144 / 2 ^ 64] T_PROTO TOP_K_PROTO TOP_P_PROTO (99 / 100) = (c, c))"
proof -
  let ?b = "VLLMBackend [] ''m'' 0 1 4096 ''bfloat16'' None True :: nat vllm_backend"
  obtain b1 where g: "generate_forced_phase1 toy_io [5] ''ab'' 7 ''c'' 1 16 (Some [0]) None ?b = (b1, Inr [[0]])"
    by (simp add: generate_forced_phase1_def with_engine_def ensure_loaded_def load_engine_def VLLMBackend_def Let_def toy_io_def easy_io_def numeral_eq_Suc
        forced_requests_def toy_one_def toy_payload_def restored_def first_output_def with_stop_token_def)
  have each: "answers_each (li_call toy_io) toy_one" by (simp add: answers_each_def toy_io_def)
  have rows: "length toy_row = Suc 1 \<and> untied T_PROTO TOP_K_PROTO toy_row" for xs :: "int list"
    by (simp add: untied_def toy_row_mask) (simp add: toy_row_def)
  have us: "length [9259542123273814144 / 2 ^ 64 :: real] = length ([[0 :: int]] ! 0)" by simp
  have dr: "\<forall>i < length [9259542123273814144 / 2 ^ 64 :: real].
      u_at (\<lambda>_. replicate 32 128) ''d'' ''ab'' 7 ''c'' (int 0) (int i) = Inr ([9259542123273814144 / 2 ^ 64] ! i)"
    using first_draw by simp
  from phase1_rollouts_are_forced [OF g _ each toy_engine_lawful argsort_descending rows _ us dr, of "99 / 100"]
  have "\<exists>c. seed_consistency argsort_last [toy_row] [0] [9259542123273814144 / 2 ^ 64] T_PROTO TOP_K_PROTO TOP_P_PROTO (99 / 100) = (c, c)"
    by simp
  then show ?thesis using g by simp
qed

section \<open>The asynchronous path\<close>

lemma gather_samples:
  assumes "\<And>rid req. req \<in> set reqs \<Longrightarrow> li_stream io e rid req = map_sum id (\<lambda>out. [out]) (one e req)"
    and "traverse (one e) reqs = Inr outs" and "\<forall>out \<in> set outs. out \<noteq> []"
  shows "traverse id (snd (gather_generate io e reqs b)) = Inr (map (\<lambda>out. co_tokens (hd out)) outs)"
  using assms
proof (induction reqs arbitrary: b outs)
  case (Cons req reqs)
  obtain out rest where o: "one e req = Inr out" "traverse (one e) reqs = Inr rest" "outs = out # rest"
    using Cons.prems(2) by (auto simp: rbind_eq_Inr)
  obtain b1 rid where n: "next_request_id io b = (b1, rid)" by fastforce
  have s: "stream_sample io e rid req = Inr (co_tokens (hd out))"
    using Cons.prems(1) [of req rid] Cons.prems(3) o by (simp add: stream_sample_def)
  have "traverse id (snd (gather_generate io e reqs b1)) = Inr (map (\<lambda>out. co_tokens (hd out)) rest)"
    by (rule Cons.IH) (use Cons.prems o in auto)
  moreover obtain b2 rs where "gather_generate io e reqs b1 = (b2, rs)" by fastforce
  ultimately show ?case using n s o by (simp add: id_def)
qed simp

text \<open>
  The asynchronous forced path loses the stop token. Where a streaming engine reports stop tokens as the code observes (the token ends the
  generation, is named in \<open>stop_reason\<close> and is missing from \<open>token_ids\<close>), the synchronous backend puts it back,
  but the asynchronous one returns the stripped tokens: none of its rollouts that stopped contains a stop token, so the
  validator's rule of one final stop token rejects them all.
\<close>

theorem async_rollouts_lose_stop:
  assumes "vb_llm b = Some e"
    and "\<And>rid req. li_stream io e rid req = map_sum id (\<lambda>out. [out]) (one e req)"
    and "traverse (one e) (forced_requests False r h m mx (Some stops) (prompt, idx)) = Inr outs"
    and "\<forall>out \<in> set outs. \<exists>co toks t. out = [co] \<and> co_tokens co = toks \<and> co_stop co = JInt t \<and> t \<in> set stops \<and> set toks \<inter> set stops = {}"
  shows "\<exists>rolls. snd (async_forced_phase1 io prompt r idx h m mx (Some stops) b) = Inr rolls \<and> length rolls = m
    \<and> (\<forall>k < m. set (rolls ! k) \<inter> set stops = {} \<and> List.last (with_stop_token env (hd (outs ! k)) primary) \<in> set stops)"
proof -
  have len: "length outs = m" using traverse_length [OF assms(3)] by simp
  have ne: "\<forall>out \<in> set outs. out \<noteq> []" using assms(4) by blast
  have "snd (async_forced_phase1 io prompt r idx h m mx (Some stops) b) = Inr (map (\<lambda>out. co_tokens (hd out)) outs)"
  proof -
    have "traverse id (snd (gather_generate io e (forced_requests False r h m mx (Some stops) (prompt, idx)) b)) = Inr (map (\<lambda>out. co_tokens (hd out)) outs)"
      by (rule gather_samples [where one = one]) (use assms(2,3) ne in blast)+
    then show ?thesis
      by (cases "gather_generate io e (forced_requests False r h m mx (Some stops) (prompt, idx)) b")
        (simp add: async_forced_phase1_def async_requests_def async_ensure_loaded_def load_engine_def assms(1))
  qed
  moreover have "set (co_tokens (hd (outs ! k))) \<inter> set stops = {} \<and> List.last (with_stop_token env (hd (outs ! k)) primary) \<in> set stops" if "k < m" for k
  proof -
    from assms(4) that len obtain co t where co: "outs ! k = [co]" "co_stop co = JInt t" "t \<in> set stops" "set (co_tokens co) \<inter> set stops = {}"
      by (metis nth_mem)
    then have "co_tokens co = [] \<or> List.last (co_tokens co) \<noteq> t" using last_in_set [of "co_tokens co"] by fastforce
    then show ?thesis using co by (auto simp: with_stop_token_def Let_def)
  qed
  ultimately show ?thesis using len by (intro exI [of _ "map (\<lambda>out. co_tokens (hd out)) outs"]) simp
qed

definition stripped_one :: "nat \<Rightarrow> int list \<times> sampling_params \<Rightarrow> completion list res" where
  "stripped_one e req = Inr [\<lparr> co_tokens = [4], co_stop = JInt 9, co_finish = Some ''stop'' \<rparr>]"

definition stripping_io :: "nat llm_io" where
  "stripping_io = toy_io \<lparr> li_stream := \<lambda>e rid req. map_sum id (\<lambda>out. [out]) (stripped_one e req) \<rparr>"

definition loaded_backend :: "nat vllm_backend" where
  "loaded_backend = (VLLMBackend [] ''m'' 0 1 4096 ''bfloat16'' None True) \<lparr> vb_llm := Some 1 \<rparr>"

theorem async_rollouts_lose_stop_witness:
  "\<exists>rolls. snd (async_forced_phase1 stripping_io [5] ''ab'' 7 ''c'' 2 16 (Some [9]) loaded_backend) = Inr rolls \<and> length rolls = 2
     \<and> set (rolls ! 0) \<inter> set [9] = {} \<and> set (rolls ! 1) \<inter> set [9] = {}"
proof -
  define outs where "outs = replicate 2 [\<lparr> co_tokens = [4], co_stop = JInt 9, co_finish = Some ''stop'' \<rparr>]"
  have l: "vb_llm loaded_backend = Some 1" by (simp add: loaded_backend_def)
  have s: "li_stream stripping_io 1 rid req = map_sum id (\<lambda>out. [out]) (stripped_one 1 req)" for rid req
    by (simp add: stripping_io_def)
  have o: "traverse (stripped_one 1) (forced_requests False ''ab'' ''c'' 2 16 (Some [9]) ([5], 7)) = Inr outs"
    by (simp add: forced_requests_def numeral_2_eq_2 stripped_one_def outs_def)
  have t: "\<forall>out \<in> set outs. \<exists>co toks t. out = [co] \<and> co_tokens co = toks \<and> co_stop co = JInt t \<and> t \<in> set [9] \<and> set toks \<inter> set [9] = {}"
    by (simp add: outs_def)
  have "\<exists>rolls. snd (async_forced_phase1 stripping_io [5] ''ab'' 7 ''c'' 2 16 (Some [9]) loaded_backend) = Inr rolls \<and> length rolls = 2
    \<and> (\<forall>k < 2. set (rolls ! k) \<inter> set [9] = {} \<and> List.last (with_stop_token [] (hd (outs ! k)) None) \<in> set [9])"
    by (rule async_rollouts_lose_stop [where one = stripped_one, OF l s o t])
  then obtain rolls where r: "snd (async_forced_phase1 stripping_io [5] ''ab'' 7 ''c'' 2 16 (Some [9]) loaded_backend) = Inr rolls" "length rolls = 2"
    and k: "\<forall>k < 2. set (rolls ! k) \<inter> set [9] = {}"
    by blast
  have "set (rolls ! 0) \<inter> set [9] = {}" "set (rolls ! 1) \<inter> set [9] = {}" using k by simp_all
  with r show ?thesis by blast
qed

end
