(* ===== verification/PromptSelector.thy ===== *)
theory PromptSelector
  imports Json
begin

text \<open>
  \<open>reliquary/miner/selector.py\<close> and \<open>buckets.py\<close>: choosing the next prompt by Thompson sampling over Beta posteriors, one per prompt seen
  and one per bucket of the data set. The random generator is an argument: \<open>draw i a b\<close> is the \<open>i\<close>-th
  number \<open>betavariate\<close> returns in a call of \<open>next\<close>. Pickling a payload and reading it back gives the payload. The lemmas show that no posterior ever
  leaves the domain of the Beta distribution, that a call picks a best admissible prompt, and that a restart decays the
  evidence exactly as a miner that kept running would have.
\<close>

section \<open>The zone\<close>

text \<open>\<open>k_hi \<le> n\<close> in every call of the repository.\<close>

definition score_in_zone :: "real \<Rightarrow> nat \<Rightarrow> nat \<Rightarrow> nat \<Rightarrow> real" where
  "score_in_zone p n k_lo k_hi =
     sum_list (map (\<lambda>k. real (n choose k) * p ^ k * (1 - p) ^ (n - k)) [k_lo..<k_hi + 1])"

section \<open>Posteriors\<close>

record posterior =
  po_alpha :: real
  po_beta :: real

definition BetaPosterior :: posterior where
  "BetaPosterior = \<lparr> po_alpha = 1, po_beta = 1 \<rparr>"

definition po_update :: "int \<Rightarrow> int \<Rightarrow> posterior \<Rightarrow> posterior res" where
  "po_update k_success n_total po =
     (if k_success < 0 \<or> n_total < k_success then Inl ValueError
      else Inr (po \<lparr> po_alpha := po_alpha po + of_int k_success, po_beta := po_beta po + of_int (n_total - k_success) \<rparr>))"

definition po_decay :: "real \<Rightarrow> posterior \<Rightarrow> posterior res" where
  "po_decay factor po =
     (if \<not> (0 \<le> factor \<and> factor \<le> 1) then Inl ValueError
      else Inr (po \<lparr> po_alpha := 1 + factor * (po_alpha po - 1), po_beta := 1 + factor * (po_beta po - 1) \<rparr>))"

section \<open>Buckets\<close>

type_synonym bucket_rows = "(string, json) dict list"

definition bucket_of :: "bucket_rows \<Rightarrow> int \<Rightarrow> (json \<times> json) res" where
  "bucket_of rows prompt_idx =
     (if rows = [] then Inl ZeroDivisionError
      else
        let row = rows ! nat (prompt_idx mod int (length rows));
            pick = (\<lambda>k. if truthy (dget row k JNull) then dget row k JNull else JStr ''unknown'')
        in Inr (pick ''type'', pick ''level''))"

section \<open>The selector\<close>

record selector =
  sl_prompt_post :: "(int, posterior) dict"
  sl_bucket_post :: "(json \<times> json, posterior) dict"
  sl_seen :: "(int, int) dict"

definition new_selector :: selector where
  "new_selector = \<lparr> sl_prompt_post = [], sl_bucket_post = [], sl_seen = [] \<rparr>"

definition SELECTOR_GAMMA :: real where
  "SELECTOR_GAMMA = 3 / 10"

definition ensure_prompt_post :: "int \<Rightarrow> selector \<Rightarrow> selector \<times> posterior" where
  "ensure_prompt_post prompt_idx s =
     (case map_of (sl_prompt_post s) prompt_idx of
        Some po \<Rightarrow> (s, po)
      | None \<Rightarrow> (s \<lparr> sl_prompt_post := dset prompt_idx BetaPosterior (sl_prompt_post s) \<rparr>, BetaPosterior))"

definition ensure_bucket_post :: "bucket_rows \<Rightarrow> int \<Rightarrow> selector \<Rightarrow> selector \<times> ((json \<times> json) \<times> posterior) res" where
  "ensure_bucket_post rows prompt_idx s =
     (case bucket_of rows prompt_idx of
        Inl e \<Rightarrow> (s, Inl e)
      | Inr k \<Rightarrow>
          (case map_of (sl_bucket_post s) k of
             Some po \<Rightarrow> (s, Inr (k, po))
           | None \<Rightarrow> (s \<lparr> sl_bucket_post := dset k BetaPosterior (sl_bucket_post s) \<rparr>, Inr (k, BetaPosterior))))"

definition posterior_for :: "bucket_rows \<Rightarrow> int \<Rightarrow> selector \<Rightarrow> selector \<times> posterior res" where
  "posterior_for rows prompt_idx s =
     (case map_of (sl_prompt_post s) prompt_idx of
        Some po \<Rightarrow> (s, Inr po)
      | None \<Rightarrow> (case ensure_bucket_post rows prompt_idx s of (s1, r) \<Rightarrow> (s1, rbind r (\<lambda>(k, po). Inr po))))"

definition prompt_score :: "real \<Rightarrow> int \<Rightarrow> selector \<Rightarrow> real" where
  "prompt_score p_sample idx s =
     (let base = score_in_zone p_sample 8 2 6; penalty = exp (- SELECTOR_GAMMA * of_int (dget (sl_seen s) idx 0))
      in base * penalty)"

text \<open>\<open>int(r)\<close> truncates. Each posterior is created first, then updated in place; an error leaves what was done.\<close>

definition int_of_reward :: "real \<Rightarrow> int" where
  "int_of_reward r = (if 0 \<le> r then \<lfloor>r\<rfloor> else \<lceil>r\<rceil>)"

definition update_accepted :: "bucket_rows \<Rightarrow> int \<Rightarrow> real list \<Rightarrow> selector \<Rightarrow> selector \<times> unit res" where
  "update_accepted rows prompt_idx rewards s =
     (let k = sum_list (map int_of_reward rewards); n = int (length rewards) in
      case ensure_prompt_post prompt_idx s of (s1, po) \<Rightarrow>
        (case po_update k n po of
           Inl e \<Rightarrow> (s1, Inl e)
         | Inr po1 \<Rightarrow>
             (let s2 = s1 \<lparr> sl_prompt_post := dset prompt_idx po1 (sl_prompt_post s1) \<rparr> in
              case ensure_bucket_post rows prompt_idx s2 of
                (s3, Inl e) \<Rightarrow> (s3, Inl e)
              | (s3, Inr (key, bo)) \<Rightarrow>
                  (case po_update k n bo of
                     Inl e \<Rightarrow> (s3, Inl e)
                   | Inr bo1 \<Rightarrow> (s3 \<lparr> sl_bucket_post := dset key bo1 (sl_bucket_post s3) \<rparr>, Inr ())))))"

definition update_local_reject :: "bucket_rows \<Rightarrow> int \<Rightarrow> real list \<Rightarrow> selector \<Rightarrow> selector \<times> unit res" where
  "update_local_reject rows prompt_idx rewards s = update_accepted rows prompt_idx rewards s"

definition update_superseded :: "int \<Rightarrow> selector \<Rightarrow> selector" where
  "update_superseded prompt_idx s = s \<lparr> sl_seen := dset prompt_idx (dget (sl_seen s) prompt_idx 0 + 1) (sl_seen s) \<rparr>"

definition update_neutral :: "int \<Rightarrow> selector \<Rightarrow> selector" where
  "update_neutral prompt_idx s = s"

text \<open>Posterior after posterior; the first one already checks the factor.\<close>

fun decay_all :: "real \<Rightarrow> ('k, posterior) dict \<Rightarrow> ('k, posterior) dict \<times> unit res" where
  "decay_all factor [] = ([], Inr ())"
| "decay_all factor ((k, po) # rest) =
     (case po_decay factor po of
        Inl e \<Rightarrow> ((k, po) # rest, Inl e)
      | Inr po1 \<Rightarrow> (case decay_all factor rest of (d, r) \<Rightarrow> ((k, po1) # d, r)))"

definition on_checkpoint_change :: "real \<Rightarrow> selector \<Rightarrow> selector \<times> unit res" where
  "on_checkpoint_change decay s =
     (case decay_all decay (sl_prompt_post s) of
        (pp, Inl e) \<Rightarrow> (s \<lparr> sl_prompt_post := pp \<rparr>, Inl e)
      | (pp, Inr u) \<Rightarrow>
          (case decay_all decay (sl_bucket_post s) of
             (bp, Inl e) \<Rightarrow> (s \<lparr> sl_prompt_post := pp, sl_bucket_post := bp \<rparr>, Inl e)
           | (bp, Inr u) \<Rightarrow>
               (s \<lparr> sl_prompt_post := pp, sl_bucket_post := bp,
                    sl_seen := map (\<lambda>(k, v). (k, int_of_reward (of_int v * decay))) (sl_seen s) \<rparr>, Inr ())))"

section \<open>The next prompt\<close>

text \<open>The loop over the candidates, with the best one so far; \<open>eligible\<close> is listed in the order its set is visited.\<close>

fun best_of :: "bucket_rows \<Rightarrow> (nat \<Rightarrow> real \<Rightarrow> real \<Rightarrow> real) \<Rightarrow> nat \<Rightarrow> int list \<Rightarrow> int \<Rightarrow> real \<Rightarrow> selector \<Rightarrow> selector \<times> int res" where
  "best_of rows draw i [] best_idx best_score s = (s, Inr best_idx)"
| "best_of rows draw i (idx # rest) best_idx best_score s =
     (case posterior_for rows idx s of
        (s1, Inl e) \<Rightarrow> (s1, Inl e)
      | (s1, Inr po) \<Rightarrow>
          (let sc = prompt_score (draw i (po_alpha po) (po_beta po)) idx s1 in
           if best_score < sc then best_of rows draw (Suc i) rest idx sc s1
           else best_of rows draw (Suc i) rest best_idx best_score s1))"

definition selector_candidates :: "bucket_rows \<Rightarrow> int set \<Rightarrow> int list option \<Rightarrow> int list" where
  "selector_candidates rows cooldown_set eligible =
     (case eligible of
        None \<Rightarrow> filter (\<lambda>i. i \<notin> cooldown_set) (map int [0..<length rows])
      | Some is \<Rightarrow> filter (\<lambda>i. i \<notin> cooldown_set) is)"

definition next_prompt :: "bucket_rows \<Rightarrow> (nat \<Rightarrow> real \<Rightarrow> real \<Rightarrow> real) \<Rightarrow> int set \<Rightarrow> int list option \<Rightarrow> selector \<Rightarrow> selector \<times> int res" where
  "next_prompt rows draw cooldown_set eligible s =
     (case selector_candidates rows cooldown_set eligible of
        [] \<Rightarrow> (s, Inl RuntimeError)
      | c # cs \<Rightarrow> best_of rows draw 0 (c # cs) c (- 1) s)"

section \<open>Saving and loading\<close>

text \<open>The file holds the payload of the last save that reached its rename: a save that fails leaves it as it was.\<close>

type_synonym selector_file = "(int \<times> selector) option"

definition save_selector :: "bool \<Rightarrow> int \<Rightarrow> selector \<Rightarrow> selector_file \<Rightarrow> selector_file \<times> unit res" where
  "save_selector written checkpoint_n s file = (if written then (Some (checkpoint_n, s), Inr ()) else (file, Inl RuntimeError))"

fun decay_steps :: "nat \<Rightarrow> real \<Rightarrow> selector \<Rightarrow> selector \<times> unit res" where
  "decay_steps 0 decay s = (s, Inr ())"
| "decay_steps (Suc k) decay s =
     (case on_checkpoint_change decay s of (s1, Inl e) \<Rightarrow> (s1, Inl e) | (s1, Inr u) \<Rightarrow> decay_steps k decay s1)"

definition load_selector :: "selector_file \<Rightarrow> int \<Rightarrow> real \<Rightarrow> selector \<Rightarrow> selector \<times> int option res" where
  "load_selector file current_checkpoint_n decay_per_step s =
     (case file of
        None \<Rightarrow> (s, Inr None)
      | Some (saved_n, saved) \<Rightarrow>
          (case decay_steps (nat (max 0 (current_checkpoint_n - saved_n))) decay_per_step saved of
             (s1, Inl e) \<Rightarrow> (s1, Inl e)
           | (s1, Inr u) \<Rightarrow> (s1, Inr (Some current_checkpoint_n))))"

section \<open>The score of a probability\<close>

lemma zone_terms_nonneg: "0 \<le> p \<Longrightarrow> p \<le> 1 \<Longrightarrow> 0 \<le> real (n choose k) * p ^ k * (1 - p) ^ (n - k)"
  by simp

lemma prompt_score_nonneg: "0 \<le> p \<Longrightarrow> p \<le> 1 \<Longrightarrow> 0 \<le> score_in_zone p n k_lo k_hi"
  unfolding score_in_zone_def by (intro sum_list_nonneg) (auto intro: zone_terms_nonneg)

text \<open>
  The score of a success rate is a probability: between zero and one for every zone, one exactly when the zone leaves nothing out, and for the zone of
  the protocol (two to six successes of eight) the same for a rate and its complement, so that easy and
  hard prompts are treated alike.
\<close>

theorem zone_score_is_probability:
  assumes "0 \<le> p" and "p \<le> 1" and "k_hi \<le> n"
  shows "0 \<le> score_in_zone p n k_lo k_hi \<and> score_in_zone p n k_lo k_hi \<le> 1 \<and> score_in_zone p n 0 n = 1
    \<and> score_in_zone p 8 2 6 = score_in_zone (1 - p) 8 2 6"
proof -
  let ?t = "\<lambda>k. real (n choose k) * p ^ k * (1 - p) ^ (n - k)"
  have sums: "score_in_zone p n a b = sum ?t {a..<b + 1}" for a b
    unfolding score_in_zone_def by (simp only: sum_list_distinct_conv_sum_set distinct_upt set_upt)
  have one: "sum ?t {0..<n + 1} = 1"
    using binomial_ring [of p "1 - p" n] by (simp add: atLeast0LessThan lessThan_Suc_atMost)
  have "sum ?t {k_lo..<k_hi + 1} \<le> sum ?t {0..<n + 1}"
    by (rule sum_mono2) (use assms in \<open>auto intro: zone_terms_nonneg\<close>)
  then have "score_in_zone p n k_lo k_hi \<le> 1" using one by (simp only: sums)
  moreover have "score_in_zone p 8 2 6 = score_in_zone (1 - p) 8 2 6"
    by (simp add: score_in_zone_def upt_conv_Cons binomial_eq_0 numeral_eq_Suc del: upt_Suc)
  moreover have "score_in_zone p n 0 n = 1" using one by (simp only: sums)
  ultimately show ?thesis using prompt_score_nonneg [OF assms(1,2)] by blast
qed

theorem zone_score_is_probability_witness:
  "0 \<le> score_in_zone (1 / 4) 8 2 6 \<and> score_in_zone (1 / 4) 8 2 6 \<le> 1 \<and> score_in_zone (1 / 4) 8 0 8 = 1
    \<and> score_in_zone (1 / 4) 8 2 6 = score_in_zone (1 - 1 / 4) 8 2 6"
  by (rule zone_score_is_probability) simp_all

section \<open>Posteriors stay in the domain\<close>

definition po_ok :: "posterior \<Rightarrow> bool" where
  "po_ok po = (1 \<le> po_alpha po \<and> 1 \<le> po_beta po)"

definition posts_ok :: "('k, posterior) dict \<Rightarrow> bool" where
  "posts_ok d = (\<forall>po \<in> snd ` set d. po_ok po)"

definition selector_ok :: "selector \<Rightarrow> bool" where
  "selector_ok s =
     (posts_ok (sl_prompt_post s) \<and> posts_ok (sl_bucket_post s) \<and> (\<forall>v \<in> snd ` set (sl_seen s). 0 \<le> v))"

lemma fresh_posterior_ok: "po_ok BetaPosterior"
  by (simp add: po_ok_def BetaPosterior_def)

lemma po_update_ok: "po_ok po \<Longrightarrow> po_update k n po = Inr po1 \<Longrightarrow> po_ok po1"
  by (auto simp: po_ok_def po_update_def split: if_splits)

lemma po_decay_ok: "po_ok po \<Longrightarrow> po_decay f po = Inr po1 \<Longrightarrow> po_ok po1"
  by (auto simp: po_ok_def po_decay_def split: if_splits)

lemma dset_values: "v \<in> snd ` set (dset k x d) \<Longrightarrow> v = x \<or> v \<in> snd ` set d"
  by (induction d) (auto split: if_splits)

lemma posts_ok_dset [simp]: "posts_ok d \<Longrightarrow> po_ok po \<Longrightarrow> posts_ok (dset k po d)"
  unfolding posts_ok_def using dset_values by metis

lemma posts_ok_lookup: "posts_ok d \<Longrightarrow> map_of d k = Some po \<Longrightarrow> po_ok po"
  unfolding posts_ok_def by (force dest: map_of_SomeD)

lemma ensure_prompt_ok:
  "selector_ok s \<Longrightarrow> ensure_prompt_post i s = (s1, po) \<Longrightarrow> selector_ok s1 \<and> po_ok po"
  by (cases "map_of (sl_prompt_post s) i")
    (auto simp: ensure_prompt_post_def selector_ok_def fresh_posterior_ok posts_ok_lookup)

lemma ensure_bucket_ok:
  "selector_ok s \<Longrightarrow> ensure_bucket_post rows i s = (s1, r) \<Longrightarrow> selector_ok s1 \<and> (\<forall>k po. r = Inr (k, po) \<longrightarrow> po_ok po)"
  by (auto simp: ensure_bucket_post_def selector_ok_def fresh_posterior_ok posts_ok_lookup split: option.splits sum.splits)

lemma posterior_for_ok:
  assumes "selector_ok s" and "posterior_for rows i s = (s1, r)"
  shows "selector_ok s1 \<and> (\<forall>po. r = Inr po \<longrightarrow> po_ok po)"
proof (cases "map_of (sl_prompt_post s) i")
  case None
  obtain s2 q where e: "ensure_bucket_post rows i s = (s2, q)" by fastforce
  then show ?thesis using None assms ensure_bucket_ok [OF assms(1) e] by (force simp: posterior_for_def rbind_eq_Inr)
next
  case (Some po)
  then show ?thesis using assms posts_ok_lookup [OF _ Some] by (auto simp: posterior_for_def selector_ok_def)
qed

lemma update_accepted_ok:
  assumes "selector_ok s" shows "selector_ok (fst (update_accepted rows i rewards s))"
proof -
  define k where "k = sum_list (map int_of_reward rewards)"
  obtain s1 po where e: "ensure_prompt_post i s = (s1, po)" by fastforce
  have s1: "selector_ok s1" "po_ok po" using ensure_prompt_ok [OF assms e] by simp_all
  show ?thesis
  proof (cases "po_update k (int (length rewards)) po")
    case (Inl err)
    then show ?thesis using e s1 by (simp add: update_accepted_def k_def [symmetric] Let_def)
  next
    case (Inr po1)
    define s2 where "s2 = s1 \<lparr> sl_prompt_post := dset i po1 (sl_prompt_post s1) \<rparr>"
    have s2: "selector_ok s2" using s1 po_update_ok [OF s1(2) Inr] by (simp add: selector_ok_def s2_def)
    obtain s3 r where b: "ensure_bucket_post rows i s2 = (s3, r)" by fastforce
    note s3 = ensure_bucket_ok [OF s2 b]
    show ?thesis
    proof (cases r)
      case (Inl err)
      then show ?thesis using e Inr b s3 by (simp add: update_accepted_def k_def [symmetric] Let_def s2_def [symmetric])
    next
      case r: (Inr kb)
      obtain key bo where kb: "kb = (key, bo)" by fastforce
      show ?thesis
      proof (cases "po_update k (int (length rewards)) bo")
        case (Inl err)
        then show ?thesis using e Inr b s3 r kb by (simp add: update_accepted_def k_def [symmetric] Let_def s2_def [symmetric])
      next
        case u: (Inr bo1)
        have "po_ok bo1" using po_update_ok [OF _ u] s3 r kb by blast
        then show ?thesis using e Inr b s3 r kb u
          by (simp add: update_accepted_def k_def [symmetric] Let_def s2_def [symmetric] selector_ok_def)
      qed
    qed
  qed
qed

lemma posts_ok_Cons [simp]: "posts_ok (p # d) = (po_ok (snd p) \<and> posts_ok d)" "posts_ok []"
  by (simp_all add: posts_ok_def)

lemma decay_all_ok: "posts_ok d \<Longrightarrow> posts_ok (fst (decay_all f d))"
proof (induction f d rule: decay_all.induct)
  case (2 f k po rest)
  then show ?case by (cases "po_decay f po") (auto dest: po_decay_ok split: prod.split)
qed simp

lemma int_of_reward_nonneg: "0 \<le> r \<Longrightarrow> 0 \<le> int_of_reward r"
  by (simp add: int_of_reward_def)

lemma checkpoint_change_ok:
  assumes "selector_ok s" and "0 \<le> d" shows "selector_ok (fst (on_checkpoint_change d s))"
proof -
  obtain pp r1 where p: "decay_all d (sl_prompt_post s) = (pp, r1)" by fastforce
  obtain bp r2 where b: "decay_all d (sl_bucket_post s) = (bp, r2)" by fastforce
  have ok: "posts_ok pp" "posts_ok bp"
    using decay_all_ok [of "sl_prompt_post s" d] decay_all_ok [of "sl_bucket_post s" d] assms p b by (simp_all add: selector_ok_def)
  show ?thesis
  proof (cases "(\<exists>e. r1 = Inl e) \<or> (\<exists>e. r2 = Inl e)")
    case True
    then show ?thesis using p b ok assms by (cases r1; cases r2) (auto simp: on_checkpoint_change_def selector_ok_def)
  next
    case False
    then have r: "r1 = Inr ()" "r2 = Inr ()" by (cases r1; cases r2; auto)+
    show ?thesis using p b ok assms r by (fastforce simp: on_checkpoint_change_def selector_ok_def intro!: int_of_reward_nonneg mult_nonneg_nonneg)
  qed
qed

lemma decay_steps_ok: "selector_ok s \<Longrightarrow> 0 \<le> d \<Longrightarrow> selector_ok (fst (decay_steps k d s))"
proof (induction k arbitrary: s)
  case (Suc k)
  obtain s1 r where c: "on_checkpoint_change d s = (s1, r)" by fastforce
  have "selector_ok s1" using checkpoint_change_ok [OF Suc.prems] c by simp
  then show ?case using c Suc.IH Suc.prems(2) by (cases r) simp_all
qed simp

lemma best_of_ok: "selector_ok s \<Longrightarrow> selector_ok (fst (best_of rows draw i cs b bs s))"
proof (induction cs arbitrary: i b bs s)
  case (Cons c cs)
  obtain s1 r where p: "posterior_for rows c s = (s1, r)" by fastforce
  have "selector_ok s1" using posterior_for_ok [OF Cons.prems p] by simp
  then show ?case using p Cons.IH by (cases r) (simp_all add: Let_def)
qed simp

text \<open>The operations, a restart being a save followed by a load into a new selector at a later checkpoint.\<close>

datatype selector_op =
    Accepted int "real list" | LocalReject int "real list" | Superseded int | Neutral int | CheckpointChange real
  | NextPrompt "nat \<Rightarrow> real \<Rightarrow> real \<Rightarrow> real" "int set" "int list option" | Restart int int real

fun selector_step :: "bucket_rows \<Rightarrow> selector \<Rightarrow> selector_op \<Rightarrow> selector" where
  "selector_step rows s (Accepted i rewards) = fst (update_accepted rows i rewards s)"
| "selector_step rows s (LocalReject i rewards) = fst (update_local_reject rows i rewards s)"
| "selector_step rows s (Superseded i) = update_superseded i s"
| "selector_step rows s (Neutral i) = update_neutral i s"
| "selector_step rows s (CheckpointChange d) = fst (on_checkpoint_change d s)"
| "selector_step rows s (NextPrompt draw cooldown eligible) = fst (next_prompt rows draw cooldown eligible s)"
| "selector_step rows s (Restart saved_n current_n d) =
     fst (load_selector (fst (save_selector True saved_n s None)) current_n d new_selector)"

fun decays_forward :: "selector_op \<Rightarrow> bool" where
  "decays_forward (CheckpointChange d) = (0 \<le> d)"
| "decays_forward (Restart saved_n current_n d) = (0 \<le> d)"
| "decays_forward _ = True"

lemma seen_dset: "v \<in> snd ` set (dset k x d) \<Longrightarrow> \<forall>v \<in> snd ` set d. 0 \<le> v \<Longrightarrow> 0 \<le> x \<Longrightarrow> 0 \<le> (v :: int)"
  by (drule dset_values) blast

lemma dget_seen: "\<forall>v \<in> snd ` set d. 0 \<le> v \<Longrightarrow> 0 \<le> (dget d k 0 :: int)"
  by (cases "map_of d k") (force simp: dget_def dest: map_of_SomeD)+

lemma superseded_ok: "selector_ok s \<Longrightarrow> selector_ok (update_superseded i s)"
proof -
  assume s: "selector_ok s"
  then have seen: "\<forall>v \<in> snd ` set (sl_seen s). 0 \<le> v" unfolding selector_ok_def by blast
  have "0 \<le> dget (sl_seen s) i 0 + 1" using dget_seen [OF seen, of i] by linarith
  then have "0 \<le> v" if "v \<in> snd ` set (dset i (dget (sl_seen s) i 0 + 1) (sl_seen s))" for v
    using seen_dset [OF that seen] by blast
  then have "\<forall>v \<in> snd ` set (sl_seen (update_superseded i s)). 0 \<le> v" by (simp add: update_superseded_def)
  moreover have "sl_prompt_post (update_superseded i s) = sl_prompt_post s" "sl_bucket_post (update_superseded i s) = sl_bucket_post s"
    by (simp_all add: update_superseded_def)
  ultimately show ?thesis using s unfolding selector_ok_def by metis
qed

lemma new_selector_ok: "selector_ok new_selector"
  by (simp add: selector_ok_def new_selector_def)

lemma load_ok:
  assumes "selector_ok s" and "0 \<le> d"
  shows "selector_ok (fst (load_selector (Some (n, s)) m d t))"
proof -
  obtain s1 r where d: "decay_steps (nat (max 0 (m - n))) d s = (s1, r)" by fastforce
  have "selector_ok s1" using decay_steps_ok [OF assms] d by (metis fst_conv)
  then show ?thesis using d by (cases r) (simp_all add: load_selector_def)
qed

lemma selector_step_ok: "selector_ok s \<Longrightarrow> decays_forward opn \<Longrightarrow> selector_ok (selector_step rows s opn)"
proof (cases opn)
  case (NextPrompt draw cooldown eligible)
  assume "selector_ok s"
  then show ?thesis using NextPrompt best_of_ok by (simp add: next_prompt_def del: best_of.simps split: list.split)
next
  case (Restart n m d)
  assume "selector_ok s" and "decays_forward opn"
  then show ?thesis using Restart load_ok [of s d n m new_selector] by (simp add: save_selector_def)
qed (simp_all add: update_accepted_ok update_local_reject_def superseded_ok update_neutral_def checkpoint_change_ok)

lemma selector_run_ok:
  "selector_ok s \<Longrightarrow> \<forall>opn \<in> set ops. decays_forward opn \<Longrightarrow> selector_ok (foldl (selector_step rows) s ops)"
  by (induction ops arbitrary: s) (simp_all add: selector_step_ok)

text \<open>
  No posterior leaves the domain of the Beta distribution. After any sequence of accepted and rejected groups, claims by others, checkpoint
  changes, picks and restarts, including calls that fail half way (rewards out of range, an empty data set), every parameter handed
  to the sampler is at least one and every count of competitors is non-negative, so the penalty never favours a contested prompt.
\<close>

theorem posteriors_stay_proper:
  assumes "s = foldl (selector_step rows) new_selector ops" and "\<forall>opn \<in> set ops. decays_forward opn"
    and "posterior_for rows idx s = (s1, Inr po)"
  shows "1 \<le> po_alpha po \<and> 1 \<le> po_beta po \<and> exp (- SELECTOR_GAMMA * of_int (dget (sl_seen s) idx 0)) \<le> 1"
proof -
  have s: "selector_ok s" unfolding assms(1) by (rule selector_run_ok [OF new_selector_ok assms(2)])
  have "po_ok po" using posterior_for_ok [OF s assms(3)] by blast
  moreover have "0 \<le> dget (sl_seen s) idx 0" by (rule dget_seen) (use s in \<open>simp add: selector_ok_def\<close>)
  ultimately show ?thesis by (simp add: po_ok_def SELECTOR_GAMMA_def)
qed

theorem posteriors_stay_proper_witness:
  "let s = foldl (selector_step [[]]) new_selector [Accepted 4 [1, 0], Superseded 4, Restart 1 3 (1 / 2)]
   in snd (posterior_for [[]] 4 s) = Inr \<lparr> po_alpha = 5 / 4, po_beta = 5 / 4 \<rparr> \<and> exp (- SELECTOR_GAMMA * of_int (dget (sl_seen s) 4 0)) \<le> 1"
proof -
  define s where "s = foldl (selector_step [[]]) new_selector [Accepted 4 [1, 0], Superseded 4, Restart 1 3 (1 / 2)]"
  have "snd (posterior_for [[]] 4 s) = Inr \<lparr> po_alpha = 5 / 4, po_beta = 5 / 4 \<rparr>"
    by (simp add: s_def update_accepted_def ensure_prompt_post_def ensure_bucket_post_def new_selector_def po_update_def int_of_reward_def Let_def
        BetaPosterior_def bucket_of_def dget_def update_superseded_def save_selector_def load_selector_def on_checkpoint_change_def
        po_decay_def posterior_for_def numeral_2_eq_2)
  then obtain s1 where p: "posterior_for [[]] 4 s = (s1, Inr \<lparr> po_alpha = 5 / 4, po_beta = 5 / 4 \<rparr>)" by (metis prod.collapse)
  from posteriors_stay_proper [OF s_def _ p] have "exp (- SELECTOR_GAMMA * of_int (dget (sl_seen s) 4 0)) \<le> 1" by simp
  then show ?thesis using p unfolding s_def Let_def by simp
qed

section \<open>The choice\<close>

text \<open>The posterior a call uses for a prompt, as a function of the state: creating a default one does not change any.\<close>

definition used_posterior :: "bucket_rows \<Rightarrow> selector \<Rightarrow> int \<Rightarrow> posterior res" where
  "used_posterior rows s idx =
     (case map_of (sl_prompt_post s) idx of
        Some po \<Rightarrow> Inr po
      | None \<Rightarrow> rbind (bucket_of rows idx) (\<lambda>k. Inr (case map_of (sl_bucket_post s) k of Some po \<Rightarrow> po | None \<Rightarrow> BetaPosterior)))"

lemma posterior_for_used:
  "posterior_for rows idx s = (s1, r) \<Longrightarrow>
     r = used_posterior rows s idx \<and> used_posterior rows s1 = used_posterior rows s \<and> sl_seen s1 = sl_seen s"
proof -
  assume p: "posterior_for rows idx s = (s1, r)"
  show ?thesis
  proof (cases "map_of (sl_prompt_post s) idx")
    case (Some po)
    then show ?thesis using p by (simp add: posterior_for_def used_posterior_def)
  next
    case None
    show ?thesis
    proof (cases "bucket_of rows idx")
      case (Inl e)
      then show ?thesis using p None by (simp add: posterior_for_def ensure_bucket_post_def used_posterior_def)
    next
      case (Inr k)
      have same: "used_posterior rows (s \<lparr> sl_bucket_post := dset k BetaPosterior (sl_bucket_post s) \<rparr>) = used_posterior rows s"
        if "map_of (sl_bucket_post s) k = None"
        using that by (auto simp: used_posterior_def fun_eq_iff split: option.split intro!: arg_cong2 [where f = rbind])
      show ?thesis using p None Inr same
        by (cases "map_of (sl_bucket_post s) k") (auto simp: posterior_for_def ensure_bucket_post_def used_posterior_def)
    qed
  qed
qed

text \<open>The score the \<open>j\<close>-th candidate of a call gets.\<close>

definition candidate_score :: "bucket_rows \<Rightarrow> (nat \<Rightarrow> real \<Rightarrow> real \<Rightarrow> real) \<Rightarrow> selector \<Rightarrow> nat \<Rightarrow> int \<Rightarrow> real" where
  "candidate_score rows draw s j idx =
     (case used_posterior rows s idx of
        Inl e \<Rightarrow> - 1
      | Inr po \<Rightarrow> prompt_score (draw j (po_alpha po) (po_beta po)) idx s)"

lemma best_of_result:
  assumes "best_of rows draw i cs b bs s = (s1, Inr best)"
  shows "(best = b \<and> (\<forall>j < length cs. candidate_score rows draw s (i + j) (cs ! j) \<le> bs))
    \<or> (\<exists>j < length cs. best = cs ! j \<and> bs < candidate_score rows draw s (i + j) best
        \<and> (\<forall>j' < length cs. candidate_score rows draw s (i + j') (cs ! j') \<le> candidate_score rows draw s (i + j) best)
        \<and> (\<forall>j' < j. candidate_score rows draw s (i + j') (cs ! j') < candidate_score rows draw s (i + j) best))"
  using assms
proof (induction cs arbitrary: i b bs s)
  case Nil
  then show ?case by simp
next
  case (Cons c cs)
  let ?f = "\<lambda>j. candidate_score rows draw s (i + j) ((c # cs) ! j)"
  obtain s2 r where p: "posterior_for rows c s = (s2, r)" by fastforce
  obtain po where r: "r = Inr po" using Cons.prems p by (cases r) simp_all
  note u = posterior_for_used [OF p]
  define sc where "sc = prompt_score (draw i (po_alpha po) (po_beta po)) c s2"
  have "used_posterior rows s c = Inr po" using u r by simp
  then have f0: "?f 0 = sc" using u by (simp add: candidate_score_def sc_def prompt_score_def)
  have step: "candidate_score rows draw s2 j x = candidate_score rows draw s j x" for j x
    using u by (simp add: candidate_score_def prompt_score_def cong: sum.case_cong)
  have fS: "candidate_score rows draw s2 (Suc i + j) (cs ! j) = ?f (Suc j)" for j by (simp add: step)
  show ?case
  proof (cases "bs < sc")
    case True
    have e: "best_of rows draw (Suc i) cs c sc s2 = (s1, Inr best)" using Cons.prems p r True by (simp add: sc_def [symmetric] Let_def)
    from Cons.IH [OF e] show ?thesis
    proof (elim disjE exE conjE)
      assume "best = c" and le: "\<forall>j < length cs. candidate_score rows draw s2 (Suc i + j) (cs ! j) \<le> sc"
      then show ?thesis using f0 fS True by (intro disjI2 exI [of _ 0]) (auto simp: less_Suc_eq_0_disj)
    next
      fix j assume j: "j < length cs" "best = cs ! j" "sc < candidate_score rows draw s2 (Suc i + j) best"
        "\<forall>j' < length cs. candidate_score rows draw s2 (Suc i + j') (cs ! j') \<le> candidate_score rows draw s2 (Suc i + j) best"
        "\<forall>j' < j. candidate_score rows draw s2 (Suc i + j') (cs ! j') < candidate_score rows draw s2 (Suc i + j) best"
      then show ?thesis using f0 fS True by (intro disjI2 exI [of _ "Suc j"]) (auto simp: less_Suc_eq_0_disj)
    qed
  next
    case False
    have e: "best_of rows draw (Suc i) cs b bs s2 = (s1, Inr best)" using Cons.prems p r False by (simp add: sc_def [symmetric] Let_def)
    from Cons.IH [OF e] show ?thesis
    proof (elim disjE exE conjE)
      assume "best = b" and le: "\<forall>j < length cs. candidate_score rows draw s2 (Suc i + j) (cs ! j) \<le> bs"
      then show ?thesis using f0 fS False by (intro disjI1) (auto simp: less_Suc_eq_0_disj)
    next
      fix j assume j: "j < length cs" "best = cs ! j" "bs < candidate_score rows draw s2 (Suc i + j) best"
        "\<forall>j' < length cs. candidate_score rows draw s2 (Suc i + j') (cs ! j') \<le> candidate_score rows draw s2 (Suc i + j) best"
        "\<forall>j' < j. candidate_score rows draw s2 (Suc i + j') (cs ! j') < candidate_score rows draw s2 (Suc i + j) best"
      then show ?thesis using f0 fS False by (intro disjI2 exI [of _ "Suc j"]) (auto simp: less_Suc_eq_0_disj)
    qed
  qed
qed

text \<open>
  A pick is the first best admissible prompt: it is eligible, not in cooldown, its sampled score is at least that of every other candidate,
  and every candidate visited before it scored less; the call fails with its error exactly when
  everything is in cooldown or excluded.
\<close>

theorem next_prompt_is_best:
  assumes "\<And>i a b. 0 \<le> draw i a b \<and> draw i a b \<le> 1" and "cs = selector_candidates rows cooldown eligible"
  shows "(cs = [] \<longrightarrow> next_prompt rows draw cooldown eligible s = (s, Inl RuntimeError))
    \<and> (\<forall>s1 best. next_prompt rows draw cooldown eligible s = (s1, Inr best) \<longrightarrow>
        best \<notin> cooldown \<and> (\<forall>is. eligible = Some is \<longrightarrow> best \<in> set is)
        \<and> (\<exists>j < length cs. best = cs ! j
            \<and> (\<forall>j' < length cs. candidate_score rows draw s j' (cs ! j') \<le> candidate_score rows draw s j best)
            \<and> (\<forall>j' < j. candidate_score rows draw s j' (cs ! j') < candidate_score rows draw s j best)))"
proof (intro conjI impI allI)
  assume "cs = []"
  then show "next_prompt rows draw cooldown eligible s = (s, Inl RuntimeError)" using assms(2) by (simp add: next_prompt_def)
next
  fix s1 best assume n: "next_prompt rows draw cooldown eligible s = (s1, Inr best)"
  then have "cs \<noteq> []" using assms(2) by (auto simp: next_prompt_def)
  then obtain c rest where cs: "cs = c # rest" by (cases cs) blast+
  have run: "best_of rows draw 0 cs c (- 1) s = (s1, Inr best)"
    using n assms(2) cs by (simp add: next_prompt_def del: best_of.simps split: list.splits)
  obtain po where po: "used_posterior rows s c = Inr po"
    using run cs posterior_for_used [of rows c s] by (auto split: prod.splits sum.splits)
  have "0 \<le> candidate_score rows draw s 0 c"
    using po prompt_score_nonneg [of "draw 0 (po_alpha po) (po_beta po)" 8 2 6] assms(1) by (simp add: candidate_score_def prompt_score_def)
  then have "\<not> (\<forall>j < length cs. candidate_score rows draw s (0 + j) (cs ! j) \<le> - 1)" using cs by (auto intro!: exI [of _ 0])
  with best_of_result [OF run]
  have r: "\<exists>j < length cs. best = cs ! j
        \<and> (\<forall>j' < length cs. candidate_score rows draw s j' (cs ! j') \<le> candidate_score rows draw s j best)
        \<and> (\<forall>j' < j. candidate_score rows draw s j' (cs ! j') < candidate_score rows draw s j best)"
    unfolding add_0 by blast
  then show "\<exists>j < length cs. best = cs ! j
        \<and> (\<forall>j' < length cs. candidate_score rows draw s j' (cs ! j') \<le> candidate_score rows draw s j best)
        \<and> (\<forall>j' < j. candidate_score rows draw s j' (cs ! j') < candidate_score rows draw s j best)" .
  from r have "best \<in> set cs" by auto
  then show "best \<notin> cooldown" and "\<And>is. eligible = Some is \<Longrightarrow> best \<in> set is"
    using assms(2) by (auto simp: selector_candidates_def split: option.splits)
qed

theorem next_prompt_is_best_witness:
  "snd (next_prompt [[], []] (\<lambda>i a b. 1 / 2) {0} None new_selector) = Inr 1 \<and> (1 :: int) \<notin> {0}"
proof -
  have n: "snd (next_prompt [[], []] (\<lambda>i a b. 1 / 2) {0} None new_selector) = Inr 1"
    by (simp add: next_prompt_def selector_candidates_def posterior_for_def ensure_bucket_post_def bucket_of_def new_selector_def Let_def dget_def
        numeral_2_eq_2 upt_rec)
  then obtain s1 where "next_prompt [[], []] (\<lambda>i a b. 1 / 2) {0} None new_selector = (s1, Inr 1)" by (metis prod.collapse)
  with next_prompt_is_best [of "\<lambda>i a b. 1 / 2", OF _ refl, of "[[], []]" "{0}" None new_selector] n show ?thesis by auto
qed

section \<open>Restarts\<close>

lemma decay_all_closed:
  assumes "0 \<le> f" and "f \<le> 1"
  shows "decay_all f d = (map (\<lambda>(k, po). (k, \<lparr> po_alpha = 1 + f * (po_alpha po - 1), po_beta = 1 + f * (po_beta po - 1) \<rparr>)) d, Inr ())"
  using assms by (induction d) (auto simp: po_decay_def)

lemma checkpoint_change_total:
  assumes "0 \<le> f" and "f \<le> 1"
  shows "\<exists>s1. on_checkpoint_change f s = (s1, Inr ())
    \<and> (\<forall>idx po. map_of (sl_prompt_post s) idx = Some po \<longrightarrow>
        map_of (sl_prompt_post s1) idx = Some \<lparr> po_alpha = 1 + f * (po_alpha po - 1), po_beta = 1 + f * (po_beta po - 1) \<rparr>)"
proof -
  have m: "map_of (map (\<lambda>(k, po). (k, g po)) d) idx = map_option g (map_of d idx)" for g :: "posterior \<Rightarrow> posterior" and d and idx :: int
    by (induction d) auto
  show ?thesis by (simp add: on_checkpoint_change_def decay_all_closed [OF assms] m)
qed

text \<open>
  A restart is transparent: a miner that saves, is restarted \<open>k\<close> checkpoints later and loads the file has the state it would have by applying
  the \<open>k\<close> checkpoint changes while running, and every prompt's evidence beyond the prior is scaled by the decay to the power \<open>k\<close>.
  What the call returns is the current checkpoint, not the one of the file.
\<close>

theorem restart_decays_like_running:
  assumes "0 \<le> d" and "d \<le> 1"
  shows "\<exists>s1. decay_steps k d s = (s1, Inr ())
    \<and> load_selector (fst (save_selector True n s file)) (n + int k) d fresh = (s1, Inr (Some (n + int k)))
    \<and> (\<forall>idx po. map_of (sl_prompt_post s) idx = Some po \<longrightarrow>
        map_of (sl_prompt_post s1) idx = Some \<lparr> po_alpha = 1 + d ^ k * (po_alpha po - 1), po_beta = 1 + d ^ k * (po_beta po - 1) \<rparr>)"
proof -
  have "\<exists>s1. decay_steps k d s = (s1, Inr ())
    \<and> (\<forall>idx po. map_of (sl_prompt_post s) idx = Some po \<longrightarrow>
        map_of (sl_prompt_post s1) idx = Some \<lparr> po_alpha = 1 + d ^ k * (po_alpha po - 1), po_beta = 1 + d ^ k * (po_beta po - 1) \<rparr>)"
  proof (induction k arbitrary: s)
    case 0
    then show ?case by simp
  next
    case (Suc k)
    obtain s2 where c: "on_checkpoint_change d s = (s2, Inr ())"
      and p: "\<forall>idx po. map_of (sl_prompt_post s) idx = Some po \<longrightarrow>
        map_of (sl_prompt_post s2) idx = Some \<lparr> po_alpha = 1 + d * (po_alpha po - 1), po_beta = 1 + d * (po_beta po - 1) \<rparr>"
      using checkpoint_change_total [OF assms, of s] by blast
    from Suc.IH [of s2] c p show ?case by (force simp: ac_simps)
  qed
  then show ?thesis by (auto simp: save_selector_def load_selector_def)
qed

theorem restart_decays_like_running_witness:
  "\<exists>s1. load_selector (fst (save_selector True 4 (new_selector \<lparr> sl_prompt_post := [(7, \<lparr> po_alpha = 5, po_beta = 3 \<rparr>)] \<rparr>) None)) (4 + int 2) (1 / 2) new_selector
       = (s1, Inr (Some (4 + int 2)))
     \<and> map_of (sl_prompt_post s1) 7 = Some \<lparr> po_alpha = 1 + (1 / 2) ^ 2 * (5 - 1), po_beta = 1 + (1 / 2) ^ 2 * (3 - 1) \<rparr>"
  using restart_decays_like_running [of "1 / 2" 2 "new_selector \<lparr> sl_prompt_post := [(7, \<lparr> po_alpha = 5, po_beta = 3 \<rparr>)] \<rparr>" 4 None new_selector]
  by fastforce

end
