(* ===== verification/Spec2Isabelle.thy ===== *)
theory Spec2Isabelle
  imports BatchSelection Signatures Merkle GrailVerifier Submission Verifier Batcher WeightOnly Bft MixController Submitter HonestMiner Trigger Environment Drand VllmBackend PromptSelector
begin

text \<open>
  A verification library of the Python package \<open>reliquary\<close> (directory \<open>src/reliquary\<close>): a network in
  which miners sample groups of rollouts of a language model on prompts, commit to them, and a
  validator checks every commitment against its own forward pass, selects a batch, trains on it,
  publishes the new checkpoint and pays the miners.

  The parts and how they interact. A miner polls \<open>/state\<close> of the validator's server, picks a
  prompt of the window's range, generates a group with tokens forced by public randomness, builds a
  commit for every rollout (hidden-state sketches, log-probabilities, a signature), composes a group
  with mixed rewards and submits it under a Merkle root and a signed envelope. The server queues the
  submission for the batcher of the open window, which rejects it with a reason or admits it; when
  enough distinct prompts have been admitted the service seals the window, selects the batch, puts its
  prompts in cooldown, updates the moving average of the miners' scores, trains, publishes, archives
  the window and submits weights. A second kind of validator rebuilds scores from the archive.

  Theories, in the order of the code.
  \<^item> \<open>Prelude\<close>, \<open>Bytes\<close>, \<open>PyText\<close>, \<open>Json\<close>: Python itself. Exceptions are values of \<open>py_error + 'a\<close>, a
    dictionary is an association list in insertion order, a finite float is a real with the special
    values beside it, an integer is an \<open>int\<close>, and fixed-width integers (\<open>numpy\<close>, \<open>torch\<close>) are words.
    The interface \<open>prefix_code\<close> (framings that can be cut off a byte string in one way) is
    interpreted for UTF-8, length prefixes, token ids and percent quoting.
  \<^item> \<open>Constants\<close>: \<open>constants.py\<close>. \<open>Tokens\<close>, \<open>Modeling\<close>: \<open>protocol/tokens.py\<close>, \<open>shared/hf_compat.py\<close>,
    \<open>shared/modeling.py\<close>. \<open>Crypto\<close>: \<open>protocol/crypto.py\<close>, \<open>shared/prompt_range.py\<close>. \<open>Signatures\<close>, \<open>Merkle\<close>,
    \<open>GrailVerifier\<close>, \<open>Submission\<close>: the files of \<open>protocol/\<close> with those names. \<open>ForcedSampling\<close>:
    \<open>environment/forced_sampling.py\<close>.
  \<^item> The problems: \<open>Dataset\<close>, \<open>MathAnswer\<close>, \<open>CodeGrader\<close>, \<open>Environment\<close> model \<open>environment/virtual_parquet.py\<close>, the grading of
    \<open>openmathinstruct.py\<close>, \<open>code_grader_driver.py\<close> with \<open>code_grader.py\<close>, and the two environments. A dataset's
    state is its manifest and two bounded caches; a read is cut where its locks are released, so several can interleave.
  \<^item> The validator: \<open>Verifier\<close>, \<open>Cooldown\<close>, \<open>BatchSelection\<close>, \<open>Batcher\<close>, \<open>Server\<close>, \<open>Checkpoint\<close>,
    \<open>Training\<close>, \<open>Telemetry\<close>, \<open>Ema\<close>, \<open>Service\<close>, \<open>WeightOnly\<close> model the files of \<open>validator/\<close>; \<open>Chain\<close>, \<open>Drand\<close>
    and \<open>Storage\<close> those of \<open>infrastructure/\<close>. \<open>Service\<close> composes them: \<open>service_reach\<close> interleaves
    requests, the queue worker and the halves of an iteration.
  \<^item> The miner: \<open>ForcedSeed\<close>, \<open>Bft\<close>, \<open>MixController\<close>, \<open>Submitter\<close> and \<open>Selection\<close>, \<open>MinerCommit\<close>, \<open>Generation\<close>, \<open>Baking\<close>, \<open>Engine\<close>,
    \<open>Trigger\<close>, \<open>MinerCheckpoint\<close> model \<open>miner/\<close>: the first four \<open>forced_seed_sampler.py\<close>,
    \<open>bft.py\<close>, \<open>mix_controller.py\<close>, \<open>submitter.py\<close>, the others \<open>engine.py\<close> in the order of its pipeline, with \<open>zone.py\<close>.
    \<open>HonestMiner\<close> runs the miner's commit through the validator's checks; \<open>Trigger\<close> interleaves the trigger loop, the
    bursts and the generators (\<open>miner_reach\<close>). \<open>VllmForced\<close>
    and \<open>VllmBackend\<close> model \<open>vllm_forced_seed.py\<close> and \<open>vllm_backend.py\<close>: the forced-seed logits processors with the buffers they keep between
    steps, and the two back ends with their loading, requests, answers and reloads.

  What the groups of lemmas show. Codes and signatures: every signed or hashed message determines its
  fields, and messages of different kinds differ. Sketches: the batched computation agrees with the
  scalar one, an honest commitment verifies, a passed proof was checked at every challenged position,
  and a sketch outside the field passes without being checked. Windows: what holds of every reachable
  batcher, server and service state; batch selection against its reference; cooldown as rebuilt
  from the archive against the live map; closing a window leaves the outcome that happened, also when training raises. Scores: they and the burn sum to one, and a replay gives the live scores.
  Problems: whatever is cached or evicted and however reads interleave, a row is the snapshot's, so miner and validator
  pose the same problem; equal answers and exact numbers score one, only whitelisted words reach the algebra system,
  a reward is a fraction of the cases. Randomness: a beacon is one that a second source confirms, whatever the relays send.
  Training: advantages are normalised; which inputs never train. Sampling: the fast paths agree with the plain ones
  and what a miner generates is what the validator's check expects. Client: every exchange ends, only transient failures are
  retried, and only committed bytes are revealed. Miner: a
  composed group is what the validator pays for, batching, prefetching and streaming do not change what is baked, no window gets more bursts
  than its share, and which of the miner's paths cannot work as they are written.
 Back ends: the batched processor writes what the
  closures of the requests write row by row, the rollouts of a forced group are the tokens the validator recomputes, one batched call stands for
  one call per prompt, and an engine is built after the last reload from the path of that reload.

  Bounds and termination. All recursion is structural or has a measure; loops that the code bounds
  (retries, attempts, windows of the archive) keep the bound. The main loops of the service and
  of the miner run forever: their iterations are steps, and theorems quantify over all
  finite runs.

  Parameters. Tensor primitives, the model's forward pass, \<open>generate\<close>, the tokenizer, the keypair library, hash
  functions, the object store, the HTTP client, the subtensor client and the random generator are
  arguments; what the code relies on of them is a named predicate (\<open>rng_lawful\<close>, \<open>torch_lawful\<close>,
  \<open>kp_lawful\<close>, \<open>codec_ok\<close>, \<open>descending\<close>, \<open>pydantic_lawful\<close>, \<open>reads_counts\<close>) that a witness instantiates.

  Executing a program in the grader (which reads and changes the state of the driver's process), sympy, \<open>ast.parse\<close>, the dataset hub and pyarrow, and the HTTP relays are arguments too.

  \<open>PromptSelector\<close> stands apart: the miner's choice of prompts (\<open>selector.py\<close>, \<open>buckets.py\<close>), whose posteriors stay in the
  domain of their distribution and whose restarts lose nothing.

  Not modelled: the command line (\<open>cli/main.py\<close>), which parses options and starts the processes; \<open>shared/forward.py\<close>,
  which only calls the model; logging and metrics; rounding of floats; the offline predictor
  and the files of baked entries (\<open>prompt_predictor.py\<close>, \<open>pool_persistence.py\<close>); the set-up of the miner's engine; the scripts, the operations files and the tests. 
\<close>

section \<open>The miner against the validator of this repository\<close>

lemma silent_poll:
  assumes "gs_randomness st = []"
  shows "eg_bake (flush_on_flip ee st s) = eg_bake s" and "eg_tasks (flush_on_flip ee st s) = eg_tasks s"
    and "bv_enforce (ee_bake ee) \<Longrightarrow> eg_tasks (prune_windows st (decide_fire ee st s)) = eg_tasks s"
  using assms by (simp_all add: flush_on_flip_def prune_windows_def decide_fire_def fire_as_ready_def Let_def)

text \<open>
  C40. The two halves of the repository do not meet. The server's \<open>/state\<close> never publishes the window's randomness, and a miner under the
  forced seed (the default) neither bakes nor fires without it: whatever the window, an iteration of its trigger loop that
  polls this server schedules no burst and learns no randomness, and its generator then leaves the state as it is.
\<close>

theorem miner_waits_for_randomness:
  assumes "state_view cm bs srv = Inr st" and "ti_state io = Inr st" and "bv_enforce (ee_bake ee)" and "ee_active ee \<noteq> []"
  shows "\<exists>s1 md1. trigger_tick ee lo io (s, md) = Inr (s1, md1) \<and> eg_tasks s1 = eg_tasks s
    \<and> ba_randomness (eg_bake s1) = ba_randomness (eg_bake s)
    \<and> (ba_randomness (eg_bake s) = [] \<longrightarrow> generator_iteration ee batch_size draws ahead s1 = s1)"
proof -
  let ?n = "note_cooldowns ee io st s"
  have r: "gs_randomness st = []" using assms(1) by (auto simp: state_view_def Let_def split: option.splits)
  obtain s1 md1 advanced where t: "take_checkpoint ee lo (ti_download io) st (flush_on_flip ee st ?n, md) = ((s1, md1), advanced)"
    by (metis prod.exhaust)
  have n: "eg_bake ?n = eg_bake s" "eg_tasks ?n = eg_tasks s" by (simp_all add: note_cooldowns_def)
  note k = checkpoint_keeps [OF t] silent_poll [OF r, of ee]
  have "generator_iteration ee batch_size draws ahead s2 = s2" if "ba_randomness (eg_bake s2) = []" for s2
    using that assms(3) by (simp add: generator_iteration_def)
  then show ?thesis using t k n assms(2-4) by (cases advanced) (simp_all add: trigger_tick_def decide_keeps)
qed

theorem miner_waits_for_randomness_witness:
  "\<exists>st s1 md1. state_view toy_cm [(toy_be, GrpoWindowBatcher 7 0)] toy_server = Inr st
     \<and> trigger_tick sample_engine_env quiet_loaders (quiet_io \<lparr> ti_state := Inr st \<rparr>) (quiet_engine \<lparr> eg_pool := [quiet_entry] \<rparr>, quiet_models)
         = Inr (s1, md1)
     \<and> eg_tasks s1 = [] \<and> generator_iteration sample_engine_env 2 (\<lambda>k. first_draws) [] s1 = s1"
proof -
  obtain st where st: "state_view toy_cm [(toy_be, GrpoWindowBatcher 7 0)] toy_server = Inr st"
    by (auto simp: state_view_def toy_server_def Let_def)
  have "eg_tasks (quiet_engine \<lparr> eg_pool := [quiet_entry] \<rparr>) = []" "ba_randomness (eg_bake (quiet_engine \<lparr> eg_pool := [quiet_entry] \<rparr>)) = []"
    by (simp_all add: quiet_engine_def new_engine_def)
  then show ?thesis
    using miner_waits_for_randomness [OF st, of "quiet_io \<lparr> ti_state := Inr st \<rparr>" sample_engine_env quiet_loaders
        "quiet_engine \<lparr> eg_pool := [quiet_entry] \<rparr>" quiet_models 2 "\<lambda>k. first_draws" "[]"] st
    by (simp add: quiet_env) metis
qed

end
